(* ===== verification/Prelude.thy ===== *)
theory Prelude
  imports Main "HOL-Library.Word" "HOL-Library.Multiset"
begin

text \<open>
  The types and the generic lemmas every component shares.

  \<^item> \<open>u64\<close> is \<open>size_t\<close>, \<open>uint64_t\<close> and every pointer of the code (\<open>nullptr\<close> is 0);
    \<open>u32\<close> is \<open>uint32_t\<close>. Arithmetic on them wraps, as the code's does. An \<open>int\<close> stands for
    the code's \<open>int\<close>, \<open>long\<close> and \<open>int32_t\<close> values that are only produced and compared.
  \<^item> \<open>exn\<close> is what a C++ exception carries as far as the code distinguishes exceptions:
    \<open>BadAlloc\<close> for \<open>std::bad_alloc\<close>, \<open>StdException what\<close> for every other
    \<open>std::exception\<close>.
  \<^item> A result of type \<open>'a option\<close> whose \<open>None\<close> means undefined behaviour (division by
    zero, an index outside a vector) is written \<open>None\<close> at the very place where the code has it.
  \<^item> \<open>frame_rules\<close> collects the lemmas that say which part of a state an operation leaves
    alone; \<open>step_specs\<close> the lemmas that say what an operation adds to the call trace.
\<close>

named_theorems frame_rules
named_theorems step_specs

type_synonym u64 = "64 word"
type_synonym u32 = "32 word"

datatype exn = BadAlloc | StdException string

abbreviation (input) nullptr :: u64 where
  "nullptr \<equiv> 0"

text \<open>
  \<open>std::lcm\<close> on \<open>size_t\<close>: undefined when the least common multiple is not representable.
\<close>

definition std_lcm :: "u64 \<Rightarrow> u64 \<Rightarrow> u64 option" where
  "std_lcm a b =
     (let l = lcm (unat a) (unat b) in if l < 2 ^ 64 then Some (of_nat l) else None)"

subsection \<open>Sums of contributions over a vector\<close>

text \<open>
  Replacing one element of a vector changes a sum over it by the difference of that element's
  contribution. Stated without subtraction, so that it holds for multisets.
\<close>

lemma sum_list_update_contrib:
  fixes f :: "'a \<Rightarrow> 'b::comm_monoid_add"
  assumes "i < length xs"
  shows "sum_list (map f (xs[i := x])) + f (xs ! i) = sum_list (map f xs) + f x"
  using assms
proof (induction xs arbitrary: i)
  case Nil
  then show ?case by simp
next
  case (Cons y ys)
  then show ?case
  proof (cases i)
    case 0
    then show ?thesis by (simp add: ac_simps)
  next
    case (Suc j)
    with Cons have "sum_list (map f (ys[j := x])) + f (ys ! j) = sum_list (map f ys) + f x"
      by simp
    then show ?thesis using Suc by (simp add: add.assoc)
  qed
qed

lemma sum_list_update_zero:
  fixes f :: "'a \<Rightarrow> 'b::comm_monoid_add"
  assumes "i < length xs" and "f (xs ! i) = 0"
  shows "sum_list (map f (xs[i := x])) = sum_list (map f xs) + f x"
  using sum_list_update_contrib [OF assms(1), of f x] assms(2) by simp

lemma sum_list_update_same:
  fixes f :: "'a \<Rightarrow> 'b::comm_monoid_add"
  assumes "f x = f (xs ! i)"
  shows "sum_list (map f (xs[i := x])) = sum_list (map f xs)"
proof (cases "i < length xs")
  case True
  then have "map f (xs[i := x]) = map f xs"
    by (simp add: map_update assms list_update_same_conv)
  then show ?thesis by simp
next
  case False
  then show ?thesis by (simp add: list_update_beyond)
qed

lemma sum_list_replicate_zero [simp]:
  "sum_list (replicate n (0 :: 'b::comm_monoid_add)) = 0"
  by (induction n) auto

lemma sum_list_nth_upt:
  "sum_list (map f xs) = sum_list (map (\<lambda>i. f (xs ! i)) [0..<length xs])"
proof -
  have "map f xs = map (\<lambda>i. f (xs ! i)) [0..<length xs]"
    by (rule nth_equalityI) auto
  then show ?thesis by simp
qed

lemma sum_list_filter_partition:
  fixes f :: "'a \<Rightarrow> 'b::comm_monoid_add"
  shows "sum_list (map f (filter P xs)) + sum_list (map f (filter (\<lambda>x. \<not> P x) xs)) =
    sum_list (map f xs)"
  by (induction xs) (auto simp: ac_simps)

lemma sum_list_concat_map:
  fixes f :: "'a \<Rightarrow> 'b::comm_monoid_add"
  shows "sum_list (map f (concat (map g xs))) = sum_list (map (\<lambda>x. sum_list (map f (g x))) xs)"
  by (induction xs) auto

lemma concat_map_filter_if:
  "concat (map (\<lambda>x. if P x then [g x] else []) xs) = map g (filter P xs)"
  by (induction xs) auto

lemma filter_eq_upt: "filter (\<lambda>x. x = k) [0..<n] = (if k < n then [k] else [])"
  by (induction n) (auto simp: less_Suc_eq)

subsection \<open>Words as numbers\<close>

lemma unat_u64_bound: "unat (x :: u64) < 2 ^ 64"
  using unsigned_less [of x] by simp

lemma unat_add_no_wrap:
  "unat a + unat b < 2 ^ 64 \<Longrightarrow> unat ((a :: u64) + b) = unat a + unat b"
  using unat_add_lem [of a b] by simp

lemma unat_mult_no_wrap:
  "unat a * unat b < 2 ^ 64 \<Longrightarrow> unat ((a :: u64) * b) = unat a * unat b"
  using unat_mult_lem [of a b] by simp

lemma unat_of_nat_u64: "n < 2 ^ 64 \<Longrightarrow> unat (of_nat n :: u64) = n"
  by (simp add: unat_of_nat take_bit_eq_mod)

lemma unat_sub_no_wrap: "unat b \<le> unat a \<Longrightarrow> unat ((a :: u64) - b) = unat a - unat b"
  by (simp add: unat_sub word_le_nat_alt)

text \<open>Clearing the low bits of an address rounds it down.\<close>

lemma and_not_mask_word:
  "and (x :: u64) (not (mask n)) = push_bit n (drop_bit n x)"
  by (rule bit_eqI) (auto simp: bit_simps)

lemma unat_and_not_mask: "unat (and (x :: u64) (not (mask n))) = unat x div 2 ^ n * 2 ^ n"
proof -
  have "push_bit n (drop_bit n x) + take_bit n x = x"
    by (rule bits_ident)
  then have "and x (not (mask n)) = x - take_bit n x"
    by (simp add: and_not_mask_word algebra_simps)
  moreover have t: "unat (take_bit n x) = unat x mod 2 ^ n"
    unfolding unsigned_take_bit_eq by (simp add: take_bit_eq_mod)
  ultimately have "unat (and x (not (mask n))) = unat x - unat x mod 2 ^ n"
    by (simp add: unat_sub_no_wrap)
  then show ?thesis
    by (simp add: minus_mod_eq_div_mult)
qed

end
