(* ===== verification/Cxx_Text.thy ===== *)
theory Cxx_Text
  imports Prelude
begin

text \<open>
  The parts of the C++ library's text handling that the sources rely on: decimal printing
  (\<open>std::to_string\<close>, \<open>operator<<\<close> on \<open>size_t\<close>), \<open>std::stoull\<close>, formatted extraction from an
  \<open>std::istringstream\<close> (\<open>operator>>\<close> into a string and into a \<open>size_t\<close>, in the C locale),
  the digit test \<open>find_first_not_of("0123456789")\<close> and \<open>fmt::format\<close> with plain \<open>{}\<close> fields
  (src/ucm_data_strategy/third_party/fmt). A failed extraction is \<open>None\<close>.
  The lemmas at the end are the print/parse round trips.
\<close>

subsection \<open>Characters\<close>

definition is_digit :: "char \<Rightarrow> bool" where
  "is_digit c \<longleftrightarrow> (48::nat) \<le> of_char c \<and> of_char c \<le> (57::nat)"

definition digit_val :: "char \<Rightarrow> nat" where
  "digit_val c = of_char c - 48"

definition digit_char :: "nat \<Rightarrow> char" where
  "digit_char d = char_of (48 + d)"

definition is_space :: "char \<Rightarrow> bool" where
  "is_space c \<longleftrightarrow> of_char c = (32::nat) \<or> ((9::nat) \<le> of_char c \<and> of_char c \<le> (13::nat))"

text \<open>\<open>s.find_first_not_of("0123456789") == npos\<close>\<close>

definition only_digits :: "string \<Rightarrow> bool" where
  "only_digits s \<longleftrightarrow> list_all is_digit s"

subsection \<open>Printing\<close>

fun nat_to_string :: "nat \<Rightarrow> string" where
  "nat_to_string n =
     (if n < 10 then [digit_char n] else nat_to_string (n div 10) @ [digit_char (n mod 10)])"

declare nat_to_string.simps [simp del]

definition to_string_u64 :: "u64 \<Rightarrow> string" where
  "to_string_u64 w = nat_to_string (unat w)"

definition to_string_int :: "int \<Rightarrow> string" where
  "to_string_int i = (if i < 0 then ''-'' @ nat_to_string (nat (- i)) else nat_to_string (nat i))"

text \<open>
  \<open>fmt::format\<close>: each \<open>{}\<close> is replaced by the next argument. The sources use no other field
  and pass as many arguments as there are fields.
\<close>

fun fmt_format :: "string \<Rightarrow> string list \<Rightarrow> string" where
  "fmt_format [] args = []"
| "fmt_format [c] args = [c]"
| "fmt_format (c # d # cs) args =
     (if c = CHR ''{'' \<and> d = CHR ''}''
      then (case args of [] \<Rightarrow> [] | a # as \<Rightarrow> a @ fmt_format cs as)
      else c # fmt_format (d # cs) args)"

declare fmt_format.simps [simp del]

subsection \<open>Parsing\<close>

definition digits_value :: "string \<Rightarrow> nat" where
  "digits_value ds = foldl (\<lambda>v c. 10 * v + digit_val c) 0 ds"

definition skip_ws :: "string \<Rightarrow> string" where
  "skip_ws s = dropWhile is_space s"

definition read_token :: "string \<Rightarrow> (string \<times> string) option" where
  "read_token s =
     (let t = skip_ws s; tok = takeWhile (\<lambda>c. \<not> is_space c) t
      in if tok = [] then None else Some (tok, dropWhile (\<lambda>c. \<not> is_space c) t))"

text \<open>An optional sign and the longest run of digits; \<open>None\<close> when there is no digit.\<close>

definition scan_unsigned :: "string \<Rightarrow> (bool \<times> nat \<times> string) option" where
  "scan_unsigned s =
     (let t = skip_ws s;
          neg = (case t of [] \<Rightarrow> False | c # _ \<Rightarrow> c = CHR ''-'');
          u = (case t of [] \<Rightarrow> t | c # cs \<Rightarrow> if c = CHR ''-'' \<or> c = CHR ''+'' then cs else t);
          ds = takeWhile is_digit u
      in if ds = [] then None else Some (neg, digits_value ds, dropWhile is_digit u))"

definition signed_u64 :: "bool \<Rightarrow> nat \<Rightarrow> u64" where
  "signed_u64 neg v = (if neg then - of_nat v else of_nat v)"

text \<open>
  \<open>stream >> x\<close> with \<open>size_t x\<close>: \<open>num_get\<close> takes a minus sign as negation modulo \<open>2 ^ 64\<close>,
  and sets the fail bit when there is no digit or the digits exceed \<open>2 ^ 64 - 1\<close>.
\<close>

definition read_size_t :: "string \<Rightarrow> (u64 \<times> string) option" where
  "read_size_t s =
     (case scan_unsigned s of None \<Rightarrow> None
      | Some (neg, v, rest) \<Rightarrow> if v < 2 ^ 64 then Some (signed_u64 neg v, rest) else None)"

text \<open>\<open>std::stoull\<close>: both of its exceptions are \<open>std::logic_error\<close>s whose text is \<open>stoull\<close>.\<close>

definition stoull :: "string \<Rightarrow> exn + u64" where
  "stoull s =
     (case scan_unsigned s of None \<Rightarrow> Inl (StdException ''stoull'')
      | Some (neg, v, rest) \<Rightarrow>
          if v < 2 ^ 64 then Inr (signed_u64 neg v) else Inl (StdException ''stoull''))"

subsection \<open>Digits\<close>

lemma digit_chars [simp]:
  "digit_char 0 = CHR ''0''" "digit_char (Suc 0) = CHR ''1''" "digit_char 1 = CHR ''1''"
  "digit_char 2 = CHR ''2''" "digit_char 3 = CHR ''3''" "digit_char 4 = CHR ''4''"
  "digit_char 5 = CHR ''5''" "digit_char 6 = CHR ''6''" "digit_char 7 = CHR ''7''"
  "digit_char 8 = CHR ''8''" "digit_char 9 = CHR ''9''"
  by code_simp+

lemma of_digit_char: "d < 10 \<Longrightarrow> of_char (digit_char d) = 48 + d"
  by (simp add: digit_char_def)

lemma is_digit_digit_char [simp]: "d < 10 \<Longrightarrow> is_digit (digit_char d)"
  by (simp add: is_digit_def of_digit_char)

lemma digit_val_digit_char [simp]: "d < 10 \<Longrightarrow> digit_val (digit_char d) = d"
  by (simp add: digit_val_def of_digit_char)

lemma digit_not_space: "is_digit c \<Longrightarrow> \<not> is_space c"
  by (auto simp: is_digit_def is_space_def)

lemma is_space_space [simp]: "is_space CHR '' ''"
  by (simp add: is_space_def)

lemma digit_not_sign: "is_digit c \<Longrightarrow> c \<noteq> CHR ''-'' \<and> c \<noteq> CHR ''+''"
  by (auto simp: is_digit_def)

lemma nat_to_string_digits: "only_digits (nat_to_string n)"
proof (induction n rule: nat_to_string.induct)
  case (1 n)
  then show ?case
    by (subst nat_to_string.simps) (auto simp: only_digits_def)
qed

lemma nat_to_string_nonempty [simp]: "nat_to_string n \<noteq> []"
  by (subst nat_to_string.simps) simp

lemma digits_value_snoc: "digits_value (ds @ [c]) = 10 * digits_value ds + digit_val c"
  by (simp add: digits_value_def)

lemma digits_value_single: "digits_value [c] = digit_val c"
  by (simp add: digits_value_def)

lemma digits_value_nat_to_string [simp]: "digits_value (nat_to_string n) = n"
proof (induction n rule: nat_to_string.induct)
  case (1 n)
  then show ?case
    by (subst nat_to_string.simps) (auto simp: digits_value_snoc digits_value_single)
qed

lemma nat_to_string_inj: "nat_to_string m = nat_to_string n \<Longrightarrow> m = n"
  by (metis digits_value_nat_to_string)

subsection \<open>Extraction undoes printing\<close>

lemma only_digits_no_space: "only_digits s \<Longrightarrow> list_all (\<lambda>c. \<not> is_space c) s"
  by (auto simp: only_digits_def list_all_iff digit_not_space)

lemma skip_ws_Cons_space [simp]: "is_space c \<Longrightarrow> skip_ws (c # s) = skip_ws s"
  by (simp add: skip_ws_def)

lemma skip_ws_no_space: "list_all (\<lambda>c. \<not> is_space c) s \<Longrightarrow> s \<noteq> [] \<Longrightarrow> skip_ws (s @ t) = s @ t"
  by (cases s) (auto simp: skip_ws_def)

lemma takeWhile_append_stop:
  "list_all P s \<Longrightarrow> (case t of [] \<Rightarrow> True | c # _ \<Rightarrow> \<not> P c) \<Longrightarrow>
     takeWhile P (s @ t) = s \<and> dropWhile P (s @ t) = t"
  by (induction s) (auto split: list.splits)

lemma read_token_append:
  assumes "list_all (\<lambda>c. \<not> is_space c) tok" and "tok \<noteq> []"
    and "case rest of [] \<Rightarrow> True | c # _ \<Rightarrow> is_space c"
  shows "read_token (tok @ rest) = Some (tok, rest)"
proof -
  have "takeWhile (\<lambda>c. \<not> is_space c) (tok @ rest) = tok \<and>
      dropWhile (\<lambda>c. \<not> is_space c) (tok @ rest) = rest"
    using assms(1,3) by (intro takeWhile_append_stop) (auto split: list.splits)
  then show ?thesis
    using assms(1,2) by (simp add: read_token_def Let_def skip_ws_no_space)
qed

lemma read_token_space [simp]: "read_token (CHR '' '' # s) = read_token s"
  by (simp add: read_token_def)

lemma read_token_Nil [simp]: "read_token [] = None"
  by (simp add: read_token_def skip_ws_def)

lemma scan_unsigned_space [simp]: "scan_unsigned (CHR '' '' # s) = scan_unsigned s"
  by (simp add: scan_unsigned_def)

lemma scan_unsigned_digits:
  assumes "only_digits ds" and "ds \<noteq> []"
    and "case rest of [] \<Rightarrow> True | c # _ \<Rightarrow> \<not> is_digit c"
  shows "scan_unsigned (ds @ rest) = Some (False, digits_value ds, rest)"
proof -
  obtain c cs where ds: "ds = c # cs"
    using assms(2) by (cases ds) auto
  have "is_digit c"
    using assms(1) by (simp add: ds only_digits_def)
  then have sign: "c \<noteq> CHR ''-'' \<and> c \<noteq> CHR ''+''"
    by (rule digit_not_sign)
  have skip: "skip_ws (ds @ rest) = ds @ rest"
    using assms(1,2) by (intro skip_ws_no_space only_digits_no_space)
  have tw: "takeWhile is_digit (ds @ rest) = ds \<and> dropWhile is_digit (ds @ rest) = rest"
    using assms(1,3) by (intro takeWhile_append_stop) (auto simp: only_digits_def)
  show ?thesis
    using sign skip tw by (simp add: scan_unsigned_def ds)
qed

lemma stoull_digits:
  assumes "only_digits ds" and "ds \<noteq> []"
  shows "stoull ds =
    (if digits_value ds < 2 ^ 64 then Inr (of_nat (digits_value ds))
     else Inl (StdException ''stoull''))"
  using scan_unsigned_digits [OF assms, of "[]"] by (simp add: stoull_def signed_u64_def)

lemma stoull_to_string [simp]: "stoull (to_string_u64 w) = Inr w"
proof -
  have "unat w < 2 ^ 64"
    by (rule unat_u64_bound)
  then show ?thesis
    using stoull_digits [OF nat_to_string_digits nat_to_string_nonempty, of "unat w"]
    by (simp add: to_string_u64_def)
qed

lemma read_size_t_to_string:
  assumes "case rest of [] \<Rightarrow> True | c # _ \<Rightarrow> \<not> is_digit c"
  shows "read_size_t (to_string_u64 w @ rest) = Some (w, rest)"
proof -
  have "unat w < 2 ^ 64"
    by (rule unat_u64_bound)
  then show ?thesis
    using scan_unsigned_digits [OF nat_to_string_digits nat_to_string_nonempty assms, of "unat w"]
    by (simp add: read_size_t_def to_string_u64_def signed_u64_def)
qed

lemma read_size_t_space [simp]: "read_size_t (CHR '' '' # s) = read_size_t s"
  by (simp add: read_size_t_def)

lemma to_string_u64_digits: "only_digits (to_string_u64 w)"
  by (simp add: to_string_u64_def nat_to_string_digits)

lemma to_string_u64_nonempty [simp]: "to_string_u64 w \<noteq> []"
  by (simp add: to_string_u64_def)

end
