(* ===== verification/Status.thy ===== *)
theory Status
  imports Cxx_Text
begin

text \<open>
  src/ucm_data_strategy/status/status.h: the status code with its optional message, and
  \<open>Expected<T>\<close>, a status or a value. \<open>operator==\<close> compares codes only (\<open>status_eq\<close>).
\<close>

definition MakeStatusCode :: "int \<Rightarrow> int" where
  "MakeStatusCode i = - 50000 - i"

definition OK_code :: int where "OK_code = 0"
definition ERROR_code :: int where "ERROR_code = - 1"
definition EPARAM_code :: int where "EPARAM_code = MakeStatusCode 0"
definition EOOM_code :: int where "EOOM_code = MakeStatusCode 1"
definition EOSERROR_code :: int where "EOSERROR_code = MakeStatusCode 2"
definition EDUPLICATE_code :: int where "EDUPLICATE_code = MakeStatusCode 3"
definition ERETRY_code :: int where "ERETRY_code = MakeStatusCode 4"
definition ENOOBJ_code :: int where "ENOOBJ_code = MakeStatusCode 5"
definition ESERIALIZE_code :: int where "ESERIALIZE_code = MakeStatusCode 6"
definition EDESERIALIZE_code :: int where "EDESERIALIZE_code = MakeStatusCode 7"
definition EUNSUPPORTED_code :: int where "EUNSUPPORTED_code = MakeStatusCode 8"
definition ENOSPACE_code :: int where "ENOSPACE_code = MakeStatusCode 9"
definition ETIMEOUT_code :: int where "ETIMEOUT_code = MakeStatusCode 10"
definition ESTOREUNHEALTHY_code :: int where "ESTOREUNHEALTHY_code = MakeStatusCode 11"

lemmas status_code_defs =
  MakeStatusCode_def OK_code_def ERROR_code_def EPARAM_code_def EOOM_code_def EOSERROR_code_def
  EDUPLICATE_code_def ERETRY_code_def ENOOBJ_code_def ESERIALIZE_code_def EDESERIALIZE_code_def
  EUNSUPPORTED_code_def ENOSPACE_code_def ETIMEOUT_code_def ESTOREUNHEALTHY_code_def

record status =
  st_code :: int
  st_message :: string

definition status_eq :: "status \<Rightarrow> status \<Rightarrow> bool" where
  "status_eq a b \<longleftrightarrow> st_code a = st_code b"

definition Underlying :: "status \<Rightarrow> int" where
  "Underlying st = st_code st"

definition ToString :: "status \<Rightarrow> string" where
  "ToString st =
     (let str = to_string_int (st_code st)
      in if st_message st = [] then str else fmt_format ''{}, {}'' [str, st_message st])"

definition Success :: "status \<Rightarrow> bool" where
  "Success st \<longleftrightarrow> st_code st = OK_code"

definition Failure :: "status \<Rightarrow> bool" where
  [simp]: "Failure st \<longleftrightarrow> \<not> Success st"

text \<open>The factory functions; the ones without a message leave it empty.\<close>

definition mk_status :: "int \<Rightarrow> string \<Rightarrow> status" where
  "mk_status code message = \<lparr>st_code = code, st_message = message\<rparr>"

definition Status_OK :: status where "Status_OK = mk_status OK_code []"
definition Status_Error :: "string \<Rightarrow> status" where "Status_Error m = mk_status ERROR_code m"
definition Status_InvalidParam :: "string \<Rightarrow> status" where
  "Status_InvalidParam m = mk_status EPARAM_code m"
definition Status_OutOfMemory :: status where "Status_OutOfMemory = mk_status EOOM_code []"
definition Status_OsApiError :: "string \<Rightarrow> status" where
  "Status_OsApiError m = mk_status EOSERROR_code m"
definition Status_DuplicateKey :: status where "Status_DuplicateKey = mk_status EDUPLICATE_code []"
definition Status_Retry :: status where "Status_Retry = mk_status ERETRY_code []"
definition Status_NotFound :: status where "Status_NotFound = mk_status ENOOBJ_code []"
definition Status_SerializeFailed :: status where
  "Status_SerializeFailed = mk_status ESERIALIZE_code []"
definition Status_DeserializeFailed :: status where
  "Status_DeserializeFailed = mk_status EDESERIALIZE_code []"
definition Status_Unsupported :: status where "Status_Unsupported = mk_status EUNSUPPORTED_code []"
definition Status_NoSpace :: status where "Status_NoSpace = mk_status ENOSPACE_code []"
definition Status_Timeout :: status where "Status_Timeout = mk_status ETIMEOUT_code []"
definition Status_StoreUnhealthy :: "string \<Rightarrow> status" where
  "Status_StoreUnhealthy m = mk_status ESTOREUNHEALTHY_code m"

lemmas status_factory_defs =
  Status_OK_def Status_Error_def Status_InvalidParam_def Status_OutOfMemory_def
  Status_OsApiError_def Status_DuplicateKey_def Status_Retry_def Status_NotFound_def
  Status_SerializeFailed_def Status_DeserializeFailed_def Status_Unsupported_def
  Status_NoSpace_def Status_Timeout_def Status_StoreUnhealthy_def mk_status_def

text \<open>\<open>Expected<T>\<close> is the variant of a status and a value.\<close>

datatype 'a expected = Unexpected status | Value 'a

definition HasValue :: "'a expected \<Rightarrow> bool" where
  "HasValue e \<longleftrightarrow> (case e of Unexpected _ \<Rightarrow> False | Value _ \<Rightarrow> True)"

subsection \<open>Lemmas\<close>

lemma Success_iff: "Success st \<longleftrightarrow> st_code st = 0"
  by (simp add: Success_def OK_code_def)

lemma Failure_iff: "Failure st \<longleftrightarrow> st_code st \<noteq> 0"
  by (simp add: Success_iff)

lemma code_mk_status [simp]: "st_code (mk_status c m) = c"
  by (simp add: mk_status_def)

lemma message_mk_status [simp]: "st_message (mk_status c m) = m"
  by (simp add: mk_status_def)

lemma factory_codes [simp]:
  "st_code Status_OK = 0" "st_code (Status_Error m) = - 1" "st_code (Status_InvalidParam m) = - 50000"
  "st_code Status_OutOfMemory = - 50001" "st_code Status_DuplicateKey = - 50003"
  "st_code Status_Timeout = - 50010" "st_code Status_Unsupported = - 50008"
  by (simp_all add: status_factory_defs status_code_defs)

lemma Success_OK [simp]: "Success Status_OK"
  by (simp add: Success_iff)

lemma Success_factories [simp]:
  "Success (Status_Error m) = False" "Success (Status_InvalidParam m) = False"
  "Success Status_OutOfMemory = False" "Success Status_DuplicateKey = False"
  "Success Status_Timeout = False"
  by (simp_all add: Success_iff)

end
