(* ===== verification/Runtime.thy ===== *)
theory Runtime
  imports Status
begin

text \<open>
  The boundary of the programs: the calls into the Ascend driver (\<open>hal*\<close>) and into ACL
  (\<open>acl*\<close>), the terminal and the steady clock. None of it is under src/, so it is a parameter,
  the record \<open>env\<close>:

  \<^item> \<open>native_fn\<close> is the driver: given a call with all its arguments and the driver's own
    world \<open>'w\<close> it yields the return code, the value of the call's output parameter and the
    next world. It is any function at all; a call's output parameter carries in its first
    argument the value the variable had before the call, so that a driver may leave it alone.
  \<^item> \<open>clock_step\<close> is how long (in nanoseconds) passes before the n-th reading of the clock.
  \<^item> \<open>can_alloc\<close> tells whether the C++ heap can provide a vector of that many elements.
  \<^item> \<open>ACL_ERROR_REPEAT_INITIALIZE\<close> is the code of that name of the ACL headers.

  The state \<open>sys\<close> threads the driver's world, the lines the terminal will deliver before it
  closes, the text printed to it, the clock and, as a ghost, \<open>trace\<close>: the calls made so far
  with what they returned. \<open>call\<close> is the only way the model enters the driver, so a statement
  about \<open>trace\<close> is a statement about every driver call of the program.
\<close>

subsection \<open>Driver calls\<close>

datatype mem_side = MEM_HOST_SIDE | MEM_DEV_SIDE | MEM_HOST_NUMA_SIDE
datatype mem_pg_type = MEM_NORMAL_PAGE_TYPE | MEM_HUGE_PAGE_TYPE
datatype mem_kind = MEM_DDR_TYPE | MEM_HBM_TYPE

record drv_mem_prop =
  side :: mem_side
  devid :: u32
  module_id :: u32
  pg_type :: mem_pg_type
  mem_type :: mem_kind
  reserve :: u64

text \<open>
  The calls that only the sharing probes make. \<open>cpu_load n a\<close> and \<open>cpu_store n a v\<close> are an access of
  the processor to \<open>n\<close> bytes of memory at address \<open>a\<close>: what such memory holds is the world's
  business, because other processes and the device write it too. \<open>vector_new\<close> is the storage of a
  \<open>std::vector\<close>, zeroed (a non-zero result: it throws). System calls report their error as a
  negative result, the negated \<open>errno\<close>; a send carries its bytes and a receive delivers its bytes in
  a word, lowest byte first. What a call leaves in an array is read word by word: \<open>io_event_data\<close> and
  its fellows for the events of an asynchronous context, \<open>affinity_word\<close> for a set of processors.
\<close>

datatype copy_kind = COPY_H2D | COPY_D2H | COPY_D2D
datatype acl_thing = Acl_stream | Acl_event

text \<open>The fields of an \<open>iocb\<close> that \<open>aio_operation\<close> fills in; the others stay zero.\<close>

record aio_block =
  blk_data :: u64
  blk_write :: bool
  blk_fd :: int
  blk_buf :: u64
  blk_nbytes :: u64
  blk_offset :: u64

datatype cpu_call =
    cpu_load nat u64
  | cpu_store nat u64 u64
  | c_memset u64 nat u64
  | vector_new u64
  | vector_delete u64
  | posix_memalign u64 u64
  | control_free u64

datatype hal_call =
    halSetRuntimeApiVer
  | halDeviceOpen u32
  | halDeviceClose u32
  | halGetHostID u32
  | halMemcpy u64 u64 u64 u64 copy_kind u32
  | drvMemGetAttribute u64
  | halMemGetAllocationPropertiesFromHandle u64
  | TsdOpen u32
  | TsdClose u32
  | sys_dlopen string
  | sys_dlsym u64 string
  | sys_dlclose u64

datatype acl_call =
    aclrtGetCurrentContext
  | aclrtGetDevice
  | aclrtMalloc u64
  | aclrtFree u64
  | aclrtMallocHost u64
  | aclrtFreeHost u64
  | aclrtMemcpy u64 u64 u64 u64 copy_kind
  | aclrtMemset u64 u64 nat u64
  | aclrtMemcpyAsync u64 u64 u64 u64 copy_kind u64
  | aclrtSynchronizeStream u64
  | aclrt_create acl_thing
  | aclrt_destroy acl_thing u64
  | aclrtRecordEvent u64 u64
  | aclrtQueryEventStatus u64
  | aclrtSynchronizeEvent u64

datatype io_call =
    sys_send int u64 nat
  | sys_recv int nat
  | sys_io_setup u32
  | sys_io_submit u64 "aio_block list"
  | sys_io_getevents u64 nat
  | io_event_data nat
  | io_event_res nat
  | io_event_res2 nat
  | sys_io_destroy u64
  | sys_open string "string list"
  | sys_unlink string
  | sys_close int
  | sys_fdatasync int
  | sys_ftruncate int u64
  | sys_pwrite int u64 u64 u64
  | sys_pread int u64 u64 u64

datatype proc_call =
    sys_getpid
  | sys_getppid
  | sys_prctl
  | sys_getaffinity
  | affinity_word nat
  | sys_setaffinity "nat list"
  | sys_socketpair
  | sys_setsockopt int bool
  | sys_fork
  | sys_exec "string list"
  | sys_waitpid int
  | sys_kill int
  | sys_getenv string
  | c_getchar

datatype native =
    aclInit
  | aclrtSetDevice int
  | aclrtResetDevice int
  | aclFinalize
  | halMemGetAllocationGranularity u64 drv_mem_prop
  | halMemAddressReserve u64 u64 u64 u64 u64
  | halMemAddressFree u64
  | halMemCreate u64 u64 drv_mem_prop u64
  | halMemRelease u64
  | halMemMap u64 u64 u64 u64 u64
  | halMemUnmap u64
  | halMemExportToShareableHandle u64 u64 u64
  | halMemShareHandleSetAttribute u64
  | halMemImportFromShareableHandle u64 u64 u32
  | std_malloc u64
  | std_free u64
  | Cpu cpu_call
  | Hal hal_call
  | Acl acl_call
  | Io io_call
  | Proc proc_call

text \<open>
  Arguments that the sources never vary (the kind of granularity, the handle type of an export,
  the attribute that disables the whitelist) are left out. \<open>std_malloc\<close> and \<open>std_free\<close> are
  the C heap, which the same parameter stands for.
\<close>

text \<open>The success codes of the driver's and of ACL's enumerations.\<close>

definition DRV_ERROR_NONE :: int where
  "DRV_ERROR_NONE = 0"

definition ACL_SUCCESS :: int where
  "ACL_SUCCESS = 0"

type_synonym event = "native \<times> int \<times> u64"

record 'w env =
  native_fn :: "native \<Rightarrow> 'w \<Rightarrow> int \<times> u64 \<times> 'w"
  clock_step :: "nat \<Rightarrow> nat"
  can_alloc :: "nat \<Rightarrow> bool"
  ACL_ERROR_REPEAT_INITIALIZE :: int

record 'w sys =
  drv :: 'w
  trace :: "event list"
  stdin_lines :: "string list"
  stdout_lines :: "string list"
  clk :: nat
  ticks :: nat

definition call :: "'w env \<Rightarrow> native \<Rightarrow> 'w sys \<Rightarrow> int \<times> u64 \<times> 'w sys" where
  "call E c s =
     (case native_fn E c (drv s) of
        (ret, out, w) \<Rightarrow> (ret, out, s\<lparr>drv := w, trace := trace s @ [(c, ret, out)]\<rparr>))"

subsection \<open>Clock, terminal, heap\<close>

definition clock_now :: "'w env \<Rightarrow> 'w sys \<Rightarrow> nat \<times> 'w sys" where
  "clock_now E s =
     (let t = clk s + clock_step E (ticks s) in (t, s\<lparr>clk := t, ticks := Suc (ticks s)\<rparr>))"

text \<open>\<open>std::this_thread::sleep_until\<close>: afterwards the clock has reached the given time.\<close>

definition sleep_until :: "nat \<Rightarrow> 'w sys \<Rightarrow> 'w sys" where
  "sleep_until t s = s\<lparr>clk := max (clk s) t\<rparr>"

definition getline :: "'w sys \<Rightarrow> string option \<times> 'w sys" where
  "getline s =
     (case stdin_lines s of [] \<Rightarrow> (None, s) | l # ls \<Rightarrow> (Some l, s\<lparr>stdin_lines := ls\<rparr>))"

definition put_line :: "string \<Rightarrow> 'w sys \<Rightarrow> 'w sys" where
  "put_line l s = s\<lparr>stdout_lines := stdout_lines s @ [l]\<rparr>"

text \<open>
  \<open>std::vector::resize\<close> with value-initialised elements of \<open>elem_size\<close> bytes. Growing beyond
  \<open>max_size()\<close> throws \<open>std::length_error\<close>, a failed allocation \<open>std::bad_alloc\<close>.
\<close>

definition vector_max_size :: "nat \<Rightarrow> nat" where
  "vector_max_size elem_size = (2 ^ 63 - 1) div elem_size"

definition vector_resize :: "'w env \<Rightarrow> nat \<Rightarrow> nat \<Rightarrow> 'a \<Rightarrow> 'a list \<Rightarrow> exn + 'a list" where
  "vector_resize E elem_size n x xs =
     (if n \<le> length xs then Inr (take n xs)
      else if vector_max_size elem_size < n then Inl (StdException ''vector::_M_default_append'')
      else if \<not> can_alloc E n then Inl BadAlloc
      else Inr (xs @ replicate (n - length xs) x))"

subsection \<open>Steps on the trace\<close>

text \<open>
  \<open>logs ev s s'\<close>: between \<open>s\<close> and \<open>s'\<close> exactly the calls \<open>ev\<close> were made. \<open>emits\<close> says in
  addition that terminal and clock were left alone.
\<close>

definition logs :: "event list \<Rightarrow> 'w sys \<Rightarrow> 'w sys \<Rightarrow> bool" where
  "logs ev s s' \<longleftrightarrow> trace s' = trace s @ ev"

definition emits :: "event list \<Rightarrow> 'w sys \<Rightarrow> 'w sys \<Rightarrow> bool" where
  "emits ev s s' \<longleftrightarrow> trace s' = trace s @ ev \<and> stdin_lines s' = stdin_lines s \<and> stdout_lines s' = stdout_lines s
     \<and> clk s' = clk s \<and> ticks s' = ticks s"

lemma logs_refl [simp]: "logs [] s s"
  by (simp add: logs_def)

lemma emits_refl [simp]: "emits [] s s"
  by (simp add: emits_def)

lemma emits_logs: "emits ev s s' \<Longrightarrow> logs ev s s'"
  by (simp add: emits_def logs_def)

lemma logs_trans: "logs a s t \<Longrightarrow> logs b t u \<Longrightarrow> logs (a @ b) s u"
  by (simp add: logs_def)

lemma emits_trans: "emits a s t \<Longrightarrow> emits b t u \<Longrightarrow> emits (a @ b) s u"
  by (simp add: emits_def)

lemma logs_unique: "logs a s t \<Longrightarrow> logs b s t \<Longrightarrow> a = b"
  by (simp add: logs_def)

lemma emits_frame [frame_rules]:
  assumes "emits ev s s'"
  shows "stdin_lines s' = stdin_lines s" "stdout_lines s' = stdout_lines s" "clk s' = clk s" "ticks s' = ticks s"
  using assms by (simp_all add: emits_def)

lemma call_emits [step_specs]: "call E c s = (r, out, s') \<Longrightarrow> emits [(c, r, out)] s s'"
  by (auto simp: call_def emits_def split: prod.splits)

lemma call_result: "call E c s = (r, out, s') \<Longrightarrow> \<exists>w. native_fn E c (drv s) = (r, out, w)"
  by (auto simp: call_def split: prod.splits)

lemma clock_now_logs [step_specs]: "clock_now E s = (t, s') \<Longrightarrow> logs [] s s'"
  by (auto simp: clock_now_def logs_def Let_def)

lemma clock_now_clk:
  "clock_now E s = (t, s') \<Longrightarrow> clk s' = t \<and> clk s \<le> t \<and> stdin_lines s' = stdin_lines s \<and> stdout_lines s' = stdout_lines s"
  by (auto simp: clock_now_def Let_def)

lemma sleep_until_logs [simp]: "logs [] s (sleep_until t s)"
  by (simp add: sleep_until_def logs_def)

lemma clk_sleep_until [simp]: "clk (sleep_until t s) = max (clk s) t"
  by (simp add: sleep_until_def)

lemma sleep_until_frame [simp, frame_rules]:
  "stdin_lines (sleep_until t s) = stdin_lines s" "stdout_lines (sleep_until t s) = stdout_lines s"
  by (simp_all add: sleep_until_def)

lemma getline_logs [step_specs]: "getline s = (r, s') \<Longrightarrow> logs [] s s'"
  by (auto simp: getline_def logs_def split: list.splits)

lemma put_line_logs [simp]: "logs [] s (put_line l s)"
  by (simp add: put_line_def logs_def)

lemma vector_resize_Inr:
  "vector_resize E k n x [] = Inr ys \<Longrightarrow> ys = replicate n x"
  by (auto simp: vector_resize_def split: if_splits)

subsection \<open>What a trace acquires and gives back\<close>

text \<open>
  Three kinds of resources: reserved address ranges, memory handles, mappings. An address
  range is held from the moment the driver has written a non-null pointer; the clean-up code
  looks at the pointer only. A handle is held when the call succeeded with a non-null handle, a
  mapping when the call succeeded.
\<close>

definition va_acquired :: "event \<Rightarrow> u64 multiset" where
  "va_acquired e = (case e of
     (halMemAddressReserve _ _ _ _ _, ret, out) \<Rightarrow> (if out \<noteq> nullptr then {#out#} else {#})
   | _ \<Rightarrow> {#})"

definition va_released :: "event \<Rightarrow> u64 multiset" where
  "va_released e = (case e of (halMemAddressFree a, ret, out) \<Rightarrow> {#a#} | _ \<Rightarrow> {#})"

definition handle_acquired :: "event \<Rightarrow> u64 multiset" where
  "handle_acquired e = (case e of
     (halMemCreate _ _ _ _, ret, out) \<Rightarrow> (if ret = 0 \<and> out \<noteq> nullptr then {#out#} else {#})
   | (halMemImportFromShareableHandle _ _ _, ret, out) \<Rightarrow>
       (if ret = 0 \<and> out \<noteq> nullptr then {#out#} else {#})
   | _ \<Rightarrow> {#})"

definition handle_released :: "event \<Rightarrow> u64 multiset" where
  "handle_released e = (case e of (halMemRelease h, ret, out) \<Rightarrow> {#h#} | _ \<Rightarrow> {#})"

definition map_acquired :: "event \<Rightarrow> u64 multiset" where
  "map_acquired e = (case e of
     (halMemMap p _ _ _ _, ret, out) \<Rightarrow> (if ret = 0 then {#p#} else {#}) | _ \<Rightarrow> {#})"

definition map_released :: "event \<Rightarrow> u64 multiset" where
  "map_released e = (case e of (halMemUnmap p, ret, out) \<Rightarrow> {#p#} | _ \<Rightarrow> {#})"

lemmas ledger_defs =
  va_acquired_def va_released_def handle_acquired_def handle_released_def map_acquired_def
  map_released_def

definition tally :: "(event \<Rightarrow> 'a multiset) \<Rightarrow> event list \<Rightarrow> 'a multiset" where
  "tally f t = sum_list (map f t)"

lemma tally_simps [simp]:
  "tally f [] = {#}" "tally f (e # t) = f e + tally f t" "tally f (t @ u) = tally f t + tally f u"
  by (simp_all add: tally_def)

text \<open>
  A stretch of trace that gives back everything it acquires, each thing exactly as often.
\<close>

definition balanced :: "event list \<Rightarrow> bool" where
  "balanced t \<longleftrightarrow> tally va_acquired t = tally va_released t
     \<and> tally handle_acquired t = tally handle_released t
     \<and> tally map_acquired t = tally map_released t"

lemma balanced_Nil [simp]: "balanced []"
  by (simp add: balanced_def)

lemma balanced_append: "balanced t \<Longrightarrow> balanced u \<Longrightarrow> balanced (t @ u)"
  by (simp add: balanced_def)

lemma balanced_append_iff: "balanced t \<Longrightarrow> balanced (t @ u) \<longleftrightarrow> balanced u"
  by (auto simp: balanced_def)

subsection \<open>Clean-up loops\<close>

text \<open>
  A clean-up loop makes, for each element, the calls that are \<open>due\<close> for it and goes on whatever
  they return. The locale states the contract of the body once; the lemma gives the calls of
  the whole loop.
\<close>

locale cleanup_loop =
  fixes step :: "'x \<Rightarrow> 'w sys \<Rightarrow> 'w sys"
    and due :: "'x \<Rightarrow> native list"
  assumes step_due: "\<exists>ev. emits ev s (step x s) \<and> map fst ev = due x"
begin

lemma loop_due: "\<exists>ev. emits ev s (fold step xs s) \<and> map fst ev = concat (map due xs)"
proof (induction xs arbitrary: s)
  case Nil
  have "emits [] s (fold step [] s) \<and> map fst ([] :: event list) = concat (map due [])"
    by simp
  then show ?case
    by blast
next
  case (Cons x xs)
  obtain ev where "emits ev s (step x s)" and "map fst ev = due x"
    using step_due by blast
  moreover obtain ev' where "emits ev' (step x s) (fold step xs (step x s))"
    and "map fst ev' = concat (map due xs)"
    using Cons.IH by blast
  ultimately have "emits (ev @ ev') s (fold step (x # xs) s) \<and>
      map fst (ev @ ev') = concat (map due (x # xs))"
    by (auto intro: emits_trans)
  then show ?case
    by blast
qed

end

text \<open>Release calls acquire nothing, and what they release does not depend on their results.\<close>

definition is_release :: "native \<Rightarrow> bool" where
  "is_release c = (case c of halMemAddressFree _ \<Rightarrow> True | halMemRelease _ \<Rightarrow> True
     | halMemUnmap _ \<Rightarrow> True | _ \<Rightarrow> False)"

lemma release_acquires_nothing:
  assumes "list_all is_release (map fst ev)"
  shows "tally va_acquired ev = {#}" "tally handle_acquired ev = {#}" "tally map_acquired ev = {#}"
  using assms
  by (induction ev)
    (auto simp: is_release_def va_acquired_def handle_acquired_def map_acquired_def
      split: native.splits)

definition releases :: "(event \<Rightarrow> u64 multiset) \<Rightarrow> native list \<Rightarrow> u64 multiset" where
  "releases f cs = sum_list (map (\<lambda>c. f (c, 0, 0)) cs)"

lemma releases_append [simp]: "releases f (cs @ ds) = releases f cs + releases f ds"
  by (simp add: releases_def)

lemma releases_Nil [simp]: "releases f [] = {#}"
  by (simp add: releases_def)

lemma tally_released_calls:
  "tally va_released ev = releases va_released (map fst ev)"
  "tally handle_released ev = releases handle_released (map fst ev)"
  "tally map_released ev = releases map_released (map fst ev)"
  by (induction ev) (auto simp: releases_def ledger_defs split: native.splits)

subsection \<open>No release of what is not held\<close>

text \<open>
  \<open>sound_trace\<close>: at no moment has more been released than acquired, so nothing is released
  twice, nor before it was obtained. \<open>acquiring\<close>: a stretch without release calls.
\<close>

definition acquiring :: "event list \<Rightarrow> bool" where
  "acquiring ev \<longleftrightarrow> list_all (\<lambda>e. \<not> is_release (fst e)) ev"

definition releasing :: "event list \<Rightarrow> bool" where
  "releasing ev \<longleftrightarrow> list_all (\<lambda>e. is_release (fst e)) ev"

definition covered :: "event list \<Rightarrow> bool" where
  "covered t \<longleftrightarrow> tally va_released t \<subseteq># tally va_acquired t
     \<and> tally handle_released t \<subseteq># tally handle_acquired t
     \<and> tally map_released t \<subseteq># tally map_acquired t"

definition sound_trace :: "event list \<Rightarrow> bool" where
  "sound_trace t \<longleftrightarrow> (\<forall>k. covered (take k t))"

definition staged :: "event list \<Rightarrow> bool" where
  "staged t \<longleftrightarrow> (\<exists>u a. t = u @ a \<and> sound_trace u \<and> balanced u \<and> acquiring a)"

lemma acquiring_simps [simp]:
  "acquiring []" "acquiring (a @ b) \<longleftrightarrow> acquiring a \<and> acquiring b"
  "acquiring (e # t) \<longleftrightarrow> \<not> is_release (fst e) \<and> acquiring t"
  by (simp_all add: acquiring_def)

lemma acquiring_calls: "acquiring ev \<longleftrightarrow> list_all (\<lambda>c. \<not> is_release c) (map fst ev)"
  by (simp add: acquiring_def list_all_iff)

lemma releasing_calls: "releasing ev \<longleftrightarrow> list_all is_release (map fst ev)"
  by (simp add: releasing_def list_all_iff)

lemma acquiring_releases_nothing:
  assumes "acquiring ev"
  shows "tally va_released ev = {#}" "tally handle_released ev = {#}" "tally map_released ev = {#}"
  using assms
  by (induction ev)
    (auto simp: is_release_def va_released_def handle_released_def map_released_def
      split: native.splits)

lemma releasing_acquires_nothing:
  assumes "releasing ev"
  shows "tally va_acquired ev = {#}" "tally handle_acquired ev = {#}" "tally map_acquired ev = {#}"
  using release_acquires_nothing [of ev] assms by (simp_all add: releasing_calls)

lemma acquiring_take: "acquiring t \<Longrightarrow> acquiring (take k t)"
  by (auto simp: acquiring_def list_all_iff dest: in_set_takeD)

lemma releasing_take: "releasing t \<Longrightarrow> releasing (take k t)"
  by (auto simp: releasing_def list_all_iff dest: in_set_takeD)

lemma balanced_covered: "balanced t \<Longrightarrow> covered t"
  by (simp add: balanced_def covered_def)

lemma covered_acquiring: "covered t \<Longrightarrow> acquiring a \<Longrightarrow> covered (t @ a)"
  by (simp add: covered_def acquiring_releases_nothing subset_mset.add_increasing2)

lemma tally_take_subset: "tally f (take k t) \<subseteq># tally f t"
proof -
  have "tally f t = tally f (take k t) + tally f (drop k t)"
    by (metis append_take_drop_id tally_simps(3))
  then show ?thesis by simp
qed

lemma covered_releasing:
  assumes "balanced (t @ r)" and "releasing r"
  shows "covered (t @ take k r)"
proof -
  have e: "tally f t + tally f (take k r) \<subseteq># tally f t + tally f r" for f
    by (simp add: tally_take_subset)
  show ?thesis
    using assms(1) e [of va_released] e [of handle_released] e [of map_released]
      releasing_acquires_nothing [OF assms(2)]
      releasing_acquires_nothing [OF releasing_take [OF assms(2), of k]]
    by (simp add: balanced_def covered_def)
qed

lemma sound_trace_Nil [simp]: "sound_trace []"
  by (simp add: sound_trace_def covered_def)

lemma sound_trace_covered: "sound_trace t \<Longrightarrow> covered t"
  unfolding sound_trace_def by (metis order_refl take_all)

lemma sound_append:
  assumes "sound_trace t" and "\<And>k. covered (t @ take k u)"
  shows "sound_trace (t @ u)"
proof -
  have "covered (take k (t @ u))" for k
  proof (cases "k \<le> length t")
    case True
    with assms(1) show ?thesis
      by (simp add: sound_trace_def)
  next
    case False
    with assms(2) [of "k - length t"] show ?thesis
      by simp
  qed
  then show ?thesis
    by (simp add: sound_trace_def)
qed

lemma sound_acquiring: "sound_trace t \<Longrightarrow> acquiring a \<Longrightarrow> sound_trace (t @ a)"
  by (rule sound_append) (auto intro: covered_acquiring sound_trace_covered acquiring_take)

lemma staged_Nil [simp]: "staged []"
  by (auto simp: staged_def)

lemma staged_sound: "staged t \<Longrightarrow> sound_trace t"
  by (auto simp: staged_def intro: sound_acquiring)

lemma staged_acquiring: "staged t \<Longrightarrow> acquiring a \<Longrightarrow> staged (t @ a)"
  unfolding staged_def by (metis acquiring_simps(2) append.assoc)

lemma acquiring_staged: "acquiring a \<Longrightarrow> staged a"
  using staged_acquiring [of "[]" a] by simp

lemma staged_release:
  assumes "staged t" and "releasing r" and "balanced (t @ r)"
  shows "sound_trace (t @ r)"
  by (rule sound_append [OF staged_sound [OF assms(1)]])
    (rule covered_releasing [OF assms(3,2)])

lemma staged_balanced: "sound_trace t \<Longrightarrow> balanced t \<Longrightarrow> staged t"
  unfolding staged_def by (metis acquiring_simps(1) append_Nil2)

text \<open>A balanced stretch before does not disturb a staged one after it, and conversely.\<close>

lemma covered_prefix: "balanced u \<Longrightarrow> covered t \<Longrightarrow> covered (u @ t)"
  by (simp add: balanced_def covered_def)

lemma sound_prefix:
  assumes "sound_trace u" and "balanced u" and "sound_trace t"
  shows "sound_trace (u @ t)"
  using assms by (intro sound_append) (auto intro: covered_prefix simp: sound_trace_def)

lemma staged_prefix:
  assumes "sound_trace u" and "balanced u" and "staged t"
  shows "staged (u @ t)"
proof -
  from assms(3) obtain v a where "t = v @ a" "sound_trace v" "balanced v" "acquiring a"
    by (auto simp: staged_def)
  with assms show ?thesis
    unfolding staged_def by (metis append.assoc balanced_append sound_prefix)
qed

end
