(* ===== verification/Hal_Memory.thy ===== *)
theory Hal_Memory
  imports Runtime
begin

text \<open>
  src/ucm_data_strategy/trans/ascend/hal/hal_memory.h and hal_memory.cc: one wrapper per HAL
  call, which fixes the arguments the program never varies and turns the driver's return code
  into a status. The wrappers that produce a handle store it only on success; the wrapper that
  reserves an address range passes the caller's pointer through.
\<close>

datatype PageType = Normal | Huge

text \<open>\<open>static_cast<uint32_t>(pageType)\<close>\<close>

definition PageType_value :: "PageType \<Rightarrow> nat" where
  "PageType_value pt = (case pt of Normal \<Rightarrow> 0 | Huge \<Rightarrow> 1)"

definition kAddressAlignment :: u64 where
  "kAddressAlignment = push_bit 30 1"

definition HostMemoryProp :: "PageType \<Rightarrow> drv_mem_prop" where
  "HostMemoryProp pageType =
     \<lparr>side = MEM_HOST_SIDE, devid = 0, module_id = 0,
      pg_type = (if pageType = Huge then MEM_HUGE_PAGE_TYPE else MEM_NORMAL_PAGE_TYPE),
      mem_type = MEM_DDR_TYPE, reserve = 0\<rparr>"

definition FromHalError :: "string \<Rightarrow> int \<Rightarrow> status" where
  "FromHalError api ret =
     (if ret = DRV_ERROR_NONE then Status_OK
      else mk_status ret (fmt_format ''{} failed: ret={}'' [api, to_string_int ret]))"

definition MemGetAllocationGranularity ::
  "'w env \<Rightarrow> PageType \<Rightarrow> u64 \<Rightarrow> 'w sys \<Rightarrow> status \<times> u64 \<times> 'w sys" where
  "MemGetAllocationGranularity E pageType granularity s =
     (let (ret, granularity', s') =
        call E (halMemGetAllocationGranularity granularity (HostMemoryProp pageType)) s
      in (FromHalError ''halMemGetAllocationGranularity'' ret, granularity', s'))"

definition MemAddressReserve ::
  "'w env \<Rightarrow> u64 \<Rightarrow> u64 \<Rightarrow> 'w sys \<Rightarrow> status \<times> u64 \<times> 'w sys" where
  "MemAddressReserve E ptr sz s =
     (let (ret, ptr', s') = call E (halMemAddressReserve ptr sz 0 nullptr 0) s
      in (FromHalError ''halMemAddressReserve'' ret, ptr', s'))"

definition MemAddressFree :: "'w env \<Rightarrow> u64 \<Rightarrow> 'w sys \<Rightarrow> status \<times> 'w sys" where
  "MemAddressFree E ptr s =
     (let (ret, _, s') = call E (halMemAddressFree ptr) s
      in (FromHalError ''halMemAddressFree'' ret, s'))"

definition MemCreate ::
  "'w env \<Rightarrow> u64 \<Rightarrow> u64 \<Rightarrow> PageType \<Rightarrow> 'w sys \<Rightarrow> status \<times> u64 \<times> 'w sys" where
  "MemCreate E handle sz pageType s =
     (let (ret, nativeHandle, s') = call E (halMemCreate nullptr sz (HostMemoryProp pageType) 0) s;
          status = FromHalError ''halMemCreate'' ret
      in (status, if Success status then nativeHandle else handle, s'))"

definition MemRelease :: "'w env \<Rightarrow> u64 \<Rightarrow> 'w sys \<Rightarrow> status \<times> 'w sys" where
  "MemRelease E handle s =
     (let (ret, _, s') = call E (halMemRelease handle) s
      in (FromHalError ''halMemRelease'' ret, s'))"

definition MemMap :: "'w env \<Rightarrow> u64 \<Rightarrow> u64 \<Rightarrow> u64 \<Rightarrow> 'w sys \<Rightarrow> status \<times> 'w sys" where
  "MemMap E ptr sz handle s =
     (let (ret, _, s') = call E (halMemMap ptr sz 0 handle 0) s
      in (FromHalError ''halMemMap'' ret, s'))"

definition MemUnmap :: "'w env \<Rightarrow> u64 \<Rightarrow> 'w sys \<Rightarrow> status \<times> 'w sys" where
  "MemUnmap E ptr s =
     (let (ret, _, s') = call E (halMemUnmap ptr) s
      in (FromHalError ''halMemUnmap'' ret, s'))"

definition MemExportToShareableHandle ::
  "'w env \<Rightarrow> u64 \<Rightarrow> u64 \<Rightarrow> 'w sys \<Rightarrow> status \<times> u64 \<times> 'w sys" where
  "MemExportToShareableHandle E handle shareHandle s =
     (let (ret, shareHandle', s') = call E (halMemExportToShareableHandle handle 0 shareHandle) s
      in (FromHalError ''halMemExportToShareableHandle'' ret, shareHandle', s'))"

definition MemShareHandleDisableWhitelist ::
  "'w env \<Rightarrow> u64 \<Rightarrow> 'w sys \<Rightarrow> status \<times> 'w sys" where
  "MemShareHandleDisableWhitelist E shareHandle s =
     (let (ret, _, s') = call E (halMemShareHandleSetAttribute shareHandle) s
      in (FromHalError ''halMemShareHandleSetAttribute'' ret, s'))"

definition MemImportFromShareableHandle ::
  "'w env \<Rightarrow> u64 \<Rightarrow> u32 \<Rightarrow> u64 \<Rightarrow> 'w sys \<Rightarrow> status \<times> u64 \<times> 'w sys" where
  "MemImportFromShareableHandle E shareHandle deviceId handle s =
     (let (ret, nativeHandle, s') =
            call E (halMemImportFromShareableHandle shareHandle nullptr deviceId) s;
          status = FromHalError ''halMemImportFromShareableHandle'' ret
      in (status, if Success status then nativeHandle else handle, s'))"

subsection \<open>What each wrapper adds to the trace\<close>

lemma code_FromHalError [simp]: "st_code (FromHalError api ret) = ret"
  by (simp add: FromHalError_def DRV_ERROR_NONE_def)

lemma Success_FromHalError [simp]: "Success (FromHalError api ret) \<longleftrightarrow> ret = 0"
  by (simp add: Success_iff)

lemma MemGetAllocationGranularity_spec [step_specs]:
  assumes "MemGetAllocationGranularity E pt g s = (st, g', s')"
  shows "emits [(halMemGetAllocationGranularity g (HostMemoryProp pt), st_code st, g')] s s'"
  using assms
  by (auto simp: MemGetAllocationGranularity_def Let_def split: prod.splits dest!: call_emits)

lemma MemAddressReserve_spec [step_specs]:
  assumes "MemAddressReserve E p n s = (st, p', s')"
  shows "emits [(halMemAddressReserve p n 0 nullptr 0, st_code st, p')] s s'"
  using assms by (auto simp: MemAddressReserve_def Let_def split: prod.splits dest!: call_emits)

lemma MemAddressFree_spec [step_specs]:
  assumes "MemAddressFree E p s = (st, s')"
  shows "\<exists>out. emits [(halMemAddressFree p, st_code st, out)] s s'"
  using assms by (auto simp: MemAddressFree_def Let_def split: prod.splits dest!: call_emits)

lemma MemCreate_spec [step_specs]:
  assumes "MemCreate E h n pt s = (st, h', s')"
  shows "\<exists>out. emits [(halMemCreate nullptr n (HostMemoryProp pt) 0, st_code st, out)] s s'
    \<and> h' = (if st_code st = 0 then out else h)"
  using assms by (auto simp: MemCreate_def Let_def split: prod.splits dest!: call_emits)

lemma MemRelease_spec [step_specs]:
  assumes "MemRelease E h s = (st, s')"
  shows "\<exists>out. emits [(halMemRelease h, st_code st, out)] s s'"
  using assms by (auto simp: MemRelease_def Let_def split: prod.splits dest!: call_emits)

lemma MemMap_spec [step_specs]:
  assumes "MemMap E p n h s = (st, s')"
  shows "\<exists>out. emits [(halMemMap p n 0 h 0, st_code st, out)] s s'"
  using assms by (auto simp: MemMap_def Let_def split: prod.splits dest!: call_emits)

lemma MemUnmap_spec [step_specs]:
  assumes "MemUnmap E p s = (st, s')"
  shows "\<exists>out. emits [(halMemUnmap p, st_code st, out)] s s'"
  using assms by (auto simp: MemUnmap_def Let_def split: prod.splits dest!: call_emits)

lemma MemExportToShareableHandle_spec [step_specs]:
  assumes "MemExportToShareableHandle E h x s = (st, x', s')"
  shows "emits [(halMemExportToShareableHandle h 0 x, st_code st, x')] s s'"
  using assms
  by (auto simp: MemExportToShareableHandle_def Let_def split: prod.splits dest!: call_emits)

lemma MemShareHandleDisableWhitelist_spec [step_specs]:
  assumes "MemShareHandleDisableWhitelist E x s = (st, s')"
  shows "\<exists>out. emits [(halMemShareHandleSetAttribute x, st_code st, out)] s s'"
  using assms
  by (auto simp: MemShareHandleDisableWhitelist_def Let_def split: prod.splits dest!: call_emits)

lemma MemImportFromShareableHandle_spec [step_specs]:
  assumes "MemImportFromShareableHandle E x d h s = (st, h', s')"
  shows "\<exists>out. emits [(halMemImportFromShareableHandle x nullptr d, st_code st, out)] s s'
    \<and> h' = (if st_code st = 0 then out else h)"
  using assms
  by (auto simp: MemImportFromShareableHandle_def Let_def split: prod.splits dest!: call_emits)

end
