(* ===== verification/Device.thy ===== *)
theory Device
  imports Runtime
begin

text \<open>
  src/ucm_data_strategy/trans/device.h and device.cc: ACL initialisation of the process and
  selection of the device. A failed ACL call's code becomes the status code; a repeated
  initialisation is reported as a duplicate key.
\<close>

definition acl_status :: "int \<Rightarrow> status" where
  "acl_status ret = mk_status ret (to_string_int ret)"

definition Device_Init :: "'w env \<Rightarrow> 'w sys \<Rightarrow> status \<times> 'w sys" where
  "Device_Init E s =
     (let (ret, _, s') = call E aclInit s
      in (if ret = ACL_SUCCESS then Status_OK
          else if ret = ACL_ERROR_REPEAT_INITIALIZE E then Status_DuplicateKey
          else acl_status ret, s'))"

definition Device_Setup :: "'w env \<Rightarrow> int \<Rightarrow> 'w sys \<Rightarrow> status \<times> 'w sys" where
  "Device_Setup E deviceId s =
     (if deviceId < 0
      then (Status_Error (fmt_format ''invalid device id({})'' [to_string_int deviceId]), s)
      else let (ret, _, s') = call E (aclrtSetDevice deviceId) s
           in (if ret = ACL_SUCCESS then Status_OK else acl_status ret, s'))"

definition Device_Reset :: "'w env \<Rightarrow> int \<Rightarrow> 'w sys \<Rightarrow> status \<times> 'w sys" where
  "Device_Reset E deviceId s =
     (if deviceId < 0
      then (Status_Error (fmt_format ''invalid device id({})'' [to_string_int deviceId]), s)
      else let (ret, _, s') = call E (aclrtResetDevice deviceId) s
           in (if ret = ACL_SUCCESS then Status_OK else acl_status ret, s'))"

definition Device_Finalize :: "'w env \<Rightarrow> 'w sys \<Rightarrow> status \<times> 'w sys" where
  "Device_Finalize E s =
     (let (ret, _, s') = call E aclFinalize s
      in (if ret = ACL_SUCCESS then Status_OK else acl_status ret, s'))"

lemma code_acl_status [simp]: "st_code (acl_status ret) = ret"
  by (simp add: acl_status_def)

lemma Device_Init_spec [step_specs]:
  assumes "Device_Init E s = (st, s')"
  shows "\<exists>ret out. emits [(aclInit, ret, out)] s s' \<and> (Success st \<longleftrightarrow> ret = 0)"
proof -
  obtain ret out s1 where c: "call E aclInit s = (ret, out, s1)"
    by (cases "call E aclInit s") auto
  with assms have "s' = s1"
    and "st = (if ret = ACL_SUCCESS then Status_OK
      else if ret = ACL_ERROR_REPEAT_INITIALIZE E then Status_DuplicateKey else acl_status ret)"
    by (auto simp: Device_Init_def)
  with call_emits [OF c] show ?thesis
    by (auto simp: Success_iff ACL_SUCCESS_def)
qed

lemma Device_Setup_spec [step_specs]:
  assumes "Device_Setup E d s = (st, s')"
  shows "\<exists>ev. emits ev s s' \<and> (Success st \<longrightarrow> 0 \<le> d) \<and>
    ((d < 0 \<and> ev = [] \<and> Failure st) \<or>
     (0 \<le> d \<and> (\<exists>ret out. ev = [(aclrtSetDevice d, ret, out)] \<and> (Success st \<longleftrightarrow> ret = 0))))"
proof (cases "d < 0")
  case True
  then show ?thesis
    using assms by (auto simp: Device_Setup_def)
next
  case False
  obtain ret out s1 where c: "call E (aclrtSetDevice d) s = (ret, out, s1)"
    by (cases "call E (aclrtSetDevice d) s") auto
  with assms False have "s' = s1"
    and "st = (if ret = ACL_SUCCESS then Status_OK else acl_status ret)"
    by (auto simp: Device_Setup_def)
  with call_emits [OF c] False show ?thesis
    by (auto simp: Success_iff ACL_SUCCESS_def)
qed

lemma Device_Finalize_spec [step_specs]:
  assumes "Device_Finalize E s = (st, s')"
  shows "\<exists>ret out. emits [(aclFinalize, ret, out)] s s' \<and> (Success st \<longleftrightarrow> ret = 0)"
proof -
  obtain ret out s1 where c: "call E aclFinalize s = (ret, out, s1)"
    by (cases "call E aclFinalize s") auto
  with assms have "s' = s1"
    and "st = (if ret = ACL_SUCCESS then Status_OK else acl_status ret)"
    by (auto simp: Device_Finalize_def)
  with call_emits [OF c] show ?thesis
    by (auto simp: Success_iff ACL_SUCCESS_def)
qed

end
