(* ===== verification/Ctrl_Layout.thy ===== *)
theory Ctrl_Layout
  imports Runtime
begin

text \<open>
  src/ucm_data_strategy/ctrl_layout.h: the control transport of the demo. A rank publishes its
  shareable handle as a terminal line \<open>DESC rank handle\<close>; a peer's handle is read by taking
  terminal lines until one is a well-formed descriptor of that rank. The relaxed atomics of
  \<open>RankDataDesc\<close> are plain loads and stores here: a descriptor never leaves its thread.

  The locale \<open>desc_channel\<close> is what the data strategy relies on: a published line is accepted
  for its own rank, with its handle, and for no other rank. It is interpreted on the code's
  printer and parser.
\<close>

definition kInvalid :: u64 where
  "kInvalid = - 1"

record RankDataDesc =
  desc_handle :: u64

definition RankDataDesc_default :: RankDataDesc where
  "RankDataDesc_default = \<lparr>desc_handle = kInvalid\<rparr>"

record CtrlLayout =
  rankCount :: u64
  slotCount :: u64

definition CtrlLayout_new :: "u64 \<Rightarrow> u64 \<Rightarrow> CtrlLayout" where
  "CtrlLayout_new ranks slotsPerRank = \<lparr>rankCount = ranks, slotCount = ranks * slotsPerRank\<rparr>"

definition SlotCount :: "CtrlLayout \<Rightarrow> u64" where
  "SlotCount ctrl = slotCount ctrl"

definition desc_line :: "u64 \<Rightarrow> u64 \<Rightarrow> string" where
  "desc_line rank h = ''DESC '' @ to_string_u64 rank @ '' '' @ to_string_u64 h"

definition SetRankDesc :: "CtrlLayout \<Rightarrow> u64 \<Rightarrow> RankDataDesc \<Rightarrow> 'w sys \<Rightarrow> status \<times> 'w sys" where
  "SetRankDesc ctrl rank desc s =
     (if rankCount ctrl \<le> rank then (Status_InvalidParam ''rank out of range'', s)
      else (Status_OK, put_line (desc_line rank (desc_handle desc)) s))"

text \<open>\<open>input >> tag >> peerRank >> handleText\<close>, with what is left of the line.\<close>

definition desc_fields :: "string \<Rightarrow> (string \<times> u64 \<times> string \<times> string) option" where
  "desc_fields line =
     (case read_token line of None \<Rightarrow> None
      | Some (tag, line1) \<Rightarrow>
         (case read_size_t line1 of None \<Rightarrow> None
          | Some (peerRank, line2) \<Rightarrow>
             (case read_token line2 of None \<Rightarrow> None
              | Some (handleText, line3) \<Rightarrow> Some (tag, peerRank, handleText, line3))))"

text \<open>One round of the loop of \<open>GetRankDesc\<close>; \<open>None\<close> is each \<open>continue\<close>.\<close>

definition parse_desc :: "u64 \<Rightarrow> string \<Rightarrow> u64 option" where
  "parse_desc rank line =
     (case desc_fields line of None \<Rightarrow> None
      | Some (tag, peerRank, handleText, rest) \<Rightarrow>
          if tag \<noteq> ''DESC'' \<or> peerRank \<noteq> rank \<or> read_token rest \<noteq> None \<or> \<not> only_digits handleText
          then None
          else (case stoull handleText of Inl _ \<Rightarrow> None
                | Inr h \<Rightarrow> if h = kInvalid then None else Some h))"

fun desc_loop :: "u64 \<Rightarrow> string list \<Rightarrow> (exn + u64) \<times> string list" where
  "desc_loop rank [] =
     (Inl (StdException ''stdin closed while waiting for rank descriptor''), [])"
| "desc_loop rank (line # ls) =
     (case parse_desc rank line of None \<Rightarrow> desc_loop rank ls | Some h \<Rightarrow> (Inr h, ls))"

definition GetRankDesc ::
  "CtrlLayout \<Rightarrow> u64 \<Rightarrow> 'w sys \<Rightarrow> (exn + RankDataDesc expected) \<times> 'w sys" where
  "GetRankDesc ctrl rank s =
     (if rankCount ctrl \<le> rank
      then (Inr (Unexpected (Status_InvalidParam ''rank out of range'')), s)
      else (case desc_loop rank (stdin_lines s) of
              (Inl e, ls) \<Rightarrow> (Inl e, s\<lparr>stdin_lines := ls\<rparr>)
            | (Inr h, ls) \<Rightarrow> (Inr (Value (RankDataDesc_default\<lparr>desc_handle := h\<rparr>)),
                s\<lparr>stdin_lines := ls\<rparr>)))"

subsection \<open>The contract of the descriptor lines\<close>

locale desc_channel =
  fixes publish :: "u64 \<Rightarrow> u64 \<Rightarrow> string"
    and accept :: "u64 \<Rightarrow> string \<Rightarrow> u64 option"
    and receive :: "u64 \<Rightarrow> string list \<Rightarrow> (exn + u64) \<times> string list"
    and unset :: u64
  assumes accept_own: "h \<noteq> unset \<Longrightarrow> accept r (publish r h) = Some h"
    and accept_other: "q \<noteq> r \<Longrightarrow> accept q (publish r h) = None"
    and accept_set: "accept r l = Some h \<Longrightarrow> h \<noteq> unset"
    and receive_skip: "accept r l = None \<Longrightarrow> receive r (l # ls) = receive r ls"
    and receive_take: "accept r l = Some h \<Longrightarrow> receive r (l # ls) = (Inr h, ls)"
    and receive_closed: "\<exists>e. receive r [] = (Inl e, [])"
begin

lemma receive_skip_all:
  "\<forall>l \<in> set noise. accept r l = None \<Longrightarrow> receive r (noise @ ls) = receive r ls"
  by (induction noise) (auto simp: receive_skip)

lemma receive_published:
  assumes "\<forall>l \<in> set noise. accept r l = None" and "h \<noteq> unset"
  shows "receive r (noise @ publish r h # ls) = (Inr h, ls)"
  using receive_skip_all [OF assms(1)] receive_take [OF accept_own [OF assms(2)]] by simp

lemma receive_after_others:
  assumes "\<forall>l \<in> set noise. \<exists>q k. q \<noteq> r \<and> l = publish q k" and "h \<noteq> unset"
  shows "receive r (noise @ publish r h # ls) = (Inr h, ls)"
proof (rule receive_published [OF _ assms(2)])
  show "\<forall>l \<in> set noise. accept r l = None"
  proof
    fix l
    assume "l \<in> set noise"
    then obtain q k where "q \<noteq> r" and "l = publish q k"
      using assms(1) by blast
    then show "accept r l = None"
      by (metis accept_other)
  qed
qed

lemma accept_unset: "accept r (publish r unset) \<noteq> Some unset"
  using accept_set by blast

lemma receive_split:
  assumes "receive r ls = (Inr h, rest)"
  shows "\<exists>noise l. ls = noise @ l # rest \<and> accept r l = Some h \<and>
    (\<forall>x \<in> set noise. accept r x = None)"
  using assms
proof (induction ls)
  case Nil
  then show ?case
    using receive_closed [of r] by auto
next
  case (Cons l ls)
  show ?case
  proof (cases "accept r l")
    case None
    with Cons obtain noise l' where "ls = noise @ l' # rest" and "accept r l' = Some h"
      and "\<forall>x \<in> set noise. accept r x = None"
      by (auto simp: receive_skip)
    with None have "l # ls = (l # noise) @ l' # rest \<and> accept r l' = Some h \<and>
        (\<forall>x \<in> set (l # noise). accept r x = None)"
      by simp
    then show ?thesis
      by blast
  next
    case (Some k)
    with Cons.prems have "k = h \<and> ls = rest"
      by (simp add: receive_take)
    with Some have "l # ls = [] @ l # rest \<and> accept r l = Some h"
      by simp
    then show ?thesis
      by fastforce
  qed
qed

lemma receive_fail:
  "receive r ls = (Inl e, rest) \<Longrightarrow> rest = [] \<and> (\<forall>l \<in> set ls. accept r l = None)"
proof (induction ls)
  case Nil
  then show ?case
    using receive_closed [of r] by auto
next
  case (Cons l ls)
  then show ?case
    by (cases "accept r l") (auto simp: receive_skip receive_take)
qed

end

subsection \<open>The code's printer and parser fulfil it\<close>

lemma desc_tag: "read_token (desc_line r h) = Some (''DESC'', CHR '' '' # to_string_u64 r @ '' '' @ to_string_u64 h)"
proof -
  have "read_token (''DESC'' @ (CHR '' '' # to_string_u64 r @ '' '' @ to_string_u64 h))
      = Some (''DESC'', CHR '' '' # to_string_u64 r @ '' '' @ to_string_u64 h)"
    by (rule read_token_append) (simp_all add: is_space_def)
  then show ?thesis
    by (simp add: desc_line_def)
qed

lemma desc_fields_desc_line:
  "desc_fields (desc_line r h) = Some (''DESC'', r, to_string_u64 h, [])"
proof -
  have "read_size_t (to_string_u64 r @ CHR '' '' # to_string_u64 h)
      = Some (r, CHR '' '' # to_string_u64 h)"
    by (rule read_size_t_to_string) (simp add: is_digit_def)
  moreover have "read_token (to_string_u64 h @ []) = Some (to_string_u64 h, [])"
    by (rule read_token_append)
      (simp_all add: only_digits_no_space to_string_u64_digits)
  ultimately show ?thesis
    by (simp add: desc_fields_def desc_tag)
qed

lemma parse_desc_line:
  "parse_desc q (desc_line r h) = (if q = r \<and> h \<noteq> kInvalid then Some h else None)"
  by (simp add: parse_desc_def desc_fields_desc_line to_string_u64_digits)

lemma parse_desc_not_unset: "parse_desc r l = Some h \<Longrightarrow> h \<noteq> kInvalid"
  by (auto simp: parse_desc_def split: option.splits if_splits sum.splits)

interpretation desc: desc_channel desc_line parse_desc desc_loop kInvalid
  by unfold_locales (auto simp: parse_desc_line parse_desc_not_unset)

text \<open>
  Only the handle's characters are checked to be digits: \<open>operator>>\<close> reads a negative number into a
  \<open>size_t\<close> modulo \<open>2 ^ 64\<close>.
\<close>

lemma negative_rank_accepted: "parse_desc 1 ''DESC -18446744073709551615 5'' = Some 5"
  by (simp add: parse_desc_def desc_fields_def read_token_def skip_ws_def is_space_def read_size_t_def scan_unsigned_def
      is_digit_def digits_value_def digit_val_def signed_u64_def only_digits_def stoull_def kInvalid_def Let_def)

subsection \<open>Effects\<close>

lemma SetRankDesc_logs [step_specs]: "SetRankDesc ctrl r d s = (st, s') \<Longrightarrow> logs [] s s'"
  by (auto simp: SetRankDesc_def split: if_splits)

lemma SetRankDesc_result:
  "SetRankDesc ctrl r d s = (st, s') \<Longrightarrow>
     Success st \<longleftrightarrow> r < rankCount ctrl"
  by (auto simp: SetRankDesc_def not_le split: if_splits)

lemma SetRankDesc_frame:
  "SetRankDesc ctrl r d s = (st, s') \<Longrightarrow> stdin_lines s' = stdin_lines s \<and>
     (Success st \<longrightarrow> stdout_lines s' = stdout_lines s @ [desc_line r (desc_handle d)])"
  by (auto simp: SetRankDesc_def put_line_def split: if_splits)

lemma GetRankDesc_logs [step_specs]: "GetRankDesc ctrl r s = (res, s') \<Longrightarrow> logs [] s s'"
  by (auto simp: GetRankDesc_def logs_def split: if_splits prod.splits sum.splits)

lemma GetRankDesc_frame:
  "GetRankDesc ctrl r s = (res, s') \<Longrightarrow>
     clk s' = clk s \<and> ticks s' = ticks s \<and> stdout_lines s' = stdout_lines s"
  by (auto simp: GetRankDesc_def split: if_splits prod.splits sum.splits)

lemma GetRankDesc_out_of_range:
  "rankCount ctrl \<le> r \<Longrightarrow>
     GetRankDesc ctrl r s = (Inr (Unexpected (Status_InvalidParam ''rank out of range'')), s)"
  by (simp add: GetRankDesc_def)

lemma GetRankDesc_in_range:
  assumes "r < rankCount ctrl" and "GetRankDesc ctrl r s = (res, s')"
  shows "(\<exists>e. res = Inl e \<and> desc_loop r (stdin_lines s) = (Inl e, stdin_lines s')) \<or>
    (\<exists>h. res = Inr (Value \<lparr>desc_handle = h\<rparr>) \<and> desc_loop r (stdin_lines s) = (Inr h, stdin_lines s'))"
  using assms
  by (auto simp: GetRankDesc_def RankDataDesc_default_def split: if_splits prod.splits sum.splits)

end
