(* ===== verification/Data_Strategy.thy ===== *)
theory Data_Strategy
  imports Hal_Memory Device Ctrl_Layout
begin

text \<open>
  src/ucm_data_strategy/data_strategy.h and data_strategy.cc, built with
  \<open>UCM_RUNTIME_ASCEND_HAL\<close>: the class that gives one process a local host allocation and the
  imported allocations of its peers, each mapped into a reservation of its own.

  A \<open>DataStrategy\<close> value is the object's fields. Every member function takes the object and the
  system state and returns the new ones, in the order the code makes its calls. \<open>LocalSetup\<close>
  and \<open>Setup\<close> are undefined (\<open>None\<close>) where the code divides by zero slots, indexes the mapping
  vector with an owner outside it, asks \<open>std::lcm\<close> for a number beyond \<open>2 ^ 64\<close>, or computes a
  time beyond the 64-bit nanoseconds of the steady clock; a C++
  exception is the left side of the result. Log output is left out. The facts about these
  functions are in \<open>Data_Strategy_Facts\<close>.
\<close>

record MappingEntry =
  handle :: u64
  addr :: u64
  mapped :: bool

definition MappingEntry_default :: MappingEntry where
  "MappingEntry_default = \<lparr>handle = nullptr, addr = nullptr, mapped = False\<rparr>"

text \<open>\<open>sizeof(Mapping)\<close>: two pointers and a flag, padded\<close>

definition MappingEntry_size :: nat where
  "MappingEntry_size = 24"

record DataStrategy =
  slotSize :: u64
  nSlotsPerRank :: u64
  mappings :: "MappingEntry list"
  owner :: u64
  deviceId :: int
  rankStride :: u64

definition DataStrategy_new :: DataStrategy where
  "DataStrategy_new =
     \<lparr>slotSize = 0, nSlotsPerRank = 0, mappings = [], owner = 0, deviceId = - 1, rankStride = 0\<rparr>"

text \<open>Assignments to fields of \<open>mappings_[rank]\<close>\<close>

definition set_entry :: "nat \<Rightarrow> (MappingEntry \<Rightarrow> MappingEntry) \<Rightarrow> DataStrategy \<Rightarrow> DataStrategy" where
  "set_entry rank f ds = ds\<lparr>mappings := (mappings ds)[rank := f (mappings ds ! rank)]\<rparr>"

subsection \<open>Reservation and release\<close>

definition ReserveRankAddress ::
  "'w env \<Rightarrow> nat \<Rightarrow> DataStrategy \<Rightarrow> 'w sys \<Rightarrow> status \<times> DataStrategy \<times> 'w sys" where
  "ReserveRankAddress E rank ds s =
     (let (status, a, s1) = MemAddressReserve E (addr (mappings ds ! rank)) (rankStride ds) s;
          ds1 = set_entry rank (\<lambda>m. m\<lparr>addr := a\<rparr>) ds
      in if Failure status then (status, ds1, s1)
         else if addr (mappings ds1 ! rank) = nullptr
         then (Status_Error ''HAL did not return a valid ptr'', ds1, s1)
         else (Status_OK, ds1, s1))"

text \<open>The bodies of the three clean-up loops of \<open>Reset\<close>; a failure is logged and ignored.\<close>

definition unmap_rank :: "'w env \<Rightarrow> DataStrategy \<Rightarrow> nat \<Rightarrow> 'w sys \<Rightarrow> 'w sys" where
  "unmap_rank E ds rank s =
     (if \<not> mapped (mappings ds ! rank) then s
      else snd (MemUnmap E (addr (mappings ds ! rank)) s))"

definition release_rank :: "'w env \<Rightarrow> DataStrategy \<Rightarrow> nat \<Rightarrow> 'w sys \<Rightarrow> 'w sys" where
  "release_rank E ds rank s =
     (if handle (mappings ds ! rank) = nullptr then s
      else snd (MemRelease E (handle (mappings ds ! rank)) s))"

definition free_rank :: "'w env \<Rightarrow> DataStrategy \<Rightarrow> nat \<Rightarrow> 'w sys \<Rightarrow> 'w sys" where
  "free_rank E ds rank s =
     (if addr (mappings ds ! rank) = nullptr then s
      else snd (MemAddressFree E (addr (mappings ds ! rank)) s))"

definition is_owner :: "DataStrategy \<Rightarrow> nat \<Rightarrow> bool" where
  "is_owner ds rank \<longleftrightarrow> rank = unat (owner ds)"

definition Reset :: "'w env \<Rightarrow> DataStrategy \<Rightarrow> 'w sys \<Rightarrow> DataStrategy \<times> 'w sys" where
  "Reset E ds s =
     (let ranks = [0..<length (mappings ds)];
          s1 = fold (unmap_rank E ds) ranks s;
          s2 = fold (\<lambda>rank s. if \<not> is_owner ds rank then release_rank E ds rank s else s) ranks s1;
          s3 = (if unat (owner ds) < length (mappings ds)
                then release_rank E ds (unat (owner ds)) s2 else s2);
          s4 = fold (free_rank E ds) ranks s3
      in (ds\<lparr>mappings := [], rankStride := 0\<rparr>, s4))"

subsection \<open>Local allocation\<close>

definition round_up :: "u64 \<Rightarrow> u64 \<Rightarrow> u64" where
  "round_up bytes alignment = (bytes + alignment - 1) div alignment * alignment"

text \<open>The second half of \<open>LocalSetup\<close>: reserve, create and map for the owner's entry.\<close>

definition MapLocal ::
  "'w env \<Rightarrow> PageType \<Rightarrow> DataStrategy \<Rightarrow> 'w sys \<Rightarrow> status \<times> DataStrategy \<times> 'w sys" where
  "MapLocal E pageType ds s =
     (let own = unat (owner ds);
          (st1, ds1, s1) = ReserveRankAddress E own ds s
      in if Failure st1 then (st1, ds1, s1)
      else let (st2, h, s2) = MemCreate E (handle (mappings ds1 ! own)) (rankStride ds1) pageType s1;
               ds2 = set_entry own (\<lambda>m. m\<lparr>handle := h\<rparr>) ds1
      in if Failure st2 then (st2, ds2, s2)
      else let (st3, s3) = MemMap E (addr (mappings ds2 ! own)) (rankStride ds2)
                             (handle (mappings ds2 ! own)) s2
      in if Failure st3 then (st3, ds2, s3)
      else (Status_OK, set_entry own (\<lambda>m. m\<lparr>mapped := True\<rparr>) ds2, s3))"

definition LocalSetup ::
  "'w env \<Rightarrow> u64 \<Rightarrow> u64 \<Rightarrow> PageType \<Rightarrow> DataStrategy \<Rightarrow> 'w sys
     \<Rightarrow> ((exn + status) \<times> DataStrategy \<times> 'w sys) option" where
  "LocalSetup E dataBytes nRanks pageType ds s =
     (let (st0, allocGranularity, s0) = MemGetAllocationGranularity E pageType 0 s
      in if Failure st0 then Some (Inr st0, ds, s0)
         else if allocGranularity = 0
         then Some (Inr (Status_Error (fmt_format ''invalid HAL granularity({}) for data size({})''
                      [to_string_u64 allocGranularity, to_string_u64 dataBytes])), ds, s0)
         else case std_lcm kAddressAlignment allocGranularity of
             None \<Rightarrow> None
           | Some allocationAlignment \<Rightarrow>
               (let ds1 = ds\<lparr>rankStride := round_up dataBytes allocationAlignment\<rparr>
                in case vector_resize E MappingEntry_size (unat nRanks) MappingEntry_default
                          (mappings ds1) of
                     Inl e \<Rightarrow> Some (Inl e, ds1, s0)
                   | Inr ms \<Rightarrow>
                       if length ms \<le> unat (owner ds1) then None
                       else let (st, ds2, s1) = MapLocal E pageType (ds1\<lparr>mappings := ms\<rparr>) s0
                            in Some (Inr st, ds2, s1)))"

subsection \<open>Exchange with the peers\<close>

text \<open>
  Time is a signed 64-bit number of nanoseconds, \<open>std::chrono::milliseconds\<close> a signed 64-bit number
  of milliseconds. Converting \<open>timeoutMs\<close> to it reads the \<open>size_t\<close> as two's complement; bringing it
  to nanoseconds and adding it to a reading of the clock is signed arithmetic, undefined
  (\<open>None\<close>) when the product or the sum is out of range.
\<close>

definition int64_fits :: "int \<Rightarrow> bool" where
  "int64_fits x \<longleftrightarrow> - (2 ^ 63) \<le> x \<and> x < 2 ^ 63"

definition chrono_milliseconds :: "u64 \<Rightarrow> int option" where
  "chrono_milliseconds timeoutMs =
     (let ns = sint timeoutMs * 1000000 in if int64_fits ns then Some ns else None)"

text \<open>
  The point of time \<open>ns\<close> nanoseconds after a reading. Every reading of the clock is at least 0, so a
  point before the clock's start has passed whenever it is looked at, as 0 has.
\<close>

definition time_after :: "nat \<Rightarrow> int \<Rightarrow> nat option" where
  "time_after now ns =
     (if int64_fits (int now) \<and> int64_fits (int now + ns) then Some (nat (int now + ns)) else None)"

text \<open>The 10 ms pause of the polling loop\<close>

definition poll_pause :: nat where
  "poll_pause = 10000000"

lemma time_after_pause: "time_after now (int poll_pause) = Some t \<Longrightarrow> t = now + poll_pause"
  by (auto simp: time_after_def nat_int_add split: if_splits)

text \<open>
  The polling loop: while no descriptor has been read and the deadline has not passed, wait and
  read again. Every pause brings the clock nearer to the deadline, which is why it ends.
\<close>

function wait_desc ::
  "'w env \<Rightarrow> CtrlLayout \<Rightarrow> u64 \<Rightarrow> nat \<Rightarrow> exn + RankDataDesc expected \<Rightarrow> 'w sys
     \<Rightarrow> ((exn + RankDataDesc expected) \<times> 'w sys) option" where
  "wait_desc E ctrl rank deadline peerDesc s =
     (case peerDesc of
        Inl e \<Rightarrow> Some (Inl e, s)
      | Inr (Value d) \<Rightarrow> Some (Inr (Value d), s)
      | Inr (Unexpected st) \<Rightarrow>
          (let (now, s1) = clock_now E s
           in if deadline \<le> now then Some (peerDesc, s1)
              else case time_after now (int poll_pause) of
                None \<Rightarrow> None
              | Some wake \<Rightarrow>
                  (let (now', s2) = clock_now E (sleep_until (min deadline wake) s1)
                   in if deadline \<le> now' then Some (peerDesc, s2)
                      else let (peerDesc', s3) = GetRankDesc ctrl rank s2
                      in wait_desc E ctrl rank deadline peerDesc' s3)))"
  by pat_completeness auto

termination
proof (relation "measure (\<lambda>(E, ctrl, rank, deadline, peerDesc, s). deadline - clk s)", goal_cases)
  case 1
  then show ?case by simp
next
  case (2 E ctrl rank deadline peerDesc s r st p now s1 tm q now' s2 g peerDesc' s3)
  have "now = clk s1 \<and> clk s \<le> now"
    using clock_now_clk [of E s now s1] 2 by simp
  moreover have "tm = now + poll_pause"
    using 2 by (intro time_after_pause) simp
  moreover have "min deadline tm \<le> now' \<and> clk s2 = now'"
    using clock_now_clk [of E "sleep_until (min deadline tm) s1" now' s2] 2 by simp
  moreover have "clk s3 = clk s2"
    using GetRankDesc_frame [of ctrl rank s2 peerDesc' s3] 2 by simp
  moreover have "\<not> deadline \<le> now" and "\<not> deadline \<le> now'"
    using 2 by simp_all
  ultimately have "deadline - clk s3 < deadline - clk s"
    by (auto simp: poll_pause_def min_def split: if_splits)
  then show ?case
    by simp
qed

declare wait_desc.simps [simp del]

text \<open>One peer's turn of the loop of \<open>CrossRankSetup\<close>: read its descriptor, import, reserve, map.\<close>

definition peer_failure :: "string \<Rightarrow> nat \<Rightarrow> status \<Rightarrow> status" where
  "peer_failure what rank st =
     mk_status (Underlying st)
       (fmt_format (''HAL peer '' @ what @ '' failed: rank={} status={}'')
          [nat_to_string rank, ToString st])"

definition timeout_status :: "DataStrategy \<Rightarrow> nat \<Rightarrow> u64 \<Rightarrow> status \<Rightarrow> status" where
  "timeout_status ds rank timeoutMs st =
     mk_status (Underlying Status_Timeout)
       (fmt_format ''GetRankDesc timed out: owner={} device={} rank={} timeout_ms={} status={}''
          [to_string_u64 (owner ds), to_string_int (deviceId ds), nat_to_string rank,
           to_string_u64 timeoutMs, ToString st])"

definition setup_peer ::
  "'w env \<Rightarrow> CtrlLayout \<Rightarrow> u64 \<Rightarrow> nat \<Rightarrow> nat \<Rightarrow> DataStrategy \<Rightarrow> 'w sys
     \<Rightarrow> ((exn + status) \<times> DataStrategy \<times> 'w sys) option" where
  "setup_peer E ctrl timeoutMs deadline rank ds s =
     (let (peer0, s0) = GetRankDesc ctrl (of_nat rank) s
      in case wait_desc E ctrl (of_nat rank) deadline peer0 s0 of
           None \<Rightarrow> None
         | Some (Inl e, s1) \<Rightarrow> Some (Inl e, ds, s1)
         | Some (Inr (Unexpected st), s1) \<Rightarrow> Some (Inr (timeout_status ds rank timeoutMs st), ds, s1)
         | Some (Inr (Value d), s1) \<Rightarrow>
             Some (let peerHandle = desc_handle d;
                  (st2, h, s2) = MemImportFromShareableHandle E peerHandle (word_of_int (deviceId ds))
                                   (handle (mappings ds ! rank)) s1;
                  ds2 = set_entry rank (\<lambda>m. m\<lparr>handle := h\<rparr>) ds
              in if Failure st2 then (Inr (peer_failure ''import'' rank st2), ds2, s2)
                 else let (st3, ds3, s3) = ReserveRankAddress E rank ds2 s2
                 in if Failure st3 then (Inr st3, ds3, s3)
                 else let (st4, s4) = MemMap E (addr (mappings ds3 ! rank)) (rankStride ds3)
                                        (handle (mappings ds3 ! rank)) s3
                 in if Failure st4 then (Inr (peer_failure ''map'' rank st4), ds3, s4)
                 else (Inr Status_OK, set_entry rank (\<lambda>m. m\<lparr>mapped := True\<rparr>) ds3, s4)))"

fun setup_peers ::
  "'w env \<Rightarrow> CtrlLayout \<Rightarrow> u64 \<Rightarrow> nat \<Rightarrow> nat list \<Rightarrow> DataStrategy \<Rightarrow> 'w sys
     \<Rightarrow> ((exn + status) \<times> DataStrategy \<times> 'w sys) option" where
  "setup_peers E ctrl timeoutMs deadline [] ds s = Some (Inr Status_OK, ds, s)"
| "setup_peers E ctrl timeoutMs deadline (rank # ranks) ds s =
     (if is_owner ds rank then setup_peers E ctrl timeoutMs deadline ranks ds s
      else case setup_peer E ctrl timeoutMs deadline rank ds s of
             None \<Rightarrow> None
           | Some (Inl e, ds1, s1) \<Rightarrow> Some (Inl e, ds1, s1)
           | Some (Inr st, ds1, s1) \<Rightarrow>
               if Failure st then Some (Inr st, ds1, s1)
               else setup_peers E ctrl timeoutMs deadline ranks ds1 s1)"

text \<open>The first statement of \<open>CrossRankSetup\<close>: the common deadline of all peers\<close>

definition setup_deadline :: "'w env \<Rightarrow> u64 \<Rightarrow> 'w sys \<Rightarrow> (nat \<times> 'w sys) option" where
  "setup_deadline E timeoutMs s =
     (let (now, s0) = clock_now E s
      in case chrono_milliseconds timeoutMs of
           None \<Rightarrow> None
         | Some ns \<Rightarrow> map_option (\<lambda>deadline. (deadline, s0)) (time_after now ns))"

definition CrossRankSetup ::
  "'w env \<Rightarrow> CtrlLayout \<Rightarrow> u64 \<Rightarrow> DataStrategy \<Rightarrow> 'w sys
     \<Rightarrow> ((exn + status) \<times> DataStrategy \<times> 'w sys) option" where
  "CrossRankSetup E ctrl timeoutMs ds s =
     (case setup_deadline E timeoutMs s of
        None \<Rightarrow> None
      | Some (deadline, s0) \<Rightarrow>
          (let (st1, shareHandle, s1) =
                 MemExportToShareableHandle E (handle (mappings ds ! unat (owner ds))) 0 s0
           in if Failure st1 then Some (Inr st1, ds, s1)
              else let (st2, s2) = MemShareHandleDisableWhitelist E shareHandle s1
              in if Failure st2 then Some (Inr st2, ds, s2)
              else let desc = RankDataDesc_default\<lparr>desc_handle := shareHandle\<rparr>;
                       (st3, s3) = SetRankDesc ctrl (owner ds) desc s2
              in if Failure st3
                 then Some (Inr (mk_status (Underlying st3)
                        (fmt_format ''SetRankDesc failed: owner={} device={} status={}''
                           [to_string_u64 (owner ds), to_string_int (deviceId ds), ToString st3])),
                        ds, s3)
                 else setup_peers E ctrl timeoutMs deadline [0..<length (mappings ds)] ds s3))"

subsection \<open>The public interface\<close>

text \<open>The guarded body of \<open>Setup\<close>: device, huge pages, normal pages after a failure, peers.\<close>

definition SetupLocal ::
  "'w env \<Rightarrow> CtrlLayout \<Rightarrow> u64 \<Rightarrow> u64 \<Rightarrow> DataStrategy \<Rightarrow> 'w sys
     \<Rightarrow> ((exn + status) \<times> DataStrategy \<times> 'w sys) option" where
  "SetupLocal E ctrl slotBytes nSlots ds s =
     (if nSlots = 0 then None
      else let dataBytes = slotBytes * nSlots; nRanks = SlotCount ctrl div nSlots
      in case LocalSetup E dataBytes nRanks Huge ds s of
           None \<Rightarrow> None
         | Some (Inl e, ds1, s1) \<Rightarrow> Some (Inl e, ds1, s1)
         | Some (Inr st, ds1, s1) \<Rightarrow>
             if Failure st
             then let (ds2, s2) = Reset E ds1 s1 in LocalSetup E dataBytes nRanks Normal ds2 s2
             else Some (Inr st, ds1, s1))"

definition SetupBody ::
  "'w env \<Rightarrow> CtrlLayout \<Rightarrow> u64 \<Rightarrow> u64 \<Rightarrow> u64 \<Rightarrow> DataStrategy \<Rightarrow> 'w sys
     \<Rightarrow> ((exn + status) \<times> DataStrategy \<times> 'w sys) option" where
  "SetupBody E ctrl slotBytes nSlots timeoutMs ds s =
     (let (st0, s0) = Device_Setup E (deviceId ds) s
      in if Failure st0 then Some (Inr st0, ds, s0)
         else case SetupLocal E ctrl slotBytes nSlots ds s0 of
                None \<Rightarrow> None
              | Some (Inl e, ds1, s1) \<Rightarrow> Some (Inl e, ds1, s1)
              | Some (Inr st, ds1, s1) \<Rightarrow>
                  if Failure st then Some (Inr st, ds1, s1)
                  else CrossRankSetup E ctrl timeoutMs ds1 s1)"

definition caught :: "exn + status \<Rightarrow> status" where
  "caught r = (case r of Inl BadAlloc \<Rightarrow> Status_OutOfMemory
     | Inl (StdException what) \<Rightarrow> Status_Error what | Inr st \<Rightarrow> st)"

definition Setup ::
  "'w env \<Rightarrow> CtrlLayout \<Rightarrow> int \<Rightarrow> u64 \<Rightarrow> u64 \<Rightarrow> u64 \<Rightarrow> u64 \<Rightarrow> DataStrategy \<Rightarrow> 'w sys
     \<Rightarrow> (status \<times> DataStrategy \<times> 'w sys) option" where
  "Setup E ctrl device myRank slotBytes nSlots timeoutMs ds s =
     (if nSlotsPerRank ds \<noteq> 0
      then Some (Status_Error ''cache2 data strategy is already initialized'', ds, s)
      else case SetupBody E ctrl slotBytes nSlots timeoutMs
                  (ds\<lparr>owner := myRank, deviceId := device\<rparr>) s of
             None \<Rightarrow> None
           | Some (r, ds1, s1) \<Rightarrow>
               (let status = caught r
                in if Failure status
                   then let (ds2, s2) = Reset E ds1 s1 in Some (status, ds2, s2)
                   else Some (Status_OK,
                          ds1\<lparr>slotSize := slotBytes, nSlotsPerRank := nSlots\<rparr>, s1)))"

definition HostAccessibleOf :: "DataStrategy \<Rightarrow> u64 \<Rightarrow> bool" where
  "HostAccessibleOf ds slotIdx \<longleftrightarrow>
     nSlotsPerRank ds \<noteq> 0 \<and> slotIdx div nSlotsPerRank ds = owner ds"

definition slot_address :: "DataStrategy \<Rightarrow> u64 \<Rightarrow> u64" where
  "slot_address ds slotIdx =
     addr (mappings ds ! unat (slotIdx div nSlotsPerRank ds))
       + (slotIdx mod nSlotsPerRank ds) * slotSize ds"

definition DataAt :: "DataStrategy \<Rightarrow> u64 \<Rightarrow> u64" where
  "DataAt ds slotIdx =
     (if nSlotsPerRank ds = 0 then nullptr
      else let rank = slotIdx div nSlotsPerRank ds
      in if rank \<noteq> owner ds \<or> length (mappings ds) \<le> unat rank
            \<or> \<not> mapped (mappings ds ! unat rank)
         then nullptr else slot_address ds slotIdx)"

definition DeviceDataAt :: "DataStrategy \<Rightarrow> u64 \<Rightarrow> u64" where
  "DeviceDataAt ds slotIdx =
     (if nSlotsPerRank ds = 0 then nullptr
      else let rank = slotIdx div nSlotsPerRank ds
      in if rank = owner ds \<or> length (mappings ds) \<le> unat rank
            \<or> \<not> mapped (mappings ds ! unat rank)
         then nullptr else slot_address ds slotIdx)"

text \<open>The destructor\<close>

definition DataStrategy_destroy :: "'w env \<Rightarrow> DataStrategy \<Rightarrow> 'w sys \<Rightarrow> 'w sys" where
  "DataStrategy_destroy E ds s = snd (Reset E ds s)"

end
