(* ===== verification/Data_Strategy_Facts.thy ===== *)
theory Data_Strategy_Facts
  imports Data_Strategy
begin

text \<open>
  The invariants of \<open>Data_Strategy\<close>.

  \<^item> Accounting: what the object holds (\<open>held_va\<close>, \<open>held_handle\<close>, \<open>held_map\<close>, read off its
    mapping entries) changes by exactly what the calls acquire and release (\<open>accounts\<close>). Every
    operation keeps the account, whatever the driver answers; \<open>Reset\<close> brings it to zero.
  \<^item> Order: the calls of \<open>Reset\<close> are given as a list (\<open>reset_calls\<close>).
  \<^item> Readiness: which entries are filled in after a successful step (\<open>ready_at\<close>), and that
    entries not yet reached are fresh.
\<close>

subsection \<open>What an object holds\<close>

definition va_of :: "MappingEntry \<Rightarrow> u64 multiset" where
  "va_of m = (if addr m = nullptr then {#} else {#addr m#})"

definition handle_of :: "MappingEntry \<Rightarrow> u64 multiset" where
  "handle_of m = (if handle m = nullptr then {#} else {#handle m#})"

definition map_of_entry :: "MappingEntry \<Rightarrow> u64 multiset" where
  "map_of_entry m = (if mapped m then {#addr m#} else {#})"

definition held :: "(MappingEntry \<Rightarrow> u64 multiset) \<Rightarrow> DataStrategy \<Rightarrow> u64 multiset" where
  "held f ds = sum_list (map f (mappings ds))"

definition fresh_entry :: "MappingEntry \<Rightarrow> bool" where
  "fresh_entry m \<longleftrightarrow> handle m = nullptr \<and> addr m = nullptr \<and> \<not> mapped m"

definition ready_entry :: "MappingEntry \<Rightarrow> bool" where
  "ready_entry m \<longleftrightarrow> addr m \<noteq> nullptr \<and> mapped m"

definition accounts :: "event list \<Rightarrow> DataStrategy \<Rightarrow> DataStrategy \<Rightarrow> bool" where
  "accounts ev ds ds' \<longleftrightarrow>
     held va_of ds + tally va_acquired ev = tally va_released ev + held va_of ds' \<and>
     held handle_of ds + tally handle_acquired ev = tally handle_released ev + held handle_of ds' \<and>
     held map_of_entry ds + tally map_acquired ev = tally map_released ev + held map_of_entry ds'"

lemmas entry_defs = va_of_def handle_of_def map_of_entry_def fresh_entry_def ready_entry_def

lemma fresh_default [simp]: "fresh_entry MappingEntry_default"
  by (simp add: fresh_entry_def MappingEntry_default_def)

lemma account_chain:
  fixes a b c :: "'a multiset"
  assumes "a + p = q + b" and "b + p' = q' + c"
  shows "a + (p + p') = (q + q') + c"
  using assms by (metis add.assoc add.commute)

lemma accounts_refl [simp]: "accounts [] ds ds"
  by (simp add: accounts_def)

lemma accounts_trans:
  assumes "accounts ev ds ds'" and "accounts ev' ds' ds''"
  shows "accounts (ev @ ev') ds ds''"
  using assms unfolding accounts_def tally_simps by (blast intro: account_chain)

text \<open>Only the mapping entries matter.\<close>

lemma accounts_mappings:
  assumes "accounts ev ds ds'" and "mappings d = mappings ds" and "mappings d' = mappings ds'"
  shows "accounts ev d d'"
  using assms by (simp add: accounts_def held_def)

lemma accounts_balanced:
  assumes "accounts ev ds ds'" and "mappings ds = []" and "mappings ds' = []"
  shows "balanced ev"
  using assms by (simp add: accounts_def held_def balanced_def)

lemma accounts_neutral:
  assumes "mappings ds' = mappings ds"
    and "tally va_acquired ev = {#}" "tally va_released ev = {#}"
    and "tally handle_acquired ev = {#}" "tally handle_released ev = {#}"
    and "tally map_acquired ev = {#}" "tally map_released ev = {#}"
  shows "accounts ev ds ds'"
  using assms by (simp add: accounts_def held_def)

subsection \<open>Frames of entry updates\<close>

lemma set_entry_fields [simp]:
  "owner (set_entry r f ds) = owner ds" "deviceId (set_entry r f ds) = deviceId ds"
  "rankStride (set_entry r f ds) = rankStride ds" "slotSize (set_entry r f ds) = slotSize ds"
  "nSlotsPerRank (set_entry r f ds) = nSlotsPerRank ds"
  "length (mappings (set_entry r f ds)) = length (mappings ds)"
  by (simp_all add: set_entry_def)

lemma set_entry_nth [simp]:
  "r < length (mappings ds) \<Longrightarrow> mappings (set_entry r f ds) ! r = f (mappings ds ! r)"
  by (simp add: set_entry_def)

lemma set_entry_nth_other [simp]:
  "i \<noteq> r \<Longrightarrow> mappings (set_entry r f ds) ! i = mappings ds ! i"
  by (simp add: set_entry_def)

lemma held_set_entry_gain:
  assumes "r < length (mappings ds)" and "f (mappings ds ! r) = {#}"
  shows "held f (set_entry r u ds) = held f ds + f (u (mappings ds ! r))"
  unfolding held_def set_entry_def using assms by (simp add: sum_list_update_zero)

lemma held_set_entry_same:
  assumes "f (u (mappings ds ! r)) = f (mappings ds ! r)"
  shows "held f (set_entry r u ds) = held f ds"
  unfolding held_def set_entry_def using assms by (simp add: sum_list_update_same)

lemma held_replicate_fresh:
  assumes "mappings ds = replicate n MappingEntry_default"
  shows "held va_of ds = {#}" "held handle_of ds = {#}" "held map_of_entry ds = {#}"
  using assms
  by (simp_all add: held_def entry_defs MappingEntry_default_def)

text \<open>The three ways an entry gains a resource, and the account of the call that gives it.\<close>

lemma accounts_reserve:
  assumes "r < length (mappings ds)" and "fresh_entry (mappings ds ! r) \<or>
      (addr (mappings ds ! r) = nullptr \<and> \<not> mapped (mappings ds ! r))"
  shows "accounts [(halMemAddressReserve p n 0 0 0, ret, a)] ds (set_entry r (\<lambda>m. m\<lparr>addr := a\<rparr>) ds)"
proof -
  have e: "addr (mappings ds ! r) = nullptr" "\<not> mapped (mappings ds ! r)"
    using assms(2) by (auto simp: fresh_entry_def)
  have "held va_of (set_entry r (\<lambda>m. m\<lparr>addr := a\<rparr>) ds) =
      held va_of ds + va_of ((mappings ds ! r)\<lparr>addr := a\<rparr>)"
    using assms(1) e by (intro held_set_entry_gain) (simp_all add: va_of_def)
  moreover have "held handle_of (set_entry r (\<lambda>m. m\<lparr>addr := a\<rparr>) ds) = held handle_of ds"
    by (rule held_set_entry_same) (simp add: handle_of_def)
  moreover have "held map_of_entry (set_entry r (\<lambda>m. m\<lparr>addr := a\<rparr>) ds) = held map_of_entry ds"
    using e by (intro held_set_entry_same) (simp add: map_of_entry_def)
  ultimately show ?thesis
    by (simp add: accounts_def ledger_defs va_of_def)
qed

lemma accounts_handle:
  assumes "r < length (mappings ds)" and "handle (mappings ds ! r) = nullptr"
    and "h = (if ret = 0 then out else nullptr)"
    and "c = halMemCreate x n p 0 \<or> c = halMemImportFromShareableHandle y z d"
  shows "accounts [(c, ret, out)] ds (set_entry r (\<lambda>m. m\<lparr>handle := h\<rparr>) ds)"
proof -
  have "held handle_of (set_entry r (\<lambda>m. m\<lparr>handle := h\<rparr>) ds) =
      held handle_of ds + handle_of ((mappings ds ! r)\<lparr>handle := h\<rparr>)"
    using assms(1,2) by (intro held_set_entry_gain) (simp_all add: handle_of_def)
  moreover have "held va_of (set_entry r (\<lambda>m. m\<lparr>handle := h\<rparr>) ds) = held va_of ds"
    by (rule held_set_entry_same) (simp add: va_of_def)
  moreover have "held map_of_entry (set_entry r (\<lambda>m. m\<lparr>handle := h\<rparr>) ds) = held map_of_entry ds"
    by (rule held_set_entry_same) (simp add: map_of_entry_def)
  ultimately show ?thesis
    using assms(3,4) by (auto simp: accounts_def ledger_defs handle_of_def)
qed

lemma accounts_map:
  assumes "r < length (mappings ds)" and "\<not> mapped (mappings ds ! r)"
    and "p = addr (mappings ds ! r)"
  shows "accounts [(halMemMap p n 0 h 0, 0, out)] ds (set_entry r (\<lambda>m. m\<lparr>mapped := True\<rparr>) ds)"
proof -
  have "held map_of_entry (set_entry r (\<lambda>m. m\<lparr>mapped := True\<rparr>) ds) =
      held map_of_entry ds + map_of_entry ((mappings ds ! r)\<lparr>mapped := True\<rparr>)"
    using assms(1,2) by (intro held_set_entry_gain) (simp_all add: map_of_entry_def)
  moreover have "held va_of (set_entry r (\<lambda>m. m\<lparr>mapped := True\<rparr>) ds) = held va_of ds"
    by (rule held_set_entry_same) (simp add: va_of_def)
  moreover have "held handle_of (set_entry r (\<lambda>m. m\<lparr>mapped := True\<rparr>) ds) = held handle_of ds"
    by (rule held_set_entry_same) (simp add: handle_of_def)
  ultimately show ?thesis
    using assms(3) by (simp add: accounts_def ledger_defs map_of_entry_def)
qed

lemma accounts_map_failed: "ret \<noteq> 0 \<Longrightarrow> accounts [(halMemMap p n 0 h 0, ret, out)] ds ds"
  by (rule accounts_neutral) (simp_all add: ledger_defs)

lemma accounts_query:
  "accounts [(halMemGetAllocationGranularity g q, ret, out)] ds ds"
  "accounts [(halMemExportToShareableHandle h f x, ret, out)] ds ds"
  "accounts [(halMemShareHandleSetAttribute x, ret, out)] ds ds"
  "accounts [(aclrtSetDevice d, ret, out)] ds ds"
  "accounts [(aclInit, ret, out)] ds ds"
  "accounts [(aclFinalize, ret, out)] ds ds"
  by (auto intro!: accounts_neutral simp: ledger_defs)

subsection \<open>Reset\<close>

definition unmap_due :: "MappingEntry \<Rightarrow> native list" where
  "unmap_due m = (if mapped m then [halMemUnmap (addr m)] else [])"

definition release_due :: "MappingEntry \<Rightarrow> native list" where
  "release_due m = (if handle m = nullptr then [] else [halMemRelease (handle m)])"

definition free_due :: "MappingEntry \<Rightarrow> native list" where
  "free_due m = (if addr m = nullptr then [] else [halMemAddressFree (addr m)])"

lemmas due_defs = unmap_due_def release_due_def free_due_def

text \<open>The ranks in the order in which \<open>Reset\<close> releases their handles: the owner last.\<close>

definition release_order :: "DataStrategy \<Rightarrow> nat list" where
  "release_order ds =
     filter (\<lambda>rank. \<not> is_owner ds rank) [0..<length (mappings ds)]
       @ (if unat (owner ds) < length (mappings ds) then [unat (owner ds)] else [])"

definition reset_calls :: "DataStrategy \<Rightarrow> native list" where
  "reset_calls ds =
     concat (map unmap_due (mappings ds))
       @ concat (map (\<lambda>r. release_due (mappings ds ! r)) (release_order ds))
       @ concat (map free_due (mappings ds))"

lemma unmap_rank_due:
  "\<exists>ev. emits ev s (unmap_rank E ds r s) \<and> map fst ev = unmap_due (mappings ds ! r)"
proof (cases "mapped (mappings ds ! r)")
  case True
  obtain st s' where m: "MemUnmap E (addr (mappings ds ! r)) s = (st, s')"
    by fastforce
  with MemUnmap_spec [OF m] True show ?thesis
    by (auto simp: unmap_rank_def unmap_due_def)
next
  case False
  then show ?thesis
    by (auto simp: unmap_rank_def unmap_due_def intro: exI [of _ "[]"])
qed

lemma release_rank_due:
  "\<exists>ev. emits ev s (release_rank E ds r s) \<and> map fst ev = release_due (mappings ds ! r)"
proof (cases "handle (mappings ds ! r) = nullptr")
  case False
  obtain st s' where m: "MemRelease E (handle (mappings ds ! r)) s = (st, s')"
    by fastforce
  with MemRelease_spec [OF m] False show ?thesis
    by (auto simp: release_rank_def release_due_def)
next
  case True
  then show ?thesis
    by (auto simp: release_rank_def release_due_def intro: exI [of _ "[]"])
qed

lemma free_rank_due:
  "\<exists>ev. emits ev s (free_rank E ds r s) \<and> map fst ev = free_due (mappings ds ! r)"
proof (cases "addr (mappings ds ! r) = nullptr")
  case False
  obtain st s' where m: "MemAddressFree E (addr (mappings ds ! r)) s = (st, s')"
    by fastforce
  with MemAddressFree_spec [OF m] False show ?thesis
    by (auto simp: free_rank_def free_due_def)
next
  case True
  then show ?thesis
    by (auto simp: free_rank_def free_due_def intro: exI [of _ "[]"])
qed

interpretation unmap_loop: cleanup_loop "unmap_rank E ds" "\<lambda>r. unmap_due (mappings ds ! r)"
  for E :: "'w env" and ds
  by unfold_locales (rule unmap_rank_due)

interpretation release_loop: cleanup_loop "release_rank E ds" "\<lambda>r. release_due (mappings ds ! r)"
  for E :: "'w env" and ds
  by unfold_locales (rule release_rank_due)

interpretation free_loop: cleanup_loop "free_rank E ds" "\<lambda>r. free_due (mappings ds ! r)"
  for E :: "'w env" and ds
  by unfold_locales (rule free_rank_due)

lemma fold_guarded: "fold (\<lambda>x s. if P x then f x s else s) xs s = fold f (filter P xs) s"
  by (induction xs arbitrary: s) auto

lemma concat_map_nth: "concat (map (\<lambda>r. f (xs ! r)) [0..<length xs]) = concat (map f xs)"
proof -
  have "map (\<lambda>r. f (xs ! r)) [0..<length xs] = map f xs"
    by (rule nth_equalityI) auto
  then show ?thesis by simp
qed

lemma Reset_calls:
  assumes "Reset E ds s = (ds', s')"
  shows "ds' = ds\<lparr>mappings := [], rankStride := 0\<rparr> \<and> (\<exists>ev. emits ev s s' \<and> map fst ev = reset_calls ds)"
proof -
  define ranks where "ranks = [0..<length (mappings ds)]"
  define s1 where "s1 = fold (unmap_rank E ds) ranks s"
  define s3 where "s3 = fold (release_rank E ds) (release_order ds) s1"
  have s': "s' = fold (free_rank E ds) ranks s3"
    using assms
    by (auto simp: Reset_def Let_def ranks_def s1_def s3_def release_order_def fold_guarded)
  have ds': "ds' = ds\<lparr>mappings := [], rankStride := 0\<rparr>"
    using assms by (simp add: Reset_def Let_def)
  obtain e1 where e1: "emits e1 s s1" "map fst e1 = concat (map unmap_due (mappings ds))"
    using unmap_loop.loop_due [of s E ds ranks] by (auto simp: s1_def ranks_def concat_map_nth)
  obtain e2 where e2: "emits e2 s1 s3"
    "map fst e2 = concat (map (\<lambda>r. release_due (mappings ds ! r)) (release_order ds))"
    using release_loop.loop_due [of s1 E ds "release_order ds"] by (auto simp: s3_def)
  obtain e3 where e3: "emits e3 s3 s'" "map fst e3 = concat (map free_due (mappings ds))"
    using free_loop.loop_due [of s3 E ds ranks] by (auto simp: s' ranks_def concat_map_nth)
  have "emits (e1 @ e2 @ e3) s s'"
    using e1 e2 e3 by (blast intro: emits_trans)
  moreover have "map fst (e1 @ e2 @ e3) = reset_calls ds"
    using e1 e2 e3 by (simp add: reset_calls_def)
  ultimately show ?thesis
    using ds' by blast
qed

lemma releases_concat_map:
  "releases f (concat (map g xs)) = sum_list (map (\<lambda>x. releases f (g x)) xs)"
  by (induction xs) auto

lemma releases_due [simp]:
  "releases va_released (unmap_due m) = {#}" "releases va_released (release_due m) = {#}"
  "releases va_released (free_due m) = va_of m"
  "releases handle_released (unmap_due m) = {#}" "releases handle_released (release_due m) = handle_of m"
  "releases handle_released (free_due m) = {#}"
  "releases map_released (unmap_due m) = map_of_entry m" "releases map_released (release_due m) = {#}"
  "releases map_released (free_due m) = {#}"
  by (auto simp: due_defs releases_def ledger_defs entry_defs)

text \<open>The release order visits every rank exactly once.\<close>

lemma mset_release_order: "mset (release_order ds) = mset [0..<length (mappings ds)]"
proof -
  let ?n = "length (mappings ds)" and ?o = "unat (owner ds)"
  have "is_owner ds = (\<lambda>r. r = ?o)"
    by (auto simp: is_owner_def)
  then have "filter (is_owner ds) [0..<?n] = (if ?o < ?n then [?o] else [])"
    by (simp add: filter_eq_upt)
  then have "mset (release_order ds) =
      mset (filter (\<lambda>r. \<not> is_owner ds r) [0..<?n]) + mset (filter (is_owner ds) [0..<?n])"
    by (simp add: release_order_def)
  then show ?thesis
    by (metis add.commute multiset_partition mset_filter)
qed

lemma sum_release_order:
  "sum_list (map (\<lambda>r. f (mappings ds ! r)) (release_order ds)) = held f ds"
proof -
  have "sum_list (map (\<lambda>r. f (mappings ds ! r)) (release_order ds)) =
      sum_list (map (\<lambda>r. f (mappings ds ! r)) [0..<length (mappings ds)])"
    by (simp add: mset_release_order flip: sum_mset_sum_list)
  then show ?thesis
    by (simp add: held_def sum_list_nth_upt [of f])
qed

lemma releases_reset_calls:
  "releases va_released (reset_calls ds) = held va_of ds"
  "releases handle_released (reset_calls ds) = held handle_of ds"
  "releases map_released (reset_calls ds) = held map_of_entry ds"
  by (simp_all add: reset_calls_def releases_concat_map sum_release_order held_def)

lemma reset_calls_release: "list_all is_release (reset_calls ds)"
  by (auto simp: reset_calls_def due_defs is_release_def list_all_iff split: if_splits)

lemma Reset_accounts:
  assumes "Reset E ds s = (ds', s')"
  shows "\<exists>ev. emits ev s s' \<and> map fst ev = reset_calls ds \<and> releasing ev \<and> accounts ev ds ds' \<and>
    ds' = ds\<lparr>mappings := [], rankStride := 0\<rparr>"
proof -
  obtain ev where ev: "emits ev s s'" "map fst ev = reset_calls ds"
    and ds': "ds' = ds\<lparr>mappings := [], rankStride := 0\<rparr>"
    using Reset_calls [OF assms] by blast
  have "held f ds' = {#}" for f
    by (simp add: ds' held_def)
  then have "accounts ev ds ds'"
    using ev(2) reset_calls_release [of ds]
    by (simp add: accounts_def release_acquires_nothing tally_released_calls releases_reset_calls)
  moreover have "releasing ev"
    using ev(2) by (simp add: releasing_calls reset_calls_release)
  ultimately show ?thesis
    using ev ds' by blast
qed

subsection \<open>Reservation and local set-up\<close>

lemma ReserveRankAddress_spec:
  assumes "ReserveRankAddress E r ds s = (st, ds', s')" and "r < length (mappings ds)"
    and "addr (mappings ds ! r) = nullptr" and "\<not> mapped (mappings ds ! r)"
  shows "\<exists>ret a. emits [(halMemAddressReserve 0 (rankStride ds) 0 0 0, ret, a)] s s'
    \<and> ds' = set_entry r (\<lambda>m. m\<lparr>addr := a\<rparr>) ds
    \<and> accounts [(halMemAddressReserve 0 (rankStride ds) 0 0 0, ret, a)] ds ds'
    \<and> (Success st \<longleftrightarrow> ret = 0 \<and> a \<noteq> nullptr) \<and> (ret \<noteq> 0 \<longrightarrow> st_code st = ret)"
proof -
  obtain st1 a s1 where m: "MemAddressReserve E (addr (mappings ds ! r)) (rankStride ds) s = (st1, a, s1)"
    by (cases "MemAddressReserve E (addr (mappings ds ! r)) (rankStride ds) s") auto
  have e: "emits [(halMemAddressReserve 0 (rankStride ds) 0 0 0, st_code st1, a)] s s1"
    using MemAddressReserve_spec [OF m] assms(3) by simp
  have "s' = s1" and ds': "ds' = set_entry r (\<lambda>m. m\<lparr>addr := a\<rparr>) ds"
    and "st = (if Failure st1 then st1 else if a = nullptr
          then Status_Error ''HAL did not return a valid ptr'' else Status_OK)"
    using assms(1,2) m by (auto simp: ReserveRankAddress_def Let_def split: if_splits)
  moreover have "accounts [(halMemAddressReserve 0 (rankStride ds) 0 0 0, st_code st1, a)] ds ds'"
    unfolding ds' by (rule accounts_reserve) (use assms in auto)
  ultimately show ?thesis
    using e by (auto simp: Success_iff Failure_iff)
qed

text \<open>What a set-up step leaves alone in the object.\<close>

definition same_config :: "DataStrategy \<Rightarrow> DataStrategy \<Rightarrow> bool" where
  "same_config ds ds' \<longleftrightarrow> owner ds' = owner ds \<and> deviceId ds' = deviceId ds
     \<and> slotSize ds' = slotSize ds \<and> nSlotsPerRank ds' = nSlotsPerRank ds"

lemma same_config_refl [simp]: "same_config ds ds"
  by (simp add: same_config_def)

lemma same_config_trans: "same_config a b \<Longrightarrow> same_config b c \<Longrightarrow> same_config a c"
  by (simp add: same_config_def)

lemma same_config_set_entry [simp]: "same_config ds (set_entry r f ds') \<longleftrightarrow> same_config ds ds'"
  by (simp add: same_config_def)

lemma same_config_update [simp]:
  "same_config ds (ds'\<lparr>rankStride := x\<rparr>) \<longleftrightarrow> same_config ds ds'"
  "same_config ds (ds'\<lparr>mappings := ms\<rparr>) \<longleftrightarrow> same_config ds ds'"
  by (simp_all add: same_config_def)

text \<open>
  The common shape of a step: it makes the calls \<open>ev\<close>, none of them a release, keeps the
  account, and leaves the configuration, the vector's length and the entries other than \<open>r\<close> alone.
\<close>

definition entry_step :: "nat \<Rightarrow> event list \<Rightarrow> DataStrategy \<Rightarrow> DataStrategy \<Rightarrow> bool" where
  "entry_step r ev ds ds' \<longleftrightarrow> acquiring ev \<and> accounts ev ds ds' \<and> same_config ds ds' \<and>
     rankStride ds' = rankStride ds \<and> length (mappings ds') = length (mappings ds) \<and>
     (\<forall>i. i \<noteq> r \<longrightarrow> mappings ds' ! i = mappings ds ! i)"

lemma entry_step_trans:
  "entry_step r ev ds ds' \<Longrightarrow> entry_step r ev' ds' ds'' \<Longrightarrow> entry_step r (ev @ ev') ds ds''"
  unfolding entry_step_def by (auto intro: accounts_trans same_config_trans)

lemma entry_step_refl [simp]: "entry_step r [] ds ds"
  by (simp add: entry_step_def)

lemma entry_step_update:
  "accounts ev ds (set_entry r f ds) \<Longrightarrow> acquiring ev \<Longrightarrow> entry_step r ev ds (set_entry r f ds)"
  by (simp add: entry_step_def)

lemma entry_step_same: "accounts ev ds ds \<Longrightarrow> acquiring ev \<Longrightarrow> entry_step r ev ds ds"
  by (simp add: entry_step_def)

lemma ReserveRankAddress_step:
  assumes "ReserveRankAddress E r ds s = (st, ds', s')" and "r < length (mappings ds)"
    and "addr (mappings ds ! r) = nullptr" and "\<not> mapped (mappings ds ! r)"
  shows "\<exists>ev. emits ev s s' \<and> map fst ev = [halMemAddressReserve 0 (rankStride ds) 0 0 0]
    \<and> entry_step r ev ds ds' \<and> \<not> mapped (mappings ds' ! r)
    \<and> handle (mappings ds' ! r) = handle (mappings ds ! r)
    \<and> (Success st \<longrightarrow> addr (mappings ds' ! r) \<noteq> nullptr)"
proof -
  obtain ret a where e: "emits [(halMemAddressReserve 0 (rankStride ds) 0 0 0, ret, a)] s s'"
    and ds': "ds' = set_entry r (\<lambda>m. m\<lparr>addr := a\<rparr>) ds"
    and ac: "accounts [(halMemAddressReserve 0 (rankStride ds) 0 0 0, ret, a)] ds ds'"
    and ok: "Success st \<longleftrightarrow> ret = 0 \<and> a \<noteq> nullptr"
    using ReserveRankAddress_spec [OF assms] by blast
  have "entry_step r [(halMemAddressReserve 0 (rankStride ds) 0 0 0, ret, a)] ds ds'"
    using ac unfolding ds' by (rule entry_step_update) (simp add: is_release_def)
  then show ?thesis
    using e ok assms(2,4) by (intro exI conjI) (assumption, simp_all add: ds')
qed

lemma MemCreate_step:
  assumes "MemCreate E (handle (mappings ds ! r)) n pt s = (st, h, s')"
    and "r < length (mappings ds)" and "handle (mappings ds ! r) = nullptr"
  shows "\<exists>ev. emits ev s s' \<and> map fst ev = [halMemCreate 0 n (HostMemoryProp pt) 0]
    \<and> entry_step r ev ds (set_entry r (\<lambda>m. m\<lparr>handle := h\<rparr>) ds)"
proof -
  obtain out where e: "emits [(halMemCreate 0 n (HostMemoryProp pt) 0, st_code st, out)] s s'"
    and h: "h = (if st_code st = 0 then out else nullptr)"
    using MemCreate_spec [OF assms(1)] assms(3) by auto
  have "accounts [(halMemCreate 0 n (HostMemoryProp pt) 0, st_code st, out)] ds
      (set_entry r (\<lambda>m. m\<lparr>handle := h\<rparr>) ds)"
    by (rule accounts_handle [OF assms(2,3) h]) simp
  then show ?thesis
    using e by (intro exI conjI entry_step_update) (assumption, simp_all add: is_release_def)
qed

lemma Import_step:
  assumes "MemImportFromShareableHandle E x d (handle (mappings ds ! r)) s = (st, h, s')"
    and "r < length (mappings ds)" and "handle (mappings ds ! r) = nullptr"
  shows "\<exists>ev. emits ev s s' \<and> map fst ev = [halMemImportFromShareableHandle x 0 d]
    \<and> entry_step r ev ds (set_entry r (\<lambda>m. m\<lparr>handle := h\<rparr>) ds)"
proof -
  obtain out where e: "emits [(halMemImportFromShareableHandle x 0 d, st_code st, out)] s s'"
    and h: "h = (if st_code st = 0 then out else nullptr)"
    using MemImportFromShareableHandle_spec [OF assms(1)] assms(3) by auto
  have "accounts [(halMemImportFromShareableHandle x 0 d, st_code st, out)] ds
      (set_entry r (\<lambda>m. m\<lparr>handle := h\<rparr>) ds)"
    by (rule accounts_handle [OF assms(2,3) h]) simp
  then show ?thesis
    using e by (intro exI conjI entry_step_update) (assumption, simp_all add: is_release_def)
qed

lemma MemMap_step:
  assumes "MemMap E (addr (mappings ds ! r)) n h s = (st, s')"
    and "r < length (mappings ds)" and "\<not> mapped (mappings ds ! r)"
  shows "\<exists>ev. emits ev s s' \<and> map fst ev = [halMemMap (addr (mappings ds ! r)) n 0 h 0]
    \<and> entry_step r ev ds (if Success st then set_entry r (\<lambda>m. m\<lparr>mapped := True\<rparr>) ds else ds)"
proof -
  obtain out where e: "emits [(halMemMap (addr (mappings ds ! r)) n 0 h 0, st_code st, out)] s s'"
    using MemMap_spec [OF assms(1)] by blast
  have "entry_step r [(halMemMap (addr (mappings ds ! r)) n 0 h 0, st_code st, out)] ds
      (if Success st then set_entry r (\<lambda>m. m\<lparr>mapped := True\<rparr>) ds else ds)"
  proof (cases "Success st")
    case True
    then have "accounts [(halMemMap (addr (mappings ds ! r)) n 0 h 0, st_code st, out)] ds
        (set_entry r (\<lambda>m. m\<lparr>mapped := True\<rparr>) ds)"
      using accounts_map [OF assms(2,3) refl] by (simp add: Success_iff)
    with True show ?thesis
      by (simp add: entry_step_update is_release_def)
  next
    case False
    then show ?thesis
      by (simp add: Success_iff entry_step_same accounts_map_failed is_release_def)
  qed
  then show ?thesis
    using e by (intro exI conjI) (assumption, simp_all)
qed

text \<open>The calls of a completely successful local set-up.\<close>

definition local_calls :: "PageType \<Rightarrow> u64 \<Rightarrow> MappingEntry \<Rightarrow> native list" where
  "local_calls pt stride m =
     [halMemAddressReserve 0 stride 0 0 0, halMemCreate 0 stride (HostMemoryProp pt) 0,
      halMemMap (addr m) stride 0 (handle m) 0]"

lemma MapLocal_spec:
  assumes "MapLocal E pt ds s = (st, ds', s')" and own: "unat (owner ds) < length (mappings ds)"
    and fresh: "fresh_entry (mappings ds ! unat (owner ds))"
  shows "\<exists>ev. emits ev s s' \<and> entry_step (unat (owner ds)) ev ds ds' \<and>
    (Success st \<longrightarrow> ready_entry (mappings ds' ! unat (owner ds)) \<and>
       map fst ev = local_calls pt (rankStride ds) (mappings ds' ! unat (owner ds)))"
proof -
  let ?r = "unat (owner ds)" and ?n = "rankStride ds"
  obtain st1 ds1 s1 where 1: "ReserveRankAddress E ?r ds s = (st1, ds1, s1)"
    by (cases "ReserveRankAddress E ?r ds s") auto
  obtain e1 where e1: "emits e1 s s1" "map fst e1 = [halMemAddressReserve 0 ?n 0 0 0]"
    "entry_step ?r e1 ds ds1" "\<not> mapped (mappings ds1 ! ?r)" "handle (mappings ds1 ! ?r) = nullptr"
    "Success st1 \<Longrightarrow> addr (mappings ds1 ! ?r) \<noteq> nullptr"
    using ReserveRankAddress_step [OF 1 own] fresh by (auto simp: fresh_entry_def)
  have l1: "?r < length (mappings ds1)" "rankStride ds1 = ?n" "owner ds1 = owner ds"
    using e1(3) own by (simp_all add: entry_step_def same_config_def)
  obtain st2 h s2 where 2: "MemCreate E (handle (mappings ds1 ! ?r)) ?n pt s1 = (st2, h, s2)"
    by (cases "MemCreate E (handle (mappings ds1 ! ?r)) ?n pt s1") auto
  define ds2 where "ds2 = set_entry ?r (\<lambda>m. m\<lparr>handle := h\<rparr>) ds1"
  obtain e2 where e2: "emits e2 s1 s2" "map fst e2 = [halMemCreate 0 ?n (HostMemoryProp pt) 0]"
    "entry_step ?r e2 ds1 ds2"
    using MemCreate_step [OF 2 l1(1) e1(5)] by (auto simp: ds2_def)
  have l2: "?r < length (mappings ds2)" "\<not> mapped (mappings ds2 ! ?r)"
    "addr (mappings ds2 ! ?r) = addr (mappings ds1 ! ?r)" "handle (mappings ds2 ! ?r) = h"
    using l1(1) e1(4) by (simp_all add: ds2_def)
  obtain st3 s3 where 3: "MemMap E (addr (mappings ds2 ! ?r)) ?n (handle (mappings ds2 ! ?r)) s2 = (st3, s3)"
    by fastforce
  define ds3 where "ds3 = (if Success st3 then set_entry ?r (\<lambda>m. m\<lparr>mapped := True\<rparr>) ds2 else ds2)"
  obtain e3 where e3: "emits e3 s2 s3"
    "map fst e3 = [halMemMap (addr (mappings ds2 ! ?r)) ?n 0 (handle (mappings ds2 ! ?r)) 0]"
    "entry_step ?r e3 ds2 ds3"
    using MemMap_step [OF 3 l2(1,2), folded ds3_def] by (elim exE conjE) (rule that)
  have res: "(st, ds', s') = (if \<not> Success st1 then (st1, ds1, s1)
      else if \<not> Success st2 then (st2, ds2, s2) else if \<not> Success st3 then (st3, ds3, s3)
      else (Status_OK, ds3, s3))"
    using assms(1) 1 2 3 l1 by (auto simp: MapLocal_def Let_def ds2_def ds3_def)
  show ?thesis
  proof (cases "Success st1 \<and> Success st2")
    case True
    with res have last: "ds' = ds3" "s' = s3" "Success st \<Longrightarrow> Success st3"
      by (auto split: if_splits)
    have "emits (e1 @ e2 @ e3) s s'"
      unfolding last by (rule emits_trans [OF e1(1) emits_trans [OF e2(1) e3(1)]])
    moreover have "entry_step ?r (e1 @ e2 @ e3) ds ds'"
      unfolding last by (rule entry_step_trans [OF e1(3) entry_step_trans [OF e2(3) e3(3)]])
    moreover have "ready_entry (mappings ds' ! ?r) \<and>
        map fst (e1 @ e2 @ e3) = local_calls pt ?n (mappings ds' ! ?r)" if "Success st"
      using last(3) [OF that] True e1(2,6) e2(2) e3(2) l2
      by (simp add: last(1) ds3_def ready_entry_def local_calls_def)
    ultimately show ?thesis
      by blast
  next
    case False
    then consider "\<not> Success st1" | "Success st1" "\<not> Success st2" by blast
    then show ?thesis
    proof cases
      case 1
      with res e1 show ?thesis by auto
    next
      case 2
      with res have "st = st2 \<and> ds' = ds2 \<and> s' = s2"
        by simp
      then have "emits (e1 @ e2) s s' \<and> entry_step ?r (e1 @ e2) ds ds' \<and> \<not> Success st"
        using 2 e1 e2 by (blast intro: emits_trans entry_step_trans)
      then show ?thesis by blast
    qed
  qed
qed

text \<open>
  \<open>LocalSetup\<close> on an object without mappings, as \<open>Setup\<close> calls it.
\<close>

definition peers_fresh :: "DataStrategy \<Rightarrow> bool" where
  "peers_fresh ds \<longleftrightarrow>
     (\<forall>i < length (mappings ds). i \<noteq> unat (owner ds) \<longrightarrow> fresh_entry (mappings ds ! i))"

definition local_ready :: "DataStrategy \<Rightarrow> bool" where
  "local_ready ds \<longleftrightarrow> unat (owner ds) < length (mappings ds)
     \<and> ready_entry (mappings ds ! unat (owner ds)) \<and> peers_fresh ds"

text \<open>The calls of a successful local set-up, the granularity query first.\<close>

definition local_setup_calls :: "PageType \<Rightarrow> DataStrategy \<Rightarrow> native list" where
  "local_setup_calls pt ds = halMemGetAllocationGranularity 0 (HostMemoryProp pt)
     # local_calls pt (rankStride ds) (mappings ds ! unat (owner ds))"

text \<open>The stride is the size rounded up to the alignment the driver's granularity gives.\<close>

definition stride_of :: "'w env \<Rightarrow> u64 \<Rightarrow> DataStrategy \<Rightarrow> bool" where
  "stride_of E bytes ds \<longleftrightarrow> (\<exists>pt w g w' al. g \<noteq> 0 \<and>
     native_fn E (halMemGetAllocationGranularity 0 (HostMemoryProp pt)) w = (0, g, w') \<and>
     std_lcm kAddressAlignment g = Some al \<and> rankStride ds = round_up bytes al)"

lemma stride_of_query:
  assumes "MemGetAllocationGranularity E pt 0 s = (st, g, s')" and "Success st" and "g \<noteq> 0"
    and "std_lcm kAddressAlignment g = Some al" and "rankStride ds = round_up bytes al"
  shows "stride_of E bytes ds"
proof -
  obtain w' where "native_fn E (halMemGetAllocationGranularity 0 (HostMemoryProp pt)) (drv s) = (0, g, w')"
    using assms(1,2) by (auto simp: MemGetAllocationGranularity_def call_def split: prod.splits)
  then show ?thesis
    using assms(3-5) unfolding stride_of_def by (intro exI conjI)
qed

lemma LocalSetup_spec:
  assumes "LocalSetup E n k pt ds s = Some (r, ds', s')" and "mappings ds = []"
  shows "\<exists>ev. emits ev s s' \<and> accounts ev ds ds' \<and> acquiring ev \<and> same_config ds ds' \<and>
    (\<forall>st. r = Inr st \<longrightarrow> Success st \<longrightarrow> local_ready ds' \<and> length (mappings ds') = unat k \<and>
       map fst ev = local_setup_calls pt ds' \<and> stride_of E n ds')"
proof -
  obtain st0 g s0 where 0: "MemGetAllocationGranularity E pt 0 s = (st0, g, s0)"
    by (cases "MemGetAllocationGranularity E pt 0 s") auto
  define e0 :: "event list" where
    "e0 = [(halMemGetAllocationGranularity 0 (HostMemoryProp pt), st_code st0, g)]"
  have e0: "emits e0 s s0" "accounts e0 ds ds" "acquiring e0"
    using MemGetAllocationGranularity_spec [OF 0]
    by (auto simp: e0_def accounts_query is_release_def)
  show ?thesis
  proof (cases "Success st0 \<and> g \<noteq> 0")
    case False
    then have "ds' = ds \<and> s' = s0 \<and> (\<forall>st. r = Inr st \<longrightarrow> \<not> Success st)"
      using assms(1) 0 by (auto simp: LocalSetup_def split: if_splits)
    with e0 show ?thesis by auto
  next
    case True
    with assms(1) 0 obtain al where al: "std_lcm kAddressAlignment g = Some al"
      by (auto simp: LocalSetup_def split: option.splits)
    define ds1 where "ds1 = ds\<lparr>rankStride := round_up n al\<rparr>"
    show ?thesis
    proof (cases "vector_resize E MappingEntry_size (unat k) MappingEntry_default (mappings ds)")
      case (Inl x)
      then have "r = Inl x \<and> ds' = ds1 \<and> s' = s0"
        using assms(1) 0 True al by (simp add: LocalSetup_def ds1_def)
      moreover have "accounts e0 ds ds1"
        using e0(2) by (rule accounts_mappings) (simp_all add: ds1_def)
      ultimately show ?thesis
        using e0 by (auto simp: ds1_def)
    next
      case (Inr ms)
      then have ms: "ms = replicate (unat k) MappingEntry_default"
        using assms(2) by (simp add: vector_resize_Inr)
      define ds2 where "ds2 = ds1\<lparr>mappings := ms\<rparr>"
      have own: "unat (owner ds) < length ms"
        using assms(1) 0 True al Inr by (auto simp: LocalSetup_def split: if_splits)
      obtain st3 ds3 s3 where 3: "MapLocal E pt ds2 s0 = (st3, ds3, s3)"
        by (cases "MapLocal E pt ds2 s0") auto
      have res: "r = Inr st3 \<and> ds' = ds3 \<and> s' = s3"
        using assms(1) 0 True al Inr own 3 by (simp add: LocalSetup_def ds1_def ds2_def)
      have own2: "owner ds2 = owner ds" "unat (owner ds2) < length (mappings ds2)"
        "fresh_entry (mappings ds2 ! unat (owner ds2))"
        using own by (simp_all add: ds2_def ds1_def ms)
      obtain ev where ev: "emits ev s0 s3" "entry_step (unat (owner ds)) ev ds2 ds3"
        "Success st3 \<Longrightarrow> ready_entry (mappings ds3 ! unat (owner ds)) \<and>
           map fst ev = local_calls pt (rankStride ds2) (mappings ds3 ! unat (owner ds))"
        using MapLocal_spec [OF 3 own2(2,3)] own2(1) by auto
      have a2: "accounts [] ds ds2"
        by (simp add: accounts_def held_def ds2_def ds1_def ms assms(2) entry_defs
            MappingEntry_default_def)
      have "emits (e0 @ ev) s s'"
        using e0(1) ev(1) res by (auto intro: emits_trans)
      moreover have "accounts (e0 @ ev) ds ds'"
        using accounts_trans [OF e0(2) accounts_trans [OF a2, of ev ds3]] ev(2) res
        by (simp add: entry_step_def)
      moreover have "acquiring (e0 @ ev)"
        using ev(2) e0(3) by (simp add: entry_step_def)
      moreover have "same_config ds ds'"
        using ev(2) res by (simp add: entry_step_def ds2_def ds1_def same_config_def)
      moreover have "Success st3 \<longrightarrow> local_ready ds' \<and> length (mappings ds') = unat k \<and>
          map fst (e0 @ ev) = local_setup_calls pt ds' \<and> rankStride ds' = round_up n al"
        using ev(2,3) res own
        by (auto simp: entry_step_def same_config_def local_ready_def peers_fresh_def
            local_setup_calls_def e0_def ds2_def ds1_def ms)
      ultimately show ?thesis
        using res True stride_of_query [OF 0 _ _ al, of ds' n] by blast
    qed
  qed
qed

subsection \<open>Waiting for a descriptor\<close>

lemma wait_desc_Inl [simp]: "wait_desc E ctrl r d (Inl e) s = Some (Inl e, s)"
  by (simp add: wait_desc.simps)

lemma wait_desc_Value [simp]: "wait_desc E ctrl r d (Inr (Value x)) s = Some (Inr (Value x), s)"
  by (simp add: wait_desc.simps)

text \<open>One unfolding of the polling loop, with the two clock readings named.\<close>

lemma wait_desc_Unexpected:
  assumes "clock_now E s = (t, s1)" and "time_after t (int poll_pause) = Some tm"
    and "clock_now E (sleep_until (min d tm) s1) = (t', s2)"
    and "GetRankDesc ctrl r s2 = (p, s3)"
  shows "wait_desc E ctrl r d (Inr (Unexpected st)) s =
    (if d \<le> t then Some (Inr (Unexpected st), s1) else if d \<le> t' then Some (Inr (Unexpected st), s2)
     else wait_desc E ctrl r d p s3)"
  using assms by (subst wait_desc.simps) simp

text \<open>A run of the loop that is defined ends at a clock reading, or goes round once more.\<close>

lemma wait_desc_cases:
  assumes "wait_desc E ctrl r d p s = Some (res, s')"
  obtains (given) "\<nexists>st. p = Inr (Unexpected st)" "res = p" "s' = s"
  | (late) st t where "p = Inr (Unexpected st)" "clock_now E s = (t, s')" "d \<le> t" "res = p"
  | (slept) st t s1 tm t' where "p = Inr (Unexpected st)" "clock_now E s = (t, s1)" "\<not> d \<le> t"
      "time_after t (int poll_pause) = Some tm" "clock_now E (sleep_until (min d tm) s1) = (t', s')"
      "d \<le> t'" "res = p"
  | (again) st t s1 tm t' s2 q s3 where "p = Inr (Unexpected st)" "clock_now E s = (t, s1)" "\<not> d \<le> t"
      "time_after t (int poll_pause) = Some tm" "clock_now E (sleep_until (min d tm) s1) = (t', s2)"
      "\<not> d \<le> t'" "GetRankDesc ctrl r s2 = (q, s3)" "wait_desc E ctrl r d q s3 = Some (res, s')"
proof (cases "\<exists>st. p = Inr (Unexpected st)")
  case False
  with assms show ?thesis
    by (cases p; cases "projr p") (auto intro: given)
next
  case True
  then obtain st where p: "p = Inr (Unexpected st)" by blast
  obtain t s1 where t: "clock_now E s = (t, s1)" by fastforce
  show ?thesis
  proof (cases "d \<le> t")
    case True
    then show ?thesis
      using assms p t by (intro late) (auto simp: wait_desc.simps)
  next
    case False
    then obtain tm where tm: "time_after t (int poll_pause) = Some tm"
      using assms p t by (subst (asm) wait_desc.simps) (auto split: option.splits)
    obtain t' s2 where t': "clock_now E (sleep_until (min d tm) s1) = (t', s2)" by fastforce
    obtain q s3 where q: "GetRankDesc ctrl r s2 = (q, s3)" by fastforce
    show ?thesis
      using assms False slept [OF p t False tm _ _ _] again [OF p t False tm t' _ q] t'
      unfolding p wait_desc_Unexpected [OF t tm t' q] by (auto split: if_splits)
  qed
qed

lemma wait_desc_logs:
  "wait_desc E ctrl r d p s = Some (res, s') \<Longrightarrow> logs [] s s'"
proof (induction E ctrl r d p s rule: wait_desc.induct)
  case (1 E ctrl r d p s)
  from "1.prems" show ?case
  proof (cases rule: wait_desc_cases)
    case (again st t s1 tm t' s2 q s3)
    have "logs [] s3 s'"
      using again by (intro "1.IH" [OF again(1) refl again(2) [symmetric] refl _ again(4)
            again(5) [symmetric] refl _ again(7) [symmetric] refl again(8)]) auto
    then show ?thesis
      using clock_now_logs [OF again(2)] clock_now_logs [OF again(5)] GetRankDesc_logs [OF again(7)]
      by (simp add: logs_def sleep_until_def)
  qed (auto simp: logs_def sleep_until_def dest!: clock_now_logs)
qed

text \<open>
  A rank the control layout does not know is waited for until the deadline, and then reported
  as it was first: the loop neither returns early nor runs on.
\<close>

lemma wait_desc_out_of_range:
  assumes "rankCount ctrl \<le> r"
  shows "wait_desc E ctrl r d p s = Some (res, s') \<Longrightarrow>
    p = Inr (Unexpected (Status_InvalidParam ''rank out of range'')) \<Longrightarrow>
    res = p \<and> d \<le> clk s' \<and> stdin_lines s' = stdin_lines s \<and> stdout_lines s' = stdout_lines s"
  using assms
proof (induction E ctrl r d p s rule: wait_desc.induct)
  case (1 E ctrl r d p s)
  from "1.prems"(1) show ?case
  proof (cases rule: wait_desc_cases)
    case (again st t s1 tm t' s2 q s3)
    have "q = Inr (Unexpected (Status_InvalidParam ''rank out of range''))" and "s3 = s2"
      using GetRankDesc_out_of_range [OF "1.prems"(3), of s2] again(7) by simp_all
    moreover have "q = p"
      using calculation(1) "1.prems"(2) by simp
    moreover have "res = q \<and> d \<le> clk s' \<and> stdin_lines s' = stdin_lines s3 \<and>
        stdout_lines s' = stdout_lines s3"
      using again "1.prems"(2,3) calculation(1)
      by (intro "1.IH" [OF again(1) refl again(2) [symmetric] refl _ again(4)
            again(5) [symmetric] refl _ again(7) [symmetric] refl again(8)]) auto
    ultimately show ?thesis
      using clock_now_clk [OF again(2)] clock_now_clk [OF again(5)] by simp
  qed (use "1.prems"(2) in \<open>auto dest!: clock_now_clk\<close>)
qed

text \<open>
  The loop is defined when the clock is more than a pause away from the end of its range at
  the deadline: it adds the pause only to readings before the deadline.
\<close>

lemma wait_desc_defined:
  "int d + int poll_pause < 2 ^ 63 \<Longrightarrow> wait_desc E ctrl r d p s \<noteq> None"
proof (induction E ctrl r d p s rule: wait_desc.induct)
  case (1 E ctrl r d p s)
  show ?case
  proof (cases "\<exists>st. p = Inr (Unexpected st)")
    case False
    then show ?thesis
      by (cases p; cases "projr p") auto
  next
    case True
    then obtain st where p: "p = Inr (Unexpected st)" by blast
    obtain t s1 where t: "clock_now E s = (t, s1)" by fastforce
    show ?thesis
    proof (cases "d \<le> t")
      case True
      then show ?thesis
        by (simp add: wait_desc.simps p t)
    next
      case False
      then have tm: "time_after t (int poll_pause) = Some (t + poll_pause)"
        using "1.prems" by (simp add: time_after_def int64_fits_def nat_int_add)
      obtain t' s2 where t': "clock_now E (sleep_until (min d (t + poll_pause)) s1) = (t', s2)"
        by fastforce
      obtain q s3 where q: "GetRankDesc ctrl r s2 = (q, s3)" by fastforce
      have "wait_desc E ctrl r d q s3 \<noteq> None" if "\<not> d \<le> t'"
        using False that "1.prems"
        by (intro "1.IH" [OF p refl t [symmetric] refl _ tm t' [symmetric] refl _ q [symmetric] refl]) auto
      then show ?thesis
        by (simp add: p wait_desc_Unexpected [OF t tm t' q])
    qed
  qed
qed

subsection \<open>The deadline\<close>

lemma setup_deadline_frame:
  assumes "setup_deadline E tmo s = Some (d, s')"
  shows "logs [] s s'" and "stdin_lines s' = stdin_lines s" and "stdout_lines s' = stdout_lines s"
proof -
  obtain t s0 where t: "clock_now E s = (t, s0)" by fastforce
  then have "s' = s0"
    using assms by (auto simp: setup_deadline_def split: option.splits)
  then show "logs [] s s'" and "stdin_lines s' = stdin_lines s" and "stdout_lines s' = stdout_lines s"
    using clock_now_logs [OF t] clock_now_clk [OF t] by simp_all
qed

lemma sint_u64_small:
  assumes "unat (w :: u64) < 2 ^ 63"
  shows "sint w = int (unat w)"
proof -
  have "int (unat w) < 2 ^ 63"
    using assms by (metis of_nat_less_iff of_nat_numeral of_nat_power)
  then have "uint w < 2 ^ 63"
    by simp
  moreover have "- (2 ^ 63) \<le> uint w"
    by (rule order_trans [of _ 0]) simp_all
  ultimately show ?thesis
    by (simp add: sint_uint signed_take_bit_int_eq_self)
qed

lemma setup_deadline_value:
  assumes "clk s + clock_step E (ticks s) + unat tmo * 1000000 < 2 ^ 63"
  shows "setup_deadline E tmo s =
    Some (clk s + clock_step E (ticks s) + unat tmo * 1000000, snd (clock_now E s))"
proof -
  let ?t = "clk s + clock_step E (ticks s)"
  have "unat tmo < 2 ^ 63"
    using assms by simp
  then have ns: "sint tmo * 1000000 = int (unat tmo * 1000000)"
    by (simp add: sint_u64_small)
  have "int (?t + unat tmo * 1000000) < 2 ^ 63"
    using assms by (metis of_nat_less_iff of_nat_numeral of_nat_power)
  then have "chrono_milliseconds tmo = Some (int (unat tmo * 1000000))"
    "time_after ?t (int (unat tmo * 1000000)) = Some (?t + unat tmo * 1000000)"
    unfolding chrono_milliseconds_def time_after_def int64_fits_def ns
    by (simp_all add: nat_int_add del: of_nat_mult)
  then show ?thesis
    by (simp add: setup_deadline_def clock_now_def Let_def)
qed

text \<open>A timeout of more than about 292 years of milliseconds has no deadline.\<close>

lemma setup_deadline_overflow:
  assumes "2 ^ 63 \<le> sint timeoutMs * 1000000"
  shows "setup_deadline E timeoutMs s = None"
  using assms by (simp add: setup_deadline_def chrono_milliseconds_def int64_fits_def split: prod.split)

end
