(* ===== verification/Data_Strategy_Peers.thy ===== *)
theory Data_Strategy_Peers
  imports Data_Strategy_Facts
begin

text \<open>
  The exchange with the peers and the whole of \<open>Setup\<close>: which handles are imported, which
  calls are made, that the account is kept on every path, and when the code is free of
  undefined behaviour. The properties of the component stand at the end of
  \<open>Data_Strategy_Props\<close>.
\<close>

subsection \<open>Reading the peers' descriptors\<close>

text \<open>
  The handles a run over the terminal lines yields for the given ranks, one after the other;
  \<open>None\<close> when the terminal closes first.
\<close>

fun read_descs :: "nat list \<Rightarrow> string list \<Rightarrow> (u64 list \<times> string list) option" where
  "read_descs [] ls = Some ([], ls)"
| "read_descs (r # rs) ls =
     (case desc_loop (of_nat r) ls of (Inl _, _) \<Rightarrow> None
      | (Inr h, ls1) \<Rightarrow> map_option (\<lambda>(hs, ls2). (h # hs, ls2)) (read_descs rs ls1))"

text \<open>The calls that bring in one peer's allocation.\<close>

definition peer_calls :: "u32 \<Rightarrow> u64 \<Rightarrow> u64 \<Rightarrow> MappingEntry \<Rightarrow> native list" where
  "peer_calls dev stride h m =
     [halMemImportFromShareableHandle h 0 dev, halMemAddressReserve 0 stride 0 0 0,
      halMemMap (addr m) stride 0 (handle m) 0]"

lemma GetRankDesc_peer:
  assumes "GetRankDesc ctrl r s = (peer0, s0)" and "wait_desc E ctrl r d peer0 s0 = Some (peer, s1)"
  shows "logs [] s s1 \<and>
    (\<forall>x. peer = Inr (Value x) \<longrightarrow> desc_loop r (stdin_lines s) = (Inr (desc_handle x), stdin_lines s1)
        \<and> stdout_lines s1 = stdout_lines s)"
proof -
  have "logs [] s s1"
    using GetRankDesc_logs [OF assms(1)] wait_desc_logs [OF assms(2)] by (simp add: logs_def)
  moreover have "desc_loop r (stdin_lines s) = (Inr (desc_handle x), stdin_lines s1)
      \<and> stdout_lines s1 = stdout_lines s" if x: "peer = Inr (Value x)" for x
  proof (cases "r < rankCount ctrl")
    case True
    note out = GetRankDesc_frame [OF assms(1)]
    consider (closed) e where "peer0 = Inl e"
      | (got) h where "peer0 = Inr (Value \<lparr>desc_handle = h\<rparr>)"
        "desc_loop r (stdin_lines s) = (Inr h, stdin_lines s0)"
      using GetRankDesc_in_range [OF True assms(1)] by blast
    then show ?thesis
    proof cases
      case closed
      then show ?thesis
        using assms(2) x by simp
    next
      case got
      then have "peer = Inr (Value \<lparr>desc_handle = h\<rparr>)" "s1 = s0"
        using assms(2) by simp_all
      then show ?thesis
        using x got(2) out by simp
    qed
  next
    case False
    then have "rankCount ctrl \<le> r"
      by simp
    then have "(peer0, s0) = (Inr (Unexpected (Status_InvalidParam ''rank out of range'')), s)"
      using assms(1) by (simp only: GetRankDesc_out_of_range)
    then have "peer = Inr (Unexpected (Status_InvalidParam ''rank out of range''))"
      using wait_desc_out_of_range [OF \<open>rankCount ctrl \<le> r\<close> assms(2)] by simp
    then show ?thesis
      using x by simp
  qed
  ultimately show ?thesis
    by blast
qed

lemma setup_peer_spec:
  assumes "setup_peer E ctrl tmo dl k ds s = Some (r, ds', s')" and len: "k < length (mappings ds)"
    and fresh: "fresh_entry (mappings ds ! k)"
  shows "\<exists>ev. logs ev s s' \<and> entry_step k ev ds ds' \<and>
    (\<forall>st. r = Inr st \<longrightarrow> Success st \<longrightarrow> ready_entry (mappings ds' ! k) \<and> stdout_lines s' = stdout_lines s \<and>
      (\<exists>h. desc_loop (of_nat k) (stdin_lines s) = (Inr h, stdin_lines s') \<and>
        map fst ev = peer_calls (word_of_int (deviceId ds)) (rankStride ds) h (mappings ds' ! k)))"
proof -
  let ?n = "rankStride ds" and ?dev = "word_of_int (deviceId ds) :: u32"
  obtain peer0 s0 where 0: "GetRankDesc ctrl (of_nat k) s = (peer0, s0)" by fastforce
  obtain peer s1 where 1: "wait_desc E ctrl (of_nat k) dl peer0 s0 = Some (peer, s1)"
    using assms(1) 0 by (auto simp: setup_peer_def split: option.splits)
  have l1: "logs [] s s1"
    and v1: "\<And>x. peer = Inr (Value x) \<Longrightarrow>
      desc_loop (of_nat k) (stdin_lines s) = (Inr (desc_handle x), stdin_lines s1) \<and>
      stdout_lines s1 = stdout_lines s"
    using GetRankDesc_peer [OF 0 1] by auto
  show ?thesis
  proof (cases "\<exists>x. peer = Inr (Value x)")
    case False
    then have "ds' = ds \<and> s' = s1 \<and> (\<forall>st. r = Inr st \<longrightarrow> \<not> Success st)"
      using assms(1) 0 1
      by (cases peer; cases "projr peer")
        (auto simp: setup_peer_def timeout_status_def Underlying_def Success_iff)
    with l1 show ?thesis
      by (intro exI [of _ "[]"]) auto
  next
    case True
    then obtain x where x: "peer = Inr (Value x)" by blast
    obtain st2 h s2 where 2: "MemImportFromShareableHandle E (desc_handle x) ?dev
        (handle (mappings ds ! k)) s1 = (st2, h, s2)"
      by (cases "MemImportFromShareableHandle E (desc_handle x) ?dev (handle (mappings ds ! k)) s1") auto
    define ds2 where "ds2 = set_entry k (\<lambda>m. m\<lparr>handle := h\<rparr>) ds"
    have h0: "handle (mappings ds ! k) = nullptr"
      using fresh by (simp add: fresh_entry_def)
    obtain e2 where e2: "emits e2 s1 s2"
      "map fst e2 = [halMemImportFromShareableHandle (desc_handle x) 0 ?dev]" "entry_step k e2 ds ds2"
      using Import_step [OF 2 len h0, folded ds2_def] by (elim exE conjE) (rule that)
    have k2: "k < length (mappings ds2)" "addr (mappings ds2 ! k) = nullptr"
      "\<not> mapped (mappings ds2 ! k)" "handle (mappings ds2 ! k) = h" "rankStride ds2 = ?n"
      using len fresh by (simp_all add: ds2_def fresh_entry_def)
    obtain st3 ds3 s3 where 3: "ReserveRankAddress E k ds2 s2 = (st3, ds3, s3)"
      by (cases "ReserveRankAddress E k ds2 s2") auto
    obtain e3 where e3: "emits e3 s2 s3" "map fst e3 = [halMemAddressReserve 0 ?n 0 0 0]"
      "entry_step k e3 ds2 ds3" "\<not> mapped (mappings ds3 ! k)" "handle (mappings ds3 ! k) = h"
      "Success st3 \<longrightarrow> addr (mappings ds3 ! k) \<noteq> nullptr"
      using ReserveRankAddress_step [OF 3 k2(1-3)] unfolding k2(4,5)
      by (elim exE conjE) (rule that)
    have k3: "k < length (mappings ds3)" "rankStride ds3 = ?n"
      using e3(3) k2 by (simp_all add: entry_step_def)
    obtain st4 s4 where 4: "MemMap E (addr (mappings ds3 ! k)) ?n h s3 = (st4, s4)" by fastforce
    define ds4 where "ds4 = (if Success st4 then set_entry k (\<lambda>m. m\<lparr>mapped := True\<rparr>) ds3 else ds3)"
    obtain e4 where e4: "emits e4 s3 s4" "map fst e4 = [halMemMap (addr (mappings ds3 ! k)) ?n 0 h 0]"
      "entry_step k e4 ds3 ds4"
      using MemMap_step [OF 4 k3(1) e3(4), folded ds4_def] by (elim exE conjE) (rule that)
    have res: "(r, ds', s') =
        (if \<not> Success st2 then (Inr (peer_failure ''import'' k st2), ds2, s2)
         else if \<not> Success st3 then (Inr st3, ds3, s3)
         else if \<not> Success st4 then (Inr (peer_failure ''map'' k st4), ds4, s4)
         else (Inr Status_OK, ds4, s4))"
      using assms(1) 0 1 2 3 4 k3 e3(5) x
      by (auto simp: setup_peer_def Let_def ds2_def ds4_def)
    have bad: "\<not> Success (peer_failure w k st)" if "\<not> Success st" for w st
      using that by (simp add: peer_failure_def Underlying_def Success_iff)
    have l2: "logs e2 s s2"
      using l1 emits_logs [OF e2(1)] by (simp add: logs_def)
    have l3: "logs (e2 @ e3) s s3"
      using l2 emits_logs [OF e3(1)] by (rule logs_trans)
    have l4: "logs (e2 @ e3 @ e4) s s4"
      using logs_trans [OF l3 emits_logs [OF e4(1)]] by simp
    have t3: "entry_step k (e2 @ e3) ds ds3"
      using e2(3) e3(3) by (rule entry_step_trans)
    have t4: "entry_step k (e2 @ e3 @ e4) ds ds4"
      using entry_step_trans [OF t3 e4(3)] by simp
    consider (imp) "\<not> Success st2" | (res) "Success st2" "\<not> Success st3"
      | (map) "Success st2" "Success st3" by blast
    then show ?thesis
    proof cases
      case imp
      with res l2 e2(3) bad show ?thesis by auto
    next
      case res
      with \<open>(r, ds', s') = _\<close> have "r = Inr st3 \<and> ds' = ds3 \<and> s' = s3" by simp
      with l3 t3 res(2) show ?thesis by auto
    next
      case map
      with res have last: "ds' = ds4" "s' = s4" "\<And>st. r = Inr st \<Longrightarrow> Success st \<Longrightarrow> Success st4"
        using bad by (auto split: if_splits)
      have "ready_entry (mappings ds' ! k) \<and> map fst (e2 @ e3 @ e4) =
          peer_calls ?dev ?n (desc_handle x) (mappings ds' ! k)" if "Success st4"
        using that map e2(2) e3(2,5,6) e4(2) k3 by (simp add: last(1) ds4_def ready_entry_def peer_calls_def)
      moreover have "stdin_lines s4 = stdin_lines s1" "stdout_lines s4 = stdout_lines s1"
        using e2(1) e3(1) e4(1) by (simp_all add: emits_def)
      ultimately show ?thesis
        using l4 t4 v1 [OF x] last by metis
    qed
  qed
qed

subsection \<open>All peers\<close>

definition peers_calls :: "u32 \<Rightarrow> DataStrategy \<Rightarrow> nat list \<Rightarrow> u64 list \<Rightarrow> native list" where
  "peers_calls dev ds ks hs =
     concat (map2 (\<lambda>k h. peer_calls dev (rankStride ds) h (mappings ds ! k)) ks hs)"

lemma peers_calls_simps [simp]:
  "peers_calls dev ds [] hs = []"
  "peers_calls dev ds (k # ks) (h # hs) =
     peer_calls dev (rankStride ds) h (mappings ds ! k) @ peers_calls dev ds ks hs"
  by (simp_all add: peers_calls_def)

text \<open>What a stretch of the peer loop over the ranks \<open>ks\<close> does to the object.\<close>

definition peers_step :: "nat list \<Rightarrow> event list \<Rightarrow> DataStrategy \<Rightarrow> DataStrategy \<Rightarrow> bool" where
  "peers_step ks ev ds ds' \<longleftrightarrow> acquiring ev \<and> accounts ev ds ds' \<and> same_config ds ds' \<and>
     rankStride ds' = rankStride ds \<and> length (mappings ds') = length (mappings ds) \<and>
     (\<forall>i. i \<notin> set ks \<or> is_owner ds i \<longrightarrow> mappings ds' ! i = mappings ds ! i)"

lemma peers_step_Nil [simp]: "peers_step ks [] ds ds"
  by (simp add: peers_step_def)

lemma peers_step_entry:
  "entry_step k ev ds ds' \<Longrightarrow> \<not> is_owner ds k \<Longrightarrow> peers_step (k # ks) ev ds ds'"
  by (auto simp: entry_step_def peers_step_def)

lemma peers_step_Cons:
  assumes "peers_step (k # ks) ev ds ds'" and "peers_step ks ev' ds' ds''"
  shows "peers_step (k # ks) (ev @ ev') ds ds''"
proof -
  have "is_owner ds' = is_owner ds"
    using assms(1) by (auto simp: peers_step_def same_config_def is_owner_def)
  then show ?thesis
    using assms by (auto simp: peers_step_def intro: accounts_trans same_config_trans)
qed

lemma peers_step_mono: "peers_step ks ev ds ds' \<Longrightarrow> peers_step (k # ks) ev ds ds'"
  by (auto simp: peers_step_def)

lemma setup_peers_spec:
  assumes "setup_peers E ctrl tmo dl ks ds s = Some (r, ds', s')" and "distinct ks"
    and "\<forall>k \<in> set ks. k < length (mappings ds)"
    and "\<forall>k \<in> set ks. \<not> is_owner ds k \<longrightarrow> fresh_entry (mappings ds ! k)"
  shows "\<exists>ev. logs ev s s' \<and> peers_step ks ev ds ds' \<and>
    (\<forall>st. r = Inr st \<longrightarrow> Success st \<longrightarrow> stdout_lines s' = stdout_lines s \<and>
      (\<forall>k \<in> set ks. \<not> is_owner ds k \<longrightarrow> ready_entry (mappings ds' ! k)) \<and>
      (\<exists>hs. read_descs (filter (\<lambda>k. \<not> is_owner ds k) ks) (stdin_lines s) = Some (hs, stdin_lines s') \<and>
        map fst ev = peers_calls (word_of_int (deviceId ds)) ds' (filter (\<lambda>k. \<not> is_owner ds k) ks) hs))"
  using assms
proof (induction ks arbitrary: ds s)
  case Nil
  then show ?case
    by (intro exI [of _ "[]"]) auto
next
  case (Cons k ks)
  show ?case
  proof (cases "is_owner ds k")
    case True
    with Cons.prems have "setup_peers E ctrl tmo dl ks ds s = Some (r, ds', s')"
      by simp
    from Cons.IH [OF this] Cons.prems True show ?thesis
      by (auto intro: peers_step_mono)
  next
    case other: False
    obtain r1 ds1 s1 where 1: "setup_peer E ctrl tmo dl k ds s = Some (r1, ds1, s1)"
      using Cons.prems(1) other by (auto split: option.splits)
    have len: "k < length (mappings ds)" and fresh: "fresh_entry (mappings ds ! k)"
      using Cons.prems other by auto
    obtain e1 where e1: "logs e1 s s1" "entry_step k e1 ds ds1"
      and ok1: "\<forall>st. r1 = Inr st \<longrightarrow> Success st \<longrightarrow> ready_entry (mappings ds1 ! k) \<and>
        stdout_lines s1 = stdout_lines s \<and>
        (\<exists>h. desc_loop (of_nat k) (stdin_lines s) = (Inr h, stdin_lines s1) \<and>
        map fst e1 = peer_calls (word_of_int (deviceId ds)) (rankStride ds) h (mappings ds1 ! k))"
      using setup_peer_spec [OF 1 len fresh] by (elim exE conjE) (rule that)
    have p1: "peers_step (k # ks) e1 ds ds1"
      using e1(2) other by (rule peers_step_entry)
    have own: "is_owner ds1 = is_owner ds"
      using e1(2) by (auto simp: entry_step_def same_config_def is_owner_def)
    show ?thesis
    proof (cases "\<exists>st. r1 = Inr st \<and> Success st")
      case False
      then have "r = r1 \<and> ds' = ds1 \<and> s' = s1"
        using Cons.prems(1) 1 other by (cases r1) auto
      with False e1(1) p1 show ?thesis
        by (intro exI [of _ e1]) auto
    next
      case True
      then obtain st where st: "r1 = Inr st" "Success st" by blast
      with ok1 obtain h where h: "desc_loop (of_nat k) (stdin_lines s) = (Inr h, stdin_lines s1)"
        "map fst e1 = peer_calls (word_of_int (deviceId ds)) (rankStride ds) h (mappings ds1 ! k)"
        "ready_entry (mappings ds1 ! k)" "stdout_lines s1 = stdout_lines s" by blast
      have step: "setup_peers E ctrl tmo dl ks ds1 s1 = Some (r, ds', s')"
        using Cons.prems(1) 1 other st by simp
      have frame: "\<forall>j \<in> set ks. j < length (mappings ds1) \<and> mappings ds1 ! j = mappings ds ! j"
        using e1(2) Cons.prems(2,3) by (auto simp: entry_step_def)
      obtain e2 where e2: "logs e2 s1 s'" "peers_step ks e2 ds1 ds'"
        and ok2: "\<forall>st. r = Inr st \<longrightarrow> Success st \<longrightarrow> stdout_lines s' = stdout_lines s1 \<and>
          (\<forall>k \<in> set ks. \<not> is_owner ds k \<longrightarrow> ready_entry (mappings ds' ! k)) \<and>
          (\<exists>hs. read_descs (filter (\<lambda>k. \<not> is_owner ds k) ks) (stdin_lines s1) = Some (hs, stdin_lines s') \<and>
          map fst e2 = peers_calls (word_of_int (deviceId ds1)) ds' (filter (\<lambda>k. \<not> is_owner ds k) ks) hs)"
        using Cons.IH [OF step] Cons.prems(2-4) frame unfolding own by auto
      have same: "mappings ds' ! k = mappings ds1 ! k" "rankStride ds' = rankStride ds"
        "deviceId ds1 = deviceId ds"
        using e2(2) e1(2) Cons.prems(2) by (auto simp: peers_step_def entry_step_def same_config_def)
      have "logs (e1 @ e2) s s'"
        using e1(1) e2(1) by (rule logs_trans)
      moreover have "peers_step (k # ks) (e1 @ e2) ds ds'"
        using p1 e2(2) by (rule peers_step_Cons)
      ultimately show ?thesis
        using ok2 h same other by (intro exI [of _ "e1 @ e2"]) fastforce
    qed
  qed
qed

subsection \<open>The exchange\<close>

definition peer_ranks :: "DataStrategy \<Rightarrow> nat list" where
  "peer_ranks ds = filter (\<lambda>k. \<not> is_owner ds k) [0..<length (mappings ds)]"

text \<open>Every rank's entry is mapped, the owner's and the imported ones.\<close>

definition all_ready :: "DataStrategy \<Rightarrow> bool" where
  "all_ready ds \<longleftrightarrow> unat (owner ds) < length (mappings ds) \<and>
     (\<forall>k < length (mappings ds). ready_entry (mappings ds ! k))"

text \<open>
  The calls of a successful exchange: export the own handle, open it to every process of the
  server, then bring in the peers in rank order.
\<close>

definition exchange_calls :: "u64 \<Rightarrow> u64 list \<Rightarrow> DataStrategy \<Rightarrow> native list" where
  "exchange_calls x hs ds =
     [halMemExportToShareableHandle (handle (mappings ds ! unat (owner ds))) 0 0,
      halMemShareHandleSetAttribute x]
       @ peers_calls (word_of_int (deviceId ds)) ds (peer_ranks ds) hs"

lemma CrossRankSetup_spec:
  assumes "CrossRankSetup E ctrl tmo ds s = Some (r, ds', s')" and ready: "local_ready ds"
  shows "\<exists>ev. logs ev s s' \<and> peers_step [0..<length (mappings ds)] ev ds ds' \<and>
    (\<forall>st. r = Inr st \<longrightarrow> Success st \<longrightarrow> all_ready ds' \<and> owner ds < rankCount ctrl \<and>
      (\<exists>x hs. stdout_lines s' = stdout_lines s @ [desc_line (owner ds) x] \<and>
        snd (hd ev) = (0, x) \<and>
        read_descs (peer_ranks ds) (stdin_lines s) = Some (hs, stdin_lines s') \<and>
        map fst ev = exchange_calls x hs ds'))"
proof -
  let ?own = "unat (owner ds)" and ?h = "handle (mappings ds ! unat (owner ds))"
  let ?ks = "[0..<length (mappings ds)]"
  obtain dl s0 where 0: "setup_deadline E tmo s = Some (dl, s0)"
    using assms(1) by (auto simp: CrossRankSetup_def split: option.splits)
  obtain st1 x s1 where 1: "MemExportToShareableHandle E ?h 0 s0 = (st1, x, s1)"
    by (cases "MemExportToShareableHandle E ?h 0 s0") auto
  obtain st2 s2 where 2: "MemShareHandleDisableWhitelist E x s1 = (st2, s2)" by fastforce
  obtain st3 s3 where 3: "SetRankDesc ctrl (owner ds) (RankDataDesc_default\<lparr>desc_handle := x\<rparr>) s2 = (st3, s3)"
    by fastforce
  define e1 where "e1 = [(halMemExportToShareableHandle ?h 0 0, st_code st1, x)]"
  have e1: "emits e1 s0 s1" "accounts e1 ds ds" "acquiring e1"
    using MemExportToShareableHandle_spec [OF 1]
    by (auto simp: e1_def accounts_query is_release_def)
  obtain e2 where e2: "emits e2 s1 s2" "map fst e2 = [halMemShareHandleSetAttribute x]" "accounts e2 ds ds"
    using MemShareHandleDisableWhitelist_spec [OF 2] accounts_query(3) by fastforce
  have q2: "acquiring e2"
    using e2(2) by (simp add: acquiring_calls is_release_def)
  have fresh: "\<forall>k \<in> set ?ks. \<not> is_owner ds k \<longrightarrow> fresh_entry (mappings ds ! k)"
    using ready by (simp add: local_ready_def peers_fresh_def is_owner_def)
  have l1: "logs e1 s s1"
    using logs_trans [OF setup_deadline_frame(1) [OF 0] emits_logs [OF e1(1)]] by simp
  have l2: "logs (e1 @ e2) s s2"
    using l1 emits_logs [OF e2(1)] by (rule logs_trans)
  have l3: "logs (e1 @ e2) s s3"
    using logs_trans [OF l2 SetRankDesc_logs [OF 3]] by simp
  have p1: "peers_step ?ks e1 ds ds" and p2: "peers_step ?ks (e1 @ e2) ds ds"
    using e1(2,3) q2 accounts_trans [OF e1(2) e2(3)] by (simp_all add: peers_step_def)
  show ?thesis
  proof (cases "Success st1 \<and> Success st2 \<and> Success st3")
    case False
    then consider "\<not> Success st1" | "Success st1" "\<not> Success st2"
      | "Success st1" "Success st2" "\<not> Success st3" by blast
    then have "\<exists>ev. logs ev s s' \<and> peers_step ?ks ev ds ds' \<and> (\<forall>st. r = Inr st \<longrightarrow> \<not> Success st)"
    proof cases
      case 1
      with assms(1) 0 \<open>MemExportToShareableHandle E ?h 0 s0 = _\<close> l1 p1 show ?thesis
        by (auto simp: CrossRankSetup_def)
    next
      case 2
      with assms(1) 0 1 \<open>MemShareHandleDisableWhitelist E x s1 = _\<close> l2 p2 show ?thesis
        by (auto simp: CrossRankSetup_def)
    next
      case 3
      with assms(1) 0 1 2 \<open>SetRankDesc ctrl (owner ds) _ s2 = _\<close> l3 p2 show ?thesis
        by (auto simp: CrossRankSetup_def Underlying_def Success_iff)
    qed
    then show ?thesis by blast
  next
    case True
    then have 4: "setup_peers E ctrl tmo dl ?ks ds s3 = Some (r, ds', s')"
      using assms(1) 0 1 2 3 by (simp add: CrossRankSetup_def)
    obtain e4 where e4: "logs e4 s3 s'" "peers_step ?ks e4 ds ds'"
      and ok4: "\<forall>st. r = Inr st \<longrightarrow> Success st \<longrightarrow> stdout_lines s' = stdout_lines s3 \<and>
        (\<forall>k \<in> set ?ks. \<not> is_owner ds k \<longrightarrow> ready_entry (mappings ds' ! k)) \<and>
        (\<exists>hs. read_descs (peer_ranks ds) (stdin_lines s3) = Some (hs, stdin_lines s') \<and>
          map fst e4 = peers_calls (word_of_int (deviceId ds)) ds' (peer_ranks ds) hs)"
      using setup_peers_spec [OF 4 distinct_upt _ fresh] unfolding peer_ranks_def by auto
    have l4: "logs ((e1 @ e2) @ e4) s s'"
      using l3 e4(1) by (rule logs_trans)
    have p4: "peers_step ?ks ((e1 @ e2) @ e4) ds ds'"
      using e4(2) e1(3) q2 accounts_trans [OF accounts_trans [OF e1(2) e2(3)], of e4 ds']
      by (simp add: peers_step_def)
    have out: "stdout_lines s3 = stdout_lines s @ [desc_line (owner ds) x]"
      and inp: "stdin_lines s3 = stdin_lines s" and range: "owner ds < rankCount ctrl"
      using SetRankDesc_frame [OF 3] SetRankDesc_result [OF 3] True e1(1) e2(1) setup_deadline_frame [OF 0]
      by (simp_all add: emits_def)
    have conf: "owner ds' = owner ds" "deviceId ds' = deviceId ds"
      "length (mappings ds') = length (mappings ds)" "mappings ds' ! ?own = mappings ds ! ?own"
      using e4(2) by (auto simp: peers_step_def same_config_def is_owner_def)
    have peers: "peer_ranks ds' = peer_ranks ds"
      using conf by (simp add: peer_ranks_def is_owner_def)
    have "all_ready ds' \<and> (\<exists>hs. read_descs (peer_ranks ds) (stdin_lines s) = Some (hs, stdin_lines s') \<and>
        map fst ((e1 @ e2) @ e4) = exchange_calls x hs ds') \<and> stdout_lines s' = stdout_lines s3"
      if "r = Inr st" "Success st" for st
    proof -
      from ok4 that obtain hs where hs: "read_descs (peer_ranks ds) (stdin_lines s3) = Some (hs, stdin_lines s')"
        "map fst e4 = peers_calls (word_of_int (deviceId ds)) ds' (peer_ranks ds) hs"
        and rd: "\<forall>k \<in> set ?ks. \<not> is_owner ds k \<longrightarrow> ready_entry (mappings ds' ! k)"
        and "stdout_lines s' = stdout_lines s3" by blast
      moreover have "map fst ((e1 @ e2) @ e4) = exchange_calls x hs ds'"
        using hs(2) e2(2) by (simp add: exchange_calls_def e1_def conf peers)
      moreover have "ready_entry (mappings ds' ! k)" if "k < length (mappings ds)" for k
        using rd that ready conf(4) by (cases "k = ?own") (auto simp: local_ready_def is_owner_def)
      ultimately show ?thesis
        using ready conf inp by (auto simp: all_ready_def local_ready_def)
    qed
    moreover have "snd (hd ((e1 @ e2) @ e4)) = (0, x)"
      using True by (simp add: e1_def Success_iff)
    ultimately show ?thesis
      using l4 p4 out range by (intro exI [of _ "(e1 @ e2) @ e4"]) auto
  qed
qed

end
