(* ===== verification/Data_Strategy_Setup.thy ===== *)
theory Data_Strategy_Setup
  imports Data_Strategy_Peers
begin

text \<open>
  \<open>Setup\<close> as a whole: the fallback from huge to normal pages, the clean-up after a failure, the
  state after a success, and the conditions under which the code has no undefined behaviour.
\<close>

subsection \<open>Huge pages, then normal pages\<close>

definition clean_object :: "DataStrategy \<Rightarrow> bool" where
  "clean_object ds \<longleftrightarrow> nSlotsPerRank ds = 0 \<and> mappings ds = []"

lemma clean_new [simp]: "clean_object DataStrategy_new"
  by (simp add: clean_object_def DataStrategy_new_def)

text \<open>
  The calls of a successful local set-up: huge pages at once, or a first attempt whose calls
  are balanced, followed by the calls of normal pages.
\<close>

definition local_history :: "event list \<Rightarrow> DataStrategy \<Rightarrow> bool" where
  "local_history ev ds \<longleftrightarrow> map fst ev = local_setup_calls Huge ds \<or>
     (\<exists>ev1 ev2. ev = ev1 @ ev2 \<and> balanced ev1 \<and> map fst ev2 = local_setup_calls Normal ds)"

lemma SetupLocal_spec:
  assumes "SetupLocal E ctrl b n ds s = Some (r, ds', s')" and empty: "mappings ds = []"
  shows "\<exists>ev. emits ev s s' \<and> accounts ev ds ds' \<and> staged ev \<and> same_config ds ds' \<and>
    (\<forall>st. r = Inr st \<longrightarrow> Success st \<longrightarrow> local_ready ds' \<and> local_history ev ds' \<and>
       length (mappings ds') = unat (SlotCount ctrl div n) \<and> stride_of E (b * n) ds')"
proof -
  let ?k = "SlotCount ctrl div n"
  have n: "n \<noteq> 0"
    using assms(1) by (auto simp: SetupLocal_def)
  obtain r1 ds1 s1 where 1: "LocalSetup E (b * n) ?k Huge ds s = Some (r1, ds1, s1)"
    using assms(1) n by (auto simp: SetupLocal_def Let_def split: option.splits prod.splits)
  obtain e1 where e1: "emits e1 s s1" "accounts e1 ds ds1" "same_config ds ds1" "acquiring e1"
    and ok1: "\<And>st. r1 = Inr st \<Longrightarrow> Success st \<Longrightarrow> local_ready ds1 \<and> length (mappings ds1) = unat ?k \<and>
       map fst e1 = local_setup_calls Huge ds1 \<and> stride_of E (b * n) ds1"
    using LocalSetup_spec [OF 1 empty] by blast
  show ?thesis
  proof (cases "\<exists>st. r1 = Inr st \<and> \<not> Success st")
    case False
    then have "r = r1 \<and> ds' = ds1 \<and> s' = s1"
      using assms(1) n 1 by (cases r1) (auto simp: SetupLocal_def)
    with e1 ok1 show ?thesis
      unfolding local_history_def by (intro exI [of _ e1]) (simp add: acquiring_staged)
  next
    case True
    obtain ds2 s2 where 2: "Reset E ds1 s1 = (ds2, s2)" by fastforce
    obtain e2 where e2: "emits e2 s1 s2" "accounts e2 ds1 ds2" "releasing e2"
      and ds2: "ds2 = ds1\<lparr>mappings := [], rankStride := 0\<rparr>"
      using Reset_accounts [OF 2] by blast
    have 3: "LocalSetup E (b * n) ?k Normal ds2 s2 = Some (r, ds', s')"
      using assms(1) n 1 2 True by (auto simp: SetupLocal_def)
    have empty2: "mappings ds2 = []" and conf2: "same_config ds ds2"
      using e1(3) by (simp_all add: ds2)
    obtain e3 where e3: "emits e3 s2 s'" "accounts e3 ds2 ds'" "same_config ds2 ds'" "acquiring e3"
      and ok3: "\<And>st. r = Inr st \<Longrightarrow> Success st \<Longrightarrow> local_ready ds' \<and> length (mappings ds') = unat ?k \<and>
       map fst e3 = local_setup_calls Normal ds' \<and> stride_of E (b * n) ds'"
      using LocalSetup_spec [OF 3 empty2] by blast
    have first: "accounts (e1 @ e2) ds ds2" "emits (e1 @ e2) s s2"
      using e1 e2 by (auto intro: accounts_trans emits_trans)
    have bal: "balanced (e1 @ e2)"
      using first(1) empty empty2 by (rule accounts_balanced)
    then have "staged ((e1 @ e2) @ e3)"
      by (intro staged_acquiring [OF staged_balanced e3(4)] staged_release [OF acquiring_staged])
        (use e1(4) e2(3) in simp_all)
    moreover note bal
    moreover have "emits ((e1 @ e2) @ e3) s s'" "accounts ((e1 @ e2) @ e3) ds ds'"
      using emits_trans [OF first(2) e3(1)] accounts_trans [OF first(1) e3(2)] by simp_all
    moreover have "same_config ds ds'"
      using conf2 e3(3) by (rule same_config_trans)
    moreover have "local_history ((e1 @ e2) @ e3) ds'"
      if "balanced (e1 @ e2)" "map fst e3 = local_setup_calls Normal ds'"
      using that unfolding local_history_def by blast
    ultimately show ?thesis
      using ok3 by (intro exI [of _ "(e1 @ e2) @ e3"]) simp
  qed
qed

subsection \<open>Setup\<close>

text \<open>
  After a success: every rank is mapped, the vector has one entry per rank, and the calls are
  those of the local set-up followed by those of the exchange, whose handles came from the
  terminal.
\<close>

definition setup_done ::
  "'w env \<Rightarrow> CtrlLayout \<Rightarrow> u64 \<Rightarrow> u64 \<Rightarrow> string list \<Rightarrow> event list \<Rightarrow> DataStrategy \<Rightarrow> 'w sys \<Rightarrow> 'w sys \<Rightarrow> bool" where
  "setup_done E ctrl b n input ev ds s s' \<longleftrightarrow> all_ready ds \<and> owner ds < rankCount ctrl \<and>
     length (mappings ds) = unat (SlotCount ctrl div n) \<and> stride_of E (b * n) ds \<and>
     (\<exists>ret out ev1 ev2 x hs. ev = (aclrtSetDevice (deviceId ds), ret, out) # ev1 @ ev2 \<and>
       local_history ev1 ds \<and> map fst ev2 = exchange_calls x hs ds \<and> snd (hd ev2) = (0, x) \<and>
       read_descs (peer_ranks ds) input = Some (hs, stdin_lines s') \<and>
       stdout_lines s' = stdout_lines s @ [desc_line (owner ds) x])"

lemma local_calls_frame:
  assumes "peers_step [0..<length (mappings ds)] ev ds ds'"
  shows "local_setup_calls pt ds' = local_setup_calls pt ds"
  using assms by (auto simp: peers_step_def local_setup_calls_def same_config_def is_owner_def)

lemma SetupBody_spec:
  assumes "SetupBody E ctrl b n tmo ds s = Some (r, ds', s')" and empty: "mappings ds = []"
  shows "\<exists>ev. logs ev s s' \<and> accounts ev ds ds' \<and> staged ev \<and> same_config ds ds' \<and>
    (\<forall>st. r = Inr st \<longrightarrow> Success st \<longrightarrow> setup_done E ctrl b n (stdin_lines s) ev ds' s s')"
proof -
  obtain st0 s0 where 0: "Device_Setup E (deviceId ds) s = (st0, s0)" by fastforce
  obtain e0 where e0: "emits e0 s s0" "Success st0 \<longrightarrow> 0 \<le> deviceId ds"
    and c0: "(deviceId ds < 0 \<and> e0 = [] \<and> Failure st0) \<or> (0 \<le> deviceId ds \<and> (\<exists>ret out.
      e0 = [(aclrtSetDevice (deviceId ds), ret, out)] \<and> (Success st0 \<longleftrightarrow> ret = 0)))"
    using Device_Setup_spec [OF 0] by blast
  have a0: "accounts e0 ds ds" and q0: "acquiring e0"
    using c0 by (auto simp: accounts_query is_release_def)
  have b0: "balanced e0"
    using c0 by (auto simp: balanced_def ledger_defs)
  show ?thesis
  proof (cases "Success st0")
    case False
    then have "r = Inr st0 \<and> ds' = ds \<and> s' = s0"
      using assms(1) 0 by (simp add: SetupBody_def)
    with False a0 q0 emits_logs [OF e0(1)] show ?thesis by (auto intro: acquiring_staged)
  next
    case dev: True
    obtain r1 ds1 s1 where 1: "SetupLocal E ctrl b n ds s0 = Some (r1, ds1, s1)"
      using assms(1) 0 dev by (auto simp: SetupBody_def split: option.splits)
    obtain e1 where e1: "emits e1 s0 s1" "accounts e1 ds ds1" "same_config ds ds1" "staged e1"
      and ok1: "\<And>st. r1 = Inr st \<Longrightarrow> Success st \<Longrightarrow> local_ready ds1 \<and> local_history e1 ds1 \<and>
       length (mappings ds1) = unat (SlotCount ctrl div n) \<and> stride_of E (b * n) ds1"
      using SetupLocal_spec [OF 1 empty] by blast
    have l1: "emits (e0 @ e1) s s1" "accounts (e0 @ e1) ds ds1"
      using e0 e1 a0 by (auto intro: emits_trans accounts_trans)
    have q1: "staged (e0 @ e1)"
      by (rule staged_prefix [OF staged_sound [OF acquiring_staged [OF q0]] b0 e1(4)])
    show ?thesis
    proof (cases "\<exists>st. r1 = Inr st \<and> Success st")
      case False
      then have "r = r1 \<and> ds' = ds1 \<and> s' = s1"
        using assms(1) 0 dev 1 by (cases r1) (auto simp: SetupBody_def)
      with False l1 q1 e1 emits_logs [OF l1(1)] show ?thesis by auto
    next
      case True
      then have 2: "CrossRankSetup E ctrl tmo ds1 s1 = Some (r, ds', s')"
        using assms(1) 0 dev 1 by (auto simp: SetupBody_def)
      from True ok1 have ready: "local_ready ds1" "local_history e1 ds1"
        "length (mappings ds1) = unat (SlotCount ctrl div n)" "stride_of E (b * n) ds1" by blast+
      obtain e2 where e2: "logs e2 s1 s'" "peers_step [0..<length (mappings ds1)] e2 ds1 ds'"
        and ok2: "\<And>st. r = Inr st \<Longrightarrow> Success st \<Longrightarrow> all_ready ds' \<and> owner ds1 < rankCount ctrl \<and>
          (\<exists>x hs. stdout_lines s' = stdout_lines s1 @ [desc_line (owner ds1) x] \<and> snd (hd e2) = (0, x) \<and>
            read_descs (peer_ranks ds1) (stdin_lines s1) = Some (hs, stdin_lines s') \<and>
            map fst e2 = exchange_calls x hs ds')"
        using CrossRankSetup_spec [OF 2 ready(1)] by blast
      have conf: "same_config ds ds'" "owner ds' = owner ds1" "peer_ranks ds' = peer_ranks ds1"
        "length (mappings ds') = length (mappings ds1)" "rankStride ds' = rankStride ds1"
        "deviceId ds' = deviceId ds"
        using e2(2) e1(3)
        by (auto simp: peers_step_def same_config_def peer_ranks_def is_owner_def)
      have hist: "local_history e1 ds'"
        using ready(2) local_calls_frame [OF e2(2)] by (simp add: local_history_def)
      have inp: "stdin_lines s1 = stdin_lines s" "stdout_lines s1 = stdout_lines s"
        using l1(1) by (simp_all add: emits_def)
      obtain ret out where dv: "e0 = [(aclrtSetDevice (deviceId ds'), ret, out)]"
        using c0 dev conf(6) by auto
      have "logs ((e0 @ e1) @ e2) s s'"
        using emits_logs [OF l1(1)] e2(1) by (rule logs_trans)
      moreover have "accounts ((e0 @ e1) @ e2) ds ds'"
        using accounts_trans [OF l1(2)] e2(2) by (simp add: peers_step_def)
      moreover have "setup_done E ctrl b n (stdin_lines s) ((e0 @ e1) @ e2) ds' s s'"
        if "r = Inr st" "Success st" for st
        using ok2 [OF that] ready(3,4) hist conf inp dv unfolding setup_done_def stride_of_def
        by auto
      moreover have "acquiring e2"
        using e2(2) by (simp add: peers_step_def)
      then have "staged ((e0 @ e1) @ e2)"
        by (rule staged_acquiring [OF q1])
      ultimately show ?thesis
        using conf(1) by blast
    qed
  qed
qed

lemma setup_done_update [simp]:
  "setup_done E ctrl b n input ev (ds\<lparr>slotSize := x, nSlotsPerRank := y\<rparr>) s s' =
     setup_done E ctrl b n input ev ds s s'"
proof -
  let ?d = "ds\<lparr>slotSize := x, nSlotsPerRank := y\<rparr>"
  have "is_owner ?d = is_owner ds"
    by (simp add: is_owner_def fun_eq_iff)
  then have "local_history ev ?d = local_history ev ds"
    and "exchange_calls z hs ?d = exchange_calls z hs ds" and "peer_ranks ?d = peer_ranks ds"
    and "all_ready ?d = all_ready ds" and "stride_of E m ?d = stride_of E m ds" for ev z hs m
    by (simp_all add: local_history_def local_setup_calls_def exchange_calls_def peers_calls_def
        peer_ranks_def all_ready_def stride_of_def)
  then show ?thesis
    by (simp add: setup_done_def)
qed

text \<open>What \<open>Setup\<close> guarantees on an object that holds nothing.\<close>

lemma Setup_spec:
  assumes "Setup E ctrl d k b n tmo ds s = Some (st, ds', s')" and clean: "clean_object ds"
  shows "\<exists>ev. logs ev s s' \<and> accounts ev ds ds' \<and> sound_trace ev \<and> owner ds' = k \<and>
    deviceId ds' = d \<and>
    (if Success st
     then setup_done E ctrl b n (stdin_lines s) ev ds' s s' \<and> staged ev \<and> slotSize ds' = b \<and>
       nSlotsPerRank ds' = n
     else clean_object ds' \<and> balanced ev)"
proof -
  define ds0 where "ds0 = ds\<lparr>owner := k, deviceId := d\<rparr>"
  obtain r ds1 s1 where 1: "SetupBody E ctrl b n tmo ds0 s = Some (r, ds1, s1)"
    using assms by (auto simp: Setup_def clean_object_def ds0_def split: option.splits)
  have empty: "mappings ds0 = []" and conf0: "owner ds0 = k" "deviceId ds0 = d" "nSlotsPerRank ds0 = 0"
    using clean by (simp_all add: ds0_def clean_object_def)
  obtain e1 where e1: "logs e1 s s1" "accounts e1 ds0 ds1" "same_config ds0 ds1" "staged e1"
    and ok1: "\<And>st. r = Inr st \<Longrightarrow> Success st \<Longrightarrow> setup_done E ctrl b n (stdin_lines s) e1 ds1 s s1"
    using SetupBody_spec [OF 1 empty] by blast
  have a1: "accounts e1 ds ds1"
    using e1(2) by (rule accounts_mappings) (simp_all add: ds0_def)
  show ?thesis
  proof (cases "Success (caught r)")
    case True
    then obtain st1 where r: "r = Inr st1" "Success st1"
      by (cases r) (auto simp: caught_def split: exn.splits)
    have last: "st = Status_OK \<and> s' = s1 \<and> ds' = ds1\<lparr>slotSize := b, nSlotsPerRank := n\<rparr>"
      using assms(1) clean 1 True by (simp add: Setup_def clean_object_def ds0_def)
    have "setup_done E ctrl b n (stdin_lines s) e1 ds' s s'"
      using ok1 [OF r] last by simp
    moreover have "accounts e1 ds ds'"
      using a1 by (rule accounts_mappings) (simp_all add: last)
    ultimately show ?thesis
      using e1 last conf0 by (intro exI [of _ e1]) (simp add: same_config_def staged_sound)
  next
    case False
    obtain ds2 s2 where 2: "Reset E ds1 s1 = (ds2, s2)" by fastforce
    obtain e2 where e2: "emits e2 s1 s2" "accounts e2 ds1 ds2" "releasing e2"
      and ds2: "ds2 = ds1\<lparr>mappings := [], rankStride := 0\<rparr>"
      using Reset_accounts [OF 2] by blast
    have last: "st = caught r \<and> s' = s2 \<and> ds' = ds2"
      using assms(1) clean 1 False 2 by (simp add: Setup_def clean_object_def ds0_def)
    have "logs (e1 @ e2) s s'" "accounts (e1 @ e2) ds ds'"
      using logs_trans [OF e1(1) emits_logs [OF e2(1)]] accounts_trans [OF a1 e2(2)] last by simp_all
    moreover from this(2) have "balanced (e1 @ e2)"
      using clean last by (intro accounts_balanced [of _ ds ds']) (simp_all add: clean_object_def ds2)
    moreover from this have "sound_trace (e1 @ e2)"
      using e1(4) e2(3) by (intro staged_release)
    ultimately show ?thesis
      using False last e1(3) conf0
      by (intro exI [of _ "e1 @ e2"]) (simp add: ds2 clean_object_def same_config_def)
  qed
qed

subsection \<open>The objects of a program\<close>

text \<open>
  A program's objects are constructed and then set up any number of times, with any arguments and
  any outcome. One that was set up keeps what it has, and a further \<open>Setup\<close> refuses it.
\<close>

inductive data_object :: "'w env \<Rightarrow> DataStrategy \<Rightarrow> bool" for E where
  constructed: "data_object E DataStrategy_new"
| set_up: "data_object E ds \<Longrightarrow> Setup E ctrl d k b n tmo ds s = Some (st, ds', s') \<Longrightarrow>
    data_object E ds'"

lemma Setup_again:
  "nSlotsPerRank ds \<noteq> 0 \<Longrightarrow> Setup E ctrl d k b n tmo ds s =
     Some (Status_Error ''cache2 data strategy is already initialized'', ds, s)"
  by (simp add: Setup_def)

lemma setup_done_slots: "setup_done E ctrl b n input ev ds s s' \<Longrightarrow> n \<noteq> 0"
  by (auto simp: setup_done_def all_ready_def)

lemma data_object_clean:
  "data_object E ds \<Longrightarrow> nSlotsPerRank ds = 0 \<Longrightarrow> clean_object ds"
proof (induction rule: data_object.induct)
  case (set_up ds ctrl d k b n tmo s st ds' s')
  show ?case
  proof (cases "nSlotsPerRank ds = 0")
    case True
    then have "clean_object ds"
      using set_up.IH by simp
    then show ?thesis
      using Setup_spec [OF set_up.hyps(2)] set_up.prems
      by (auto dest: setup_done_slots split: if_splits)
  next
    case False
    then show ?thesis
      using set_up.hyps(2) set_up.prems by (simp add: Setup_again)
  qed
qed simp

text \<open>An object whose \<open>Setup\<close> succeeds was not set up before.\<close>

lemma data_object_success:
  assumes "Setup E ctrl d k b n tmo ds s = Some (st, ds', s')" and "data_object E ds" and "Success st"
  shows "clean_object ds"
proof (rule data_object_clean [OF assms(2)], rule ccontr)
  assume "nSlotsPerRank ds \<noteq> 0"
  then show False
    using assms(1,3) by (auto simp: Setup_again Success_iff status_code_defs)
qed

subsection \<open>Absence of undefined behaviour\<close>

text \<open>
  The one thing \<open>Setup\<close> needs from the driver: a granularity whose least common multiple with
  the address alignment is a \<open>size_t\<close>. Any power of two will do.
\<close>

definition granularity_fits :: "'w env \<Rightarrow> bool" where
  "granularity_fits E \<longleftrightarrow>
     (\<forall>pt g w. case native_fn E (halMemGetAllocationGranularity g (HostMemoryProp pt)) w of
        (ret, out, _) \<Rightarrow> ret = 0 \<longrightarrow> out \<noteq> 0 \<longrightarrow> std_lcm kAddressAlignment out \<noteq> None)"

lemma granularity_fits_query:
  assumes "granularity_fits E" and "MemGetAllocationGranularity E pt g s = (st, out, s')"
    and "Success st" and "out \<noteq> 0"
  shows "std_lcm kAddressAlignment out \<noteq> None"
proof -
  obtain ret w where "native_fn E (halMemGetAllocationGranularity g (HostMemoryProp pt)) (drv s) =
      (ret, out, w)" and "Success st \<longleftrightarrow> ret = 0"
    using assms(2) by (auto simp: MemGetAllocationGranularity_def call_def split: prod.splits)
  moreover have "case native_fn E (halMemGetAllocationGranularity g (HostMemoryProp pt)) (drv s) of
      (ret, out, _) \<Rightarrow> ret = 0 \<longrightarrow> out \<noteq> 0 \<longrightarrow> std_lcm kAddressAlignment out \<noteq> None"
    using assms(1) by (simp add: granularity_fits_def)
  ultimately show ?thesis
    using assms(3,4) by simp
qed

lemma vector_resize_length: "vector_resize E k n x xs = Inr ys \<Longrightarrow> length ys = n"
  by (auto simp: vector_resize_def split: if_splits)

lemma LocalSetup_defined:
  assumes "granularity_fits E" and "unat (owner ds) < unat k"
  shows "LocalSetup E n k pt ds s \<noteq> None"
proof -
  obtain st0 g s0 where 0: "MemGetAllocationGranularity E pt 0 s = (st0, g, s0)"
    by (cases "MemGetAllocationGranularity E pt 0 s") auto
  show ?thesis
  proof (cases "Success st0 \<and> g \<noteq> 0")
    case True
    then obtain al where "std_lcm kAddressAlignment g = Some al"
      using granularity_fits_query [OF assms(1) 0] by blast
    moreover obtain res where "vector_resize E MappingEntry_size (unat k) MappingEntry_default
        (mappings ds) = res" by blast
    ultimately show ?thesis
      using 0 True assms(2)
      by (cases res) (simp_all add: LocalSetup_def Let_def vector_resize_length split: prod.split)
  next
    case False
    then show ?thesis
      using 0 by (simp add: LocalSetup_def)
  qed
qed

text \<open>Neither a local set-up nor a clean-up changes the owner.\<close>

lemma set_entry_owner_steps:
  "ReserveRankAddress E r ds s = (st, ds', s') \<Longrightarrow> owner ds' = owner ds"
  by (auto simp: ReserveRankAddress_def Let_def split: prod.splits if_splits)

lemma MapLocal_owner: "MapLocal E pt ds s = (st, ds', s') \<Longrightarrow> owner ds' = owner ds"
  by (auto simp: MapLocal_def Let_def dest: set_entry_owner_steps split: prod.splits if_splits)

lemma LocalSetup_owner:
  "LocalSetup E n k pt ds s = Some (r, ds', s') \<Longrightarrow> owner ds' = owner ds"
  by (auto simp: LocalSetup_def Let_def dest!: MapLocal_owner
      split: prod.splits if_splits option.splits sum.splits)

lemma SetupLocal_defined:
  assumes "granularity_fits E" and "n \<noteq> 0" and "unat (owner ds) < unat (SlotCount ctrl div n)"
  shows "SetupLocal E ctrl b n ds s \<noteq> None"
proof -
  let ?k = "SlotCount ctrl div n"
  obtain r1 ds1 s1 where 1: "LocalSetup E (b * n) ?k Huge ds s = Some (r1, ds1, s1)"
    using LocalSetup_defined [OF assms(1,3), of "b * n" Huge s] by auto
  obtain ds2 s2 where 2: "Reset E ds1 s1 = (ds2, s2)" by fastforce
  have "owner ds2 = owner ds"
    using Reset_calls [OF 2] LocalSetup_owner [OF 1] by auto
  then have "LocalSetup E (b * n) ?k Normal ds2 s2 \<noteq> None"
    using LocalSetup_defined [OF assms(1), of ds2] assms(3) by simp
  then show ?thesis
    using 1 2 assms(2) by (auto simp: SetupLocal_def Let_def split: sum.split)
qed

lemma setup_peers_defined:
  assumes "int dl + int poll_pause < 2 ^ 63"
  shows "setup_peers E ctrl tmo dl ks ds s \<noteq> None"
proof (induction ks arbitrary: ds s)
  case (Cons k ks)
  obtain peer0 s0 where 0: "GetRankDesc ctrl (of_nat k) s = (peer0, s0)" by fastforce
  obtain peer s1 where "wait_desc E ctrl (of_nat k) dl peer0 s0 = Some (peer, s1)"
    using wait_desc_defined [OF assms] by fastforce
  then have "setup_peer E ctrl tmo dl k ds s \<noteq> None"
    by (simp add: setup_peer_def 0 del: not_None_eq split: sum.split expected.split)
  with Cons.IH show ?case
    by (auto split: sum.split)
qed simp

lemma CrossRankSetup_defined:
  assumes "setup_deadline E tmo s = Some (dl, s0)" and "int dl + int poll_pause < 2 ^ 63"
  shows "CrossRankSetup E ctrl tmo ds s \<noteq> None"
  by (simp add: CrossRankSetup_def assms(1) Let_def setup_peers_defined [OF assms(2)] del: not_None_eq split: prod.split)

text \<open>
  What the clock must leave room for: its next reading, the timeout in nanoseconds and one pause
  of the polling loop are together within the range of the clock.
\<close>

definition deadline_fits :: "'w env \<Rightarrow> u64 \<Rightarrow> 'w sys \<Rightarrow> bool" where
  "deadline_fits E timeoutMs s \<longleftrightarrow>
     clk s + clock_step E (ticks s) + unat timeoutMs * 1000000 + poll_pause < 2 ^ 63"

lemma deadline_fits_cross:
  assumes "deadline_fits E tmo s"
  shows "CrossRankSetup E ctrl tmo ds s \<noteq> None"
proof (rule CrossRankSetup_defined)
  let ?d = "clk s + clock_step E (ticks s) + unat tmo * 1000000"
  show "setup_deadline E tmo s = Some (?d, snd (clock_now E s))"
    using assms by (intro setup_deadline_value) (simp add: deadline_fits_def)
  have "int (?d + poll_pause) < 2 ^ 63"
    using assms unfolding deadline_fits_def by (metis of_nat_less_iff of_nat_numeral of_nat_power)
  then show "int ?d + int poll_pause < 2 ^ 63"
    by simp
qed

lemma Setup_defined:
  assumes "granularity_fits E" and "n \<noteq> 0" and "unat k < unat (SlotCount ctrl div n)"
    and "deadline_fits E tmo s" and object: "data_object E ds"
  shows "Setup E ctrl d k b n tmo ds s \<noteq> None"
proof (cases "nSlotsPerRank ds = 0")
  case True
  define ds0 where "ds0 = ds\<lparr>owner := k, deviceId := d\<rparr>"
  have empty: "mappings ds0 = []"
    using data_object_clean [OF object True] by (simp add: ds0_def clean_object_def)
  obtain st0 s0 where 0: "Device_Setup E (deviceId ds0) s = (st0, s0)" by fastforce
  have "SetupLocal E ctrl b n ds0 s0 \<noteq> None"
    using assms by (intro SetupLocal_defined) (simp_all add: ds0_def)
  then obtain r ds1 s1 where 1: "SetupLocal E ctrl b n ds0 s0 = Some (r, ds1, s1)"
    by auto
  obtain e0 e1 where "emits e0 s s0" "emits e1 s0 s1"
    using Device_Setup_spec [OF 0] SetupLocal_spec [OF 1 empty] by blast
  then have "deadline_fits E tmo s1"
    using assms(4) by (simp add: deadline_fits_def emits_def)
  then obtain res where "CrossRankSetup E ctrl tmo ds1 s1 = Some res"
    using deadline_fits_cross by fastforce
  then have "SetupBody E ctrl b n tmo ds0 s \<noteq> None"
    using 0 1 by (cases r) (simp_all add: SetupBody_def del: not_None_eq)
  then show ?thesis
    by (auto simp: Setup_def ds0_def Let_def split: prod.split)
qed (simp add: Setup_again)

end
