(* ===== verification/Data_Strategy_Layout.thy ===== *)
theory Data_Strategy_Layout
  imports Data_Strategy_Setup
begin

text \<open>
  Where the slots lie: the arithmetic of the rank stride, and the address of a slot inside its
  rank's mapping.

  The locale \<open>block_layout\<close> is the arithmetic of equal blocks in disjoint regions; it is
  interpreted on the addresses a \<open>DataStrategy\<close> computes, for the objects whose regions the
  driver placed as it promises (\<open>views_placed\<close>).
\<close>

subsection \<open>The stride\<close>

lemma ceil_ge: "0 < a \<Longrightarrow> (b :: nat) \<le> (b + a - 1) div a * a"
proof -
  assume a: "0 < a"
  have "b + a - 1 < ((b + a - 1) div a + 1) * a"
    using a by (metis Suc_eq_plus1 div_mult_mod_eq dividend_less_div_times mult.commute mult_Suc
        add.commute)
  then show ?thesis
    using a by simp
qed

lemma ceil_less: "0 < a \<Longrightarrow> (b + a - 1) div a * a < (b :: nat) + a"
  by (metis Suc_diff_1 add_gr_0 div_times_less_eq_dividend le_imp_less_Suc)

lemma round_up_unat:
  assumes "al \<noteq> 0" and "unat bytes + unat al \<le> 2 ^ 64"
  shows "unat (round_up bytes al) = (unat bytes + unat al - 1) div unat al * unat al"
proof -
  have pos: "0 < unat al"
    using assms(1) by (simp add: unat_gt_0)
  have "unat (al - 1) = unat al - 1"
    using assms(1) by (simp add: unat_minus_one)
  then have "unat (bytes + (al - 1)) = unat bytes + unat al - 1"
    using assms(2) pos unat_add_no_wrap [of bytes "al - 1"] by simp
  then have sum: "unat (bytes + al - 1) = unat bytes + unat al - 1"
    by (simp add: add_diff_eq)
  have "(unat bytes + unat al - 1) div unat al * unat al \<le> unat bytes + unat al - 1"
    by simp
  then have "(unat bytes + unat al - 1) div unat al * unat al < 2 ^ 64"
    using assms(2) pos by linarith
  then have "unat ((bytes + al - 1) div al) * unat al < 2 ^ 64"
    by (simp add: unat_div sum)
  then show ?thesis
    unfolding round_up_def by (simp add: unat_mult_no_wrap unat_div sum)
qed

lemma std_lcm_unat: "std_lcm a b = Some l \<Longrightarrow> unat l = lcm (unat a) (unat b)"
  by (auto simp: std_lcm_def Let_def unat_of_nat_u64 split: if_splits)

lemma std_lcm_nonzero: "std_lcm a b = Some l \<Longrightarrow> a \<noteq> 0 \<Longrightarrow> b \<noteq> 0 \<Longrightarrow> l \<noteq> 0"
  by (metis lcm_eq_0_iff std_lcm_unat unat_eq_zero unsigned_0)

lemma kAddressAlignment_unat: "unat kAddressAlignment = 2 ^ 30"
  by (simp add: kAddressAlignment_def)

lemma kAddressAlignment_nonzero [simp]: "kAddressAlignment \<noteq> 0"
  by (simp add: kAddressAlignment_def)

text \<open>The driver's granularities for which the rounded-up size of a rank is a \<open>size_t\<close>.\<close>

definition stride_fits :: "'w env \<Rightarrow> u64 \<Rightarrow> bool" where
  "stride_fits E bytes \<longleftrightarrow>
     (\<forall>pt g w. case native_fn E (halMemGetAllocationGranularity g (HostMemoryProp pt)) w of
        (ret, out, _) \<Rightarrow> ret = 0 \<longrightarrow> out \<noteq> 0 \<longrightarrow>
          unat bytes + lcm (unat kAddressAlignment) (unat out) \<le> 2 ^ 64)"

lemma stride_of_bounds:
  assumes "stride_of E bytes ds" and "stride_fits E bytes"
  shows "unat bytes \<le> unat (rankStride ds) \<and> 2 ^ 30 dvd unat (rankStride ds) \<and>
    (\<exists>g :: u64. g \<noteq> 0 \<and> unat g dvd unat (rankStride ds) \<and>
      unat (rankStride ds) < unat bytes + lcm (2 ^ 30) (unat g))"
proof -
  from assms(1) obtain pt w g w' al where g: "g \<noteq> 0"
    and q: "native_fn E (halMemGetAllocationGranularity 0 (HostMemoryProp pt)) w = (0, g, w')"
    and al: "std_lcm kAddressAlignment g = Some al" and st: "rankStride ds = round_up bytes al"
    by (auto simp: stride_of_def)
  have al0: "al \<noteq> 0" and l: "unat al = lcm (2 ^ 30) (unat g)"
    using std_lcm_nonzero [OF al] std_lcm_unat [OF al] g by (simp_all add: kAddressAlignment_unat)
  have "case native_fn E (halMemGetAllocationGranularity 0 (HostMemoryProp pt)) w of
      (ret, out, _) \<Rightarrow> ret = 0 \<longrightarrow> out \<noteq> 0 \<longrightarrow>
        unat bytes + lcm (unat kAddressAlignment) (unat out) \<le> 2 ^ 64"
    using assms(2) by (simp add: stride_fits_def)
  then have "unat bytes + unat al \<le> 2 ^ 64"
    using q g by (simp add: l kAddressAlignment_unat)
  then have r: "unat (rankStride ds) = (unat bytes + unat al - 1) div unat al * unat al"
    unfolding st by (rule round_up_unat [OF al0])
  have "0 < unat al"
    using al0 by (simp add: unat_gt_0)
  then have bounds: "unat bytes \<le> unat (rankStride ds)" "unat (rankStride ds) < unat bytes + unat al"
    unfolding r using ceil_ge [of "unat al" "unat bytes"] ceil_less [of "unat al" "unat bytes"]
    by simp_all
  have "unat al dvd unat (rankStride ds)"
    by (simp add: r)
  then have "2 ^ 30 dvd unat (rankStride ds)" "unat g dvd unat (rankStride ds)"
    unfolding l by (rule dvd_trans [OF dvd_lcm1], rule dvd_trans [OF dvd_lcm2])
  then show ?thesis
    using g bounds unfolding l by blast
qed

lemma stride_fits_granularity:
  assumes "stride_fits E bytes" and "bytes \<noteq> 0"
  shows "granularity_fits E"
proof -
  have lcm: "std_lcm kAddressAlignment out \<noteq> None"
    if "unat bytes + lcm (unat kAddressAlignment) (unat out) \<le> 2 ^ 64" for out
    using that assms(2) unat_gt_0 [of bytes] by (simp add: std_lcm_def Let_def)
  show ?thesis
    unfolding granularity_fits_def
  proof (intro allI)
    fix pt g w
    have "case native_fn E (halMemGetAllocationGranularity g (HostMemoryProp pt)) w of
      (ret, out, _) \<Rightarrow> ret = 0 \<longrightarrow> out \<noteq> 0 \<longrightarrow>
        unat bytes + lcm (unat kAddressAlignment) (unat out) \<le> 2 ^ 64"
      using assms(1) by (simp add: stride_fits_def)
    then show "case native_fn E (halMemGetAllocationGranularity g (HostMemoryProp pt)) w of
      (ret, out, _) \<Rightarrow> ret = 0 \<longrightarrow> out \<noteq> 0 \<longrightarrow> std_lcm kAddressAlignment out \<noteq> None"
      using lcm by (auto split: prod.splits)
  qed
qed

subsection \<open>Blocks in disjoint regions\<close>

locale block_layout =
  fixes ok :: "'d \<Rightarrow> bool"
    and regions :: "'d \<Rightarrow> nat" and per_region :: "'d \<Rightarrow> nat"
    and base :: "'d \<Rightarrow> nat \<Rightarrow> nat" and extent :: "'d \<Rightarrow> nat" and block :: "'d \<Rightarrow> nat"
    and place :: "'d \<Rightarrow> nat \<Rightarrow> nat"
  assumes nonempty: "ok d \<Longrightarrow> 0 < per_region d"
    and fits: "ok d \<Longrightarrow> per_region d * block d \<le> extent d"
    and apart: "ok d \<Longrightarrow> i < j \<Longrightarrow> j < regions d \<Longrightarrow>
      base d i + extent d \<le> base d j \<or> base d j + extent d \<le> base d i"
    and placed: "ok d \<Longrightarrow> k < regions d * per_region d \<Longrightarrow>
      place d k = base d (k div per_region d) + k mod per_region d * block d"
begin

lemma region_of: "ok d \<Longrightarrow> k < regions d * per_region d \<Longrightarrow> k div per_region d < regions d"
  using nonempty [of d] by (simp add: less_mult_imp_div_less)

lemma block_inside:
  assumes "ok d" and "k < regions d * per_region d"
  shows "base d (k div per_region d) \<le> place d k"
    and "place d k + block d \<le> base d (k div per_region d) + extent d"
proof -
  let ?j = "k mod per_region d"
  have "?j + 1 \<le> per_region d"
    using nonempty [OF assms(1)] by (simp add: Suc_leI)
  then have "(?j + 1) * block d \<le> per_region d * block d"
    by (rule mult_le_mono1)
  then have "?j * block d + block d \<le> extent d"
    using fits [OF assms(1)] by simp
  then show "base d (k div per_region d) \<le> place d k"
    and "place d k + block d \<le> base d (k div per_region d) + extent d"
    by (simp_all add: placed [OF assms])
qed

lemma blocks_apart_aux:
  assumes "ok d" and "k < regions d * per_region d" and "l < regions d * per_region d"
    and "k < l"
  shows "place d k + block d \<le> place d l \<or> place d l + block d \<le> place d k"
proof (cases "k div per_region d = l div per_region d")
  case True
  have "k mod per_region d < l mod per_region d"
    using assms(4) True by (metis div_mult_mod_eq nat_add_left_cancel_less)
  then have "(k mod per_region d + 1) * block d \<le> l mod per_region d * block d"
    by (intro mult_le_mono1) simp
  then show ?thesis
    using True by (simp add: placed [OF assms(1,2)] placed [OF assms(1,3)])
next
  case False
  then have "k div per_region d < l div per_region d"
    using assms(4) by (simp add: div_le_mono le_neq_implies_less)
  then show ?thesis
    using apart [OF assms(1) _ region_of [OF assms(1,3)]] block_inside [OF assms(1,2)]
      block_inside [OF assms(1,3)] by fastforce
qed

lemma blocks_apart:
  assumes "ok d" and "k < regions d * per_region d" and "l < regions d * per_region d"
    and "k \<noteq> l"
  shows "place d k + block d \<le> place d l \<or> place d l + block d \<le> place d k"
  using assms blocks_apart_aux [of d k l] blocks_apart_aux [of d l k] by (meson nat_neq_iff)

end

subsection \<open>The slots of a data strategy\<close>

text \<open>
  \<open>views_placed\<close>: what the driver's reservations promise of the object's regions: no region
  runs past the address space, and two regions do not overlap. \<open>slots_placed\<close> adds what a
  successful \<open>Setup\<close> gives.
\<close>

definition region_base :: "DataStrategy \<Rightarrow> nat \<Rightarrow> nat" where
  "region_base ds rank = unat (addr (mappings ds ! rank))"

definition views_placed :: "DataStrategy \<Rightarrow> bool" where
  "views_placed ds \<longleftrightarrow>
     (\<forall>i < length (mappings ds). region_base ds i + unat (rankStride ds) \<le> 2 ^ 64 \<and>
        (\<forall>j < i. region_base ds i + unat (rankStride ds) \<le> region_base ds j \<or>
           region_base ds j + unat (rankStride ds) \<le> region_base ds i))"

definition slots_placed :: "DataStrategy \<Rightarrow> bool" where
  "slots_placed ds \<longleftrightarrow> nSlotsPerRank ds \<noteq> 0 \<and>
     length (mappings ds) * unat (nSlotsPerRank ds) < 2 ^ 64 \<and>
     unat (nSlotsPerRank ds) * unat (slotSize ds) \<le> unat (rankStride ds) \<and> views_placed ds"

definition slot_total :: "DataStrategy \<Rightarrow> nat" where
  "slot_total ds = length (mappings ds) * unat (nSlotsPerRank ds)"

lemma slot_address_unat:
  assumes "slots_placed ds" and "unat k < slot_total ds"
  shows "unat (slot_address ds k) =
    region_base ds (unat k div unat (nSlotsPerRank ds)) +
      unat k mod unat (nSlotsPerRank ds) * unat (slotSize ds)"
proof -
  let ?n = "unat (nSlotsPerRank ds)" and ?b = "unat (slotSize ds)"
  let ?r = "unat k div ?n" and ?j = "unat k mod ?n"
  have n: "0 < ?n" and fit: "?n * ?b \<le> unat (rankStride ds)"
    using assms(1) by (simp_all add: slots_placed_def unat_gt_0)
  have r: "?r < length (mappings ds)"
    using assms(2) by (simp add: slot_total_def less_mult_imp_div_less)
  have "?j * ?b \<le> ?n * ?b"
    using n by (intro mult_le_mono1 less_imp_le) simp
  then have j: "?j * ?b \<le> unat (rankStride ds)"
    using fit by linarith
  have top: "region_base ds ?r + unat (rankStride ds) \<le> 2 ^ 64"
    using assms(1) r by (simp add: slots_placed_def views_placed_def)
  have jb: "?j * ?b < 2 ^ 64"
    using j unat_u64_bound [of "rankStride ds"] by linarith
  then have off: "unat ((k mod nSlotsPerRank ds) * slotSize ds) = ?j * ?b"
    by (simp add: unat_mult_no_wrap unat_mod)
  show ?thesis
  proof (cases "region_base ds ?r + ?j * ?b < 2 ^ 64")
    case True
    then show ?thesis
      unfolding slot_address_def region_base_def
      by (simp add: unat_add_no_wrap off unat_div)
  next
    case False
    then have full: "?j * ?b = unat (rankStride ds)"
      using top j by linarith
    have "(?j + 1) * ?b \<le> ?n * ?b"
      using n by (intro mult_le_mono1) (simp add: Suc_leI)
    then have "?b = 0"
      using full fit by simp
    then have "?j * ?b = 0"
      by (simp only: mult_0_right)
    then show ?thesis
      using False unat_u64_bound [of "addr (mappings ds ! ?r)"]
      by (simp only: region_base_def add_0_right not_True_eq_False)
  qed
qed

interpretation slots: block_layout slots_placed "\<lambda>ds. length (mappings ds)"
    "\<lambda>ds. unat (nSlotsPerRank ds)" region_base "\<lambda>ds. unat (rankStride ds)"
    "\<lambda>ds. unat (slotSize ds)" "\<lambda>ds k. unat (slot_address ds (of_nat k))"
proof (unfold_locales, goal_cases)
  case (4 ds k)
  then have "unat (of_nat k :: u64) = k"
    by (intro unat_of_nat_u64) (simp add: slots_placed_def)
  then show ?case
    using slot_address_unat [OF 4(1), of "of_nat k"] 4(2) by (simp add: slot_total_def)
qed (auto simp: slots_placed_def views_placed_def unat_gt_0)

end
