(* ===== verification/Example_Runs.thy ===== *)
theory Example_Runs
  imports Data_Strategy_Layout
begin

text \<open>
  A concrete driver, and runs of the code on it, used where a property with hypotheses is shown
  to apply. The driver hands out address ranges upwards from 1 GiB, has a granularity of 2 MiB,
  and fails the calls it is told to fail.
\<close>

definition example_driver :: "(native \<Rightarrow> int) \<Rightarrow> native \<Rightarrow> u64 \<Rightarrow> int \<times> u64 \<times> u64" where
  "example_driver fails c w =
     (if fails c \<noteq> 0 then (fails c, 0, w)
      else case c of
        halMemGetAllocationGranularity g p \<Rightarrow> (0, 2097152, w)
      | halMemAddressReserve p n f h l \<Rightarrow> (0, w, w + n)
      | halMemCreate h n p f \<Rightarrow> (0, 7, w)
      | halMemImportFromShareableHandle x h d \<Rightarrow> (0, x, w)
      | halMemExportToShareableHandle h f x \<Rightarrow> (0, w div 1073741824, w)
      | _ \<Rightarrow> (0, 0, w))"

definition example_env :: "(native \<Rightarrow> int) \<Rightarrow> u64 env" where
  "example_env fails = \<lparr>native_fn = example_driver fails, clock_step = (\<lambda>n. 1),
     can_alloc = (\<lambda>n. True), ACL_ERROR_REPEAT_INITIALIZE = 100002\<rparr>"

definition example_sys :: "string list \<Rightarrow> u64 sys" where
  "example_sys ls = \<lparr>drv = 1073741824, trace = [], stdin_lines = ls, stdout_lines = [],
     clk = 0, ticks = 0\<rparr>"

abbreviation no_failure :: "native \<Rightarrow> int" where
  "no_failure \<equiv> \<lambda>_. 0"

text \<open>A driver that has no huge pages\<close>

definition no_huge :: "native \<Rightarrow> int" where
  "no_huge c = (case c of halMemCreate h n p f \<Rightarrow> if pg_type p = MEM_HUGE_PAGE_TYPE then 6 else 0
     | _ \<Rightarrow> 0)"

text \<open>A driver that maps nothing\<close>

definition no_map :: "native \<Rightarrow> int" where
  "no_map c = (case c of halMemMap p n f h g \<Rightarrow> 8 | _ \<Rightarrow> 0)"

lemma example_env_fields [simp]:
  "native_fn (example_env f) = example_driver f" "clock_step (example_env f) n = 1"
  "can_alloc (example_env f) k" "ACL_ERROR_REPEAT_INITIALIZE (example_env f) = 100002"
  by (simp_all add: example_env_def)

lemma example_sys_fields [simp]:
  "drv (example_sys ls) = 1073741824" "trace (example_sys ls) = []"
  "stdin_lines (example_sys ls) = ls" "stdout_lines (example_sys ls) = []"
  "clk (example_sys ls) = 0" "ticks (example_sys ls) = 0"
  by (simp_all add: example_sys_def)

lemma example_lcm: "std_lcm kAddressAlignment 2097152 = Some 1073741824"
  by (simp add: std_lcm_def kAddressAlignment_def lcm_proj1_if_dvd_nat)

lemma example_granularity: "granularity_fits (example_env f)"
  by (auto simp: granularity_fits_def example_driver_def example_lcm)

lemma example_stride: "unat bytes \<le> 2 ^ 63 \<Longrightarrow> stride_fits (example_env f) bytes"
  by (auto simp: stride_fits_def example_driver_def kAddressAlignment_def lcm_proj1_if_dvd_nat)

text \<open>The definitions a concrete run unfolds.\<close>

lemmas parse_eval =
  parse_desc_def desc_fields_def read_token_def skip_ws_def is_space_def read_size_t_def
  scan_unsigned_def is_digit_def digits_value_def digit_val_def signed_u64_def only_digits_def
  stoull_def kInvalid_def

lemmas wrapper_eval =
  MemGetAllocationGranularity_def MemAddressReserve_def MemAddressFree_def MemCreate_def
  MemRelease_def MemMap_def MemUnmap_def MemExportToShareableHandle_def
  MemShareHandleDisableWhitelist_def MemImportFromShareableHandle_def call_def example_driver_def
  FromHalError_def DRV_ERROR_NONE_def

lemma example_wrappers:
  "MemGetAllocationGranularity (example_env no_failure) pt g s =
     (Status_OK, 2097152, s\<lparr>trace := trace s @ [(halMemGetAllocationGranularity g (HostMemoryProp pt), 0, 2097152)]\<rparr>)"
  "MemAddressReserve (example_env no_failure) p n s =
     (Status_OK, drv s, s\<lparr>drv := drv s + n, trace := trace s @ [(halMemAddressReserve p n 0 0 0, 0, drv s)]\<rparr>)"
  "MemCreate (example_env no_failure) h n pt s =
     (Status_OK, 7, s\<lparr>trace := trace s @ [(halMemCreate 0 n (HostMemoryProp pt) 0, 0, 7)]\<rparr>)"
  "MemMap (example_env no_failure) p n h s =
     (Status_OK, s\<lparr>trace := trace s @ [(halMemMap p n 0 h 0, 0, 0)]\<rparr>)"
  "MemExportToShareableHandle (example_env no_failure) h x s =
     (Status_OK, drv s div 1073741824, s\<lparr>trace := trace s @
        [(halMemExportToShareableHandle h 0 x, 0, drv s div 1073741824)]\<rparr>)"
  "MemShareHandleDisableWhitelist (example_env no_failure) x s =
     (Status_OK, s\<lparr>trace := trace s @ [(halMemShareHandleSetAttribute x, 0, 0)]\<rparr>)"
  "MemImportFromShareableHandle (example_env no_failure) x d h s =
     (Status_OK, x, s\<lparr>trace := trace s @ [(halMemImportFromShareableHandle x 0 d, 0, x)]\<rparr>)"
  by (simp_all add: wrapper_eval)

lemma example_device:
  "Device_Setup (example_env no_failure) 0 s =
     (Status_OK, s\<lparr>trace := trace s @ [(aclrtSetDevice 0, 0, 0)]\<rparr>)"
  "Device_Setup (example_env no_failure) 1 s =
     (Status_OK, s\<lparr>trace := trace s @ [(aclrtSetDevice 1, 0, 0)]\<rparr>)"
  by (simp_all add: Device_Setup_def call_def example_driver_def ACL_SUCCESS_def)

lemma example_reserve:
  "ReserveRankAddress (example_env no_failure) k ds s =
     (if addr (mappings (set_entry k (\<lambda>m. m\<lparr>addr := drv s\<rparr>) ds) ! k) = 0
      then (Status_Error ''HAL did not return a valid ptr'', set_entry k (\<lambda>m. m\<lparr>addr := drv s\<rparr>) ds,
        s\<lparr>drv := drv s + rankStride ds, trace := trace s @
         [(halMemAddressReserve (addr (mappings ds ! k)) (rankStride ds) 0 0 0, 0, drv s)]\<rparr>)
      else (Status_OK, set_entry k (\<lambda>m. m\<lparr>addr := drv s\<rparr>) ds,
       s\<lparr>drv := drv s + rankStride ds, trace := trace s @
         [(halMemAddressReserve (addr (mappings ds ! k)) (rankStride ds) 0 0 0, 0, drv s)]\<rparr>))"
  by (simp add: ReserveRankAddress_def example_wrappers Let_def)

lemma example_resize:
  "vector_resize (example_env f) MappingEntry_size 2 x [] = Inr [x, x]"
proof -
  have "replicate 2 x = [x, x]"
    by (simp add: numeral_2_eq_2)
  then show ?thesis
    by (simp add: vector_resize_def vector_max_size_def MappingEntry_size_def)
qed

lemma example_round: "round_up 16384 1073741824 = 1073741824"
  by (simp add: round_up_def)

lemmas local_eval =
  LocalSetup_def MapLocal_def example_reserve set_entry_def example_wrappers example_resize
  example_lcm example_round MappingEntry_default_def DataStrategy_new_def Let_def

text \<open>Rank 0 of 2 with four slots of 4 KiB each, on a driver without failures\<close>

lemma example_parse:
  "parse_desc 1 ''DESC 1 5'' = Some 5" "parse_desc 1 ''hello'' = None"
  "parse_desc 0 ''DESC 0 2'' = Some 2"
  by (simp_all add: parse_eval)

abbreviation example_input :: "string list" where
  "example_input \<equiv> [''hello'', ''DESC 1 5'', []]"

definition example_ctrl :: CtrlLayout where
  "example_ctrl = CtrlLayout_new 2 4"

lemma example_ctrl_fields [simp]: "rankCount example_ctrl = 2" "SlotCount example_ctrl = 8"
  by (simp_all add: example_ctrl_def CtrlLayout_new_def SlotCount_def)

definition example_local_object :: DataStrategy where
  "example_local_object = DataStrategy_new\<lparr>owner := 0, deviceId := 0, rankStride := 1073741824,
     mappings := [\<lparr>handle = 7, addr = 1073741824, mapped = True\<rparr>, MappingEntry_default]\<rparr>"

definition example_local_events :: "event list" where
  "example_local_events =
     [(halMemGetAllocationGranularity 0 (HostMemoryProp Huge), 0, 2097152),
      (halMemAddressReserve 0 1073741824 0 0 0, 0, 1073741824),
      (halMemCreate 0 1073741824 (HostMemoryProp Huge) 0, 0, 7),
      (halMemMap 1073741824 1073741824 0 7 0, 0, 0)]"

lemma example_local:
  assumes "drv s = 1073741824"
  shows "LocalSetup (example_env no_failure) 16384 2 Huge (DataStrategy_new\<lparr>owner := 0, deviceId := 0\<rparr>) s =
    Some (Inr Status_OK, example_local_object,
      s\<lparr>drv := 2147483648, trace := trace s @ example_local_events\<rparr>)"
  using assms by (simp add: local_eval example_local_object_def example_local_events_def)

definition example_object :: DataStrategy where
  "example_object = \<lparr>slotSize = 4096, nSlotsPerRank = 4,
     mappings = [\<lparr>handle = 7, addr = 1073741824, mapped = True\<rparr>,
       \<lparr>handle = 5, addr = 2147483648, mapped = True\<rparr>],
     owner = 0, deviceId = 0, rankStride = 1073741824\<rparr>"

definition example_exchange_events :: "event list" where
  "example_exchange_events =
     [(halMemExportToShareableHandle 7 0 0, 0, 2), (halMemShareHandleSetAttribute 2, 0, 0),
      (halMemImportFromShareableHandle 5 0 0, 0, 5),
      (halMemAddressReserve 0 1073741824 0 0 0, 0, 2147483648),
      (halMemMap 2147483648 1073741824 0 5 0, 0, 0)]"

lemma example_deadline:
  assumes "clk s < 2 ^ 62"
  shows "setup_deadline (example_env f) 1000 s =
    Some (clk s + 1000000001, s\<lparr>clk := clk s + 1, ticks := Suc (ticks s)\<rparr>)"
  using assms setup_deadline_value [of s "example_env f" 1000] by (simp add: clock_now_def Let_def)

lemma example_peer:
  assumes "drv s = 2147483648" and "stdin_lines s = example_input"
  shows "setup_peer (example_env no_failure) example_ctrl tmo dl 1 example_local_object s =
    Some (Inr Status_OK, example_object\<lparr>slotSize := 0, nSlotsPerRank := 0\<rparr>,
     s\<lparr>drv := 3221225472, trace := trace s @ drop 2 example_exchange_events, stdin_lines := [[]]\<rparr>)"
proof -
  have "GetRankDesc example_ctrl (of_nat 1) s = (Inr (Value \<lparr>desc_handle = 5\<rparr>), s\<lparr>stdin_lines := [[]]\<rparr>)"
    using assms by (simp add: GetRankDesc_def example_parse RankDataDesc_default_def word_le_nat_alt)
  then show ?thesis
    using assms
    by (simp add: setup_peer_def Let_def example_wrappers example_local_object_def DataStrategy_new_def
        MappingEntry_default_def example_reserve set_entry_def example_object_def
        example_exchange_events_def)
qed

lemma example_cross:
  assumes "drv s = 2147483648" and "stdin_lines s = example_input" and "clk s < 2 ^ 62"
  shows "CrossRankSetup (example_env no_failure) example_ctrl 1000 example_local_object s =
    Some (Inr Status_OK, example_object\<lparr>slotSize := 0, nSlotsPerRank := 0\<rparr>,
     s\<lparr>drv := 3221225472, trace := trace s @ example_exchange_events, stdin_lines := [[]],
       stdout_lines := stdout_lines s @ [desc_line 0 2], clk := clk s + 1, ticks := Suc (ticks s)\<rparr>)"
proof -
  have two: "[0..<length (mappings example_local_object)] = [0, 1]"
    and own: "owner example_local_object = 0" "handle (mappings example_local_object ! 0) = 7"
    by (simp_all add: example_local_object_def DataStrategy_new_def upt_rec)
  have ex: "example_exchange_events = [(halMemExportToShareableHandle 7 0 0, 0, 2),
      (halMemShareHandleSetAttribute 2, 0, 0)] @ drop 2 example_exchange_events"
    by (simp add: example_exchange_events_def)
  show ?thesis
    unfolding CrossRankSetup_def two Let_def setup_peers.simps is_owner_def own using assms
    by (subst ex) (simp add: example_wrappers example_deadline SetRankDesc_def put_line_def
        RankDataDesc_default_def example_peer [unfolded One_nat_def] own Let_def)
qed

lemma example_setup_from:
  assumes "drv s = 1073741824" and "stdin_lines s = example_input" and "clk s < 2 ^ 62"
  shows "Setup (example_env no_failure) example_ctrl 0 0 4096 4 1000 DataStrategy_new s =
   Some (Status_OK, example_object, s\<lparr>drv := 3221225472,
     trace := trace s @ (aclrtSetDevice 0, 0, 0) # example_local_events @ example_exchange_events,
     stdin_lines := [[]], stdout_lines := stdout_lines s @ [desc_line 0 2], clk := clk s + 1,
     ticks := Suc (ticks s)\<rparr>)"
proof -
  let ?ds = "DataStrategy_new\<lparr>owner := 0, deviceId := 0\<rparr>"
  have "SetupLocal (example_env no_failure) example_ctrl 4096 4 ?ds s =
      Some (Inr Status_OK, example_local_object,
        s\<lparr>drv := 2147483648, trace := trace s @ example_local_events\<rparr>)" if "drv s = 1073741824"
    for s :: "u64 sys"
    using example_local [OF that] by (simp add: SetupLocal_def Let_def)
  then show ?thesis
    using assms
    by (simp add: Setup_def SetupBody_def example_device example_cross caught_def Let_def
        example_object_def) (simp add: DataStrategy_new_def)
qed

lemma example_setup:
  "Setup (example_env no_failure) example_ctrl 0 0 4096 4 1000 DataStrategy_new
     (example_sys example_input) =
   Some (Status_OK, example_object, \<lparr>drv = 3221225472,
     trace = (aclrtSetDevice 0, 0, 0) # example_local_events @ example_exchange_events,
     stdin_lines = [[]], stdout_lines = [desc_line 0 2], clk = 1, ticks = 1\<rparr>)"
  by (subst example_setup_from) (simp_all add: example_sys_def)

text \<open>The same for rank 1 of 2, whose driver hands out ranges from 4 GiB\<close>

definition example_sys1 :: "string list \<Rightarrow> u64 sys" where
  "example_sys1 ls = example_sys ls\<lparr>drv := 4294967296\<rparr>"

lemma example_sys1_fields [simp]:
  "drv (example_sys1 ls) = 4294967296" "trace (example_sys1 ls) = []"
  "stdin_lines (example_sys1 ls) = ls" "stdout_lines (example_sys1 ls) = []"
  "clk (example_sys1 ls) = 0" "ticks (example_sys1 ls) = 0"
  by (simp_all add: example_sys1_def)

definition example_local_object1 :: DataStrategy where
  "example_local_object1 = DataStrategy_new\<lparr>owner := 1, deviceId := 1, rankStride := 1073741824,
     mappings := [MappingEntry_default, \<lparr>handle = 7, addr = 4294967296, mapped = True\<rparr>]\<rparr>"

definition example_local_events1 :: "event list" where
  "example_local_events1 =
     [(halMemGetAllocationGranularity 0 (HostMemoryProp Huge), 0, 2097152),
      (halMemAddressReserve 0 1073741824 0 0 0, 0, 4294967296),
      (halMemCreate 0 1073741824 (HostMemoryProp Huge) 0, 0, 7),
      (halMemMap 4294967296 1073741824 0 7 0, 0, 0)]"

lemma example_local1:
  assumes "drv s = 4294967296"
  shows "LocalSetup (example_env no_failure) 16384 2 Huge (DataStrategy_new\<lparr>owner := 1, deviceId := 1\<rparr>) s =
    Some (Inr Status_OK, example_local_object1,
      s\<lparr>drv := 5368709120, trace := trace s @ example_local_events1\<rparr>)"
  using assms by (simp add: local_eval example_local_object1_def example_local_events1_def)

definition example_object1 :: DataStrategy where
  "example_object1 = \<lparr>slotSize = 4096, nSlotsPerRank = 4,
     mappings = [\<lparr>handle = 2, addr = 5368709120, mapped = True\<rparr>,
       \<lparr>handle = 7, addr = 4294967296, mapped = True\<rparr>],
     owner = 1, deviceId = 1, rankStride = 1073741824\<rparr>"

definition example_exchange_events1 :: "event list" where
  "example_exchange_events1 =
     [(halMemExportToShareableHandle 7 0 0, 0, 5), (halMemShareHandleSetAttribute 5, 0, 0),
      (halMemImportFromShareableHandle 2 0 1, 0, 2),
      (halMemAddressReserve 0 1073741824 0 0 0, 0, 5368709120),
      (halMemMap 5368709120 1073741824 0 2 0, 0, 0)]"

lemma example_peer1:
  assumes "drv s = 5368709120" and "stdin_lines s = [''DESC 0 2'']"
  shows "setup_peer (example_env no_failure) example_ctrl tmo dl 0 example_local_object1 s =
    Some (Inr Status_OK, example_object1\<lparr>slotSize := 0, nSlotsPerRank := 0\<rparr>,
     s\<lparr>drv := 6442450944, trace := trace s @ drop 2 example_exchange_events1, stdin_lines := []\<rparr>)"
proof -
  have "GetRankDesc example_ctrl (of_nat 0) s = (Inr (Value \<lparr>desc_handle = 2\<rparr>), s\<lparr>stdin_lines := []\<rparr>)"
    using assms by (simp add: GetRankDesc_def example_parse RankDataDesc_default_def word_le_nat_alt)
  then show ?thesis
    using assms
    by (simp add: setup_peer_def Let_def example_wrappers example_local_object1_def DataStrategy_new_def
        MappingEntry_default_def example_reserve set_entry_def example_object1_def
        example_exchange_events1_def)
qed

lemma example_cross1:
  assumes "drv s = 5368709120" and "stdin_lines s = [''DESC 0 2'']" and "clk s < 2 ^ 62"
  shows "CrossRankSetup (example_env no_failure) example_ctrl 1000 example_local_object1 s =
    Some (Inr Status_OK, example_object1\<lparr>slotSize := 0, nSlotsPerRank := 0\<rparr>,
     s\<lparr>drv := 6442450944, trace := trace s @ example_exchange_events1, stdin_lines := [],
       stdout_lines := stdout_lines s @ [desc_line 1 5], clk := clk s + 1, ticks := Suc (ticks s)\<rparr>)"
proof -
  have two: "[0..<length (mappings example_local_object1)] = [0, 1]"
    and own: "owner example_local_object1 = 1" "handle (mappings example_local_object1 ! 1) = 7"
      "handle (mappings example_local_object1 ! Suc 0) = 7" "owner example_object1 = 1"
    by (simp_all add: example_local_object1_def example_object1_def DataStrategy_new_def upt_rec)
  have ex: "example_exchange_events1 = [(halMemExportToShareableHandle 7 0 0, 0, 5),
      (halMemShareHandleSetAttribute 5, 0, 0)] @ drop 2 example_exchange_events1"
    by (simp add: example_exchange_events1_def)
  show ?thesis
    unfolding CrossRankSetup_def two Let_def setup_peers.simps is_owner_def own using assms
    by (subst ex) (simp add: example_wrappers example_deadline SetRankDesc_def put_line_def
        RankDataDesc_default_def example_peer1 own Let_def is_owner_def word_le_nat_alt)
qed

lemma example_setup1:
  "Setup (example_env no_failure) example_ctrl 1 1 4096 4 1000 DataStrategy_new
     (example_sys1 [''DESC 0 2'']) =
   Some (Status_OK, example_object1, \<lparr>drv = 6442450944,
     trace = (aclrtSetDevice 1, 0, 0) # example_local_events1 @ example_exchange_events1,
     stdin_lines = [], stdout_lines = [desc_line 1 5], clk = 1, ticks = 1\<rparr>)"
proof -
  let ?ds = "DataStrategy_new\<lparr>owner := 1, deviceId := 1\<rparr>"
  have "SetupLocal (example_env no_failure) example_ctrl 4096 4 ?ds s =
      Some (Inr Status_OK, example_local_object1,
        s\<lparr>drv := 5368709120, trace := trace s @ example_local_events1\<rparr>)" if "drv s = 4294967296" for s
    using example_local1 [OF that] by (simp add: SetupLocal_def Let_def)
  then show ?thesis
    by (simp add: Setup_def SetupBody_def example_device example_cross1 caught_def Let_def
        example_object1_def)
      (simp add: DataStrategy_new_def example_sys1_def example_sys_def)
qed

end
