(* ===== verification/Data_Strategy_Props.thy ===== *)
theory Data_Strategy_Props
  imports Example_Runs
begin

text \<open>
  The properties of the data strategy: what \<open>Setup\<close> leaves behind on failure and on success,
  what the destructor gives back and in which order, where the slots lie, and the exchange of
  descriptors between the processes.
\<close>

subsection \<open>Life of an object\<close>

lemma destroy_accounts:
  "\<exists>ev. emits ev s (DataStrategy_destroy E ds s) \<and> map fst ev = reset_calls ds \<and> releasing ev \<and>
     accounts ev ds (ds\<lparr>mappings := [], rankStride := 0\<rparr>)"
proof -
  obtain ds' s' where r: "Reset E ds s = (ds', s')" by fastforce
  show ?thesis
    using Reset_accounts [OF r] by (auto simp: DataStrategy_destroy_def r)
qed

lemma destroy_clean:
  assumes "mappings ds = []"
  shows "DataStrategy_destroy E ds s = s"
  using assms by (simp add: DataStrategy_destroy_def Reset_def Let_def)

lemma life_balanced:
  assumes "Setup E ctrl d k b n tmo ds s = Some (st, ds', s')" and "clean_object ds"
    and hold: "logs [] s' s2"
  shows "\<exists>ev. logs ev s (DataStrategy_destroy E ds' s2) \<and> balanced ev \<and> sound_trace ev"
proof -
  obtain e1 where e1: "logs e1 s s'" "accounts e1 ds ds'" "sound_trace e1"
    and c: "if Success st then setup_done E ctrl b n (stdin_lines s) e1 ds' s s' \<and> staged e1 \<and>
       slotSize ds' = b \<and> nSlotsPerRank ds' = n else clean_object ds' \<and> balanced e1"
    using Setup_spec [OF assms(1,2)] by blast
  obtain e2 where e2: "emits e2 s2 (DataStrategy_destroy E ds' s2)" "releasing e2"
    "accounts e2 ds' (ds'\<lparr>mappings := [], rankStride := 0\<rparr>)" "map fst e2 = reset_calls ds'"
    using destroy_accounts by blast
  have l: "logs (e1 @ e2) s (DataStrategy_destroy E ds' s2)"
    using e1(1) hold e2(1) by (simp add: logs_def emits_def)
  have b: "balanced (e1 @ e2)"
    using accounts_balanced [OF accounts_trans [OF e1(2) e2(3)]] assms(2)
    by (simp add: clean_object_def)
  show ?thesis
  proof (cases "Success st")
    case True
    then have "staged e1"
      using c by simp
    then show ?thesis
      using l b staged_release [OF _ e2(2) b] by blast
  next
    case False
    then have "mappings ds' = []"
      using c by (simp add: clean_object_def)
    then have "e2 = []"
      using e2(4) by (simp add: reset_calls_def release_order_def)
    then show ?thesis
      using l b e1(3) by auto
  qed
qed

subsection \<open>A group of processes\<close>

text \<open>
  The terminal of one process when the lines of its peers are pasted in rank order, with any
  other text between them.
\<close>

definition pasted :: "(nat \<Rightarrow> string list) \<Rightarrow> (nat \<Rightarrow> u64) \<Rightarrow> nat list \<Rightarrow> string list" where
  "pasted noise h rs = concat (map (\<lambda>r. noise r @ [desc_line (of_nat r) (h r)]) rs)"

lemma read_descs_pasted:
  assumes "\<forall>r \<in> set rs. h r \<noteq> kInvalid \<and> (\<forall>l \<in> set (noise r). parse_desc (of_nat r) l = None)"
  shows "read_descs rs (pasted noise h rs @ rest) = Some (map h rs, rest)"
  using assms
proof (induction rs)
  case Nil
  then show ?case
    by (simp add: pasted_def)
next
  case (Cons r rs)
  have "desc_loop (of_nat r) (noise r @ desc_line (of_nat r) (h r) # pasted noise h rs @ rest) =
      (Inr (h r), pasted noise h rs @ rest)"
    using Cons.prems by (intro desc.receive_published) simp_all
  then show ?case
    using Cons by (simp add: pasted_def)
qed

subsection \<open>Placing the slots\<close>

lemma setup_slots_placed:
  assumes "setup_done E ctrl b n input ev ds s s'" and "slotSize ds = b" and "nSlotsPerRank ds = n"
    and "n \<noteq> 0" and "unat b * unat n < 2 ^ 64" and "stride_fits E (b * n)" and "views_placed ds"
  shows "slots_placed ds"
proof -
  have len: "length (mappings ds) = unat (SlotCount ctrl div n)" and st: "stride_of E (b * n) ds"
    using assms(1) by (simp_all add: setup_done_def)
  have "length (mappings ds) * unat n \<le> unat (SlotCount ctrl)"
    by (simp add: len unat_div)
  then have "length (mappings ds) * unat n < 2 ^ 64"
    using unat_u64_bound [of "SlotCount ctrl"] by linarith
  moreover have "unat n * unat b \<le> unat (rankStride ds)"
    using stride_of_bounds [OF st assms(6)] unat_mult_no_wrap [OF assms(5)]
    by (simp add: mult.commute)
  ultimately show ?thesis
    using assms(2-4,7) by (simp add: slots_placed_def)
qed

lemma setup_total:
  assumes "setup_done E ctrl b n input ev ds s s'" and "n \<noteq> 0" and "nSlotsPerRank ds = n"
    and "SlotCount ctrl = ranks * n" and "unat ranks * unat n < 2 ^ 64"
  shows "length (mappings ds) = unat ranks \<and> slot_total ds = unat ranks * unat n"
proof -
  have "unat (SlotCount ctrl div n) = unat ranks"
    using assms(2,4,5) by (simp add: unat_div unat_mult_no_wrap unat_gt_0)
  then show ?thesis
    using assms(1,3) by (simp add: setup_done_def slot_total_def)
qed

text \<open>The view of a slot: the owner's through the host address, a peer's through the device's.\<close>

lemma slot_views:
  assumes "all_ready ds" and "nSlotsPerRank ds \<noteq> 0" and "unat i < slot_total ds"
  shows "HostAccessibleOf ds i \<longleftrightarrow> i div nSlotsPerRank ds = owner ds"
    and "DataAt ds i = (if i div nSlotsPerRank ds = owner ds then slot_address ds i else nullptr)"
    and "DeviceDataAt ds i = (if i div nSlotsPerRank ds = owner ds then nullptr else slot_address ds i)"
proof -
  have "unat (i div nSlotsPerRank ds) < length (mappings ds)"
    using assms(3) by (simp add: slot_total_def unat_div less_mult_imp_div_less)
  then have "mapped (mappings ds ! unat (i div nSlotsPerRank ds))"
    using assms(1) by (simp add: all_ready_def ready_entry_def)
  then show "HostAccessibleOf ds i \<longleftrightarrow> i div nSlotsPerRank ds = owner ds"
    and "DataAt ds i = (if i div nSlotsPerRank ds = owner ds then slot_address ds i else nullptr)"
    and "DeviceDataAt ds i = (if i div nSlotsPerRank ds = owner ds then nullptr else slot_address ds i)"
    using assms(2) \<open>unat (i div _) < _\<close>
    by (auto simp: HostAccessibleOf_def DataAt_def DeviceDataAt_def Let_def)
qed

lemma slot_address_nonnull:
  assumes "all_ready ds" and "slots_placed ds" and "unat i < slot_total ds"
  shows "slot_address ds i \<noteq> nullptr"
proof -
  let ?r = "unat i div unat (nSlotsPerRank ds)"
  have "?r < length (mappings ds)"
    using assms(3) by (simp add: slot_total_def less_mult_imp_div_less)
  then have "0 < region_base ds ?r"
    using assms(1) by (simp add: all_ready_def ready_entry_def region_base_def unat_gt_0)
  then have "0 < unat (slot_address ds i)"
    unfolding slot_address_unat [OF assms(2,3)] by simp
  then show ?thesis
    by (metis less_irrefl unsigned_0)
qed

subsection \<open>When a peer's descriptor never comes\<close>

lemma peer_ranks_upt:
  "peer_ranks ds = filter (\<lambda>r. r \<noteq> unat (owner ds)) [0..<length (mappings ds)]"
  by (simp add: peer_ranks_def is_owner_def)

lemma setup_needs_descriptors:
  assumes "Setup E ctrl d k b n tmo ds s = Some (st, ds', s')" and "clean_object ds"
    and "read_descs (filter (\<lambda>r. r \<noteq> unat k) [0..<unat (SlotCount ctrl div n)]) (stdin_lines s) = None"
  shows "\<not> Success st"
proof
  assume ok: "Success st"
  obtain ev where "setup_done E ctrl b n (stdin_lines s) ev ds' s s'" and "owner ds' = k"
    using Setup_spec [OF assms(1,2)] ok by auto
  then show False
    using assms(3) by (auto simp: setup_done_def peer_ranks_upt)
qed

subsection \<open>Properties\<close>

text \<open>C1. \<open>Setup\<close> on any object a program can have: one that was set up before is refused with
  the status \<open>already initialized\<close>, without a call and without a change to the object; on any
  other, when \<open>Setup\<close> fails, at whatever step and for whatever reason, it has given back every
  address range, handle and mapping its calls obtained, each exactly once and none before it was
  obtained, and leaves an object that holds nothing.\<close>

theorem setup_failure_gives_back:
  assumes "Setup E ctrl d k b n tmo ds s = Some (st, ds', s')" and "data_object E ds"
  shows "if nSlotsPerRank ds \<noteq> 0
    then st = Status_Error ''cache2 data strategy is already initialized'' \<and> ds' = ds \<and> s' = s
    else Failure st \<longrightarrow> (\<exists>ev. trace s' = trace s @ ev \<and> balanced ev \<and> sound_trace ev \<and>
      mappings ds' = [] \<and> nSlotsPerRank ds' = 0)"
proof (cases "nSlotsPerRank ds = 0")
  case True
  then show ?thesis
    using Setup_spec [OF assms(1) data_object_clean [OF assms(2)]]
    by (auto simp: logs_def clean_object_def)
next
  case False
  then show ?thesis
    using assms(1) by (simp add: Setup_again)
qed

lemma example_closed:
  "\<exists>st ds' s'. Setup (example_env no_failure) example_ctrl 0 0 4096 4 1000 DataStrategy_new
     (example_sys [''hello'']) = Some (st, ds', s') \<and> \<not> Success st"
proof -
  have "Setup (example_env no_failure) example_ctrl 0 0 4096 4 1000 DataStrategy_new
      (example_sys [''hello'']) \<noteq> None"
    by (rule Setup_defined [OF example_granularity])
      (simp_all add: deadline_fits_def poll_pause_def data_object.constructed)
  then obtain st ds' s' where r: "Setup (example_env no_failure) example_ctrl 0 0 4096 4 1000
      DataStrategy_new (example_sys [''hello'']) = Some (st, ds', s')" by auto
  have "filter (\<lambda>r. r \<noteq> unat (0 :: u64)) [0..<unat (SlotCount example_ctrl div 4)] = [1]"
    by (simp add: upt_rec)
  then have "\<not> Success st"
    by (intro setup_needs_descriptors [OF r clean_new]) (simp add: example_parse)
  with r show ?thesis
    by blast
qed

lemma example_data_object: "data_object (example_env no_failure) example_object"
  by (rule data_object.set_up [OF data_object.constructed example_setup])

theorem setup_failure_gives_back_witness:
  "(\<exists>st ds' s'. Setup (example_env no_failure) example_ctrl 0 0 4096 4 1000 DataStrategy_new
     (example_sys [''hello'']) = Some (st, ds', s') \<and> balanced (trace s') \<and> mappings ds' = []) \<and>
   (\<exists>st. Setup (example_env no_failure) example_ctrl 0 0 4096 4 1000 example_object (example_sys []) =
     Some (st, example_object, example_sys []) \<and> Failure st)"
proof (intro conjI)
  have new: "nSlotsPerRank DataStrategy_new = 0" and old: "nSlotsPerRank example_object \<noteq> 0"
    by (simp_all add: DataStrategy_new_def example_object_def)
  show "\<exists>st ds' s'. Setup (example_env no_failure) example_ctrl 0 0 4096 4 1000 DataStrategy_new
      (example_sys [''hello'']) = Some (st, ds', s') \<and> balanced (trace s') \<and> mappings ds' = []"
    using example_closed setup_failure_gives_back [OF _ data_object.constructed, of "example_env no_failure"
        example_ctrl 0 0 4096 4 1000 "example_sys [''hello'']"] new by fastforce
  obtain st ds' s' where r: "Setup (example_env no_failure) example_ctrl 0 0 4096 4 1000 example_object
      (example_sys []) = Some (st, ds', s')"
    by (simp add: Setup_again old)
  show "\<exists>st. Setup (example_env no_failure) example_ctrl 0 0 4096 4 1000 example_object (example_sys []) =
      Some (st, example_object, example_sys []) \<and> Failure st"
    using setup_failure_gives_back [OF r example_data_object] old r
    by (auto simp: Success_iff status_code_defs)
qed

text \<open>C6. After \<open>Setup\<close> has succeeded, every rank of the control block has a mapped view at a
  non-null address; the calls were, in this order, the selection of the device, a local set-up
  with huge pages (or one with normal pages after a first attempt that was given back), the
  export of the own handle, and for every peer in rank order import, reservation and mapping; the
  only line printed is the own descriptor with the exported handle, and the handles imported are
  the ones read from the terminal.\<close>

theorem setup_success_state:
  assumes "Setup E ctrl d k b n tmo ds s = Some (st, ds', s')" and "clean_object ds"
    and "Success st"
  shows "\<exists>ev. trace s' = trace s @ ev \<and> setup_done E ctrl b n (stdin_lines s) ev ds' s s' \<and>
    owner ds' = k \<and> deviceId ds' = d \<and> slotSize ds' = b \<and> nSlotsPerRank ds' = n"
  using Setup_spec [OF assms(1,2)] assms(3) by (auto simp: logs_def)

theorem setup_success_state_witness:
  "\<exists>ds' s'. Setup (example_env no_failure) example_ctrl 0 0 4096 4 1000 DataStrategy_new
     (example_sys example_input) = Some (Status_OK, ds', s') \<and>
   setup_done (example_env no_failure) example_ctrl 4096 4 example_input (trace s') ds'
     (example_sys example_input) s'"
  using setup_success_state [OF example_setup clean_new Success_OK] example_setup by auto

text \<open>C20. Construction, \<open>Setup\<close> and destruction together give back exactly what they obtained,
  whatever the driver answers to any call, the clean-up calls included.\<close>

theorem object_life_balanced:
  assumes "Setup E ctrl d k b n tmo DataStrategy_new s = Some (st, ds', s')"
  shows "\<exists>ev. trace (DataStrategy_destroy E ds' s') = trace s @ ev \<and> balanced ev \<and> sound_trace ev"
  using life_balanced [OF assms clean_new logs_refl] by (simp add: logs_def)

theorem object_life_balanced_witness:
  "balanced (trace (DataStrategy_destroy (example_env no_failure) example_object
     \<lparr>drv = 3221225472,
      trace = (aclrtSetDevice 0, 0, 0) # example_local_events @ example_exchange_events,
      stdin_lines = [[]], stdout_lines = [desc_line 0 2], clk = 1, ticks = 1\<rparr>))"
  using object_life_balanced [OF example_setup] by auto

text \<open>C34. \<open>Setup\<close> returns, without undefined behaviour, on every object a program can have, in
  every state and whatever the driver and the terminal deliver, under four conditions: there is
  at least one slot per rank; the rank is one of the control block's; the driver's granularity
  has a least common multiple with the address alignment that is a \<open>size_t\<close>; and the next reading
  of the clock, the timeout and one pause of the polling loop add up to less than \<open>2 ^ 63\<close>
  nanoseconds, so that the deadline and the points of time computed before it can be represented.\<close>

theorem setup_returns:
  assumes "granularity_fits E" and "n \<noteq> 0" and "unat k < unat (SlotCount ctrl div n)"
    and "clk s + clock_step E (ticks s) + unat tmo * 1000000 + poll_pause < 2 ^ 63"
    and "data_object E ds"
  shows "\<exists>st ds' s'. Setup E ctrl d k b n tmo ds s = Some (st, ds', s')"
  using Setup_defined [OF assms(1-3) _ assms(5)] assms(4) by (auto simp: deadline_fits_def)

theorem setup_returns_witness:
  "\<exists>st ds' s'. Setup (example_env no_map) example_ctrl 3 1 4096 4 2147483647 DataStrategy_new
     (example_sys []) = Some (st, ds', s')"
  by (rule setup_returns [OF example_granularity _ _ _ data_object.constructed])
    (simp_all add: poll_pause_def)

text \<open>C24. After a successful \<open>Setup\<close> of any object, every slot of the control block has exactly one
  address, a host address when it lies in the own rank, a device address when it lies in a
  peer's, under three conditions,
  which a command line or a driver can violate: the size of a rank's data is a \<open>size_t\<close> without
  wrap-around, so is its rounding up to the alignment of every granularity the driver reports,
  and the ranges the driver gave for the ranks neither overlap nor wrap.\<close>

theorem slot_has_one_view:
  assumes "Setup E ctrl d k b n tmo ds s = Some (st, ds', s')" and "data_object E ds"
    and "Success st" and "n \<noteq> 0" and "unat b * unat n < 2 ^ 64" and "stride_fits E (b * n)"
    and "views_placed ds'" and "unat i < slot_total ds'"
  shows "HostAccessibleOf ds' i = (i div n = k) \<and>
    (DataAt ds' i \<noteq> nullptr) = HostAccessibleOf ds' i \<and>
    (DeviceDataAt ds' i \<noteq> nullptr) = (\<not> HostAccessibleOf ds' i)"
proof -
  obtain ev where sd: "setup_done E ctrl b n (stdin_lines s) ev ds' s s'"
    and conf: "owner ds' = k" "slotSize ds' = b" "nSlotsPerRank ds' = n"
    using Setup_spec [OF assms(1) data_object_success [OF assms(1-3)]] assms(3) by auto
  have ready: "all_ready ds'"
    using sd by (simp add: setup_done_def)
  note placed = setup_slots_placed [OF sd conf(2,3) assms(4-7)]
  show ?thesis
    using slot_views [OF ready _ assms(8)] slot_address_nonnull [OF ready placed assms(8)] conf assms(4)
    by simp
qed

lemma example_placed: "views_placed example_object"
  by (auto simp: views_placed_def example_object_def region_base_def less_Suc_eq)

lemma example_fields:
  "mappings example_object ! Suc 0 = \<lparr>handle = 5, addr = 2147483648, mapped = True\<rparr>"
  "rankStride example_object = 1073741824"
  by (simp_all add: example_object_def)

lemma example_total: "slot_total example_object = 8"
  by (simp add: slot_total_def example_object_def)

theorem slot_has_one_view_witness:
  "DataAt example_object 1 \<noteq> nullptr \<and> DeviceDataAt example_object 5 \<noteq> nullptr \<and>
   DataAt example_object 5 = nullptr"
proof -
  have fits: "stride_fits (example_env no_failure) (4096 * 4)"
    by (rule example_stride) simp
  note v = slot_has_one_view [OF example_setup data_object.constructed Success_OK _ _ fits example_placed,
      unfolded example_total]
  show ?thesis
    using v [of 1] v [of 5] by auto
qed

text \<open>C26. After a successful \<open>Setup\<close> of any object, the bytes of every slot lie inside the mapping of
  the slot's rank, whose length is the stride that was reserved, created and mapped for it, under three conditions,
  which a command line or a driver can violate: the size of a rank's data is a \<open>size_t\<close> without
  wrap-around, so is its rounding up to the alignment of every granularity the driver reports,
  and the ranges the driver gave for the ranks neither overlap nor wrap.\<close>

theorem slot_inside_mapping:
  assumes "Setup E ctrl d k b n tmo ds s = Some (st, ds', s')" and "data_object E ds"
    and "Success st" and "n \<noteq> 0" and "unat b * unat n < 2 ^ 64" and "stride_fits E (b * n)"
    and "views_placed ds'" and "unat i < slot_total ds'"
  shows "let m = mappings ds' ! (unat i div unat n) in
    unat (addr m) \<le> unat (slot_address ds' i) \<and>
    unat (slot_address ds' i) + unat b \<le> unat (addr m) + unat (rankStride ds')"
proof -
  obtain ev where sd: "setup_done E ctrl b n (stdin_lines s) ev ds' s s'"
    and conf: "slotSize ds' = b" "nSlotsPerRank ds' = n"
    using Setup_spec [OF assms(1) data_object_success [OF assms(1-3)]] assms(3) by auto
  note placed = setup_slots_placed [OF sd conf assms(4-7)]
  have "unat i < length (mappings ds') * unat (nSlotsPerRank ds')"
    using assms(8) by (simp add: slot_total_def)
  from slots.block_inside [OF placed this] show ?thesis
    by (simp add: conf region_base_def Let_def)
qed

theorem slot_inside_mapping_witness:
  "unat (slot_address example_object 7) + 4096 \<le> 2147483648 + 1073741824"
proof -
  have fits: "stride_fits (example_env no_failure) (4096 * 4)"
    by (rule example_stride) simp
  show ?thesis
    using slot_inside_mapping [OF example_setup data_object.constructed Success_OK _ _ fits example_placed, of 7]
    by (simp add: example_total example_fields Let_def)
qed

text \<open>C25. After a successful \<open>Setup\<close> of any object, the bytes of two different slots do not overlap in
  the process's address space, whether the slots belong to the same rank or to different ones, under three conditions,
  which a command line or a driver can violate: the size of a rank's data is a \<open>size_t\<close> without
  wrap-around, so is its rounding up to the alignment of every granularity the driver reports,
  and the ranges the driver gave for the ranks neither overlap nor wrap.\<close>

theorem slots_disjoint:
  assumes "Setup E ctrl d k b n tmo ds s = Some (st, ds', s')" and "data_object E ds"
    and "Success st" and "n \<noteq> 0" and "unat b * unat n < 2 ^ 64" and "stride_fits E (b * n)"
    and "views_placed ds'" and "unat i < slot_total ds'" and "unat j < slot_total ds'"
    and "i \<noteq> j"
  shows "unat (slot_address ds' i) + unat b \<le> unat (slot_address ds' j) \<or>
    unat (slot_address ds' j) + unat b \<le> unat (slot_address ds' i)"
proof -
  obtain ev where sd: "setup_done E ctrl b n (stdin_lines s) ev ds' s s'"
    and conf: "slotSize ds' = b" "nSlotsPerRank ds' = n"
    using Setup_spec [OF assms(1) data_object_success [OF assms(1-3)]] assms(3) by auto
  note placed = setup_slots_placed [OF sd conf assms(4-7)]
  have "unat i < length (mappings ds') * unat (nSlotsPerRank ds')"
    "unat j < length (mappings ds') * unat (nSlotsPerRank ds')" "unat i \<noteq> unat j"
    using assms(8-10) by (simp_all add: slot_total_def word_unat_eq_iff)
  from slots.blocks_apart [OF placed this] show ?thesis
    by (simp add: conf)
qed

theorem slots_disjoint_witness:
  "unat (slot_address example_object 3) + 4096 \<le> unat (slot_address example_object 4) \<or>
   unat (slot_address example_object 4) + 4096 \<le> unat (slot_address example_object 3)"
proof -
  have fits: "stride_fits (example_env no_failure) (4096 * 4)"
    by (rule example_stride) simp
  show ?thesis
    using slots_disjoint [OF example_setup data_object.constructed Success_OK _ _ fits example_placed, of 3 4]
    by (simp add: example_total)
qed

subsection \<open>Order of the clean-up, and the exchange\<close>

lemma dues_listed:
  "concat (map unmap_due ms) = map (\<lambda>m. halMemUnmap (addr m)) (filter mapped ms)"
  "concat (map free_due ms) = map (\<lambda>m. halMemAddressFree (addr m)) (filter (\<lambda>m. addr m \<noteq> nullptr) ms)"
  "concat (map release_due ms) = map (\<lambda>m. halMemRelease (handle m)) (filter (\<lambda>m. handle m \<noteq> nullptr) ms)"
  by (induction ms) (simp_all add: due_defs)

lemma desc_line_inj: "desc_line r h = desc_line q k \<Longrightarrow> r = q \<and> h = k"
  by (metis Pair_inject desc_fields_desc_line option.inject stoull_to_string sum.inject(2))

text \<open>The clean-up makes its calls in this order, whatever they return: it unmaps every mapped
  view, then releases the imported handles, after them the own handle, and only then frees the
  address ranges; entries without the resource are passed over.\<close>

theorem reset_order:
  "\<exists>ev. trace (snd (Reset E ds s)) = trace s @ ev \<and>
     map fst ev =
       map (\<lambda>m. halMemUnmap (addr m)) (filter mapped (mappings ds))
       @ map (\<lambda>m. halMemRelease (handle m)) (filter (\<lambda>m. handle m \<noteq> nullptr)
           (map ((!) (mappings ds)) (filter (\<lambda>r. r \<noteq> unat (owner ds)) [0..<length (mappings ds)])
             @ (if unat (owner ds) < length (mappings ds) then [mappings ds ! unat (owner ds)] else [])))
       @ map (\<lambda>m. halMemAddressFree (addr m)) (filter (\<lambda>m. addr m \<noteq> nullptr) (mappings ds))"
proof -
  obtain ds' s' where r: "Reset E ds s = (ds', s')" by fastforce
  obtain ev where "emits ev s s'" and ev: "map fst ev = reset_calls ds"
    using Reset_accounts [OF r] by blast
  then have "trace (snd (Reset E ds s)) = trace s @ ev"
    by (simp add: emits_def r)
  moreover have "map ((!) (mappings ds)) (release_order ds) =
      map ((!) (mappings ds)) (filter (\<lambda>r. r \<noteq> unat (owner ds)) [0..<length (mappings ds)])
        @ (if unat (owner ds) < length (mappings ds) then [mappings ds ! unat (owner ds)] else [])"
    by (simp add: release_order_def is_owner_def)
  moreover have "concat (map (\<lambda>r. release_due (mappings ds ! r)) (release_order ds)) =
      concat (map release_due (map ((!) (mappings ds)) (release_order ds)))"
    by (simp add: comp_def)
  ultimately show ?thesis
    using ev unfolding reset_calls_def dues_listed by (intro exI [of _ ev]) simp
qed

text \<open>C9. A group of processes whose terminals receive the descriptor lines of the others in rank
  order, with any other text in between, exchanges its handles correctly: each process imports,
  for every peer, exactly the handle that peer exported, and consumes exactly those lines.\<close>

theorem group_exchange:
  assumes "\<forall>p < N. Setup (E p) ctrl (d p) (of_nat p) b n tmo DataStrategy_new (s p) =
      Some (st p, ds p, s' p) \<and> Success (st p)"
    and "unat (SlotCount ctrl div n) = N"
    and "\<forall>p < N. stdout_lines (s' p) = stdout_lines (s p) @ [desc_line (of_nat p) (x p)] \<and>
      x p \<noteq> kInvalid"
    and "\<forall>p < N. \<forall>q < N. \<forall>l \<in> set (noise p q). parse_desc (of_nat q) l = None"
    and "\<forall>p < N. stdin_lines (s p) = pasted (noise p) x (filter (\<lambda>q. q \<noteq> p) [0..<N]) @ rest p"
    and "p < N"
  shows "\<exists>ev before. trace (s' p) = trace (s p) @ ev \<and> stdin_lines (s' p) = rest p \<and>
    map fst ev = before @ exchange_calls (x p) (map x (filter (\<lambda>q. q \<noteq> p) [0..<N])) (ds p)"
proof -
  have p: "Setup (E p) ctrl (d p) (of_nat p) b n tmo DataStrategy_new (s p) = Some (st p, ds p, s' p)"
    "Success (st p)"
    using assms(1,6) by simp_all
  have small: "unat (of_nat p :: u64) = p"
    using assms(2,6) unat_u64_bound [of "SlotCount ctrl div n"] by (intro unat_of_nat_u64) simp
  obtain ev where ev: "logs ev (s p) (s' p)"
    and sd: "setup_done (E p) ctrl b n (stdin_lines (s p)) ev (ds p) (s p) (s' p)"
    and own: "owner (ds p) = of_nat p"
    using Setup_spec [OF p(1) clean_new] p(2) by auto
  have peers: "peer_ranks (ds p) = filter (\<lambda>q. q \<noteq> p) [0..<N]"
    using sd assms(2) by (simp add: peer_ranks_upt own small setup_done_def)
  have "read_descs (peer_ranks (ds p)) (stdin_lines (s p)) =
      Some (map x (filter (\<lambda>q. q \<noteq> p) [0..<N]), rest p)"
    unfolding peers using assms(3-6) by (simp add: read_descs_pasted)
  then obtain ret out ev1 ev2 y where y: "ev = (aclrtSetDevice (deviceId (ds p)), ret, out) # ev1 @ ev2"
    "map fst ev2 = exchange_calls y (map x (filter (\<lambda>q. q \<noteq> p) [0..<N])) (ds p)"
    "stdin_lines (s' p) = rest p" "stdout_lines (s' p) = stdout_lines (s p) @ [desc_line (of_nat p) y]"
    using sd own unfolding setup_done_def by auto
  have "y = x p"
    using y(4) assms(3,6) by (auto dest: desc_line_inj)
  then have "map fst ev = (aclrtSetDevice (deviceId (ds p)) # map fst ev1) @
      exchange_calls (x p) (map x (filter (\<lambda>q. q \<noteq> p) [0..<N])) (ds p)"
    using y(1,2) by simp
  then show ?thesis
    using ev y(3) unfolding logs_def by blast
qed

theorem group_exchange_witness:
  "\<exists>before. map fst ((aclrtSetDevice 0, 0, 0) # example_local_events @ example_exchange_events) =
     before @ exchange_calls 2 [5] example_object"
proof -
  define S where "S = (\<lambda>p :: nat. if p = 0 then example_sys example_input else example_sys1 [''DESC 0 2''])"
  define S' where "S' = (\<lambda>p :: nat. if p = 0 then \<lparr>drv = 3221225472 :: u64,
     trace = (aclrtSetDevice 0, 0, 0) # example_local_events @ example_exchange_events,
     stdin_lines = [[]], stdout_lines = [desc_line 0 2], clk = 1, ticks = 1\<rparr>
   else \<lparr>drv = 6442450944,
     trace = (aclrtSetDevice 1, 0, 0) # example_local_events1 @ example_exchange_events1,
     stdin_lines = [], stdout_lines = [desc_line 1 5], clk = 1, ticks = 1\<rparr>)"
  define D where "D = (\<lambda>p :: nat. if p = 0 then example_object else example_object1)"
  define x where "x = (\<lambda>p :: nat. if p = 0 then 2 else 5 :: u64)"
  define noise where "noise = (\<lambda>(p :: nat) (q :: nat). if p = 0 then [''hello''] else [])"
  define rest where "rest = (\<lambda>p :: nat. if p = 0 then [[]] else [] :: string list)"
  have two: "\<And>P. (\<forall>p < (2 :: nat). P p) \<longleftrightarrow> P 0 \<and> P 1"
    by (auto simp: less_2_cases_iff)
  have upt: "[0..<2 :: nat] = [0, 1]"
    by (simp add: upt_rec)
  have lines: "desc_line 0 2 = ''DESC 0 2''" "desc_line 1 5 = ''DESC 1 5''"
    by (simp_all add: desc_line_def to_string_u64_def nat_to_string.simps)
  have "\<exists>ev before. trace (S' 0) = trace (S 0) @ ev \<and> stdin_lines (S' 0) = rest 0 \<and>
      map fst ev = before @ exchange_calls (x 0) (map x (filter (\<lambda>q. q \<noteq> 0) [0..<2])) (D 0)"
  proof (rule group_exchange [where E = "\<lambda>_. example_env no_failure" and ctrl = example_ctrl and d = int
        and b = 4096 and n = 4 and tmo = 1000 and st = "\<lambda>_. Status_OK" and noise = noise])
    show "\<forall>p < 2. Setup (example_env no_failure) example_ctrl (int p) (of_nat p) 4096 4 1000
        DataStrategy_new (S p) = Some (Status_OK, D p, S' p) \<and> Success Status_OK"
      unfolding two by (simp add: S_def S'_def D_def example_setup example_setup1)
    show "\<forall>p < 2. stdin_lines (S p) = pasted (noise p) x (filter (\<lambda>q. q \<noteq> p) [0..<2]) @ rest p"
      unfolding two upt by (simp add: S_def noise_def x_def rest_def pasted_def lines)
    show "\<forall>p < 2. \<forall>q < 2. \<forall>l \<in> set (noise p q). parse_desc (of_nat q) l = None"
      unfolding two by (simp add: noise_def parse_eval)
  qed (simp_all add: two S_def S'_def x_def kInvalid_def)
  then show ?thesis
    by (auto simp: S_def S'_def x_def D_def upt)
qed

text \<open>C35. When the terminal closes before it has delivered an acceptable descriptor of every peer,
  in rank order, \<open>Setup\<close> fails, whatever object a program calls it on: one that was not set up
  holds nothing afterwards and everything obtained has been given back, one that was set up
  before is left as it is, without a call.\<close>

theorem missing_descriptor_fails:
  assumes "Setup E ctrl d k b n tmo ds s = Some (st, ds', s')" and "data_object E ds"
    and "read_descs (filter (\<lambda>r. r \<noteq> unat k) [0..<unat (SlotCount ctrl div n)]) (stdin_lines s) = None"
  shows "Failure st \<and> (if nSlotsPerRank ds = 0
    then clean_object ds' \<and> (\<exists>ev. trace s' = trace s @ ev \<and> balanced ev)
    else ds' = ds \<and> s' = s)"
proof (cases "nSlotsPerRank ds = 0")
  case True
  note clean = data_object_clean [OF assms(2) True]
  have "\<not> Success st"
    using assms(1) clean assms(3) by (rule setup_needs_descriptors)
  then show ?thesis
    using Setup_spec [OF assms(1) clean] True by (auto simp: logs_def)
next
  case False
  then show ?thesis
    using assms(1) by (auto simp: Setup_again Success_iff status_code_defs)
qed

theorem missing_descriptor_fails_witness:
  "\<exists>st ds' s'. Setup (example_env no_failure) example_ctrl 0 0 4096 4 1000 DataStrategy_new
     (example_sys [''hello'']) = Some (st, ds', s') \<and> \<not> Success st \<and> balanced (trace s')"
proof -
  obtain st ds' s' where r: "Setup (example_env no_failure) example_ctrl 0 0 4096 4 1000
      DataStrategy_new (example_sys [''hello'']) = Some (st, ds', s')"
    using example_closed by blast
  have "filter (\<lambda>r. r \<noteq> unat (0 :: u64)) [0..<unat (SlotCount example_ctrl div 4)] = [1]"
    by (simp add: upt_rec)
  then have "read_descs (filter (\<lambda>r. r \<noteq> unat (0 :: u64)) [0..<unat (SlotCount example_ctrl div 4)])
      (stdin_lines (example_sys [''hello''])) = None"
    by (simp add: example_parse)
  moreover have "nSlotsPerRank DataStrategy_new = 0"
    by (simp add: DataStrategy_new_def)
  ultimately show ?thesis
    using missing_descriptor_fails [OF r data_object.constructed] r by auto
qed

text \<open>A rank the control block does not know is not taken for a peer: its turn ends with the
  timeout status, not before the common deadline, without a driver call and without reading the
  terminal.\<close>

theorem unknown_rank_times_out:
  assumes "setup_peer E ctrl timeoutMs deadline rank ds s = Some (r, ds', s')"
    and "rankCount ctrl \<le> of_nat rank"
  shows "(\<exists>st. r = Inr st \<and> st_code st = ETIMEOUT_code) \<and> ds' = ds \<and> deadline \<le> clk s' \<and>
    trace s' = trace s \<and> stdin_lines s' = stdin_lines s"
proof -
  let ?p = "Inr (Unexpected (Status_InvalidParam ''rank out of range'')) :: exn + RankDataDesc expected"
  obtain q s1 where w: "wait_desc E ctrl (of_nat rank) deadline ?p s = Some (q, s1)"
    using assms(1) by (auto simp: setup_peer_def GetRankDesc_out_of_range [OF assms(2)]
        split: option.splits)
  have "q = ?p \<and> deadline \<le> clk s1 \<and> stdin_lines s1 = stdin_lines s \<and> stdout_lines s1 = stdout_lines s"
    using wait_desc_out_of_range [OF assms(2) w] by simp
  moreover have "trace s1 = trace s"
    using wait_desc_logs [OF w] by (simp add: logs_def)
  ultimately show ?thesis
    using assms(1) w
    by (auto simp: setup_peer_def GetRankDesc_out_of_range [OF assms(2)] timeout_status_def
        Underlying_def status_code_defs)
qed

theorem unknown_rank_times_out_witness:
  "\<exists>st s'. setup_peer (example_env no_failure) example_ctrl 0 0 2 DataStrategy_new (example_sys []) =
     Some (Inr st, DataStrategy_new, s') \<and> st_code st = ETIMEOUT_code"
proof -
  obtain q s1 where w: "wait_desc (example_env no_failure) example_ctrl 2 0
      (Inr (Unexpected (Status_InvalidParam ''rank out of range''))) (example_sys []) = Some (q, s1)"
    using wait_desc_defined [of 0] by (fastforce simp: poll_pause_def)
  have "GetRankDesc example_ctrl 2 (example_sys []) =
      (Inr (Unexpected (Status_InvalidParam ''rank out of range'')), example_sys [])"
    by (rule GetRankDesc_out_of_range) simp
  then obtain r ds' s' where r: "setup_peer (example_env no_failure) example_ctrl 0 0 2 DataStrategy_new
      (example_sys []) = Some (r, ds', s')"
    using w wait_desc_out_of_range [OF _ w refl] by (auto simp: setup_peer_def)
  show ?thesis
    using unknown_rank_times_out [OF r] r by auto
qed

text \<open>The stride, the length that is reserved, created and mapped for every rank, is the least
  multiple of the alignment that holds the rank's data, as long as the rounding stays within a
  \<open>size_t\<close>.\<close>

theorem stride_least_multiple:
  assumes "al \<noteq> 0" and "unat bytes + unat al \<le> 2 ^ 64"
  shows "unat al dvd unat (round_up bytes al) \<and> unat bytes \<le> unat (round_up bytes al) \<and>
    (\<forall>m. unat al dvd m \<longrightarrow> unat bytes \<le> m \<longrightarrow> unat (round_up bytes al) \<le> m)"
proof -
  have pos: "0 < unat al"
    using assms(1) by (simp add: unat_gt_0)
  note r = round_up_unat [OF assms]
  have least: "unat (round_up bytes al) \<le> m" if "unat al dvd m" "unat bytes \<le> m" for m
  proof -
    obtain c where c: "m = c * unat al"
      using \<open>unat al dvd m\<close> by (metis dvd_def mult.commute)
    have "(unat bytes + unat al - 1) div unat al * unat al < m + unat al"
      using ceil_less [OF pos, of "unat bytes"] that(2) by linarith
    then have "(unat bytes + unat al - 1) div unat al * unat al < (c + 1) * unat al"
      by (simp add: c)
    then have "(unat bytes + unat al - 1) div unat al \<le> c"
      by (metis Suc_eq_plus1 less_Suc_eq_le mult_less_cancel2)
    then show ?thesis
      unfolding r c by (rule mult_le_mono1)
  qed
  show ?thesis
    using least ceil_ge [OF pos, of "unat bytes"] by (simp add: r)
qed

theorem stride_least_multiple_witness:
  "unat (3145728 :: u64) \<le> unat (round_up 3145728 kAddressAlignment)"
proof -
  have "unat (3145728 :: u64) + unat kAddressAlignment \<le> 2 ^ 64"
    by (simp add: kAddressAlignment_unat)
  from stride_least_multiple [OF kAddressAlignment_nonzero this] show ?thesis
    by blast
qed

text \<open>A descriptor line is read back by the process that waits for its rank, with its handle,
  and by no other; a handle equal to the unset value is not accepted by anyone.\<close>

theorem descriptor_round_trip:
  "parse_desc q (desc_line r h) = (if q = r \<and> h \<noteq> kInvalid then Some h else None)"
  by (rule parse_desc_line)

end
