(* ===== verification/Demo_Main.thy ===== *)
theory Demo_Main
  imports Data_Strategy_Props
begin

text \<open>
  src/ucm_data_strategy/main.cpp: the command line of the demo and its one run. The exit code is
  the first component of the result; log lines (standard error) are left out, and so is the loop
  that only logs the addresses of the ranks' first slots. The arguments exclude \<open>argv[0]\<close>.
\<close>

subsection \<open>The command line\<close>

record options =
  opt_rank :: u64
  opt_ranks :: u64
  opt_device :: u64
  opt_slot_size :: u64
  opt_slots_per_rank :: u64
  opt_timeout_ms :: u64

definition default_options :: options where
  "default_options = \<lparr>opt_rank = 0, opt_ranks = 2, opt_device = 0, opt_slot_size = 8 * 1048576,
     opt_slots_per_rank = 256, opt_timeout_ms = 600 * 1000\<rparr>"

datatype parsed = Help | Rejected string | Accepted options

definition INT_MAX :: u64 where
  "INT_MAX = 2147483647"

definition SIZE_MAX :: u64 where
  "SIZE_MAX = - 1"

definition set_option :: "string \<Rightarrow> u64 \<Rightarrow> options \<Rightarrow> options option" where
  "set_option key v opts =
     (if key = ''--rank'' then Some (opts\<lparr>opt_rank := v\<rparr>)
      else if key = ''--ranks'' then Some (opts\<lparr>opt_ranks := v\<rparr>)
      else if key = ''--device'' then Some (opts\<lparr>opt_device := v\<rparr>)
      else if key = ''--slot-size'' then Some (opts\<lparr>opt_slot_size := v\<rparr>)
      else if key = ''--slots-per-rank'' then Some (opts\<lparr>opt_slots_per_rank := v\<rparr>)
      else if key = ''--timeout-ms'' then Some (opts\<lparr>opt_timeout_ms := v\<rparr>)
      else None)"

text \<open>The text of a value: decimal digits only, and within a \<open>size_t\<close>.\<close>

definition option_value :: "string \<Rightarrow> string \<Rightarrow> string + u64" where
  "option_value key txt =
     (if txt = [] \<or> \<not> only_digits txt
      then Inl (''expected an unsigned decimal integer for '' @ key)
      else case stoull txt of Inl (StdException what) \<Rightarrow> Inl what | Inl BadAlloc \<Rightarrow> Inl ''std::bad_alloc''
           | Inr v \<Rightarrow> Inr v)"

fun scan_args :: "string list \<Rightarrow> options \<Rightarrow> parsed" where
  "scan_args [] opts = Accepted opts"
| "scan_args [key] opts =
     (if key = ''--help'' then Help else Rejected (''missing value for '' @ key))"
| "scan_args (key # txt # rest) opts =
     (if key = ''--help'' then Help
      else case option_value key txt of
             Inl m \<Rightarrow> Rejected m
           | Inr v \<Rightarrow> (case set_option key v opts of
                 None \<Rightarrow> Rejected (''unknown option: '' @ key)
               | Some opts' \<Rightarrow> scan_args rest opts'))"

definition options_bad :: "options \<Rightarrow> bool" where
  "options_bad opts \<longleftrightarrow>
     opt_ranks opts = 0 \<or> opt_ranks opts > 128 \<or> opt_rank opts \<ge> opt_ranks opts \<or>
     opt_device opts > INT_MAX \<or> opt_slot_size opts = 0 \<or> opt_slots_per_rank opts = 0 \<or>
     opt_slots_per_rank opts > SIZE_MAX div opt_slot_size opts \<or>
     opt_slots_per_rank opts > SIZE_MAX div opt_ranks opts \<or>
     opt_timeout_ms opts > INT_MAX"

definition parse_args :: "string list \<Rightarrow> parsed" where
  "parse_args args =
     (case scan_args args default_options of
        Accepted opts \<Rightarrow>
          if options_bad opts then Rejected ''invalid rank, device, slot dimensions, or timeout''
          else Accepted opts
      | p \<Rightarrow> p)"

subsection \<open>The run\<close>

definition usage :: "string list" where
  "usage = [''Usage: data_strategy_demo [--rank 0] [--ranks 2] [--device 0]'',
     ''       [--slot-size 8388608] [--slots-per-rank 256] [--timeout-ms 600000]'',
     ''All numbers are decimal; slot-size is bytes. One process per invocation.'']"

definition cast_int32 :: "u64 \<Rightarrow> int" where
  "cast_int32 w = sint (ucast w :: 32 word)"

text \<open>The hold after a successful set-up: one line of the terminal, or its end.\<close>

definition hold_line :: "status \<Rightarrow> 'w sys \<Rightarrow> int \<times> 'w sys" where
  "hold_line st s =
     (if Failure st then (1, s)
      else case getline s of (None, s1) \<Rightarrow> (1, s1) | (Some _, s1) \<Rightarrow> (0, s1))"

definition run_demo :: "'w env \<Rightarrow> options \<Rightarrow> 'w sys \<Rightarrow> (int \<times> 'w sys) option" where
  "run_demo E opts s =
     (let (status, s1) = Device_Init E s
      in if Failure status then Some (1, s1)
         else case Setup E (CtrlLayout_new (opt_ranks opts) (opt_slots_per_rank opts))
                  (cast_int32 (opt_device opts)) (opt_rank opts) (opt_slot_size opts)
                  (opt_slots_per_rank opts) (opt_timeout_ms opts) DataStrategy_new s1 of
             None \<Rightarrow> None
           | Some (st, ds, s2) \<Rightarrow>
               (let (result, s3) = hold_line st s2;
                    (st4, s4) = Device_Finalize E (DataStrategy_destroy E ds s3)
                in Some (if Failure st4 then 1 else result, s4)))"

definition demo_main :: "'w env \<Rightarrow> string list \<Rightarrow> 'w sys \<Rightarrow> (int \<times> 'w sys) option" where
  "demo_main E args s =
     (case parse_args args of
        Help \<Rightarrow> Some (0, fold put_line usage s)
      | Rejected m \<Rightarrow> Some (2, s)
      | Accepted opts \<Rightarrow> run_demo E opts s)"

subsection \<open>Accepted arguments\<close>

lemma SIZE_MAX_unat: "unat SIZE_MAX = 2 ^ 64 - 1"
  by (simp add: SIZE_MAX_def unsigned_minus_1_eq_mask mask_eq_exp_minus_1)

lemma le_size_max_div:
  "k \<noteq> 0 \<Longrightarrow> unat n \<le> unat (SIZE_MAX div k) \<Longrightarrow> unat n * unat k < 2 ^ 64"
proof -
  assume "k \<noteq> 0" and "unat n \<le> unat (SIZE_MAX div k)"
  then have "unat n \<le> (2 ^ 64 - 1) div unat k"
    by (simp add: unat_div SIZE_MAX_unat)
  then have "unat n * unat k \<le> 2 ^ 64 - 1"
    using \<open>k \<noteq> 0\<close> by (meson div_times_less_eq_dividend le_trans mult_le_mono1)
  then show ?thesis by simp
qed

lemma accepted_bounds:
  assumes "\<not> options_bad opts"
  shows "unat (opt_rank opts) < unat (opt_ranks opts)" "unat (opt_ranks opts) \<le> 128"
    "unat (opt_device opts) \<le> 2147483647" "opt_slot_size opts \<noteq> 0" "opt_slots_per_rank opts \<noteq> 0"
    "unat (opt_slots_per_rank opts) * unat (opt_slot_size opts) < 2 ^ 64"
    "unat (opt_slots_per_rank opts) * unat (opt_ranks opts) < 2 ^ 64"
    "unat (opt_timeout_ms opts) \<le> 2147483647"
  using assms unfolding options_bad_def not_less not_le de_Morgan_disj
  using le_size_max_div [of "opt_slot_size opts" "opt_slots_per_rank opts"]
    le_size_max_div [of "opt_ranks opts" "opt_slots_per_rank opts"]
  by (simp_all add: INT_MAX_def word_le_nat_alt word_less_nat_alt not_less not_le)

lemma accepted_parse: "parse_args args = Accepted opts \<Longrightarrow> \<not> options_bad opts"
  by (auto simp: parse_args_def split: parsed.splits if_splits)

lemma accepted_ranks:
  assumes "\<not> options_bad opts"
  shows "SlotCount (CtrlLayout_new (opt_ranks opts) (opt_slots_per_rank opts)) div
    opt_slots_per_rank opts = opt_ranks opts"
proof -
  have "unat (opt_ranks opts * opt_slots_per_rank opts) =
      unat (opt_ranks opts) * unat (opt_slots_per_rank opts)"
    using accepted_bounds(7) [OF assms] by (simp add: unat_mult_no_wrap mult.commute)
  then have "unat (opt_ranks opts * opt_slots_per_rank opts div opt_slots_per_rank opts) =
      unat (opt_ranks opts)"
    using accepted_bounds(5) [OF assms] by (simp add: unat_div unat_gt_0)
  then show ?thesis
    by (simp add: SlotCount_def CtrlLayout_new_def word_unat_eq_iff)
qed

lemma accepted_device:
  assumes "\<not> options_bad opts"
  shows "cast_int32 (opt_device opts) = int (unat (opt_device opts))"
proof -
  have u: "unat (ucast (opt_device opts) :: 32 word) = unat (opt_device opts)"
    using accepted_bounds(3) [OF assms] by (simp add: unsigned_ucast_eq take_bit_nat_eq_self)
  then have "uint (ucast (opt_device opts) :: 32 word) = int (unat (opt_device opts))"
    by (metis uint_nat)
  moreover have "int (unat (opt_device opts)) \<le> int 2147483647"
    using accepted_bounds(3) [OF assms] by (rule zle_int [THEN iffD2])
  then have "int (unat (opt_device opts)) < 2 ^ 31"
    by (simp only: of_nat_numeral) simp
  moreover have "- (2 ^ 31) \<le> uint (opt_device opts)"
    by (rule order_trans [of _ 0]) simp_all
  ultimately show ?thesis
    unfolding cast_int32_def by (simp add: sint_uint signed_take_bit_int_eq_self)
qed

subsection \<open>The run\<close>

lemma hold_line_logs: "hold_line st s = (r, s') \<Longrightarrow> logs [] s s'"
  by (auto simp: hold_line_def split: if_splits prod.splits option.splits dest: getline_logs)

lemma hold_line_result:
  "hold_line st s = (r, s') \<Longrightarrow> (r = 0 \<or> r = 1) \<and>
     (r = 0 \<longrightarrow> Success st \<and> (\<exists>l. stdin_lines s = l # stdin_lines s') \<and>
       s' = s\<lparr>stdin_lines := stdin_lines s'\<rparr>)"
  by (auto simp: hold_line_def getline_def split: if_splits prod.splits option.splits list.splits)

lemma query_balanced:
  "balanced [(aclInit, ret, out)]" "balanced [(aclFinalize, ret, out)]"
  "acquiring [(aclInit, ret, out)]" "acquiring [(aclFinalize, ret, out)]"
  by (auto simp: balanced_def ledger_defs is_release_def)

text \<open>The parts of a run, named.\<close>

lemma run_demo_cases:
  assumes "run_demo E opts s = Some (code, s')"
  obtains (no_init) st0 ret out where "Device_Init E s = (st0, s')" "Failure st0" "emits [(aclInit, ret, out)] s s'" "ret \<noteq> 0" "code = 1"
  | (ran) st0 out s1 st ds s2 r s3 st4 fret fout where "Device_Init E s = (st0, s1)" "Success st0"
      "emits [(aclInit, 0, out)] s s1"
      "Setup E (CtrlLayout_new (opt_ranks opts) (opt_slots_per_rank opts))
         (cast_int32 (opt_device opts)) (opt_rank opts) (opt_slot_size opts)
         (opt_slots_per_rank opts) (opt_timeout_ms opts) DataStrategy_new s1 = Some (st, ds, s2)"
      "hold_line st s2 = (r, s3)"
      "Device_Finalize E (DataStrategy_destroy E ds s3) = (st4, s')" "Success st4 \<longleftrightarrow> fret = 0"
      "emits [(aclFinalize, fret, fout)] (DataStrategy_destroy E ds s3) s'"
      "code = (if fret = 0 then r else 1)"
proof -
  obtain st0 s1 where i: "Device_Init E s = (st0, s1)" by fastforce
  obtain ret out where e: "emits [(aclInit, ret, out)] s s1" "Success st0 \<longleftrightarrow> ret = 0"
    using Device_Init_spec [OF i] by blast
  show ?thesis
  proof (cases "Success st0")
    case False
    then have "code = 1 \<and> s' = s1"
      using assms i by (simp add: run_demo_def)
    with i e False show ?thesis by (auto intro: no_init)
  next
    case True
    then obtain st ds s2 where su: "Setup E (CtrlLayout_new (opt_ranks opts) (opt_slots_per_rank opts))
         (cast_int32 (opt_device opts)) (opt_rank opts) (opt_slot_size opts)
         (opt_slots_per_rank opts) (opt_timeout_ms opts) DataStrategy_new s1 = Some (st, ds, s2)"
      using assms i by (auto simp: run_demo_def split: option.splits)
    obtain r s3 where h: "hold_line st s2 = (r, s3)" by fastforce
    obtain st4 s4 where f: "Device_Finalize E (DataStrategy_destroy E ds s3) = (st4, s4)" by fastforce
    obtain fret fout where g: "emits [(aclFinalize, fret, fout)] (DataStrategy_destroy E ds s3) s4"
      "Success st4 \<longleftrightarrow> fret = 0"
      using Device_Finalize_spec [OF f] by blast
    have "code = (if fret = 0 then r else 1) \<and> s' = s4"
      using assms i True su h f g by (auto simp: run_demo_def)
    then show ?thesis
      using ran [OF i True _ su h _ g(2)] e f g True by auto
  qed
qed

lemma run_demo_trace:
  assumes "run_demo E opts s = Some (code, s')"
  shows "\<exists>ev. trace s' = trace s @ ev \<and> balanced ev \<and> sound_trace ev \<and>
    ((\<exists>ret out. ev = [(aclInit, ret, out)] \<and> ret \<noteq> 0) \<or>
     (\<exists>out mid fret fout. ev = (aclInit, 0, out) # mid @ [(aclFinalize, fret, fout)]))"
  using assms
proof (cases rule: run_demo_cases)
  case (no_init st0 ret out)
  then show ?thesis
    using query_balanced acquiring_staged [THEN staged_sound]
    by (intro exI [of _ "[(aclInit, ret, out)]"]) (auto simp: emits_def)
next
  case (ran st0 out s1 st ds s2 r s3 st4 fret fout)
  obtain ev where ev: "logs ev s1 (DataStrategy_destroy E ds s3)" "balanced ev" "sound_trace ev"
    using life_balanced [OF ran(4) clean_new hold_line_logs [OF ran(5)]] by blast
  let ?a = "[(aclInit, 0, out)]" and ?z = "[(aclFinalize, fret, fout)]"
  have "logs (?a @ ev @ ?z) s s'"
    by (rule logs_trans [OF emits_logs [OF ran(3)] logs_trans [OF ev(1) emits_logs [OF ran(8)]]])
  moreover have "balanced (?a @ ev @ ?z)"
    by (intro balanced_append query_balanced ev(2))
  moreover have "sound_trace (?a @ ev)"
    by (rule sound_prefix [OF staged_sound [OF acquiring_staged] query_balanced(1) ev(3)])
      (rule query_balanced)
  then have "sound_trace ((?a @ ev) @ ?z)"
    by (rule sound_acquiring) (rule query_balanced)
  ultimately show ?thesis
    by (intro exI [of _ "?a @ ev @ ?z"]) (simp add: logs_def)
qed

text \<open>
  A steady clock that has run for less than \<open>2 ^ 62\<close> nanoseconds (146 years) at its next reading
  leaves room for every timeout the command line accepts.
\<close>

lemma accepted_deadline:
  assumes "\<not> options_bad opts" and "clk s + clock_step E (ticks s) < 2 ^ 62"
  shows "deadline_fits E (opt_timeout_ms opts) s"
  using assms(2) accepted_bounds(8) [OF assms(1)] by (simp add: deadline_fits_def poll_pause_def)

lemma run_demo_defined:
  assumes "granularity_fits E" and "\<not> options_bad opts"
    and clock: "clk s + clock_step E (ticks s) < 2 ^ 62"
  shows "\<exists>code s'. run_demo E opts s = Some (code, s')"
proof -
  obtain st0 s1 where i: "Device_Init E s = (st0, s1)" by fastforce
  obtain ret out where "emits [(aclInit, ret, out)] s s1"
    using Device_Init_spec [OF i] by blast
  then have fits: "deadline_fits E (opt_timeout_ms opts) s1"
    using clock by (intro accepted_deadline [OF assms(2)]) (simp add: emits_def)
  have "unat (opt_rank opts) < unat (SlotCount (CtrlLayout_new (opt_ranks opts)
      (opt_slots_per_rank opts)) div opt_slots_per_rank opts)"
    using accepted_bounds(1) [OF assms(2)] by (simp add: accepted_ranks [OF assms(2)])
  from Setup_defined [OF assms(1) accepted_bounds(5) [OF assms(2)] this fits data_object.constructed]
  obtain st ds s2 where "Setup E (CtrlLayout_new (opt_ranks opts) (opt_slots_per_rank opts))
         (cast_int32 (opt_device opts)) (opt_rank opts) (opt_slot_size opts)
         (opt_slots_per_rank opts) (opt_timeout_ms opts) DataStrategy_new s1 = Some (st, ds, s2)"
    by (metis option.exhaust_sel prod_cases3)
  then show ?thesis
    by (auto simp: run_demo_def i split: prod.split)
qed

lemma run_demo_code: "run_demo E opts s = Some (code, s') \<Longrightarrow> code = 0 \<or> code = 1"
  by (elim run_demo_cases) (auto dest: hold_line_result split: if_splits)

text \<open>The command line of given options\<close>

definition option_args :: "options \<Rightarrow> string list" where
  "option_args opts =
     [''--rank'', to_string_u64 (opt_rank opts), ''--ranks'', to_string_u64 (opt_ranks opts),
      ''--device'', to_string_u64 (opt_device opts),
      ''--slot-size'', to_string_u64 (opt_slot_size opts),
      ''--slots-per-rank'', to_string_u64 (opt_slots_per_rank opts),
      ''--timeout-ms'', to_string_u64 (opt_timeout_ms opts)]"

lemma option_value_printed [simp]: "option_value key (to_string_u64 v) = Inr v"
  by (simp add: option_value_def to_string_u64_digits)

lemma scan_args_step:
  assumes "set_option key v opts = Some opts'" and "key \<noteq> ''--help''"
  shows "scan_args (key # to_string_u64 v # rest) opts = scan_args rest opts'"
  using assms by simp

lemma scan_option_args: "scan_args (option_args opts) init = Accepted opts"
  by (simp add: option_args_def set_option_def)

subsection \<open>Properties\<close>

text \<open>C33. The demo returns for every command line, driver and terminal input, without undefined
  behaviour, when the driver's granularities are usable and the steady clock, at its next reading, has run for
  less than \<open>2 ^ 62\<close> nanoseconds; its exit code is 0, 1 or 2, and it is 2 exactly when the arguments
  are rejected, before any call of the driver and any terminal input.\<close>

theorem demo_returns:
  assumes "granularity_fits E" and "clk s + clock_step E (ticks s) < 2 ^ 62"
  shows "\<exists>code s'. demo_main E args s = Some (code, s') \<and> code \<in> {0, 1, 2} \<and>
    (code = 2) = (\<exists>m. parse_args args = Rejected m) \<and> (s' = s \<or> code \<noteq> 2)"
proof (cases "parse_args args")
  case (Accepted opts)
  obtain code s' where r: "run_demo E opts s = Some (code, s')"
    using run_demo_defined [OF assms(1) accepted_parse [OF Accepted] assms(2)] by blast
  then show ?thesis
    using run_demo_code [OF r] Accepted by (auto simp: demo_main_def)
qed (auto simp: demo_main_def)

theorem demo_returns_witness:
  "\<exists>code s'. demo_main (example_env no_huge) [''--rank'', ''1''] (example_sys []) = Some (code, s') \<and>
     code \<in> {0, 1, 2}"
  by (rule exE [OF demo_returns [OF example_granularity, of "example_sys []"]]) auto

text \<open>C10. Whatever happens, a run of the demo gives back everything it obtained from the driver,
  each thing once and none before it was obtained; \<open>aclInit\<close> comes first, and when it succeeded
  \<open>aclFinalize\<close> comes last, after all releases.\<close>

theorem demo_trace:
  assumes "demo_main E args s = Some (code, s')"
  shows "\<exists>ev. trace s' = trace s @ ev \<and> balanced ev \<and> sound_trace ev \<and>
    (ev = [] \<or> (\<exists>ret out. ev = [(aclInit, ret, out)] \<and> ret \<noteq> 0) \<or>
     (\<exists>out mid fret fout. ev = (aclInit, 0, out) # mid @ [(aclFinalize, fret, fout)]))"
proof (cases "parse_args args")
  case (Accepted opts)
  then show ?thesis
    using run_demo_trace [of E opts s code s'] assms by (auto simp: demo_main_def)
next
  case Help
  then have "trace s' = trace s"
    using assms by (auto simp: demo_main_def usage_def put_line_def)
  then show ?thesis
    by (intro exI [of _ "[]"]) simp
next
  case (Rejected m)
  then have "trace s' = trace s"
    using assms by (simp add: demo_main_def)
  then show ?thesis
    by (intro exI [of _ "[]"]) simp
qed

theorem demo_trace_witness:
  "\<exists>code s'. demo_main (example_env no_failure) [''--device'', ''3''] (example_sys []) = Some (code, s') \<and>
     balanced (trace s')"
proof -
  have "parse_args [''--device'', ''3''] = Accepted (default_options\<lparr>opt_device := 3\<rparr>)"
    by (simp add: parse_args_def set_option_def default_options_def options_bad_def option_value_def
        parse_eval INT_MAX_def SIZE_MAX_def word_le_nat_alt word_less_nat_alt unat_div
        unsigned_minus_1_eq_mask mask_eq_exp_minus_1)
  then obtain code s' where r: "demo_main (example_env no_failure) [''--device'', ''3''] (example_sys []) =
      Some (code, s')"
    using run_demo_defined [OF example_granularity accepted_parse, of _ _ "example_sys []"]
    by (fastforce simp: demo_main_def)
  show ?thesis
    using demo_trace [OF r] r by auto
qed

text \<open>C38. A run that exits with 0 did all it should, one step from the state the step before left:
  \<open>Device_Init\<close>, called first, succeeded; \<open>Setup\<close> of a new object, with the options of the command
  line, succeeded after it; then the terminal line that ends the hold was read; then the object was
  destroyed, and \<open>Device_Finalize\<close> succeeded last.\<close>

theorem demo_exit_zero:
  assumes "demo_main E args s = Some (0, s')" and "parse_args args = Accepted opts"
  shows "\<exists>st0 s1 st ds s2 line st4. Device_Init E s = (st0, s1) \<and> Success st0 \<and>
    Setup E (CtrlLayout_new (opt_ranks opts) (opt_slots_per_rank opts))
      (int (unat (opt_device opts))) (opt_rank opts) (opt_slot_size opts) (opt_slots_per_rank opts)
      (opt_timeout_ms opts) DataStrategy_new s1 = Some (st, ds, s2) \<and> Success st \<and>
    stdin_lines s2 = line # stdin_lines s' \<and>
    Device_Finalize E (DataStrategy_destroy E ds (s2\<lparr>stdin_lines := stdin_lines s'\<rparr>)) = (st4, s') \<and>
    Success st4 \<and> fst (last (trace s')) = aclFinalize \<and> fst (snd (last (trace s'))) = 0"
proof -
  have "run_demo E opts s = Some (0, s')"
    using assms by (simp add: demo_main_def)
  then show ?thesis
  proof (cases rule: run_demo_cases)
    case (ran st0 out s1 st ds s2 r s3 st4 fret fout)
    have z: "r = 0" "fret = 0"
      using ran(9) by (auto split: if_splits)
    obtain line where "Success st" "stdin_lines s2 = line # stdin_lines s3"
      and s3: "s3 = s2\<lparr>stdin_lines := stdin_lines s3\<rparr>"
      using hold_line_result [OF ran(5)] z by auto
    moreover have "stdin_lines (DataStrategy_destroy E ds s3) = stdin_lines s3"
      using destroy_accounts [of s3 E ds] by (auto simp: emits_def)
    moreover have "stdin_lines s' = stdin_lines (DataStrategy_destroy E ds s3)"
      "last (trace s') = (aclFinalize, 0, fout)"
      using ran(8) z by (simp_all add: emits_def)
    moreover from this calculation have "Device_Finalize E (DataStrategy_destroy E ds
        (s2\<lparr>stdin_lines := stdin_lines s'\<rparr>)) = (st4, s')"
      using ran(6) by simp
    ultimately show ?thesis
      using ran(1,2,4,7) z accepted_device [OF accepted_parse [OF assms(2)]]
      by (intro exI [of _ st0] exI [of _ s1] exI [of _ st] exI [of _ ds] exI [of _ s2]
          exI [of _ line] exI [of _ st4]) simp
  qed simp
qed

lemma example_args:
  "parse_args [''--slot-size'', ''4096'', ''--slots-per-rank'', ''4'', ''--timeout-ms'', ''1000''] =
     Accepted \<lparr>opt_rank = 0, opt_ranks = 2, opt_device = 0, opt_slot_size = 4096,
       opt_slots_per_rank = 4, opt_timeout_ms = 1000\<rparr>"
  by (simp add: parse_args_def set_option_def default_options_def options_bad_def option_value_def
      parse_eval INT_MAX_def SIZE_MAX_def word_le_nat_alt word_less_nat_alt unat_div
      unsigned_minus_1_eq_mask mask_eq_exp_minus_1)

lemma example_init_finalize:
  "Device_Init (example_env no_failure) s = (Status_OK, s\<lparr>trace := trace s @ [(aclInit, 0, 0)]\<rparr>)"
  "Device_Finalize (example_env no_failure) s = (Status_OK, s\<lparr>trace := trace s @ [(aclFinalize, 0, 0)]\<rparr>)"
  by (simp_all add: Device_Init_def Device_Finalize_def call_def example_driver_def ACL_SUCCESS_def)

lemma example_run:
  "\<exists>s'. demo_main (example_env no_failure)
     [''--slot-size'', ''4096'', ''--slots-per-rank'', ''4'', ''--timeout-ms'', ''1000'']
     (example_sys example_input) = Some (0, s')"
  by (simp add: demo_main_def example_args run_demo_def example_init_finalize cast_int32_def
      example_setup_from hold_line_def getline_def flip: example_ctrl_def split: prod.split)

theorem demo_exit_zero_witness:
  "\<exists>s'. demo_main (example_env no_failure)
     [''--slot-size'', ''4096'', ''--slots-per-rank'', ''4'', ''--timeout-ms'', ''1000'']
     (example_sys example_input) = Some (0, s') \<and> fst (last (trace s')) = aclFinalize"
  using example_run demo_exit_zero [OF _ example_args] by blast

text \<open>The arguments the demo goes on with are within the bounds the data strategy computes in:
  the rank is below the number of ranks, at most 128; a rank's data and the number of slots are
  \<open>size_t\<close> values without wrap-around; the device number survives the cast to \<open>int32_t\<close>; and the
  control block has exactly the given number of ranks.\<close>

theorem accepted_options:
  assumes "parse_args args = Accepted opts"
  shows "unat (opt_rank opts) < unat (opt_ranks opts) \<and> unat (opt_ranks opts) \<le> 128 \<and>
    unat (opt_slot_size opts * opt_slots_per_rank opts) =
      unat (opt_slot_size opts) * unat (opt_slots_per_rank opts) \<and>
    unat (SlotCount (CtrlLayout_new (opt_ranks opts) (opt_slots_per_rank opts))) =
      unat (opt_ranks opts) * unat (opt_slots_per_rank opts) \<and>
    cast_int32 (opt_device opts) = int (unat (opt_device opts)) \<and>
    SlotCount (CtrlLayout_new (opt_ranks opts) (opt_slots_per_rank opts)) div
      opt_slots_per_rank opts = opt_ranks opts"
proof -
  have ok: "\<not> options_bad opts"
    using assms by (rule accepted_parse)
  show ?thesis
    using accepted_bounds [OF ok] accepted_ranks [OF ok] accepted_device [OF ok]
    by (simp add: unat_mult_no_wrap mult.commute SlotCount_def CtrlLayout_new_def)
qed

theorem accepted_options_witness:
  "cast_int32 0 = 0 \<and> SlotCount (CtrlLayout_new 2 4) div 4 = 2"
  using accepted_options [OF example_args] by simp

text \<open>C39. The command line of any options within the bounds is read back as those options.\<close>

theorem option_round_trip:
  "parse_args (option_args opts) = (if options_bad opts
     then Rejected ''invalid rank, device, slot dimensions, or timeout'' else Accepted opts)"
  by (simp add: parse_args_def scan_option_args)

end
