(* ===== verification/Demo_Stride.thy ===== *)
theory Demo_Stride
  imports Demo_Main "HOL-Library.Sublist"
begin

text \<open>
  What the demo does with command lines whose data size leaves no room for the rounding up to the
  stride: it passes every check of the arguments, and the stride wraps around to 0. The calls are
  followed from \<open>main\<close> down to the reservation of the own address range.
\<close>

subsection \<open>Rounding up near the end of the range\<close>

lemma round_up_wraps:
  assumes "2 ^ 64 - 2 ^ 30 < unat bytes"
  shows "round_up bytes kAddressAlignment = 0"
proof -
  have "unat (bytes + (kAddressAlignment - 1)) = (unat bytes + (2 ^ 30 - 1)) mod 2 ^ 64"
    by (simp add: unat_word_ariths(1) kAddressAlignment_def)
  moreover have "unat bytes < 2 ^ 64"
    by (rule unat_u64_bound)
  ultimately have "unat (bytes + (kAddressAlignment - 1)) < 2 ^ 30"
    using assms by (simp add: mod_if) linarith
  then have "(bytes + (kAddressAlignment - 1)) div kAddressAlignment = 0"
    by (simp add: word_unat_eq_iff unat_div kAddressAlignment_unat)
  then show ?thesis
    by (simp add: round_up_def add_diff_eq)
qed

subsection \<open>The first calls\<close>

text \<open>
  A driver that starts up and reports a granularity that divides the address alignment, as every
  power of two up to 1 GiB does. Nothing is assumed of its other calls.
\<close>

definition starts_up :: "'w env \<Rightarrow> bool" where
  "starts_up E \<longleftrightarrow> (\<forall>w. fst (native_fn E aclInit w) = 0) \<and>
     (\<forall>d w. fst (native_fn E (aclrtSetDevice d) w) = 0) \<and>
     (\<forall>pt w. case native_fn E (halMemGetAllocationGranularity 0 (HostMemoryProp pt)) w of
        (ret, g, _) \<Rightarrow> ret = 0 \<and> g \<noteq> 0 \<and> unat g dvd 2 ^ 30)"

lemma starts_up_lcm:
  assumes "unat g dvd 2 ^ 30"
  shows "std_lcm kAddressAlignment g = Some kAddressAlignment"
proof -
  have "lcm (unat kAddressAlignment) (unat g) = unat kAddressAlignment"
    using assms by (simp add: kAddressAlignment_unat lcm_proj1_if_dvd_nat)
  then show ?thesis
    using unat_u64_bound [of kAddressAlignment] by (simp add: std_lcm_def)
qed

text \<open>\<open>starts E k ev s s'\<close>: the calls from one state to the other begin with these calls.\<close>

definition starts :: "native list \<Rightarrow> 'w sys \<Rightarrow> 'w sys \<Rightarrow> bool" where
  "starts cs s s' \<longleftrightarrow> (\<exists>ev. trace s' = trace s @ ev \<and> prefix cs (map fst ev))"

lemma starts_logs: "starts cs s s1 \<Longrightarrow> logs ev s1 s' \<Longrightarrow> starts cs s s'"
  by (auto simp: starts_def logs_def)

lemma starts_after: "logs ev s s1 \<Longrightarrow> starts cs s1 s' \<Longrightarrow> starts (map fst ev @ cs) s s'"
  by (auto simp: starts_def logs_def)

lemma starts_emits: "emits ev s s' \<Longrightarrow> prefix cs (map fst ev) \<Longrightarrow> starts cs s s'"
  by (auto simp: starts_def emits_def)

lemma ReserveRankAddress_starts:
  assumes "ReserveRankAddress E r ds s = (st, ds', s')"
  shows "starts [halMemAddressReserve (addr (mappings ds ! r)) (rankStride ds) 0 0 0] s s'"
  using assms
  by (auto simp: ReserveRankAddress_def MemAddressReserve_def call_def starts_def Let_def
      split: prod.splits if_splits)

lemma MapLocal_starts:
  assumes "MapLocal E pt ds s = (st, ds', s')" and "addr (mappings ds ! unat (owner ds)) = 0"
  shows "starts [halMemAddressReserve 0 (rankStride ds) 0 0 0] s s'"
proof -
  obtain st1 ds1 s1 where 1: "ReserveRankAddress E (unat (owner ds)) ds s = (st1, ds1, s1)"
    by (rule prod_cases3)
  have "starts [halMemAddressReserve 0 (rankStride ds) 0 0 0] s s1"
    using ReserveRankAddress_starts [OF 1] assms(2) by simp
  moreover have "\<exists>ev. logs ev s1 s'"
  proof -
    let ?own = "unat (owner ds)"
    obtain st2 h s2 where 2: "MemCreate E (handle (mappings ds1 ! ?own)) (rankStride ds1) pt s1 = (st2, h, s2)"
      by (rule prod_cases3)
    define ds2 where "ds2 = set_entry ?own (\<lambda>m. m\<lparr>handle := h\<rparr>) ds1"
    obtain st3 s3 where 3: "MemMap E (addr (mappings ds2 ! ?own)) (rankStride ds2)
        (handle (mappings ds2 ! ?own)) s2 = (st3, s3)" by fastforce
    obtain e2 e3 where "emits e2 s1 s2" "emits e3 s2 s3"
      using MemCreate_spec [OF 2] MemMap_spec [OF 3] by blast
    then have "logs [] s1 s1" "logs e2 s1 s2" "logs (e2 @ e3) s1 s3"
      by (simp_all add: emits_logs logs_trans [OF emits_logs emits_logs])
    moreover have "snd (snd (MapLocal E pt ds s)) =
        (if Failure st1 then s1 else if Failure st2 then s2 else s3)"
      by (simp add: MapLocal_def 1 2 3 flip: ds2_def)
    then have "s' = s1 \<or> s' = s2 \<or> s' = s3"
      unfolding assms(1) by (simp split: if_splits)
    ultimately show ?thesis
      by blast
  qed
  ultimately show ?thesis
    by (blast intro: starts_logs)
qed

lemma LocalSetup_starts:
  assumes "LocalSetup E bytes k pt ds s = Some (r, ds', s')" and "starts_up E"
    and "mappings ds = []" and "can_alloc E (unat k)" and "unat k \<le> 128" and "unat (owner ds) < unat k"
  shows "starts [halMemGetAllocationGranularity 0 (HostMemoryProp pt),
    halMemAddressReserve 0 (round_up bytes kAddressAlignment) 0 0 0] s s'"
proof -
  let ?q = "halMemGetAllocationGranularity 0 (HostMemoryProp pt)"
  obtain ret g w where c: "native_fn E ?q (drv s) = (ret, g, w)"
    by (rule prod_cases3)
  have "case native_fn E ?q (drv s) of (ret, g, _) \<Rightarrow> ret = 0 \<and> g \<noteq> 0 \<and> unat g dvd 2 ^ 30"
    using assms(2) by (simp only: starts_up_def)
  then have q: "native_fn E ?q (drv s) = (0, g, w)" and g: "g \<noteq> 0" "unat g dvd 2 ^ 30"
    by (simp_all add: c)
  define s0 where "s0 = s\<lparr>drv := w, trace := trace s @ [(?q, 0, g)]\<rparr>"
  have 0: "MemGetAllocationGranularity E pt 0 s = (Status_OK, g, s0)"
    by (simp add: MemGetAllocationGranularity_def call_def q s0_def FromHalError_def DRV_ERROR_NONE_def)
  let ?ms = "replicate (unat k) MappingEntry_default"
  let ?ds = "ds\<lparr>rankStride := round_up bytes kAddressAlignment, mappings := ?ms\<rparr>"
  have v: "vector_resize E MappingEntry_size (unat k) MappingEntry_default [] = Inr ?ms"
    using assms(4,5) by (simp add: vector_resize_def vector_max_size_def MappingEntry_size_def)
  obtain st ds1 s1 where m: "MapLocal E pt ?ds s0 = (st, ds1, s1)"
    by (rule prod_cases3)
  have "s' = s1"
    using assms(1,3,6) m v by (auto simp: LocalSetup_def Let_def 0 g(1) starts_up_lcm [OF g(2)])
  moreover have "starts [halMemAddressReserve 0 (round_up bytes kAddressAlignment) 0 0 0] s0 s1"
    using MapLocal_starts [OF m] assms(6) by (simp add: MappingEntry_default_def)
  ultimately show ?thesis
    using starts_after [of "[(?q, 0, g)]" s s0] by (simp add: logs_def s0_def)
qed

lemma SetupLocal_starts:
  assumes "SetupLocal E ctrl b n ds s = Some (r, ds', s')" and "starts_up E" and "mappings ds = []"
    and "SlotCount ctrl div n = k" and "can_alloc E (unat k)" and "unat k \<le> 128"
    and "unat (owner ds) < unat k"
  shows "starts [halMemGetAllocationGranularity 0 (HostMemoryProp Huge),
    halMemAddressReserve 0 (round_up (b * n) kAddressAlignment) 0 0 0] s s'"
proof -
  obtain r1 ds1 s1 where 1: "LocalSetup E (b * n) k Huge ds s = Some (r1, ds1, s1)"
    using assms(1,4) by (auto simp: SetupLocal_def Let_def split: if_splits option.splits)
  note first = LocalSetup_starts [OF 1 assms(2,3,5-7)]
  obtain ds2 s2 where 2: "Reset E ds1 s1 = (ds2, s2)" by fastforce
  obtain e2 where e2: "emits e2 s1 s2" and empty: "mappings ds2 = []"
    using Reset_accounts [OF 2] by auto
  have "\<exists>ev. logs ev s1 s'"
  proof (cases "\<exists>st. r1 = Inr st \<and> Failure st")
    case True
    then have "LocalSetup E (b * n) k Normal ds2 s2 = Some (r, ds', s')"
      using assms(1,4) 1 2 by (auto simp: SetupLocal_def Let_def split: if_splits)
    from LocalSetup_spec [OF this empty] show ?thesis
      using emits_logs [OF e2] by (blast dest: emits_logs intro: logs_trans)
  next
    case False
    then have "s' = s1"
      using assms(1,4) 1 by (cases r1) (auto simp: SetupLocal_def Let_def split: if_splits)
    then show ?thesis
      using logs_refl by blast
  qed
  with first show ?thesis
    by (blast intro: starts_logs)
qed

text \<open>The calls a run of \<open>Setup\<close> on an empty object begins with\<close>

lemma Setup_starts:
  assumes "Setup E ctrl d k b n tmo ds s = Some (st, ds', s')" and "clean_object ds" and "starts_up E"
    and "0 \<le> d" and "SlotCount ctrl div n = ranks" and "can_alloc E (unat ranks)"
    and "unat ranks \<le> 128" and "unat k < unat ranks"
  shows "starts [aclrtSetDevice d, halMemGetAllocationGranularity 0 (HostMemoryProp Huge),
    halMemAddressReserve 0 (round_up (b * n) kAddressAlignment) 0 0 0] s s'"
proof -
  define ds0 where "ds0 = ds\<lparr>owner := k, deviceId := d\<rparr>"
  have empty: "mappings ds0 = []"
    using assms(2) by (simp add: ds0_def clean_object_def)
  obtain r ds1 s1 where 1: "SetupBody E ctrl b n tmo ds0 s = Some (r, ds1, s1)"
    using assms(1,2) by (auto simp: Setup_def clean_object_def ds0_def split: option.splits)
  obtain out w where o: "native_fn E (aclrtSetDevice d) (drv s) = (0, out, w)"
    using assms(3) by (metis fst_conv prod_cases3 starts_up_def)
  define s0 where "s0 = s\<lparr>drv := w, trace := trace s @ [(aclrtSetDevice d, 0, out)]\<rparr>"
  have 0: "Device_Setup E (deviceId ds0) s = (Status_OK, s0)"
    using assms(4) o by (simp add: Device_Setup_def call_def s0_def ds0_def ACL_SUCCESS_def)
  obtain r2 ds2 s2 where 2: "SetupLocal E ctrl b n ds0 s0 = Some (r2, ds2, s2)"
    using 0 1 by (auto simp: SetupBody_def split: option.splits)
  have "starts [halMemGetAllocationGranularity 0 (HostMemoryProp Huge),
      halMemAddressReserve 0 (round_up (b * n) kAddressAlignment) 0 0 0] s0 s2"
    using assms by (intro SetupLocal_starts [OF 2 _ empty]) (simp_all add: ds0_def)
  moreover have "\<exists>ev. logs ev s2 s1"
  proof (cases "\<exists>st. r2 = Inr st \<and> Success st")
    case True
    then have "CrossRankSetup E ctrl tmo ds2 s2 = Some (r, ds1, s1)" and "local_ready ds2"
      using 0 1 2 SetupLocal_spec [OF 2 empty] by (auto simp: SetupBody_def)
    from CrossRankSetup_spec [OF this] show ?thesis
      by blast
  next
    case False
    then have "s1 = s2"
      using 0 1 2 by (cases r2) (auto simp: SetupBody_def)
    then show ?thesis
      using logs_refl by blast
  qed
  ultimately have "starts [halMemGetAllocationGranularity 0 (HostMemoryProp Huge),
      halMemAddressReserve 0 (round_up (b * n) kAddressAlignment) 0 0 0] s0 s1"
    by (blast intro: starts_logs)
  moreover have "\<exists>ev. logs ev s1 s'"
  proof (cases "Failure (caught r)")
    case True
    obtain ds3 s3 where 3: "Reset E ds1 s1 = (ds3, s3)" by fastforce
    then have "s' = s3"
      using assms(1,2) 1 True by (simp add: Setup_def clean_object_def ds0_def)
    then show ?thesis
      using Reset_accounts [OF 3] emits_logs by blast
  next
    case False
    then have "s' = s1"
      using assms(1,2) 1 by (simp add: Setup_def clean_object_def ds0_def)
    then show ?thesis
      using logs_refl by blast
  qed
  ultimately show ?thesis
    using starts_after [of "[(aclrtSetDevice d, 0, out)]" s s0]
    by (auto simp: logs_def s0_def dest: starts_logs)
qed

subsection \<open>The stride that wraps\<close>

text \<open>C40. A command line whose data size per rank is within \<open>2 ^ 30\<close> bytes of the end of \<open>size_t\<close>
  passes every check, and the demo then asks the driver for 0 bytes: on every driver that starts
  up and reports a granularity dividing 1 GiB, and whatever it answers from then on, the calls of
  the run begin with \<open>aclInit\<close>, the selection of the device, the query of the granularity and a
  reservation of 0 bytes, because the rounding up to the stride has wrapped around.\<close>

theorem accepted_stride_wraps:
  assumes "parse_args args = Accepted opts"
    and "2 ^ 64 - 2 ^ 30 < unat (opt_slot_size opts) * unat (opt_slots_per_rank opts)"
    and "starts_up E" and "can_alloc E (unat (opt_ranks opts))"
    and "demo_main E args s = Some (code, s')"
  shows "\<exists>ev. trace s' = trace s @ ev \<and>
    prefix [aclInit, aclrtSetDevice (int (unat (opt_device opts))),
      halMemGetAllocationGranularity 0 (HostMemoryProp Huge), halMemAddressReserve 0 0 0 0 0] (map fst ev)"
proof -
  let ?cs = "[aclrtSetDevice (int (unat (opt_device opts))),
    halMemGetAllocationGranularity 0 (HostMemoryProp Huge), halMemAddressReserve 0 0 0 0 0]"
  have ok: "\<not> options_bad opts"
    using assms(1) by (rule accepted_parse)
  note bounds = accepted_bounds [OF ok] and dev = accepted_device [OF ok]
  have "unat (opt_slot_size opts * opt_slots_per_rank opts) =
      unat (opt_slot_size opts) * unat (opt_slots_per_rank opts)"
    using bounds(6) by (simp add: unat_mult_no_wrap mult.commute)
  then have wrap: "round_up (opt_slot_size opts * opt_slots_per_rank opts) kAddressAlignment = 0"
    using assms(2) by (intro round_up_wraps) simp
  have init: "fst (native_fn E aclInit (drv s)) = 0"
    using assms(3) by (simp add: starts_up_def)
  have "run_demo E opts s = Some (code, s')"
    using assms(1,5) by (simp add: demo_main_def)
  then have "starts (aclInit # ?cs) s s'"
  proof (cases rule: run_demo_cases)
    case (no_init st0 ret out)
    then show ?thesis
      using init by (auto simp: Device_Init_def call_def ACL_SUCCESS_def split: prod.splits)
  next
    case (ran st0 out s1 st ds s2 r s3 st4 fret fout)
    have "starts ?cs s1 s2"
      using Setup_starts [OF ran(4) clean_new assms(3) _ accepted_ranks [OF ok] assms(4) bounds(2,1)]
      by (simp add: dev wrap)
    moreover have "logs [] s2 s3"
      using ran(5) by (rule hold_line_logs)
    moreover obtain ev where "logs ev s3 (DataStrategy_destroy E ds s3)"
      using destroy_accounts emits_logs by blast
    ultimately have "starts ?cs s1 s'"
      using emits_logs [OF ran(8)] by (blast intro: starts_logs)
    then show ?thesis
      using starts_after [OF emits_logs [OF ran(3)]] by simp
  qed
  then show ?thesis
    by (simp add: starts_def)
qed

lemma example_starts_up: "starts_up (example_env no_failure)"
proof -
  have "(2097152 :: nat) dvd 1073741824"
    by (simp add: dvd_def)
  then show ?thesis
    by (simp add: starts_up_def example_driver_def)
qed

lemma example_wrapping_args:
  "parse_args [''--ranks'', ''1'', ''--slot-size'', ''1'',
       ''--slots-per-rank'', ''18446744073709551615''] =
     Accepted (default_options\<lparr>opt_ranks := 1, opt_slot_size := 1, opt_slots_per_rank := - 1\<rparr>)"
  by (simp add: parse_args_def set_option_def default_options_def options_bad_def option_value_def
      parse_eval INT_MAX_def SIZE_MAX_def word_le_nat_alt word_less_nat_alt unat_div
      unsigned_minus_1_eq_mask mask_eq_exp_minus_1)

theorem accepted_stride_wraps_witness:
  "\<exists>code s'. demo_main (example_env no_failure) [''--ranks'', ''1'', ''--slot-size'', ''1'',
       ''--slots-per-rank'', ''18446744073709551615''] (example_sys []) = Some (code, s') \<and>
     halMemAddressReserve 0 0 0 0 0 \<in> fst ` set (trace s')"
proof -
  let ?opts = "default_options\<lparr>opt_ranks := 1, opt_slot_size := 1, opt_slots_per_rank := - 1\<rparr>"
  obtain code s' where r: "demo_main (example_env no_failure) [''--ranks'', ''1'', ''--slot-size'', ''1'',
      ''--slots-per-rank'', ''18446744073709551615''] (example_sys []) = Some (code, s')"
    using run_demo_defined [OF example_granularity accepted_parse [OF example_wrapping_args],
        of "example_sys []"] by (fastforce simp: demo_main_def example_wrapping_args)
  have "2 ^ 64 - 2 ^ 30 < unat (opt_slot_size ?opts) * unat (opt_slots_per_rank ?opts)"
    by (simp add: unsigned_minus_1_eq_mask mask_eq_exp_minus_1)
  from accepted_stride_wraps [OF example_wrapping_args this example_starts_up _ r]
  have "halMemAddressReserve 0 0 0 0 0 \<in> set (map fst (trace s'))"
    by (auto dest: set_mono_prefix)
  with r show ?thesis
    by auto
qed

end
