(* ===== verification/Cache2_Options.thy ===== *)
theory Cache2_Options
  imports Cxx_Text
begin

text \<open>
  src/cache2_hal_aio.cc, the command line of the cache2 I/O diagnosis: struct \<open>Options\<close>, the
  argument loop of \<open>main\<close> and the check after it. A thrown \<open>runtime_error\<close> is \<open>C2_Fail\<close> with
  its text; the arguments exclude \<open>argv[0]\<close>.

  The lemmas at the end are what the rest of the program computes with: every product of
  accepted sizes stays within \<open>2 ^ 40\<close>.
\<close>

record c2_options =
  c2_dir :: string
  c2_device :: u64
  c2_blocks :: u64
  c2_shards :: u64
  c2_slotBytes :: u64
  c2_depth :: u64
  c2_iterations :: u64
  c2_timeoutMs :: u64
  c2_pages :: string
  c2_direct :: bool
  c2_engine :: string
  c2_memoryType :: string
  c2_tensorBytes :: u64
  c2_sync :: bool
  c2_keepFiles :: bool

definition c2_defaults :: c2_options where
  "c2_defaults = \<lparr>c2_dir = [], c2_device = 0, c2_blocks = 8, c2_shards = 32,
     c2_slotBytes = 8388608, c2_depth = 32, c2_iterations = 2, c2_timeoutMs = 60000,
     c2_pages = ''auto'', c2_direct = True, c2_engine = ''aio'', c2_memoryType = ''hal'',
     c2_tensorBytes = 0, c2_sync = False, c2_keepFiles = True\<rparr>"

datatype c2_parsed = C2_Help | C2_Fail string | C2_Ok c2_options

definition INT32_MAX :: u64 where
  "INT32_MAX = 2147483647"

definition maxBytes :: u64 where
  "maxBytes = 1099511627776"

text \<open>The options whose value is a text, and those whose value is a number.\<close>

definition c2_set_text :: "string \<Rightarrow> string \<Rightarrow> c2_options \<Rightarrow> c2_options option" where
  "c2_set_text key v opt =
     (if key = ''--memory'' then Some (opt\<lparr>c2_memoryType := v\<rparr>)
      else if key = ''--engine'' then Some (opt\<lparr>c2_engine := v\<rparr>)
      else if key = ''--dir'' then Some (opt\<lparr>c2_dir := v\<rparr>)
      else if key = ''--pages'' then Some (opt\<lparr>c2_pages := v\<rparr>)
      else None)"

definition c2_set_number :: "string \<Rightarrow> u64 \<Rightarrow> c2_options \<Rightarrow> c2_options option" where
  "c2_set_number key n opt =
     (if key = ''--device'' \<and> n \<le> INT32_MAX then Some (opt\<lparr>c2_device := n\<rparr>)
      else if key = ''--blocks'' then Some (opt\<lparr>c2_blocks := n\<rparr>)
      else if key = ''--shards'' then Some (opt\<lparr>c2_shards := n\<rparr>)
      else if key = ''--slot-bytes'' then Some (opt\<lparr>c2_slotBytes := n\<rparr>)
      else if key = ''--depth'' then Some (opt\<lparr>c2_depth := n\<rparr>)
      else if key = ''--tensor-bytes'' \<and> n > 0 then Some (opt\<lparr>c2_tensorBytes := n\<rparr>)
      else if key = ''--iterations'' then Some (opt\<lparr>c2_iterations := n\<rparr>)
      else if key = ''--timeout-ms'' then Some (opt\<lparr>c2_timeoutMs := n\<rparr>)
      else if key = ''--direct'' \<and> n \<le> 1 then Some (opt\<lparr>c2_direct := (n \<noteq> 0)\<rparr>)
      else if key = ''--sync'' \<and> n \<le> 1 then Some (opt\<lparr>c2_sync := (n \<noteq> 0)\<rparr>)
      else if key = ''--keep-files'' \<and> n \<le> 1 then Some (opt\<lparr>c2_keepFiles := (n \<noteq> 0)\<rparr>)
      else None)"

definition c2_number :: "string \<Rightarrow> string \<Rightarrow> string + u64" where
  "c2_number key v =
     (if v = [] \<or> \<not> only_digits v then Inl (''expected unsigned decimal for '' @ key)
      else case stoull v of
             Inl (StdException what) \<Rightarrow> Inl what
           | Inl BadAlloc \<Rightarrow> Inl ''std::bad_alloc''
           | Inr n \<Rightarrow> if n > maxBytes then Inl ''argument too large'' else Inr n)"

definition c2_set :: "string \<Rightarrow> string \<Rightarrow> c2_options \<Rightarrow> string + c2_options" where
  "c2_set key v opt =
     (case c2_set_text key v opt of
        Some opt' \<Rightarrow> Inr opt'
      | None \<Rightarrow>
          (case c2_number key v of
             Inl m \<Rightarrow> Inl m
           | Inr n \<Rightarrow> (case c2_set_number key n opt of
                 None \<Rightarrow> Inl (''unknown option or invalid value: '' @ key)
               | Some opt' \<Rightarrow> Inr opt')))"

fun c2_scan :: "string list \<Rightarrow> c2_options \<Rightarrow> c2_parsed" where
  "c2_scan [] opt = C2_Ok opt"
| "c2_scan [key] opt =
     (if key = ''--help'' then C2_Help else C2_Fail (''missing value for '' @ key))"
| "c2_scan (key # v # rest) opt =
     (if key = ''--help'' then C2_Help
      else case c2_set key v opt of Inl m \<Rightarrow> C2_Fail m | Inr opt' \<Rightarrow> c2_scan rest opt')"

definition c2_invalid :: "c2_options \<Rightarrow> bool" where
  "c2_invalid opt \<longleftrightarrow>
     c2_dir opt = [] \<or> c2_blocks opt = 0 \<or> c2_shards opt = 0 \<or> c2_slotBytes opt = 0 \<or>
     c2_depth opt = 0 \<or> c2_iterations opt = 0 \<or> c2_timeoutMs opt = 0 \<or> c2_depth opt > INT32_MAX \<or>
     (c2_engine opt \<noteq> ''aio'' \<and> c2_engine opt \<noteq> ''psync'') \<or>
     (c2_memoryType opt \<noteq> ''hal'' \<and> c2_memoryType opt \<noteq> ''malloc'') \<or>
     (c2_tensorBytes opt \<noteq> 0 \<and>
        (c2_engine opt \<noteq> ''psync'' \<or> c2_slotBytes opt mod c2_tensorBytes opt \<noteq> 0)) \<or>
     c2_blocks opt > maxBytes div c2_shards opt \<or>
     c2_blocks opt * c2_shards opt > maxBytes div c2_slotBytes opt \<or>
     (c2_pages opt \<noteq> ''auto'' \<and> c2_pages opt \<noteq> ''normal'' \<and> c2_pages opt \<noteq> ''huge'')"

definition c2_parse :: "string list \<Rightarrow> c2_parsed" where
  "c2_parse args =
     (case c2_scan args c2_defaults of
        C2_Ok opt \<Rightarrow> if c2_invalid opt then C2_Fail ''invalid options; use --help'' else C2_Ok opt
      | p \<Rightarrow> p)"

definition c2_bytes :: "c2_options \<Rightarrow> u64" where
  "c2_bytes opt = c2_blocks opt * c2_shards opt * c2_slotBytes opt"

subsection \<open>What an accepted command line guarantees\<close>

text \<open>Every number of an accepted command line is at most \<open>2 ^ 40\<close>.\<close>

definition c2_small :: "c2_options \<Rightarrow> bool" where
  "c2_small opt \<longleftrightarrow> c2_blocks opt \<le> maxBytes \<and> c2_shards opt \<le> maxBytes \<and>
     c2_slotBytes opt \<le> maxBytes \<and> c2_depth opt \<le> maxBytes \<and> c2_iterations opt \<le> maxBytes \<and>
     c2_timeoutMs opt \<le> maxBytes \<and> c2_tensorBytes opt \<le> maxBytes \<and> c2_device opt \<le> INT32_MAX"

lemma c2_small_defaults: "c2_small c2_defaults"
  by (simp add: c2_small_def c2_defaults_def maxBytes_def INT32_MAX_def word_le_nat_alt)

lemma c2_set_small: "c2_small opt \<Longrightarrow> c2_set key v opt = Inr opt' \<Longrightarrow> c2_small opt'"
  by (auto simp: c2_set_def c2_set_text_def c2_set_number_def c2_number_def c2_small_def not_less
      split: if_splits sum.splits option.splits exn.splits)

lemma c2_scan_small: "c2_small opt \<Longrightarrow> c2_scan args opt = C2_Ok opt' \<Longrightarrow> c2_small opt'"
proof (induction args opt rule: c2_scan.induct)
  case (3 key v rest opt)
  then show ?case
    by (auto dest: c2_set_small split: if_splits sum.splits)
qed (auto split: if_splits)

lemma c2_parse_ok:
  assumes "c2_parse args = C2_Ok opt"
  shows "c2_small opt" "\<not> c2_invalid opt"
  using assms c2_scan_small [OF c2_small_defaults, of args opt]
  by (auto simp: c2_parse_def split: c2_parsed.splits if_splits)

lemma le_max_div:
  assumes "(k :: u64) \<noteq> 0" and "n \<le> maxBytes div k"
  shows "unat n * unat k \<le> 2 ^ 40"
proof -
  have "unat n \<le> 2 ^ 40 div unat k"
    using assms(2) by (simp add: word_le_nat_alt unat_div maxBytes_def)
  then have "unat n * unat k \<le> 2 ^ 40 div unat k * unat k"
    by (rule mult_le_mono1)
  also have "\<dots> \<le> 2 ^ 40"
    by simp
  finally show ?thesis .
qed

lemma c2_products:
  assumes "\<not> c2_invalid opt"
  shows "unat (c2_blocks opt * c2_shards opt) = unat (c2_blocks opt) * unat (c2_shards opt)"
    and "unat (c2_bytes opt) = unat (c2_blocks opt) * unat (c2_shards opt) * unat (c2_slotBytes opt)"
    and "unat (c2_bytes opt) \<le> 2 ^ 40" and "0 < unat (c2_bytes opt)"
proof -
  have nz: "c2_blocks opt \<noteq> 0" "c2_shards opt \<noteq> 0" "c2_slotBytes opt \<noteq> 0"
    and le: "c2_blocks opt \<le> maxBytes div c2_shards opt"
      "c2_blocks opt * c2_shards opt \<le> maxBytes div c2_slotBytes opt"
    using assms by (simp_all add: c2_invalid_def not_less)
  have "unat (c2_blocks opt) * unat (c2_shards opt) \<le> 2 ^ 40"
    using le_max_div [OF nz(2) le(1)] .
  then show p1: "unat (c2_blocks opt * c2_shards opt) = unat (c2_blocks opt) * unat (c2_shards opt)"
    by (simp add: unat_mult_no_wrap)
  have le2: "unat (c2_blocks opt) * unat (c2_shards opt) * unat (c2_slotBytes opt) \<le> 2 ^ 40"
    using le_max_div [OF nz(3) le(2)] by (simp add: p1)
  then show p2: "unat (c2_bytes opt) = unat (c2_blocks opt) * unat (c2_shards opt) * unat (c2_slotBytes opt)"
    unfolding c2_bytes_def by (subst unat_mult_no_wrap) (simp_all add: p1)
  show "unat (c2_bytes opt) \<le> 2 ^ 40"
    using le2 p2 by simp
  show "0 < unat (c2_bytes opt)"
    using nz p2 by (simp add: unat_gt_0)
qed

end
