(* ===== verification/Cache2_Text.thy ===== *)
theory Cache2_Text
  imports Cache2_Options
begin

text \<open>
  src/cache2_hal_aio.cc, the data of the diagnosis: the 128-byte text records that fill the
  buffer, the fill loop, the verification loop with its count of differing bytes and its list of
  reported positions, and \<open>DisplayBytes\<close>, which renders bytes for the log. A byte is a \<open>char\<close>,
  a buffer a list of them.

  Offsets, sizes and iteration numbers are at most \<open>2 ^ 40\<close> here (\<open>c2_products\<close>), where the
  code's \<open>size_t\<close> arithmetic does not wrap; they are natural numbers.
\<close>

subsection \<open>Records\<close>

text \<open>\<open>%012zu\<close>\<close>

definition pad12 :: "nat \<Rightarrow> string" where
  "pad12 n = (let s = nat_to_string n in replicate (12 - length s) (CHR ''0'') @ s)"

definition record_text :: "nat \<Rightarrow> nat \<Rightarrow> c2_options \<Rightarrow> string" where
  "record_text offset iteration opt =
     (let slot = unat (c2_slotBytes opt); shards = unat (c2_shards opt)
      in ''UCM iter='' @ pad12 iteration @ '' block='' @ pad12 (offset div slot div shards)
         @ '' shard='' @ pad12 (offset div slot mod shards)
         @ '' slot_offset='' @ pad12 (offset mod slot) @ '' buffer_offset='' @ pad12 offset @ '' | '')"

definition record_size :: nat where
  "record_size = 128"

text \<open>The \<open>NUL\<close> that \<open>snprintf\<close> appends is overwritten by a dot, the last byte by a newline.\<close>

definition TextRecord :: "nat \<Rightarrow> nat \<Rightarrow> c2_options \<Rightarrow> string + string" where
  "TextRecord offset iteration opt =
     (let t = record_text offset iteration opt
      in if record_size \<le> length t then Inl ''text record overflow''
         else Inr (take (record_size - 1) (t @ replicate record_size (CHR ''.'')) @ [CHR 0x0A]))"

definition hex_char :: "nat \<Rightarrow> char" where
  "hex_char d = (if d < 10 then char_of (48 + d) else char_of (87 + d))"

definition display_char :: "char \<Rightarrow> string" where
  "display_char c =
     (let n = of_char c :: nat
      in if 32 \<le> n \<and> n \<le> 126 \<and> n \<noteq> 92 \<and> n \<noteq> 34 then [c]
         else [char_of (92 :: nat), CHR ''x'', hex_char (n div 16), hex_char (n mod 16)])"

definition DisplayBytes :: "string \<Rightarrow> string" where
  "DisplayBytes bytes = concat (map display_char bytes)"

subsection \<open>Filling and verifying the buffer\<close>

definition memcpy :: "string \<Rightarrow> nat \<Rightarrow> string \<Rightarrow> string" where
  "memcpy buf off data = take off buf @ data @ drop (off + length data) buf"

function fill_from :: "c2_options \<Rightarrow> nat \<Rightarrow> nat \<Rightarrow> nat \<Rightarrow> string \<Rightarrow> string + string" where
  "fill_from opt iteration bytes offset buf =
     (if offset < bytes
      then case TextRecord offset iteration opt of
             Inl e \<Rightarrow> Inl e
           | Inr rec \<Rightarrow> fill_from opt iteration bytes (offset + record_size)
                        (memcpy buf offset (take (min record_size (bytes - offset)) rec))
      else Inr buf)"
  by pat_completeness auto

termination
  by (relation "measure (\<lambda>(opt, iteration, bytes, offset, buf). bytes - offset)")
    (auto simp: record_size_def)

text \<open>
  The comparison of one record: the number of differing bytes, and the first of them
  (\<open>length\<close> when there is none).
\<close>

definition differing :: "string \<Rightarrow> string \<Rightarrow> nat list" where
  "differing actual expected =
     filter (\<lambda>j. actual ! j \<noteq> expected ! j) [0..<length expected]"

record verdict =
  mismatches :: nat
  printed :: nat
  reported :: "nat list"

definition verify_record :: "string \<Rightarrow> nat \<Rightarrow> string \<Rightarrow> verdict \<Rightarrow> verdict" where
  "verify_record buf offset expected v =
     (case differing (drop offset buf) expected of
        [] \<Rightarrow> v
      | first # rest \<Rightarrow>
          v\<lparr>mismatches := mismatches v + Suc (length rest), printed := printed v + 1,
            reported := (if printed v < 16 then reported v @ [offset + first] else reported v)\<rparr>)"

function verify_from :: "c2_options \<Rightarrow> nat \<Rightarrow> nat \<Rightarrow> nat \<Rightarrow> string \<Rightarrow> verdict \<Rightarrow> string + verdict" where
  "verify_from opt iteration bytes offset buf v =
     (if offset < bytes
      then case TextRecord offset iteration opt of
             Inl e \<Rightarrow> Inl e
           | Inr rec \<Rightarrow> verify_from opt iteration bytes (offset + record_size) buf
                        (verify_record buf offset (take (min record_size (bytes - offset)) rec) v)
      else Inr v)"
  by pat_completeness auto

termination
  by (relation "measure (\<lambda>(opt, iteration, bytes, offset, buf, v). bytes - offset)")
    (auto simp: record_size_def)

declare fill_from.simps [simp del] verify_from.simps [simp del]

definition no_mismatch :: verdict where
  "no_mismatch = \<lparr>mismatches = 0, printed = 0, reported = []\<rparr>"

definition c2_fill :: "c2_options \<Rightarrow> nat \<Rightarrow> string \<Rightarrow> string + string" where
  "c2_fill opt iteration buf = fill_from opt iteration (unat (c2_bytes opt)) 0 buf"

definition c2_verify :: "c2_options \<Rightarrow> nat \<Rightarrow> string \<Rightarrow> string + verdict" where
  "c2_verify opt iteration buf = verify_from opt iteration (unat (c2_bytes opt)) 0 buf no_mismatch"

subsection \<open>Records never overflow, and tell their place\<close>

lemma nat_to_string_length: "n < 10 ^ k \<Longrightarrow> 0 < k \<Longrightarrow> length (nat_to_string n) \<le> k"
proof (induction k arbitrary: n)
  case (Suc k)
  show ?case
  proof (cases "n < 10")
    case True
    then show ?thesis
      by (subst nat_to_string.simps) simp
  next
    case False
    with Suc.prems have "n div 10 < 10 ^ k" and "0 < k"
      by (cases k; simp add: less_mult_imp_div_less)+
    then have "length (nat_to_string (n div 10)) \<le> k"
      by (rule Suc.IH)
    then show ?thesis
      using False by (subst nat_to_string.simps) simp
  qed
qed simp

lemma pad12_length: "n \<le> 2 ^ 40 \<Longrightarrow> length (pad12 n) \<le> 13"
  using nat_to_string_length [of n 13] by (simp add: pad12_def Let_def)

lemma pad12_digits: "only_digits (pad12 n)"
  using nat_to_string_digits [of n]
  by (auto simp: pad12_def Let_def only_digits_def list_all_iff is_digit_def)

lemma digits_value_zeros: "digits_value (replicate k (CHR ''0'') @ s) = digits_value s"
  by (induction k) (auto simp: digits_value_def digit_val_def)

lemma digits_value_pad12 [simp]: "digits_value (pad12 n) = n"
  by (simp add: pad12_def Let_def digits_value_zeros)

lemma pad12_inj: "pad12 m = pad12 n \<Longrightarrow> m = n"
  by (metis digits_value_pad12)

lemma record_text_length:
  assumes "offset \<le> 2 ^ 40" and "iteration \<le> 2 ^ 40"
  shows "length (record_text offset iteration opt) \<le> 119"
proof -
  let ?s = "unat (c2_slotBytes opt)" and ?h = "unat (c2_shards opt)"
  have "offset div ?s div ?h \<le> 2 ^ 40" "offset div ?s mod ?h \<le> 2 ^ 40" "offset mod ?s \<le> 2 ^ 40"
    using assms(1)
    by (meson div_le_dividend le_trans mod_less_eq_dividend)+
  from this [THEN pad12_length] assms [THEN pad12_length] show ?thesis
    by (simp add: record_text_def Let_def)
qed

text \<open>The record for a place and an iteration; its length is the record size.\<close>

definition record_at :: "nat \<Rightarrow> nat \<Rightarrow> c2_options \<Rightarrow> string" where
  "record_at offset iteration opt =
     record_text offset iteration opt
       @ replicate (record_size - 1 - length (record_text offset iteration opt)) (CHR ''.'') @ [CHR 0x0A]"

lemma TextRecord_small:
  assumes "offset \<le> 2 ^ 40" and "iteration \<le> 2 ^ 40"
  shows "TextRecord offset iteration opt = Inr (record_at offset iteration opt)"
    and "length (record_at offset iteration opt) = record_size"
  using record_text_length [OF assms, of opt]
  by (simp_all add: TextRecord_def record_at_def record_size_def Let_def)

lemma digit_run_peel:
  assumes "only_digits a" and "only_digits b" and "\<not> is_digit c"
    and "a @ c # r = b @ c # s"
  shows "a = b \<and> r = s"
proof -
  have "takeWhile is_digit (a @ c # r) = a" "takeWhile is_digit (b @ c # s) = b"
    using takeWhile_append_stop [of is_digit a "c # r"] takeWhile_append_stop [of is_digit b "c # s"]
      assms(1-3) by (simp_all add: only_digits_def)
  then show ?thesis
    using assms(4) by simp
qed

lemma record_text_inj:
  assumes "record_text o1 i1 opt @ r = record_text o2 i2 opt @ s"
  shows "o1 = o2 \<and> i1 = i2"
proof -
  note peel = digit_run_peel [OF pad12_digits pad12_digits, of "CHR '' ''"]
  have sp: "\<not> is_digit (CHR '' '')"
    by (simp add: is_digit_def)
  note eq = assms [unfolded record_text_def Let_def append_assoc, simplified]
  have 1: "pad12 i1 = pad12 i2" using peel [OF sp eq] by blast
  note eq2 = peel [OF sp eq, THEN conjunct2, simplified]
  note eq3 = peel [OF sp eq2, THEN conjunct2, simplified]
  note eq4 = peel [OF sp eq3, THEN conjunct2, simplified]
  note eq5 = peel [OF sp eq4, THEN conjunct2, simplified]
  have "pad12 o1 = pad12 o2"
    using peel [OF sp eq5] by blast
  then show ?thesis
    using 1 by (blast dest: pad12_inj)
qed

lemma record_at_inj:
  "record_at o1 i1 opt = record_at o2 i2 opt \<Longrightarrow> o1 = o2 \<and> i1 = i2"
  unfolding record_at_def by (rule record_text_inj)

subsection \<open>The filled buffer\<close>

text \<open>What the fill loop writes from an offset on.\<close>

function expected_from :: "c2_options \<Rightarrow> nat \<Rightarrow> nat \<Rightarrow> nat \<Rightarrow> string" where
  "expected_from opt iteration bytes offset =
     (if offset < bytes
      then take (min record_size (bytes - offset)) (record_at offset iteration opt)
             @ expected_from opt iteration bytes (offset + record_size)
      else [])"
  by pat_completeness auto

termination
  by (relation "measure (\<lambda>(opt, iteration, bytes, offset). bytes - offset)")
    (auto simp: record_size_def)

declare expected_from.simps [simp del]

lemma expected_from_end [simp]: "bytes \<le> offset \<Longrightarrow> expected_from opt iteration bytes offset = []"
  by (subst expected_from.simps) simp

lemma expected_from_step:
  "offset < bytes \<Longrightarrow> expected_from opt it bytes offset =
     take (min record_size (bytes - offset)) (record_at offset it opt)
       @ expected_from opt it bytes (offset + record_size)"
  by (subst expected_from.simps) simp

lemma chunk_length:
  assumes "offset < bytes" and "bytes \<le> 2 ^ 40" and "it \<le> 2 ^ 40"
  shows "length (take (min record_size (bytes - offset)) (record_at offset it opt)) =
    min record_size (bytes - offset)"
proof -
  have "length (record_at offset it opt) = record_size"
    using assms by (intro TextRecord_small(2)) simp_all
  then show ?thesis
    by simp
qed

lemma expected_from_length:
  assumes "bytes \<le> 2 ^ 40" and "it \<le> 2 ^ 40"
  shows "length (expected_from opt it bytes offset) = bytes - offset"
  using assms
proof (induction opt it bytes offset rule: expected_from.induct)
  case (1 opt it bytes offset)
  show ?case
  proof (cases "offset < bytes")
    case True
    show ?thesis
      using 1 True chunk_length [OF True, of it opt]
      unfolding expected_from_step [OF True] length_append by (simp add: record_size_def min_def)
  qed simp
qed

lemma fill_from_eq:
  assumes "bytes \<le> 2 ^ 40" and "it \<le> 2 ^ 40" and "length buf = bytes"
  shows "fill_from opt it bytes offset buf = Inr (take offset buf @ expected_from opt it bytes offset)"
  using assms
proof (induction opt it bytes offset buf rule: fill_from.induct)
  case (1 opt it bytes offset buf)
  show ?case
  proof (cases "offset < bytes")
    case True
    let ?d = "take (min record_size (bytes - offset)) (record_at offset it opt)"
    note len = chunk_length [OF True "1.prems"(1,2), of opt]
    have rec: "TextRecord offset it opt = Inr (record_at offset it opt)"
      using True "1.prems" by (intro TextRecord_small(1)) simp_all
    have copied: "length (memcpy buf offset ?d) = bytes"
      "take (offset + record_size) (memcpy buf offset ?d) = take offset buf @ ?d"
      using True "1.prems"(3) len by (auto simp: memcpy_def min_def record_size_def)
    have "fill_from opt it bytes offset buf =
        fill_from opt it bytes (offset + record_size) (memcpy buf offset ?d)"
      using True rec by (subst fill_from.simps) simp
    also have "\<dots> = Inr (take (offset + record_size) (memcpy buf offset ?d)
        @ expected_from opt it bytes (offset + record_size))"
      by (rule "1.IH" [OF True rec "1.prems"(1,2) copied(1)])
    finally show ?thesis
      unfolding copied(2) expected_from_step [OF True] by simp
  next
    case False
    then show ?thesis
      using "1.prems"(3) by (subst fill_from.simps) simp
  qed
qed

subsection \<open>The verdict\<close>

lemma differing_append:
  "length (differing a (r @ e)) = length (differing a r) + length (differing (drop (length r) a) e)"
  if "length r + length e \<le> length a"
proof -
  have "filter (\<lambda>j. a ! j \<noteq> (r @ e) ! j) [length r..<length r + length e] =
      map (\<lambda>j. j + length r) (filter (\<lambda>j. drop (length r) a ! j \<noteq> e ! j) [0..<length e])"
  proof -
    have "[length r..<length r + length e] = map (\<lambda>j. j + length r) [0..<length e]"
      by (simp add: map_add_upt add.commute)
    then show ?thesis
      using that by (simp add: filter_map comp_def nth_append add.commute cong: filter_cong)
  qed
  moreover have "filter (\<lambda>j. a ! j \<noteq> (r @ e) ! j) [0..<length r] =
      filter (\<lambda>j. a ! j \<noteq> r ! j) [0..<length r]"
    by (rule filter_cong) (auto simp: nth_append)
  moreover have "[0..<length (r @ e)] = [0..<length r] @ [length r..<length r + length e]"
    using upt_add_eq_append [of 0 "length r" "length e"] by simp
  ultimately show ?thesis
    by (simp add: differing_def)
qed

lemma differing_none:
  assumes "length a = length e"
  shows "differing a e = [] \<longleftrightarrow> a = e"
  using assms by (auto simp: differing_def filter_empty_conv intro: nth_equalityI)

lemma mismatches_verify_record [simp]:
  "mismatches (verify_record buf offset e v) = mismatches v + length (differing (drop offset buf) e)"
  by (simp add: verify_record_def split: list.split)

lemma verify_from_eq:
  assumes "bytes \<le> 2 ^ 40" and "it \<le> 2 ^ 40" and "length buf = bytes"
  shows "\<exists>v'. verify_from opt it bytes offset buf v = Inr v' \<and> mismatches v' =
    mismatches v + length (differing (drop offset buf) (expected_from opt it bytes offset))"
  using assms
proof (induction opt it bytes offset buf v rule: verify_from.induct)
  case (1 opt it bytes offset buf v)
  show ?case
  proof (cases "offset < bytes")
    case True
    let ?d = "take (min record_size (bytes - offset)) (record_at offset it opt)"
    let ?e = "expected_from opt it bytes (offset + record_size)"
    note len = chunk_length [OF True "1.prems"(1,2), of opt]
    have rec: "TextRecord offset it opt = Inr (record_at offset it opt)"
      using True "1.prems" by (intro TextRecord_small(1)) simp_all
    have total: "length ?d + length ?e = bytes - offset"
      unfolding len expected_from_length [OF "1.prems"(1,2)] by (simp add: record_size_def)
    have rest: "differing (drop (length ?d) (drop offset buf)) ?e =
        differing (drop (offset + record_size) buf) ?e"
    proof (cases "record_size \<le> bytes - offset")
      case True
      then show ?thesis
        unfolding len by (simp add: min_def add.commute)
    next
      case False
      then have "?e = []"
        by simp
      then show ?thesis
        by (simp only: differing_def) simp
    qed
    obtain v' where v': "verify_from opt it bytes (offset + record_size) buf (verify_record buf offset ?d v) =
        Inr v'" "mismatches v' = mismatches (verify_record buf offset ?d v) +
          length (differing (drop (offset + record_size) buf) ?e)"
      using "1.IH" [OF True rec "1.prems"] by blast
    have "verify_from opt it bytes offset buf v = Inr v'"
      using True rec v'(1) by (subst verify_from.simps) simp
    moreover have "length (differing (drop offset buf) (?d @ ?e)) =
        length (differing (drop offset buf) ?d) + length (differing (drop (offset + record_size) buf) ?e)"
      unfolding rest [symmetric] using total "1.prems"(3) by (intro differing_append) simp
    ultimately show ?thesis
      using v'(2) unfolding expected_from_step [OF True] by simp
  next
    case False
    then show ?thesis
      by (subst verify_from.simps) (simp add: differing_def)
  qed
qed

lemma differing_card: "length (differing a e) = card {j. j < length e \<and> a ! j \<noteq> e ! j}"
proof -
  have "set (differing a e) = {j. j < length e \<and> a ! j \<noteq> e ! j}" and "distinct (differing a e)"
    by (auto simp: differing_def)
  then show ?thesis
    by (metis distinct_card)
qed

text \<open>The reported positions: at most 16, each a byte that differs.\<close>

definition report_ok :: "c2_options \<Rightarrow> nat \<Rightarrow> nat \<Rightarrow> string \<Rightarrow> verdict \<Rightarrow> bool" where
  "report_ok opt it bytes buf v \<longleftrightarrow> length (reported v) = min 16 (printed v) \<and>
     printed v \<le> mismatches v \<and>
     (\<forall>i \<in> set (reported v). i < bytes \<and> buf ! i \<noteq> expected_from opt it bytes 0 ! i)"

lemma verify_from_invariant:
  assumes "verify_from opt it bytes offset buf v = Inr v'" and "length buf = bytes"
    and "bytes \<le> 2 ^ 40" and "it \<le> 2 ^ 40" and "P v"
    and step: "\<And>off v. off < bytes \<Longrightarrow> off mod record_size = offset mod record_size \<Longrightarrow> offset \<le> off \<Longrightarrow> P v \<Longrightarrow>
      P (verify_record buf off (take (min record_size (bytes - off)) (record_at off it opt)) v)"
  shows "P v'"
  using assms
proof (induction opt it bytes offset buf v rule: verify_from.induct)
  case (1 opt it bytes offset buf v)
  show ?case
  proof (cases "offset < bytes")
    case True
    have rec: "TextRecord offset it opt = Inr (record_at offset it opt)"
      using True "1.prems"(3,4) by (intro TextRecord_small(1)) simp_all
    show ?thesis
    proof (rule "1.IH" [OF True rec])
      show "verify_from opt it bytes (offset + record_size) buf
          (verify_record buf offset (take (min record_size (bytes - offset)) (record_at offset it opt)) v) = Inr v'"
        using "1.prems"(1) True rec by (subst (asm) verify_from.simps) simp
      show "P (verify_record buf offset (take (min record_size (bytes - offset)) (record_at offset it opt)) v)"
        using "1.prems"(5,6) True by simp
      show "P (verify_record buf off (take (min record_size (bytes - off)) (record_at off it opt)) v)"
        if "off < bytes" "off mod record_size = (offset + record_size) mod record_size"
          "offset + record_size \<le> off" "P v" for off v
        using "1.prems"(6) [of off v] that by simp
    qed (use "1.prems" in simp_all)
  next
    case False
    then show ?thesis
      using "1.prems"(1,5) by (subst (asm) verify_from.simps) simp
  qed
qed

lemma expected_nth:
  assumes "off < bytes" and "off mod record_size = o0 mod record_size" and "o0 \<le> off"
    and "j < min record_size (bytes - off)" and "bytes \<le> 2 ^ 40" and "it \<le> 2 ^ 40"
  shows "expected_from opt it bytes o0 ! (off + j - o0) = record_at off it opt ! j"
  using assms
proof (induction opt it bytes o0 rule: expected_from.induct)
  case (1 opt it bytes o0)
  have o0: "o0 < bytes"
    using "1.prems" by simp
  note len = chunk_length [OF o0 "1.prems"(5,6), of opt]
  show ?case
  proof (cases "off = o0")
    case True
    then show ?thesis
      using "1.prems"(4) len unfolding expected_from_step [OF o0] by (simp add: nth_append)
  next
    case False
    then have "o0 < off"
      using "1.prems"(3) by simp
    then have le: "o0 + record_size \<le> off"
      using "1.prems"(2) by (metis add_diff_cancel_left' dvd_imp_le le_add_diff_inverse mod_eq_dvd_iff_nat nat_add_left_cancel_le nat_less_le zero_less_diff)
    then have full: "min record_size (bytes - o0) = record_size"
      using "1.prems"(1) by simp
    have "expected_from opt it bytes (o0 + record_size) ! (off + j - (o0 + record_size)) = record_at off it opt ! j"
      using "1.prems" le by (intro "1.IH" o0) simp_all
    moreover have "\<not> off + j - o0 < record_size" "off + j - o0 - record_size = off + j - (o0 + record_size)"
      using le by simp_all
    ultimately show ?thesis
      using len unfolding expected_from_step [OF o0] full by (simp add: nth_append)
  qed
qed

lemma verify_report_ok:
  assumes "verify_from opt it bytes 0 buf no_mismatch = Inr v" and "length buf = bytes"
    and "bytes \<le> 2 ^ 40" and "it \<le> 2 ^ 40"
  shows "report_ok opt it bytes buf v"
proof (rule verify_from_invariant [OF assms])
  show "report_ok opt it bytes buf no_mismatch"
    by (simp add: report_ok_def no_mismatch_def)
next
  fix off v
  let ?d = "take (min record_size (bytes - off)) (record_at off it opt)"
  assume off: "off < bytes" "off mod record_size = 0 mod record_size" and ok: "report_ok opt it bytes buf v"
  note len = chunk_length [OF off(1) assms(3,4), of opt]
  show "report_ok opt it bytes buf (verify_record buf off ?d v)"
  proof (cases "differing (drop off buf) ?d")
    case Nil
    then show ?thesis
      using ok by (simp add: verify_record_def)
  next
    case (Cons first rest)
    then have "first \<in> set (differing (drop off buf) ?d)"
      by simp
    then have "first < length ?d" and d: "drop off buf ! first \<noteq> ?d ! first"
      by (auto simp: differing_def)
    then have f: "first < min record_size (bytes - off)"
      unfolding len by simp
    then have "buf ! (off + first) \<noteq> record_at off it opt ! first"
      using off assms(2) d f by simp
    moreover have "expected_from opt it bytes 0 ! (off + first) = record_at off it opt ! first"
      using expected_nth [OF off _ f assms(3,4), of opt] by simp
    ultimately have new: "off + first < bytes" "buf ! (off + first) \<noteq> expected_from opt it bytes 0 ! (off + first)"
      using f off(1) by auto
    show ?thesis
      using ok new Cons by (auto simp: verify_record_def report_ok_def)
  qed
qed

subsection \<open>The display\<close>

lemma hex_char_inj: "a < 16 \<Longrightarrow> b < 16 \<Longrightarrow> hex_char a = hex_char b \<Longrightarrow> a = b"
  by (auto simp: hex_char_def split: if_splits dest!: arg_cong [of _ _ "of_char :: char \<Rightarrow> nat"])

lemma display_char_cases:
  obtains (plain) "display_char c = [c]" "c \<noteq> char_of (92 :: nat)"
  | (escaped) "display_char c = [char_of (92 :: nat), CHR ''x'', hex_char (of_char c div 16), hex_char (of_char c mod 16)]"
proof -
  have "of_char (char_of (92 :: nat)) = (92 :: nat)"
    by simp
  then have "(display_char c = [c] \<and> c \<noteq> char_of (92 :: nat)) \<or>
      display_char c = [char_of (92 :: nat), CHR ''x'', hex_char (of_char c div 16), hex_char (of_char c mod 16)]"
    by (auto simp: display_char_def Let_def)
  then show ?thesis
    using plain escaped by blast
qed

lemma of_char_less_256: "of_char c < (256 :: nat)"
  by (metis mod_less_divisor of_char_mod_256 zero_less_numeral)

lemma display_char_prefix_free:
  assumes "display_char a @ r = display_char b @ s"
  shows "a = b \<and> r = s"
proof (cases a rule: display_char_cases)
  case plain
  then show ?thesis
    using assms by (cases b rule: display_char_cases) auto
next
  case a: escaped
  show ?thesis
  proof (cases b rule: display_char_cases)
    case plain
    then show ?thesis
      using assms a by auto
  next
    case escaped
    have lt: "of_char c div 16 < (16 :: nat)" "of_char c mod 16 < (16 :: nat)" for c :: char
      using of_char_less_256 [of c] by (simp_all add: less_mult_imp_div_less)
    have "of_char a div 16 = (of_char b div 16 :: nat)" "of_char a mod 16 = (of_char b mod 16 :: nat)"
      using assms a escaped hex_char_inj [OF lt(1) lt(1)] hex_char_inj [OF lt(2) lt(2)] by simp_all
    then have "(of_char a :: nat) = of_char b"
      by (metis div_mult_mod_eq)
    then show ?thesis
      using assms a escaped by simp
  qed
qed

lemma DisplayBytes_inj: "DisplayBytes xs = DisplayBytes ys \<Longrightarrow> xs = ys"
proof (induction xs arbitrary: ys)
  case Nil
  then show ?case
    by (cases ys) (auto simp: DisplayBytes_def display_char_def Let_def split: if_splits)
next
  case (Cons x xs)
  then show ?case
  proof (cases ys)
    case Nil
    with Cons.prems show ?thesis
      by (auto simp: DisplayBytes_def display_char_def Let_def split: if_splits)
  next
    case (Cons y zs)
    then have "x = y \<and> DisplayBytes xs = DisplayBytes zs"
      using Cons.prems display_char_prefix_free [of x "concat (map display_char xs)" y
          "concat (map display_char zs)"] by (simp add: DisplayBytes_def)
    then show ?thesis
      using Cons.IH Cons by simp
  qed
qed

lemma hex_char_printable: "d < 16 \<Longrightarrow> 32 \<le> (of_char (hex_char d) :: nat) \<and> of_char (hex_char d) \<le> (126 :: nat)"
  by (auto simp: hex_char_def)

lemma DisplayBytes_printable:
  "c \<in> set (DisplayBytes xs) \<Longrightarrow> 32 \<le> (of_char c :: nat) \<and> of_char c \<le> (126 :: nat)"
proof -
  have lt: "of_char c div 16 < (16 :: nat)" "of_char c mod 16 < (16 :: nat)" for c :: char
    using of_char_less_256 [of c] by (simp_all add: less_mult_imp_div_less)
  show "c \<in> set (DisplayBytes xs) \<Longrightarrow> ?thesis"
    using hex_char_printable [OF lt(1)] hex_char_printable [OF lt(2)]
    by (auto simp: DisplayBytes_def display_char_def Let_def split: if_splits)
qed

end
