(* ===== verification/Cache2_System.thy ===== *)
theory Cache2_System
  imports Cache2_Text
begin

text \<open>
  src/cache2_hal_aio.cc, the system calls of the diagnosis and the macros \<open>OS\<close> and \<open>CLEANUP\<close>.

  The operating system is a parameter: \<open>os_fn\<close> answers a system call with the call's result and
  the next world. \<open>os_errno\<close> is \<open>errno\<close> after a failed call, \<open>os_bytes\<close> the bytes a read
  delivers (or the name \<open>mkdtemp\<close> makes), \<open>os_out\<close> the size \<open>stat\<close> reports or the context
  \<open>io_setup\<close> makes, \<open>os_events\<close> what \<open>io_getevents\<close> stores. A pointer result is 0 when it is
  null. \<open>os_turn\<close> is the scheduler: which of two threads runs next, and for the main thread
  whether the clock has reached the deadline. \<open>os_strerror\<close> is \<open>strerror\<close>, and \<open>os_vector\<close> the
  address of the array of requests.

  \<open>io_calls\<close> is the ghost list of all calls made. An exception is \<open>Some\<close> text.
\<close>

datatype open_flag = O_CREAT | O_WRONLY | O_RDONLY | O_DIRECT

text \<open>
  An \<open>iocb\<close>. Addresses in the buffer are positions in it; the opcode is \<open>PWRITE\<close> or \<open>PREAD\<close>.
\<close>

record iocb =
  aio_fildes :: int
  aio_pwrite :: bool
  aio_buf :: nat
  aio_nbytes :: nat
  aio_offset :: nat
  aio_data :: nat
  aio_resfd :: int

text \<open>An \<open>io_event\<close>; \<open>ev_bytes\<close> is what the kernel has put into the buffer for a read.\<close>

record io_event =
  ev_data :: u64
  ev_obj :: u64
  ev_res :: int
  ev_res2 :: int
  ev_bytes :: string

datatype os_call =
    os_mkdtemp string
  | os_statfs string
  | os_open string "open_flag list" nat
  | os_pwrite int string nat
  | os_pread int nat nat
  | os_close int
  | os_fdatasync int
  | os_rename string string
  | os_stat string
  | os_unlink string
  | os_rmdir string
  | os_io_setup u64
  | os_io_submit int iocb string
  | os_io_getevents int
  | os_io_destroy int
  | os_eventfd
  | os_epoll_create1
  | os_epoll_ctl int int
  | os_epoll_wait int
  | os_read int

record os_result =
  os_ret :: int
  os_errno :: int
  os_bytes :: string
  os_out :: int
  os_events :: "io_event list"

datatype turn = Main_turn bool | Completion_turn

record 'k kernel =
  os_fn :: "os_call \<Rightarrow> 'k \<Rightarrow> os_result \<times> 'k"
  os_turn :: "'k \<Rightarrow> turn \<times> 'k"
  os_strerror :: "int \<Rightarrow> string"
  os_vector :: u64

record 'k c2_state =
  io_world :: 'k
  io_calls :: "(os_call \<times> os_result) list"
  io_buffer :: string
  cleanupFailed :: bool

text \<open>The result of a call that is not made.\<close>

definition os_plain :: "int \<Rightarrow> os_result" where
  "os_plain ret = \<lparr>os_ret = ret, os_errno = 0, os_bytes = [], os_out = 0, os_events = []\<rparr>"

lemma os_ret_plain [simp]: "os_ret (os_plain n) = n"
  by (simp add: os_plain_def)

definition sys_call :: "'k kernel \<Rightarrow> os_call \<Rightarrow> 'k c2_state \<Rightarrow> os_result \<times> 'k c2_state" where
  "sys_call K c st =
     (case os_fn K c (io_world st) of
        (r, w) \<Rightarrow> (r, st\<lparr>io_world := w, io_calls := io_calls st @ [(c, r)]\<rparr>))"

text \<open>\<open>OS(call)\<close>: a negative result is thrown.\<close>

definition OS :: "'k kernel \<Rightarrow> string \<Rightarrow> os_call \<Rightarrow> 'k c2_state \<Rightarrow> (string + os_result) \<times> 'k c2_state" where
  "OS K expression c st =
     (let (r, st') = sys_call K c st
      in (if os_ret r < 0
          then Inl (expression @ '' ret='' @ to_string_int (os_ret r) @ '' errno='' @ to_string_int (os_errno r))
          else Inr r, st'))"

text \<open>\<open>CLEANUP(OS(call))\<close>\<close>

definition OS_cleanup :: "'k kernel \<Rightarrow> string \<Rightarrow> os_call \<Rightarrow> 'k c2_state \<Rightarrow> 'k c2_state" where
  "OS_cleanup K expression c st =
     (case OS K expression c st of
        (Inl _, st') \<Rightarrow> st'\<lparr>cleanupFailed := True\<rparr> | (Inr _, st') \<Rightarrow> st')"

definition c2_flags :: "c2_options \<Rightarrow> bool \<Rightarrow> open_flag list" where
  "c2_flags opt dump =
     (if dump then [O_CREAT, O_WRONLY] else [O_RDONLY]) @ (if c2_direct opt then [O_DIRECT] else [])"

end
