(* ===== verification/Cache2_Psync.thy ===== *)
theory Cache2_Psync
  imports Cache2_System
begin

text \<open>
  src/cache2_hal_aio.cc, function \<open>Transfer\<close> with the synchronous engine (\<open>psync\<close>): the files of
  the blocks are written from, or read into, the buffer, tensor by tensor. A read never stores
  more than the bytes asked for.
\<close>

text \<open>The bytes of one call: a tensor, or the whole slot.\<close>

definition psync_bytes :: "c2_options \<Rightarrow> nat" where
  "psync_bytes opt =
     (if c2_tensorBytes opt \<noteq> 0 then unat (c2_tensorBytes opt) else unat (c2_slotBytes opt))"

definition psync_chunk ::
  "'k kernel \<Rightarrow> c2_options \<Rightarrow> bool \<Rightarrow> nat \<Rightarrow> nat \<Rightarrow> nat \<Rightarrow> int \<Rightarrow> 'k c2_state \<Rightarrow> string option \<times> 'k c2_state" where
  "psync_chunk K opt dump block shard pos fd st =
     (let bytes = psync_bytes opt; slot = unat (c2_slotBytes opt); shards = unat (c2_shards opt);
          offset = shard * slot + pos; at = block * shards * slot + offset;
          (r, st1) = (if dump
             then OS K ''pwrite(fd, addr, bytes, offset)'' (os_pwrite fd (take bytes (drop at (io_buffer st))) offset) st
             else OS K ''pread(fd, addr, bytes, offset)'' (os_pread fd bytes offset) st)
      in case r of
           Inl e \<Rightarrow> (Some e, st1)
         | Inr n \<Rightarrow>
             (let st2 = (if dump then st1
                    else st1\<lparr>io_buffer := memcpy (io_buffer st1) at (take (min (nat (os_ret n)) bytes) (os_bytes n))\<rparr>)
              in if os_ret n \<noteq> int bytes
                 then (Some (''short psync I/O: actual='' @ to_string_int (os_ret n) @ '' expected='' @
                       nat_to_string bytes), st2)
                 else (None, st2)))"

function psync_slot ::
  "'k kernel \<Rightarrow> c2_options \<Rightarrow> bool \<Rightarrow> nat \<Rightarrow> nat \<Rightarrow> nat \<Rightarrow> int \<Rightarrow> 'k c2_state \<Rightarrow> string option \<times> 'k c2_state" where
  "psync_slot K opt dump block shard pos fd st =
     (if pos < unat (c2_slotBytes opt) \<and> 0 < psync_bytes opt
      then case psync_chunk K opt dump block shard pos fd st of
             (Some e, st1) \<Rightarrow> (Some e, st1)
           | (None, st1) \<Rightarrow> psync_slot K opt dump block shard (pos + psync_bytes opt) fd st1
      else (None, st))"
  by pat_completeness auto

termination
  by (relation "measure (\<lambda>(K, opt, dump, block, shard, pos, fd, st). unat (c2_slotBytes opt) - pos)") auto

declare psync_slot.simps [simp del]

text \<open>The shards of one block; the second component of the result is the variable \<open>fd\<close>.\<close>

fun psync_shards ::
  "'k kernel \<Rightarrow> c2_options \<Rightarrow> bool \<Rightarrow> string \<Rightarrow> nat \<Rightarrow> nat list \<Rightarrow> int \<Rightarrow> 'k c2_state
     \<Rightarrow> string option \<times> int \<times> 'k c2_state" where
  "psync_shards K opt dump path block [] fd st = (None, fd, st)"
| "psync_shards K opt dump path block (shard # rest) fd st =
     (let (opened, st0) = (if fd < 0
             then OS K ''open(paths[block].c_str(), flags, 0644)'' (os_open path (c2_flags opt dump) 420) st
             else (Inr (os_plain fd), st))
      in case opened of
           Inl e \<Rightarrow> (Some e, fd, st0)
         | Inr r \<Rightarrow>
             (let fd1 = os_ret r
              in case psync_slot K opt dump block shard 0 fd1 st0 of
                   (Some e, st1) \<Rightarrow> (Some e, fd1, st1)
                 | (None, st1) \<Rightarrow>
                     if dump \<or> shard + 1 = unat (c2_shards opt)
                     then (case OS K ''close(closing)'' (os_close fd1) st1 of
                             (Inl e, st2) \<Rightarrow> (Some e, - 1, st2)
                           | (Inr _, st2) \<Rightarrow> psync_shards K opt dump path block rest (- 1) st2)
                     else psync_shards K opt dump path block rest fd1 st1))"

definition psync_block ::
  "'k kernel \<Rightarrow> c2_options \<Rightarrow> bool \<Rightarrow> string \<Rightarrow> nat \<Rightarrow> 'k c2_state \<Rightarrow> string option \<times> 'k c2_state" where
  "psync_block K opt dump path block st =
     (case psync_shards K opt dump path block [0..<unat (c2_shards opt)] (- 1) st of
        (None, fd, st1) \<Rightarrow> (None, st1)
      | (Some e, fd, st1) \<Rightarrow>
          (Some e, if 0 \<le> fd then OS_cleanup K ''close(fd)'' (os_close fd) st1 else st1))"

fun psync_blocks ::
  "'k kernel \<Rightarrow> c2_options \<Rightarrow> bool \<Rightarrow> string list \<Rightarrow> nat list \<Rightarrow> 'k c2_state \<Rightarrow> string option \<times> 'k c2_state" where
  "psync_blocks K opt dump paths [] st = (None, st)"
| "psync_blocks K opt dump paths (block # rest) st =
     (case psync_block K opt dump (paths ! block) block st of
        (Some e, st1) \<Rightarrow> (Some e, st1)
      | (None, st1) \<Rightarrow> psync_blocks K opt dump paths rest st1)"

end
