(* ===== verification/Cache2_Aio.thy ===== *)
theory Cache2_Aio
  imports Cache2_System
begin

text \<open>
  src/cache2_hal_aio.cc, struct \<open>Request\<close> and class \<open>AioPhase\<close>: one asynchronous request per
  slot, submitted by the main thread within a window of \<open>depth\<close> and collected by a completion
  thread.

  The phase opens its files and makes its requests one after another (\<open>aio_setup\<close>); then two
  threads share \<open>stop_\<close>, \<open>failed_\<close>, \<open>completed_\<close> and the requests. Every step of a thread makes
  at most one access to the shared atomics or one system call; the scheduler chooses the thread of
  each step (\<open>aio_turn\<close>), and \<open>aio_threads\<close> runs until the main thread has joined the other. It is
  a partial function: \<open>None\<close> means that this never happens. The sleeps between two tries have no
  model beyond the scheduler's choice.
\<close>

subsection \<open>Requests\<close>

record request =
  rq_cb :: iocb
  rq_fd :: int
  rq_done :: bool

definition iocb_zero :: iocb where
  "iocb_zero = \<lparr>aio_fildes = 0, aio_pwrite = False, aio_buf = 0, aio_nbytes = 0, aio_offset = 0,
     aio_data = 0, aio_resfd = 0\<rparr>"

definition Request_new :: request where
  "Request_new = \<lparr>rq_cb = iocb_zero, rq_fd = - 1, rq_done = False\<rparr>"

record aio_phase =
  aio_ctx :: int
  aio_eventFd :: int
  aio_epollFd :: int
  aio_requests :: "request list"
  aio_stop :: bool
  aio_failed :: bool
  aio_completed :: nat

definition AioPhase_new :: aio_phase where
  "AioPhase_new = \<lparr>aio_ctx = 0, aio_eventFd = - 1, aio_epollFd = - 1, aio_requests = [],
     aio_stop = False, aio_failed = False, aio_completed = 0\<rparr>"

definition aio_count :: "c2_options \<Rightarrow> nat" where
  "aio_count opt = unat (c2_blocks opt) * unat (c2_shards opt)"

text \<open>The loop body of \<open>Run\<close> that fills in a request once its file is open.\<close>

definition make_request :: "c2_options \<Rightarrow> bool \<Rightarrow> int \<Rightarrow> nat \<Rightarrow> int \<Rightarrow> request" where
  "make_request opt dump eventFd i fd =
     (let slot = unat (c2_slotBytes opt); shards = unat (c2_shards opt)
      in \<lparr>rq_cb = \<lparr>aio_fildes = fd, aio_pwrite = dump, aio_buf = i * slot, aio_nbytes = slot,
            aio_offset = (i mod shards) * slot, aio_data = i, aio_resfd = eventFd\<rparr>,
          rq_fd = fd, rq_done = False\<rparr>)"

fun aio_open_from ::
  "'k kernel \<Rightarrow> c2_options \<Rightarrow> string list \<Rightarrow> bool \<Rightarrow> nat list \<Rightarrow> aio_phase \<Rightarrow> 'k c2_state
     \<Rightarrow> string option \<times> aio_phase \<times> 'k c2_state" where
  "aio_open_from K opt paths dump [] p st = (None, p, st)"
| "aio_open_from K opt paths dump (i # rest) p st =
     (case OS K ''open(paths[i / opt.shards].c_str(), flags, 0644)''
             (os_open (paths ! (i div unat (c2_shards opt))) (c2_flags opt dump) 420) st of
        (Inl e, st1) \<Rightarrow> (Some e, p, st1)
      | (Inr r, st1) \<Rightarrow> aio_open_from K opt paths dump rest
          (p\<lparr>aio_requests := (aio_requests p)[i := make_request opt dump (aio_eventFd p) i (os_ret r)]\<rparr>) st1)"

definition aio_setup ::
  "'k kernel \<Rightarrow> c2_options \<Rightarrow> string list \<Rightarrow> bool \<Rightarrow> 'k c2_state
     \<Rightarrow> string option \<times> aio_phase \<times> 'k c2_state" where
  "aio_setup K opt paths dump st =
     (case OS K ''syscall(SYS_io_setup, opt.depth, &ctx_)'' (os_io_setup (c2_depth opt)) st of
        (Inl e, st1) \<Rightarrow> (Some e, AioPhase_new, st1)
      | (Inr r1, st1) \<Rightarrow>
     (let p1 = AioPhase_new\<lparr>aio_ctx := os_out r1\<rparr>
      in case OS K ''eventfd(0, EFD_NONBLOCK | EFD_CLOEXEC)'' os_eventfd st1 of
        (Inl e, st2) \<Rightarrow> (Some e, p1, st2)
      | (Inr r2, st2) \<Rightarrow>
     (let p2 = p1\<lparr>aio_eventFd := os_ret r2\<rparr>
      in case OS K ''epoll_create1(EPOLL_CLOEXEC)'' os_epoll_create1 st2 of
        (Inl e, st3) \<Rightarrow> (Some e, p2, st3)
      | (Inr r3, st3) \<Rightarrow>
     (let p3 = p2\<lparr>aio_epollFd := os_ret r3\<rparr>
      in case OS K ''epoll_ctl(epollFd_, EPOLL_CTL_ADD, eventFd_, &notification)''
                (os_epoll_ctl (aio_epollFd p3) (aio_eventFd p3)) st3 of
        (Inl e, st4) \<Rightarrow> (Some e, p3, st4)
      | (Inr r4, st4) \<Rightarrow>
          aio_open_from K opt paths dump [0..<aio_count opt]
            (p3\<lparr>aio_requests := replicate (aio_count opt) Request_new\<rparr>) st4))))"

subsection \<open>The two threads\<close>

text \<open>
  Where the main thread is: before \<open>check()\<close> of the submission loop, before the test of the window,
  before \<open>io_submit\<close>, at the test of the waiting loop, at its \<open>check()\<close>, at the last \<open>check()\<close>,
  before \<open>stop_ = true\<close>, before \<open>join()\<close>, and after it; the latter three carry the exception that is
  on its way, in which case they belong to the destructor.
\<close>

datatype main_pc = M_Check | M_Window | M_Submit | M_Wait | M_WaitCheck | M_Last
  | M_Stop "string option" | M_Join "string option" | M_Done "string option"

text \<open>
  Where the completion thread is: at \<open>while (!stop_)\<close>, before \<open>epoll_wait\<close>, before \<open>read\<close>, before
  \<open>io_getevents\<close>, before the next of the events it got (and how many there were), before the
  completion of one request is counted, and after its end.
\<close>

datatype completion_pc = C_Loop | C_Poll | C_Read | C_Get | C_Events int "io_event list"
  | C_Count nat io_event int "io_event list" | C_Ended

record 'k aio_run =
  aio_phase_of :: aio_phase
  aio_submitted :: nat
  aio_main :: main_pc
  aio_completion :: completion_pc
  aio_sys :: "'k c2_state"

definition EINTR :: int where "EINTR = 4"

definition EAGAIN :: int where "EAGAIN = 11"

text \<open>\<open>check\<close>\<close>

definition aio_check :: "bool \<Rightarrow> main_pc \<Rightarrow> 'k aio_run \<Rightarrow> 'k aio_run" where
  "aio_check late continue a =
     a\<lparr>aio_main := (if aio_failed (aio_phase_of a)
        then M_Stop (Some ''AIO completion failed (see res/errno above)'')
        else if late then M_Stop (Some ''AIO phase timed out'') else continue)\<rparr>"

text \<open>The test \<open>submitted < count\<close>.\<close>

definition submit_test :: "c2_options \<Rightarrow> nat \<Rightarrow> main_pc" where
  "submit_test opt n = (if n < aio_count opt then M_Check else M_Wait)"

definition submit_request :: "'k kernel \<Rightarrow> c2_options \<Rightarrow> 'k aio_run \<Rightarrow> 'k aio_run" where
  "submit_request K opt a =
     (let p = aio_phase_of a; st = aio_sys a; cb = rq_cb (aio_requests p ! aio_submitted a);
          data = (if aio_pwrite cb then take (aio_nbytes cb) (drop (aio_buf cb) (io_buffer st)) else []);
          (r, st1) = sys_call K (os_io_submit (aio_ctx p) cb data) st;
          error = (if os_ret r < 0 then os_errno r else 0);
          a1 = a\<lparr>aio_sys := st1\<rparr>
      in if os_ret r = 1
         then a1\<lparr>aio_submitted := aio_submitted a + 1, aio_main := submit_test opt (aio_submitted a + 1)\<rparr>
         else if error = EAGAIN \<or> error = EINTR \<or> os_ret r = 0 then a1\<lparr>aio_main := M_Check\<rparr>
         else a1\<lparr>aio_main := M_Stop (Some ''io_submit failed'')\<rparr>)"

definition main_turn :: "'k kernel \<Rightarrow> c2_options \<Rightarrow> bool \<Rightarrow> 'k aio_run \<Rightarrow> 'k aio_run" where
  "main_turn K opt late a =
     (case aio_main a of
        M_Check \<Rightarrow> aio_check late M_Window a
      | M_Window \<Rightarrow>
          a\<lparr>aio_main := (if (of_nat (aio_submitted a) - of_nat (aio_completed (aio_phase_of a)) :: u64) \<ge> c2_depth opt
                         then M_Check else M_Submit)\<rparr>
      | M_Submit \<Rightarrow> submit_request K opt a
      | M_Wait \<Rightarrow> a\<lparr>aio_main := (if aio_completed (aio_phase_of a) < aio_count opt then M_WaitCheck else M_Last)\<rparr>
      | M_WaitCheck \<Rightarrow> aio_check late M_Wait a
      | M_Last \<Rightarrow> aio_check late (M_Stop None) a
      | M_Stop r \<Rightarrow> a\<lparr>aio_phase_of := (aio_phase_of a)\<lparr>aio_stop := True\<rparr>, aio_main := M_Join r\<rparr>
      | M_Join r \<Rightarrow> (if aio_completion a = C_Ended then a\<lparr>aio_main := M_Done r\<rparr> else a)
      | M_Done r \<Rightarrow> a)"

text \<open>\<open>failed_ = true; return;\<close> of the completion thread\<close>

definition completion_fails :: "'k aio_run \<Rightarrow> 'k aio_run" where
  "completion_fails a =
     a\<lparr>aio_phase_of := (aio_phase_of a)\<lparr>aio_failed := True\<rparr>, aio_completion := C_Ended\<rparr>"

definition io_event_zero :: io_event where
  "io_event_zero = \<lparr>ev_data = 0, ev_obj = 0, ev_res = 0, ev_res2 = 0, ev_bytes = []\<rparr>"

text \<open>The events the loop looks at: the array was zero before the call.\<close>

definition stored_events :: "os_result \<Rightarrow> io_event list" where
  "stored_events r = take (nat (os_ret r)) (os_events r @ replicate 128 io_event_zero)"

text \<open>The address of a request's control block: a request takes 72 bytes.\<close>

definition cb_address :: "'k kernel \<Rightarrow> nat \<Rightarrow> u64" where
  "cb_address K i = os_vector K + 72 * of_nat i"

definition event_valid :: "'k kernel \<Rightarrow> aio_phase \<Rightarrow> io_event \<Rightarrow> bool" where
  "event_valid K p ev \<longleftrightarrow>
     \<not> (unat (ev_data ev) \<ge> length (aio_requests p) \<or> rq_done (aio_requests p ! unat (ev_data ev)) \<or>
        ev_obj ev \<noteq> cb_address K (unat (ev_data ev)))"

definition event_good :: "c2_options \<Rightarrow> io_event \<Rightarrow> bool" where
  "event_good opt ev \<longleftrightarrow> \<not> (ev_res ev \<noteq> int (unat (c2_slotBytes opt)) \<or> ev_res2 ev \<noteq> 0)"

text \<open>
  \<open>req.done = true; completed_.fetch_add(1)\<close>. What a read has put into the buffer is taken to be
  there from now on; nothing looks at the buffer before.
\<close>

definition count_completion :: "nat \<Rightarrow> io_event \<Rightarrow> 'k aio_run \<Rightarrow> 'k aio_run" where
  "count_completion i ev a =
     (let p = aio_phase_of a; cb = rq_cb (aio_requests p ! i)
      in a\<lparr>aio_phase_of := p\<lparr>aio_requests := (aio_requests p)[i := (aio_requests p ! i)\<lparr>rq_done := True\<rparr>],
              aio_completed := aio_completed p + 1\<rparr>,
           aio_sys := (if aio_pwrite cb then aio_sys a
              else (aio_sys a)\<lparr>io_buffer :=
                memcpy (io_buffer (aio_sys a)) (aio_buf cb) (take (aio_nbytes cb) (ev_bytes ev))\<rparr>)\<rparr>)"

definition completion_turn :: "'k kernel \<Rightarrow> c2_options \<Rightarrow> 'k aio_run \<Rightarrow> 'k aio_run" where
  "completion_turn K opt a =
     (let p = aio_phase_of a
      in case aio_completion a of
        C_Loop \<Rightarrow> a\<lparr>aio_completion := (if aio_stop p then C_Ended else C_Poll)\<rparr>
      | C_Poll \<Rightarrow>
          (let (r, st) = sys_call K (os_epoll_wait (aio_epollFd p)) (aio_sys a); a1 = a\<lparr>aio_sys := st\<rparr>
           in if os_ret r < 0
              then if os_errno r = EINTR then a1\<lparr>aio_completion := C_Loop\<rparr> else completion_fails a1
              else a1\<lparr>aio_completion := (if os_ret r = 0 then C_Loop else C_Read)\<rparr>)
      | C_Read \<Rightarrow>
          (let (r, st) = sys_call K (os_read (aio_eventFd p)) (aio_sys a); a1 = a\<lparr>aio_sys := st\<rparr>
           in if os_ret r < 0 \<and> (os_errno r = EAGAIN \<or> os_errno r = EINTR) then a1\<lparr>aio_completion := C_Loop\<rparr>
              else if os_ret r \<noteq> 8 then completion_fails a1
              else a1\<lparr>aio_completion := C_Get\<rparr>)
      | C_Get \<Rightarrow>
          (let (r, st) = sys_call K (os_io_getevents (aio_ctx p)) (aio_sys a); a1 = a\<lparr>aio_sys := st\<rparr>
           in if os_ret r < 0
              then if os_errno r = EINTR then a1 else completion_fails a1
              else a1\<lparr>aio_completion := C_Events (os_ret r) (stored_events r)\<rparr>)
      | C_Events n [] \<Rightarrow> a\<lparr>aio_completion := (if n < 128 then C_Loop else C_Get)\<rparr>
      | C_Events n (ev # rest) \<Rightarrow>
          (if \<not> event_valid K p ev then completion_fails a
           else a\<lparr>aio_phase_of := (if event_good opt ev then p else p\<lparr>aio_failed := True\<rparr>),
                  aio_completion := C_Count (unat (ev_data ev)) ev n rest\<rparr>)
      | C_Count i ev n rest \<Rightarrow> (count_completion i ev a)\<lparr>aio_completion := C_Events n rest\<rparr>
      | C_Ended \<Rightarrow> a)"

definition set_world :: "'k \<Rightarrow> 'k aio_run \<Rightarrow> 'k aio_run" where
  "set_world w a = a\<lparr>aio_sys := (aio_sys a)\<lparr>io_world := w\<rparr>\<rparr>"

definition aio_turn :: "'k kernel \<Rightarrow> c2_options \<Rightarrow> 'k aio_run \<Rightarrow> 'k aio_run" where
  "aio_turn K opt a =
     (case os_turn K (io_world (aio_sys a)) of
        (Main_turn late, w) \<Rightarrow> main_turn K opt late (set_world w a)
      | (Completion_turn, w) \<Rightarrow> completion_turn K opt (set_world w a))"

partial_function (option) aio_threads ::
  "'k kernel \<Rightarrow> c2_options \<Rightarrow> 'k aio_run \<Rightarrow> (string option \<times> 'k aio_run) option" where
  "aio_threads K opt a =
     (case aio_main a of M_Done r \<Rightarrow> Some (r, a) | _ \<Rightarrow> aio_threads K opt (aio_turn K opt a))"

definition aio_begin :: "c2_options \<Rightarrow> aio_phase \<Rightarrow> 'k c2_state \<Rightarrow> 'k aio_run" where
  "aio_begin opt p st = \<lparr>aio_phase_of = p, aio_submitted = 0, aio_main = submit_test opt 0,
     aio_completion = C_Loop, aio_sys = st\<rparr>"

subsection \<open>The phase\<close>

text \<open>The last loop of \<open>Run\<close>: each descriptor is forgotten before it is closed.\<close>

fun aio_close_from ::
  "'k kernel \<Rightarrow> nat list \<Rightarrow> aio_phase \<Rightarrow> 'k c2_state \<Rightarrow> string option \<times> aio_phase \<times> 'k c2_state" where
  "aio_close_from K [] p st = (None, p, st)"
| "aio_close_from K (i # rest) p st =
     (let fd = rq_fd (aio_requests p ! i);
          p1 = p\<lparr>aio_requests := (aio_requests p)[i := (aio_requests p ! i)\<lparr>rq_fd := - 1\<rparr>]\<rparr>
      in case OS K ''close(fd)'' (os_close fd) st of
           (Inl e, st1) \<Rightarrow> (Some e, p1, st1)
         | (Inr _, st1) \<Rightarrow> aio_close_from K rest p1 st1)"

definition aio_Run ::
  "'k kernel \<Rightarrow> c2_options \<Rightarrow> string list \<Rightarrow> bool \<Rightarrow> 'k c2_state
     \<Rightarrow> (string option \<times> aio_phase \<times> 'k c2_state) option" where
  "aio_Run K opt paths dump st =
     (case aio_setup K opt paths dump st of
        (Some e, p, st1) \<Rightarrow> Some (Some e, p, st1)
      | (None, p, st1) \<Rightarrow>
          (case aio_threads K opt (aio_begin opt p st1) of
             None \<Rightarrow> None
           | Some (Some e, a) \<Rightarrow> Some (Some e, aio_phase_of a, aio_sys a)
           | Some (None, a) \<Rightarrow>
               Some (aio_close_from K [0..<length (aio_requests (aio_phase_of a))] (aio_phase_of a) (aio_sys a))))"

definition cleanup_close :: "'k kernel \<Rightarrow> string \<Rightarrow> int \<Rightarrow> 'k c2_state \<Rightarrow> 'k c2_state" where
  "cleanup_close K expression fd st = (if 0 \<le> fd then OS_cleanup K expression (os_close fd) st else st)"

definition aio_destroy :: "'k kernel \<Rightarrow> aio_phase \<Rightarrow> 'k c2_state \<Rightarrow> 'k c2_state" where
  "aio_destroy K p st =
     (let st1 = (if aio_ctx p \<noteq> 0 then OS_cleanup K ''syscall(SYS_io_destroy, ctx_)'' (os_io_destroy (aio_ctx p)) st
                 else st);
          st2 = fold (\<lambda>req. cleanup_close K ''close(req.fd)'' (rq_fd req)) (aio_requests p) st1;
          st3 = cleanup_close K ''close(epollFd_)'' (aio_epollFd p) st2
      in cleanup_close K ''close(eventFd_)'' (aio_eventFd p) st3)"

text \<open>\<open>AioPhase phase; phase.Run(...);\<close> with the destructor at the end of the scope.\<close>

definition aio_transfer ::
  "'k kernel \<Rightarrow> c2_options \<Rightarrow> string list \<Rightarrow> bool \<Rightarrow> 'k c2_state \<Rightarrow> (string option \<times> 'k c2_state) option" where
  "aio_transfer K opt paths dump st =
     (case aio_Run K opt paths dump st of
        None \<Rightarrow> None
      | Some (x, p, st1) \<Rightarrow> Some (x, aio_destroy K p st1))"

end
