(* ===== verification/Cache2_Memory.thy ===== *)
theory Cache2_Memory
  imports Cache2_Options Hal_Memory
begin

text \<open>
  src/cache2_hal_aio.cc, struct \<open>HostMemory\<close> and its use in \<open>main\<close>: the buffer comes from
  \<open>malloc\<close> or from the driver, with huge pages and, if that fails, with normal pages. An
  exception is \<open>Some\<close> text beside the object and the state as they were when it was thrown; a
  result \<open>None\<close> around it is the undefined behaviour of \<open>std::lcm\<close> out of range.

  In contrast to the data strategy, a release that the driver refuses stops the clean-up, and
  the fields say what is still held. The account is therefore kept with the releases that
  succeeded (\<open>returned\<close>).
\<close>

record host_memory =
  mallocBase :: u64
  hm_initialized :: bool
  hm_deviceSet :: bool
  hm_mapped :: bool
  hm_device :: int
  hm_addr :: u64
  hm_handle :: u64

definition HostMemory_new :: host_memory where
  "HostMemory_new = \<lparr>mallocBase = nullptr, hm_initialized = False, hm_deviceSet = False,
     hm_mapped = False, hm_device = 0, hm_addr = nullptr, hm_handle = nullptr\<rparr>"

text \<open>\<open>SDK(call)\<close>: the exception, if any, and what the call wrote to its output.\<close>

definition SDK :: "'w env \<Rightarrow> string \<Rightarrow> native \<Rightarrow> 'w sys \<Rightarrow> string option \<times> u64 \<times> 'w sys" where
  "SDK E expression c s =
     (let (ret, out, s') = call E c s
      in (if ret \<noteq> 0 then Some (expression @ '' ret='' @ to_string_int ret @ '' errno=0'') else None,
          out, s'))"

text \<open>\<open>if (b) { SDK(call); }\<close>\<close>

definition SDK_if :: "'w env \<Rightarrow> bool \<Rightarrow> string \<Rightarrow> native \<Rightarrow> 'w sys \<Rightarrow> string option \<times> 'w sys" where
  "SDK_if E b expression c s =
     (if b then let (x, _, s') = SDK E expression c s in (x, s') else (None, s))"

definition hm_Release :: "'w env \<Rightarrow> host_memory \<Rightarrow> 'w sys \<Rightarrow> string option \<times> host_memory \<times> 'w sys" where
  "hm_Release E m s =
     (if mallocBase m \<noteq> nullptr
      then let (_, _, s1) = call E (std_free (mallocBase m)) s
           in (None, m\<lparr>mallocBase := nullptr, hm_addr := nullptr\<rparr>, s1)
      else let (x1, s1) = SDK_if E (hm_mapped m) ''halMemUnmap(addr)'' (halMemUnmap (hm_addr m)) s
      in if x1 \<noteq> None then (x1, m, s1)
      else let m1 = m\<lparr>hm_mapped := False\<rparr>;
               (x2, s2) = SDK_if E (hm_handle m1 \<noteq> nullptr) ''halMemRelease(handle)''
                            (halMemRelease (hm_handle m1)) s1
      in if x2 \<noteq> None then (x2, m1, s2)
      else let m2 = m1\<lparr>hm_handle := nullptr\<rparr>;
               (x3, s3) = SDK_if E (hm_addr m2 \<noteq> nullptr) ''halMemAddressFree(addr)''
                            (halMemAddressFree (hm_addr m2)) s2
      in if x3 \<noteq> None then (x3, m2, s3)
      else (None, m2\<lparr>hm_addr := nullptr\<rparr>, s3))"

text \<open>The destructor; the first component of the result is the flag \<open>cleanupFailed\<close>.\<close>

definition hm_destroy :: "'w env \<Rightarrow> bool \<Rightarrow> host_memory \<Rightarrow> 'w sys \<Rightarrow> bool \<times> host_memory \<times> 'w sys" where
  "hm_destroy E failed m s =
     (let (x1, m1, s1) = hm_Release E m s;
          (x2, s2) = SDK_if E (hm_deviceSet m1) ''aclrtResetDevice(device)'' (aclrtResetDevice (hm_device m1)) s1;
          (x3, s3) = SDK_if E (hm_initialized m1) ''aclFinalize()'' aclFinalize s2
      in (failed \<or> x1 \<noteq> None \<or> x2 \<noteq> None \<or> x3 \<noteq> None, m1, s3))"

definition hm_prop :: "bool \<Rightarrow> drv_mem_prop" where
  "hm_prop huge =
     \<lparr>side = MEM_HOST_SIDE, devid = 0, module_id = 0,
      pg_type = (if huge then MEM_HUGE_PAGE_TYPE else MEM_NORMAL_PAGE_TYPE),
      mem_type = MEM_DDR_TYPE, reserve = 0\<rparr>"

definition hm_stride :: "u64 \<Rightarrow> u64 \<Rightarrow> u64" where
  "hm_stride bytes alignment = (bytes + alignment - 1) div alignment * alignment"

definition hm_Allocate ::
  "'w env \<Rightarrow> u64 \<Rightarrow> bool \<Rightarrow> host_memory \<Rightarrow> 'w sys \<Rightarrow> (string option \<times> host_memory \<times> 'w sys) option" where
  "hm_Allocate E bytes huge m s =
     (let (x0, g, s0) = SDK E ''halMemGetAllocationGranularity(&prop, MEM_ALLOC_GRANULARITY_RECOMMENDED, &allocGranularity)''
            (halMemGetAllocationGranularity 0 (hm_prop huge)) s
      in if x0 \<noteq> None then Some (x0, m, s0)
      else if g = 0 \<or> g > maxBytes then Some (Some ''invalid allocation granularity'', m, s0)
      else case std_lcm (push_bit 30 1) g of
             None \<Rightarrow> None
           | Some alignment \<Rightarrow>
      (let rankStride = hm_stride bytes alignment;
           (x1, a, s1) = SDK E ''halMemAddressReserve(&addr, rankStride, 0, nullptr, 0)''
             (halMemAddressReserve (hm_addr m) rankStride 0 nullptr 0) s0;
           m1 = m\<lparr>hm_addr := a\<rparr>
       in if x1 \<noteq> None then Some (x1, m1, s1)
       else if hm_addr m1 = nullptr then Some (Some ''null HAL reservation'', m1, s1)
       else let (x2, h, s2) = SDK E ''halMemCreate(&handle, rankStride, &prop, 0)''
                  (halMemCreate (hm_handle m1) rankStride (hm_prop huge) 0) s1;
                m2 = m1\<lparr>hm_handle := h\<rparr>
       in if x2 \<noteq> None then Some (x2, m2, s2)
       else let (x3, _, s3) = SDK E ''halMemMap(addr, rankStride, 0, handle, 0)''
                  (halMemMap (hm_addr m2) rankStride 0 (hm_handle m2) 0) s2
       in if x3 \<noteq> None then Some (x3, m2, s3)
       else Some (None, m2\<lparr>hm_mapped := True\<rparr>, s3)))"

text \<open>How \<open>main\<close> obtains the buffer.\<close>

definition align_page :: "u64 \<Rightarrow> u64" where
  "align_page base = and (base + 4096 - 1) (not (4096 - 1))"

definition hm_malloc :: "'w env \<Rightarrow> u64 \<Rightarrow> host_memory \<Rightarrow> 'w sys \<Rightarrow> string option \<times> host_memory \<times> 'w sys" where
  "hm_malloc E bytes m s =
     (let (_, base, s1) = call E (std_malloc (bytes + 4096 - 1)) s
      in if base = nullptr then (Some ''malloc failed'', m\<lparr>mallocBase := base\<rparr>, s1)
         else (None, m\<lparr>mallocBase := base, hm_addr := align_page base\<rparr>, s1))"

definition hm_hal ::
  "'w env \<Rightarrow> c2_options \<Rightarrow> host_memory \<Rightarrow> 'w sys \<Rightarrow> (string option \<times> host_memory \<times> 'w sys) option" where
  "hm_hal E opt m s =
     (let m0 = m\<lparr>hm_device := int (unat (c2_device opt))\<rparr>;
          (x1, _, s1) = SDK E ''aclInit(nullptr)'' aclInit s
      in if x1 \<noteq> None then Some (x1, m0, s1)
      else let m1 = m0\<lparr>hm_initialized := True\<rparr>;
               (x2, _, s2) = SDK E ''aclrtSetDevice(opt.device)'' (aclrtSetDevice (hm_device m0)) s1
      in if x2 \<noteq> None then Some (x2, m1, s2)
      else let m2 = m1\<lparr>hm_deviceSet := True\<rparr>
      in case hm_Allocate E (c2_bytes opt) (c2_pages opt \<noteq> ''normal'') m2 s2 of
           None \<Rightarrow> None
         | Some (None, m3, s3) \<Rightarrow> Some (None, m3, s3)
         | Some (Some e, m3, s3) \<Rightarrow>
             if c2_pages opt \<noteq> ''auto'' then Some (Some e, m3, s3)
             else (case hm_Release E m3 s3 of
                 (Some e', m4, s4) \<Rightarrow> Some (Some e', m4, s4)
               | (None, m4, s4) \<Rightarrow> hm_Allocate E (c2_bytes opt) False m4 s4))"

definition hm_acquire ::
  "'w env \<Rightarrow> c2_options \<Rightarrow> 'w sys \<Rightarrow> (string option \<times> host_memory \<times> 'w sys) option" where
  "hm_acquire E opt s =
     (if c2_memoryType opt = ''malloc'' then Some (hm_malloc E (c2_bytes opt) HostMemory_new s)
      else hm_hal E opt HostMemory_new s)"

subsection \<open>The account\<close>

text \<open>
  Obtained: what a call wrote to a pointer or handle variable, whether or not it succeeded, and
  every successful mapping. Returned: what a successful release call gave back; \<open>free\<close> cannot
  fail.
\<close>

definition va_returned :: "event \<Rightarrow> u64 multiset" where
  "va_returned e = (case e of (halMemAddressFree a, ret, out) \<Rightarrow> if ret = 0 then {#a#} else {#} | _ \<Rightarrow> {#})"

definition handle_obtained :: "event \<Rightarrow> u64 multiset" where
  "handle_obtained e = (case e of
     (halMemCreate _ _ _ _, ret, out) \<Rightarrow> (if out \<noteq> nullptr then {#out#} else {#}) | _ \<Rightarrow> {#})"

definition handle_returned :: "event \<Rightarrow> u64 multiset" where
  "handle_returned e = (case e of (halMemRelease h, ret, out) \<Rightarrow> if ret = 0 then {#h#} else {#} | _ \<Rightarrow> {#})"

definition map_returned :: "event \<Rightarrow> u64 multiset" where
  "map_returned e = (case e of (halMemUnmap p, ret, out) \<Rightarrow> if ret = 0 then {#p#} else {#} | _ \<Rightarrow> {#})"

definition heap_obtained :: "event \<Rightarrow> u64 multiset" where
  "heap_obtained e = (case e of
     (std_malloc _, ret, out) \<Rightarrow> (if out \<noteq> nullptr then {#out#} else {#}) | _ \<Rightarrow> {#})"

definition heap_returned :: "event \<Rightarrow> u64 multiset" where
  "heap_returned e = (case e of (std_free p, ret, out) \<Rightarrow> {#p#} | _ \<Rightarrow> {#})"

lemmas hm_ledger = va_acquired_def va_returned_def handle_obtained_def handle_returned_def
  map_acquired_def map_returned_def heap_obtained_def heap_returned_def

definition hm_va :: "host_memory \<Rightarrow> u64 multiset" where
  "hm_va m = (if mallocBase m = nullptr \<and> hm_addr m \<noteq> nullptr then {#hm_addr m#} else {#})"

definition hm_handles :: "host_memory \<Rightarrow> u64 multiset" where
  "hm_handles m = (if hm_handle m \<noteq> nullptr then {#hm_handle m#} else {#})"

definition hm_maps :: "host_memory \<Rightarrow> u64 multiset" where
  "hm_maps m = (if hm_mapped m then {#hm_addr m#} else {#})"

definition hm_heap :: "host_memory \<Rightarrow> u64 multiset" where
  "hm_heap m = (if mallocBase m \<noteq> nullptr then {#mallocBase m#} else {#})"

lemmas hm_held = hm_va_def hm_handles_def hm_maps_def hm_heap_def

definition hm_accounts :: "event list \<Rightarrow> host_memory \<Rightarrow> host_memory \<Rightarrow> bool" where
  "hm_accounts ev m m' \<longleftrightarrow>
     hm_va m + tally va_acquired ev = tally va_returned ev + hm_va m' \<and>
     hm_handles m + tally handle_obtained ev = tally handle_returned ev + hm_handles m' \<and>
     hm_maps m + tally map_acquired ev = tally map_returned ev + hm_maps m' \<and>
     hm_heap m + tally heap_obtained ev = tally heap_returned ev + hm_heap m'"

text \<open>Everything obtained has been returned.\<close>

definition hm_settled :: "event list \<Rightarrow> bool" where
  "hm_settled ev \<longleftrightarrow> tally va_acquired ev = tally va_returned ev \<and>
     tally handle_obtained ev = tally handle_returned ev \<and>
     tally map_acquired ev = tally map_returned ev \<and> tally heap_obtained ev = tally heap_returned ev"

text \<open>Memory from \<open>malloc\<close> has neither a handle nor a mapping.\<close>

definition hm_ok :: "host_memory \<Rightarrow> bool" where
  "hm_ok m \<longleftrightarrow> mallocBase m \<noteq> nullptr \<longrightarrow> \<not> hm_mapped m \<and> hm_handle m = nullptr"

definition hm_empty :: "host_memory \<Rightarrow> bool" where
  "hm_empty m \<longleftrightarrow> mallocBase m = nullptr \<and> \<not> hm_mapped m \<and> hm_addr m = nullptr \<and> hm_handle m = nullptr"

lemma hm_accounts_refl [simp]: "hm_accounts [] m m"
  by (simp add: hm_accounts_def)

lemma account_join:
  fixes a b c :: "'a multiset"
  assumes "a + p = q + b" and "b + p' = q' + c"
  shows "a + (p + p') = (q + q') + c"
  using assms by (metis add.assoc add.commute)

lemma hm_accounts_trans:
  "hm_accounts ev m m' \<Longrightarrow> hm_accounts ev' m' m'' \<Longrightarrow> hm_accounts (ev @ ev') m m''"
  unfolding hm_accounts_def tally_simps by (blast intro: account_join)

lemma hm_accounts_settled:
  "hm_accounts ev m m' \<Longrightarrow> hm_empty m \<Longrightarrow> hm_empty m' \<Longrightarrow> hm_settled ev"
  by (simp add: hm_accounts_def hm_settled_def hm_empty_def hm_held)

lemma SDK_spec:
  assumes "SDK E x c s = (e, out, s')"
  shows "\<exists>ret. emits [(c, ret, out)] s s' \<and> (e = None \<longleftrightarrow> ret = 0)"
  using assms call_emits [of E c s] by (auto simp: SDK_def split: prod.splits if_splits)

lemma SDK_if_spec:
  assumes "SDK_if E b x c s = (e, s')"
  obtains (made) ret out where "b" "emits [(c, ret, out)] s s'" "e = None \<longleftrightarrow> ret = 0"
  | (skipped) "\<not> b" "emits [] s s'" "e = None"
proof (cases b)
  case True
  then obtain out where "SDK E x c s = (e, out, s')"
    using assms by (auto simp: SDK_if_def split: prod.splits)
  then show ?thesis
    using True SDK_spec [of E x c s e out s'] made by blast
next
  case False
  then show ?thesis
    using assms skipped by (simp add: SDK_if_def)
qed

text \<open>The three steps of a release, each on its field.\<close>

lemma unmap_step:
  assumes "SDK_if E (hm_mapped m) x (halMemUnmap (hm_addr m)) s = (e, s')"
  shows "\<exists>ev. emits ev s s' \<and> hm_accounts ev m (if e = None then m\<lparr>hm_mapped := False\<rparr> else m)"
  using assms
proof (cases rule: SDK_if_spec)
  case (made ret out)
  then show ?thesis
    by (intro exI [of _ "[(halMemUnmap (hm_addr m), ret, out)]"])
      (simp add: hm_accounts_def hm_held hm_ledger)
next
  case skipped
  then show ?thesis
    by (intro exI [of _ "[]"]) (simp add: hm_accounts_def hm_held)
qed

lemma release_step:
  assumes "SDK_if E (hm_handle m \<noteq> nullptr) x (halMemRelease (hm_handle m)) s = (e, s')"
  shows "\<exists>ev. emits ev s s' \<and> hm_accounts ev m (if e = None then m\<lparr>hm_handle := nullptr\<rparr> else m)"
  using assms
proof (cases rule: SDK_if_spec)
  case (made ret out)
  then show ?thesis
    by (intro exI [of _ "[(halMemRelease (hm_handle m), ret, out)]"])
      (simp add: hm_accounts_def hm_held hm_ledger)
next
  case skipped
  then show ?thesis
    by (intro exI [of _ "[]"]) (simp add: hm_accounts_def hm_held)
qed

lemma free_step:
  assumes "SDK_if E (hm_addr m \<noteq> nullptr) x (halMemAddressFree (hm_addr m)) s = (e, s')"
    and "mallocBase m = nullptr" and "\<not> hm_mapped m"
  shows "\<exists>ev. emits ev s s' \<and> hm_accounts ev m (if e = None then m\<lparr>hm_addr := nullptr\<rparr> else m)"
  using assms(1)
proof (cases rule: SDK_if_spec)
  case (made ret out)
  then show ?thesis
    using assms(2,3) by (intro exI [of _ "[(halMemAddressFree (hm_addr m), ret, out)]"])
      (simp add: hm_accounts_def hm_held hm_ledger)
next
  case skipped
  then show ?thesis
    using assms(2,3) by (intro exI [of _ "[]"]) (simp add: hm_accounts_def hm_held)
qed

definition same_flags :: "host_memory \<Rightarrow> host_memory \<Rightarrow> bool" where
  "same_flags m m' \<longleftrightarrow> hm_deviceSet m' = hm_deviceSet m \<and> hm_initialized m' = hm_initialized m \<and>
     hm_device m' = hm_device m"

lemma hm_Release_spec:
  assumes "hm_Release E m s = (x, m', s')" and ok: "hm_ok m"
  shows "\<exists>ev. emits ev s s' \<and> hm_accounts ev m m' \<and> hm_ok m' \<and> (x = None \<longrightarrow> hm_empty m') \<and> same_flags m m'"
proof (cases "mallocBase m = nullptr")
  case False
  obtain r out s1 where c: "call E (std_free (mallocBase m)) s = (r, out, s1)"
    by (cases "call E (std_free (mallocBase m)) s") auto
  then have "x = None \<and> m' = m\<lparr>mallocBase := nullptr, hm_addr := nullptr\<rparr> \<and> s' = s1"
    using assms(1) False by (simp add: hm_Release_def)
  then show ?thesis
    using call_emits [OF c] ok False
    by (intro exI [of _ "[(std_free (mallocBase m), r, out)]"])
      (simp add: hm_accounts_def hm_held hm_ledger hm_ok_def hm_empty_def same_flags_def)
next
  case hal: True
  define m1 where "m1 = m\<lparr>hm_mapped := False\<rparr>"
  define m2 where "m2 = m1\<lparr>hm_handle := nullptr\<rparr>"
  obtain x1 s1 where 1: "SDK_if E (hm_mapped m) ''halMemUnmap(addr)'' (halMemUnmap (hm_addr m)) s = (x1, s1)"
    by fastforce
  obtain x2 s2 where 2: "SDK_if E (hm_handle m1 \<noteq> nullptr) ''halMemRelease(handle)''
      (halMemRelease (hm_handle m1)) s1 = (x2, s2)" by fastforce
  obtain x3 s3 where 3: "SDK_if E (hm_addr m2 \<noteq> nullptr) ''halMemAddressFree(addr)''
      (halMemAddressFree (hm_addr m2)) s2 = (x3, s3)" by fastforce
  have res: "(x, m', s') = (if x1 \<noteq> None then (x1, m, s1) else if x2 \<noteq> None then (x2, m1, s2)
      else if x3 \<noteq> None then (x3, m2, s3) else (None, m2\<lparr>hm_addr := nullptr\<rparr>, s3))"
    using assms(1) hal 1 2 3 by (auto simp: hm_Release_def Let_def m1_def m2_def)
  obtain e1 where e1: "emits e1 s s1" "hm_accounts e1 m (if x1 = None then m1 else m)"
    using unmap_step [OF 1, folded m1_def] by blast
  obtain e2 where e2: "emits e2 s1 s2" "hm_accounts e2 m1 (if x2 = None then m2 else m1)"
    using release_step [OF 2, folded m2_def] by blast
  have base2: "mallocBase m2 = nullptr" "\<not> hm_mapped m2"
    using hal by (simp_all add: m2_def m1_def)
  obtain e3 where e3: "emits e3 s2 s3" "hm_accounts e3 m2 (if x3 = None then m2\<lparr>hm_addr := nullptr\<rparr> else m2)"
    using free_step [OF 3 base2] by blast
  have ok': "hm_ok m'" "x = None \<longrightarrow> hm_empty m'" "same_flags m m'"
    using res hal ok
    by (auto simp: m1_def m2_def hm_ok_def hm_empty_def same_flags_def split: if_splits)
  consider "x1 \<noteq> None" | "x1 = None" "x2 \<noteq> None" | "x1 = None" "x2 = None" by blast
  then have "\<exists>ev. emits ev s s' \<and> hm_accounts ev m m'"
  proof cases
    case 1
    then show ?thesis
      using res e1 by auto
  next
    case 2
    then show ?thesis
      using res emits_trans [OF e1(1) e2(1)] hm_accounts_trans [of e1 m m1 e2 m1] e1(2) e2(2) by auto
  next
    case 3
    have "emits ((e1 @ e2) @ e3) s s3"
      by (rule emits_trans [OF emits_trans [OF e1(1) e2(1)] e3(1)])
    moreover have "hm_accounts ((e1 @ e2) @ e3) m (if x3 = None then m2\<lparr>hm_addr := nullptr\<rparr> else m2)"
      using 3 e1(2) e2(2) e3(2) by (simp add: hm_accounts_trans)
    moreover have "s' = s3 \<and> m' = (if x3 = None then m2\<lparr>hm_addr := nullptr\<rparr> else m2)"
      using res 3 by (simp split: if_splits)
    ultimately show ?thesis
      by blast
  qed
  then show ?thesis
    using ok' by blast
qed

text \<open>Calls that obtain and return nothing\<close>

lemma hm_accounts_query:
  "hm_accounts [(halMemGetAllocationGranularity g q, ret, out)] m m"
  "hm_accounts [(aclInit, ret, out)] m m" "hm_accounts [(aclFinalize, ret, out)] m m"
  "hm_accounts [(aclrtSetDevice d, ret, out)] m m" "hm_accounts [(aclrtResetDevice d, ret, out)] m m"
  by (simp_all add: hm_accounts_def hm_ledger)

text \<open>The flags do not matter for what is held.\<close>

lemma hm_accounts_flags:
  assumes "hm_accounts ev m m'" and "hm_va n = hm_va m" "hm_handles n = hm_handles m"
    and "hm_maps n = hm_maps m" "hm_heap n = hm_heap m"
    and "hm_va n' = hm_va m'" "hm_handles n' = hm_handles m'" "hm_maps n' = hm_maps m'"
    and "hm_heap n' = hm_heap m'"
  shows "hm_accounts ev n n'"
  using assms by (simp add: hm_accounts_def)

text \<open>A buffer of \<open>bytes\<close>: what a successful allocation leaves.\<close>

definition hm_ready :: "host_memory \<Rightarrow> bool" where
  "hm_ready m \<longleftrightarrow> mallocBase m = nullptr \<and> hm_mapped m \<and> hm_addr m \<noteq> nullptr"

lemma hm_Allocate_spec:
  assumes "hm_Allocate E bytes huge m s = Some (x, m', s')" and empty: "hm_empty m"
  shows "\<exists>ev. emits ev s s' \<and> hm_accounts ev m m' \<and> mallocBase m' = nullptr \<and> same_flags m m' \<and>
    (x = None \<longrightarrow> hm_ready m')"
proof -
  let ?q = "''halMemGetAllocationGranularity(&prop, MEM_ALLOC_GRANULARITY_RECOMMENDED, &allocGranularity)''"
  obtain x0 g s0 where 0: "SDK E ?q (halMemGetAllocationGranularity 0 (hm_prop huge)) s = (x0, g, s0)"
    by (rule prod_cases3)
  obtain r0 where e0: "emits [(halMemGetAllocationGranularity 0 (hm_prop huge), r0, g)] s s0"
    using SDK_spec [OF 0] by blast
  have base: "mallocBase m = nullptr" "hm_addr m = nullptr" "hm_handle m = nullptr" "\<not> hm_mapped m"
    using empty by (simp_all add: hm_empty_def)
  note a0 = hm_accounts_query(1) [of 0 "hm_prop huge" r0 g m]
  show ?thesis
  proof (cases "x0 \<noteq> None \<or> g = 0 \<or> g > maxBytes")
    case True
    then have "m' = m \<and> s' = s0 \<and> x \<noteq> None"
      using assms(1) 0 by (auto simp: hm_Allocate_def split: if_splits)
    then show ?thesis
      using e0 a0 base by (auto simp: same_flags_def)
  next
    case ok0: False
    obtain al where al: "std_lcm (push_bit 30 1) g = Some al"
      using assms(1) 0 ok0 by (auto simp: hm_Allocate_def split: option.splits)
    let ?n = "hm_stride bytes al"
    obtain x1 a s1 where 1: "SDK E ''halMemAddressReserve(&addr, rankStride, 0, nullptr, 0)''
        (halMemAddressReserve (hm_addr m) ?n 0 nullptr 0) s0 = (x1, a, s1)"
      by (rule prod_cases3)
    obtain r1 where e1: "emits [(halMemAddressReserve (hm_addr m) ?n 0 nullptr 0, r1, a)] s0 s1"
      using SDK_spec [OF 1] by blast
    define m1 where "m1 = m\<lparr>hm_addr := a\<rparr>"
    have a1: "hm_accounts [(halMemAddressReserve (hm_addr m) ?n 0 nullptr 0, r1, a)] m m1"
      using base by (simp add: m1_def hm_accounts_def hm_held hm_ledger)
    note t1 = emits_trans [OF e0 e1] and b1 = hm_accounts_trans [OF a0 a1]
    show ?thesis
    proof (cases "x1 \<noteq> None \<or> a = nullptr")
      case True
      then have "m' = m1 \<and> s' = s1 \<and> x \<noteq> None"
        using assms(1) 0 ok0 al 1 by (auto simp: hm_Allocate_def m1_def Let_def split: if_splits)
      then show ?thesis
        using t1 b1 base by (auto simp: same_flags_def m1_def)
    next
      case ok1: False
      obtain x2 h s2 where 2: "SDK E ''halMemCreate(&handle, rankStride, &prop, 0)''
          (halMemCreate (hm_handle m1) ?n (hm_prop huge) 0) s1 = (x2, h, s2)"
        by (rule prod_cases3)
      obtain r2 where e2: "emits [(halMemCreate (hm_handle m1) ?n (hm_prop huge) 0, r2, h)] s1 s2"
        using SDK_spec [OF 2] by blast
      define m2 where "m2 = m1\<lparr>hm_handle := h\<rparr>"
      have a2: "hm_accounts [(halMemCreate (hm_handle m1) ?n (hm_prop huge) 0, r2, h)] m1 m2"
        using base by (simp add: m2_def m1_def hm_accounts_def hm_held hm_ledger)
      obtain x3 o3 s3 where 3: "SDK E ''halMemMap(addr, rankStride, 0, handle, 0)''
          (halMemMap (hm_addr m2) ?n 0 (hm_handle m2) 0) s2 = (x3, o3, s3)"
        by (rule prod_cases3)
      obtain r3 where e3: "emits [(halMemMap (hm_addr m2) ?n 0 (hm_handle m2) 0, r3, o3)] s2 s3"
        "x3 = None \<longleftrightarrow> r3 = 0"
        using SDK_spec [OF 3] by blast
      define m3 where "m3 = (if x3 = None then m2\<lparr>hm_mapped := True\<rparr> else m2)"
      have a3: "hm_accounts [(halMemMap (hm_addr m2) ?n 0 (hm_handle m2) 0, r3, o3)] m2 m3"
        using base e3(2) by (simp add: m3_def m2_def m1_def hm_accounts_def hm_held hm_ledger)
      note t2 = emits_trans [OF t1 e2] and b2 = hm_accounts_trans [OF b1 a2]
      note t3 = emits_trans [OF t2 e3(1)] and b3 = hm_accounts_trans [OF b2 a3]
      have fl: "mallocBase m2 = nullptr" "same_flags m m2" "mallocBase m3 = nullptr" "same_flags m m3"
        "x3 = None \<longrightarrow> hm_ready m3"
        using base ok1 by (simp_all add: m3_def m2_def m1_def same_flags_def hm_ready_def)
      have "(x, m', s') = (if x2 \<noteq> None then (x2, m2, s2) else (x3, m3, s3))"
        using assms(1) 0 ok0 al 1 ok1 2 3
        by (auto simp: hm_Allocate_def m1_def m2_def m3_def Let_def split: if_splits)
      then show ?thesis
        using t2 b2 t3 b3 fl by (cases "x2 = None") auto
    qed
  qed
qed

lemma hm_malloc_spec:
  assumes "hm_malloc E bytes m s = (x, m', s')" and "hm_empty m"
  shows "\<exists>ev. emits ev s s' \<and> hm_accounts ev m m' \<and> hm_ok m' \<and> same_flags m m'"
proof -
  obtain r out s1 where c: "call E (std_malloc (bytes + 4096 - 1)) s = (r, out, s1)"
    by (rule prod_cases3)
  then have res: "(x, m', s') = (if out = nullptr then (Some ''malloc failed'', m\<lparr>mallocBase := out\<rparr>, s1)
      else (None, m\<lparr>mallocBase := out, hm_addr := align_page out\<rparr>, s1))"
    using assms(1) by (simp add: hm_malloc_def)
  then show ?thesis
    using call_emits [OF c] assms(2)
    by (intro exI [of _ "[(std_malloc (bytes + 4096 - 1), r, out)]"])
      (auto simp: hm_accounts_def hm_held hm_ledger hm_ok_def hm_empty_def same_flags_def split: if_splits)
qed

lemma hm_ok_hal: "mallocBase m = nullptr \<Longrightarrow> hm_ok m"
  by (simp add: hm_ok_def)

text \<open>Allocation with the second attempt of \<open>auto\<close>, from an object that holds nothing.\<close>

lemma hm_hal_spec:
  assumes "hm_hal E opt m s = Some (x, m', s')" and "hm_empty m"
  shows "\<exists>ev. emits ev s s' \<and> hm_accounts ev m m' \<and> hm_ok m' \<and> (x = None \<longrightarrow> hm_ready m')"
proof -
  define m0 where "m0 = m\<lparr>hm_device := int (unat (c2_device opt))\<rparr>"
  obtain x1 o1 s1 where 1: "SDK E ''aclInit(nullptr)'' aclInit s = (x1, o1, s1)"
    by (rule prod_cases3)
  obtain r1 where e1: "emits [(aclInit, r1, o1)] s s1"
    using SDK_spec [OF 1] by blast
  define m1 where "m1 = m0\<lparr>hm_initialized := True\<rparr>"
  obtain x2 o2 s2 where 2: "SDK E ''aclrtSetDevice(opt.device)'' (aclrtSetDevice (hm_device m0)) s1 = (x2, o2, s2)"
    by (rule prod_cases3)
  obtain r2 where e2: "emits [(aclrtSetDevice (hm_device m0), r2, o2)] s1 s2"
    using SDK_spec [OF 2] by blast
  define m2 where "m2 = m1\<lparr>hm_deviceSet := True\<rparr>"
  have empty: "hm_empty m0" "hm_empty m1" "hm_empty m2"
    using assms(2) by (simp_all add: hm_empty_def m0_def m1_def m2_def)
  have none: "hm_accounts [] m m0" "hm_accounts [] m m1" "hm_accounts [] m m2"
    by (simp_all add: hm_accounts_def hm_held m0_def m1_def m2_def)
  note a1 = hm_accounts_query(2) [of r1 o1 m] and a2 = hm_accounts_query(4) [of "hm_device m0" r2 o2 m]
  note t2 = emits_trans [OF e1 e2] and b2 = hm_accounts_trans [OF a1 a2]
  have ok: "hm_ok k" if "hm_empty k" for k
    using that by (simp add: hm_empty_def hm_ok_def)
  show ?thesis
  proof (cases "x1 \<noteq> None \<or> x2 \<noteq> None")
    case True
    show ?thesis
    proof (cases "x1 = None")
      case x1: False
      then have "m' = m0 \<and> s' = s1 \<and> x \<noteq> None"
        using assms(1) 1 by (auto simp: hm_hal_def m0_def Let_def)
      then show ?thesis
        using e1 hm_accounts_trans [OF a1 none(1)] ok [OF empty(1)] by auto
    next
      case x1: True
      then have "m' = m1 \<and> s' = s2 \<and> x \<noteq> None"
        using assms(1) 1 2 True by (auto simp: hm_hal_def m0_def m1_def Let_def)
      then show ?thesis
        using t2 hm_accounts_trans [OF b2 none(2)] ok [OF empty(2)] by auto
    qed
  next
    case False
    obtain x3 m3 s3 where 3: "hm_Allocate E (c2_bytes opt) (c2_pages opt \<noteq> ''normal'') m2 s2 = Some (x3, m3, s3)"
      using assms(1) 1 2 False by (auto simp: hm_hal_def m0_def m1_def m2_def Let_def split: option.splits)
    obtain ev3 where e3: "emits ev3 s2 s3" "hm_accounts ev3 m2 m3" "mallocBase m3 = nullptr" "x3 = None \<longrightarrow> hm_ready m3"
      using hm_Allocate_spec [OF 3 empty(3)] by blast
    note t3 = emits_trans [OF t2 e3(1)]
    have b3: "hm_accounts (([(aclInit, r1, o1)] @ [(aclrtSetDevice (hm_device m0), r2, o2)]) @ ev3) m m3"
      using hm_accounts_trans [OF hm_accounts_trans [OF b2 none(3)] e3(2)] by simp
    show ?thesis
    proof (cases "x3 = None \<or> c2_pages opt \<noteq> ''auto''")
      case True
      then have "x = x3 \<and> m' = m3 \<and> s' = s3"
        using assms(1) 1 2 3 False by (auto simp: hm_hal_def m0_def m1_def m2_def Let_def split: option.splits)
      then show ?thesis
        using t3 b3 e3(3,4) hm_ok_hal by blast
    next
      case again: False
      then obtain err where err: "x3 = Some err" by auto
      obtain x4 m4 s4 where 4: "hm_Release E m3 s3 = (x4, m4, s4)"
        by (rule prod_cases3)
      obtain ev4 where e4: "emits ev4 s3 s4" "hm_accounts ev4 m3 m4" "hm_ok m4" "x4 = None \<longrightarrow> hm_empty m4"
        using hm_Release_spec [OF 4 hm_ok_hal [OF e3(3)]] by blast
      note t4 = emits_trans [OF t3 e4(1)] and b4 = hm_accounts_trans [OF b3 e4(2)]
      show ?thesis
      proof (cases "x4 = None")
        case x4: False
        then have "x = x4 \<and> m' = m4 \<and> s' = s4"
          using assms(1) 1 2 3 4 False again err
          by (auto simp: hm_hal_def m0_def m1_def m2_def Let_def split: option.splits)
        then show ?thesis
          using t4 b4 e4(3) x4 by blast
      next
        case x4: True
        then have 5: "hm_Allocate E (c2_bytes opt) False m4 s4 = Some (x, m', s')"
          using assms(1) 1 2 3 4 False again err
          by (auto simp: hm_hal_def m0_def m1_def m2_def Let_def split: option.splits)
        obtain ev5 where e5: "emits ev5 s4 s'" "hm_accounts ev5 m4 m'" "mallocBase m' = nullptr" "x = None \<longrightarrow> hm_ready m'"
          using hm_Allocate_spec [OF 5] e4(4) x4 by blast
        show ?thesis
          using emits_trans [OF t4 e5(1)] hm_accounts_trans [OF b4 e5(2)] e5(3,4) hm_ok_hal by blast
      qed
    qed
  qed
qed

lemma hm_destroy_spec:
  assumes "hm_destroy E failed m s = (failed', m', s')" and "hm_ok m"
  shows "\<exists>ev. emits ev s s' \<and> hm_accounts ev m m' \<and> (\<not> failed' \<longrightarrow> \<not> failed \<and> hm_empty m')"
proof -
  obtain x1 m1 s1 where 1: "hm_Release E m s = (x1, m1, s1)"
    by (rule prod_cases3)
  obtain e1 where e1: "emits e1 s s1" "hm_accounts e1 m m1" "x1 = None \<longrightarrow> hm_empty m1"
    using hm_Release_spec [OF 1 assms(2)] by blast
  obtain x2 s2 where 2: "SDK_if E (hm_deviceSet m1) ''aclrtResetDevice(device)'' (aclrtResetDevice (hm_device m1)) s1 = (x2, s2)"
    by fastforce
  obtain e2 where e2: "emits e2 s1 s2" "hm_accounts e2 m1 m1"
    using 2 hm_accounts_query by (cases rule: SDK_if_spec) (blast, fastforce)
  obtain x3 s3 where 3: "SDK_if E (hm_initialized m1) ''aclFinalize()'' aclFinalize s2 = (x3, s3)"
    by fastforce
  obtain e3 where e3: "emits e3 s2 s3" "hm_accounts e3 m1 m1"
    using 3 hm_accounts_query by (cases rule: SDK_if_spec) (blast, fastforce)
  have res: "failed' = (failed \<or> x1 \<noteq> None \<or> x2 \<noteq> None \<or> x3 \<noteq> None)" "m' = m1" "s' = s3"
    using assms(1) 1 2 3 by (simp_all add: hm_destroy_def)
  show ?thesis
    using emits_trans [OF emits_trans [OF e1(1) e2(1)] e3(1)]
      hm_accounts_trans [OF hm_accounts_trans [OF e1(2) e2(2)] e3(2)] e1(3) res by blast
qed

lemma hm_acquire_spec:
  assumes "hm_acquire E opt s = Some (x, m, s')"
  shows "\<exists>ev. emits ev s s' \<and> hm_accounts ev HostMemory_new m \<and> hm_ok m"
proof -
  have "hm_empty HostMemory_new"
    by (simp add: hm_empty_def HostMemory_new_def)
  then show ?thesis
    using assms hm_malloc_spec [of E "c2_bytes opt" HostMemory_new s x m s']
      hm_hal_spec [of E opt HostMemory_new s x m s']
    by (auto simp: hm_acquire_def split: if_splits)
qed

subsection \<open>The aligned address inside the allocation of \<open>malloc\<close>\<close>

lemma align_page_unat:
  assumes "unat base + 4095 < 2 ^ 64"
  shows "unat (align_page base) = (unat base + 4095) div 4096 * 4096"
proof -
  have m: "(4096 - 1 :: u64) = mask 12"
    by (simp add: mask_eq_exp_minus_1)
  have "unat (base + 4095) = unat base + 4095"
    using assms by (simp add: unat_add_no_wrap)
  moreover have "base + 4096 - 1 = base + 4095"
    by simp
  ultimately show ?thesis
    unfolding align_page_def m unat_and_not_mask by (simp add: add.commute)
qed

lemma align_page_inside:
  assumes "unat base + n + 4095 < 2 ^ 64"
  shows "4096 dvd unat (align_page base)" "unat base \<le> unat (align_page base)"
    "unat (align_page base) + n \<le> unat base + (n + 4095)"
proof -
  have a: "unat (align_page base) = (unat base + 4095) div 4096 * 4096"
    using assms by (intro align_page_unat) simp
  show "4096 dvd unat (align_page base)"
    by (simp add: a)
  have "(unat base + 4095) div 4096 * 4096 + (unat base + 4095) mod 4096 = unat base + 4095"
    by (rule div_mult_mod_eq)
  moreover have "(unat base + 4095) mod 4096 < 4096"
    by simp
  ultimately show "unat base \<le> unat (align_page base)" "unat (align_page base) + n \<le> unat base + (n + 4095)"
    unfolding a by linarith+
qed

end
