(* ===== verification/Cache2_Run.thy ===== *)
theory Cache2_Run
  imports Cache2_Psync Cache2_Aio Cache2_Memory
begin

text \<open>
  src/cache2_hal_aio.cc, \<open>Transfer\<close> and \<open>main\<close> after the command line: the iterations of fill, dump,
  commit, poison, load and verify, the release of the memory, the removal of the files, and the
  exit code.

  A result \<open>None\<close> is either undefined behaviour (\<open>hm_Allocate\<close>) or a phase of the asynchronous
  engine that never ends. The bytes the buffer holds before the first fill are the argument
  \<open>fresh\<close>. Log output has no model.
\<close>

definition Transfer ::
  "'k kernel \<Rightarrow> c2_options \<Rightarrow> string list \<Rightarrow> bool \<Rightarrow> 'k c2_state \<Rightarrow> (string option \<times> 'k c2_state) option" where
  "Transfer K opt paths dump st =
     (if c2_engine opt = ''aio'' then aio_transfer K opt paths dump st
      else Some (psync_blocks K opt dump paths [0..<unat (c2_blocks opt)] st))"

definition archived_path :: "string \<Rightarrow> nat \<Rightarrow> string" where
  "archived_path dir block = dir @ ''/block-'' @ nat_to_string block"

definition archived_paths :: "c2_options \<Rightarrow> string \<Rightarrow> string list" where
  "archived_paths opt dir = map (archived_path dir) [0..<unat (c2_blocks opt)]"

definition temporary_paths :: "c2_options \<Rightarrow> string \<Rightarrow> string list" where
  "temporary_paths opt dir = map (\<lambda>p. p @ ''.tmp'') (archived_paths opt dir)"

definition sync_file :: "'k kernel \<Rightarrow> string \<Rightarrow> 'k c2_state \<Rightarrow> string option \<times> 'k c2_state" where
  "sync_file K path st =
     (case OS K ''open(temporary[block].c_str(), O_WRONLY)'' (os_open path [O_WRONLY] 0) st of
        (Inl e, st1) \<Rightarrow> (Some e, st1)
      | (Inr r, st1) \<Rightarrow>
          (case OS K ''fdatasync(fd)'' (os_fdatasync (os_ret r)) st1 of
             (Inl e, st2) \<Rightarrow> (Some e, OS_cleanup K ''close(fd)'' (os_close (os_ret r)) st2)
           | (Inr _, st2) \<Rightarrow>
               (case OS K ''close(fd)'' (os_close (os_ret r)) st2 of
                  (Inl e, st3) \<Rightarrow> (Some e, st3) | (Inr _, st3) \<Rightarrow> (None, st3))))"

definition publish_file :: "'k kernel \<Rightarrow> c2_options \<Rightarrow> string \<Rightarrow> string \<Rightarrow> 'k c2_state \<Rightarrow> string option \<times> 'k c2_state" where
  "publish_file K opt tmp arch st =
     (case OS K ''rename(temporary[block].c_str(), archived[block].c_str())'' (os_rename tmp arch) st of
        (Inl e, st1) \<Rightarrow> (Some e, st1)
      | (Inr _, st1) \<Rightarrow>
          (case OS K ''stat(archived[block].c_str(), &st)'' (os_stat arch) st1 of
             (Inl e, st2) \<Rightarrow> (Some e, st2)
           | (Inr r, st2) \<Rightarrow>
               (if os_out r \<noteq> int (unat (c2_shards opt) * unat (c2_slotBytes opt))
                then Some ''unexpected file size'' else None, st2)))"

definition commit_file :: "'k kernel \<Rightarrow> c2_options \<Rightarrow> string \<Rightarrow> string \<Rightarrow> 'k c2_state \<Rightarrow> string option \<times> 'k c2_state" where
  "commit_file K opt tmp arch st =
     (case (if c2_sync opt then sync_file K tmp st else (None, st)) of
        (Some e, st1) \<Rightarrow> (Some e, st1)
      | (None, st1) \<Rightarrow> publish_file K opt tmp arch st1)"

fun commit_files ::
  "'k kernel \<Rightarrow> c2_options \<Rightarrow> (string \<times> string) list \<Rightarrow> 'k c2_state \<Rightarrow> string option \<times> 'k c2_state" where
  "commit_files K opt [] st = (None, st)"
| "commit_files K opt ((tmp, arch) # rest) st =
     (case commit_file K opt tmp arch st of
        (Some e, st1) \<Rightarrow> (Some e, st1)
      | (None, st1) \<Rightarrow> commit_files K opt rest st1)"

definition poison :: "c2_options \<Rightarrow> string \<Rightarrow> string" where
  "poison opt buf = memcpy buf 0 (replicate (unat (c2_bytes opt)) (CHR 0xFF))"

definition check_buffer :: "c2_options \<Rightarrow> nat \<Rightarrow> 'k c2_state \<Rightarrow> string option" where
  "check_buffer opt iteration st =
     (case c2_verify opt iteration (io_buffer st) of
        Inl e \<Rightarrow> Some e
      | Inr v \<Rightarrow> if mismatches v \<noteq> 0 then Some (''data mismatches='' @ nat_to_string (mismatches v)) else None)"

definition c2_iteration ::
  "'k kernel \<Rightarrow> c2_options \<Rightarrow> string \<Rightarrow> nat \<Rightarrow> 'k c2_state \<Rightarrow> (string option \<times> 'k c2_state) option" where
  "c2_iteration K opt dir iteration st =
     (case c2_fill opt iteration (io_buffer st) of
        Inl e \<Rightarrow> Some (Some e, st)
      | Inr buf \<Rightarrow>
     (case Transfer K opt (temporary_paths opt dir) True (st\<lparr>io_buffer := buf\<rparr>) of
        None \<Rightarrow> None
      | Some (Some e, st1) \<Rightarrow> Some (Some e, st1)
      | Some (None, st1) \<Rightarrow>
     (case commit_files K opt (zip (temporary_paths opt dir) (archived_paths opt dir)) st1 of
        (Some e, st2) \<Rightarrow> Some (Some e, st2)
      | (None, st2) \<Rightarrow>
     (case Transfer K opt (archived_paths opt dir) False (st2\<lparr>io_buffer := poison opt (io_buffer st2)\<rparr>) of
        None \<Rightarrow> None
      | Some (Some e, st3) \<Rightarrow> Some (Some e, st3)
      | Some (None, st3) \<Rightarrow> Some (check_buffer opt iteration st3, st3)))))"

fun c2_loop ::
  "'k kernel \<Rightarrow> c2_options \<Rightarrow> string \<Rightarrow> nat list \<Rightarrow> 'k c2_state \<Rightarrow> (string option \<times> 'k c2_state) option" where
  "c2_loop K opt dir [] st = Some (None, st)"
| "c2_loop K opt dir (iteration # rest) st =
     (case c2_iteration K opt dir iteration st of
        None \<Rightarrow> None
      | Some (Some e, st1) \<Rightarrow> Some (Some e, st1)
      | Some (None, st1) \<Rightarrow> c2_loop K opt dir rest st1)"

text \<open>The block with the memory: its destructor runs on every way out.\<close>

definition c2_work ::
  "'w env \<Rightarrow> 'k kernel \<Rightarrow> (nat \<Rightarrow> char) \<Rightarrow> c2_options \<Rightarrow> string \<Rightarrow> 'w sys \<Rightarrow> 'k c2_state
     \<Rightarrow> (string option \<times> 'w sys \<times> 'k c2_state) option" where
  "c2_work E K fresh opt dir s st =
     (case hm_acquire E opt s of
        None \<Rightarrow> None
      | Some (x, m, s1) \<Rightarrow>
          (case (case x of
              Some e \<Rightarrow> Some (Some e, st)
            | None \<Rightarrow> c2_loop K opt dir [0..<unat (c2_iterations opt)]
                        (st\<lparr>io_buffer := map fresh [0..<unat (c2_bytes opt)]\<rparr>)) of
             None \<Rightarrow> None
           | Some (y, st1) \<Rightarrow>
               (case hm_destroy E (cleanupFailed st1) m s1 of
                  (failed, _, s2) \<Rightarrow> Some (y, s2, st1\<lparr>cleanupFailed := failed\<rparr>))))"

fun unlink_files :: "'k kernel \<Rightarrow> string list \<Rightarrow> 'k c2_state \<Rightarrow> string option \<times> 'k c2_state" where
  "unlink_files K [] st = (None, st)"
| "unlink_files K (path # rest) st =
     (case OS K ''unlink(path.c_str())'' (os_unlink path) st of
        (Inl e, st1) \<Rightarrow> (Some e, st1)
      | (Inr _, st1) \<Rightarrow> unlink_files K rest st1)"

definition remove_files :: "'k kernel \<Rightarrow> c2_options \<Rightarrow> string \<Rightarrow> 'k c2_state \<Rightarrow> string option \<times> 'k c2_state" where
  "remove_files K opt dir st =
     (case unlink_files K (archived_paths opt dir) st of
        (Some e, st1) \<Rightarrow> (Some e, st1)
      | (None, st1) \<Rightarrow>
          (case OS K ''rmdir(runTemplate.c_str())'' (os_rmdir dir) st1 of
             (Inl e, st2) \<Rightarrow> (Some e, st2) | (Inr _, st2) \<Rightarrow> (None, st2)))"

definition c2_after ::
  "'k kernel \<Rightarrow> c2_options \<Rightarrow> string \<Rightarrow> 'k c2_state \<Rightarrow> string option \<times> 'k c2_state" where
  "c2_after K opt dir st =
     (if cleanupFailed st then (Some ''resource cleanup failed'', st)
      else if c2_keepFiles opt then (None, st) else remove_files K opt dir st)"

definition c2_run ::
  "'w env \<Rightarrow> 'k kernel \<Rightarrow> (nat \<Rightarrow> char) \<Rightarrow> c2_options \<Rightarrow> 'w sys \<Rightarrow> 'k c2_state
     \<Rightarrow> (string option \<times> 'w sys \<times> 'k c2_state) option" where
  "c2_run E K fresh opt s st =
     (case sys_call K (os_mkdtemp (c2_dir opt @ ''/cache2-hal-aio-XXXXXX'')) st of (r, st1) \<Rightarrow>
      if os_ret r = 0 then Some (Some (''mkdtemp: '' @ os_strerror K (os_errno r)), s, st1)
      else (let dir = os_bytes r
        in case OS K ''statfs(runTemplate.c_str(), &fs)'' (os_statfs dir) st1 of
             (Inl e, st2) \<Rightarrow> Some (Some e, s, st2)
           | (Inr _, st2) \<Rightarrow>
               (case c2_work E K fresh opt dir s st2 of
                  None \<Rightarrow> None
                | Some (Some e, s3, st3) \<Rightarrow> Some (Some e, s3, st3)
                | Some (None, s3, st3) \<Rightarrow>
                    (case c2_after K opt dir st3 of (y, st4) \<Rightarrow> Some (y, s3, st4)))))"

definition c2_start :: "'k \<Rightarrow> 'k c2_state" where
  "c2_start w = \<lparr>io_world = w, io_calls = [], io_buffer = [], cleanupFailed = False\<rparr>"

text \<open>The exit code.\<close>

definition c2_main ::
  "'w env \<Rightarrow> 'k kernel \<Rightarrow> (nat \<Rightarrow> char) \<Rightarrow> string list \<Rightarrow> 'w sys \<Rightarrow> 'k
     \<Rightarrow> (int \<times> 'w sys \<times> 'k c2_state) option" where
  "c2_main E K fresh args s w =
     (let st = c2_start w in
      case c2_parse args of
        C2_Help \<Rightarrow> Some (0, s, st)
      | C2_Fail e \<Rightarrow> Some (1, s, st)
      | C2_Ok opt \<Rightarrow>
          (case c2_run E K fresh opt s st of
             None \<Rightarrow> None
           | Some (y, s', st') \<Rightarrow> Some (if y = None then 0 else 1, s', st')))"

end
