(* ===== verification/Cache2_Files.thy ===== *)
theory Cache2_Files
  imports Cache2_Psync
begin

text \<open>
  The facts about the synchronous transfer of \<open>Cache2_Psync\<close>.

  \<^item> Whatever the operating system answers: every descriptor that is opened is closed once
    (\<open>descriptors_balanced\<close>).
  \<^item> On an operating system that keeps what is written (\<open>posix_files\<close>): a dump leaves in each
    block's file exactly the block's part of the buffer, and a load puts the files' contents
    back at the same places.
\<close>

subsection \<open>Descriptors\<close>

definition makes_fd :: "os_call \<Rightarrow> bool" where
  "makes_fd c \<longleftrightarrow> (case c of os_open _ _ _ \<Rightarrow> True | os_eventfd \<Rightarrow> True | os_epoll_create1 \<Rightarrow> True | _ \<Rightarrow> False)"

definition fd_opened :: "os_call \<times> os_result \<Rightarrow> int multiset" where
  "fd_opened e = (if makes_fd (fst e) \<and> 0 \<le> os_ret (snd e) then {#os_ret (snd e)#} else {#})"

definition fd_closed :: "os_call \<times> os_result \<Rightarrow> int multiset" where
  "fd_closed e = (case e of (os_close fd, r) \<Rightarrow> {#fd#} | _ \<Rightarrow> {#})"

definition fds_of :: "(os_call \<times> os_result \<Rightarrow> int multiset) \<Rightarrow> (os_call \<times> os_result) list \<Rightarrow> int multiset" where
  "fds_of f ev = sum_list (map f ev)"

definition held_fd :: "int \<Rightarrow> int multiset" where
  "held_fd fd = (if 0 \<le> fd then {#fd#} else {#})"

lemma fds_of_simps [simp]:
  "fds_of f [] = {#}" "fds_of f (e # ev) = f e + fds_of f ev" "fds_of f (a @ b) = fds_of f a + fds_of f b"
  by (simp_all add: fds_of_def)

text \<open>
  \<open>fd_step A ev B st st'\<close>: the calls \<open>ev\<close> were made, and the descriptors held before (\<open>A\<close>) and
  after (\<open>B\<close>) balance with the opened and the closed ones.
\<close>

definition fd_step ::
  "int multiset \<Rightarrow> (os_call \<times> os_result) list \<Rightarrow> int multiset \<Rightarrow> 'k c2_state \<Rightarrow> 'k c2_state \<Rightarrow> bool" where
  "fd_step A ev B st st' \<longleftrightarrow> io_calls st' = io_calls st @ ev \<and>
     A + fds_of fd_opened ev = fds_of fd_closed ev + B"

abbreviation io_step ::
  "int \<Rightarrow> (os_call \<times> os_result) list \<Rightarrow> int \<Rightarrow> 'k c2_state \<Rightarrow> 'k c2_state \<Rightarrow> bool" where
  "io_step fd ev fd' \<equiv> fd_step (held_fd fd) ev (held_fd fd')"

lemma io_step_refl [simp]: "fd_step A [] A st st"
  by (simp add: fd_step_def)

lemma io_step_trans:
  assumes "fd_step a ev b st st'" and "fd_step b ev' c st' st''"
  shows "fd_step a (ev @ ev') c st st''"
proof -
  have "a + (fds_of fd_opened ev + fds_of fd_opened ev') =
      (fds_of fd_closed ev + fds_of fd_closed ev') + c"
    using assms unfolding fd_step_def by (metis add.assoc add.commute)
  then show ?thesis
    using assms by (simp add: fd_step_def)
qed

lemma fd_step_add: "fd_step a ev b st st' \<Longrightarrow> fd_step (a + c) ev (b + c) st st'"
  by (simp add: fd_step_def ac_simps)

lemma OS_calls:
  assumes "OS K x c st = (r, st')"
  shows "\<exists>a. io_calls st' = io_calls st @ [(c, a)] \<and> io_buffer st' = io_buffer st \<and>
    cleanupFailed st' = cleanupFailed st \<and> (r = Inr a \<and> 0 \<le> os_ret a \<or> (\<exists>m. r = Inl m \<and> os_ret a < 0))"
  using assms by (auto simp: OS_def sys_call_def split: prod.splits if_splits)

lemma OS_other_step:
  assumes "OS K x c st = (r, st')" and "\<not> makes_fd c" and "\<forall>fd. c \<noteq> os_close fd"
  shows "\<exists>ev. fd_step A ev A st st'"
proof -
  obtain a where "io_calls st' = io_calls st @ [(c, a)]"
    using OS_calls [OF assms(1)] by blast
  moreover have "fd_opened (c, a) = {#}" "fd_closed (c, a) = {#}"
    using assms(2,3) by (auto simp: fd_opened_def fd_closed_def split: os_call.splits)
  ultimately show ?thesis
    by (intro exI [of _ "[(c, a)]"]) (simp add: fd_step_def)
qed

lemma psync_chunk_step:
  assumes "psync_chunk K opt dump block shard pos fd st = (x, st')"
  shows "\<exists>ev. io_step fd0 ev fd0 st st'"
proof -
  obtain c e r st1 where 1: "OS K e c st = (r, st1)" "\<not> makes_fd c" "\<forall>fd. c \<noteq> os_close fd"
    and "io_calls st' = io_calls st1"
    using assms by (cases dump) (auto simp: psync_chunk_def Let_def makes_fd_def split: prod.splits sum.splits if_splits)
  then show ?thesis
    using OS_other_step [OF 1, of "held_fd fd0"] by (auto simp: fd_step_def)
qed

lemma psync_slot_step:
  "psync_slot K opt dump block shard pos fd st = (x, st') \<Longrightarrow> \<exists>ev. io_step fd0 ev fd0 st st'"
proof (induction K opt dump block shard pos fd st rule: psync_slot.induct)
  case (1 K opt dump block shard pos fd st)
  show ?case
  proof (cases "pos < unat (c2_slotBytes opt) \<and> 0 < psync_bytes opt")
    case True
    obtain x1 st1 where c: "psync_chunk K opt dump block shard pos fd st = (x1, st1)" by fastforce
    obtain e1 where e1: "io_step fd0 e1 fd0 st st1"
      using psync_chunk_step [OF c] by blast
    show ?thesis
    proof (cases x1)
      case None
      then have "psync_slot K opt dump block shard (pos + psync_bytes opt) fd st1 = (x, st')"
        using "1.prems" True c by (subst (asm) psync_slot.simps) simp
      then obtain e2 where "io_step fd0 e2 fd0 st1 st'"
        using "1.IH" [OF True c [symmetric] None] by blast
      then show ?thesis
        using io_step_trans [OF e1] by blast
    next
      case (Some e)
      then have "st' = st1"
        using "1.prems" True c by (subst (asm) psync_slot.simps) simp
      then show ?thesis
        using e1 by blast
    qed
  next
    case False
    then have "st' = st"
      using "1.prems" by (subst (asm) psync_slot.simps) auto
    then show ?thesis
      using io_step_refl by blast
  qed
qed

lemma close_step:
  assumes "OS K x (os_close fd) st = (r, st')" and "0 \<le> fd"
  shows "\<exists>ev. fd_step (held_fd fd) ev {#} st st'"
proof -
  obtain a where "io_calls st' = io_calls st @ [(os_close fd, a)]"
    using OS_calls [OF assms(1)] by blast
  then show ?thesis
    using assms(2) by (intro exI [of _ "[(os_close fd, a)]"])
      (simp add: fd_step_def held_fd_def fd_opened_def makes_fd_def fd_closed_def)
qed

lemma cleanup_close_step:
  assumes "0 \<le> fd"
  shows "\<exists>ev. fd_step (held_fd fd) ev {#} st (OS_cleanup K x (os_close fd) st)"
proof -
  obtain r st' where os: "OS K x (os_close fd) st = (r, st')" by fastforce
  have "io_calls (OS_cleanup K x (os_close fd) st) = io_calls st'"
    using os by (simp add: OS_cleanup_def split: sum.splits)
  then show ?thesis
    using close_step [OF os assms] by (simp add: fd_step_def)
qed

lemma made_step:
  assumes "OS K x c st = (r, st')" and "makes_fd c"
  shows "\<exists>ev. fd_step {#} ev (case r of Inl e \<Rightarrow> {#} | Inr a \<Rightarrow> held_fd (os_ret a)) st st' \<and>
    (\<forall>a. r = Inr a \<longrightarrow> 0 \<le> os_ret a)"
proof -
  obtain a where a: "io_calls st' = io_calls st @ [(c, a)]"
    "r = Inr a \<and> 0 \<le> os_ret a \<or> (\<exists>m. r = Inl m \<and> os_ret a < 0)"
    using OS_calls [OF assms(1)] by blast
  then show ?thesis
    using assms(2) by (intro exI [of _ "[(c, a)]"])
      (auto simp: fd_step_def held_fd_def fd_opened_def fd_closed_def makes_fd_def split: os_call.splits)
qed

lemma open_step:
  assumes "OS K x (os_open p fl m) st = (r, st')" and "fd < 0"
  shows "\<exists>ev. io_step fd ev (case r of Inl e \<Rightarrow> fd | Inr a \<Rightarrow> os_ret a) st st' \<and>
    (\<forall>a. r = Inr a \<longrightarrow> 0 \<le> os_ret a)"
  using made_step [OF assms(1)] assms(2)
  by (cases r) (auto simp: makes_fd_def held_fd_def)

lemma psync_shards_step:
  "psync_shards K opt dump path block shards fd st = (x, fd', st') \<Longrightarrow> \<exists>ev. io_step fd ev fd' st st'"
proof (induction shards arbitrary: fd st)
  case Nil
  then show ?case
    by (auto intro: exI [of _ "[]"])
next
  case (Cons shard rest)
  define op where "op = (if fd < 0
      then OS K ''open(paths[block].c_str(), flags, 0644)'' (os_open path (c2_flags opt dump) 420) st
      else (Inr (os_plain fd), st))"
  obtain r st0 where 0: "op = (r, st0)" by fastforce
  have "\<exists>ev. io_step fd ev (case r of Inl e \<Rightarrow> fd | Inr a \<Rightarrow> os_ret a) st st0 \<and> (\<forall>a. r = Inr a \<longrightarrow> 0 \<le> os_ret a)"
  proof (cases "fd < 0")
    case True
    then have "OS K ''open(paths[block].c_str(), flags, 0644)'' (os_open path (c2_flags opt dump) 420) st =
        (r, st0)"
      using 0 by (simp add: op_def)
    then show ?thesis
      using True by (rule open_step)
  next
    case False
    then show ?thesis
      using 0 io_step_refl by (auto simp: op_def intro!: exI [of _ "[]"])
  qed
  then obtain e0 where e0: "io_step fd e0 (case r of Inl e \<Rightarrow> fd | Inr a \<Rightarrow> os_ret a) st st0"
    and pos: "\<forall>a. r = Inr a \<longrightarrow> 0 \<le> os_ret a" by blast
  show ?case
  proof (cases r)
    case (Inl e)
    then show ?thesis
      using Cons.prems 0 e0 by (auto simp: op_def)
  next
    case (Inr a)
    let ?fd = "os_ret a"
    obtain x1 st1 where 1: "psync_slot K opt dump block shard 0 ?fd st0 = (x1, st1)" by fastforce
    obtain e1 where e1: "io_step ?fd e1 ?fd st0 st1"
      using psync_slot_step [OF 1] by blast
    have t1: "io_step fd (e0 @ e1) ?fd st st1"
      using e0 Inr io_step_trans [OF _ e1] by simp
    note body = Cons.prems [unfolded psync_shards.simps, folded op_def, unfolded 0]
    show ?thesis
    proof (cases x1)
      case (Some e)
      then show ?thesis
        using body Inr 1 t1 by auto
    next
      case None
      show ?thesis
      proof (cases "dump \<or> shard + 1 = unat (c2_shards opt)")
        case False
        then have "psync_shards K opt dump path block rest ?fd st1 = (x, fd', st')"
          using body Inr 1 None by simp
        then show ?thesis
          using Cons.IH io_step_trans [OF t1] by blast
      next
        case True
        obtain r2 st2 where 2: "OS K ''close(closing)'' (os_close ?fd) st1 = (r2, st2)" by fastforce
        obtain e2 where e2: "io_step ?fd e2 (- 1) st1 st2"
          using close_step [OF 2] pos Inr by (auto simp: held_fd_def)
        note t2 = io_step_trans [OF t1 e2]
        show ?thesis
        proof (cases r2)
          case (Inl e)
          then show ?thesis
            using body Inr 1 None True 2 t2 by auto
        next
          case (Inr b)
          then have "psync_shards K opt dump path block rest (- 1) st2 = (x, fd', st')"
            using body \<open>r = Inr a\<close> 1 None True 2 by simp
          then show ?thesis
            using Cons.IH io_step_trans [OF t2] by blast
        qed
      qed
    qed
  qed
qed

lemma psync_shards_closed:
  "psync_shards K opt dump path block shards fd st = (None, fd', st') \<Longrightarrow>
     shards \<noteq> [] \<Longrightarrow> dump \<or> last shards + 1 = unat (c2_shards opt) \<Longrightarrow> fd' = - 1"
proof (induction shards arbitrary: fd st)
  case (Cons shard rest)
  show ?case
  proof (cases rest)
    case Nil
    then show ?thesis
      using Cons.prems
      by (auto simp: Let_def split: prod.splits sum.splits option.splits if_splits)
  next
    case (Cons s2 rest')
    then have l: "rest \<noteq> []" "dump \<or> last rest + 1 = unat (c2_shards opt)"
      using Cons.prems by auto
    have "\<exists>fd2 st2. psync_shards K opt dump path block rest fd2 st2 = (None, fd', st')"
      using Cons.prems(1) by (auto simp del: psync_shards.simps(1) simp: Let_def
          split: prod.splits sum.splits option.splits if_splits)
    then show ?thesis
      using Cons.IH l by blast
  qed
qed simp

lemma psync_block_step:
  assumes "psync_block K opt dump path block st = (x, st')" and "c2_shards opt \<noteq> 0"
  shows "\<exists>ev. io_step (- 1) ev (- 1) st st'"
proof -
  let ?ss = "[0..<unat (c2_shards opt)]"
  obtain x1 fd st1 where 1: "psync_shards K opt dump path block ?ss (- 1) st = (x1, fd, st1)"
    by (rule prod_cases3)
  obtain e1 where e1: "io_step (- 1) e1 fd st st1"
    using psync_shards_step [OF 1] by blast
  show ?thesis
  proof (cases x1)
    case None
    have pos: "0 < unat (c2_shards opt)"
      using assms(2) by (simp add: unat_gt_0)
    have "fd = - 1"
      using psync_shards_closed [OF 1 [unfolded None]] pos by simp
    then show ?thesis
      using assms(1) 1 None e1 by (auto simp: psync_block_def)
  next
    case (Some e)
    show ?thesis
    proof (cases "0 \<le> fd")
      case False
      then have "held_fd fd = held_fd (- 1)"
        by (simp add: held_fd_def)
      then show ?thesis
        using assms(1) 1 Some e1 False by (auto simp: psync_block_def fd_step_def)
    next
      case True
      obtain e2 where "fd_step (held_fd fd) e2 {#} st1 (OS_cleanup K ''close(fd)'' (os_close fd) st1)"
        using cleanup_close_step [OF True] by blast
      then have "io_step (- 1) (e1 @ e2) (- 1) st (OS_cleanup K ''close(fd)'' (os_close fd) st1)"
        using io_step_trans [OF e1] by (simp add: held_fd_def)
      moreover have "st' = OS_cleanup K ''close(fd)'' (os_close fd) st1"
        using assms(1) 1 Some True by (simp add: psync_block_def)
      ultimately show ?thesis
        by blast
    qed
  qed
qed

lemma psync_blocks_step:
  assumes "c2_shards opt \<noteq> 0"
  shows "psync_blocks K opt dump paths blocks st = (x, st') \<Longrightarrow> \<exists>ev. io_step (- 1) ev (- 1) st st'"
proof (induction blocks arbitrary: st)
  case Nil
  then show ?case
    by (auto intro: exI [of _ "[]"])
next
  case (Cons block rest)
  obtain x1 st1 where 1: "psync_block K opt dump (paths ! block) block st = (x1, st1)" by fastforce
  obtain e1 where e1: "io_step (- 1) e1 (- 1) st st1"
    using psync_block_step [OF 1 assms] by blast
  show ?case
  proof (cases x1)
    case None
    then show ?thesis
      using Cons.prems 1 Cons.IH [of st1] io_step_trans [OF e1] by auto
  next
    case (Some e)
    then show ?thesis
      using Cons.prems 1 e1 by auto
  qed
qed

subsection \<open>An operating system that keeps what is written\<close>

text \<open>
  The documented behaviour of the POSIX calls, as far as the program relies on it: \<open>files\<close> and
  \<open>fds\<close> read the contents of the files and the open descriptors off the world, a descriptor with
  its file and whether it was opened with \<open>O_DIRECT\<close>. A transfer is described only when \<open>call_fits\<close>: its
  length is at most what Linux transfers in one call (\<open>max_rw_count\<close>), and with \<open>O_DIRECT\<close> its
  length and its offset are multiples of the unit \<open>u\<close> of the file system; what any other one does
  is left open, so it may fail or be short. A write beyond the end of a file is not described either.
\<close>

definition max_rw_count :: nat where
  "max_rw_count = 0x7FFFF000"

definition call_fits :: "nat \<Rightarrow> bool \<Rightarrow> nat \<Rightarrow> nat \<Rightarrow> bool" where
  "call_fits u direct n off \<longleftrightarrow> n \<le> max_rw_count \<and> (direct \<longrightarrow> u dvd n \<and> u dvd off)"

type_synonym file_view = "string \<Rightarrow> string option"
type_synonym fd_view = "int \<Rightarrow> (string \<times> bool) option"

definition posix_open :: "'k kernel \<Rightarrow> ('k \<Rightarrow> file_view) \<Rightarrow> ('k \<Rightarrow> fd_view) \<Rightarrow> bool" where
  "posix_open K files fds \<longleftrightarrow> (\<forall>w p fl m r w'. os_fn K (os_open p fl m) w = (r, w') \<longrightarrow>
     O_CREAT \<in> set fl \<or> files w p \<noteq> None \<longrightarrow>
     0 \<le> os_ret r \<and> fds w (os_ret r) = None \<and> fds w' = (fds w)(os_ret r \<mapsto> (p, O_DIRECT \<in> set fl)) \<and>
     files w' = (files w)(p \<mapsto> (case files w p of None \<Rightarrow> [] | Some c \<Rightarrow> c)))"

definition posix_pwrite :: "nat \<Rightarrow> 'k kernel \<Rightarrow> ('k \<Rightarrow> file_view) \<Rightarrow> ('k \<Rightarrow> fd_view) \<Rightarrow> bool" where
  "posix_pwrite u K files fds \<longleftrightarrow> (\<forall>w fd p direct c data off r w'.
     os_fn K (os_pwrite fd data off) w = (r, w') \<longrightarrow>
     fds w fd = Some (p, direct) \<longrightarrow> call_fits u direct (length data) off \<longrightarrow>
     files w p = Some c \<longrightarrow> off \<le> length c \<longrightarrow>
     os_ret r = int (length data) \<and> fds w' = fds w \<and> files w' = (files w)(p \<mapsto> memcpy c off data))"

definition posix_pread :: "nat \<Rightarrow> 'k kernel \<Rightarrow> ('k \<Rightarrow> file_view) \<Rightarrow> ('k \<Rightarrow> fd_view) \<Rightarrow> bool" where
  "posix_pread u K files fds \<longleftrightarrow> (\<forall>w fd p direct c n off r w'.
     os_fn K (os_pread fd n off) w = (r, w') \<longrightarrow>
     fds w fd = Some (p, direct) \<longrightarrow> call_fits u direct n off \<longrightarrow> files w p = Some c \<longrightarrow>
     os_bytes r = take n (drop off c) \<and> os_ret r = int (length (os_bytes r)) \<and>
     fds w' = fds w \<and> files w' = files w)"

definition posix_close :: "'k kernel \<Rightarrow> ('k \<Rightarrow> file_view) \<Rightarrow> ('k \<Rightarrow> fd_view) \<Rightarrow> bool" where
  "posix_close K files fds \<longleftrightarrow> (\<forall>w fd r w'. os_fn K (os_close fd) w = (r, w') \<longrightarrow>
     fds w fd \<noteq> None \<longrightarrow> os_ret r = 0 \<and> fds w' = (fds w)(fd := None) \<and> files w' = files w)"

definition posix_rename :: "'k kernel \<Rightarrow> ('k \<Rightarrow> file_view) \<Rightarrow> ('k \<Rightarrow> fd_view) \<Rightarrow> bool" where
  "posix_rename K files fds \<longleftrightarrow> (\<forall>w a b r w'. os_fn K (os_rename a b) w = (r, w') \<longrightarrow>
     files w a \<noteq> None \<longrightarrow> a \<noteq> b \<longrightarrow>
     os_ret r = 0 \<and> fds w' = fds w \<and> files w' = (files w)(a := None, b := files w a))"

definition posix_stat :: "'k kernel \<Rightarrow> ('k \<Rightarrow> file_view) \<Rightarrow> ('k \<Rightarrow> fd_view) \<Rightarrow> bool" where
  "posix_stat K files fds \<longleftrightarrow> (\<forall>w p c r w'. os_fn K (os_stat p) w = (r, w') \<longrightarrow>
     files w p = Some c \<longrightarrow>
     os_ret r = 0 \<and> os_out r = int (length c) \<and> fds w' = fds w \<and> files w' = files w)"

definition posix_sync :: "'k kernel \<Rightarrow> ('k \<Rightarrow> file_view) \<Rightarrow> ('k \<Rightarrow> fd_view) \<Rightarrow> bool" where
  "posix_sync K files fds \<longleftrightarrow> (\<forall>w fd r w'. os_fn K (os_fdatasync fd) w = (r, w') \<longrightarrow>
     os_ret r = 0 \<and> fds w' = fds w \<and> files w' = files w)"

definition posix_files :: "nat \<Rightarrow> 'k kernel \<Rightarrow> ('k \<Rightarrow> file_view) \<Rightarrow> ('k \<Rightarrow> fd_view) \<Rightarrow> bool" where
  "posix_files u K files fds \<longleftrightarrow> posix_open K files fds \<and> posix_pwrite u K files fds \<and>
     posix_pread u K files fds \<and> posix_close K files fds \<and> posix_rename K files fds \<and>
     posix_stat K files fds \<and> posix_sync K files fds"

text \<open>The world behind a state, through the two views.\<close>

definition on_disk :: "('k \<Rightarrow> file_view) \<Rightarrow> ('k \<Rightarrow> fd_view) \<Rightarrow>
    file_view \<Rightarrow> fd_view \<Rightarrow> 'k c2_state \<Rightarrow> bool" where
  "on_disk files fds F D st \<longleftrightarrow> files (io_world st) = F \<and> fds (io_world st) = D"

lemma OS_result:
  assumes "OS K x c st = (r, st')"
  shows "\<exists>a. os_fn K c (io_world st) = (a, io_world st') \<and> io_buffer st' = io_buffer st \<and>
    cleanupFailed st' = cleanupFailed st \<and> (0 \<le> os_ret a \<longrightarrow> r = Inr a)"
  using assms by (auto simp: OS_def sys_call_def split: prod.splits if_splits)

lemma posix_open_OS:
  assumes "posix_files u K files fds" and "OS K x (os_open p fl m) st = (r, st')"
    and "on_disk files fds F D st" and "O_CREAT \<in> set fl \<or> F p \<noteq> None"
  shows "\<exists>a. r = Inr a \<and> 0 \<le> os_ret a \<and> D (os_ret a) = None \<and> io_buffer st' = io_buffer st \<and>
    on_disk files fds (F(p \<mapsto> (case F p of None \<Rightarrow> [] | Some c \<Rightarrow> c))) (D(os_ret a \<mapsto> (p, O_DIRECT \<in> set fl))) st'"
  using assms OS_result [OF assms(2)]
  by (auto simp: posix_files_def posix_open_def on_disk_def)

lemma posix_pwrite_OS:
  assumes "posix_files u K files fds" and "OS K x (os_pwrite fd data off) st = (r, st')"
    and "on_disk files fds F D st" and "D fd = Some (p, direct)" and "F p = Some c" and "off \<le> length c"
    and "call_fits u direct (length data) off"
  shows "\<exists>a. r = Inr a \<and> os_ret a = int (length data) \<and> io_buffer st' = io_buffer st \<and>
    on_disk files fds (F(p \<mapsto> memcpy c off data)) D st'"
proof -
  obtain a where a: "os_fn K (os_pwrite fd data off) (io_world st) = (a, io_world st')"
    "io_buffer st' = io_buffer st" "0 \<le> os_ret a \<longrightarrow> r = Inr a"
    using OS_result [OF assms(2)] by blast
  have "os_ret a = int (length data) \<and> fds (io_world st') = fds (io_world st) \<and>
      files (io_world st') = (files (io_world st))(p \<mapsto> memcpy c off data)"
    using assms(1,3-7) a(1) unfolding posix_files_def posix_pwrite_def on_disk_def by blast
  then show ?thesis
    using a assms(3) by (simp add: on_disk_def)
qed

lemma posix_pread_OS:
  assumes "posix_files u K files fds" and "OS K x (os_pread fd n off) st = (r, st')"
    and "on_disk files fds F D st" and "D fd = Some (p, direct)" and "F p = Some c"
    and "call_fits u direct n off"
  shows "\<exists>a. r = Inr a \<and> os_bytes a = take n (drop off c) \<and> os_ret a = int (length (os_bytes a)) \<and>
    io_buffer st' = io_buffer st \<and> on_disk files fds F D st'"
proof -
  obtain a where a: "os_fn K (os_pread fd n off) (io_world st) = (a, io_world st')"
    "io_buffer st' = io_buffer st" "0 \<le> os_ret a \<longrightarrow> r = Inr a"
    using OS_result [OF assms(2)] by blast
  have "os_bytes a = take n (drop off c) \<and> os_ret a = int (length (os_bytes a)) \<and>
      fds (io_world st') = fds (io_world st) \<and> files (io_world st') = files (io_world st)"
    using assms(1,3-6) a(1) unfolding posix_files_def posix_pread_def on_disk_def by blast
  then show ?thesis
    using a assms(3) by (simp add: on_disk_def)
qed

lemma posix_close_OS:
  assumes "posix_files u K files fds" and "OS K x (os_close fd) st = (r, st')"
    and "on_disk files fds F D st" and "D fd \<noteq> None"
  shows "\<exists>a. r = Inr a \<and> io_buffer st' = io_buffer st \<and> on_disk files fds F (D(fd := None)) st'"
  using assms OS_result [OF assms(2)]
  by (auto simp: posix_files_def posix_close_def on_disk_def)

lemma posix_rename_OS:
  assumes "posix_files u K files fds" and "OS K x (os_rename a b) st = (r, st')"
    and "on_disk files fds F D st" and "F a \<noteq> None" and "a \<noteq> b"
  shows "\<exists>i. r = Inr i \<and> io_buffer st' = io_buffer st \<and> on_disk files fds (F(a := None, b := F a)) D st'"
  using assms OS_result [OF assms(2)]
  by (auto simp: posix_files_def posix_rename_def on_disk_def)

lemma posix_stat_OS:
  assumes "posix_files u K files fds" and "OS K x (os_stat p) st = (r, st')"
    and "on_disk files fds F D st" and "F p = Some c"
  shows "\<exists>a. r = Inr a \<and> os_out a = int (length c) \<and> io_buffer st' = io_buffer st \<and> on_disk files fds F D st'"
proof -
  obtain a where a: "os_fn K (os_stat p) (io_world st) = (a, io_world st')"
    "io_buffer st' = io_buffer st" "0 \<le> os_ret a \<longrightarrow> r = Inr a"
    using OS_result [OF assms(2)] by blast
  then show ?thesis
    using assms(1,3,4) by (auto simp: posix_files_def posix_stat_def on_disk_def)
qed

lemma posix_sync_OS:
  assumes "posix_files u K files fds" and "OS K x (os_fdatasync fd) st = (r, st')"
    and "on_disk files fds F D st"
  shows "\<exists>a. r = Inr a \<and> io_buffer st' = io_buffer st \<and> on_disk files fds F D st'"
  using assms OS_result [OF assms(2)]
  by (auto simp: posix_files_def posix_sync_def on_disk_def)

subsection \<open>Dump\<close>

text \<open>The first \<open>n\<close> bytes of a block's part of the buffer, and the whole part.\<close>

definition block_prefix :: "c2_options \<Rightarrow> string \<Rightarrow> nat \<Rightarrow> nat \<Rightarrow> string" where
  "block_prefix opt buf block n =
     take n (drop (block * unat (c2_shards opt) * unat (c2_slotBytes opt)) buf)"

definition block_part :: "c2_options \<Rightarrow> string \<Rightarrow> nat \<Rightarrow> string" where
  "block_part opt buf block = block_prefix opt buf block (unat (c2_shards opt) * unat (c2_slotBytes opt))"

lemma append_chunk: "take n (drop b xs) @ take m (drop (b + n) xs) = take (n + m) (drop b xs)"
  unfolding take_add drop_drop by (simp only: add.commute)

lemma memcpy_end: "memcpy c (length c) data = c @ data"
  by (simp add: memcpy_def)

text \<open>The size of a call divides the slot.\<close>

definition chunks_fit :: "c2_options \<Rightarrow> bool" where
  "chunks_fit opt \<longleftrightarrow> 0 < psync_bytes opt \<and> psync_bytes opt dvd unat (c2_slotBytes opt)"

text \<open>The size is within the limit of the system, and with \<open>O_DIRECT\<close> a multiple of its unit.\<close>

definition sizes_fit :: "nat \<Rightarrow> c2_options \<Rightarrow> bool" where
  "sizes_fit u opt \<longleftrightarrow> psync_bytes opt \<le> max_rw_count \<and> (c2_direct opt \<longrightarrow> u dvd psync_bytes opt)"

lemma direct_flags: "(O_DIRECT \<in> set (c2_flags opt dump)) = c2_direct opt"
  by (simp add: c2_flags_def)

lemma call_fits_at:
  assumes "chunks_fit opt" and "psync_bytes opt dvd pos" and "sizes_fit u opt"
  shows "call_fits u (c2_direct opt) (psync_bytes opt) (shard * unat (c2_slotBytes opt) + pos)"
  using assms unfolding call_fits_def by (meson chunks_fit_def sizes_fit_def dvd_add dvd_mult dvd_trans)

lemma psync_chunk_dump:
  assumes pf: "posix_files u K files fds"
    and st: "on_disk files fds F D st" and fd: "D fd = Some (p, c2_direct opt)"
    and al: "call_fits u (c2_direct opt) (psync_bytes opt) off"
    and off: "off = shard * unat (c2_slotBytes opt) + pos"
    and c: "F p = Some (block_prefix opt (io_buffer st) block off)"
    and len: "block * unat (c2_shards opt) * unat (c2_slotBytes opt) + off + psync_bytes opt \<le> length (io_buffer st)"
    and run: "psync_chunk K opt True block shard pos fd st = (x, st')"
  shows "x = None \<and> io_buffer st' = io_buffer st \<and>
    on_disk files fds (F(p \<mapsto> block_prefix opt (io_buffer st) block (off + psync_bytes opt))) D st'"
proof -
  let ?base = "block * unat (c2_shards opt) * unat (c2_slotBytes opt)"
  let ?data = "take (psync_bytes opt) (drop (?base + off) (io_buffer st))"
  let ?c = "block_prefix opt (io_buffer st) block off"
  have lc: "length ?c = off" and ld: "length ?data = psync_bytes opt"
    using len by (simp_all add: block_prefix_def)
  obtain r st1 where os: "OS K ''pwrite(fd, addr, bytes, offset)'' (os_pwrite fd ?data off) st = (r, st1)"
    by fastforce
  obtain a where a: "r = Inr a" "os_ret a = int (length ?data)" "io_buffer st1 = io_buffer st"
    "on_disk files fds (F(p \<mapsto> memcpy ?c off ?data)) D st1"
    using posix_pwrite_OS [OF pf os st fd c] lc ld al by auto
  have "memcpy ?c off ?data = ?c @ ?data"
    using memcpy_end [of ?c ?data] lc by simp
  also have "\<dots> = block_prefix opt (io_buffer st) block (off + psync_bytes opt)"
    unfolding block_prefix_def by (rule append_chunk)
  finally show ?thesis
    using run os a ld off by (simp add: psync_chunk_def Let_def)
qed

lemma psync_slot_dump:
  assumes pf: "posix_files u K files fds" and fit: "chunks_fit opt" and df: "sizes_fit u opt"
  shows "psync_slot K opt True block shard pos fd st = (x, st') \<Longrightarrow>
    on_disk files fds F D st \<Longrightarrow> D fd = Some (p, c2_direct opt) \<Longrightarrow>
    F p = Some (block_prefix opt (io_buffer st) block (shard * unat (c2_slotBytes opt) + pos)) \<Longrightarrow>
    psync_bytes opt dvd pos \<Longrightarrow> pos \<le> unat (c2_slotBytes opt) \<Longrightarrow>
    block * unat (c2_shards opt) * unat (c2_slotBytes opt) + Suc shard * unat (c2_slotBytes opt) \<le> length (io_buffer st) \<Longrightarrow>
    x = None \<and> io_buffer st' = io_buffer st \<and>
    on_disk files fds (F(p \<mapsto> block_prefix opt (io_buffer st) block (Suc shard * unat (c2_slotBytes opt)))) D st'"
proof (induction "unat (c2_slotBytes opt) - pos" arbitrary: pos st F rule: less_induct)
  case less
  let ?B = "psync_bytes opt" and ?S = "unat (c2_slotBytes opt)"
  have B: "0 < ?B" "?B dvd ?S"
    using fit by (simp_all add: chunks_fit_def)
  show ?case
  proof (cases "pos < ?S")
    case False
    then have "pos = ?S" using less.prems by simp
    then have "F(p \<mapsto> block_prefix opt (io_buffer st) block (Suc shard * ?S)) = F"
      using less.prems(4) by (auto simp: add.commute)
    then show ?thesis
      using less.prems(1,2) False by (subst (asm) psync_slot.simps) simp
  next
    case True
    have le: "pos + ?B \<le> ?S"
    proof -
      have "?B dvd ?S - pos" using B less.prems(5) True by (simp add: dvd_diff_nat)
      then show ?thesis using True by (auto dest: dvd_imp_le)
    qed
    obtain x1 st1 where run: "psync_chunk K opt True block shard pos fd st = (x1, st1)" by fastforce
    have c: "x1 = None" "io_buffer st1 = io_buffer st"
      "on_disk files fds (F(p \<mapsto> block_prefix opt (io_buffer st) block (shard * ?S + pos + ?B))) D st1"
      using psync_chunk_dump [OF pf less.prems(2,3) _ refl less.prems(4) _ run] less.prems(7) le
        call_fits_at [OF fit less.prems(5) df] by simp_all
    have rest: "psync_slot K opt True block shard (pos + ?B) fd st1 = (x, st')"
      using less.prems(1) True B c(1) run by (subst (asm) psync_slot.simps) simp
    show ?thesis
      using less.hyps [OF _ rest c(3) less.prems(3)] c(2) True B le less.prems(5,7)
      by (simp add: add.assoc)
  qed
qed

text \<open>The shards of a block from the \<open>k\<close>-th on; before the first one the file need not exist.\<close>

lemma psync_shards_dump:
  assumes pf: "posix_files u K files fds" and fit: "chunks_fit opt" and df: "sizes_fit u opt"
  shows "psync_shards K opt True path block [k..<unat (c2_shards opt)] (- 1) st = (x, fd, st') \<Longrightarrow>
    on_disk files fds F D st \<Longrightarrow> k \<le> unat (c2_shards opt) \<Longrightarrow>
    (case F path of None \<Rightarrow> [] | Some c \<Rightarrow> c) =
      block_prefix opt (io_buffer st) block (k * unat (c2_slotBytes opt)) \<Longrightarrow>
    Suc block * unat (c2_shards opt) * unat (c2_slotBytes opt) \<le> length (io_buffer st) \<Longrightarrow>
    x = None \<and> io_buffer st' = io_buffer st \<and>
    on_disk files fds (if k < unat (c2_shards opt)
       then F(path \<mapsto> block_part opt (io_buffer st) block) else F) D st'"
proof (induction "unat (c2_shards opt) - k" arbitrary: k st F)
  case 0
  then show ?case by simp
next
  case (Suc n)
  let ?S = "unat (c2_slotBytes opt)" and ?H = "unat (c2_shards opt)"
  have k: "k < ?H" using Suc.hyps(2) by simp
  have cons: "[k..<?H] = k # [Suc k..<?H]"
    using k by (rule upt_conv_Cons)
  obtain r st0 where o: "OS K ''open(paths[block].c_str(), flags, 0644)'' (os_open path (c2_flags opt True) 420) st
      = (r, st0)" by fastforce
  have "O_CREAT \<in> set (c2_flags opt True) \<or> F path \<noteq> None"
    by (simp add: c2_flags_def)
  then obtain a where a: "r = Inr a" "D (os_ret a) = None" "io_buffer st0 = io_buffer st"
    "on_disk files fds (F(path \<mapsto> block_prefix opt (io_buffer st) block (k * ?S))) (D(os_ret a \<mapsto> (path, c2_direct opt))) st0"
    using posix_open_OS [OF pf o Suc.prems(2)] Suc.prems(4) by (auto simp: direct_flags)
  obtain x1 st1 where 1: "psync_slot K opt True block k 0 (os_ret a) st0 = (x1, st1)" by fastforce
  have "Suc k * ?S \<le> ?H * ?S"
    using k by (intro mult_le_mono1) simp
  then have room: "block * ?H * ?S + Suc k * ?S \<le> length (io_buffer st0)"
    using Suc.prems(5) a(3) by (simp add: algebra_simps)
  have s1: "x1 = None" "io_buffer st1 = io_buffer st"
    "on_disk files fds (F(path \<mapsto> block_prefix opt (io_buffer st) block (Suc k * ?S))) (D(os_ret a \<mapsto> (path, c2_direct opt))) st1"
    using psync_slot_dump [OF pf fit df 1 a(4) _ _ _ _ room] a(3) by simp_all
  obtain r2 st2 where c: "OS K ''close(closing)'' (os_close (os_ret a)) st1 = (r2, st2)" by fastforce
  have restored: "D(os_ret a \<mapsto> (path, c2_direct opt), os_ret a := None) = D"
    using a(2) by auto
  obtain b where b: "r2 = Inr b" "io_buffer st2 = io_buffer st1"
    "on_disk files fds (F(path \<mapsto> block_prefix opt (io_buffer st) block (Suc k * ?S))) D st2"
    using posix_close_OS [OF pf c s1(3)] unfolding restored by auto
  have tail: "psync_shards K opt True path block [Suc k..<?H] (- 1) st2 = (x, fd, st')"
    using Suc.prems(1) unfolding cons by (simp add: o a(1) 1 s1(1) c b(1))
  have IH: "x = None \<and> io_buffer st' = io_buffer st2 \<and> on_disk files fds
      (if Suc k < ?H then F(path \<mapsto> block_prefix opt (io_buffer st) block (Suc k * ?S),
         path \<mapsto> block_part opt (io_buffer st2) block)
       else F(path \<mapsto> block_prefix opt (io_buffer st) block (Suc k * ?S))) D st'"
    by (rule Suc.hyps(1) [OF _ tail b(3)]) (use Suc.hyps(2) k s1 b Suc.prems(5) in simp_all)
  have whole: "\<not> Suc k < ?H \<Longrightarrow> block_prefix opt (io_buffer st) block (Suc k * ?S) = block_part opt (io_buffer st) block"
    using k by (simp add: block_part_def less_Suc_eq not_less le_Suc_eq)
  show ?case
    using IH s1 b k whole by (cases "Suc k < ?H") simp_all
qed

text \<open>What a dump leaves in the files.\<close>

definition dumped :: "c2_options \<Rightarrow> string \<Rightarrow> string list \<Rightarrow> nat list \<Rightarrow> (string \<Rightarrow> string option) \<Rightarrow>
    string \<Rightarrow> string option" where
  "dumped opt buf paths blocks F = fold (\<lambda>b G. G(paths ! b \<mapsto> block_part opt buf b)) blocks F"

lemma dumped_other: "p \<notin> (!) paths ` set blocks \<Longrightarrow> dumped opt buf paths blocks F p = F p"
  unfolding dumped_def by (induction blocks arbitrary: F) auto

lemma dumped_Cons:
  "dumped opt buf paths (b # rest) F = dumped opt buf paths rest (F(paths ! b \<mapsto> block_part opt buf b))"
  unfolding dumped_def by simp

lemma dumped_same:
  "distinct (map ((!) paths) blocks) \<Longrightarrow> b \<in> set blocks \<Longrightarrow>
     dumped opt buf paths blocks F (paths ! b) = Some (block_part opt buf b)"
proof (induction blocks arbitrary: F)
  case (Cons a rest)
  show ?case
  proof (cases "b = a")
    case True
    then have "paths ! b \<notin> (!) paths ` set rest"
      using Cons.prems(1) by auto
    then show ?thesis
      using True dumped_other [of "paths ! b" paths rest] by (simp add: dumped_def)
  next
    case False
    then show ?thesis
      using Cons by (simp add: dumped_def)
  qed
qed simp

lemma psync_blocks_dump:
  assumes pf: "posix_files u K files fds" and fit: "chunks_fit opt" and df: "sizes_fit u opt" and pos: "0 < unat (c2_shards opt)"
  shows "psync_blocks K opt True paths blocks st = (x, st') \<Longrightarrow> on_disk files fds F D st \<Longrightarrow>
    \<forall>b \<in> set blocks. F (paths ! b) = None \<and>
      Suc b * unat (c2_shards opt) * unat (c2_slotBytes opt) \<le> length (io_buffer st) \<Longrightarrow>
    distinct (map ((!) paths) blocks) \<Longrightarrow>
    x = None \<and> io_buffer st' = io_buffer st \<and> on_disk files fds (dumped opt (io_buffer st) paths blocks F) D st'"
proof (induction blocks arbitrary: st F)
  case Nil
  then show ?case by (simp add: dumped_def)
next
  case (Cons b rest)
  obtain x1 fd st1 where 1: "psync_shards K opt True (paths ! b) b [0..<unat (c2_shards opt)] (- 1) st = (x1, fd, st1)"
    by (rule prod_cases3)
  have s1: "x1 = None" "io_buffer st1 = io_buffer st"
    "on_disk files fds (F(paths ! b \<mapsto> block_part opt (io_buffer st) b)) D st1"
    using psync_shards_dump [OF pf fit df 1 Cons.prems(2)] Cons.prems(3) pos by (simp_all add: block_prefix_def)
  have tail: "psync_blocks K opt True paths rest st1 = (x, st')"
    using Cons.prems(1) 1 s1(1) by (simp add: psync_block_def)
  have "paths ! a \<noteq> paths ! b" if "a \<in> set rest" for a
    using Cons.prems(4) that by (metis distinct.simps(2) image_eqI list.set_map list.simps(9))
  then have "\<forall>a \<in> set rest. (F(paths ! b \<mapsto> block_part opt (io_buffer st) b)) (paths ! a) = None \<and>
      Suc a * unat (c2_shards opt) * unat (c2_slotBytes opt) \<le> length (io_buffer st1)"
    using Cons.prems(3) s1(2) by simp
  then have "x = None \<and> io_buffer st' = io_buffer st1 \<and> on_disk files fds
      (dumped opt (io_buffer st1) paths rest (F(paths ! b \<mapsto> block_part opt (io_buffer st) b))) D st'"
    using Cons.prems(4) by (intro Cons.IH [OF tail s1(3)]) simp_all
  then show ?case
    unfolding dumped_Cons s1(2) .
qed

subsection \<open>Load\<close>

text \<open>
  A load reads the blocks in order, so the buffer agrees with the dumped one up to the position
  reached: \<open>loaded orig n buf\<close>.
\<close>

definition loaded :: "string \<Rightarrow> nat \<Rightarrow> string \<Rightarrow> bool" where
  "loaded orig n buf \<longleftrightarrow> length buf = length orig \<and> take n buf = take n orig"

lemma loaded_memcpy:
  assumes "loaded orig n buf" and "n + m \<le> length orig"
  shows "loaded orig (n + m) (memcpy buf n (take m (drop n orig)))"
proof -
  have 1: "length (take n buf) = n" "length (take m (drop n orig)) = m"
    using assms by (simp_all add: loaded_def)
  have "take (n + m) (memcpy buf n (take m (drop n orig))) = take n orig @ take m (drop n orig)"
    using assms 1 by (simp add: loaded_def memcpy_def)
  also have "\<dots> = take (n + m) orig"
    by (simp add: take_add)
  finally show ?thesis
    using assms by (simp add: loaded_def memcpy_def)
qed

lemma take_drop_take: "off + m \<le> n \<Longrightarrow> take m (drop off (take n xs)) = take m (drop off xs)"
  by (simp add: drop_take min_def)

lemma psync_chunk_load:
  assumes pf: "posix_files u K files fds"
    and st: "on_disk files fds F D st" and fd: "D fd = Some (p, c2_direct opt)"
    and al: "call_fits u (c2_direct opt) (psync_bytes opt) off"
    and off: "off = shard * unat (c2_slotBytes opt) + pos"
    and c: "F p = Some (block_part opt orig block)"
    and at: "at = block * unat (c2_shards opt) * unat (c2_slotBytes opt) + off"
    and ld: "loaded orig at (io_buffer st)"
    and size: "off + psync_bytes opt \<le> unat (c2_shards opt) * unat (c2_slotBytes opt)"
    and len: "at + psync_bytes opt \<le> length orig"
    and run: "psync_chunk K opt False block shard pos fd st = (x, st')"
  shows "x = None \<and> loaded orig (at + psync_bytes opt) (io_buffer st') \<and> on_disk files fds F D st'"
proof -
  let ?B = "psync_bytes opt"
  let ?base = "block * unat (c2_shards opt) * unat (c2_slotBytes opt)"
  obtain r st1 where os: "OS K ''pread(fd, addr, bytes, offset)'' (os_pread fd ?B off) st = (r, st1)"
    by fastforce
  obtain a where a: "r = Inr a" "os_bytes a = take ?B (drop off (block_part opt orig block))"
    "os_ret a = int (length (os_bytes a))" "io_buffer st1 = io_buffer st" "on_disk files fds F D st1"
    using posix_pread_OS [OF pf os st fd c] al by auto
  have "take ?B (drop off (block_part opt orig block)) = take ?B (drop off (drop ?base orig))"
    unfolding block_part_def block_prefix_def using size by (rule take_drop_take)
  also have "\<dots> = take ?B (drop at orig)"
    unfolding drop_drop at by (simp only: add.commute)
  finally have bytes: "os_bytes a = take ?B (drop at orig)"
    using a(2) by simp
  then have ret: "os_ret a = int ?B" "take (min (nat (os_ret a)) ?B) (os_bytes a) = take ?B (drop at orig)"
    using a(3) len by simp_all
  have "loaded orig (at + ?B) (memcpy (io_buffer st1) at (take ?B (drop at orig)))"
    using loaded_memcpy [OF ld len] a(4) by simp
  moreover have "x = None \<and> st' = st1\<lparr>io_buffer := memcpy (io_buffer st1) at (take ?B (drop at orig))\<rparr>"
    using run os a(1) ret off at by (auto simp: psync_chunk_def Let_def)
  ultimately show ?thesis
    using a(5) by (simp add: on_disk_def)
qed

lemma psync_slot_load:
  assumes pf: "posix_files u K files fds" and fit: "chunks_fit opt" and df: "sizes_fit u opt"
    and c: "F p = Some (block_part opt orig block)" and fd: "D fd = Some (p, c2_direct opt)"
    and shard: "shard < unat (c2_shards opt)"
    and len: "Suc block * unat (c2_shards opt) * unat (c2_slotBytes opt) \<le> length orig"
  shows "psync_slot K opt False block shard pos fd st = (x, st') \<Longrightarrow>
    on_disk files fds F D st \<Longrightarrow> psync_bytes opt dvd pos \<Longrightarrow> pos \<le> unat (c2_slotBytes opt) \<Longrightarrow>
    loaded orig (block * unat (c2_shards opt) * unat (c2_slotBytes opt) + (shard * unat (c2_slotBytes opt) + pos))
      (io_buffer st) \<Longrightarrow>
    x = None \<and> on_disk files fds F D st' \<and>
    loaded orig (block * unat (c2_shards opt) * unat (c2_slotBytes opt) + Suc shard * unat (c2_slotBytes opt))
      (io_buffer st')"
proof (induction "unat (c2_slotBytes opt) - pos" arbitrary: pos st rule: less_induct)
  case less
  let ?B = "psync_bytes opt" and ?S = "unat (c2_slotBytes opt)" and ?H = "unat (c2_shards opt)"
  have B: "0 < ?B" "?B dvd ?S"
    using fit by (simp_all add: chunks_fit_def)
  show ?case
  proof (cases "pos < ?S")
    case False
    then have "pos = ?S" using less.prems by simp
    then show ?thesis
      using less.prems(1,2,5) False by (subst (asm) psync_slot.simps) (simp add: add.commute)
  next
    case True
    have le: "pos + ?B \<le> ?S"
    proof -
      have "?B dvd ?S - pos" using B less.prems(3) True by (simp add: dvd_diff_nat)
      then show ?thesis using True by (auto dest: dvd_imp_le)
    qed
    have "Suc shard * ?S \<le> ?H * ?S"
      using shard by (intro mult_le_mono1) simp
    then have size: "shard * ?S + pos + ?B \<le> ?H * ?S"
      using le by simp
    then have room: "block * ?H * ?S + (shard * ?S + pos) + ?B \<le> length orig"
      using len by (simp add: algebra_simps)
    obtain x1 st1 where run: "psync_chunk K opt False block shard pos fd st = (x1, st1)" by fastforce
    have ch: "x1 = None" "on_disk files fds F D st1"
      "loaded orig (block * ?H * ?S + (shard * ?S + (pos + ?B))) (io_buffer st1)"
      using psync_chunk_load [OF pf less.prems(2) fd _ refl c refl less.prems(5) size room run]
        call_fits_at [OF fit less.prems(3) df] by (simp_all add: add.assoc)
    have rest: "psync_slot K opt False block shard (pos + ?B) fd st1 = (x, st')"
      using less.prems(1) True B ch(1) run by (subst (asm) psync_slot.simps) simp
    show ?thesis
      using less.hyps [OF _ rest ch(2) _ _ ch(3)] True B le less.prems(3) by simp
  qed
qed

text \<open>The shards from the \<open>k\<close>-th on: the file is open unless \<open>k\<close> is the first.\<close>

lemma psync_shards_load:
  assumes pf: "posix_files u K files fds" and fit: "chunks_fit opt" and df: "sizes_fit u opt"
    and c: "F path = Some (block_part opt orig block)"
    and len: "Suc block * unat (c2_shards opt) * unat (c2_slotBytes opt) \<le> length orig"
  shows "psync_shards K opt False path block [k..<unat (c2_shards opt)] fd st = (x, fd', st') \<Longrightarrow>
    k < unat (c2_shards opt) \<Longrightarrow>
    (if fd < 0 then on_disk files fds F D st else D fd = None \<and> on_disk files fds F (D(fd \<mapsto> (path, c2_direct opt))) st) \<Longrightarrow>
    loaded orig (block * unat (c2_shards opt) * unat (c2_slotBytes opt) + k * unat (c2_slotBytes opt)) (io_buffer st) \<Longrightarrow>
    x = None \<and> on_disk files fds F D st' \<and>
    loaded orig (Suc block * unat (c2_shards opt) * unat (c2_slotBytes opt)) (io_buffer st')"
proof (induction "unat (c2_shards opt) - k" arbitrary: k fd st)
  case 0
  then show ?case by simp
next
  case (Suc n)
  let ?S = "unat (c2_slotBytes opt)" and ?H = "unat (c2_shards opt)"
  have k: "k < ?H" using Suc.hyps(2) by simp
  have cons: "[k..<?H] = k # [Suc k..<?H]"
    using k by (rule upt_conv_Cons)
  define op where "op = (if fd < 0
      then OS K ''open(paths[block].c_str(), flags, 0644)'' (os_open path (c2_flags opt False) 420) st
      else (Inr (os_plain fd), st))"
  obtain r st0 where o: "op = (r, st0)" by fastforce
  have "\<exists>a. r = Inr a \<and> 0 \<le> os_ret a \<and> D (os_ret a) = None \<and> io_buffer st0 = io_buffer st \<and>
      on_disk files fds F (D(os_ret a \<mapsto> (path, c2_direct opt))) st0"
  proof (cases "fd < 0")
    case True
    have "F(path \<mapsto> (case F path of None \<Rightarrow> [] | Some c \<Rightarrow> c)) = F"
      using c by auto
    then show ?thesis
      using posix_open_OS [OF pf o [unfolded op_def if_P [OF True]], of F D] True Suc.prems(3) c by (auto simp: direct_flags)
  next
    case False
    then show ?thesis
      using o Suc.prems(3) by (auto simp: op_def)
  qed
  then obtain a where a: "r = Inr a" "0 \<le> os_ret a" "D (os_ret a) = None" "io_buffer st0 = io_buffer st"
    "on_disk files fds F (D(os_ret a \<mapsto> (path, c2_direct opt))) st0" by blast
  obtain x1 st1 where 1: "psync_slot K opt False block k 0 (os_ret a) st0 = (x1, st1)" by fastforce
  have fd: "(D(os_ret a \<mapsto> (path, c2_direct opt))) (os_ret a) = Some (path, c2_direct opt)" by simp
  have s1: "x1 = None" "on_disk files fds F (D(os_ret a \<mapsto> (path, c2_direct opt))) st1"
    "loaded orig (block * ?H * ?S + Suc k * ?S) (io_buffer st1)"
    using psync_slot_load [OF pf fit df c fd k len 1 a(5)] a(4) Suc.prems(4) by simp_all
  note body = Suc.prems(1) [unfolded cons psync_shards.simps, folded op_def, unfolded o]
  show ?case
  proof (cases "Suc k = ?H")
    case True
    obtain r2 st2 where cl: "OS K ''close(closing)'' (os_close (os_ret a)) st1 = (r2, st2)" by fastforce
    have restored: "D(os_ret a \<mapsto> (path, c2_direct opt), os_ret a := None) = D"
      using a(3) by auto
    obtain b where b: "r2 = Inr b" "io_buffer st2 = io_buffer st1" "on_disk files fds F D st2"
      using posix_close_OS [OF pf cl s1(2)] unfolding restored by auto
    have "x = None" "st' = st2"
      using body True a(1) 1 s1(1) cl b(1) by simp_all
    moreover have "block * ?H * ?S + Suc k * ?S = Suc block * ?H * ?S"
      unfolding True by (simp add: algebra_simps)
    ultimately show ?thesis
      using b s1(3) by simp
  next
    case False
    then have tail: "psync_shards K opt False path block [Suc k..<?H] (os_ret a) st1 = (x, fd', st')"
      using body a(1) 1 s1(1) by simp
    show ?thesis
      by (rule Suc.hyps(1) [OF _ tail]) (use Suc.hyps(2) False k a s1 in simp_all)
  qed
qed

lemma psync_blocks_load:
  assumes pf: "posix_files u K files fds" and fit: "chunks_fit opt" and df: "sizes_fit u opt" and pos: "0 < unat (c2_shards opt)"
  shows "psync_blocks K opt False paths [k..<n] st = (x, st') \<Longrightarrow> on_disk files fds F D st \<Longrightarrow> k \<le> n \<Longrightarrow>
    \<forall>b<n. F (paths ! b) = Some (block_part opt orig b) \<Longrightarrow>
    n * unat (c2_shards opt) * unat (c2_slotBytes opt) = length orig \<Longrightarrow>
    loaded orig (k * unat (c2_shards opt) * unat (c2_slotBytes opt)) (io_buffer st) \<Longrightarrow>
    x = None \<and> on_disk files fds F D st' \<and> io_buffer st' = orig"
proof (induction "n - k" arbitrary: k st)
  case 0
  then show ?case by (auto simp: loaded_def)
next
  case (Suc m)
  let ?S = "unat (c2_slotBytes opt)" and ?H = "unat (c2_shards opt)"
  have k: "k < n" using Suc.hyps(2) by simp
  have cons: "[k..<n] = k # [Suc k..<n]"
    using k by (rule upt_conv_Cons)
  obtain x1 fd st1 where 1: "psync_shards K opt False (paths ! k) k [0..<?H] (- 1) st = (x1, fd, st1)"
    by (rule prod_cases3)
  have "Suc k * ?H * ?S \<le> n * ?H * ?S"
    using k by (intro mult_le_mono1) simp
  then have len: "Suc k * ?H * ?S \<le> length orig"
    using Suc.prems(5) by simp
  have c: "F (paths ! k) = Some (block_part opt orig k)"
    using Suc.prems(4) k by simp
  have s1: "x1 = None" "on_disk files fds F D st1" "loaded orig (Suc k * ?H * ?S) (io_buffer st1)"
    using psync_shards_load [where F = F and path = "paths ! k" and block = k and orig = orig, OF pf fit df c len 1 pos] Suc.prems(2,6) by simp_all
  have tail: "psync_blocks K opt False paths [Suc k..<n] st1 = (x, st')"
    using Suc.prems(1) 1 s1(1) unfolding cons by (simp add: psync_block_def)
  show ?case
    by (rule Suc.hyps(1) [OF _ tail s1(2)]) (use Suc.hyps(2) k s1 Suc.prems in simp_all)
qed

end
