(* ===== verification/Cache2_Aio_Facts.thy ===== *)
theory Cache2_Aio_Facts
  imports Cache2_Aio Cache2_Files
begin

text \<open>
  The two threads of an asynchronous phase as a step relation, and its invariants by rule
  induction. Nothing is assumed of the operating system or of the scheduler, except in the last
  section.

  \<^item> \<open>counted\<close>: \<open>completed_\<close> is the number of requests marked done, and no request is counted twice.
  \<^item> \<open>windowed\<close>: at most \<open>depth\<close> requests are submitted and not completed.
  \<^item> \<open>reported\<close>: a phase that ends without an exception has seen a good completion of every request.
\<close>

inductive aio_step :: "'k kernel \<Rightarrow> c2_options \<Rightarrow> 'k aio_run \<Rightarrow> 'k aio_run \<Rightarrow> bool" for K opt where
  main_runs: "os_turn K (io_world (aio_sys a)) = (Main_turn late, w) \<Longrightarrow>
    aio_step K opt a (main_turn K opt late (set_world w a))"
| completion_runs: "os_turn K (io_world (aio_sys a)) = (Completion_turn, w) \<Longrightarrow>
    aio_step K opt a (completion_turn K opt (set_world w a))"

inductive_cases aio_stepE: "aio_step K opt a a'"

abbreviation aio_reach :: "'k kernel \<Rightarrow> c2_options \<Rightarrow> 'k aio_run \<Rightarrow> 'k aio_run \<Rightarrow> bool" where
  "aio_reach K opt \<equiv> (aio_step K opt)\<^sup>*\<^sup>*"

lemma aio_turn_step: "aio_step K opt a (aio_turn K opt a)"
  by (auto simp: aio_turn_def split: prod.splits turn.splits intro: aio_step.intros)

text \<open>Whatever \<open>aio_threads\<close> returns has been reached, and the main thread is done there.\<close>

lemma aio_threads_reach:
  fixes K :: "'k kernel"
  assumes "aio_threads K opt a = Some x"
  shows "aio_reach K opt a (snd x) \<and> aio_main (snd x) = M_Done (fst x)"
proof (rule aio_threads.raw_induct [OF _ assms])
  fix loop :: "'k kernel \<Rightarrow> c2_options \<Rightarrow> 'k aio_run \<Rightarrow> (string option \<times> 'k aio_run) option"
    and K opt a x
  assume IH: "\<And>K opt a x. loop K opt a = Some x \<Longrightarrow> aio_reach K opt a (snd x) \<and> aio_main (snd x) = M_Done (fst x)"
    and body: "(case aio_main a of M_Done r \<Rightarrow> Some (r, a) | _ \<Rightarrow> loop K opt (aio_turn K opt a)) = Some x"
  show "aio_reach K opt a (snd x) \<and> aio_main (snd x) = M_Done (fst x)"
  proof (cases "\<exists>r. aio_main a = M_Done r")
    case True
    then show ?thesis
      using body by auto
  next
    case False
    then have "loop K opt (aio_turn K opt a) = Some x"
      using body by (auto split: main_pc.splits)
    then show ?thesis
      using IH aio_turn_step [of K opt a] by (blast intro: converse_rtranclp_into_rtranclp)
  qed
qed

subsection \<open>What each thread leaves alone\<close>

lemma sys_call_simps [simp]:
  "io_calls (snd (sys_call K c st)) = io_calls st @ [(c, fst (sys_call K c st))]"
  "io_buffer (snd (sys_call K c st)) = io_buffer st"
  "cleanupFailed (snd (sys_call K c st)) = cleanupFailed st"
  by (simp_all add: sys_call_def split: prod.splits)

lemma set_world_simps [simp]:
  "aio_phase_of (set_world w a) = aio_phase_of a" "aio_submitted (set_world w a) = aio_submitted a"
  "aio_main (set_world w a) = aio_main a" "aio_completion (set_world w a) = aio_completion a"
  "io_calls (aio_sys (set_world w a)) = io_calls (aio_sys a)"
  "io_buffer (aio_sys (set_world w a)) = io_buffer (aio_sys a)"
  "cleanupFailed (aio_sys (set_world w a)) = cleanupFailed (aio_sys a)"
  by (simp_all add: set_world_def)

subsection \<open>Where the bytes of the buffer come from\<close>

text \<open>
  \<open>delivered opt calls j c\<close>: one of the calls has put the byte \<open>c\<close> into position \<open>j\<close> of the buffer,
  either a \<open>pread\<close> at the position's offset within its block, or the completion of the request the
  position belongs to.
\<close>

definition delivered :: "c2_options \<Rightarrow> (os_call \<times> os_result) list \<Rightarrow> nat \<Rightarrow> char \<Rightarrow> bool" where
  "delivered opt calls j c \<longleftrightarrow>
     (let slot = unat (c2_slotBytes opt); shards = unat (c2_shards opt)
      in (\<exists>fd n off r block i. (os_pread fd n off, r) \<in> set calls \<and> j = block * (shards * slot) + (off + i) \<and>
            off + i < shards * slot \<and> i < n \<and> int i < os_ret r \<and> i < length (os_bytes r) \<and> c = os_bytes r ! i) \<or>
         (\<exists>ctx r e i. (os_io_getevents ctx, r) \<in> set calls \<and> e \<in> set (stored_events r) \<and>
            j = unat (ev_data e) * slot + i \<and> i < slot \<and> i < length (ev_bytes e) \<and> c = ev_bytes e ! i))"

lemma delivered_more:
  "delivered opt calls j c \<Longrightarrow> delivered opt (calls @ later) j c"
  "delivered opt calls j c \<Longrightarrow> delivered opt (earlier @ calls) j c"
  unfolding delivered_def Let_def set_append Un_iff by blast+

text \<open>
  \<open>carries opt st st'\<close>: from \<open>st\<close> to \<open>st'\<close> the buffer keeps its size, and every byte of it is the old one
  or one that a call made in between has delivered.
\<close>

definition carries :: "c2_options \<Rightarrow> 'k c2_state \<Rightarrow> 'k c2_state \<Rightarrow> bool" where
  "carries opt st st' \<longleftrightarrow> length (io_buffer st') = length (io_buffer st) \<and>
     (\<exists>ev. io_calls st' = io_calls st @ ev \<and> (\<forall>j<length (io_buffer st).
        io_buffer st' ! j = io_buffer st ! j \<or> delivered opt ev j (io_buffer st' ! j)))"

lemma carries_same: "io_calls st' = io_calls st @ ev \<Longrightarrow> io_buffer st' = io_buffer st \<Longrightarrow> carries opt st st'"
  by (simp add: carries_def)

lemma carries_refl [simp]: "carries opt st st"
  by (rule carries_same [of _ _ "[]"]) simp_all

lemma carries_fd_step: "fd_step A ev B st st' \<Longrightarrow> io_buffer st' = io_buffer st \<Longrightarrow> carries opt st st'"
  by (rule carries_same) (simp_all add: fd_step_def)

lemma carries_OS: "OS K x c st = (r, st') \<Longrightarrow> carries opt st st'"
  using OS_calls [of K x c st r st'] by (auto intro: carries_same)

lemma carries_length: "carries opt st st' \<Longrightarrow> length (io_buffer st') = length (io_buffer st)"
  by (simp add: carries_def)

lemma carries_trans:
  assumes "carries opt a b" and "carries opt b c"
  shows "carries opt a c"
proof -
  obtain e1 where e1: "io_calls b = io_calls a @ e1" "\<And>j. j < length (io_buffer a) \<Longrightarrow>
      io_buffer b ! j = io_buffer a ! j \<or> delivered opt e1 j (io_buffer b ! j)"
    using assms(1) by (auto simp: carries_def)
  obtain e2 where e2: "io_calls c = io_calls b @ e2" "\<And>j. j < length (io_buffer a) \<Longrightarrow>
      io_buffer c ! j = io_buffer b ! j \<or> delivered opt e2 j (io_buffer c ! j)"
    using assms by (auto simp: carries_def)
  have "io_buffer c ! j = io_buffer a ! j \<or> delivered opt (e1 @ e2) j (io_buffer c ! j)"
    if "j < length (io_buffer a)" for j
    using e1(2) [OF that] e2(2) [OF that] delivered_more by metis
  then show ?thesis
    using assms e1(1) e2(1) by (auto simp: carries_def)
qed

lemma memcpy_length: "off + length data \<le> length buf \<Longrightarrow> length (memcpy buf off data) = length buf"
  by (simp add: memcpy_def)

lemma memcpy_nth:
  assumes "off + length data \<le> length buf" and "j < length buf"
  shows "memcpy buf off data ! j = (if off \<le> j \<and> j < off + length data then data ! (j - off) else buf ! j)"
  using assms by (auto simp: memcpy_def nth_append)

text \<open>The calls the threads make neither open nor close a descriptor.\<close>

definition io_only :: "(os_call \<times> os_result) list \<Rightarrow> bool" where
  "io_only ev \<longleftrightarrow> (\<forall>e \<in> set ev. \<not> makes_fd (fst e) \<and> (\<forall>fd. fst e \<noteq> os_close fd))"

lemma io_only_simps [simp]: "io_only []" "io_only (a @ b) \<longleftrightarrow> io_only a \<and> io_only b"
  by (auto simp: io_only_def)

lemma io_only_fds: "io_only ev \<Longrightarrow> fds_of fd_opened ev = {#} \<and> fds_of fd_closed ev = {#}"
  by (induction ev) (auto simp: io_only_def fd_opened_def fd_closed_def split: prod.splits os_call.splits)

lemma io_only_step: "io_only ev \<Longrightarrow> io_calls st' = io_calls st @ ev \<Longrightarrow> fd_step A ev A st st'"
  by (simp add: fd_step_def io_only_fds)

lemmas main_turn_simps = main_turn_def aio_check_def submit_request_def Let_def case_prod_beta

lemmas completion_turn_simps = completion_turn_def completion_fails_def count_completion_def
  Let_def case_prod_beta

lemma main_turn_frame:
  "aio_completion (main_turn K opt late a) = aio_completion a"
  "aio_requests (aio_phase_of (main_turn K opt late a)) = aio_requests (aio_phase_of a)"
  "aio_failed (aio_phase_of (main_turn K opt late a)) = aio_failed (aio_phase_of a)"
  "aio_completed (aio_phase_of (main_turn K opt late a)) = aio_completed (aio_phase_of a)"
  "aio_ctx (aio_phase_of (main_turn K opt late a)) = aio_ctx (aio_phase_of a)"
  "aio_eventFd (aio_phase_of (main_turn K opt late a)) = aio_eventFd (aio_phase_of a)"
  "aio_epollFd (aio_phase_of (main_turn K opt late a)) = aio_epollFd (aio_phase_of a)"
  "io_buffer (aio_sys (main_turn K opt late a)) = io_buffer (aio_sys a)"
  "cleanupFailed (aio_sys (main_turn K opt late a)) = cleanupFailed (aio_sys a)"
  by (cases "aio_main a"; simp add: main_turn_simps)+

lemma main_turn_calls:
  "\<exists>ev. io_only ev \<and> io_calls (aio_sys (main_turn K opt late a)) = io_calls (aio_sys a) @ ev"
  by (cases "aio_main a") (auto simp: main_turn_simps io_only_def makes_fd_def)

definition fixed_part :: "'k aio_run \<Rightarrow> iocb list \<times> int list \<times> int \<times> int \<times> int" where
  "fixed_part a = (let p = aio_phase_of a
     in (map rq_cb (aio_requests p), map rq_fd (aio_requests p), aio_ctx p, aio_eventFd p, aio_epollFd p))"

lemma main_turn_fixed: "fixed_part (main_turn K opt late a) = fixed_part a"
  by (simp add: fixed_part_def main_turn_frame Let_def)

lemma map_update_same: "f y = f (xs ! i) \<Longrightarrow> map f (xs[i := y]) = map f xs"
  by (metis list_update_id map_update)

lemma completion_turn_frame:
  "aio_main (completion_turn K opt a) = aio_main a"
  "aio_submitted (completion_turn K opt a) = aio_submitted a"
  "aio_stop (aio_phase_of (completion_turn K opt a)) = aio_stop (aio_phase_of a)"
  "cleanupFailed (aio_sys (completion_turn K opt a)) = cleanupFailed (aio_sys a)"
  "fixed_part (completion_turn K opt a) = fixed_part a"
  by (cases "aio_completion a"; simp add: completion_turn_simps fixed_part_def map_update_same split: list.split)+

lemma completion_turn_calls:
  "\<exists>ev. io_only ev \<and> io_calls (aio_sys (completion_turn K opt a)) = io_calls (aio_sys a) @ ev"
  by (cases "aio_completion a") (auto simp: completion_turn_simps io_only_def makes_fd_def split: list.split)

lemma aio_reach_invariant [consumes 1, case_names world main completion]:
  assumes "aio_reach K opt a a'" and "I a"
    and "\<And>b w. I b \<Longrightarrow> I (set_world w b)"
    and "\<And>b late. I b \<Longrightarrow> I (main_turn K opt late b)"
    and "\<And>b. I b \<Longrightarrow> I (completion_turn K opt b)"
  shows "I a'"
  using assms(1,2) by (induction rule: rtranclp_induct) (auto elim!: aio_stepE intro: assms(3-5))

lemma set_world_fixed [simp]: "fixed_part (set_world w a) = fixed_part a"
  by (simp add: fixed_part_def)

lemma aio_reach_fixed:
  assumes "aio_reach K opt a a'"
  shows "fixed_part a' = fixed_part a \<and> cleanupFailed (aio_sys a') = cleanupFailed (aio_sys a)"
  using assms
  by (rule aio_reach_invariant) (simp_all add: main_turn_fixed completion_turn_frame main_turn_frame)

lemma aio_reach_calls:
  fixes a :: "'a aio_run"
  assumes "aio_reach K opt a a'"
  shows "\<exists>ev. io_only ev \<and> io_calls (aio_sys a') = io_calls (aio_sys a) @ ev"
  using assms
proof (rule aio_reach_invariant)
  fix b :: "'a aio_run" and late
  assume "\<exists>ev. io_only ev \<and> io_calls (aio_sys b) = io_calls (aio_sys a) @ ev"
  then show "\<exists>ev. io_only ev \<and> io_calls (aio_sys (main_turn K opt late b)) = io_calls (aio_sys a) @ ev"
    using main_turn_calls [of K opt late b] by (metis append_assoc io_only_simps(2))
next
  fix b :: "'a aio_run"
  assume "\<exists>ev. io_only ev \<and> io_calls (aio_sys b) = io_calls (aio_sys a) @ ev"
  then show "\<exists>ev. io_only ev \<and> io_calls (aio_sys (completion_turn K opt b)) = io_calls (aio_sys a) @ ev"
    using completion_turn_calls [of K opt b] by (metis append_assoc io_only_simps(2))
qed (auto intro: exI [of _ "[]"])

subsection \<open>Counting\<close>

text \<open>The request whose completion is about to be counted, if there is one.\<close>

definition being_counted :: "'k aio_run \<Rightarrow> nat option" where
  "being_counted a = (case aio_completion a of C_Count i _ _ _ \<Rightarrow> Some i | _ \<Rightarrow> None)"

definition done_count :: "request list \<Rightarrow> nat" where
  "done_count rs = length (filter rq_done rs)"

definition counted :: "'k aio_run \<Rightarrow> bool" where
  "counted a \<longleftrightarrow> (let p = aio_phase_of a
     in aio_completed p = done_count (aio_requests p) \<and>
        (\<forall>i. being_counted a = Some i \<longrightarrow> i < length (aio_requests p) \<and> \<not> rq_done (aio_requests p ! i)))"

lemma done_count_mark:
  "i < length rs \<Longrightarrow> \<not> rq_done (rs ! i) \<Longrightarrow> done_count (rs[i := (rs ! i)\<lparr>rq_done := True\<rparr>]) = Suc (done_count rs)"
proof (induction rs arbitrary: i)
  case (Cons r rs)
  then show ?case
    by (cases i) (auto simp: done_count_def)
qed simp

lemma done_count_all: "done_count rs = length rs \<longleftrightarrow> (\<forall>i<length rs. rq_done (rs ! i))"
proof
  assume full: "done_count rs = length rs"
  show "\<forall>i<length rs. rq_done (rs ! i)"
  proof (intro allI impI)
    fix i
    assume "i < length rs"
    then show "rq_done (rs ! i)"
      using full length_filter_less [of "rs ! i" rs rq_done] by (force simp: done_count_def)
  qed
next
  assume "\<forall>i<length rs. rq_done (rs ! i)"
  then have "filter rq_done rs = rs"
    by (auto simp: filter_id_conv in_set_conv_nth)
  then show "done_count rs = length rs"
    by (simp add: done_count_def)
qed

lemma done_count_le: "done_count rs \<le> length rs"
  by (simp add: done_count_def)

lemma counted_main: "counted a \<Longrightarrow> counted (main_turn K opt late a)"
  by (simp add: counted_def being_counted_def main_turn_frame Let_def)

lemma counted_completion:
  assumes "counted a"
  shows "counted (completion_turn K opt a)"
proof (cases "aio_completion a")
  case (C_Count i ev n rest)
  then show ?thesis
    using assms by (simp add: counted_def being_counted_def completion_turn_simps done_count_mark)
next
  case (C_Events n evs)
  then show ?thesis
    using assms by (auto simp: counted_def being_counted_def completion_turn_simps event_valid_def split: list.split)
qed (use assms in \<open>simp_all add: counted_def being_counted_def completion_turn_simps\<close>)

lemma counted_reach: "aio_reach K opt a a' \<Longrightarrow> counted a \<Longrightarrow> counted a'"
  by (rule aio_reach_invariant)
    (assumption | simp add: counted_main counted_completion | simp add: counted_def being_counted_def)+

subsection \<open>The window\<close>

definition windowed :: "c2_options \<Rightarrow> 'k aio_run \<Rightarrow> bool" where
  "windowed opt a \<longleftrightarrow>
     aio_submitted a \<le> aio_count opt \<and>
     aio_submitted a \<le> aio_completed (aio_phase_of a) + unat (c2_depth opt) \<and>
     (aio_main a \<in> {M_Check, M_Window, M_Submit} \<longrightarrow> aio_submitted a < aio_count opt) \<and>
     (aio_main a = M_Submit \<longrightarrow> aio_submitted a < aio_completed (aio_phase_of a) + unat (c2_depth opt))"

lemma window_test:
  assumes "\<not> (of_nat s - of_nat c :: u64) \<ge> d" and "s < 2 ^ 64" and "c < 2 ^ 64"
  shows "s < c + unat d"
proof (cases "c \<le> s")
  case True
  then have "of_nat s - of_nat c = (of_nat (s - c) :: u64)"
    by simp
  moreover have "unat (of_nat (s - c) :: u64) = s - c"
    using assms(2) by (simp add: unat_of_nat)
  ultimately show ?thesis
    using assms(1) by (simp add: not_le word_less_nat_alt)
qed simp

lemma windowed_main:
  assumes "windowed opt a" and "aio_count opt < 2 ^ 64" and "aio_completed (aio_phase_of a) < 2 ^ 64"
  shows "windowed opt (main_turn K opt late a)"
proof (cases "aio_main a")
  case M_Window
  then show ?thesis
    using assms window_test [of "c2_depth opt" "aio_submitted a" "aio_completed (aio_phase_of a)"]
    by (auto simp: windowed_def main_turn_simps)
next
  case M_Submit
  then show ?thesis
    using assms(1) by (auto simp: windowed_def main_turn_simps submit_test_def)
qed (use assms(1) in \<open>auto simp: windowed_def main_turn_simps\<close>)

lemma completed_mono:
  "aio_completed (aio_phase_of a) \<le> aio_completed (aio_phase_of (completion_turn K opt a))"
  by (cases "aio_completion a") (auto simp: completion_turn_simps split: list.split)

lemma windowed_completion: "windowed opt a \<Longrightarrow> windowed opt (completion_turn K opt a)"
  using completed_mono [of a K opt] by (auto simp: windowed_def completion_turn_frame)

subsection \<open>Every request has been reported\<close>

definition seen :: "(os_call \<times> os_result) list \<Rightarrow> io_event \<Rightarrow> bool" where
  "seen calls ev \<longleftrightarrow> (\<exists>ctx r. (os_io_getevents ctx, r) \<in> set calls \<and> ev \<in> set (stored_events r))"

definition request_reported :: "'k kernel \<Rightarrow> c2_options \<Rightarrow> (os_call \<times> os_result) list \<Rightarrow> nat \<Rightarrow> bool" where
  "request_reported K opt calls i \<longleftrightarrow>
     (\<exists>ev. seen calls ev \<and> unat (ev_data ev) = i \<and> ev_obj ev = cb_address K i \<and> event_good opt ev)"

lemma seen_more: "seen calls ev \<Longrightarrow> seen (calls @ later) ev"
  by (auto simp: seen_def)

lemma request_reported_more: "request_reported K opt calls i \<Longrightarrow> request_reported K opt (calls @ later) i"
  by (auto simp: request_reported_def intro: seen_more)

definition witnessed :: "'k kernel \<Rightarrow> c2_options \<Rightarrow> 'k aio_run \<Rightarrow> bool" where
  "witnessed K opt a \<longleftrightarrow> (let p = aio_phase_of a; calls = io_calls (aio_sys a)
     in (\<forall>i<length (aio_requests p). rq_done (aio_requests p ! i) \<and> \<not> aio_failed p \<longrightarrow> request_reported K opt calls i) \<and>
        (case aio_completion a of
           C_Events n evs \<Rightarrow> \<forall>ev \<in> set evs. seen calls ev
         | C_Count i ev n rest \<Rightarrow> seen calls ev \<and> unat (ev_data ev) = i \<and> ev_obj ev = cb_address K i \<and>
             (event_good opt ev \<or> aio_failed p) \<and> (\<forall>ev \<in> set rest. seen calls ev)
         | _ \<Rightarrow> True))"

lemma witnessed_more:
  assumes "witnessed K opt a" and "aio_completion b = aio_completion a"
    and "aio_requests (aio_phase_of b) = aio_requests (aio_phase_of a)"
    and "aio_failed (aio_phase_of b) = aio_failed (aio_phase_of a)"
    and "io_calls (aio_sys b) = io_calls (aio_sys a) @ ev"
  shows "witnessed K opt b"
  using assms by (cases "aio_completion a")
    (simp_all add: witnessed_def Let_def, (blast intro: request_reported_more seen_more)+)

lemma witnessed_main: "witnessed K opt a \<Longrightarrow> witnessed K opt (main_turn K opt late a)"
  using main_turn_calls [of K opt late a] witnessed_more [of K opt a "main_turn K opt late a"]
  by (auto simp: main_turn_frame)

lemma witnessed_completion:
  assumes "witnessed K opt a"
  shows "witnessed K opt (completion_turn K opt a)"
proof (cases "aio_completion a")
  case C_Get
  obtain r st where sc: "sys_call K (os_io_getevents (aio_ctx (aio_phase_of a))) (aio_sys a) = (r, st)"
    by fastforce
  then have calls: "io_calls st = io_calls (aio_sys a) @ [(os_io_getevents (aio_ctx (aio_phase_of a)), r)]"
    using sys_call_simps(1) [of K "os_io_getevents (aio_ctx (aio_phase_of a))" "aio_sys a"] by simp
  then have "\<forall>ev \<in> set (stored_events r). seen (io_calls st) ev"
    by (auto simp: seen_def)
  then show ?thesis
    using assms C_Get sc calls
    by (auto simp: witnessed_def completion_turn_def completion_fails_def Let_def intro: request_reported_more)
next
  case (C_Events n evs)
  then show ?thesis
    using assms by (cases evs) (auto simp: witnessed_def completion_turn_simps event_valid_def)
next
  case (C_Count i ev n rest)
  then show ?thesis
    using assms by (auto simp: witnessed_def completion_turn_simps request_reported_def) (metis nth_list_update_neq)
qed (use assms in \<open>auto simp: witnessed_def completion_turn_simps intro: request_reported_more\<close>)

definition finished :: "'k kernel \<Rightarrow> c2_options \<Rightarrow> 'k aio_run \<Rightarrow> bool" where
  "finished K opt a \<longleftrightarrow>
     (aio_main a = M_Last \<longrightarrow> aio_count opt \<le> aio_completed (aio_phase_of a)) \<and>
     (aio_main a \<in> {M_Stop None, M_Join None, M_Done None} \<longrightarrow>
        (\<forall>i<aio_count opt. request_reported K opt (io_calls (aio_sys a)) i))"

lemma finished_main:
  assumes "finished K opt a" and "counted a" and "witnessed K opt a"
    and "length (aio_requests (aio_phase_of a)) = aio_count opt"
  shows "finished K opt (main_turn K opt late a)"
proof (cases "aio_main a")
  case M_Last
  let ?p = "aio_phase_of a"
  have "aio_completed ?p = length (aio_requests ?p)"
    using assms(1,2,4) M_Last done_count_le [of "aio_requests ?p"]
    by (simp add: finished_def counted_def Let_def)
  then have "\<forall>i<length (aio_requests ?p). rq_done (aio_requests ?p ! i)"
    using assms(2) done_count_all [of "aio_requests ?p"] by (simp add: counted_def Let_def)
  then show ?thesis
    using M_Last assms(3,4) by (auto simp: finished_def main_turn_simps witnessed_def)
next
  case M_Submit
  then show ?thesis
    by (auto simp: finished_def main_turn_simps submit_test_def)
qed (use assms(1) in \<open>auto simp: finished_def main_turn_simps split: if_splits\<close>)

lemma finished_completion:
  assumes "finished K opt a"
  shows "finished K opt (completion_turn K opt a)"
proof -
  obtain ev where calls: "io_calls (aio_sys (completion_turn K opt a)) = io_calls (aio_sys a) @ ev"
    using completion_turn_calls [of K opt a] by blast
  have "request_reported K opt (io_calls (aio_sys a)) i \<Longrightarrow>
      request_reported K opt (io_calls (aio_sys (completion_turn K opt a))) i" for i
    unfolding calls by (rule request_reported_more)
  then show ?thesis
    using assms order_trans [OF _ completed_mono [of a K opt]] by (simp add: finished_def completion_turn_frame)
qed

subsection \<open>The buffer keeps its size\<close>

definition fits :: "nat \<Rightarrow> 'k aio_run \<Rightarrow> bool" where
  "fits n a \<longleftrightarrow> length (io_buffer (aio_sys a)) = n \<and>
     (\<forall>cb \<in> set (fst (fixed_part a)). aio_buf cb + aio_nbytes cb \<le> n)"

lemma fits_main: "fits n a \<Longrightarrow> fits n (main_turn K opt late a)"
  by (simp add: fits_def main_turn_fixed main_turn_frame)

lemma fits_completion:
  assumes "fits n a" and "counted a"
  shows "fits n (completion_turn K opt a)"
proof (cases "aio_completion a")
  case (C_Count i ev m rest)
  have "i < length (aio_requests (aio_phase_of a))"
    using assms(2) C_Count by (simp add: counted_def being_counted_def Let_def)
  then have "rq_cb (aio_requests (aio_phase_of a) ! i) \<in> set (fst (fixed_part a))"
    by (simp add: fixed_part_def Let_def)
  then have "aio_buf (rq_cb (aio_requests (aio_phase_of a) ! i)) +
      aio_nbytes (rq_cb (aio_requests (aio_phase_of a) ! i)) \<le> n"
    using assms(1) by (simp add: fits_def)
  then show ?thesis
    using assms(1) C_Count
    by (simp add: fits_def completion_turn_frame) (simp add: completion_turn_simps memcpy_length)
next
  case (C_Events m evs)
  then show ?thesis
    using assms(1) by (simp add: fits_def completion_turn_frame) (simp add: completion_turn_simps split: list.split)
qed (use assms(1) in \<open>simp_all add: fits_def completion_turn_frame, simp_all add: completion_turn_simps\<close>)

subsection \<open>The join\<close>

definition joined :: "'k aio_run \<Rightarrow> bool" where
  "joined a \<longleftrightarrow> (\<forall>r. aio_main a = M_Join r \<or> aio_main a = M_Done r \<longrightarrow> aio_stop (aio_phase_of a)) \<and>
     (\<forall>r. aio_main a = M_Done r \<longrightarrow> aio_completion a = C_Ended)"

lemma joined_reach:
  fixes a :: "'a aio_run"
  assumes "aio_reach K opt a a'" and "joined a"
  shows "joined a'"
  using assms
proof (rule aio_reach_invariant)
  fix b :: "'a aio_run" and late
  assume "joined b"
  then show "joined (main_turn K opt late b)"
    by (cases "aio_main b") (auto simp: joined_def main_turn_simps submit_test_def split: if_splits)
next
  fix b :: "'a aio_run"
  assume "joined b"
  moreover have "aio_completion b = C_Ended \<Longrightarrow> aio_completion (completion_turn K opt b) = C_Ended"
    by (simp add: completion_turn_simps)
  ultimately show "joined (completion_turn K opt b)"
    by (simp add: joined_def completion_turn_frame)
qed (simp add: joined_def)

subsection \<open>A run of the two threads\<close>

definition run_inv :: "'k kernel \<Rightarrow> c2_options \<Rightarrow> nat \<Rightarrow> 'k aio_run \<Rightarrow> bool" where
  "run_inv K opt n a \<longleftrightarrow> aio_count opt < 2 ^ 64 \<and>
     length (aio_requests (aio_phase_of a)) = aio_count opt \<and>
     counted a \<and> windowed opt a \<and> witnessed K opt a \<and> finished K opt a \<and> fits n a"

lemma run_inv_reach:
  assumes "aio_reach K opt a a'" and "run_inv K opt n a"
  shows "run_inv K opt n a'"
  using assms
proof (rule aio_reach_invariant)
  fix b w
  assume "run_inv K opt n b"
  then show "run_inv K opt n (set_world w b)"
    by (simp add: run_inv_def counted_def being_counted_def windowed_def witnessed_def finished_def fits_def)
next
  fix b late
  assume b: "run_inv K opt n b"
  then have "aio_completed (aio_phase_of b) < 2 ^ 64"
    using done_count_le [of "aio_requests (aio_phase_of b)"] by (simp add: run_inv_def counted_def Let_def)
  then show "run_inv K opt n (main_turn K opt late b)"
    using b by (simp add: run_inv_def counted_main windowed_main witnessed_main finished_main fits_main
        main_turn_frame(2))
next
  fix b
  assume b: "run_inv K opt n b"
  have "length (aio_requests (aio_phase_of (completion_turn K opt b))) = length (aio_requests (aio_phase_of b))"
    using completion_turn_frame(5) [of K opt b] by (auto simp: fixed_part_def Let_def dest: map_eq_imp_length_eq)
  then show "run_inv K opt n (completion_turn K opt b)"
    using b by (simp add: run_inv_def counted_completion windowed_completion witnessed_completion
        finished_completion fits_completion)
qed

text \<open>A phase as \<open>aio_setup\<close> leaves it.\<close>

definition ready_phase :: "c2_options \<Rightarrow> bool \<Rightarrow> aio_phase \<Rightarrow> bool" where
  "ready_phase opt dump p \<longleftrightarrow> aio_stop p = False \<and> aio_failed p = False \<and> aio_completed p = 0 \<and>
     length (aio_requests p) = aio_count opt \<and>
     (\<forall>i<aio_count opt. \<exists>fd. 0 \<le> fd \<and> aio_requests p ! i = make_request opt dump (aio_eventFd p) i fd)"

lemma slot_in_buffer:
  assumes "i < aio_count opt"
  shows "i * unat (c2_slotBytes opt) + unat (c2_slotBytes opt) \<le> aio_count opt * unat (c2_slotBytes opt)"
proof -
  have "Suc i * unat (c2_slotBytes opt) \<le> aio_count opt * unat (c2_slotBytes opt)"
    using assms by (intro mult_le_mono1) simp
  then show ?thesis by simp
qed

lemma run_inv_begin:
  assumes "ready_phase opt dump p" and "aio_count opt < 2 ^ 64" and "c2_depth opt \<noteq> 0"
    and "length (io_buffer st) = aio_count opt * unat (c2_slotBytes opt)"
  shows "run_inv K opt (length (io_buffer st)) (aio_begin opt p st)"
proof -
  have fresh: "\<not> rq_done r" if "r \<in> set (aio_requests p)" for r
    using assms(1) that by (auto simp: ready_phase_def in_set_conv_nth make_request_def Let_def)
  then have "filter rq_done (aio_requests p) = []"
    by (simp add: filter_empty_conv)
  moreover have "aio_buf cb + aio_nbytes cb \<le> aio_count opt * unat (c2_slotBytes opt)"
    if cb: "cb \<in> set (map rq_cb (aio_requests p))" for cb
  proof -
    obtain i where i: "i < aio_count opt" "cb = rq_cb (aio_requests p ! i)"
      using cb assms(1) by (auto simp: ready_phase_def in_set_conv_nth)
    then obtain fd where "aio_requests p ! i = make_request opt dump (aio_eventFd p) i fd"
      using assms(1) by (auto simp: ready_phase_def)
    then show ?thesis
      using i slot_in_buffer [OF i(1)] by (simp add: make_request_def Let_def)
  qed
  moreover have "\<not> rq_done (aio_requests p ! i)" if "i < length (aio_requests p)" for i
    using fresh that by simp
  ultimately show ?thesis
    using assms
    by (simp add: run_inv_def aio_begin_def counted_def being_counted_def windowed_def witnessed_def
        finished_def fits_def fixed_part_def submit_test_def done_count_def ready_phase_def Let_def)
qed

subsection \<open>What the completions put into the buffer\<close>

definition pending_seen :: "(os_call \<times> os_result) list \<Rightarrow> completion_pc \<Rightarrow> bool" where
  "pending_seen calls pc \<longleftrightarrow> (case pc of
       C_Events n evs \<Rightarrow> \<forall>e \<in> set evs. seen calls e
     | C_Count i e n rest \<Rightarrow> seen calls e \<and> unat (ev_data e) = i \<and> (\<forall>e \<in> set rest. seen calls e)
     | _ \<Rightarrow> True)"

lemma pending_seen_more: "pending_seen calls pc \<Longrightarrow> pending_seen (calls @ later) pc"
  by (cases pc) (auto simp: pending_seen_def intro: seen_more)

text \<open>The requests are those of the slots, and what the buffer holds was there or was delivered.\<close>

definition slots_of :: "c2_options \<Rightarrow> 'k aio_run \<Rightarrow> bool" where
  "slots_of opt a \<longleftrightarrow> (\<forall>i<length (aio_requests (aio_phase_of a)).
     aio_buf (rq_cb (aio_requests (aio_phase_of a) ! i)) = i * unat (c2_slotBytes opt) \<and>
     aio_nbytes (rq_cb (aio_requests (aio_phase_of a) ! i)) = unat (c2_slotBytes opt))"

definition loading :: "c2_options \<Rightarrow> 'k c2_state \<Rightarrow> 'k aio_run \<Rightarrow> bool" where
  "loading opt st a \<longleftrightarrow> (\<exists>ev. io_calls (aio_sys a) = io_calls st @ ev \<and> pending_seen ev (aio_completion a) \<and>
     (\<forall>j<length (io_buffer st).
        io_buffer (aio_sys a) ! j = io_buffer st ! j \<or> delivered opt ev j (io_buffer (aio_sys a) ! j)))"

lemma slots_of_fixed:
  assumes "fixed_part a = fixed_part b" and "slots_of opt b"
  shows "slots_of opt a"
proof -
  have cbs: "map rq_cb (aio_requests (aio_phase_of a)) = map rq_cb (aio_requests (aio_phase_of b))"
    using assms(1) by (simp add: fixed_part_def Let_def)
  then have "length (aio_requests (aio_phase_of a)) = length (aio_requests (aio_phase_of b))"
    by (rule map_eq_imp_length_eq)
  moreover from this have "rq_cb (aio_requests (aio_phase_of a) ! i) = rq_cb (aio_requests (aio_phase_of b) ! i)"
    if "i < length (aio_requests (aio_phase_of a))" for i
    using cbs that by (metis nth_map)
  ultimately show ?thesis
    using assms(2) by (simp add: slots_of_def)
qed

lemma loading_same:
  assumes "loading opt st a" and "io_calls (aio_sys b) = io_calls (aio_sys a) @ ev"
    and "io_buffer (aio_sys b) = io_buffer (aio_sys a)"
    and "\<And>calls. pending_seen calls (aio_completion a) \<Longrightarrow> pending_seen (calls @ ev) (aio_completion b)"
  shows "loading opt st b"
proof -
  obtain e where "io_calls (aio_sys a) = io_calls st @ e" "pending_seen e (aio_completion a)"
    "\<forall>j<length (io_buffer st). io_buffer (aio_sys a) ! j = io_buffer st ! j \<or>
       delivered opt e j (io_buffer (aio_sys a) ! j)"
    using assms(1) by (auto simp: loading_def)
  then show ?thesis
    unfolding loading_def using assms(2-4) delivered_more(1) by (intro exI [of _ "e @ ev"]) auto
qed

lemma loading_main:
  assumes "loading opt st a"
  shows "loading opt st (main_turn K opt late a)"
proof -
  obtain ev where "io_calls (aio_sys (main_turn K opt late a)) = io_calls (aio_sys a) @ ev"
    using main_turn_calls [of K opt late a] by blast
  then show ?thesis
    by (rule loading_same [OF assms]) (simp_all add: main_turn_frame pending_seen_more)
qed

lemma count_loading:
  assumes "loading opt st a" and "slots_of opt a" and n: "fits (length (io_buffer st)) a"
    and pc: "aio_completion a = C_Count i e m rest" and i: "i < length (aio_requests (aio_phase_of a))"
  shows "loading opt st ((count_completion i e a)\<lparr>aio_completion := C_Events m rest\<rparr>)"
proof -
  let ?b = "(count_completion i e a)\<lparr>aio_completion := C_Events m rest\<rparr>"
  let ?cb = "rq_cb (aio_requests (aio_phase_of a) ! i)" and ?S = "unat (c2_slotBytes opt)"
  let ?d = "take ?S (ev_bytes e)"
  obtain ev where ev: "io_calls (aio_sys a) = io_calls st @ ev" "pending_seen ev (aio_completion a)"
    "\<forall>j<length (io_buffer st). io_buffer (aio_sys a) ! j = io_buffer st ! j \<or>
       delivered opt ev j (io_buffer (aio_sys a) ! j)"
    using assms(1) by (auto simp: loading_def)
  have cb: "aio_buf ?cb = i * ?S" "aio_nbytes ?cb = ?S"
    using assms(2) i by (simp_all add: slots_of_def)
  have "?cb \<in> set (fst (fixed_part a))"
    using i by (simp add: fixed_part_def Let_def)
  then have room: "i * ?S + length ?d \<le> length (io_buffer (aio_sys a))" "length (io_buffer (aio_sys a)) = length (io_buffer st)"
    using n cb by (fastforce simp: fits_def)+
  have "io_buffer (aio_sys ?b) ! j = io_buffer st ! j \<or> delivered opt ev j (io_buffer (aio_sys ?b) ! j)"
    if j: "j < length (io_buffer st)" for j
  proof (cases "\<not> aio_pwrite ?cb \<and> i * ?S \<le> j \<and> j < i * ?S + length ?d")
    case True
    then have "j - i * ?S < ?S"
      by auto
    then have at: "io_buffer (aio_sys ?b) ! j = ev_bytes e ! (j - i * ?S)"
      using True memcpy_nth [OF room(1), of j] j room(2) by (simp add: count_completion_def Let_def cb)
    obtain ctx r where "(os_io_getevents ctx, r) \<in> set ev" "e \<in> set (stored_events r)" "unat (ev_data e) = i"
      using ev(2) pc by (auto simp: pending_seen_def seen_def)
    then have "delivered opt ev j (ev_bytes e ! (j - i * ?S))"
      using True unfolding delivered_def Let_def
      by (intro disjI2 exI [of _ ctx] exI [of _ r] exI [of _ e] exI [of _ "j - i * ?S"]) auto
    then show ?thesis
      unfolding at by (rule disjI2)
  next
    case False
    then have "io_buffer (aio_sys ?b) ! j = io_buffer (aio_sys a) ! j"
      using memcpy_nth [OF room(1), of j] j room(2) by (auto simp: count_completion_def Let_def cb)
    then show ?thesis
      using ev(3) j by simp
  qed
  moreover have "io_calls (aio_sys ?b) = io_calls st @ ev"
    using ev(1) by (simp add: count_completion_def Let_def)
  moreover have "pending_seen ev (aio_completion ?b)"
    using ev(2) pc by (simp add: pending_seen_def)
  ultimately show ?thesis
    unfolding loading_def by blast
qed

lemma loading_completion:
  assumes "loading opt st a" and "slots_of opt a" and "fits (length (io_buffer st)) a" and "counted a"
  shows "loading opt st (completion_turn K opt a)"
proof (cases "aio_completion a")
  case (C_Count i e m rest)
  have "i < length (aio_requests (aio_phase_of a))"
    using assms(4) C_Count by (simp add: counted_def being_counted_def Let_def)
  then show ?thesis
    using count_loading [OF assms(1-3) C_Count] C_Count by (simp add: completion_turn_def Let_def)
next
  case C_Get
  obtain r s where sc: "sys_call K (os_io_getevents (aio_ctx (aio_phase_of a))) (aio_sys a) = (r, s)"
    by fastforce
  then have calls: "io_calls s = io_calls (aio_sys a) @ [(os_io_getevents (aio_ctx (aio_phase_of a)), r)]"
    and buf: "io_buffer s = io_buffer (aio_sys a)"
    using sys_call_simps [of K "os_io_getevents (aio_ctx (aio_phase_of a))" "aio_sys a"] by simp_all
  have "seen (cs @ [(os_io_getevents (aio_ctx (aio_phase_of a)), r)]) e" if "e \<in> set (stored_events r)" for cs e
    using that by (auto simp: seen_def)
  then show ?thesis
    by (intro loading_same [OF assms(1)])
      (use C_Get sc calls buf in \<open>auto simp: completion_turn_def completion_fails_def Let_def pending_seen_def\<close>)
next
  case (C_Events m evs)
  show ?thesis
    by (rule loading_same [OF assms(1), of _ "[]"])
      (use C_Events in \<open>auto simp: completion_turn_simps pending_seen_def event_valid_def split: list.splits\<close>)
next
  case C_Poll
  show ?thesis
    by (rule loading_same [OF assms(1)])
      (use C_Poll in \<open>auto simp: completion_turn_simps pending_seen_def\<close>)
next
  case C_Read
  show ?thesis
    by (rule loading_same [OF assms(1)])
      (use C_Read in \<open>auto simp: completion_turn_simps pending_seen_def\<close>)
next
  case C_Loop
  show ?thesis
    by (rule loading_same [OF assms(1), of _ "[]"])
      (use C_Loop in \<open>auto simp: completion_turn_simps pending_seen_def\<close>)
next
  case C_Ended
  then show ?thesis
    using assms(1) by (simp add: completion_turn_simps)
qed

lemma loading_reach:
  fixes a :: "'a aio_run"
  assumes "aio_reach K opt a a'" and "loading opt st a" and "slots_of opt a"
    and "run_inv K opt (length (io_buffer st)) a"
  shows "loading opt st a'"
proof -
  have "loading opt st a' \<and> slots_of opt a' \<and> run_inv K opt (length (io_buffer st)) a'"
    using assms(1)
  proof (induction rule: rtranclp_induct)
    case base
    then show ?case
      using assms(2-4) by simp
  next
    case (step b c)
    have "run_inv K opt (length (io_buffer st)) c"
      using run_inv_reach [OF r_into_rtranclp [of "aio_step K opt", OF step.hyps(2)]] step.IH by simp
    moreover have "fixed_part c = fixed_part b"
      using aio_reach_fixed [OF r_into_rtranclp [of "aio_step K opt", OF step.hyps(2)]] by simp
    then have "slots_of opt c"
      using step.IH slots_of_fixed by blast
    moreover have "loading opt st c"
      using step.hyps(2)
    proof cases
      case (main_runs late w)
      have "loading opt st (set_world w b)"
        by (rule loading_same [of _ _ b _ "[]"]) (use step.IH in simp_all)
      then show ?thesis
        unfolding main_runs(1) by (rule loading_main)
    next
      case (completion_runs w)
      have "loading opt st (set_world w b)"
        by (rule loading_same [of _ _ b _ "[]"]) (use step.IH in simp_all)
      then show ?thesis
        unfolding completion_runs(1) using step.IH
        by (intro loading_completion)
          (auto simp: run_inv_def slots_of_def fits_def counted_def being_counted_def)
    qed
    ultimately show ?case by blast
  qed
  then show ?thesis by blast
qed

subsection \<open>The descriptors of a phase\<close>

definition request_fds :: "request list \<Rightarrow> int multiset" where
  "request_fds rs = sum_list (map (\<lambda>r. held_fd (rq_fd r)) rs)"

definition phase_fds :: "aio_phase \<Rightarrow> int multiset" where
  "phase_fds p = request_fds (aio_requests p) + (held_fd (aio_epollFd p) + held_fd (aio_eventFd p))"

lemma request_fds_update:
  "i < length rs \<Longrightarrow> request_fds (rs[i := r]) + held_fd (rq_fd (rs ! i)) = request_fds rs + held_fd (rq_fd r)"
proof (induction rs arbitrary: i)
  case (Cons a rs)
  show ?case
  proof (cases i)
    case 0
    then show ?thesis by (simp add: request_fds_def ac_simps)
  next
    case (Suc j)
    then have "request_fds (rs[j := r]) + held_fd (rq_fd (rs ! j)) = request_fds rs + held_fd (rq_fd r)"
      using Cons by simp
    then show ?thesis
      using Suc by (simp add: request_fds_def add.assoc)
  qed
qed simp

lemma request_fds_replicate [simp]: "request_fds (replicate n Request_new) = {#}"
  by (induction n) (simp_all add: request_fds_def Request_new_def held_fd_def)

text \<open>The requests that are not open yet.\<close>

definition opened_to :: "c2_options \<Rightarrow> bool \<Rightarrow> nat \<Rightarrow> aio_phase \<Rightarrow> bool" where
  "opened_to opt dump k p \<longleftrightarrow> aio_stop p = False \<and> aio_failed p = False \<and> aio_completed p = 0 \<and>
     length (aio_requests p) = aio_count opt \<and>
     (\<forall>i<aio_count opt. if i < k
        then \<exists>fd. 0 \<le> fd \<and> aio_requests p ! i = make_request opt dump (aio_eventFd p) i fd
        else aio_requests p ! i = Request_new)"

lemma aio_open_from_spec:
  "aio_open_from K opt paths dump [k..<aio_count opt] p st = (x, p', st') \<Longrightarrow> opened_to opt dump k p \<Longrightarrow>
     k \<le> aio_count opt \<Longrightarrow>
     (\<exists>ev. fd_step (phase_fds p) ev (phase_fds p') st st') \<and> io_buffer st' = io_buffer st \<and>
     (x = None \<longrightarrow> ready_phase opt dump p')"
proof (induction "aio_count opt - k" arbitrary: k p st)
  case 0
  then show ?case
    by (auto simp: opened_to_def ready_phase_def intro: exI [of _ "[]"])
next
  case (Suc n)
  have k: "k < aio_count opt" using Suc.hyps(2) by simp
  have cons: "[k..<aio_count opt] = k # [Suc k..<aio_count opt]"
    using k by (rule upt_conv_Cons)
  let ?path = "paths ! (k div unat (c2_shards opt))"
  obtain r st1 where o: "OS K ''open(paths[i / opt.shards].c_str(), flags, 0644)''
      (os_open ?path (c2_flags opt dump) 420) st = (r, st1)" by fastforce
  have mk: "makes_fd (os_open ?path (c2_flags opt dump) 420)"
    by (simp add: makes_fd_def)
  obtain e1 where e1: "fd_step {#} e1 (case r of Inl e \<Rightarrow> {#} | Inr a \<Rightarrow> held_fd (os_ret a)) st st1"
    and pos: "\<forall>a. r = Inr a \<longrightarrow> 0 \<le> os_ret a"
    using made_step [OF o mk] by blast
  have buf: "io_buffer st1 = io_buffer st"
    using OS_calls [OF o] by auto
  show ?case
  proof (cases r)
    case (Inl e)
    then show ?thesis
      using Suc.prems(1) o buf fd_step_add [OF e1, of "phase_fds p"] unfolding cons by auto
  next
    case (Inr a)
    define p1 where "p1 = p\<lparr>aio_requests := (aio_requests p)[k := make_request opt dump (aio_eventFd p) k (os_ret a)]\<rparr>"
    have len: "k < length (aio_requests p)" and new: "aio_requests p ! k = Request_new"
      using Suc.prems(2) k by (simp_all add: opened_to_def)
    have "request_fds (aio_requests p1) = request_fds (aio_requests p) + held_fd (os_ret a)"
      using request_fds_update [OF len, of "make_request opt dump (aio_eventFd p) k (os_ret a)"] new
      by (simp add: p1_def Request_new_def held_fd_def [of "- 1"] make_request_def Let_def)
    then have fds1: "phase_fds p1 = held_fd (os_ret a) + phase_fds p"
      by (simp add: phase_fds_def p1_def ac_simps)
    have step: "fd_step (phase_fds p) e1 (phase_fds p1) st st1"
      using fd_step_add [OF e1, of "phase_fds p"] Inr fds1 by simp
    have o1: "opened_to opt dump (Suc k) p1"
      using Suc.prems(2) len pos Inr by (auto simp: opened_to_def p1_def nth_list_update less_Suc_eq)
    have tail: "aio_open_from K opt paths dump [Suc k..<aio_count opt] p1 st1 = (x, p', st')"
      using Suc.prems(1) o Inr unfolding cons by (simp add: p1_def)
    have "(\<exists>ev. fd_step (phase_fds p1) ev (phase_fds p') st1 st') \<and> io_buffer st' = io_buffer st1 \<and>
        (x = None \<longrightarrow> ready_phase opt dump p')"
      using Suc.hyps(1) [OF _ tail o1] Suc.hyps(2) k by simp
    then show ?thesis
      using io_step_trans [OF step] buf by auto
  qed
qed

lemma opened_to_start:
  assumes "aio_stop p = False" "aio_failed p = False" "aio_completed p = 0"
    and "aio_requests p = replicate (aio_count opt) Request_new"
  shows "opened_to opt dump 0 p"
  using assms by (simp add: opened_to_def)

lemma aio_setup_spec:
  assumes "aio_setup K opt paths dump st = (x, p, st')"
  shows "(\<exists>ev. fd_step {#} ev (phase_fds p) st st') \<and> io_buffer st' = io_buffer st \<and>
    (x = None \<longrightarrow> ready_phase opt dump p)"
proof -
  note neg = held_fd_def [of "- 1"]
  obtain r1 st1 where 1: "OS K ''syscall(SYS_io_setup, opt.depth, &ctx_)'' (os_io_setup (c2_depth opt)) st = (r1, st1)"
    by fastforce
  obtain e1 where e1: "fd_step {#} e1 {#} st st1"
    using OS_other_step [OF 1] by (auto simp: makes_fd_def)
  have b1: "io_buffer st1 = io_buffer st" using OS_calls [OF 1] by auto
  show ?thesis
  proof (cases r1)
    case (Inl e)
    then show ?thesis
      using assms 1 e1 b1 by (auto simp: aio_setup_def AioPhase_new_def phase_fds_def request_fds_def neg)
  next
    case i1: (Inr a1)
    obtain r2 st2 where 2: "OS K ''eventfd(0, EFD_NONBLOCK | EFD_CLOEXEC)'' os_eventfd st1 = (r2, st2)" by fastforce
    obtain e2 where e2: "fd_step {#} e2 (case r2 of Inl e \<Rightarrow> {#} | Inr a \<Rightarrow> held_fd (os_ret a)) st1 st2"
      using made_step [OF 2] by (auto simp: makes_fd_def)
    have b2: "io_buffer st2 = io_buffer st" using OS_calls [OF 2] b1 by auto
    note s2 = io_step_trans [OF e1 e2]
    show ?thesis
    proof (cases r2)
      case (Inl e)
      then show ?thesis
        using assms 1 i1 2 s2 b2
        by (auto simp: aio_setup_def Let_def AioPhase_new_def phase_fds_def request_fds_def neg)
    next
      case i2: (Inr a2)
      obtain r3 st3 where 3: "OS K ''epoll_create1(EPOLL_CLOEXEC)'' os_epoll_create1 st2 = (r3, st3)" by fastforce
      obtain e3 where e3: "fd_step {#} e3 (case r3 of Inl e \<Rightarrow> {#} | Inr a \<Rightarrow> held_fd (os_ret a)) st2 st3"
        using made_step [OF 3] by (auto simp: makes_fd_def)
      have b3: "io_buffer st3 = io_buffer st" using OS_calls [OF 3] b2 by auto
      have s3: "fd_step {#} ((e1 @ e2) @ e3)
          ((case r3 of Inl e \<Rightarrow> {#} | Inr a \<Rightarrow> held_fd (os_ret a)) + held_fd (os_ret a2)) st st3"
        using io_step_trans [OF s2] fd_step_add [OF e3, of "held_fd (os_ret a2)"] i2 by simp
      show ?thesis
      proof (cases r3)
        case (Inl e)
        then show ?thesis
          using assms 1 i1 2 i2 3 s3 b3
          by (auto simp: aio_setup_def Let_def AioPhase_new_def phase_fds_def request_fds_def neg)
      next
        case i3: (Inr a3)
        define p3 where "p3 = AioPhase_new\<lparr>aio_ctx := os_out a1, aio_eventFd := os_ret a2, aio_epollFd := os_ret a3\<rparr>"
        obtain r4 st4 where 4: "OS K ''epoll_ctl(epollFd_, EPOLL_CTL_ADD, eventFd_, &notification)''
            (os_epoll_ctl (os_ret a3) (os_ret a2)) st3 = (r4, st4)" by fastforce
        obtain e4 where e4: "fd_step (held_fd (os_ret a3) + held_fd (os_ret a2)) e4
            (held_fd (os_ret a3) + held_fd (os_ret a2)) st3 st4"
          using OS_other_step [OF 4] by (auto simp: makes_fd_def)
        have b4: "io_buffer st4 = io_buffer st" using OS_calls [OF 4] b3 by auto
        have s4: "fd_step {#} (((e1 @ e2) @ e3) @ e4) (held_fd (os_ret a3) + held_fd (os_ret a2)) st st4"
          using io_step_trans [OF s3] e4 i3 by simp
        have fds3: "phase_fds p3 = held_fd (os_ret a3) + held_fd (os_ret a2)"
          by (simp add: p3_def AioPhase_new_def phase_fds_def request_fds_def)
        show ?thesis
        proof (cases r4)
          case (Inl e)
          then have "x = Some e \<and> p = p3 \<and> st' = st4"
            using assms 1 i1 2 i2 3 i3 4 by (simp add: aio_setup_def Let_def p3_def)
          then show ?thesis
            using s4 b4 fds3 by auto
        next
          case (Inr a4)
          let ?p4 = "p3\<lparr>aio_requests := replicate (aio_count opt) Request_new\<rparr>"
          have op: "aio_open_from K opt paths dump [0..<aio_count opt] ?p4 st4 = (x, p, st')"
            using assms 1 i1 2 i2 3 i3 4 Inr by (simp add: aio_setup_def Let_def p3_def)
          have "opened_to opt dump 0 ?p4"
            by (rule opened_to_start) (simp_all add: p3_def AioPhase_new_def)
          moreover have "phase_fds ?p4 = phase_fds p3"
            by (simp add: phase_fds_def p3_def AioPhase_new_def request_fds_def [of "[]"])
          ultimately show ?thesis
            using aio_open_from_spec [OF op] s4 b4 fds3 by (auto dest: io_step_trans [OF s4])
        qed
      qed
    qed
  qed
qed

lemma aio_close_from_spec:
  "aio_close_from K is p st = (x, p', st') \<Longrightarrow> distinct is \<Longrightarrow>
     \<forall>i \<in> set is. i < length (aio_requests p) \<and> 0 \<le> rq_fd (aio_requests p ! i) \<Longrightarrow>
     (\<exists>ev. fd_step (phase_fds p) ev (phase_fds p') st st') \<and> io_buffer st' = io_buffer st"
proof (induction "is" arbitrary: p st)
  case Nil
  then show ?case
    by (auto intro: exI [of _ "[]"])
next
  case (Cons i rest)
  let ?fd = "rq_fd (aio_requests p ! i)"
  define p1 where "p1 = p\<lparr>aio_requests := (aio_requests p)[i := (aio_requests p ! i)\<lparr>rq_fd := - 1\<rparr>]\<rparr>"
  obtain r st1 where c: "OS K ''close(fd)'' (os_close ?fd) st = (r, st1)" by fastforce
  have i: "i < length (aio_requests p)" "0 \<le> ?fd"
    using Cons.prems(3) by simp_all
  obtain e1 where e1: "fd_step (held_fd ?fd) e1 {#} st st1"
    using close_step [OF c i(2)] by blast
  have "request_fds (aio_requests p1) + held_fd ?fd = request_fds (aio_requests p)"
    using request_fds_update [OF i(1), of "(aio_requests p ! i)\<lparr>rq_fd := - 1\<rparr>"]
    by (simp add: p1_def held_fd_def [of "- 1"])
  then have fds: "phase_fds p = held_fd ?fd + phase_fds p1"
    by (simp add: phase_fds_def p1_def ac_simps)
  have s1: "fd_step (phase_fds p) e1 (phase_fds p1) st st1"
    using fd_step_add [OF e1, of "phase_fds p1"] fds by simp
  have b1: "io_buffer st1 = io_buffer st"
    using OS_calls [OF c] by auto
  show ?case
  proof (cases r)
    case (Inl e)
    then show ?thesis
      using Cons.prems(1) c s1 b1 by (auto simp: p1_def Let_def)
  next
    case (Inr a)
    then have tail: "aio_close_from K rest p1 st1 = (x, p', st')"
      using Cons.prems(1) c by (simp add: p1_def Let_def)
    have "\<forall>j \<in> set rest. j < length (aio_requests p1) \<and> 0 \<le> rq_fd (aio_requests p1 ! j)"
      using Cons.prems(2,3) by (auto simp: p1_def nth_list_update)
    then obtain e2 where "fd_step (phase_fds p1) e2 (phase_fds p') st1 st'" "io_buffer st' = io_buffer st1"
      using Cons.IH [OF tail] Cons.prems(2) by auto
    then show ?thesis
      using b1 io_step_trans [OF s1] by auto
  qed
qed

lemma OS_cleanup_buffer: "io_buffer (OS_cleanup K x c st) = io_buffer st"
proof -
  obtain r st' where os: "OS K x c st = (r, st')" by fastforce
  then show ?thesis
    using OS_calls [OF os] by (auto simp: OS_cleanup_def)
qed

lemma cleanup_close_spec:
  "(\<exists>ev. fd_step (held_fd fd) ev {#} st (cleanup_close K x fd st)) \<and>
   io_buffer (cleanup_close K x fd st) = io_buffer st"
proof (cases "0 \<le> fd")
  case True
  then show ?thesis
    using cleanup_close_step [OF True] by (simp add: cleanup_close_def OS_cleanup_buffer)
next
  case False
  then show ?thesis
    by (auto simp: cleanup_close_def held_fd_def intro: exI [of _ "[]"])
qed

lemma cleanup_requests_spec:
  "(\<exists>ev. fd_step (request_fds rs) ev {#} st (fold (\<lambda>req. cleanup_close K x (rq_fd req)) rs st)) \<and>
   io_buffer (fold (\<lambda>req. cleanup_close K x (rq_fd req)) rs st) = io_buffer st"
proof (induction rs arbitrary: st)
  case Nil
  then show ?case
    by (auto simp: request_fds_def intro: exI [of _ "[]"])
next
  case (Cons r rs)
  let ?st = "cleanup_close K x (rq_fd r) st"
  obtain e1 where e1: "fd_step (held_fd (rq_fd r)) e1 {#} st ?st"
    using cleanup_close_spec by blast
  obtain e2 where "fd_step (request_fds rs) e2 {#} ?st (fold (\<lambda>req. cleanup_close K x (rq_fd req)) rs ?st)"
    using Cons.IH by blast
  then have "fd_step (held_fd (rq_fd r) + request_fds rs) (e1 @ e2) {#} st
      (fold (\<lambda>req. cleanup_close K x (rq_fd req)) rs ?st)"
    using io_step_trans [OF fd_step_add [OF e1, of "request_fds rs"]] by simp
  then show ?case
    using Cons.IH [of ?st] cleanup_close_spec [of "rq_fd r" st K x] by (auto simp: request_fds_def)
qed

lemma aio_destroy_spec:
  "(\<exists>ev. fd_step (phase_fds p) ev {#} st (aio_destroy K p st)) \<and> io_buffer (aio_destroy K p st) = io_buffer st"
proof -
  define st1 where "st1 = (if aio_ctx p \<noteq> 0
      then OS_cleanup K ''syscall(SYS_io_destroy, ctx_)'' (os_io_destroy (aio_ctx p)) st else st)"
  define st2 where "st2 = fold (\<lambda>req. cleanup_close K ''close(req.fd)'' (rq_fd req)) (aio_requests p) st1"
  define st3 where "st3 = cleanup_close K ''close(epollFd_)'' (aio_epollFd p) st2"
  have "\<exists>ev. fd_step {#} ev {#} st st1"
  proof -
    obtain r s where os: "OS K ''syscall(SYS_io_destroy, ctx_)'' (os_io_destroy (aio_ctx p)) st = (r, s)" by fastforce
    then have "io_calls (OS_cleanup K ''syscall(SYS_io_destroy, ctx_)'' (os_io_destroy (aio_ctx p)) st) = io_calls s"
      by (simp add: OS_cleanup_def split: sum.splits)
    then show ?thesis
      using OS_other_step [OF os, of "{#}"] by (auto simp: st1_def makes_fd_def fd_step_def intro: exI [of _ "[]"])
  qed
  then obtain e1 where e1: "fd_step {#} e1 {#} st st1" by blast
  obtain e2 where e2: "fd_step (request_fds (aio_requests p)) e2 {#} st1 st2"
    using cleanup_requests_spec unfolding st2_def by blast
  obtain e3 where e3: "fd_step (held_fd (aio_epollFd p)) e3 {#} st2 st3"
    using cleanup_close_spec unfolding st3_def by blast
  obtain e4 where e4: "fd_step (held_fd (aio_eventFd p)) e4 {#} st3 (aio_destroy K p st)"
    using cleanup_close_spec [of "aio_eventFd p" st3 K "''close(eventFd_)''"]
    by (auto simp: aio_destroy_def Let_def st1_def st2_def st3_def)
  let ?r = "request_fds (aio_requests p)" and ?p = "held_fd (aio_epollFd p)" and ?e = "held_fd (aio_eventFd p)"
  have "fd_step ?p e3 {#} st2 st3" "fd_step (?p + ?e) e3 ?e st2 st3"
    using e3 fd_step_add [OF e3, of ?e] by simp_all
  then have "fd_step (?p + ?e) (e3 @ e4) {#} st2 (aio_destroy K p st)"
    using e4 io_step_trans by blast
  moreover have "fd_step (?r + (?p + ?e)) (e1 @ e2) (?p + ?e) st st2"
    using io_step_trans [OF fd_step_add [OF e1, of "?r + (?p + ?e)"]] fd_step_add [OF e2, of "?p + ?e"] by simp
  ultimately have "fd_step (phase_fds p) ((e1 @ e2) @ (e3 @ e4)) {#} st (aio_destroy K p st)"
    unfolding phase_fds_def by (blast intro: io_step_trans)
  moreover have "io_buffer (aio_destroy K p st) = io_buffer st"
    by (simp add: aio_destroy_def Let_def cleanup_close_spec cleanup_requests_spec OS_cleanup_buffer)
  ultimately show ?thesis by blast
qed

subsection \<open>The whole phase\<close>

lemma phase_fds_fixed:
  "fixed_part a = fixed_part b \<Longrightarrow> phase_fds (aio_phase_of a) = phase_fds (aio_phase_of b)"
proof -
  assume eq: "fixed_part a = fixed_part b"
  have by_fds: "request_fds rs = sum_list (map held_fd (map rq_fd rs))" for rs
    by (simp add: request_fds_def comp_def)
  show ?thesis
    using eq unfolding phase_fds_def by_fds by (simp only: fixed_part_def Let_def prod.inject)
qed

lemma ready_phase_fds:
  assumes "ready_phase opt dump p" and "r \<in> set (aio_requests p)"
  shows "0 \<le> rq_fd r"
proof -
  obtain i where i: "i < aio_count opt" "r = aio_requests p ! i"
    using assms by (auto simp: ready_phase_def in_set_conv_nth)
  then obtain fd where "0 \<le> fd" "r = make_request opt dump (aio_eventFd p) i fd"
    using assms(1) by (auto simp: ready_phase_def)
  then show ?thesis
    by (simp add: make_request_def Let_def)
qed

lemma aio_threads_spec:
  assumes run: "aio_threads K opt (aio_begin opt p st) = Some (x, a)"
    and "ready_phase opt dump p" and "aio_count opt < 2 ^ 64" and "c2_depth opt \<noteq> 0"
    and "length (io_buffer st) = aio_count opt * unat (c2_slotBytes opt)"
  shows "(\<exists>ev. fd_step (phase_fds p) ev (phase_fds (aio_phase_of a)) st (aio_sys a)) \<and>
    length (io_buffer (aio_sys a)) = length (io_buffer st) \<and>
    (x = None \<longrightarrow> (\<forall>i<aio_count opt. request_reported K opt (io_calls (aio_sys a)) i))"
    and "fixed_part a = fixed_part (aio_begin opt p st)"
proof -
  have reach: "aio_reach K opt (aio_begin opt p st) a" "aio_main a = M_Done x"
    using aio_threads_reach [OF run] by simp_all
  have inv: "run_inv K opt (length (io_buffer st)) a"
    using run_inv_reach [OF reach(1)] run_inv_begin [OF assms(2-5)] by blast
  show fixed: "fixed_part a = fixed_part (aio_begin opt p st)"
    using aio_reach_fixed [OF reach(1)] by simp
  have same: "phase_fds (aio_phase_of a) = phase_fds p"
    using phase_fds_fixed [OF fixed] by (simp add: aio_begin_def)
  obtain ev where "io_only ev" "io_calls (aio_sys a) = io_calls st @ ev"
    using aio_reach_calls [OF reach(1)] by (auto simp: aio_begin_def)
  then have "fd_step (phase_fds p) ev (phase_fds (aio_phase_of a)) st (aio_sys a)"
    using io_only_step same by metis
  moreover have "length (io_buffer (aio_sys a)) = length (io_buffer st)"
    using inv by (simp add: run_inv_def fits_def)
  moreover have "x = None \<longrightarrow> (\<forall>i<aio_count opt. request_reported K opt (io_calls (aio_sys a)) i)"
    using inv reach(2) by (simp add: run_inv_def finished_def)
  ultimately show "(\<exists>ev. fd_step (phase_fds p) ev (phase_fds (aio_phase_of a)) st (aio_sys a)) \<and>
    length (io_buffer (aio_sys a)) = length (io_buffer st) \<and>
    (x = None \<longrightarrow> (\<forall>i<aio_count opt. request_reported K opt (io_calls (aio_sys a)) i))"
    by blast
qed

text \<open>
  Whatever the kernel and the scheduler do: the descriptors balance, the buffer keeps its size, and
  without an exception every request has been reported.
\<close>

lemma aio_transfer_spec:
  assumes run: "aio_transfer K opt paths dump st = Some (x, st')"
    and small: "aio_count opt < 2 ^ 64" and depth: "c2_depth opt \<noteq> 0"
    and len: "length (io_buffer st) = aio_count opt * unat (c2_slotBytes opt)"
  shows "\<exists>ev. fd_step {#} ev {#} st st' \<and> length (io_buffer st') = length (io_buffer st) \<and>
    (x = None \<longrightarrow> (\<forall>i<aio_count opt. request_reported K opt (io_calls st') i))"
proof -
  obtain p st1 where r: "aio_Run K opt paths dump st = Some (x, p, st1)" "st' = aio_destroy K p st1"
    using run by (auto simp: aio_transfer_def split: option.splits)
  obtain y q s where su: "aio_setup K opt paths dump st = (y, q, s)" by (rule prod_cases3)
  obtain e0 where e0: "fd_step {#} e0 (phase_fds q) st s" and b0: "io_buffer s = io_buffer st"
    and ready: "y = None \<Longrightarrow> ready_phase opt dump q"
    using aio_setup_spec [OF su] by blast
  have "\<exists>ev. fd_step {#} ev (phase_fds p) st st1 \<and> length (io_buffer st1) = length (io_buffer st) \<and>
      (x = None \<longrightarrow> (\<forall>i<aio_count opt. request_reported K opt (io_calls st1) i))"
  proof (cases y)
    case (Some e)
    then show ?thesis
      using r(1) su e0 b0 by (auto simp: aio_Run_def)
  next
    case None
    obtain z a where th: "aio_threads K opt (aio_begin opt q s) = Some (z, a)"
      using r(1) su None by (auto simp: aio_Run_def split: option.splits)
    note spec = aio_threads_spec [OF th ready [OF None] small depth len [folded b0]]
    obtain e1 where e1: "fd_step (phase_fds q) e1 (phase_fds (aio_phase_of a)) s (aio_sys a)"
      using spec(1) by blast
    show ?thesis
    proof (cases z)
      case (Some e)
      then show ?thesis
        using r(1) su None th spec(1) b0 io_step_trans [OF e0 e1] by (auto simp: aio_Run_def)
    next
      case z: None
      let ?is = "[0..<length (aio_requests (aio_phase_of a))]"
      have cl: "aio_close_from K ?is (aio_phase_of a) (aio_sys a) = (x, p, st1)"
        using r(1) su None th z by (simp add: aio_Run_def)
      have "map rq_fd (aio_requests (aio_phase_of a)) = map rq_fd (aio_requests q)"
        using spec(2) by (simp add: fixed_part_def aio_begin_def Let_def)
      moreover have "\<forall>r \<in> set (aio_requests q). 0 \<le> rq_fd r"
        using ready_phase_fds [OF ready [OF None]] by blast
      ultimately have "\<forall>r \<in> set (aio_requests (aio_phase_of a)). 0 \<le> rq_fd r"
        by (metis (no_types, lifting) imageE image_eqI list.set_map)
      then obtain e2 where e2: "fd_step (phase_fds (aio_phase_of a)) e2 (phase_fds p) (aio_sys a) st1"
        and b2: "io_buffer st1 = io_buffer (aio_sys a)"
        using aio_close_from_spec [OF cl] by auto
      have "io_calls st1 = io_calls (aio_sys a) @ e2"
        using e2 by (simp add: fd_step_def)
      then have "\<forall>i<aio_count opt. request_reported K opt (io_calls st1) i"
        using spec(1) z request_reported_more by metis
      then show ?thesis
        using io_step_trans [OF io_step_trans [OF e0 e1] e2] b2 b0 spec(1) by auto
    qed
  qed
  then obtain e1 where e1: "fd_step {#} e1 (phase_fds p) st st1" "length (io_buffer st1) = length (io_buffer st)"
    "x = None \<longrightarrow> (\<forall>i<aio_count opt. request_reported K opt (io_calls st1) i)" by blast
  obtain e2 where e2: "fd_step (phase_fds p) e2 {#} st1 st'" and b: "io_buffer st' = io_buffer st1"
    using aio_destroy_spec r(2) by blast
  have "io_calls st' = io_calls st1 @ e2"
    using e2 by (simp add: fd_step_def)
  then show ?thesis
    using io_step_trans [OF e1(1) e2] e1 b request_reported_more by metis
qed

text \<open>And the buffer holds at the end what it held before or what the completions delivered.\<close>

lemma aio_close_from_calls:
  "aio_close_from K is p st = (x, p', st') \<Longrightarrow> carries opt st st'"
proof (induction "is" arbitrary: p st)
  case (Cons i rest)
  obtain r st1 where c: "OS K ''close(fd)'' (os_close (rq_fd (aio_requests p ! i))) st = (r, st1)" by fastforce
  show ?case
    using Cons.prems c carries_OS [OF c, of opt]
    by (cases r) (auto simp: Let_def dest!: Cons.IH intro: carries_trans)
qed simp

lemma aio_transfer_carries:
  assumes run: "aio_transfer K opt paths dump st = Some (x, st')"
    and small: "aio_count opt < 2 ^ 64" and depth: "c2_depth opt \<noteq> 0"
    and len: "length (io_buffer st) = aio_count opt * unat (c2_slotBytes opt)"
  shows "carries opt st st'"
proof -
  obtain p st1 where r: "aio_Run K opt paths dump st = Some (x, p, st1)" "st' = aio_destroy K p st1"
    using run by (auto simp: aio_transfer_def split: option.splits)
  have "carries opt st1 st'"
    using aio_destroy_spec [of p st1 K] r(2) by (auto intro: carries_fd_step)
  moreover
  obtain y q s where su: "aio_setup K opt paths dump st = (y, q, s)" by (rule prod_cases3)
  have first: "carries opt st s" and b0: "io_buffer s = io_buffer st"
    and ready: "y = None \<Longrightarrow> ready_phase opt dump q"
    using aio_setup_spec [OF su] by (auto intro: carries_fd_step)
  have "carries opt st st1"
  proof (cases y)
    case (Some e)
    then show ?thesis
      using r(1) su first by (simp add: aio_Run_def)
  next
    case None
    obtain z a where th: "aio_threads K opt (aio_begin opt q s) = Some (z, a)"
      using r(1) su None by (auto simp: aio_Run_def split: option.splits)
    have reach: "aio_reach K opt (aio_begin opt q s) a"
      using aio_threads_reach [OF th] by simp
    have begin_inv: "run_inv K opt (length (io_buffer s)) (aio_begin opt q s)"
      using len b0 by (intro run_inv_begin [OF ready [OF None] small depth]) simp
    have "slots_of opt (aio_begin opt q s)"
      using ready [OF None] by (auto simp: slots_of_def aio_begin_def ready_phase_def make_request_def Let_def)
    moreover have "loading opt s (aio_begin opt q s)"
      by (simp add: loading_def aio_begin_def pending_seen_def)
    ultimately have "loading opt s a"
      using loading_reach [OF reach _ _ begin_inv] by blast
    moreover have "length (io_buffer (aio_sys a)) = length (io_buffer s)"
      using run_inv_reach [OF reach begin_inv] by (simp add: run_inv_def fits_def)
    ultimately have second: "carries opt s (aio_sys a)"
      by (auto simp: loading_def carries_def)
    show ?thesis
    proof (cases z)
      case (Some e)
      then show ?thesis
        using r(1) su None th carries_trans [OF first second] by (simp add: aio_Run_def)
    next
      case z: None
      have "aio_close_from K [0..<length (aio_requests (aio_phase_of a))] (aio_phase_of a) (aio_sys a) = (x, p, st1)"
        using r(1) su None th z by (simp add: aio_Run_def)
      then show ?thesis
        using carries_trans [OF carries_trans [OF first second]] aio_close_from_calls by blast
    qed
  qed
  ultimately show ?thesis
    by (rule carries_trans [rotated])
qed

end
