(* ===== verification/Cache2_Run_Facts.thy ===== *)
theory Cache2_Run_Facts
  imports Cache2_Run Cache2_Aio_Facts
begin

text \<open>
  The facts about a whole run of the diagnosis: what an accepted command line gives the transfers,
  the balance of the descriptors, the size of the buffer, and what a check without an exception
  means.
\<close>

subsection \<open>From an accepted command line\<close>

lemma valid_options:
  assumes "\<not> c2_invalid opt"
  shows "chunks_fit opt" "c2_shards opt \<noteq> 0" "c2_depth opt \<noteq> 0" "aio_count opt < 2 ^ 64"
    "unat (c2_bytes opt) = aio_count opt * unat (c2_slotBytes opt)" "c2_iterations opt \<noteq> 0"
    "c2_blocks opt \<noteq> 0"
proof -
  show nz: "c2_shards opt \<noteq> 0" "c2_depth opt \<noteq> 0" "c2_iterations opt \<noteq> 0" "c2_blocks opt \<noteq> 0"
    using assms by (simp_all add: c2_invalid_def)
  have slot: "c2_slotBytes opt \<noteq> 0"
    and tensor: "c2_tensorBytes opt \<noteq> 0 \<longrightarrow> c2_slotBytes opt mod c2_tensorBytes opt = 0"
    using assms by (auto simp: c2_invalid_def)
  have "unat (c2_tensorBytes opt) dvd unat (c2_slotBytes opt)" if "c2_tensorBytes opt \<noteq> 0"
    using tensor that by (metis dvd_eq_mod_eq_0 unat_eq_zero unat_mod)
  then show "chunks_fit opt"
    using slot by (auto simp: chunks_fit_def psync_bytes_def unat_gt_0)
  show bytes: "unat (c2_bytes opt) = aio_count opt * unat (c2_slotBytes opt)"
    using c2_products(2) [OF assms] by (simp add: aio_count_def)
  have "0 < unat (c2_slotBytes opt)"
    using slot by (simp add: unat_gt_0)
  then have "aio_count opt \<le> unat (c2_bytes opt)"
    unfolding bytes by simp
  also have "\<dots> < 2 ^ 64"
    using c2_products(3) [OF assms] by simp
  finally show "aio_count opt < 2 ^ 64" .
qed

subsection \<open>What a synchronous transfer puts into the buffer\<close>

lemma psync_chunk_carries:
  assumes run: "psync_chunk K opt dump block shard pos fd st = (x, st')"
    and size: "pos + psync_bytes opt \<le> unat (c2_slotBytes opt)" and shard: "shard < unat (c2_shards opt)"
    and room: "block * unat (c2_shards opt) * unat (c2_slotBytes opt) + Suc shard * unat (c2_slotBytes opt)
      \<le> length (io_buffer st)"
  shows "carries opt st st'"
proof (cases dump)
  case True
  then show ?thesis
    using run by (auto simp: psync_chunk_def Let_def split: prod.splits sum.splits if_splits dest!: carries_OS)
next
  case False
  let ?S = "unat (c2_slotBytes opt)" and ?H = "unat (c2_shards opt)" and ?B = "psync_bytes opt"
  let ?off = "shard * ?S + pos"
  let ?at = "block * ?H * ?S + ?off"
  obtain r st1 where os: "OS K ''pread(fd, addr, bytes, offset)'' (os_pread fd ?B ?off) st = (r, st1)" by fastforce
  obtain a where a: "io_calls st1 = io_calls st @ [(os_pread fd ?B ?off, a)]" "io_buffer st1 = io_buffer st"
    "r = Inr a \<and> 0 \<le> os_ret a \<or> (\<exists>m. r = Inl m)"
    using OS_calls [OF os] by blast
  show ?thesis
  proof (cases r)
    case (Inl e)
    then show ?thesis
      using run False os carries_OS [OF os, of opt] by (simp add: psync_chunk_def Let_def)
  next
    case (Inr n)
    then have n: "n = a" "0 \<le> os_ret a"
      using a(3) by auto
    let ?d = "take (min (nat (os_ret a)) ?B) (os_bytes a)"
    have st': "st' = st1\<lparr>io_buffer := memcpy (io_buffer st) ?at ?d\<rparr>"
      using run False os Inr n(1) a(2) by (auto simp: psync_chunk_def Let_def split: if_splits)
    have fit: "?at + length ?d \<le> length (io_buffer st)"
      using room size by (simp add: min_def)
    have "Suc shard * ?S \<le> ?H * ?S"
      using shard by (intro mult_le_mono1) simp
    then have piece: "?off + ?B \<le> ?H * ?S"
      using size by simp
    have "io_buffer st' ! j = io_buffer st ! j \<or>
        delivered opt [(os_pread fd ?B ?off, a)] j (io_buffer st' ! j)" if j: "j < length (io_buffer st)" for j
    proof (cases "?at \<le> j \<and> j < ?at + length ?d")
      case True
      define i where "i = j - ?at"
      have "i < length ?d" "j = ?at + i"
        using True unfolding i_def by linarith+
      then have i: "j = block * (?H * ?S) + (?off + i)" "i < ?B" "i < nat (os_ret a)" "i < length (os_bytes a)"
        by (simp_all add: mult.assoc)
      then have ret: "int i < os_ret a"
        by linarith
      then have "delivered opt [(os_pread fd ?B ?off, a)] j (os_bytes a ! i)"
        unfolding delivered_def Let_def using piece i
        by (intro disjI1 exI [of _ fd] exI [of _ ?B] exI [of _ ?off] exI [of _ a] exI [of _ block] exI [of _ i]) auto
      moreover have "io_buffer st' ! j = ?d ! i"
        using memcpy_nth [OF fit j] True by (simp add: st' i_def)
      then have "io_buffer st' ! j = os_bytes a ! i"
        using i(2,3) n(2) by simp
      ultimately show ?thesis by simp
    next
      case False
      then show ?thesis
        using memcpy_nth [OF fit j] by (auto simp: st')
    qed
    then show ?thesis
      unfolding carries_def using a(1) memcpy_length [OF fit]
      by (intro conjI exI [of _ "[(os_pread fd ?B ?off, a)]"]) (simp_all add: st')
  qed
qed

lemma psync_slot_carries:
  assumes "psync_bytes opt dvd unat (c2_slotBytes opt)" and "shard < unat (c2_shards opt)"
  shows "psync_slot K opt dump block shard pos fd st = (x, st') \<Longrightarrow> psync_bytes opt dvd pos \<Longrightarrow>
    block * unat (c2_shards opt) * unat (c2_slotBytes opt) + Suc shard * unat (c2_slotBytes opt)
      \<le> length (io_buffer st) \<Longrightarrow>
    carries opt st st'"
proof (induction "unat (c2_slotBytes opt) - pos" arbitrary: pos st rule: less_induct)
  case less
  show ?case
  proof (cases "pos < unat (c2_slotBytes opt) \<and> 0 < psync_bytes opt")
    case False
    then show ?thesis
      using less.prems(1) by (subst (asm) psync_slot.simps) auto
  next
    case True
    have "psync_bytes opt dvd unat (c2_slotBytes opt) - pos"
      using assms(1) less.prems(2) True by (simp add: dvd_diff_nat)
    then have le: "pos + psync_bytes opt \<le> unat (c2_slotBytes opt)"
      using True by (auto dest: dvd_imp_le)
    obtain y st1 where c: "psync_chunk K opt dump block shard pos fd st = (y, st1)" by fastforce
    note step = psync_chunk_carries [OF c le assms(2) less.prems(3)]
    show ?thesis
    proof (cases y)
      case (Some e)
      then show ?thesis
        using less.prems(1) True c step by (subst (asm) psync_slot.simps) auto
    next
      case None
      then have "psync_slot K opt dump block shard (pos + psync_bytes opt) fd st1 = (x, st')"
        using less.prems(1) True c by (subst (asm) psync_slot.simps) simp
      moreover have "unat (c2_slotBytes opt) - (pos + psync_bytes opt) < unat (c2_slotBytes opt) - pos"
        using True by linarith
      ultimately have "carries opt st1 st'"
        using less.hyps [of "pos + psync_bytes opt" st1] less.prems(2,3) carries_length [OF step] by simp
      then show ?thesis
        by (rule carries_trans [OF step])
    qed
  qed
qed

lemma psync_shards_carries:
  assumes dv: "psync_bytes opt dvd unat (c2_slotBytes opt)"
  shows "psync_shards K opt dump path block shards fd st = (x, fd', st') \<Longrightarrow>
    \<forall>k \<in> set shards. k < unat (c2_shards opt) \<and>
      block * unat (c2_shards opt) * unat (c2_slotBytes opt) + Suc k * unat (c2_slotBytes opt)
        \<le> length (io_buffer st) \<Longrightarrow>
    carries opt st st'"
proof (induction shards arbitrary: fd st)
  case (Cons shard rest)
  define op where "op = (if fd < 0
      then OS K ''open(paths[block].c_str(), flags, 0644)'' (os_open path (c2_flags opt dump) 420) st
      else (Inr (os_plain fd), st))"
  obtain r st0 where 0: "op = (r, st0)" by fastforce
  have b0: "carries opt st st0"
    using 0 by (auto simp: op_def split: if_splits dest: carries_OS)
  note body = Cons.prems(1) [unfolded psync_shards.simps, folded op_def, unfolded 0]
  show ?case
  proof (cases r)
    case (Inl e)
    then show ?thesis
      using body b0 by auto
  next
    case (Inr a)
    obtain y st1 where 1: "psync_slot K opt dump block shard 0 (os_ret a) st0 = (y, st1)" by fastforce
    have b1: "carries opt st st1"
      using carries_trans [OF b0 psync_slot_carries [OF dv _ 1]] Cons.prems(2) carries_length [OF b0] by simp
    obtain r2 st2 where 2: "OS K ''close(closing)'' (os_close (os_ret a)) st1 = (r2, st2)" by fastforce
    have b2: "carries opt st st2"
      using carries_trans [OF b1 carries_OS [OF 2]] .
    have tail: "carries opt st st'"
      if "carries opt st s" and "psync_shards K opt dump path block rest f s = (x, fd', st')" for s f
      using carries_trans [OF that(1) Cons.IH [OF that(2)]] Cons.prems(2) carries_length [OF that(1)] by simp
    consider (slot) "\<exists>e. y = Some e" | (closed) "y = None" "dump \<or> shard + 1 = unat (c2_shards opt)"
      | (kept) "y = None" "\<not> (dump \<or> shard + 1 = unat (c2_shards opt))" by blast
    then show ?thesis
    proof cases
      case slot
      then show ?thesis
        using body Inr 1 b1 by auto
    next
      case closed
      then show ?thesis
        using body Inr 1 2 b2 tail [OF b2] by (cases r2) auto
    next
      case kept
      then show ?thesis
        using body Inr 1 tail [OF b1] by auto
    qed
  qed
qed simp

lemma carries_cleanup: "carries opt st (OS_cleanup K x c st)"
proof -
  obtain r s where os: "OS K x c st = (r, s)" by fastforce
  obtain ev where "io_calls s = io_calls st @ ev"
    using OS_calls [OF os] by blast
  then show ?thesis
    using OS_calls [OF os] os
    by (intro carries_same [of _ _ ev]) (auto simp: OS_cleanup_def split: sum.splits)
qed

lemma psync_blocks_carries:
  assumes dv: "psync_bytes opt dvd unat (c2_slotBytes opt)"
  shows "psync_blocks K opt dump paths blocks st = (x, st') \<Longrightarrow>
    \<forall>b \<in> set blocks. b < unat (c2_blocks opt) \<Longrightarrow>
    length (io_buffer st) = aio_count opt * unat (c2_slotBytes opt) \<Longrightarrow>
    carries opt st st'"
proof (induction blocks arbitrary: st)
  case (Cons b rest)
  obtain y fd st1 where 1: "psync_shards K opt dump (paths ! b) b [0..<unat (c2_shards opt)] (- 1) st = (y, fd, st1)"
    by (rule prod_cases3)
  have "\<forall>k \<in> set [0..<unat (c2_shards opt)]. k < unat (c2_shards opt) \<and>
      b * unat (c2_shards opt) * unat (c2_slotBytes opt) + Suc k * unat (c2_slotBytes opt) \<le> length (io_buffer st)"
  proof
    fix k
    assume "k \<in> set [0..<unat (c2_shards opt)]"
    then have k: "k < unat (c2_shards opt)" by simp
    then have "b * unat (c2_shards opt) + Suc k \<le> Suc b * unat (c2_shards opt)" by simp
    also have "\<dots> \<le> aio_count opt"
      unfolding aio_count_def using Cons.prems(2) by (intro mult_le_mono1) simp
    finally have "(b * unat (c2_shards opt) + Suc k) * unat (c2_slotBytes opt) \<le> aio_count opt * unat (c2_slotBytes opt)"
      by (rule mult_le_mono1)
    then show "k < unat (c2_shards opt) \<and>
        b * unat (c2_shards opt) * unat (c2_slotBytes opt) + Suc k * unat (c2_slotBytes opt) \<le> length (io_buffer st)"
      unfolding Cons.prems(3) using k by (simp only: add_mult_distrib)
  qed
  then have b1: "carries opt st st1"
    by (rule psync_shards_carries [OF dv 1])
  show ?case
  proof (cases y)
    case (Some e)
    then show ?thesis
      using Cons.prems(1) 1 b1 carries_trans [OF b1 carries_cleanup]
      by (auto simp: psync_block_def split: if_splits)
  next
    case None
    then have "psync_blocks K opt dump paths rest st1 = (x, st')"
      using Cons.prems(1) 1 by (simp add: psync_block_def)
    then have "carries opt st1 st'"
      using Cons.IH [of st1] Cons.prems(2,3) carries_length [OF b1] by simp
    then show ?thesis
      by (rule carries_trans [OF b1])
  qed
qed simp

subsection \<open>Every way out closes what was opened\<close>

text \<open>\<open>fds_balanced st st'\<close>: the calls made from \<open>st\<close> to \<open>st'\<close> close the descriptors they open.\<close>

definition fds_balanced :: "'k c2_state \<Rightarrow> 'k c2_state \<Rightarrow> bool" where
  "fds_balanced st st' \<longleftrightarrow> (\<exists>ev. io_calls st' = io_calls st @ ev \<and> fds_of fd_opened ev = fds_of fd_closed ev)"

lemma balanced_iff: "fds_balanced st st' \<longleftrightarrow> (\<exists>ev. fd_step {#} ev {#} st st')"
  by (simp add: fds_balanced_def fd_step_def)

lemma balanced_refl [simp]: "fds_balanced st st"
  by (auto simp: fds_balanced_def intro: exI [of _ "[]"])

lemma balanced_trans: "fds_balanced a b \<Longrightarrow> fds_balanced b c \<Longrightarrow> fds_balanced a c"
  unfolding balanced_iff by (blast intro: io_step_trans)

lemma balanced_fields:
  "fds_balanced (st\<lparr>io_buffer := b\<rparr>) st' = fds_balanced st st'" "fds_balanced st (st'\<lparr>io_buffer := b\<rparr>) = fds_balanced st st'"
  "fds_balanced st (st'\<lparr>cleanupFailed := c\<rparr>) = fds_balanced st st'"
  by (simp_all add: fds_balanced_def)

lemma OS_balanced:
  assumes "OS K x c st = (r, st')" and "\<not> makes_fd c" and "\<forall>fd. c \<noteq> os_close fd"
  shows "fds_balanced st st'"
  using OS_other_step [OF assms] by (auto simp: balanced_iff)

lemma Transfer_spec:
  assumes run: "Transfer K opt paths dump st = Some (x, st')" and ok: "\<not> c2_invalid opt"
    and len: "length (io_buffer st) = unat (c2_bytes opt)"
  shows "fds_balanced st st' \<and> carries opt st st' \<and> length (io_buffer st') = unat (c2_bytes opt)"
proof -
  note v = valid_options [OF ok]
  have "fds_balanced st st' \<and> carries opt st st'"
  proof (cases "c2_engine opt = ''aio''")
    case True
    then have t: "aio_transfer K opt paths dump st = Some (x, st')"
      using run by (simp add: Transfer_def)
    then show ?thesis
      using aio_transfer_spec [OF t v(4,3)] aio_transfer_carries [OF t v(4,3)] v(5) len
      by (auto simp: balanced_iff)
  next
    case False
    then have r: "psync_blocks K opt dump paths [0..<unat (c2_blocks opt)] st = (x, st')"
      using run by (simp add: Transfer_def)
    have "fds_balanced st st'"
      using psync_blocks_step [OF v(2) r] by (simp add: balanced_iff held_fd_def)
    moreover have "carries opt st st'"
      by (rule psync_blocks_carries [OF _ r]) (use v len in \<open>simp_all add: chunks_fit_def\<close>)
    ultimately show ?thesis
      by simp
  qed
  then show ?thesis
    using len carries_length [of opt st st'] by simp
qed

lemma sync_file_spec:
  assumes "sync_file K path st = (x, st')"
  shows "fds_balanced st st' \<and> io_buffer st' = io_buffer st"
proof -
  obtain r1 st1 where 1: "OS K ''open(temporary[block].c_str(), O_WRONLY)'' (os_open path [O_WRONLY] 0) st = (r1, st1)"
    by fastforce
  obtain e1 where e1: "fd_step {#} e1 (case r1 of Inl e \<Rightarrow> {#} | Inr a \<Rightarrow> held_fd (os_ret a)) st st1"
    and pos: "\<forall>a. r1 = Inr a \<longrightarrow> 0 \<le> os_ret a"
    using made_step [OF 1] by (auto simp: makes_fd_def)
  show ?thesis
  proof (cases r1)
    case (Inl e)
    then show ?thesis
      using assms 1 e1 OS_calls [OF 1] by (auto simp: sync_file_def balanced_iff)
  next
    case (Inr a)
    let ?fd = "os_ret a"
    obtain r2 st2 where 2: "OS K ''fdatasync(fd)'' (os_fdatasync ?fd) st1 = (r2, st2)" by fastforce
    obtain e2 where e2: "fd_step (held_fd ?fd) e2 (held_fd ?fd) st1 st2"
      using OS_other_step [OF 2] by (auto simp: makes_fd_def)
    note s2 = io_step_trans [OF e1 [unfolded Inr sum.case] e2]
    have b2: "io_buffer st2 = io_buffer st"
      using OS_calls [OF 1] OS_calls [OF 2] by auto
    show ?thesis
    proof (cases r2)
      case (Inl e)
      have pos_fd: "0 \<le> ?fd"
        using pos Inr by simp
      have "st' = OS_cleanup K ''close(fd)'' (os_close ?fd) st2"
        using assms 1 2 Inl \<open>r1 = Inr a\<close> by (simp add: sync_file_def)
      then show ?thesis
        using cleanup_close_step [of ?fd st2 K "''close(fd)''", OF pos_fd] b2
        by (auto simp: balanced_iff OS_cleanup_buffer intro: io_step_trans [OF s2])
    next
      case (Inr b)
      obtain r3 st3 where 3: "OS K ''close(fd)'' (os_close ?fd) st2 = (r3, st3)" by fastforce
      obtain e3 where "fd_step (held_fd ?fd) e3 {#} st2 st3"
        using close_step [OF 3] pos \<open>r1 = Inr a\<close> by auto
      moreover have "st' = st3"
        using assms 1 2 3 Inr \<open>r1 = Inr a\<close> by (auto simp: sync_file_def split: sum.splits)
      ultimately show ?thesis
        using OS_calls [OF 3] b2 by (auto simp: balanced_iff intro: io_step_trans [OF s2])
    qed
  qed
qed

lemma publish_file_spec:
  assumes "publish_file K opt tmp arch st = (x, st')"
  shows "fds_balanced st st' \<and> io_buffer st' = io_buffer st"
proof -
  obtain r1 st1 where 1: "OS K ''rename(temporary[block].c_str(), archived[block].c_str())'' (os_rename tmp arch) st
      = (r1, st1)" by fastforce
  obtain r2 st2 where 2: "OS K ''stat(archived[block].c_str(), &st)'' (os_stat arch) st1 = (r2, st2)" by fastforce
  have "fds_balanced st st1" "fds_balanced st1 st2" "io_buffer st1 = io_buffer st" "io_buffer st2 = io_buffer st"
    using OS_balanced [OF 1] OS_balanced [OF 2] OS_calls [OF 1] OS_calls [OF 2] by (auto simp: makes_fd_def)
  moreover have "st' = st1 \<or> st' = st2"
    using assms 1 2 by (auto simp: publish_file_def split: sum.splits if_splits)
  ultimately show ?thesis
    using balanced_trans by auto
qed

lemma commit_file_spec:
  assumes "commit_file K opt tmp arch st = (x, st')"
  shows "fds_balanced st st' \<and> io_buffer st' = io_buffer st"
proof (cases "c2_sync opt")
  case True
  obtain y st1 where 1: "sync_file K tmp st = (y, st1)" by fastforce
  then show ?thesis
    using assms True sync_file_spec [OF 1] publish_file_spec [of K opt tmp arch st1 x st']
    by (cases y) (auto simp: commit_file_def intro: balanced_trans)
next
  case False
  then show ?thesis
    using assms publish_file_spec [of K opt tmp arch st x st'] by (simp add: commit_file_def)
qed

lemma commit_files_spec:
  "commit_files K opt ps st = (x, st') \<Longrightarrow> fds_balanced st st' \<and> io_buffer st' = io_buffer st"
proof (induction ps arbitrary: st)
  case (Cons p rest)
  obtain tmp arch where p: "p = (tmp, arch)" by fastforce
  obtain y st1 where 1: "commit_file K opt tmp arch st = (y, st1)" by fastforce
  note c = commit_file_spec [OF 1]
  show ?case
  proof (cases y)
    case (Some e)
    then show ?thesis
      using Cons.prems p 1 c by auto
  next
    case None
    then have "fds_balanced st1 st' \<and> io_buffer st' = io_buffer st1"
      using Cons.prems p 1 Cons.IH [of st1] by simp
    then show ?thesis
      using c balanced_trans by auto
  qed
qed simp

subsection \<open>One iteration\<close>

text \<open>What the fill loop of an iteration writes, whatever was there before.\<close>

definition pattern :: "c2_options \<Rightarrow> nat \<Rightarrow> string" where
  "pattern opt iteration = expected_from opt iteration (unat (c2_bytes opt)) 0"

lemma pattern_length:
  "\<not> c2_invalid opt \<Longrightarrow> it \<le> 2 ^ 40 \<Longrightarrow> length (pattern opt it) = unat (c2_bytes opt)"
  using c2_products(3) [of opt] by (simp add: pattern_def expected_from_length)

lemma c2_fill_eq:
  assumes "\<not> c2_invalid opt" and "it \<le> 2 ^ 40" and "length buf = unat (c2_bytes opt)"
  shows "c2_fill opt it buf = Inr (pattern opt it)"
  using fill_from_eq [OF c2_products(3) [OF assms(1)] assms(2,3), of opt 0]
  by (simp add: c2_fill_def pattern_def)

lemma c2_verify_eq:
  assumes "\<not> c2_invalid opt" and "it \<le> 2 ^ 40" and "length buf = unat (c2_bytes opt)"
  shows "\<exists>v. c2_verify opt it buf = Inr v \<and> mismatches v = length (differing buf (pattern opt it))"
  using verify_from_eq [OF c2_products(3) [OF assms(1)] assms(2,3), of opt 0 no_mismatch]
  by (simp add: c2_verify_def pattern_def no_mismatch_def)

lemma check_buffer_iff:
  assumes "\<not> c2_invalid opt" and "it \<le> 2 ^ 40" and "length (io_buffer st) = unat (c2_bytes opt)"
  shows "check_buffer opt it st = None \<longleftrightarrow> io_buffer st = pattern opt it"
proof -
  obtain v where "c2_verify opt it (io_buffer st) = Inr v"
    "mismatches v = length (differing (io_buffer st) (pattern opt it))"
    using c2_verify_eq [OF assms] by blast
  then show ?thesis
    using differing_none [of "io_buffer st" "pattern opt it"] assms pattern_length
    by (simp add: check_buffer_def)
qed

lemma poison_length: "length buf = unat (c2_bytes opt) \<Longrightarrow> length (poison opt buf) = unat (c2_bytes opt)"
  by (simp add: poison_def memcpy_length)

lemma poison_nth: "j < unat (c2_bytes opt) \<Longrightarrow> length buf = unat (c2_bytes opt) \<Longrightarrow> poison opt buf ! j = CHR 0xFF"
  by (simp add: poison_def memcpy_nth)

lemma digits_not_poison: "only_digits s \<Longrightarrow> CHR 0xFF \<notin> set s"
  by (auto simp: only_digits_def list_all_iff is_digit_def)

lemma record_not_poison: "CHR 0xFF \<notin> set (record_at offset it opt)"
  by (simp add: record_at_def record_text_def Let_def digits_not_poison [OF pad12_digits])

text \<open>The pattern is text, so no byte of it is the poison.\<close>

lemma expected_not_poison: "CHR 0xFF \<notin> set (expected_from opt it bytes offset)"
proof (induction opt it bytes offset rule: expected_from.induct)
  case (1 opt it bytes offset)
  then show ?case
    using record_not_poison [of offset it opt]
    by (cases "offset < bytes") (auto simp: expected_from_step dest: in_set_takeD)
qed

lemma pattern_not_poison:
  "\<not> c2_invalid opt \<Longrightarrow> it \<le> 2 ^ 40 \<Longrightarrow> j < unat (c2_bytes opt) \<Longrightarrow> pattern opt it ! j \<noteq> CHR 0xFF"
  using expected_not_poison [of opt it "unat (c2_bytes opt)" 0] pattern_length [of opt it] nth_mem [of j "pattern opt it"]
  unfolding pattern_def by metis

text \<open>
  \<open>came_back K opt dir it calls\<close>: among the calls are those of a dump of the iteration's pattern and,
  after them, those of a load that started with a buffer in which every byte differed from the
  pattern, and which delivered every byte of it.
\<close>

definition came_back ::
  "'k kernel \<Rightarrow> c2_options \<Rightarrow> string \<Rightarrow> nat \<Rightarrow> (os_call \<times> os_result) list \<Rightarrow> bool" where
  "came_back K opt dir it calls \<longleftrightarrow>
     (\<exists>std std' stl stl' mid ev later.
        Transfer K opt (temporary_paths opt dir) True std = Some (None, std') \<and> io_buffer std = pattern opt it \<and>
        io_calls stl = io_calls std' @ mid \<and>
        Transfer K opt (archived_paths opt dir) False stl = Some (None, stl') \<and> io_calls stl' = io_calls stl @ ev \<and>
        calls = io_calls stl' @ later \<and>
        (\<forall>j<unat (c2_bytes opt). io_buffer stl ! j \<noteq> pattern opt it ! j \<and> delivered opt ev j (pattern opt it ! j)))"

lemma came_back_more: "came_back K opt dir it calls \<Longrightarrow> came_back K opt dir it (calls @ extra)"
proof -
  assume "came_back K opt dir it calls"
  then obtain std std' stl stl' mid ev later where
    "Transfer K opt (temporary_paths opt dir) True std = Some (None, std')" "io_buffer std = pattern opt it"
    "io_calls stl = io_calls std' @ mid" "Transfer K opt (archived_paths opt dir) False stl = Some (None, stl')"
    "io_calls stl' = io_calls stl @ ev" "calls = io_calls stl' @ later"
    "\<forall>j<unat (c2_bytes opt). io_buffer stl ! j \<noteq> pattern opt it ! j \<and> delivered opt ev j (pattern opt it ! j)"
    unfolding came_back_def by (elim exE conjE)
  moreover from this have "calls @ extra = io_calls stl' @ (later @ extra)"
    by simp
  ultimately show ?thesis
    unfolding came_back_def by (intro exI conjI) assumption+
qed

lemma came_back_balanced:
  "came_back K opt dir it (io_calls st) \<Longrightarrow> fds_balanced st st' \<Longrightarrow> came_back K opt dir it (io_calls st')"
  using came_back_more by (auto simp: fds_balanced_def)

lemma poisoned_load_delivers:
  assumes ok: "\<not> c2_invalid opt" and it: "it \<le> 2 ^ 40" and len: "length (io_buffer st) = unat (c2_bytes opt)"
    and run: "carries opt (st\<lparr>io_buffer := poison opt (io_buffer st)\<rparr>) st'" and same: "io_buffer st' = pattern opt it"
  shows "\<exists>ev. io_calls st' = io_calls (st\<lparr>io_buffer := poison opt (io_buffer st)\<rparr>) @ ev \<and> (\<forall>j<unat (c2_bytes opt).
    io_buffer (st\<lparr>io_buffer := poison opt (io_buffer st)\<rparr>) ! j \<noteq> pattern opt it ! j \<and> delivered opt ev j (pattern opt it ! j))"
proof -
  let ?stl = "st\<lparr>io_buffer := poison opt (io_buffer st)\<rparr>"
  obtain ev where ev: "io_calls st' = io_calls ?stl @ ev" "\<forall>j<length (io_buffer ?stl).
      io_buffer st' ! j = io_buffer ?stl ! j \<or> delivered opt ev j (io_buffer st' ! j)"
    using run by (auto simp: carries_def)
  have "io_buffer ?stl ! j \<noteq> pattern opt it ! j \<and> delivered opt ev j (pattern opt it ! j)" if j: "j < unat (c2_bytes opt)" for j
  proof -
    have b: "io_buffer ?stl ! j = CHR 0xFF" "j < length (io_buffer ?stl)"
      using poison_nth [OF j len] poison_length [OF len] j by simp_all
    then have "io_buffer ?stl ! j \<noteq> pattern opt it ! j"
      using pattern_not_poison [OF ok it j] by argo
    then show ?thesis
      using ev(2) b(2) unfolding same by metis
  qed
  then show ?thesis
    using ev(1) by blast
qed

lemma c2_iteration_spec:
  assumes run: "c2_iteration K opt dir it st = Some (x, st')" and ok: "\<not> c2_invalid opt" and it: "it \<le> 2 ^ 40"
    and len: "length (io_buffer st) = unat (c2_bytes opt)"
  shows "fds_balanced st st' \<and> length (io_buffer st') = unat (c2_bytes opt) \<and>
    (x = None \<longrightarrow> io_buffer st' = pattern opt it \<and> came_back K opt dir it (io_calls st'))"
proof -
  note filled = c2_fill_eq [OF ok it len]
  obtain x1 st1 where 1: "Transfer K opt (temporary_paths opt dir) True (st\<lparr>io_buffer := pattern opt it\<rparr>) = Some (x1, st1)"
    using run filled by (auto simp: c2_iteration_def split: option.splits)
  have s1: "fds_balanced st st1" "length (io_buffer st1) = unat (c2_bytes opt)"
    using Transfer_spec [OF 1 ok] pattern_length [OF ok it] by (simp_all add: balanced_fields)
  show ?thesis
  proof (cases x1)
    case (Some e)
    then show ?thesis
      using run filled 1 s1 by (auto simp: c2_iteration_def)
  next
    case x1: None
    obtain x2 st2 where 2: "commit_files K opt (zip (temporary_paths opt dir) (archived_paths opt dir)) st1 = (x2, st2)"
      by fastforce
    have s2: "fds_balanced st st2" "length (io_buffer st2) = unat (c2_bytes opt)"
      using commit_files_spec [OF 2] s1 balanced_trans by auto
    show ?thesis
    proof (cases x2)
      case (Some e)
      then show ?thesis
        using run filled 1 x1 2 s2 by (auto simp: c2_iteration_def)
    next
      case x2: None
      obtain x3 st3 where 3: "Transfer K opt (archived_paths opt dir) False
          (st2\<lparr>io_buffer := poison opt (io_buffer st2)\<rparr>) = Some (x3, st3)"
        using run filled 1 x1 2 x2 by (auto simp: c2_iteration_def split: option.splits)
      let ?stl = "st2\<lparr>io_buffer := poison opt (io_buffer st2)\<rparr>"
      have t3: "fds_balanced ?stl st3" "carries opt ?stl st3" "length (io_buffer st3) = unat (c2_bytes opt)"
        using Transfer_spec [OF 3 ok] poison_length [OF s2(2)] by simp_all
      have s3: "fds_balanced st st3"
        using t3(1) balanced_trans [OF s2(1)] by (simp add: balanced_fields)
      have "c2_iteration K opt dir it st = Some (case x3 of Some e \<Rightarrow> Some e | None \<Rightarrow> check_buffer opt it st3, st3)"
        using filled 1 x1 2 x2 3 by (cases x3) (simp_all add: c2_iteration_def)
      then have x: "x = (case x3 of Some e \<Rightarrow> Some e | None \<Rightarrow> check_buffer opt it st3)" "st' = st3"
        using run by simp_all
      have "io_buffer st3 = pattern opt it \<and> came_back K opt dir it (io_calls st3)" if "x = None"
      proof -
        have x3: "x3 = None" and same: "io_buffer st3 = pattern opt it"
          using that x(1) check_buffer_iff [OF ok it t3(3)] by (simp_all split: option.splits)
        obtain mid where mid: "io_calls st2 = io_calls st1 @ mid"
          using commit_files_spec [OF 2] by (auto simp: fds_balanced_def)
        obtain ev where ev: "io_calls st3 = io_calls ?stl @ ev" "\<forall>j<unat (c2_bytes opt).
            io_buffer ?stl ! j \<noteq> pattern opt it ! j \<and> delivered opt ev j (pattern opt it ! j)"
          using poisoned_load_delivers [OF ok it s2(2) t3(2) same] by blast
        have "io_buffer (st\<lparr>io_buffer := pattern opt it\<rparr>) = pattern opt it" "io_calls ?stl = io_calls st1 @ mid"
          "io_calls st3 = io_calls st3 @ []"
          using mid by simp_all
        then have "came_back K opt dir it (io_calls st3)"
          unfolding came_back_def using 1 [unfolded x1] 3 [unfolded x3] ev by (intro exI conjI) assumption+
        then show ?thesis
          using same by simp
      qed
      then show ?thesis
        using s3 t3(3) x(2) by simp
    qed
  qed
qed

lemma c2_loop_spec:
  assumes ok: "\<not> c2_invalid opt"
  shows "c2_loop K opt dir its st = Some (x, st') \<Longrightarrow> \<forall>it \<in> set its. it \<le> 2 ^ 40 \<Longrightarrow>
    length (io_buffer st) = unat (c2_bytes opt) \<Longrightarrow>
    fds_balanced st st' \<and> length (io_buffer st') = unat (c2_bytes opt) \<and>
    (x = None \<longrightarrow> (its \<noteq> [] \<longrightarrow> io_buffer st' = pattern opt (last its)) \<and>
       (\<forall>it \<in> set its. came_back K opt dir it (io_calls st')))"
proof (induction its arbitrary: st)
  case (Cons it rest)
  obtain x1 st1 where 1: "c2_iteration K opt dir it st = Some (x1, st1)"
    using Cons.prems(1) by (auto split: option.splits)
  have s1: "fds_balanced st st1" "length (io_buffer st1) = unat (c2_bytes opt)"
    "x1 = None \<longrightarrow> io_buffer st1 = pattern opt it \<and> came_back K opt dir it (io_calls st1)"
    using c2_iteration_spec [OF 1 ok] Cons.prems(2,3) by simp_all
  show ?case
  proof (cases x1)
    case (Some e)
    then show ?thesis
      using Cons.prems(1) 1 s1 by auto
  next
    case None
    then have tail: "c2_loop K opt dir rest st1 = Some (x, st')"
      using Cons.prems(1) 1 by simp
    have "fds_balanced st1 st' \<and> length (io_buffer st') = unat (c2_bytes opt) \<and>
        (x = None \<longrightarrow> (rest \<noteq> [] \<longrightarrow> io_buffer st' = pattern opt (last rest)) \<and>
          (\<forall>it \<in> set rest. came_back K opt dir it (io_calls st')))"
      using Cons.IH [OF tail] Cons.prems(2) s1(2) by simp
    then show ?thesis
      using balanced_trans [OF s1(1)] s1(3) None tail came_back_balanced by (cases "rest = []") auto
  qed
qed simp

subsection \<open>The run\<close>

lemma last_iteration:
  assumes "\<not> c2_invalid opt"
  shows "[0..<unat (c2_iterations opt)] \<noteq> []" "last [0..<unat (c2_iterations opt)] = unat (c2_iterations opt) - 1"
  using valid_options(6) [OF assms] by (simp_all add: unat_gt_0)

lemma c2_work_spec:
  assumes run: "c2_work E K fresh opt dir s st = Some (x, s', st')" and ok: "\<not> c2_invalid opt"
    and small: "c2_small opt"
  shows "fds_balanced st st' \<and> (x = None \<longrightarrow> io_buffer st' = pattern opt (unat (c2_iterations opt) - 1) \<and>
      (\<forall>it<unat (c2_iterations opt). came_back K opt dir it (io_calls st'))) \<and>
    (\<exists>ev. emits ev s s' \<and> (\<not> cleanupFailed st' \<longrightarrow> hm_settled ev))"
proof -
  obtain y m s1 where a: "hm_acquire E opt s = Some (y, m, s1)"
    using run by (auto simp: c2_work_def split: option.splits prod.splits)
  let ?r = "case y of Some e \<Rightarrow> Some (Some e, st)
      | None \<Rightarrow> c2_loop K opt dir [0..<unat (c2_iterations opt)] (st\<lparr>io_buffer := map fresh [0..<unat (c2_bytes opt)]\<rparr>)"
  obtain z st1 where r: "?r = Some (z, st1)"
    using run a by (auto simp: c2_work_def split: option.splits prod.splits)
  obtain failed m' s2 where d: "hm_destroy E (cleanupFailed st1) m s1 = (failed, m', s2)"
    by (rule prod_cases3)
  have res: "x = z" "s' = s2" "st' = st1\<lparr>cleanupFailed := failed\<rparr>"
    using run a r d by (simp_all add: c2_work_def)
  have "fds_balanced st st1 \<and> (z = None \<longrightarrow> io_buffer st1 = pattern opt (unat (c2_iterations opt) - 1) \<and>
      (\<forall>it<unat (c2_iterations opt). came_back K opt dir it (io_calls st1)))"
  proof (cases y)
    case (Some e)
    then show ?thesis
      using r by auto
  next
    case None
    have "unat (c2_iterations opt) \<le> 2 ^ 40"
      using small by (simp add: c2_small_def maxBytes_def word_le_nat_alt)
    then have its: "\<forall>it \<in> set [0..<unat (c2_iterations opt)]. it \<le> 2 ^ 40" by simp
    have "c2_loop K opt dir [0..<unat (c2_iterations opt)]
        (st\<lparr>io_buffer := map fresh [0..<unat (c2_bytes opt)]\<rparr>) = Some (z, st1)"
      using r None by simp
    from c2_loop_spec [OF ok this its] show ?thesis
      using last_iteration [OF ok] by (simp add: balanced_fields)
  qed
  moreover
  obtain e1 where e1: "emits e1 s s1" "hm_accounts e1 HostMemory_new m" "hm_ok m"
    using hm_acquire_spec [OF a] by blast
  obtain e2 where e2: "emits e2 s1 s2" "hm_accounts e2 m m'" "\<not> failed \<longrightarrow> \<not> cleanupFailed st1 \<and> hm_empty m'"
    using hm_destroy_spec [OF d e1(3)] by blast
  have "hm_empty HostMemory_new"
    by (simp add: hm_empty_def HostMemory_new_def)
  then have "\<not> failed \<longrightarrow> hm_settled (e1 @ e2)"
    using hm_accounts_settled [OF hm_accounts_trans [OF e1(2) e2(2)]] e2(3) by blast
  ultimately show ?thesis
    using emits_trans [OF e1(1) e2(1)] res by (auto simp: balanced_fields)
qed

lemma unlink_files_spec:
  "unlink_files K ps st = (x, st') \<Longrightarrow>
     fds_balanced st st' \<and> io_buffer st' = io_buffer st \<and> cleanupFailed st' = cleanupFailed st"
proof (induction ps arbitrary: st)
  case (Cons p rest)
  obtain r st1 where 1: "OS K ''unlink(path.c_str())'' (os_unlink p) st = (r, st1)" by fastforce
  have s1: "fds_balanced st st1" "io_buffer st1 = io_buffer st" "cleanupFailed st1 = cleanupFailed st"
    using OS_balanced [OF 1] OS_calls [OF 1] by (auto simp: makes_fd_def)
  then show ?case
    using Cons.prems 1 Cons.IH [of st1] balanced_trans [OF s1(1)] by (cases r) auto
qed simp

lemma c2_after_spec:
  assumes "c2_after K opt dir st = (x, st')"
  shows "fds_balanced st st' \<and> io_buffer st' = io_buffer st \<and> cleanupFailed st' = cleanupFailed st \<and>
    (x = None \<longrightarrow> \<not> cleanupFailed st)"
proof -
  obtain y st1 where u: "unlink_files K (archived_paths opt dir) st = (y, st1)" by fastforce
  obtain r st2 where o: "OS K ''rmdir(runTemplate.c_str())'' (os_rmdir dir) st1 = (r, st2)" by fastforce
  have "fds_balanced st1 st2" "io_buffer st2 = io_buffer st1" "cleanupFailed st2 = cleanupFailed st1"
    using OS_balanced [OF o] OS_calls [OF o] by (auto simp: makes_fd_def)
  then show ?thesis
    using assms u o unlink_files_spec [OF u]
    by (auto simp: c2_after_def remove_files_def intro: balanced_trans split: option.splits sum.splits if_splits)
qed

lemma c2_run_spec:
  assumes run: "c2_run E K fresh opt s st = Some (x, s', st')" and ok: "\<not> c2_invalid opt"
    and small: "c2_small opt"
  shows "fds_balanced st st' \<and>
    (x = None \<longrightarrow> \<not> cleanupFailed st' \<and> io_buffer st' = pattern opt (unat (c2_iterations opt) - 1) \<and>
      (\<exists>dir. \<forall>it<unat (c2_iterations opt). came_back K opt dir it (io_calls st'))) \<and>
    (\<exists>ev. emits ev s s' \<and> (\<not> cleanupFailed st' \<longrightarrow> hm_settled ev))"
proof -
  let ?mk = "os_mkdtemp (c2_dir opt @ ''/cache2-hal-aio-XXXXXX'')"
  obtain r st1 where 1: "sys_call K ?mk st = (r, st1)" by fastforce
  then have "io_calls st1 = io_calls st @ [(?mk, r)]"
    using sys_call_simps(1) [of K ?mk st] by simp
  then have b1: "fds_balanced st st1"
    by (simp add: fds_balanced_def fd_opened_def fd_closed_def makes_fd_def)
  obtain r2 st2 where 2: "OS K ''statfs(runTemplate.c_str(), &fs)'' (os_statfs (os_bytes r)) st1 = (r2, st2)" by fastforce
  have b2: "fds_balanced st st2"
    using balanced_trans [OF b1] OS_balanced [OF 2] by (auto simp: makes_fd_def)
  show ?thesis
  proof (cases "os_ret r = 0 \<or> (\<exists>e. r2 = Inl e)")
    case True
    then have "x \<noteq> None \<and> s' = s \<and> fds_balanced st st'"
      using run 1 2 b1 b2 by (auto simp: c2_run_def Let_def split: if_splits)
    then show ?thesis
      by (intro conjI exI [of _ "[]"]) (auto simp: hm_settled_def)
  next
    case False
    then obtain a where a: "os_ret r \<noteq> 0" "r2 = Inr a"
      by (cases r2) auto
    obtain y s3 st3 where 3: "c2_work E K fresh opt (os_bytes r) s st2 = Some (y, s3, st3)"
      using run 1 2 a by (auto simp: c2_run_def Let_def split: option.splits)
    note w = c2_work_spec [OF 3 ok small]
    have through: "fds_balanced st st3"
      using w balanced_trans [OF b2] by blast
    show ?thesis
    proof (cases y)
      case (Some e)
      then have "x = Some e \<and> s' = s3 \<and> st' = st3"
        using run 1 2 a 3 by (auto simp: c2_run_def Let_def)
      then show ?thesis
        using w through by simp
    next
      case None
      obtain z st4 where 4: "c2_after K opt (os_bytes r) st3 = (z, st4)" by fastforce
      then have res: "x = z" "s' = s3" "st' = st4"
        using run 1 2 a 3 None by (simp_all add: c2_run_def Let_def)
      note after = c2_after_spec [OF 4]
      have "\<forall>it<unat (c2_iterations opt). came_back K opt (os_bytes r) it (io_calls st4)"
        using after w None came_back_balanced by blast
      then show ?thesis
        using after w None balanced_trans [OF through] unfolding res by auto
    qed
  qed
qed

end
