(* ===== verification/Cache2_Round_Trip.thy ===== *)
theory Cache2_Round_Trip
  imports Cache2_Run_Facts
begin

text \<open>
  An iteration of the diagnosis with the synchronous engine on an operating system that keeps what
  is written (\<open>posix_files\<close>): it ends without an exception, the buffer holds the pattern again, and
  each block's file under its final name holds the block's part of it.
\<close>

subsection \<open>The names\<close>

lemma archived_path_inj: "archived_path dir a = archived_path dir b \<Longrightarrow> a = b"
  by (auto simp: archived_path_def dest: nat_to_string_inj)

lemma temporary_not_archived: "archived_path dir a @ ''.tmp'' \<noteq> archived_path dir b"
proof
  assume "archived_path dir a @ ''.tmp'' = archived_path dir b"
  then have "nat_to_string a @ ''.tmp'' = nat_to_string b"
    by (simp add: archived_path_def)
  then have "CHR ''.'' \<in> set (nat_to_string b)"
    by (metis in_set_conv_decomp)
  then show False
    using nat_to_string_digits [of b] by (auto simp: only_digits_def is_digit_def list_all_iff)
qed

lemma paths_nth:
  assumes "b < unat (c2_blocks opt)"
  shows "archived_paths opt dir ! b = archived_path dir b"
    "temporary_paths opt dir ! b = archived_path dir b @ ''.tmp''"
  using assms by (simp_all add: archived_paths_def temporary_paths_def)

lemma paths_distinct:
  "distinct (map ((!) (temporary_paths opt dir)) [0..<unat (c2_blocks opt)])"
  by (auto simp: distinct_map inj_on_def paths_nth dest: archived_path_inj)

definition name_pair :: "string \<Rightarrow> nat \<Rightarrow> string \<times> string" where
  "name_pair dir b = (archived_path dir b @ ''.tmp'', archived_path dir b)"

lemma zip_paths:
  "zip (temporary_paths opt dir) (archived_paths opt dir) = map (name_pair dir) [0..<unat (c2_blocks opt)]"
  by (simp add: temporary_paths_def archived_paths_def zip_map_map name_pair_def zip_same_conv_map comp_def)

subsection \<open>Commit\<close>

lemma sync_file_honest:
  assumes pf: "posix_files u K files fds" and st: "on_disk files fds F D st" and there: "F path \<noteq> None"
    and run: "sync_file K path st = (x, st')"
  shows "x = None \<and> on_disk files fds F D st'"
proof -
  obtain r1 st1 where 1: "OS K ''open(temporary[block].c_str(), O_WRONLY)'' (os_open path [O_WRONLY] 0) st = (r1, st1)"
    by fastforce
  have keep: "F(path \<mapsto> (case F path of None \<Rightarrow> [] | Some c \<Rightarrow> c)) = F"
    using there by auto
  obtain a where a: "r1 = Inr a" "D (os_ret a) = None" "on_disk files fds F (D(os_ret a \<mapsto> (path, False))) st1"
    using posix_open_OS [OF pf 1 st] there unfolding keep by auto
  obtain r2 st2 where 2: "OS K ''fdatasync(fd)'' (os_fdatasync (os_ret a)) st1 = (r2, st2)" by fastforce
  obtain b where b: "r2 = Inr b" "on_disk files fds F (D(os_ret a \<mapsto> (path, False))) st2"
    using posix_sync_OS [OF pf 2 a(3)] by blast
  obtain r3 st3 where 3: "OS K ''close(fd)'' (os_close (os_ret a)) st2 = (r3, st3)" by fastforce
  have restored: "D(os_ret a \<mapsto> (path, False), os_ret a := None) = D"
    using a(2) by auto
  obtain c where "r3 = Inr c" "on_disk files fds F D st3"
    using posix_close_OS [OF pf 3 b(2)] unfolding restored by auto
  then show ?thesis
    using run 1 a(1) 2 b(1) 3 by (simp add: sync_file_def)
qed

lemma commit_file_honest:
  assumes pf: "posix_files u K files fds" and st: "on_disk files fds F D st"
    and there: "F tmp = Some c" "length c = unat (c2_shards opt) * unat (c2_slotBytes opt)" and ne: "tmp \<noteq> arch"
    and run: "commit_file K opt tmp arch st = (x, st')"
  shows "x = None \<and> on_disk files fds (F(tmp := None, arch := F tmp)) D st'"
proof -
  obtain st0 where st0: "(if c2_sync opt then sync_file K tmp st else (None, st)) = (None, st0)"
    "on_disk files fds F D st0"
  proof (cases "c2_sync opt")
    case True
    obtain y s where "sync_file K tmp st = (y, s)" by fastforce
    then show ?thesis
      using sync_file_honest [OF pf st, of tmp y s] there(1) True that by auto
  next
    case False
    then show ?thesis
      using st that by auto
  qed
  obtain r1 st1 where 1: "OS K ''rename(temporary[block].c_str(), archived[block].c_str())'' (os_rename tmp arch) st0
      = (r1, st1)" by fastforce
  obtain a where a: "r1 = Inr a" "on_disk files fds (F(tmp := None, arch := F tmp)) D st1"
    using posix_rename_OS [OF pf 1 st0(2) _ ne] there(1) by auto
  obtain r2 st2 where 2: "OS K ''stat(archived[block].c_str(), &st)'' (os_stat arch) st1 = (r2, st2)" by fastforce
  have "(F(tmp := None, arch := F tmp)) arch = Some c"
    using there(1) by simp
  from posix_stat_OS [OF pf 2 a(2) this]
  obtain b where "r2 = Inr b" "os_out b = int (length c)" "on_disk files fds (F(tmp := None, arch := F tmp)) D st2"
    by blast
  then show ?thesis
    using run st0(1) 1 a(1) 2 there(2) by (simp add: commit_file_def publish_file_def)
qed

text \<open>The files after the renames.\<close>

definition moved :: "string \<Rightarrow> nat list \<Rightarrow> (string \<Rightarrow> string option) \<Rightarrow> string \<Rightarrow> string option" where
  "moved dir bs F = fold (\<lambda>b G. G(fst (name_pair dir b) := None, snd (name_pair dir b) := G (fst (name_pair dir b)))) bs F"

lemma moved_Cons:
  "moved dir (b # bs) F =
     moved dir bs (F(fst (name_pair dir b) := None, snd (name_pair dir b) := F (fst (name_pair dir b))))"
  by (simp add: moved_def)

lemma moved_other:
  "\<forall>b \<in> set bs. p \<noteq> fst (name_pair dir b) \<and> p \<noteq> snd (name_pair dir b) \<Longrightarrow> moved dir bs F p = F p"
  by (induction bs arbitrary: F) (simp add: moved_def, simp add: moved_Cons)

lemma names_apart:
  "fst (name_pair dir a) \<noteq> snd (name_pair dir b)"
  "fst (name_pair dir a) = fst (name_pair dir b) \<longleftrightarrow> a = b"
  "snd (name_pair dir a) = snd (name_pair dir b) \<longleftrightarrow> a = b"
  using temporary_not_archived [of dir a b] by (auto simp: name_pair_def dest: archived_path_inj)

lemma moved_named:
  "distinct bs \<Longrightarrow> b \<in> set bs \<Longrightarrow>
     moved dir bs F (snd (name_pair dir b)) = F (fst (name_pair dir b)) \<and>
     moved dir bs F (fst (name_pair dir b)) = None"
proof (induction bs arbitrary: F)
  case (Cons a bs)
  let ?F = "F(fst (name_pair dir a) := None, snd (name_pair dir a) := F (fst (name_pair dir a)))"
  show ?case
  proof (cases "b = a")
    case True
    then have "\<forall>c \<in> set bs. snd (name_pair dir b) \<noteq> fst (name_pair dir c) \<and> snd (name_pair dir b) \<noteq> snd (name_pair dir c)"
      "\<forall>c \<in> set bs. fst (name_pair dir b) \<noteq> fst (name_pair dir c) \<and> fst (name_pair dir b) \<noteq> snd (name_pair dir c)"
      using Cons.prems(1) by (auto simp: names_apart names_apart(1) [symmetric])
    then show ?thesis
      using True by (simp add: moved_Cons moved_other names_apart)
  next
    case False
    then have "moved dir bs ?F (snd (name_pair dir b)) = ?F (fst (name_pair dir b)) \<and>
        moved dir bs ?F (fst (name_pair dir b)) = None"
      using Cons by (intro Cons.IH) auto
    then show ?thesis
      using False by (simp add: moved_Cons names_apart)
  qed
qed simp

lemma commit_files_honest:
  assumes pf: "posix_files u K files fds"
  shows "commit_files K opt (map (name_pair dir) bs) st = (x, st') \<Longrightarrow> on_disk files fds F D st \<Longrightarrow> distinct bs \<Longrightarrow>
    \<forall>b \<in> set bs. \<exists>c. F (fst (name_pair dir b)) = Some c \<and> length c = unat (c2_shards opt) * unat (c2_slotBytes opt) \<Longrightarrow>
    x = None \<and> on_disk files fds (moved dir bs F) D st'"
proof (induction bs arbitrary: st F)
  case Nil
  then show ?case by (simp add: moved_def)
next
  case (Cons b bs)
  let ?tmp = "fst (name_pair dir b)" and ?arch = "snd (name_pair dir b)"
  let ?F = "F(?tmp := None, ?arch := F ?tmp)"
  obtain c where c: "F ?tmp = Some c" "length c = unat (c2_shards opt) * unat (c2_slotBytes opt)"
    using Cons.prems(4) by auto
  obtain y st1 where 1: "commit_file K opt ?tmp ?arch st = (y, st1)" by fastforce
  have s1: "y = None" "on_disk files fds ?F D st1"
    using commit_file_honest [OF pf Cons.prems(2) c _ 1] names_apart(1) by simp_all
  have tail: "commit_files K opt (map (name_pair dir) bs) st1 = (x, st')"
    using Cons.prems(1) 1 s1(1) by (cases "name_pair dir b") simp
  have "\<forall>a \<in> set bs. \<exists>c. ?F (fst (name_pair dir a)) = Some c \<and> length c = unat (c2_shards opt) * unat (c2_slotBytes opt)"
  proof
    fix a
    assume a: "a \<in> set bs"
    then have "a \<noteq> b"
      using Cons.prems(3) by auto
    then have "?F (fst (name_pair dir a)) = F (fst (name_pair dir a))"
      by (simp add: names_apart)
    then show "\<exists>c. ?F (fst (name_pair dir a)) = Some c \<and> length c = unat (c2_shards opt) * unat (c2_slotBytes opt)"
      using Cons.prems(4) a by auto
  qed
  then show ?case
    unfolding moved_Cons using Cons.prems(3) by (intro Cons.IH [OF tail s1(2)]) simp_all
qed

subsection \<open>The iteration\<close>

lemma block_part_length:
  assumes "b < n" and "n * unat (c2_shards opt) * unat (c2_slotBytes opt) = length buf"
  shows "Suc b * unat (c2_shards opt) * unat (c2_slotBytes opt) \<le> length buf"
    "length (block_part opt buf b) = unat (c2_shards opt) * unat (c2_slotBytes opt)"
proof -
  have "Suc b * unat (c2_shards opt) * unat (c2_slotBytes opt) \<le> n * unat (c2_shards opt) * unat (c2_slotBytes opt)"
    using assms(1) by (intro mult_le_mono1) simp
  then show room: "Suc b * unat (c2_shards opt) * unat (c2_slotBytes opt) \<le> length buf"
    using assms(2) by simp
  have "Suc b * unat (c2_shards opt) * unat (c2_slotBytes opt) =
      b * unat (c2_shards opt) * unat (c2_slotBytes opt) + unat (c2_shards opt) * unat (c2_slotBytes opt)"
    by (simp add: algebra_simps)
  then show "length (block_part opt buf b) = unat (c2_shards opt) * unat (c2_slotBytes opt)"
    using room by (simp add: block_part_def block_prefix_def)
qed

text \<open>The files after an iteration: only the names of the blocks differ from before.\<close>

definition archived_files :: "c2_options \<Rightarrow> string \<Rightarrow> string \<Rightarrow> (string \<Rightarrow> string option) \<Rightarrow> (string \<Rightarrow> string option) \<Rightarrow> bool" where
  "archived_files opt dir buf F F' \<longleftrightarrow>
     (\<forall>b<unat (c2_blocks opt). F' (archived_path dir b) = Some (block_part opt buf b) \<and>
        F' (archived_path dir b @ ''.tmp'') = None) \<and>
     (\<forall>p. (\<forall>b<unat (c2_blocks opt). p \<noteq> archived_path dir b \<and> p \<noteq> archived_path dir b @ ''.tmp'') \<longrightarrow> F' p = F p)"

lemma moved_dumped:
  fixes opt dir
  defines "n \<equiv> unat (c2_blocks opt)"
  shows "archived_files opt dir buf F (moved dir [0..<n] (dumped opt buf (temporary_paths opt dir) [0..<n] F))"
proof -
  let ?F1 = "dumped opt buf (temporary_paths opt dir) [0..<n] F"
  note sel = name_pair_def fst_conv snd_conv
  have named: "?F1 (archived_path dir b @ ''.tmp'') = Some (block_part opt buf b)" if "b < n" for b
    using dumped_same [OF paths_distinct [of opt dir, folded n_def], of b opt buf F] that
    by (simp add: n_def paths_nth)
  have other: "?F1 p = F p" if "\<forall>b<n. p \<noteq> archived_path dir b @ ''.tmp''" for p
    using that by (intro dumped_other) (auto simp: n_def paths_nth)
  have "moved dir [0..<n] ?F1 (archived_path dir b) = Some (block_part opt buf b) \<and>
      moved dir [0..<n] ?F1 (archived_path dir b @ ''.tmp'') = None" if "b < n" for b
    using moved_named [of "[0..<n]" b dir ?F1, unfolded sel] named [OF that] that by simp
  moreover have "moved dir [0..<n] ?F1 p = F p"
    if "\<forall>b<n. p \<noteq> archived_path dir b \<and> p \<noteq> archived_path dir b @ ''.tmp''" for p
    using moved_other [of "[0..<n]" p dir ?F1, unfolded sel] other [of p] that by simp
  ultimately show ?thesis
    by (simp add: archived_files_def n_def [symmetric])
qed

lemma c2_iteration_honest:
  assumes pf: "posix_files u K files fds" and ok: "\<not> c2_invalid opt" and psync: "c2_engine opt \<noteq> ''aio''"
    and df: "sizes_fit u opt"
    and it: "it \<le> 2 ^ 40" and len: "length (io_buffer st) = unat (c2_bytes opt)"
    and st: "on_disk files fds F D st"
    and fresh: "\<forall>b<unat (c2_blocks opt). F (archived_path dir b @ ''.tmp'') = None"
  shows "\<exists>st' F'. c2_iteration K opt dir it st = Some (None, st') \<and> io_buffer st' = pattern opt it \<and>
    on_disk files fds F' D st' \<and> archived_files opt dir (pattern opt it) F F'"
proof -
  let ?pat = "pattern opt it" and ?n = "unat (c2_blocks opt)"
  let ?tmp = "temporary_paths opt dir" and ?arch = "archived_paths opt dir"
  define F1 where "F1 = dumped opt ?pat ?tmp [0..<?n] F"
  define F2 where "F2 = moved dir [0..<?n] F1"
  note fit = valid_options(1) [OF ok]
  have pos: "0 < unat (c2_shards opt)"
    using valid_options(2) [OF ok] by (simp add: unat_gt_0)
  have plen: "length ?pat = unat (c2_bytes opt)"
    by (rule pattern_length [OF ok it])
  have size: "?n * unat (c2_shards opt) * unat (c2_slotBytes opt) = length ?pat"
    using valid_options(5) [OF ok] plen by (simp add: aio_count_def)
  note part = block_part_length [OF _ size]
  have after: "archived_files opt dir ?pat F F2"
    unfolding F2_def F1_def by (rule moved_dumped)
  obtain x1 st1 where 1: "psync_blocks K opt True ?tmp [0..<?n] (st\<lparr>io_buffer := ?pat\<rparr>) = (x1, st1)" by fastforce
  have "x1 = None \<and> io_buffer st1 = io_buffer (st\<lparr>io_buffer := ?pat\<rparr>) \<and>
      on_disk files fds (dumped opt (io_buffer (st\<lparr>io_buffer := ?pat\<rparr>)) ?tmp [0..<?n] F) D st1"
    by (rule psync_blocks_dump [OF pf fit df pos 1])
      (use st fresh part(1) paths_distinct [of opt dir] in \<open>simp_all add: on_disk_def paths_nth\<close>)
  then have s1: "x1 = None" "io_buffer st1 = ?pat" "on_disk files fds F1 D st1"
    by (simp_all add: F1_def)
  obtain x2 st2 where 2: "commit_files K opt (map (name_pair dir) [0..<?n]) st1 = (x2, st2)" by fastforce
  have "F1 (fst (name_pair dir b)) = Some (block_part opt ?pat b)" if "b < ?n" for b
    using dumped_same [OF paths_distinct [of opt dir], of b opt ?pat F] that
    by (simp add: F1_def paths_nth name_pair_def)
  then have s2: "x2 = None" "on_disk files fds F2 D st2"
    using commit_files_honest [OF pf 2 s1(3)] part(2) by (simp_all add: F2_def)
  have b2: "io_buffer st2 = ?pat"
    using commit_files_spec [OF 2] s1(2) by simp
  obtain x3 st3 where 3: "psync_blocks K opt False ?arch [0..<?n] (st2\<lparr>io_buffer := poison opt (io_buffer st2)\<rparr>)
      = (x3, st3)" by fastforce
  have "x3 = None \<and> on_disk files fds F2 D st3 \<and> io_buffer st3 = ?pat"
    by (rule psync_blocks_load [OF pf fit df pos 3])
      (use s2 after size plen poison_length [of "io_buffer st2" opt] b2 in
        \<open>simp_all add: on_disk_def paths_nth archived_files_def loaded_def\<close>)
  then have s3: "x3 = None" "on_disk files fds F2 D st3" "io_buffer st3 = ?pat" by simp_all
  have "check_buffer opt it st3 = None"
    using check_buffer_iff [OF ok it, of st3] s3(3) plen by simp
  then have "c2_iteration K opt dir it st = Some (None, st3)"
    using c2_fill_eq [OF ok it len] psync 1 s1(1) 2 s2(1) 3 s3(1)
    by (simp add: c2_iteration_def Transfer_def zip_paths)
  then show ?thesis
    using s3 after by blast
qed

subsection \<open>No clean-up fails on the way\<close>

lemma OS_flag: "OS K x c st = (r, st') \<Longrightarrow> cleanupFailed st' = cleanupFailed st"
  using OS_calls by blast

lemma psync_chunk_flag:
  "psync_chunk K opt dump block shard pos fd st = (x, st') \<Longrightarrow> cleanupFailed st' = cleanupFailed st"
  by (cases dump) (auto simp: psync_chunk_def Let_def split: prod.splits sum.splits if_splits dest!: OS_flag)

lemma psync_slot_flag:
  "psync_slot K opt dump block shard pos fd st = (x, st') \<Longrightarrow> cleanupFailed st' = cleanupFailed st"
proof (induction K opt dump block shard pos fd st rule: psync_slot.induct)
  case (1 K opt dump block shard pos fd st)
  obtain y st1 where c: "psync_chunk K opt dump block shard pos fd st = (y, st1)" by fastforce
  show ?case
  proof (cases "(pos < unat (c2_slotBytes opt) \<and> 0 < psync_bytes opt) \<and> y = None")
    case True
    then have "psync_slot K opt dump block shard (pos + psync_bytes opt) fd st1 = (x, st')"
      using "1.prems" c by (subst (asm) psync_slot.simps) simp
    then show ?thesis
      using "1.IH" [OF _ c [symmetric]] True psync_chunk_flag [OF c] by simp
  next
    case False
    then show ?thesis
      using "1.prems" c psync_chunk_flag [OF c] by (subst (asm) psync_slot.simps) (auto split: if_splits)
  qed
qed

lemma psync_shards_flag:
  "psync_shards K opt dump path block shards fd st = (x, fd', st') \<Longrightarrow> cleanupFailed st' = cleanupFailed st"
proof (induction shards arbitrary: fd st)
  case (Cons shard rest)
  define op where "op = (if fd < 0
      then OS K ''open(paths[block].c_str(), flags, 0644)'' (os_open path (c2_flags opt dump) 420) st
      else (Inr (os_plain fd), st))"
  obtain r st0 where 0: "op = (r, st0)" by fastforce
  have b0: "cleanupFailed st0 = cleanupFailed st"
    using 0 by (auto simp: op_def split: if_splits dest: OS_flag)
  note body = Cons.prems [unfolded psync_shards.simps, folded op_def, unfolded 0]
  show ?case
  proof (cases r)
    case (Inl e)
    then show ?thesis
      using body b0 by auto
  next
    case (Inr a)
    obtain y st1 where 1: "psync_slot K opt dump block shard 0 (os_ret a) st0 = (y, st1)" by fastforce
    obtain r2 st2 where 2: "OS K ''close(closing)'' (os_close (os_ret a)) st1 = (r2, st2)" by fastforce
    note keep = psync_slot_flag [OF 1] OS_flag [OF 2] b0
    show ?thesis
    proof (cases "y = None \<and> (dump \<or> shard + 1 = unat (c2_shards opt))")
      case True
      then show ?thesis
        using body Inr 1 2 keep Cons.IH [of "- 1" st2] by (cases r2) auto
    next
      case False
      then show ?thesis
        using body Inr 1 keep Cons.IH [of "os_ret a" st1] by (cases y) auto
    qed
  qed
qed simp

lemma psync_blocks_flag:
  "psync_blocks K opt dump paths blocks st = (None, st') \<Longrightarrow> cleanupFailed st' = cleanupFailed st"
proof (induction blocks arbitrary: st)
  case (Cons b rest)
  obtain y fd st1 where 1: "psync_shards K opt dump (paths ! b) b [0..<unat (c2_shards opt)] (- 1) st = (y, fd, st1)"
    by (rule prod_cases3)
  then show ?case
    using Cons.prems Cons.IH [of st1] psync_shards_flag [OF 1] by (cases y) (auto simp: psync_block_def)
qed simp

lemma commit_files_flag:
  "commit_files K opt ps st = (None, st') \<Longrightarrow> cleanupFailed st' = cleanupFailed st"
proof (induction ps arbitrary: st)
  case (Cons p rest)
  obtain tmp arch where p: "p = (tmp, arch)" by fastforce
  obtain y st1 where 1: "commit_file K opt tmp arch st = (y, st1)" by fastforce
  have y: "y = None" and tail: "commit_files K opt rest st1 = (None, st')"
    using Cons.prems 1 p by (auto split: option.splits)
  have "cleanupFailed st1 = cleanupFailed st"
    using 1 unfolding y commit_file_def sync_file_def publish_file_def
    by (auto split: if_splits option.splits sum.splits prod.splits dest!: OS_flag)
  then show ?case
    using Cons.IH [OF tail] by simp
qed simp

lemma c2_iteration_flag:
  assumes "c2_iteration K opt dir it st = Some (None, st')" and "c2_engine opt \<noteq> ''aio''"
  shows "cleanupFailed st' = cleanupFailed st"
  using assms
  by (auto simp: c2_iteration_def Transfer_def split: sum.splits option.splits prod.splits
      dest!: psync_blocks_flag commit_files_flag)

subsection \<open>A run that passes\<close>

lemma c2_loop_honest:
  assumes pf: "posix_files u K files fds" and ok: "\<not> c2_invalid opt" and psync: "c2_engine opt \<noteq> ''aio''"
    and df: "sizes_fit u opt"
  shows "its \<noteq> [] \<Longrightarrow> \<forall>it \<in> set its. it \<le> 2 ^ 40 \<Longrightarrow> length (io_buffer st) = unat (c2_bytes opt) \<Longrightarrow>
    on_disk files fds F D st \<Longrightarrow> \<forall>b<unat (c2_blocks opt). F (archived_path dir b @ ''.tmp'') = None \<Longrightarrow>
    \<exists>st' F'. c2_loop K opt dir its st = Some (None, st') \<and> cleanupFailed st' = cleanupFailed st \<and>
      on_disk files fds F' D st' \<and> archived_files opt dir (pattern opt (last its)) F F'"
proof (induction its arbitrary: st F)
  case (Cons it rest)
  have it: "it \<le> 2 ^ 40"
    using Cons.prems(2) by simp
  obtain st1 F1 where 1: "c2_iteration K opt dir it st = Some (None, st1)" "io_buffer st1 = pattern opt it"
    "on_disk files fds F1 D st1" "archived_files opt dir (pattern opt it) F F1"
    using c2_iteration_honest [OF pf ok psync df it Cons.prems(3-5)] by blast
  have flag: "cleanupFailed st1 = cleanupFailed st"
    by (rule c2_iteration_flag [OF 1(1) psync])
  show ?case
  proof (cases "rest = []")
    case True
    then show ?thesis
      using 1 flag by auto
  next
    case False
    have "length (io_buffer st1) = unat (c2_bytes opt)"
      using 1(2) pattern_length [OF ok] Cons.prems(2) by simp
    moreover have "\<forall>b<unat (c2_blocks opt). F1 (archived_path dir b @ ''.tmp'') = None"
      using 1(4) by (simp add: archived_files_def)
    ultimately obtain st2 F2 where 2: "c2_loop K opt dir rest st1 = Some (None, st2)"
      "cleanupFailed st2 = cleanupFailed st1" "on_disk files fds F2 D st2"
      "archived_files opt dir (pattern opt (last rest)) F1 F2"
      using Cons.IH [OF False _ _ 1(3)] Cons.prems(2) by auto
    moreover have "archived_files opt dir (pattern opt (last rest)) F F2"
      using 2(4) 1(4) by (auto simp: archived_files_def)
    ultimately show ?thesis
      using 1(1) flag False by auto
  qed
qed simp

text \<open>
  The calls on directories: \<open>mkdtemp\<close> and \<open>statfs\<close> touch no file, \<open>statfs\<close> answers, \<open>unlink\<close>
  removes a file that exists, and \<open>rmdir\<close> removes a directory without files.
\<close>

definition posix_dir :: "'k kernel \<Rightarrow> ('k \<Rightarrow> file_view) \<Rightarrow> ('k \<Rightarrow> fd_view) \<Rightarrow> bool" where
  "posix_dir K files fds \<longleftrightarrow>
     (\<forall>w t r w'. os_fn K (os_mkdtemp t) w = (r, w') \<longrightarrow> files w' = files w \<and> fds w' = fds w) \<and>
     (\<forall>w p r w'. os_fn K (os_statfs p) w = (r, w') \<longrightarrow> os_ret r \<ge> 0 \<and> files w' = files w \<and> fds w' = fds w) \<and>
     (\<forall>w p r w'. os_fn K (os_unlink p) w = (r, w') \<longrightarrow> files w p \<noteq> None \<longrightarrow>
        os_ret r = 0 \<and> files w' = (files w)(p := None) \<and> fds w' = fds w) \<and>
     (\<forall>w d r w'. os_fn K (os_rmdir d) w = (r, w') \<longrightarrow> (\<forall>n. files w (d @ ''/'' @ n) = None) \<longrightarrow>
        os_ret r = 0 \<and> files w' = files w \<and> fds w' = fds w)"

text \<open>A directory that \<open>mkdtemp\<close> has made is empty.\<close>

definition new_dir :: "(string \<Rightarrow> string option) \<Rightarrow> string \<Rightarrow> bool" where
  "new_dir F dir \<longleftrightarrow> (\<forall>n. F (dir @ ''/'' @ n) = None)"

lemma hm_acquire_malloc:
  assumes "c2_memoryType opt = ''malloc''"
    and base: "call E (std_malloc (c2_bytes opt + 4096 - 1)) s = (ret, base, s1)" "base \<noteq> nullptr"
  shows "\<exists>m. hm_acquire E opt s = Some (None, m, s1) \<and> \<not> hm_deviceSet m \<and> \<not> hm_initialized m \<and> mallocBase m = base"
  using assms by (simp add: hm_acquire_def hm_malloc_def HostMemory_new_def)

lemma hm_destroy_malloc:
  assumes "mallocBase m \<noteq> nullptr" "\<not> hm_deviceSet m" "\<not> hm_initialized m"
  shows "\<exists>m' s'. hm_destroy E failed m s = (failed, m', s')"
  using assms by (simp add: hm_destroy_def hm_Release_def SDK_if_def case_prod_beta)

subsection \<open>Removing the files\<close>

lemma unlink_files_honest:
  assumes pd: "posix_dir K files fds"
  shows "unlink_files K ps st = (x, st') \<Longrightarrow> on_disk files fds F D st \<Longrightarrow> distinct ps \<Longrightarrow>
    \<forall>p \<in> set ps. F p \<noteq> None \<Longrightarrow>
    x = None \<and> on_disk files fds (\<lambda>p. if p \<in> set ps then None else F p) D st'"
proof (induction ps arbitrary: st F)
  case (Cons p ps)
  obtain r st1 where 1: "OS K ''unlink(path.c_str())'' (os_unlink p) st = (r, st1)" by fastforce
  obtain a where a: "r = Inr a" "on_disk files fds (F(p := None)) D st1"
    using OS_result [OF 1] pd Cons.prems(2,4) by (auto simp: posix_dir_def on_disk_def)
  have "unlink_files K ps st1 = (x, st')"
    using Cons.prems(1) 1 a(1) by simp
  moreover have "\<forall>q \<in> set ps. (F(p := None)) q \<noteq> None"
    using Cons.prems(3,4) by auto
  ultimately have "x = None \<and> on_disk files fds (\<lambda>q. if q \<in> set ps then None else (F(p := None)) q) D st'"
    using Cons.IH [OF _ a(2)] Cons.prems(3) by simp
  moreover have "(\<lambda>q. if q \<in> set ps then None else (F(p := None)) q) =
      (\<lambda>q. if q \<in> set (p # ps) then None else F q)"
    by auto
  ultimately show ?case
    by simp
qed simp

lemma archived_paths_set:
  "distinct (archived_paths opt dir)"
  "set (archived_paths opt dir) = archived_path dir ` {b. b < unat (c2_blocks opt)}"
  by (auto simp: archived_paths_def distinct_map inj_on_def dest: archived_path_inj)

text \<open>In a directory that was empty, nothing is left when the files of the blocks are removed.\<close>

lemma remove_files_honest:
  assumes pd: "posix_dir K files fds" and run: "remove_files K opt dir st = (x, st')"
    and st: "on_disk files fds F' D st" and files: "archived_files opt dir buf F F'" and new: "new_dir F dir"
  shows "x = None \<and> on_disk files fds F D st'"
proof -
  let ?ps = "archived_paths opt dir"
  have gone: "(\<lambda>p. if p \<in> set ?ps then None else F' p) = F"
  proof
    fix p
    consider (final) b where "b < unat (c2_blocks opt)" "p = archived_path dir b"
      | (tmp) b where "b < unat (c2_blocks opt)" "p = archived_path dir b @ ''.tmp''"
      | (other) "\<forall>b<unat (c2_blocks opt). p \<noteq> archived_path dir b \<and> p \<noteq> archived_path dir b @ ''.tmp''"
      by blast
    then show "(if p \<in> set ?ps then None else F' p) = F p"
    proof cases
      case final
      then show ?thesis
        using new by (auto simp: archived_paths_set new_dir_def archived_path_def)
    next
      case tmp
      then have "F' p = None" and "F p = None"
        using files new by (simp_all add: archived_files_def new_dir_def archived_path_def)
      then show ?thesis by simp
    next
      case other
      then show ?thesis
        using files by (auto simp: archived_paths_set archived_files_def)
    qed
  qed
  obtain y st1 where u: "unlink_files K ?ps st = (y, st1)" by fastforce
  have "\<forall>p \<in> set ?ps. F' p \<noteq> None"
    using files by (auto simp: archived_paths_set archived_files_def)
  then have s1: "y = None" "on_disk files fds F D st1"
    using unlink_files_honest [OF pd u st archived_paths_set(1)] unfolding gone by simp_all
  obtain r st2 where o: "OS K ''rmdir(runTemplate.c_str())'' (os_rmdir dir) st1 = (r, st2)" by fastforce
  obtain a where "r = Inr a" "on_disk files fds F D st2"
    using OS_result [OF o] pd s1(2) new by (auto simp: posix_dir_def on_disk_def new_dir_def)
  then show ?thesis
    using run u s1(1) o by (simp add: remove_files_def)
qed

text \<open>The whole run, with memory from \<open>malloc\<close>; the files are kept or removed as asked.\<close>

lemma c2_run_honest:
  assumes pf: "posix_files u K files fds" and pd: "posix_dir K files fds"
    and ok: "\<not> c2_invalid opt" and small: "c2_small opt" and df: "sizes_fit u opt"
    and opt: "c2_engine opt = ''psync''" "c2_memoryType opt = ''malloc''"
    and dir: "os_fn K (os_mkdtemp (c2_dir opt @ ''/cache2-hal-aio-XXXXXX'')) (io_world st) = (r, w)" "os_ret r \<noteq> 0"
      "new_dir (files (io_world st)) (os_bytes r)"
    and base: "call E (std_malloc (c2_bytes opt + 4096 - 1)) s = (ret, base, s1)" "base \<noteq> nullptr"
    and flag: "\<not> cleanupFailed st"
  shows "\<exists>s' st'. c2_run E K fresh opt s st = Some (None, s', st') \<and>
    (if c2_keepFiles opt
     then archived_files opt (os_bytes r) (pattern opt (unat (c2_iterations opt) - 1))
       (files (io_world st)) (files (io_world st'))
     else files (io_world st') = files (io_world st)) \<and> fds (io_world st') = fds (io_world st)"
proof -
  let ?F = "files (io_world st)" and ?D = "fds (io_world st)" and ?dir = "os_bytes r"
  let ?its = "[0..<unat (c2_iterations opt)]"
  obtain st1 where 1: "sys_call K (os_mkdtemp (c2_dir opt @ ''/cache2-hal-aio-XXXXXX'')) st = (r, st1)"
    "on_disk files fds ?F ?D st1" "cleanupFailed st1 = cleanupFailed st"
    using dir pd by (auto simp: sys_call_def posix_dir_def on_disk_def)
  obtain r2 st2 where 2: "OS K ''statfs(runTemplate.c_str(), &fs)'' (os_statfs ?dir) st1 = (r2, st2)" by fastforce
  obtain a where a: "r2 = Inr a" "on_disk files fds ?F ?D st2" "cleanupFailed st2 = cleanupFailed st"
    using OS_result [OF 2] 1(2,3) pd by (auto simp: posix_dir_def on_disk_def)
  obtain m where m: "hm_acquire E opt s = Some (None, m, s1)" "\<not> hm_deviceSet m" "\<not> hm_initialized m"
    "mallocBase m \<noteq> nullptr"
    using hm_acquire_malloc [OF opt(2) base] base(2) by auto
  have its: "\<forall>it \<in> set ?its. it \<le> 2 ^ 40"
    using small by (simp add: c2_small_def maxBytes_def word_le_nat_alt)
  have fresh_names: "\<forall>b<unat (c2_blocks opt). ?F (archived_path ?dir b @ ''.tmp'') = None"
    using dir(3) by (simp add: archived_path_def new_dir_def)
  have psync: "c2_engine opt \<noteq> ''aio''"
    using opt(1) by simp
  let ?st = "st2\<lparr>io_buffer := map fresh [0..<unat (c2_bytes opt)]\<rparr>"
  have "on_disk files fds ?F ?D ?st" "length (io_buffer ?st) = unat (c2_bytes opt)"
    using a(2) by (simp_all add: on_disk_def)
  then obtain st3 F3 where 3: "c2_loop K opt ?dir ?its ?st = Some (None, st3)" "cleanupFailed st3 = cleanupFailed ?st"
    "on_disk files fds F3 ?D st3" "archived_files opt ?dir (pattern opt (last ?its)) ?F F3"
    using c2_loop_honest [OF pf ok psync df last_iteration(1) [OF ok] its _ _ fresh_names] by blast
  obtain m' s2 where d: "hm_destroy E (cleanupFailed st3) m s1 = (cleanupFailed st3, m', s2)"
    using hm_destroy_malloc [OF m(4,2,3)] by blast
  define st4 where "st4 = st3\<lparr>cleanupFailed := cleanupFailed st3\<rparr>"
  have w: "c2_work E K fresh opt ?dir s st2 = Some (None, s2, st4)"
    using m(1) 3(1) d by (simp add: c2_work_def st4_def)
  have st4: "\<not> cleanupFailed st4" "on_disk files fds F3 ?D st4"
    using 3(2,3) a(3) flag by (simp_all add: st4_def on_disk_def)
  obtain y st5 where e: "c2_after K opt ?dir st4 = (y, st5)" by fastforce
  have "y = None \<and> on_disk files fds (if c2_keepFiles opt then F3 else ?F) ?D st5"
  proof (cases "c2_keepFiles opt")
    case True
    then show ?thesis
      using e st4 by (simp add: c2_after_def)
  next
    case False
    then have "remove_files K opt ?dir st4 = (y, st5)"
      using e st4(1) by (simp add: c2_after_def)
    from remove_files_honest [OF pd this st4(2) 3(4) dir(3)] False show ?thesis
      by simp
  qed
  moreover from this have "c2_run E K fresh opt s st = Some (None, s2, st5)"
    using 1(1) dir(2) 2 a(1) w e by (simp add: c2_run_def Let_def)
  ultimately show ?thesis
    using 3(4) last_iteration(2) [OF ok] by (auto simp: on_disk_def)
qed

end
