(* ===== verification/Cache2_Examples.thy ===== *)
theory Cache2_Examples
  imports Cache2_Round_Trip
begin

text \<open>
  Concrete systems on which the properties of the diagnosis are shown to apply: a file system in
  memory that satisfies \<open>posix_files\<close> and \<open>posix_dir\<close>, a C heap, and a kernel with a scheduler
  under which an asynchronous phase with one request passes.
\<close>

subsection \<open>A file system in memory\<close>

record ram =
  ram_files :: file_view
  ram_open :: "(string \<times> bool) option list"

definition ram_fds :: "ram \<Rightarrow> fd_view" where
  "ram_fds w fd = (if 0 \<le> fd \<and> nat fd < length (ram_open w) then ram_open w ! nat fd else None)"

text \<open>
  The unit of direct transfers is 512 bytes; a misaligned direct transfer, and one longer than a
  call may be, fails.
\<close>

definition ram_unit :: nat where
  "ram_unit = 512"

definition ram_fn :: "os_call \<Rightarrow> ram \<Rightarrow> os_result \<times> ram" where
  "ram_fn c w =
     (case c of
        os_open p fl m \<Rightarrow>
          (if O_CREAT \<in> set fl \<or> ram_files w p \<noteq> None
           then (os_plain (int (length (ram_open w))),
                 w\<lparr>ram_files := (ram_files w)(p \<mapsto> (case ram_files w p of None \<Rightarrow> [] | Some c \<Rightarrow> c)),
                   ram_open := ram_open w @ [Some (p, O_DIRECT \<in> set fl)]\<rparr>)
           else (os_plain (- 1), w))
      | os_pwrite fd data off \<Rightarrow>
          (case ram_fds w fd of
             None \<Rightarrow> (os_plain (- 1), w)
           | Some (p, direct) \<Rightarrow>
               if call_fits ram_unit direct (length data) off
               then (os_plain (int (length data)), w\<lparr>ram_files := (ram_files w)(p \<mapsto> memcpy (the (ram_files w p)) off data)\<rparr>)
               else (os_plain (- 1), w))
      | os_pread fd n off \<Rightarrow>
          (case ram_fds w fd of
             None \<Rightarrow> (os_plain (- 1), w)
           | Some (p, direct) \<Rightarrow>
               if call_fits ram_unit direct n off
               then (let d = take n (drop off (the (ram_files w p))) in ((os_plain (int (length d)))\<lparr>os_bytes := d\<rparr>, w))
               else (os_plain (- 1), w))
      | os_close fd \<Rightarrow>
          (if ram_fds w fd = None then (os_plain (- 1), w)
           else (os_plain 0, w\<lparr>ram_open := (ram_open w)[nat fd := None]\<rparr>))
      | os_rename a b \<Rightarrow> (os_plain 0, w\<lparr>ram_files := (ram_files w)(a := None, b := ram_files w a)\<rparr>)
      | os_unlink p \<Rightarrow> (os_plain (if ram_files w p = None then - 1 else 0), w\<lparr>ram_files := (ram_files w)(p := None)\<rparr>)
      | os_stat p \<Rightarrow> ((os_plain 0)\<lparr>os_out := int (length (the (ram_files w p)))\<rparr>, w)
      | os_mkdtemp t \<Rightarrow> ((os_plain 1)\<lparr>os_bytes := t\<rparr>, w)
      | _ \<Rightarrow> (os_plain 0, w))"

definition ram_kernel :: "ram kernel" where
  "ram_kernel = \<lparr>os_fn = ram_fn, os_turn = (\<lambda>w. (Completion_turn, w)), os_strerror = (\<lambda>_. []), os_vector = 0\<rparr>"

definition ram_empty :: ram where
  "ram_empty = \<lparr>ram_files = (\<lambda>_. None), ram_open = []\<rparr>"

lemma ram_fds_files [simp]: "ram_fds (w\<lparr>ram_files := f\<rparr>) = ram_fds w"
  by (simp add: ram_fds_def fun_eq_iff)

lemma ram_posix_open: "posix_open ram_kernel ram_files ram_fds"
  by (auto simp: posix_open_def ram_kernel_def ram_fn_def ram_fds_def fun_eq_iff nth_append)

lemma ram_posix_close: "posix_close ram_kernel ram_files ram_fds"
  by (auto simp: posix_close_def ram_kernel_def ram_fn_def ram_fds_def fun_eq_iff nth_list_update split: if_splits)

lemma ram_posix: "posix_files ram_unit ram_kernel ram_files ram_fds"
proof -
  have "posix_pwrite ram_unit ram_kernel ram_files ram_fds"
    by (auto simp: posix_pwrite_def ram_kernel_def ram_fn_def)
  moreover have "posix_pread ram_unit ram_kernel ram_files ram_fds"
    by (auto simp: posix_pread_def ram_kernel_def ram_fn_def Let_def)
  moreover have "posix_rename ram_kernel ram_files ram_fds" "posix_stat ram_kernel ram_files ram_fds"
    "posix_sync ram_kernel ram_files ram_fds"
    by (auto simp: posix_rename_def posix_stat_def posix_sync_def ram_kernel_def ram_fn_def ram_fds_def)
  ultimately show ?thesis
    using ram_posix_open ram_posix_close by (simp add: posix_files_def)
qed

lemma ram_posix_dir: "posix_dir ram_kernel ram_files ram_fds"
  by (auto simp: posix_dir_def ram_kernel_def ram_fn_def)

subsection \<open>A C heap and a command line\<close>

definition heap_env :: "unit env" where
  "heap_env = \<lparr>native_fn = (\<lambda>c w. case c of std_malloc n \<Rightarrow> (0, 4096, w) | _ \<Rightarrow> (0, 0, w)),
     clock_step = (\<lambda>n. 1), can_alloc = (\<lambda>n. True), ACL_ERROR_REPEAT_INITIALIZE = 100002\<rparr>"

definition heap_sys :: "unit sys" where
  "heap_sys = \<lparr>drv = (), trace = [], stdin_lines = [], stdout_lines = [], clk = 0, ticks = 0\<rparr>"

definition small_args :: "string list" where
  "small_args = [''--dir'', ''d'', ''--engine'', ''psync'', ''--memory'', ''malloc'',
     ''--blocks'', ''1'', ''--shards'', ''2'', ''--slot-bytes'', ''3'', ''--iterations'', ''1'', ''--direct'', ''0'']"

definition small_opt :: c2_options where
  "small_opt = c2_defaults\<lparr>c2_dir := ''d'', c2_engine := ''psync'', c2_memoryType := ''malloc'',
     c2_blocks := 1, c2_shards := 2, c2_slotBytes := 3, c2_iterations := 1, c2_direct := False\<rparr>"

text \<open>The same with direct transfers of 512 bytes, two iterations, and the files removed at the end.\<close>

definition direct_args :: "string list" where
  "direct_args = [''--dir'', ''d'', ''--engine'', ''psync'', ''--memory'', ''malloc'', ''--blocks'', ''2'',
     ''--shards'', ''1'', ''--slot-bytes'', ''1024'', ''--tensor-bytes'', ''512'', ''--iterations'', ''2'', ''--keep-files'', ''0'']"

definition direct_opt :: c2_options where
  "direct_opt = c2_defaults\<lparr>c2_dir := ''d'', c2_engine := ''psync'', c2_memoryType := ''malloc'', c2_blocks := 2,
     c2_shards := 1, c2_slotBytes := 1024, c2_tensorBytes := 512, c2_iterations := 2, c2_keepFiles := False\<rparr>"

lemmas number_eval = c2_number_def only_digits_def is_digit_def stoull_def read_size_t_def
  scan_unsigned_def skip_ws_def is_space_def signed_u64_def digits_value_def digit_val_def maxBytes_def

lemma small_parse: "c2_parse small_args = C2_Ok small_opt"
  by (simp add: c2_parse_def small_args_def c2_set_def c2_set_text_def c2_set_number_def number_eval
      small_opt_def c2_defaults_def c2_invalid_def INT32_MAX_def word_le_nat_alt word_less_nat_alt unat_div)

lemma direct_parse: "c2_parse direct_args = C2_Ok direct_opt"
  by (simp add: c2_parse_def direct_args_def c2_set_def c2_set_text_def c2_set_number_def number_eval
      direct_opt_def c2_defaults_def c2_invalid_def INT32_MAX_def word_le_nat_alt word_less_nat_alt unat_div)

lemma example_sizes_fit: "sizes_fit ram_unit small_opt" "sizes_fit ram_unit direct_opt"
  by (simp_all add: sizes_fit_def psync_bytes_def max_rw_count_def small_opt_def direct_opt_def c2_defaults_def
      ram_unit_def)

lemma small_main:
  "\<exists>s' st'. c2_main heap_env ram_kernel fresh small_args heap_sys ram_empty = Some (0, s', st') \<and>
     archived_files small_opt ''d/cache2-hal-aio-XXXXXX'' (pattern small_opt 0) (\<lambda>_. None)
       (ram_files (io_world st'))"
proof -
  note ok = c2_parse_ok [OF small_parse]
  let ?t = "''d/cache2-hal-aio-XXXXXX''"
  have opt: "c2_engine small_opt = ''psync''" "c2_memoryType small_opt = ''malloc''" "c2_keepFiles small_opt"
    "c2_dir small_opt = ''d''" "unat (c2_iterations small_opt) = 1"
    by (simp_all add: small_opt_def c2_defaults_def)
  have dir: "os_fn ram_kernel (os_mkdtemp (c2_dir small_opt @ ''/cache2-hal-aio-XXXXXX'')) (io_world (c2_start ram_empty))
      = ((os_plain 1)\<lparr>os_bytes := ?t\<rparr>, ram_empty)"
    by (simp add: ram_kernel_def ram_fn_def c2_start_def opt)
  have new: "os_ret ((os_plain 1)\<lparr>os_bytes := ?t\<rparr>) \<noteq> 0"
    "new_dir (ram_files (io_world (c2_start ram_empty))) (os_bytes ((os_plain 1)\<lparr>os_bytes := ?t\<rparr>))"
    by (simp_all add: os_plain_def new_dir_def c2_start_def ram_empty_def)
  have base: "call heap_env (std_malloc (c2_bytes small_opt + 4096 - 1)) heap_sys =
      (0, 4096, heap_sys\<lparr>trace := [(std_malloc (c2_bytes small_opt + 4096 - 1), 0, 4096)]\<rparr>)"
    by (simp add: call_def heap_env_def heap_sys_def)
  have "(4096 :: u64) \<noteq> nullptr" "\<not> cleanupFailed (c2_start ram_empty)"
    by (simp_all add: c2_start_def)
  from c2_run_honest [OF ram_posix ram_posix_dir ok(2,1) example_sizes_fit(1) opt(1,2) dir new base this, of fresh]
  obtain s' st' where run: "c2_run heap_env ram_kernel fresh small_opt heap_sys (c2_start ram_empty) = Some (None, s', st')"
    "archived_files small_opt ?t (pattern small_opt 0) (\<lambda>_. None) (ram_files (io_world st'))"
    by (auto simp: opt(3,5) c2_start_def ram_empty_def)
  then have "c2_main heap_env ram_kernel fresh small_args heap_sys ram_empty = Some (0, s', st')"
    by (simp add: c2_main_def small_parse)
  then show ?thesis
    using run(2) by blast
qed

subsection \<open>An asynchronous phase with one request\<close>

definition one_fn :: "os_call \<Rightarrow> turn list \<Rightarrow> os_result \<times> turn list" where
  "one_fn c w =
     (case c of
        os_io_setup n \<Rightarrow> ((os_plain 0)\<lparr>os_out := 1\<rparr>, w)
      | os_eventfd \<Rightarrow> (os_plain 3, w)
      | os_epoll_create1 \<Rightarrow> (os_plain 4, w)
      | os_open p fl m \<Rightarrow> (os_plain 5, w)
      | os_pwrite fd data off \<Rightarrow> (os_plain (int (length data)), w)
      | os_io_submit ctx cb d \<Rightarrow> (os_plain 1, w)
      | os_epoll_wait fd \<Rightarrow> (os_plain 1, w)
      | os_read fd \<Rightarrow> (os_plain 8, w)
      | os_io_getevents ctx \<Rightarrow>
          ((os_plain 1)\<lparr>os_events := [\<lparr>ev_data = 0, ev_obj = 0, ev_res = 1, ev_res2 = 0, ev_bytes = []\<rparr>]\<rparr>, w)
      | _ \<Rightarrow> (os_plain 0, w))"

definition one_kernel :: "turn list kernel" where
  "one_kernel = \<lparr>os_fn = one_fn, os_turn = (\<lambda>w. (hd w, tl w)), os_strerror = (\<lambda>_. []), os_vector = 0\<rparr>"

text \<open>
  The main thread checks, tests the window and submits; the completion thread polls, reads, gets
  one event, accepts and counts it; the main thread sees that all is complete, stops, and joins.
\<close>

definition one_schedule :: "turn list" where
  "one_schedule = [Main_turn False, Main_turn False, Main_turn False,
     Completion_turn, Completion_turn, Completion_turn, Completion_turn, Completion_turn, Completion_turn,
     Completion_turn, Main_turn False, Main_turn False, Main_turn False, Completion_turn, Main_turn False]"

definition one_opt :: c2_options where
  "one_opt = c2_defaults\<lparr>c2_dir := ''d'', c2_blocks := 1, c2_shards := 1, c2_slotBytes := 1\<rparr>"

definition one_state :: "turn list c2_state" where
  "one_state = \<lparr>io_world = one_schedule, io_calls = [], io_buffer = ''U'', cleanupFailed = False\<rparr>"

definition one_phase :: aio_phase where
  "one_phase = AioPhase_new\<lparr>aio_ctx := 1, aio_eventFd := 3, aio_epollFd := 4,
     aio_requests := [make_request one_opt True 3 0 5]\<rparr>"

lemma one_kernel_simps [simp]:
  "os_fn one_kernel = one_fn" "os_turn one_kernel w = (hd w, tl w)" "os_vector one_kernel = 0"
  by (simp_all add: one_kernel_def)

lemma one_opt_simps [simp]:
  "c2_blocks one_opt = 1" "c2_shards one_opt = 1" "c2_slotBytes one_opt = 1" "c2_depth one_opt = 32"
  "aio_count one_opt = 1" "c2_engine one_opt = ''aio''"
  by (simp_all add: one_opt_def c2_defaults_def aio_count_def)

lemma one_setup:
  "\<exists>st. aio_setup one_kernel one_opt [''f''] True one_state = (None, one_phase, st) \<and>
     io_world st = one_schedule \<and> io_buffer st = ''U'' \<and> cleanupFailed st = False"
  by (simp add: aio_setup_def OS_def sys_call_def one_fn_def one_state_def AioPhase_new_def one_phase_def
      make_request_def os_plain_def)

lemmas one_step = aio_turn_def set_world_def main_turn_def aio_check_def submit_request_def submit_test_def
  completion_turn_def completion_fails_def count_completion_def event_valid_def event_good_def
  stored_events_def cb_address_def sys_call_def one_fn_def os_plain_def Let_def

lemma one_run:
  assumes "io_world st = one_schedule"
  shows "\<exists>a. aio_threads one_kernel one_opt (aio_begin one_opt one_phase st) = Some (None, a) \<and>
    length (aio_requests (aio_phase_of a)) = 1"
  using assms
  by (simp add: aio_begin_def one_phase_def AioPhase_new_def make_request_def one_schedule_def
      aio_threads.simps one_step)

lemma one_transfer:
  "\<exists>st'. aio_transfer one_kernel one_opt [''f''] True one_state = Some (None, st')"
proof -
  obtain st where st: "aio_setup one_kernel one_opt [''f''] True one_state = (None, one_phase, st)"
    "io_world st = one_schedule"
    using one_setup by blast
  obtain a where a: "aio_threads one_kernel one_opt (aio_begin one_opt one_phase st) = Some (None, a)"
    "length (aio_requests (aio_phase_of a)) = 1"
    using one_run [OF st(2)] by blast
  have "\<exists>p s. aio_close_from one_kernel [0..<length (aio_requests (aio_phase_of a))] (aio_phase_of a) (aio_sys a) = (None, p, s)"
    by (simp add: a(2) Let_def OS_def sys_call_def one_fn_def os_plain_def)
  then show ?thesis
    using st a by (auto simp: aio_transfer_def aio_Run_def)
qed

text \<open>The same phase with the synchronous engine.\<close>

definition one_psync :: c2_options where
  "one_psync = one_opt\<lparr>c2_engine := ''psync''\<rparr>"

lemma one_psync_simps [simp]:
  "c2_blocks one_psync = 1" "c2_shards one_psync = 1" "c2_slotBytes one_psync = 1" "c2_tensorBytes one_psync = 0"
  "c2_engine one_psync = ''psync''" "one_psync\<lparr>c2_engine := ''aio'', c2_tensorBytes := 0\<rparr> = one_opt"
  by (simp_all add: one_psync_def) (simp_all add: one_opt_def c2_defaults_def)

lemma one_psync_transfer:
  "\<exists>st'. Transfer one_kernel one_psync [''f''] True one_state = Some (None, st')"
  by (simp add: Transfer_def psync_block_def psync_slot.simps psync_chunk_def psync_bytes_def OS_def sys_call_def one_fn_def
      one_state_def os_plain_def Let_def)

end
