(* ===== verification/Cache2_Engines.thy ===== *)
theory Cache2_Engines
  imports Cache2_Run_Facts
begin

text \<open>
  The two engines of \<open>Transfer\<close> (src/cache2_hal_aio.cc) side by side, whatever the operating system
  answers: which pieces of which file the synchronous engine transfers, in order, and which
  requests the asynchronous engine has had accepted.

  \<^item> \<open>file_pieces\<close> reads the \<open>pwrite\<close> and \<open>pread\<close> calls off the list of calls, each with the file its
    descriptor was opened on.
  \<^item> \<open>submissions\<close> reads off the accepted \<open>io_submit\<close> calls; \<open>cut\<close> divides a request into pieces of
    the size the synchronous engine uses.
\<close>

subsection \<open>The pieces the synchronous engine transfers\<close>

type_synonym open_file = "string \<times> open_flag list"

text \<open>A piece: the open file, the offset in it, the number of bytes, and the bytes written.\<close>

type_synonym piece = "open_file option \<times> nat \<times> nat \<times> string"

definition open_after1 :: "(int \<Rightarrow> open_file option) \<Rightarrow> os_call \<times> os_result \<Rightarrow> int \<Rightarrow> open_file option" where
  "open_after1 D e = (case e of (os_open p fl m, r) \<Rightarrow> D(os_ret r \<mapsto> (p, fl)) | _ \<Rightarrow> D)"

definition piece_of :: "(int \<Rightarrow> open_file option) \<Rightarrow> os_call \<times> os_result \<Rightarrow> piece list" where
  "piece_of D e = (case e of
       (os_pwrite fd data off, r) \<Rightarrow> [(D fd, off, length data, data)]
     | (os_pread fd n off, r) \<Rightarrow> [(D fd, off, n, [])]
     | _ \<Rightarrow> [])"

fun file_pieces :: "(int \<Rightarrow> open_file option) \<Rightarrow> (os_call \<times> os_result) list \<Rightarrow> piece list" where
  "file_pieces D [] = []"
| "file_pieces D (e # ev) = piece_of D e @ file_pieces (open_after1 D e) ev"

definition open_after :: "(int \<Rightarrow> open_file option) \<Rightarrow> (os_call \<times> os_result) list \<Rightarrow> int \<Rightarrow> open_file option" where
  "open_after D ev = fold (\<lambda>e D. open_after1 D e) ev D"

lemma file_pieces_append: "file_pieces D (a @ b) = file_pieces D a @ file_pieces (open_after D a) b"
  by (induction a arbitrary: D) (simp_all add: open_after_def)

text \<open>What the reads delivered, and a buffer after these bytes have been put to given places.\<close>

definition read_bytes :: "(os_call \<times> os_result) list \<Rightarrow> string list" where
  "read_bytes ev = concat (map (\<lambda>e. case e of (os_pread fd n off, r) \<Rightarrow> [os_bytes r] | _ \<Rightarrow> []) ev)"

definition placed :: "nat \<Rightarrow> nat list \<Rightarrow> string list \<Rightarrow> string \<Rightarrow> string" where
  "placed n ats delivs buf = fold (\<lambda>(at, d) b. memcpy b at (take n d)) (zip ats delivs) buf"

lemma read_bytes_append: "read_bytes (a @ b) = read_bytes a @ read_bytes b"
  by (simp add: read_bytes_def)

lemma placed_append:
  "length ats = length ds \<Longrightarrow> placed n (ats @ ats') (ds @ ds') buf = placed n ats' ds' (placed n ats ds buf)"
  by (simp add: placed_def)

text \<open>
  A unit is a file, an offset in it and a place in the buffer. \<open>psync_did\<close>: from \<open>st\<close> to \<open>st'\<close>
  exactly these units were transferred, in order.
\<close>

type_synonym io_unit = "open_file \<times> nat \<times> nat"

definition unit_piece :: "c2_options \<Rightarrow> bool \<Rightarrow> string \<Rightarrow> io_unit \<Rightarrow> piece" where
  "unit_piece opt dump buf u = (case u of (f, off, at) \<Rightarrow>
     (Some f, off, psync_bytes opt, if dump then take (psync_bytes opt) (drop at buf) else []))"

definition psync_did ::
  "c2_options \<Rightarrow> bool \<Rightarrow> (int \<Rightarrow> open_file option) \<Rightarrow> (int \<Rightarrow> open_file option) \<Rightarrow> io_unit list
     \<Rightarrow> 'k c2_state \<Rightarrow> 'k c2_state \<Rightarrow> bool" where
  "psync_did opt dump D D' us st st' \<longleftrightarrow> (\<exists>ev. io_calls st' = io_calls st @ ev \<and> D' = open_after D ev \<and>
     file_pieces D ev = map (unit_piece opt dump (io_buffer st)) us \<and>
     length (read_bytes ev) = (if dump then 0 else length us) \<and>
     io_buffer st' = (if dump then io_buffer st
       else placed (psync_bytes opt) (map (\<lambda>(f, off, at). at) us) (read_bytes ev) (io_buffer st)))"

lemma psync_did_none [simp]: "psync_did opt dump D D [] st st"
  by (simp add: psync_did_def open_after_def read_bytes_def placed_def)

lemma psync_did_trans:
  assumes "psync_did opt dump D D1 us a b" and "psync_did opt dump D1 D2 vs b c"
  shows "psync_did opt dump D D2 (us @ vs) a c"
proof -
  obtain e1 where e1: "io_calls b = io_calls a @ e1" "D1 = open_after D e1"
    "file_pieces D e1 = map (unit_piece opt dump (io_buffer a)) us"
    "length (read_bytes e1) = (if dump then 0 else length us)"
    "io_buffer b = (if dump then io_buffer a
       else placed (psync_bytes opt) (map (\<lambda>(f, off, at). at) us) (read_bytes e1) (io_buffer a))"
    using assms(1) by (auto simp: psync_did_def)
  obtain e2 where e2: "io_calls c = io_calls b @ e2" "D2 = open_after D1 e2"
    "file_pieces D1 e2 = map (unit_piece opt dump (io_buffer b)) vs"
    "length (read_bytes e2) = (if dump then 0 else length vs)"
    "io_buffer c = (if dump then io_buffer b
       else placed (psync_bytes opt) (map (\<lambda>(f, off, at). at) vs) (read_bytes e2) (io_buffer b))"
    using assms(2) by (auto simp: psync_did_def)
  have "map (unit_piece opt dump (io_buffer b)) vs = map (unit_piece opt dump (io_buffer a)) vs"
    using e1(5) by (cases dump) (auto simp: unit_piece_def)
  then have "file_pieces D (e1 @ e2) = map (unit_piece opt dump (io_buffer a)) (us @ vs)"
    using e1(2,3) e2(3) by (simp add: file_pieces_append)
  moreover have "D2 = open_after D (e1 @ e2)"
    using e1(2) e2(2) by (simp add: open_after_def)
  ultimately show ?thesis
    unfolding psync_did_def using e1 e2
    by (intro exI [of _ "e1 @ e2"]) (simp add: read_bytes_append placed_append)
qed

lemma psync_did_open:
  assumes "OS K x (os_open path fl m) st = (Inr r, st')"
  shows "psync_did opt dump D (D(os_ret r \<mapsto> (path, fl))) [] st st'"
  using OS_calls [OF assms]
  by (auto simp: psync_did_def open_after_def open_after1_def piece_of_def read_bytes_def placed_def)

lemma psync_did_close:
  assumes "OS K x (os_close fd) st = (r, st')"
  shows "psync_did opt dump D D [] st st'"
  using OS_calls [OF assms]
  by (auto simp: psync_did_def open_after_def open_after1_def piece_of_def read_bytes_def placed_def)

text \<open>The units of a slot from its \<open>k\<close>-th tensor on.\<close>

definition slot_units :: "c2_options \<Rightarrow> open_file \<Rightarrow> nat \<Rightarrow> nat \<Rightarrow> nat \<Rightarrow> io_unit list" where
  "slot_units opt f block shard k =
     (let slot = unat (c2_slotBytes opt); shards = unat (c2_shards opt); n = psync_bytes opt
      in map (\<lambda>i. (f, shard * slot + i * n, (block * shards + shard) * slot + i * n)) [k..<slot div n])"

lemma psync_chunk_did:
  assumes run: "psync_chunk K opt dump block shard pos fd st = (None, st')" and fd: "D fd = Some f"
    and room: "(block * unat (c2_shards opt) + shard) * unat (c2_slotBytes opt) + pos + psync_bytes opt
      \<le> length (io_buffer st)"
  shows "psync_did opt dump D D [(f, shard * unat (c2_slotBytes opt) + pos,
    (block * unat (c2_shards opt) + shard) * unat (c2_slotBytes opt) + pos)] st st' \<and>
    length (io_buffer st') = length (io_buffer st)"
proof -
  let ?S = "unat (c2_slotBytes opt)" and ?H = "unat (c2_shards opt)" and ?B = "psync_bytes opt"
  let ?off = "shard * ?S + pos"
  have at: "block * ?H * ?S + ?off = (block * ?H + shard) * ?S + pos"
    by (simp add: add_mult_distrib)
  show ?thesis
  proof (cases dump)
    case True
    let ?data = "take ?B (drop ((block * ?H + shard) * ?S + pos) (io_buffer st))"
    obtain r where os: "OS K ''pwrite(fd, addr, bytes, offset)'' (os_pwrite fd ?data ?off) st = (r, st')"
      using run True at by (auto simp: psync_chunk_def Let_def split: prod.splits sum.splits if_splits)
    then show ?thesis
      using OS_calls [OF os] True fd room
      by (auto simp: psync_did_def open_after_def open_after1_def piece_of_def read_bytes_def unit_piece_def)
  next
    case False
    obtain r st1 where os: "OS K ''pread(fd, addr, bytes, offset)'' (os_pread fd ?B ?off) st = (r, st1)" by fastforce
    obtain a where a: "r = Inr a" "io_calls st1 = io_calls st @ [(os_pread fd ?B ?off, a)]"
      "io_buffer st1 = io_buffer st"
      using OS_calls [OF os] run False os by (auto simp: psync_chunk_def Let_def)
    have "os_ret a = int ?B" and st': "st' = st1\<lparr>io_buffer := memcpy (io_buffer st)
        ((block * ?H + shard) * ?S + pos) (take (min (nat (os_ret a)) ?B) (os_bytes a))\<rparr>"
      using run False os a(1,3) at by (auto simp: psync_chunk_def Let_def split: if_splits)
    then show ?thesis
      using a(2) False fd room
      by (auto simp: memcpy_length psync_did_def open_after_def open_after1_def piece_of_def read_bytes_def unit_piece_def placed_def)
  qed
qed

lemma psync_slot_did:
  assumes fit: "chunks_fit opt" and fd: "D fd = Some f"
  shows "psync_slot K opt dump block shard (k * psync_bytes opt) fd st = (None, st') \<Longrightarrow>
    (block * unat (c2_shards opt) + Suc shard) * unat (c2_slotBytes opt) \<le> length (io_buffer st) \<Longrightarrow>
    psync_did opt dump D D (slot_units opt f block shard k) st st'"
proof (induction "unat (c2_slotBytes opt) div psync_bytes opt - k" arbitrary: k st)
  case 0
  let ?S = "unat (c2_slotBytes opt)" and ?B = "psync_bytes opt"
  have "?S div ?B * ?B = ?S" and "?S div ?B \<le> k"
    using fit 0 by (simp_all add: chunks_fit_def)
  then have "\<not> k * ?B < ?S"
    using mult_le_mono1 [of "?S div ?B" k ?B] by simp
  then show ?case
    using 0 by (subst (asm) psync_slot.simps) (simp add: slot_units_def Let_def)
next
  case (Suc n)
  let ?S = "unat (c2_slotBytes opt)" and ?H = "unat (c2_shards opt)" and ?B = "psync_bytes opt"
  have k: "k < ?S div ?B" and B: "0 < ?B" "?S div ?B * ?B = ?S"
    using Suc.hyps(2) fit by (simp_all add: chunks_fit_def)
  have le: "Suc k * ?B \<le> ?S"
    using mult_le_mono1 [OF Suc_leI [OF k], of ?B] B(2) by simp
  then have lt: "k * ?B < ?S"
    using B(1) by simp
  obtain y st1 where c: "psync_chunk K opt dump block shard (k * ?B) fd st = (y, st1)" by fastforce
  have y: "y = None" and tail: "psync_slot K opt dump block shard (Suc k * ?B) fd st1 = (None, st')"
    using Suc.prems(1) c lt B(1) by (subst (asm) psync_slot.simps; simp add: add.commute split: option.splits)+
  have room: "(block * ?H + shard) * ?S + k * ?B + ?B \<le> length (io_buffer st)"
    using Suc.prems(2) le by (simp add: add_mult_distrib)
  have first: "psync_did opt dump D D [(f, shard * ?S + k * ?B, (block * ?H + shard) * ?S + k * ?B)] st st1"
    and len: "length (io_buffer st1) = length (io_buffer st)"
    using psync_chunk_did [where D = D, OF c [unfolded y] fd room] by simp_all
  have "psync_did opt dump D D (slot_units opt f block shard (Suc k)) st1 st'"
    using Suc.hyps(1) [OF _ tail] Suc.hyps(2) Suc.prems(2) len by simp
  moreover have "slot_units opt f block shard k =
      [(f, shard * ?S + k * ?B, (block * ?H + shard) * ?S + k * ?B)] @ slot_units opt f block shard (Suc k)"
    using k by (simp add: slot_units_def Let_def upt_conv_Cons)
  ultimately show ?case
    using psync_did_trans [OF first] by simp
qed

text \<open>The file a block's transfer opens.\<close>

definition block_file :: "c2_options \<Rightarrow> bool \<Rightarrow> string \<Rightarrow> open_file" where
  "block_file opt dump path = (path, c2_flags opt dump)"

lemma psync_did_length:
  assumes "psync_slot K opt dump block shard pos fd st = (None, st')" and "chunks_fit opt" and "shard < unat (c2_shards opt)"
    and "psync_bytes opt dvd pos"
    and "Suc block * unat (c2_shards opt) * unat (c2_slotBytes opt) \<le> length (io_buffer st)"
  shows "length (io_buffer st') = length (io_buffer st)"
proof (rule carries_length, rule psync_slot_carries [OF _ assms(3,1,4)])
  have "Suc shard * unat (c2_slotBytes opt) \<le> unat (c2_shards opt) * unat (c2_slotBytes opt)"
    using assms(3) by (intro mult_le_mono1) simp
  then show "block * unat (c2_shards opt) * unat (c2_slotBytes opt) + Suc shard * unat (c2_slotBytes opt)
      \<le> length (io_buffer st)"
    using assms(5) by (simp add: add_mult_distrib)
qed (use assms(2) in \<open>simp add: chunks_fit_def\<close>)

lemma psync_shards_did:
  assumes fit: "chunks_fit opt"
  shows "psync_shards K opt dump path block shards fd st = (None, fd', st') \<Longrightarrow>
    \<forall>s \<in> set shards. s < unat (c2_shards opt) \<Longrightarrow>
    Suc block * unat (c2_shards opt) * unat (c2_slotBytes opt) \<le> length (io_buffer st) \<Longrightarrow>
    0 \<le> fd \<longrightarrow> D fd = Some (block_file opt dump path) \<Longrightarrow>
    \<exists>D'. psync_did opt dump D D' (concat (map (\<lambda>s. slot_units opt (block_file opt dump path) block s 0) shards)) st st' \<and>
      length (io_buffer st') = length (io_buffer st)"
proof (induction shards arbitrary: fd st D)
  case Nil
  then show ?case by (auto intro: exI [of _ D])
next
  case (Cons shard rest)
  let ?f = "block_file opt dump path" and ?S = "unat (c2_slotBytes opt)" and ?H = "unat (c2_shards opt)"
  define op where "op = (if fd < 0
      then OS K ''open(paths[block].c_str(), flags, 0644)'' (os_open path (c2_flags opt dump) 420) st
      else (Inr (os_plain fd), st))"
  obtain r0 st0 where 0: "op = (r0, st0)" by fastforce
  note body = Cons.prems(1) [unfolded psync_shards.simps, folded op_def, unfolded 0]
  obtain a where a: "r0 = Inr a"
    using body by (cases r0) auto
  obtain D1 where D1: "psync_did opt dump D D1 [] st st0" "D1 (os_ret a) = Some ?f" and b0: "io_buffer st0 = io_buffer st"
  proof (cases "fd < 0")
    case True
    then have os: "OS K ''open(paths[block].c_str(), flags, 0644)'' (os_open path (c2_flags opt dump) 420) st = (Inr a, st0)"
      using 0 a by (simp add: op_def)
    show ?thesis
      using psync_did_open [OF os, of opt dump D] OS_calls [OF os] that by (auto simp: block_file_def)
  next
    case False
    then show ?thesis
      using 0 a Cons.prems(4) that [of D] by (auto simp: op_def)
  qed
  obtain y st1 where 1: "psync_slot K opt dump block shard 0 (os_ret a) st0 = (y, st1)" by fastforce
  have y: "y = None"
    using body a 1 by (cases y) auto
  have shard: "shard < ?H" and room: "Suc block * ?H * ?S \<le> length (io_buffer st0)"
    using Cons.prems(2,3) b0 by simp_all
  have "(block * ?H + Suc shard) * ?S \<le> (block * ?H + ?H) * ?S"
    using shard by (intro mult_le_mono1) simp
  then have fits: "(block * ?H + Suc shard) * ?S \<le> length (io_buffer st0)"
    using room by (simp add: add.commute)
  have slot: "psync_did opt dump D1 D1 (slot_units opt ?f block shard 0) st0 st1"
    using psync_slot_did [where D = D1 and fd = "os_ret a" and f = ?f and k = 0 and shard = shard and block = block]
      fit D1(2) 1 y fits by simp
  have len1: "length (io_buffer st1) = length (io_buffer st)"
    using psync_did_length [OF 1 [unfolded y] fit shard _ room] b0 by simp
  note upto = psync_did_trans [OF D1(1) slot, simplified]
  obtain fd2 st2 where tail: "psync_shards K opt dump path block rest fd2 st2 = (None, fd', st')"
    and cl: "psync_did opt dump D1 D1 [] st1 st2" "io_buffer st2 = io_buffer st1" and fd2: "0 \<le> fd2 \<longrightarrow> fd2 = os_ret a"
  proof (cases "dump \<or> shard + 1 = ?H")
    case True
    obtain r2 st2 where 2: "OS K ''close(closing)'' (os_close (os_ret a)) st1 = (r2, st2)" by fastforce
    then have "psync_shards K opt dump path block rest (- 1) st2 = (None, fd', st')"
      using body a 1 y True by (cases r2) auto
    then show ?thesis
      using psync_did_close [OF 2] OS_calls [OF 2] that by auto
  next
    case False
    then have "psync_shards K opt dump path block rest (os_ret a) st1 = (None, fd', st')"
      using body a 1 y by auto
    then show ?thesis
      using that by auto
  qed
  obtain D' where "psync_did opt dump D1 D' (concat (map (\<lambda>s. slot_units opt ?f block s 0) rest)) st2 st'"
    "length (io_buffer st') = length (io_buffer st2)"
    using Cons.IH [OF tail, of D1] Cons.prems(2,3) fd2 D1(2) cl(2) len1 by auto
  then show ?case
    using psync_did_trans [OF psync_did_trans [OF upto cl(1)]] cl(2) len1 by auto
qed

text \<open>All units of a phase, in order.\<close>

definition phase_units :: "c2_options \<Rightarrow> bool \<Rightarrow> string list \<Rightarrow> nat list \<Rightarrow> io_unit list" where
  "phase_units opt dump paths blocks =
     concat (map (\<lambda>b. concat (map (\<lambda>s. slot_units opt (block_file opt dump (paths ! b)) b s 0) [0..<unat (c2_shards opt)])) blocks)"

lemma psync_blocks_did:
  assumes fit: "chunks_fit opt"
  shows "psync_blocks K opt dump paths blocks st = (None, st') \<Longrightarrow>
    \<forall>b \<in> set blocks. Suc b * unat (c2_shards opt) * unat (c2_slotBytes opt) \<le> length (io_buffer st) \<Longrightarrow>
    \<exists>D'. psync_did opt dump D D' (phase_units opt dump paths blocks) st st'"
proof (induction blocks arbitrary: st D)
  case Nil
  then show ?case
    by (auto simp: phase_units_def intro: exI [of _ D])
next
  case (Cons b rest)
  obtain y fd st1 where 1: "psync_shards K opt dump (paths ! b) b [0..<unat (c2_shards opt)] (- 1) st = (y, fd, st1)"
    by (rule prod_cases3)
  have y: "y = None" and tail: "psync_blocks K opt dump paths rest st1 = (None, st')"
    using Cons.prems(1) 1 by (cases y; simp add: psync_block_def)+
  obtain D1 where D1: "psync_did opt dump D D1
      (concat (map (\<lambda>s. slot_units opt (block_file opt dump (paths ! b)) b s 0) [0..<unat (c2_shards opt)])) st st1"
    "length (io_buffer st1) = length (io_buffer st)"
    using psync_shards_did [where D = D, OF fit 1 [unfolded y]] Cons.prems(2) by auto
  obtain D' where "psync_did opt dump D1 D' (phase_units opt dump paths rest) st1 st'"
    using Cons.IH [OF tail] Cons.prems(2) D1(2) by auto
  then show ?case
    using psync_did_trans [OF D1(1)] by (auto simp: phase_units_def)
qed

subsection \<open>The requests the asynchronous engine has had accepted\<close>

definition submission_of :: "os_call \<times> os_result \<Rightarrow> (iocb \<times> string) list" where
  "submission_of e = (case e of
     (os_io_submit ctx cb data, r) \<Rightarrow> if os_ret r = 1 then [(cb, data)] else [] | _ \<Rightarrow> [])"

definition submissions :: "(os_call \<times> os_result) list \<Rightarrow> (iocb \<times> string) list" where
  "submissions ev = concat (map submission_of ev)"

lemma submissions_simps [simp]:
  "submissions [] = []" "submissions (a @ b) = submissions a @ submissions b"
  "submissions [e] = submission_of e"
  by (simp_all add: submissions_def)

text \<open>A control block with the bytes that the buffer holds for it.\<close>

definition io_of :: "string \<Rightarrow> iocb \<Rightarrow> iocb \<times> string" where
  "io_of buf cb = (cb, if aio_pwrite cb then take (aio_nbytes cb) (drop (aio_buf cb) buf) else [])"

text \<open>The calls between two states submit nothing.\<close>

definition submits_none :: "'k c2_state \<Rightarrow> 'k c2_state \<Rightarrow> bool" where
  "submits_none st st' \<longleftrightarrow> (\<exists>ev. io_calls st' = io_calls st @ ev \<and> submissions ev = [])"

lemma submits_none_refl [simp]: "submits_none st st"
  by (auto simp: submits_none_def)

lemma submits_none_trans: "submits_none a b \<Longrightarrow> submits_none b c \<Longrightarrow> submits_none a c"
  by (fastforce simp: submits_none_def)

lemma OS_submits_none:
  assumes "OS K x c st = (r, st')" and "\<forall>ctx cb d. c \<noteq> os_io_submit ctx cb d"
  shows "submits_none st st'"
proof -
  obtain a where "io_calls st' = io_calls st @ [(c, a)]"
    using OS_calls [OF assms(1)] by blast
  then show ?thesis
    using assms(2) by (auto simp: submits_none_def submission_of_def split: os_call.splits)
qed

lemma cleanup_submits_none:
  assumes "\<forall>ctx cb d. c \<noteq> os_io_submit ctx cb d"
  shows "submits_none st (OS_cleanup K x c st)"
proof -
  obtain r st' where os: "OS K x c st = (r, st')" by fastforce
  have "io_calls (OS_cleanup K x c st) = io_calls st'"
    using os by (simp add: OS_cleanup_def split: sum.splits)
  then show ?thesis
    using OS_submits_none [OF os assms] by (simp add: submits_none_def)
qed

lemma aio_destroy_submits_none: "submits_none st (aio_destroy K p st)"
proof -
  have close: "submits_none st (cleanup_close K x fd st)" for st x fd
    by (simp add: cleanup_close_def cleanup_submits_none)
  have closes: "submits_none st (fold (\<lambda>req. cleanup_close K x (rq_fd req)) rs st)" for st x rs
    by (induction rs arbitrary: st) (auto intro: submits_none_trans close)
  have "submits_none st (if aio_ctx p \<noteq> 0
      then OS_cleanup K ''syscall(SYS_io_destroy, ctx_)'' (os_io_destroy (aio_ctx p)) st else st)"
    by (simp add: cleanup_submits_none)
  from submits_none_trans [OF submits_none_trans [OF submits_none_trans [OF this closes] close] close] show ?thesis
    unfolding aio_destroy_def Let_def .
qed

lemma aio_close_submits_none:
  "aio_close_from K is p st = (x, p', st') \<Longrightarrow> submits_none st st'"
proof (induction "is" arbitrary: p st)
  case (Cons i rest)
  obtain r st1 where c: "OS K ''close(fd)'' (os_close (rq_fd (aio_requests p ! i))) st = (r, st1)" by fastforce
  show ?case
    using Cons.prems c OS_submits_none [OF c]
    by (cases r) (auto simp: Let_def dest!: Cons.IH intro: submits_none_trans)
qed simp

text \<open>Every request of a phase carries a descriptor that was opened on its block's file.\<close>

definition opened_for :: "c2_options \<Rightarrow> string list \<Rightarrow> bool \<Rightarrow> (os_call \<times> os_result) list \<Rightarrow> iocb \<Rightarrow> bool" where
  "opened_for opt paths dump ev cb \<longleftrightarrow>
     (\<exists>r. (os_open (paths ! (aio_data cb div unat (c2_shards opt))) (c2_flags opt dump) 420, r) \<in> set ev \<and>
        os_ret r = aio_fildes cb)"

lemma aio_open_from_opened:
  "aio_open_from K opt paths dump is p st = (None, p', st') \<Longrightarrow> distinct is \<Longrightarrow>
     \<forall>i \<in> set is. i < length (aio_requests p) \<Longrightarrow>
     submits_none st st' \<and> (\<forall>j. j \<notin> set is \<longrightarrow> aio_requests p' ! j = aio_requests p ! j) \<and>
     (\<exists>ev. io_calls st' = io_calls st @ ev \<and>
        (\<forall>i \<in> set is. opened_for opt paths dump ev (rq_cb (aio_requests p' ! i))))"
proof (induction "is" arbitrary: p st)
  case Nil
  then show ?case by auto
next
  case (Cons i rest)
  let ?c = "os_open (paths ! (i div unat (c2_shards opt))) (c2_flags opt dump) 420"
  obtain r st1 where o: "OS K ''open(paths[i / opt.shards].c_str(), flags, 0644)'' ?c st = (r, st1)" by fastforce
  obtain a where a: "r = Inr a" "io_calls st1 = io_calls st @ [(?c, a)]"
    using Cons.prems(1) o OS_calls [OF o] by (cases r) auto
  define p1 where "p1 = p\<lparr>aio_requests := (aio_requests p)[i := make_request opt dump (aio_eventFd p) i (os_ret a)]\<rparr>"
  have tail: "aio_open_from K opt paths dump rest p1 st1 = (None, p', st')"
    using Cons.prems(1) o a(1) by (simp add: p1_def)
  have IH: "submits_none st1 st'" "\<forall>j. j \<notin> set rest \<longrightarrow> aio_requests p' ! j = aio_requests p1 ! j"
    "\<exists>ev. io_calls st' = io_calls st1 @ ev \<and>
       (\<forall>i \<in> set rest. opened_for opt paths dump ev (rq_cb (aio_requests p' ! i)))"
    using Cons.IH [OF tail] Cons.prems(2,3) by (auto simp: p1_def)
  have "aio_requests p' ! i = make_request opt dump (aio_eventFd p) i (os_ret a)"
    using IH(2) Cons.prems(2,3) by (simp add: p1_def)
  then have "opened_for opt paths dump [(?c, a)] (rq_cb (aio_requests p' ! i))"
    by (simp add: opened_for_def make_request_def Let_def)
  then have "\<exists>ev. io_calls st' = io_calls st @ ev \<and>
      (\<forall>i \<in> set (i # rest). opened_for opt paths dump ev (rq_cb (aio_requests p' ! i)))"
    using IH(3) a(2) by (fastforce simp: opened_for_def)
  moreover have "submits_none st st'"
    using submits_none_trans [OF OS_submits_none [OF o] IH(1)] by simp
  ultimately show ?case
    using IH(2) by (auto simp: p1_def)
qed

lemma aio_setup_opened:
  assumes "aio_setup K opt paths dump st = (None, p, st')"
  shows "submits_none st st' \<and> (\<exists>ev. io_calls st' = io_calls st @ ev \<and>
    (\<forall>i<aio_count opt. opened_for opt paths dump ev (rq_cb (aio_requests p ! i))))"
proof -
  obtain p4 st4 where quiet: "submits_none st st4" and len: "length (aio_requests p4) = aio_count opt"
    and op: "aio_open_from K opt paths dump [0..<aio_count opt] p4 st4 = (None, p, st')"
    using assms
    by (auto simp: aio_setup_def Let_def split: prod.splits sum.splits dest!: OS_submits_none)
      (rule that [rotated 2], assumption, blast intro: submits_none_trans, simp)
  show ?thesis
    using aio_open_from_opened [OF op] len submits_none_trans [OF quiet] quiet
    by (fastforce simp: submits_none_def opened_for_def)
qed

text \<open>
  \<open>submitted_io\<close>: what has been accepted so far are the first requests, each with the bytes of the
  buffer at the start; when the main thread no longer submits, all have been accepted.
\<close>

definition past_submission :: "main_pc \<Rightarrow> bool" where
  "past_submission pc \<longleftrightarrow> pc \<in> {M_Wait, M_WaitCheck, M_Last, M_Stop None, M_Join None, M_Done None}"

definition submitted_io :: "bool \<Rightarrow> 'k c2_state \<Rightarrow> 'k aio_run \<Rightarrow> bool" where
  "submitted_io dump st a \<longleftrightarrow> (let cbs = fst (fixed_part a)
     in (\<forall>cb \<in> set cbs. aio_pwrite cb = dump) \<and>
        (dump \<longrightarrow> io_buffer (aio_sys a) = io_buffer st) \<and>
        (past_submission (aio_main a) \<longrightarrow> aio_submitted a = length cbs) \<and>
        (\<exists>ev. io_calls (aio_sys a) = io_calls st @ ev \<and>
           submissions ev = map (io_of (io_buffer st)) (take (aio_submitted a) cbs)))"

lemma submitted_io_extend:
  assumes "submitted_io dump st a" and "fixed_part b = fixed_part a" and "dump \<longrightarrow> io_buffer (aio_sys b) = io_buffer (aio_sys a)"
    and "io_calls (aio_sys b) = io_calls st @ ev"
    and "submissions ev = map (io_of (io_buffer st)) (take (aio_submitted b) (fst (fixed_part a)))"
    and "past_submission (aio_main b) \<longrightarrow> aio_submitted b = length (fst (fixed_part a))"
  shows "submitted_io dump st b"
  unfolding submitted_io_def Let_def assms(2) using assms(1,3-6) by (auto simp: submitted_io_def Let_def)

lemma submitted_io_calls:
  assumes "submitted_io dump st a" and "fixed_part b = fixed_part a" and "dump \<longrightarrow> io_buffer (aio_sys b) = io_buffer (aio_sys a)"
    and "submits_none (aio_sys a) (aio_sys b)" and "aio_submitted b = aio_submitted a"
    and "past_submission (aio_main b) \<longrightarrow> aio_submitted a = length (fst (fixed_part a))"
  shows "submitted_io dump st b"
proof -
  obtain e where e: "io_calls (aio_sys a) = io_calls st @ e"
    "submissions e = map (io_of (io_buffer st)) (take (aio_submitted a) (fst (fixed_part a)))"
    using assms(1) by (auto simp: submitted_io_def Let_def)
  obtain e' where "io_calls (aio_sys b) = io_calls (aio_sys a) @ e'" "submissions e' = []"
    using assms(4) by (auto simp: submits_none_def)
  then have "io_calls (aio_sys b) = io_calls st @ (e @ e')"
    "submissions (e @ e') = map (io_of (io_buffer st)) (take (aio_submitted b) (fst (fixed_part a)))"
    using e assms(5) by simp_all
  then show ?thesis
    using submitted_io_extend [OF assms(1-3)] assms(5,6) by simp
qed

lemma sys_call_submits_none:
  "\<forall>ctx cb d. c \<noteq> os_io_submit ctx cb d \<Longrightarrow> submits_none st (snd (sys_call K c st))"
  by (auto simp: submits_none_def submission_of_def split: os_call.splits)

lemma completion_turn_submits_none: "submits_none (aio_sys a) (aio_sys (completion_turn K opt a))"
proof (cases "aio_completion a")
  case (C_Events n evs)
  then show ?thesis
    by (auto simp: completion_turn_simps split: list.splits)
next
  case (C_Count i ev n rest)
  then show ?thesis
    by (auto simp: completion_turn_simps submits_none_def)
qed (auto simp: completion_turn_simps sys_call_submits_none)

lemma submitted_io_completion:
  assumes "submitted_io dump st a" and "counted a"
  shows "submitted_io dump st (completion_turn K opt a)"
proof (rule submitted_io_calls [OF assms(1)])
  show "dump \<longrightarrow> io_buffer (aio_sys (completion_turn K opt a)) = io_buffer (aio_sys a)"
  proof (cases "aio_completion a")
    case (C_Count i ev n rest)
    then have "rq_cb (aio_requests (aio_phase_of a) ! i) \<in> set (fst (fixed_part a))"
      using assms(2) by (simp add: counted_def being_counted_def fixed_part_def Let_def)
    then have "aio_pwrite (rq_cb (aio_requests (aio_phase_of a) ! i)) = dump"
      using assms(1) by (simp add: submitted_io_def Let_def)
    then show ?thesis
      using C_Count by (simp add: completion_turn_simps)
  next
    case (C_Events n evs)
    then show ?thesis
      by (simp add: completion_turn_simps split: list.split)
  qed (simp_all add: completion_turn_simps)
qed (use assms in \<open>simp_all add: completion_turn_frame completion_turn_submits_none submitted_io_def Let_def\<close>)

lemma submitted_io_submit:
  assumes a: "submitted_io dump st a" and pc: "aio_main a = M_Submit"
    and room: "aio_submitted a < length (aio_requests (aio_phase_of a))"
    and count: "length (aio_requests (aio_phase_of a)) = aio_count opt"
  shows "submitted_io dump st (submit_request K opt a)"
proof -
  let ?p = "aio_phase_of a" and ?n = "aio_submitted a"
  let ?cb = "rq_cb (aio_requests ?p ! ?n)"
  let ?d = "if aio_pwrite ?cb then take (aio_nbytes ?cb) (drop (aio_buf ?cb) (io_buffer (aio_sys a))) else []"
  obtain r s where sc: "sys_call K (os_io_submit (aio_ctx ?p) ?cb ?d) (aio_sys a) = (r, s)" by fastforce
  have s: "io_calls s = io_calls (aio_sys a) @ [(os_io_submit (aio_ctx ?p) ?cb ?d, r)]"
    "io_buffer s = io_buffer (aio_sys a)"
    using sys_call_simps [of K "os_io_submit (aio_ctx ?p) ?cb ?d" "aio_sys a"] sc by simp_all
  obtain e where e: "io_calls (aio_sys a) = io_calls st @ e"
    "submissions e = map (io_of (io_buffer st)) (take ?n (fst (fixed_part a)))"
    using a by (auto simp: submitted_io_def Let_def)
  have cbs: "fst (fixed_part a) = map rq_cb (aio_requests ?p)"
    by (simp add: fixed_part_def Let_def)
  have io: "io_of (io_buffer st) ?cb = (?cb, ?d)"
    using a room by (auto simp: io_of_def submitted_io_def cbs Let_def)
  show ?thesis
  proof (cases "os_ret r = 1")
    case True
    have "submissions (e @ [(os_io_submit (aio_ctx ?p) ?cb ?d, r)]) =
        map (io_of (io_buffer st)) (take (Suc ?n) (fst (fixed_part a)))"
      using e(2) True io room by (simp add: submission_of_def cbs take_Suc_conv_app_nth)
    moreover have "submit_request K opt a = a\<lparr>aio_sys := s, aio_submitted := ?n + 1, aio_main := submit_test opt (?n + 1)\<rparr>"
      using sc True by (simp add: submit_request_def Let_def)
    moreover have "past_submission (submit_test opt (?n + 1)) \<longrightarrow> ?n + 1 = length (fst (fixed_part a))"
      using room count by (auto simp: submit_test_def past_submission_def cbs)
    ultimately show ?thesis
      using s e(1) by (intro submitted_io_extend [OF a, where ev = "e @ [(os_io_submit (aio_ctx ?p) ?cb ?d, r)]"])
        (simp_all add: fixed_part_def)
  next
    case False
    then have "submissions (e @ [(os_io_submit (aio_ctx ?p) ?cb ?d, r)]) =
        map (io_of (io_buffer st)) (take ?n (fst (fixed_part a)))"
      using e(2) by (simp add: submission_of_def)
    moreover define pc where "pc = (let error = (if os_ret r < 0 then os_errno r else 0)
      in if error = EAGAIN \<or> error = EINTR \<or> os_ret r = 0 then M_Check else M_Stop (Some ''io_submit failed''))"
    moreover have "submit_request K opt a = a\<lparr>aio_sys := s, aio_main := pc\<rparr>"
      using sc False by (simp add: submit_request_def pc_def Let_def)
    moreover have "\<not> past_submission pc"
      by (simp add: pc_def past_submission_def Let_def)
    ultimately show ?thesis
      using s e(1) by (intro submitted_io_extend [OF a, where ev = "e @ [(os_io_submit (aio_ctx ?p) ?cb ?d, r)]"])
        (simp_all add: fixed_part_def)
  qed
qed

lemma submitted_io_main:
  assumes "submitted_io dump st a" and "windowed opt a" and "length (aio_requests (aio_phase_of a)) = aio_count opt"
  shows "submitted_io dump st (main_turn K opt late a)"
proof (cases "aio_main a = M_Submit")
  case True
  then show ?thesis
    using submitted_io_submit [OF assms(1) True _ assms(3)] assms(2,3) by (simp add: main_turn_def windowed_def)
next
  case False
  have "past_submission (aio_main (main_turn K opt late a)) \<longrightarrow> past_submission (aio_main a)"
    "aio_submitted (main_turn K opt late a) = aio_submitted a" "aio_sys (main_turn K opt late a) = aio_sys a"
    using False by (cases "aio_main a"; auto simp: main_turn_def aio_check_def past_submission_def)+
  then show ?thesis
    using assms(1) by (intro submitted_io_calls [OF assms(1)]) (simp_all add: main_turn_fixed submitted_io_def Let_def)
qed

lemma submitted_io_reach:
  fixes a :: "'a aio_run"
  assumes "aio_reach K opt a a'" and "submitted_io dump st a" and "run_inv K opt n a"
  shows "submitted_io dump st a'"
proof -
  have "submitted_io dump st a' \<and> run_inv K opt n a'"
    using assms(1)
  proof (induction rule: rtranclp_induct)
    case base
    then show ?case
      using assms(2,3) by simp
  next
    case (step b c)
    have inv: "run_inv K opt n c"
      using run_inv_reach [OF r_into_rtranclp [of "aio_step K opt", OF step.hyps(2)]] step.IH by simp
    have world: "submitted_io dump st (set_world w b)" for w
      using step.IH by (simp add: submitted_io_def)
    have same: "windowed opt (set_world w b)" "counted (set_world w b)"
      "length (aio_requests (aio_phase_of (set_world w b))) = aio_count opt" for w
      using step.IH by (simp_all add: run_inv_def windowed_def counted_def being_counted_def)
    show ?case
      using step.hyps(2) inv submitted_io_main [OF world same(1,3)] submitted_io_completion [OF world same(2)]
      by cases simp_all
  qed
  then show ?thesis by blast
qed

lemma ready_phase_cbs:
  assumes "ready_phase opt dump p"
  shows "map rq_cb (aio_requests p) =
    map (\<lambda>i. rq_cb (make_request opt dump (aio_eventFd p) i (rq_fd (aio_requests p ! i)))) [0..<aio_count opt]"
proof (rule nth_equalityI)
  fix i
  assume i: "i < length (map rq_cb (aio_requests p))"
  then obtain fd where "aio_requests p ! i = make_request opt dump (aio_eventFd p) i fd"
    using assms by (auto simp: ready_phase_def)
  then show "map rq_cb (aio_requests p) ! i =
      map (\<lambda>i. rq_cb (make_request opt dump (aio_eventFd p) i (rq_fd (aio_requests p ! i)))) [0..<aio_count opt] ! i"
    using i assms by (simp add: ready_phase_def make_request_def Let_def)
qed (use assms in \<open>simp add: ready_phase_def\<close>)

text \<open>
  A phase that passes has had every request accepted exactly once, in order, each on a descriptor
  that was opened on its block's file.
\<close>

lemma aio_transfer_submits:
  assumes run: "aio_transfer K opt paths dump st = Some (None, st')"
    and small: "aio_count opt < 2 ^ 64" and depth: "c2_depth opt \<noteq> 0"
    and len: "length (io_buffer st) = aio_count opt * unat (c2_slotBytes opt)"
  shows "\<exists>ev efd fd_at. io_calls st' = io_calls st @ ev \<and>
    submissions ev = map (\<lambda>i. io_of (io_buffer st) (rq_cb (make_request opt dump efd i (fd_at i)))) [0..<aio_count opt] \<and>
    (\<forall>s \<in> set (submissions ev). opened_for opt paths dump ev (fst s))"
proof -
  obtain p st1 where r: "aio_Run K opt paths dump st = Some (None, p, st1)" "st' = aio_destroy K p st1"
    using run by (auto simp: aio_transfer_def split: option.splits)
  obtain q s where su: "aio_setup K opt paths dump st = (None, q, s)"
    using r(1) by (auto simp: aio_Run_def split: prod.splits option.splits)
  have ready: "ready_phase opt dump q" and b0: "io_buffer s = io_buffer st"
    using aio_setup_spec [OF su] by simp_all
  obtain a where th: "aio_threads K opt (aio_begin opt q s) = Some (None, a)"
    and cl: "aio_close_from K [0..<length (aio_requests (aio_phase_of a))] (aio_phase_of a) (aio_sys a) = (None, p, st1)"
    using r(1) su by (auto simp: aio_Run_def split: option.splits)
  let ?cbs = "map rq_cb (aio_requests q)"
  let ?of = "\<lambda>i. rq_cb (make_request opt dump (aio_eventFd q) i (rq_fd (aio_requests q ! i)))"
  have start: "fst (fixed_part (aio_begin opt q s)) = ?cbs"
    by (simp add: fixed_part_def aio_begin_def Let_def)
  have "submitted_io dump s (aio_begin opt q s)"
    unfolding submitted_io_def Let_def start
    by (auto simp: ready_phase_cbs [OF ready] make_request_def Let_def aio_begin_def past_submission_def submit_test_def)
  then have a: "submitted_io dump s a"
    by (rule submitted_io_reach [OF aio_threads_reach [OF th, simplified, THEN conjunct1]])
      (rule run_inv_begin [OF ready small depth], simp add: b0 len)
  have "aio_main a = M_Done None" and fixed: "fst (fixed_part a) = ?cbs"
    using aio_threads_reach [OF th] aio_reach_fixed [of K opt "aio_begin opt q s" a] start by auto
  then obtain e1 where e1: "io_calls (aio_sys a) = io_calls s @ e1" "submissions e1 = map (io_of (io_buffer st)) ?cbs"
    using a b0 by (auto simp: submitted_io_def past_submission_def Let_def)
  obtain e0 where e0: "io_calls s = io_calls st @ e0" "submissions e0 = []"
    "\<forall>i<aio_count opt. opened_for opt paths dump e0 (rq_cb (aio_requests q ! i))"
    using aio_setup_opened [OF su] by (auto simp: submits_none_def)
  obtain e2 where e2: "io_calls st' = io_calls (aio_sys a) @ e2" "submissions e2 = []"
    using submits_none_trans [OF aio_close_submits_none [OF cl] aio_destroy_submits_none] r(2)
    by (auto simp: submits_none_def)
  let ?ev = "e0 @ e1 @ e2"
  have subs: "submissions ?ev = map (io_of (io_buffer st)) ?cbs"
    using e0(2) e1(2) e2(2) by simp
  have "opened_for opt paths dump ?ev cb" if cb: "cb \<in> set ?cbs" for cb
  proof -
    obtain i where "i < length ?cbs" "cb = ?cbs ! i"
      using cb unfolding in_set_conv_nth by blast
    then have "i < aio_count opt" "cb = rq_cb (aio_requests q ! i)"
      using ready by (simp_all add: ready_phase_def)
    then show ?thesis
      using e0(3) by (auto simp: opened_for_def)
  qed
  then have "\<forall>s \<in> set (submissions ?ev). opened_for opt paths dump ?ev (fst s)"
    unfolding subs by (auto simp: io_of_def)
  moreover have "submissions ?ev = map (\<lambda>i. io_of (io_buffer st) (?of i)) [0..<aio_count opt]"
    unfolding subs ready_phase_cbs [OF ready] by (simp add: comp_def)
  moreover have "io_calls st' = io_calls st @ ?ev"
    using e0(1) e1(1) e2(1) by simp
  ultimately show ?thesis
    by (intro exI [of _ ?ev] exI [of _ "aio_eventFd q"] exI [of _ "\<lambda>i. rq_fd (aio_requests q ! i)"] conjI)
qed

subsection \<open>The same pieces\<close>

text \<open>A request divided into pieces of the synchronous engine's size, and their places in the buffer.\<close>

definition cut :: "c2_options \<Rightarrow> string list \<Rightarrow> bool \<Rightarrow> iocb \<times> string \<Rightarrow> piece list" where
  "cut opt paths dump s = (case s of (cb, data) \<Rightarrow> let n = psync_bytes opt
     in map (\<lambda>i. (Some (block_file opt dump (paths ! (aio_data cb div unat (c2_shards opt)))),
          aio_offset cb + i * n, n, take n (drop (i * n) data))) [0..<aio_nbytes cb div n])"

definition cut_places :: "c2_options \<Rightarrow> iocb \<times> string \<Rightarrow> nat list" where
  "cut_places opt s = (case s of (cb, data) \<Rightarrow> let n = psync_bytes opt
     in map (\<lambda>i. aio_buf cb + i * n) [0..<aio_nbytes cb div n])"

lemma cut_slot:
  assumes "chunks_fit opt" and "s < unat (c2_shards opt)"
  shows "cut opt paths dump (io_of buf (rq_cb (make_request opt dump efd (b * unat (c2_shards opt) + s) fd))) =
      map (unit_piece opt dump buf) (slot_units opt (block_file opt dump (paths ! b)) b s 0)"
    and "cut_places opt (io_of buf (rq_cb (make_request opt dump efd (b * unat (c2_shards opt) + s) fd))) =
      map (\<lambda>(f, off, at). at) (slot_units opt (block_file opt dump (paths ! b)) b s 0)"
proof -
  let ?S = "unat (c2_slotBytes opt)" and ?B = "psync_bytes opt" and ?H = "unat (c2_shards opt)"
  have "i * ?B + ?B \<le> ?S" if "i < ?S div ?B" for i
    using mult_le_mono1 [of "Suc i" "?S div ?B" ?B] that assms(1) by (simp add: chunks_fit_def)
  then have "take ?B (drop (i * ?B) (take ?S (drop ((b * ?H + s) * ?S) buf))) = take ?B (drop ((b * ?H + s) * ?S + i * ?B) buf)"
    if "i < ?S div ?B" for i
    using take_drop_take [of "i * ?B" ?B ?S "drop ((b * ?H + s) * ?S) buf"] that by (simp add: add.commute)
  then show "cut opt paths dump (io_of buf (rq_cb (make_request opt dump efd (b * ?H + s) fd))) =
      map (unit_piece opt dump buf) (slot_units opt (block_file opt dump (paths ! b)) b s 0)"
    using assms(2) by (simp add: cut_def io_of_def make_request_def slot_units_def unit_piece_def Let_def)
  show "cut_places opt (io_of buf (rq_cb (make_request opt dump efd (b * ?H + s) fd))) =
      map (\<lambda>(f, off, at). at) (slot_units opt (block_file opt dump (paths ! b)) b s 0)"
    by (simp add: cut_places_def io_of_def make_request_def slot_units_def Let_def)
qed

lemma concat_blocks:
  "concat (map g [0..<n * h]) = concat (map (\<lambda>b. concat (map (\<lambda>s. g (b * h + s)) [0..<h])) [0..<n])"
proof (induction n)
  case (Suc n)
  have "[0..<Suc n * h] = [0..<n * h] @ map (\<lambda>s. n * h + s) [0..<h]"
    using upt_add_eq_append [of 0 "n * h" h] map_add_upt [of "n * h" h] by (simp add: add.commute)
  then show ?case
    using Suc by (simp add: comp_def)
qed simp

lemma cut_phase:
  assumes "chunks_fit opt"
    and "subs = map (\<lambda>i. io_of buf (rq_cb (make_request opt dump efd i (fd_at i)))) [0..<aio_count opt]"
  shows "concat (map (cut opt paths dump) subs) = map (unit_piece opt dump buf) (phase_units opt dump paths [0..<unat (c2_blocks opt)])"
    and "concat (map (cut_places opt) subs) =
      map (\<lambda>(f, off, at). at) (phase_units opt dump paths [0..<unat (c2_blocks opt)])"
  unfolding assms(2) map_map comp_def aio_count_def concat_blocks phase_units_def map_concat
  by (intro arg_cong [of _ _ concat] map_cong refl; simp add: cut_slot [OF assms(1)])+

end
