(* ===== verification/Cache2_Props.thy ===== *)
theory Cache2_Props
  imports Cache2_Examples Cache2_Engines
begin

text \<open>
  The properties of the cache2 I/O diagnosis (src/cache2_hal_aio.cc), each with a concrete run on
  which its hypotheses hold.
\<close>

section \<open>Whole runs\<close>



text \<open>C5. An exit code of 0 is evidence of the round trip: whatever the operating system, the scheduler
  and the driver do, when the program exits with 0 after a run, then in each iteration the pattern
  of the iteration was dumped to the temporary files without an error, and a later load of the
  final files, which started with a poisoned buffer in which every byte differs from the pattern,
  ended without an error and delivered every byte of the pattern: for each position, a \<open>pread\<close> or a
  completion event of that load carried exactly the byte expected there. At the end the buffer is
  the pattern of the last iteration.\<close>

theorem pass_means_data_came_back:
  assumes "c2_main E K fresh args s w = Some (0, s', st')" and "c2_parse args = C2_Ok opt"
    and "it < unat (c2_iterations opt)" and "length buf = unat (c2_bytes opt)"
  shows "\<exists>dir expected std std' stl stl' mid ev later. c2_fill opt it buf = Inr expected \<and>
    Transfer K opt (temporary_paths opt dir) True std = Some (None, std') \<and> io_buffer std = expected \<and>
    io_calls stl = io_calls std' @ mid \<and>
    Transfer K opt (archived_paths opt dir) False stl = Some (None, stl') \<and> io_calls stl' = io_calls stl @ ev \<and>
    io_calls st' = io_calls stl' @ later \<and>
    (\<forall>j<unat (c2_bytes opt). io_buffer stl ! j \<noteq> expected ! j \<and> delivered opt ev j (expected ! j)) \<and>
    (it = unat (c2_iterations opt) - 1 \<longrightarrow> io_buffer st' = expected)"
proof -
  note ok = c2_parse_ok [OF assms(2)]
  have "c2_run E K fresh opt s (c2_start w) = Some (None, s', st')"
    using assms(1,2) by (auto simp: c2_main_def split: option.splits if_splits)
  then obtain dir where last: "io_buffer st' = pattern opt (unat (c2_iterations opt) - 1)"
    and returned: "came_back K opt dir it (io_calls st')"
    using c2_run_spec [OF _ ok(2,1)] assms(3) by blast
  have "it \<le> 2 ^ 40"
    using ok(1) assms(3) unfolding c2_small_def maxBytes_def word_le_nat_alt by auto
  then have filled: "c2_fill opt it buf = Inr (pattern opt it)"
    using c2_fill_eq [OF ok(2) _ assms(4)] by simp
  have "it = unat (c2_iterations opt) - 1 \<longrightarrow> io_buffer st' = pattern opt it"
    using last by simp
  then show ?thesis
    using returned [unfolded came_back_def] filled by (elim exE conjE) (intro exI conjI, assumption+)
qed

theorem pass_means_data_came_back_witness:
  "\<exists>s' st' expected. c2_main heap_env ram_kernel (\<lambda>_. CHR ''x'') small_args heap_sys ram_empty = Some (0, s', st') \<and>
     c2_fill small_opt 0 ''yyyyyy'' = Inr expected \<and> io_buffer st' = expected"
proof -
  obtain s' st' where run: "c2_main heap_env ram_kernel (\<lambda>_. CHR ''x'') small_args heap_sys ram_empty = Some (0, s', st')"
    using small_main by blast
  have "length ''yyyyyy'' = unat (c2_bytes small_opt)" "unat (c2_iterations small_opt) = 1"
    by (simp_all add: c2_bytes_def small_opt_def c2_defaults_def)
  then show ?thesis
    using pass_means_data_came_back [OF run small_parse, of 0 "''yyyyyy''"] run by auto
qed

text \<open>C16. Every descriptor that is opened is closed exactly once, on every way out: whatever the
  operating system answers, whichever call fails, with either engine, the descriptors that
  \<open>open\<close>, \<open>eventfd\<close> and \<open>epoll_create1\<close> delivered are, with multiplicity, those handed to
  \<open>close\<close>, at whatever exit code.\<close>

theorem every_descriptor_closed:
  assumes "c2_main E K fresh args s w = Some (code, s', st')"
  shows "fds_of fd_opened (io_calls st') = fds_of fd_closed (io_calls st')"
proof (cases "c2_parse args")
  case (C2_Ok opt)
  note ok = c2_parse_ok [OF C2_Ok]
  obtain x where "c2_run E K fresh opt s (c2_start w) = Some (x, s', st')"
    using assms C2_Ok by (auto simp: c2_main_def split: option.splits)
  then have "fds_balanced (c2_start w) st'"
    using c2_run_spec [OF _ ok(2,1)] by blast
  then show ?thesis
    by (simp add: fds_balanced_def c2_start_def)
qed (use assms in \<open>auto simp: c2_main_def c2_start_def\<close>)

theorem every_descriptor_closed_witness:
  "\<exists>s' st'. c2_main heap_env ram_kernel (\<lambda>_. CHR ''z'') small_args heap_sys ram_empty = Some (0, s', st') \<and>
     fds_of fd_opened (io_calls st') = fds_of fd_closed (io_calls st')"
  using small_main [of "\<lambda>_. CHR ''z''"] every_descriptor_closed [of heap_env ram_kernel "\<lambda>_. CHR ''z''" small_args]
  by blast

text \<open>C17. Host memory is given back: unless a clean-up call failed, at the end of the program every
  address range, handle, mapping and \<open>malloc\<close> block that the run obtained has been returned
  exactly once, also after the second attempt with normal pages; and the exit code is 0 only if no
  clean-up call failed.\<close>

theorem diagnosis_returns_memory:
  assumes "c2_main E K fresh args s w = Some (code, s', st')"
  shows "(\<exists>ev. trace s' = trace s @ ev \<and> (\<not> cleanupFailed st' \<longrightarrow> hm_settled ev)) \<and>
    (code = 0 \<longrightarrow> \<not> cleanupFailed st')"
proof (cases "c2_parse args")
  case (C2_Ok opt)
  note ok = c2_parse_ok [OF C2_Ok]
  obtain x where run: "c2_run E K fresh opt s (c2_start w) = Some (x, s', st')" "code = (if x = None then 0 else 1)"
    using assms C2_Ok by (auto simp: c2_main_def split: option.splits)
  obtain ev where "emits ev s s'" "\<not> cleanupFailed st' \<longrightarrow> hm_settled ev" "x = None \<longrightarrow> \<not> cleanupFailed st'"
    using c2_run_spec [OF run(1) ok(2,1)] by blast
  then show ?thesis
    using run(2) by (auto simp: emits_def)
qed (use assms in \<open>auto simp: c2_main_def c2_start_def hm_settled_def intro: exI [of _ "[]"]\<close>)

theorem diagnosis_returns_memory_witness:
  "\<exists>s' st' ev. c2_main heap_env ram_kernel (\<lambda>_. CHR ''w'') small_args heap_sys ram_empty = Some (0, s', st') \<and>
     trace s' = ev \<and> hm_settled ev"
proof -
  obtain s' st' where run: "c2_main heap_env ram_kernel (\<lambda>_. CHR ''w'') small_args heap_sys ram_empty = Some (0, s', st')"
    using small_main by blast
  moreover have "trace heap_sys = []"
    by (simp add: heap_sys_def)
  ultimately show ?thesis
    using diagnosis_returns_memory [OF run] by auto
qed

section \<open>The asynchronous engine\<close>

text \<open>C19. A phase of the asynchronous engine that ends without an exception has received, for every
  one of its blocks times shards requests, a completion event carrying that request's number and
  the address of its control block, with the full slot transferred and no secondary error, under
  every interleaving of the two threads and every behaviour of the kernel.\<close>

theorem passed_phase_completed_all:
  assumes "aio_transfer K opt paths dump st = Some (None, st')" and "\<not> c2_invalid opt"
    and "length (io_buffer st) = unat (c2_bytes opt)" and "i < unat (c2_blocks opt) * unat (c2_shards opt)"
  shows "\<exists>ctx r ev. (os_io_getevents ctx, r) \<in> set (io_calls st') \<and> ev \<in> set (stored_events r) \<and>
    unat (ev_data ev) = i \<and> ev_obj ev = cb_address K i \<and> ev_res ev = int (unat (c2_slotBytes opt)) \<and> ev_res2 ev = 0"
proof -
  have "request_reported K opt (io_calls st') i"
    using aio_transfer_spec [OF assms(1)] valid_options [OF assms(2)] assms(3,4)
    by (auto simp: aio_count_def)
  then show ?thesis
    by (auto simp: request_reported_def seen_def event_good_def)
qed

lemma one_opt_valid: "\<not> c2_invalid one_opt" "unat (c2_bytes one_opt) = 1"
  by (simp_all add: c2_invalid_def one_opt_def c2_defaults_def INT32_MAX_def maxBytes_def word_le_nat_alt
      word_less_nat_alt unat_div c2_bytes_def)

theorem passed_phase_completed_all_witness:
  "\<exists>st'. aio_transfer one_kernel one_opt [''f''] True one_state = Some (None, st') \<and>
     (\<exists>ctx r. (os_io_getevents ctx, r) \<in> set (io_calls st'))"
proof -
  obtain st' where run: "aio_transfer one_kernel one_opt [''f''] True one_state = Some (None, st')"
    using one_transfer by blast
  have "length (io_buffer one_state) = unat (c2_bytes one_opt)" "0 < unat (c2_blocks one_opt) * unat (c2_shards one_opt)"
    by (simp_all add: one_opt_valid one_state_def)
  then show ?thesis
    using passed_phase_completed_all [OF run one_opt_valid(1)] run by blast
qed

text \<open>C18. The invariant of the two threads: in every state they can reach, \<open>completed_\<close> is the number
  of requests marked done and never exceeds the number of requests (so none is counted twice), at
  most \<open>depth\<close> of the submitted requests are not completed, and the main thread is past its join
  only when the completion thread has ended and the stop flag is set.\<close>

theorem aio_threads_invariant:
  assumes "aio_setup K opt paths dump st0 = (None, p, st)" and "\<not> c2_invalid opt"
    and "length (io_buffer st0) = unat (c2_bytes opt)"
    and "aio_reach K opt (aio_begin opt p st) a"
  shows "aio_completed (aio_phase_of a) = done_count (aio_requests (aio_phase_of a)) \<and>
    aio_completed (aio_phase_of a) \<le> aio_count opt \<and>
    aio_submitted a \<le> aio_completed (aio_phase_of a) + unat (c2_depth opt) \<and>
    aio_submitted a \<le> aio_count opt \<and>
    (\<forall>r. aio_main a = M_Done r \<longrightarrow> aio_completion a = C_Ended \<and> aio_stop (aio_phase_of a))"
proof -
  note v = valid_options [OF assms(2)]
  have su: "ready_phase opt dump p" "io_buffer st = io_buffer st0"
    using aio_setup_spec [OF assms(1)] by simp_all
  then have len: "length (io_buffer st) = aio_count opt * unat (c2_slotBytes opt)"
    using assms(3) v(5) by simp
  have inv: "run_inv K opt (length (io_buffer st)) a"
    using run_inv_reach [OF assms(4) run_inv_begin [OF su(1) v(4,3) len]] .
  have "joined a"
    using joined_reach [OF assms(4)] by (simp add: joined_def aio_begin_def submit_test_def)
  then show ?thesis
    using inv done_count_le [of "aio_requests (aio_phase_of a)"]
    by (auto simp: run_inv_def counted_def windowed_def joined_def Let_def)
qed

theorem aio_threads_invariant_witness:
  "\<exists>st a. aio_reach one_kernel one_opt (aio_begin one_opt one_phase st) a \<and> aio_main a = M_Done None \<and>
     aio_submitted a \<le> aio_completed (aio_phase_of a) + 32"
proof -
  obtain st where st: "aio_setup one_kernel one_opt [''f''] True one_state = (None, one_phase, st)"
    "io_world st = one_schedule"
    using one_setup by blast
  obtain a where a: "aio_threads one_kernel one_opt (aio_begin one_opt one_phase st) = Some (None, a)"
    using one_run [OF st(2)] by blast
  have reach: "aio_reach one_kernel one_opt (aio_begin one_opt one_phase st) a" "aio_main a = M_Done None"
    using aio_threads_reach [OF a] by simp_all
  have "length (io_buffer one_state) = unat (c2_bytes one_opt)"
    by (simp add: one_opt_valid one_state_def)
  from aio_threads_invariant [OF st(1) one_opt_valid(1) this reach(1)] show ?thesis
    using reach by auto
qed

text \<open>C36. The two engines transfer the same pieces. For two runs of one phase that both end without
  an exception, one with each engine, with the same sizes and the same buffer and whatever the two
  operating systems and schedulers do: the \<open>pwrite\<close> (or \<open>pread\<close>) calls of \<open>psync\<close>, in order, with
  their files, offsets, sizes and the bytes written, are exactly the accepted requests of the
  asynchronous engine, in order, each divided into calls of the tensor size; a read stores what it
  delivers at the place in the buffer that the request names; there is one accepted request for each
  slot, and its descriptor was opened on the file that \<open>psync\<close> uses.\<close>

theorem engines_transfer_same_pieces:
  assumes "Transfer K (opt\<lparr>c2_engine := ''aio'', c2_tensorBytes := 0\<rparr>) paths dump sta = Some (None, sta')"
    and "Transfer K' opt paths dump stp = Some (None, stp')" and "c2_engine opt = ''psync''" and "\<not> c2_invalid opt"
    and "length (io_buffer stp) = unat (c2_bytes opt)" and "io_buffer sta = io_buffer stp"
  shows "\<exists>eva evp. io_calls sta' = io_calls sta @ eva \<and> io_calls stp' = io_calls stp @ evp \<and>
    file_pieces (\<lambda>_. None) evp = concat (map (cut opt paths dump) (submissions eva)) \<and>
    io_buffer stp' = (if dump then io_buffer stp
      else placed (psync_bytes opt) (concat (map (cut_places opt) (submissions eva))) (read_bytes evp) (io_buffer stp)) \<and>
    map (aio_data \<circ> fst) (submissions eva) = [0..<aio_count opt] \<and>
    (\<forall>s \<in> set (submissions eva). aio_pwrite (fst s) = dump \<and> opened_for opt paths dump eva (fst s))"
proof -
  note v = valid_options [OF assms(4)]
  let ?opt = "opt\<lparr>c2_engine := ''aio'', c2_tensorBytes := 0\<rparr>"
  have same: "aio_count ?opt = aio_count opt" "make_request ?opt = make_request opt" "opened_for ?opt = opened_for opt"
    by (simp_all add: aio_count_def make_request_def opened_for_def c2_flags_def fun_eq_iff)
  have "aio_transfer K ?opt paths dump sta = Some (None, sta')"
    using assms(1) by (simp add: Transfer_def)
  then obtain eva efd fd_at where eva: "io_calls sta' = io_calls sta @ eva"
    "submissions eva = map (\<lambda>i. io_of (io_buffer stp) (rq_cb (make_request opt dump efd i (fd_at i)))) [0..<aio_count opt]"
    "\<forall>s \<in> set (submissions eva). opened_for opt paths dump eva (fst s)"
    using aio_transfer_submits [of K ?opt paths dump sta sta'] v(3-5) assms(5,6) unfolding same by fastforce
  have run: "psync_blocks K' opt dump paths [0..<unat (c2_blocks opt)] stp = (None, stp')"
    using assms(2,3) by (simp add: Transfer_def)
  have "unat (c2_blocks opt) * unat (c2_shards opt) * unat (c2_slotBytes opt) = length (io_buffer stp)"
    using v(5) assms(5) by (simp add: aio_count_def)
  from block_part_length(1) [OF _ this]
  have "\<forall>b \<in> set [0..<unat (c2_blocks opt)]. Suc b * unat (c2_shards opt) * unat (c2_slotBytes opt) \<le> length (io_buffer stp)"
    by simp
  then obtain D' where "psync_did opt dump (\<lambda>_. None) D' (phase_units opt dump paths [0..<unat (c2_blocks opt)]) stp stp'"
    using psync_blocks_did [OF v(1) run] by blast
  then obtain evp where evp: "io_calls stp' = io_calls stp @ evp"
    "file_pieces (\<lambda>_. None) evp = concat (map (cut opt paths dump) (submissions eva))"
    "io_buffer stp' = (if dump then io_buffer stp
       else placed (psync_bytes opt) (concat (map (cut_places opt) (submissions eva))) (read_bytes evp) (io_buffer stp))"
    unfolding psync_did_def cut_phase(1) [OF v(1) eva(2), symmetric] cut_phase(2) [OF v(1) eva(2), where paths = paths, symmetric]
    by blast
  have "map (aio_data \<circ> fst) (submissions eva) = [0..<aio_count opt]"
    "\<forall>s \<in> set (submissions eva). aio_pwrite (fst s) = dump"
    unfolding eva(2) by (auto simp: io_of_def make_request_def Let_def comp_def)
  then show ?thesis
    using eva(1,3) evp by blast
qed

theorem engines_transfer_same_pieces_witness:
  "\<exists>sta' stp' eva evp. Transfer one_kernel one_opt [''f''] True one_state = Some (None, sta') \<and>
     Transfer one_kernel one_psync [''f''] True one_state = Some (None, stp') \<and>
     io_calls sta' = eva \<and> io_calls stp' = evp \<and>
     file_pieces (\<lambda>_. None) evp = concat (map (cut one_psync [''f''] True) (submissions eva)) \<and>
     map (aio_data \<circ> fst) (submissions eva) = [0]"
proof -
  obtain sta' where a: "Transfer one_kernel one_opt [''f''] True one_state = Some (None, sta')"
    using one_transfer by (auto simp: Transfer_def)
  obtain stp' where p: "Transfer one_kernel one_psync [''f''] True one_state = Some (None, stp')"
    using one_psync_transfer by blast
  have "\<not> c2_invalid one_psync" "length (io_buffer one_state) = unat (c2_bytes one_psync)" "aio_count one_psync = 1"
    "io_calls one_state = []"
    using one_opt_valid by (simp_all add: c2_invalid_def one_psync_def one_state_def c2_bytes_def aio_count_def)
  then show ?thesis
    using engines_transfer_same_pieces [where opt = one_psync, simplified, OF a p] a p by auto
qed

section \<open>The data\<close>

text \<open>C37. The verification loop counts exactly the bytes of the buffer that differ from the pattern
  the fill loop writes, reports at most 16 positions, and every reported position is one of a
  differing byte.\<close>

theorem verify_counts_differences:
  assumes "\<not> c2_invalid opt" and "it \<le> 2 ^ 40" and "length buf = unat (c2_bytes opt)"
    and "c2_fill opt it old = Inr expected" and "length old = unat (c2_bytes opt)"
  shows "\<exists>v. c2_verify opt it buf = Inr v \<and>
    mismatches v = card {j. j < unat (c2_bytes opt) \<and> buf ! j \<noteq> expected ! j} \<and>
    length (reported v) = min 16 (printed v) \<and> printed v \<le> mismatches v \<and>
    (\<forall>j \<in> set (reported v). j < unat (c2_bytes opt) \<and> buf ! j \<noteq> expected ! j)"
proof -
  have e: "expected = pattern opt it"
    using c2_fill_eq [OF assms(1,2,5)] assms(4) by simp
  obtain v where v: "c2_verify opt it buf = Inr v" "mismatches v = length (differing buf (pattern opt it))"
    using c2_verify_eq [OF assms(1-3)] by blast
  have "report_ok opt it (unat (c2_bytes opt)) buf v"
    using verify_report_ok [OF _ assms(3) c2_products(3) [OF assms(1)] assms(2)] v(1) by (simp add: c2_verify_def)
  then show ?thesis
    using v e pattern_length [OF assms(1,2)] by (simp add: report_ok_def differing_card pattern_def)
qed

theorem verify_counts_differences_witness:
  "\<exists>v expected. c2_fill small_opt 0 ''000000'' = Inr expected \<and> c2_verify small_opt 0 ''UCM it'' = Inr v \<and>
     mismatches v = card {j. j < unat (c2_bytes small_opt) \<and> ''UCM it'' ! j \<noteq> expected ! j}"
proof -
  note ok = c2_parse_ok(2) [OF small_parse]
  have b: "unat (c2_bytes small_opt) = 6"
    by (simp add: c2_bytes_def small_opt_def c2_defaults_def)
  then obtain expected where "c2_fill small_opt 0 ''000000'' = Inr expected"
    using c2_fill_eq [OF ok, of 0 "''000000''"] by simp
  then show ?thesis
    using verify_counts_differences [OF ok, of 0 "''UCM it''" "''000000''" expected] b by auto
qed

text \<open>A text record always fits: with the sizes of an accepted command line \<open>snprintf\<close> never
  reports an overflow, the record has its 128 bytes and ends in a newline, and two records are
  equal only for the same buffer offset of the same iteration, so data of another place or of an
  earlier iteration cannot be mistaken for the expected.\<close>

theorem records_fit_and_differ:
  assumes "o1 \<le> 2 ^ 40" and "i1 \<le> 2 ^ 40" and "o2 \<le> 2 ^ 40" and "i2 \<le> 2 ^ 40"
  shows "\<exists>r1 r2. TextRecord o1 i1 opt = Inr r1 \<and> TextRecord o2 i2 opt = Inr r2 \<and> length r1 = 128 \<and>
    last r1 = CHR 0x0A \<and> (r1 = r2 \<longleftrightarrow> o1 = o2 \<and> i1 = i2)"
proof -
  have "last (record_at o1 i1 opt) = CHR 0x0A"
    by (simp add: record_at_def)
  moreover have "record_at o1 i1 opt = record_at o2 i2 opt \<longleftrightarrow> o1 = o2 \<and> i1 = i2"
    using record_at_inj by blast
  ultimately show ?thesis
    using TextRecord_small [OF assms(1,2), of opt] TextRecord_small [OF assms(3,4), of opt]
    by (simp add: record_size_def)
qed

theorem records_fit_and_differ_witness:
  "\<exists>r1 r2. TextRecord 0 0 small_opt = Inr r1 \<and> TextRecord 128 0 small_opt = Inr r2 \<and> r1 \<noteq> r2"
  using records_fit_and_differ [of 0 0 128 0 small_opt] by auto

text \<open>The rendering of bytes in the log loses nothing: \<open>DisplayBytes\<close> prints printable
  characters only, and different bytes give different texts.\<close>

theorem display_lossless:
  "(DisplayBytes a = DisplayBytes b \<longleftrightarrow> a = b) \<and>
   list_all (\<lambda>c. 32 \<le> (of_char c :: nat) \<and> of_char c \<le> (126 :: nat)) (DisplayBytes a)"
  using DisplayBytes_inj DisplayBytes_printable by (auto simp: list_all_iff)

section \<open>The command line and the memory\<close>

text \<open>An accepted command line keeps every product in range: the number of requests and the
  number of bytes of a run are the mathematical products, at most \<open>2 ^ 40\<close>, and not zero; a tensor
  size given divides the slot; the window fits a positive \<open>int\<close>.\<close>

theorem accepted_sizes:
  assumes "c2_parse args = C2_Ok opt"
  shows "unat (c2_bytes opt) = unat (c2_blocks opt) * unat (c2_shards opt) * unat (c2_slotBytes opt) \<and>
    0 < unat (c2_bytes opt) \<and> unat (c2_bytes opt) \<le> 2 ^ 40 \<and> psync_bytes opt dvd unat (c2_slotBytes opt) \<and>
    0 < psync_bytes opt \<and> 0 < unat (c2_depth opt) \<and> unat (c2_depth opt) \<le> 2147483647 \<and> c2_dir opt \<noteq> []"
proof -
  note ok = c2_parse_ok(2) [OF assms]
  have "0 < unat (c2_depth opt) \<and> unat (c2_depth opt) \<le> 2147483647 \<and> c2_dir opt \<noteq> []"
    using ok by (auto simp: c2_invalid_def INT32_MAX_def word_le_nat_alt not_less unat_gt_0)
  then show ?thesis
    using c2_products [OF ok] valid_options(1) [OF ok] by (simp add: chunks_fit_def)
qed

theorem accepted_sizes_witness:
  "unat (c2_bytes small_opt) = unat (c2_blocks small_opt) * unat (c2_shards small_opt) * unat (c2_slotBytes small_opt)"
  using accepted_sizes [OF small_parse] by simp

text \<open>The buffer cut out of a \<open>malloc\<close> block is aligned to 4096 and lies inside the block, if the
  block does not reach the end of the address space.\<close>

theorem malloc_buffer_inside:
  assumes "call E (std_malloc (c2_bytes opt + 4096 - 1)) s = (ret, base, s1)" and "base \<noteq> nullptr"
    and "unat base + unat (c2_bytes opt) + 4095 < 2 ^ 64" and "c2_memoryType opt = ''malloc''"
  shows "\<exists>m. hm_acquire E opt s = Some (None, m, s1) \<and> mallocBase m = base \<and> 4096 dvd unat (hm_addr m) \<and>
    unat base \<le> unat (hm_addr m) \<and>
    unat (hm_addr m) + unat (c2_bytes opt) \<le> unat base + unat (c2_bytes opt + 4096 - 1)"
proof -
  have "unat (c2_bytes opt + 4095) = unat (c2_bytes opt) + 4095"
    using assms(3) by (simp add: unat_add_no_wrap)
  then have "unat (c2_bytes opt + 4096 - 1) = unat (c2_bytes opt) + 4095"
    by (simp add: add.commute)
  then show ?thesis
    using align_page_inside [OF assms(3)] assms(1,2,4)
    by (simp add: hm_acquire_def hm_malloc_def)
qed

theorem malloc_buffer_inside_witness:
  "\<exists>m s1. hm_acquire heap_env small_opt heap_sys = Some (None, m, s1) \<and> 4096 dvd unat (hm_addr m)"
proof -
  have base: "call heap_env (std_malloc (c2_bytes small_opt + 4096 - 1)) heap_sys =
      (0, 4096, heap_sys\<lparr>trace := [(std_malloc (c2_bytes small_opt + 4096 - 1), 0, 4096)]\<rparr>)"
    by (simp add: call_def heap_env_def heap_sys_def)
  have "unat (4096 :: u64) + unat (c2_bytes small_opt) + 4095 < 2 ^ 64" "c2_memoryType small_opt = ''malloc''"
    "(4096 :: u64) \<noteq> nullptr"
    by (simp_all add: c2_bytes_def small_opt_def c2_defaults_def)
  then show ?thesis
    using malloc_buffer_inside [OF base] by auto
qed

end
