(* ===== verification/Probe_System.thy ===== *)
theory Probe_System
  imports Runtime
begin

text \<open>
  What the sharing probes (src/common.hpp, cli.hpp, hal_map_probe.cpp, device_share.cpp,
  host_share.cpp, multi_share.cpp, hal_host_io.cpp) have in common as programs: a body of
  statements that ends at the first exception, followed by clean-up that goes on whatever happens.

  A program's variables are a record that extends \<open>probe\<close>, the system state and the flag
  \<open>cleanup_failed\<close>. A statement maps it to an optional exception (the text of a
  \<open>std::runtime_error\<close>) and the new variables; the outer option is \<open>None\<close> when the statement
  never returns, which only a system call that is interrupted for ever can cause. \<open>run_steps\<close> runs
  a body. The variables are kept when an exception is thrown, because the clean-up reads them.

  The ledger says which resources an event of the trace obtains and gives back; \<open>in_books\<close> relates
  it to what a program's variables hold.
\<close>

record 'w probe =
  sys_of :: "'w sys"
  cleanup_failed :: bool

type_synonym 's prog_step = "'s \<Rightarrow> (string option \<times> 's) option"

fun run_steps :: "'s prog_step list \<Rightarrow> 's prog_step" where
  "run_steps [] s = Some (None, s)"
| "run_steps (f # fs) s =
     (case f s of None \<Rightarrow> None
      | Some (Some e, s') \<Rightarrow> Some (Some e, s')
      | Some (None, s') \<Rightarrow> run_steps fs s')"

text \<open>Plain assignments, and \<open>if (...) throw\<close>.\<close>

definition assign :: "('s \<Rightarrow> 's) \<Rightarrow> 's prog_step" where
  "assign f s = Some (None, f s)"

definition throw_unless :: "('s \<Rightarrow> bool) \<Rightarrow> string \<Rightarrow> 's prog_step" where
  "throw_unless ok what s = Some (if ok s then None else Some what, s)"

definition when_step :: "bool \<Rightarrow> 's prog_step list \<Rightarrow> 's prog_step" where
  "when_step b fs s = (if b then run_steps fs s else Some (None, s))"

definition probe_call ::
  "'w env \<Rightarrow> native \<Rightarrow> ('w, 'z) probe_scheme \<Rightarrow> int \<times> u64 \<times> ('w, 'z) probe_scheme" where
  "probe_call E c s = (case call E c (sys_of s) of (ret, out, t) \<Rightarrow> (ret, out, s\<lparr>sys_of := t\<rparr>))"

text \<open>A call whose results are not looked at.\<close>

definition plain_call :: "'w env \<Rightarrow> native \<Rightarrow> ('w, 'z) probe_scheme \<Rightarrow> ('w, 'z) probe_scheme" where
  "plain_call E c s = snd (snd (probe_call E c s))"

subsection \<open>Traces of programs\<close>

definition trace_of :: "('w, 'z) probe_scheme \<Rightarrow> event list" where
  "trace_of s = trace (sys_of s)"

lemma trace_of_sys [simp]: "trace_of (s\<lparr>sys_of := t\<rparr>) = trace t"
  by (simp add: trace_of_def)

lemma trace_of_flag [simp]: "trace_of (s\<lparr>cleanup_failed := b\<rparr>) = trace_of s"
  by (simp add: trace_of_def)

lemma probe_call_cases:
  obtains ret out w where "native_fn E c (drv (sys_of s)) = (ret, out, w)"
    and "probe_call E c s = (ret, out, s\<lparr>sys_of := (sys_of s)
           \<lparr>drv := w, trace := trace (sys_of s) @ [(c, ret, out)]\<rparr>\<rparr>)"
  by (cases "native_fn E c (drv (sys_of s))") (simp add: probe_call_def call_def)

lemma probe_call_trace [step_specs]:
  "probe_call E c s = (ret, out, s') \<Longrightarrow> trace_of s' = trace_of s @ [(c, ret, out)]"
  by (auto simp: probe_call_def call_def trace_of_def split: prod.splits)

lemma probe_call_frame [frame_rules]:
  "probe_call E c s = (ret, out, s') \<Longrightarrow> cleanup_failed s' = cleanup_failed s \<and> probe.more s' = probe.more s"
  by (auto simp: probe_call_def split: prod.splits)

lemma run_steps_append:
  "run_steps (fs @ gs) s =
     (case run_steps fs s of None \<Rightarrow> None | Some (Some e, s') \<Rightarrow> Some (Some e, s')
      | Some (None, s') \<Rightarrow> run_steps gs s')"
  by (induction fs arbitrary: s) (auto split: option.splits prod.splits)

subsection \<open>The ledger\<close>

datatype resource =
    R_address u64 | R_handle u64 | R_mapping u64
  | R_device_memory u64 | R_host_memory u64 | R_acl_thing acl_thing u64
  | R_fd int | R_aio u64 | R_vector u64 | R_control u64
  | R_hal_device u32 | R_tsd u32 | R_library u64
  | R_acl | R_device int

definition one_if :: "bool \<Rightarrow> 'a \<Rightarrow> 'a multiset" where
  "one_if b r = (if b then {#r#} else {#})"

lemma one_if_simps [simp]: "one_if True r = {#r#}" "one_if False r = {#}"
  by (simp_all add: one_if_def)

text \<open>
  What comes back through a pointer variable that the clean-up tests against null is held from the
  moment the variable is not null, whatever the call returned.
\<close>

definition gets_acl :: "acl_call \<Rightarrow> int \<Rightarrow> u64 \<Rightarrow> resource multiset" where
  "gets_acl c ret out = (case c of
     aclrtMalloc _ \<Rightarrow> one_if (out \<noteq> nullptr) (R_device_memory out)
   | aclrtMallocHost _ \<Rightarrow> one_if (ret = 0) (R_host_memory out)
   | aclrt_create k \<Rightarrow> one_if (out \<noteq> nullptr) (R_acl_thing k out)
   | _ \<Rightarrow> {#})"

definition gets_io :: "io_call \<Rightarrow> int \<Rightarrow> u64 \<Rightarrow> resource multiset" where
  "gets_io c ret out = (case c of
     sys_open _ _ \<Rightarrow> one_if (0 \<le> ret) (R_fd ret)
   | sys_io_setup _ \<Rightarrow> one_if (out \<noteq> 0) (R_aio out)
   | _ \<Rightarrow> {#})"

definition gets_hal :: "hal_call \<Rightarrow> int \<Rightarrow> u64 \<Rightarrow> resource multiset" where
  "gets_hal c ret out = (case c of
     halDeviceOpen d \<Rightarrow> one_if (ret = 0) (R_hal_device d)
   | TsdOpen d \<Rightarrow> one_if (ret = 0) (R_tsd d)
   | sys_dlopen _ \<Rightarrow> one_if (out \<noteq> nullptr) (R_library out)
   | _ \<Rightarrow> {#})"

definition gets :: "event \<Rightarrow> resource multiset" where
  "gets e = (case e of
     (halMemAddressReserve _ _ _ _ _, ret, out) \<Rightarrow> one_if (out \<noteq> nullptr) (R_address out)
   | (halMemCreate _ _ _ _, ret, out) \<Rightarrow> one_if (out \<noteq> nullptr) (R_handle out)
   | (halMemImportFromShareableHandle _ _ _, ret, out) \<Rightarrow> one_if (out \<noteq> nullptr) (R_handle out)
   | (halMemMap p _ _ _ _, ret, out) \<Rightarrow> one_if (ret = 0) (R_mapping p)
   | (aclInit, ret, out) \<Rightarrow> one_if (ret = 0) R_acl
   | (aclrtSetDevice i, ret, out) \<Rightarrow> one_if (ret = 0) (R_device i)
   | (Cpu (vector_new _), ret, out) \<Rightarrow> one_if (ret = 0) (R_vector out)
   | (Cpu (posix_memalign _ _), ret, out) \<Rightarrow> one_if (ret = 0) (R_control out)
   | (Acl c, ret, out) \<Rightarrow> gets_acl c ret out
   | (Io c, ret, out) \<Rightarrow> gets_io c ret out
   | (Hal c, ret, out) \<Rightarrow> gets_hal c ret out
   | _ \<Rightarrow> {#})"

text \<open>A release counts when it succeeds, the release of a null pointer for nothing; \<open>close\<close>, \<open>free\<close> and
  \<open>delete\<close> always do.\<close>

definition gives :: "event \<Rightarrow> resource multiset" where
  "gives e = (case e of
     (halMemAddressFree p, ret, out) \<Rightarrow> one_if (ret = 0 \<and> p \<noteq> nullptr) (R_address p)
   | (halMemRelease h, ret, out) \<Rightarrow> one_if (ret = 0 \<and> h \<noteq> nullptr) (R_handle h)
   | (halMemUnmap p, ret, out) \<Rightarrow> one_if (ret = 0) (R_mapping p)
   | (aclFinalize, ret, out) \<Rightarrow> one_if (ret = 0) R_acl
   | (aclrtResetDevice i, ret, out) \<Rightarrow> one_if (ret = 0) (R_device i)
   | (Cpu (vector_delete p), ret, out) \<Rightarrow> {#R_vector p#}
   | (Cpu (control_free p), ret, out) \<Rightarrow> {#R_control p#}
   | (Acl (aclrtFree p), ret, out) \<Rightarrow> one_if (ret = 0) (R_device_memory p)
   | (Acl (aclrtFreeHost p), ret, out) \<Rightarrow> one_if (ret = 0) (R_host_memory p)
   | (Acl (aclrt_destroy k p), ret, out) \<Rightarrow> one_if (ret = 0) (R_acl_thing k p)
   | (Io (sys_close d), ret, out) \<Rightarrow> {#R_fd d#}
   | (Io (sys_io_destroy c), ret, out) \<Rightarrow> one_if (ret = 0 \<and> c \<noteq> 0) (R_aio c)
   | (Hal (halDeviceClose d), ret, out) \<Rightarrow> one_if (ret = 0) (R_hal_device d)
   | (Hal (TsdClose d), ret, out) \<Rightarrow> one_if (ret = 0) (R_tsd d)
   | (Hal (sys_dlclose l), ret, out) \<Rightarrow> one_if (ret = 0) (R_library l)
   | _ \<Rightarrow> {#})"

lemmas ledger_simps = gets_def gives_def gets_acl_def gets_io_def gets_hal_def

lemma ledger_memory [simp]:
  "gets (halMemAddressReserve p n a q g, ret, out) = one_if (out \<noteq> nullptr) (R_address out)"
  "gets (halMemCreate h n prop g, ret, out) = one_if (out \<noteq> nullptr) (R_handle out)"
  "gets (halMemImportFromShareableHandle x h d, ret, out) = one_if (out \<noteq> nullptr) (R_handle out)"
  "gets (halMemMap p n o1 h g, ret, out) = one_if (ret = 0) (R_mapping p)"
  "gets (halMemUnmap p, ret, out) = {#}" "gets (halMemRelease h, ret, out) = {#}"
  "gets (halMemAddressFree p, ret, out) = {#}"
  "gives (halMemAddressReserve p n a q g, ret, out) = {#}" "gives (halMemCreate h n prop g, ret, out) = {#}"
  "gives (halMemImportFromShareableHandle x h d, ret, out) = {#}" "gives (halMemMap p n o1 h g, ret, out) = {#}"
  "gives (halMemUnmap p, ret, out) = one_if (ret = 0) (R_mapping p)"
  "gives (halMemRelease h, ret, out) = one_if (ret = 0 \<and> h \<noteq> nullptr) (R_handle h)"
  "gives (halMemAddressFree p, ret, out) = one_if (ret = 0 \<and> p \<noteq> nullptr) (R_address p)"
  "gets (halMemExportToShareableHandle h g x, ret, out) = {#}" "gives (halMemExportToShareableHandle h g x, ret, out) = {#}"
  "gets (halMemShareHandleSetAttribute x, ret, out) = {#}" "gives (halMemShareHandleSetAttribute x, ret, out) = {#}"
  "gets (aclInit, ret, out) = one_if (ret = 0) R_acl" "gives (aclInit, ret, out) = {#}"
  "gets (aclrtSetDevice i, ret, out) = one_if (ret = 0) (R_device i)" "gives (aclrtSetDevice i, ret, out) = {#}"
  "gets (aclFinalize, ret, out) = {#}" "gives (aclFinalize, ret, out) = one_if (ret = 0) R_acl"
  "gets (aclrtResetDevice i, ret, out) = {#}" "gives (aclrtResetDevice i, ret, out) = one_if (ret = 0) (R_device i)"
  by (simp_all add: gets_def gives_def)

text \<open>
  \<open>in_books r0 held s\<close>: as long as no clean-up call has failed, what the program was given at its
  start (\<open>r0\<close>) and what its calls obtained is what its calls gave back and what it holds.
\<close>

definition in_books :: "resource multiset \<Rightarrow> ('w, 'z) probe_scheme \<Rightarrow> resource multiset \<Rightarrow> bool" where
  "in_books r0 s held \<longleftrightarrow>
     (\<not> cleanup_failed s \<longrightarrow> r0 + tally gets (trace_of s) = tally gives (trace_of s) + held)"

lemma in_books_event:
  assumes "in_books r0 s held" and "trace_of s' = trace_of s @ [e]"
    and "cleanup_failed s \<Longrightarrow> cleanup_failed s'"
    and "\<not> cleanup_failed s' \<Longrightarrow> held + gets e = gives e + held'"
  shows "in_books r0 s' held'"
proof (unfold in_books_def, intro impI)
  assume n: "\<not> cleanup_failed s'"
  with assms(3) have "\<not> cleanup_failed s" by blast
  with assms(1) have "r0 + tally gets (trace_of s) = tally gives (trace_of s) + held"
    by (simp add: in_books_def)
  then have "r0 + tally gets (trace_of s) + gets e = tally gives (trace_of s) + (held + gets e)"
    by (simp add: add.assoc)
  with assms(4) [OF n] show "r0 + tally gets (trace_of s') = tally gives (trace_of s') + held'"
    by (simp add: assms(2) add.assoc)
qed

lemma in_books_same:
  assumes "in_books r0 s held" and "trace_of s' = trace_of s"
    and "cleanup_failed s \<Longrightarrow> cleanup_failed s'" and "\<not> cleanup_failed s' \<Longrightarrow> held' = held"
  shows "in_books r0 s' held'"
  using assms by (auto simp: in_books_def)

text \<open>Events that neither obtain nor give back anything.\<close>

definition neutral :: "event \<Rightarrow> bool" where
  "neutral e \<longleftrightarrow> gets e = {#} \<and> gives e = {#}"

lemma tally_neutral:
  assumes "list_all neutral ev"
  shows "tally gets ev = {#}" "tally gives ev = {#}"
  using assms by (induction ev) (auto simp: neutral_def)

lemma in_books_neutral:
  assumes "in_books r0 s held" and "trace_of s' = trace_of s @ ev" and "list_all neutral ev"
    and "cleanup_failed s \<Longrightarrow> cleanup_failed s'"
  shows "in_books r0 s' held"
  using assms by (auto simp: in_books_def tally_neutral)

lemma neutral_simps [simp]:
  "neutral (Cpu (cpu_load n a), ret, out)" "neutral (Cpu (cpu_store n a v), ret, out)"
  "neutral (Cpu (c_memset a b m), ret, out)"
  "neutral (Io (sys_send fd w n), ret, out)" "neutral (Io (sys_recv fd n), ret, out)"
  by (simp_all add: neutral_def ledger_simps)

end
