(* ===== verification/Probe_Common.thy ===== *)
theory Probe_Common
  imports Probe_System
begin

unbundle bit_operations_syntax

text \<open>
  src/common.hpp: checked and unchecked calls, the test pattern with its fill and verify loops, the
  destructors of \<open>Allocation\<close> and \<open>AclResources\<close>, and \<open>aio_operation\<close>, which transfers a buffer as
  four asynchronous requests. Log output (\<open>log_line\<close> and \<open>printf\<close>) has no model.
\<close>

text \<open>
  \<open>check(call, what)\<close>: \<open>wr\<close> is what the call stores through its output parameter, \<open>ok\<close> the
  assignment that follows a success.
\<close>

definition check_step ::
  "'w env \<Rightarrow> string \<Rightarrow> (('w, 'z) probe_scheme \<Rightarrow> native) \<Rightarrow>
   (u64 \<Rightarrow> ('w, 'z) probe_scheme \<Rightarrow> ('w, 'z) probe_scheme) \<Rightarrow>
   (('w, 'z) probe_scheme \<Rightarrow> ('w, 'z) probe_scheme) \<Rightarrow> ('w, 'z) probe_scheme prog_step" where
  "check_step E what c wr ok s =
     (case probe_call E (c s) s of
        (ret, out, s1) \<Rightarrow> Some (if ret \<noteq> 0 then (Some what, wr out s1) else (None, ok (wr out s1))))"

abbreviation no_out :: "u64 \<Rightarrow> 's \<Rightarrow> 's" where
  "no_out \<equiv> \<lambda>_ s. s"

definition cleanup ::
  "'w env \<Rightarrow> native \<Rightarrow> ('w, 'z) probe_scheme \<Rightarrow> ('w, 'z) probe_scheme" where
  "cleanup E c s =
     (case probe_call E c s of
        (ret, _, s1) \<Rightarrow> if ret \<noteq> 0 then s1\<lparr>cleanup_failed := True\<rparr> else s1)"

subsection \<open>The test pattern\<close>

definition pattern_word :: "nat \<Rightarrow> u64 \<Rightarrow> u64" where
  "pattern_word i seed = (of_nat i * 0x9e3779b97f4a7c15) XOR seed"

definition store_word :: "'w env \<Rightarrow> u64 \<Rightarrow> nat \<Rightarrow> u64 \<Rightarrow> ('w, 'z) probe_scheme \<Rightarrow> ('w, 'z) probe_scheme" where
  "store_word E p i v s = plain_call E (Cpu (cpu_store 8 (p + of_nat (8 * i)) v)) s"

definition fill :: "'w env \<Rightarrow> u64 \<Rightarrow> u64 \<Rightarrow> u64 \<Rightarrow> ('w, 'z) probe_scheme \<Rightarrow> ('w, 'z) probe_scheme" where
  "fill E p bytes seed s =
     fold (\<lambda>i. store_word E p i (pattern_word i seed)) [0..<unat (bytes div 8)] s"

fun verify_words ::
  "'w env \<Rightarrow> u64 \<Rightarrow> u64 \<Rightarrow> string \<Rightarrow> nat list \<Rightarrow> ('w, 'z) probe_scheme \<Rightarrow>
   string option \<times> ('w, 'z) probe_scheme" where
  "verify_words E p seed phase [] s = (None, s)"
| "verify_words E p seed phase (i # is) s =
     (case probe_call E (Cpu (cpu_load 8 (p + of_nat (8 * i)))) s of
        (_, v, s1) \<Rightarrow> if v \<noteq> pattern_word i seed then (Some phase, s1)
                      else verify_words E p seed phase is s1)"

definition verify ::
  "'w env \<Rightarrow> u64 \<Rightarrow> u64 \<Rightarrow> u64 \<Rightarrow> string \<Rightarrow> ('w, 'z) probe_scheme prog_step" where
  "verify E p bytes seed phase s =
     Some (verify_words E p seed phase [0..<unat (bytes div 8)] s)"

subsection \<open>Destructors\<close>

record allocation =
  alloc_va :: u64
  alloc_handle :: u64
  alloc_mapped :: bool

definition Allocation_new :: allocation where
  "Allocation_new = \<lparr>alloc_va = nullptr, alloc_handle = nullptr, alloc_mapped = False\<rparr>"

definition Allocation_destroy ::
  "'w env \<Rightarrow> allocation \<Rightarrow> ('w, 'z) probe_scheme \<Rightarrow> ('w, 'z) probe_scheme" where
  "Allocation_destroy E m s =
     (let s1 = if alloc_mapped m then cleanup E (halMemUnmap (alloc_va m)) s else s;
          s2 = if alloc_handle m \<noteq> nullptr then cleanup E (halMemRelease (alloc_handle m)) s1 else s1
      in if alloc_va m \<noteq> nullptr then cleanup E (halMemAddressFree (alloc_va m)) s2 else s2)"

record acl_resources =
  acl_device :: u64
  acl_stream :: u64
  acl_event :: u64

definition AclResources_new :: acl_resources where
  "AclResources_new = \<lparr>acl_device = nullptr, acl_stream = nullptr, acl_event = nullptr\<rparr>"

definition AclResources_destroy ::
  "'w env \<Rightarrow> acl_resources \<Rightarrow> ('w, 'z) probe_scheme \<Rightarrow> ('w, 'z) probe_scheme" where
  "AclResources_destroy E a s =
     (let s1 = if acl_stream a \<noteq> nullptr then cleanup E (Acl (aclrtSynchronizeStream (acl_stream a))) s else s;
          s2 = if acl_event a \<noteq> nullptr then cleanup E (Acl (aclrt_destroy Acl_event (acl_event a))) s1 else s1;
          s3 = if acl_stream a \<noteq> nullptr then cleanup E (Acl (aclrt_destroy Acl_stream (acl_stream a))) s2 else s2
      in if acl_device a \<noteq> nullptr then cleanup E (Acl (aclrtFree (acl_device a))) s3 else s3)"

subsection \<open>Asynchronous transfer\<close>

text \<open>
  \<open>aio_operation\<close> gives back the context too, because it destroys and clears it when not every
  request was submitted or completed. The kernel's array of events is read field by field.
\<close>

definition aio_blocks :: "int \<Rightarrow> u64 \<Rightarrow> u64 \<Rightarrow> bool \<Rightarrow> aio_block list" where
  "aio_blocks fd p chunk write =
     map (\<lambda>i. \<lparr>blk_data = of_nat i, blk_write = write, blk_fd = fd,
                blk_buf = p + of_nat i * chunk, blk_nbytes = chunk, blk_offset = of_nat i * chunk\<rparr>) [0..<4]"

definition event_bad :: "u64 \<Rightarrow> u32 \<Rightarrow> u64 \<Rightarrow> int \<Rightarrow> int \<Rightarrow> bool" where
  "event_bad chunk seen data res res2 \<longleftrightarrow>
     data \<ge> 4 \<or> bit seen (unat data) \<or> res \<noteq> sint chunk \<or> res2 \<noteq> 0"

definition mark_seen :: "u32 \<Rightarrow> u64 \<Rightarrow> u32" where
  "mark_seen seen data = (if data < 4 then seen OR push_bit (unat data) 1 else seen)"

fun aio_events ::
  "'w env \<Rightarrow> u64 \<Rightarrow> nat list \<Rightarrow> u32 \<Rightarrow> bool \<Rightarrow> ('w, 'z) probe_scheme \<Rightarrow> bool \<times> ('w, 'z) probe_scheme" where
  "aio_events E chunk [] seen failed s = (failed, s)"
| "aio_events E chunk (i # is) seen failed s =
     (case probe_call E (Io (io_event_data i)) s of (_, data, s1) \<Rightarrow>
      case probe_call E (Io (io_event_res i)) s1 of (res, _, s2) \<Rightarrow>
      case probe_call E (Io (io_event_res2 i)) s2 of (res2, _, s3) \<Rightarrow>
        aio_events E chunk is (mark_seen seen data) (failed \<or> event_bad chunk seen data res res2) s3)"

definition aio_operation ::
  "'w env \<Rightarrow> u64 \<Rightarrow> int \<Rightarrow> u64 \<Rightarrow> u64 \<Rightarrow> bool \<Rightarrow> ('w, 'z) probe_scheme \<Rightarrow>
   string option \<times> u64 \<times> ('w, 'z) probe_scheme" where
  "aio_operation E ctx fd p bytes write s =
     (let chunk = bytes div 4;
          (submitted, _, s1) = probe_call E (Io (sys_io_submit ctx (aio_blocks fd p chunk write))) s
      in if submitted \<noteq> 4
         then (Some ''io_submit'', 0, cleanup E (Io (sys_io_destroy ctx)) s1)
         else let (completed, _, s2) = probe_call E (Io (sys_io_getevents ctx 4)) s1
              in if completed \<noteq> 4
                 then (Some ''io_getevents'', 0, cleanup E (Io (sys_io_destroy ctx)) s2)
                 else let (failed, s3) = aio_events E chunk [0..<4] 0 False s2
                      in (if failed then Some ''aio completion'' else None, ctx, s3))"

subsection \<open>What the operations do to a program's variables and to its trace\<close>

text \<open>
  \<open>moves P s s'\<close>: only the system state changed, by calls that all satisfy \<open>P\<close>.
\<close>

definition moves :: "(native \<Rightarrow> bool) \<Rightarrow> ('w, 'z) probe_scheme \<Rightarrow> ('w, 'z) probe_scheme \<Rightarrow> bool" where
  "moves P s s' \<longleftrightarrow> s' = s\<lparr>sys_of := sys_of s'\<rparr> \<and>
     (\<exists>ev. trace_of s' = trace_of s @ ev \<and> list_all P (map fst ev))"

lemma moves_refl [simp]: "moves P s s"
  by (auto simp: moves_def)

lemma moves_trans:
  assumes "moves P s t" and "moves P t u"
  shows "moves P s u"
proof -
  obtain ev ev' where ev: "trace_of t = trace_of s @ ev" "list_all P (map fst ev)"
    and ev': "trace_of u = trace_of t @ ev'" "list_all P (map fst ev')"
    using assms by (auto simp: moves_def)
  have "u = s\<lparr>sys_of := sys_of u\<rparr>"
    using assms by (metis moves_def probe.update_convs(1) probe.surjective probe.select_convs)
  moreover have "trace_of u = trace_of s @ (ev @ ev')" "list_all P (map fst (ev @ ev'))"
    using ev ev' by simp_all
  ultimately show ?thesis
    by (auto simp: moves_def)
qed

lemma moves_mono: "moves P s s' \<Longrightarrow> (\<And>c. P c \<Longrightarrow> Q c) \<Longrightarrow> moves Q s s'"
  unfolding moves_def by (metis list.pred_mono_strong)

lemma moves_call: "P c \<Longrightarrow> probe_call E c s = (ret, out, s') \<Longrightarrow> moves P s s'"
  by (rule probe_call_cases [of E c s]) (auto simp: moves_def trace_of_def)

lemma moves_plain: "P c \<Longrightarrow> moves P s (plain_call E c s)"
  by (cases "probe_call E c s") (auto simp: plain_call_def intro: moves_call)

lemma moves_trace: "moves P s s' \<Longrightarrow> \<exists>ev. trace_of s' = trace_of s @ ev \<and> list_all P (map fst ev)"
  by (simp add: moves_def)

lemma moves_same: "moves P s s' \<Longrightarrow> s' = s\<lparr>sys_of := sys_of s'\<rparr>"
  by (simp add: moves_def)

lemma moves_frame [frame_rules]:
  assumes "moves P s s'"
  shows "cleanup_failed s' = cleanup_failed s" "probe.more s' = probe.more s"
  by (subst moves_same [OF assms], simp)+

definition is_store :: "native \<Rightarrow> bool" where
  "is_store c \<longleftrightarrow> (case c of Cpu (cpu_store _ _ _) \<Rightarrow> True | _ \<Rightarrow> False)"

definition is_load :: "native \<Rightarrow> bool" where
  "is_load c \<longleftrightarrow> (case c of Cpu (cpu_load _ _) \<Rightarrow> True | _ \<Rightarrow> False)"

lemma fill_moves: "moves is_store s (fill E p bytes seed s)"
proof -
  have "moves is_store s (fold (\<lambda>i. store_word E p i (pattern_word i seed)) is s)" for "is"
  proof (induction "is" arbitrary: s)
    case Nil
    then show ?case by simp
  next
    case (Cons i js)
    have "moves is_store s (store_word E p i (pattern_word i seed) s)"
      by (auto simp: store_word_def is_store_def intro: moves_plain)
    with Cons.IH show ?case
      by (auto intro: moves_trans)
  qed
  then show ?thesis
    by (simp add: fill_def)
qed

lemma verify_words_moves: "verify_words E p seed phase is s = (e, s') \<Longrightarrow> moves is_load s s'"
proof (induction "is" arbitrary: s)
  case Nil
  then show ?case by simp
next
  case (Cons i js)
  obtain r v s1 where c: "probe_call E (Cpu (cpu_load 8 (p + of_nat (8 * i)))) s = (r, v, s1)"
    by (rule prod_cases3)
  then have "moves is_load s s1"
    by (rule moves_call [rotated]) (simp add: is_load_def)
  with Cons c show ?case
    by (auto split: if_splits intro: moves_trans)
qed

lemma verify_moves: "verify E p bytes seed phase s = Some (e, s') \<Longrightarrow> moves is_load s s'"
  by (auto simp: verify_def intro: verify_words_moves)

lemma load_store_neutral: "is_store c \<or> is_load c \<Longrightarrow> neutral (c, r)"
  by (cases r) (auto simp: is_store_def is_load_def split: native.splits cpu_call.splits)

lemma in_books_moves:
  assumes "in_books r0 s held" and "moves P s s'" and "\<And>c r. P c \<Longrightarrow> neutral (c, r)"
  shows "in_books r0 s' held"
proof -
  obtain ev where ev: "trace_of s' = trace_of s @ ev" and P: "list_all P (map fst ev)"
    using assms(2) by (auto simp: moves_def)
  have "list_all neutral ev"
    using P by (induction ev) (auto intro: assms(3))
  with assms(1) ev show ?thesis
    by (rule in_books_neutral) (simp add: moves_frame [OF assms(2)])
qed

lemma cleanup_cases:
  obtains ret out s1 where "probe_call E c s = (ret, out, s1)"
    and "trace_of (cleanup E c s) = trace_of s @ [(c, ret, out)]"
    and "cleanup_failed (cleanup E c s) \<longleftrightarrow> cleanup_failed s \<or> ret \<noteq> 0"
    and "probe.more (cleanup E c s) = probe.more s"
  by (rule probe_call_cases [of E c s]) (auto simp: cleanup_def trace_of_def)

end
