(* ===== verification/Probe_Cli.thy ===== *)
theory Probe_Cli
  imports Probe_Common
begin

text \<open>
  src/cli.hpp: words over a stream socket, the command line of the two-process probes, and
  \<open>launch\<close>, which makes the socket pair, starts the second process as a fresh image of the program
  and runs the worker.

  The kernel may take or deliver fewer bytes than asked for, and may interrupt a call
  (\<open>EINTR\<close>); the loops are partial functions, because it could do so for ever. The socket pair
  comes back in one word, the first descriptor in its low half. \<open>launch\<close> is given the worker; the
  arguments exclude \<open>argv[0]\<close>.
\<close>

definition EINTR :: int where
  "EINTR = 4"

partial_function (option) send_from ::
  "'w env \<Rightarrow> int \<Rightarrow> u64 \<Rightarrow> nat \<Rightarrow> ('w, 'z) probe_scheme \<Rightarrow> (string option \<times> ('w, 'z) probe_scheme) option" where
  "send_from E fd v sent s =
     (if sent < 8
      then case probe_call E (Io (sys_send fd (drop_bit (8 * sent) v) (8 - sent))) s of
        (n, _, s1) \<Rightarrow>
          if n = - EINTR then send_from E fd v sent s1
          else if n \<le> 0 then Some (Some ''IPC send / peer closed'', s1)
          else send_from E fd v (sent + nat n) s1
      else Some (None, s))"

definition send_word :: "'w env \<Rightarrow> int \<Rightarrow> u64 \<Rightarrow> ('w, 'z) probe_scheme prog_step" where
  "send_word E fd v s = send_from E fd v 0 s"

partial_function (option) receive_from ::
  "'w env \<Rightarrow> int \<Rightarrow> u64 \<Rightarrow> nat \<Rightarrow> ('w, 'z) probe_scheme \<Rightarrow> ((string + u64) \<times> ('w, 'z) probe_scheme) option" where
  "receive_from E fd v received s =
     (if received < 8
      then case probe_call E (Io (sys_recv fd (8 - received))) s of
        (n, bytes, s1) \<Rightarrow>
          if n = - EINTR then receive_from E fd v received s1
          else if n \<le> 0 then Some (Inl ''IPC receive / peer closed or timed out'', s1)
          else receive_from E fd (v OR push_bit (8 * received) (take_bit (8 * nat n) bytes))
                 (received + nat n) s1
      else Some (Inr v, s))"

definition receive_word ::
  "'w env \<Rightarrow> int \<Rightarrow> ('w, 'z) probe_scheme \<Rightarrow> ((string + u64) \<times> ('w, 'z) probe_scheme) option" where
  "receive_word E fd s = receive_from E fd 0 0 s"

text \<open>\<open>x = receive_word(fd)\<close> and \<open>check(receive_word(fd), what)\<close>.\<close>

definition receive_into ::
  "'w env \<Rightarrow> int \<Rightarrow> (u64 \<Rightarrow> ('w, 'z) probe_scheme \<Rightarrow> ('w, 'z) probe_scheme) \<Rightarrow> ('w, 'z) probe_scheme prog_step" where
  "receive_into E fd wr s =
     (case receive_word E fd s of None \<Rightarrow> None
      | Some (Inl e, s1) \<Rightarrow> Some (Some e, s1)
      | Some (Inr v, s1) \<Rightarrow> Some (None, wr v s1))"

definition check_receive ::
  "'w env \<Rightarrow> int \<Rightarrow> (u64 \<Rightarrow> bool) \<Rightarrow> string \<Rightarrow> ('w, 'z) probe_scheme prog_step" where
  "check_receive E fd ok what s =
     (case receive_word E fd s of None \<Rightarrow> None
      | Some (Inl e, s1) \<Rightarrow> Some (Some e, s1)
      | Some (Inr v, s1) \<Rightarrow> Some (if ok v then None else Some what, s1))"

definition number :: "string \<Rightarrow> string + u64" where
  "number text =
     (if text = [] \<or> \<not> only_digits text then Inl ''expected a nonnegative integer''
      else case stoull text of Inl _ \<Rightarrow> Inl ''stoull'' | Inr n \<Rightarrow> Inr n)"

subsection \<open>The command line\<close>

record cli_options =
  cli_device :: int
  cli_bytes :: u64
  cli_io_dir :: string
  cli_aio :: string
  cli_worker_fd :: int

definition cli_defaults :: cli_options where
  "cli_defaults = \<lparr>cli_device = 0, cli_bytes = 2 * 1024 * 1024, cli_io_dir = ''.'',
     cli_aio = ''both'', cli_worker_fd = - 1\<rparr>"

datatype cli_parsed = Cli_Help | Cli_Fail string | Cli_Ok cli_options

definition INT_MAX :: u64 where
  "INT_MAX = 0x7fffffff"

definition SIZE_MAX :: u64 where
  "SIZE_MAX = - 1"

definition cli_set :: "u64 \<Rightarrow> string \<Rightarrow> string \<Rightarrow> cli_options \<Rightarrow> string + cli_options" where
  "cli_set alignment_mib key v opt =
     (if key = ''--device'' \<or> key = ''--worker-fd''
      then case number v of Inl e \<Rightarrow> Inl e
        | Inr n \<Rightarrow> if n > INT_MAX then Inl ''integer out of range''
                  else if key = ''--device'' then Inr (opt\<lparr>cli_device := uint n\<rparr>)
                  else Inr (opt\<lparr>cli_worker_fd := uint n\<rparr>)
      else if key = ''--size-mib''
      then case number v of Inl e \<Rightarrow> Inl e
        | Inr n \<Rightarrow> if n = 0 \<or> n mod alignment_mib \<noteq> 0 \<or> n > SIZE_MAX div (1024 * 1024)
                  then Inl (''size must be a positive multiple of '' @ to_string_u64 alignment_mib @ '' MiB'')
                  else Inr (opt\<lparr>cli_bytes := n * 1024 * 1024\<rparr>)
      else if key = ''--io-dir'' then Inr (opt\<lparr>cli_io_dir := v\<rparr>)
      else if key = ''--aio''
      then if v \<notin> {''both'', ''buffered'', ''direct'', ''none''} then Inl ''invalid --aio value''
           else Inr (opt\<lparr>cli_aio := v\<rparr>)
      else Inl (''unknown option: '' @ key))"

fun cli_scan :: "u64 \<Rightarrow> string list \<Rightarrow> cli_options \<Rightarrow> cli_parsed" where
  "cli_scan al [] opt = Cli_Ok opt"
| "cli_scan al [key] opt = (if key = ''--help'' then Cli_Help else Cli_Fail ''missing option value'')"
| "cli_scan al (key # v # args) opt =
     (if key = ''--help'' then Cli_Help
      else case cli_set al key v opt of Inl e \<Rightarrow> Cli_Fail e | Inr opt' \<Rightarrow> cli_scan al args opt')"

subsection \<open>Two processes\<close>

text \<open>
  How a process ends: with an exit code, or by becoming a fresh image of the program with other
  arguments.
\<close>

datatype ended = Exit int | Replaced "string list"

definition low_fd :: "u64 \<Rightarrow> int" where
  "low_fd w = sint (ucast w :: u32)"

definition high_fd :: "u64 \<Rightarrow> int" where
  "high_fd w = sint (ucast (drop_bit 32 w) :: u32)"

definition set_timeouts :: "'w env \<Rightarrow> int \<Rightarrow> ('w, 'z) probe_scheme \<Rightarrow> bool \<times> ('w, 'z) probe_scheme" where
  "set_timeouts E fd s =
     (let (r1, _, s1) = probe_call E (Proc (sys_setsockopt fd True)) s
      in if r1 \<noteq> 0 then (False, s1)
         else let (r2, _, s2) = probe_call E (Proc (sys_setsockopt fd False)) s1 in (r2 = 0, s2))"

definition close_both :: "'w env \<Rightarrow> int \<Rightarrow> int \<Rightarrow> ('w, 'z) probe_scheme \<Rightarrow> ('w, 'z) probe_scheme" where
  "close_both E a b s = plain_call E (Io (sys_close b)) (plain_call E (Io (sys_close a)) s)"

partial_function (option) wait_child ::
  "'w env \<Rightarrow> int \<Rightarrow> ('w, 'z) probe_scheme \<Rightarrow> (int \<times> u64 \<times> ('w, 'z) probe_scheme) option" where
  "wait_child E child s =
     (case probe_call E (Proc (sys_waitpid child)) s of
        (waited, status, s1) \<Rightarrow>
          if waited = - EINTR then wait_child E child s1 else Some (waited, status, s1))"

text \<open>
  From the socket pair on; every failure is the exit code 2. \<open>fd_args\<close> is what the second process is
  given on top of the arguments of the first.
\<close>

definition child_image :: "'w env \<Rightarrow> int \<Rightarrow> string list \<Rightarrow> 'w probe \<Rightarrow> ended \<times> 'w probe" where
  "child_image E other_end args s =
     (let s1 = plain_call E (Io (sys_close other_end)) s;
          (ret, _, s2) = probe_call E (Proc (sys_exec args)) s1
      in (if ret = 0 then Replaced args else Exit 127, s2))"

definition parent_waits ::
  "'w env \<Rightarrow> int \<Rightarrow> (int \<times> 'w probe) option \<Rightarrow> (ended \<times> 'w probe) option" where
  "parent_waits E child r =
     (case r of None \<Rightarrow> None
      | Some (result, s) \<Rightarrow>
          (case wait_child E child s of None \<Rightarrow> None
           | Some (waited, status, s1) \<Rightarrow>
               Some (Exit (if waited < 0 then 2 else if result \<noteq> 0 \<or> status \<noteq> 0 then 1 else 0), s1)))"

definition launch_pair ::
  "'w env \<Rightarrow> (string \<Rightarrow> string list) \<Rightarrow> (bool \<Rightarrow> int \<Rightarrow> 'w probe \<Rightarrow> (int \<times> 'w probe) option) \<Rightarrow> string list \<Rightarrow> 'w probe \<Rightarrow>
   (ended \<times> 'w probe) option" where
  "launch_pair E fd_args worker args s =
     (let (r, pair, s1) = probe_call E (Proc sys_socketpair) s; a = low_fd pair; b = high_fd pair
      in if r \<noteq> 0 then Some (Exit 2, s1)
      else let (ok, s2) = (case set_timeouts E a s1 of (ok1, t) \<Rightarrow> if ok1 then set_timeouts E b t else (False, t))
      in if \<not> ok then Some (Exit 2, close_both E a b s2)
      else let (child, _, s3) = probe_call E (Proc sys_fork) s2
      in if child < 0 then Some (Exit 2, close_both E a b s3)
      else if child = 0
      then Some (child_image E a (args @ fd_args (to_string_int b)) s3)
      else parent_waits E child (worker False a (plain_call E (Io (sys_close b)) s3)))"

definition launch ::
  "'w env \<Rightarrow> u64 \<Rightarrow> (cli_options \<Rightarrow> bool \<Rightarrow> int \<Rightarrow> 'w probe \<Rightarrow> (int \<times> 'w probe) option) \<Rightarrow>
   string list \<Rightarrow> 'w probe \<Rightarrow> (ended \<times> 'w probe) option" where
  "launch E alignment_mib worker args s =
     (case cli_scan alignment_mib args cli_defaults of
        Cli_Help \<Rightarrow> Some (Exit 0, s)
      | Cli_Fail _ \<Rightarrow> Some (Exit 2, s)
      | Cli_Ok opt \<Rightarrow>
          if cli_worker_fd opt \<ge> 0
          then map_option (\<lambda>(n, t). (Exit n, t)) (worker opt True (cli_worker_fd opt) s)
          else launch_pair E (\<lambda>fd. [''--worker-fd'', fd]) (worker opt) args s)"

end
