(* ===== verification/Probe_Common_Facts.thy ===== *)
theory Probe_Common_Facts
  imports Probe_Common
begin

text \<open>
  The facts about src/common.hpp that the programs share: what the clean-up gives back, what a
  passing \<open>verify\<close> and a passing \<open>aio_operation\<close> have seen, and the pattern on memory that keeps
  what is stored (\<open>keeps_words\<close>).
\<close>

subsection \<open>Clean-up\<close>

lemma in_books_cleanup:
  assumes "in_books r0 s (held + r)" and "\<And>out. gets (c, 0, out) = {#} \<and> gives (c, 0, out) = r"
  shows "in_books r0 (cleanup E c s) held"
proof (rule cleanup_cases [of E c s])
  fix ret out s1
  assume t: "trace_of (cleanup E c s) = trace_of s @ [(c, ret, out)]"
    and f: "cleanup_failed (cleanup E c s) \<longleftrightarrow> cleanup_failed s \<or> ret \<noteq> 0"
  show ?thesis
    by (rule in_books_event [OF assms(1) t]) (use f assms(2) in \<open>auto simp: add.commute\<close>)
qed

lemma in_books_cleanup_if:
  assumes "in_books r0 s (held + one_if b r)"
    and "\<And>out. b \<Longrightarrow> gets (c, 0, out) = {#} \<and> gives (c, 0, out) = {#r#}"
  shows "in_books r0 (if b then cleanup E c s else s) held"
  using assms by (cases b) (auto intro!: in_books_cleanup)

definition alloc_held :: "allocation \<Rightarrow> resource multiset" where
  "alloc_held m = one_if (alloc_va m \<noteq> nullptr) (R_address (alloc_va m))
     + one_if (alloc_handle m \<noteq> nullptr) (R_handle (alloc_handle m))
     + one_if (alloc_mapped m) (R_mapping (alloc_va m))"

lemma alloc_held_new [simp]: "alloc_held Allocation_new = {#}"
  by (simp add: alloc_held_def Allocation_new_def)

lemma Allocation_destroy_books:
  assumes "in_books r0 s (held + alloc_held m)"
  shows "in_books r0 (Allocation_destroy E m s) held"
proof -
  let ?va = "one_if (alloc_va m \<noteq> nullptr) (R_address (alloc_va m))"
  let ?h = "one_if (alloc_handle m \<noteq> nullptr) (R_handle (alloc_handle m))"
  let ?s1 = "if alloc_mapped m then cleanup E (halMemUnmap (alloc_va m)) s else s"
  let ?s2 = "if alloc_handle m \<noteq> nullptr then cleanup E (halMemRelease (alloc_handle m)) ?s1 else ?s1"
  have "in_books r0 ?s1 (held + ?va + ?h)"
    by (rule in_books_cleanup_if) (use assms in \<open>simp_all add: alloc_held_def ledger_simps add.assoc\<close>)
  then have "in_books r0 ?s2 (held + ?va)"
    by (rule in_books_cleanup_if) (simp_all add: ledger_simps)
  then show ?thesis
    unfolding Allocation_destroy_def Let_def
    by (rule in_books_cleanup_if) (simp_all add: ledger_simps)
qed

definition acl_held :: "acl_resources \<Rightarrow> resource multiset" where
  "acl_held a = one_if (acl_device a \<noteq> nullptr) (R_device_memory (acl_device a))
     + one_if (acl_stream a \<noteq> nullptr) (R_acl_thing Acl_stream (acl_stream a))
     + one_if (acl_event a \<noteq> nullptr) (R_acl_thing Acl_event (acl_event a))"

lemma acl_held_new [simp]: "acl_held AclResources_new = {#}"
  by (simp add: acl_held_def AclResources_new_def)

lemma AclResources_destroy_books:
  assumes "in_books r0 s (held + acl_held a)"
  shows "in_books r0 (AclResources_destroy E a s) held"
proof -
  let ?d = "one_if (acl_device a \<noteq> nullptr) (R_device_memory (acl_device a))"
  let ?t = "one_if (acl_stream a \<noteq> nullptr) (R_acl_thing Acl_stream (acl_stream a))"
  let ?s1 = "if acl_stream a \<noteq> nullptr then cleanup E (Acl (aclrtSynchronizeStream (acl_stream a))) s else s"
  let ?s2 = "if acl_event a \<noteq> nullptr then cleanup E (Acl (aclrt_destroy Acl_event (acl_event a))) ?s1 else ?s1"
  let ?s3 = "if acl_stream a \<noteq> nullptr then cleanup E (Acl (aclrt_destroy Acl_stream (acl_stream a))) ?s2 else ?s2"
  have "in_books r0 ?s1 (held + acl_held a)"
    using assms by (auto intro!: in_books_cleanup simp: ledger_simps)
  then have "in_books r0 ?s1 (held + ?d + ?t +
      one_if (acl_event a \<noteq> nullptr) (R_acl_thing Acl_event (acl_event a)))"
    by (simp add: acl_held_def add.assoc)
  then have "in_books r0 ?s2 (held + ?d + ?t)"
    by (rule in_books_cleanup_if) (simp_all add: ledger_simps)
  then have "in_books r0 ?s3 (held + ?d)"
    by (rule in_books_cleanup_if) (simp_all add: ledger_simps)
  then show ?thesis
    unfolding AclResources_destroy_def Let_def
    by (rule in_books_cleanup_if) (simp_all add: ledger_simps)
qed

text \<open>Clean-up leaves a program's own variables alone.\<close>

lemma cleanup_same: "cleanup E c s = s\<lparr>sys_of := sys_of (cleanup E c s), cleanup_failed := cleanup_failed (cleanup E c s)\<rparr>"
  by (rule probe_call_cases [of E c s]) (auto simp: cleanup_def)

lemma cleanup_more [frame_rules, simp]: "probe.more (cleanup E c s) = probe.more s"
  by (rule cleanup_cases) blast

lemma destroy_more [frame_rules, simp]:
  "probe.more (Allocation_destroy E m s) = probe.more s"
  "probe.more (AclResources_destroy E a s) = probe.more s"
  by (simp_all add: Allocation_destroy_def AclResources_destroy_def Let_def)

subsection \<open>Passing verification\<close>

lemma verify_words_pass:
  "verify_words E p seed phase is s = (None, s') \<Longrightarrow>
   \<exists>rets. length rets = length is \<and> trace_of s' = trace_of s @
     map (\<lambda>(i, r). (Cpu (cpu_load 8 (p + of_nat (8 * i))), r, pattern_word i seed)) (zip is rets)"
proof (induction "is" arbitrary: s)
  case Nil
  then show ?case by simp
next
  case (Cons i js)
  obtain r v s1 where c: "probe_call E (Cpu (cpu_load 8 (p + of_nat (8 * i)))) s = (r, v, s1)"
    by (rule prod_cases3)
  with Cons.prems have v: "v = pattern_word i seed" and "verify_words E p seed phase js s1 = (None, s')"
    by (auto split: if_splits)
  with Cons.IH obtain rets where "length rets = length js"
    "trace_of s' = trace_of s1 @
      map (\<lambda>(i, r). (Cpu (cpu_load 8 (p + of_nat (8 * i))), r, pattern_word i seed)) (zip js rets)"
    by blast
  with probe_call_trace [OF c] v show ?case
    by (intro exI [of _ "r # rets"]) simp
qed

subsection \<open>Memory that keeps what is stored\<close>

text \<open>
  \<open>keeps_words E word A\<close>: the 8-byte words at the addresses \<open>A\<close> are memory of this process alone;
  \<open>word w a\<close> is what the word at \<open>a\<close> holds in the world \<open>w\<close>.
\<close>

definition keeps_words :: "'w env \<Rightarrow> ('w \<Rightarrow> u64 \<Rightarrow> u64) \<Rightarrow> u64 set \<Rightarrow> bool" where
  "keeps_words E word A \<longleftrightarrow>
     (\<forall>w. \<forall>a \<in> A. case native_fn E (Cpu (cpu_load 8 a)) w of
        (_, v, w') \<Rightarrow> v = word w a \<and> (\<forall>b \<in> A. word w' b = word w b)) \<and>
     (\<forall>w v. \<forall>a \<in> A. case native_fn E (Cpu (cpu_store 8 a v)) w of
        (_, _, w') \<Rightarrow> (\<forall>b \<in> A. word w' b = (if b = a then v else word w b)))"

definition words_at :: "u64 \<Rightarrow> nat \<Rightarrow> u64 set" where
  "words_at p n = (\<lambda>i. p + of_nat (8 * i)) ` {..<n}"

lemma words_inj:
  assumes "i < 2 ^ 61" and "j < 2 ^ 61"
  shows "p + of_nat (8 * i) = (p + of_nat (8 * j) :: u64) \<longleftrightarrow> i = j"
proof
  assume "p + of_nat (8 * i) = (p + of_nat (8 * j) :: u64)"
  then have "unat (of_nat (8 * i) :: u64) = unat (of_nat (8 * j) :: u64)"
    by simp
  moreover have "8 * i < 2 ^ 64" "8 * j < 2 ^ 64"
    using assms by simp_all
  ultimately have "8 * i = 8 * j"
    by (metis unat_of_nat_u64)
  then show "i = j" by simp
qed simp

lemma words_bound: "unat (bytes div 8 :: u64) < 2 ^ 61"
proof -
  have "unat (bytes div 8) = unat bytes div 8"
    by (simp add: unat_div)
  with unat_u64_bound [of bytes] show ?thesis by simp
qed

lemma keeps_load:
  assumes "keeps_words E word A" and "a \<in> A" and "probe_call E (Cpu (cpu_load 8 a)) s = (r, v, s')"
  shows "v = word (drv (sys_of s)) a"
    and "\<And>b. b \<in> A \<Longrightarrow> word (drv (sys_of s')) b = word (drv (sys_of s)) b"
  using assms(1,2) [unfolded keeps_words_def] assms(3)
  by (auto simp: probe_call_def call_def split: prod.splits)

lemma keeps_store:
  assumes "keeps_words E word A" and "a \<in> A" and "b \<in> A"
  shows "word (drv (sys_of (plain_call E (Cpu (cpu_store 8 a v)) s))) b =
    (if b = a then v else word (drv (sys_of s)) b)"
proof (rule probe_call_cases [of E "Cpu (cpu_store 8 a v)" s])
  fix ret out w
  assume n: "native_fn E (Cpu (cpu_store 8 a v)) (drv (sys_of s)) = (ret, out, w)"
    and c: "probe_call E (Cpu (cpu_store 8 a v)) s = (ret, out, s\<lparr>sys_of := (sys_of s)
      \<lparr>drv := w, trace := trace (sys_of s) @ [(Cpu (cpu_store 8 a v), ret, out)]\<rparr>\<rparr>)"
  have "\<forall>w v. \<forall>a \<in> A. case native_fn E (Cpu (cpu_store 8 a v)) w of
        (_, _, w') \<Rightarrow> (\<forall>b \<in> A. word w' b = (if b = a then v else word w b))"
    using assms(1) unfolding keeps_words_def by (rule conjunct2)
  from this [rule_format, OF assms(2), of v "drv (sys_of s)"] n assms(3)
  have "word w b = (if b = a then v else word (drv (sys_of s)) b)"
    by auto
  with c show ?thesis
    by (simp add: plain_call_def)
qed

lemma fill_words:
  assumes k: "keeps_words E word (words_at p n)" and n: "n \<le> 2 ^ 61" and "i < n" and "m \<le> n"
  shows "word (drv (sys_of (fold (\<lambda>i. store_word E p i (pattern_word i seed)) [0..<m] s))) (p + of_nat (8 * i)) =
    (if i < m then pattern_word i seed else word (drv (sys_of s)) (p + of_nat (8 * i)))"
  using assms(4)
proof (induction m)
  case 0
  then show ?case by simp
next
  case (Suc m)
  let ?s = "fold (\<lambda>i. store_word E p i (pattern_word i seed)) [0..<m] s"
  have in_A: "p + of_nat (8 * j) \<in> words_at p n" if "j < n" for j
    using that by (auto simp: words_at_def)
  have eq: "(p + of_nat (8 * i) = (p + of_nat (8 * m) :: u64)) = (i = m)"
    using n assms(3) Suc.prems by (intro words_inj) simp_all
  have "word (drv (sys_of (store_word E p m v ?s))) (p + of_nat (8 * i)) =
      (if p + of_nat (8 * i) = p + of_nat (8 * m) then v
       else word (drv (sys_of ?s)) (p + of_nat (8 * i)))" for v
    unfolding store_word_def
    by (rule keeps_store [OF k in_A in_A]) (use assms(3) Suc.prems in simp_all)
  then have "word (drv (sys_of (store_word E p m (pattern_word m seed) ?s))) (p + of_nat (8 * i)) =
      (if i = m then pattern_word m seed else word (drv (sys_of ?s)) (p + of_nat (8 * i)))"
    by (simp only: eq)
  then show ?case
    using Suc.IH Suc.prems by (cases "i < m"; cases "i = m") simp_all
qed

lemma verify_words_iff:
  assumes k: "keeps_words E word A" and "\<forall>i \<in> set is. p + of_nat (8 * i) \<in> A"
    and v: "verify_words E p seed phase is s = (e, s')"
  shows "e = (if \<forall>i \<in> set is. word (drv (sys_of s)) (p + of_nat (8 * i)) = pattern_word i seed
              then None else Some phase)"
  using assms(2) v
proof (induction "is" arbitrary: s)
  case Nil
  then show ?case by simp
next
  case (Cons i js)
  obtain r x s1 where c: "probe_call E (Cpu (cpu_load 8 (p + of_nat (8 * i)))) s = (r, x, s1)"
    by (rule prod_cases3)
  have a: "p + of_nat (8 * i) \<in> A" and js: "\<forall>i \<in> set js. p + of_nat (8 * i) \<in> A"
    using Cons.prems(1) by simp_all
  note l = keeps_load [OF k a c]
  show ?case
  proof (cases "x = pattern_word i seed")
    case True
    with Cons.prems(2) c have "verify_words E p seed phase js s1 = (e, s')" by simp
    from Cons.IH [OF js this] l True js show ?thesis by auto
  next
    case False
    with Cons.prems(2) c l(1) show ?thesis by auto
  qed
qed

lemma pattern_word_seed: "pattern_word i seed = pattern_word i seed' \<longleftrightarrow> seed = seed'"
proof
  assume "pattern_word i seed = pattern_word i seed'"
  then have "(of_nat i * 0x9e3779b97f4a7c15) XOR ((of_nat i * 0x9e3779b97f4a7c15) XOR seed) =
      (of_nat i * 0x9e3779b97f4a7c15) XOR ((of_nat i * 0x9e3779b97f4a7c15 :: u64) XOR seed')"
    by (simp add: pattern_word_def)
  then show "seed = seed'"
    by (simp add: xor.assoc [symmetric])
qed simp

subsection \<open>Asynchronous transfer\<close>

definition ctx_held :: "u64 \<Rightarrow> resource multiset" where
  "ctx_held ctx = one_if (ctx \<noteq> 0) (R_aio ctx)"

definition is_aio_read :: "native \<Rightarrow> bool" where
  "is_aio_read c \<longleftrightarrow> (case c of Io (sys_io_submit _ _) \<Rightarrow> True | Io (sys_io_getevents _ _) \<Rightarrow> True
     | Io (io_event_data _) \<Rightarrow> True | Io (io_event_res _) \<Rightarrow> True | Io (io_event_res2 _) \<Rightarrow> True
     | _ \<Rightarrow> False)"

lemma is_aio_read_simps [simp]:
  "is_aio_read (Io (sys_io_submit c bs))" "is_aio_read (Io (sys_io_getevents c n))"
  "is_aio_read (Io (io_event_data i))" "is_aio_read (Io (io_event_res i))"
  "is_aio_read (Io (io_event_res2 i))"
  by (simp_all add: is_aio_read_def)

lemma aio_read_neutral: "is_aio_read c \<Longrightarrow> neutral (c, r)"
  by (cases r) (auto simp: is_aio_read_def neutral_def ledger_simps split: native.splits io_call.splits)

lemma aio_events_moves: "aio_events E chunk is seen failed s = (b, s') \<Longrightarrow> moves is_aio_read s s'"
proof (induction "is" arbitrary: seen failed s)
  case Nil
  then show ?case by simp
next
  case (Cons i js)
  obtain r1 data s1 where c1: "probe_call E (Io (io_event_data i)) s = (r1, data, s1)"
    by (rule prod_cases3)
  obtain res o2 s2 where c2: "probe_call E (Io (io_event_res i)) s1 = (res, o2, s2)"
    by (rule prod_cases3)
  obtain res2 o3 s3 where c3: "probe_call E (Io (io_event_res2 i)) s2 = (res2, o3, s3)"
    by (rule prod_cases3)
  have "moves is_aio_read s s3"
    by (rule moves_trans [OF moves_call [OF _ c1] moves_trans [OF moves_call [OF _ c2] moves_call [OF _ c3]]])
      simp_all
  moreover have "moves is_aio_read s3 s'"
    using Cons c1 c2 c3 by simp
  ultimately show ?case
    by (rule moves_trans)
qed

text \<open>
  An event that is good, as the kernel reported it, and the order in which the four good events of
  a passing operation name the requests.
\<close>

definition good_event :: "u64 \<Rightarrow> nat \<Rightarrow> u64 \<Rightarrow> event list \<Rightarrow> bool" where
  "good_event chunk i data ev \<longleftrightarrow>
     (\<exists>r o2 o3. ev = [(Io (io_event_data i), r, data), (Io (io_event_res i), sint chunk, o2),
                     (Io (io_event_res2 i), 0, o3)])"

lemma mark_seen_bit: "data < 4 \<Longrightarrow> k < 4 \<Longrightarrow> bit (mark_seen seen data) k \<longleftrightarrow> bit seen k \<or> k = unat data"
  by (auto simp: mark_seen_def bit_simps)

lemma aio_events_pass:
  assumes "aio_events E chunk is seen failed s = (False, s')"
  shows "\<not> failed \<and> (\<exists>datas evs. length datas = length is \<and> length evs = length is \<and>
    trace_of s' = trace_of s @ concat evs \<and> (\<forall>k < length is. good_event chunk (is ! k) (datas ! k) (evs ! k)) \<and>
    (\<forall>d \<in> set datas. d < 4 \<and> \<not> bit seen (unat d)) \<and> distinct datas)"
  using assms
proof (induction "is" arbitrary: seen failed s)
  case Nil
  then show ?case by simp
next
  case (Cons i js)
  obtain r1 data s1 where c1: "probe_call E (Io (io_event_data i)) s = (r1, data, s1)"
    by (rule prod_cases3)
  obtain res o2 s2 where c2: "probe_call E (Io (io_event_res i)) s1 = (res, o2, s2)"
    by (rule prod_cases3)
  obtain res2 o3 s3 where c3: "probe_call E (Io (io_event_res2 i)) s2 = (res2, o3, s3)"
    by (rule prod_cases3)
  have "aio_events E chunk js (mark_seen seen data) (failed \<or> event_bad chunk seen data res res2) s3 = (False, s')"
    using Cons.prems c1 c2 c3 by simp
  from Cons.IH [OF this] obtain datas evs where good: "\<not> failed" "\<not> event_bad chunk seen data res res2"
    and l: "length datas = length js" "length evs = length js"
    and t: "trace_of s' = trace_of s3 @ concat evs"
    and g: "\<forall>k < length js. good_event chunk (js ! k) (datas ! k) (evs ! k)"
    and d: "\<forall>d \<in> set datas. d < 4 \<and> \<not> bit (mark_seen seen data) (unat d)" and dist: "distinct datas"
    by blast
  let ?e = "[(Io (io_event_data i), r1, data), (Io (io_event_res i), res, o2), (Io (io_event_res2 i), res2, o3)]"
  have e: "good_event chunk i data ?e" and data: "data < 4" "\<not> bit seen (unat data)"
    using good(2) by (auto simp: event_bad_def good_event_def not_le)
  have small: "unat x < 4" if "x < (4 :: u64)" for x
    using that by (simp add: word_less_nat_alt)
  have bits: "\<not> bit seen (unat x) \<and> x \<noteq> data" if "x \<in> set datas" for x
  proof -
    have "x < 4" "\<not> bit (mark_seen seen data) (unat x)"
      using d that by auto
    with mark_seen_bit [OF data(1), of "unat x" seen] small [of x] show ?thesis
      by auto
  qed
  have "trace_of s3 = trace_of s @ ?e"
    using probe_call_trace [OF c1] probe_call_trace [OF c2] probe_call_trace [OF c3] by simp
  then have "trace_of s' = trace_of s @ concat (?e # evs)"
    using t by simp
  moreover have "\<forall>k < length (i # js). good_event chunk ((i # js) ! k) ((data # datas) ! k) ((?e # evs) ! k)"
    using g e by (auto simp: less_Suc_eq_0_disj)
  moreover have "\<forall>d \<in> set (data # datas). d < 4 \<and> \<not> bit seen (unat d)" "distinct (data # datas)"
    using data d bits dist by auto
  ultimately show ?case
    using l good(1) by (intro conjI exI [of _ "data # datas"] exI [of _ "?e # evs"]) simp_all
qed

lemma aio_operation_cases:
  assumes "aio_operation E ctx fd p bytes write s = (e, ctx', s')"
  obtains (submit) ret out s1 where "probe_call E (Io (sys_io_submit ctx (aio_blocks fd p (bytes div 4) write))) s = (ret, out, s1)"
      "ret \<noteq> 4" "e = Some ''io_submit''" "ctx' = 0" "s' = cleanup E (Io (sys_io_destroy ctx)) s1"
  | (events) out s1 ret out2 s2 where
      "probe_call E (Io (sys_io_submit ctx (aio_blocks fd p (bytes div 4) write))) s = (4, out, s1)"
      "probe_call E (Io (sys_io_getevents ctx 4)) s1 = (ret, out2, s2)"
      "ret \<noteq> 4" "e = Some ''io_getevents''" "ctx' = 0" "s' = cleanup E (Io (sys_io_destroy ctx)) s2"
  | (complete) out s1 out2 s2 failed where
      "probe_call E (Io (sys_io_submit ctx (aio_blocks fd p (bytes div 4) write))) s = (4, out, s1)"
      "probe_call E (Io (sys_io_getevents ctx 4)) s1 = (4, out2, s2)"
      "aio_events E (bytes div 4) [0..<4] 0 False s2 = (failed, s')"
      "e = (if failed then Some ''aio completion'' else None)" "ctx' = ctx"
proof -
  obtain ret out s1 where c1: "probe_call E (Io (sys_io_submit ctx (aio_blocks fd p (bytes div 4) write))) s = (ret, out, s1)"
    by (rule prod_cases3)
  obtain ret2 out2 s2 where c2: "probe_call E (Io (sys_io_getevents ctx 4)) s1 = (ret2, out2, s2)"
    by (rule prod_cases3)
  obtain failed s3 where c3: "aio_events E (bytes div 4) [0..<4] 0 False s2 = (failed, s3)"
    by (cases "aio_events E (bytes div 4) [0..<4] 0 False s2")
  show thesis
  proof (cases "ret = 4")
    case False
    with assms c1 show thesis
      by (intro submit [OF c1]) (auto simp: aio_operation_def Let_def)
  next
    case r: True
    show thesis
    proof (cases "ret2 = 4")
      case False
      with assms c1 c2 r show thesis
        by (intro events [OF _ c2]) (auto simp: aio_operation_def Let_def)
    next
      case True
      with assms c1 c2 c3 r show thesis
        by (intro complete) (auto simp: aio_operation_def Let_def simp del: upt_rec_numeral upt_conv_Cons)
    qed
  qed
qed

lemma aio_operation_books:
  assumes b: "in_books r0 s (held + ctx_held ctx)"
    and "aio_operation E ctx fd p bytes write s = (e, ctx', s')"
  shows "in_books r0 s' (held + ctx_held ctx')"
  using assms(2)
proof (cases rule: aio_operation_cases)
  case (submit ret out s1)
  have "in_books r0 s1 (held + ctx_held ctx)"
    by (rule in_books_moves [OF b moves_call [OF _ submit(1)] aio_read_neutral]) simp_all
  then have "in_books r0 s' (held)"
    unfolding submit(5) by (rule in_books_cleanup) (simp add: ledger_simps ctx_held_def)
  then show ?thesis
    by (simp add: submit(4) ctx_held_def)
next
  case (events out s1 ret out2 s2)
  have "in_books r0 s2 (held + ctx_held ctx)"
    by (rule in_books_moves [OF b moves_trans [OF moves_call [OF _ events(1)] moves_call [OF _ events(2)]] aio_read_neutral])
      simp_all
  then have "in_books r0 s' (held)"
    unfolding events(6) by (rule in_books_cleanup) (simp add: ledger_simps ctx_held_def)
  then show ?thesis
    by (simp add: events(5) ctx_held_def)
next
  case (complete out s1 out2 s2 failed)
  have "moves is_aio_read s s'"
    by (rule moves_trans [OF moves_call [OF _ complete(1)]
        moves_trans [OF moves_call [OF _ complete(2)] aio_events_moves [OF complete(3)]]]) simp_all
  then have "in_books r0 s' (held + ctx_held ctx)"
    by (rule in_books_moves [OF b _ aio_read_neutral])
  then show ?thesis
    by (simp add: complete(5))
qed

lemma aio_operation_more:
  assumes "aio_operation E ctx fd p bytes write s = (e, ctx', s')"
  shows "probe.more s' = probe.more s" "cleanup_failed s \<Longrightarrow> cleanup_failed s'"
    "ctx' = 0 \<or> ctx' = ctx"
proof -
  have c: "probe.more t' = probe.more t \<and> cleanup_failed t' = cleanup_failed t"
    if "probe_call E c t = (r, x, t')" for c t r x t'
    using probe_call_frame [OF that] by blast
  have "probe.more s' = probe.more s \<and> (cleanup_failed s \<longrightarrow> cleanup_failed s') \<and> (ctx' = 0 \<or> ctx' = ctx)"
    using assms
  proof (cases rule: aio_operation_cases)
    case (submit ret out s1)
    then show ?thesis
      using c [OF submit(1)] by (auto intro: cleanup_cases [of E "Io (sys_io_destroy ctx)" s1])
  next
    case (events out s1 ret out2 s2)
    then show ?thesis
      using c [OF events(1)] c [OF events(2)] by (auto intro: cleanup_cases [of E "Io (sys_io_destroy ctx)" s2])
  next
    case (complete out s1 out2 s2 failed)
    then show ?thesis
      using c [OF complete(1)] c [OF complete(2)] moves_frame [OF aio_events_moves [OF complete(3)]] by simp
  qed
  then show "probe.more s' = probe.more s" "cleanup_failed s \<Longrightarrow> cleanup_failed s'"
    "ctx' = 0 \<or> ctx' = ctx" by blast+
qed

end
