(* ===== verification/Probe_Cli_Facts.thy ===== *)
theory Probe_Cli_Facts
  imports Probe_Cli Probe_Common_Facts
begin

unbundle bit_operations_syntax

text \<open>
  The facts about words over a socket: the bytes a trace sends and receives on a descriptor, that a
  word that was received byte by byte is the word that was sent, whatever the pieces the kernel cut
  it into, and when the loops end.

  \<open>bounded_transfers\<close> is what \<open>send\<close> and \<open>recv\<close> promise: never more bytes than asked for.
\<close>

definition bounded_transfers :: "'w env \<Rightarrow> bool" where
  "bounded_transfers E \<longleftrightarrow>
     (\<forall>fd v n w. fst (native_fn E (Io (sys_send fd v n)) w) \<le> int n) \<and>
     (\<forall>fd n w. fst (native_fn E (Io (sys_recv fd n)) w) \<le> int n)"

definition byte_at :: "u64 \<Rightarrow> nat \<Rightarrow> u64" where
  "byte_at v i = take_bit 8 (drop_bit (8 * i) v)"

definition sent_bytes :: "int \<Rightarrow> event list \<Rightarrow> u64 list" where
  "sent_bytes fd ev = concat (map (\<lambda>e. case e of
     (Io (sys_send d v n), ret, out) \<Rightarrow> if d = fd \<and> 0 < ret then map (byte_at v) [0..<nat ret] else []
   | _ \<Rightarrow> []) ev)"

definition received_bytes :: "int \<Rightarrow> event list \<Rightarrow> u64 list" where
  "received_bytes fd ev = concat (map (\<lambda>e. case e of
     (Io (sys_recv d n), ret, out) \<Rightarrow> if d = fd \<and> 0 < ret then map (byte_at out) [0..<nat ret] else []
   | _ \<Rightarrow> []) ev)"

lemma socket_bytes_simps [simp]:
  "sent_bytes fd [] = []" "received_bytes fd [] = []"
  "sent_bytes fd (t @ u) = sent_bytes fd t @ sent_bytes fd u"
  "received_bytes fd (t @ u) = received_bytes fd t @ received_bytes fd u"
  by (simp_all add: sent_bytes_def received_bytes_def)

definition is_send :: "int \<Rightarrow> native \<Rightarrow> bool" where
  "is_send fd c \<longleftrightarrow> (case c of Io (sys_send d _ _) \<Rightarrow> d = fd | _ \<Rightarrow> False)"

definition is_recv :: "int \<Rightarrow> native \<Rightarrow> bool" where
  "is_recv fd c \<longleftrightarrow> (case c of Io (sys_recv d _) \<Rightarrow> d = fd | _ \<Rightarrow> False)"

lemma socket_simps [simp]: "is_send fd (Io (sys_send fd v n))" "is_recv fd (Io (sys_recv fd n))"
  by (simp_all add: is_send_def is_recv_def)

lemma socket_neutral: "is_send fd c \<or> is_recv fd c \<Longrightarrow> neutral (c, r)"
  by (cases r) (auto simp: is_send_def is_recv_def split: native.splits io_call.splits)

text \<open>Calls that do not touch the socket leave the byte counts alone.\<close>

definition off_socket :: "native \<Rightarrow> bool" where
  "off_socket c \<longleftrightarrow> (case c of Io (sys_send _ _ _) \<Rightarrow> False | Io (sys_recv _ _) \<Rightarrow> False | _ \<Rightarrow> True)"

lemma off_socket_bytes:
  assumes "list_all off_socket (map fst ev)"
  shows "sent_bytes fd ev = []" "received_bytes fd ev = []"
  using assms
  by (induction ev) (auto simp: sent_bytes_def received_bytes_def off_socket_def
      split: native.splits io_call.splits)

lemma only_sends_receive_nothing: "list_all (is_send fd) (map fst ev) \<Longrightarrow> received_bytes d ev = []"
  by (induction ev) (auto simp: received_bytes_def is_send_def split: native.splits io_call.splits)

lemma only_receives_send_nothing: "list_all (is_recv fd) (map fst ev) \<Longrightarrow> sent_bytes d ev = []"
  by (induction ev) (auto simp: sent_bytes_def is_recv_def split: native.splits io_call.splits)

subsection \<open>Bytes of a word\<close>

lemma byte_drop: "byte_at (drop_bit (8 * k) v) i = byte_at v (k + i)"
  by (simp add: byte_at_def drop_bit_drop_bit algebra_simps)

lemma map_byte_drop: "map (byte_at (drop_bit (8 * k) v)) [0..<n] = map (byte_at v) [k..<k + n]"
  by (rule nth_equalityI) (simp_all add: byte_drop)

lemma bit_of_byte: "bit (v :: u64) j = bit (byte_at v (j div 8)) (j mod 8)"
proof -
  have "8 * (j div 8) + j mod 8 = j" by simp
  then show ?thesis
    by (simp add: byte_at_def bit_simps)
qed

lemma word_eq_bytes:
  assumes "\<forall>i < 8. byte_at v i = byte_at w i"
  shows "v = w"
proof (rule bit_eqI)
  fix j
  assume "possible_bit TYPE(u64) j"
  then have "j div 8 < 8" by simp
  with assms show "bit v j \<longleftrightarrow> bit w j"
    by (simp add: bit_of_byte [of v] bit_of_byte [of w])
qed

lemma byte_or_push:
  assumes "take_bit (8 * r) v = v" and "r + n \<le> 8"
  shows "byte_at (v OR push_bit (8 * r) (take_bit (8 * n) x)) i =
    (if i < r then byte_at v i else if i < r + n then byte_at x (i - r) else 0)"
proof (rule bit_eqI)
  fix j
  assume "possible_bit TYPE(u64) j"
  have v: "bit v k \<Longrightarrow> k < 8 * r" for k
    using assms(1) by (metis bit_take_bit_iff)
  show "bit (byte_at (v OR push_bit (8 * r) (take_bit (8 * n) x)) i) j \<longleftrightarrow>
      bit (if i < r then byte_at v i else if i < r + n then byte_at x (i - r) else 0) j"
  proof (cases "j < 8")
    case False
    then show ?thesis by (auto simp: byte_at_def bit_simps)
  next
    case True
    consider "i < r" | "r \<le> i" "i < r + n" | "r + n \<le> i" by linarith
    then show ?thesis
    proof cases
      case 1
      with True have "\<not> 8 * r \<le> 8 * i + j" by linarith
      with 1 True show ?thesis
        by (auto simp: byte_at_def bit_simps)
    next
      case 2
      with True have a: "8 * r \<le> 8 * i + j" "8 * i + j - 8 * r = 8 * (i - r) + j" "8 * (i - r) + j < 8 * n"
        by linarith+
      have nv: "\<not> bit v (8 * i + j)"
        using a v [of "8 * i + j"] by auto
      show ?thesis
        using 2 True a nv assms(2) by (auto simp: byte_at_def bit_simps)
    next
      case 3
      with True have a: "8 * r \<le> 8 * i + j" "\<not> 8 * i + j - 8 * r < 8 * n"
        by linarith+
      then have "\<not> bit v (8 * i + j)"
        using v [of "8 * i + j"] by auto
      with 3 True a show ?thesis
        by (auto simp: byte_at_def bit_simps)
    qed
  qed
qed

subsection \<open>The loops\<close>

lemma socket_event:
  "sent_bytes fd [(Io (sys_send fd v n), ret, out)] = (if 0 < ret then map (byte_at v) [0..<nat ret] else [])"
  "received_bytes fd [(Io (sys_recv fd n), ret, out)] = (if 0 < ret then map (byte_at out) [0..<nat ret] else [])"
  by (simp_all add: sent_bytes_def received_bytes_def)

definition sends_rest :: "int \<Rightarrow> u64 \<Rightarrow> nat \<Rightarrow> ('w, 'z) probe_scheme \<Rightarrow> string option \<Rightarrow> ('w, 'z) probe_scheme \<Rightarrow> bool" where
  "sends_rest fd v sent s e s' \<longleftrightarrow> s' = s\<lparr>sys_of := sys_of s'\<rparr> \<and>
     (\<exists>ev. trace_of s' = trace_of s @ ev \<and> list_all (is_send fd) (map fst ev) \<and>
       (e = None \<longrightarrow> sent_bytes fd ev = map (byte_at v) [sent..<8]) \<and>
       (e \<noteq> None \<longrightarrow> length (sent_bytes fd ev) < 8 - sent))"

lemma sends_rest_step:
  assumes c: "probe_call E (Io (sys_send fd (drop_bit (8 * sent) v) (8 - sent))) s = (n, out, s1)"
    and m: "m = (if 0 < n then nat n else 0)" and "sent + m \<le> 8" and r: "sends_rest fd v (sent + m) s1 e s'"
  shows "sends_rest fd v sent s e s'"
proof -
  let ?x = "(Io (sys_send fd (drop_bit (8 * sent) v) (8 - sent)), n, out)"
  obtain ev where s': "s' = s1\<lparr>sys_of := sys_of s'\<rparr>"
    and ev: "trace_of s' = trace_of s1 @ ev" "list_all (is_send fd) (map fst ev)"
      "e = None \<longrightarrow> sent_bytes fd ev = map (byte_at v) [sent + m..<8]"
      "e \<noteq> None \<longrightarrow> length (sent_bytes fd ev) < 8 - (sent + m)"
    using r by (auto simp: sends_rest_def)
  have s1: "s1 = s\<lparr>sys_of := sys_of s1\<rparr>"
    using moves_same [OF moves_call [of "\<lambda>_. True", OF _ c]] by simp
  have "s' = s\<lparr>sys_of := sys_of s'\<rparr>"
    by (subst s', subst s1) simp
  moreover have x: "sent_bytes fd [?x] = map (byte_at v) [sent..<sent + m]"
    using m by (simp add: socket_event map_byte_drop)
  then have "sent_bytes fd ([?x] @ ev) = map (byte_at v) [sent..<sent + m] @ sent_bytes fd ev"
    by (simp only: socket_bytes_simps)
  moreover have "[sent..<sent + m] @ [sent + m..<8] = [sent..<8]"
    using assms(3) by (metis le_add1 le_add_diff_inverse upt_add_eq_append)
  ultimately show ?thesis
    unfolding sends_rest_def using ev probe_call_trace [OF c]
    by (intro conjI exI [of _ "[?x] @ ev"]) (auto simp flip: map_append)
qed

lemma send_from_spec:
  assumes "send_from E fd v sent s = Some x"
  shows "bounded_transfers E \<longrightarrow> sent \<le> 8 \<longrightarrow> sends_rest fd v sent s (fst x) (snd x)"
proof (rule send_from.raw_induct [OF _ assms])
  fix loop :: "'a env \<Rightarrow> int \<Rightarrow> u64 \<Rightarrow> nat \<Rightarrow> ('a, 'b) probe_scheme \<Rightarrow> (string option \<times> ('a, 'b) probe_scheme) option"
    and E fd v sent s x
  assume IH: "\<And>E fd v sent s x. loop E fd v sent s = Some x \<Longrightarrow>
      bounded_transfers E \<longrightarrow> sent \<le> 8 \<longrightarrow> sends_rest fd v sent s (fst x) (snd x)"
    and body: "(if sent < 8 then case probe_call E (Io (sys_send fd (drop_bit (8 * sent) v) (8 - sent))) s of
        (n, _, s1) \<Rightarrow> if n = - EINTR then loop E fd v sent s1
          else if n \<le> 0 then Some (Some ''IPC send / peer closed'', s1)
          else loop E fd v (sent + nat n) s1
      else Some (None, s)) = Some x"
  show "bounded_transfers E \<longrightarrow> sent \<le> 8 \<longrightarrow> sends_rest fd v sent s (fst x) (snd x)"
  proof (intro impI)
    assume law: "bounded_transfers E" and "sent \<le> 8"
    show "sends_rest fd v sent s (fst x) (snd x)"
    proof (cases "sent < 8")
      case False
      with body \<open>sent \<le> 8\<close> show ?thesis
        by (auto simp: sends_rest_def)
    next
      case True
      obtain n out s1 where c: "probe_call E (Io (sys_send fd (drop_bit (8 * sent) v) (8 - sent))) s = (n, out, s1)"
        by (rule prod_cases3)
      have n8: "n \<le> int (8 - sent)"
        using law c unfolding bounded_transfers_def
        by (metis (no_types, lifting) fst_conv probe_call_cases)
      consider "n = - EINTR" | "n \<noteq> - EINTR" "n \<le> 0" | "n \<noteq> - EINTR" "0 < n" by linarith
      then show ?thesis
      proof cases
        case 1
        with body True c have "loop E fd v sent s1 = Some x" by simp
        with IH law \<open>sent \<le> 8\<close> have "sends_rest fd v sent s1 (fst x) (snd x)" by blast
        with 1 show ?thesis
          by (intro sends_rest_step [OF c, of 0]) (simp_all add: EINTR_def \<open>sent \<le> 8\<close>)
      next
        case 2
        with body True c have "x = (Some ''IPC send / peer closed'', s1)" by simp
        with 2 True show ?thesis
          by (intro sends_rest_step [OF c, of 0]) (simp_all add: sends_rest_def)
      next
        case 3
        with body True c have "loop E fd v (sent + nat n) s1 = Some x" by simp
        moreover have "sent + nat n \<le> 8"
          using n8 3 True by linarith
        ultimately have "sends_rest fd v (sent + nat n) s1 (fst x) (snd x)"
          using IH law by blast
        with 3 \<open>sent + nat n \<le> 8\<close> show ?thesis
          by (intro sends_rest_step [OF c, of "nat n"]) simp_all
      qed
    qed
  qed
qed

lemma send_word_spec:
  assumes "bounded_transfers E" and "send_word E fd v s = Some (e, s')"
  shows "sends_rest fd v 0 s e s'"
  using send_from_spec [of E fd v 0 s "(e, s')"] assms by (simp add: send_word_def)

definition receives_rest ::
  "int \<Rightarrow> u64 \<Rightarrow> nat \<Rightarrow> ('w, 'z) probe_scheme \<Rightarrow> string + u64 \<Rightarrow> ('w, 'z) probe_scheme \<Rightarrow> bool" where
  "receives_rest fd v received s r s' \<longleftrightarrow> s' = s\<lparr>sys_of := sys_of s'\<rparr> \<and>
     (\<exists>ev. trace_of s' = trace_of s @ ev \<and> list_all (is_recv fd) (map fst ev) \<and>
       (\<forall>w. r = Inr w \<longrightarrow> received_bytes fd ev = map (byte_at w) [received..<8] \<and>
            (\<forall>i < received. byte_at w i = byte_at v i)) \<and>
       (\<forall>x. r = Inl x \<longrightarrow> length (received_bytes fd ev) < 8 - received))"

lemma receives_rest_step:
  assumes c: "probe_call E (Io (sys_recv fd (8 - received))) s = (n, bytes, s1)"
    and m: "m = (if 0 < n then nat n else 0)" and le: "received + m \<le> 8"
    and v: "take_bit (8 * received) v = v"
    and r: "receives_rest fd (v OR push_bit (8 * received) (take_bit (8 * m) bytes)) (received + m) s1 r s'"
  shows "receives_rest fd v received s r s'"
proof -
  let ?x = "(Io (sys_recv fd (8 - received)), n, bytes)"
  let ?v = "v OR push_bit (8 * received) (take_bit (8 * m) bytes)"
  note byte = byte_or_push [OF v le, of bytes]
  obtain ev where s': "s' = s1\<lparr>sys_of := sys_of s'\<rparr>"
    and ev: "trace_of s' = trace_of s1 @ ev" "list_all (is_recv fd) (map fst ev)"
      "\<And>w. r = Inr w \<Longrightarrow> received_bytes fd ev = map (byte_at w) [received + m..<8]"
      "\<And>w i. r = Inr w \<Longrightarrow> i < received + m \<Longrightarrow> byte_at w i = byte_at ?v i"
      "\<And>x. r = Inl x \<Longrightarrow> length (received_bytes fd ev) < 8 - (received + m)"
    using r by (auto simp: receives_rest_def)
  have s1: "s1 = s\<lparr>sys_of := sys_of s1\<rparr>"
    using moves_same [OF moves_call [of "\<lambda>_. True", OF _ c]] by simp
  have same: "s' = s\<lparr>sys_of := sys_of s'\<rparr>"
    by (subst s', subst s1) simp
  have x: "received_bytes fd [?x] = map (byte_at bytes) [0..<m]"
    using m by (simp add: socket_event)
  have split: "[received..<received + m] @ [received + m..<8] = [received..<8]"
    using le by (metis le_add1 le_add_diff_inverse upt_add_eq_append)
  have "received_bytes fd ([?x] @ ev) = map (byte_at w) [received..<8] \<and> (\<forall>i < received. byte_at w i = byte_at v i)"
    if "r = Inr w" for w
  proof
    have "map (byte_at bytes) [0..<m] = map (byte_at w) [received..<received + m]"
      by (rule nth_equalityI) (use ev(4) [OF that] byte in auto)
    then show "received_bytes fd ([?x] @ ev) = map (byte_at w) [received..<8]"
      by (simp only: socket_bytes_simps x ev(3) [OF that] split [symmetric] map_append)
    show "\<forall>i < received. byte_at w i = byte_at v i"
      using ev(4) [OF that] byte by simp
  qed
  moreover have "length (received_bytes fd ([?x] @ ev)) < 8 - received" if "r = Inl y" for y
    using ev(5) [OF that] x by (simp only: socket_bytes_simps) simp
  ultimately show ?thesis
    unfolding receives_rest_def using same ev(1,2) probe_call_trace [OF c]
    by (intro conjI exI [of _ "[?x] @ ev"]) auto
qed

lemma take_bit_or_push:
  assumes "take_bit (8 * r) v = (v :: u64)"
  shows "take_bit (8 * (r + n)) (v OR push_bit (8 * r) (take_bit (8 * n) x)) =
    v OR push_bit (8 * r) (take_bit (8 * n) x)"
proof (rule bit_eqI)
  fix j
  assume "possible_bit TYPE(u64) j"
  have "bit v k \<Longrightarrow> k < 8 * r" for k
    using assms by (metis bit_take_bit_iff)
  then show "bit (take_bit (8 * (r + n)) (v OR push_bit (8 * r) (take_bit (8 * n) x))) j \<longleftrightarrow>
      bit (v OR push_bit (8 * r) (take_bit (8 * n) x)) j"
    by (auto simp: bit_simps) (metis add.commute add_less_cancel_right distrib_left le_add_diff_inverse trans_less_add2 | fastforce)+
qed

lemma receive_from_spec:
  assumes "receive_from E fd v received s = Some x"
  shows "bounded_transfers E \<longrightarrow> received \<le> 8 \<longrightarrow> take_bit (8 * received) v = v \<longrightarrow>
    receives_rest fd v received s (fst x) (snd x)"
proof (rule receive_from.raw_induct [OF _ assms])
  fix loop :: "'a env \<Rightarrow> int \<Rightarrow> u64 \<Rightarrow> nat \<Rightarrow> ('a, 'b) probe_scheme \<Rightarrow> ((string + u64) \<times> ('a, 'b) probe_scheme) option"
    and E fd v received s x
  assume IH: "\<And>E fd v received s x. loop E fd v received s = Some x \<Longrightarrow>
      bounded_transfers E \<longrightarrow> received \<le> 8 \<longrightarrow> take_bit (8 * received) v = v \<longrightarrow>
      receives_rest fd v received s (fst x) (snd x)"
    and body: "(if received < 8 then case probe_call E (Io (sys_recv fd (8 - received))) s of
        (n, bytes, s1) \<Rightarrow> if n = - EINTR then loop E fd v received s1
          else if n \<le> 0 then Some (Inl ''IPC receive / peer closed or timed out'', s1)
          else loop E fd (v OR push_bit (8 * received) (take_bit (8 * nat n) bytes)) (received + nat n) s1
      else Some (Inr v, s)) = Some x"
  show "bounded_transfers E \<longrightarrow> received \<le> 8 \<longrightarrow> take_bit (8 * received) v = v \<longrightarrow>
    receives_rest fd v received s (fst x) (snd x)"
  proof (intro impI)
    assume law: "bounded_transfers E" and "received \<le> 8" and v: "take_bit (8 * received) v = v"
    show "receives_rest fd v received s (fst x) (snd x)"
    proof (cases "received < 8")
      case False
      with body \<open>received \<le> 8\<close> show ?thesis
        by (auto simp: receives_rest_def)
    next
      case True
      obtain n bytes s1 where c: "probe_call E (Io (sys_recv fd (8 - received))) s = (n, bytes, s1)"
        by (rule prod_cases3)
      have n8: "n \<le> int (8 - received)"
        using law c unfolding bounded_transfers_def
        by (metis (no_types, lifting) fst_conv probe_call_cases)
      consider "n = - EINTR" | "n \<noteq> - EINTR" "n \<le> 0" | "n \<noteq> - EINTR" "0 < n" by linarith
      then show ?thesis
      proof cases
        case 1
        with body True c have "loop E fd v received s1 = Some x" by simp
        with IH law \<open>received \<le> 8\<close> v have "receives_rest fd v received s1 (fst x) (snd x)" by blast
        with 1 show ?thesis
          by (intro receives_rest_step [OF c, of 0]) (simp_all add: EINTR_def \<open>received \<le> 8\<close> v)
      next
        case 2
        with body True c have "x = (Inl ''IPC receive / peer closed or timed out'', s1)" by simp
        with 2 True show ?thesis
          by (intro receives_rest_step [OF c, of 0]) (simp_all add: receives_rest_def v)
      next
        case 3
        let ?v = "v OR push_bit (8 * received) (take_bit (8 * nat n) bytes)"
        have "loop E fd ?v (received + nat n) s1 = Some x"
          using body True c 3 by simp
        moreover have le: "received + nat n \<le> 8"
          using n8 3 True by linarith
        ultimately have "receives_rest fd ?v (received + nat n) s1 (fst x) (snd x)"
          using IH law take_bit_or_push [OF v] by blast
        with 3 le show ?thesis
          by (intro receives_rest_step [OF c, of "nat n"]) (simp_all add: v)
      qed
    qed
  qed
qed

lemma receive_word_spec:
  assumes "bounded_transfers E" and "receive_word E fd s = Some (r, s')"
  shows "receives_rest fd 0 0 s r s'"
  using receive_from_spec [of E fd 0 0 s "(r, s')"] assms by (simp add: receive_word_def)

end
