(* ===== verification/Probe_Steps.thy ===== *)
theory Probe_Steps
  imports Probe_Cli_Facts
begin

text \<open>
  The statements by which the programs obtain and return the memory of an \<open>Allocation\<close>, and a
  Hoare logic with exceptions for their bodies.

  \<open>triple P f Q X\<close>: from a state with \<open>P\<close>, \<open>f\<close> ends in a state with \<open>Q\<close>, or throws in a state
  with \<open>X\<close>. The locale \<open>alloc_slot\<close> is what the statements need of the variable that holds the
  allocation; it is interpreted on the variables of each program.
\<close>

subsection \<open>Statements on an allocation\<close>

definition mem_prop :: "mem_side \<Rightarrow> u32 \<Rightarrow> mem_pg_type \<Rightarrow> mem_kind \<Rightarrow> drv_mem_prop" where
  "mem_prop sd dev pages kind =
     \<lparr>side = sd, devid = dev, module_id = 0, pg_type = pages, mem_type = kind, reserve = 0\<rparr>"

type_synonym ('w, 'z) alloc_get = "('w, 'z) probe_scheme \<Rightarrow> allocation"
type_synonym ('w, 'z) alloc_upd =
  "(allocation \<Rightarrow> allocation) \<Rightarrow> ('w, 'z) probe_scheme \<Rightarrow> ('w, 'z) probe_scheme"

definition reserve_step ::
  "'w env \<Rightarrow> string \<Rightarrow> ('w, 'z) alloc_get \<Rightarrow> ('w, 'z) alloc_upd \<Rightarrow> u64 \<Rightarrow> ('w, 'z) probe_scheme prog_step" where
  "reserve_step E what get upd bytes =
     check_step E what (\<lambda>s. halMemAddressReserve (alloc_va (get s)) bytes 0 nullptr 0)
       (\<lambda>out. upd (\<lambda>m. m\<lparr>alloc_va := out\<rparr>)) id"

definition create_step ::
  "'w env \<Rightarrow> string \<Rightarrow> ('w, 'z) alloc_get \<Rightarrow> ('w, 'z) alloc_upd \<Rightarrow> u64 \<Rightarrow> drv_mem_prop \<Rightarrow>
   ('w, 'z) probe_scheme prog_step" where
  "create_step E what get upd bytes prop =
     check_step E what (\<lambda>s. halMemCreate (alloc_handle (get s)) bytes prop 0)
       (\<lambda>out. upd (\<lambda>m. m\<lparr>alloc_handle := out\<rparr>)) id"

definition import_step ::
  "'w env \<Rightarrow> string \<Rightarrow> ('w, 'z) alloc_get \<Rightarrow> ('w, 'z) alloc_upd \<Rightarrow> (('w, 'z) probe_scheme \<Rightarrow> u64) \<Rightarrow>
   (('w, 'z) probe_scheme \<Rightarrow> u32) \<Rightarrow> ('w, 'z) probe_scheme prog_step" where
  "import_step E what get upd tok dev =
     check_step E what (\<lambda>s. halMemImportFromShareableHandle (tok s) (alloc_handle (get s)) (dev s))
       (\<lambda>out. upd (\<lambda>m. m\<lparr>alloc_handle := out\<rparr>)) id"

definition map_step ::
  "'w env \<Rightarrow> string \<Rightarrow> ('w, 'z) alloc_get \<Rightarrow> ('w, 'z) alloc_upd \<Rightarrow> u64 \<Rightarrow> ('w, 'z) probe_scheme prog_step" where
  "map_step E what get upd bytes =
     check_step E what (\<lambda>s. halMemMap (alloc_va (get s)) bytes 0 (alloc_handle (get s)) 0)
       no_out (upd (\<lambda>m. m\<lparr>alloc_mapped := True\<rparr>))"

definition unmap_step ::
  "'w env \<Rightarrow> string \<Rightarrow> ('w, 'z) alloc_get \<Rightarrow> ('w, 'z) alloc_upd \<Rightarrow> ('w, 'z) probe_scheme prog_step" where
  "unmap_step E what get upd =
     check_step E what (\<lambda>s. halMemUnmap (alloc_va (get s))) no_out (upd (\<lambda>m. m\<lparr>alloc_mapped := False\<rparr>))"

definition release_step ::
  "'w env \<Rightarrow> string \<Rightarrow> ('w, 'z) alloc_get \<Rightarrow> ('w, 'z) alloc_upd \<Rightarrow> ('w, 'z) probe_scheme prog_step" where
  "release_step E what get upd =
     check_step E what (\<lambda>s. halMemRelease (alloc_handle (get s))) no_out (upd (\<lambda>m. m\<lparr>alloc_handle := nullptr\<rparr>))"

definition free_step ::
  "'w env \<Rightarrow> string \<Rightarrow> ('w, 'z) alloc_get \<Rightarrow> ('w, 'z) alloc_upd \<Rightarrow> ('w, 'z) probe_scheme prog_step" where
  "free_step E what get upd =
     check_step E what (\<lambda>s. halMemAddressFree (alloc_va (get s))) no_out (upd (\<lambda>m. m\<lparr>alloc_va := nullptr\<rparr>))"

lemmas alloc_steps = reserve_step_def create_step_def import_step_def map_step_def unmap_step_def
  release_step_def free_step_def

subsection \<open>Triples\<close>

named_theorems triples

definition triple :: "('s \<Rightarrow> bool) \<Rightarrow> 's prog_step \<Rightarrow> ('s \<Rightarrow> bool) \<Rightarrow> ('s \<Rightarrow> bool) \<Rightarrow> bool" where
  "triple P f Q X \<longleftrightarrow>
     (\<forall>s e s'. P s \<longrightarrow> f s = Some (e, s') \<longrightarrow> (if e = None then Q s' else X s'))"

lemma tripleI:
  "(\<And>s e s'. P s \<Longrightarrow> f s = Some (e, s') \<Longrightarrow> if e = None then Q s' else X s') \<Longrightarrow> triple P f Q X"
  by (simp add: triple_def)

lemma tripleD:
  "triple P f Q X \<Longrightarrow> P s \<Longrightarrow> f s = Some (e, s') \<Longrightarrow> if e = None then Q s' else X s'"
  by (auto simp: triple_def)

lemma triple_Nil: "triple P (run_steps []) P X"
  by (simp add: triple_def)

lemma triple_Cons:
  assumes "triple P f R X" and "triple R (run_steps fs) Q X"
  shows "triple P (run_steps (f # fs)) Q X"
proof (rule tripleI)
  fix s e s'
  assume P: "P s" and run: "run_steps (f # fs) s = Some (e, s')"
  then obtain e1 s1 where f: "f s = Some (e1, s1)"
    by (cases "f s") auto
  note r = tripleD [OF assms(1) P f]
  show "if e = None then Q s' else X s'"
  proof (cases e1)
    case None
    with run f have "run_steps fs s1 = Some (e, s')" by simp
    with r None tripleD [OF assms(2)] show ?thesis by simp
  next
    case (Some x)
    with run f r show ?thesis by auto
  qed
qed

lemma triple_append:
  assumes "triple P (run_steps fs) R X" and "triple R (run_steps gs) Q X"
  shows "triple P (run_steps (fs @ gs)) Q X"
proof (rule tripleI)
  fix s e s'
  assume P: "P s" and run: "run_steps (fs @ gs) s = Some (e, s')"
  then obtain e1 s1 where f: "run_steps fs s = Some (e1, s1)"
    by (cases "run_steps fs s") (auto simp: run_steps_append)
  note r = tripleD [OF assms(1) P f]
  show "if e = None then Q s' else X s'"
  proof (cases e1)
    case None
    with run f have "run_steps gs s1 = Some (e, s')" by (simp add: run_steps_append)
    with r None tripleD [OF assms(2)] show ?thesis by simp
  next
    case (Some x)
    with run f r show ?thesis by (auto simp: run_steps_append)
  qed
qed

lemma triple_weaken:
  "triple P f Q X \<Longrightarrow> (\<And>s. P' s \<Longrightarrow> P s) \<Longrightarrow> (\<And>s. Q s \<Longrightarrow> Q' s) \<Longrightarrow> (\<And>s. X s \<Longrightarrow> X' s) \<Longrightarrow>
   triple P' f Q' X'"
  unfolding triple_def by (metis (full_types))

lemma triple_when:
  assumes "b \<Longrightarrow> triple P (run_steps fs) Q X" and "\<And>s. \<not> b \<Longrightarrow> P s \<Longrightarrow> Q s"
  shows "triple P (when_step b fs) Q X"
  using assms by (cases b) (auto simp: triple_def when_step_def)

lemma triple_assign: "(\<And>s. P s \<Longrightarrow> Q (f s)) \<Longrightarrow> triple P (assign f) Q X"
  by (simp add: triple_def assign_def)

lemma triple_throw_unless: "(\<And>s. P s \<Longrightarrow> X s) \<Longrightarrow> triple P (throw_unless ok what) P X"
  by (auto simp: triple_def throw_unless_def)

lemma triple_check:
  assumes "\<And>s ret out t. P s \<Longrightarrow> trace t = trace_of s @ [(c s, ret, out)] \<Longrightarrow>
      if ret = 0 then Q (ok (wr out (s\<lparr>sys_of := t\<rparr>))) else X (wr out (s\<lparr>sys_of := t\<rparr>))"
  shows "triple P (check_step E what c wr ok) Q X"
proof (rule tripleI)
  fix s e s'
  assume P: "P s" and f: "check_step E what c wr ok s = Some (e, s')"
  obtain ret out u where c: "probe_call E (c s) s = (ret, out, u)"
    by (rule prod_cases3)
  have "trace (sys_of u) = trace_of s @ [(c s, ret, out)]"
    using probe_call_trace [OF c] by (simp add: trace_of_def)
  note r = assms [OF P this, folded moves_same [OF moves_call [of "\<lambda>_. True", OF _ c], simplified]]
  from r f c show "if e = None then Q s' else X s'"
    by (auto simp: check_step_def split: if_splits)
qed

subsection \<open>The variable that holds an allocation\<close>

text \<open>\<open>rest\<close> is what the other variables hold.\<close>

definition slot_books ::
  "('w, 'z) alloc_get \<Rightarrow> (('w, 'z) probe_scheme \<Rightarrow> resource multiset) \<Rightarrow> resource multiset \<Rightarrow>
   ('w, 'z) probe_scheme \<Rightarrow> bool" where
  "slot_books get rest r0 s \<longleftrightarrow> in_books r0 s (rest s + alloc_held (get s))"

locale alloc_slot =
  fixes get :: "('w, 'z) probe_scheme \<Rightarrow> allocation"
    and upd :: "(allocation \<Rightarrow> allocation) \<Rightarrow> ('w, 'z) probe_scheme \<Rightarrow> ('w, 'z) probe_scheme"
    and rest :: "('w, 'z) probe_scheme \<Rightarrow> resource multiset"
  assumes get_upd: "get (upd f s) = f (get s)"
    and upd_frame: "sys_of (upd f s) = sys_of s" "cleanup_failed (upd f s) = cleanup_failed s"
    and rest_upd: "rest (upd f s) = rest s"
    and get_sys: "get (s\<lparr>sys_of := t\<rparr>) = get s"
    and rest_sys: "rest (s\<lparr>sys_of := t\<rparr>) = rest s"
begin

lemma books_upd:
  assumes "slot_books get rest r0 s" and t: "trace t = trace_of s @ [e]"
    and "alloc_held (get s) + gets e = gives e + alloc_held (f (get s))"
  shows "slot_books get rest r0 (upd f (s\<lparr>sys_of := t\<rparr>))"
proof -
  have "trace_of (upd f (s\<lparr>sys_of := t\<rparr>)) = trace_of s @ [e]"
    using t by (simp add: trace_of_def upd_frame)
  moreover have "rest s + alloc_held (get s) + gets e = gives e + (rest s + alloc_held (f (get s)))"
    using assms(3) by (metis add.assoc add.commute)
  ultimately show ?thesis
    unfolding slot_books_def get_upd rest_upd get_sys rest_sys
    by (intro in_books_event [OF assms(1) [unfolded slot_books_def]]) (simp_all add: upd_frame)
qed

lemma books_same:
  assumes "slot_books get rest r0 s" and t: "trace t = trace_of s @ [e]"
    and "gets e = {#}" "gives e = {#}"
  shows "slot_books get rest r0 (s\<lparr>sys_of := t\<rparr>)"
  unfolding slot_books_def get_sys rest_sys
proof (rule in_books_event [OF assms(1) [unfolded slot_books_def]])
  show "trace_of (s\<lparr>sys_of := t\<rparr>) = trace_of s @ [e]"
    by (simp add: t)
  show "rest s + alloc_held (get s) + gets e = gives e + (rest s + alloc_held (get s))"
    by (simp only: assms(3,4) add_0_left add_0_right)
qed simp

lemma reserve_books:
  "triple (\<lambda>s. slot_books get rest r0 s \<and> alloc_va (get s) = nullptr \<and> \<not> alloc_mapped (get s))
     (reserve_step E what get upd bytes) (slot_books get rest r0) (slot_books get rest r0)"
  unfolding reserve_step_def
  by (rule triple_check) (auto intro!: books_upd simp: alloc_held_def)

lemma create_books:
  "triple (\<lambda>s. slot_books get rest r0 s \<and> alloc_handle (get s) = nullptr)
     (create_step E what get upd bytes prop) (slot_books get rest r0) (slot_books get rest r0)"
  unfolding create_step_def
  by (rule triple_check) (auto intro!: books_upd simp: alloc_held_def)

lemma import_books:
  "triple (\<lambda>s. slot_books get rest r0 s \<and> alloc_handle (get s) = nullptr)
     (import_step E what get upd tok dev) (slot_books get rest r0) (slot_books get rest r0)"
  unfolding import_step_def
  by (rule triple_check) (auto intro!: books_upd simp: alloc_held_def)

lemma map_books:
  "triple (\<lambda>s. slot_books get rest r0 s \<and> \<not> alloc_mapped (get s))
     (map_step E what get upd bytes) (slot_books get rest r0) (slot_books get rest r0)"
  unfolding map_step_def
  by (rule triple_check) (auto intro!: books_upd intro: books_same simp: alloc_held_def)

lemma unmap_books:
  "triple (\<lambda>s. slot_books get rest r0 s \<and> alloc_mapped (get s))
     (unmap_step E what get upd) (slot_books get rest r0) (slot_books get rest r0)"
  unfolding unmap_step_def
  by (rule triple_check) (auto intro!: books_upd intro: books_same simp: alloc_held_def)

lemma release_books:
  "triple (\<lambda>s. slot_books get rest r0 s)
     (release_step E what get upd) (slot_books get rest r0) (slot_books get rest r0)"
  unfolding release_step_def
  by (rule triple_check) (auto intro!: books_upd intro: books_same simp: alloc_held_def)

lemma free_books:
  "triple (\<lambda>s. slot_books get rest r0 s \<and> \<not> alloc_mapped (get s))
     (free_step E what get upd) (slot_books get rest r0) (slot_books get rest r0)"
  unfolding free_step_def
  by (rule triple_check) (auto intro!: books_upd intro: books_same simp: alloc_held_def)

end

end
