(* ===== verification/Host_Uva.thy ===== *)
theory Host_Uva
  imports Probe_Steps
begin

text \<open>
  src/host_uva_share.cpp: a writer process allocates host memory, fills it with test data and prints
  its handle; a reader process, started by hand with that handle, imports the memory and verifies
  the data through a copy.

  The test data is an array of 32-bit words: a magic number, the low byte of each index, and the sum
  of all words before the last. \<open>CHECK\<close> returns the failing code from the function, \<open>CHECK_GOTO\<close> jumps
  to a label of the clean-up; both are written out as the branches they are. The clean-up calls of
  this program are not looked at. Log output has no model.
\<close>

definition kShmSize :: u64 where
  "kShmSize = 2 ^ 31"

definition kMagic :: u32 where
  "kMagic = 0x48464D53"

definition word_count :: "u64 \<Rightarrow> u64" where
  "word_count sz = sz div 4"

definition load_word :: "'w env \<Rightarrow> u64 \<Rightarrow> nat \<Rightarrow> ('w, 'z) probe_scheme \<Rightarrow> u32 \<times> ('w, 'z) probe_scheme" where
  "load_word E va i s =
     (case probe_call E (Cpu (cpu_load 4 (va + of_nat (4 * i)))) s of (_, v, s1) \<Rightarrow> (ucast v, s1))"

definition put_word :: "'w env \<Rightarrow> u64 \<Rightarrow> nat \<Rightarrow> u32 \<Rightarrow> ('w, 'z) probe_scheme \<Rightarrow> ('w, 'z) probe_scheme" where
  "put_word E va i v s = plain_call E (Cpu (cpu_store 4 (va + of_nat (4 * i)) (ucast v))) s"

fun sum_words :: "'w env \<Rightarrow> u64 \<Rightarrow> nat list \<Rightarrow> u32 \<Rightarrow> ('w, 'z) probe_scheme \<Rightarrow> u32 \<times> ('w, 'z) probe_scheme" where
  "sum_words E va [] checksum s = (checksum, s)"
| "sum_words E va (i # is) checksum s =
     (case load_word E va i s of (v, s1) \<Rightarrow> sum_words E va is (checksum + v) s1)"

definition WriteTestData :: "'w env \<Rightarrow> u64 \<Rightarrow> u64 \<Rightarrow> ('w, 'z) probe_scheme \<Rightarrow> ('w, 'z) probe_scheme" where
  "WriteTestData E va sz s =
     (let last = unat (word_count sz - 1);
          s1 = put_word E va 0 kMagic s;
          s2 = fold (\<lambda>i. put_word E va i (of_nat i AND 0xFF)) [1..<last] s1;
          (checksum, s3) = sum_words E va [0..<last] 0 s2
      in put_word E va last checksum s3)"

definition VerifyTestData :: "'w env \<Rightarrow> u64 \<Rightarrow> u64 \<Rightarrow> ('w, 'z) probe_scheme \<Rightarrow> bool \<times> ('w, 'z) probe_scheme" where
  "VerifyTestData E va sz s =
     (let last = unat (word_count sz - 1); (magic, s1) = load_word E va 0 s
      in if magic \<noteq> kMagic then (False, s1)
         else let (checksum, s2) = sum_words E va [0..<last] 0 s1; (v, s3) = load_word E va last s2
              in (v = checksum, s3))"

subsection \<open>Set-up and clean-up\<close>

definition int32_of :: "int \<Rightarrow> int" where
  "int32_of ret = sint (word_of_int ret :: u32)"

text \<open>The start of both programs: a failing \<open>CHECK\<close> returns its code.\<close>

definition uva_start ::
  "'w env \<Rightarrow> int \<Rightarrow> ('w, 'z) probe_scheme \<Rightarrow> int option \<times> ('w, 'z) probe_scheme" where
  "uva_start E device s =
     (let (r1, _, s1) = probe_call E aclInit (plain_call E (Hal halSetRuntimeApiVer) s)
      in if r1 \<noteq> 0 then (Some (int32_of r1), s1)
         else let (r2, _, s2) = probe_call E (aclrtSetDevice device) s1
              in if r2 \<noteq> 0 then (Some (int32_of r2), s2) else (None, s2))"

text \<open>The labels \<open>finished\<close>, \<open>free_va\<close>, \<open>release_handle\<close>, \<open>unmap_va\<close> and \<open>free_buffer\<close>.\<close>

definition at_finished :: "'w env \<Rightarrow> int \<Rightarrow> ('w, 'z) probe_scheme \<Rightarrow> ('w, 'z) probe_scheme" where
  "at_finished E device s = plain_call E aclFinalize (plain_call E (aclrtResetDevice device) s)"

definition at_free_va :: "'w env \<Rightarrow> int \<Rightarrow> u64 \<Rightarrow> ('w, 'z) probe_scheme \<Rightarrow> ('w, 'z) probe_scheme" where
  "at_free_va E device va s = at_finished E device (plain_call E (halMemAddressFree va) s)"

definition at_release :: "'w env \<Rightarrow> int \<Rightarrow> u64 \<Rightarrow> u64 \<Rightarrow> ('w, 'z) probe_scheme \<Rightarrow> ('w, 'z) probe_scheme" where
  "at_release E device va h s = at_free_va E device va (plain_call E (halMemRelease h) s)"

definition at_unmap :: "'w env \<Rightarrow> int \<Rightarrow> u64 \<Rightarrow> u64 \<Rightarrow> ('w, 'z) probe_scheme \<Rightarrow> ('w, 'z) probe_scheme" where
  "at_unmap E device va h s = at_release E device va h (plain_call E (halMemUnmap va) s)"

definition at_free_buffer :: "'w env \<Rightarrow> int \<Rightarrow> u64 \<Rightarrow> u64 \<Rightarrow> u64 \<Rightarrow> ('w, 'z) probe_scheme \<Rightarrow> ('w, 'z) probe_scheme" where
  "at_free_buffer E device va h buf s = at_release E device va h (plain_call E (Acl (aclrtFreeHost buf)) s)"

subsection \<open>The two programs\<close>

text \<open>From the label onwards, once the memory is mapped.\<close>

definition uva_publish :: "'w env \<Rightarrow> int \<Rightarrow> u64 \<Rightarrow> u64 \<Rightarrow> ('w, 'z) probe_scheme \<Rightarrow> ('w, 'z) probe_scheme" where
  "uva_publish E device va h s =
     (let (r1, token, s1) = probe_call E (halMemExportToShareableHandle h 0 0) (WriteTestData E va kShmSize s)
      in if r1 \<noteq> 0 then at_unmap E device va h s1
         else let (r2, _, s2) = probe_call E (halMemShareHandleSetAttribute token) s1
              in if r2 \<noteq> 0 then at_unmap E device va h s2
                 else at_unmap E device va h (plain_call E (Proc c_getchar) s2))"

definition RunWriter :: "'w env \<Rightarrow> int \<Rightarrow> ('w, 'z) probe_scheme \<Rightarrow> int \<times> ('w, 'z) probe_scheme" where
  "RunWriter E device s0 =
     (case uva_start E device s0 of
        (Some code, s) \<Rightarrow> (code, s)
      | (None, s) \<Rightarrow>
          let (r1, va, s1) = probe_call E (halMemAddressReserve nullptr kShmSize 0 nullptr 0) s
          in if r1 \<noteq> 0 then (0, at_finished E device s1)
          else let (r2, h, s2) = probe_call E (halMemCreate nullptr kShmSize
                     (mem_prop MEM_HOST_SIDE 0 MEM_HUGE_PAGE_TYPE MEM_DDR_TYPE) 0) s1
          in if r2 \<noteq> 0 then (0, at_free_va E device va s2)
          else let (r3, _, s3) = probe_call E (halMemMap va kShmSize 0 h 0) s2
          in if r3 \<noteq> 0 then (0, at_release E device va h s3)
          else (0, uva_publish E device va h s3))"

definition uva_verify :: "'w env \<Rightarrow> int \<Rightarrow> u64 \<Rightarrow> u64 \<Rightarrow> ('w, 'z) probe_scheme \<Rightarrow> ('w, 'z) probe_scheme" where
  "uva_verify E device va h s =
     (let (r1, buf, s1) = probe_call E (Acl (aclrtMallocHost kShmSize)) s
      in if r1 \<noteq> 0 then at_release E device va h s1
         else let (r2, _, s2) = probe_call E (Acl (aclrtMemcpy buf kShmSize va kShmSize COPY_D2H)) s1
              in if r2 \<noteq> 0 then at_free_buffer E device va h buf s2
                 else at_free_buffer E device va h buf (snd (VerifyTestData E buf kShmSize s2)))"

definition RunReader :: "'w env \<Rightarrow> int \<Rightarrow> u64 \<Rightarrow> ('w, 'z) probe_scheme \<Rightarrow> int \<times> ('w, 'z) probe_scheme" where
  "RunReader E device token s0 =
     (case uva_start E device s0 of
        (Some code, s) \<Rightarrow> (code, s)
      | (None, s) \<Rightarrow>
          let (r1, va, s1) = probe_call E (halMemAddressReserve nullptr kShmSize 0 nullptr 0) s
          in if r1 \<noteq> 0 then (0, at_finished E device s1)
          else let (r2, h, s2) = probe_call E (halMemImportFromShareableHandle token nullptr (word_of_int device)) s1
          in if r2 \<noteq> 0 then (0, at_free_va E device va s2)
          else let (r3, _, s3) = probe_call E (halMemMap va kShmSize 0 h 0) s2
          in if r3 \<noteq> 0 then (0, at_release E device va h s3)
          else (0, uva_verify E device va h s3))"

subsection \<open>The command line\<close>

text \<open>\<open>std::atol\<close> cut to 32 bits, and \<open>strtoull\<close>, which saturates.\<close>

definition atol_int32 :: "string \<Rightarrow> int" where
  "atol_int32 text =
     (case scan_unsigned text of None \<Rightarrow> 0
      | Some (neg, v, _) \<Rightarrow>
          let n = if neg then - int v else int v
          in int32_of (max (- (2 ^ 63)) (min (2 ^ 63 - 1) n)))"

definition strtoull :: "string \<Rightarrow> u64" where
  "strtoull text =
     (case scan_unsigned text of None \<Rightarrow> 0
      | Some (neg, v, _) \<Rightarrow> if v < 2 ^ 64 then signed_u64 neg v else - 1)"

definition uva_main :: "'w env \<Rightarrow> string list \<Rightarrow> 'w probe \<Rightarrow> int \<times> 'w probe" where
  "uva_main E args s =
     (if length args = 2 \<and> args ! 0 = ''writer'' then RunWriter E (atol_int32 (args ! 1)) s
      else if length args = 3 \<and> args ! 0 = ''reader'' then RunReader E (atol_int32 (args ! 1)) (strtoull (args ! 2)) s
      else (- 1, s))"

end
