(* ===== verification/Host_Uva_Facts.thy ===== *)
theory Host_Uva_Facts
  imports Host_Uva
begin

unbundle bit_operations_syntax

text \<open>
  The facts about \<open>Host_Uva\<close>: what the writer's data looks like in memory that keeps what is stored,
  exactly when the reader accepts, and what the reader leaves behind.
\<close>

subsection \<open>The test data\<close>

text \<open>\<open>keeps_halves E word A\<close>: the 32-bit words at the addresses \<open>A\<close> are memory of this process alone.\<close>

definition keeps_halves :: "'w env \<Rightarrow> ('w \<Rightarrow> u64 \<Rightarrow> u32) \<Rightarrow> u64 set \<Rightarrow> bool" where
  "keeps_halves E word A \<longleftrightarrow>
     (\<forall>w. \<forall>a \<in> A. case native_fn E (Cpu (cpu_load 4 a)) w of
        (_, v, w') \<Rightarrow> ucast v = word w a \<and> (\<forall>b \<in> A. word w' b = word w b)) \<and>
     (\<forall>w v. \<forall>a \<in> A. case native_fn E (Cpu (cpu_store 4 a v)) w of
        (_, _, w') \<Rightarrow> (\<forall>b \<in> A. word w' b = (if b = a then ucast v else word w b)))"

definition halves_at :: "u64 \<Rightarrow> nat \<Rightarrow> u64 set" where
  "halves_at p n = (\<lambda>i. p + of_nat (4 * i)) ` {..<n}"

text \<open>The words at \<open>va\<close>, as the world holds them.\<close>

definition words_of :: "('w \<Rightarrow> u64 \<Rightarrow> u32) \<Rightarrow> u64 \<Rightarrow> ('w, 'z) probe_scheme \<Rightarrow> nat \<Rightarrow> u32" where
  "words_of word va s i = word (drv (sys_of s)) (va + of_nat (4 * i))"

definition accepted :: "nat \<Rightarrow> (nat \<Rightarrow> u32) \<Rightarrow> bool" where
  "accepted m f \<longleftrightarrow> f 0 = kMagic \<and> f m = (\<Sum>i < m. f i)"

lemma halves_inj:
  assumes "i < 2 ^ 62" and "j < 2 ^ 62"
  shows "p + of_nat (4 * i) = (p + of_nat (4 * j) :: u64) \<longleftrightarrow> i = j"
proof
  assume "p + of_nat (4 * i) = (p + of_nat (4 * j) :: u64)"
  then have "unat (of_nat (4 * i) :: u64) = unat (of_nat (4 * j) :: u64)"
    by simp
  moreover have "4 * i < 2 ^ 64" "4 * j < 2 ^ 64"
    using assms by simp_all
  ultimately have "4 * i = 4 * j"
    by (metis unat_of_nat_u64)
  then show "i = j" by simp
qed simp

lemma count_bound: "unat (word_count sz) \<le> 2 ^ 62"
proof -
  have "unat (word_count sz) = unat sz div 4"
    by (simp add: word_count_def unat_div)
  with unat_u64_bound [of sz] show ?thesis by simp
qed

lemma load_word_keeps:
  assumes k: "keeps_halves E word (halves_at va n)" and i: "i < n" and l: "load_word E va i s = (v, s')"
  shows "v = words_of word va s i" "j < n \<Longrightarrow> words_of word va s' j = words_of word va s j"
proof -
  obtain r x s1 where c: "probe_call E (Cpu (cpu_load 4 (va + of_nat (4 * i)))) s = (r, x, s1)"
    by (rule prod_cases3)
  have a: "va + of_nat (4 * i) \<in> halves_at va n" if "i < n" for i
    using that by (auto simp: halves_at_def)
  have "\<forall>w. \<forall>a \<in> halves_at va n. case native_fn E (Cpu (cpu_load 4 a)) w of
        (_, v, w') \<Rightarrow> ucast v = word w a \<and> (\<forall>b \<in> halves_at va n. word w' b = word w b)"
    using k unfolding keeps_halves_def by (rule conjunct1)
  from this [rule_format, OF a [OF i], of "drv (sys_of s)"] c
  have "ucast x = words_of word va s i" "\<forall>b \<in> halves_at va n. word (drv (sys_of s1)) b = word (drv (sys_of s)) b"
    by (auto simp: probe_call_def call_def words_of_def split: prod.splits)
  with l c a show "v = words_of word va s i" "j < n \<Longrightarrow> words_of word va s' j = words_of word va s j"
    by (auto simp: load_word_def words_of_def)
qed

lemma put_word_keeps:
  assumes k: "keeps_halves E word (halves_at va n)" and n: "n \<le> 2 ^ 62" and i: "i < n" and j: "j < n"
  shows "words_of word va (put_word E va i v s) j = (if j = i then v else words_of word va s j)"
proof (rule probe_call_cases [of E "Cpu (cpu_store 4 (va + of_nat (4 * i)) (ucast v))" s])
  fix ret out w
  assume nf: "native_fn E (Cpu (cpu_store 4 (va + of_nat (4 * i)) (ucast v))) (drv (sys_of s)) = (ret, out, w)"
    and c: "probe_call E (Cpu (cpu_store 4 (va + of_nat (4 * i)) (ucast v))) s = (ret, out, s\<lparr>sys_of := (sys_of s)
      \<lparr>drv := w, trace := trace (sys_of s) @ [(Cpu (cpu_store 4 (va + of_nat (4 * i)) (ucast v)), ret, out)]\<rparr>\<rparr>)"
  have uu: "(ucast (ucast v :: u64) :: u32) = v"
    by (rule bit_word_eqI) (auto simp: bit_simps)
  have a: "va + of_nat (4 * i) \<in> halves_at va n" if "i < n" for i
    using that by (auto simp: halves_at_def)
  have "\<forall>w v. \<forall>a \<in> halves_at va n. case native_fn E (Cpu (cpu_store 4 a v)) w of
        (_, _, w') \<Rightarrow> (\<forall>b \<in> halves_at va n. word w' b = (if b = a then ucast v else word w b))"
    using k unfolding keeps_halves_def by (rule conjunct2)
  from this [rule_format, OF a [OF i], of "ucast v" "drv (sys_of s)"] nf a [OF j]
  have "word w (va + of_nat (4 * j)) = (if va + of_nat (4 * j) = va + of_nat (4 * i) then v
      else word (drv (sys_of s)) (va + of_nat (4 * j)))"
    by (auto simp: uu)
  moreover have "va + of_nat (4 * j) = va + of_nat (4 * i) \<longleftrightarrow> j = i"
    using n i j by (intro halves_inj) simp_all
  ultimately have "word w (va + of_nat (4 * j)) = (if j = i then v else word (drv (sys_of s)) (va + of_nat (4 * j)))"
    by simp
  then show ?thesis
    unfolding put_word_def plain_call_def c words_of_def by simp
qed

lemma sum_words_keeps:
  assumes k: "keeps_halves E word (halves_at va n)" and "\<forall>i \<in> set is. i < n"
    and "sum_words E va is c s = (c', s')"
  shows "c' = c + (\<Sum>i \<leftarrow> is. words_of word va s i) \<and> (\<forall>j < n. words_of word va s' j = words_of word va s j)"
  using assms(2,3)
proof (induction "is" arbitrary: c s)
  case Nil
  then show ?case by simp
next
  case (Cons i js)
  obtain v s1 where l: "load_word E va i s = (v, s1)"
    by (cases "load_word E va i s")
  have i: "i < n" and js: "\<forall>i \<in> set js. i < n"
    using Cons.prems(1) by simp_all
  have w: "v = words_of word va s i" "j < n \<Longrightarrow> words_of word va s1 j = words_of word va s j" for j
    by (rule load_word_keeps [OF k i l])+
  have "sum_words E va js (c + v) s1 = (c', s')"
    using Cons.prems(2) l by simp
  from Cons.IH [OF js this] have ih: "c' = c + v + (\<Sum>i \<leftarrow> js. words_of word va s1 i)"
    "\<forall>j < n. words_of word va s' j = words_of word va s1 j"
    by simp_all
  moreover have "map (words_of word va s1) js = map (words_of word va s) js"
    using w(2) js by simp
  ultimately show ?case
    using w by (simp add: add.assoc)
qed

lemma put_words_keep:
  assumes k: "keeps_halves E word (halves_at va n)" and n: "n \<le> 2 ^ 62" and m: "m \<le> n" and j: "j < n"
  shows "words_of word va (fold (\<lambda>i. put_word E va i (f i)) [1..<m] s) j =
    (if 1 \<le> j \<and> j < m then f j else words_of word va s j)"
  using m
proof (induction m)
  case 0
  then show ?case by simp
next
  case (Suc m)
  show ?case
  proof (cases "m = 0")
    case True
    then show ?thesis by auto
  next
    case False
    with Suc show ?thesis
      by (auto simp: put_word_keeps [OF k n _ j])
  qed
qed

lemma sum_upt: "(\<Sum>i \<leftarrow> [0..<n]. f i) = (\<Sum>i < n. f i)"
  by (simp add: interv_sum_list_conv_sum_set_nat lessThan_atLeast0)

lemma last_word: "2 \<le> unat (word_count sz) \<Longrightarrow> unat (word_count sz - 1) = unat (word_count sz) - 1"
  by (simp add: unat_sub word_le_nat_alt)

lemma write_data:
  assumes k: "keeps_halves E word (halves_at va (unat (word_count sz)))" and c: "2 \<le> unat (word_count sz)"
  shows "accepted (unat (word_count sz) - 1) (words_of word va (WriteTestData E va sz s))"
proof -
  let ?n = "unat (word_count sz)" and ?last = "unat (word_count sz) - 1"
  let ?s1 = "put_word E va 0 kMagic s"
  let ?s2 = "fold (\<lambda>i. put_word E va i (of_nat i AND 0xFF)) [1..<?last] ?s1"
  obtain sm s3 where sum: "sum_words E va [0..<?last] 0 ?s2 = (sm, s3)"
    by (cases "sum_words E va [0..<?last] 0 ?s2")
  have w: "WriteTestData E va sz s = put_word E va ?last sm s3"
    using sum by (simp add: WriteTestData_def last_word [OF c])
  have lt: "?last < ?n" "\<forall>i \<in> set [0..<?last]. i < ?n"
    using c by auto
  note sk = sum_words_keeps [OF k lt(2) sum]
  have s3: "words_of word va s3 0 = kMagic"
  proof -
    have "words_of word va ?s2 0 = words_of word va ?s1 0"
      using put_words_keep [OF k count_bound, where m = ?last and j = 0 and f = "\<lambda>i. of_nat i AND 0xFF"] c by simp
    also have "\<dots> = kMagic"
      using put_word_keeps [OF k count_bound, where i = 0 and j = 0] c by simp
    finally show ?thesis
      using sk c by simp
  qed
  have keep: "words_of word va (put_word E va ?last sm s3) j = (if j = ?last then sm else words_of word va s3 j)" if "j < ?n" for j
    by (rule put_word_keeps [OF k count_bound lt(1) that])
  have "sm = (\<Sum>i < ?last. words_of word va s3 i)"
  proof -
    have "sm = (\<Sum>i < ?last. words_of word va ?s2 i)"
      using sk by (simp add: sum_upt)
    also have "\<dots> = (\<Sum>i < ?last. words_of word va s3 i)"
      using sk lt(1) by (intro sum.cong) auto
    finally show ?thesis .
  qed
  also have "\<dots> = (\<Sum>i < ?last. words_of word va (put_word E va ?last sm s3) i)"
    using keep lt(1) by (intro sum.cong) auto
  finally have "sm = (\<Sum>i < ?last. words_of word va (put_word E va ?last sm s3) i)" .
  with keep lt(1) s3 c show ?thesis
    unfolding w accepted_def by auto
qed

lemma verify_data:
  assumes k: "keeps_halves E word (halves_at va (unat (word_count sz)))" and c: "2 \<le> unat (word_count sz)"
  shows "fst (VerifyTestData E va sz s) \<longleftrightarrow> accepted (unat (word_count sz) - 1) (words_of word va s)"
proof -
  let ?n = "unat (word_count sz)" and ?last = "unat (word_count sz) - 1"
  obtain magic s1 where l1: "load_word E va 0 s = (magic, s1)"
    by (cases "load_word E va 0 s")
  have lt: "0 < ?n" "?last < ?n" "\<forall>i \<in> set [0..<?last]. i < ?n"
    using c by auto
  have m: "magic = words_of word va s 0" "j < ?n \<Longrightarrow> words_of word va s1 j = words_of word va s j" for j
    by (rule load_word_keeps [OF k lt(1) l1])+
  show ?thesis
  proof (cases "magic = kMagic")
    case False
    with l1 m show ?thesis
      by (simp add: VerifyTestData_def accepted_def)
  next
    case True
    obtain sm s2 where sum: "sum_words E va [0..<?last] 0 s1 = (sm, s2)"
      by (cases "sum_words E va [0..<?last] 0 s1")
    note sk = sum_words_keeps [OF k lt(3) sum]
    obtain v s3 where l2: "load_word E va ?last s2 = (v, s3)"
      by (cases "load_word E va ?last s2")
    have v: "v = words_of word va s2 ?last"
      by (rule load_word_keeps(1) [OF k lt(2) l2])
    have "sm = (\<Sum>i < ?last. words_of word va s1 i)"
      using sk by (simp add: sum_upt)
    also have "\<dots> = (\<Sum>i < ?last. words_of word va s i)"
      using m(2) lt(2) by (intro sum.cong) auto
    finally have "sm = (\<Sum>i < ?last. words_of word va s i)" .
    moreover have "v = words_of word va s ?last"
      using v sk m(2) lt(2) by simp
    ultimately show ?thesis
      using True l1 sum l2 m(1) unfolding VerifyTestData_def last_word [OF c] Let_def accepted_def
      by (simp del: One_nat_def)
  qed
qed

text \<open>What the checksum catches and what it does not.\<close>

lemma one_word_detected:
  assumes "accepted m f" and "k \<le> m" and "0 < m" and "v \<noteq> f k"
  shows "\<not> accepted m (f(k := v))"
proof (cases "k = m")
  case True
  with assms show ?thesis
    by (auto simp: accepted_def)
next
  case False
  with assms(2) have k: "k < m" by simp
  have "(\<Sum>i < m. (f(k := v)) i) = v + (\<Sum>i \<in> {..<m} - {k}. f i)"
    using k by (subst sum.remove [of _ k]) (auto intro: sum.cong)
  moreover have "(\<Sum>i < m. f i) = f k + (\<Sum>i \<in> {..<m} - {k}. f i)"
    using k by (subst sum.remove [of _ k]) auto
  ultimately show ?thesis
    using assms(1,4) False by (auto simp: accepted_def)
qed

lemma swapped_words_accepted:
  assumes "accepted m f" and "0 < j" "j < m" "0 < k" "k < m"
  shows "accepted m (f(j := f k, k := f j))"
proof (cases "j = k")
  case True
  with assms(1) show ?thesis by simp
next
  case False
  let ?g = "f(j := f k, k := f j)"
  have "(\<Sum>i < m. ?g i) = (\<Sum>i < m. f ((\<lambda>i. if i = j then k else if i = k then j else i) i))"
    using False by (intro sum.cong) auto
  also have "\<dots> = (\<Sum>i < m. f i)"
    by (rule sum.reindex_bij_witness [where i = "\<lambda>i. if i = j then k else if i = k then j else i"
          and j = "\<lambda>i. if i = j then k else if i = k then j else i"])
      (use assms in \<open>auto split: if_splits\<close>)
  finally show ?thesis
    using assms by (auto simp: accepted_def)
qed

subsection \<open>What the reader leaves behind\<close>

text \<open>
  The reader unmaps nothing: on every way out its mapping lasts until the process has ended. From
  \<open>s\<close> to \<open>s'\<close>, \<open>unmaps_nothing\<close> holds.
\<close>

definition unmaps_nothing :: "('w, 'z) probe_scheme \<Rightarrow> ('w, 'z) probe_scheme \<Rightarrow> bool" where
  "unmaps_nothing = moves (\<lambda>c. \<forall>va. c \<noteq> halMemUnmap va)"

lemma unmaps_refl: "unmaps_nothing s s"
  by (simp add: unmaps_nothing_def)

lemma then_call: "probe_call E c s = (r, out, s') \<Longrightarrow> (\<And>va. c \<noteq> halMemUnmap va) \<Longrightarrow> unmaps_nothing s0 s \<Longrightarrow> unmaps_nothing s0 s'"
  unfolding unmaps_nothing_def by (blast intro: moves_trans moves_call [rotated])

lemma then_plain: "(\<And>va. c \<noteq> halMemUnmap va) \<Longrightarrow> unmaps_nothing s0 s \<Longrightarrow> unmaps_nothing s0 (plain_call E c s)"
  unfolding unmaps_nothing_def by (blast intro: moves_trans moves_plain)

lemma then_load: "load_word E va i s = (v, s') \<Longrightarrow> unmaps_nothing s0 s \<Longrightarrow> unmaps_nothing s0 s'"
  by (auto simp: load_word_def split: prod.splits intro: then_call)

lemma then_sum: "sum_words E va is c s = (v, s') \<Longrightarrow> unmaps_nothing s0 s \<Longrightarrow> unmaps_nothing s0 s'"
  by (induction "is" arbitrary: c s) (auto split: prod.splits dest: then_load)

lemma then_verify: "unmaps_nothing s0 s \<Longrightarrow> unmaps_nothing s0 (snd (VerifyTestData E va sz s))"
  by (auto simp: VerifyTestData_def Let_def split: prod.splits dest!: then_load then_sum)

lemma then_label:
  assumes "unmaps_nothing s0 s"
  shows "unmaps_nothing s0 (at_finished E device s)" "unmaps_nothing s0 (at_free_va E device va s)"
    "unmaps_nothing s0 (at_release E device va h s)" "unmaps_nothing s0 (at_free_buffer E device va h buf s)"
  unfolding at_free_buffer_def at_release_def at_free_va_def at_finished_def
  by (intro then_plain assms; simp)+

lemma then_reader: "unmaps_nothing s0 s \<Longrightarrow> unmaps_nothing s0 (uva_verify E device va h s)"
  unfolding uva_verify_def Let_def by (auto split: prod.splits dest!: then_call intro!: then_label then_verify)

lemma uva_start_unmaps: "uva_start E device s = (code, s') \<Longrightarrow> unmaps_nothing s s'"
  unfolding uva_start_def Let_def
  by (auto split: prod.splits if_splits dest!: then_call intro!: then_plain unmaps_refl)

lemma reader_unmaps: "RunReader E device token s = (code, s') \<Longrightarrow> unmaps_nothing s s'"
  unfolding RunReader_def Let_def
  by (auto split: prod.splits option.splits if_splits dest!: uva_start_unmaps then_call intro!: then_label then_reader)

lemma reader_never_unmaps:
  assumes "RunReader E device token s = (code, s')"
  shows "\<exists>ev. trace_of s' = trace_of s @ ev \<and> halMemUnmap va \<notin> fst ` set ev"
  using moves_trace [OF reader_unmaps [OF assms, unfolded unmaps_nothing_def]] by (fastforce simp: list_all_iff)

end
