(* ===== verification/Probe_Protocol.thy ===== *)
theory Probe_Protocol
  imports Probe_Steps
begin

text \<open>
  The hand-over that the two-process programs (hal_map_probe, device_share, host_share) share: the
  importer sends its last word only after it has unmapped, released and freed what it imported; the
  creator unmaps, releases and frees its allocation only after it has received that word. It is the
  word after the first \<open>n\<close>: one in hal_map_probe and device_share, two in host_share.

  \<open>importer_side\<close> and \<open>creator_side\<close> are these two facts about the traces of the two processes.
  \<open>woven\<close> and \<open>causal\<close> describe an execution of both: a list of the events of the two processes in
  the order in which they happened, in which no byte is received before it was sent. \<open>handed_over\<close>
  is the consequence: when the creator lets go of the memory, the importer has already done so.
\<close>

subsection \<open>What statements append to the trace\<close>

definition appends :: "(native \<Rightarrow> bool) \<Rightarrow> ('w, 'z) probe_scheme prog_step \<Rightarrow> bool" where
  "appends C f \<longleftrightarrow> (\<forall>s e s'. f s = Some (e, s') \<longrightarrow>
     (\<exists>ev. trace_of s' = trace_of s @ ev \<and> list_all C (map fst ev)))"

definition leaves :: "(('w, 'z) probe_scheme \<Rightarrow> 'x) \<Rightarrow> ('w, 'z) probe_scheme prog_step \<Rightarrow> bool" where
  "leaves get f \<longleftrightarrow> (\<forall>s e s'. f s = Some (e, s') \<longrightarrow> get s' = get s)"

named_theorems step_effects

lemma appendsI:
  "(\<And>s e s'. f s = Some (e, s') \<Longrightarrow> \<exists>ev. trace_of s' = trace_of s @ ev \<and> list_all C (map fst ev)) \<Longrightarrow> appends C f"
  by (simp add: appends_def)

lemma appendsD:
  assumes "appends C f" and "f s = Some (e, s')"
  obtains ev where "trace_of s' = trace_of s @ ev" and "list_all C (map fst ev)"
  using assms unfolding appends_def by blast

lemma leavesD: "leaves get f \<Longrightarrow> f s = Some (e, s') \<Longrightarrow> get s' = get s"
  unfolding leaves_def by blast

lemma leavesI: "(\<And>s e s'. f s = Some (e, s') \<Longrightarrow> get s' = get s) \<Longrightarrow> leaves get f"
  unfolding leaves_def by blast

lemma appends_mono: "appends C f \<Longrightarrow> (\<And>c. C c \<Longrightarrow> D c) \<Longrightarrow> appends D f"
  unfolding appends_def by (metis list.pred_mono_strong)

lemma appends_moves: "(\<And>s e s'. f s = Some (e, s') \<Longrightarrow> moves C s s') \<Longrightarrow> appends C f"
  by (rule appendsI, rule moves_trace) blast

lemma leaves_moves:
  assumes "\<And>s e s'. f s = Some (e, s') \<Longrightarrow> moves C s s'" and "\<And>s t. get (s\<lparr>sys_of := t\<rparr>) = get s"
  shows "leaves get f"
  unfolding leaves_def using assms moves_same by metis

lemma appends_run: "\<forall>f \<in> set fs. appends C f \<Longrightarrow> appends C (run_steps fs)"
proof (induction fs)
  case Nil
  then show ?case by (auto intro!: appendsI)
next
  case (Cons f fs)
  show ?case
  proof (rule appendsI)
    fix s e s'
    assume run: "run_steps (f # fs) s = Some (e, s')"
    then obtain e1 s1 where f: "f s = Some (e1, s1)"
      by (cases "f s") auto
    obtain ev where ev: "trace_of s1 = trace_of s @ ev" "list_all C (map fst ev)"
      using Cons.prems f by (auto elim: appendsD)
    show "\<exists>ev. trace_of s' = trace_of s @ ev \<and> list_all C (map fst ev)"
    proof (cases e1)
      case None
      with run f have r: "run_steps fs s1 = Some (e, s')" by simp
      obtain ev' where "trace_of s' = trace_of s1 @ ev'" "list_all C (map fst ev')"
        using Cons r by (auto elim: appendsD)
      with ev show ?thesis by (intro exI [of _ "ev @ ev'"]) simp
    next
      case (Some x)
      with run f ev show ?thesis by auto
    qed
  qed
qed

lemma leaves_run: "\<forall>f \<in> set fs. leaves get f \<Longrightarrow> leaves get (run_steps fs)"
proof (induction fs)
  case Nil
  then show ?case by (simp add: leaves_def)
next
  case (Cons f fs)
  show ?case
  proof (rule leavesI)
    fix s e s'
    assume run: "run_steps (f # fs) s = Some (e, s')"
    then obtain e1 s1 where f: "f s = Some (e1, s1)"
      by (cases "f s") auto
    have g: "get s1 = get s"
      by (rule leavesD [of get f s e1 s1, OF _ f]) (simp add: Cons.prems)
    show "get s' = get s"
    proof (cases e1)
      case None
      with run f have r: "run_steps fs s1 = Some (e, s')" by simp
      have "leaves get (run_steps fs)"
        by (rule Cons.IH) (simp add: Cons.prems)
      from leavesD [OF this r] g show ?thesis by simp
    next
      case (Some x)
      with run f g show ?thesis by auto
    qed
  qed
qed

lemma appends_check [step_effects]:
  assumes "\<And>s. C (c s)" and "\<And>out s. sys_of (wr out s) = sys_of s" and "\<And>s. sys_of (ok s) = sys_of s"
  shows "appends C (check_step E what c wr ok)"
proof (rule appendsI)
  fix s e s'
  assume st: "check_step E what c wr ok s = Some (e, s')"
  obtain ret out u where c: "probe_call E (c s) s = (ret, out, u)"
    by (rule prod_cases3)
  have "trace_of s' = trace_of u"
    using st c assms(2,3) by (auto simp: check_step_def trace_of_def split: if_splits)
  with probe_call_trace [OF c] assms(1) show "\<exists>ev. trace_of s' = trace_of s @ ev \<and> list_all C (map fst ev)"
    by auto
qed

lemma leaves_check [step_effects]:
  assumes "\<And>out s. get (wr out s) = get s" and "\<And>s. get (ok s) = get s" and "\<And>s t. get (s\<lparr>sys_of := t\<rparr>) = get s"
  shows "leaves get (check_step E what c wr ok)"
  unfolding leaves_def check_step_def
  using assms by (auto simp: probe_call_def split: prod.splits if_splits)

lemma appends_when [step_effects]:
  "\<forall>f \<in> set fs. appends C f \<Longrightarrow> appends C (when_step b fs)"
  using appends_run [of fs C] by (cases b) (auto simp: when_step_def appends_def)

lemma leaves_when [step_effects]:
  "\<forall>f \<in> set fs. leaves get f \<Longrightarrow> leaves get (when_step b fs)"
  using leaves_run [of fs get] by (cases b) (simp_all add: when_step_def leaves_def)

lemma appends_assign [step_effects]:
  "(\<And>s. sys_of (f s) = sys_of s) \<Longrightarrow> appends C (assign f)"
  by (auto simp: appends_def assign_def trace_of_def)

lemma leaves_assign [step_effects]: "(\<And>s. get (f s) = get s) \<Longrightarrow> leaves get (assign f)"
  by (simp add: leaves_def assign_def)

lemma throw_effects [step_effects]: "appends C (throw_unless b what)" "leaves get (throw_unless b what)"
  by (auto simp: appends_def leaves_def throw_unless_def)

lemma calls_effects [step_effects]:
  "(\<And>s. C (c s)) \<Longrightarrow> appends C (assign (\<lambda>s. plain_call E (c s) s))"
  "(\<And>s t. get (s\<lparr>sys_of := t\<rparr>) = get s) \<Longrightarrow> leaves get (assign (\<lambda>s. plain_call E (c s) s))"
  "appends is_store (assign (\<lambda>s. fill E (p s) bytes seed s))"
  "(\<And>s t. get (s\<lparr>sys_of := t\<rparr>) = get s) \<Longrightarrow> leaves get (assign (\<lambda>s. fill E (p s) bytes seed s))"
  "appends is_load (\<lambda>s. verify E (p s) bytes seed phase s)"
  "(\<And>s t. get (s\<lparr>sys_of := t\<rparr>) = get s) \<Longrightarrow> leaves get (\<lambda>s. verify E (p s) bytes seed phase s)"
proof -
  have plain: "moves (\<lambda>x. x = c s) s s'" if "assign (\<lambda>s. plain_call E (c s) s) s = Some (e, s')" for s e s'
    using that moves_plain [of "\<lambda>x. x = c s" "c s" s E] by (auto simp: assign_def)
  have filled: "moves is_store s s'" if "assign (\<lambda>s. fill E (p s) bytes seed s) s = Some (e, s')" for s e s'
    using that fill_moves [of s E "p s" bytes seed] by (auto simp: assign_def)
  show "appends C (assign (\<lambda>s. plain_call E (c s) s))" if "\<And>s. C (c s)"
    by (rule appends_moves) (use plain moves_mono that in fastforce)
  show "leaves get (assign (\<lambda>s. plain_call E (c s) s))" if "\<And>s t. get (s\<lparr>sys_of := t\<rparr>) = get s"
    unfolding leaves_def using plain moves_same that by metis
  show "appends is_store (assign (\<lambda>s. fill E (p s) bytes seed s))"
    by (rule appends_moves) (rule filled, assumption)
  show "leaves get (assign (\<lambda>s. fill E (p s) bytes seed s))" if "\<And>s t. get (s\<lparr>sys_of := t\<rparr>) = get s"
    by (rule leaves_moves [where C = is_store]) (rule filled, assumption, rule that)
  show "appends is_load (\<lambda>s. verify E (p s) bytes seed phase s)"
    by (rule appends_moves) (rule verify_moves, assumption)
  show "leaves get (\<lambda>s. verify E (p s) bytes seed phase s)" if "\<And>s t. get (s\<lparr>sys_of := t\<rparr>) = get s"
    by (rule leaves_moves [where C = is_load]) (rule verify_moves, assumption, rule that)
qed

subsection \<open>The two sides\<close>

definition is_let_go :: "native \<Rightarrow> bool" where
  "is_let_go c \<longleftrightarrow> (case c of halMemUnmap _ \<Rightarrow> True | halMemRelease _ \<Rightarrow> True
     | halMemAddressFree _ \<Rightarrow> True | _ \<Rightarrow> False)"

definition sends_on :: "int \<Rightarrow> event list \<Rightarrow> nat" where
  "sends_on fd t = length (sent_bytes fd t)"

definition receives_on :: "int \<Rightarrow> event list \<Rightarrow> nat" where
  "receives_on fd t = length (received_bytes fd t)"

text \<open>The imported memory was mapped, and mapping, handle and address range are given back.\<close>

definition import_undone :: "event list \<Rightarrow> bool" where
  "import_undone t \<longleftrightarrow> (\<exists>va h token old dev n o1 o2 o3 o4.
     {(halMemImportFromShareableHandle token old dev, 0, h), (halMemMap va n 0 h 0, 0, o1),
      (halMemUnmap va, 0, o2), (halMemRelease h, 0, o3), (halMemAddressFree va, 0, o4)} \<subseteq> set t)"

definition importer_side :: "nat \<Rightarrow> int \<Rightarrow> event list \<Rightarrow> bool" where
  "importer_side n fd t \<longleftrightarrow> sends_on fd t \<le> 8 * n \<or>
     (\<exists>t1 t2. t = t1 @ t2 \<and> sends_on fd t1 \<le> 8 * n \<and> import_undone t1)"

definition creator_side :: "nat \<Rightarrow> int \<Rightarrow> event list \<Rightarrow> bool" where
  "creator_side n fd t \<longleftrightarrow>
     (\<exists>t1 t2. t = t1 @ t2 \<and> 8 * (n + 1) \<le> receives_on fd t1 \<and> list_all (\<lambda>c. \<not> is_let_go c) (map fst t1))"

definition of_process :: "bool \<Rightarrow> (bool \<times> event) list \<Rightarrow> event list" where
  "of_process p t = map snd (filter (\<lambda>x. fst x = p) t)"

definition woven :: "event list \<Rightarrow> event list \<Rightarrow> (bool \<times> event) list \<Rightarrow> bool" where
  "woven tc ti t \<longleftrightarrow> of_process False t = tc \<and> of_process True t = ti"

definition causal :: "int \<Rightarrow> int \<Rightarrow> (bool \<times> event) list \<Rightarrow> bool" where
  "causal fdc fdi t \<longleftrightarrow>
     (\<forall>k \<le> length t. receives_on fdc (of_process False (take k t)) \<le> sends_on fdi (of_process True (take k t)))"

definition handed_over :: "(bool \<times> event) list \<Rightarrow> bool" where
  "handed_over t \<longleftrightarrow> (\<forall>k \<le> length t.
     (\<exists>e \<in> set (of_process False (take k t)). is_let_go (fst e)) \<longrightarrow> import_undone (of_process True (take k t)))"

lemma of_process_append: "of_process p (t @ u) = of_process p t @ of_process p u"
  by (simp add: of_process_def)

lemma of_process_take_prefix:
  obtains r where "of_process p t = of_process p (take k t) @ r"
  using of_process_append [of p "take k t" "drop k t"] by auto

lemma import_undone_mono: "import_undone t \<Longrightarrow> set t \<subseteq> set u \<Longrightarrow> import_undone u"
  unfolding import_undone_def by (elim exE) (intro exI, erule subset_trans)

lemma sends_on_append [simp]: "sends_on fd (t @ u) = sends_on fd t + sends_on fd u"
  by (simp add: sends_on_def)

lemma receives_on_append [simp]: "receives_on fd (t @ u) = receives_on fd t + receives_on fd u"
  by (simp add: receives_on_def)

lemma hand_over:
  assumes c: "creator_side n fdc tc" and i: "importer_side n fdi ti" and w: "woven tc ti t"
    and caus: "causal fdc fdi t"
  shows "handed_over t"
  unfolding handed_over_def
proof (intro allI impI)
  fix k
  assume k: "k \<le> length t" and "\<exists>e \<in> set (of_process False (take k t)). is_let_go (fst e)"
  then obtain e where e: "e \<in> set (of_process False (take k t))" "is_let_go (fst e)"
    by blast
  obtain t1 t2 where t1: "tc = t1 @ t2" "8 * (n + 1) \<le> receives_on fdc t1" "list_all (\<lambda>c. \<not> is_let_go c) (map fst t1)"
    using c by (auto simp: creator_side_def)
  obtain r where r: "tc = of_process False (take k t) @ r"
    using w of_process_take_prefix [of False t k] unfolding woven_def by metis
  obtain q where q: "of_process False (take k t) = t1 @ q"
  proof -
    from t1(1) r consider us where "of_process False (take k t) @ us = t1" | us where "of_process False (take k t) = t1 @ us"
      by (metis append_eq_append_conv2)
    then show thesis
    proof cases
      case 1
      then have "e \<in> set t1"
        using e(1) by auto
      with t1(3) e(2) show thesis
        by (auto simp: list_all_iff)
    next
      case 2
      then show thesis by (rule that)
    qed
  qed
  then have "8 * (n + 1) \<le> receives_on fdc (of_process False (take k t))"
    using t1(2) by simp
  then have s: "8 * (n + 1) \<le> sends_on fdi (of_process True (take k t))"
    using caus k unfolding causal_def by (meson le_trans)
  obtain u where u: "ti = of_process True (take k t) @ u"
    using w of_process_take_prefix [of True t k] unfolding woven_def by metis
  from i have "\<exists>t1 t2. ti = t1 @ t2 \<and> sends_on fdi t1 \<le> 8 * n \<and> import_undone t1"
    using s u unfolding importer_side_def by auto
  then obtain v1 v2 where v: "ti = v1 @ v2" "sends_on fdi v1 \<le> 8 * n" "import_undone v1"
    by blast
  from v(1) u consider us where "of_process True (take k t) @ us = v1" | us where "of_process True (take k t) = v1 @ us"
    by (metis append_eq_append_conv2)
  then show "import_undone (of_process True (take k t))"
  proof cases
    case 1
    then have "sends_on fdi (of_process True (take k t)) \<le> sends_on fdi v1"
      by auto
    with s v(2) show ?thesis by simp
  next
    case 2
    with v(3) show ?thesis
      by (auto intro: import_undone_mono)
  qed
qed

subsection \<open>The sides of a body\<close>

definition no_send :: "native \<Rightarrow> bool" where
  "no_send c \<longleftrightarrow> (case c of Io (sys_send _ _ _) \<Rightarrow> False | _ \<Rightarrow> True)"

lemma no_send_sends: "list_all no_send (map fst ev) \<Longrightarrow> sends_on fd ev = 0"
  unfolding sends_on_def
  by (induction ev) (auto simp: sent_bytes_def no_send_def split: native.splits io_call.splits)

lemma no_send_simps [simp]:
  "is_store c \<Longrightarrow> no_send c" "is_load c \<Longrightarrow> no_send c" "is_recv fd c \<Longrightarrow> no_send c"
  by (auto simp: no_send_def is_store_def is_load_def is_recv_def split: native.splits io_call.splits)

lemma sends_on_off: "no_send c \<Longrightarrow> sends_on fd [(c, r)] = 0"
  by (rule no_send_sends) simp

lemma no_send_memory [simp]:
  "no_send (halMemAddressReserve p n a q g)" "no_send (halMemCreate h n prop g)"
  "no_send (halMemImportFromShareableHandle x h d)" "no_send (halMemMap p n off h g)"
  "no_send (halMemUnmap p)" "no_send (halMemRelease h)" "no_send (halMemAddressFree p)"
  by (simp_all add: no_send_def)

lemma store_pattern_moves: "moves is_store s (fold (\<lambda>i. store_word E p i (f i)) is s)"
proof (induction "is" arbitrary: s)
  case Nil
  then show ?case by simp
next
  case (Cons i js)
  have "moves is_store s (store_word E p i (f i) s)"
    by (auto simp: store_word_def is_store_def intro: moves_plain)
  with Cons.IH show ?case
    by (auto intro: moves_trans)
qed

lemma is_let_go_simps [simp]:
  "\<not> is_let_go (Io c)" "\<not> is_let_go (Cpu d)" "\<not> is_let_go (Hal h)" "\<not> is_let_go (Acl a)"
  by (simp_all add: is_let_go_def)

lemma effect_simps [simp]:
  "no_send (Hal j)" "no_send (halMemExportToShareableHandle a b c)" "no_send (halMemShareHandleSetAttribute a)"
  "no_send (Cpu k)" "no_send (Acl l)" "no_send aclInit" "no_send (aclrtSetDevice i)"
  "no_send (aclFinalize)" "no_send (aclrtResetDevice i)"
  "\<not> is_let_go (halMemExportToShareableHandle a b c)" "\<not> is_let_go (halMemShareHandleSetAttribute a)"
  "\<not> is_let_go (halMemAddressReserve p n al q g)" "\<not> is_let_go (halMemCreate h2 n prop g)"
  "\<not> is_let_go (halMemMap p n off h2 g)" "\<not> is_let_go aclInit" "\<not> is_let_go (aclrtSetDevice i)"
  by (simp_all add: no_send_def is_let_go_def)

lemma sockets_keep:
  "is_store c \<Longrightarrow> \<not> is_let_go c" "is_load c \<Longrightarrow> \<not> is_let_go c" "is_send fd c \<Longrightarrow> \<not> is_let_go c"
  "is_recv fd c \<Longrightarrow> \<not> is_let_go c"
  by (auto simp: is_store_def is_load_def is_send_def is_recv_def is_let_go_def
      split: native.splits)

text \<open>The memory in the variable was imported and mapped.\<close>

definition imported_in :: "('w, 'z) alloc_get \<Rightarrow> ('w, 'z) probe_scheme \<Rightarrow> bool" where
  "imported_in get s \<longleftrightarrow> (\<exists>token old dev n o1.
     {(halMemImportFromShareableHandle token old dev, 0, alloc_handle (get s)),
      (halMemMap (alloc_va (get s)) n 0 (alloc_handle (get s)) 0, 0, o1)} \<subseteq> set (trace_of s))"

lemma imported_in_grow:
  assumes "imported_in get s" and "get s' = get s" and "trace_of s' = trace_of s @ ev"
  shows "imported_in get s'"
  using assms unfolding imported_in_def by fastforce

lemma importer_side_few: "sends_on fd t \<le> 8 * n \<Longrightarrow> importer_side n fd t"
  by (simp add: importer_side_def)

lemma importer_side_grow: "sends_on fd t \<le> 8 * n \<Longrightarrow> import_undone t \<Longrightarrow> importer_side n fd (t @ ev)"
  by (auto simp: importer_side_def)

lemma importer_side_off:
  assumes "importer_side n fd t" and "list_all no_send (map fst ev)"
  shows "importer_side n fd (t @ ev)"
proof (cases "sends_on fd t \<le> 8 * n")
  case True
  then show ?thesis
    by (simp add: importer_side_def no_send_sends [OF assms(2)])
next
  case False
  then obtain t1 t2 where "t = t1 @ t2" "sends_on fd t1 \<le> 8 * n" "import_undone t1"
    using assms(1) unfolding importer_side_def by blast
  then have "t @ ev = t1 @ (t2 @ ev)" "sends_on fd t1 \<le> 8 * n" "import_undone t1"
    by simp_all
  then show ?thesis
    unfolding importer_side_def by blast
qed

text \<open>A statement that sends one word.\<close>

definition sends_word :: "int \<Rightarrow> ('w, 'z) probe_scheme prog_step \<Rightarrow> bool" where
  "sends_word fd f \<longleftrightarrow> (\<forall>s e s'. f s = Some (e, s') \<longrightarrow>
     (\<exists>ev. trace_of s' = trace_of s @ ev \<and> sends_on fd ev \<le> 8))"

definition sends_at_most :: "int \<Rightarrow> nat \<Rightarrow> ('w, 'z) probe_scheme prog_step list \<Rightarrow> bool" where
  "sends_at_most fd k fs \<longleftrightarrow> (\<forall>s e s'. run_steps fs s = Some (e, s') \<longrightarrow>
     (\<exists>ev. trace_of s' = trace_of s @ ev \<and> sends_on fd ev \<le> k))"

definition receives_at_least :: "int \<Rightarrow> nat \<Rightarrow> ('w, 'z) probe_scheme prog_step list \<Rightarrow> bool" where
  "receives_at_least fd k fs \<longleftrightarrow> (\<forall>s s'. run_steps fs s = Some (None, s') \<longrightarrow>
     (\<exists>ev. trace_of s' = trace_of s @ ev \<and> k \<le> receives_on fd ev))"

definition receives_word :: "int \<Rightarrow> ('w, 'z) probe_scheme prog_step \<Rightarrow> bool" where
  "receives_word fd f \<longleftrightarrow> (\<forall>s s'. f s = Some (None, s') \<longrightarrow>
     (\<exists>ev. trace_of s' = trace_of s @ ev \<and> 8 \<le> receives_on fd ev))"

lemma sends_at_most_Nil: "sends_at_most fd 0 []"
  by (simp add: sends_at_most_def sends_on_def)

lemma sends_at_most_append:
  assumes "sends_at_most fd j fs" and "sends_at_most fd k gs"
  shows "sends_at_most fd (j + k) (fs @ gs)"
  unfolding sends_at_most_def
proof (intro allI impI)
  fix s e s'
  assume run: "run_steps (fs @ gs) s = Some (e, s')"
  then obtain e1 s1 where f: "run_steps fs s = Some (e1, s1)"
    by (cases "run_steps fs s") (auto simp: run_steps_append)
  then obtain ev where ev: "trace_of s1 = trace_of s @ ev" "sends_on fd ev \<le> j"
    using assms(1) unfolding sends_at_most_def by blast
  show "\<exists>ev. trace_of s' = trace_of s @ ev \<and> sends_on fd ev \<le> j + k"
  proof (cases e1)
    case None
    with run f have "run_steps gs s1 = Some (e, s')" by (simp add: run_steps_append)
    then obtain ev' where "trace_of s' = trace_of s1 @ ev'" "sends_on fd ev' \<le> k"
      using assms(2) unfolding sends_at_most_def by blast
    with ev show ?thesis
      by (intro exI [of _ "ev @ ev'"]) simp
  next
    case (Some x)
    with run f have "s' = s1" by (simp add: run_steps_append)
    with ev show ?thesis by auto
  qed
qed

lemma sends_none: "\<forall>f \<in> set fs. appends no_send f \<Longrightarrow> sends_at_most fd 0 fs"
  unfolding sends_at_most_def using appends_run [of fs no_send] no_send_sends
  by (metis appendsD le_zero_eq)

lemma sends_one: "sends_word fd f \<Longrightarrow> sends_at_most fd 8 [f]"
  unfolding sends_at_most_def sends_word_def by (auto split: option.splits)

lemma receives_append:
  assumes "receives_at_least fd j fs" and "receives_at_least fd k gs"
  shows "receives_at_least fd (j + k) (fs @ gs)"
  unfolding receives_at_least_def
proof (intro allI impI)
  fix s s'
  assume run: "run_steps (fs @ gs) s = Some (None, s')"
  then obtain s1 where f: "run_steps fs s = Some (None, s1)" "run_steps gs s1 = Some (None, s')"
    by (auto simp: run_steps_append split: option.splits)
  then obtain ev ev' where "trace_of s1 = trace_of s @ ev" "j \<le> receives_on fd ev"
    "trace_of s' = trace_of s1 @ ev'" "k \<le> receives_on fd ev'"
    using assms unfolding receives_at_least_def by blast
  then show "\<exists>ev. trace_of s' = trace_of s @ ev \<and> j + k \<le> receives_on fd ev"
    by (intro exI [of _ "ev @ ev'"]) simp
qed

lemma receives_none: "\<forall>f \<in> set fs. appends C f \<Longrightarrow> receives_at_least fd 0 fs"
  unfolding receives_at_least_def using appends_run [of fs C] by (metis appendsD le0)

lemma receives_one: "receives_word fd f \<Longrightarrow> receives_at_least fd 8 [f]"
  unfolding receives_at_least_def receives_word_def by (auto split: option.splits)

text \<open>The words of src/cli.hpp as statements.\<close>

lemma send_word_effects:
  assumes "bounded_transfers E"
  shows "sends_word fd (\<lambda>s. send_word E fd (v s) s)"
    "(\<And>s t. get (s\<lparr>sys_of := t\<rparr>) = get s) \<Longrightarrow> leaves get (\<lambda>s. send_word E fd (v s) s)"
    "appends (is_send fd) (\<lambda>s. send_word E fd (v s) s)"
proof -
  have r: "sends_rest fd (v s) 0 s e s'" if "send_word E fd (v s) s = Some (e, s')" for s e s'
    by (rule send_word_spec [OF assms that])
  show "sends_word fd (\<lambda>s. send_word E fd (v s) s)"
    unfolding sends_word_def
  proof (intro allI impI)
    fix s e s'
    assume "send_word E fd (v s) s = Some (e, s')"
    from r [OF this] obtain ev where ev: "trace_of s' = trace_of s @ ev"
      and b: "e = None \<longrightarrow> sent_bytes fd ev = map (byte_at (v s)) [0..<8]" "e \<noteq> None \<longrightarrow> length (sent_bytes fd ev) < 8"
      by (auto simp: sends_rest_def)
    have "sends_on fd ev \<le> 8"
      using b by (cases "e = None") (simp_all add: sends_on_def)
    with ev show "\<exists>ev. trace_of s' = trace_of s @ ev \<and> sends_on fd ev \<le> 8"
      by blast
  qed
  have m: "moves (is_send fd) s s'" if "send_word E fd (v s) s = Some (e, s')" for s e s'
    using r [OF that] unfolding sends_rest_def moves_def by blast
  show "leaves get (\<lambda>s. send_word E fd (v s) s)" if "\<And>s t. get (s\<lparr>sys_of := t\<rparr>) = get s"
    by (rule leaves_moves [where C = "is_send fd"]) (rule m, assumption, rule that)
  show "appends (is_send fd) (\<lambda>s. send_word E fd (v s) s)"
    by (rule appends_moves) (rule m, assumption)
qed

lemma send_const_effects:
  assumes "bounded_transfers E"
  shows "sends_word fd (send_word E fd v)"
    "(\<And>s t. get (s\<lparr>sys_of := t\<rparr>) = get s) \<Longrightarrow> leaves get (send_word E fd v)"
    "appends (is_send fd) (send_word E fd v)"
  by (rule send_word_effects [OF assms, where v = "\<lambda>_. v"], assumption?)+

lemma receive_word_moves:
  assumes "bounded_transfers E" and "receive_word E fd s = Some (r, s')"
  shows "moves (is_recv fd) s s'"
    "r = Inr w \<Longrightarrow> \<exists>ev. trace_of s' = trace_of s @ ev \<and> receives_on fd ev = 8"
  using receive_word_spec [OF assms] by (auto simp: receives_rest_def moves_def receives_on_def)

lemma check_receive_effects:
  assumes law: "bounded_transfers E"
  shows "appends (is_recv fd) (check_receive E fd ok what)"
    "(\<And>s t. get (s\<lparr>sys_of := t\<rparr>) = get s) \<Longrightarrow> leaves get (check_receive E fd ok what)"
    "receives_word fd (check_receive E fd ok what)"
proof -
  have m: "moves (is_recv fd) s s' \<and> (e = None \<longrightarrow> (\<exists>ev. trace_of s' = trace_of s @ ev \<and> receives_on fd ev = 8))"
    if f: "check_receive E fd ok what s = Some (e, s')" for s e s'
  proof -
    obtain r s1 where w: "receive_word E fd s = Some (r, s1)"
      using f by (cases "receive_word E fd s") (auto simp: check_receive_def)
    have "s' = s1 \<and> (e = None \<longrightarrow> (\<exists>w. r = Inr w))"
      using f w by (auto simp: check_receive_def split: sum.splits if_splits)
    with receive_word_moves [OF law w] show ?thesis by blast
  qed
  show "appends (is_recv fd) (check_receive E fd ok what)"
    by (rule appends_moves) (use m in blast)
  show "leaves get (check_receive E fd ok what)" if "\<And>s t. get (s\<lparr>sys_of := t\<rparr>) = get s"
    by (rule leaves_moves [where C = "is_recv fd"]) (use m in blast, rule that)
  show "receives_word fd (check_receive E fd ok what)"
    unfolding receives_word_def using m by (metis order_refl)
qed

lemma receive_into_effects:
  assumes law: "bounded_transfers E" and wr: "\<And>v s. sys_of (wr v s) = sys_of s"
  shows "appends (is_recv fd) (receive_into E fd wr)"
    "(\<And>s t. get (s\<lparr>sys_of := t\<rparr>) = get s) \<Longrightarrow> (\<And>v s. get (wr v s) = get s) \<Longrightarrow> leaves get (receive_into E fd wr)"
    "receives_word fd (receive_into E fd wr)"
proof -
  have m: "\<exists>u. moves (is_recv fd) s u \<and> (s' = u \<or> (\<exists>v. s' = wr v u)) \<and>
      (e = None \<longrightarrow> (\<exists>ev. trace_of u = trace_of s @ ev \<and> receives_on fd ev = 8))"
    if f: "receive_into E fd wr s = Some (e, s')" for s e s'
  proof -
    obtain r s1 where w: "receive_word E fd s = Some (r, s1)"
      using f by (cases "receive_word E fd s") (auto simp: receive_into_def)
    have "(s' = s1 \<or> (\<exists>v. s' = wr v s1)) \<and> (e = None \<longrightarrow> (\<exists>w. r = Inr w))"
      using f w by (auto simp: receive_into_def split: sum.splits)
    with receive_word_moves [OF law w] show ?thesis by blast
  qed
  show "receives_word fd (receive_into E fd wr)"
    unfolding receives_word_def
  proof (intro allI impI)
    fix s s'
    assume "receive_into E fd wr s = Some (None, s')"
    then obtain u ev where "s' = u \<or> (\<exists>v. s' = wr v u)" "trace_of u = trace_of s @ ev" "receives_on fd ev = 8"
      using m by blast
    moreover from this have "trace_of s' = trace_of u"
      using wr by (auto simp: trace_of_def)
    ultimately show "\<exists>ev. trace_of s' = trace_of s @ ev \<and> 8 \<le> receives_on fd ev"
      by auto
  qed
  show "appends (is_recv fd) (receive_into E fd wr)"
  proof (rule appendsI)
    fix s e s'
    assume "receive_into E fd wr s = Some (e, s')"
    then obtain u where u: "moves (is_recv fd) s u" and "s' = u \<or> (\<exists>v. s' = wr v u)"
      using m by blast
    then have "trace_of s' = trace_of u"
      using wr by (auto simp: trace_of_def)
    with moves_trace [OF u] show "\<exists>ev. trace_of s' = trace_of s @ ev \<and> list_all (is_recv fd) (map fst ev)"
      by simp
  qed
  show "leaves get (receive_into E fd wr)"
    if g: "\<And>s t. get (s\<lparr>sys_of := t\<rparr>) = get s" "\<And>v s. get (wr v s) = get s"
  proof (rule leavesI)
    fix s e s'
    assume "receive_into E fd wr s = Some (e, s')"
    then obtain u where u: "moves (is_recv fd) s u" and s': "s' = u \<or> (\<exists>v. s' = wr v u)"
      using m by blast
    have "get u = get s"
      by (subst moves_same [OF u]) (rule g)
    with s' g(2) show "get s' = get s" by auto
  qed
qed

context alloc_slot
begin

lemma trace_upd: "trace_of (upd f s) = trace_of s"
  by (simp add: trace_of_def upd_frame)

lemmas slot_simps = get_upd get_sys trace_upd sends_on_off

lemma import_imports:
  "triple (\<lambda>s. sends_on fd (trace_of s) = 0)
     (run_steps [import_step E w1 get upd tok dev, map_step E w2 get upd bytes])
     (\<lambda>s. sends_on fd (trace_of s) = 0 \<and> imported_in get s) (\<lambda>s. sends_on fd (trace_of s) = 0)"
proof (rule triple_Cons [OF _ triple_Cons [OF _ triple_Nil]])
  show "triple (\<lambda>s. sends_on fd (trace_of s) = 0) (import_step E w1 get upd tok dev)
      (\<lambda>s. sends_on fd (trace_of s) = 0 \<and>
        (\<exists>token old dev. (halMemImportFromShareableHandle token old dev, 0, alloc_handle (get s)) \<in> set (trace_of s)))
      (\<lambda>s. sends_on fd (trace_of s) = 0)"
    unfolding import_step_def
    by (rule triple_check)
      (auto simp: slot_simps)
  show "triple (\<lambda>s. sends_on fd (trace_of s) = 0 \<and>
        (\<exists>token old dev. (halMemImportFromShareableHandle token old dev, 0, alloc_handle (get s)) \<in> set (trace_of s)))
      (map_step E w2 get upd bytes)
      (\<lambda>s. sends_on fd (trace_of s) = 0 \<and> imported_in get s) (\<lambda>s. sends_on fd (trace_of s) = 0)"
    unfolding map_step_def
    by (rule triple_check)
      (auto simp: slot_simps imported_in_def; blast)
qed

lemma give_back_undoes:
  "triple (\<lambda>s. sends_on fd (trace_of s) \<le> lim \<and> imported_in get s)
     (run_steps [unmap_step E w1 get upd, release_step E w2 get upd, free_step E w3 get upd])
     (\<lambda>s. sends_on fd (trace_of s) \<le> lim \<and> import_undone (trace_of s)) (\<lambda>s. sends_on fd (trace_of s) \<le> lim)"
proof (rule triple_Cons [OF _ triple_Cons [OF _ triple_Cons [OF _ triple_Nil]]])
  let ?few = "\<lambda>s. sends_on fd (trace_of s) \<le> lim"
  show "triple (\<lambda>s. ?few s \<and> imported_in get s) (unmap_step E w1 get upd)
      (\<lambda>s. ?few s \<and> imported_in get s \<and> (\<exists>o2. (halMemUnmap (alloc_va (get s)), 0, o2) \<in> set (trace_of s))) ?few"
    unfolding unmap_step_def
    by (rule triple_check)
      (auto simp: slot_simps imported_in_def; blast)
  show "triple (\<lambda>s. ?few s \<and> imported_in get s \<and> (\<exists>o2. (halMemUnmap (alloc_va (get s)), 0, o2) \<in> set (trace_of s)))
      (release_step E w2 get upd)
      (\<lambda>s. ?few s \<and> (\<exists>h token old dev n o1 o2 o3.
        {(halMemImportFromShareableHandle token old dev, 0, h), (halMemMap (alloc_va (get s)) n 0 h 0, 0, o1),
         (halMemUnmap (alloc_va (get s)), 0, o2), (halMemRelease h, 0, o3)} \<subseteq> set (trace_of s))) ?few"
    unfolding release_step_def
    by (rule triple_check)
      (auto simp: slot_simps imported_in_def; blast)
  show "triple (\<lambda>s. ?few s \<and> (\<exists>h token old dev n o1 o2 o3.
        {(halMemImportFromShareableHandle token old dev, 0, h), (halMemMap (alloc_va (get s)) n 0 h 0, 0, o1),
         (halMemUnmap (alloc_va (get s)), 0, o2), (halMemRelease h, 0, o3)} \<subseteq> set (trace_of s)))
      (free_step E w3 get upd) (\<lambda>s. ?few s \<and> import_undone (trace_of s)) ?few"
    unfolding free_step_def
    by (rule triple_check)
      (auto simp: slot_simps import_undone_def; blast)
qed

lemma importer_body:
  assumes pre: "\<forall>f \<in> set pre. appends no_send f"
    and mid: "sends_at_most fd (8 * n) mid" "\<forall>f \<in> set mid. leaves get f"
    and post: "\<forall>f \<in> set post. appends (\<lambda>_. True) f"
  shows "triple (\<lambda>s. sends_on fd (trace_of s) = 0)
    (run_steps (pre @ [import_step E w1 get upd tok dev, map_step E w2 get upd bytes] @ mid @
      [unmap_step E w3 get upd, release_step E w4 get upd, free_step E w5 get upd] @ post))
    (\<lambda>s. importer_side n fd (trace_of s)) (\<lambda>s. importer_side n fd (trace_of s))"
proof -
  let ?few = "\<lambda>s. sends_on fd (trace_of s) \<le> 8 * n"
  let ?side = "\<lambda>s. importer_side n fd (trace_of s)"
  have few: "triple P f Q ?few \<Longrightarrow> triple P f Q ?side" for P f Q
    by (erule triple_weaken) (simp_all add: importer_side_few)
  have zero: "triple P f Q (\<lambda>s. sends_on fd (trace_of s) = 0) \<Longrightarrow> triple P f Q ?side" for P f Q
    by (erule triple_weaken) (simp_all add: importer_side_few)
  have p1: "triple (\<lambda>s. sends_on fd (trace_of s) = 0) (run_steps pre) (\<lambda>s. sends_on fd (trace_of s) = 0)
      (\<lambda>s. sends_on fd (trace_of s) = 0)"
  proof (rule tripleI)
    fix s e s'
    assume "sends_on fd (trace_of s) = 0" "run_steps pre s = Some (e, s')"
    moreover have "appends no_send (run_steps pre)"
      using pre by (rule appends_run)
    ultimately have "sends_on fd (trace_of s') = 0"
      by (auto simp: no_send_sends elim!: appendsD)
    then show "if e = None then sends_on fd (trace_of s') = 0 else sends_on fd (trace_of s') = 0"
      by simp
  qed
  have p3: "triple (\<lambda>s. sends_on fd (trace_of s) = 0 \<and> imported_in get s) (run_steps mid)
      (\<lambda>s. ?few s \<and> imported_in get s) ?few"
  proof (rule tripleI)
    fix s e s'
    assume P: "sends_on fd (trace_of s) = 0 \<and> imported_in get s" and run: "run_steps mid s = Some (e, s')"
    obtain ev where "trace_of s' = trace_of s @ ev" "sends_on fd ev \<le> 8 * n"
      using mid(1) run unfolding sends_at_most_def by blast
    with P leavesD [OF leaves_run [OF mid(2)] run] show "if e = None then ?few s' \<and> imported_in get s' else ?few s'"
      by (auto intro: imported_in_grow)
  qed
  have p5: "triple (\<lambda>s. ?few s \<and> import_undone (trace_of s)) (run_steps post) ?side ?side"
  proof (rule tripleI)
    fix s e s'
    assume P: "?few s \<and> import_undone (trace_of s)" and run: "run_steps post s = Some (e, s')"
    obtain ev where "trace_of s' = trace_of s @ ev"
      using appendsD [OF appends_run [OF post] run] by metis
    with P show "if e = None then ?side s' else ?side s'"
      by (simp add: importer_side_grow)
  qed
  show ?thesis
    by (rule triple_append [OF zero [OF p1] triple_append [OF zero [OF import_imports] triple_append [OF few [OF p3]
        triple_append [OF few [OF give_back_undoes] p5]]]])
qed

end

text \<open>A passing creator body in which the words are received and nothing is let go.\<close>

lemma creator_body:
  assumes c: "\<forall>f \<in> set fs. appends (\<lambda>c. \<not> is_let_go c) f"
    and r: "receives_at_least fd (8 * (n + 1)) fs"
    and run: "run_steps fs s = Some (None, s')" and t: "list_all (\<lambda>c. \<not> is_let_go c) (map fst (trace_of s))"
  shows "creator_side n fd (trace_of s' @ ev)"
proof -
  obtain ev1 where e1: "trace_of s' = trace_of s @ ev1" "8 * (n + 1) \<le> receives_on fd ev1"
    using r run unfolding receives_at_least_def by blast
  have "list_all (\<lambda>c. \<not> is_let_go c) (map fst (trace_of s'))"
    using appendsD [OF appends_run [OF c] run] t by (metis list_all_append map_append)
  with e1 show ?thesis
    unfolding creator_side_def by (intro exI [of _ "trace_of s'"] exI [of _ ev]) simp
qed

subsection \<open>After the body\<close>

definition grows :: "(native \<Rightarrow> bool) \<Rightarrow> ('w, 'z) probe_scheme \<Rightarrow> ('w, 'z) probe_scheme \<Rightarrow> bool" where
  "grows C s s' \<longleftrightarrow> (\<exists>ev. trace_of s' = trace_of s @ ev \<and> list_all C (map fst ev))"

lemma grows_refl [simp]: "grows C s s"
  by (simp add: grows_def)

lemma grows_trans: "grows C s t \<Longrightarrow> grows C t u \<Longrightarrow> grows C s u"
  by (auto simp: grows_def)

lemma grows_plain: "C c \<Longrightarrow> grows C s (plain_call E c s)"
  using moves_trace [OF moves_plain [of C c s E]] by (simp add: grows_def)

lemma grows_cleanup: "C c \<Longrightarrow> grows C s (cleanup E c s)"
  by (rule cleanup_cases [of E c s]) (auto simp: grows_def)

lemma grows_cleanup_if: "C c \<Longrightarrow> grows C s (if b then cleanup E c s else s)"
  by (simp add: grows_cleanup)

lemma Allocation_destroy_grows:
  assumes "C (halMemUnmap (alloc_va m))" "C (halMemRelease (alloc_handle m))" "C (halMemAddressFree (alloc_va m))"
  shows "grows C s (Allocation_destroy E m s)"
proof -
  let ?s1 = "if alloc_mapped m then cleanup E (halMemUnmap (alloc_va m)) s else s"
  let ?s2 = "if alloc_handle m \<noteq> nullptr then cleanup E (halMemRelease (alloc_handle m)) ?s1 else ?s1"
  have "grows C s ?s1" "grows C ?s1 ?s2"
    by (rule grows_cleanup_if, rule assms)+
  moreover have "grows C ?s2 (Allocation_destroy E m s)"
    unfolding Allocation_destroy_def Let_def by (rule grows_cleanup_if, rule assms)
  ultimately show ?thesis
    by (blast intro: grows_trans)
qed

lemma in_books_add:
  "in_books r0 s held \<Longrightarrow> in_books (r0 + x) s (held + x)"
  by (auto simp: in_books_def ac_simps)

lemma truncate_simps [simp]:
  "sys_of (probe.truncate s) = sys_of s" "cleanup_failed (probe.truncate s) = cleanup_failed s"
  "trace_of (probe.truncate s) = trace_of s"
  by (simp_all add: probe.truncate_def trace_of_def)

lemma give_books:
  assumes "in_books r0 s (held + r)" and "\<And>ret out. gets (c, ret, out) = {#} \<and> gives (c, ret, out) = r"
  shows "in_books r0 (plain_call E c s) held"
proof (rule probe_call_cases [of E c s])
  fix ret out w
  assume c: "probe_call E c s = (ret, out, s\<lparr>sys_of := (sys_of s)
      \<lparr>drv := w, trace := trace (sys_of s) @ [(c, ret, out)]\<rparr>\<rparr>)"
  show ?thesis
    by (rule in_books_event [OF assms(1), where e = "(c, ret, out)"])
      (simp_all add: plain_call_def c trace_of_def assms(2) add.commute)
qed

lemma close_books:
  "in_books r0 s (add_mset (R_fd fd) held) \<Longrightarrow> in_books r0 (plain_call E (Io (sys_close fd)) s) held"
  by (rule give_books [where r = "{#R_fd fd#}"]) (simp_all add: ledger_simps)

lemma vector_delete_books:
  "in_books r0 s (held + one_if b (R_vector p)) \<Longrightarrow>
   in_books r0 (if b then plain_call E (Cpu (vector_delete p)) s else s) held"
  by (cases b) (auto intro: give_books [where r = "{#R_vector p#}"] simp: ledger_simps)

lemma plain_call_same: "plain_call E c s = s\<lparr>sys_of := sys_of (plain_call E c s)\<rparr>"
  by (rule moves_same [OF moves_plain [of "\<lambda>_. True"]]) simp

subsection \<open>Books of a body\<close>

lemma neutral_kinds:
  "is_send fd c \<Longrightarrow> neutral (c, r)" "is_recv fd c \<Longrightarrow> neutral (c, r)"
  "is_store c \<Longrightarrow> neutral (c, r)" "is_load c \<Longrightarrow> neutral (c, r)"
  by (blast intro: socket_neutral load_store_neutral)+

text \<open>
  \<open>slot_at\<close>: the books hold, \<open>Z\<close> holds of the other variables, and the allocation has got as far
  as the flags allow: \<open>a\<close> an address range, \<open>h\<close> a handle, \<open>m\<close> the mapping.
\<close>

definition slot_at ::
  "('w, 'z) alloc_get \<Rightarrow> (('w, 'z) probe_scheme \<Rightarrow> resource multiset) \<Rightarrow> (('w, 'z) probe_scheme \<Rightarrow> bool) \<Rightarrow>
   resource multiset \<Rightarrow> bool \<Rightarrow> bool \<Rightarrow> bool \<Rightarrow> ('w, 'z) probe_scheme \<Rightarrow> bool" where
  "slot_at get rest Z r0 a h m s \<longleftrightarrow> slot_books get rest r0 s \<and> Z s \<and>
     (a \<or> alloc_va (get s) = nullptr) \<and> (h \<or> alloc_handle (get s) = nullptr) \<and> alloc_mapped (get s) = m"

lemma triple_quiet_at:
  assumes "appends C f" and "\<And>c r. C c \<Longrightarrow> neutral (c, r)"
    and "leaves (\<lambda>s. (get s, rest s, Z s, cleanup_failed s)) f"
  shows "triple (slot_at get rest Z r0 a h m) f (slot_at get rest Z r0 a h m) (slot_books get rest r0)"
proof (rule tripleI)
  fix s e s'
  assume at: "slot_at get rest Z r0 a h m s" and f: "f s = Some (e, s')"
  obtain ev where ev: "trace_of s' = trace_of s @ ev" "list_all C (map fst ev)"
    by (rule appendsD [OF assms(1) f])
  have n: "list_all neutral ev"
    using ev(2) by (induction ev) (auto intro: assms(2))
  have same: "get s' = get s" "rest s' = rest s" "Z s' = Z s" "cleanup_failed s' = cleanup_failed s"
    using leavesD [OF assms(3) f] by simp_all
  have "slot_books get rest r0 s'"
    unfolding slot_books_def same
    by (rule in_books_neutral [OF _ ev(1) n]) (use at same in \<open>simp_all add: slot_at_def slot_books_def\<close>)
  with at same show "if e = None then slot_at get rest Z r0 a h m s' else slot_books get rest r0 s'"
    by (simp add: slot_at_def)
qed

lemma triple_at_when:
  "(b \<Longrightarrow> triple P (run_steps fs) P X) \<Longrightarrow> triple P (when_step b fs) P X"
  by (rule triple_when)

context alloc_slot
begin

lemma slot_at_steps:
  assumes Z: "\<And>f s. Z (upd f s) = Z s" "\<And>s t. Z (s\<lparr>sys_of := t\<rparr>) = Z s"
  shows
    "triple (slot_at get rest Z r0 False h False) (reserve_step E what get upd bytes)
       (slot_at get rest Z r0 True h False) (slot_books get rest r0)"
    "triple (slot_at get rest Z r0 a False m) (create_step E what get upd bytes prop)
       (slot_at get rest Z r0 a True m) (slot_books get rest r0)"
    "triple (slot_at get rest Z r0 a False m) (import_step E what get upd tok dev)
       (slot_at get rest Z r0 a True m) (slot_books get rest r0)"
    "triple (slot_at get rest Z r0 a h False) (map_step E what get upd bytes)
       (slot_at get rest Z r0 a h True) (slot_books get rest r0)"
    "triple (slot_at get rest Z r0 a h True) (unmap_step E what get upd)
       (slot_at get rest Z r0 a h False) (slot_books get rest r0)"
    "triple (slot_at get rest Z r0 a h m) (release_step E what get upd)
       (slot_at get rest Z r0 a False m) (slot_books get rest r0)"
    "triple (slot_at get rest Z r0 a h False) (free_step E what get upd)
       (slot_at get rest Z r0 False h False) (slot_books get rest r0)"
  unfolding alloc_steps
  by (rule triple_check; auto simp: slot_at_def get_upd get_sys Z alloc_held_def intro!: books_upd intro: books_same)+

end

end
