(* ===== verification/Probe_Launch.thy ===== *)
theory Probe_Launch
  imports Probe_Protocol
begin

text \<open>
  \<open>launch\<close> (src/cli.hpp, and its copy in hal_map_probe.cpp) and the worker it is given. What
  \<open>launch\<close> relies on is the interface \<open>pair_worker\<close>: the worker keeps its books and closes its end
  of the socket pair, and keeps its side of the hand-over. What \<open>launch\<close> then promises is proved
  once, for every worker: both ends of the pair are closed whatever fails, exit code 0 means that
  both processes passed, and the parent is a creator.
\<close>

lemma books_event:
  assumes "in_books r0 s h" and "trace t = trace_of s @ [e]" and "sys_of u = t"
    and "cleanup_failed u = cleanup_failed s" and "h + gets e = gives e + h'"
  shows "in_books r0 u h'"
  by (rule in_books_event [OF assms(1), where e = e]) (use assms(2-5) in \<open>simp_all add: trace_of_def\<close>)

definition is_proc :: "native \<Rightarrow> bool" where
  "is_proc c \<longleftrightarrow> (case c of Proc _ \<Rightarrow> True | _ \<Rightarrow> False)"

lemma is_proc_simps [simp]: "is_proc (Proc p)"
  by (simp add: is_proc_def)

lemma is_proc_quiet: "is_proc c \<Longrightarrow> \<not> is_let_go c \<and> no_send c \<and> neutral (c, r)"
  by (cases r; cases c) (simp_all add: is_proc_def is_let_go_def no_send_def neutral_def ledger_simps)

definition is_setting :: "native \<Rightarrow> bool" where
  "is_setting c \<longleftrightarrow> (case c of Proc (sys_setsockopt _ _) \<Rightarrow> True | _ \<Rightarrow> False)"

lemma set_timeouts_calls: "set_timeouts E fd s = (ok, s') \<Longrightarrow> moves is_setting s s'"
proof -
  assume t: "set_timeouts E fd s = (ok, s')"
  obtain r1 o1 s1 where c1: "probe_call E (Proc (sys_setsockopt fd True)) s = (r1, o1, s1)"
    by (rule prod_cases3)
  obtain r2 o2 s2 where c2: "probe_call E (Proc (sys_setsockopt fd False)) s1 = (r2, o2, s2)"
    by (rule prod_cases3)
  from t c1 c2 have "s' = s1 \<or> s' = s2"
    by (auto simp: set_timeouts_def split: if_splits)
  moreover have "moves is_setting s s1" "moves is_setting s1 s2"
    by (rule moves_call [OF _ c1], simp add: is_setting_def, rule moves_call [OF _ c2], simp add: is_setting_def)
  ultimately show ?thesis
    by (auto intro: moves_trans)
qed

lemma set_timeouts_moves: "set_timeouts E fd s = (ok, s') \<Longrightarrow> moves is_proc s s'"
  by (rule moves_mono [OF set_timeouts_calls])
    (auto simp: is_setting_def is_proc_def split: native.splits)

definition waits :: "int \<Rightarrow> ('w, 'z) probe_scheme \<Rightarrow> int \<times> u64 \<times> ('w, 'z) probe_scheme \<Rightarrow> bool" where
  "waits child s x \<longleftrightarrow> (case x of (waited, status, s') \<Rightarrow> moves is_proc s s' \<and>
     (\<exists>t. trace_of s' = t @ [(Proc (sys_waitpid child), waited, status)]))"

lemma wait_child_waits:
  assumes "wait_child E child s = Some x"
  shows "waits child s x"
proof (rule wait_child.raw_induct [OF _ assms])
  fix loop :: "'a env \<Rightarrow> int \<Rightarrow> ('a, 'b) probe_scheme \<Rightarrow> (int \<times> u64 \<times> ('a, 'b) probe_scheme) option"
    and E child s x
  assume IH: "\<And>E child s x. loop E child s = Some x \<Longrightarrow> waits child s x"
    and r: "(case probe_call E (Proc (sys_waitpid child)) s of (waited, status, s1) \<Rightarrow>
        if waited = - EINTR then loop E child s1 else Some (waited, status, s1)) = Some x"
  obtain w o1 s1 where c1: "probe_call E (Proc (sys_waitpid child)) s = (w, o1, s1)"
    by (rule prod_cases3)
  have m: "moves is_proc s s1"
    by (rule moves_call [OF _ c1]) simp
  show "waits child s x"
  proof (cases "w = - EINTR")
    case True
    with r c1 have "loop E child s1 = Some x" by simp
    from IH [OF this] m show ?thesis
      by (auto simp: waits_def split: prod.splits intro: moves_trans)
  next
    case False
    with r c1 have "x = (w, o1, s1)" by simp
    with m probe_call_trace [OF c1] show ?thesis
      by (simp add: waits_def)
  qed
qed

lemma wait_child_Some:
  assumes "wait_child E child s = Some (waited, status, s')"
  shows "moves is_proc s s'" "(Proc (sys_waitpid child), waited, status) \<in> set (trace_of s')"
  using wait_child_waits [OF assms] by (auto simp: waits_def)

subsection \<open>The ways through \<open>launch_pair\<close>\<close>

lemma launch_pair_cases:
  assumes "launch_pair E fd_args worker args s = Some (x, s')"
  obtains (pair) r out s1 where "probe_call E (Proc sys_socketpair) s = (r, out, s1)" "r \<noteq> 0" "x = Exit 2" "s' = s1"
  | (closed) out s1 s2 where "probe_call E (Proc sys_socketpair) s = (0, out, s1)" "moves is_proc s1 s2"
      "x = Exit 2" "s' = close_both E (low_fd out) (high_fd out) s2"
  | (child) out s1 s2 where "probe_call E (Proc sys_socketpair) s = (0, out, s1)" "moves is_proc s1 s2"
      "(x, s') = child_image E (low_fd out) (args @ fd_args (to_string_int (high_fd out))) s2"
  | (parent) out s1 s2 child n s3 waited status where
      "probe_call E (Proc sys_socketpair) s = (0, out, s1)" "moves is_proc s1 s2" "0 < child"
      "worker False (low_fd out) (plain_call E (Io (sys_close (high_fd out))) s2) = Some (n, s3)"
      "wait_child E child s3 = Some (waited, status, s')"
      "x = Exit (if waited < 0 then 2 else if n \<noteq> 0 \<or> status \<noteq> 0 then 1 else 0)"
proof -
  obtain r out s1 where c1: "probe_call E (Proc sys_socketpair) s = (r, out, s1)"
    by (rule prod_cases3)
  let ?a = "low_fd out" and ?b = "high_fd out"
  show thesis
  proof (cases "r = 0")
    case False
    with assms c1 show thesis
      by (intro pair) (auto simp: launch_pair_def)
  next
    case True
    with c1 have c1: "probe_call E (Proc sys_socketpair) s = (0, out, s1)" by simp
    obtain ok1 t1 where t1: "set_timeouts E ?a s1 = (ok1, t1)" by (cases "set_timeouts E ?a s1")
    obtain ok s2 where t: "(if ok1 then set_timeouts E ?b t1 else (False, t1)) = (ok, s2)" by fastforce
    then have m2: "moves is_proc s1 s2"
      using set_timeouts_moves [OF t1] set_timeouts_moves [of E ?b t1] by (auto split: if_splits intro: moves_trans)
    show thesis
    proof (cases ok)
      case False
      with assms c1 t1 t m2 show thesis
        by (intro closed) (auto simp: launch_pair_def Let_def)
    next
      case ok: True
      obtain child o3 s3 where c3: "probe_call E (Proc sys_fork) s2 = (child, o3, s3)"
        by (rule prod_cases3)
      have m3: "moves is_proc s1 s3"
        by (rule moves_trans [OF m2 moves_call [OF _ c3]]) simp
      have l: "launch_pair E fd_args worker args s =
          (if child < 0 then Some (Exit 2, close_both E ?a ?b s3)
           else if child = 0 then Some (child_image E ?a (args @ fd_args (to_string_int ?b)) s3)
           else parent_waits E child (worker False ?a (plain_call E (Io (sys_close ?b)) s3)))"
        using ok c1 t1 t c3 by (simp add: launch_pair_def Let_def)
      consider "child < 0" | "child = 0" | "0 < child" by linarith
      then show thesis
      proof cases
        case 1
        with l assms show thesis
          by (intro closed [OF c1 m3]) auto
      next
        case 2
        with l assms show thesis
          by (intro child [OF c1 m3]) auto
      next
        case 3
        with l assms obtain n s4 waited status where
          "worker False ?a (plain_call E (Io (sys_close ?b)) s3) = Some (n, s4)"
          "wait_child E child s4 = Some (waited, status, s')"
          "x = Exit (if waited < 0 then 2 else if n \<noteq> 0 \<or> status \<noteq> 0 then 1 else 0)"
          by (auto simp: parent_waits_def split: option.splits)
        with 3 show thesis
          by (intro parent [OF c1 m3])
      qed
    qed
  qed
qed

lemma child_image_ends: "(x, s') = child_image E fd args s \<Longrightarrow> x = Replaced args \<or> x = Exit 127"
  by (auto simp: child_image_def split: prod.splits if_splits)

text \<open>The pair a process has made is the first thing in its trace.\<close>

definition own_pair :: "event list \<Rightarrow> u64 option" where
  "own_pair t = (case t of (Proc sys_socketpair, r, out) # _ \<Rightarrow> if r = 0 then Some out else None | _ \<Rightarrow> None)"

lemma own_pair_first: "own_pair ((Proc sys_socketpair, r, out) # t) = (if r = 0 then Some out else None)"
  by (simp add: own_pair_def)

subsection \<open>The arguments of the second process\<close>

lemma cli_scan_append:
  "cli_scan al args opt = Cli_Ok opt' \<Longrightarrow> cli_scan al (args @ later) opt = cli_scan al later opt'"
  by (induction al args opt rule: cli_scan.induct) (auto split: if_splits sum.splits)

lemma scan_to_string_int: "0 \<le> b \<Longrightarrow> scan_unsigned (to_string_int b) = Some (False, nat b, [])"
  using scan_unsigned_digits [OF nat_to_string_digits nat_to_string_nonempty, of "[]" "nat b"]
  by (simp add: to_string_int_def)

lemma number_to_string_int:
  assumes "0 \<le> b" and "b < 2 ^ 31"
  shows "number (to_string_int b) = Inr (of_int b)"
proof -
  have d: "only_digits (to_string_int b)" "to_string_int b \<noteq> []"
    using assms nat_to_string_digits [of "nat b"] nat_to_string_nonempty [of "nat b"]
    by (simp_all add: to_string_int_def only_digits_def list_all_iff)
  have "nat b < 2 ^ 64"
    using assms by simp
  with assms d show ?thesis
    by (simp add: number_def stoull_def scan_to_string_int signed_u64_def)
qed

lemma high_fd_bound: "high_fd w < 2 ^ 31"
  using sint_less [of "ucast (drop_bit 32 w) :: u32"] by (simp add: high_fd_def)

lemma worker_fd_option:
  assumes "0 \<le> high_fd w"
  shows "cli_set al ''--worker-fd'' (to_string_int (high_fd w)) opt = Inr (opt\<lparr>cli_worker_fd := high_fd w\<rparr>)"
proof -
  let ?b = "high_fd w"
  have u: "uint (of_int ?b :: u64) = ?b"
    using assms high_fd_bound [of w] by (simp add: uint_word_of_int)
  then have "\<not> of_int ?b > INT_MAX"
    using high_fd_bound [of w] by (simp add: INT_MAX_def word_less_def)
  with number_to_string_int [OF assms high_fd_bound] u show ?thesis
    by (simp add: cli_set_def)
qed

text \<open>The second process is the importer, with the options of the first, at the other end of the pair.\<close>

lemma launch_replaced:
  assumes "launch E al worker args s = Some (Replaced args', s')"
  obtains opt out where "cli_scan al args cli_defaults = Cli_Ok opt" "\<not> 0 \<le> cli_worker_fd opt"
    "\<exists>ev. trace_of s' = trace_of s @ (Proc sys_socketpair, 0, out) # ev"
    "0 \<le> high_fd out \<Longrightarrow> launch E2 al worker args' t =
       map_option (\<lambda>(n, u). (Exit n, u)) (worker (opt\<lparr>cli_worker_fd := high_fd out\<rparr>) True (high_fd out) t)"
proof -
  from assms obtain opt where opt: "cli_scan al args cli_defaults = Cli_Ok opt" "\<not> 0 \<le> cli_worker_fd opt"
    and l: "launch_pair E (\<lambda>fd. [''--worker-fd'', fd]) (worker opt) args s = Some (Replaced args', s')"
    by (auto simp: launch_def split: cli_parsed.splits if_splits)
  from l show thesis
  proof (cases rule: launch_pair_cases)
    case (child out s1 s2)
    let ?b = "high_fd out"
    have args': "args' = args @ [''--worker-fd'', to_string_int ?b]"
      using child_image_ends [OF child(3)] by simp
    have "moves is_proc s s2"
      by (rule moves_trans [OF moves_call [OF _ child(1)] child(2)]) simp
    obtain ev where ev: "trace_of s2 = trace_of s @ (Proc sys_socketpair, 0, out) # ev"
      using moves_trace [OF child(2)] probe_call_trace [OF child(1)] by auto
    obtain ev2 where "trace_of s' = trace_of s2 @ ev2"
    proof -
      let ?u = "plain_call E (Io (sys_close (low_fd out))) s2"
      obtain r o1 u2 where c: "probe_call E (Proc (sys_exec (args @ [''--worker-fd'', to_string_int ?b]))) ?u = (r, o1, u2)"
        by (rule prod_cases3)
      with child(3) have "s' = u2"
        by (simp add: child_image_def Let_def)
      moreover have "moves (\<lambda>_. True) s2 u2"
        by (rule moves_trans [OF moves_plain moves_call [OF _ c]]) simp_all
      ultimately show thesis
        using that moves_trace by blast
    qed
    with ev have "\<exists>ev. trace_of s' = trace_of s @ (Proc sys_socketpair, 0, out) # ev" by simp
    moreover have "launch E2 al worker args' t =
        map_option (\<lambda>(n, u). (Exit n, u)) (worker (opt\<lparr>cli_worker_fd := ?b\<rparr>) True ?b t)" if "0 \<le> ?b"
      using worker_fd_option [OF that] that
      by (simp add: launch_def args' cli_scan_append [OF opt(1)])
    ultimately show thesis
      using opt by (intro that)
  qed simp_all
qed

subsection \<open>The interface of the worker\<close>

locale tidy_worker =
  fixes E :: "'w env" and worker :: "bool \<Rightarrow> int \<Rightarrow> 'w probe \<Rightarrow> (int \<times> 'w probe) option"
  assumes keeps_books: "bounded_transfers E \<Longrightarrow> in_books r0 s {#} \<Longrightarrow> worker importer fd s = Some (k, s') \<Longrightarrow>
      in_books (add_mset (R_fd fd) r0) s' {#}"
    and passes_clean: "bounded_transfers E \<Longrightarrow> worker importer fd s = Some (0, s') \<Longrightarrow> \<not> cleanup_failed s'"
    and extends: "bounded_transfers E \<Longrightarrow> worker importer fd s = Some (k, s') \<Longrightarrow> \<exists>ev. trace_of s' = trace_of s @ ev"
begin

lemma before_fork:
  assumes "probe_call E (Proc sys_socketpair) s = (0, out, s1)" and "moves is_proc s1 s2"
  obtains ev where "trace_of s2 = trace_of s @ (Proc sys_socketpair, 0, out) # ev" and "list_all is_proc (map fst ev)"
    and "cleanup_failed s2 = cleanup_failed s"
proof -
  obtain ev where "trace_of s2 = trace_of s1 @ ev" "list_all is_proc (map fst ev)"
    using moves_trace [OF assms(2)] by blast
  with probe_call_trace [OF assms(1)] show thesis
    using moves_frame [OF assms(2)] probe_call_frame [OF assms(1)] by (intro that) auto
qed

lemma quiet_books:
  assumes "in_books r0 s held" and "moves is_proc s s'"
  shows "in_books r0 s' held"
  by (rule in_books_moves [OF assms]) (use is_proc_quiet in blast)

lemma launched_books:
  assumes law: "bounded_transfers E" and b: "in_books r0 s {#}"
    and l: "launch_pair E fd_args worker args s = Some (Exit c, s')" and c: "c \<noteq> 127"
  shows "\<exists>r out ev. trace_of s' = trace_of s @ (Proc sys_socketpair, r, out) # ev \<and>
    in_books (r0 + (if r = 0 then {#R_fd (low_fd out), R_fd (high_fd out)#} else {#})) s' {#} \<and>
    (c = 0 \<longrightarrow> \<not> cleanup_failed s')"
  using l
proof (cases rule: launch_pair_cases)
  case (pair r out s1)
  then have "in_books r0 s' {#}"
    using quiet_books [OF b moves_call [OF _ pair(1)]] by simp
  with pair(2,3) probe_call_trace [OF pair(1)] pair(4) show ?thesis
    by (intro exI [of _ r] exI [of _ out] exI [of _ "[]"]) simp
next
  case (closed out s1 s2)
  let ?a = "low_fd out" and ?b = "high_fd out"
  obtain ev where ev: "trace_of s2 = trace_of s @ (Proc sys_socketpair, 0, out) # ev"
    by (rule before_fork [OF closed(1,2)])
  have "moves is_proc s s2"
    by (rule moves_trans [OF moves_call [OF _ closed(1)] closed(2)]) simp
  from quiet_books [OF b this] have "in_books (r0 + {#R_fd ?a, R_fd ?b#}) s2 ({#} + {#R_fd ?a, R_fd ?b#})"
    by (rule in_books_add)
  then have "in_books (r0 + {#R_fd ?a, R_fd ?b#}) (plain_call E (Io (sys_close ?a)) s2) {#R_fd ?b#}"
    by (intro close_books) simp
  then have "in_books (r0 + {#R_fd ?a, R_fd ?b#}) s' {#}"
    unfolding closed(4) close_both_def by (rule close_books)
  moreover obtain ev2 where "trace_of s' = trace_of s2 @ ev2"
    using moves_trace [OF moves_trans [OF moves_plain moves_plain], of "\<lambda>_. True"] by (simp add: closed(4) close_both_def) blast
  ultimately show ?thesis
    using ev closed(3) by (intro exI [of _ 0] exI [of _ out] exI [of _ "ev @ ev2"]) simp
next
  case (child out s1 s2)
  with c child_image_ends [OF child(3)] show ?thesis by simp
next
  case (parent out s1 s2 pid k s3 waited status)
  let ?a = "low_fd out" and ?b = "high_fd out"
  let ?t = "plain_call E (Io (sys_close ?b)) s2"
  obtain ev where ev: "trace_of s2 = trace_of s @ (Proc sys_socketpair, 0, out) # ev"
    by (rule before_fork [OF parent(1,2)])
  have "moves is_proc s s2"
    by (rule moves_trans [OF moves_call [OF _ parent(1)] parent(2)]) simp
  from quiet_books [OF b this] have "in_books (r0 + {#R_fd ?b#}) s2 ({#} + {#R_fd ?b#})"
    by (rule in_books_add)
  then have "in_books (r0 + {#R_fd ?b#}) ?t {#}"
    by (intro close_books) simp
  from keeps_books [OF law this parent(4)] have b3: "in_books (r0 + {#R_fd ?a, R_fd ?b#}) s3 {#}"
    by simp
  note w = wait_child_Some [OF parent(5)]
  from quiet_books [OF b3 w(1)] have "in_books (r0 + {#R_fd ?a, R_fd ?b#}) s' {#}" .
  moreover have "\<not> cleanup_failed s'" if "c = 0"
    using passes_clean [OF law, of False ?a ?t s3] parent(4,6) that moves_frame(1) [OF w(1)]
    by (auto split: if_splits)
  moreover obtain ev2 where "trace_of ?t = trace_of s2 @ ev2"
    using moves_trace [OF moves_plain [of "\<lambda>_. True"]] by blast
  moreover obtain ev3 where "trace_of s3 = trace_of ?t @ ev3"
    using extends [OF law parent(4)] by blast
  moreover obtain ev4 where "trace_of s' = trace_of s3 @ ev4"
    using moves_trace [OF w(1)] by blast
  ultimately show ?thesis
    using ev by (intro exI [of _ 0] exI [of _ out] exI [of _ "ev @ ev2 @ ev3 @ ev4"]) simp
qed

end

locale pair_worker = tidy_worker +
  fixes n :: nat
  assumes importing: "bounded_transfers E \<Longrightarrow> sends_on fd (trace_of s) = 0 \<Longrightarrow> worker True fd s = Some (k, s') \<Longrightarrow>
      importer_side n fd (trace_of s')"
    and creating: "bounded_transfers E \<Longrightarrow> list_all (\<lambda>c. \<not> is_let_go c) (map fst (trace_of s)) \<Longrightarrow>
      worker False fd s = Some (0, s') \<Longrightarrow> creator_side n fd (trace_of s')"
begin

lemma launched_creator:
  assumes law: "bounded_transfers E" and t: "trace_of s = []"
    and l: "launch_pair E fd_args worker args s = Some (Exit 0, s')"
  shows "\<exists>out. own_pair (trace_of s') = Some out \<and> creator_side n (low_fd out) (trace_of s') \<and>
    (\<exists>child waited. 0 \<le> waited \<and> (Proc (sys_waitpid child), waited, 0) \<in> set (trace_of s'))"
  using l
proof (cases rule: launch_pair_cases)
  case (child out s1 s2)
  with child_image_ends [OF child(3)] show ?thesis by simp
next
  case (parent out s1 s2 pid k s3 waited status)
  let ?t = "plain_call E (Io (sys_close (high_fd out))) s2"
  from parent(6) have k: "k = 0" "status = 0" "0 \<le> waited"
    by (auto split: if_splits)
  obtain ev where ev: "trace_of s2 = (Proc sys_socketpair, 0, out) # ev" "list_all is_proc (map fst ev)"
    using before_fork [OF parent(1,2)] t by (metis append_Nil)
  obtain ev2 where ev2: "trace_of ?t = trace_of s2 @ ev2" "list_all (\<lambda>c. c = Io (sys_close (high_fd out))) (map fst ev2)"
    using moves_trace [OF moves_plain [of "\<lambda>c. c = Io (sys_close (high_fd out))" _ s2 E, OF refl]] by blast
  have "list_all (\<lambda>c. \<not> is_let_go c) (map fst (trace_of ?t))"
    using ev ev2 is_proc_quiet by (auto simp: list_all_iff is_let_go_def)
  from creating [OF law this parent(4) [unfolded k]] have cs: "creator_side n (low_fd out) (trace_of s3)" .
  note w = wait_child_Some [OF parent(5)]
  obtain ev3 where ev3: "trace_of s3 = trace_of ?t @ ev3"
    using extends [OF law parent(4)] by blast
  obtain ev4 where ev4: "trace_of s' = trace_of s3 @ ev4"
    using moves_trace [OF w(1)] by blast
  have "own_pair (trace_of s') = Some out"
    by (simp add: ev ev2 ev3 ev4 own_pair_first)
  moreover have "creator_side n (low_fd out) (trace_of s')"
    using cs unfolding creator_side_def ev4 by fastforce
  ultimately show ?thesis
    using w(2) k by blast
qed simp_all

end

end
