(* ===== verification/Hal_Host_Io.thy ===== *)
theory Hal_Host_Io
  imports Probe_Launch
begin

text \<open>
  src/hal_host_io.cpp: one process maps host memory and checks that synchronous direct I/O writes
  the memory to a file and reads it back. \<open>test_io\<close> cuts the transfer into calls of at most 1 GiB
  and repeats a call that is interrupted, a partial function because that may happen for ever.

  The printed lines, and \<open>getpid\<close> where only the output uses it, have no model.
\<close>

subsection \<open>\<open>test_io\<close>\<close>

partial_function (option) hio_retry ::
  "'w env \<Rightarrow> native \<Rightarrow> ('w, 'z) probe_scheme \<Rightarrow> (int \<times> ('w, 'z) probe_scheme) option" where
  "hio_retry E c s =
     (case probe_call E c s of
        (n, _, s1) \<Rightarrow> if n = - EINTR then hio_retry E c s1 else Some (n, s1))"

definition hio_chunk :: "u64 \<Rightarrow> u64 \<Rightarrow> u64" where
  "hio_chunk buffer_size offset = min (buffer_size - offset) (2 ^ 30)"

definition hio_call :: "bool \<Rightarrow> int \<Rightarrow> u64 \<Rightarrow> u64 \<Rightarrow> u64 \<Rightarrow> native" where
  "hio_call write fd buffer bytes offset =
     Io (if write then sys_pwrite fd (buffer + offset) bytes offset else sys_pread fd (buffer + offset) bytes offset)"

partial_function (option) hio_transfer ::
  "'w env \<Rightarrow> int \<Rightarrow> u64 \<Rightarrow> u64 \<Rightarrow> bool \<Rightarrow> u64 \<Rightarrow> ('w, 'z) probe_scheme \<Rightarrow> (bool \<times> ('w, 'z) probe_scheme) option" where
  "hio_transfer E fd buffer buffer_size write offset s =
     (if offset < buffer_size
      then case hio_retry E (hio_call write fd buffer (hio_chunk buffer_size offset) offset) s of
          None \<Rightarrow> None
        | Some (transferred, s1) \<Rightarrow>
            if transferred \<noteq> uint (hio_chunk buffer_size offset) then Some (False, s1)
            else hio_transfer E fd buffer buffer_size write (offset + hio_chunk buffer_size offset) s1
      else Some (True, s))"

fun hio_compare ::
  "'w env \<Rightarrow> u64 \<Rightarrow> nat list \<Rightarrow> ('w, 'z) probe_scheme \<Rightarrow> bool \<times> ('w, 'z) probe_scheme" where
  "hio_compare E buffer [] s = (True, s)"
| "hio_compare E buffer (i # is) s =
     (case probe_call E (Cpu (cpu_load 1 (buffer + of_nat i))) s of
        (_, v, s1) \<Rightarrow> if v \<noteq> 65 then (False, s1) else hio_compare E buffer is s1)"

definition hio_flags :: "string list" where
  "hio_flags = [''O_RDWR'', ''O_CREAT'', ''O_EXCL'', ''O_SYNC'', ''O_DIRECT'']"

definition hio_path :: "string \<Rightarrow> int \<Rightarrow> string" where
  "hio_path directory pid = directory @ ''/hal-io-'' @ to_string_int pid @ ''-direct.bin''"

text \<open>Write the pattern, read it back into zeroed memory, compare.\<close>

definition hio_write_read ::
  "'w env \<Rightarrow> int \<Rightarrow> u64 \<Rightarrow> u64 \<Rightarrow> ('w, 'z) probe_scheme \<Rightarrow> (bool \<times> ('w, 'z) probe_scheme) option" where
  "hio_write_read E fd buffer buffer_size s =
     (case hio_transfer E fd buffer buffer_size True 0 (plain_call E (Cpu (c_memset buffer 65 buffer_size)) s) of
        None \<Rightarrow> None
      | Some (False, s1) \<Rightarrow> Some (False, s1)
      | Some (True, s1) \<Rightarrow>
          (case hio_transfer E fd buffer buffer_size False 0 (plain_call E (Cpu (c_memset buffer 0 buffer_size)) s1) of
             None \<Rightarrow> None
           | Some (False, s2) \<Rightarrow> Some (False, s2)
           | Some (True, s2) \<Rightarrow> Some (hio_compare E buffer [0..<unat buffer_size] s2)))"

definition test_io ::
  "'w env \<Rightarrow> u64 \<Rightarrow> u64 \<Rightarrow> string \<Rightarrow> ('w, 'z) probe_scheme \<Rightarrow> (bool \<times> ('w, 'z) probe_scheme) option" where
  "test_io E buffer buffer_size directory s =
     (let (pid, _, s1) = probe_call E (Proc sys_getpid) s;
          path = hio_path directory pid;
          (fd, _, s2) = probe_call E (Io (sys_open path hio_flags)) s1
      in if fd < 0 then Some (False, s2)
         else case hio_write_read E fd buffer buffer_size s2 of None \<Rightarrow> None
         | Some (passed, s3) \<Rightarrow>
             let (c, _, s4) = probe_call E (Io (sys_close fd)) s3;
                 (u, _, s5) = probe_call E (Io (sys_unlink path)) s4
             in Some (passed \<and> c = 0 \<and> u = 0, s5))"

subsection \<open>\<open>main\<close>\<close>

record 'w host_io = "'w probe" +
  hio_initialized :: bool
  hio_device_set :: bool
  hio_alloc :: allocation
  hio_result :: bool

definition hio_init :: "'w probe \<Rightarrow> 'w host_io" where
  "hio_init s = probe.extend s (host_io.fields False False Allocation_new True)"

text \<open>\<open>result = test_io(...) ? 0 : 1\<close>\<close>

definition hio_test :: "'w env \<Rightarrow> u64 \<Rightarrow> string \<Rightarrow> 'w host_io prog_step" where
  "hio_test E buffer_size directory s =
     (case test_io E (alloc_va (hio_alloc s)) buffer_size directory s of None \<Rightarrow> None
      | Some (passed, s1) \<Rightarrow> Some (None, s1\<lparr>hio_result := passed\<rparr>))"

definition hio_body :: "'w env \<Rightarrow> u64 \<Rightarrow> string \<Rightarrow> 'w host_io prog_step list" where
  "hio_body E buffer_size directory =
     [check_step E ''aclInit'' (\<lambda>_. aclInit) no_out (\<lambda>s. s\<lparr>hio_initialized := True\<rparr>),
      check_step E ''aclrtSetDevice'' (\<lambda>_. aclrtSetDevice 0) no_out (\<lambda>s. s\<lparr>hio_device_set := True\<rparr>),
      reserve_step E ''halMemAddressReserve'' hio_alloc hio_alloc_update buffer_size,
      create_step E ''halMemCreate'' hio_alloc hio_alloc_update buffer_size
        (mem_prop MEM_HOST_SIDE 0 MEM_NORMAL_PAGE_TYPE MEM_DDR_TYPE),
      map_step E ''halMemMap'' hio_alloc hio_alloc_update buffer_size,
      hio_test E buffer_size directory]"

definition hio_finish :: "'w env \<Rightarrow> 'w host_io \<Rightarrow> 'w host_io" where
  "hio_finish E s =
     (let s1 = Allocation_destroy E (hio_alloc s) s;
          s2 = if hio_device_set s then cleanup E (aclrtResetDevice 0) s1 else s1
      in if hio_initialized s then cleanup E aclFinalize s2 else s2)"

definition hio_run :: "'w env \<Rightarrow> u64 \<Rightarrow> string \<Rightarrow> 'w probe \<Rightarrow> (int \<times> 'w probe) option" where
  "hio_run E buffer_size directory s =
     (case run_steps (hio_body E buffer_size directory) (hio_init s) of None \<Rightarrow> None
      | Some (e, s1) \<Rightarrow>
          let s2 = hio_finish E s1
          in Some (if e \<noteq> None \<or> \<not> hio_result s1 \<or> cleanup_failed s2 then 1 else 0, probe.truncate s2))"

subsection \<open>The command line\<close>

text \<open>\<open>std::from_chars\<close> into a \<open>size_t\<close>, all characters used.\<close>

definition hio_mib :: "string \<Rightarrow> u64 option" where
  "hio_mib text =
     (if text = [] \<or> \<not> only_digits text \<or> digits_value text \<ge> 2 ^ 64 then None
      else let mib = of_nat (digits_value text) :: u64
           in if mib = 0 \<or> mib > 0x7fffffffffffffff div (1024 * 1024) then None else Some (mib * 1024 * 1024))"

datatype hio_parsed = Hio_Help | Hio_Bad | Hio_Ok u64 string

fun hio_scan :: "string list \<Rightarrow> u64 \<Rightarrow> string \<Rightarrow> bool \<Rightarrow> hio_parsed" where
  "hio_scan [] buffer_size directory directory_set = Hio_Ok buffer_size directory"
| "hio_scan (arg # args) buffer_size directory directory_set =
     (if arg = ''--help'' then Hio_Help
      else if arg = ''--size-mib'' \<and> args \<noteq> []
      then case hio_mib (hd args) of None \<Rightarrow> Hio_Bad
           | Some bytes \<Rightarrow> hio_scan (tl args) bytes directory directory_set
      else if (arg = [] \<or> hd arg \<noteq> CHR ''-'') \<and> \<not> directory_set then hio_scan args buffer_size arg True
      else Hio_Bad)"

definition hio_main :: "'w env \<Rightarrow> string list \<Rightarrow> 'w probe \<Rightarrow> (int \<times> 'w probe) option" where
  "hio_main E args s =
     (case hio_scan args (2 * 1024 * 1024) ''.'' False of
        Hio_Help \<Rightarrow> Some (0, s)
      | Hio_Bad \<Rightarrow> Some (2, s)
      | Hio_Ok buffer_size directory \<Rightarrow> hio_run E buffer_size directory s)"

end
