(* ===== verification/Hal_Host_Io_Facts.thy ===== *)
theory Hal_Host_Io_Facts
  imports Hal_Host_Io
begin

text \<open>
  The facts about \<open>Hal_Host_Io\<close>: a completed transfer is the tiling of the buffer into pieces of at
  most 1 GiB, the program keeps its books, and it returns when no call is interrupted for ever.
\<close>

subsection \<open>Pieces\<close>

function pieces :: "nat \<Rightarrow> nat \<Rightarrow> (nat \<times> nat) list" where
  "pieces sz off = (if off < sz then (off, min (sz - off) (2 ^ 30)) # pieces sz (off + min (sz - off) (2 ^ 30)) else [])"
  by auto
termination
  by (relation "measure (\<lambda>(sz, off). sz - off)") auto

declare pieces.simps [simp del]

lemma pieces_tile: "concat (map (\<lambda>(k, n). [k..<k + n]) (pieces sz off)) = [off..<sz]"
proof (induction sz off rule: pieces.induct)
  case (1 sz off)
  show ?case
  proof (cases "off < sz")
    case True
    let ?n = "min (sz - off) (2 ^ 30)"
    have "sz = off + ?n + (sz - (off + ?n))"
      using True by simp
    then have "[off..<off + ?n] @ [off + ?n..<sz] = [off..<sz]"
      by (metis le_add1 upt_add_eq_append)
    with 1 True show ?thesis
      by (subst pieces.simps) simp
  next
    case False
    then show ?thesis
      by (subst pieces.simps) simp
  qed
qed

lemma pieces_bound: "(k, n) \<in> set (pieces sz off) \<Longrightarrow> 0 < n \<and> n \<le> 2 ^ 30 \<and> k + n \<le> sz"
proof (induction sz off rule: pieces.induct)
  case (1 sz off)
  then show ?case
    by (subst (asm) (2) pieces.simps) (auto split: if_splits)
qed

subsection \<open>Transfers\<close>

definition not_interrupted :: "event \<Rightarrow> bool" where
  "not_interrupted e \<longleftrightarrow> fst (snd e) \<noteq> - EINTR"

definition retries :: "native \<Rightarrow> ('w, 'z) probe_scheme \<Rightarrow> int \<times> ('w, 'z) probe_scheme \<Rightarrow> bool" where
  "retries c s x \<longleftrightarrow> moves (\<lambda>d. d = c) s (snd x) \<and>
     (\<exists>ev out. trace_of (snd x) = trace_of s @ ev \<and> filter not_interrupted ev = [(c, fst x, out)])"

lemma hio_retry_spec:
  assumes "hio_retry E c s = Some x"
  shows "retries c s x"
proof (rule hio_retry.raw_induct [OF _ assms])
  fix loop :: "'a env \<Rightarrow> native \<Rightarrow> ('a, 'b) probe_scheme \<Rightarrow> (int \<times> ('a, 'b) probe_scheme) option"
    and E c s x
  assume IH: "\<And>E c s x. loop E c s = Some x \<Longrightarrow> retries c s x"
    and r: "(case probe_call E c s of (n, _, s1) \<Rightarrow> if n = - EINTR then loop E c s1 else Some (n, s1)) = Some x"
  obtain n out s1 where c1: "probe_call E c s = (n, out, s1)"
    by (rule prod_cases3)
  have m: "moves (\<lambda>d. d = c) s s1"
    by (rule moves_call [OF _ c1]) simp
  note t = probe_call_trace [OF c1]
  show "retries c s x"
  proof (cases "n = - EINTR")
    case True
    with r c1 have "loop E c s1 = Some x" by simp
    from IH [OF this] obtain ev o2 where "moves (\<lambda>d. d = c) s1 (snd x)" "trace_of (snd x) = trace_of s1 @ ev"
      "filter not_interrupted ev = [(c, fst x, o2)]"
      unfolding retries_def by blast
    then show ?thesis
      unfolding retries_def using m t True
      by (intro conjI moves_trans [OF m] exI [of _ "(c, n, out) # ev"] exI [of _ o2]) (simp_all add: not_interrupted_def)
  next
    case False
    with r c1 have "x = (n, s1)" by simp
    with m t False show ?thesis
      unfolding retries_def by (intro conjI exI [of _ "[(c, n, out)]"] exI [of _ out]) (simp_all add: not_interrupted_def)
  qed
qed

text \<open>The completed calls of a transfer that passes.\<close>

definition is_transfer :: "native \<Rightarrow> bool" where
  "is_transfer c \<longleftrightarrow> (case c of Io (sys_pwrite _ _ _ _) \<Rightarrow> True | Io (sys_pread _ _ _ _) \<Rightarrow> True | _ \<Rightarrow> False)"

definition piece_done :: "bool \<Rightarrow> int \<Rightarrow> u64 \<Rightarrow> nat \<times> nat \<Rightarrow> event \<Rightarrow> bool" where
  "piece_done write fd buffer on e \<longleftrightarrow> (case on of (off, n) \<Rightarrow>
     \<exists>out. e = (hio_call write fd buffer (of_nat n) (of_nat off), int n, out))"

definition transferred ::
  "int \<Rightarrow> u64 \<Rightarrow> u64 \<Rightarrow> bool \<Rightarrow> u64 \<Rightarrow> ('w, 'z) probe_scheme \<Rightarrow> bool \<times> ('w, 'z) probe_scheme \<Rightarrow> bool" where
  "transferred fd buffer sz write off s x \<longleftrightarrow> moves is_transfer s (snd x) \<and>
     (fst x \<longrightarrow> (\<exists>ev. trace_of (snd x) = trace_of s @ ev \<and>
        list_all2 (piece_done write fd buffer) (pieces (unat sz) (unat off)) (filter not_interrupted ev)))"

lemma hio_chunk_nat:
  assumes "off < sz"
  shows "unat (hio_chunk sz off) = min (unat sz - unat off) (2 ^ 30)"
    "unat (off + hio_chunk sz off) = unat off + unat (hio_chunk sz off)"
proof -
  have d: "unat (sz - off) = unat sz - unat off"
    using assms by (simp add: unat_sub order_less_imp_le)
  have c: "unat (hio_chunk sz off) = min (unat (sz - off)) (unat (2 ^ 30 :: u64))"
    by (simp add: hio_chunk_def min_def word_le_nat_alt)
  then show "unat (hio_chunk sz off) = min (unat sz - unat off) (2 ^ 30)"
    using d by simp
  then have "unat off + unat (hio_chunk sz off) \<le> unat sz"
    using assms by (simp add: word_less_nat_alt)
  then have "unat off + unat (hio_chunk sz off) < 2 ^ 64"
    using unat_u64_bound [of sz] by linarith
  then show "unat (off + hio_chunk sz off) = unat off + unat (hio_chunk sz off)"
    by (simp add: unat_word_ariths)
qed

lemma hio_transfer_spec:
  assumes "hio_transfer E fd buffer sz write off s = Some x"
  shows "transferred fd buffer sz write off s x"
proof (rule hio_transfer.raw_induct [OF _ assms])
  fix loop :: "'a env \<Rightarrow> int \<Rightarrow> u64 \<Rightarrow> u64 \<Rightarrow> bool \<Rightarrow> u64 \<Rightarrow> ('a, 'b) probe_scheme \<Rightarrow> (bool \<times> ('a, 'b) probe_scheme) option"
    and E fd buffer sz wr off s x
  assume IH: "\<And>E fd buffer sz wr off s x. loop E fd buffer sz wr off s = Some x \<Longrightarrow> transferred fd buffer sz wr off s x"
    and r: "(if off < sz
      then case hio_retry E (hio_call wr fd buffer (hio_chunk sz off) off) s of
          None \<Rightarrow> None
        | Some (n, s1) \<Rightarrow>
            if n \<noteq> uint (hio_chunk sz off) then Some (False, s1)
            else loop E fd buffer sz wr (off + hio_chunk sz off) s1
      else Some (True, s)) = Some x"
  show "transferred fd buffer sz wr off s x"
  proof (cases "off < sz")
    case False
    with r have "x = (True, s)" by simp
    with False show ?thesis
      by (subst transferred_def, subst pieces.simps) (simp add: word_less_nat_alt)
  next
    case True
    let ?n = "hio_chunk sz off" and ?c = "hio_call wr fd buffer (hio_chunk sz off) off"
    obtain t s1 where h: "hio_retry E ?c s = Some (t, s1)"
      using r True by (cases "hio_retry E ?c s") auto
    obtain ev out where ev: "moves (\<lambda>d. d = ?c) s s1" "trace_of s1 = trace_of s @ ev" "filter not_interrupted ev = [(?c, t, out)]"
      using hio_retry_spec [OF h] by (auto simp: retries_def)
    have m: "moves is_transfer s s1"
      by (rule moves_mono [OF ev(1)]) (auto simp: hio_call_def is_transfer_def)
    show ?thesis
    proof (cases "t = uint ?n")
      case False
      with r True h have "x = (False, s1)" by simp
      with m show ?thesis by (simp add: transferred_def)
    next
      case full: True
      with r True h have "loop E fd buffer sz wr (off + ?n) s1 = Some x" by simp
      from IH [OF this] have m2: "moves is_transfer s1 (snd x)"
        and rest: "fst x \<Longrightarrow> \<exists>ev. trace_of (snd x) = trace_of s1 @ ev \<and>
          list_all2 (piece_done wr fd buffer) (pieces (unat sz) (unat off + unat ?n)) (filter not_interrupted ev)"
        by (auto simp: transferred_def hio_chunk_nat(2) [OF True])
      have p: "pieces (unat sz) (unat off) = (unat off, unat ?n) # pieces (unat sz) (unat off + unat ?n)"
        using True by (subst pieces.simps) (simp add: hio_chunk_nat(1) [OF True] word_less_nat_alt)
      have first: "piece_done wr fd buffer (unat off, unat ?n) (?c, t, out)"
        by (simp add: piece_done_def full)
      have "\<exists>ev. trace_of (snd x) = trace_of s @ ev \<and>
          list_all2 (piece_done wr fd buffer) (pieces (unat sz) (unat off)) (filter not_interrupted ev)" if fx: "fst x"
      proof -
        obtain ev2 where "trace_of (snd x) = trace_of s1 @ ev2"
          "list_all2 (piece_done wr fd buffer) (pieces (unat sz) (unat off + unat ?n)) (filter not_interrupted ev2)"
          using rest [OF fx] by blast
        with ev first show ?thesis
          by (intro exI [of _ "ev @ ev2"]) (simp add: p)
      qed
      with moves_trans [OF m m2] show ?thesis
        by (simp add: transferred_def)
    qed
  qed
qed

subsection \<open>The whole test\<close>

lemma hio_compare_moves: "hio_compare E buffer is s = (b, s') \<Longrightarrow> moves is_load s s'"
proof (induction "is" arbitrary: s)
  case Nil
  then show ?case by simp
next
  case (Cons i js)
  obtain r v s1 where c: "probe_call E (Cpu (cpu_load 1 (buffer + of_nat i))) s = (r, v, s1)"
    by (rule prod_cases3)
  then have "moves is_load s s1"
    by (rule moves_call [rotated]) (simp add: is_load_def)
  with Cons c show ?case
    by (auto split: if_splits intro: moves_trans)
qed

definition hio_inner :: "native \<Rightarrow> bool" where
  "hio_inner c \<longleftrightarrow> is_transfer c \<or> is_load c \<or> (case c of Cpu (c_memset _ _ _) \<Rightarrow> True | _ \<Rightarrow> False)"

lemma hio_inner_neutral: "hio_inner c \<Longrightarrow> neutral (c, r)"
  by (cases r) (auto simp: hio_inner_def is_transfer_def is_load_def neutral_def ledger_simps
      split: native.splits io_call.splits cpu_call.splits)

text \<open>What a passing write and read back has done.\<close>

definition reads_pattern :: "u64 \<Rightarrow> u64 \<Rightarrow> event list \<Rightarrow> bool" where
  "reads_pattern buffer sz ev \<longleftrightarrow>
     map (\<lambda>e. (fst e, snd (snd e))) ev = map (\<lambda>i. (Cpu (cpu_load 1 (buffer + of_nat i)), 65)) [0..<unat sz]"

lemma hio_compare_pass:
  "hio_compare E buffer is s = (True, s') \<Longrightarrow> \<exists>ev. trace_of s' = trace_of s @ ev \<and>
     map (\<lambda>e. (fst e, snd (snd e))) ev = map (\<lambda>i. (Cpu (cpu_load 1 (buffer + of_nat i)), 65)) is"
proof (induction "is" arbitrary: s)
  case Nil
  then show ?case by simp
next
  case (Cons i js)
  obtain r v s1 where c: "probe_call E (Cpu (cpu_load 1 (buffer + of_nat i))) s = (r, v, s1)"
    by (rule prod_cases3)
  with Cons.prems have v: "v = 65" and "hio_compare E buffer js s1 = (True, s')"
    by (auto split: if_splits)
  with Cons.IH obtain ev where "trace_of s' = trace_of s1 @ ev"
    "map (\<lambda>e. (fst e, snd (snd e))) ev = map (\<lambda>i. (Cpu (cpu_load 1 (buffer + of_nat i)), 65)) js"
    by blast
  with probe_call_trace [OF c] v show ?case
    by (intro exI [of _ "(Cpu (cpu_load 1 (buffer + of_nat i)), r, v) # ev"]) simp
qed

definition whole_transfer :: "bool \<Rightarrow> int \<Rightarrow> u64 \<Rightarrow> u64 \<Rightarrow> event list \<Rightarrow> bool" where
  "whole_transfer write fd buffer sz ev \<longleftrightarrow>
     list_all2 (piece_done write fd buffer) (pieces (unat sz) 0) (filter not_interrupted ev)"

text \<open>
  The round trip of a buffer: it is filled with the pattern and written, then zeroed and read, and
  every byte of it is compared.
\<close>

definition round_trip :: "int \<Rightarrow> u64 \<Rightarrow> u64 \<Rightarrow> event list \<Rightarrow> bool" where
  "round_trip fd buffer sz ev \<longleftrightarrow>
     (\<exists>x y w x' y' r c. ev = (Cpu (c_memset buffer 65 sz), x, y) # w @ (Cpu (c_memset buffer 0 sz), x', y') # r @ c \<and>
        whole_transfer True fd buffer sz w \<and> whole_transfer False fd buffer sz r \<and> reads_pattern buffer sz c)"

lemma hio_write_read_spec:
  assumes "hio_write_read E fd buffer sz s = Some (passed, s')"
  shows "moves hio_inner s s'"
    "passed \<Longrightarrow> \<exists>ev. trace_of s' = trace_of s @ ev \<and> round_trip fd buffer sz ev"
proof -
  let ?s0 = "plain_call E (Cpu (c_memset buffer 65 sz)) s"
  have m0: "moves hio_inner t (plain_call E (Cpu (c_memset buffer k sz)) t)" for k and t :: "('a, 'b) probe_scheme"
    by (rule moves_plain) (simp add: hio_inner_def)
  have t0: "\<exists>x y. trace_of (plain_call E c t) = trace_of t @ [(c, x, y)]" for c and t :: "('a, 'b) probe_scheme"
    by (rule probe_call_cases [of E c t]) (auto simp: plain_call_def trace_of_def)
  have inner: "is_transfer c \<Longrightarrow> hio_inner c" "is_load c \<Longrightarrow> hio_inner c" for c
    by (simp_all add: hio_inner_def)
  obtain b1 s1 where w1: "hio_transfer E fd buffer sz True 0 ?s0 = Some (b1, s1)"
    using assms by (cases "hio_transfer E fd buffer sz True 0 ?s0") (auto simp: hio_write_read_def)
  note x1 = hio_transfer_spec [OF w1, unfolded transferred_def, simplified]
  have m1: "moves hio_inner s s1"
    by (rule moves_trans [OF m0 moves_mono [OF conjunct1 [OF x1]]]) (rule inner)
  have "moves hio_inner s s' \<and> (passed \<longrightarrow> (\<exists>ev. trace_of s' = trace_of s @ ev \<and> round_trip fd buffer sz ev))"
  proof (cases b1)
    case False
    with assms w1 m1 show ?thesis by (auto simp: hio_write_read_def)
  next
    case b1: True
    let ?t = "plain_call E (Cpu (c_memset buffer 0 sz)) s1"
    obtain b2 s2 where w2: "hio_transfer E fd buffer sz False 0 ?t = Some (b2, s2)"
      using assms w1 b1 by (cases "hio_transfer E fd buffer sz False 0 ?t") (auto simp: hio_write_read_def)
    note x2 = hio_transfer_spec [OF w2, unfolded transferred_def, simplified]
    have m2: "moves hio_inner s s2"
      by (rule moves_trans [OF m1 moves_trans [OF m0 moves_mono [OF conjunct1 [OF x2]]]]) (rule inner)
    show ?thesis
    proof (cases b2)
      case False
      with assms w1 b1 w2 m2 show ?thesis by (auto simp: hio_write_read_def)
    next
      case b2: True
      with assms w1 b1 w2 have c: "hio_compare E buffer [0..<unat sz] s2 = (passed, s')"
        by (simp add: hio_write_read_def)
      have mc: "moves is_load s2 s'"
        by (rule hio_compare_moves [OF c])
      obtain x1 y1 where e1: "trace_of ?s0 = trace_of s @ [(Cpu (c_memset buffer 65 sz), x1, y1)]" using t0 by blast
      obtain x2 y2 where e2: "trace_of ?t = trace_of s1 @ [(Cpu (c_memset buffer 0 sz), x2, y2)]" using t0 by blast
      obtain v1 where v1: "trace_of s1 = trace_of ?s0 @ v1" "whole_transfer True fd buffer sz v1"
        using x1 b1 by (auto simp: whole_transfer_def)
      obtain v2 where v2: "trace_of s2 = trace_of ?t @ v2" "whole_transfer False fd buffer sz v2"
        using x2 b2 by (auto simp: whole_transfer_def)
      obtain v3 where "trace_of s' = trace_of s2 @ v3" and v3: "passed \<longrightarrow> reads_pattern buffer sz v3"
        using moves_trace [OF mc] hio_compare_pass [of E buffer "[0..<unat sz]" s2 s'] c
        by (cases passed) (auto simp: reads_pattern_def)
      with e1 e2 v1 v2 have "trace_of s' = trace_of s @
          ((Cpu (c_memset buffer 65 sz), x1, y1) # v1 @ (Cpu (c_memset buffer 0 sz), x2, y2) # v2 @ v3)" by simp
      moreover have "passed \<Longrightarrow> round_trip fd buffer sz
          ((Cpu (c_memset buffer 65 sz), x1, y1) # v1 @ (Cpu (c_memset buffer 0 sz), x2, y2) # v2 @ v3)"
        unfolding round_trip_def using v1(2) v2(2) v3 by blast
      ultimately show ?thesis
        using moves_trans [OF m2 moves_mono [OF mc]] inner(2) by blast
    qed
  qed
  then show "moves hio_inner s s'" "passed \<Longrightarrow> \<exists>ev. trace_of s' = trace_of s @ ev \<and> round_trip fd buffer sz ev"
    by blast+
qed

lemma test_io_cases:
  assumes "test_io E buffer sz directory s = Some (passed, s')"
  obtains (unopened) pid o1 s1 fd o2 where "probe_call E (Proc sys_getpid) s = (pid, o1, s1)"
      "probe_call E (Io (sys_open (hio_path directory pid) hio_flags)) s1 = (fd, o2, s')" "fd < 0" "\<not> passed"
  | (opened) pid o1 s1 fd o2 s2 b s3 c o3 s4 u o4 where "probe_call E (Proc sys_getpid) s = (pid, o1, s1)"
      "probe_call E (Io (sys_open (hio_path directory pid) hio_flags)) s1 = (fd, o2, s2)" "0 \<le> fd"
      "hio_write_read E fd buffer sz s2 = Some (b, s3)"
      "probe_call E (Io (sys_close fd)) s3 = (c, o3, s4)"
      "probe_call E (Io (sys_unlink (hio_path directory pid))) s4 = (u, o4, s')"
      "passed \<longleftrightarrow> b \<and> c = 0 \<and> u = 0"
proof -
  obtain pid o1 s1 where c1: "probe_call E (Proc sys_getpid) s = (pid, o1, s1)"
    by (rule prod_cases3)
  obtain fd o2 s2 where c2: "probe_call E (Io (sys_open (hio_path directory pid) hio_flags)) s1 = (fd, o2, s2)"
    by (rule prod_cases3)
  show thesis
  proof (cases "fd < 0")
    case True
    with assms c1 c2 show thesis
      by (intro unopened [OF c1]) (auto simp: test_io_def)
  next
    case False
    obtain b s3 where w: "hio_write_read E fd buffer sz s2 = Some (b, s3)"
      using assms c1 c2 False by (cases "hio_write_read E fd buffer sz s2") (auto simp: test_io_def)
    obtain c o3 s4 where c3: "probe_call E (Io (sys_close fd)) s3 = (c, o3, s4)"
      by (rule prod_cases3)
    obtain u o4 s5 where c4: "probe_call E (Io (sys_unlink (hio_path directory pid))) s4 = (u, o4, s5)"
      by (rule prod_cases3)
    from assms c1 c2 False w c3 c4 show thesis
      by (intro opened [OF c1 c2 _ w c3]) (auto simp: test_io_def)
  qed
qed

lemma in_books_call:
  assumes "in_books r0 s held" and "probe_call E c s = (r, out, s')"
    and "held + gets (c, r, out) = gives (c, r, out) + held'"
  shows "in_books r0 s' held'"
  by (rule in_books_event [OF assms(1) probe_call_trace [OF assms(2)]])
    (use assms(3) probe_call_frame [OF assms(2)] in simp_all)

lemma test_io_frame:
  assumes "test_io E buffer sz directory s = Some (passed, s')"
  shows "s' = s\<lparr>sys_of := sys_of s'\<rparr>" "in_books r0 s held \<Longrightarrow> in_books r0 s' held"
proof -
  have m: "probe_call E c t = (r, out, u) \<Longrightarrow> moves (\<lambda>_. True) t u" for c r out and t u :: "('a, 'b) probe_scheme"
    by (rule moves_call) simp_all
  have m2: "hio_write_read E fd buffer sz t = Some (b, u) \<Longrightarrow> moves (\<lambda>_. True) t u" for fd b and t u :: "('a, 'b) probe_scheme"
    by (rule moves_mono [OF hio_write_read_spec(1)]) simp_all
  show "s' = s\<lparr>sys_of := sys_of s'\<rparr>"
    using assms
  proof (cases rule: test_io_cases)
    case (unopened pid o1 s1 fd o2)
    show ?thesis
      by (rule moves_same [OF moves_trans [OF m [OF unopened(1)] m [OF unopened(2)]]])
  next
    case (opened pid o1 s1 fd o2 s2 b s3 c o3 s4 u o4)
    show ?thesis
      by (rule moves_same [OF moves_trans [OF m [OF opened(1)] moves_trans [OF m [OF opened(2)]
          moves_trans [OF m2 [OF opened(4)] moves_trans [OF m [OF opened(5)] m [OF opened(6)]]]]]])
  qed
  show "in_books r0 s' held" if b: "in_books r0 s held"
    using assms
  proof (cases rule: test_io_cases)
    case (unopened pid o1 s1 fd o2)
    have "in_books r0 s1 held"
      by (rule in_books_call [OF b unopened(1)]) (simp add: ledger_simps)
    then show ?thesis
      by (rule in_books_call [OF _ unopened(2)]) (use unopened(3) in \<open>simp add: ledger_simps\<close>)
  next
    case (opened pid o1 s1 fd o2 s2 pass s3 c o3 s4 u o4)
    have "in_books r0 s1 held"
      by (rule in_books_call [OF b opened(1)]) (simp add: ledger_simps)
    then have "in_books r0 s2 (held + {#R_fd fd#})"
      by (rule in_books_call [OF _ opened(2)]) (use opened(3) in \<open>simp add: ledger_simps\<close>)
    then have "in_books r0 s3 (held + {#R_fd fd#})"
      by (rule in_books_moves [OF _ hio_write_read_spec(1) [OF opened(4)] hio_inner_neutral])
    then have "in_books r0 s4 held"
      by (rule in_books_call [OF _ opened(5)]) (simp add: ledger_simps)
    then show ?thesis
      by (rule in_books_call [OF _ opened(6)]) (simp add: ledger_simps)
  qed
qed

subsection \<open>The program\<close>

definition hio_rest :: "'w host_io \<Rightarrow> resource multiset" where
  "hio_rest s = one_if (hio_initialized s) R_acl + one_if (hio_device_set s) (R_device 0)"

lemma hio_rest_simps [simp]:
  "hio_rest (s\<lparr>sys_of := t\<rparr>) = hio_rest s" "hio_rest (hio_alloc_update f s) = hio_rest s"
  "hio_rest (s\<lparr>hio_result := b\<rparr>) = hio_rest s"
  by (simp_all add: hio_rest_def)

interpretation hio: alloc_slot hio_alloc hio_alloc_update hio_rest
  by unfold_locales simp_all

abbreviation hio_at :: "resource multiset \<Rightarrow> bool \<Rightarrow> bool \<Rightarrow> bool \<Rightarrow> 'w host_io \<Rightarrow> bool" where
  "hio_at \<equiv> slot_at hio_alloc hio_rest (\<lambda>_. True)"

abbreviation hio_books :: "resource multiset \<Rightarrow> 'w host_io \<Rightarrow> bool" where
  "hio_books \<equiv> slot_books hio_alloc hio_rest"

definition hio_opening :: "resource multiset \<Rightarrow> bool \<Rightarrow> bool \<Rightarrow> 'w host_io \<Rightarrow> bool" where
  "hio_opening r0 i d s \<longleftrightarrow> in_books r0 s (hio_rest s) \<and> (i \<or> \<not> hio_initialized s) \<and> (d \<or> \<not> hio_device_set s) \<and>
     hio_alloc s = Allocation_new"

lemma hio_opening_at: "hio_opening r0 i d s \<Longrightarrow> hio_at r0 False False False s"
  by (simp add: hio_opening_def slot_at_def slot_books_def Allocation_new_def alloc_held_def)

lemma hio_test_at: "triple (hio_at r0 a h m) (hio_test E sz directory) (hio_at r0 a h m) (hio_books r0)"
proof (rule tripleI)
  fix s e s'
  assume at: "hio_at r0 a h m s" and t: "hio_test E sz directory s = Some (e, s')"
  obtain passed s1 where io: "test_io E (alloc_va (hio_alloc s)) sz directory s = Some (passed, s1)"
    and e: "e = None" "s' = s1\<lparr>hio_result := passed\<rparr>"
    using t by (auto simp: hio_test_def split: option.splits)
  have "hio_alloc s1 = hio_alloc s" "hio_rest s1 = hio_rest s"
    by (subst test_io_frame(1) [OF io], simp)+
  moreover have "in_books r0 s1 (hio_rest s + alloc_held (hio_alloc s))"
    by (rule test_io_frame(2) [OF io]) (use at in \<open>simp add: slot_at_def slot_books_def\<close>)
  ultimately show "if e = None then hio_at r0 a h m s' else hio_books r0 s'"
    using at by (simp add: e slot_at_def slot_books_def in_books_def trace_of_def)
qed

lemma hio_body_books:
  "triple (hio_opening r0 False False) (run_steps (hio_body E sz directory)) (hio_books r0) (hio_books r0)"
proof -
  have i: "triple (hio_opening r0 False False) (check_step E ''aclInit'' (\<lambda>_. aclInit) no_out (\<lambda>s. s\<lparr>hio_initialized := True\<rparr>))
      (hio_opening r0 True False) (hio_books r0)"
    by (rule triple_check) (auto simp: hio_opening_def slot_books_def hio_rest_def elim!: books_event)
  have "triple (hio_opening r0 True False)
      (check_step E ''aclrtSetDevice'' (\<lambda>_. aclrtSetDevice 0) no_out (\<lambda>s. s\<lparr>hio_device_set := True\<rparr>))
      (hio_opening r0 True True) (hio_books r0)"
    by (rule triple_check) (auto simp: hio_opening_def slot_books_def hio_rest_def elim!: books_event)
  then have d: "triple (hio_opening r0 True False)
      (check_step E ''aclrtSetDevice'' (\<lambda>_. aclrtSetDevice 0) no_out (\<lambda>s. s\<lparr>hio_device_set := True\<rparr>))
      (hio_at r0 False False False) (hio_books r0)"
    by (rule triple_weaken) (assumption | erule hio_opening_at)+
  have slots:
    "triple (hio_at r0 False False False) (reserve_step E what hio_alloc hio_alloc_update sz) (hio_at r0 True False False) (hio_books r0)"
    "triple (hio_at r0 True False False) (create_step E what hio_alloc hio_alloc_update sz pr) (hio_at r0 True True False) (hio_books r0)"
    "triple (hio_at r0 True True False) (map_step E what hio_alloc hio_alloc_update sz) (hio_at r0 True True True) (hio_books r0)"
    for what pr
    by (rule hio.slot_at_steps; simp)+
  have "triple (hio_opening r0 False False) (run_steps (hio_body E sz directory)) (hio_at r0 True True True) (hio_books r0)"
    unfolding hio_body_def by (rule triple_Cons triple_Nil i d slots hio_test_at)+
  then show ?thesis
    by (rule triple_weaken) (assumption | simp add: slot_at_def)+
qed

lemma hio_init_simps [simp]:
  "sys_of (hio_init s) = sys_of s" "cleanup_failed (hio_init s) = cleanup_failed s"
  "hio_alloc (hio_init s) = Allocation_new" "\<not> hio_initialized (hio_init s)" "\<not> hio_device_set (hio_init s)"
  "hio_rest (hio_init s) = {#}" "hio_result (hio_init s)"
  by (simp_all add: hio_init_def hio_rest_def probe.defs host_io.defs)

lemma hio_finish_books:
  assumes "hio_books r0 s"
  shows "in_books r0 (hio_finish E s) {#}"
proof -
  let ?i = "one_if (hio_initialized s) R_acl"
  let ?d = "one_if (hio_device_set s) (R_device 0)"
  let ?s1 = "Allocation_destroy E (hio_alloc s) s"
  let ?s2 = "if hio_device_set s then cleanup E (aclrtResetDevice 0) ?s1 else ?s1"
  have "in_books r0 s ((?i + ?d) + alloc_held (hio_alloc s))"
    using assms by (simp add: slot_books_def hio_rest_def)
  then have "in_books r0 ?s1 (?i + ?d)"
    by (rule Allocation_destroy_books)
  then have "in_books r0 ?s2 ?i"
    by (rule in_books_cleanup_if) simp
  then have "in_books r0 ?s2 ({#} + ?i)" by simp
  then show ?thesis
    unfolding hio_finish_def Let_def by (rule in_books_cleanup_if) simp
qed

lemma hio_run_books:
  assumes "in_books r0 s {#}" and "hio_run E sz directory s = Some (n, s')"
  shows "in_books r0 s' {#} \<and> (n = 0 \<longrightarrow> \<not> cleanup_failed s')"
proof -
  obtain e s1 where run: "run_steps (hio_body E sz directory) (hio_init s) = Some (e, s1)"
    and n: "n = (if e \<noteq> None \<or> \<not> hio_result s1 \<or> cleanup_failed s' then 1 else 0)"
    and s': "s' = probe.truncate (hio_finish E s1)"
    using assms(2) by (auto simp: hio_run_def Let_def split: option.splits)
  have "hio_opening r0 False False (hio_init s)"
    using assms(1) by (simp add: hio_opening_def in_books_def trace_of_def)
  then have "hio_books r0 s1"
    using tripleD [OF hio_body_books _ run] by (simp split: if_splits)
  from hio_finish_books [OF this, of E] n show ?thesis
    by (auto simp: s' in_books_def)
qed

text \<open>What exit code 0 says about the transfers.\<close>

lemma hio_setup_appends: "\<forall>f \<in> set (take 5 (hio_body E sz directory)). appends (\<lambda>_. True) f"
  by (auto simp: hio_body_def alloc_steps intro!: appends_check)

lemma hio_finish_grows: "grows (\<lambda>_. True) s (hio_finish E s)"
proof -
  let ?s1 = "Allocation_destroy E (hio_alloc s) s"
  let ?s2 = "if hio_device_set s then cleanup E (aclrtResetDevice 0) ?s1 else ?s1"
  have "grows (\<lambda>_. True) s ?s1"
    by (rule Allocation_destroy_grows) simp_all
  moreover have "grows (\<lambda>_. True) ?s1 ?s2" "grows (\<lambda>_. True) ?s2 (hio_finish E s)"
    unfolding hio_finish_def Let_def by (rule grows_cleanup_if; simp)+
  ultimately show ?thesis
    by (blast intro: grows_trans)
qed

text \<open>A passing test: the file is opened, the buffer makes its round trip, the file is closed and removed.\<close>

definition file_test :: "string \<Rightarrow> u64 \<Rightarrow> u64 \<Rightarrow> event list \<Rightarrow> bool" where
  "file_test directory buffer sz ev \<longleftrightarrow>
     (\<exists>pid fd o1 t o2 o3. 0 \<le> fd \<and> round_trip fd buffer sz t \<and>
        ev = (Io (sys_open (hio_path directory pid) hio_flags), fd, o1) # t @
          [(Io (sys_close fd), 0, o2), (Io (sys_unlink (hio_path directory pid)), 0, o3)])"

lemma test_io_passed:
  assumes "test_io E buffer sz directory s = Some (True, s')"
  shows "\<exists>e1 ev. trace_of s' = trace_of s @ e1 @ ev \<and> file_test directory buffer sz ev"
  using assms
proof (cases rule: test_io_cases)
  case (opened pid o1 s1 fd o2 s2 b s3 c o3 s4 u o4)
  then have b: b and res: "c = 0" "u = 0" by simp_all
  obtain t where t: "trace_of s3 = trace_of s2 @ t" "round_trip fd buffer sz t"
    using hio_write_read_spec(2) [OF opened(4) b] by blast
  let ?ev = "(Io (sys_open (hio_path directory pid) hio_flags), fd, o2) # t @
    [(Io (sys_close fd), 0, o3), (Io (sys_unlink (hio_path directory pid)), 0, o4)]"
  have "trace_of s' = trace_of s @ [(Proc sys_getpid, pid, o1)] @ ?ev"
    using probe_call_trace [OF opened(1)] probe_call_trace [OF opened(2)] probe_call_trace [OF opened(5)]
      probe_call_trace [OF opened(6)] t(1) res by simp
  moreover have "file_test directory buffer sz ?ev"
    unfolding file_test_def using t(2) opened(3) by blast
  ultimately show ?thesis by blast
qed simp

lemma hio_run_passed:
  assumes "hio_run E sz directory s = Some (0, s')"
  shows "\<exists>buffer e1 ev e2. trace_of s' = trace_of s @ e1 @ ev @ e2 \<and> file_test directory buffer sz ev"
proof -
  obtain e s1 where run: "run_steps (hio_body E sz directory) (hio_init s) = Some (e, s1)"
    and "0 = (if e \<noteq> None \<or> \<not> hio_result s1 \<or> cleanup_failed (hio_finish E s1) then 1 else 0 :: int)"
    and s': "s' = probe.truncate (hio_finish E s1)"
    using assms by (auto simp: hio_run_def Let_def split: option.splits)
  then have e: "e = None" and ok: "hio_result s1"
    by (auto split: if_splits)
  have body: "hio_body E sz directory = take 5 (hio_body E sz directory) @ [hio_test E sz directory]"
    by (simp add: hio_body_def)
  obtain s0 where r0: "run_steps (take 5 (hio_body E sz directory)) (hio_init s) = Some (None, s0)"
    and t: "hio_test E sz directory s0 = Some (None, s1)"
    using run [unfolded e] by (subst (asm) body) (auto simp: run_steps_append split: option.splits)
  obtain p s2 where io: "test_io E (alloc_va (hio_alloc s0)) sz directory s0 = Some (p, s2)" "s1 = s2\<lparr>hio_result := p\<rparr>"
    using t by (auto simp: hio_test_def split: option.splits)
  then have "test_io E (alloc_va (hio_alloc s0)) sz directory s0 = Some (True, s2)"
    using ok by simp
  from test_io_passed [OF this] obtain e1 ev where x: "trace_of s2 = trace_of s0 @ e1 @ ev"
    "file_test directory (alloc_va (hio_alloc s0)) sz ev"
    by blast
  obtain e0 where e0: "trace_of s0 = trace_of s @ e0"
    using appendsD [OF appends_run [OF hio_setup_appends] r0] by (auto simp: trace_of_def)
  obtain e4 where "trace_of s' = trace_of s1 @ e4"
    using hio_finish_grows [of s1 E] by (auto simp: s' grows_def)
  then have "trace_of s' = trace_of s @ (e0 @ e1) @ ev @ e4"
    using x(1) e0 io(2) by (simp add: trace_of_def)
  with x(2) show ?thesis by blast
qed

subsection \<open>Termination\<close>

definition never_interrupted :: "'w env \<Rightarrow> bool" where
  "never_interrupted E \<longleftrightarrow> (\<forall>c w. fst (native_fn E c w) \<noteq> - EINTR)"

lemma hio_retry_returns:
  assumes "never_interrupted E"
  shows "\<exists>x. hio_retry E c s = Some x"
proof -
  obtain n out s1 where c1: "probe_call E c s = (n, out, s1)"
    by (rule prod_cases3)
  then have "n \<noteq> - EINTR"
    using assms by (auto simp: never_interrupted_def probe_call_def call_def split: prod.splits) (metis fst_conv)
  with c1 show ?thesis
    by (subst hio_retry.simps) simp
qed

lemma hio_transfer_returns:
  assumes law: "never_interrupted E"
  shows "\<exists>x. hio_transfer E fd buffer sz wr off s = Some x"
proof (induction "unat sz - unat off" arbitrary: off s rule: less_induct)
  case less
  obtain n s1 where h: "hio_retry E (hio_call wr fd buffer (hio_chunk sz off) off) s = Some (n, s1)"
    using hio_retry_returns [OF law] by fastforce
  show ?case
  proof (cases "off < sz")
    case True
    have "unat sz - unat (off + hio_chunk sz off) < unat sz - unat off"
      using True by (simp add: hio_chunk_nat [OF True] word_less_nat_alt)
    from less [OF this] obtain x where "hio_transfer E fd buffer sz wr (off + hio_chunk sz off) s1 = Some x"
      by blast
    with True h show ?thesis
      by (cases x; cases "fst x"; subst hio_transfer.simps) (auto simp: ex_bool_eq)
  next
    case False
    then show ?thesis
      by (subst hio_transfer.simps) (simp add: ex_bool_eq)
  qed
qed

lemma test_io_returns:
  assumes law: "never_interrupted E"
  shows "\<exists>x. test_io E buffer sz directory s = Some x"
proof -
  have w: "\<exists>x. hio_write_read E fd buffer sz t = Some x" for fd t
    using hio_transfer_returns [OF law, of fd buffer sz True 0 "plain_call E (Cpu (c_memset buffer 65 sz)) t"]
      hio_transfer_returns [OF law, of fd buffer sz False 0]
    by (fastforce simp: hio_write_read_def split: option.splits bool.splits)
  obtain pid o1 s1 where c1: "probe_call E (Proc sys_getpid) s = (pid, o1, s1)"
    by (rule prod_cases3)
  obtain fd o2 s2 where c2: "probe_call E (Io (sys_open (hio_path directory pid) hio_flags)) s1 = (fd, o2, s2)"
    by (rule prod_cases3)
  obtain b s3 where "hio_write_read E fd buffer sz s2 = Some (b, s3)"
    using w by fastforce
  with c1 c2 show ?thesis
    by (simp add: test_io_def Let_def ex_bool_eq split: prod.splits)
qed

lemma run_steps_returns:
  assumes "\<forall>f \<in> set fs. \<forall>s. \<exists>x. f s = Some x"
  shows "\<exists>x. run_steps fs s = Some x"
  using assms by (induction fs arbitrary: s) (fastforce split: option.splits)+

lemma check_returns: "\<exists>x. check_step E what c wr ok s = Some x"
  by (simp add: check_step_def split: prod.splits)

lemma hio_run_returns:
  assumes law: "never_interrupted E"
  shows "\<exists>x. hio_run E sz directory s = Some x"
proof -
  have "\<forall>f \<in> set (hio_body E sz directory). \<forall>s. \<exists>x. f s = Some x"
    using check_returns test_io_returns [OF law]
    by (simp add: hio_body_def alloc_steps hio_test_def) (fastforce split: option.splits)
  from run_steps_returns [OF this, of "hio_init s"] obtain e s1 where
    "run_steps (hio_body E sz directory) (hio_init s) = Some (e, s1)" by auto
  then show ?thesis
    by (simp add: hio_run_def Let_def)
qed

end
