(* ===== verification/Device_Share.thy ===== *)
theory Device_Share
  imports Probe_Steps
begin

text \<open>
  src/device_share.cpp: host memory of a creator is imported as device memory by a second process;
  both copy it through device memory of their own and check what they read, the importer writes it
  back. The body of the worker is a list of statements; \<open>std::bad_alloc\<close> and \<open>dlerror()\<close> stand for
  the texts of exceptions that are only logged. Log output has no model. The arguments exclude
  \<open>argv[0]\<close>.
\<close>

record 'w device_share = "'w probe" +
  dvs_library :: u64
  dvs_open_tsd :: u64
  dvs_close_tsd :: u64
  dvs_tsd_open :: bool
  dvs_device_open :: bool
  dvs_mapping :: allocation
  dvs_hbm :: allocation
  dvs_has_host :: bool
  dvs_host :: u64
  dvs_token :: u64

definition dvs_init :: "'w probe \<Rightarrow> 'w device_share" where
  "dvs_init s = probe.extend s
     (device_share.fields nullptr nullptr nullptr False False Allocation_new Allocation_new False nullptr 0)"

definition device_id :: u32 where
  "device_id = 0"

subsection \<open>Set-up\<close>

text \<open>A call whose output is stored and whose return code is not looked at.\<close>

definition output_call ::
  "'w env \<Rightarrow> (('w, 'z) probe_scheme \<Rightarrow> native) \<Rightarrow> (u64 \<Rightarrow> ('w, 'z) probe_scheme \<Rightarrow> ('w, 'z) probe_scheme) \<Rightarrow>
   ('w, 'z) probe_scheme prog_step" where
  "output_call E c wr s = (case probe_call E (c s) s of (_, out, s1) \<Rightarrow> Some (None, wr out s1))"

definition dvs_open :: "'w env \<Rightarrow> 'w device_share prog_step list" where
  "dvs_open E =
     [output_call E (\<lambda>_. Hal (sys_dlopen ''libtsdclient.so'')) (\<lambda>out s. s\<lparr>dvs_library := out\<rparr>),
      throw_unless (\<lambda>s. dvs_library s \<noteq> nullptr) ''dlerror()'',
      output_call E (\<lambda>s. Hal (sys_dlsym (dvs_library s) ''TsdOpen'')) (\<lambda>out s. s\<lparr>dvs_open_tsd := out\<rparr>),
      output_call E (\<lambda>s. Hal (sys_dlsym (dvs_library s) ''TsdClose'')) (\<lambda>out s. s\<lparr>dvs_close_tsd := out\<rparr>),
      throw_unless (\<lambda>s. dvs_open_tsd s \<noteq> nullptr \<and> dvs_close_tsd s \<noteq> nullptr) ''missing TsdOpen/TsdClose'',
      check_step E ''TsdOpen'' (\<lambda>_. Hal (TsdOpen device_id)) no_out (\<lambda>s. s\<lparr>dvs_tsd_open := True\<rparr>),
      assign (plain_call E (Hal halSetRuntimeApiVer)),
      check_step E ''halDeviceOpen'' (\<lambda>_. Hal (halDeviceOpen device_id)) no_out (\<lambda>s. s\<lparr>dvs_device_open := True\<rparr>)]"

text \<open>\<open>std::vector<uint64_t> host(bytes / sizeof(uint64_t))\<close>\<close>

definition dvs_make_host :: "'w env \<Rightarrow> u64 \<Rightarrow> 'w device_share prog_step list" where
  "dvs_make_host E bytes =
     [check_step E ''std::bad_alloc'' (\<lambda>_. Cpu (vector_new (bytes div 8)))
        (\<lambda>out s. s\<lparr>dvs_host := out\<rparr>) (\<lambda>s. s\<lparr>dvs_has_host := True\<rparr>)]"

definition allocate_hbm :: "'w env \<Rightarrow> u64 \<Rightarrow> 'w device_share prog_step list" where
  "allocate_hbm E bytes =
     [reserve_step E ''reserve HBM VA'' dvs_hbm dvs_hbm_update bytes,
      create_step E ''halMemCreate DEVICE HBM normal pages'' dvs_hbm dvs_hbm_update bytes
        (mem_prop MEM_DEV_SIDE device_id MEM_NORMAL_PAGE_TYPE MEM_HBM_TYPE),
      map_step E ''map DEVICE HBM'' dvs_hbm dvs_hbm_update bytes]"

abbreviation dvs_shared :: "'w device_share \<Rightarrow> u64" where
  "dvs_shared s \<equiv> alloc_va (dvs_mapping s)"

abbreviation dvs_own :: "'w device_share \<Rightarrow> u64" where
  "dvs_own s \<equiv> alloc_va (dvs_hbm s)"

definition hal_copy ::
  "'w env \<Rightarrow> string \<Rightarrow> ('w device_share \<Rightarrow> u64) \<Rightarrow> ('w device_share \<Rightarrow> u64) \<Rightarrow> u64 \<Rightarrow> copy_kind \<Rightarrow>
   'w device_share prog_step" where
  "hal_copy E what dst src bytes dir =
     check_step E what (\<lambda>s. Hal (halMemcpy (dst s) bytes (src s) bytes dir device_id)) no_out id"

text \<open>\<open>std::fill(host.begin(), host.end(), 0)\<close>\<close>

definition clear_words :: "'w env \<Rightarrow> u64 \<Rightarrow> u64 \<Rightarrow> ('w, 'z) probe_scheme \<Rightarrow> ('w, 'z) probe_scheme" where
  "clear_words E p bytes s = fold (\<lambda>i. store_word E p i 0) [0..<unat (bytes div 8)] s"

subsection \<open>Creator and importer\<close>

definition dvs_creator :: "'w env \<Rightarrow> int \<Rightarrow> u64 \<Rightarrow> 'w device_share prog_step list" where
  "dvs_creator E fd bytes =
     [reserve_step E ''reserve creator VA'' dvs_mapping dvs_mapping_update bytes,
      create_step E ''halMemCreate HOST DDR'' dvs_mapping dvs_mapping_update bytes
        (mem_prop MEM_HOST_SIDE 0 MEM_NORMAL_PAGE_TYPE MEM_DDR_TYPE),
      map_step E ''map creator HOST'' dvs_mapping dvs_mapping_update bytes,
      assign (\<lambda>s. fill E (dvs_shared s) bytes 101 s)] @
     allocate_hbm E bytes @
     [hal_copy E ''H2D shared HOST source -> HBM destination'' dvs_own dvs_shared bytes COPY_H2D,
      hal_copy E ''D2H creator HBM -> verification buffer'' dvs_host dvs_own bytes COPY_D2H,
      (\<lambda>s. verify E (dvs_host s) bytes 101 ''CREATOR_HOST_TO_HBM'' s),
      check_step E ''export HOST handle''
        (\<lambda>s. halMemExportToShareableHandle (alloc_handle (dvs_mapping s)) 0 (dvs_token s))
        (\<lambda>out s. s\<lparr>dvs_token := out\<rparr>) id,
      check_step E ''enable same-server sharing'' (\<lambda>s. halMemShareHandleSetAttribute (dvs_token s)) no_out id,
      (\<lambda>s. send_word E fd (dvs_token s) s),
      check_receive E fd (\<lambda>v. v = 0) ''importer verified D2D and wrote shared mapping'',
      (\<lambda>s. verify E (dvs_shared s) bytes 202 ''CREATOR_SEES_IMPORTER_WRITE'' s),
      send_word E fd 0,
      check_receive E fd (\<lambda>v. v = 0) ''importer resources released'']"

definition dvs_import :: "'w env \<Rightarrow> int \<Rightarrow> u64 \<Rightarrow> 'w device_share prog_step list" where
  "dvs_import E fd bytes =
     [receive_into E fd (\<lambda>v s. s\<lparr>dvs_token := v\<rparr>),
      reserve_step E ''reserve importer VA'' dvs_mapping dvs_mapping_update bytes,
      import_step E ''import shared handle to DEVICE 0'' dvs_mapping dvs_mapping_update dvs_token (\<lambda>_. device_id),
      map_step E ''map imported DEVICE'' dvs_mapping dvs_mapping_update bytes]"

definition dvs_exchange :: "'w env \<Rightarrow> u64 \<Rightarrow> 'w device_share prog_step list" where
  "dvs_exchange E bytes =
     allocate_hbm E bytes @
     [hal_copy E ''D2D imported DEVICE source -> HBM destination'' dvs_own dvs_shared bytes COPY_D2D,
      hal_copy E ''D2H importer HBM -> verification buffer'' dvs_host dvs_own bytes COPY_D2H,
      (\<lambda>s. verify E (dvs_host s) bytes 101 ''IMPORTER_SHARED_TO_HBM'' s),
      assign (\<lambda>s. fill E (dvs_host s) bytes 202 s),
      hal_copy E ''H2D new pattern -> importer HBM'' dvs_own dvs_host bytes COPY_H2D,
      hal_copy E ''D2D HBM source -> imported DEVICE destination'' dvs_shared dvs_own bytes COPY_D2D,
      assign (\<lambda>s. clear_words E (dvs_host s) bytes s),
      hal_copy E ''D2H imported DEVICE -> verification buffer'' dvs_host dvs_shared bytes COPY_D2H,
      (\<lambda>s. verify E (dvs_host s) bytes 202 ''IMPORTER_WRITE_READBACK'' s)]"

definition dvs_give_back :: "'w env \<Rightarrow> 'w device_share prog_step list" where
  "dvs_give_back E =
     [unmap_step E ''unmap importer DEVICE'' dvs_mapping dvs_mapping_update,
      release_step E ''release importer handle'' dvs_mapping dvs_mapping_update,
      free_step E ''free importer VA'' dvs_mapping dvs_mapping_update]"

definition dvs_importer :: "'w env \<Rightarrow> int \<Rightarrow> u64 \<Rightarrow> 'w device_share prog_step list" where
  "dvs_importer E fd bytes =
     dvs_import E fd bytes @ dvs_exchange E bytes @
     [send_word E fd 0, check_receive E fd (\<lambda>v. v = 0) ''creator acknowledged verification''] @
     dvs_give_back E @ [send_word E fd 0]"

definition dvs_body :: "'w env \<Rightarrow> bool \<Rightarrow> int \<Rightarrow> u64 \<Rightarrow> 'w device_share prog_step list" where
  "dvs_body E importer fd bytes =
     dvs_open E @ dvs_make_host E bytes @ (if importer then dvs_importer E fd bytes else dvs_creator E fd bytes)"

text \<open>Leaving the block destroys the vector, \<open>hbm\<close> and \<open>mapping\<close>, in this order.\<close>

definition dvs_scope_end :: "'w env \<Rightarrow> 'w device_share \<Rightarrow> 'w device_share" where
  "dvs_scope_end E s =
     (let s1 = if dvs_has_host s then plain_call E (Cpu (vector_delete (dvs_host s))) s else s;
          s2 = Allocation_destroy E (dvs_hbm s) s1
      in Allocation_destroy E (dvs_mapping s) s2)"

definition dvs_close :: "'w env \<Rightarrow> int \<Rightarrow> 'w device_share \<Rightarrow> 'w device_share" where
  "dvs_close E fd s =
     (let s1 = plain_call E (Io (sys_close fd)) s;
          s2 = if dvs_device_open s then cleanup E (Hal (halDeviceClose device_id)) s1 else s1;
          s3 = if dvs_tsd_open s then cleanup E (Hal (TsdClose device_id)) s2 else s2
      in if dvs_library s \<noteq> nullptr then cleanup E (Hal (sys_dlclose (dvs_library s))) s3 else s3)"

definition dvs_worker :: "'w env \<Rightarrow> bool \<Rightarrow> int \<Rightarrow> u64 \<Rightarrow> 'w probe \<Rightarrow> (int \<times> 'w probe) option" where
  "dvs_worker E importer fd bytes s =
     (case run_steps (dvs_body E importer fd bytes) (dvs_init s) of None \<Rightarrow> None
      | Some (e, s1) \<Rightarrow>
          let s2 = dvs_close E fd (dvs_scope_end E s1)
          in Some (if e \<noteq> None \<or> cleanup_failed s2 then 1 else 0, probe.truncate s2))"

subsection \<open>Main\<close>

text \<open>The arguments are looked through twice, first for what this program does not support.\<close>

fun dvs_prescan :: "string list \<Rightarrow> cli_parsed" where
  "dvs_prescan [] = Cli_Ok cli_defaults"
| "dvs_prescan [key] =
     (if key = ''--help'' then Cli_Help
      else if key \<noteq> ''--device'' \<and> key \<noteq> ''--size-mib'' \<and> key \<noteq> ''--worker-fd''
      then Cli_Fail (''unsupported option: '' @ key)
      else Cli_Fail ''missing option value'')"
| "dvs_prescan (key # v # args) =
     (if key = ''--help'' then Cli_Help
      else if key \<noteq> ''--device'' \<and> key \<noteq> ''--size-mib'' \<and> key \<noteq> ''--worker-fd''
      then Cli_Fail (''unsupported option: '' @ key)
      else if key = ''--device''
      then case number v of Inl e \<Rightarrow> Cli_Fail e
        | Inr n \<Rightarrow> if n \<noteq> ucast device_id then Cli_Fail ''device_share is fixed to HAL device 0''
                  else dvs_prescan args
      else dvs_prescan args)"

definition dvs_main :: "'w env \<Rightarrow> string list \<Rightarrow> 'w probe \<Rightarrow> (ended \<times> 'w probe) option" where
  "dvs_main E args s =
     (case dvs_prescan args of
        Cli_Help \<Rightarrow> Some (Exit 0, s)
      | Cli_Fail _ \<Rightarrow> Some (Exit 2, s)
      | Cli_Ok _ \<Rightarrow>
          let (_, p, s1) = probe_call E (Proc (sys_getenv ''ASCEND_RT_VISIBLE_DEVICES'')) s
          in if p \<noteq> nullptr then Some (Exit 2, s1)
             else launch E 1 (\<lambda>opt importer fd. dvs_worker E importer fd (cli_bytes opt)) args s1)"

end
