(* ===== verification/Host_Share.thy ===== *)
theory Host_Share
  imports Device_Share
begin

unbundle bit_operations_syntax

text \<open>
  src/host_share.cpp: host memory of a creator is imported as host memory by a second process. Both
  processes check each other's writes and then run \<open>io_tests\<close> on the shared memory: asynchronous
  copies to and from device memory, and Linux AIO, buffered and direct.

  \<open>io_tests\<close> catches exceptions at three levels; \<open>try_catch\<close> is one of them. Its local variables
  are the record \<open>io_vars\<close>. Clock readings and the inspection of \<open>/proc/self/smaps\<close> only feed the
  log and have no model. \<open>failures\<close> is an \<open>int\<close> of 32 bits.
\<close>

definition try_catch :: "'s prog_step list \<Rightarrow> 's prog_step \<Rightarrow> 's prog_step" where
  "try_catch fs handler s =
     (case run_steps fs s of None \<Rightarrow> None
      | Some (None, s1) \<Rightarrow> Some (None, s1)
      | Some (Some _, s1) \<Rightarrow> handler s1)"

subsection \<open>\<open>io_tests\<close>\<close>

record 'w io_vars = "'w probe" +
  iot_acl :: acl_resources
  iot_has_control :: bool
  iot_control :: u64
  iot_fd :: int
  iot_ctx :: u64
  iot_failures :: u32

definition iot_init :: "'w probe \<Rightarrow> 'w io_vars" where
  "iot_init s = probe.extend s (io_vars.fields AclResources_new False nullptr 0 0 0)"

definition count_failure :: "'w io_vars \<Rightarrow> 'w io_vars" where
  "count_failure s = s\<lparr>iot_failures := iot_failures s + 1\<rparr>"

abbreviation iot_device :: "'w io_vars \<Rightarrow> u64" where
  "iot_device s \<equiv> acl_device (iot_acl s)"

abbreviation iot_stream :: "'w io_vars \<Rightarrow> u64" where
  "iot_stream s \<equiv> acl_stream (iot_acl s)"

definition copy_to_device :: "'w env \<Rightarrow> string \<Rightarrow> u64 \<Rightarrow> u64 \<Rightarrow> 'w io_vars prog_step" where
  "copy_to_device E what p bytes =
     check_step E what (\<lambda>s. Acl (aclrtMemcpyAsync (iot_device s) bytes p bytes COPY_H2D (iot_stream s))) no_out id"

definition copy_to_host :: "'w env \<Rightarrow> string \<Rightarrow> u64 \<Rightarrow> u64 \<Rightarrow> 'w io_vars prog_step" where
  "copy_to_host E what p bytes =
     check_step E what (\<lambda>s. Acl (aclrtMemcpyAsync p bytes (iot_device s) bytes COPY_D2H (iot_stream s))) no_out id"

definition sync_stream :: "'w env \<Rightarrow> string \<Rightarrow> 'w io_vars prog_step" where
  "sync_stream E what = check_step E what (\<lambda>s. Acl (aclrtSynchronizeStream (iot_stream s))) no_out id"

definition acl_setup :: "'w env \<Rightarrow> u64 \<Rightarrow> 'w io_vars prog_step list" where
  "acl_setup E bytes =
     [check_step E ''aclrtMalloc'' (\<lambda>_. Acl (aclrtMalloc bytes))
        (\<lambda>out. iot_acl_update (\<lambda>a. a\<lparr>acl_device := out\<rparr>)) id,
      check_step E ''aclrtCreateStream'' (\<lambda>_. Acl (aclrt_create Acl_stream))
        (\<lambda>out. iot_acl_update (\<lambda>a. a\<lparr>acl_stream := out\<rparr>)) id,
      check_step E ''aclrtCreateEvent'' (\<lambda>_. Acl (aclrt_create Acl_event))
        (\<lambda>out. iot_acl_update (\<lambda>a. a\<lparr>acl_event := out\<rparr>)) id]"

definition acl_round_trip :: "'w env \<Rightarrow> u64 \<Rightarrow> u64 \<Rightarrow> u64 \<Rightarrow> 'w io_vars prog_step list" where
  "acl_round_trip E p bytes seed =
     [assign (\<lambda>s. fill E p bytes seed s),
      copy_to_device E ''ACL H2D'' p bytes, sync_stream E ''sync H2D'',
      assign (\<lambda>s. plain_call E (Cpu (c_memset p 0 bytes)) s),
      copy_to_host E ''ACL D2H'' p bytes, sync_stream E ''sync D2H'',
      (\<lambda>s. verify E p bytes seed ''ACL_ASYNC_ROUNDTRIP'' s)]"

definition acl_backlog :: "'w env \<Rightarrow> u64 \<Rightarrow> u64 \<Rightarrow> bool \<Rightarrow> 'w io_vars prog_step list" where
  "acl_backlog E p bytes d =
     replicate 32 (if d then copy_to_host E ''ACL backlog'' p bytes else copy_to_device E ''ACL backlog'' p bytes) @
     [check_step E ''record event'' (\<lambda>s. Acl (aclrtRecordEvent (acl_event (iot_acl s)) (iot_stream s))) no_out id,
      check_step E ''query event'' (\<lambda>s. Acl (aclrtQueryEventStatus (acl_event (iot_acl s)))) no_out id,
      check_step E ''sync event'' (\<lambda>s. Acl (aclrtSynchronizeEvent (acl_event (iot_acl s)))) no_out id]"

definition acl_tests :: "'w env \<Rightarrow> u64 \<Rightarrow> u64 \<Rightarrow> u64 \<Rightarrow> 'w io_vars prog_step" where
  "acl_tests E p bytes seed =
     try_catch (acl_setup E bytes @ acl_round_trip E p bytes seed @
         acl_backlog E p bytes False @ acl_backlog E p bytes True @
         [\<lambda>s. verify E p bytes seed ''ACL_AFTER_BACKLOG'' s])
       (\<lambda>s. if iot_stream s \<noteq> nullptr
            then sync_stream E ''sync failed ACL before CPU use'' (count_failure s)
            else Some (None, count_failure s))"

definition aio_step ::
  "'w env \<Rightarrow> ('w io_vars \<Rightarrow> u64) \<Rightarrow> u64 \<Rightarrow> bool \<Rightarrow> 'w io_vars prog_step" where
  "aio_step E p bytes write s =
     (case aio_operation E (iot_ctx s) (iot_fd s) (p s) bytes write s of
        (e, ctx, s1) \<Rightarrow> Some (e, s1\<lparr>iot_ctx := ctx\<rparr>))"

definition clear_control :: "'w env \<Rightarrow> u64 \<Rightarrow> 'w io_vars prog_step" where
  "clear_control E bytes = assign (\<lambda>s. plain_call E (Cpu (c_memset (iot_control s) 0 bytes)) s)"

definition flush_file :: "'w env \<Rightarrow> string \<Rightarrow> 'w io_vars prog_step" where
  "flush_file E what = check_step E what (\<lambda>s. Io (sys_fdatasync (iot_fd s))) no_out id"

text \<open>One operation of the shared memory; when the context is gone the exception goes on.\<close>

definition shared_aio :: "'w env \<Rightarrow> u64 \<Rightarrow> u64 \<Rightarrow> u64 \<Rightarrow> bool \<Rightarrow> 'w io_vars prog_step list" where
  "shared_aio E p bytes seed write =
     (let write_seed = seed XOR 0xfedcba9876543210
      in [assign (\<lambda>s. fill E p bytes (if write then write_seed else 0) s),
          try_catch
            (aio_step E (\<lambda>_. p) bytes write #
             (if write
              then [flush_file E ''HAL AIO fdatasync'', clear_control E bytes,
                    aio_step E iot_control bytes False,
                    (\<lambda>s. verify E (iot_control s) bytes write_seed ''HAL_AIO_WRITE_DATA'' s)]
              else [\<lambda>s. verify E p bytes seed ''HAL_AIO_READ_DATA'' s]))
            (\<lambda>s. Some (if iot_ctx s = 0 then Some ''rethrown'' else None, count_failure s))])"

definition aio_tests :: "'w env \<Rightarrow> u64 \<Rightarrow> u64 \<Rightarrow> u64 \<Rightarrow> 'w io_vars prog_step" where
  "aio_tests E p bytes seed =
     try_catch
       ([check_step E ''io_setup'' (\<lambda>_. Io (sys_io_setup 8)) (\<lambda>out s. s\<lparr>iot_ctx := out\<rparr>) id,
         aio_step E iot_control bytes True,
         flush_file E ''seed file fdatasync'', clear_control E bytes,
         aio_step E iot_control bytes False,
         (\<lambda>s. verify E (iot_control s) bytes seed ''POSIX_AIO_CONTROL'' s)] @
        shared_aio E p bytes seed False @ shared_aio E p bytes seed True)
       (\<lambda>s. Some (None, count_failure s))"

definition aio_path :: "string \<Rightarrow> int \<Rightarrow> bool \<Rightarrow> string" where
  "aio_path dir pid direct =
     dir @ ''/aio-share-'' @ to_string_int pid @ ''-'' @ (if direct then ''1'' else ''0'') @ ''.bin''"

definition with_file :: "'w env \<Rightarrow> string \<Rightarrow> u64 \<Rightarrow> u64 \<Rightarrow> u64 \<Rightarrow> 'w io_vars prog_step" where
  "with_file E path p bytes seed s =
     (let (r, _, s1) = probe_call E (Io (sys_unlink path)) s
      in if r \<noteq> 0
         then Some (Some ''unlink temporary AIO file'',
           (plain_call E (Cpu (control_free (iot_control s1))) (plain_call E (Io (sys_close (iot_fd s1))) s1))
             \<lparr>iot_has_control := False\<rparr>)
         else run_steps
           [aio_tests E p bytes seed,
            assign (\<lambda>s. if iot_ctx s \<noteq> 0 then cleanup E (Io (sys_io_destroy (iot_ctx s))) s else s),
            assign (\<lambda>s. cleanup E (Io (sys_close (iot_fd s))) s)]
           (s1\<lparr>iot_ctx := 0\<rparr>))"

definition aio_mode ::
  "'w env \<Rightarrow> cli_options \<Rightarrow> u64 \<Rightarrow> u64 \<Rightarrow> u64 \<Rightarrow> bool \<Rightarrow> 'w io_vars prog_step" where
  "aio_mode E opt p bytes seed direct s =
     (if cli_aio opt = ''buffered'' \<and> direct \<or> cli_aio opt = ''direct'' \<and> \<not> direct then Some (None, s)
      else let s1 = fill E (iot_control s) bytes seed s;
               (pid, _, s2) = probe_call E (Proc sys_getpid) s1;
               path = aio_path (cli_io_dir opt) pid direct;
               (fd, _, s3) = probe_call E (Io (sys_open path
                 ([''O_CREAT'', ''O_EXCL'', ''O_RDWR''] @ (if direct then [''O_DIRECT''] else [])))) s2
           in if fd < 0 then Some (None, count_failure s3)
              else with_file E path p bytes seed (s3\<lparr>iot_fd := fd\<rparr>))"

definition io_body :: "'w env \<Rightarrow> cli_options \<Rightarrow> u64 \<Rightarrow> u64 \<Rightarrow> u64 \<Rightarrow> 'w io_vars prog_step list" where
  "io_body E opt p bytes seed =
     [acl_tests E p bytes seed,
      when_step (cli_aio opt \<noteq> ''none'')
        [check_step E ''allocate IO control'' (\<lambda>_. Cpu (posix_memalign 4096 bytes))
           (\<lambda>out s. s\<lparr>iot_control := out\<rparr>) (\<lambda>s. s\<lparr>iot_has_control := True\<rparr>),
         assign (\<lambda>s. fill E (iot_control s) bytes seed s),
         aio_mode E opt p bytes seed False, aio_mode E opt p bytes seed True,
         assign (\<lambda>s. (plain_call E (Cpu (control_free (iot_control s))) s)\<lparr>iot_has_control := False\<rparr>)],
      assign (\<lambda>s. fill E p bytes seed s)]"

definition io_tests ::
  "'w env \<Rightarrow> cli_options \<Rightarrow> u64 \<Rightarrow> u64 \<Rightarrow> u64 \<Rightarrow> 'w probe \<Rightarrow> ((string + u32) \<times> 'w probe) option" where
  "io_tests E opt p bytes seed s =
     (case run_steps (io_body E opt p bytes seed) (iot_init s) of None \<Rightarrow> None
      | Some (e, s1) \<Rightarrow>
          let s2 = AclResources_destroy E (iot_acl s1) s1
          in Some (case e of Some what \<Rightarrow> Inl what | None \<Rightarrow> Inr (iot_failures s1), probe.truncate s2))"

subsection \<open>The worker\<close>

record 'w host_share = "'w probe" +
  hsh_initialized :: bool
  hsh_device_set :: bool
  hsh_host :: allocation
  hsh_host_id :: u32
  hsh_token :: u64
  hsh_failures :: u32

definition hsh_init :: "'w probe \<Rightarrow> 'w host_share" where
  "hsh_init s = probe.extend s (host_share.fields False False Allocation_new 0 0 0)"

abbreviation hsh_va :: "'w host_share \<Rightarrow> u64" where
  "hsh_va s \<equiv> alloc_va (hsh_host s)"

text \<open>\<open>failures += io_tests(host.va, bytes, seed, role)\<close>\<close>

definition hsh_io_tests :: "'w env \<Rightarrow> cli_options \<Rightarrow> u64 \<Rightarrow> u64 \<Rightarrow> 'w host_share prog_step" where
  "hsh_io_tests E opt bytes seed s =
     (case io_tests E opt (hsh_va s) bytes seed (probe.truncate s) of None \<Rightarrow> None
      | Some (r, t) \<Rightarrow>
          let s1 = s\<lparr>sys_of := sys_of t, cleanup_failed := cleanup_failed t\<rparr>
          in Some (case r of Inl e \<Rightarrow> (Some e, s1) | Inr n \<Rightarrow> (None, s1\<lparr>hsh_failures := hsh_failures s1 + n\<rparr>)))"

definition hsh_open :: "'w env \<Rightarrow> cli_options \<Rightarrow> 'w host_share prog_step list" where
  "hsh_open E opt =
     [check_step E ''aclInit'' (\<lambda>_. aclInit) no_out (\<lambda>s. s\<lparr>hsh_initialized := True\<rparr>),
      check_step E ''aclrtSetDevice'' (\<lambda>_. aclrtSetDevice (cli_device opt)) no_out (\<lambda>s. s\<lparr>hsh_device_set := True\<rparr>),
      check_step E ''halGetHostID'' (\<lambda>s. Hal (halGetHostID (hsh_host_id s)))
        (\<lambda>out s. s\<lparr>hsh_host_id := ucast out\<rparr>) id]"

definition hsh_map :: "'w env \<Rightarrow> u64 \<Rightarrow> 'w host_share prog_step list" where
  "hsh_map E bytes =
     [map_step E ''halMemMap HOST'' hsh_host hsh_host_update bytes]"

text \<open>\<open>inspect_mapping\<close>\<close>

definition inspect_mapping :: "'w env \<Rightarrow> 'w host_share prog_step" where
  "inspect_mapping E = assign (\<lambda>s. plain_call E (Hal (drvMemGetAttribute (hsh_va s))) s)"

definition hsh_creator :: "'w env \<Rightarrow> cli_options \<Rightarrow> int \<Rightarrow> u64 \<Rightarrow> 'w host_share prog_step list" where
  "hsh_creator E opt fd bytes =
     [reserve_step E ''reserve creator VA'' hsh_host hsh_host_update bytes,
      create_step E ''halMemCreate HOST DDR'' hsh_host hsh_host_update bytes
        (mem_prop MEM_HOST_SIDE 0 MEM_HUGE_PAGE_TYPE MEM_DDR_TYPE)] @
     hsh_map E bytes @
     [inspect_mapping E,
      assign (\<lambda>s. fill E (hsh_va s) bytes 101 s),
      (\<lambda>s. verify E (hsh_va s) bytes 101 ''CREATOR_CPU_RW'' s),
      check_step E ''export handle''
        (\<lambda>s. halMemExportToShareableHandle (alloc_handle (hsh_host s)) 0 (hsh_token s))
        (\<lambda>out s. s\<lparr>hsh_token := out\<rparr>) id,
      check_step E ''enable same-server sharing'' (\<lambda>s. halMemShareHandleSetAttribute (hsh_token s)) no_out id,
      (\<lambda>s. send_word E fd (hsh_token s) s),
      check_receive E fd (\<lambda>v. v = 0) ''importer mapped and verified creator data'',
      (\<lambda>s. verify E (hsh_va s) bytes 202 ''CREATOR_SEES_IMPORTER_WRITE'' s),
      hsh_io_tests E opt bytes 303,
      send_word E fd 303,
      receive_into E fd (\<lambda>v s. s\<lparr>hsh_failures := hsh_failures s + ucast v\<rparr>),
      (\<lambda>s. verify E (hsh_va s) bytes 404 ''CREATOR_SEES_IMPORTER_AFTER_IO'' s),
      send_word E fd 0,
      check_receive E fd (\<lambda>v. v = 0) ''importer unmapped'']"

definition hsh_importer :: "'w env \<Rightarrow> cli_options \<Rightarrow> int \<Rightarrow> u64 \<Rightarrow> 'w host_share prog_step list" where
  "hsh_importer E opt fd bytes =
     [receive_into E fd (\<lambda>v s. s\<lparr>hsh_token := v\<rparr>),
      reserve_step E ''reserve importer VA'' hsh_host hsh_host_update bytes,
      import_step E ''halMemImportFromShareableHandle HOST'' hsh_host hsh_host_update hsh_token hsh_host_id] @
     hsh_map E bytes @
     [inspect_mapping E,
      (\<lambda>s. verify E (hsh_va s) bytes 101 ''IMPORTER_SEES_CREATOR_WRITE'' s),
      assign (\<lambda>s. fill E (hsh_va s) bytes 202 s),
      (\<lambda>s. verify E (hsh_va s) bytes 202 ''IMPORTER_CPU_RW'' s),
      send_word E fd 0,
      check_receive E fd (\<lambda>v. v = 303) ''creator IO completed'',
      (\<lambda>s. verify E (hsh_va s) bytes 303 ''IMPORTER_SEES_CREATOR_AFTER_IO'' s),
      hsh_io_tests E opt bytes 404,
      (\<lambda>s. send_word E fd (scast (hsh_failures s)) s),
      check_receive E fd (\<lambda>v. v = 0) ''creator verified final data''] @
     [unmap_step E ''importer unmap'' hsh_host hsh_host_update,
      release_step E ''importer release'' hsh_host hsh_host_update,
      free_step E ''importer free VA'' hsh_host hsh_host_update] @
     [send_word E fd 0]"

definition hsh_body :: "'w env \<Rightarrow> cli_options \<Rightarrow> bool \<Rightarrow> int \<Rightarrow> u64 \<Rightarrow> 'w host_share prog_step list" where
  "hsh_body E opt reader fd bytes =
     hsh_open E opt @ (if reader then hsh_importer E opt fd bytes else hsh_creator E opt fd bytes)"

definition hsh_finish :: "'w env \<Rightarrow> cli_options \<Rightarrow> int \<Rightarrow> 'w host_share \<Rightarrow> 'w host_share" where
  "hsh_finish E opt fd s =
     (let s1 = Allocation_destroy E (hsh_host s) s;
          s2 = plain_call E (Io (sys_close fd)) s1;
          s3 = if hsh_device_set s then cleanup E (aclrtResetDevice (cli_device opt)) s2 else s2
      in if hsh_initialized s then cleanup E aclFinalize s3 else s3)"

definition hsh_worker ::
  "'w env \<Rightarrow> cli_options \<Rightarrow> bool \<Rightarrow> int \<Rightarrow> u64 \<Rightarrow> 'w probe \<Rightarrow> (int \<times> 'w probe) option" where
  "hsh_worker E opt reader fd bytes s =
     (case run_steps (hsh_body E opt reader fd bytes) (hsh_init s) of None \<Rightarrow> None
      | Some (e, s1) \<Rightarrow>
          let failures = (if e \<noteq> None then hsh_failures s1 + 100 else hsh_failures s1);
              s2 = hsh_finish E opt fd s1
          in Some (if failures \<noteq> 0 \<or> cleanup_failed s2 then 1 else 0, probe.truncate s2))"

definition hsh_main :: "'w env \<Rightarrow> string list \<Rightarrow> 'w probe \<Rightarrow> (ended \<times> 'w probe) option" where
  "hsh_main E args s =
     launch E 2 (\<lambda>opt importer fd. hsh_worker E opt importer fd (cli_bytes opt)) args s"

end
