(* ===== verification/Host_Io_Facts.thy ===== *)
theory Host_Io_Facts
  imports Host_Share Probe_Launch
begin

text \<open>
  The facts about \<open>io_tests\<close> of src/host_share.cpp: whatever is thrown and wherever it is caught, it
  gives back the device memory, stream and event, the control block, the files and the asynchronous
  context it obtained, and it never touches the socket or the shared mapping.
\<close>

lemma triple_try:
  assumes "triple P (run_steps fs) Q R" and "triple R h Q X"
  shows "triple P (try_catch fs h) Q X"
proof (rule tripleI)
  fix s e s'
  assume P: "P s" and t: "try_catch fs h s = Some (e, s')"
  obtain e1 s1 where f: "run_steps fs s = Some (e1, s1)"
    using t by (cases "run_steps fs s") (auto simp: try_catch_def)
  show "if e = None then Q s' else X s'"
  proof (cases e1)
    case None
    with t f tripleD [OF assms(1) P f] show ?thesis by (simp add: try_catch_def)
  next
    case (Some x)
    with t f have "h s1 = Some (e, s')" by (simp add: try_catch_def)
    with tripleD [OF assms(1) P f] Some tripleD [OF assms(2)] show ?thesis by simp
  qed
qed

lemma triple_replicate: "triple P f P X \<Longrightarrow> triple P (run_steps (replicate n f)) P X"
  by (induction n) (auto intro: triple_Nil triple_Cons)

subsection \<open>The calls\<close>

definition is_io :: "native \<Rightarrow> bool" where
  "is_io c \<longleftrightarrow> (case c of Acl _ \<Rightarrow> True | Cpu _ \<Rightarrow> True | Proc _ \<Rightarrow> True
     | Io (sys_send _ _ _) \<Rightarrow> False | Io (sys_recv _ _) \<Rightarrow> False | Io _ \<Rightarrow> True | _ \<Rightarrow> False)"

lemma is_io_simps [simp]:
  "is_io (Acl a)" "is_io (Cpu c)" "is_io (Proc p)" "is_io (Io (sys_io_setup n))" "is_io (Io (sys_unlink path))"
  "is_io (Io (sys_io_destroy ctx))" "is_io (Io (sys_open path flags))" "is_io (Io (sys_close fd))" "is_io (Io (sys_fdatasync fd))"
  by (simp_all add: is_io_def)

lemma is_io_quiet: "is_io c \<Longrightarrow> no_send c" "is_io c \<Longrightarrow> \<not> is_let_go c"
  by (auto simp: is_io_def no_send_def is_let_go_def split: native.splits io_call.splits)

lemma is_io_memory: "is_store c \<Longrightarrow> is_io c" "is_load c \<Longrightarrow> is_io c" "is_aio_read c \<Longrightarrow> is_io c"
  by (auto simp: is_io_def is_store_def is_load_def is_aio_read_def split: native.splits io_call.splits)

text \<open>The same without the runtime's copies.\<close>

definition is_aio :: "native \<Rightarrow> bool" where
  "is_aio c \<longleftrightarrow> is_io c \<and> (case c of Acl _ \<Rightarrow> False | _ \<Rightarrow> True)"

lemma is_aio_simps [simp]:
  "is_aio (Cpu c)" "is_aio (Proc p)" "is_aio (Io (sys_io_setup n))" "is_aio (Io (sys_unlink path))"
  "is_aio (Io (sys_io_destroy ctx))" "is_aio (Io (sys_open path flags))" "is_aio (Io (sys_close fd))" "is_aio (Io (sys_fdatasync fd))"
  "is_aio (Io (sys_ftruncate fd k))"
  by (simp_all add: is_aio_def is_io_def)

lemma is_aio_io: "is_aio c \<Longrightarrow> is_io c"
  by (simp add: is_aio_def)

lemma is_aio_memory: "is_store c \<Longrightarrow> is_aio c" "is_load c \<Longrightarrow> is_aio c" "is_aio_read c \<Longrightarrow> is_aio c"
  by (auto simp: is_aio_def is_io_def is_store_def is_load_def is_aio_read_def split: native.splits io_call.splits)

lemma appends_try [step_effects]:
  assumes "\<forall>f \<in> set fs. appends C f" and "appends C h"
  shows "appends C (try_catch fs h)"
proof (rule appendsI)
  fix s e s'
  assume t: "try_catch fs h s = Some (e, s')"
  obtain e1 s1 where f: "run_steps fs s = Some (e1, s1)"
    using t by (cases "run_steps fs s") (auto simp: try_catch_def)
  obtain ev where ev: "trace_of s1 = trace_of s @ ev" "list_all C (map fst ev)"
    by (rule appendsD [OF appends_run [OF assms(1)] f])
  show "\<exists>ev. trace_of s' = trace_of s @ ev \<and> list_all C (map fst ev)"
  proof (cases e1)
    case None
    with t f ev show ?thesis by (auto simp: try_catch_def)
  next
    case (Some x)
    with t f have "h s1 = Some (e, s')" by (simp add: try_catch_def)
    then obtain ev' where "trace_of s' = trace_of s1 @ ev'" "list_all C (map fst ev')"
      by (rule appendsD [OF assms(2)])
    with ev show ?thesis
      by (intro exI [of _ "ev @ ev'"]) simp
  qed
qed

lemma appends_grows: "(\<And>s e s'. f s = Some (e, s') \<Longrightarrow> grows C s s') \<Longrightarrow> appends C f"
  by (rule appendsI) (simp add: grows_def)

lemma count_failure_simps [simp]:
  "sys_of (count_failure s) = sys_of s" "cleanup_failed (count_failure s) = cleanup_failed s"
  "trace_of (count_failure s) = trace_of s" "iot_acl (count_failure s) = iot_acl s"
  "iot_has_control (count_failure s) = iot_has_control s" "iot_control (count_failure s) = iot_control s"
  "iot_fd (count_failure s) = iot_fd s" "iot_ctx (count_failure s) = iot_ctx s"
  by (simp_all add: count_failure_def trace_of_def)

lemma aio_step_aio: "aio_step E p bytes write s = Some (e, s') \<Longrightarrow> grows is_aio s s'"
proof -
  assume a: "aio_step E p bytes write s = Some (e, s')"
  obtain e1 ctx s1 where o: "aio_operation E (iot_ctx s) (iot_fd s) (p s) bytes write s = (e1, ctx, s1)"
    by (rule prod_cases3)
  have io: "moves is_aio_read t u \<Longrightarrow> grows is_aio t u" for t u :: "'a io_vars"
    using moves_trace [OF moves_mono [of is_aio_read t u is_aio]] is_aio_memory(3) unfolding grows_def by blast
  have call: "probe_call E c t = (r, x, u) \<Longrightarrow> is_aio_read c \<Longrightarrow> grows is_aio t u" for c t r x and u :: "'a io_vars"
    by (rule io, rule moves_call)
  from o have "grows is_aio s s1"
  proof (cases rule: aio_operation_cases)
    case (submit ret out t)
    have "grows is_aio s t"
      by (rule call [OF submit(1)]) simp
    then show ?thesis
      unfolding submit(5) by (rule grows_trans [OF _ grows_cleanup]) simp
  next
    case (events out t ret out2 u)
    have "grows is_aio s u"
      by (rule grows_trans [OF call [OF events(1)] call [OF events(2)]]) simp_all
    then show ?thesis
      unfolding events(6) by (rule grows_trans [OF _ grows_cleanup]) simp
  next
    case (complete out t out2 u failed)
    have "grows is_aio s u"
      by (rule grows_trans [OF call [OF complete(1)] call [OF complete(2)]]) simp_all
    then show ?thesis
      by (rule grows_trans [OF _ io [OF aio_events_moves [OF complete(3)]]])
  qed
  with a o show ?thesis
    by (auto simp: aio_step_def grows_def trace_of_def)
qed

lemma grows_weaken: "grows C s s' \<Longrightarrow> (\<And>c. C c \<Longrightarrow> D c) \<Longrightarrow> grows D s s'"
  unfolding grows_def by (meson list.pred_mono_strong)

lemma aio_step_grows: "aio_step E p bytes write s = Some (e, s') \<Longrightarrow> grows is_io s s'"
  by (rule grows_weaken [OF aio_step_aio is_aio_io])

lemma grows_same: "trace_of s' = trace_of s \<Longrightarrow> grows C s s'"
  by (simp add: grows_def)

lemma grows_fill: "grows is_io s (fill E p bytes seed s)"
  using moves_trace [OF moves_mono [OF fill_moves is_io_memory(1)]] by (simp add: grows_def)

lemma grows_fill_aio: "grows is_aio s (fill E p bytes seed s)"
  using moves_trace [OF moves_mono [OF fill_moves is_aio_memory(1)]] by (simp add: grows_def)

lemma grows_call: "probe_call E c s = (r, out, s') \<Longrightarrow> C c \<Longrightarrow> grows C s s'"
  using probe_call_trace [of E c s r out s'] by (simp add: grows_def)

lemmas io_appends = calls_effects(3) [THEN appends_mono, OF is_io_memory(1)] calls_effects(5) [THEN appends_mono, OF is_io_memory(2)]

lemma appends_count: "appends C (\<lambda>s. Some (g s, count_failure s))"
  by (rule appends_grows) (auto simp: grows_def)

lemma appends_cleanup: "(\<And>s. C (c s)) \<Longrightarrow> appends C (assign (\<lambda>s. if b s then cleanup E (c s) s else s))"
  by (rule appends_grows) (auto simp: assign_def intro: grows_cleanup)

lemma appends_memset: "appends is_io (clear_control E bytes)"
  unfolding clear_control_def by (rule calls_effects(1)) simp

lemma io_statements:
  "appends is_io (copy_to_device E what p bytes)" "appends is_io (copy_to_host E what p bytes)"
  "appends is_io (sync_stream E what)" "appends is_io (flush_file E what)" "appends is_io (clear_control E bytes)"
  "appends is_io (aio_step E q bytes write)"
  unfolding copy_to_device_def copy_to_host_def sync_stream_def flush_file_def
  by (rule appends_check; simp)+ (rule appends_memset, rule appends_grows, erule aio_step_grows)

lemma aio_statements:
  "appends is_aio (flush_file E what)" "appends is_aio (clear_control E bytes)" "appends is_aio (aio_step E q bytes write)"
proof -
  show "appends is_aio (flush_file E what)"
    unfolding flush_file_def by (rule appends_check) simp_all
  show "appends is_aio (clear_control E bytes)"
    unfolding clear_control_def by (rule calls_effects(1)) simp
  show "appends is_aio (aio_step E q bytes write)"
    by (rule appends_grows, erule aio_step_aio)
qed

lemmas aio_appends = calls_effects(3) [THEN appends_mono, OF is_aio_memory(1)] calls_effects(5) [THEN appends_mono, OF is_aio_memory(2)]

lemma acl_tests_appends: "appends is_io (acl_tests E p bytes seed)"
  unfolding acl_tests_def
proof (rule appends_try)
  show "\<forall>f \<in> set (acl_setup E bytes @ acl_round_trip E p bytes seed @ acl_backlog E p bytes False @
      acl_backlog E p bytes True @ [\<lambda>s. verify E p bytes seed ''ACL_AFTER_BACKLOG'' s]). appends is_io f"
    by (auto simp: acl_setup_def acl_round_trip_def acl_backlog_def io_statements
        intro!: appends_check io_appends calls_effects(1))
  show "appends is_io (\<lambda>s. if iot_stream s \<noteq> nullptr
      then sync_stream E ''sync failed ACL before CPU use'' (count_failure s) else Some (None, count_failure s))"
    by (rule appendsI) (auto split: if_splits elim!: appendsD [OF io_statements(3)])
qed

lemma aio_tests_appends: "appends is_io (aio_tests E p bytes seed)"
  by (auto simp: aio_tests_def shared_aio_def Let_def io_statements
      intro!: appends_try appends_check appends_count io_appends)

lemma with_file_appends: "appends is_io (with_file E path p bytes seed)"
proof (rule appends_grows)
  fix s e s'
  assume w: "with_file E path p bytes seed s = Some (e, s')"
  obtain r o1 s1 where c: "probe_call E (Io (sys_unlink path)) s = (r, o1, s1)"
    by (rule prod_cases3)
  have g: "grows is_io s s1"
    by (rule grows_call [OF c]) simp
  show "grows is_io s s'"
  proof (cases "r = 0")
    case False
    let ?u = "plain_call E (Io (sys_close (iot_fd s1))) s1"
    let ?v = "plain_call E (Cpu (control_free (iot_control s1))) ?u"
    have "grows is_io s1 ?v"
      by (rule grows_trans [OF grows_plain grows_plain]) simp_all
    moreover have "s' = ?v\<lparr>iot_has_control := False\<rparr>"
      using w c False by (simp add: with_file_def)
    then have "grows is_io ?v s'"
      by (simp add: grows_def trace_of_def)
    ultimately show ?thesis
      using g by (blast intro: grows_trans)
  next
    case True
    let ?fs = "[aio_tests E p bytes seed,
        assign (\<lambda>s. if iot_ctx s \<noteq> 0 then cleanup E (Io (sys_io_destroy (iot_ctx s))) s else s),
        assign (\<lambda>s. cleanup E (Io (sys_close (iot_fd s))) s)]"
    have fs: "\<forall>f \<in> set ?fs. appends is_io f"
      by (auto simp: aio_tests_appends intro: appends_cleanup appends_cleanup [of _ _ "\<lambda>_. True", simplified])
    have "run_steps ?fs (s1\<lparr>iot_ctx := 0\<rparr>) = Some (e, s')"
      using w c True by (simp add: with_file_def del: run_steps.simps)
    then have "grows is_io (s1\<lparr>iot_ctx := 0\<rparr>) s'"
      unfolding grows_def by (rule appendsD [OF appends_run [OF fs]]) blast
    with g show ?thesis
      by (auto simp: grows_def trace_of_def)
  qed
qed

lemma aio_mode_appends: "appends is_io (aio_mode E opt p bytes seed direct)"
proof (rule appends_grows)
  fix s e s'
  assume w: "aio_mode E opt p bytes seed direct s = Some (e, s')"
  let ?s1 = "fill E (iot_control s) bytes seed s"
  obtain pid o1 s2 where c1: "probe_call E (Proc sys_getpid) ?s1 = (pid, o1, s2)"
    by (rule prod_cases3)
  let ?path = "aio_path (cli_io_dir opt) pid direct"
  obtain fd o2 s3 where c2: "probe_call E (Io (sys_open ?path
      ([''O_CREAT'', ''O_EXCL'', ''O_RDWR''] @ (if direct then [''O_DIRECT''] else [])))) s2 = (fd, o2, s3)"
    by (rule prod_cases3)
  have g: "grows is_io s s3"
    by (rule grows_trans [OF grows_fill grows_trans [OF grows_call [OF c1] grows_call [OF c2]]]) simp_all
  consider "s' = s" | "s' = count_failure s3" | "with_file E ?path p bytes seed (s3\<lparr>iot_fd := fd\<rparr>) = Some (e, s')"
    using w c1 c2 by (auto simp: aio_mode_def Let_def split: if_splits)
  then show "grows is_io s s'"
  proof cases
    case 3
    then obtain ev where "trace_of s' = trace_of s3 @ ev" "list_all is_io (map fst ev)"
      by (rule appendsD [OF with_file_appends]) (simp add: trace_of_def)
    with g show ?thesis
      by (auto simp: grows_def)
  qed (use g in \<open>simp_all add: grows_def\<close>)
qed

lemma io_body_appends: "\<forall>f \<in> set (io_body E opt p bytes seed). appends is_io f"
proof -
  have free: "appends is_io (assign (\<lambda>s. (plain_call E (Cpu (control_free (iot_control s))) s)\<lparr>iot_has_control := False\<rparr>))"
  proof (rule appends_grows)
    fix s e s'
    assume "assign (\<lambda>s. (plain_call E (Cpu (control_free (iot_control s))) s)\<lparr>iot_has_control := False\<rparr>) s = Some (e, s')"
    then have "trace_of s' = trace_of (plain_call E (Cpu (control_free (iot_control s))) s)"
      by (auto simp: assign_def trace_of_def)
    moreover have "grows is_io s (plain_call E (Cpu (control_free (iot_control s))) s)"
      by (rule grows_plain) simp
    ultimately show "grows is_io s s'"
      by (simp add: grows_def)
  qed
  show ?thesis
    by (auto simp: io_body_def acl_tests_appends aio_mode_appends free intro!: appends_when appends_check io_appends)
qed

subsection \<open>The books\<close>

type_synonym io_view = "acl_resources \<times> bool \<times> u64 \<times> int \<times> u64"

definition io_view :: "'w io_vars \<Rightarrow> io_view" where
  "io_view s = (iot_acl s, iot_has_control s, iot_control s, iot_fd s, iot_ctx s)"

text \<open>The books hold for what \<open>G\<close> says is held, and \<open>Z\<close> holds, both of the variables.\<close>

definition io_at ::
  "resource multiset \<Rightarrow> (io_view \<Rightarrow> resource multiset) \<Rightarrow> (io_view \<Rightarrow> bool) \<Rightarrow> 'w io_vars \<Rightarrow> bool" where
  "io_at r0 G Z s \<longleftrightarrow> in_books r0 s (G (io_view s)) \<and> Z (io_view s)"

definition io_quiet :: "'w io_vars prog_step \<Rightarrow> bool" where
  "io_quiet f \<longleftrightarrow> (\<forall>s e s'. f s = Some (e, s') \<longrightarrow> io_view s' = io_view s \<and> cleanup_failed s' = cleanup_failed s \<and>
     (\<exists>ev. trace_of s' = trace_of s @ ev \<and> list_all neutral ev))"

lemma io_quiet_at: "io_quiet f \<Longrightarrow> triple (io_at r0 G Z) f (io_at r0 G Z) (io_at r0 G Z)"
  by (rule tripleI) (unfold io_quiet_def io_at_def, metis (full_types) in_books_neutral)

lemma io_quietI:
  assumes "appends C f" and "\<And>c r. C c \<Longrightarrow> neutral (c, r)" and "leaves (\<lambda>s. (io_view s, cleanup_failed s)) f"
  shows "io_quiet f"
  unfolding io_quiet_def
proof (intro allI impI)
  fix s e s'
  assume f: "f s = Some (e, s')"
  obtain ev where ev: "trace_of s' = trace_of s @ ev" "list_all C (map fst ev)"
    by (rule appendsD [OF assms(1) f])
  have "list_all neutral ev"
    using ev(2) by (induction ev) (auto intro: assms(2))
  with ev(1) leavesD [OF assms(3) f] show "io_view s' = io_view s \<and> cleanup_failed s' = cleanup_failed s \<and>
      (\<exists>ev. trace_of s' = trace_of s @ ev \<and> list_all neutral ev)"
    by auto
qed

lemma io_view_sys [simp]: "io_view (s\<lparr>sys_of := t\<rparr>) = io_view s"
  by (simp add: io_view_def)

lemma io_view_count [simp]: "io_view (count_failure s) = io_view s"
  by (simp add: io_view_def)

lemma io_quiet_check:
  assumes "\<And>s r. neutral (c s, r)"
  shows "io_quiet (check_step E what c no_out id)"
  by (rule io_quietI [where C = "\<lambda>c. \<forall>r. neutral (c, r)"]) (use assms in \<open>auto intro!: appends_check leaves_check\<close>)

lemma neutral_io [simp]:
  "neutral (Acl (aclrtMemcpyAsync a n b m k st), r)" "neutral (Acl (aclrtSynchronizeStream st), r)"
  "neutral (Acl (aclrtRecordEvent ev st), r)" "neutral (Acl (aclrtQueryEventStatus ev), r)"
  "neutral (Acl (aclrtSynchronizeEvent ev), r)" "neutral (Io (sys_fdatasync fd), r)" "neutral (Io (sys_unlink path), r)"
  "neutral (Proc q, r)"
  by (cases r; simp add: neutral_def ledger_simps)+

lemma io_quiet_statements:
  "io_quiet (copy_to_device E what p bytes)" "io_quiet (copy_to_host E what p bytes)"
  "io_quiet (sync_stream E what)" "io_quiet (flush_file E what)" "io_quiet (clear_control E bytes)"
  "io_quiet (assign (\<lambda>s. fill E (q s) bytes seed s))" "io_quiet (\<lambda>s. verify E (q s) bytes seed phase s)"
  "io_quiet (assign (\<lambda>s. plain_call E (Cpu (c_memset a b c)) s))"
  "io_quiet (check_step E what2 (\<lambda>s. Acl (aclrtRecordEvent (ev s) (st s))) no_out id)"
  "io_quiet (check_step E what2 (\<lambda>s. Acl (aclrtQueryEventStatus (ev s))) no_out id)"
  "io_quiet (check_step E what2 (\<lambda>s. Acl (aclrtSynchronizeEvent (ev s))) no_out id)"
proof -
  show "io_quiet (assign (\<lambda>s. fill E (q s) bytes seed s))"
    by (rule io_quietI [OF calls_effects(3)]) (simp_all add: neutral_kinds calls_effects)
  show "io_quiet (\<lambda>s. verify E (q s) bytes seed phase s)"
    by (rule io_quietI [OF calls_effects(5)]) (simp_all add: neutral_kinds calls_effects)
  have m: "io_quiet (assign (\<lambda>s. plain_call E (Cpu (c_memset (a' s) b c)) s))" for a' b c
    by (rule io_quietI [OF calls_effects(1) [where C = "\<lambda>c. \<forall>r. neutral (c, r)"]])
      (auto intro: calls_effects)
  from m [of "\<lambda>_. a"] show "io_quiet (assign (\<lambda>s. plain_call E (Cpu (c_memset a b c)) s))" .
  from m show "io_quiet (clear_control E bytes)"
    unfolding clear_control_def .
qed (simp_all add: copy_to_device_def copy_to_host_def sync_stream_def flush_file_def io_quiet_check)

subsubsection \<open>Copies\<close>

definition vars_held :: "resource multiset \<Rightarrow> io_view \<Rightarrow> resource multiset" where
  "vars_held H v = (case v of (acl, has, control, fd, ctx) \<Rightarrow> H + acl_held acl + one_if has (R_control control))"

definition has_block :: "bool \<Rightarrow> io_view \<Rightarrow> bool" where
  "has_block b v \<longleftrightarrow> (case v of (acl, has, control, fd, ctx) \<Rightarrow> has = b)"

definition acl_upto :: "bool \<Rightarrow> bool \<Rightarrow> bool \<Rightarrow> bool \<Rightarrow> io_view \<Rightarrow> bool" where
  "acl_upto d st ev b v \<longleftrightarrow> has_block b v \<and> (case v of (acl, has, control, fd, ctx) \<Rightarrow>
     (d \<or> acl_device acl = nullptr) \<and> (st \<or> acl_stream acl = nullptr) \<and> (ev \<or> acl_event acl = nullptr))"

lemmas io_at_simps = io_at_def io_view_def vars_held_def has_block_def acl_upto_def acl_held_def

lemma acl_setup_at:
  "triple (io_at r0 (vars_held H) (acl_upto False False False b)) (run_steps (acl_setup E bytes))
     (io_at r0 (vars_held H) (has_block b)) (io_at r0 (vars_held H) (has_block b))"
  unfolding acl_setup_def
proof (rule triple_Cons [OF _ triple_Cons [OF _ triple_Cons [OF _ triple_Nil]]])
  show "triple (io_at r0 (vars_held H) (acl_upto False False False b))
      (check_step E ''aclrtMalloc'' (\<lambda>_. Acl (aclrtMalloc bytes)) (\<lambda>out. iot_acl_update (\<lambda>a. a\<lparr>acl_device := out\<rparr>)) id)
      (io_at r0 (vars_held H) (acl_upto True False False b)) (io_at r0 (vars_held H) (has_block b))"
    by (rule triple_check) (auto simp: io_at_simps ledger_simps elim!: books_event)
  show "triple (io_at r0 (vars_held H) (acl_upto True False False b))
      (check_step E ''aclrtCreateStream'' (\<lambda>_. Acl (aclrt_create Acl_stream))
        (\<lambda>out. iot_acl_update (\<lambda>a. a\<lparr>acl_stream := out\<rparr>)) id)
      (io_at r0 (vars_held H) (acl_upto True True False b)) (io_at r0 (vars_held H) (has_block b))"
    by (rule triple_check) (auto simp: io_at_simps ledger_simps elim!: books_event)
  show "triple (io_at r0 (vars_held H) (acl_upto True True False b))
      (check_step E ''aclrtCreateEvent'' (\<lambda>_. Acl (aclrt_create Acl_event))
        (\<lambda>out. iot_acl_update (\<lambda>a. a\<lparr>acl_event := out\<rparr>)) id)
      (io_at r0 (vars_held H) (has_block b)) (io_at r0 (vars_held H) (has_block b))"
    by (rule triple_check) (auto simp: io_at_simps ledger_simps elim!: books_event)
qed

lemma acl_tests_at:
  "triple (io_at r0 (vars_held H) (acl_upto False False False b)) (acl_tests E p bytes seed)
     (io_at r0 (vars_held H) (has_block b)) (io_at r0 (vars_held H) (has_block b))"
  unfolding acl_tests_def
proof (rule triple_try)
  let ?I = "io_at r0 (vars_held H) (has_block b)"
  note quiet = io_quiet_statements [THEN io_quiet_at]
  have "triple ?I (run_steps (acl_round_trip E p bytes seed @ acl_backlog E p bytes False @ acl_backlog E p bytes True @
      [\<lambda>s. verify E p bytes seed ''ACL_AFTER_BACKLOG'' s])) ?I ?I"
    unfolding acl_round_trip_def acl_backlog_def if_True if_False
    by (rule triple_append triple_replicate triple_Cons triple_Nil quiet)+
  then show "triple (io_at r0 (vars_held H) (acl_upto False False False b)) (run_steps (acl_setup E bytes @
      acl_round_trip E p bytes seed @ acl_backlog E p bytes False @ acl_backlog E p bytes True @
      [\<lambda>s. verify E p bytes seed ''ACL_AFTER_BACKLOG'' s])) ?I ?I"
    by (rule triple_append [OF acl_setup_at])
  show "triple ?I (\<lambda>s. if iot_stream s \<noteq> nullptr
      then sync_stream E ''sync failed ACL before CPU use'' (count_failure s) else Some (None, count_failure s)) ?I ?I"
  proof (rule tripleI)
    fix s e s'
    assume I: "?I s" and h: "(if iot_stream s \<noteq> nullptr
      then sync_stream E ''sync failed ACL before CPU use'' (count_failure s) else Some (None, count_failure s)) = Some (e, s')"
    have "?I (count_failure s)"
      using I by (simp add: io_at_def in_books_def)
    with h tripleD [OF io_quiet_at [OF io_quiet_statements(3)]] show "if e = None then ?I s' else ?I s'"
      by (auto split: if_splits)
  qed
qed

subsubsection \<open>Files\<close>

definition file_held :: "io_view \<Rightarrow> resource multiset" where
  "file_held v = (case v of (acl, has, control, fd, ctx) \<Rightarrow> {#R_fd fd#})"

definition context_held :: "io_view \<Rightarrow> resource multiset" where
  "context_held v = (case v of (acl, has, control, fd, ctx) \<Rightarrow> ctx_held ctx)"

definition no_context :: "io_view \<Rightarrow> bool" where
  "no_context v \<longleftrightarrow> has_block True v \<and> (case v of (acl, has, control, fd, ctx) \<Rightarrow> ctx = 0)"

abbreviation in_file :: "resource multiset \<Rightarrow> io_view \<Rightarrow> resource multiset" where
  "in_file H v \<equiv> vars_held H v + file_held v + context_held v"

lemmas file_simps = io_at_simps file_held_def context_held_def no_context_def

lemma io_setup_at:
  "triple (io_at r0 (in_file H) no_context) (check_step E what (\<lambda>_. Io (sys_io_setup 8)) (\<lambda>out s. s\<lparr>iot_ctx := out\<rparr>) id)
     (io_at r0 (in_file H) (has_block True)) (io_at r0 (in_file H) (has_block True))"
  by (rule triple_check) (auto simp: file_simps ctx_held_def ledger_simps elim!: books_event)

lemma aio_step_at:
  "triple (io_at r0 (in_file H) (has_block b)) (aio_step E p bytes write)
     (io_at r0 (in_file H) (has_block b)) (io_at r0 (in_file H) (has_block b))"
proof (rule tripleI)
  fix s e s'
  assume I: "io_at r0 (in_file H) (has_block b) s" and a: "aio_step E p bytes write s = Some (e, s')"
  obtain e1 ctx s1 where o: "aio_operation E (iot_ctx s) (iot_fd s) (p s) bytes write s = (e1, ctx, s1)"
    by (rule prod_cases3)
  then have s': "s' = s1\<lparr>iot_ctx := ctx\<rparr>"
    using a by (simp add: aio_step_def)
  have more: "iot_acl s1 = iot_acl s" "iot_has_control s1 = iot_has_control s" "iot_control s1 = iot_control s" "iot_fd s1 = iot_fd s"
    using aio_operation_more(1) [OF o] by (cases s; cases s1; simp)+
  have "in_books r0 s ((vars_held H (io_view s) + file_held (io_view s)) + ctx_held (iot_ctx s))"
    using I by (simp add: io_at_def context_held_def io_view_def)
  from aio_operation_books [OF this o] have "io_at r0 (in_file H) (has_block b) s'"
    using I more by (simp add: s' io_at_def in_books_def trace_of_def io_view_def vars_held_def file_held_def
        context_held_def has_block_def)
  then show "if e = None then io_at r0 (in_file H) (has_block b) s' else io_at r0 (in_file H) (has_block b) s'"
    by simp
qed

lemma count_at:
  "triple (io_at r0 G Z) (\<lambda>s. Some (g s, count_failure s)) (io_at r0 G Z) (io_at r0 G Z)"
  by (rule tripleI) (auto simp: io_at_def in_books_def split: if_splits)

lemma aio_tests_at:
  "triple (io_at r0 (in_file H) no_context) (aio_tests E p bytes seed) (io_at r0 (in_file H) (has_block True)) X"
proof -
  let ?I = "io_at r0 (in_file H) (has_block True)"
  note quiet = io_quiet_statements [THEN io_quiet_at]
  have shared: "triple ?I (run_steps (shared_aio E p bytes seed wr)) ?I ?I" for wr
    by (cases wr; simp add: shared_aio_def Let_def)
      (rule triple_Cons triple_Nil quiet aio_step_at triple_try count_at)+
  have "triple ?I (run_steps ([aio_step E iot_control bytes True, flush_file E ''seed file fdatasync'',
      clear_control E bytes, aio_step E iot_control bytes False,
      \<lambda>s. verify E (iot_control s) bytes seed ''POSIX_AIO_CONTROL'' s] @
      shared_aio E p bytes seed False @ shared_aio E p bytes seed True)) ?I ?I"
    unfolding append_Cons append_Nil
    by (rule shared triple_append [OF shared] triple_Cons quiet aio_step_at)+
  from triple_Cons [OF io_setup_at this] show ?thesis
    unfolding aio_tests_def append_Cons
    by (rule triple_try) (rule tripleI, auto simp: io_at_def in_books_def)
qed

lemma cleanup_view: "io_view (cleanup E c s) = io_view s"
  by (subst cleanup_same) (simp add: io_view_def)

lemma plain_view: "io_view (plain_call E c s) = io_view s"
  by (subst plain_call_same) simp

lemma with_file_at:
  "triple (io_at r0 (\<lambda>v. vars_held H v + file_held v) (has_block True)) (with_file E path p bytes seed)
     (io_at r0 (vars_held H) (has_block True)) (io_at r0 (vars_held H) (has_block False))"
proof (rule tripleI)
  fix s e s'
  assume I: "io_at r0 (\<lambda>v. vars_held H v + file_held v) (has_block True) s" and w: "with_file E path p bytes seed s = Some (e, s')"
  obtain r o1 s1 where c: "probe_call E (Io (sys_unlink path)) s = (r, o1, s1)"
    by (rule prod_cases3)
  have s1: "s1 = s\<lparr>sys_of := sys_of s1\<rparr>"
    using moves_same [OF moves_call [of "\<lambda>_. True", OF _ c]] by simp
  have v1: "io_view s1 = io_view s"
    by (subst s1) simp
  have b1: "in_books r0 s1 (vars_held H (io_view s1) + file_held (io_view s1))" "has_block True (io_view s1)"
    using I in_books_moves [OF _ moves_call [of "\<lambda>x. x = Io (sys_unlink path)", OF _ c]] by (auto simp: io_at_def v1)
  let ?Q = "io_at r0 (vars_held H) (has_block True)" and ?X = "io_at r0 (vars_held H) (has_block False)"
  show "if e = None then ?Q s' else ?X s'"
  proof (cases "r = 0")
    case False
    let ?u = "plain_call E (Io (sys_close (iot_fd s1))) s1"
    let ?v = "plain_call E (Cpu (control_free (iot_control s1))) ?u"
    have "in_books r0 s1 (add_mset (R_fd (iot_fd s1)) (H + acl_held (iot_acl s1) + {#R_control (iot_control s1)#}))"
      using b1 by (simp add: vars_held_def file_held_def has_block_def io_view_def)
    then have "in_books r0 ?u (H + acl_held (iot_acl s1) + {#R_control (iot_control s1)#})"
      by (rule close_books)
    then have "in_books r0 ?v (H + acl_held (iot_acl s1))"
      by (rule give_books) (simp add: ledger_simps)
    moreover have "iot_acl ?v = iot_acl s1"
      using plain_view [of E "Cpu (control_free (iot_control s1))" ?u] plain_view [of E "Io (sys_close (iot_fd s1))" s1]
      by (simp add: io_view_def)
    moreover have "e \<noteq> None" "s' = ?v\<lparr>iot_has_control := False\<rparr>"
      using w c False by (auto simp: with_file_def)
    ultimately show ?thesis
      by (simp add: io_at_def vars_held_def has_block_def io_view_def in_books_def trace_of_def)
  next
    case True
    let ?d = "assign (\<lambda>s. if iot_ctx s \<noteq> 0 then cleanup E (Io (sys_io_destroy (iot_ctx s))) s else s)"
    let ?c = "assign (\<lambda>s. cleanup E (Io (sys_close (iot_fd s))) s)"
    have d: "triple (io_at r0 (in_file H) (has_block True)) ?d (io_at r0 (\<lambda>v. vars_held H v + file_held v) (has_block True)) ?X"
    proof (rule triple_assign)
      fix t :: "'a io_vars"
      assume "io_at r0 (in_file H) (has_block True) t"
      then have "in_books r0 t ((vars_held H (io_view t) + file_held (io_view t)) + one_if (iot_ctx t \<noteq> 0) (R_aio (iot_ctx t)))"
        "has_block True (io_view t)"
        by (simp_all add: io_at_def context_held_def ctx_held_def io_view_def)
      then show "io_at r0 (\<lambda>v. vars_held H v + file_held v) (has_block True)
          (if iot_ctx t \<noteq> 0 then cleanup E (Io (sys_io_destroy (iot_ctx t))) t else t)"
        using in_books_cleanup_if [of r0 t _ "iot_ctx t \<noteq> 0" "R_aio (iot_ctx t)" "Io (sys_io_destroy (iot_ctx t))" E]
        by (auto simp: io_at_def cleanup_view ledger_simps)
    qed
    have cl: "triple (io_at r0 (\<lambda>v. vars_held H v + file_held v) (has_block True)) ?c ?Q ?X"
    proof (rule triple_assign)
      fix t :: "'a io_vars"
      assume a: "io_at r0 (\<lambda>v. vars_held H v + file_held v) (has_block True) t"
      then have "in_books r0 t (vars_held H (io_view t) + {#R_fd (iot_fd t)#})"
        by (simp add: io_at_def file_held_def io_view_def)
      then have "in_books r0 (cleanup E (Io (sys_close (iot_fd t))) t) (vars_held H (io_view t))"
        by (rule in_books_cleanup) (simp add: ledger_simps)
      with a show "?Q (cleanup E (Io (sys_close (iot_fd t))) t)"
        by (simp add: io_at_def cleanup_view)
    qed
    have "io_at r0 (in_file H) no_context (s1\<lparr>iot_ctx := 0\<rparr>)"
      using b1 by (simp add: io_at_def io_view_def no_context_def has_block_def vars_held_def file_held_def
          context_held_def ctx_held_def in_books_def trace_of_def)
    moreover have "run_steps [aio_tests E p bytes seed, ?d, ?c] (s1\<lparr>iot_ctx := 0\<rparr>) = Some (e, s')"
      using w c True by (simp add: with_file_def del: run_steps.simps)
    ultimately show ?thesis
      by (rule tripleD [OF triple_Cons [OF aio_tests_at triple_Cons [OF d triple_Cons [OF cl triple_Nil]]]])
  qed
qed

lemma io_at_neutral_call:
  assumes "io_at r0 G Z s" and "probe_call E c s = (r, x, s')" and "\<And>r. neutral (c, r)"
  shows "io_at r0 G Z s'"
proof -
  have m: "moves (\<lambda>d. d = c) s s'"
    by (rule moves_call [OF _ assms(2)]) simp
  have "io_view s' = io_view s"
    by (subst moves_same [OF m]) simp
  moreover have "in_books r0 s' (G (io_view s))"
    by (rule in_books_moves [OF _ m]) (use assms(1,3) in \<open>simp_all add: io_at_def\<close>)
  ultimately show ?thesis
    using assms(1) by (simp add: io_at_def)
qed

lemma io_at_fill:
  assumes "io_at r0 G Z s"
  shows "io_at r0 G Z (fill E q bytes seed s)"
proof -
  have "assign (fill E q bytes seed) s = Some (None, fill E q bytes seed s)"
    by (simp add: assign_def)
  from tripleD [OF io_quiet_at [OF io_quiet_statements(6)] assms this] show ?thesis
    by simp
qed

lemma aio_mode_at:
  "triple (io_at r0 (vars_held H) (has_block True)) (aio_mode E opt p bytes seed direct)
     (io_at r0 (vars_held H) (has_block True)) (io_at r0 (vars_held H) (has_block False))"
proof (rule tripleI)
  fix s e s'
  let ?I = "io_at r0 (vars_held H) (has_block True)" and ?X = "io_at r0 (vars_held H) (has_block False)"
  assume I: "?I s" and w: "aio_mode E opt p bytes seed direct s = Some (e, s')"
  let ?s1 = "fill E (iot_control s) bytes seed s"
  obtain pid o1 s2 where c1: "probe_call E (Proc sys_getpid) ?s1 = (pid, o1, s2)"
    by (rule prod_cases3)
  let ?path = "aio_path (cli_io_dir opt) pid direct"
  let ?open = "Io (sys_open ?path ([''O_CREAT'', ''O_EXCL'', ''O_RDWR''] @ (if direct then [''O_DIRECT''] else [])))"
  obtain fd o2 s3 where c2: "probe_call E ?open s2 = (fd, o2, s3)"
    by (rule prod_cases3)
  have b2: "?I s2"
    by (rule io_at_neutral_call [OF io_at_fill [OF I] c1]) simp
  have s3: "s3 = s2\<lparr>sys_of := sys_of s3\<rparr>"
    using moves_same [OF moves_call [of "\<lambda>_. True", OF _ c2]] by simp
  have v3: "io_view s3 = io_view s2"
    by (subst s3) simp
  have b3: "in_books r0 s3 (vars_held H (io_view s3) + one_if (0 \<le> fd) (R_fd fd))" "has_block True (io_view s3)"
    using b2 in_books_event [OF _ probe_call_trace [OF c2], of r0 "(vars_held H) (io_view s2)"] probe_call_frame [OF c2]
    by (auto simp: io_at_def v3 ledger_simps)
  show "if e = None then ?I s' else ?X s'"
  proof (cases "(cli_aio opt = ''buffered'' \<and> direct) \<or> (cli_aio opt = ''direct'' \<and> \<not> direct)")
    case True
    with w I show ?thesis by (auto simp: aio_mode_def)
  next
    case run: False
    show ?thesis
    proof (cases "fd < 0")
      case True
      with run w c1 c2 have "e = None" "s' = count_failure s3"
        by (auto simp: aio_mode_def Let_def)
      with b3 True show ?thesis
        by (simp add: io_at_def in_books_def)
    next
      case False
      with run w c1 c2 have f: "with_file E ?path p bytes seed (s3\<lparr>iot_fd := fd\<rparr>) = Some (e, s')"
        by (auto simp: aio_mode_def Let_def)
      have "io_at r0 (\<lambda>v. vars_held H v + file_held v) (has_block True) (s3\<lparr>iot_fd := fd\<rparr>)"
        using b3 False by (simp add: io_at_def in_books_def trace_of_def io_view_def vars_held_def file_held_def has_block_def)
      from tripleD [OF with_file_at this f] show ?thesis .
    qed
  qed
qed

lemma io_body_at:
  "triple (io_at r0 (vars_held H) (acl_upto False False False False)) (run_steps (io_body E opt p bytes seed))
     (io_at r0 (vars_held H) (has_block False)) (io_at r0 (vars_held H) (has_block False))"
  unfolding io_body_def
proof (rule triple_Cons [OF acl_tests_at triple_Cons [OF triple_when triple_Cons [OF _ triple_Nil]]])
  let ?X = "io_at r0 (vars_held H) (has_block False)" and ?I = "io_at r0 (vars_held H) (has_block True)"
  have block: "triple ?X (check_step E ''allocate IO control'' (\<lambda>_. Cpu (posix_memalign 4096 bytes))
      (\<lambda>out s. s\<lparr>iot_control := out\<rparr>) (\<lambda>s. s\<lparr>iot_has_control := True\<rparr>)) ?I ?X"
    by (rule triple_check) (auto simp: io_at_simps ledger_simps elim!: books_event)
  have fills: "triple ?I (assign (\<lambda>s. fill E (iot_control s) bytes seed s)) ?I ?X"
    by (rule triple_assign) (rule io_at_fill)
  have free: "triple ?I (assign (\<lambda>s. (plain_call E (Cpu (control_free (iot_control s))) s)\<lparr>iot_has_control := False\<rparr>)) ?X ?X"
  proof (rule triple_assign)
    fix s :: "'a io_vars"
    let ?v = "plain_call E (Cpu (control_free (iot_control s))) s"
    assume "?I s"
    then have "in_books r0 s (H + acl_held (iot_acl s) + {#R_control (iot_control s)#})"
      by (auto simp: io_at_def vars_held_def has_block_def io_view_def)
    then have "in_books r0 ?v (H + acl_held (iot_acl s))"
      by (rule give_books) (simp add: ledger_simps)
    moreover have "iot_acl ?v = iot_acl s"
      using plain_view [of E "Cpu (control_free (iot_control s))" s] by (simp add: io_view_def)
    ultimately show "?X (?v\<lparr>iot_has_control := False\<rparr>)"
      by (simp add: io_at_def vars_held_def has_block_def io_view_def in_books_def trace_of_def)
  qed
  show "triple ?X (run_steps [check_step E ''allocate IO control'' (\<lambda>_. Cpu (posix_memalign 4096 bytes))
           (\<lambda>out s. s\<lparr>iot_control := out\<rparr>) (\<lambda>s. s\<lparr>iot_has_control := True\<rparr>),
         assign (\<lambda>s. fill E (iot_control s) bytes seed s),
         aio_mode E opt p bytes seed False, aio_mode E opt p bytes seed True,
         assign (\<lambda>s. (plain_call E (Cpu (control_free (iot_control s))) s)\<lparr>iot_has_control := False\<rparr>)]) ?X ?X"
    by (rule triple_Cons triple_Nil block fills aio_mode_at free)+
  show "triple ?X (assign (\<lambda>s. fill E p bytes seed s)) ?X ?X"
    by (rule triple_assign) (rule io_at_fill)
qed

lemma iot_init_simps [simp]:
  "sys_of (iot_init s) = sys_of s" "cleanup_failed (iot_init s) = cleanup_failed s"
  "io_view (iot_init s) = (AclResources_new, False, nullptr, 0, 0)"
  by (simp_all add: iot_init_def io_view_def probe.defs io_vars.defs)

text \<open>What the whole of \<open>io_tests\<close> does to its caller.\<close>

lemma io_tests_cases:
  assumes "io_tests E opt p bytes seed s = Some (r, s')"
  obtains e s1 where "run_steps (io_body E opt p bytes seed) (iot_init s) = Some (e, s1)"
    "r = (case e of Some what \<Rightarrow> Inl what | None \<Rightarrow> Inr (iot_failures s1))"
    "s' = probe.truncate (AclResources_destroy E (iot_acl s1) s1)"
  using assms by (auto simp: io_tests_def Let_def split: option.splits)

lemma io_tests_books:
  assumes "in_books r0 s held" and "io_tests E opt p bytes seed s = Some (r, s')"
  shows "in_books r0 s' held"
proof -
  obtain e s1 where run: "run_steps (io_body E opt p bytes seed) (iot_init s) = Some (e, s1)"
    and s': "s' = probe.truncate (AclResources_destroy E (iot_acl s1) s1)"
    by (rule io_tests_cases [OF assms(2)])
  have "io_at r0 (vars_held held) (acl_upto False False False False) (iot_init s)"
    using assms(1) by (simp add: io_at_def vars_held_def acl_upto_def has_block_def AclResources_new_def in_books_def
        trace_of_def acl_held_def)
  from tripleD [OF io_body_at this run] have "in_books r0 s1 (held + acl_held (iot_acl s1))"
    by (auto simp: io_at_def vars_held_def has_block_def io_view_def split: if_splits)
  then have "in_books r0 (AclResources_destroy E (iot_acl s1) s1) held"
    by (rule AclResources_destroy_books)
  then show ?thesis
    by (simp add: s' in_books_def)
qed

lemma AclResources_destroy_grows: "grows is_io s (AclResources_destroy E a s)"
proof -
  let ?s1 = "if acl_stream a \<noteq> nullptr then cleanup E (Acl (aclrtSynchronizeStream (acl_stream a))) s else s"
  let ?s2 = "if acl_event a \<noteq> nullptr then cleanup E (Acl (aclrt_destroy Acl_event (acl_event a))) ?s1 else ?s1"
  let ?s3 = "if acl_stream a \<noteq> nullptr then cleanup E (Acl (aclrt_destroy Acl_stream (acl_stream a))) ?s2 else ?s2"
  have "grows is_io s ?s1" "grows is_io ?s1 ?s2" "grows is_io ?s2 ?s3"
    by (rule grows_cleanup_if, simp)+
  moreover have "grows is_io ?s3 (AclResources_destroy E a s)"
    unfolding AclResources_destroy_def Let_def by (rule grows_cleanup_if) simp
  ultimately show ?thesis
    by (blast intro: grows_trans)
qed

lemma io_tests_grows:
  assumes "io_tests E opt p bytes seed s = Some (r, s')"
  shows "grows is_io s s'"
proof -
  obtain e s1 where run: "run_steps (io_body E opt p bytes seed) (iot_init s) = Some (e, s1)"
    and s': "s' = probe.truncate (AclResources_destroy E (iot_acl s1) s1)"
    by (rule io_tests_cases [OF assms])
  have "grows is_io (iot_init s) s1"
    by (rule appendsD [OF appends_run [OF io_body_appends] run]) (simp add: grows_def)
  from grows_trans [OF this AclResources_destroy_grows [of s1 E "iot_acl s1"]] show ?thesis
    by (simp add: s' grows_def trace_of_def)
qed

end
