(* ===== verification/Host_Share_Facts.thy ===== *)
theory Host_Share_Facts
  imports Host_Io_Facts
begin

text \<open>
  The facts about the worker of \<open>Host_Share\<close>: its side of the hand-over, with two words before the
  importer gives the memory back, and its books over the shared allocation, the runtime and the
  device, whatever \<open>io_tests\<close> does in between.
\<close>

definition hsh_rest :: "cli_options \<Rightarrow> 'w host_share \<Rightarrow> resource multiset" where
  "hsh_rest opt s = one_if (hsh_initialized s) R_acl + one_if (hsh_device_set s) (R_device (cli_device opt))"

lemma hsh_rest_simps [simp]:
  "hsh_rest opt (s\<lparr>sys_of := t\<rparr>) = hsh_rest opt s" "hsh_rest opt (hsh_host_update f s) = hsh_rest opt s"
  "hsh_rest opt (s\<lparr>hsh_token := v\<rparr>) = hsh_rest opt s" "hsh_rest opt (s\<lparr>hsh_host_id := x\<rparr>) = hsh_rest opt s"
  "hsh_rest opt (s\<lparr>hsh_failures := y\<rparr>) = hsh_rest opt s" "hsh_rest opt (s\<lparr>cleanup_failed := z\<rparr>) = hsh_rest opt s"
  by (simp_all add: hsh_rest_def)

interpretation hsh: alloc_slot hsh_host hsh_host_update "hsh_rest opt" for opt
  by unfold_locales simp_all

subsection \<open>\<open>io_tests\<close> as a statement\<close>

lemma hsh_io_tests_cases:
  assumes "hsh_io_tests E opt bytes seed s = Some (e, s')"
  obtains r t where "io_tests E opt (hsh_va s) bytes seed (probe.truncate s) = Some (r, t)"
    "trace_of s' = trace_of t" "cleanup_failed s' = cleanup_failed t"
    "hsh_host s' = hsh_host s" "hsh_rest opt' s' = hsh_rest opt' s"
  using assms by (auto simp: hsh_io_tests_def Let_def trace_of_def hsh_rest_def split: option.splits sum.splits)

lemma hsh_io_tests_effects:
  "appends is_io (hsh_io_tests E opt bytes seed)" "leaves hsh_host (hsh_io_tests E opt bytes seed)"
proof -
  show "appends is_io (hsh_io_tests E opt bytes seed)"
  proof (rule appendsI)
    fix s e s'
    assume "hsh_io_tests E opt bytes seed s = Some (e, s')"
    then obtain r t where "io_tests E opt (hsh_va s) bytes seed (probe.truncate s) = Some (r, t)" "trace_of s' = trace_of t"
      by (rule hsh_io_tests_cases) blast
    with io_tests_grows show "\<exists>ev. trace_of s' = trace_of s @ ev \<and> list_all is_io (map fst ev)"
      by (fastforce simp: grows_def)
  qed
  show "leaves hsh_host (hsh_io_tests E opt bytes seed)"
    by (rule leavesI, erule hsh_io_tests_cases) blast
qed

lemma slot_at_any: "slot_at get rest (\<lambda>_. True) r0 a h m s \<longleftrightarrow> slot_books get rest r0 s \<and>
    (a \<or> alloc_va (get s) = nullptr) \<and> (h \<or> alloc_handle (get s) = nullptr) \<and> alloc_mapped (get s) = m"
  by (simp add: slot_at_def)

abbreviation hsh_at :: "cli_options \<Rightarrow> resource multiset \<Rightarrow> bool \<Rightarrow> bool \<Rightarrow> bool \<Rightarrow> 'w host_share \<Rightarrow> bool" where
  "hsh_at opt \<equiv> slot_at hsh_host (hsh_rest opt) (\<lambda>_. True)"

abbreviation hsh_books :: "cli_options \<Rightarrow> resource multiset \<Rightarrow> 'w host_share \<Rightarrow> bool" where
  "hsh_books opt \<equiv> slot_books hsh_host (hsh_rest opt)"

lemma hsh_io_tests_at:
  "triple (hsh_at opt r0 a h m) (hsh_io_tests E opt' bytes seed) (hsh_at opt r0 a h m) (hsh_books opt r0)"
proof (rule tripleI)
  fix s e s'
  assume at: "hsh_at opt r0 a h m s" and f: "hsh_io_tests E opt' bytes seed s = Some (e, s')"
  obtain r t where t: "io_tests E opt' (hsh_va s) bytes seed (probe.truncate s) = Some (r, t)"
    "trace_of s' = trace_of t" "cleanup_failed s' = cleanup_failed t" "hsh_host s' = hsh_host s" "hsh_rest opt s' = hsh_rest opt s"
    by (rule hsh_io_tests_cases [OF f])
  have "in_books r0 (probe.truncate s) (hsh_rest opt s + alloc_held (hsh_host s))"
    using at by (simp add: slot_at_def slot_books_def in_books_def)
  from io_tests_books [OF this t(1)] have "hsh_books opt r0 s'"
    using t by (simp add: slot_books_def in_books_def)
  with at t(4) show "if e = None then hsh_at opt r0 a h m s' else hsh_books opt r0 s'"
    by (simp add: slot_at_def)
qed

subsection \<open>The two sides\<close>

lemma hsh_importer_body:
  assumes law: "bounded_transfers E"
  shows "triple (\<lambda>s. sends_on fd (trace_of s) = 0) (run_steps (hsh_body E opt True fd bytes))
    (\<lambda>s. importer_side 2 fd (trace_of s)) (\<lambda>s. importer_side 2 fd (trace_of s))"
proof -
  let ?recv = "receive_into E fd (\<lambda>v s. s\<lparr>hsh_token := v\<rparr>)"
  let ?ack1 = "check_receive E fd (\<lambda>v. v = 303) ''creator IO completed''"
  let ?ack2 = "check_receive E fd (\<lambda>v. v = 0) ''creator verified final data''"
  let ?pre = "hsh_open E opt @ [?recv, reserve_step E ''reserve importer VA'' hsh_host hsh_host_update bytes]"
  let ?m1 = "[inspect_mapping E, (\<lambda>s. verify E (hsh_va s) bytes 101 ''IMPORTER_SEES_CREATOR_WRITE'' s),
      assign (\<lambda>s. fill E (hsh_va s) bytes 202 s), (\<lambda>s. verify E (hsh_va s) bytes 202 ''IMPORTER_CPU_RW'' s)]"
  let ?m2 = "[?ack1, (\<lambda>s. verify E (hsh_va s) bytes 303 ''IMPORTER_SEES_CREATOR_AFTER_IO'' s), hsh_io_tests E opt bytes 404]"
  let ?tell = "\<lambda>s. send_word E fd (scast (hsh_failures s)) s"
  let ?mid = "?m1 @ [send_word E fd 0] @ ?m2 @ [?tell] @ [?ack2]"
  have body: "hsh_body E opt True fd bytes = ?pre @
      [import_step E ''halMemImportFromShareableHandle HOST'' hsh_host hsh_host_update hsh_token hsh_host_id,
       map_step E ''halMemMap HOST'' hsh_host hsh_host_update bytes] @ ?mid @
      [unmap_step E ''importer unmap'' hsh_host hsh_host_update,
       release_step E ''importer release'' hsh_host hsh_host_update,
       free_step E ''importer free VA'' hsh_host hsh_host_update] @ [send_word E fd 0]"
    by (simp add: hsh_body_def hsh_importer_def hsh_map_def)
  have recv: "appends no_send ?recv" "appends no_send ?ack1" "appends no_send ?ack2"
    by (rule appends_mono [OF receive_into_effects(1) [OF law]]; simp)
      (rule appends_mono [OF check_receive_effects(1) [OF law]], simp)+
  have io: "appends no_send (hsh_io_tests E opt bytes 404)"
    by (rule appends_mono [OF hsh_io_tests_effects(1) is_io_quiet(1)])
  have inspect: "appends no_send (inspect_mapping E)" "leaves hsh_host (inspect_mapping E)"
    unfolding inspect_mapping_def by (auto intro: calls_effects)
  have mem: "appends no_send (\<lambda>s. verify E (hsh_va s) bytes n what s)" "appends no_send (assign (\<lambda>s. fill E (hsh_va s) bytes n s))" for n what
    by (rule appends_mono [OF calls_effects(5)], simp) (rule appends_mono [OF calls_effects(3)], simp)
  have quiet: "\<forall>f \<in> set ?m1. appends no_send f" "\<forall>f \<in> set ?m2. appends no_send f" "\<forall>f \<in> set [?ack2]. appends no_send f"
    by (simp_all add: recv io inspect mem)
  have words: "sends_at_most fd (0 + (8 + (0 + (8 + 0)))) ?mid"
    by (intro sends_at_most_append sends_one sends_none quiet send_const_effects(1) [OF law] send_word_effects(1) [OF law])
  have lv: "\<forall>f \<in> set ?mid. leaves hsh_host f"
    by (auto simp: inspect hsh_io_tests_effects intro!: calls_effects send_const_effects(2) [OF law] send_word_effects(2) [OF law]
        check_receive_effects(2) [OF law])
  have "triple (\<lambda>s. sends_on fd (trace_of s) = 0) (run_steps (?pre @
      [import_step E ''halMemImportFromShareableHandle HOST'' hsh_host hsh_host_update hsh_token hsh_host_id,
       map_step E ''halMemMap HOST'' hsh_host hsh_host_update bytes] @ ?mid @
      [unmap_step E ''importer unmap'' hsh_host hsh_host_update,
       release_step E ''importer release'' hsh_host hsh_host_update,
       free_step E ''importer free VA'' hsh_host hsh_host_update] @ [send_word E fd 0]))
    (\<lambda>s. importer_side 2 fd (trace_of s)) (\<lambda>s. importer_side 2 fd (trace_of s))"
  proof (rule hsh.importer_body)
    show "\<forall>f \<in> set ?pre. appends no_send f"
      by (auto simp: hsh_open_def reserve_step_def recv intro!: appends_check)
    show "sends_at_most fd (8 * 2) ?mid"
      using words by simp
    show "\<forall>f \<in> set ?mid. leaves hsh_host f"
      by (rule lv)
    show "\<forall>f \<in> set [send_word E fd 0]. appends (\<lambda>_. True) f"
      using send_const_effects(3) [OF law] by (auto intro: appends_mono)
  qed
  then show ?thesis
    by (simp add: body)
qed

lemma hsh_words:
  assumes law: "bounded_transfers E"
  shows "\<And>v. (\<And>c. is_send fd c \<Longrightarrow> C c) \<Longrightarrow> appends C (\<lambda>s. send_word E fd (v s) s)"
    "\<And>v. (\<And>c. is_send fd c \<Longrightarrow> C c) \<Longrightarrow> appends C (send_word E fd v)"
    "\<And>ok what. (\<And>c. is_recv fd c \<Longrightarrow> C c) \<Longrightarrow> appends C (check_receive E fd ok what)"
    "(\<And>c. is_recv fd c \<Longrightarrow> C c) \<Longrightarrow> appends C (receive_into E fd (\<lambda>v s. s\<lparr>hsh_token := v\<rparr>))"
    "(\<And>c. is_recv fd c \<Longrightarrow> C c) \<Longrightarrow>
       appends C (receive_into E fd (\<lambda>v s. s\<lparr>hsh_failures := hsh_failures s + ucast v\<rparr>))"
  by (rule appends_mono [OF send_word_effects(3) [OF law]] appends_mono [OF send_const_effects(3) [OF law]]
      appends_mono [OF check_receive_effects(1) [OF law]] appends_mono [OF receive_into_effects(1) [OF law]]; simp)+

lemma hsh_body_appends:
  assumes law: "bounded_transfers E" and C: "\<And>c. is_send fd c \<Longrightarrow> C c" "\<And>c. is_recv fd c \<Longrightarrow> C c" "\<And>c. is_io c \<Longrightarrow> C c"
    and calls: "\<And>h. C (Hal h)" "C aclInit" "\<And>i. C (aclrtSetDevice i)" "\<And>p n a q g. C (halMemAddressReserve p n a q g)"
      "\<And>h n prop g. C (halMemCreate h n prop g)" "\<And>p n off h g. C (halMemMap p n off h g)"
      "\<And>a b c. C (halMemExportToShareableHandle a b c)" "\<And>a. C (halMemShareHandleSetAttribute a)"
    and lets: "importer \<Longrightarrow> C = (\<lambda>_. True)"
  shows "\<forall>f \<in> set (hsh_body E opt importer fd bytes). appends C f"
proof -
  have mem: "appends C (\<lambda>s. verify E (hsh_va s) bytes n what s)" "appends C (assign (\<lambda>s. fill E (hsh_va s) bytes n s))" for n what
    by (rule appends_mono [OF calls_effects(5)], simp add: C is_io_memory)
      (rule appends_mono [OF calls_effects(3)], simp add: C is_io_memory)
  have io: "appends C (hsh_io_tests E opt bytes n)" for n
    by (rule appends_mono [OF hsh_io_tests_effects(1)]) (rule C(3))
  have inspect: "appends C (inspect_mapping E)"
    unfolding inspect_mapping_def by (rule calls_effects(1)) (rule calls)
  have opens: "\<forall>f \<in> set (hsh_open E opt). appends C f"
    by (auto simp: hsh_open_def calls intro!: appends_check)
  have creator: "\<forall>f \<in> set (hsh_creator E opt fd bytes). appends C f"
    by (auto simp: hsh_creator_def hsh_map_def alloc_steps calls C(1,2) mem io inspect
        intro!: appends_check hsh_words [OF law])
  have importing: "\<forall>f \<in> set (hsh_importer E opt fd bytes). appends (\<lambda>_. True) f"
  proof -
    have t: "appends (\<lambda>_. True) (\<lambda>s. verify E (hsh_va s) bytes n what s)" "appends (\<lambda>_. True) (assign (\<lambda>s. fill E (hsh_va s) bytes n s))"
      "appends (\<lambda>_. True) (hsh_io_tests E opt bytes n)" "appends (\<lambda>_. True) (inspect_mapping E)" for n what
      by (rule appends_mono [OF calls_effects(5)] appends_mono [OF calls_effects(3)] appends_mono [OF hsh_io_tests_effects(1)]; simp)+
        (simp add: inspect_mapping_def calls_effects)
    show ?thesis
      by (auto simp: hsh_importer_def hsh_map_def alloc_steps t intro!: appends_check hsh_words [OF law])
  qed
  show ?thesis
    using opens creator importing lets by (cases importer) (auto simp: hsh_body_def)
qed

lemma hsh_creator_body:
  assumes law: "bounded_transfers E"
    and run: "run_steps (hsh_body E opt False fd bytes) s = Some (None, s')"
    and t: "list_all (\<lambda>c. \<not> is_let_go c) (map fst (trace_of s))"
  shows "creator_side 2 fd (trace_of s' @ ev)"
proof -
  let ?C = "\<lambda>c. \<not> is_let_go c"
  let ?r1 = "check_receive E fd (\<lambda>v. v = 0) ''importer mapped and verified creator data''"
  let ?r2 = "receive_into E fd (\<lambda>v s. s\<lparr>hsh_failures := hsh_failures s + ucast v\<rparr>)"
  let ?r3 = "check_receive E fd (\<lambda>v. v = 0) ''importer unmapped''"
  let ?xs = "hsh_open E opt @ take 9 (hsh_creator E opt fd bytes)"
  let ?ys = "[(\<lambda>s. verify E (hsh_va s) bytes 202 ''CREATOR_SEES_IMPORTER_WRITE'' s), hsh_io_tests E opt bytes 303, send_word E fd 303]"
  let ?zs = "[(\<lambda>s. verify E (hsh_va s) bytes 404 ''CREATOR_SEES_IMPORTER_AFTER_IO'' s), send_word E fd 0]"
  have body: "hsh_body E opt False fd bytes = ?xs @ [?r1] @ ?ys @ [?r2] @ ?zs @ [?r3]"
    by (simp add: hsh_body_def hsh_creator_def hsh_map_def)
  have all: "\<forall>f \<in> set (hsh_body E opt False fd bytes). appends ?C f"
    by (rule hsh_body_appends [OF law]) (simp_all add: sockets_keep is_io_quiet)
  then have "\<forall>f \<in> set ?xs \<union> set ?ys \<union> set ?zs. appends ?C f"
    unfolding body set_append by blast
  then have parts: "\<forall>f \<in> set ?xs. appends ?C f" "\<forall>f \<in> set ?ys. appends ?C f" "\<forall>f \<in> set ?zs. appends ?C f"
    by (blast, blast, blast)
  have "receives_at_least fd (0 + (8 + (0 + (8 + (0 + 8))))) (hsh_body E opt False fd bytes)"
    unfolding body
    by (intro receives_append receives_one check_receive_effects(3) [OF law] receive_into_effects(3) [OF law])
      (rule receives_none [OF parts(1)] receives_none [OF parts(2)] receives_none [OF parts(3)] | simp)+
  then have "receives_at_least fd (8 * (2 + 1)) (hsh_body E opt False fd bytes)"
    by simp
  then show ?thesis
    by (intro creator_body [OF all _ run t]) simp
qed

subsection \<open>The books\<close>

lemma hsh_slot_steps:
  "triple (hsh_at opt r0 False h False) (reserve_step E what hsh_host hsh_host_update bytes)
     (hsh_at opt r0 True h False) (hsh_books opt r0)"
  "triple (hsh_at opt r0 a False m) (create_step E what hsh_host hsh_host_update bytes prop)
     (hsh_at opt r0 a True m) (hsh_books opt r0)"
  "triple (hsh_at opt r0 a False m) (import_step E what hsh_host hsh_host_update tok dev)
     (hsh_at opt r0 a True m) (hsh_books opt r0)"
  "triple (hsh_at opt r0 a h False) (map_step E what hsh_host hsh_host_update bytes)
     (hsh_at opt r0 a h True) (hsh_books opt r0)"
  "triple (hsh_at opt r0 a h True) (unmap_step E what hsh_host hsh_host_update)
     (hsh_at opt r0 a h False) (hsh_books opt r0)"
  "triple (hsh_at opt r0 a h m) (release_step E what hsh_host hsh_host_update)
     (hsh_at opt r0 a False m) (hsh_books opt r0)"
  "triple (hsh_at opt r0 a h False) (free_step E what hsh_host hsh_host_update)
     (hsh_at opt r0 False h False) (hsh_books opt r0)"
  by (rule hsh.slot_at_steps; simp)+

definition hsh_view :: "cli_options \<Rightarrow> 'w host_share \<Rightarrow> allocation \<times> resource multiset \<times> bool" where
  "hsh_view opt s = (hsh_host s, hsh_rest opt s, cleanup_failed s)"

lemma hsh_view_simps [simp]:
  "hsh_view opt (s\<lparr>sys_of := t\<rparr>) = hsh_view opt s" "hsh_view opt (s\<lparr>hsh_token := v\<rparr>) = hsh_view opt s"
  "hsh_view opt (s\<lparr>hsh_host_id := x\<rparr>) = hsh_view opt s" "hsh_view opt (s\<lparr>hsh_failures := y\<rparr>) = hsh_view opt s"
  by (simp_all add: hsh_view_def)

lemma hsh_quiet:
  assumes "appends C f" and "\<And>c r. C c \<Longrightarrow> neutral (c, r)" and "leaves (hsh_view opt) f"
  shows "triple (hsh_at opt r0 a h m) f (hsh_at opt r0 a h m) (hsh_books opt r0)"
proof (rule triple_quiet_at [OF assms(1,2)])
  show "leaves (\<lambda>s. (hsh_host s, hsh_rest opt s, True, cleanup_failed s)) f"
    using assms(3) by (auto simp: leaves_def hsh_view_def)
qed

lemma hsh_quiet_check:
  assumes "\<And>s r. neutral (c s, r)"
    and "\<And>out s. sys_of (wr out s) = sys_of s" "\<And>out s. hsh_view opt (wr out s) = hsh_view opt s"
  shows "triple (hsh_at opt r0 a h m) (check_step E what c wr id) (hsh_at opt r0 a h m) (hsh_books opt r0)"
proof (rule hsh_quiet)
  show "appends (\<lambda>c. \<forall>r. neutral (c, r)) (check_step E what c wr id)"
    by (rule appends_check) (use assms in simp_all)
  show "leaves (hsh_view opt) (check_step E what c wr id)"
    by (rule leaves_check) (use assms in simp_all)
qed blast

lemma neutral_hsh [simp]:
  "neutral (Hal (halGetHostID x), r)" "neutral (Hal (drvMemGetAttribute p), r)"
  "neutral (halMemExportToShareableHandle a b c, r)" "neutral (halMemShareHandleSetAttribute a, r)"
  by (cases r; simp add: neutral_def ledger_simps)+

lemma hsh_quiet_steps:
  assumes law: "bounded_transfers E"
  shows
    "triple (hsh_at opt r0 a h m) (send_word E fd v) (hsh_at opt r0 a h m) (hsh_books opt r0)"
    "triple (hsh_at opt r0 a h m) (\<lambda>s. send_word E fd (w s) s) (hsh_at opt r0 a h m) (hsh_books opt r0)"
    "triple (hsh_at opt r0 a h m) (receive_into E fd (\<lambda>v s. s\<lparr>hsh_token := v\<rparr>)) (hsh_at opt r0 a h m) (hsh_books opt r0)"
    "triple (hsh_at opt r0 a h m) (receive_into E fd (\<lambda>v s. s\<lparr>hsh_failures := hsh_failures s + ucast v\<rparr>))
       (hsh_at opt r0 a h m) (hsh_books opt r0)"
    "triple (hsh_at opt r0 a h m) (check_receive E fd ok what) (hsh_at opt r0 a h m) (hsh_books opt r0)"
    "triple (hsh_at opt r0 a h m) (assign (\<lambda>s. fill E (hsh_va s) bytes seed s)) (hsh_at opt r0 a h m) (hsh_books opt r0)"
    "triple (hsh_at opt r0 a h m) (\<lambda>s. verify E (hsh_va s) bytes seed phase s) (hsh_at opt r0 a h m) (hsh_books opt r0)"
    "triple (hsh_at opt r0 a h m) (inspect_mapping E) (hsh_at opt r0 a h m) (hsh_books opt r0)"
proof -
  let ?T = "\<lambda>f. triple (hsh_at opt r0 a h m) f (hsh_at opt r0 a h m) (hsh_books opt r0)"
  show "?T (send_word E fd v)"
    by (rule hsh_quiet [OF send_const_effects(3) [OF law]]) (simp_all add: neutral_kinds send_const_effects [OF law])
  show "?T (\<lambda>s. send_word E fd (w s) s)"
    by (rule hsh_quiet [OF send_word_effects(3) [OF law]]) (simp_all add: neutral_kinds send_word_effects [OF law])
  show "?T (receive_into E fd (\<lambda>v s. s\<lparr>hsh_token := v\<rparr>))"
    by (rule hsh_quiet [OF receive_into_effects(1) [OF law]]) (simp_all add: neutral_kinds receive_into_effects [OF law])
  show "?T (receive_into E fd (\<lambda>v s. s\<lparr>hsh_failures := hsh_failures s + ucast v\<rparr>))"
    by (rule hsh_quiet [OF receive_into_effects(1) [OF law]]) (simp_all add: neutral_kinds receive_into_effects [OF law])
  show "?T (check_receive E fd ok what)"
    by (rule hsh_quiet [OF check_receive_effects(1) [OF law]]) (simp_all add: neutral_kinds check_receive_effects [OF law])
  show "?T (assign (\<lambda>s. fill E (hsh_va s) bytes seed s))"
    by (rule hsh_quiet [OF calls_effects(3)]) (simp_all add: neutral_kinds calls_effects)
  show "?T (\<lambda>s. verify E (hsh_va s) bytes seed phase s)"
    by (rule hsh_quiet [OF calls_effects(5)]) (simp_all add: neutral_kinds calls_effects)
  show "?T (inspect_mapping E)"
    unfolding inspect_mapping_def
    by (rule hsh_quiet [OF calls_effects(1) [where C = "\<lambda>c. \<forall>r. neutral (c, r)"]]) (auto intro: calls_effects)
qed

definition hsh_opening :: "cli_options \<Rightarrow> resource multiset \<Rightarrow> bool \<Rightarrow> bool \<Rightarrow> 'w host_share \<Rightarrow> bool" where
  "hsh_opening opt r0 i d s \<longleftrightarrow> in_books r0 s (hsh_rest opt s) \<and> (i \<or> \<not> hsh_initialized s) \<and> (d \<or> \<not> hsh_device_set s) \<and>
     hsh_host s = Allocation_new"

lemma hsh_opening_at: "hsh_opening opt r0 i d s \<Longrightarrow> hsh_at opt r0 False False False s"
  by (simp add: hsh_opening_def slot_at_def slot_books_def Allocation_new_def alloc_held_def)

lemma hsh_opening_books: "hsh_opening opt r0 i d s \<Longrightarrow> hsh_books opt r0 s"
  by (simp add: hsh_opening_def slot_books_def)

lemma hsh_opens:
  "triple (hsh_opening opt r0 False False) (run_steps (hsh_open E opt)) (hsh_at opt r0 False False False) (hsh_books opt r0)"
  unfolding hsh_open_def
proof (rule triple_Cons [OF _ triple_Cons [OF _ triple_Cons [OF _ triple_Nil]]])
  show "triple (hsh_opening opt r0 False False) (check_step E ''aclInit'' (\<lambda>_. aclInit) no_out (\<lambda>s. s\<lparr>hsh_initialized := True\<rparr>))
      (hsh_opening opt r0 True False) (hsh_books opt r0)"
    by (rule triple_check) (auto simp: hsh_opening_def slot_books_def hsh_rest_def elim!: books_event)
  have dev: "triple (hsh_opening opt r0 True False)
      (check_step E ''aclrtSetDevice'' (\<lambda>_. aclrtSetDevice (cli_device opt)) no_out (\<lambda>s. s\<lparr>hsh_device_set := True\<rparr>))
      (hsh_opening opt r0 True True) (hsh_books opt r0)"
    by (rule triple_check) (auto simp: hsh_opening_def slot_books_def hsh_rest_def elim!: books_event)
  then show "triple (hsh_opening opt r0 True False)
      (check_step E ''aclrtSetDevice'' (\<lambda>_. aclrtSetDevice (cli_device opt)) no_out (\<lambda>s. s\<lparr>hsh_device_set := True\<rparr>))
      (hsh_at opt r0 False False False) (hsh_books opt r0)"
    by (rule triple_weaken) (assumption | erule hsh_opening_at)+
  show "triple (hsh_at opt r0 False False False) (check_step E ''halGetHostID'' (\<lambda>s. Hal (halGetHostID (hsh_host_id s)))
        (\<lambda>out s. s\<lparr>hsh_host_id := ucast out\<rparr>) id) (hsh_at opt r0 False False False) (hsh_books opt r0)"
    by (rule hsh_quiet_check) simp_all
qed

lemma hsh_body_books:
  assumes law: "bounded_transfers E"
  shows "triple (hsh_opening opt r0 False False) (run_steps (hsh_body E opt importer fd bytes))
    (hsh_books opt r0) (hsh_books opt r0)"
proof -
  note steps = triple_Cons triple_Nil hsh_slot_steps hsh_quiet_steps [OF law] hsh_io_tests_at
  have importing: "triple (hsh_at opt r0 False False False) (run_steps (hsh_importer E opt fd bytes))
      (hsh_at opt r0 False False False) (hsh_books opt r0)"
    unfolding hsh_importer_def hsh_map_def append.simps
    by (rule steps)+
  have creating: "triple (hsh_at opt r0 False False False) (run_steps (hsh_creator E opt fd bytes))
      (hsh_at opt r0 True True True) (hsh_books opt r0)"
    unfolding hsh_creator_def hsh_map_def append.simps
    by (rule steps hsh_quiet_check | simp)+
  have books: "hsh_at opt r0 a h m s \<Longrightarrow> hsh_books opt r0 s" for a h m s
    by (simp add: slot_at_def)
  have "triple (hsh_at opt r0 False False False)
      (run_steps (if importer then hsh_importer E opt fd bytes else hsh_creator E opt fd bytes)) (hsh_books opt r0) (hsh_books opt r0)"
    by (cases importer; simp; rule triple_weaken, (rule importing creating)) (assumption | erule books)+
  then show ?thesis
    unfolding hsh_body_def by (rule triple_append [OF hsh_opens])
qed

subsection \<open>The worker\<close>

lemma hsh_init_simps [simp]:
  "sys_of (hsh_init s) = sys_of s" "cleanup_failed (hsh_init s) = cleanup_failed s"
  "hsh_host (hsh_init s) = Allocation_new" "\<not> hsh_initialized (hsh_init s)" "\<not> hsh_device_set (hsh_init s)"
  "hsh_rest opt (hsh_init s) = {#}"
  by (simp_all add: hsh_init_def hsh_rest_def probe.defs host_share.defs)

lemma hsh_finish_books:
  assumes "hsh_books opt r0 s"
  shows "in_books (add_mset (R_fd fd) r0) (hsh_finish E opt fd s) {#}"
proof -
  let ?i = "one_if (hsh_initialized s) R_acl"
  let ?d = "one_if (hsh_device_set s) (R_device (cli_device opt))"
  let ?s1 = "Allocation_destroy E (hsh_host s) s"
  let ?s2 = "plain_call E (Io (sys_close fd)) ?s1"
  let ?s3 = "if hsh_device_set s then cleanup E (aclrtResetDevice (cli_device opt)) ?s2 else ?s2"
  have "in_books r0 s ((?i + ?d) + alloc_held (hsh_host s))"
    using assms by (simp add: slot_books_def hsh_rest_def)
  then have "in_books r0 ?s1 (?i + ?d)"
    by (rule Allocation_destroy_books)
  then have "in_books (add_mset (R_fd fd) r0) ?s2 (?i + ?d)"
    using in_books_add [of r0 ?s1 "?i + ?d" "{#R_fd fd#}"] by (intro close_books) simp
  then have "in_books (add_mset (R_fd fd) r0) ?s3 ?i"
    by (rule in_books_cleanup_if) simp
  then have "in_books (add_mset (R_fd fd) r0) ?s3 ({#} + ?i)"
    by simp
  then show ?thesis
    unfolding hsh_finish_def Let_def by (rule in_books_cleanup_if) simp
qed

lemma hsh_finish_grows: "grows no_send s (hsh_finish E opt fd s)"
proof -
  let ?s1 = "Allocation_destroy E (hsh_host s) s"
  let ?s2 = "plain_call E (Io (sys_close fd)) ?s1"
  let ?s3 = "if hsh_device_set s then cleanup E (aclrtResetDevice (cli_device opt)) ?s2 else ?s2"
  have "grows no_send s ?s1"
    by (rule Allocation_destroy_grows) simp_all
  moreover have "grows no_send ?s1 ?s2"
    by (rule grows_plain) (simp add: no_send_def)
  moreover have "grows no_send ?s2 ?s3" "grows no_send ?s3 (hsh_finish E opt fd s)"
    unfolding hsh_finish_def Let_def by (rule grows_cleanup_if; simp)+
  ultimately show ?thesis
    by (blast intro: grows_trans)
qed

lemma hsh_worker_cases:
  assumes "hsh_worker E opt importer fd bytes s = Some (n, s')"
  obtains e s1 where "run_steps (hsh_body E opt importer fd bytes) (hsh_init s) = Some (e, s1)"
    "n = (if (if e \<noteq> None then hsh_failures s1 + 100 else hsh_failures s1) \<noteq> 0 \<or> cleanup_failed s' then 1 else 0)"
    "s' = probe.truncate (hsh_finish E opt fd s1)"
  using assms by (auto simp: hsh_worker_def Let_def split: option.splits)

lemma hsh_worker_books:
  assumes law: "bounded_transfers E" and "in_books r0 s {#}" and w: "hsh_worker E opt importer fd bytes s = Some (n, s')"
  shows "in_books (add_mset (R_fd fd) r0) s' {#}"
proof -
  obtain e s1 where run: "run_steps (hsh_body E opt importer fd bytes) (hsh_init s) = Some (e, s1)"
    and s': "s' = probe.truncate (hsh_finish E opt fd s1)"
    by (rule hsh_worker_cases [OF w])
  have "hsh_opening opt r0 False False (hsh_init s)"
    using assms(2) by (simp add: hsh_opening_def in_books_def trace_of_def)
  then have "hsh_books opt r0 s1"
    using tripleD [OF hsh_body_books [OF law] _ run] by (simp split: if_splits)
  from hsh_finish_books [OF this, of fd E] show ?thesis
    by (simp add: s' in_books_def)
qed

lemma hsh_worker_clean: "hsh_worker E opt importer fd bytes s = Some (0, s') \<Longrightarrow> \<not> cleanup_failed s'"
  by (erule hsh_worker_cases) (simp split: if_splits)

lemma hsh_worker_importer:
  assumes law: "bounded_transfers E" and t: "sends_on fd (trace_of s) = 0"
    and w: "hsh_worker E opt True fd bytes s = Some (n, s')"
  shows "importer_side 2 fd (trace_of s')"
proof -
  obtain e s1 where run: "run_steps (hsh_body E opt True fd bytes) (hsh_init s) = Some (e, s1)"
    and s': "s' = probe.truncate (hsh_finish E opt fd s1)"
    by (rule hsh_worker_cases [OF w])
  obtain ev where ev: "trace_of s' = trace_of s1 @ ev" "list_all no_send (map fst ev)"
    using hsh_finish_grows [of s1 E opt fd] by (auto simp: s' grows_def)
  have "importer_side 2 fd (trace_of s1)"
    using tripleD [OF hsh_importer_body [OF law] _ run] t by (simp add: trace_of_def split: if_splits)
  then show ?thesis
    unfolding ev(1) by (rule importer_side_off [OF _ ev(2)])
qed

text \<open>
  For the creator, exit code 0 is not quite enough: the number of failures is an \<open>int\<close>, 100 is added
  for an exception, and the number reported by the peer is added unchecked.
\<close>

lemma hsh_worker_creator:
  assumes law: "bounded_transfers E" and t: "list_all (\<lambda>c. \<not> is_let_go c) (map fst (trace_of s))"
    and w: "hsh_worker E opt False fd bytes s = Some (0, s')"
    and "\<And>e s1. run_steps (hsh_body E opt False fd bytes) (hsh_init s) = Some (e, s1) \<Longrightarrow> hsh_failures s1 + 100 \<noteq> 0"
  shows "creator_side 2 fd (trace_of s')"
proof -
  obtain e s1 where run: "run_steps (hsh_body E opt False fd bytes) (hsh_init s) = Some (e, s1)"
    and n: "(0 :: int) = (if (if e \<noteq> None then hsh_failures s1 + 100 else hsh_failures s1) \<noteq> 0 \<or> cleanup_failed s' then 1 else 0)"
    and s': "s' = probe.truncate (hsh_finish E opt fd s1)"
    by (rule hsh_worker_cases [OF w])
  have "e = None"
    using n assms(4) [OF run] by (auto split: if_splits)
  with run have run: "run_steps (hsh_body E opt False fd bytes) (hsh_init s) = Some (None, s1)"
    by simp
  obtain ev where "trace_of s' = trace_of s1 @ ev"
    using hsh_finish_grows [of s1 E opt fd] by (auto simp: s' grows_def)
  with hsh_creator_body [OF law run] t show ?thesis
    by (simp add: trace_of_def)
qed

lemma hsh_worker_extends:
  assumes law: "bounded_transfers E" and w: "hsh_worker E opt importer fd bytes s = Some (n, s')"
  shows "\<exists>ev. trace_of s' = trace_of s @ ev"
proof -
  obtain e s1 where run: "run_steps (hsh_body E opt importer fd bytes) (hsh_init s) = Some (e, s1)"
    and s': "s' = probe.truncate (hsh_finish E opt fd s1)"
    by (rule hsh_worker_cases [OF w])
  have all: "\<forall>f \<in> set (hsh_body E opt importer fd bytes). appends (\<lambda>_. True) f"
    by (rule hsh_body_appends [OF law]) simp_all
  obtain ev where "trace_of s1 = trace_of s @ ev"
    using appendsD [OF appends_run [OF all] run] by (auto simp: trace_of_def)
  with hsh_finish_grows [of s1 E opt fd] show ?thesis
    by (auto simp: s' grows_def)
qed

interpretation hsh_tidy: tidy_worker E "\<lambda>importer fd. hsh_worker E opt importer fd bytes"
  for E :: "'w env" and opt bytes
  by unfold_locales (rule hsh_worker_books hsh_worker_extends | erule hsh_worker_clean | assumption)+

end
