(* ===== verification/Hal_Map_Probe.thy ===== *)
theory Hal_Map_Probe
  imports Probe_Steps
begin

unbundle bit_operations_syntax

text \<open>
  src/hal_map_probe.cpp: a creator allocates host memory, exports it and hands the token to an
  importer in a second process, which maps it as host or as device memory; in host mode both
  processes check the other's writes. The program has its own \<open>check\<close>, its own words over the
  socket (one transfer, no resumption) and its own pattern.

  A receive with \<open>MSG_WAITALL\<close> delivers all its bytes or fails. The clean-up's \<open>result = 1\<close> is the
  flag \<open>cleanup_failed\<close>, which no other part of this program uses. The arguments exclude \<open>argv[0]\<close>.
\<close>

subsection \<open>Words and pattern\<close>

partial_function (option) hm_send_word ::
  "'w env \<Rightarrow> int \<Rightarrow> u64 \<Rightarrow> ('w, 'z) probe_scheme \<Rightarrow> (string option \<times> ('w, 'z) probe_scheme) option" where
  "hm_send_word E fd v s =
     (case probe_call E (Io (sys_send fd v 8)) s of
        (n, _, s1) \<Rightarrow> if n = - EINTR then hm_send_word E fd v s1
                     else Some (if n \<noteq> 8 then Some ''IPC send'' else None, s1))"

partial_function (option) hm_receive_word ::
  "'w env \<Rightarrow> int \<Rightarrow> ('w, 'z) probe_scheme \<Rightarrow> ((string + u64) \<times> ('w, 'z) probe_scheme) option" where
  "hm_receive_word E fd s =
     (case probe_call E (Io (sys_recv fd 8)) s of
        (n, v, s1) \<Rightarrow> if n = - EINTR then hm_receive_word E fd s1
                     else Some (if n \<noteq> 8 then Inl ''IPC receive / peer closed'' else Inr v, s1))"

definition write_pattern :: "'w env \<Rightarrow> u64 \<Rightarrow> u64 \<Rightarrow> u64 \<Rightarrow> ('w, 'z) probe_scheme \<Rightarrow> ('w, 'z) probe_scheme" where
  "write_pattern E p bytes seed s =
     fold (\<lambda>i. store_word E p i (seed XOR of_nat i)) [0..<unat (bytes div 8)] s"

fun hm_verify_words ::
  "'w env \<Rightarrow> u64 \<Rightarrow> u64 \<Rightarrow> nat list \<Rightarrow> ('w, 'z) probe_scheme \<Rightarrow> string option \<times> ('w, 'z) probe_scheme" where
  "hm_verify_words E p seed [] s = (None, s)"
| "hm_verify_words E p seed (i # is) s =
     (case probe_call E (Cpu (cpu_load 8 (p + of_nat (8 * i)))) s of
        (_, v, s1) \<Rightarrow> if v \<noteq> seed XOR of_nat i then (Some ''CPU shared data mismatch'', s1)
                      else hm_verify_words E p seed is s1)"

definition hm_verify :: "'w env \<Rightarrow> u64 \<Rightarrow> u64 \<Rightarrow> u64 \<Rightarrow> ('w, 'z) probe_scheme prog_step" where
  "hm_verify E p bytes seed s = Some (hm_verify_words E p seed [0..<unat (bytes div 8)] s)"

subsection \<open>The worker\<close>

record 'w hal_map = "'w probe" +
  hmp_opened :: bool
  hmp_alloc :: allocation
  hmp_token :: u64
  hmp_target :: u32

definition hmp_init :: "u32 \<Rightarrow> 'w probe \<Rightarrow> 'w hal_map" where
  "hmp_init device s = probe.extend s (hal_map.fields False Allocation_new 0 device)"

definition hmp_receive ::
  "'w env \<Rightarrow> int \<Rightarrow> 'w hal_map prog_step" where
  "hmp_receive E fd s =
     (case hm_receive_word E fd s of None \<Rightarrow> None
      | Some (Inl e, s1) \<Rightarrow> Some (Some e, s1)
      | Some (Inr v, s1) \<Rightarrow> Some (None, s1\<lparr>hmp_token := v\<rparr>))"

text \<open>\<open>check(static_cast<int>(receive_word(socket)), what)\<close> looks at the low half of the word.\<close>

definition hmp_expect_zero :: "'w env \<Rightarrow> int \<Rightarrow> string \<Rightarrow> 'w hal_map prog_step" where
  "hmp_expect_zero E fd what s =
     (case hm_receive_word E fd s of None \<Rightarrow> None
      | Some (Inl e, s1) \<Rightarrow> Some (Some e, s1)
      | Some (Inr v, s1) \<Rightarrow> Some (if (ucast v :: u32) \<noteq> 0 then Some what else None, s1))"

abbreviation hmp_va :: "'w hal_map \<Rightarrow> u64" where
  "hmp_va s \<equiv> alloc_va (hmp_alloc s)"

definition hmp_open :: "'w env \<Rightarrow> u32 \<Rightarrow> 'w hal_map prog_step list" where
  "hmp_open E device =
     [assign (plain_call E (Hal halSetRuntimeApiVer)),
      check_step E ''halDeviceOpen'' (\<lambda>_. Hal (halDeviceOpen device)) no_out (\<lambda>s. s\<lparr>hmp_opened := True\<rparr>)]"

definition hmp_import :: "'w env \<Rightarrow> bool \<Rightarrow> u64 \<Rightarrow> 'w hal_map prog_step list" where
  "hmp_import E host_mode bytes =
     [reserve_step E ''halMemAddressReserve'' hmp_alloc hmp_alloc_update bytes,
      when_step host_mode [check_step E ''halGetHostID'' (\<lambda>s. Hal (halGetHostID (hmp_target s)))
        (\<lambda>out s. s\<lparr>hmp_target := ucast out\<rparr>) id],
      import_step E ''halMemImportFromShareableHandle'' hmp_alloc hmp_alloc_update hmp_token hmp_target,
      map_step E ''halMemMap'' hmp_alloc hmp_alloc_update bytes]"

definition hmp_create :: "'w env \<Rightarrow> u64 \<Rightarrow> 'w hal_map prog_step list" where
  "hmp_create E bytes =
     [reserve_step E ''halMemAddressReserve'' hmp_alloc hmp_alloc_update bytes,
      create_step E ''halMemCreate HOST DDR'' hmp_alloc hmp_alloc_update bytes
        (mem_prop MEM_HOST_SIDE 0 MEM_HUGE_PAGE_TYPE MEM_DDR_TYPE),
      map_step E ''halMemMap'' hmp_alloc hmp_alloc_update bytes]"

definition hmp_share :: "'w env \<Rightarrow> bool \<Rightarrow> u64 \<Rightarrow> int \<Rightarrow> 'w hal_map prog_step list" where
  "hmp_share E host_mode bytes fd =
     [assign (\<lambda>s. write_pattern E (hmp_va s) bytes 101 s),
      check_step E ''export handle'' (\<lambda>s. halMemExportToShareableHandle (alloc_handle (hmp_alloc s)) 0 (hmp_token s))
        (\<lambda>out s. s\<lparr>hmp_token := out\<rparr>) id,
      check_step E ''same-server sharing'' (\<lambda>s. halMemShareHandleSetAttribute (hmp_token s)) no_out id,
      (\<lambda>s. hm_send_word E fd (hmp_token s) s),
      hmp_expect_zero E fd ''importer mapped'',
      when_step host_mode [\<lambda>s. hm_verify E (hmp_va s) bytes 202 s],
      hm_send_word E fd 0,
      hmp_expect_zero E fd ''importer released mapping'']"

definition hmp_use :: "'w env \<Rightarrow> bool \<Rightarrow> u64 \<Rightarrow> int \<Rightarrow> 'w hal_map prog_step list" where
  "hmp_use E host_mode bytes fd =
     [when_step host_mode [\<lambda>s. hm_verify E (hmp_va s) bytes 101 s,
                           assign (\<lambda>s. write_pattern E (hmp_va s) bytes 202 s)],
      hm_send_word E fd 0,
      hmp_expect_zero E fd ''creator acknowledged''] @
     [unmap_step E ''importer unmap'' hmp_alloc hmp_alloc_update,
      release_step E ''importer release'' hmp_alloc hmp_alloc_update,
      free_step E ''importer free VA'' hmp_alloc hmp_alloc_update] @
     [hm_send_word E fd 0]"

definition hmp_body :: "'w env \<Rightarrow> bool \<Rightarrow> bool \<Rightarrow> u32 \<Rightarrow> u64 \<Rightarrow> int \<Rightarrow> 'w hal_map prog_step list" where
  "hmp_body E importer host_mode device bytes fd =
     hmp_open E device @
     (if importer then hmp_receive E fd # hmp_import E host_mode bytes @ hmp_use E host_mode bytes fd
      else hmp_create E bytes @ hmp_share E host_mode bytes fd)"

definition hmp_cleanup :: "'w env \<Rightarrow> u32 \<Rightarrow> int \<Rightarrow> 'w hal_map \<Rightarrow> 'w hal_map" where
  "hmp_cleanup E device fd s =
     (let s1 = plain_call E (Io (sys_close fd)) s;
          s2 = Allocation_destroy E (hmp_alloc s1) s1
      in if hmp_opened s2 then cleanup E (Hal (halDeviceClose device)) s2 else s2)"

definition hmp_worker ::
  "'w env \<Rightarrow> bool \<Rightarrow> bool \<Rightarrow> u32 \<Rightarrow> u64 \<Rightarrow> int \<Rightarrow> 'w probe \<Rightarrow> (int \<times> 'w probe) option" where
  "hmp_worker E importer host_mode device bytes fd s =
     (case run_steps (hmp_body E importer host_mode device bytes fd) (hmp_init device s) of
        None \<Rightarrow> None
      | Some (e, s1) \<Rightarrow>
          let s2 = hmp_cleanup E device fd s1
          in Some (if e \<noteq> None \<or> cleanup_failed s2 then 1 else 0, probe.truncate s2))"

subsection \<open>The command line\<close>

definition hmp_number :: "string \<Rightarrow> u64 option" where
  "hmp_number text =
     (if text = [] \<or> \<not> only_digits text then None
      else case stoull text of Inl _ \<Rightarrow> None | Inr n \<Rightarrow> Some n)"

text \<open>\<open>std::stoi\<close>\<close>

definition stoi :: "string \<Rightarrow> int option" where
  "stoi text =
     (case scan_unsigned text of None \<Rightarrow> None
      | Some (neg, v, _) \<Rightarrow>
          let n = if neg then - int v else int v
          in if - (2 ^ 31) \<le> n \<and> n < 2 ^ 31 then Some n else None)"

definition hmp_sizes :: "string \<Rightarrow> string \<Rightarrow> (u32 \<times> u64) option" where
  "hmp_sizes dev_text mib_text =
     (case hmp_number dev_text of None \<Rightarrow> None
      | Some dev \<Rightarrow>
          (case hmp_number mib_text of None \<Rightarrow> None
           | Some mib \<Rightarrow>
               if dev > 0xffffffff \<or> mib = 0 \<or> mib mod 2 \<noteq> 0 \<or> mib > SIZE_MAX div (1024 * 1024) then None
               else Some (ucast dev, mib * 1024 * 1024)))"

definition hmp_main :: "'w env \<Rightarrow> string list \<Rightarrow> 'w probe \<Rightarrow> (ended \<times> 'w probe) option" where
  "hmp_main E args s =
     (if args = [''--help''] then Some (Exit 0, s)
      else if length args \<noteq> 3 \<and> length args \<noteq> 4 then Some (Exit 2, s)
      else if args ! 0 \<noteq> ''host'' \<and> args ! 0 \<noteq> ''device'' then Some (Exit 2, s)
      else case hmp_sizes (args ! 1) (args ! 2) of None \<Rightarrow> Some (Exit 2, s)
      | Some (dev, bytes) \<Rightarrow>
          let work = (\<lambda>importer fd. hmp_worker E importer (args ! 0 = ''host'') dev bytes fd)
          in if length args = 4
             then case stoi (args ! 3) of None \<Rightarrow> Some (Exit 2, s)
               | Some fd \<Rightarrow> map_option (\<lambda>(n, t). (Exit n, t)) (work True fd s)
             else launch_pair E (\<lambda>fd. [fd]) work args s)"

end
