(* ===== verification/Multi_Share.thy ===== *)
theory Multi_Share
  imports Host_Share Hal_Map_Probe
begin

unbundle bit_operations_syntax

text \<open>
  src/multi_share.cpp: a coordinator starts one worker process for each device. Every worker maps host
  memory of its own and the memory of all others side by side in one address range; the coordinator
  passes the tokens on and keeps the workers in step with eight barriers.

  What is not under src/ and not a call is the record \<open>machine\<close>: the file that lists the processors
  of a NUMA node (\<open>None\<close>: it cannot be opened) and the value the headers give to
  \<open>MEM_HOST_NUMA_SIDE\<close>. The allocation properties come back in one word, the device in its low half
  and the side in its high half. Log output has no model. The arguments exclude \<open>argv[0]\<close>.
\<close>

record machine =
  node_cpulist :: "int \<Rightarrow> string option"
  numa_side_value :: u32

definition va_alignment :: u64 where
  "va_alignment = 2 ^ 30"

definition read_rounds :: nat where
  "read_rounds = 2"

record multi_options =
  mo_devices :: "int list"
  mo_nodes :: "int list"
  mo_bytes :: u64
  mo_io_dir :: string
  mo_rank :: int
  mo_fd :: int

definition multi_defaults :: multi_options where
  "multi_defaults = \<lparr>mo_devices = [], mo_nodes = [], mo_bytes = 2 * 1024 * 1024, mo_io_dir = ''.'',
     mo_rank = - 1, mo_fd = - 1\<rparr>"

subsection \<open>Lists of numbers\<close>

text \<open>The parts that \<open>std::getline(stream, part, ',')\<close> yields one after the other.\<close>

function getline_parts :: "string \<Rightarrow> string list" where
  "getline_parts text =
     (if text = [] then []
      else takeWhile (\<lambda>c. c \<noteq> CHR '','') text # getline_parts (drop 1 (dropWhile (\<lambda>c. c \<noteq> CHR '','') text)))"
  by auto
termination
proof (relation "measure length")
  fix str :: string
  assume "str \<noteq> []"
  then have "0 < length str" by simp
  with length_dropWhile_le [of "\<lambda>c. c \<noteq> CHR '',''" str]
  have "length (dropWhile (\<lambda>c. c \<noteq> CHR '','') str) - 1 < length str"
    by linarith
  then show "(drop 1 (dropWhile (\<lambda>c. c \<noteq> CHR '','') str), str) \<in> measure length"
    by (simp only: in_measure length_drop)
qed (rule wf_measure)

declare getline_parts.simps [simp del]

fun int_list :: "string list \<Rightarrow> string + int list" where
  "int_list [] = Inr []"
| "int_list (part # parts) =
     (case number part of Inl e \<Rightarrow> Inl e
      | Inr n \<Rightarrow> if n > INT_MAX then Inl ''list integer out of range''
                else case int_list parts of Inl e \<Rightarrow> Inl e | Inr ns \<Rightarrow> Inr (uint n # ns))"

definition number_list :: "string \<Rightarrow> string + int list" where
  "number_list text =
     (case int_list (getline_parts text) of Inl e \<Rightarrow> Inl e
      | Inr ns \<Rightarrow> if ns = [] \<or> last text = CHR '','' then Inl ''empty list item'' else Inr ns)"

subsection \<open>\<open>bind_cpu\<close>\<close>

definition CPU_SETSIZE :: int where
  "CPU_SETSIZE = 1024"

text \<open>\<open>if (CPU_ISSET(cpu, &allowed)) CPU_SET(cpu, &selected)\<close> for the processors of one range.\<close>

fun select_cpus :: "'w env \<Rightarrow> int list \<Rightarrow> nat set \<Rightarrow> ('w, 'z) probe_scheme \<Rightarrow> nat set \<times> ('w, 'z) probe_scheme" where
  "select_cpus E [] selected s = (selected, s)"
| "select_cpus E (cpu # cpus) selected s =
     (case probe_call E (Proc (affinity_word (nat cpu div 64))) s of
        (_, bits, s1) \<Rightarrow>
          select_cpus E cpus (if bit bits (nat cpu mod 64) then insert (nat cpu) selected else selected) s1)"

definition cpu_range :: "string \<Rightarrow> string + int \<times> int" where
  "cpu_range part =
     (case stoi (takeWhile (\<lambda>c. c \<noteq> CHR ''-'') part) of None \<Rightarrow> Inl ''stoi''
      | Some first \<Rightarrow>
          (case (if CHR ''-'' \<notin> set part then Some first else stoi (drop 1 (dropWhile (\<lambda>c. c \<noteq> CHR ''-'') part))) of
             None \<Rightarrow> Inl ''stoi''
           | Some last_cpu \<Rightarrow> if last_cpu \<ge> CPU_SETSIZE then Inl ''CPU ID exceeds CPU_SETSIZE'' else Inr (first, last_cpu)))"

fun select_parts ::
  "'w env \<Rightarrow> string list \<Rightarrow> nat set \<Rightarrow> ('w, 'z) probe_scheme \<Rightarrow> (string + nat set) \<times> ('w, 'z) probe_scheme" where
  "select_parts E [] selected s = (Inr selected, s)"
| "select_parts E (part # parts) selected s =
     (case cpu_range part of Inl e \<Rightarrow> (Inl e, s)
      | Inr (first, last_cpu) \<Rightarrow>
          (case select_cpus E [first..last_cpu] selected s of (selected', s1) \<Rightarrow> select_parts E parts selected' s1))"

definition bind_selected :: "'w env \<Rightarrow> nat set \<Rightarrow> ('w, 'z) probe_scheme prog_step" where
  "bind_selected E selected s =
     (if selected = {} then Some (Some ''NUMA node has no allowed CPUs'', s)
      else check_step E ''sched_setaffinity NUMA''
        (\<lambda>_. Proc (sys_setaffinity (filter (\<lambda>cpu. cpu \<in> selected) [0..<nat CPU_SETSIZE]))) no_out id s)"

definition bind_cpu :: "'w env \<Rightarrow> machine \<Rightarrow> int \<Rightarrow> ('w, 'z) probe_scheme prog_step" where
  "bind_cpu E M node s =
     (case node_cpulist M node of None \<Rightarrow> Some (Some ''read NUMA node cpulist'', s)
      | Some content \<Rightarrow>
          (case read_token content of None \<Rightarrow> Some (Some ''read NUMA node cpulist'', s)
           | Some (cpus, _) \<Rightarrow>
               (case check_step E ''sched_getaffinity'' (\<lambda>_. Proc sys_getaffinity) no_out id s of
                  None \<Rightarrow> None
                | Some (Some e, s1) \<Rightarrow> Some (Some e, s1)
                | Some (None, s1) \<Rightarrow>
                    (case select_parts E (getline_parts cpus) {} s1 of
                       (Inl e, s2) \<Rightarrow> Some (Some e, s2)
                     | (Inr selected, s2) \<Rightarrow> bind_selected E selected s2))))"

subsection \<open>\<open>buffered_aio\<close>\<close>

text \<open>The variables are those of \<open>io_tests\<close>; \<open>iot_control\<close> is the storage of the vector.\<close>

definition bai_body :: "'w env \<Rightarrow> u64 \<Rightarrow> u64 \<Rightarrow> u64 \<Rightarrow> 'w io_vars prog_step list" where
  "bai_body E p bytes seed =
     [check_step E ''io_setup'' (\<lambda>_. Io (sys_io_setup 8)) (\<lambda>out s. s\<lparr>iot_ctx := out\<rparr>) id,
      aio_step E iot_control bytes True,
      assign (\<lambda>s. plain_call E (Cpu (c_memset p 0 bytes)) s),
      aio_step E (\<lambda>_. p) bytes False,
      (\<lambda>s. verify E p bytes seed ''AIO_READ_OWN_HOST'' s),
      check_step E ''truncate before AIO write'' (\<lambda>s. Io (sys_ftruncate (iot_fd s) 0)) no_out id,
      aio_step E (\<lambda>_. p) bytes True,
      clear_control E bytes,
      aio_step E iot_control bytes False,
      (\<lambda>s. verify E (iot_control s) bytes seed ''AIO_WRITE_OWN_HOST'' s)]"

definition bai_io :: "'w env \<Rightarrow> u64 \<Rightarrow> u64 \<Rightarrow> u64 \<Rightarrow> 'w io_vars prog_step" where
  "bai_io E p bytes seed s =
     (case run_steps (bai_body E p bytes seed) s of None \<Rightarrow> None
      | Some (Some e, s1) \<Rightarrow>
          let s2 = if iot_ctx s1 \<noteq> 0 then cleanup E (Io (sys_io_destroy (iot_ctx s1))) s1 else s1
          in Some (Some e, cleanup E (Io (sys_close (iot_fd s1))) s2)
      | Some (None, s1) \<Rightarrow>
          Some (None, cleanup E (Io (sys_close (iot_fd s1))) (cleanup E (Io (sys_io_destroy (iot_ctx s1))) s1)))"

definition bai_path :: "string \<Rightarrow> int \<Rightarrow> string" where
  "bai_path directory pid = directory @ ''/multi-aio-'' @ to_string_int pid @ ''.bin''"

definition bai_file :: "'w env \<Rightarrow> u64 \<Rightarrow> u64 \<Rightarrow> u64 \<Rightarrow> string \<Rightarrow> 'w io_vars prog_step" where
  "bai_file E p bytes seed directory s =
     (let s1 = fill E (iot_control s) bytes seed s;
          (pid, _, s2) = probe_call E (Proc sys_getpid) s1;
          path = bai_path directory pid;
          (fd, _, s3) = probe_call E (Io (sys_open path [''O_CREAT'', ''O_EXCL'', ''O_RDWR''])) s2
      in if fd < 0 then Some (Some ''open buffered AIO file'', s3)
         else let (r, _, s4) = probe_call E (Io (sys_unlink path)) s3
              in if r \<noteq> 0 then Some (Some ''unlink AIO file'', plain_call E (Io (sys_close fd)) s4)
                 else bai_io E p bytes seed (s4\<lparr>iot_fd := fd, iot_ctx := 0\<rparr>))"

definition buffered_aio ::
  "'w env \<Rightarrow> u64 \<Rightarrow> u64 \<Rightarrow> u64 \<Rightarrow> string \<Rightarrow> 'w probe \<Rightarrow> (string option \<times> 'w probe) option" where
  "buffered_aio E p bytes seed directory s =
     (let (r, control, s1) = probe_call E (Cpu (vector_new (bytes div 8))) s
      in if r \<noteq> 0 then Some (Some ''std::bad_alloc'', s1)
         else case bai_file E p bytes seed directory ((iot_init s1)\<lparr>iot_control := control\<rparr>) of None \<Rightarrow> None
         | Some (e, t) \<Rightarrow> Some (e, probe.truncate (plain_call E (Cpu (vector_delete control)) t)))"

subsection \<open>The worker\<close>

record 'w multi = "'w probe" +
  mul_acl_init :: bool
  mul_device_set :: bool
  mul_base :: u64
  mul_handles :: "u64 list"
  mul_mapped :: "bool list"
  mul_token :: u64
  mul_acl :: acl_resources
  mul_has_staging :: bool
  mul_staging :: u64

definition mul_init :: "nat \<Rightarrow> 'w probe \<Rightarrow> 'w multi" where
  "mul_init n s = probe.extend s
     (multi.fields False False nullptr (replicate n nullptr) (replicate n False) 0 AclResources_new False nullptr)"

abbreviation mo_count :: "multi_options \<Rightarrow> nat" where
  "mo_count opt \<equiv> length (mo_devices opt)"

abbreviation rank_of :: "multi_options \<Rightarrow> nat" where
  "rank_of opt \<equiv> nat (mo_rank opt)"

abbreviation device_of :: "multi_options \<Rightarrow> int" where
  "device_of opt \<equiv> mo_devices opt ! rank_of opt"

definition total_bytes :: "multi_options \<Rightarrow> u64" where
  "total_bytes opt = mo_bytes opt * of_nat (mo_count opt)"

definition reserve_bytes :: "u64 \<Rightarrow> u64" where
  "reserve_bytes bytes = (bytes + va_alignment - 1) AND NOT (va_alignment - 1)"

definition slice_va :: "u64 \<Rightarrow> u64 \<Rightarrow> nat \<Rightarrow> u64" where
  "slice_va base bytes owner = base + of_nat owner * bytes"

text \<open>\<open>check(call, what)\<close> followed by \<open>if (...) throw\<close> on what the call stored.\<close>

definition check_value ::
  "'w env \<Rightarrow> string \<Rightarrow> (('w, 'z) probe_scheme \<Rightarrow> native) \<Rightarrow> (u64 \<Rightarrow> bool) \<Rightarrow> string \<Rightarrow> ('w, 'z) probe_scheme prog_step" where
  "check_value E what c ok what2 s =
     (case probe_call E (c s) s of
        (ret, out, s1) \<Rightarrow> Some (if ret \<noteq> 0 then Some what else if ok out then None else Some what2, s1))"

definition barrier :: "'w env \<Rightarrow> int \<Rightarrow> ('w, 'z) probe_scheme prog_step list" where
  "barrier E fd = [send_word E fd 0, check_receive E fd (\<lambda>v. v = 0) ''barrier'']"

definition mul_open :: "'w env \<Rightarrow> machine \<Rightarrow> multi_options \<Rightarrow> 'w multi prog_step list" where
  "mul_open E M opt =
     [bind_cpu E M (mo_nodes opt ! rank_of opt),
      check_step E ''aclInit'' (\<lambda>_. aclInit) no_out (\<lambda>s. s\<lparr>mul_acl_init := True\<rparr>),
      check_step E ''aclrtSetDevice'' (\<lambda>_. aclrtSetDevice (device_of opt)) no_out (\<lambda>s. s\<lparr>mul_device_set := True\<rparr>),
      check_value E ''aclrtGetCurrentContext'' (\<lambda>_. Acl aclrtGetCurrentContext) (\<lambda>out. out \<noteq> nullptr)
        ''aclrtSetDevice did not establish a current context'',
      check_value E ''aclrtGetDevice'' (\<lambda>_. Acl aclrtGetDevice) (\<lambda>out. sint (ucast out :: u32) = device_of opt)
        ''current ACL device differs from requested device'']"

text \<open>The query of the allocation properties, when the driver has it.\<close>

definition query_properties :: "'w env \<Rightarrow> machine \<Rightarrow> multi_options \<Rightarrow> 'w multi prog_step" where
  "query_properties E M opt s =
     (case probe_call E (Hal (sys_dlsym nullptr ''halMemGetAllocationPropertiesFromHandle'')) s of
        (_, query, s1) \<Rightarrow>
          if query = nullptr then Some (None, s1)
          else check_value E ''query allocation properties''
            (\<lambda>s. Hal (halMemGetAllocationPropertiesFromHandle (mul_handles s ! rank_of opt)))
            (\<lambda>out. ucast (drop_bit 32 out) = numa_side_value M \<and>
               (ucast out :: u32) = word_of_int (mo_nodes opt ! rank_of opt))
            ''NUMA allocation properties mismatch'' s1)"

definition mul_allocate :: "'w env \<Rightarrow> machine \<Rightarrow> multi_options \<Rightarrow> 'w multi prog_step list" where
  "mul_allocate E M opt =
     [check_step E ''reserve independent local VA''
        (\<lambda>s. halMemAddressReserve (mul_base s) (reserve_bytes (total_bytes opt)) 0 nullptr 0) (\<lambda>out s. s\<lparr>mul_base := out\<rparr>) id,
      throw_unless (\<lambda>s. mul_base s \<noteq> nullptr \<and> mul_base s mod va_alignment = 0) ''local base is null or not 1 GiB aligned'',
      check_step E ''halMemCreate HOST_NUMA''
        (\<lambda>s. halMemCreate (mul_handles s ! rank_of opt) (mo_bytes opt)
           (mem_prop MEM_HOST_NUMA_SIDE (word_of_int (mo_nodes opt ! rank_of opt)) MEM_HUGE_PAGE_TYPE MEM_DDR_TYPE) 0)
        (\<lambda>out s. s\<lparr>mul_handles := (mul_handles s)[rank_of opt := out]\<rparr>) id,
      query_properties E M opt]"

definition mul_export :: "'w env \<Rightarrow> multi_options \<Rightarrow> 'w multi prog_step list" where
  "mul_export E opt =
     [check_step E ''export NUMA allocation''
        (\<lambda>s. halMemExportToShareableHandle (mul_handles s ! rank_of opt) 0 (mul_token s)) (\<lambda>out s. s\<lparr>mul_token := out\<rparr>) id,
      check_step E ''enable same-server sharing'' (\<lambda>s. halMemShareHandleSetAttribute (mul_token s)) no_out id,
      (\<lambda>s. send_word E (mo_fd opt) (mul_token s) s)]"

text \<open>One round of the loop that maps the slices.\<close>

definition mul_map_slice :: "'w env \<Rightarrow> multi_options \<Rightarrow> nat \<Rightarrow> 'w multi prog_step list" where
  "mul_map_slice E opt owner =
     [receive_into E (mo_fd opt) (\<lambda>v s. s\<lparr>mul_token := v\<rparr>),
      when_step (owner \<noteq> rank_of opt)
        [check_step E ''import peer as DEVICE''
           (\<lambda>s. halMemImportFromShareableHandle (mul_token s) (mul_handles s ! owner) (word_of_int (device_of opt)))
           (\<lambda>out s. s\<lparr>mul_handles := (mul_handles s)[owner := out]\<rparr>) id],
      check_step E ''map contiguous slice''
        (\<lambda>s. halMemMap (slice_va (mul_base s) (mo_bytes opt) owner) (mo_bytes opt) 0 (mul_handles s ! owner) 0) no_out
        (\<lambda>s. s\<lparr>mul_mapped := (mul_mapped s)[owner := True]\<rparr>)]"

abbreviation own_host :: "multi_options \<Rightarrow> 'w multi \<Rightarrow> u64" where
  "own_host opt s \<equiv> slice_va (mul_base s) (mo_bytes opt) (rank_of opt)"

definition mul_aio :: "'w env \<Rightarrow> multi_options \<Rightarrow> 'w multi prog_step" where
  "mul_aio E opt s =
     (case buffered_aio E (own_host opt s) (mo_bytes opt) (200 + of_nat (rank_of opt)) (mo_io_dir opt) (probe.truncate s) of
        None \<Rightarrow> None
      | Some (e, t) \<Rightarrow> Some (e, s\<lparr>sys_of := sys_of t, cleanup_failed := cleanup_failed t\<rparr>))"

definition mul_host_test :: "'w env \<Rightarrow> multi_options \<Rightarrow> 'w multi prog_step list" where
  "mul_host_test E opt =
     [assign (\<lambda>s. fill E (own_host opt s) (mo_bytes opt) (100 + of_nat (rank_of opt)) s),
      (\<lambda>s. verify E (own_host opt s) (mo_bytes opt) (100 + of_nat (rank_of opt)) ''CPU_OWN_HOST'' s),
      mul_aio E opt]"

text \<open>\<open>copy(dst, src, kind, purpose)\<close>\<close>

definition mul_copy ::
  "'w env \<Rightarrow> multi_options \<Rightarrow> string \<Rightarrow> ('w multi \<Rightarrow> u64) \<Rightarrow> ('w multi \<Rightarrow> u64) \<Rightarrow> copy_kind \<Rightarrow> 'w multi prog_step list" where
  "mul_copy E opt purpose dst src kind =
     [check_step E purpose
        (\<lambda>s. Acl (aclrtMemcpyAsync (dst s) (mo_bytes opt) (src s) (mo_bytes opt) kind (acl_stream (mul_acl s)))) no_out id,
      check_step E ''sync block copy'' (\<lambda>s. Acl (aclrtSynchronizeStream (acl_stream (mul_acl s)))) no_out id]"

definition round_seed :: "multi_options \<Rightarrow> nat \<Rightarrow> nat \<Rightarrow> u64" where
  "round_seed opt round owner = 300 + of_nat round * of_nat (mo_count opt) + of_nat owner"

definition reading_phase :: "nat \<Rightarrow> nat \<Rightarrow> string" where
  "reading_phase round owner =
     ''OWNER_WRITE_READER_VERIFY round='' @ nat_to_string round @ '' owner='' @ nat_to_string owner"

definition mul_read :: "'w env \<Rightarrow> multi_options \<Rightarrow> nat \<Rightarrow> nat \<Rightarrow> 'w multi prog_step list" where
  "mul_read E opt round owner =
     [check_step E ''clear HBM before shared read''
        (\<lambda>s. Acl (aclrtMemset (acl_device (mul_acl s)) (mo_bytes opt) 0 (mo_bytes opt))) no_out id] @
     mul_copy E opt ''read owner-written shared block into HBM'' (\<lambda>s. acl_device (mul_acl s))
       (\<lambda>s. slice_va (mul_base s) (mo_bytes opt) owner) (if owner = rank_of opt then COPY_H2D else COPY_D2D) @
     [assign (\<lambda>s. plain_call E (Cpu (c_memset (mul_staging s) 0 (mo_bytes opt))) s)] @
     mul_copy E opt ''HBM readback for CPU verification'' mul_staging (\<lambda>s. acl_device (mul_acl s)) COPY_D2H @
     [\<lambda>s. verify E (mul_staging s) (mo_bytes opt) (round_seed opt round owner) (reading_phase round owner) s]"

definition mul_round :: "'w env \<Rightarrow> multi_options \<Rightarrow> nat \<Rightarrow> 'w multi prog_step list" where
  "mul_round E opt round =
     [assign (\<lambda>s. fill E (own_host opt s) (mo_bytes opt) (round_seed opt round (rank_of opt)) s),
      (\<lambda>s. verify E (own_host opt s) (mo_bytes opt) (round_seed opt round (rank_of opt)) ''OWNER_CPU_DATA'' s)] @
     barrier E (mo_fd opt) @
     concat (map (mul_read E opt round) [0..<mo_count opt]) @
     [\<lambda>s. verify E (own_host opt s) (mo_bytes opt) (round_seed opt round (rank_of opt)) ''OWNER_DATA_UNCHANGED_AFTER_READS'' s] @
     barrier E (mo_fd opt)"

definition mul_hbm_setup :: "'w env \<Rightarrow> multi_options \<Rightarrow> 'w multi prog_step list" where
  "mul_hbm_setup E opt =
     [check_step E ''allocate one-block local NPU HBM'' (\<lambda>_. Acl (aclrtMalloc (mo_bytes opt)))
        (\<lambda>out. mul_acl_update (\<lambda>a. a\<lparr>acl_device := out\<rparr>)) id,
      check_value E ''query local HBM device'' (\<lambda>s. Hal (drvMemGetAttribute (acl_device (mul_acl s))))
        (\<lambda>out. (ucast out :: u32) = word_of_int (device_of opt)) ''ACL/HAL device ID mismatch'',
      check_step E ''aclrtCreateStream'' (\<lambda>_. Acl (aclrt_create Acl_stream))
        (\<lambda>out. mul_acl_update (\<lambda>a. a\<lparr>acl_stream := out\<rparr>)) id,
      check_step E ''std::bad_alloc'' (\<lambda>_. Cpu (vector_new (mo_bytes opt div 8)))
        (\<lambda>out s. s\<lparr>mul_staging := out\<rparr>) (\<lambda>s. s\<lparr>mul_has_staging := True\<rparr>)]"

text \<open>Leaving the block destroys the vector and then \<open>acl\<close>.\<close>

definition mul_hbm_end :: "'w env \<Rightarrow> 'w multi \<Rightarrow> 'w multi" where
  "mul_hbm_end E s =
     (let s1 = if mul_has_staging s then plain_call E (Cpu (vector_delete (mul_staging s))) s else s
      in (AclResources_destroy E (mul_acl s) s1)\<lparr>mul_acl := AclResources_new, mul_has_staging := False\<rparr>)"

definition mul_hbm :: "'w env \<Rightarrow> multi_options \<Rightarrow> 'w multi prog_step" where
  "mul_hbm E opt s =
     (case run_steps (mul_hbm_setup E opt @ concat (map (mul_round E opt) [0..<read_rounds])) s of None \<Rightarrow> None
      | Some (e, s1) \<Rightarrow> Some (e, mul_hbm_end E s1))"

definition mul_unmap_slice :: "'w env \<Rightarrow> multi_options \<Rightarrow> nat \<Rightarrow> 'w multi prog_step" where
  "mul_unmap_slice E opt i =
     check_step E ''unmap slice'' (\<lambda>s. halMemUnmap (slice_va (mul_base s) (mo_bytes opt) i)) no_out
       (\<lambda>s. s\<lparr>mul_mapped := (mul_mapped s)[i := False]\<rparr>)"

definition mul_body :: "'w env \<Rightarrow> machine \<Rightarrow> multi_options \<Rightarrow> 'w multi prog_step list" where
  "mul_body E M opt =
     mul_open E M opt @ mul_allocate E M opt @ mul_export E opt @
     concat (map (mul_map_slice E opt) [0..<mo_count opt]) @ barrier E (mo_fd opt) @
     mul_host_test E opt @ barrier E (mo_fd opt) @
     [mul_hbm E opt] @ barrier E (mo_fd opt) @
     map (mul_unmap_slice E opt) [0..<mo_count opt] @ barrier E (mo_fd opt)"

definition mul_drop_slice :: "'w env \<Rightarrow> u64 \<Rightarrow> nat \<Rightarrow> 'w multi \<Rightarrow> 'w multi" where
  "mul_drop_slice E bytes i s =
     (let s1 = if mul_mapped s ! i then cleanup E (halMemUnmap (slice_va (mul_base s) bytes i)) s else s
      in if mul_handles s ! i \<noteq> nullptr then cleanup E (halMemRelease (mul_handles s ! i)) s1 else s1)"

definition mul_finish :: "'w env \<Rightarrow> multi_options \<Rightarrow> 'w multi \<Rightarrow> 'w multi" where
  "mul_finish E opt s =
     (let s1 = fold (mul_drop_slice E (mo_bytes opt)) [0..<mo_count opt] s;
          s2 = if mul_base s \<noteq> nullptr then cleanup E (halMemAddressFree (mul_base s)) s1 else s1;
          s3 = if mul_device_set s then cleanup E (aclrtResetDevice (device_of opt)) s2 else s2;
          s4 = if mul_acl_init s then cleanup E aclFinalize s3 else s3
      in plain_call E (Io (sys_close (mo_fd opt))) s4)"

definition mul_worker :: "'w env \<Rightarrow> machine \<Rightarrow> multi_options \<Rightarrow> 'w probe \<Rightarrow> (int \<times> 'w probe) option" where
  "mul_worker E M opt s =
     (case run_steps (mul_body E M opt) (mul_init (mo_count opt) s) of None \<Rightarrow> None
      | Some (e, s1) \<Rightarrow>
          let s2 = mul_finish E opt s1
          in Some (if e \<noteq> None \<or> cleanup_failed s2 then 1 else 0, probe.truncate s2))"

subsection \<open>The coordinator\<close>

record 'w coordinator = "'w probe" +
  cor_sockets :: "int list"
  cor_children :: "int list"
  cor_tokens :: "u64 list"

definition cor_init :: "'w probe \<Rightarrow> 'w coordinator" where
  "cor_init s = probe.extend s (coordinator.fields [] [] [])"

text \<open>
  Starting a worker ends in one of three ways: this process goes on as the coordinator, or an
  exception is thrown in it, or this is the child process and it ends.
\<close>

datatype 's started = Started 's | Broken 's | Child "ended" 's

definition close_all :: "'w env \<Rightarrow> int list \<Rightarrow> ('w, 'z) probe_scheme \<Rightarrow> ('w, 'z) probe_scheme" where
  "close_all E fds s = fold (\<lambda>fd. plain_call E (Io (sys_close fd))) fds s"

definition worker_image ::
  "'w env \<Rightarrow> int \<Rightarrow> int \<Rightarrow> int list \<Rightarrow> string list \<Rightarrow> ('w, 'z) probe_scheme \<Rightarrow> ended \<times> ('w, 'z) probe_scheme" where
  "worker_image E parent other_end others args s =
     (let (pp, _, s1) = probe_call E (Proc sys_getppid) (plain_call E (Proc sys_prctl) s)
      in if pp \<noteq> parent then (Exit 125, s1)
         else let (r, _, s2) = probe_call E (Proc (sys_exec args)) (close_all E (others @ [other_end]) s1)
              in (if r = 0 then Replaced args else Exit 127, s2))"

definition start_worker :: "'w env \<Rightarrow> string list \<Rightarrow> nat \<Rightarrow> 'w coordinator \<Rightarrow> 'w coordinator started" where
  "start_worker E args rank s =
     (let (r, pair, s1) = probe_call E (Proc sys_socketpair) s; a = low_fd pair; b = high_fd pair
      in if r \<noteq> 0 then Broken s1
      else let (ok, s2) = (case set_timeouts E a s1 of (ok1, t) \<Rightarrow> if ok1 then set_timeouts E b t else (False, t))
      in if \<not> ok then Broken (close_all E [a, b] s2)
      else let (parent, _, s3) = probe_call E (Proc sys_getpid) s2;
               (pid, _, s4) = probe_call E (Proc sys_fork) s3
      in if pid < 0 then Broken (close_all E [a, b] s4)
      else if pid = 0
      then case worker_image E parent a (cor_sockets s)
             (args @ [''--rank'', nat_to_string rank, ''--worker-fd'', to_string_int b]) s4 of (x, s5) \<Rightarrow> Child x s5
      else Started ((plain_call E (Io (sys_close b)) s4)
             \<lparr>cor_sockets := cor_sockets s @ [a], cor_children := cor_children s @ [pid]\<rparr>))"

fun start_workers :: "'w env \<Rightarrow> string list \<Rightarrow> nat list \<Rightarrow> 'w coordinator \<Rightarrow> 'w coordinator started" where
  "start_workers E args [] s = Started s"
| "start_workers E args (rank # ranks) s =
     (case start_worker E args rank s of
        Started s1 \<Rightarrow> start_workers E args ranks s1
      | Broken s1 \<Rightarrow> Broken s1
      | Child x s1 \<Rightarrow> Child x s1)"

text \<open>The exchange of the tokens and the barriers, over the sockets of the workers.\<close>

definition collect_tokens :: "'w env \<Rightarrow> int list \<Rightarrow> 'w coordinator prog_step list" where
  "collect_tokens E fds = map (\<lambda>fd. receive_into E fd (\<lambda>v s. s\<lparr>cor_tokens := cor_tokens s @ [v]\<rparr>)) fds"

definition send_tokens :: "'w env \<Rightarrow> int list \<Rightarrow> 'w coordinator prog_step" where
  "send_tokens E fds s = run_steps (concat (map (\<lambda>fd. map (send_word E fd) (cor_tokens s)) fds)) s"

definition barriers :: nat where
  "barriers = 2 * read_rounds + 4"

definition barrier_phase :: "'w env \<Rightarrow> int list \<Rightarrow> 'w coordinator prog_step list" where
  "barrier_phase E fds =
     map (\<lambda>fd. check_receive E fd (\<lambda>v. v = 0) ''worker barrier arrived'') fds @ map (\<lambda>fd. send_word E fd 0) fds"

definition coordinate :: "'w env \<Rightarrow> 'w coordinator prog_step" where
  "coordinate E s =
     (let fds = cor_sockets s
      in run_steps (collect_tokens E fds @ [send_tokens E fds] @ concat (replicate barriers (barrier_phase E fds))) s)"

text \<open>\<open>WIFEXITED(status) && !WEXITSTATUS(status)\<close>\<close>

definition exited_well :: "u64 \<Rightarrow> bool" where
  "exited_well status \<longleftrightarrow> status AND 0x7f = 0 \<and> drop_bit 8 status AND 0xff = 0"

fun wait_children :: "'w env \<Rightarrow> int list \<Rightarrow> bool \<Rightarrow> ('w, 'z) probe_scheme \<Rightarrow> (bool \<times> ('w, 'z) probe_scheme) option" where
  "wait_children E [] failed s = Some (failed, s)"
| "wait_children E (child # children) failed s =
     (case wait_child E child s of None \<Rightarrow> None
      | Some (ret, status, s1) \<Rightarrow> wait_children E children (failed \<or> ret < 0 \<or> \<not> exited_well status) s1)"

text \<open>The handler of the exceptions.\<close>

definition abandon :: "'w env \<Rightarrow> 'w coordinator \<Rightarrow> (int \<times> 'w coordinator) option" where
  "abandon E s =
     (let s1 = fold (\<lambda>pid. plain_call E (Proc (sys_kill pid))) (cor_children s) (close_all E (cor_sockets s) s)
      in map_option (\<lambda>(_, s2). (if cor_children s = [] then 2 else 1, s2)) (wait_children E (cor_children s) False s1))"

definition supervise :: "'w env \<Rightarrow> 'w coordinator \<Rightarrow> (int \<times> 'w coordinator) option" where
  "supervise E s =
     (case coordinate E s of None \<Rightarrow> None
      | Some (Some _, s1) \<Rightarrow> abandon E s1
      | Some (None, s1) \<Rightarrow>
          map_option (\<lambda>(failed, s2). (if failed then 1 else 0, s2))
            (wait_children E (cor_children s1) False (close_all E (cor_sockets s1) s1)))"

definition run_coordinator :: "'w env \<Rightarrow> string list \<Rightarrow> nat \<Rightarrow> 'w probe \<Rightarrow> (ended \<times> 'w probe) option" where
  "run_coordinator E args n s =
     (case start_workers E args [0..<n] (cor_init s) of
        Child x s1 \<Rightarrow> Some (x, probe.truncate s1)
      | Broken s1 \<Rightarrow> map_option (\<lambda>(code, s2). (Exit code, probe.truncate s2)) (abandon E s1)
      | Started s1 \<Rightarrow> map_option (\<lambda>(code, s2). (Exit code, probe.truncate s2)) (supervise E s1))"

subsection \<open>Main\<close>

datatype multi_parsed = Multi_Help | Multi_Fail string | Multi_Ok multi_options

definition multi_set :: "string \<Rightarrow> string \<Rightarrow> multi_options \<Rightarrow> string + multi_options" where
  "multi_set key v opt =
     (if key = ''--devices'' then map_sum id (\<lambda>ns. opt\<lparr>mo_devices := ns\<rparr>) (number_list v)
      else if key = ''--numa-nodes'' then map_sum id (\<lambda>ns. opt\<lparr>mo_nodes := ns\<rparr>) (number_list v)
      else if key = ''--io-dir'' then Inr (opt\<lparr>mo_io_dir := v\<rparr>)
      else if key = ''--size-mib''
      then case number v of Inl e \<Rightarrow> Inl e
        | Inr mib \<Rightarrow> if mib = 0 \<or> mib mod 2 \<noteq> 0 \<or> mib > SIZE_MAX div (1024 * 1024) then Inl ''invalid size MiB''
                    else Inr (opt\<lparr>mo_bytes := mib * 1024 * 1024\<rparr>)
      else if key = ''--rank'' \<or> key = ''--worker-fd''
      then case number v of Inl e \<Rightarrow> Inl e
        | Inr n \<Rightarrow> if n > INT_MAX then Inl ''worker integer out of range''
                  else Inr (if key = ''--rank'' then opt\<lparr>mo_rank := uint n\<rparr> else opt\<lparr>mo_fd := uint n\<rparr>)
      else Inl (''unknown option: '' @ key))"

fun multi_scan :: "string list \<Rightarrow> multi_options \<Rightarrow> multi_parsed" where
  "multi_scan [] opt = Multi_Ok opt"
| "multi_scan [key] opt = (if key = ''--help'' then Multi_Help else Multi_Fail ''missing option value'')"
| "multi_scan (key # v # args) opt =
     (if key = ''--help'' then Multi_Help
      else case multi_set key v opt of Inl e \<Rightarrow> Multi_Fail e | Inr opt' \<Rightarrow> multi_scan args opt')"

definition multi_bad :: "multi_options \<Rightarrow> bool" where
  "multi_bad opt \<longleftrightarrow>
     mo_count opt = 0 \<or> length (mo_nodes opt) \<noteq> mo_count opt \<or> mo_count opt > 64 \<or>
     mo_bytes opt > SIZE_MAX div of_nat (mo_count opt) \<or> total_bytes opt > SIZE_MAX - (va_alignment - 1) \<or>
     \<not> distinct (mo_devices opt)"

definition multi_main :: "'w env \<Rightarrow> machine \<Rightarrow> string list \<Rightarrow> 'w probe \<Rightarrow> (ended \<times> 'w probe) option" where
  "multi_main E M args s =
     (case multi_scan args multi_defaults of
        Multi_Help \<Rightarrow> Some (Exit 0, s)
      | Multi_Fail _ \<Rightarrow> Some (Exit 2, s)
      | Multi_Ok opt \<Rightarrow>
          if multi_bad opt then Some (Exit 2, s)
          else let (_, p, s1) = probe_call E (Proc (sys_getenv ''ASCEND_RT_VISIBLE_DEVICES'')) s
          in if p \<noteq> nullptr then Some (Exit 2, s1)
          else if mo_rank opt \<ge> 0 \<or> mo_fd opt \<ge> 0
          then if mo_rank opt < 0 \<or> nat (mo_rank opt) \<ge> mo_count opt \<or> mo_fd opt < 0 then Some (Exit 2, s1)
               else map_option (\<lambda>(code, t). (Exit code, t)) (mul_worker E M opt s1)
          else run_coordinator E args (mo_count opt) s1)"

end
