(* ===== verification/Multi_Share_Facts.thy ===== *)
theory Multi_Share_Facts
  imports Multi_Share Host_Share_Facts
begin

unbundle bit_operations_syntax

text \<open>
  What the statements of \<open>Multi_Share\<close> do to the trace and to the variables of a worker: which calls
  they make, how many words they send and receive, and what they leave alone.
\<close>

lemma trace_of_multi [simp]:
  "trace_of (s\<lparr>mul_acl_init := a\<rparr>) = trace_of s" "trace_of (s\<lparr>mul_device_set := b\<rparr>) = trace_of s"
  "trace_of (s\<lparr>mul_base := c\<rparr>) = trace_of s" "trace_of (s\<lparr>mul_handles := d\<rparr>) = trace_of s"
  "trace_of (s\<lparr>mul_mapped := e\<rparr>) = trace_of s" "trace_of (s\<lparr>mul_token := f\<rparr>) = trace_of s"
  "trace_of (s\<lparr>mul_acl := g\<rparr>) = trace_of s" "trace_of (s\<lparr>mul_has_staging := h\<rparr>) = trace_of s"
  "trace_of (s\<lparr>mul_staging := i\<rparr>) = trace_of s"
  by (simp_all add: trace_of_def)

subsection \<open>Calls whose result is looked at\<close>

lemma check_value_moves: "check_value E what c ok what2 s = Some (e, s') \<Longrightarrow> moves (\<lambda>d. d = c s) s s'"
proof -
  assume f: "check_value E what c ok what2 s = Some (e, s')"
  obtain r x s1 where p: "probe_call E (c s) s = (r, x, s1)"
    by (rule prod_cases3)
  with f show ?thesis
    using moves_call [OF _ p, of "\<lambda>d. d = c s"] by (auto simp: check_value_def)
qed

lemma check_value_effects [step_effects]:
  "(\<And>s. C (c s)) \<Longrightarrow> appends C (check_value E what c ok what2)"
  "(\<And>s t. get (s\<lparr>sys_of := t\<rparr>) = get s) \<Longrightarrow> leaves get (check_value E what c ok what2)"
proof -
  assume C: "\<And>s. C (c s)"
  show "appends C (check_value E what c ok what2)"
    by (rule appends_moves, rule moves_mono [OF check_value_moves]) (assumption, use C in blast)
next
  assume g: "\<And>s t. get (s\<lparr>sys_of := t\<rparr>) = get s"
  show "leaves get (check_value E what c ok what2)"
  proof (rule leavesI)
    fix s e s'
    assume "check_value E what c ok what2 s = Some (e, s')"
    from moves_same [OF check_value_moves [OF this]] g show "get s' = get s" by metis
  qed
qed

lemma select_cpus_moves: "select_cpus E cpus selected s = (r, s') \<Longrightarrow> moves is_proc s s'"
proof (induction cpus arbitrary: selected s)
  case Nil
  then show ?case by simp
next
  case (Cons cpu cpus)
  obtain o1 bits s1 where c: "probe_call E (Proc (affinity_word (nat cpu div 64))) s = (o1, bits, s1)"
    by (rule prod_cases3)
  have "moves is_proc s s1"
    by (rule moves_call [OF _ c]) simp
  moreover have "moves is_proc s1 s'"
    by (rule Cons.IH) (use Cons.prems c in simp)
  ultimately show ?case
    by (rule moves_trans)
qed

lemma select_parts_moves: "select_parts E parts selected s = (r, s') \<Longrightarrow> moves is_proc s s'"
proof (induction parts arbitrary: selected s)
  case Nil
  then show ?case by simp
next
  case (Cons part parts)
  show ?case
  proof (cases "cpu_range part")
    case (Inl e)
    with Cons.prems show ?thesis by simp
  next
    case (Inr ab)
    obtain a b where ab: "ab = (a, b)" by (cases ab)
    obtain sel s1 where s1: "select_cpus E [a..b] selected s = (sel, s1)"
      by (cases "select_cpus E [a..b] selected s")
    have "moves is_proc s1 s'"
      by (rule Cons.IH) (use Cons.prems Inr ab s1 in simp)
    with select_cpus_moves [OF s1] show ?thesis
      by (rule moves_trans)
  qed
qed

lemma check_proc_moves: "check_step E what (\<lambda>_. Proc c) no_out id s = Some (e, s') \<Longrightarrow> moves is_proc s s'"
proof -
  assume f: "check_step E what (\<lambda>_. Proc c) no_out id s = Some (e, s')"
  obtain r x s1 where p: "probe_call E (Proc c) s = (r, x, s1)"
    by (rule prod_cases3)
  have "moves is_proc s s1"
    by (rule moves_call [OF _ p]) simp
  with f p show ?thesis
    by (auto simp: check_step_def split: if_splits)
qed

lemma bind_cpu_moves:
  assumes "bind_cpu E M node s = Some (e, s')"
  shows "moves is_proc s s'"
proof (cases "case node_cpulist M node of None \<Rightarrow> None | Some content \<Rightarrow> map_option fst (read_token content)")
  case None
  with assms show ?thesis
    by (auto simp: bind_cpu_def split: option.splits)
next
  case (Some cpus)
  then obtain content rest where c: "node_cpulist M node = Some content" "read_token content = Some (cpus, rest)"
    by (auto split: option.splits)
  have "\<exists>x. check_step E ''sched_getaffinity'' (\<lambda>_. Proc sys_getaffinity) no_out id s = Some x"
    by (simp add: check_step_def split: prod.splits)
  then obtain e1 s1 where a: "check_step E ''sched_getaffinity'' (\<lambda>_. Proc sys_getaffinity) no_out id s = Some (e1, s1)"
    by (metis surj_pair)
  note m1 = check_proc_moves [OF a]
  obtain r s2 where p: "select_parts E (getline_parts cpus) {} s1 = (r, s2)"
    by (cases "select_parts E (getline_parts cpus) {} s1")
  note m2 = select_parts_moves [OF p]
  have m3: "moves is_proc s2 s'" if "bind_selected E selected s2 = Some (e, s')" for selected
    using that by (auto simp: bind_selected_def split: if_splits intro: check_proc_moves)
  show ?thesis
    using assms c a p m1 m2 m3
    by (auto simp: bind_cpu_def split: option.splits sum.splits intro: moves_trans)
qed

lemma bind_cpu_effects:
  "(\<And>c. is_proc c \<Longrightarrow> C c) \<Longrightarrow> appends C (bind_cpu E M node)"
  "(\<And>s t. get (s\<lparr>sys_of := t\<rparr>) = get s) \<Longrightarrow> leaves get (bind_cpu E M node)"
proof -
  assume "\<And>c. is_proc c \<Longrightarrow> C c"
  then show "appends C (bind_cpu E M node)"
    using moves_mono [OF bind_cpu_moves] by (blast intro: appends_moves)
next
  assume g: "\<And>s t. get (s\<lparr>sys_of := t\<rparr>) = get s"
  show "leaves get (bind_cpu E M node)"
    by (rule leaves_moves [OF bind_cpu_moves g])
qed

definition is_query :: "native \<Rightarrow> bool" where
  "is_query c \<longleftrightarrow> (case c of Hal (sys_dlsym _ _) \<Rightarrow> True | Hal (halMemGetAllocationPropertiesFromHandle _) \<Rightarrow> True | _ \<Rightarrow> False)"

lemma query_properties_moves:
  assumes "query_properties E M opt s = Some (e, s')"
  shows "moves is_query s s'"
proof -
  let ?c = "Hal (sys_dlsym nullptr ''halMemGetAllocationPropertiesFromHandle'')"
  obtain r q s1 where c: "probe_call E ?c s = (r, q, s1)"
    by (rule prod_cases3)
  have m: "moves is_query s s1"
    by (rule moves_call [OF _ c]) (simp add: is_query_def)
  show ?thesis
  proof (cases "q = nullptr")
    case True
    with assms c m show ?thesis
      by (simp add: query_properties_def)
  next
    case False
    with assms c have v: "check_value E ''query allocation properties''
        (\<lambda>s. Hal (halMemGetAllocationPropertiesFromHandle (mul_handles s ! rank_of opt)))
        (\<lambda>out. ucast (drop_bit 32 out) = numa_side_value M \<and> (ucast out :: u32) = word_of_int (mo_nodes opt ! rank_of opt))
        ''NUMA allocation properties mismatch'' s1 = Some (e, s')"
      by (simp add: query_properties_def)
    have "moves is_query s1 s'"
      by (rule moves_mono [OF check_value_moves [OF v]]) (simp add: is_query_def)
    with m show ?thesis
      by (rule moves_trans)
  qed
qed

lemma query_effects:
  "(\<And>c. is_query c \<Longrightarrow> C c) \<Longrightarrow> appends C (query_properties E M opt)"
  "(\<And>s t. get (s\<lparr>sys_of := t\<rparr>) = get s) \<Longrightarrow> leaves get (query_properties E M opt)"
proof -
  assume "\<And>c. is_query c \<Longrightarrow> C c"
  then show "appends C (query_properties E M opt)"
    using moves_mono [OF query_properties_moves] by (blast intro: appends_moves)
next
  assume g: "\<And>s t. get (s\<lparr>sys_of := t\<rparr>) = get s"
  show "leaves get (query_properties E M opt)"
    by (rule leaves_moves [OF query_properties_moves g])
qed

subsection \<open>\<open>buffered_aio\<close>\<close>

lemma bai_body_appends: "\<forall>f \<in> set (bai_body E p bytes seed). appends is_aio f"
  by (auto simp: bai_body_def aio_statements intro!: appends_check aio_appends calls_effects(1))

lemma bai_io_cases:
  assumes "bai_io E p bytes seed s = Some (e, s')"
  obtains (thrown) s1 where "run_steps (bai_body E p bytes seed) s = Some (e, s1)" "e \<noteq> None"
      "s' = cleanup E (Io (sys_close (iot_fd s1))) (if iot_ctx s1 \<noteq> 0 then cleanup E (Io (sys_io_destroy (iot_ctx s1))) s1 else s1)"
  | (passed) s1 where "run_steps (bai_body E p bytes seed) s = Some (None, s1)" "e = None"
      "s' = cleanup E (Io (sys_close (iot_fd s1))) (cleanup E (Io (sys_io_destroy (iot_ctx s1))) s1)"
  using assms by (auto simp: bai_io_def Let_def split: option.splits)

lemma bai_io_grows:
  assumes "bai_io E p bytes seed s = Some (e, s')"
  shows "grows is_aio s s'"
proof -
  have run: "grows is_aio s s1" if "run_steps (bai_body E p bytes seed) s = Some (x, s1)" for x s1
    using appendsD [OF appends_run [OF bai_body_appends] that] unfolding grows_def by metis
  from assms show ?thesis
  proof (cases rule: bai_io_cases)
    case (thrown s1)
    show ?thesis
      unfolding thrown(3) by (rule grows_trans [OF run [OF thrown(1)] grows_trans [OF grows_cleanup_if grows_cleanup]]) simp_all
  next
    case (passed s1)
    show ?thesis
      unfolding passed(3) by (rule grows_trans [OF run [OF passed(1)] grows_trans [OF grows_cleanup grows_cleanup]]) simp_all
  qed
qed

lemma bai_file_cases:
  assumes "bai_file E p bytes seed directory s = Some (e, s')"
  obtains (unopened) pid o1 s2 fd o2 where
      "probe_call E (Proc sys_getpid) (fill E (iot_control s) bytes seed s) = (pid, o1, s2)"
      "probe_call E (Io (sys_open (bai_path directory pid) [''O_CREAT'', ''O_EXCL'', ''O_RDWR''])) s2 = (fd, o2, s')"
      "fd < 0" "e \<noteq> None"
  | (linked) pid o1 s2 fd o2 s3 r o3 s4 where
      "probe_call E (Proc sys_getpid) (fill E (iot_control s) bytes seed s) = (pid, o1, s2)"
      "probe_call E (Io (sys_open (bai_path directory pid) [''O_CREAT'', ''O_EXCL'', ''O_RDWR''])) s2 = (fd, o2, s3)" "0 \<le> fd"
      "probe_call E (Io (sys_unlink (bai_path directory pid))) s3 = (r, o3, s4)" "s' = plain_call E (Io (sys_close fd)) s4" "e \<noteq> None"
  | (used) pid o1 s2 fd o2 s3 o3 s4 where
      "probe_call E (Proc sys_getpid) (fill E (iot_control s) bytes seed s) = (pid, o1, s2)"
      "probe_call E (Io (sys_open (bai_path directory pid) [''O_CREAT'', ''O_EXCL'', ''O_RDWR''])) s2 = (fd, o2, s3)" "0 \<le> fd"
      "probe_call E (Io (sys_unlink (bai_path directory pid))) s3 = (0, o3, s4)"
      "bai_io E p bytes seed (s4\<lparr>iot_fd := fd, iot_ctx := 0\<rparr>) = Some (e, s')"
proof -
  obtain pid o1 s2 where c1: "probe_call E (Proc sys_getpid) (fill E (iot_control s) bytes seed s) = (pid, o1, s2)"
    by (rule prod_cases3)
  obtain fd o2 s3 where c2: "probe_call E (Io (sys_open (bai_path directory pid) [''O_CREAT'', ''O_EXCL'', ''O_RDWR''])) s2 = (fd, o2, s3)"
    by (rule prod_cases3)
  obtain r o3 s4 where c3: "probe_call E (Io (sys_unlink (bai_path directory pid))) s3 = (r, o3, s4)"
    by (rule prod_cases3)
  have v: "(if fd < 0 then Some (Some ''open buffered AIO file'', s3)
      else if r \<noteq> 0 then Some (Some ''unlink AIO file'', plain_call E (Io (sys_close fd)) s4)
      else bai_io E p bytes seed (s4\<lparr>iot_fd := fd, iot_ctx := 0\<rparr>)) = Some (e, s')"
    using assms c1 c2 c3 by (simp add: bai_file_def Let_def split: if_splits)
  consider "fd < 0" | "0 \<le> fd" "r \<noteq> 0" | "0 \<le> fd" "r = 0" by linarith
  then show thesis
  proof cases
    case 1
    with v c1 c2 show thesis by (intro unopened) auto
  next
    case 2
    with v c1 c2 c3 show thesis by (intro linked) auto
  next
    case 3
    with v c1 c2 c3 show thesis by (intro used) auto
  qed
qed

lemma bai_file_grows:
  assumes "bai_file E p bytes seed directory s = Some (e, s')"
  shows "grows is_aio s s'"
  using assms
proof (cases rule: bai_file_cases)
  case (unopened pid o1 s2 fd o2)
  show ?thesis
    by (rule grows_trans [OF grows_fill_aio grows_trans [OF grows_call [OF unopened(1)] grows_call [OF unopened(2)]]]) simp_all
next
  case (linked pid o1 s2 fd o2 s3 r o3 s4)
  show ?thesis
    unfolding linked(5)
    by (rule grows_trans [OF grows_fill_aio grows_trans [OF grows_call [OF linked(1)] grows_trans [OF grows_call [OF linked(2)]
          grows_trans [OF grows_call [OF linked(4)] grows_plain]]]]) simp_all
next
  case (used pid o1 s2 fd o2 s3 o3 s4)
  have "grows is_aio s s4"
    by (rule grows_trans [OF grows_fill_aio grows_trans [OF grows_call [OF used(1)] grows_trans [OF grows_call [OF used(2)]
          grows_call [OF used(4)]]]]) simp_all
  with bai_io_grows [OF used(5)] show ?thesis
    by (auto simp: grows_def trace_of_def)
qed

lemma buffered_aio_cases:
  assumes "buffered_aio E p bytes seed directory s = Some (e, s')"
  obtains (unallocated) r out where "probe_call E (Cpu (vector_new (bytes div 8))) s = (r, out, s')" "r \<noteq> 0" "e \<noteq> None"
  | (allocated) control s1 t where "probe_call E (Cpu (vector_new (bytes div 8))) s = (0, control, s1)"
      "bai_file E p bytes seed directory ((iot_init s1)\<lparr>iot_control := control\<rparr>) = Some (e, t)"
      "s' = probe.truncate (plain_call E (Cpu (vector_delete control)) t)"
proof -
  obtain r out s1 where c: "probe_call E (Cpu (vector_new (bytes div 8))) s = (r, out, s1)"
    by (rule prod_cases3)
  show thesis
  proof (cases "r = 0")
    case False
    with assms c show thesis
      by (intro unallocated) (auto simp: buffered_aio_def)
  next
    case True
    with assms c obtain t where
      "bai_file E p bytes seed directory ((iot_init s1)\<lparr>iot_control := out\<rparr>) = Some (e, t)"
      "s' = probe.truncate (plain_call E (Cpu (vector_delete out)) t)"
      by (auto simp: buffered_aio_def split: option.splits)
    with True c show thesis
      by (intro allocated) simp_all
  qed
qed

lemma buffered_aio_grows:
  assumes "buffered_aio E p bytes seed directory s = Some (e, s')"
  shows "grows is_aio s s'"
  using assms
proof (cases rule: buffered_aio_cases)
  case (unallocated r out)
  show ?thesis
    by (rule grows_call [OF unallocated(1)]) simp
next
  case (allocated control s1 t)
  have "grows is_aio ((iot_init s1)\<lparr>iot_control := control\<rparr>) (plain_call E (Cpu (vector_delete control)) t)"
    by (rule grows_trans [OF bai_file_grows [OF allocated(2)] grows_plain]) simp
  moreover have "grows is_aio s s1"
    by (rule grows_call [OF allocated(1)]) simp
  ultimately show ?thesis
    by (auto simp: grows_def allocated(3) trace_of_def iot_init_def probe.defs io_vars.defs)
qed

text \<open>As a statement of the worker.\<close>

lemma mul_aio_cases:
  assumes "mul_aio E opt s = Some (e, s')"
  obtains t where "buffered_aio E (own_host opt s) (mo_bytes opt) (200 + of_nat (rank_of opt)) (mo_io_dir opt) (probe.truncate s) = Some (e, t)"
    "s' = s\<lparr>sys_of := sys_of t, cleanup_failed := cleanup_failed t\<rparr>"
  using assms by (auto simp: mul_aio_def split: option.splits)

lemma mul_aio_effects:
  "appends is_aio (mul_aio E opt)"
  "(\<And>s t b. get (s\<lparr>sys_of := t, cleanup_failed := b\<rparr>) = get s) \<Longrightarrow> leaves get (mul_aio E opt)"
proof -
  show "appends is_aio (mul_aio E opt)"
  proof (rule appendsI)
    fix s e s'
    assume "mul_aio E opt s = Some (e, s')"
    then show "\<exists>ev. trace_of s' = trace_of s @ ev \<and> list_all is_aio (map fst ev)"
    proof (cases rule: mul_aio_cases)
      case (1 t)
      from buffered_aio_grows [OF 1(1)] show ?thesis
        unfolding 1(2) by (simp add: grows_def) (simp add: trace_of_def)
    qed
  qed
next
  assume g: "\<And>s t b. get (s\<lparr>sys_of := t, cleanup_failed := b\<rparr>) = get s"
  show "leaves get (mul_aio E opt)"
    by (rule leavesI, erule mul_aio_cases) (simp add: g)
qed

end
