(* ===== verification/Multi_Barrier.thy ===== *)
theory Multi_Barrier
  imports Multi_Share_Facts
begin

unbundle bit_operations_syntax

text \<open>
  The barriers of src/multi_share.cpp. A worker sends its last barrier word only after it has unmapped
  every slice; the coordinator passes a barrier on only after it has heard every worker; a worker that
  runs to the end of its body releases handles only after the last barrier. In every execution of all
  processes together, no such worker releases memory that another worker still has mapped.
\<close>

subsection \<open>Words sent and received by lists of statements\<close>

lemma sends_concat:
  "(\<And>x. x \<in> set xs \<Longrightarrow> sends_at_most fd k (f x)) \<Longrightarrow> sends_at_most fd (k * length xs) (concat (map f xs))"
  by (induction xs) (auto simp: sends_at_most_Nil intro: sends_at_most_append)

lemma receives_Nil: "receives_at_least fd 0 []"
  by (simp add: receives_at_least_def)

lemma receives_concat:
  "(\<And>x. x \<in> set xs \<Longrightarrow> receives_at_least fd k (f x)) \<Longrightarrow> receives_at_least fd (k * length xs) (concat (map f xs))"
  by (induction xs) (auto simp: receives_Nil intro: receives_append)

lemma sends_weaken: "sends_at_most fd j fs \<Longrightarrow> j \<le> k \<Longrightarrow> sends_at_most fd k fs"
  unfolding sends_at_most_def by (meson le_trans)

subsection \<open>The calls of a worker's body\<close>

definition mul_call :: "native \<Rightarrow> bool" where
  "mul_call c \<longleftrightarrow> is_io c \<or> is_query c \<or>
     (case c of aclInit \<Rightarrow> True | aclrtSetDevice _ \<Rightarrow> True | halMemAddressReserve _ _ _ _ _ \<Rightarrow> True
      | halMemCreate _ _ _ _ \<Rightarrow> True | halMemImportFromShareableHandle _ _ _ \<Rightarrow> True | halMemMap _ _ _ _ _ \<Rightarrow> True
      | halMemUnmap _ \<Rightarrow> True | halMemExportToShareableHandle _ _ _ \<Rightarrow> True | halMemShareHandleSetAttribute _ \<Rightarrow> True
      | Hal (drvMemGetAttribute _) \<Rightarrow> True | _ \<Rightarrow> False)"

definition is_handle_release :: "native \<Rightarrow> bool" where
  "is_handle_release c \<longleftrightarrow> (case c of halMemRelease _ \<Rightarrow> True | _ \<Rightarrow> False)"

lemma mul_call_simps [simp]:
  "is_io c \<Longrightarrow> mul_call c" "is_query c \<Longrightarrow> mul_call c" "mul_call aclInit" "mul_call (aclrtSetDevice i)"
  "mul_call (halMemAddressReserve p n a q g)" "mul_call (halMemCreate h n pr g)"
  "mul_call (halMemImportFromShareableHandle x h d)" "mul_call (halMemMap p n z h g)" "mul_call (halMemUnmap p)"
  "mul_call (halMemExportToShareableHandle h g x)" "mul_call (halMemShareHandleSetAttribute x)"
  "mul_call (Hal (drvMemGetAttribute p))"
  by (simp_all add: mul_call_def)

lemma is_aio_mul [simp]: "is_aio c \<Longrightarrow> mul_call c"
  by (simp add: is_aio_io)

lemma mul_call_quiet: "mul_call c \<Longrightarrow> no_send c" "mul_call c \<Longrightarrow> \<not> is_handle_release c"
  by (auto simp: mul_call_def is_io_def is_query_def no_send_def is_handle_release_def
      split: native.splits io_call.splits)

lemma socket_no_release: "is_send fd c \<Longrightarrow> \<not> is_handle_release c" "is_recv fd c \<Longrightarrow> \<not> is_handle_release c"
  by (auto simp: is_send_def is_recv_def is_handle_release_def split: native.splits)

lemma is_proc_mul: "is_proc c \<Longrightarrow> mul_call c"
  by (simp add: is_proc_def is_io_def split: native.splits)

lemma memory_appends_mul:
  "appends mul_call (assign (\<lambda>s. fill E (p s) bytes seed s))" "appends mul_call (\<lambda>s. verify E (p s) bytes seed phase s)"
proof -
  show "appends mul_call (assign (\<lambda>s. fill E (p s) bytes seed s))"
    by (rule appends_mono [OF calls_effects(3)]) (simp add: is_io_memory)
  show "appends mul_call (\<lambda>s. verify E (p s) bytes seed phase s)"
    by (rule appends_mono [OF calls_effects(5)]) (simp add: is_io_memory)
qed

lemma mul_hbm_end_grows: "grows mul_call s (mul_hbm_end E s)"
proof -
  let ?s1 = "if mul_has_staging s then plain_call E (Cpu (vector_delete (mul_staging s))) s else s"
  have "grows mul_call s ?s1"
    by (simp add: grows_plain)
  moreover have "grows mul_call ?s1 (AclResources_destroy E (mul_acl s) ?s1)"
    using AclResources_destroy_grows [of ?s1 E "mul_acl s"] unfolding grows_def
    by (metis (no_types, lifting) list.pred_mono_strong mul_call_simps(1))
  ultimately have "grows mul_call s (AclResources_destroy E (mul_acl s) ?s1)"
    by (rule grows_trans)
  then show ?thesis
    by (simp add: mul_hbm_end_def Let_def grows_def trace_of_def)
qed

lemma mul_hbm_cases:
  assumes "mul_hbm E opt s = Some (e, s')"
  obtains s1 where "run_steps (mul_hbm_setup E opt @ concat (map (mul_round E opt) [0..<read_rounds])) s = Some (e, s1)"
    "s' = mul_hbm_end E s1"
  using assms by (auto simp: mul_hbm_def split: option.splits)

lemma mul_local:
  "\<forall>f \<in> set (mul_open E M opt). appends mul_call f"
  "\<forall>f \<in> set (mul_allocate E M opt). appends mul_call f"
  "\<forall>f \<in> set (mul_host_test E opt). appends mul_call f"
  "\<forall>f \<in> set (mul_read E opt round owner). appends mul_call f"
  "\<forall>f \<in> set (mul_hbm_setup E opt). appends mul_call f"
  "appends mul_call (mul_unmap_slice E opt i)"
proof -
  note eff = appends_check check_value_effects(1) bind_cpu_effects(1) [OF is_proc_mul] query_effects(1) throw_effects memory_appends_mul
    mul_aio_effects(1) [THEN appends_mono] calls_effects(1)
  show "\<forall>f \<in> set (mul_open E M opt). appends mul_call f"
    by (auto simp: mul_open_def intro!: eff)
  show "\<forall>f \<in> set (mul_allocate E M opt). appends mul_call f"
    by (auto simp: mul_allocate_def intro!: eff)
  show "\<forall>f \<in> set (mul_host_test E opt). appends mul_call f"
    by (auto simp: mul_host_test_def intro!: eff)
  show "\<forall>f \<in> set (mul_read E opt round owner). appends mul_call f"
    by (auto simp: mul_read_def mul_copy_def intro!: eff)
  show "\<forall>f \<in> set (mul_hbm_setup E opt). appends mul_call f"
    by (auto simp: mul_hbm_setup_def intro!: eff)
  show "appends mul_call (mul_unmap_slice E opt i)"
    by (auto simp: mul_unmap_slice_def intro!: eff)
qed

lemma local_words:
  assumes "\<forall>f \<in> set fs. appends mul_call f"
  shows "sends_at_most fd 0 fs" "receives_at_least fd 0 fs" "\<forall>f \<in> set fs. appends (\<lambda>c. \<not> is_handle_release c) f"
proof -
  have m: "appends C f" if "f \<in> set fs" "\<And>c. mul_call c \<Longrightarrow> C c" for f C
    by (rule appends_mono [of mul_call]) (use assms that in auto)
  show "sends_at_most fd 0 fs"
    by (rule sends_none) (use m mul_call_quiet(1) in auto)
  show "receives_at_least fd 0 fs"
    by (rule receives_none [OF assms])
  show "\<forall>f \<in> set fs. appends (\<lambda>c. \<not> is_handle_release c) f"
    using m mul_call_quiet(2) by auto
qed

subsection \<open>The words of a worker\<close>

lemma barrier_words:
  assumes law: "bounded_transfers E"
  shows "sends_at_most fd 8 (barrier E fd)" "receives_at_least fd 8 (barrier E fd)"
    "\<forall>f \<in> set (barrier E fd). appends (\<lambda>c. \<not> is_handle_release c) f"
proof -
  note s = send_const_effects [OF law] and r = check_receive_effects [OF law]
  have nr: "appends (\<lambda>c. \<not> is_handle_release c) (check_receive E fd ok what)" for ok what
    by (rule appends_mono [OF r(1)]) (rule socket_no_release(2))
  have ns: "appends (\<lambda>c. \<not> is_handle_release c) (send_word E fd 0)"
    by (rule appends_mono [OF s(3)]) (rule socket_no_release(1))
  have no: "appends no_send (check_receive E fd ok what)" for ok what
    by (rule appends_mono [OF r(1)]) simp
  show "sends_at_most fd 8 (barrier E fd)"
    using sends_at_most_append [OF sends_one [OF s(1)] sends_none [of "[check_receive E fd (\<lambda>v. v = 0) ''barrier'']"]]
    by (simp add: barrier_def no)
  show "receives_at_least fd 8 (barrier E fd)"
    using receives_append [OF receives_none [of "[send_word E fd 0]" "is_send fd"] receives_one [OF r(3)]]
    by (simp add: barrier_def s(3))
  show "\<forall>f \<in> set (barrier E fd). appends (\<lambda>c. \<not> is_handle_release c) f"
    by (simp add: barrier_def nr ns)
qed

lemma mul_export_words:
  assumes law: "bounded_transfers E"
  shows "sends_at_most (mo_fd opt) 8 (mul_export E opt)" "receives_at_least (mo_fd opt) 0 (mul_export E opt)"
    "\<forall>f \<in> set (mul_export E opt). appends (\<lambda>c. \<not> is_handle_release c) f"
proof -
  note s = send_word_effects [OF law]
  let ?send = "\<lambda>s. send_word E (mo_fd opt) (mul_token s) s"
  obtain fs where e: "mul_export E opt = fs @ [?send]" and fs: "\<forall>f \<in> set fs. appends mul_call f"
  proof
    show "mul_export E opt = butlast (mul_export E opt) @ [?send]"
      by (simp add: mul_export_def)
    show "\<forall>f \<in> set (butlast (mul_export E opt)). appends mul_call f"
      by (auto simp: mul_export_def intro!: appends_check)
  qed
  have nr: "appends (\<lambda>c. \<not> is_handle_release c) ?send"
    by (rule appends_mono [OF s(3)]) (rule socket_no_release(1))
  show "sends_at_most (mo_fd opt) 8 (mul_export E opt)"
    using sends_at_most_append [OF local_words(1) [OF fs] sends_one [OF s(1)]] by (simp add: e)
  show "receives_at_least (mo_fd opt) 0 (mul_export E opt)"
    using receives_append [OF local_words(2) [OF fs] receives_none [of "[?send]" "is_send (mo_fd opt)"]] by (simp add: e s(3))
  show "\<forall>f \<in> set (mul_export E opt). appends (\<lambda>c. \<not> is_handle_release c) f"
    using local_words(3) [OF fs] nr by (auto simp: e)
qed

lemma mul_map_slice_words:
  assumes law: "bounded_transfers E"
  shows "sends_at_most (mo_fd opt) 0 (mul_map_slice E opt owner)" "receives_at_least (mo_fd opt) 8 (mul_map_slice E opt owner)"
    "\<forall>f \<in> set (mul_map_slice E opt owner). appends (\<lambda>c. \<not> is_handle_release c) f"
proof -
  let ?recv = "receive_into E (mo_fd opt) (\<lambda>v s. s\<lparr>mul_token := v\<rparr>) :: 'a multi prog_step"
  have r: "appends (is_recv (mo_fd opt)) ?recv" "receives_word (mo_fd opt) ?recv"
    by (rule receive_into_effects [OF law]; simp)+
  obtain fs where e: "mul_map_slice E opt owner = ?recv # fs" and fs: "\<forall>f \<in> set fs. appends mul_call f"
  proof
    show "mul_map_slice E opt owner = ?recv # tl (mul_map_slice E opt owner)"
      by (simp add: mul_map_slice_def)
    show "\<forall>f \<in> set (tl (mul_map_slice E opt owner)). appends mul_call f"
      by (auto simp: mul_map_slice_def intro!: appends_check appends_when)
  qed
  have no: "appends no_send ?recv" "appends (\<lambda>c. \<not> is_handle_release c) ?recv"
    by (rule appends_mono [OF r(1)], simp add: socket_no_release(2))+
  show "sends_at_most (mo_fd opt) 0 (mul_map_slice E opt owner)"
    using sends_at_most_append [OF sends_none [of "[?recv]"] local_words(1) [OF fs]] no(1) by (simp add: e)
  show "receives_at_least (mo_fd opt) 8 (mul_map_slice E opt owner)"
    using receives_append [OF receives_one [OF r(2)] local_words(2) [OF fs]] by (simp add: e)
  show "\<forall>f \<in> set (mul_map_slice E opt owner). appends (\<lambda>c. \<not> is_handle_release c) f"
    using local_words(3) [OF fs] no(2) by (auto simp: e)
qed

lemma mul_round_words:
  assumes law: "bounded_transfers E"
  shows "sends_at_most (mo_fd opt) 16 (mul_round E opt round)" "receives_at_least (mo_fd opt) 16 (mul_round E opt round)"
    "\<forall>f \<in> set (mul_round E opt round). appends (\<lambda>c. \<not> is_handle_release c) f"
proof -
  note b = barrier_words [OF law, where fd = "mo_fd opt"]
  let ?start = "take 2 (mul_round E opt round)"
  let ?reads = "concat (map (mul_read E opt round) [0..<mo_count opt])"
  let ?check = "[\<lambda>s. verify E (own_host opt s) (mo_bytes opt) (round_seed opt round (rank_of opt)) ''OWNER_DATA_UNCHANGED_AFTER_READS'' s]"
  have e: "mul_round E opt round = ?start @ barrier E (mo_fd opt) @ ?reads @ ?check @ barrier E (mo_fd opt)"
    by (simp add: mul_round_def)
  have start: "\<forall>f \<in> set ?start. appends mul_call f"
    using memory_appends_mul by (auto simp: mul_round_def)
  have reads: "\<forall>f \<in> set (?reads @ ?check). appends mul_call f"
    by (auto intro: mul_local(4) [THEN bspec] memory_appends_mul(2))
  note start = local_words [OF start] and reads = local_words [OF reads]
  have "sends_at_most (mo_fd opt) (0 + (8 + (0 + 8))) (?start @ barrier E (mo_fd opt) @ (?reads @ ?check) @ barrier E (mo_fd opt))"
    by (rule sends_at_most_append b start reads)+
  then show "sends_at_most (mo_fd opt) 16 (mul_round E opt round)"
    by (subst e) simp
  have "receives_at_least (mo_fd opt) (0 + (8 + (0 + 8))) (?start @ barrier E (mo_fd opt) @ (?reads @ ?check) @ barrier E (mo_fd opt))"
    by (rule receives_append b start reads)+
  then show "receives_at_least (mo_fd opt) 16 (mul_round E opt round)"
    by (subst e) simp
  show "\<forall>f \<in> set (mul_round E opt round). appends (\<lambda>c. \<not> is_handle_release c) f"
    using start(3) reads(3) b(3) by (subst e) auto
qed

lemma mul_hbm_words:
  assumes law: "bounded_transfers E"
  shows "sends_at_most (mo_fd opt) 32 [mul_hbm E opt]" "receives_at_least (mo_fd opt) 32 [mul_hbm E opt]"
    "appends (\<lambda>c. \<not> is_handle_release c) (mul_hbm E opt)"
proof -
  let ?fd = "mo_fd opt"
  let ?rounds = "concat (map (mul_round E opt) [0..<read_rounds])"
  note su = local_words [OF mul_local(5) [where E = E and opt = opt]]
  note r = mul_round_words [OF law, where opt = opt]
  have s: "sends_at_most ?fd 32 (mul_hbm_setup E opt @ ?rounds)"
    using sends_at_most_append [OF su(1) sends_concat [of "[0..<read_rounds]", OF r(1)]] by (simp add: read_rounds_def)
  have v: "receives_at_least ?fd 32 (mul_hbm_setup E opt @ ?rounds)"
    using receives_append [OF su(2) receives_concat [of "[0..<read_rounds]", OF r(2)]] by (simp add: read_rounds_def)
  have q: "\<forall>f \<in> set (mul_hbm_setup E opt @ ?rounds). appends (\<lambda>c. \<not> is_handle_release c) f"
    using su(3) r(3) by auto
  have tail: "\<exists>ev. trace_of (mul_hbm_end E u) = trace_of u @ ev \<and> list_all mul_call (map fst ev)" for u
    using mul_hbm_end_grows [of u E] by (simp add: grows_def)
  show "sends_at_most ?fd 32 [mul_hbm E opt]"
    unfolding sends_at_most_def
  proof (intro allI impI)
    fix u e u'
    assume "run_steps [mul_hbm E opt] u = Some (e, u')"
    then have "mul_hbm E opt u = Some (e, u')"
      by (auto split: option.splits)
    then obtain t where t: "run_steps (mul_hbm_setup E opt @ ?rounds) u = Some (e, t)" "u' = mul_hbm_end E t"
      by (rule mul_hbm_cases)
    obtain ev where "trace_of t = trace_of u @ ev" "sends_on ?fd ev \<le> 32"
      using s t(1) unfolding sends_at_most_def by blast
    moreover obtain ev' where ev': "trace_of u' = trace_of t @ ev'" "list_all mul_call (map fst ev')"
      using tail t(2) by blast
    moreover have "sends_on ?fd ev' = 0"
      by (rule no_send_sends) (use ev'(2) mul_call_quiet(1) in \<open>auto simp: list_all_iff\<close>)
    ultimately show "\<exists>ev. trace_of u' = trace_of u @ ev \<and> sends_on ?fd ev \<le> 32"
      by (intro exI [of _ "ev @ ev'"]) simp
  qed
  show "receives_at_least ?fd 32 [mul_hbm E opt]"
    unfolding receives_at_least_def
  proof (intro allI impI)
    fix u u'
    assume "run_steps [mul_hbm E opt] u = Some (None, u')"
    then have "mul_hbm E opt u = Some (None, u')"
      by (auto split: option.splits)
    then obtain t where t: "run_steps (mul_hbm_setup E opt @ ?rounds) u = Some (None, t)" "u' = mul_hbm_end E t"
      by (rule mul_hbm_cases)
    obtain ev where "trace_of t = trace_of u @ ev" "32 \<le> receives_on ?fd ev"
      using v t(1) unfolding receives_at_least_def by blast
    moreover obtain ev' where "trace_of u' = trace_of t @ ev'"
      using tail t(2) by blast
    ultimately show "\<exists>ev. trace_of u' = trace_of u @ ev \<and> 32 \<le> receives_on ?fd ev"
      by (intro exI [of _ "ev @ ev'"]) simp
  qed
  show "appends (\<lambda>c. \<not> is_handle_release c) (mul_hbm E opt)"
  proof (rule appendsI)
    fix u e u'
    assume "mul_hbm E opt u = Some (e, u')"
    then obtain t where t: "run_steps (mul_hbm_setup E opt @ ?rounds) u = Some (e, t)" "u' = mul_hbm_end E t"
      by (rule mul_hbm_cases)
    obtain ev where "trace_of t = trace_of u @ ev" "list_all (\<lambda>c. \<not> is_handle_release c) (map fst ev)"
      by (rule appendsD [OF appends_run [OF q] t(1)])
    moreover obtain ev' where ev': "trace_of u' = trace_of t @ ev'" "list_all mul_call (map fst ev')"
      using tail t(2) by blast
    moreover have "list_all (\<lambda>c. \<not> is_handle_release c) (map fst ev')"
      using ev'(2) mul_call_quiet(2) by (auto simp: list_all_iff)
    ultimately show "\<exists>ev. trace_of u' = trace_of u @ ev \<and> list_all (\<lambda>c. \<not> is_handle_release c) (map fst ev)"
      by (intro exI [of _ "ev @ ev'"]) simp
  qed
qed

text \<open>The body up to the last unmap, and what follows.\<close>

definition mul_before :: "'w env \<Rightarrow> machine \<Rightarrow> multi_options \<Rightarrow> 'w multi prog_step list" where
  "mul_before E M opt =
     mul_open E M opt @ mul_allocate E M opt @ mul_export E opt @
     concat (map (mul_map_slice E opt) [0..<mo_count opt]) @ barrier E (mo_fd opt) @
     mul_host_test E opt @ barrier E (mo_fd opt) @ [mul_hbm E opt] @ barrier E (mo_fd opt)"

definition mul_unmaps :: "'w env \<Rightarrow> multi_options \<Rightarrow> 'w multi prog_step list" where
  "mul_unmaps E opt = map (mul_unmap_slice E opt) [0..<mo_count opt]"

lemma mul_body_split: "mul_body E M opt = (mul_before E M opt @ mul_unmaps E opt) @ barrier E (mo_fd opt)"
  by (simp add: mul_body_def mul_before_def mul_unmaps_def)

lemma mul_unmaps_local: "\<forall>f \<in> set (mul_unmaps E opt). appends mul_call f"
  using mul_local(6) by (auto simp: mul_unmaps_def)

lemma mul_before_words:
  assumes law: "bounded_transfers E"
  shows "sends_at_most (mo_fd opt) 64 (mul_before E M opt)"
    "receives_at_least (mo_fd opt) (8 * (mo_count opt + 7)) (mul_before E M opt)"
    "\<forall>f \<in> set (mul_before E M opt). appends (\<lambda>c. \<not> is_handle_release c) f"
proof -
  note b = barrier_words [OF law, where fd = "mo_fd opt"] and h = mul_hbm_words [OF law, where opt = opt]
    and x = mul_export_words [OF law, where opt = opt]
  note l1 = local_words [OF mul_local(1) [where E = E and M = M and opt = opt]]
    and l2 = local_words [OF mul_local(2) [where E = E and M = M and opt = opt]]
    and l3 = local_words [OF mul_local(3) [where E = E and opt = opt]]
  note m = mul_map_slice_words [OF law, where opt = opt]
  note ms = sends_concat [of "[0..<mo_count opt]", OF m(1)] receives_concat [of "[0..<mo_count opt]", OF m(2)]
  let ?maps = "concat (map (mul_map_slice E opt) [0..<mo_count opt])"
  have q: "\<forall>f \<in> set ?maps. appends (\<lambda>c. \<not> is_handle_release c) f"
    using m(3) by auto
  have "sends_at_most (mo_fd opt) (0 + (0 + (8 + (0 * length [0..<mo_count opt] + (8 + (0 + (8 + (32 + 8)))))))) (mul_before E M opt)"
    unfolding mul_before_def by (rule sends_at_most_append b h x l1 l2 l3 ms)+
  then show "sends_at_most (mo_fd opt) 64 (mul_before E M opt)"
    by simp
  have "receives_at_least (mo_fd opt) (0 + (0 + (0 + (8 * length [0..<mo_count opt] + (8 + (0 + (8 + (32 + 8)))))))) (mul_before E M opt)"
    unfolding mul_before_def by (rule receives_append b h x l1 l2 l3 ms)+
  then show "receives_at_least (mo_fd opt) (8 * (mo_count opt + 7)) (mul_before E M opt)"
    by (simp add: algebra_simps)
  show "\<forall>f \<in> set (mul_before E M opt). appends (\<lambda>c. \<not> is_handle_release c) f"
    using l1(3) l2(3) l3(3) x(3) q b(3) h(3) unfolding mul_before_def by auto
qed

subsection \<open>The slices\<close>

text \<open>Every slice of a reserved range was mapped and is unmapped.\<close>

definition all_unmapped :: "u64 \<Rightarrow> nat \<Rightarrow> event list \<Rightarrow> bool" where
  "all_unmapped bytes n t \<longleftrightarrow> (\<exists>base p len.
     (halMemAddressReserve p len 0 nullptr 0, 0, base) \<in> set t \<and>
     (\<forall>i < n. (\<exists>h out. (halMemMap (slice_va base bytes i) bytes 0 h 0, 0, out) \<in> set t) \<and>
       (\<exists>out. (halMemUnmap (slice_va base bytes i), 0, out) \<in> set t)))"

lemma all_unmapped_mono: "all_unmapped bytes n t \<Longrightarrow> set t \<subseteq> set u \<Longrightarrow> all_unmapped bytes n u"
  unfolding all_unmapped_def by (meson subsetD)

definition base_reserved :: "'w multi \<Rightarrow> bool" where
  "base_reserved s \<longleftrightarrow> (\<exists>p len. (halMemAddressReserve p len 0 nullptr 0, 0, mul_base s) \<in> set (trace_of s))"

definition slice_mapped :: "u64 \<Rightarrow> nat \<Rightarrow> 'w multi \<Rightarrow> bool" where
  "slice_mapped bytes i s \<longleftrightarrow> (\<exists>h out. (halMemMap (slice_va (mul_base s) bytes i) bytes 0 h 0, 0, out) \<in> set (trace_of s))"

definition slice_unmapped :: "u64 \<Rightarrow> nat \<Rightarrow> 'w multi \<Rightarrow> bool" where
  "slice_unmapped bytes i s \<longleftrightarrow> (\<exists>out. (halMemUnmap (slice_va (mul_base s) bytes i), 0, out) \<in> set (trace_of s))"

text \<open>What depends on the range and grows with the trace lasts.\<close>

definition lasting :: "('w multi \<Rightarrow> bool) \<Rightarrow> bool" where
  "lasting P \<longleftrightarrow> (\<forall>s s'. P s \<longrightarrow> mul_base s' = mul_base s \<longrightarrow> set (trace_of s) \<subseteq> set (trace_of s') \<longrightarrow> P s')"

lemma lasting_slices: "lasting base_reserved" "lasting (slice_mapped bytes i)" "lasting (slice_unmapped bytes i)"
  unfolding lasting_def base_reserved_def slice_mapped_def slice_unmapped_def by (auto; blast)+

lemma lasting_conj: "lasting P \<Longrightarrow> lasting Q \<Longrightarrow> lasting (\<lambda>s. P s \<and> Q s)"
  unfolding lasting_def by blast

lemma lasting_all: "(\<And>i. lasting (P i)) \<Longrightarrow> lasting (\<lambda>s. \<forall>i < n. P i s)"
  unfolding lasting_def by blast

definition keeps_base :: "'w multi prog_step list \<Rightarrow> bool" where
  "keeps_base fs \<longleftrightarrow> (\<forall>f \<in> set fs. leaves mul_base f \<and> appends (\<lambda>_. True) f)"

lemma lasting_run:
  assumes P: "lasting P" and k: "keeps_base fs"
  shows "triple P (run_steps fs) P (\<lambda>_. True)"
proof (rule tripleI)
  fix s e s'
  assume s: "P s" and run: "run_steps fs s = Some (e, s')"
  have l: "leaves mul_base (run_steps fs)"
    by (rule leaves_run) (use k in \<open>simp add: keeps_base_def\<close>)
  have a: "appends (\<lambda>_. True) (run_steps fs)"
    by (rule appends_run) (use k in \<open>simp add: keeps_base_def\<close>)
  obtain ev where "trace_of s' = trace_of s @ ev"
    by (rule appendsD [OF a run])
  then have "set (trace_of s) \<subseteq> set (trace_of s')" by auto
  with P s leavesD [OF l run] have "P s'"
    unfolding lasting_def by blast
  then show "if e = None then P s' else True" by simp
qed

lemma keeps_base_simps [simp]:
  "keeps_base []" "keeps_base (fs @ gs) \<longleftrightarrow> keeps_base fs \<and> keeps_base gs"
  "keeps_base (f # fs) \<longleftrightarrow> leaves mul_base f \<and> appends (\<lambda>_. True) f \<and> keeps_base fs"
  "keeps_base (concat (map g xs)) \<longleftrightarrow> (\<forall>x \<in> set xs. keeps_base (g x))"
  by (auto simp: keeps_base_def)

lemma more_same:
  "probe.more s' = probe.more s \<Longrightarrow> s' = s\<lparr>sys_of := sys_of s', cleanup_failed := cleanup_failed s'\<rparr>"
  by (cases s; cases s') simp

lemma mul_base_ends [simp]: "mul_base (mul_hbm_end E s) = mul_base s"
proof -
  have d: "mul_base (AclResources_destroy E a t) = mul_base t" for a t
    by (subst more_same [OF destroy_more(2)]) simp
  have p: "mul_base (plain_call E c t) = mul_base t" for c t
    by (subst plain_call_same) simp
  show ?thesis
    by (simp add: mul_hbm_end_def Let_def d p)
qed

lemma keeps_base_word:
  assumes law: "bounded_transfers E"
  shows "keeps_base (barrier E fd)" "keeps_base (mul_export E opt)"
    "keeps_base [receive_into E fd (\<lambda>v s. s\<lparr>mul_token := v\<rparr>)]"
proof -
  have t: "appends C f \<Longrightarrow> appends (\<lambda>_. True) f" for C and f :: "'a multi prog_step"
    by (rule appends_mono) simp_all
  show "keeps_base (barrier E fd)"
    by (simp add: barrier_def send_const_effects(2) [OF law] send_const_effects(3) [OF law, THEN t]
        check_receive_effects(2) [OF law] check_receive_effects(1) [OF law, THEN t])
  show "keeps_base (mul_export E opt)"
    by (auto simp: mul_export_def send_word_effects(2) [OF law] send_word_effects(3) [OF law, THEN t]
        intro!: appends_check leaves_check)
  show "keeps_base [receive_into E fd (\<lambda>v s. s\<lparr>mul_token := v\<rparr>)]"
    by (auto intro!: receive_into_effects(2) [OF law] receive_into_effects(1) [OF law, THEN t])
qed

lemma leaves_memory:
  "leaves mul_base (assign (\<lambda>s. fill E (p s) bytes seed s))" "leaves mul_base (\<lambda>s. verify E (p s) bytes seed phase s)"
  by (rule calls_effects; simp)+

lemma any_call: "appends mul_call f \<Longrightarrow> appends (\<lambda>_. True) f"
  by (rule appends_mono) simp_all

lemma keeps_base_local:
  "keeps_base (mul_host_test E opt)" "keeps_base (mul_read E opt round owner)" "keeps_base (mul_hbm_setup E opt)"
  "keeps_base (mul_open E M opt)"
proof -
  note eff = leaves_check check_value_effects(2) bind_cpu_effects(2) query_effects(2) throw_effects leaves_memory
    mul_aio_effects(2) calls_effects(2)
  have k: "keeps_base fs" if "\<forall>f \<in> set fs. appends mul_call f" "\<forall>f \<in> set fs. leaves mul_base f" for fs :: "'a multi prog_step list"
    using that by (auto simp: keeps_base_def intro: any_call)
  show "keeps_base (mul_host_test E opt)"
    by (rule k [OF mul_local(3)]) (auto simp: mul_host_test_def intro!: eff)
  show "keeps_base (mul_read E opt round owner)"
    by (rule k [OF mul_local(4)]) (auto simp: mul_read_def mul_copy_def intro!: eff)
  show "keeps_base (mul_hbm_setup E opt)"
    by (rule k [OF mul_local(5)]) (auto simp: mul_hbm_setup_def intro!: eff)
  show "keeps_base (mul_open E M opt)"
    by (rule k [OF mul_local(1)]) (auto simp: mul_open_def intro!: eff)
qed

lemma keeps_base_hbm:
  assumes law: "bounded_transfers E"
  shows "keeps_base [mul_hbm E opt]"
proof -
  have "keeps_base (mul_round E opt round)" for round
    unfolding mul_round_def
    by (auto simp: keeps_base_word [OF law] keeps_base_local intro!: leaves_memory any_call memory_appends_mul)
  then have k: "keeps_base (mul_hbm_setup E opt @ concat (map (mul_round E opt) [0..<read_rounds]))"
    by (simp add: keeps_base_local)
  have "leaves mul_base (mul_hbm E opt)"
  proof (rule leavesI)
    fix s e s'
    assume "mul_hbm E opt s = Some (e, s')"
    then obtain u where u: "run_steps (mul_hbm_setup E opt @ concat (map (mul_round E opt) [0..<read_rounds])) s = Some (e, u)"
      "s' = mul_hbm_end E u"
      by (rule mul_hbm_cases)
    have "mul_base u = mul_base s"
      by (rule leavesD [OF leaves_run u(1)]) (use k in \<open>simp add: keeps_base_def\<close>)
    with u(2) show "mul_base s' = mul_base s" by simp
  qed
  moreover have "appends (\<lambda>_. True) (mul_hbm E opt)"
    by (rule appends_mono [OF mul_hbm_words(3) [OF law]]) simp
  ultimately show ?thesis by simp
qed

lemma triple_upto:
  assumes "\<And>k. k < n \<Longrightarrow> triple (P k) (run_steps (f k)) (P (Suc k)) X"
  shows "triple (P 0) (run_steps (concat (map f [0..<n]))) (P n) X"
  using assms
proof (induction n)
  case 0
  then show ?case by (simp add: triple_def)
next
  case (Suc n)
  have "triple (P 0) (run_steps (concat (map f [0..<n]))) (P n) X"
    by (rule Suc.IH) (simp add: Suc.prems)
  from triple_append [OF this Suc.prems [of n]] show ?case
    by simp
qed

abbreviation mapped_upto :: "u64 \<Rightarrow> nat \<Rightarrow> 'w multi \<Rightarrow> bool" where
  "mapped_upto bytes n s \<equiv> base_reserved s \<and> (\<forall>i < n. slice_mapped bytes i s)"

lemma lasting_mapped: "lasting (mapped_upto bytes n)"
  by (intro lasting_conj lasting_all lasting_slices)

lemma mul_reserve_base:
  "triple (\<lambda>_. True) (run_steps (mul_allocate E M opt)) base_reserved (\<lambda>_. True)"
proof -
  obtain f fs where e: "mul_allocate E M opt = f # fs" and f: "f = check_step E ''reserve independent local VA''
      (\<lambda>s. halMemAddressReserve (mul_base s) (reserve_bytes (total_bytes opt)) 0 nullptr 0) (\<lambda>out s. s\<lparr>mul_base := out\<rparr>) id"
    and fs: "keeps_base fs"
  proof
    show "mul_allocate E M opt = hd (mul_allocate E M opt) # tl (mul_allocate E M opt)"
      by (simp add: mul_allocate_def)
    have "\<forall>f \<in> set (tl (mul_allocate E M opt)). appends mul_call f"
      using mul_local(2) [of E M opt] by (simp add: mul_allocate_def)
    then show "keeps_base (tl (mul_allocate E M opt))"
      by (auto simp: mul_allocate_def intro!: leaves_check query_effects(2) throw_effects intro: any_call)
  qed (simp add: mul_allocate_def)
  have "triple (\<lambda>_. True) f base_reserved (\<lambda>_. True)"
    unfolding f by (rule triple_check) (auto simp: base_reserved_def)
  from triple_Cons [OF this lasting_run [OF lasting_slices(1) fs]] show ?thesis
    unfolding e .
qed

lemma mul_map_slice_maps:
  assumes law: "bounded_transfers E"
  shows "triple (mapped_upto (mo_bytes opt) k) (run_steps (mul_map_slice E opt k)) (mapped_upto (mo_bytes opt) (Suc k)) (\<lambda>_. True)"
proof -
  obtain pre f where e: "mul_map_slice E opt k = pre @ [f]" and f: "f = check_step E ''map contiguous slice''
        (\<lambda>s. halMemMap (slice_va (mul_base s) (mo_bytes opt) k) (mo_bytes opt) 0 (mul_handles s ! k) 0) no_out
        (\<lambda>s. s\<lparr>mul_mapped := (mul_mapped s)[k := True]\<rparr>)" and pre: "keeps_base pre"
  proof
    show "mul_map_slice E opt k = butlast (mul_map_slice E opt k) @ [List.last (mul_map_slice E opt k)]"
      by (simp add: mul_map_slice_def)
    show "keeps_base (butlast (mul_map_slice E opt k))"
      using keeps_base_word(3) [OF law, of "mo_fd opt"]
      by (auto simp: mul_map_slice_def intro!: leaves_when appends_when leaves_check appends_check)
  qed (simp add: mul_map_slice_def)
  have "triple (mapped_upto (mo_bytes opt) k) f (mapped_upto (mo_bytes opt) (Suc k)) (\<lambda>_. True)"
    unfolding f
    by (rule triple_check) (auto simp: base_reserved_def slice_mapped_def less_Suc_eq; blast)
  from triple_append [OF lasting_run [OF lasting_mapped pre] triple_Cons [OF this triple_Nil]] show ?thesis
    unfolding e .
qed

lemma mul_before_maps:
  assumes law: "bounded_transfers E"
  shows "triple (\<lambda>_. True) (run_steps (mul_before E M opt)) (mapped_upto (mo_bytes opt) (mo_count opt)) (\<lambda>_. True)"
proof -
  let ?tail = "barrier E (mo_fd opt) @ mul_host_test E opt @ barrier E (mo_fd opt) @ [mul_hbm E opt] @ barrier E (mo_fd opt)"
  let ?maps = "concat (map (mul_map_slice E opt) [0..<mo_count opt])"
  have split: "mul_before E M opt = mul_open E M opt @ mul_allocate E M opt @ mul_export E opt @ ?maps @ ?tail"
    by (simp add: mul_before_def)
  have start: "triple (\<lambda>_. True) (run_steps (mul_open E M opt)) (\<lambda>_. True) (\<lambda>_. True)"
    by (simp add: triple_def)
  have maps: "triple (mapped_upto (mo_bytes opt) 0) (run_steps ?maps) (mapped_upto (mo_bytes opt) (mo_count opt)) (\<lambda>_. True)"
    by (rule triple_upto [where P = "mapped_upto (mo_bytes opt)"]) (rule mul_map_slice_maps [OF law])
  then have maps: "triple base_reserved (run_steps ?maps) (mapped_upto (mo_bytes opt) (mo_count opt)) (\<lambda>_. True)"
    by simp
  have k: "keeps_base ?tail"
    using keeps_base_hbm [OF law, of opt] keeps_base_word(1) [OF law, of "mo_fd opt"] keeps_base_local(1) [of E opt] by simp
  show ?thesis
    unfolding split
    by (rule triple_append [OF start triple_append [OF mul_reserve_base triple_append [OF lasting_run [OF lasting_slices(1)
          keeps_base_word(2) [OF law]] triple_append [OF maps lasting_run [OF lasting_mapped k]]]]])
qed

lemma mul_unmaps_all:
  "triple (mapped_upto (mo_bytes opt) (mo_count opt)) (run_steps (mul_unmaps E opt))
     (\<lambda>s. all_unmapped (mo_bytes opt) (mo_count opt) (trace_of s)) (\<lambda>_. True)"
proof -
  let ?b = "mo_bytes opt" and ?n = "mo_count opt"
  let ?P = "\<lambda>k s. mapped_upto ?b ?n s \<and> (\<forall>i < k. slice_unmapped ?b i s)"
  have "triple (?P k) (run_steps [mul_unmap_slice E opt k]) (?P (Suc k)) (\<lambda>_. True)" for k
    unfolding mul_unmap_slice_def
    by (rule triple_Cons [OF triple_check triple_Nil])
      (auto simp: base_reserved_def slice_mapped_def slice_unmapped_def less_Suc_eq; blast)
  then have "triple (?P 0) (run_steps (concat (map (\<lambda>i. [mul_unmap_slice E opt i]) [0..<?n]))) (?P ?n) (\<lambda>_. True)"
    by (intro triple_upto)
  moreover have "mul_unmaps E opt = concat (map (\<lambda>i. [mul_unmap_slice E opt i]) [0..<?n])"
    by (simp add: mul_unmaps_def)
  ultimately have "triple (?P 0) (run_steps (mul_unmaps E opt)) (?P ?n) (\<lambda>_. True)"
    by simp
  then show ?thesis
  proof (rule triple_weaken)
    fix s :: "'a multi"
    assume "?P ?n s"
    then show "all_unmapped ?b ?n (trace_of s)"
      unfolding all_unmapped_def base_reserved_def slice_mapped_def slice_unmapped_def by blast
  qed simp_all
qed

subsection \<open>A worker\<close>

text \<open>
  \<open>reached f lim P t\<close>: \<open>P\<close> held of the trace \<open>t\<close> before the count \<open>f\<close> went beyond \<open>lim\<close>.
\<close>

definition reached :: "(event list \<Rightarrow> nat) \<Rightarrow> nat \<Rightarrow> (event list \<Rightarrow> bool) \<Rightarrow> event list \<Rightarrow> bool" where
  "reached f lim P t \<longleftrightarrow> f t \<le> lim \<or> (\<exists>t1 t2. t = t1 @ t2 \<and> f t1 \<le> lim \<and> P t1)"

lemma reached_prefix:
  assumes r: "reached f lim P t" and t: "t = u @ v" and u: "lim < f u"
    and mono: "\<And>a b. f a \<le> f (a @ b)" and P: "\<And>a b. P a \<Longrightarrow> P (a @ b)"
  shows "P u"
proof -
  have "lim < f t"
    using mono [of u v] u t by simp
  with r obtain t1 t2 where t1: "t = t1 @ t2" "f t1 \<le> lim" "P t1"
    unfolding reached_def by auto
  from t1(1) t consider us where "u @ us = t1" | us where "u = t1 @ us"
    by (metis append_eq_append_conv2)
  then show ?thesis
  proof cases
    case 1
    then have "f u \<le> f t1"
      using mono [of u us] by simp
    with u t1(2) show ?thesis by simp
  next
    case 2
    with P t1(3) show ?thesis by simp
  qed
qed

lemma reached_append: "reached f lim P t \<Longrightarrow> f (t @ ev) = f t \<Longrightarrow> reached f lim P (t @ ev)"
  unfolding reached_def by (metis append.assoc)

definition released_after :: "int \<Rightarrow> nat \<Rightarrow> event list \<Rightarrow> bool" where
  "released_after fd n t \<longleftrightarrow>
     (\<exists>t1 t2. t = t1 @ t2 \<and> n \<le> receives_on fd t1 \<and> list_all (\<lambda>c. \<not> is_handle_release c) (map fst t1))"

lemma mul_finish_grows: "grows no_send s (mul_finish E opt s)"
proof -
  have drop: "grows no_send u (mul_drop_slice E bytes i u)" for u :: "'a multi" and bytes i
    unfolding mul_drop_slice_def Let_def by (rule grows_trans [OF grows_cleanup_if grows_cleanup_if]) simp_all
  have "grows no_send u (fold (mul_drop_slice E bytes) is u)" for u :: "'a multi" and bytes "is"
    by (induction "is" arbitrary: u) (auto intro: grows_trans [OF drop])
  then have f: "grows no_send s (fold (mul_drop_slice E (mo_bytes opt)) [0..<mo_count opt] s)" .
  let ?s1 = "fold (mul_drop_slice E (mo_bytes opt)) [0..<mo_count opt] s"
  let ?s2 = "if mul_base s \<noteq> nullptr then cleanup E (halMemAddressFree (mul_base s)) ?s1 else ?s1"
  let ?s3 = "if mul_device_set s then cleanup E (aclrtResetDevice (device_of opt)) ?s2 else ?s2"
  let ?s4 = "if mul_acl_init s then cleanup E aclFinalize ?s3 else ?s3"
  have "grows no_send ?s1 ?s2" "grows no_send ?s2 ?s3" "grows no_send ?s3 ?s4"
    by (rule grows_cleanup_if; simp)+
  moreover have "grows no_send ?s4 (mul_finish E opt s)"
    unfolding mul_finish_def Let_def by (rule grows_plain) (simp add: no_send_def)
  ultimately show ?thesis
    using f by (blast intro: grows_trans)
qed

lemma mul_worker_cases:
  assumes "mul_worker E M opt s = Some (code, s')"
  obtains e s1 where "run_steps (mul_body E M opt) (mul_init (mo_count opt) s) = Some (e, s1)"
    "code = (if e \<noteq> None \<or> cleanup_failed s' then 1 else 0)" "s' = probe.truncate (mul_finish E opt s1)"
  using assms by (auto simp: mul_worker_def Let_def split: option.splits)

lemma mul_init_simps [simp]:
  "sys_of (mul_init n s) = sys_of s" "cleanup_failed (mul_init n s) = cleanup_failed s" "trace_of (mul_init n s) = trace_of s"
  by (simp_all add: mul_init_def probe.defs multi.defs trace_of_def)

lemma sends_on_mono: "sends_on fd a \<le> sends_on fd (a @ b)"
  by simp

lemma mul_body_words:
  assumes law: "bounded_transfers E" and z: "sends_on (mo_fd opt) (trace_of s) = 0"
    and run: "run_steps (mul_body E M opt) s = Some (e, s')"
  shows "\<exists>t. trace_of s' = trace_of s @ t \<and>
    reached (sends_on (mo_fd opt)) 64 (all_unmapped (mo_bytes opt) (mo_count opt)) (trace_of s @ t)"
proof -
  let ?fd = "mo_fd opt" and ?P = "all_unmapped (mo_bytes opt) (mo_count opt)"
  note w = mul_before_words [OF law, where M = M and opt = opt] and u = local_words [OF mul_unmaps_local [of E opt]]
  have few: "sends_at_most ?fd 64 (mul_before E M opt @ mul_unmaps E opt)"
    using sends_at_most_append [OF w(1) u(1)] by simp
  note parts = run [unfolded mul_body_split run_steps_append [of "mul_before E M opt @ mul_unmaps E opt" "barrier E ?fd"]]
  obtain e1 s1 where r1: "run_steps (mul_before E M opt @ mul_unmaps E opt) s = Some (e1, s1)"
    using parts by (cases "run_steps (mul_before E M opt @ mul_unmaps E opt) s") auto
  obtain t1 where t1: "trace_of s1 = trace_of s @ t1" "sends_on ?fd t1 \<le> 64"
    using few r1 unfolding sends_at_most_def by blast
  then have lim: "sends_on ?fd (trace_of s @ t1) \<le> 64"
    using z by simp
  show ?thesis
  proof (cases e1)
    case (Some x)
    with parts r1 have "s' = s1"
      by simp
    with t1 lim show ?thesis
      by (intro exI [of _ t1]) (simp add: reached_def)
  next
    case None
    with parts r1 have r2: "run_steps (barrier E ?fd) s1 = Some (e, s')"
      by simp
    have "triple (\<lambda>_. True) (run_steps (mul_before E M opt @ mul_unmaps E opt)) (\<lambda>s. ?P (trace_of s)) (\<lambda>_. True)"
      by (rule triple_append [OF mul_before_maps [OF law] mul_unmaps_all])
    from tripleD [OF this TrueI r1] None t1(1) have P: "?P (trace_of s @ t1)" by simp
    obtain t2 where t2: "trace_of s' = trace_of s1 @ t2"
      using appendsD [OF appends_run [OF barrier_words(3) [OF law]] r2] by metis
    have "reached (sends_on ?fd) 64 ?P ((trace_of s @ t1) @ t2)"
      unfolding reached_def using P lim by blast
    with t1(1) t2 show ?thesis
      by (intro exI [of _ "t1 @ t2"]) simp
  qed
qed

lemma mul_worker_reached:
  assumes law: "bounded_transfers E" and z: "sends_on (mo_fd opt) (trace_of s) = 0"
    and w: "mul_worker E M opt s = Some (code, s')"
  shows "reached (sends_on (mo_fd opt)) 64 (all_unmapped (mo_bytes opt) (mo_count opt)) (trace_of s')"
proof -
  let ?fd = "mo_fd opt" and ?P = "all_unmapped (mo_bytes opt) (mo_count opt)"
  obtain e s1 where run: "run_steps (mul_body E M opt) (mul_init (mo_count opt) s) = Some (e, s1)"
    and s': "s' = probe.truncate (mul_finish E opt s1)"
    by (rule mul_worker_cases [OF w])
  have r: "reached (sends_on ?fd) 64 ?P (trace_of s1)"
    using mul_body_words [OF law _ run] z by auto
  obtain ev where ev: "trace_of s' = trace_of s1 @ ev" "list_all no_send (map fst ev)"
    using mul_finish_grows [of s1 E opt] by (auto simp: s' grows_def)
  show ?thesis
    unfolding ev(1) by (rule reached_append [OF r]) (simp add: no_send_sends [OF ev(2)])
qed

lemma mul_worker_released:
  assumes law: "bounded_transfers E" and t: "list_all (\<lambda>c. \<not> is_handle_release c) (map fst (trace_of s))"
    and w: "mul_worker E M opt s = Some (0, s')"
  shows "released_after (mo_fd opt) (8 * (mo_count opt + 8)) (trace_of s')"
proof -
  let ?fd = "mo_fd opt"
  obtain e s1 where run: "run_steps (mul_body E M opt) (mul_init (mo_count opt) s) = Some (e, s1)"
    and code: "(0 :: int) = (if e \<noteq> None \<or> cleanup_failed s' then 1 else 0)" and s': "s' = probe.truncate (mul_finish E opt s1)"
    by (rule mul_worker_cases [OF w])
  then have run: "run_steps (mul_body E M opt) (mul_init (mo_count opt) s) = Some (None, s1)"
    by (auto split: if_splits)
  note b = mul_before_words [OF law, where M = M and opt = opt] and u = local_words [OF mul_unmaps_local [of E opt]]
    and l = barrier_words [OF law, where fd = ?fd]
  have "receives_at_least ?fd (8 * (mo_count opt + 7) + 0 + 8) (mul_body E M opt)"
    unfolding mul_body_split by (rule receives_append [OF receives_append [OF b(2) u(2)] l(2)])
  then obtain ev where ev: "trace_of s1 = trace_of s @ ev" "8 * (mo_count opt + 8) \<le> receives_on ?fd ev"
    using run unfolding receives_at_least_def by (fastforce simp: algebra_simps)
  have q: "\<forall>f \<in> set (mul_body E M opt). appends (\<lambda>c. \<not> is_handle_release c) f"
    using b(3) u(3) l(3) unfolding mul_body_split by auto
  obtain ev' where "trace_of s1 = trace_of s @ ev'" "list_all (\<lambda>c. \<not> is_handle_release c) (map fst ev')"
    using appendsD [OF appends_run [OF q] run] by auto
  with ev t have "8 * (mo_count opt + 8) \<le> receives_on ?fd (trace_of s1)"
    "list_all (\<lambda>c. \<not> is_handle_release c) (map fst (trace_of s1))"
    by simp_all
  moreover obtain tl where "trace_of s' = trace_of s1 @ tl"
    using mul_finish_grows [of s1 E opt] by (auto simp: s' grows_def)
  ultimately show ?thesis
    unfolding released_after_def by blast
qed

end
