(* ===== verification/Multi_Coordinator.thy ===== *)
theory Multi_Coordinator
  imports Multi_Barrier
begin

unbundle bit_operations_syntax

text \<open>
  The coordinator of src/multi_share.cpp: how the workers are started, what it sends on whose socket,
  and that it waits for every process it has started. The last section puts coordinator and workers
  together.
\<close>

subsection \<open>Pairs and processes in a trace\<close>

definition pair_words :: "event list \<Rightarrow> u64 list" where
  "pair_words t = concat (map (\<lambda>e. case e of (Proc sys_socketpair, r, out) \<Rightarrow> if r = 0 then [out] else [] | _ \<Rightarrow> []) t)"

definition forked :: "event list \<Rightarrow> int list" where
  "forked t = concat (map (\<lambda>e. case e of (Proc sys_fork, pid, _) \<Rightarrow> if 0 < pid then [pid] else [] | _ \<Rightarrow> []) t)"

lemma started_simps [simp]:
  "pair_words [] = []" "pair_words (t @ u) = pair_words t @ pair_words u" "forked [] = []" "forked (t @ u) = forked t @ forked u"
  "pair_words ((Proc sys_socketpair, r, out) # t) = (if r = 0 then out # pair_words t else pair_words t)"
  "forked ((Proc sys_socketpair, r, out) # t) = forked t"
  "forked ((Proc sys_fork, pid, out) # t) = (if 0 < pid then pid # forked t else forked t)"
  "pair_words ((Proc sys_fork, pid, out) # t) = pair_words t"
  "pair_words ((Proc sys_getpid, r, out) # t) = pair_words t" "forked ((Proc sys_getpid, r, out) # t) = forked t"
  by (simp_all add: pair_words_def forked_def)

text \<open>The calls that start nothing, and all calls of the start.\<close>

definition starts_nothing :: "native \<Rightarrow> bool" where
  "starts_nothing c \<longleftrightarrow> c \<noteq> Proc sys_socketpair \<and> c \<noteq> Proc sys_fork"

definition is_start :: "native \<Rightarrow> bool" where
  "is_start c \<longleftrightarrow> is_proc c \<or> (case c of Io (sys_close _) \<Rightarrow> True | _ \<Rightarrow> False)"

lemma is_start_simps [simp]: "is_start (Proc p)" "is_start (Io (sys_close fd))" "is_proc c \<Longrightarrow> is_start c"
  by (simp_all add: is_start_def)

lemma is_start_no_send: "is_start c \<Longrightarrow> no_send c"
  by (auto simp: is_start_def is_proc_def no_send_def split: native.splits io_call.splits)

lemma starts_nothing_trace:
  assumes "list_all starts_nothing (map fst ev)"
  shows "pair_words ev = []" "forked ev = []"
  using assms by (induction ev) (auto simp: starts_nothing_def pair_words_def forked_def split: native.splits proc_call.splits)

abbreviation quiet_start :: "native \<Rightarrow> bool" where
  "quiet_start c \<equiv> is_start c \<and> starts_nothing c"

lemma setting_quiet: "is_setting c \<Longrightarrow> quiet_start c"
  by (auto simp: is_setting_def is_start_def is_proc_def starts_nothing_def split: native.splits proc_call.splits)

lemma close_all_moves: "moves quiet_start s (close_all E fds s)"
proof (induction fds arbitrary: s)
  case Nil
  then show ?case by (simp add: close_all_def)
next
  case (Cons fd fds)
  have "moves quiet_start s (plain_call E (Io (sys_close fd)) s)"
    by (rule moves_plain) (simp add: starts_nothing_def)
  with Cons show ?case
    by (auto simp: close_all_def intro: moves_trans)
qed

lemma worker_image_moves:
  assumes "worker_image E parent other_end others args s = (x, s')"
  shows "moves quiet_start s s'" "x \<in> {Exit 125, Exit 127, Replaced args}"
proof -
  let ?u = "plain_call E (Proc sys_prctl) s"
  obtain pp o1 s1 where c1: "probe_call E (Proc sys_getppid) ?u = (pp, o1, s1)"
    by (rule prod_cases3)
  obtain r o2 s2 where c2: "probe_call E (Proc (sys_exec args)) (close_all E (others @ [other_end]) s1) = (r, o2, s2)"
    by (rule prod_cases3)
  have m1: "moves quiet_start s s1"
    by (rule moves_trans [OF moves_plain moves_call [OF _ c1]]) (simp_all add: starts_nothing_def)
  have m2: "moves quiet_start s1 s2"
    by (rule moves_trans [OF close_all_moves moves_call [OF _ c2]]) (simp add: starts_nothing_def)
  from assms c1 c2 m1 moves_trans [OF m1 m2] show "moves quiet_start s s'" "x \<in> {Exit 125, Exit 127, Replaced args}"
    by (auto simp: worker_image_def split: if_splits)
qed

subsection \<open>Starting the workers\<close>

definition worker_args :: "string list \<Rightarrow> nat \<Rightarrow> u64 \<Rightarrow> string list" where
  "worker_args args rank pair = args @ [''--rank'', nat_to_string rank, ''--worker-fd'', to_string_int (high_fd pair)]"

text \<open>What a part of the start has done: \<open>ev\<close> are its calls.\<close>

definition start_done :: "event list \<Rightarrow> 'w coordinator \<Rightarrow> 'w coordinator \<Rightarrow> bool" where
  "start_done ev s s' \<longleftrightarrow> trace_of s' = trace_of s @ ev \<and> list_all is_start (map fst ev) \<and>
     cor_children s' = cor_children s @ forked ev \<and> cor_tokens s' = cor_tokens s"

lemma start_done_refl [simp]: "start_done [] s s"
  by (simp add: start_done_def)

lemma start_done_trans: "start_done ev s t \<Longrightarrow> start_done ev' t u \<Longrightarrow> start_done (ev @ ev') s u"
  by (simp add: start_done_def)

lemma call_done:
  assumes "probe_call E c s = (r, out, s')" and "is_start c" and "forked [(c, r, out)] = []"
  shows "start_done [(c, r, out)] s s'" "cor_sockets s' = cor_sockets s"
proof -
  have same: "s' = s\<lparr>sys_of := sys_of s'\<rparr>"
    by (rule moves_same [OF moves_call [OF _ assms(1), of "\<lambda>_. True"]]) simp
  have "cor_children s' = cor_children s" "cor_tokens s' = cor_tokens s" "cor_sockets s' = cor_sockets s"
    by (subst same, simp)+
  with assms probe_call_trace [OF assms(1)] show "start_done [(c, r, out)] s s'" "cor_sockets s' = cor_sockets s"
    by (simp_all add: start_done_def)
qed

lemma quiet_done:
  assumes "moves quiet_start s s'"
  shows "\<exists>ev. start_done ev s s' \<and> pair_words ev = [] \<and> forked ev = [] \<and> cor_sockets s' = cor_sockets s"
proof -
  obtain ev where ev: "trace_of s' = trace_of s @ ev" "list_all quiet_start (map fst ev)"
    using moves_trace [OF assms] by blast
  have "cor_children s' = cor_children s" "cor_tokens s' = cor_tokens s" "cor_sockets s' = cor_sockets s"
    by (subst moves_same [OF assms], simp)+
  moreover have "pair_words ev = []" "forked ev = []" "list_all is_start (map fst ev)"
    using starts_nothing_trace [of ev] ev(2) by (simp_all add: list_all_iff)
  ultimately show ?thesis
    using ev(1) unfolding start_done_def by auto
qed

lemma start_worker_done:
  "start_worker E args rank s = Started s' \<Longrightarrow> \<exists>ev pair. start_done ev s s' \<and> pair_words ev = [pair] \<and>
     cor_sockets s' = cor_sockets s @ [low_fd pair]"
  "start_worker E args rank s = Broken s' \<Longrightarrow> \<exists>ev. start_done ev s s'"
  "start_worker E args rank s = Child x s' \<Longrightarrow> \<exists>ev pair. start_done ev s s' \<and> pair_words ev = [pair] \<and>
     x \<in> {Exit 125, Exit 127, Replaced (worker_args args rank pair)}"
proof -
  obtain r pair s1 where c1: "probe_call E (Proc sys_socketpair) s = (r, pair, s1)"
    by (rule prod_cases3)
  let ?a = "low_fd pair" and ?b = "high_fd pair"
  obtain ok1 t1 where t1: "set_timeouts E ?a s1 = (ok1, t1)" by (cases "set_timeouts E ?a s1")
  obtain ok s2 where t2: "(if ok1 then set_timeouts E ?b t1 else (False, t1)) = (ok, s2)" by fastforce
  obtain parent o2 s3 where c3: "probe_call E (Proc sys_getpid) s2 = (parent, o2, s3)"
    by (rule prod_cases3)
  obtain pid o3 s4 where c4: "probe_call E (Proc sys_fork) s3 = (pid, o3, s4)"
    by (rule prod_cases3)
  obtain x5 s5 where c5: "worker_image E parent ?a (cor_sockets s) (worker_args args rank pair) s4 = (x5, s5)"
    by (cases "worker_image E parent ?a (cor_sockets s) (worker_args args rank pair) s4")
  let ?go = "(plain_call E (Io (sys_close ?b)) s4)
      \<lparr>cor_sockets := cor_sockets s @ [?a], cor_children := cor_children s @ [pid]\<rparr>"
  have v: "start_worker E args rank s =
      (if r \<noteq> 0 then Broken s1 else if \<not> ok then Broken (close_all E [?a, ?b] s2)
       else if pid < 0 then Broken (close_all E [?a, ?b] s4)
       else if pid = 0 then Child x5 s5 else Started ?go)"
    using c1 t1 t2 c3 c4 c5 by (simp add: start_worker_def worker_args_def Let_def)
  have q2: "moves quiet_start s1 s2"
    using set_timeouts_calls [OF t1, THEN moves_mono, of quiet_start, OF setting_quiet]
      set_timeouts_calls [of E ?b t1, THEN moves_mono, of _ _ quiet_start, OF _ setting_quiet] t2
    by (auto split: if_splits intro: moves_trans)
  show
    "start_worker E args rank s = Started s' \<Longrightarrow> \<exists>ev pair. start_done ev s s' \<and> pair_words ev = [pair] \<and>
       cor_sockets s' = cor_sockets s @ [low_fd pair]"
    "start_worker E args rank s = Broken s' \<Longrightarrow> \<exists>ev. start_done ev s s'"
    "start_worker E args rank s = Child x s' \<Longrightarrow> \<exists>ev pair. start_done ev s s' \<and> pair_words ev = [pair] \<and>
       x \<in> {Exit 125, Exit 127, Replaced (worker_args args rank pair)}"
  proof -
    have d1: "start_done [(Proc sys_socketpair, r, pair)] s s1"
      by (rule call_done(1) [OF c1]) simp_all
    obtain ev2 where d2: "start_done ev2 s1 s2" "pair_words ev2 = []" "forked ev2 = []" "cor_sockets s2 = cor_sockets s1"
      using quiet_done [OF q2] by blast
    have d3: "start_done [(Proc sys_getpid, parent, o2)] s2 s3" "cor_sockets s3 = cor_sockets s2"
      by (rule call_done [OF c3]; simp add: forked_def)+
    have k: "cor_sockets s1 = cor_sockets s"
      by (rule call_done(2) [OF c1]) simp_all
    have d13: "start_done ((Proc sys_socketpair, r, pair) # ev2 @ [(Proc sys_getpid, parent, o2)]) s s3"
      using start_done_trans [OF start_done_trans [OF d1 d2(1)] d3(1)] by simp
    have gp: "pair_words [(Proc sys_getpid, parent, o2)] = []"
      by (simp add: pair_words_def)
    have d14: "start_done ((Proc sys_socketpair, r, pair) # ev2 @ [(Proc sys_getpid, parent, o2), (Proc sys_fork, pid, o3)]) s s4"
      if "pid \<le> 0"
      using start_done_trans [OF d13 call_done(1) [OF c4]] that by simp
    have ended: "\<exists>ev. start_done ev t (close_all E fds t) \<and> pair_words ev = [] \<and> cor_sockets (close_all E fds t) = cor_sockets t" for fds t
      using quiet_done [OF close_all_moves [of t E fds]] by blast
    show "\<exists>ev pair. start_done ev s s' \<and> pair_words ev = [pair] \<and> cor_sockets s' = cor_sockets s @ [low_fd pair]"
      if "start_worker E args rank s = Started s'"
    proof -
      have r: "r = 0" "0 < pid" and s': "s' = ?go"
        using trans [OF that [symmetric] v] by (auto split: if_splits)
      have m: "moves quiet_start s4 (plain_call E (Io (sys_close ?b)) s4)"
        by (rule moves_plain) (simp add: starts_nothing_def)
      obtain ev5 where d5: "start_done ev5 s4 (plain_call E (Io (sys_close ?b)) s4)" "pair_words ev5 = []" "forked ev5 = []"
        using quiet_done [OF m] by blast
      have "trace_of s' = trace_of (plain_call E (Io (sys_close ?b)) s4)" "cor_tokens s' = cor_tokens s4"
        unfolding s' by (simp_all add: trace_of_def) (subst plain_call_same, simp)
      moreover have "cor_tokens s4 = cor_tokens s3"
        by (subst moves_same [OF moves_call [OF _ c4, of "\<lambda>_. True"]]) simp_all
      ultimately have "start_done ((Proc sys_socketpair, r, pair) # ev2 @ [(Proc sys_getpid, parent, o2), (Proc sys_fork, pid, o3)] @ ev5) s s'"
        using d13 d5(1,3) d2(3) probe_call_trace [OF c4] r by (simp add: start_done_def s')
      moreover have "pair_words ((Proc sys_socketpair, r, pair) # ev2 @ [(Proc sys_getpid, parent, o2), (Proc sys_fork, pid, o3)] @ ev5) = [pair]"
        using r d2(2) d5(2) gp by (simp add: pair_words_def)
      moreover have "cor_sockets s' = cor_sockets s @ [low_fd pair]"
        by (simp add: s')
      ultimately show ?thesis by blast
    qed
    show "\<exists>ev. start_done ev s s'" if br: "start_worker E args rank s = Broken s'"
    proof -
      consider "s' = s1" | "s' = close_all E [?a, ?b] s2" | "s' = close_all E [?a, ?b] s4" "pid \<le> 0"
        using trans [OF br [symmetric] v] by (auto split: if_splits)
      then show ?thesis
      proof cases
        case 1
        with d1 show ?thesis by blast
      next
        case 2
        with start_done_trans [OF d1 d2(1)] ended show ?thesis by (metis start_done_trans)
      next
        case 3
        with d14 ended show ?thesis by (metis start_done_trans)
      qed
    qed
    show "\<exists>ev pair. start_done ev s s' \<and> pair_words ev = [pair] \<and> x \<in> {Exit 125, Exit 127, Replaced (worker_args args rank pair)}"
      if "start_worker E args rank s = Child x s'"
    proof -
      have r: "r = 0" "pid = 0" and s': "x = x5" "s' = s5"
        using trans [OF that [symmetric] v] by (auto split: if_splits)
      obtain ev5 where d5: "start_done ev5 s4 s5" "pair_words ev5 = []"
        using quiet_done [OF worker_image_moves(1) [OF c5]] by blast
      from start_done_trans [OF d14 d5(1)] r
      have "start_done (((Proc sys_socketpair, r, pair) # ev2 @ [(Proc sys_getpid, parent, o2), (Proc sys_fork, pid, o3)]) @ ev5) s s5"
        by simp
      moreover have "pair_words (((Proc sys_socketpair, r, pair) # ev2 @ [(Proc sys_getpid, parent, o2), (Proc sys_fork, pid, o3)]) @ ev5) = [pair]"
        using r d2(2) d5(2) gp by (simp add: pair_words_def)
      moreover have "x \<in> {Exit 125, Exit 127, Replaced (worker_args args rank pair)}"
        using worker_image_moves(2) [OF c5] s' by simp
      ultimately show ?thesis
        unfolding s'(2) by blast
    qed
  qed
qed

lemma start_workers_done:
  "start_workers E args ranks s = Started s' \<Longrightarrow> \<exists>ev. start_done ev s s' \<and> length (pair_words ev) = length ranks \<and>
     cor_sockets s' = cor_sockets s @ map low_fd (pair_words ev)"
  "start_workers E args ranks s = Broken s' \<Longrightarrow> \<exists>ev. start_done ev s s'"
  "start_workers E args ranks s = Child x s' \<Longrightarrow> \<exists>ev k. start_done ev s s' \<and> k < length ranks \<and> length (pair_words ev) = Suc k \<and>
     x \<in> {Exit 125, Exit 127, Replaced (worker_args args (ranks ! k) (pair_words ev ! k))}"
proof (induction ranks arbitrary: s)
  case Nil
  {
    case 1
    then show ?case
      by (intro exI [of _ "[]"]) simp
  next
    case 2
    then show ?case by simp
  next
    case 3
    then show ?case by simp
  }
next
  case (Cons rank ranks)
  have first: "\<exists>ev pair. start_done ev s s1 \<and> pair_words ev = [pair] \<and> cor_sockets s1 = cor_sockets s @ [low_fd pair]"
    if "start_worker E args rank s = Started s1" for s s1
    by (rule start_worker_done(1) [OF that])
  {
    case 1
    then obtain s1 where s1: "start_worker E args rank s = Started s1" "start_workers E args ranks s1 = Started s'"
      by (auto split: started.splits)
    obtain ev pair where a: "start_done ev s s1" "pair_words ev = [pair]" "cor_sockets s1 = cor_sockets s @ [low_fd pair]"
      using first [OF s1(1)] by blast
    obtain ev' where b: "start_done ev' s1 s'" "length (pair_words ev') = length ranks"
      "cor_sockets s' = cor_sockets s1 @ map low_fd (pair_words ev')"
      using Cons.IH(1) [OF s1(2)] by blast
    from start_done_trans [OF a(1) b(1)] a b show ?case
      by (intro exI [of _ "ev @ ev'"]) simp
  next
    case 2
    then consider "start_worker E args rank s = Broken s'" | s1 where "start_worker E args rank s = Started s1"
      "start_workers E args ranks s1 = Broken s'"
      by (auto split: started.splits)
    then show ?case
    proof cases
      case 1
      then show ?thesis by (rule start_worker_done(2))
    next
      case 2
      with first Cons.IH(2) start_done_trans show ?thesis by blast
    qed
  next
    case 3
    then consider "start_worker E args rank s = Child x s'" | s1 where "start_worker E args rank s = Started s1"
      "start_workers E args ranks s1 = Child x s'"
      by (auto split: started.splits)
    then show ?case
    proof cases
      case 1
      from start_worker_done(3) [OF this] obtain ev pair where "start_done ev s s'" "pair_words ev = [pair]"
        "x \<in> {Exit 125, Exit 127, Replaced (worker_args args rank pair)}"
        by blast
      then show ?thesis
        by (intro exI [of _ ev] exI [of _ 0]) simp
    next
      case (2 s1)
      obtain ev pair where a: "start_done ev s s1" "pair_words ev = [pair]"
        using first [OF 2(1)] by blast
      obtain ev' k where b: "start_done ev' s1 s'" "k < length ranks" "length (pair_words ev') = Suc k"
        "x \<in> {Exit 125, Exit 127, Replaced (worker_args args (ranks ! k) (pair_words ev' ! k))}"
        using Cons.IH(3) [OF 2(2)] by blast
      from start_done_trans [OF a(1) b(1)] a b show ?thesis
        by (intro exI [of _ "ev @ ev'"] exI [of _ "Suc k"]) simp
    qed
  }
qed

subsection \<open>Waiting\<close>

text \<open>Every process of the list is waited for, and the flag says whether all exited with status 0.\<close>

definition waited_for :: "int list \<Rightarrow> event list \<Rightarrow> bool" where
  "waited_for pids t \<longleftrightarrow> (\<forall>pid \<in> set pids. \<exists>ret status. ret \<noteq> - EINTR \<and> (Proc (sys_waitpid pid), ret, status) \<in> set t)"

definition ended_well :: "int list \<Rightarrow> event list \<Rightarrow> bool" where
  "ended_well pids t \<longleftrightarrow>
     (\<forall>pid \<in> set pids. \<exists>ret status. 0 \<le> ret \<and> exited_well status \<and> (Proc (sys_waitpid pid), ret, status) \<in> set t)"

lemma wait_child_final:
  assumes "wait_child E child s = Some (ret, status, s')"
  shows "ret \<noteq> - EINTR"
proof -
  define P :: "int \<times> u64 \<times> ('a, 'b) probe_scheme \<Rightarrow> bool" where "P = (\<lambda>x. fst x \<noteq> - EINTR)"
  have "P (ret, status, s')"
  proof (rule wait_child.raw_induct [OF _ assms])
    fix loop :: "'a env \<Rightarrow> int \<Rightarrow> ('a, 'b) probe_scheme \<Rightarrow> (int \<times> u64 \<times> ('a, 'b) probe_scheme) option"
      and E child s x
    assume IH: "\<And>E child s x. loop E child s = Some x \<Longrightarrow> P x"
      and r: "(case probe_call E (Proc (sys_waitpid child)) s of (waited, status, s1) \<Rightarrow>
          if waited = - EINTR then loop E child s1 else Some (waited, status, s1)) = Some x"
    obtain w o1 s1 where "probe_call E (Proc (sys_waitpid child)) s = (w, o1, s1)"
      by (rule prod_cases3)
    with r IH [of E child s1 x] show "P x"
      by (cases "w = - EINTR") (auto simp: P_def)
  qed
  then show ?thesis by (simp add: P_def)
qed

lemma wait_children_moves: "wait_children E pids b s = Some (failed, s') \<Longrightarrow> moves is_proc s s'"
proof (induction pids arbitrary: b s)
  case Nil
  then show ?case by simp
next
  case (Cons pid pids)
  then obtain ret status s1 where w: "wait_child E pid s = Some (ret, status, s1)"
    "wait_children E pids (b \<or> ret < 0 \<or> \<not> exited_well status) s1 = Some (failed, s')"
    by (auto split: option.splits)
  from wait_child_Some(1) [OF w(1)] Cons.IH [OF w(2)] show ?case
    by (rule moves_trans)
qed

lemma moves_set: "moves P s s' \<Longrightarrow> set (trace_of s) \<subseteq> set (trace_of s')"
  by (auto simp: moves_def)

lemma wait_children_waits:
  assumes "wait_children E pids b s = Some (failed, s')"
  shows "waited_for pids (trace_of s')" "\<not> failed \<Longrightarrow> \<not> b \<and> ended_well pids (trace_of s')"
  using assms
proof (induction pids arbitrary: b s)
  case Nil
  {
    case 1
    then show ?case by (simp add: waited_for_def)
  next
    case 2
    then show ?case by (simp add: ended_well_def)
  }
next
  case (Cons pid pids)
  have step: "\<exists>ret status s1. wait_child E pid s = Some (ret, status, s1) \<and>
      wait_children E pids (b \<or> ret < 0 \<or> \<not> exited_well status) s1 = Some (failed, s')"
    if "wait_children E (pid # pids) b s = Some (failed, s')" for b s
    using that by (auto split: option.splits)
  have seen: "(Proc (sys_waitpid pid), ret, status) \<in> set (trace_of s')"
    if "wait_child E pid s = Some (ret, status, s1)" "wait_children E pids c s1 = Some (failed, s')" for ret status s s1 c
    using wait_child_Some(2) [OF that(1)] moves_set [OF wait_children_moves [OF that(2)]] by blast
  {
    case 1
    with step obtain ret status s1 where w: "wait_child E pid s = Some (ret, status, s1)"
      "wait_children E pids (b \<or> ret < 0 \<or> \<not> exited_well status) s1 = Some (failed, s')" by blast
    from Cons.IH(1) [OF w(2)] wait_child_final [OF w(1)] seen [OF w] show ?case
      by (auto simp: waited_for_def)
  next
    case 2
    with step obtain ret status s1 where w: "wait_child E pid s = Some (ret, status, s1)"
      "wait_children E pids (b \<or> ret < 0 \<or> \<not> exited_well status) s1 = Some (failed, s')" by blast
    have "\<not> (b \<or> ret < 0 \<or> \<not> exited_well status)" "ended_well pids (trace_of s')"
      using Cons.IH(2) [OF 2(1) w(2)] by simp_all
    moreover from this have "0 \<le> ret" "exited_well status" by simp_all
    ultimately show ?case
      using seen [OF w] by (auto simp: ended_well_def)
  }
qed

subsection \<open>The words of the coordinator\<close>

lemma other_send_off: "list_all (is_send d) (map fst ev) \<Longrightarrow> fd \<noteq> d \<Longrightarrow> sends_on fd ev = 0"
  by (induction ev)
    (auto simp: sends_on_def sent_bytes_def is_send_def split: native.splits io_call.splits)

lemma sends_off: "appends (is_send d) f \<Longrightarrow> fd \<noteq> d \<Longrightarrow> sends_at_most fd 0 [f]"
  unfolding sends_at_most_def
proof (intro allI impI)
  fix s e s'
  assume f: "appends (is_send d) f" and d: "fd \<noteq> d" and "run_steps [f] s = Some (e, s')"
  then have "f s = Some (e, s')"
    by (auto split: option.splits)
  then obtain ev where "trace_of s' = trace_of s @ ev" "list_all (is_send d) (map fst ev)"
    by (rule appendsD [OF f])
  with other_send_off [OF _ d] show "\<exists>ev. trace_of s' = trace_of s @ ev \<and> sends_on fd ev \<le> 0"
    by auto
qed

lemma send_on_word:
  assumes law: "bounded_transfers E"
  shows "sends_at_most fd (if fd = d then 8 else 0) [send_word E d v]"
proof (cases "fd = d")
  case True
  with sends_one [OF send_const_effects(1) [OF law]] show ?thesis by simp
next
  case False
  with sends_off [OF send_const_effects(3) [OF law]] show ?thesis by simp
qed

lemma sends_Cons: "sends_at_most fd j [f] \<Longrightarrow> sends_at_most fd k fs \<Longrightarrow> sends_at_most fd (j + k) (f # fs)"
  using sends_at_most_append [of fd j "[f]" k fs] by simp

lemma sends_to_all:
  assumes law: "bounded_transfers E" and d: "distinct fds"
  shows "sends_at_most fd 8 (map (\<lambda>d. send_word E d v) fds)"
proof -
  have "sends_at_most fd (if fd \<in> set fds then 8 else 0) (map (\<lambda>d. send_word E d v) fds)"
    using d
  proof (induction fds)
    case Nil
    then show ?case by (simp add: sends_at_most_Nil)
  next
    case (Cons d fds)
    show ?case
      unfolding list.map
      by (rule sends_weaken [OF sends_Cons [OF send_on_word [OF law] Cons.IH]]) (use Cons.prems in auto)
  qed
  then show ?thesis
    by (rule sends_weaken) simp
qed

lemma sends_tokens:
  assumes law: "bounded_transfers E" and d: "distinct fds"
  shows "sends_at_most fd (8 * length toks) (concat (map (\<lambda>d. map (send_word E d) toks) fds))"
proof -
  have one: "sends_at_most fd (if fd = d then 8 * length ts else 0) (map (send_word E d) ts)" for d ts
  proof (induction ts)
    case Nil
    then show ?case by (simp add: sends_at_most_Nil)
  next
    case (Cons v ts)
    show ?case
      unfolding list.map by (rule sends_weaken [OF sends_Cons [OF send_on_word [OF law] Cons.IH]]) simp
  qed
  have "sends_at_most fd (if fd \<in> set fds then 8 * length toks else 0) (concat (map (\<lambda>d. map (send_word E d) toks) fds))"
    using d
  proof (induction fds)
    case Nil
    then show ?case by (simp add: sends_at_most_Nil)
  next
    case (Cons d fds)
    show ?case
      unfolding list.map concat.simps
      by (rule sends_weaken [OF sends_at_most_append [OF one Cons.IH]]) (use Cons.prems in auto)
  qed
  then show ?thesis
    by (rule sends_weaken) simp
qed

lemma receives_member:
  assumes f: "f \<in> set fs" "receives_word fd f" and a: "\<forall>f \<in> set fs. appends C f"
  shows "receives_at_least fd 8 fs"
proof -
  obtain xs ys where fs: "fs = xs @ [f] @ ys"
    using f(1) by (metis append_Cons append_Nil split_list)
  have "receives_at_least fd 0 xs" "receives_at_least fd 0 ys"
    by (rule receives_none [of _ C], use a fs in simp)+
  from receives_append [OF this(1) receives_append [OF receives_one [OF f(2)] this(2)]] show ?thesis
    by (simp add: fs)
qed

text \<open>The three kinds of lists.\<close>

lemma collect_words:
  assumes law: "bounded_transfers E"
  shows "sends_at_most r 0 (collect_tokens E fds)" "q \<in> set fds \<Longrightarrow> receives_at_least q 8 (collect_tokens E fds)"
proof -
  let ?rec = "\<lambda>fd. receive_into E fd (\<lambda>v s. s\<lparr>cor_tokens := cor_tokens s @ [v]\<rparr>) :: 'a coordinator prog_step"
  have rec: "appends (is_recv fd) (?rec fd)" "receives_word fd (?rec fd)" for fd
    by (rule receive_into_effects [OF law]; simp)+
  have no: "appends no_send (?rec fd)" for fd
    by (rule appends_mono [OF rec(1)]) simp
  show "sends_at_most r 0 (collect_tokens E fds)"
    unfolding collect_tokens_def by (rule sends_none) (use no in auto)
  show "receives_at_least q 8 (collect_tokens E fds)" if "q \<in> set fds"
    unfolding collect_tokens_def by (rule receives_member [OF _ rec(2) [of q], where C = no_send]) (use that no in auto)
qed

lemma collect_count: "run_steps (collect_tokens E fds) s = Some (e, s') \<Longrightarrow> length (cor_tokens s') \<le> length (cor_tokens s) + length fds"
  if law: "bounded_transfers E"
proof (induction fds arbitrary: s)
  case Nil
  then show ?case by (simp add: collect_tokens_def)
next
  case (Cons fd fds)
  let ?f = "receive_into E fd (\<lambda>v s. s\<lparr>cor_tokens := cor_tokens s @ [v]\<rparr>)"
  obtain e1 s1 where f: "?f s = Some (e1, s1)"
    using Cons.prems by (cases "?f s") (auto simp: collect_tokens_def)
  obtain rr u where w: "receive_word E fd s = Some (rr, u)"
    using f by (cases "receive_word E fd s") (auto simp: receive_into_def)
  have "cor_tokens u = cor_tokens s"
    by (subst moves_same [OF receive_word_moves(1) [OF law w]]) simp
  then have l: "length (cor_tokens s1) \<le> Suc (length (cor_tokens s))"
    using f w by (auto simp: receive_into_def split: sum.splits)
  show ?case
  proof (cases e1)
    case None
    with Cons.prems f have "run_steps (collect_tokens E fds) s1 = Some (e, s')"
      by (simp add: collect_tokens_def)
    from Cons.IH [OF this] l show ?thesis by simp
  next
    case (Some x)
    with Cons.prems f l show ?thesis
      by (simp add: collect_tokens_def)
  qed
qed

lemma phase_words:
  assumes law: "bounded_transfers E" and d: "distinct fds"
  shows "sends_at_most r 0 (map (\<lambda>fd. check_receive E fd (\<lambda>v. v = 0) what) fds)"
    "q \<in> set fds \<Longrightarrow> receives_at_least q 8 (map (\<lambda>fd. check_receive E fd (\<lambda>v. v = 0) what) fds)"
    "sends_at_most r 8 (barrier_phase E fds)" "q \<in> set fds \<Longrightarrow> receives_at_least q 8 (barrier_phase E fds)"
proof -
  note rec = check_receive_effects [OF law]
  have no: "appends no_send (check_receive E fd ok what)" for fd ok what
    by (rule appends_mono [OF rec(1)]) simp
  show s: "sends_at_most r 0 (map (\<lambda>fd. check_receive E fd (\<lambda>v. v = 0) what) fds)" for what
    by (rule sends_none) (auto intro: no)
  show v: "receives_at_least q 8 (map (\<lambda>fd. check_receive E fd (\<lambda>v. v = 0) what) fds)" if "q \<in> set fds" for what
    by (rule receives_member [OF _ rec(3) [of q "\<lambda>v. v = 0" what], where C = no_send]) (use that in \<open>auto intro: no\<close>)
  show "sends_at_most r 8 (barrier_phase E fds)"
    using sends_at_most_append [OF s sends_to_all [OF law d]] unfolding barrier_phase_def by simp
  have "receives_at_least q 0 (map (\<lambda>fd. send_word E fd 0) fds)"
    by (rule receives_none [where C = "\<lambda>_. True"]) (auto intro: appends_mono [OF send_const_effects(3) [OF law]])
  from receives_append [OF v this] show "receives_at_least q 8 (barrier_phase E fds)" if "q \<in> set fds"
    using that unfolding barrier_phase_def by simp
qed

text \<open>The exchange up to the point where every worker has been heard after \<open>j\<close> barriers.\<close>

definition last_heard :: "'w env \<Rightarrow> int list \<Rightarrow> nat \<Rightarrow> 'w coordinator prog_step list" where
  "last_heard E fds j = concat (replicate j (barrier_phase E fds)) @
     map (\<lambda>fd. check_receive E fd (\<lambda>v. v = 0) ''worker barrier arrived'') fds"

definition then_on :: "'w env \<Rightarrow> int list \<Rightarrow> nat \<Rightarrow> 'w coordinator prog_step list" where
  "then_on E fds j = map (\<lambda>fd. send_word E fd 0) fds @ concat (replicate (7 - j) (barrier_phase E fds))"

lemma coordinate_split:
  assumes "j < 8"
  shows "coordinate E s = run_steps (collect_tokens E (cor_sockets s) @ ([send_tokens E (cor_sockets s)] @
     last_heard E (cor_sockets s) j) @ then_on E (cor_sockets s) j) s"
proof -
  have b: "barriers = j + Suc (7 - j)"
    using assms by (simp add: barriers_def read_rounds_def)
  have "concat (replicate barriers x) = concat (replicate j x) @ x @ concat (replicate (7 - j) x)"
    for x :: "'a coordinator prog_step list"
    by (simp only: b replicate_add replicate_Suc concat_append concat.simps)
  then show ?thesis
    by (simp add: coordinate_def Let_def last_heard_def then_on_def) (simp add: barrier_phase_def)
qed

lemma last_heard_words:
  assumes law: "bounded_transfers E" and d: "distinct fds" and q: "q \<in> set fds"
  shows "sends_at_most r (8 * j) (last_heard E fds j)" "receives_at_least q (8 * j + 8) (last_heard E fds j)"
proof -
  note w = phase_words [OF law d]
  have c: "concat (replicate j (barrier_phase E fds)) = concat (map (\<lambda>_. barrier_phase E fds) [0..<j])"
    by (simp add: map_replicate_const)
  have "sends_at_most r (8 * length [0..<j] + 0) (last_heard E fds j)"
    unfolding last_heard_def c by (rule sends_at_most_append [OF sends_concat w(1)]) (rule w(3))
  then show "sends_at_most r (8 * j) (last_heard E fds j)" by simp
  have "receives_at_least q (8 * length [0..<j] + 8) (last_heard E fds j)"
    unfolding last_heard_def c by (rule receives_append [OF receives_concat w(2) [OF q]]) (rule w(4) [OF q])
  then show "receives_at_least q (8 * j + 8) (last_heard E fds j)" by simp
qed

text \<open>
  What a coordinator sends on \<open>r\<close> beyond the tokens and the words of \<open>j\<close> barriers, it sends after it has
  heard \<open>q\<close>'s token and \<open>Suc j\<close> words.
\<close>

definition relays :: "nat \<Rightarrow> nat \<Rightarrow> int \<Rightarrow> int \<Rightarrow> event list \<Rightarrow> bool" where
  "relays n j r q t \<longleftrightarrow> reached (sends_on r) (8 * (n + j)) (\<lambda>t. 8 * (j + 2) \<le> receives_on q t) t"

lemma few_relays: "sends_on r t \<le> 8 * (n + j) \<Longrightarrow> relays n j r q t"
  by (simp add: relays_def reached_def)

lemma coordinate_relays:
  assumes law: "bounded_transfers E" and run: "coordinate E s = Some (e, s')"
    and d: "distinct (cor_sockets s)" and q: "q \<in> set (cor_sockets s)" and s: "cor_tokens s = []" "sends_on r (trace_of s) = 0"
    and j: "j < 8"
  shows "relays (length (cor_sockets s)) j r q (trace_of s')"
proof -
  let ?fds = "cor_sockets s" and ?n = "length (cor_sockets s)"
  let ?last = "then_on E ?fds j"
  note parts = run [unfolded coordinate_split [OF j] run_steps_append [of "collect_tokens E ?fds"]]
  obtain e1 s1 where c: "run_steps (collect_tokens E ?fds) s = Some (e1, s1)"
    using parts by (cases "run_steps (collect_tokens E ?fds) s") auto
  note cw = collect_words [OF law, where fds = ?fds]
  obtain t1 where t1: "trace_of s1 = trace_of s @ t1" "sends_on r t1 = 0"
    using cw(1) c unfolding sends_at_most_def by blast
  show ?thesis
  proof (cases e1)
    case (Some x)
    with parts c t1 s(2) show ?thesis
      by (intro few_relays) simp
  next
    case None
    then have t1q: "8 \<le> receives_on q t1"
      using cw(2) [OF q] c t1(1) unfolding receives_at_least_def by fastforce
    have toks: "length (cor_tokens s1) \<le> ?n"
      using collect_count [OF law c] s(1) by simp
    let ?toks = "concat (map (\<lambda>d. map (send_word E d) (cor_tokens s1)) ?fds)"
    have r1: "run_steps ([send_tokens E ?fds] @ last_heard E ?fds j @ ?last) s1 = Some (e, s')"
      using parts c None by simp
    have st: "send_tokens E ?fds s1 = run_steps ?toks s1"
      by (simp add: send_tokens_def)
    obtain e2 s2 where x: "run_steps ?toks s1 = Some (e2, s2)"
      using r1 st by (cases "run_steps ?toks s1") auto
    obtain t2 where t2: "trace_of s2 = trace_of s1 @ t2" "sends_on r t2 \<le> 8 * length (cor_tokens s1)"
      using sends_tokens [OF law d] x unfolding sends_at_most_def by blast
    have few2: "sends_on r (trace_of s2) \<le> 8 * ?n"
      using t1 t2 s(2) toks by simp
    show ?thesis
    proof (cases e2)
      case (Some y)
      with r1 st x have "s' = s2" by simp
      with few2 show ?thesis
        by (intro few_relays) simp
    next
      case None
      with r1 st x have r2: "run_steps (last_heard E ?fds j @ ?last) s2 = Some (e, s')" by simp
      note lw = last_heard_words [OF law d q]
      obtain e3 s3 where y: "run_steps (last_heard E ?fds j) s2 = Some (e3, s3)"
        using r2 by (cases "run_steps (last_heard E ?fds j) s2") (auto simp: run_steps_append)
      obtain t3 where t3: "trace_of s3 = trace_of s2 @ t3" "sends_on r t3 \<le> 8 * j"
        using lw(1) y unfolding sends_at_most_def by blast
      have few3: "sends_on r (trace_of s3) \<le> 8 * (?n + j)"
        using few2 t3 by simp
      show ?thesis
      proof (cases e3)
        case (Some z)
        with r2 y few3 show ?thesis
          by (intro few_relays) (simp add: run_steps_append)
      next
        case None
        then have "8 * j + 8 \<le> receives_on q t3"
          using lw(2) y t3(1) unfolding receives_at_least_def by fastforce
        then have heard: "8 * (j + 2) \<le> receives_on q (trace_of s3)"
          using t1 t1q t2(1) t3(1) by simp
        have r3: "run_steps ?last s3 = Some (e, s')"
          using r2 y None by (simp add: run_steps_append)
        have "\<forall>f \<in> set ?last. appends (\<lambda>_. True) f"
          unfolding then_on_def barrier_phase_def
          by (auto intro: appends_mono [OF send_const_effects(3) [OF law]] appends_mono [OF check_receive_effects(1) [OF law]])
        from appendsD [OF appends_run [OF this] r3] obtain t4 where "trace_of s' = trace_of s3 @ t4"
          by metis
        with few3 heard show ?thesis
          unfolding relays_def reached_def by blast
      qed
    qed
  qed
qed

subsection \<open>The whole coordinator\<close>

lemma socket_starts_nothing: "is_send fd c \<Longrightarrow> starts_nothing c" "is_recv fd c \<Longrightarrow> starts_nothing c"
  by (auto simp: is_send_def is_recv_def starts_nothing_def)

lemma run_steps_appends:
  assumes "\<forall>f \<in> set fs. appends C f" and "run_steps fs s = Some (e, s')"
  shows "\<exists>ev. trace_of s' = trace_of s @ ev \<and> list_all C (map fst ev)"
  by (rule appendsD [OF appends_run [OF assms(1)] assms(2)]) blast

lemma coordinate_appends:
  assumes law: "bounded_transfers E"
  shows "appends starts_nothing (coordinate E)"
proof -
  have send: "appends starts_nothing (send_word E fd v)" for fd v
    by (rule appends_mono [OF send_const_effects(3) [OF law]]) (rule socket_starts_nothing)
  have recv: "appends starts_nothing (check_receive E fd ok what)" for fd ok what
    by (rule appends_mono [OF check_receive_effects(1) [OF law]]) (rule socket_starts_nothing)
  have tok: "appends starts_nothing (receive_into E fd (\<lambda>v s. s\<lparr>cor_tokens := cor_tokens s @ [v]\<rparr>))" for fd
    by (rule appends_mono [OF receive_into_effects(1) [OF law]]) (simp_all add: socket_starts_nothing)
  have tokens: "appends starts_nothing (send_tokens E fds)" for fds
  proof (rule appendsI)
    fix s e s'
    assume "send_tokens E fds s = Some (e, s')"
    then show "\<exists>ev. trace_of s' = trace_of s @ ev \<and> list_all starts_nothing (map fst ev)"
      unfolding send_tokens_def by (rule run_steps_appends [rotated]) (auto intro: send)
  qed
  show ?thesis
  proof (rule appendsI)
    fix s e s'
    assume "coordinate E s = Some (e, s')"
    then show "\<exists>ev. trace_of s' = trace_of s @ ev \<and> list_all starts_nothing (map fst ev)"
      unfolding coordinate_def Let_def
      by (rule run_steps_appends [rotated]) (auto simp: collect_tokens_def barrier_phase_def intro: tok tokens send recv)
  qed
qed

lemma coordinate_same:
  assumes law: "bounded_transfers E" and "coordinate E s = Some (e, s')"
  shows "cor_children s' = cor_children s" "cor_sockets s' = cor_sockets s"
proof -
  let ?get = "\<lambda>s :: 'a coordinator. (cor_children s, cor_sockets s)"
  have send: "leaves ?get (send_word E fd v)" for fd v
    by (rule send_const_effects(2) [OF law]) simp
  have recv: "leaves ?get (check_receive E fd ok what)" for fd ok what
    by (rule check_receive_effects(2) [OF law]) simp
  have tok: "leaves ?get (receive_into E fd (\<lambda>v s. s\<lparr>cor_tokens := cor_tokens s @ [v]\<rparr>))" for fd
    by (rule receive_into_effects(2) [OF law]) simp_all
  have tokens: "leaves ?get (send_tokens E fds)" for fds
  proof (rule leavesI)
    fix s e s'
    assume "send_tokens E fds s = Some (e, s')"
    then show "?get s' = ?get s"
      unfolding send_tokens_def by (rule leavesD [OF leaves_run, rotated]) (auto intro: send)
  qed
  have "?get s' = ?get s"
    by (rule leavesD [OF leaves_run assms(2) [unfolded coordinate_def Let_def]])
      (auto simp: collect_tokens_def barrier_phase_def intro: tok tokens send recv)
  then show "cor_children s' = cor_children s" "cor_sockets s' = cor_sockets s"
    by simp_all
qed

lemma quiet_proc: "is_proc c \<Longrightarrow> c \<noteq> Proc sys_socketpair \<Longrightarrow> c \<noteq> Proc sys_fork \<Longrightarrow> quiet_start c"
  by (simp add: starts_nothing_def)

text \<open>Waiting makes no other call than \<open>waitpid\<close>.\<close>

lemma wait_child_quiet:
  assumes "wait_child E child s = Some (ret, status, s')"
  shows "moves quiet_start s s'"
proof -
  define P :: "('a, 'b) probe_scheme \<Rightarrow> int \<times> u64 \<times> ('a, 'b) probe_scheme \<Rightarrow> bool"
    where "P = (\<lambda>s x. moves quiet_start s (snd (snd x)))"
  have "P s (ret, status, s')"
  proof (rule wait_child.raw_induct [OF _ assms])
    fix loop :: "'a env \<Rightarrow> int \<Rightarrow> ('a, 'b) probe_scheme \<Rightarrow> (int \<times> u64 \<times> ('a, 'b) probe_scheme) option"
      and E child s x
    assume IH: "\<And>E child s x. loop E child s = Some x \<Longrightarrow> P s x"
      and r: "(case probe_call E (Proc (sys_waitpid child)) s of (waited, status, s1) \<Rightarrow>
          if waited = - EINTR then loop E child s1 else Some (waited, status, s1)) = Some x"
    obtain w o1 s1 where c: "probe_call E (Proc (sys_waitpid child)) s = (w, o1, s1)"
      by (rule prod_cases3)
    have m: "moves quiet_start s s1"
      by (rule moves_call [OF _ c]) (simp add: starts_nothing_def)
    show "P s x"
    proof (cases "w = - EINTR")
      case True
      with r c have "loop E child s1 = Some x" by simp
      from IH [OF this] m show ?thesis
        unfolding P_def by (blast intro: moves_trans)
    next
      case False
      with r c have "x = (w, o1, s1)" by simp
      with m show ?thesis by (simp add: P_def)
    qed
  qed
  then show ?thesis by (simp add: P_def)
qed

lemma wait_children_quiet: "wait_children E pids b s = Some (failed, s') \<Longrightarrow> moves quiet_start s s'"
proof (induction pids arbitrary: b s)
  case Nil
  then show ?case by simp
next
  case (Cons pid pids)
  then obtain ret status s1 where w: "wait_child E pid s = Some (ret, status, s1)"
    "wait_children E pids (b \<or> ret < 0 \<or> \<not> exited_well status) s1 = Some (failed, s')"
    by (auto split: option.splits)
  from wait_child_quiet [OF w(1)] Cons.IH [OF w(2)] show ?case
    by (rule moves_trans)
qed

text \<open>The end of the coordinator: whether it gives up or not, it waits for all its children.\<close>

definition over :: "int \<Rightarrow> 'w coordinator \<Rightarrow> 'w coordinator \<Rightarrow> bool" where
  "over code s s' \<longleftrightarrow> moves quiet_start s s' \<and> waited_for (cor_children s) (trace_of s') \<and>
     (code = 0 \<longrightarrow> ended_well (cor_children s) (trace_of s')) \<and> code \<in> {0, 1, 2} \<and> (code = 2 \<longrightarrow> cor_children s = [])"

lemma abandon_over:
  assumes "abandon E s = Some (code, s')"
  shows "over code s s'" "code \<noteq> 0"
proof -
  let ?s0 = "close_all E (cor_sockets s) s"
  let ?s1 = "fold (\<lambda>pid. plain_call E (Proc (sys_kill pid))) (cor_children s) ?s0"
  obtain f where w: "wait_children E (cor_children s) False ?s1 = Some (f, s')"
    and c: "code = (if cor_children s = [] then 2 else 1)"
    using assms by (auto simp: abandon_def Let_def)
  have "moves quiet_start u (fold (\<lambda>pid. plain_call E (Proc (sys_kill pid))) pids u)" for u :: "'a coordinator" and pids
  proof (induction pids arbitrary: u)
    case Nil
    then show ?case by simp
  next
    case (Cons pid pids)
    have "moves quiet_start u (plain_call E (Proc (sys_kill pid)) u)"
      by (rule moves_plain) (simp add: starts_nothing_def)
    from moves_trans [OF this Cons.IH] show ?case by simp
  qed
  then have "moves quiet_start s ?s1"
    by (rule moves_trans [OF close_all_moves])
  from moves_trans [OF this wait_children_quiet [OF w]] wait_children_waits(1) [OF w] c
  show "over code s s'" "code \<noteq> 0"
    by (auto simp: over_def)
qed

lemma supervise_cases:
  assumes "supervise E s = Some (code, s')" and law: "bounded_transfers E"
  obtains e s1 where "coordinate E s = Some (e, s1)" "over code s1 s'"
proof -
  obtain e s1 where c: "coordinate E s = Some (e, s1)"
    using assms by (cases "coordinate E s") (auto simp: supervise_def)
  show thesis
  proof (cases e)
    case (Some x)
    with assms c have "abandon E s1 = Some (code, s')" by (simp add: supervise_def)
    from that [OF c abandon_over(1) [OF this]] show thesis .
  next
    case None
    with assms c obtain f where w: "wait_children E (cor_children s1) False (close_all E (cor_sockets s1) s1) = Some (f, s')"
      and code: "code = (if f then 1 else 0)"
      by (auto simp: supervise_def)
    have "over code s1 s'"
      using moves_trans [OF close_all_moves wait_children_quiet [OF w]] wait_children_waits [OF w] code
      by (auto simp: over_def)
    from that [OF c this] show thesis .
  qed
qed

text \<open>Both results, for the coordinator from its beginning.\<close>

lemma cor_init_simps [simp]:
  "sys_of (cor_init s) = sys_of s" "trace_of (cor_init s) = trace_of s" "cor_sockets (cor_init s) = []"
  "cor_children (cor_init s) = []" "cor_tokens (cor_init s) = []"
  by (simp_all add: cor_init_def probe.defs coordinator.defs trace_of_def)

lemma quiet_trace:
  assumes "moves quiet_start s s'"
  shows "sends_on r (trace_of s') = sends_on r (trace_of s)" "forked (trace_of s') = forked (trace_of s)"
    "\<exists>ev. trace_of s' = trace_of s @ ev"
proof -
  obtain ev where ev: "trace_of s' = trace_of s @ ev" "list_all quiet_start (map fst ev)"
    using moves_trace [OF assms] by blast
  then have "sends_on r ev = 0"
    by (intro no_send_sends) (auto simp: list_all_iff is_start_no_send)
  moreover have "forked ev = []"
    using starts_nothing_trace(2) [of ev] ev(2) by (simp add: list_all_iff)
  ultimately show "sends_on r (trace_of s') = sends_on r (trace_of s)" "forked (trace_of s') = forked (trace_of s)"
    "\<exists>ev. trace_of s' = trace_of s @ ev"
    using ev(1) by simp_all
qed

lemma start_done_sends: "start_done ev s s' \<Longrightarrow> sends_on r ev = 0"
  by (rule no_send_sends) (auto simp: start_done_def list_all_iff is_start_no_send)

lemma run_coordinator_cases:
  assumes "run_coordinator E args n s = Some (x, s')"
  obtains (child) s1 where "start_workers E args [0..<n] (cor_init s) = Child x s1" "s' = probe.truncate s1"
  | (broken) s1 code s2 where "start_workers E args [0..<n] (cor_init s) = Broken s1" "abandon E s1 = Some (code, s2)"
      "x = Exit code" "s' = probe.truncate s2"
  | (supervised) s1 code s2 where "start_workers E args [0..<n] (cor_init s) = Started s1" "supervise E s1 = Some (code, s2)"
      "x = Exit code" "s' = probe.truncate s2"
  using assms by (auto simp: run_coordinator_def split: started.splits)

lemma coordinator_relays:
  assumes law: "bounded_transfers E" and run: "run_coordinator E args n s = Some (x, s')"
    and z: "pair_words (trace_of s) = []" "\<And>fd. sends_on fd (trace_of s) = 0"
    and p: "length (pair_words (trace_of s')) = n" "distinct (map low_fd (pair_words (trace_of s')))"
    and rq: "r < n" "q < n" and j: "j < 8"
  shows "relays n j (low_fd (pair_words (trace_of s') ! r)) (low_fd (pair_words (trace_of s') ! q)) (trace_of s')"
  using run
proof (cases rule: run_coordinator_cases)
  case (child s1)
  obtain ev where ev: "start_done ev (cor_init s) s1"
    using start_workers_done(3) [OF child(1)] by blast
  have "sends_on fd ev = 0" for fd
    by (rule start_done_sends [OF ev])
  then have "sends_on fd (trace_of s') = 0" for fd
    using ev z(2) by (simp add: child(2) start_done_def)
  then show ?thesis
    by (intro few_relays) simp
next
  case (broken s1 code s2)
  obtain ev where ev: "start_done ev (cor_init s) s1"
    using start_workers_done(2) [OF broken(1)] by blast
  have "moves quiet_start s1 s2"
    using abandon_over(1) [OF broken(2)] by (simp add: over_def)
  note q = quiet_trace(1) [OF this]
  have "sends_on fd ev = 0" for fd
    by (rule start_done_sends [OF ev])
  then have "sends_on fd (trace_of s') = 0" for fd
    using q z(2) ev by (simp add: broken(4) start_done_def)
  then show ?thesis
    by (intro few_relays) simp
next
  case (supervised s1 code s2)
  obtain ev where ev: "start_done ev (cor_init s) s1" "length (pair_words ev) = n" "cor_sockets s1 = map low_fd (pair_words ev)"
    using start_workers_done(1) [OF supervised(1)] by auto
  obtain e s3 where c: "coordinate E s1 = Some (e, s3)" and o: "over code s3 s2"
    by (rule supervise_cases [OF supervised(2) law])
  have t1: "trace_of s1 = trace_of s @ ev"
    using ev(1) by (simp add: start_done_def)
  obtain t3 where t3: "trace_of s3 = trace_of s1 @ t3"
    by (rule appendsD [OF coordinate_appends [OF law] c]) blast
  have m: "moves quiet_start s3 s2"
    using o by (simp add: over_def)
  obtain t4 where t4: "trace_of s' = trace_of s3 @ t4"
    using quiet_trace(3) [OF m] by (auto simp: supervised(4))
  have pw: "pair_words (trace_of s') = pair_words ev"
    using p(1) ev(2) z(1) by (simp add: t4 t3 t1)
  let ?r = "low_fd (pair_words ev ! r)" and ?q = "low_fd (pair_words ev ! q)"
  have "relays n j ?r ?q (trace_of s3)"
  proof -
    have "sends_on ?r ev = 0"
      by (rule start_done_sends [OF ev(1)])
    then have "distinct (cor_sockets s1)" "?q \<in> set (cor_sockets s1)" "cor_tokens s1 = []" "sends_on ?r (trace_of s1) = 0"
      using p(2) pw ev rq z(2) by (auto simp: start_done_def)
    from coordinate_relays [OF law c this j] show ?thesis
      using ev(2,3) by simp
  qed
  then have "relays n j ?r ?q (trace_of s3 @ t4)"
    unfolding relays_def
    by (rule reached_append) (use quiet_trace(1) [OF m, of ?r] t4 in \<open>simp add: supervised(4)\<close>)
  then show ?thesis
    unfolding pw by (simp add: t4)
qed

lemma start_workers_children:
  "start_workers E args ranks s = Started s' \<Longrightarrow> length (cor_children s') = length (cor_children s) + length ranks"
proof (induction ranks arbitrary: s)
  case Nil
  then show ?case by simp
next
  case (Cons rank ranks)
  have one: "length (cor_children s1) = Suc (length (cor_children s))" if "start_worker E args rank s = Started s1" for s s1
    using start_worker_done(1) [OF that] that
    by (auto simp: start_worker_def Let_def split: prod.splits if_splits)
  from Cons.prems obtain s1 where "start_worker E args rank s = Started s1" "start_workers E args ranks s1 = Started s'"
    by (auto split: started.splits)
  with one Cons.IH show ?case by simp
qed

lemma coordinator_waits:
  assumes law: "bounded_transfers E" and run: "run_coordinator E args n s = Some (Exit code, s')"
    and z: "forked (trace_of s) = []" and c: "code \<notin> {125, 127}"
  shows "waited_for (forked (trace_of s')) (trace_of s')" "code = 0 \<Longrightarrow> ended_well (forked (trace_of s')) (trace_of s')"
    "code \<in> {0, 1, 2}" "code = 2 \<Longrightarrow> forked (trace_of s') = []" "code = 0 \<Longrightarrow> length (forked (trace_of s')) = n"
proof -
  have "waited_for (forked (trace_of s')) (trace_of s') \<and> (code = 0 \<longrightarrow> ended_well (forked (trace_of s')) (trace_of s')) \<and>
    code \<in> {0, 1, 2} \<and> (code = 2 \<longrightarrow> forked (trace_of s') = []) \<and> (code = 0 \<longrightarrow> length (forked (trace_of s')) = n)"
    using run
  proof (cases rule: run_coordinator_cases)
    case (child s1)
    with start_workers_done(3) [OF child(1)] c show ?thesis by auto
  next
    case (broken s1 code' s2)
    obtain ev where ev: "start_done ev (cor_init s) s1"
      using start_workers_done(2) [OF broken(1)] by blast
    have o: "over code s1 s2" "code \<noteq> 0"
      using abandon_over [OF broken(2)] broken(3) by simp_all
    then have "forked (trace_of s') = cor_children s1"
      using quiet_trace(2) [of s1 s2] ev z by (simp add: over_def broken(4) start_done_def)
    with o show ?thesis
      by (simp add: over_def broken(4))
  next
    case (supervised s1 code' s2)
    obtain ev where ev: "start_done ev (cor_init s) s1"
      using start_workers_done(1) [OF supervised(1)] by blast
    obtain e s3 where cr: "coordinate E s1 = Some (e, s3)" and o: "over code s3 s2"
      using supervise_cases [OF supervised(2) law] supervised(3) by auto
    obtain t3 where "trace_of s3 = trace_of s1 @ t3" "list_all starts_nothing (map fst t3)"
      by (rule appendsD [OF coordinate_appends [OF law] cr])
    then have "forked (trace_of s3) = cor_children s3"
      using ev z starts_nothing_trace(2) coordinate_same(1) [OF law cr] by (simp add: start_done_def)
    then have f: "forked (trace_of s') = cor_children s3"
      using quiet_trace(2) [of s3 s2] o by (simp add: over_def supervised(4))
    have "length (cor_children s3) = n"
      using start_workers_children [OF supervised(1)] coordinate_same(1) [OF law cr] by simp
    with f o show ?thesis
      by (simp add: over_def supervised(4))
  qed
  then show "waited_for (forked (trace_of s')) (trace_of s')" "code = 0 \<Longrightarrow> ended_well (forked (trace_of s')) (trace_of s')"
    "code \<in> {0, 1, 2}" "code = 2 \<Longrightarrow> forked (trace_of s') = []" "code = 0 \<Longrightarrow> length (forked (trace_of s')) = n"
    by blast+
qed

end
