(* ===== verification/Multi_Safety.thy ===== *)
theory Multi_Safety
  imports Multi_Coordinator
begin

text \<open>
  Coordinator and workers of src/multi_share.cpp together. An execution of all of them is a list of
  their events in the order in which they happened, each with the process it belongs to: \<open>None\<close> is the
  coordinator, \<open>Some r\<close> the worker of rank \<open>r\<close>. Over each socket pair no byte is received before it was
  sent. Then no worker that passes releases a handle before every worker has unmapped every slice.
  The second section is the way from the coordinator's arguments to a worker's options.
\<close>

subsection \<open>Executions of all processes\<close>

definition events_of :: "nat option \<Rightarrow> (nat option \<times> event) list \<Rightarrow> event list" where
  "events_of p t = map snd (filter (\<lambda>x. fst x = p) t)"

definition woven_all :: "event list \<Rightarrow> event list list \<Rightarrow> (nat option \<times> event) list \<Rightarrow> bool" where
  "woven_all tc tws t \<longleftrightarrow> events_of None t = tc \<and> (\<forall>r < length tws. events_of (Some r) t = tws ! r)"

text \<open>What holds of one socket pair after a part of the execution.\<close>

definition pair_causal :: "u64 \<Rightarrow> nat \<Rightarrow> (nat option \<times> event) list \<Rightarrow> bool" where
  "pair_causal pair r t \<longleftrightarrow>
     receives_on (low_fd pair) (events_of None t) \<le> sends_on (high_fd pair) (events_of (Some r) t) \<and>
     receives_on (high_fd pair) (events_of (Some r) t) \<le> sends_on (low_fd pair) (events_of None t)"

definition causal_all :: "u64 list \<Rightarrow> (nat option \<times> event) list \<Rightarrow> bool" where
  "causal_all pairs t \<longleftrightarrow> (\<forall>k \<le> length t. \<forall>r < length pairs. pair_causal (pairs ! r) r (take k t))"

definition released_by :: "nat \<Rightarrow> (nat option \<times> event) list \<Rightarrow> bool" where
  "released_by r t \<longleftrightarrow> (\<exists>e \<in> set (events_of (Some r) t). is_handle_release (fst e))"

lemma events_of_take:
  obtains rest where "events_of p t = events_of p (take k t) @ rest"
proof -
  have "events_of p t = events_of p (take k t) @ events_of p (drop k t)"
    by (simp add: events_of_def flip: map_append filter_append)
  then show thesis by (rule that)
qed

lemma released_prefix:
  assumes t: "released_after fd n (u @ v)" and e: "e \<in> set u" "is_handle_release (fst e)"
  shows "n \<le> receives_on fd u"
proof -
  obtain t1 t2 where t1: "u @ v = t1 @ t2" "n \<le> receives_on fd t1" "list_all (\<lambda>c. \<not> is_handle_release c) (map fst t1)"
    using t unfolding released_after_def by blast
  then consider us where "u @ us = t1" | us where "u = t1 @ us"
    by (metis append_eq_append_conv2)
  then show ?thesis
  proof cases
    case 1
    with e t1(3) show ?thesis by (auto simp: list_all_iff)
  next
    case 2
    with t1(2) show ?thesis by simp
  qed
qed

text \<open>
  A worker \<open>r\<close> that has received a word of the barrier number \<open>Suc j\<close> has it from the coordinator, who had
  heard then that \<open>q\<close> has arrived there.
\<close>

lemma barrier_passed:
  assumes cor: "relays n j (low_fd (pairs ! r)) (low_fd (pairs ! q)) (events_of None t)"
    and caus: "causal_all pairs t" and k: "k \<le> length t" and rq: "r < length pairs" "q < length pairs"
    and passed: "8 * (n + j) < receives_on (high_fd (pairs ! r)) (events_of (Some r) (take k t))"
  shows "8 * (j + 2) \<le> sends_on (high_fd (pairs ! q)) (events_of (Some q) (take k t))"
proof -
  have cr: "pair_causal (pairs ! r) r (take k t)" and cq: "pair_causal (pairs ! q) q (take k t)"
    using caus k rq by (simp_all add: causal_all_def)
  obtain vc where vc: "events_of None t = events_of None (take k t) @ vc" by (rule events_of_take)
  have sent: "8 * (n + j) < sends_on (low_fd (pairs ! r)) (events_of None (take k t))"
    using passed cr by (simp add: pair_causal_def)
  have "8 * (j + 2) \<le> receives_on (low_fd (pairs ! q)) (events_of None (take k t))"
    by (rule reached_prefix [OF cor [unfolded relays_def] vc sent]) simp_all
  then show ?thesis
    using cq by (simp add: pair_causal_def)
qed

text \<open>The chain of the argument: worker \<open>r\<close>, the coordinator, worker \<open>q\<close>.\<close>

lemma barrier_chain:
  assumes rel: "released_after (high_fd (pairs ! r)) (8 * (n + 8)) (events_of (Some r) t)"
    and cor: "relays n 7 (low_fd (pairs ! r)) (low_fd (pairs ! q)) (events_of None t)"
    and wq: "reached (sends_on (high_fd (pairs ! q))) 64 (all_unmapped bytes n) (events_of (Some q) t)"
    and caus: "causal_all pairs t" and k: "k \<le> length t" and rq: "r < length pairs" "q < length pairs"
    and rb: "released_by r (take k t)"
  shows "all_unmapped bytes n (events_of (Some q) (take k t))"
proof -
  obtain vr where vr: "events_of (Some r) t = events_of (Some r) (take k t) @ vr" by (rule events_of_take)
  obtain vq where vq: "events_of (Some q) t = events_of (Some q) (take k t) @ vq" by (rule events_of_take)
  have "8 * (n + 8) \<le> receives_on (high_fd (pairs ! r)) (events_of (Some r) (take k t))"
    using rb released_prefix [OF rel [unfolded vr]] unfolding released_by_def by blast
  then have "64 < sends_on (high_fd (pairs ! q)) (events_of (Some q) (take k t))"
    using barrier_passed [OF cor caus k rq] by simp
  then show ?thesis
    by (rule reached_prefix [OF wq vq]) (auto intro: all_unmapped_mono)
qed

subsection \<open>From the coordinator's arguments to a worker's options\<close>

lemma multi_scan_append:
  "multi_scan args opt = Multi_Ok opt' \<Longrightarrow> multi_scan (args @ later) opt = multi_scan later opt'"
  by (induction args opt rule: multi_scan.induct) (auto split: if_splits sum.splits)

lemma number_small:
  assumes "0 \<le> n" "n < 2 ^ 31"
  shows "number (to_string_int n) = Inr (of_int n)" "uint (of_int n :: u64) = n" "\<not> (of_int n :: u64) > INT_MAX"
proof -
  show "number (to_string_int n) = Inr (of_int n)"
    by (rule number_to_string_int [OF assms])
  show u: "uint (of_int n :: u64) = n"
    using assms by (simp add: uint_word_of_int)
  then show "\<not> (of_int n :: u64) > INT_MAX"
    using assms by (simp add: INT_MAX_def word_less_def)
qed

definition worker_options :: "multi_options \<Rightarrow> nat \<Rightarrow> u64 \<Rightarrow> multi_options" where
  "worker_options opt rank pair = opt\<lparr>mo_rank := int rank, mo_fd := high_fd pair\<rparr>"

lemma worker_scan:
  assumes "multi_scan args multi_defaults = Multi_Ok opt" and "rank < 2 ^ 31" and "0 \<le> high_fd pair"
  shows "multi_scan (worker_args args rank pair) multi_defaults = Multi_Ok (worker_options opt rank pair)"
proof -
  have r: "nat_to_string rank = to_string_int (int rank)"
    by (simp add: to_string_int_def)
  have "int rank < 2 ^ 31"
    using assms(2) by simp
  note rank = number_small [OF _ this] and fd = number_small [OF assms(3) high_fd_bound]
  have 1: "multi_set ''--rank'' (nat_to_string rank) opt = Inr (opt\<lparr>mo_rank := int rank\<rparr>)"
    using rank unfolding r by (simp add: multi_set_def)
  have 2: "multi_set ''--worker-fd'' (to_string_int (high_fd pair)) opt' = Inr (opt'\<lparr>mo_fd := high_fd pair\<rparr>)" for opt'
    using fd by (simp add: multi_set_def)
  show ?thesis
    unfolding worker_args_def multi_scan_append [OF assms(1)]
    by (simp add: 1 2 worker_options_def)
qed

lemma worker_options_simps [simp]:
  "mo_devices (worker_options opt r p) = mo_devices opt" "mo_nodes (worker_options opt r p) = mo_nodes opt"
  "mo_bytes (worker_options opt r p) = mo_bytes opt" "mo_rank (worker_options opt r p) = int r"
  "mo_fd (worker_options opt r p) = high_fd p" "multi_bad (worker_options opt r p) = multi_bad opt"
  by (simp_all add: worker_options_def multi_bad_def total_bytes_def)

lemma multi_main_worker:
  assumes "multi_scan args multi_defaults = Multi_Ok opt" "\<not> multi_bad opt" "rank < mo_count opt" "0 \<le> high_fd pair"
  shows "multi_main E M (worker_args args rank pair) s =
    (case probe_call E (Proc (sys_getenv ''ASCEND_RT_VISIBLE_DEVICES'')) s of
       (_, p, s1) \<Rightarrow> if p \<noteq> nullptr then Some (Exit 2, s1)
         else map_option (\<lambda>(code, t). (Exit code, t)) (mul_worker E M (worker_options opt rank pair) s1))"
proof -
  have "rank < 2 ^ 31"
    using assms(2,3) by (simp add: multi_bad_def)
  with assms show ?thesis
    by (simp add: multi_main_def worker_scan split: prod.splits)
qed

text \<open>What a child process of the coordinator is replaced by.\<close>

lemma multi_replaced:
  assumes run: "multi_main E M args s = Some (Replaced args', s')" and law: "bounded_transfers E"
    and s: "trace_of s = []"
  obtains opt rank where "multi_scan args multi_defaults = Multi_Ok opt" "\<not> multi_bad opt" "mo_rank opt < 0" "mo_fd opt < 0"
    "rank < mo_count opt" "length (pair_words (trace_of s')) = Suc rank"
    "args' = worker_args args rank (pair_words (trace_of s') ! rank)"
proof -
  obtain r p s1 where c: "probe_call E (Proc (sys_getenv ''ASCEND_RT_VISIBLE_DEVICES'')) s = (r, p, s1)"
    by (rule prod_cases3)
  from run c obtain opt where opt: "multi_scan args multi_defaults = Multi_Ok opt" "\<not> multi_bad opt"
      "mo_rank opt < 0" "mo_fd opt < 0" and co: "run_coordinator E args (mo_count opt) s1 = Some (Replaced args', s')"
    by (auto simp: multi_main_def split: multi_parsed.splits if_splits)
  have p1: "pair_words (trace_of s1) = []"
    using probe_call_trace [OF c] s by (simp add: pair_words_def)
  from co show thesis
  proof (cases rule: run_coordinator_cases)
    case (child s2)
    obtain ev k where ev: "start_done ev (cor_init s1) s2" "k < mo_count opt" "length (pair_words ev) = Suc k"
      "Replaced args' = Replaced (worker_args args k (pair_words ev ! k))"
      using start_workers_done(3) [OF child(1)] by auto
    have "pair_words (trace_of s') = pair_words ev"
      using ev(1) p1 by (simp add: child(2) start_done_def)
    with ev opt show thesis
      by (intro that) simp_all
  qed simp_all
qed

end
