(* ===== verification/Probe_Examples.thy ===== *)
theory Probe_Examples
  imports Host_Uva_Facts Hal_Host_Io_Facts Host_Share_Facts Multi_Safety
begin

unbundle bit_operations_syntax

text \<open>
  A small machine on which the sharing probes run: memory that is read and written by words, files of
  words, addresses and handles dealt out upwards, and a peer whose words are given in advance, each
  with what the peer has written into shared memory by then. The properties with hypotheses are shown
  to apply to its runs.
\<close>

record toy =
  toy_mem :: "(u64 \<times> u64) list"
  toy_file :: "(u64 \<times> u64) list"
  toy_next :: u64
  toy_inbox :: "(u64 \<times> (u64 \<times> u64) list) list"
  toy_chunk :: u64
  toy_fd :: u64
  toy_device :: u64
  toy_is_child :: bool

definition no_words :: "(u64 \<times> u64) list" where
  "no_words = []"

definition toy_load :: "(u64 \<times> u64) list \<Rightarrow> u64 \<Rightarrow> u64" where
  "toy_load m a = (case map_of m a of None \<Rightarrow> 0 | Some v \<Rightarrow> v)"

text \<open>The words that \<open>n\<close> bytes touch, by their offsets.\<close>

definition word_offsets :: "u64 \<Rightarrow> u64 list" where
  "word_offsets n = map (\<lambda>i. of_nat (8 * i)) [0..<unat ((n + 7) div 8)]"

text \<open>\<open>n\<close> bytes from \<open>src\<close> in one memory to \<open>dst\<close> in another.\<close>

definition toy_copy :: "u64 \<Rightarrow> (u64 \<times> u64) list \<Rightarrow> u64 \<Rightarrow> u64 \<Rightarrow> (u64 \<times> u64) list \<Rightarrow> (u64 \<times> u64) list" where
  "toy_copy dst from src n to_mem = map (\<lambda>o'. (dst + o', toy_load from (src + o'))) (word_offsets n) @ to_mem"

definition toy_set :: "u64 \<Rightarrow> u64 \<Rightarrow> (u64 \<times> u64) list \<Rightarrow> (u64 \<times> u64) list" where
  "toy_set p n m = map (\<lambda>o'. (p + o', 0)) (word_offsets n) @ m"

definition toy_deal :: "toy \<Rightarrow> int \<times> u64 \<times> toy" where
  "toy_deal w = (0, toy_next w, w\<lparr>toy_next := toy_next w + 2 ^ 30\<rparr>)"

definition toy_done :: "toy \<Rightarrow> int \<times> u64 \<times> toy" where
  "toy_done w = (0, 0, w)"

definition toy_in_mem :: "((u64 \<times> u64) list \<Rightarrow> (u64 \<times> u64) list) \<Rightarrow> toy \<Rightarrow> int \<times> u64 \<times> toy" where
  "toy_in_mem f w = (0, 0, w\<lparr>toy_mem := f (toy_mem w)\<rparr>)"

definition toy_cpu :: "cpu_call \<Rightarrow> toy \<Rightarrow> int \<times> u64 \<times> toy" where
  "toy_cpu c w = (case c of
     cpu_load n a \<Rightarrow> (0, toy_load (toy_mem w) a, w)
   | cpu_store n a v \<Rightarrow> toy_in_mem (\<lambda>m. (a, v) # m) w
   | c_memset a b n \<Rightarrow> toy_in_mem (toy_set a n) w
   | vector_new n \<Rightarrow> toy_deal w
   | posix_memalign a n \<Rightarrow> toy_deal w
   | _ \<Rightarrow> toy_done w)"

definition toy_acl :: "acl_call \<Rightarrow> toy \<Rightarrow> int \<times> u64 \<times> toy" where
  "toy_acl c w = (case c of
     aclrtGetCurrentContext \<Rightarrow> (0, 1, w)
   | aclrtGetDevice \<Rightarrow> (0, toy_device w, w)
   | aclrtMalloc n \<Rightarrow> toy_deal w
   | aclrtMallocHost n \<Rightarrow> toy_deal w
   | aclrt_create k \<Rightarrow> toy_deal w
   | aclrtMemcpy dst n src m k \<Rightarrow> toy_in_mem (\<lambda>x. toy_copy dst x src m x) w
   | aclrtMemcpyAsync dst n src m k st \<Rightarrow> toy_in_mem (\<lambda>x. toy_copy dst x src m x) w
   | aclrtMemset dst n b m \<Rightarrow> toy_in_mem (toy_set dst m) w
   | _ \<Rightarrow> toy_done w)"

definition toy_hal :: "hal_call \<Rightarrow> toy \<Rightarrow> int \<times> u64 \<times> toy" where
  "toy_hal c w = (case c of
     halMemcpy dst n src m k d \<Rightarrow> toy_in_mem (\<lambda>x. toy_copy dst x src m x) w
   | drvMemGetAttribute p \<Rightarrow> (0, toy_device w, w)
   | sys_dlopen f \<Rightarrow> (0, 1, w)
   | sys_dlsym l f \<Rightarrow> (0, if l = nullptr then nullptr else 1, w)
   | _ \<Rightarrow> toy_done w)"

definition toy_block :: "aio_block \<Rightarrow> toy \<Rightarrow> toy" where
  "toy_block b w =
     (if blk_write b then w\<lparr>toy_file := toy_copy (blk_offset b) (toy_mem w) (blk_buf b) (blk_nbytes b) (toy_file w)\<rparr>
      else w\<lparr>toy_mem := toy_copy (blk_buf b) (toy_file w) (blk_offset b) (blk_nbytes b) (toy_mem w)\<rparr>)"

definition toy_io :: "io_call \<Rightarrow> toy \<Rightarrow> int \<times> u64 \<times> toy" where
  "toy_io c w = (case c of
     sys_send fd v n \<Rightarrow> (int n, 0, w)
   | sys_recv fd n \<Rightarrow>
       (case toy_inbox w of [] \<Rightarrow> (0, 0, w)
        | (v, news) # rest \<Rightarrow> (int n, v, w\<lparr>toy_inbox := rest, toy_mem := news @ toy_mem w\<rparr>))
   | sys_io_setup n \<Rightarrow> (0, 1, w)
   | sys_io_submit x bs \<Rightarrow> (int (length bs), 0, (fold toy_block bs w)\<lparr>toy_chunk := blk_nbytes (hd bs)\<rparr>)
   | sys_io_getevents x n \<Rightarrow> (int n, 0, w)
   | io_event_data i \<Rightarrow> (0, of_nat i, w)
   | io_event_res i \<Rightarrow> (uint (toy_chunk w), 0, w)
   | sys_open p fl \<Rightarrow> (9, 0, w)
   | sys_ftruncate fd n \<Rightarrow> (0, 0, w\<lparr>toy_file := no_words\<rparr>)
   | sys_pwrite fd a n o' \<Rightarrow> (uint n, 0, w\<lparr>toy_file := toy_copy o' (toy_mem w) a n (toy_file w)\<rparr>)
   | sys_pread fd a n o' \<Rightarrow> (uint n, 0, w\<lparr>toy_mem := toy_copy a (toy_file w) o' n (toy_mem w)\<rparr>)
   | _ \<Rightarrow> toy_done w)"

text \<open>The first socket pair is made of the descriptors 5 and 6, the next one of 7 and 8.\<close>

definition toy_proc :: "proc_call \<Rightarrow> toy \<Rightarrow> int \<times> u64 \<times> toy" where
  "toy_proc c w = (case c of
     sys_getpid \<Rightarrow> (70, 0, w)
   | sys_socketpair \<Rightarrow> (0, push_bit 32 (toy_fd w + 1) OR toy_fd w, w\<lparr>toy_fd := toy_fd w + 2\<rparr>)
   | sys_getppid \<Rightarrow> (70, 0, w)
   | sys_fork \<Rightarrow> (if toy_is_child w then 0 else 70 + uint (toy_fd w), 0, w)
   | sys_waitpid pid \<Rightarrow> (pid, 0, w)
   | affinity_word i \<Rightarrow> (0, 3, w)
   | _ \<Rightarrow> toy_done w)"

definition toy_fn :: "native \<Rightarrow> toy \<Rightarrow> int \<times> u64 \<times> toy" where
  "toy_fn c w = (case c of
     aclrtSetDevice i \<Rightarrow> (0, 0, w\<lparr>toy_device := of_int i\<rparr>)
   | halMemAddressReserve p n a q f \<Rightarrow> toy_deal w
   | halMemCreate h n p f \<Rightarrow> toy_deal w
   | halMemImportFromShareableHandle t h d \<Rightarrow> toy_deal w
   | halMemExportToShareableHandle h f t \<Rightarrow> (0, 77, w)
   | Cpu x \<Rightarrow> toy_cpu x w
   | Hal x \<Rightarrow> toy_hal x w
   | Acl x \<Rightarrow> toy_acl x w
   | Io x \<Rightarrow> toy_io x w
   | Proc x \<Rightarrow> toy_proc x w
   | _ \<Rightarrow> toy_done w)"

definition toy_env :: "toy env" where
  "toy_env = \<lparr>native_fn = toy_fn, clock_step = (\<lambda>n. 1), can_alloc = (\<lambda>n. True), ACL_ERROR_REPEAT_INITIALIZE = 100002\<rparr>"

text \<open>
  The first range dealt out starts at 1 GiB. Of the two processes that a fork leaves, this is the parent
  or, with \<open>toy_child\<close>, the child.
\<close>

definition toy_world :: "bool \<Rightarrow> (u64 \<times> (u64 \<times> u64) list) list \<Rightarrow> toy probe" where
  "toy_world child inbox =
     \<lparr>sys_of = \<lparr>drv = \<lparr>toy_mem = [], toy_file = [], toy_next = 2 ^ 30, toy_inbox = inbox, toy_chunk = 0, toy_fd = 5,
          toy_device = 0, toy_is_child = child\<rparr>,
        trace = [], stdin_lines = [], stdout_lines = [], clk = 0, ticks = 0\<rparr>, cleanup_failed = False\<rparr>"

abbreviation toy_start :: "(u64 \<times> (u64 \<times> u64) list) list \<Rightarrow> toy probe" where
  "toy_start \<equiv> toy_world False"

abbreviation toy_child :: "toy probe" where
  "toy_child \<equiv> toy_world True []"

subsection \<open>Evaluation\<close>

text \<open>
  The machine never interrupts a call and transfers everything at once, so the loops over system
  calls are one call each. \<open>run_cong\<close> keeps the simplifier from working on statements that have not
  been reached, \<open>kept_cong\<close> from working on what is finished.
\<close>

lemma toy_env_fn [simp]: "native_fn toy_env = toy_fn"
  by (simp add: toy_env_def)

definition kept :: "'a \<Rightarrow> 'a" where
  "kept x = x"

lemma kept_cong: "kept x = kept x"
  by simp

lemma toy_probe_call:
  "probe_call toy_env c \<lparr>sys_of = \<lparr>drv = w, trace = kept tr, stdin_lines = i, stdout_lines = o', clk = n, ticks = k\<rparr>,
      cleanup_failed = b, \<dots> = x\<rparr> =
   (case toy_fn c w of (ret, out, w') \<Rightarrow> (ret, out,
      \<lparr>sys_of = \<lparr>drv = w', trace = kept (tr @ [(c, ret, out)]), stdin_lines = i, stdout_lines = o', clk = n, ticks = k\<rparr>,
        cleanup_failed = b, \<dots> = x\<rparr>))"
  by (simp add: kept_def probe_call_def call_def split: prod.splits)

lemma toy_start_kept:
  "toy_world child inbox =
     \<lparr>sys_of = \<lparr>drv = \<lparr>toy_mem = kept [], toy_file = kept [], toy_next = 2 ^ 30, toy_inbox = kept inbox,
          toy_chunk = 0, toy_fd = 5, toy_device = 0, toy_is_child = child\<rparr>,
        trace = kept [], stdin_lines = [], stdout_lines = [], clk = 0, ticks = 0\<rparr>, cleanup_failed = False\<rparr>"
  by (simp add: toy_world_def kept_def)

lemma kept_memory:
  "no_words = kept []" "x # kept m = kept (x # m)" "toy_load (kept []) a = 0"
  "toy_load (kept ((k, v) # m)) a = (if a = k then v else toy_load (kept m) a)"
  "(case kept [] of [] \<Rightarrow> z | x # xs \<Rightarrow> f x xs) = z" "(case kept (y # ys) of [] \<Rightarrow> z | x # xs \<Rightarrow> f x xs) = f y (kept ys)"
  by (simp_all add: kept_def no_words_def toy_load_def)

lemmas toy_fns = toy_fn_def toy_cpu_def toy_hal_def toy_io_def toy_acl_def toy_proc_def toy_deal_def toy_done_def
  toy_in_mem_def toy_copy_def toy_set_def word_offsets_def toy_block_def

lemma toy_plain_send: "probe_call toy_env (Io (sys_send fd v n)) s = (int n, 0, plain_call toy_env (Io (sys_send fd v n)) s)"
  by (simp add: plain_call_def probe_call_def call_def toy_fns)

lemma toy_recv_result:
  "probe_call toy_env (Io (sys_recv fd n)) s = (r, v, s1) \<Longrightarrow> r = (if toy_inbox (drv (sys_of s)) = [] then 0 else int n)"
  by (auto simp: probe_call_def call_def toy_fns split: list.splits)

lemma toy_hm_send: "hm_send_word toy_env fd v s = Some (None, plain_call toy_env (Io (sys_send fd v 8)) s)"
  by (subst hm_send_word.simps) (simp add: toy_plain_send EINTR_def)

lemma toy_hm_receive:
  "hm_receive_word toy_env fd s =
     (case probe_call toy_env (Io (sys_recv fd 8)) s of
        (n, v, s1) \<Rightarrow> Some (if n \<noteq> 8 then Inl ''IPC receive / peer closed'' else Inr v, s1))"
  by (subst hm_receive_word.simps) (auto dest: toy_recv_result simp: EINTR_def split: prod.splits if_splits)

lemma toy_send: "send_word toy_env fd v s = Some (None, plain_call toy_env (Io (sys_send fd v 8)) s)"
  unfolding send_word_def by (subst send_from.simps, simp add: toy_plain_send EINTR_def, subst send_from.simps, simp)

lemma toy_receive:
  "receive_word toy_env fd s =
     (case probe_call toy_env (Io (sys_recv fd 8)) s of
        (n, v, s1) \<Rightarrow> Some (if n \<le> 0 then Inl ''IPC receive / peer closed or timed out'' else Inr v, s1))"
proof -
  obtain n v s1 where c: "probe_call toy_env (Io (sys_recv fd 8)) s = (n, v, s1)"
    by (rule prod_cases3)
  have "n = 0 \<or> n = 8"
    using toy_recv_result [OF c] by auto
  moreover have "receive_from toy_env fd v 8 s1 = Some (Inr v, s1)"
    by (subst receive_from.simps) simp
  moreover have "take_bit 64 v = v"
    by (simp add: take_bit_word_eq_self)
  ultimately show ?thesis
    unfolding receive_word_def by (subst receive_from.simps) (auto simp: c EINTR_def)
qed

lemma toy_wait: "0 \<le> pid \<Longrightarrow> wait_child toy_env pid s = Some (pid, 0, plain_call toy_env (Proc (sys_waitpid pid)) s)"
  by (subst wait_child.simps) (simp add: plain_call_def probe_call_def call_def toy_fns EINTR_def)

text \<open>Comparisons of small words.\<close>

lemma small_words: "\<not> (4 :: u64) \<le> 1" "(1 :: u64) < 4"
  by (simp_all add: word_le_nat_alt word_less_nat_alt)

lemma run_cong: "s = t \<Longrightarrow> run_steps fs s = run_steps fs t"
  by simp

lemma upto_words: "[0..<1] = [0 :: nat]" "[0..<Suc 0] = [0 :: nat]" "[0..<2] = [0, 1 :: nat]" "[0..<4] = [0, 1, 2, 3 :: nat]"
  by (simp_all add: upt_rec)

lemmas toy_calls = toy_probe_call plain_call_def toy_fns toy_start_kept kept_memory trace_of_def probe.defs
  toy_hm_send toy_hm_receive toy_send toy_receive toy_wait upto_words small_words

lemmas toy_steps = run_steps.simps check_step_def check_value_def output_call_def assign_def when_step_def throw_unless_def
  cleanup_def store_word_def check_receive_def receive_into_def try_catch_def
  reserve_step_def create_step_def import_step_def map_step_def unmap_step_def release_step_def free_step_def mem_prop_def
  Allocation_destroy_def Allocation_new_def AclResources_new_def AclResources_destroy_def
  fill_def verify_def verify_words.simps write_pattern_def hm_verify_def hm_verify_words.simps pattern_word_def
  aio_operation_def aio_blocks_def aio_events.simps event_bad_def mark_seen_def

text \<open>The bodies of the programs, as lists.\<close>

lemmas list_eval = if_True if_False append.simps simp_thms

subsection \<open>Orders of events\<close>

text \<open>The events of several processes, so many of this one, then so many of that one.\<close>

fun merge_runs :: "('p \<times> nat) list \<Rightarrow> ('p \<Rightarrow> 'e list) \<Rightarrow> ('p \<times> 'e) list" where
  "merge_runs [] f = []"
| "merge_runs ((p, n) # rs) f = map (Pair p) (take n (f p)) @ merge_runs rs (f(p := drop n (f p)))"

definition runs_of :: "'p \<Rightarrow> ('p \<times> nat) list \<Rightarrow> nat" where
  "runs_of p rs = sum_list (map snd (filter (\<lambda>x. fst x = p) rs))"

lemma runs_of_simps [simp]:
  "runs_of p [] = 0" "runs_of p ((q, n) # rs) = (if q = p then n else 0) + runs_of p rs"
  by (simp_all add: runs_of_def)

lemma merge_runs_events: "map snd (filter (\<lambda>x. fst x = p) (merge_runs rs f)) = take (runs_of p rs) (f p)"
proof (induction rs arbitrary: f)
  case Nil
  then show ?case by simp
next
  case (Cons x rs)
  obtain q n where x: "x = (q, n)" by (cases x)
  have "map snd (filter (\<lambda>x. fst x = p) (map (Pair q) xs)) = (if q = p then xs else [])" for xs :: "'b list"
    by (induction xs) auto
  with Cons [of "f(q := drop n (f q))"] show ?case
    by (auto simp: x take_add fun_upd_def comp_def)
qed

lemma merge_runs_append: "\<exists>u. merge_runs (rs @ rs') f = merge_runs rs f @ u"
proof (induction rs arbitrary: f)
  case Nil
  then show ?case by simp
next
  case (Cons x rs)
  obtain q n where x: "x = (q, n)" by (cases x)
  from Cons [of "f(q := drop n (f q))"] show ?case
    by (auto simp: x fun_upd_def)
qed

lemma merge_runs_map: "map (\<lambda>(p, e). (p, g p e)) (merge_runs rs f) = merge_runs rs (\<lambda>p. map (g p) (f p))"
proof (induction rs arbitrary: f)
  case Nil
  then show ?case by simp
next
  case (Cons x rs)
  obtain q n where x: "x = (q, n)" by (cases x)
  have "(\<lambda>p. map (g p) (if p = q then drop n (f q) else f p)) = (\<lambda>p. if p = q then drop n (map (g q) (f q)) else map (g p) (f p))"
    by (auto simp: fun_eq_iff drop_map)
  with Cons [of "f(q := drop n (f q))"] show ?case
    by (simp add: x take_map comp_def fun_upd_def)
qed

text \<open>
  What an event receives and sends, and a check in one pass that between the processes \<open>u\<close> and \<open>v\<close> no
  byte is received before it was sent. The counts so far: received by \<open>u\<close>, sent by \<open>v\<close>, received by \<open>v\<close>,
  sent by \<open>u\<close>.
\<close>

definition counts :: "int \<Rightarrow> event \<Rightarrow> nat \<times> nat" where
  "counts fd e = (receives_on fd [e], sends_on fd [e])"

fun paced :: "'p \<Rightarrow> 'p \<Rightarrow> nat \<Rightarrow> nat \<Rightarrow> nat \<Rightarrow> nat \<Rightarrow> ('p \<times> nat \<times> nat) list \<Rightarrow> bool" where
  "paced u v a b c d [] \<longleftrightarrow> a \<le> b \<and> c \<le> d"
| "paced u v a b c d ((p, r, s) # t) \<longleftrightarrow> a \<le> b \<and> c \<le> d \<and>
     (if p = u then paced u v (a + r) b c (d + s) t
      else if p = v then paced u v a (b + s) (c + r) d t
      else paced u v a b c d t)"

definition of_proc :: "'p \<Rightarrow> ('p \<times> event) list \<Rightarrow> event list" where
  "of_proc p t = map snd (filter (\<lambda>x. fst x = p) t)"

lemma of_proc_is: "events_of p t = of_proc p t" "of_process b t' = of_proc b t'"
  by (simp_all add: events_of_def of_process_def of_proc_def)

lemma of_proc_Cons: "of_proc p ((q, e) # t) = (if q = p then [e] else []) @ of_proc p t"
  by (simp add: of_proc_def)

lemma on_nothing [simp]: "sends_on fd [] = 0" "receives_on fd [] = 0"
  by (simp_all add: sends_on_def receives_on_def)

lemma paced_prefix:
  assumes "paced u v a b c d (map (\<lambda>(p, e). (p, counts (fd p) e)) t)" and "u \<noteq> v" and "k \<le> length t"
  shows "a + receives_on (fd u) (of_proc u (take k t)) \<le> b + sends_on (fd v) (of_proc v (take k t)) \<and>
    c + receives_on (fd v) (of_proc v (take k t)) \<le> d + sends_on (fd u) (of_proc u (take k t))"
  using assms
proof (induction t arbitrary: a b c d k)
  case Nil
  then show ?case by (simp add: of_proc_def)
next
  case (Cons x t)
  obtain p e where x: "x = (p, e)" by (cases x)
  show ?case
  proof (cases k)
    case 0
    with Cons.prems show ?thesis by (auto simp: of_proc_def x counts_def)
  next
    case (Suc j)
    then have j: "j \<le> length t" "take k (x # t) = (p, e) # take j t"
      using Cons.prems(3) x by simp_all
    from Cons.prems(1) consider
        "p = u" "paced u v (a + receives_on (fd u) [e]) b c (d + sends_on (fd u) [e]) (map (\<lambda>(p, e). (p, counts (fd p) e)) t)"
      | "p = v" "paced u v a (b + sends_on (fd v) [e]) (c + receives_on (fd v) [e]) d (map (\<lambda>(p, e). (p, counts (fd p) e)) t)"
      | "p \<noteq> u" "p \<noteq> v" "paced u v a b c d (map (\<lambda>(p, e). (p, counts (fd p) e)) t)"
      by (auto simp: x counts_def split: if_splits)
    then show ?thesis
    proof cases
      case 1
      from Cons.IH [OF 1(2) assms(2) j(1)] 1(1) assms(2) show ?thesis
        unfolding j(2) of_proc_Cons by (simp del: append_Cons append_Nil)
    next
      case 2
      from Cons.IH [OF 2(2) assms(2) j(1)] 2(1) assms(2) show ?thesis
        unfolding j(2) of_proc_Cons by (simp del: append_Cons append_Nil)
    next
      case 3
      from Cons.IH [OF 3(3) assms(2) j(1)] 3(1,2) show ?thesis
        unfolding j(2) of_proc_Cons by (simp del: append_Cons append_Nil)
    qed
  qed
qed

lemma merged_causal:
  assumes "paced False True 0 0 0 0 (merge_runs rs (\<lambda>p. map (counts (if p then fdi else fdc)) (f p)))"
  shows "causal fdc fdi (merge_runs rs f)"
  using paced_prefix [of False True 0 0 0 0 "\<lambda>p. if p then fdi else fdc" "merge_runs rs f"] assms
  by (simp add: causal_def of_proc_is merge_runs_map)

text \<open>What other processes do does not matter.\<close>

lemma paced_others:
  "paced u v a b c d (map (\<lambda>(p, x). (p, if p = u \<or> p = v then x else (0, 0))) t) = paced u v a b c d t"
  by (induction t arbitrary: a b c d) auto

lemma merged_causal_all:
  assumes "\<And>r. r < length pairs \<Longrightarrow> paced None (Some r) 0 0 0 0
    (merge_runs rs (\<lambda>p. if p = None then map (counts (low_fd (pairs ! r))) (f p)
       else if p = Some r then map (counts (high_fd (pairs ! r))) (f p) else replicate (length (f p)) (0, 0)))"
  shows "causal_all pairs (merge_runs rs f)"
  unfolding causal_all_def pair_causal_def of_proc_is
proof (intro allI impI)
  fix k r
  assume k: "k \<le> length (merge_runs rs f)" and r: "r < length pairs"
  let ?fd = "\<lambda>p. if p = None then low_fd (pairs ! r) else high_fd (pairs ! r)"
  let ?g = "\<lambda>p. map (counts (?fd p)) (f p)"
  have "(\<lambda>p. map (\<lambda>x. if p = None \<or> p = Some r then x else (0, 0)) (?g p)) =
      (\<lambda>p. if p = None then map (counts (low_fd (pairs ! r))) (f p)
         else if p = Some r then map (counts (high_fd (pairs ! r))) (f p) else replicate (length (f p)) (0, 0))"
    by (auto simp: fun_eq_iff comp_def map_replicate_const)
  then have "paced None (Some r) 0 0 0 0 (merge_runs rs ?g)"
    using assms [OF r] paced_others [of None "Some r" 0 0 0 0 "merge_runs rs ?g"]
    by (simp only: merge_runs_map)
  then have "paced None (Some r) 0 0 0 0 (map (\<lambda>(p, e). (p, counts (?fd p) e)) (merge_runs rs f))"
    by (simp only: merge_runs_map)
  from paced_prefix [OF this _ k]
  show "receives_on (low_fd (pairs ! r)) (of_proc None (take k (merge_runs rs f)))
          \<le> sends_on (high_fd (pairs ! r)) (of_proc (Some r) (take k (merge_runs rs f))) \<and>
        receives_on (high_fd (pairs ! r)) (of_proc (Some r) (take k (merge_runs rs f)))
          \<le> sends_on (low_fd (pairs ! r)) (of_proc None (take k (merge_runs rs f)))"
    by simp
qed

lemma on_event:
  "counts fd (c, r, out) =
     (case c of Io (sys_recv fd' n) \<Rightarrow> if fd' = fd then nat r else 0 | _ \<Rightarrow> 0,
      case c of Io (sys_send fd' v n) \<Rightarrow> if fd' = fd then nat r else 0 | _ \<Rightarrow> 0)"
  by (auto simp: counts_def sends_on_def receives_on_def sent_bytes_def received_bytes_def split: native.splits io_call.splits)

end
