(* ===== verification/Probe_Turns.thy ===== *)
theory Probe_Turns
  imports Probe_Launch
begin

text \<open>
  When the processes of a probe access memory. The two processes of hal_map_probe, device_share and
  host_share take turns: each accesses memory only between the word it has last received and the word it
  sends next. Then any two accesses of different processes are separated by a word from the first
  to the second, so there are no data races, however the processes are scheduled.
\<close>

subsection \<open>Calls and the words around them\<close>

text \<open>
  \<open>calls_at C fd G t\<close>: whenever \<open>t\<close> has a call \<open>C\<close>, \<open>G\<close> holds of the numbers of
  bytes received and sent before it.
\<close>

definition calls_at :: "(native \<Rightarrow> bool) \<Rightarrow> int \<Rightarrow> (nat \<Rightarrow> nat \<Rightarrow> bool) \<Rightarrow> event list \<Rightarrow> bool" where
  "calls_at C fd G t \<longleftrightarrow>
     (\<forall>u e v. t = u @ e # v \<longrightarrow> C (fst e) \<longrightarrow> G (receives_on fd u) (sends_on fd u))"

definition window :: "(nat \<Rightarrow> nat \<Rightarrow> bool) \<Rightarrow> bool" where
  "window G \<longleftrightarrow> (\<forall>r s r' s'. G r s \<longrightarrow> r \<le> r' \<longrightarrow> s' \<le> s \<longrightarrow> G r' s')"

definition calls_in :: "(native \<Rightarrow> bool) \<Rightarrow> int \<Rightarrow> (nat \<Rightarrow> nat \<Rightarrow> bool) \<Rightarrow> ('w, 'z) probe_scheme prog_step list \<Rightarrow> bool" where
  "calls_in C fd G fs \<longleftrightarrow> (\<forall>s e s'. run_steps fs s = Some (e, s') \<longrightarrow>
     (\<exists>ev. trace_of s' = trace_of s @ ev \<and> calls_at C fd G ev))"

lemma append_split:
  assumes "t1 @ t2 = u @ e # v"
  obtains v1 where "t1 = u @ e # v1" | u2 where "u = t1 @ u2" "t2 = u2 @ e # v"
proof -
  from assms consider us where "t1 = u @ us" "us @ t2 = e # v" | us where "u = t1 @ us" "t2 = us @ e # v"
    by (auto simp: append_eq_append_conv2)
  then show thesis
  proof cases
    case 1
    then show thesis
      by (cases us) (auto intro: that)
  next
    case 2
    then show thesis by (rule that(2))
  qed
qed

lemma calls_at_none: "list_all (\<lambda>c. \<not> C c) (map fst t) \<Longrightarrow> calls_at C fd G t"
  by (auto simp: calls_at_def)

lemma calls_at_append:
  assumes "calls_at C fd G t1" and "calls_at C fd (\<lambda>r s. G (receives_on fd t1 + r) (sends_on fd t1 + s)) t2"
  shows "calls_at C fd G (t1 @ t2)"
  unfolding calls_at_def
proof (intro allI impI)
  fix u e v
  assume t: "t1 @ t2 = u @ e # v" and e: "C (fst e)"
  from t show "G (receives_on fd u) (sends_on fd u)"
  proof (cases rule: append_split)
    case (1 v1)
    with assms(1) e show ?thesis unfolding calls_at_def by blast
  next
    case (2 u2)
    with assms(2) e show ?thesis unfolding calls_at_def by fastforce
  qed
qed

lemma calls_at_mono: "calls_at C fd G t \<Longrightarrow> (\<And>r s. G r s \<Longrightarrow> H r s) \<Longrightarrow> calls_at C fd H t"
  unfolding calls_at_def by blast

lemma calls_none: "\<forall>f \<in> set fs. appends (\<lambda>c. \<not> C c) f \<Longrightarrow> calls_in C fd G fs"
  unfolding calls_in_def using appends_run calls_at_none by (metis appendsD)

lemma calls_inside:
  assumes "sends_at_most fd b fs" and "window G" and "G 0 b"
  shows "calls_in C fd G fs"
  unfolding calls_in_def
proof (intro allI impI)
  fix s e s'
  assume "run_steps fs s = Some (e, s')"
  with assms(1) obtain ev where ev: "trace_of s' = trace_of s @ ev" "sends_on fd ev \<le> b"
    unfolding sends_at_most_def by blast
  have "calls_at C fd G ev"
    unfolding calls_at_def
  proof (intro allI impI)
    fix u c v
    assume "ev = u @ c # v"
    then have "sends_on fd u \<le> b"
      using ev(2) sends_on_append [of fd u "c # v"] by simp
    with assms(2,3) show "G (receives_on fd u) (sends_on fd u)"
      unfolding window_def by (meson le0)
  qed
  with ev show "\<exists>ev. trace_of s' = trace_of s @ ev \<and> calls_at C fd G ev" by blast
qed

lemma calls_append:
  assumes f: "calls_in C fd G fs" "receives_at_least fd a fs" "sends_at_most fd b fs"
    and g: "calls_in C fd (\<lambda>r s. G (a + r) (b + s)) gs" and w: "window G"
  shows "calls_in C fd G (fs @ gs)"
  unfolding calls_in_def
proof (intro allI impI)
  fix s e s'
  assume run: "run_steps (fs @ gs) s = Some (e, s')"
  then obtain e1 s1 where r1: "run_steps fs s = Some (e1, s1)"
    by (cases "run_steps fs s") (auto simp: run_steps_append)
  obtain t1 where t1: "trace_of s1 = trace_of s @ t1" "calls_at C fd G t1"
    using f(1) r1 unfolding calls_in_def by blast
  show "\<exists>ev. trace_of s' = trace_of s @ ev \<and> calls_at C fd G ev"
  proof (cases e1)
    case (Some x)
    with run r1 t1 show ?thesis by (auto simp: run_steps_append)
  next
    case None
    have "a \<le> receives_on fd t1" "sends_on fd t1 \<le> b"
      using f(2,3) r1 t1(1) None unfolding receives_at_least_def sends_at_most_def by fastforce+
    moreover have "run_steps gs s1 = Some (e, s')"
      using run r1 None by (simp add: run_steps_append)
    then obtain t2 where t2: "trace_of s' = trace_of s1 @ t2" "calls_at C fd (\<lambda>r s. G (a + r) (b + s)) t2"
      using g unfolding calls_in_def by blast
    ultimately have "calls_at C fd (\<lambda>r s. G (receives_on fd t1 + r) (sends_on fd t1 + s)) t2"
      using w unfolding window_def by (intro calls_at_mono [OF t2(2)]) (meson add_le_mono1)
    from calls_at_append [OF t1(2) this] t1(1) t2(1) show ?thesis
      by (intro exI [of _ "t1 @ t2"]) simp
  qed
qed

lemma calls_in_mono:
  assumes "calls_in C fd G fs" and "\<And>r s. G r s \<Longrightarrow> H r s"
  shows "calls_in C fd H fs"
  unfolding calls_in_def
proof (intro allI impI)
  fix s e s'
  assume "run_steps fs s = Some (e, s')"
  then obtain ev where ev: "trace_of s' = trace_of s @ ev" "calls_at C fd G ev"
    using assms(1) unfolding calls_in_def by blast
  have "calls_at C fd H ev"
    by (rule calls_at_mono [OF ev(2) assms(2)])
  with ev(1) show "\<exists>ev. trace_of s' = trace_of s @ ev \<and> calls_at C fd H ev" by blast
qed

subsection \<open>Turns\<close>

text \<open>
  The calls that access memory or wait for an access that is still going on. Metadata queries, and calls that
  map memory or give it back, are none.
\<close>

definition touches :: "native \<Rightarrow> bool" where
  "touches c \<longleftrightarrow> (case c of
     Cpu (cpu_load _ _) \<Rightarrow> True | Cpu (cpu_store _ _ _) \<Rightarrow> True | Cpu (c_memset _ _ _) \<Rightarrow> True
   | Hal (halMemcpy _ _ _ _ _ _) \<Rightarrow> True
   | Acl (aclrtMemcpy _ _ _ _ _) \<Rightarrow> True | Acl (aclrtMemset _ _ _ _) \<Rightarrow> True | Acl (aclrtMemcpyAsync _ _ _ _ _ _) \<Rightarrow> True
   | Acl (aclrtSynchronizeStream _) \<Rightarrow> True | Acl (aclrtSynchronizeEvent _) \<Rightarrow> True
   | Io (sys_io_submit _ _) \<Rightarrow> True | Io (sys_io_getevents _ _) \<Rightarrow> True | Io (sys_io_destroy _) \<Rightarrow> True
   | Io (sys_pwrite _ _ _ _) \<Rightarrow> True | Io (sys_pread _ _ _ _) \<Rightarrow> True
   | _ \<Rightarrow> False)"

lemma touches_words: "is_send fd c \<Longrightarrow> \<not> touches c" "is_recv fd c \<Longrightarrow> \<not> touches c" "is_proc c \<Longrightarrow> \<not> touches c"
  by (auto simp: touches_def is_send_def is_recv_def is_proc_def split: native.splits io_call.splits)

text \<open>Before its first access a process has received \<open>a\<close> bytes, and after every word it sends, it waits for one.\<close>

definition turn :: "nat \<Rightarrow> nat \<Rightarrow> nat \<Rightarrow> bool" where
  "turn a r s \<longleftrightarrow> (\<exists>i. a + 8 * i \<le> r \<and> s \<le> 8 * i)"

lemma window_turn: "window (turn a)"
  unfolding window_def turn_def by (meson le_trans)

lemma turn_later: "turn 0 r s \<Longrightarrow> turn 0 (8 + r) (8 + s)"
  unfolding turn_def by (metis (no_types, lifting) add.left_neutral add_le_cancel_left distrib_left mult.right_neutral)

abbreviation takes_turns :: "int \<Rightarrow> nat \<Rightarrow> ('w, 'z) probe_scheme prog_step list \<Rightarrow> bool" where
  "takes_turns fd a fs \<equiv> calls_in touches fd (turn a) fs"

text \<open>Statements that send and receive one word.\<close>

definition says :: "int \<Rightarrow> ('w, 'z) probe_scheme prog_step \<Rightarrow> bool" where
  "says fd f \<longleftrightarrow> appends (is_send fd) f \<and> sends_word fd f"

definition hears :: "int \<Rightarrow> ('w, 'z) probe_scheme prog_step \<Rightarrow> bool" where
  "hears fd f \<longleftrightarrow> appends (is_recv fd) f \<and> receives_word fd f"

lemma says_words:
  assumes "says fd f"
  shows "sends_at_most fd 8 [f]" "receives_at_least fd 0 [f]" "\<forall>g \<in> set [f]. appends (\<lambda>c. \<not> touches c) g"
proof -
  show "sends_at_most fd 8 [f]"
    using assms by (auto simp: says_def intro: sends_one)
  show "receives_at_least fd 0 [f]"
    by (rule receives_none [where C = "is_send fd"]) (use assms in \<open>simp add: says_def\<close>)
  show "\<forall>g \<in> set [f]. appends (\<lambda>c. \<not> touches c) g"
    using assms appends_mono [of "is_send fd" f] touches_words(1) by (auto simp: says_def)
qed

lemma hears_words:
  assumes "hears fd f"
  shows "sends_at_most fd 0 [f]" "receives_at_least fd 8 [f]" "\<forall>g \<in> set [f]. appends (\<lambda>c. \<not> touches c) g"
proof -
  show "sends_at_most fd 0 [f]"
    by (rule sends_none) (use assms in \<open>auto simp: hears_def intro: appends_mono\<close>)
  show "receives_at_least fd 8 [f]"
    using assms by (auto simp: hears_def intro: receives_one)
  show "\<forall>g \<in> set [f]. appends (\<lambda>c. \<not> touches c) g"
    using assms appends_mono [of "is_recv fd" f] touches_words(2) by (auto simp: hears_def)
qed

lemma turn_end:
  assumes "\<forall>f \<in> set fs. appends no_send f"
  shows "takes_turns fd 0 fs"
  by (rule calls_inside [OF sends_none [OF assms] window_turn]) (simp add: turn_def)

lemma turn_exchange:
  assumes seg: "\<forall>f \<in> set fs. appends no_send f" and a: "says fd a" and b: "hears fd b" and rest: "takes_turns fd 0 gs"
  shows "takes_turns fd 0 (fs @ [a, b] @ gs)"
proof -
  have "calls_in touches fd (\<lambda>r s. turn 0 (8 + r) (8 + s)) gs"
    by (rule calls_in_mono [OF rest]) (rule turn_later)
  moreover have w: "window (\<lambda>r s. turn 0 (0 + r) (8 + s))"
    using window_turn [of 0] unfolding window_def by (meson add_left_mono)
  ultimately have "calls_in touches fd (\<lambda>r s. turn 0 (0 + r) (8 + s)) ([b] @ gs)"
    using calls_append [OF calls_none [OF hears_words(3) [OF b]] hears_words(2,1) [OF b] _ w, of gs] by simp
  from calls_append [OF calls_none [OF says_words(3) [OF a]] says_words(2,1) [OF a] this window_turn]
  have r: "takes_turns fd 0 ([a] @ [b] @ gs)" .
  have "takes_turns fd 0 (fs @ [a] @ [b] @ gs)"
    by (rule calls_append [OF turn_end [OF seg] receives_none [OF seg] sends_none [OF seg] _ window_turn]) (simp add: r [simplified])
  then show ?thesis
    by simp
qed

lemma turn_last:
  assumes seg: "\<forall>f \<in> set fs. appends no_send f" and a: "says fd a"
  shows "takes_turns fd 0 (fs @ [a])"
  by (rule calls_append [OF turn_end [OF seg] receives_none [OF seg] sends_none [OF seg] calls_none [OF says_words(3) [OF a]] window_turn])

lemma turn_begin:
  assumes pre: "\<forall>f \<in> set fs. appends (\<lambda>c. no_send c \<and> \<not> touches c) f" and b: "hears fd b" and rest: "takes_turns fd 0 gs"
  shows "takes_turns fd 8 (fs @ [b] @ gs)"
proof -
  have p: "\<forall>f \<in> set fs. appends no_send f" "\<forall>f \<in> set fs. appends (\<lambda>c. \<not> touches c) f"
    using pre by (auto intro: appends_mono)
  have "turn 8 (8 + r) (0 + s) = turn 0 r s" for r s
    by (simp add: turn_def)
  with rest have "takes_turns fd 8 ([b] @ gs)"
    using calls_append [OF calls_none [OF hears_words(3) [OF b]] hears_words(2,1) [OF b] _ window_turn, of 8 gs] by simp
  then show ?thesis
    using calls_append [OF calls_none [OF p(2)] receives_none [OF p(1)] sends_none [OF p(1)] _ window_turn, of fd 8 "[b] @ gs"]
    by simp
qed

text \<open>From the body to the whole worker.\<close>

lemma body_turns:
  assumes body: "takes_turns fd a fs" and run: "run_steps fs s = Some (e, s1)" and last: "grows (\<lambda>c. \<not> touches c) s1 s'"
    and start: "sends_on fd (trace_of s) = 0" "list_all (\<lambda>c. \<not> touches c) (map fst (trace_of s))"
  shows "calls_at touches fd (turn a) (trace_of s')"
proof -
  obtain ev where ev: "trace_of s1 = trace_of s @ ev" "calls_at touches fd (turn a) ev"
    using body run unfolding calls_in_def by blast
  obtain ev' where ev': "trace_of s' = trace_of s1 @ ev'" "list_all (\<lambda>c. \<not> touches c) (map fst ev')"
    using last unfolding grows_def by blast
  have "calls_at touches fd (\<lambda>r s'. turn a (receives_on fd (trace_of s) + r) (sends_on fd (trace_of s) + s')) ev"
    by (rule calls_at_mono [OF ev(2)]) (use start(1) in \<open>auto simp: turn_def intro: trans_le_add2\<close>)
  with calls_at_none [OF start(2)] have "calls_at touches fd (turn a) (trace_of s @ ev)"
    by (rule calls_at_append)
  then show ?thesis
    unfolding ev'(1) ev(1) by (rule calls_at_append [OF _ calls_at_none [OF ev'(2)]])
qed

subsection \<open>Two processes that take turns\<close>

definition own_end :: "int \<Rightarrow> int \<Rightarrow> bool \<Rightarrow> int" where
  "own_end fdc fdi p = (if p then fdi else fdc)"

text \<open>Neither process receives what the other has not sent.\<close>

definition exchanged :: "int \<Rightarrow> int \<Rightarrow> (bool \<times> event) list \<Rightarrow> bool" where
  "exchanged fdc fdi t \<longleftrightarrow> (\<forall>k \<le> length t. \<forall>p.
     receives_on (own_end fdc fdi p) (of_process p (take k t)) \<le> sends_on (own_end fdc fdi (\<not> p)) (of_process (\<not> p) (take k t)))"

text \<open>
  Between two accesses of different processes, the process of the first sends something that the
  process of the second receives.
\<close>

definition separated :: "int \<Rightarrow> int \<Rightarrow> (bool \<times> event) list \<Rightarrow> bool" where
  "separated fdc fdi t \<longleftrightarrow> (\<forall>j k. j < k \<longrightarrow> k < length t \<longrightarrow>
     touches (fst (snd (t ! j))) \<longrightarrow> touches (fst (snd (t ! k))) \<longrightarrow> fst (t ! j) \<noteq> fst (t ! k) \<longrightarrow>
     sends_on (own_end fdc fdi (fst (t ! j))) (of_process (fst (t ! j)) (take j t))
       < receives_on (own_end fdc fdi (fst (t ! k))) (of_process (fst (t ! k)) (take k t)))"

lemma access_turn:
  assumes "calls_at touches fd (turn a) (of_process p t)" and k: "k < length t" "fst (t ! k) = p" "touches (fst (snd (t ! k)))"
  obtains i where "a + 8 * i \<le> receives_on fd (of_process p (take k t))" "sends_on fd (of_process p (take k t)) \<le> 8 * i"
proof -
  have "of_process p t = of_process p (take k t) @ snd (t ! k) # of_process p (drop (Suc k) t)"
    using arg_cong [OF id_take_nth_drop [OF k(1)], of "of_process p"] k(2) by (simp add: of_process_def)
  with assms(1) k(3) have "turn a (receives_on fd (of_process p (take k t))) (sends_on fd (of_process p (take k t)))"
    unfolding calls_at_def by blast
  then show thesis
    unfolding turn_def using that by blast
qed

lemma sends_take_mono:
  assumes "j \<le> k"
  shows "sends_on fd (of_process p (take j t)) \<le> sends_on fd (of_process p (take k t))"
proof -
  have "take k t = take j t @ drop j (take k t)"
    using assms append_take_drop_id [of j "take k t"] by (simp add: min_absorb1)
  then show ?thesis
    by (metis le_add1 of_process_append sends_on_append)
qed

lemma turns_separate:
  assumes c: "calls_at touches fdc (turn 0) (of_process False t)" and i: "calls_at touches fdi (turn 8) (of_process True t)"
    and ex: "exchanged fdc fdi t"
  shows "separated fdc fdi t"
  unfolding separated_def
proof (intro allI impI)
  fix j k
  assume jk: "j < k" "k < length t" and touch: "touches (fst (snd (t ! j)))" "touches (fst (snd (t ! k)))"
    and other: "fst (t ! j) \<noteq> fst (t ! k)"
  let ?R = "\<lambda>p l. receives_on (own_end fdc fdi p) (of_process p (take l t))"
  let ?S = "\<lambda>p l. sends_on (own_end fdc fdi p) (of_process p (take l t))"
  have "j < length t" "j \<le> length t"
    using jk by simp_all
  have took: "\<exists>n. (if p then 8 else 0) + 8 * n \<le> ?R p l \<and> ?S p l \<le> 8 * n"
    if "l < length t" "fst (t ! l) = p" "touches (fst (snd (t ! l)))" for p l
  proof (cases p)
    case True
    with i that show ?thesis
      using access_turn [of fdi 8 True t l] by (auto simp: own_end_def)
  next
    case False
    with c that show ?thesis
      using access_turn [of fdc 0 False t l] by (auto simp: own_end_def)
  qed
  have got: "?R p j \<le> ?S (\<not> p) k" for p
    using ex \<open>j \<le> length t\<close> sends_take_mono [of j k] jk(1) unfolding exchanged_def by (meson le_trans less_imp_le_nat)
  obtain m n where "(if fst (t ! j) then 8 else 0) + 8 * m \<le> ?R (fst (t ! j)) j" "?S (fst (t ! j)) j \<le> 8 * m"
    "(if fst (t ! k) then 8 else 0) + 8 * n \<le> ?R (fst (t ! k)) k" "?S (fst (t ! k)) k \<le> 8 * n"
    using took [OF \<open>j < length t\<close> refl touch(1)] took [OF jk(2) refl touch(2)] by blast
  moreover have "fst (t ! k) = (\<not> fst (t ! j))"
    using other by auto
  ultimately show "?S (fst (t ! j)) j < ?R (fst (t ! k)) k"
    using got [of "fst (t ! j)"] by (cases "fst (t ! j)") auto
qed

subsection \<open>The interface of the worker\<close>

locale turn_worker = tidy_worker +
  assumes keeps_turns: "bounded_transfers E \<Longrightarrow> sends_on fd (trace_of s) = 0 \<Longrightarrow>
      list_all (\<lambda>c. \<not> touches c) (map fst (trace_of s)) \<Longrightarrow> worker importer fd s = Some (k, s') \<Longrightarrow>
      calls_at touches fd (turn (if importer then 8 else 0)) (trace_of s')"
begin

lemma launched_turns:
  assumes law: "bounded_transfers E" and t: "trace_of s = []" and pair: "own_pair (trace_of s') = Some out"
    and l: "launch_pair E fd_args worker args s = Some (Exit c, s')" and c: "c \<noteq> 127"
  shows "calls_at touches (low_fd out) (turn 0) (trace_of s')"
  using l
proof (cases rule: launch_pair_cases)
  case (pair r out' s1)
  then show ?thesis
    using probe_call_trace [OF pair(1)] t by (auto simp: touches_def intro: calls_at_none)
next
  case (closed out' s1 s2)
  obtain ev where ev: "trace_of s2 = (Proc sys_socketpair, 0, out') # ev" "list_all is_proc (map fst ev)"
    using before_fork [OF closed(1,2)] t by (metis append_Nil)
  let ?C = "\<lambda>c. \<exists>fd. c = Io (sys_close fd)"
  have "moves ?C s2 s'"
    unfolding closed(4) close_both_def by (rule moves_trans [OF moves_plain moves_plain]) blast+
  then obtain ev2 where ev2: "trace_of s' = trace_of s2 @ ev2" "list_all ?C (map fst ev2)"
    using moves_trace by blast
  have "list_all (\<lambda>c. \<not> touches c) (map fst (trace_of s'))"
    using ev ev2 touches_words(3) by (auto simp: list_all_iff touches_def)
  then show ?thesis
    by (rule calls_at_none)
next
  case (child out' s1 s2)
  with c child_image_ends [OF child(3)] show ?thesis by simp
next
  case (parent out' s1 s2 pid k s3 waited status)
  let ?t = "plain_call E (Io (sys_close (high_fd out'))) s2"
  obtain ev where ev: "trace_of s2 = (Proc sys_socketpair, 0, out') # ev" "list_all is_proc (map fst ev)"
    using before_fork [OF parent(1,2)] t by (metis append_Nil)
  obtain ev2 where ev2: "trace_of ?t = trace_of s2 @ ev2" "list_all (\<lambda>c. c = Io (sys_close (high_fd out'))) (map fst ev2)"
    using moves_trace [OF moves_plain [of "\<lambda>c. c = Io (sys_close (high_fd out'))" _ s2 E, OF refl]] by blast
  have "list_all (\<lambda>c. \<not> touches c) (map fst (trace_of ?t))" "list_all no_send (map fst (trace_of ?t))"
    using ev ev2 touches_words(3) is_proc_quiet by (auto simp: list_all_iff touches_def no_send_def)
  from keeps_turns [OF law no_send_sends [OF this(2)] this(1) parent(4)]
  have ct: "calls_at touches (low_fd out') (turn 0) (trace_of s3)" by simp
  note w = wait_child_Some [OF parent(5)]
  obtain ev3 where ev3: "trace_of s3 = trace_of ?t @ ev3"
    using extends [OF law parent(4)] by blast
  obtain ev4 where ev4: "trace_of s' = trace_of s3 @ ev4" "list_all is_proc (map fst ev4)"
    using moves_trace [OF w(1)] by blast
  have "list_all (\<lambda>c. \<not> touches c) (map fst ev4)"
    using ev4(2) touches_words(3) by (auto simp: list_all_iff)
  with ct have "calls_at touches (low_fd out') (turn 0) (trace_of s')"
    unfolding ev4(1) by (rule calls_at_append [OF _ calls_at_none])
  moreover have "out' = out"
    using pair by (simp add: ev ev2 ev3 ev4 own_pair_first)
  ultimately show ?thesis by simp
qed

end

end
