(* ===== verification/Multi_Rounds.thy ===== *)
theory Multi_Rounds
  imports Multi_Safety Probe_Turns
begin

unbundle bit_operations_syntax

text \<open>
  The sharing rounds of src/multi_share.cpp. In each round every worker fills its own slice, all meet
  at a barrier, every worker copies all slices and compares them, and all meet at a barrier again. A
  worker copies from another one's memory only between these two barriers, and between them the last
  thing that any worker has stored is the complete pattern of this round in its own slice.
\<close>

subsection \<open>Copies from another worker's memory\<close>

definition shared_read :: "native \<Rightarrow> bool" where
  "shared_read c \<longleftrightarrow> (case c of Acl (aclrtMemcpyAsync _ _ _ _ kind _) \<Rightarrow> kind = COPY_D2D | _ \<Rightarrow> False)"

text \<open>Calls that neither copy, store nor use a socket.\<close>

definition calm :: "native \<Rightarrow> bool" where
  "calm c \<longleftrightarrow> \<not> shared_read c \<and> \<not> is_store c \<and> off_socket c"

lemma shared_read_simps [simp]:
  "\<not> shared_read (Io io)" "\<not> shared_read (Cpu d)" "\<not> shared_read (Hal h)" "\<not> shared_read (Proc p)"
  "\<not> shared_read aclInit" "\<not> shared_read (aclrtSetDevice i)" "\<not> shared_read (halMemAddressReserve p2 n al q g)"
  "\<not> shared_read (halMemCreate h2 n prop g)" "\<not> shared_read (halMemImportFromShareableHandle x h3 d2)"
  "\<not> shared_read (halMemMap p2 n z h3 g)" "\<not> shared_read (halMemExportToShareableHandle h3 g x)"
  "\<not> shared_read (halMemShareHandleSetAttribute x)" "\<not> shared_read (halMemUnmap p2)"
  "shared_read (Acl (aclrtMemcpyAsync dst n src m kind st)) \<longleftrightarrow> kind = COPY_D2D"
  "\<not> shared_read (Acl (aclrtMalloc n))" "\<not> shared_read (Acl (aclrt_create k))" "\<not> shared_read (Acl aclrtGetCurrentContext)"
  "\<not> shared_read (Acl aclrtGetDevice)"
  by (simp_all add: shared_read_def)

lemma shared_read_other:
  "is_proc c \<Longrightarrow> \<not> shared_read c" "is_query c \<Longrightarrow> \<not> shared_read c" "is_aio c \<Longrightarrow> \<not> shared_read c"
  "is_send fd c \<Longrightarrow> \<not> shared_read c" "is_recv fd c \<Longrightarrow> \<not> shared_read c" "is_store c \<Longrightarrow> \<not> shared_read c"
  "is_load c \<Longrightarrow> \<not> shared_read c"
  by (auto simp: shared_read_def is_proc_def is_query_def is_aio_def is_io_def is_send_def is_recv_def is_store_def is_load_def
      split: native.splits)

lemma calm_simps [simp]:
  "calm (Acl (aclrtSynchronizeStream st))" "calm (Acl (aclrt_destroy k v))" "calm (Acl (aclrtFree p))"
  "calm (Cpu (vector_delete v))" "calm (halMemUnmap q)" "calm (halMemRelease q)" "calm (halMemAddressFree q)"
  "calm (aclrtResetDevice i)" "calm aclFinalize" "calm (Io (sys_close fd))"
  by (simp_all add: calm_def shared_read_def is_store_def off_socket_def)

text \<open>The stores of a trace.\<close>

definition stores_of :: "event list \<Rightarrow> native list" where
  "stores_of t = filter is_store (map fst t)"

lemma stores_of_simps [simp]: "stores_of [] = []" "stores_of (t @ u) = stores_of t @ stores_of u"
  by (simp_all add: stores_of_def)

lemma no_stores: "list_all (\<lambda>c. \<not> is_store c) (map fst ev) \<Longrightarrow> stores_of ev = []"
  by (simp add: stores_of_def list_all_iff)

lemma calm_trace:
  assumes "list_all calm (map fst ev)"
  shows "stores_of ev = []" "sends_on fd ev = 0" "receives_on fd ev = 0" "list_all (\<lambda>c. \<not> shared_read c) (map fst ev)"
proof -
  have "list_all off_socket (map fst ev)"
    using assms by (auto simp: list_all_iff calm_def)
  from off_socket_bytes [OF this] show "sends_on fd ev = 0" "receives_on fd ev = 0"
    by (simp_all add: sends_on_def receives_on_def)
  show "stores_of ev = []" "list_all (\<lambda>c. \<not> shared_read c) (map fst ev)"
    using assms by (auto simp: calm_def list_all_iff intro: no_stores)
qed

lemma mul_hbm_end_calm: "grows calm s (mul_hbm_end E s)"
proof -
  let ?s1 = "if mul_has_staging s then plain_call E (Cpu (vector_delete (mul_staging s))) s else s"
  let ?a = "mul_acl s"
  let ?t1 = "if acl_stream ?a \<noteq> nullptr then cleanup E (Acl (aclrtSynchronizeStream (acl_stream ?a))) ?s1 else ?s1"
  let ?t2 = "if acl_event ?a \<noteq> nullptr then cleanup E (Acl (aclrt_destroy Acl_event (acl_event ?a))) ?t1 else ?t1"
  let ?t3 = "if acl_stream ?a \<noteq> nullptr then cleanup E (Acl (aclrt_destroy Acl_stream (acl_stream ?a))) ?t2 else ?t2"
  have "grows calm s ?s1"
    by (simp add: grows_plain)
  moreover have "grows calm ?s1 ?t1" "grows calm ?t1 ?t2" "grows calm ?t2 ?t3"
    by (rule grows_cleanup_if, simp)+
  moreover have "grows calm ?t3 (AclResources_destroy E ?a ?s1)"
    unfolding AclResources_destroy_def Let_def by (rule grows_cleanup_if) simp
  ultimately have "grows calm s (AclResources_destroy E ?a ?s1)"
    by (blast intro: grows_trans)
  then show ?thesis
    by (simp add: mul_hbm_end_def Let_def grows_def trace_of_def)
qed

lemma mul_finish_calm: "grows calm s (mul_finish E opt s)"
proof -
  have drop: "grows calm u (mul_drop_slice E bytes i u)" for u :: "'a multi" and bytes i
    unfolding mul_drop_slice_def Let_def by (rule grows_trans [OF grows_cleanup_if grows_cleanup_if]) simp_all
  have "grows calm u (fold (mul_drop_slice E bytes) is u)" for u :: "'a multi" and bytes "is"
    by (induction "is" arbitrary: u) (auto intro: grows_trans [OF drop])
  then have f: "grows calm s (fold (mul_drop_slice E (mo_bytes opt)) [0..<mo_count opt] s)" .
  let ?s1 = "fold (mul_drop_slice E (mo_bytes opt)) [0..<mo_count opt] s"
  let ?s2 = "if mul_base s \<noteq> nullptr then cleanup E (halMemAddressFree (mul_base s)) ?s1 else ?s1"
  let ?s3 = "if mul_device_set s then cleanup E (aclrtResetDevice (device_of opt)) ?s2 else ?s2"
  let ?s4 = "if mul_acl_init s then cleanup E aclFinalize ?s3 else ?s3"
  have "grows calm ?s1 ?s2" "grows calm ?s2 ?s3" "grows calm ?s3 ?s4"
    by (rule grows_cleanup_if; simp)+
  moreover have "grows calm ?s4 (mul_finish E opt s)"
    unfolding mul_finish_def Let_def by (rule grows_plain) simp
  ultimately show ?thesis
    using f by (blast intro: grows_trans)
qed

subsection \<open>When a worker copies\<close>

text \<open>The worker's statements around the rounds copy nothing from others.\<close>

lemma quiet_words:
  assumes law: "bounded_transfers E"
  shows "\<forall>f \<in> set (barrier E fd). appends (\<lambda>c. \<not> shared_read c) f"
    "\<forall>f \<in> set (mul_export E opt). appends (\<lambda>c. \<not> shared_read c) f"
    "\<forall>f \<in> set (mul_map_slice E opt owner). appends (\<lambda>c. \<not> shared_read c) f"
proof -
  note send = appends_mono [OF send_word_effects(3) [OF law] shared_read_other(4)]
    and send0 = appends_mono [OF send_const_effects(3) [OF law] shared_read_other(4)]
    and recv = appends_mono [OF check_receive_effects(1) [OF law] shared_read_other(5)]
  have into: "appends (\<lambda>c. \<not> shared_read c) (receive_into E d (\<lambda>v s. s\<lparr>mul_token := v\<rparr>) :: 'a multi prog_step)" for d
    by (rule appends_mono [OF receive_into_effects(1) [OF law] shared_read_other(5)]) simp_all
  show "\<forall>f \<in> set (barrier E fd). appends (\<lambda>c. \<not> shared_read c) f"
    by (auto simp: barrier_def intro: send0 recv)
  show "\<forall>f \<in> set (mul_export E opt). appends (\<lambda>c. \<not> shared_read c) f"
    by (auto simp: mul_export_def intro!: appends_check send)
  show "\<forall>f \<in> set (mul_map_slice E opt owner). appends (\<lambda>c. \<not> shared_read c) f"
    by (auto simp: mul_map_slice_def intro!: appends_check appends_when into)
qed

lemma quiet_memory:
  "appends (\<lambda>c. \<not> shared_read c) (assign (\<lambda>s. fill E (p s) bytes seed s))"
  "appends (\<lambda>c. \<not> shared_read c) (\<lambda>s. verify E (p s) bytes seed phase s)"
  by (rule appends_mono [OF calls_effects(3) shared_read_other(6)], assumption)
    (rule appends_mono [OF calls_effects(5) shared_read_other(7)], assumption)

lemma quiet_local:
  "\<forall>f \<in> set (mul_open E M opt). appends (\<lambda>c. \<not> shared_read c) f"
  "\<forall>f \<in> set (mul_allocate E M opt). appends (\<lambda>c. \<not> shared_read c) f"
  "\<forall>f \<in> set (mul_host_test E opt). appends (\<lambda>c. \<not> shared_read c) f"
  "\<forall>f \<in> set (mul_hbm_setup E opt). appends (\<lambda>c. \<not> shared_read c) f"
  "\<forall>f \<in> set (mul_unmaps E opt). appends (\<lambda>c. \<not> shared_read c) f"
proof -
  note eff = appends_check check_value_effects(1) bind_cpu_effects(1) [OF shared_read_other(1)] query_effects(1) [OF shared_read_other(2)]
    throw_effects quiet_memory mul_aio_effects(1) [THEN appends_mono, OF shared_read_other(3)]
  show "\<forall>f \<in> set (mul_open E M opt). appends (\<lambda>c. \<not> shared_read c) f"
    by (auto simp: mul_open_def intro!: eff)
  show "\<forall>f \<in> set (mul_allocate E M opt). appends (\<lambda>c. \<not> shared_read c) f"
    by (auto simp: mul_allocate_def intro!: eff)
  show "\<forall>f \<in> set (mul_host_test E opt). appends (\<lambda>c. \<not> shared_read c) f"
    by (auto simp: mul_host_test_def intro!: eff)
  show "\<forall>f \<in> set (mul_hbm_setup E opt). appends (\<lambda>c. \<not> shared_read c) f"
    by (auto simp: mul_hbm_setup_def intro!: eff)
  show "\<forall>f \<in> set (mul_unmaps E opt). appends (\<lambda>c. \<not> shared_read c) f"
    by (auto simp: mul_unmaps_def mul_unmap_slice_def intro!: eff)
qed

text \<open>A round: what is stored first, and what follows it up to the round's last word.\<close>

definition round_fill :: "'w env \<Rightarrow> multi_options \<Rightarrow> nat \<Rightarrow> 'w multi prog_step" where
  "round_fill E opt i = assign (\<lambda>s. fill E (own_host opt s) (mo_bytes opt) (round_seed opt i (rank_of opt)) s)"

definition round_check :: "'w env \<Rightarrow> multi_options \<Rightarrow> nat \<Rightarrow> string \<Rightarrow> 'w multi prog_step" where
  "round_check E opt i phase = (\<lambda>s. verify E (own_host opt s) (mo_bytes opt) (round_seed opt i (rank_of opt)) phase s)"

definition round_reads :: "'w env \<Rightarrow> multi_options \<Rightarrow> nat \<Rightarrow> 'w multi prog_step list" where
  "round_reads E opt i = concat (map (mul_read E opt i) [0..<mo_count opt]) @ [round_check E opt i ''OWNER_DATA_UNCHANGED_AFTER_READS'']"

definition round_rest :: "'w env \<Rightarrow> multi_options \<Rightarrow> nat \<Rightarrow> 'w multi prog_step list" where
  "round_rest E opt i = [round_check E opt i ''OWNER_CPU_DATA''] @ barrier E (mo_fd opt) @ round_reads E opt i @ barrier E (mo_fd opt)"

lemma mul_round_split: "mul_round E opt i = round_fill E opt i # round_rest E opt i"
  by (simp add: mul_round_def round_fill_def round_rest_def round_reads_def round_check_def)

lemma round_parts:
  "appends mul_call (round_fill E opt i)" "appends mul_call (round_check E opt i phase)"
  "\<forall>f \<in> set (round_reads E opt i). appends mul_call f"
proof -
  show c: "appends mul_call (round_check E opt i phase)" for phase
    unfolding round_check_def by (rule memory_appends_mul)
  show "appends mul_call (round_fill E opt i)"
    unfolding round_fill_def by (rule memory_appends_mul)
  show "\<forall>f \<in> set (round_reads E opt i). appends mul_call f"
    by (auto simp: round_reads_def intro: c mul_local(4) [THEN bspec])
qed

definition in_rounds :: "nat \<Rightarrow> nat \<Rightarrow> nat \<Rightarrow> nat \<Rightarrow> bool" where
  "in_rounds a b r s \<longleftrightarrow> (\<exists>i < 2. a + 16 * i + 8 \<le> r \<and> s \<le> b + 16 * i + 8)"

lemma window_in_rounds [simp]: "window (in_rounds a b)"
  by (force simp: window_def in_rounds_def)

lemma window_add: "window G \<Longrightarrow> window (\<lambda>r s. G (c + r) (d + s))"
  unfolding window_def by (meson add_left_mono)

lemma window_shift:
  "window (\<lambda>r s. in_rounds 0 0 (a + r) (b + s))" "window (\<lambda>r s. in_rounds 0 0 (a + (c + r)) (b + (d + s)))"
  "window (\<lambda>r s. in_rounds 0 0 (a + (c + (x + r))) (b + (d + (y + s))))"
  by (intro window_add window_in_rounds)+

lemma mul_round_reads:
  assumes law: "bounded_transfers E" and "i < 2"
  shows "calls_in shared_read (mo_fd opt) (\<lambda>r s. in_rounds 0 0 (16 * i + r) (16 * i + s)) (mul_round E opt i)"
proof -
  let ?fd = "mo_fd opt" and ?G = "\<lambda>r s. in_rounds 0 0 (16 * i + r) (16 * i + s)"
  have start: "\<forall>f \<in> set [round_fill E opt i, round_check E opt i ''OWNER_CPU_DATA'']. appends mul_call f"
    "\<forall>f \<in> set [round_fill E opt i, round_check E opt i ''OWNER_CPU_DATA'']. appends (\<lambda>c. \<not> shared_read c) f"
    by (simp add: round_parts) (simp add: round_fill_def round_check_def quiet_memory)
  note s = local_words(1,2) [OF start(1), where fd = ?fd] and b = barrier_words(1,2) [OF law, where fd = ?fd]
    and r = local_words(1,2) [OF round_parts(3) [where E = E and opt = opt and i = i], where fd = ?fd]
  have w: "window ?G" "window (\<lambda>r s. ?G (0 + r) (0 + s))" "window (\<lambda>r s. ?G (0 + (8 + r)) (0 + (8 + s)))"
    by (rule window_shift)+
  have "calls_in shared_read ?fd (\<lambda>r s. ?G (0 + (8 + r)) (0 + (8 + s))) (round_reads E opt i)"
    by (rule calls_inside [OF r(1) w(3)]) (use assms(2) in \<open>auto simp: in_rounds_def\<close>)
  from calls_append [OF this r(2,1) calls_none [OF quiet_words(1) [OF law]] w(3)]
  have "calls_in shared_read ?fd (\<lambda>r s. ?G (0 + (8 + r)) (0 + (8 + s))) (round_reads E opt i @ barrier E ?fd)" .
  from calls_append [OF calls_none [OF quiet_words(1) [OF law]] b(2,1) this w(2)]
  have "calls_in shared_read ?fd (\<lambda>r s. ?G (0 + r) (0 + s)) (barrier E ?fd @ round_reads E opt i @ barrier E ?fd)" .
  from calls_append [OF calls_none [OF start(2)] s(2,1) this w(1)]
  show ?thesis
    by (simp add: mul_round_split round_rest_def)
qed

lemma mul_rounds_reads:
  assumes law: "bounded_transfers E"
  shows "calls_in shared_read (mo_fd opt) (in_rounds 0 0) (concat (map (mul_round E opt) [0..<read_rounds]))"
proof -
  note r = mul_round_reads [OF law, where opt = opt] and w = mul_round_words [OF law, where opt = opt]
  have "calls_in shared_read (mo_fd opt) (in_rounds 0 0) (mul_round E opt 0 @ mul_round E opt 1)"
    by (rule calls_append [OF _ w(2,1)]) (use r [of 0] r [of 1] in simp_all)
  then show ?thesis
    by (simp add: read_rounds_def upt_rec)
qed

lemma mul_hbm_reads:
  assumes law: "bounded_transfers E"
  shows "calls_in shared_read (mo_fd opt) (in_rounds 0 0) [mul_hbm E opt]"
  unfolding calls_in_def
proof (intro allI impI)
  let ?fd = "mo_fd opt" and ?G = "in_rounds 0 0"
  fix s e s'
  assume "run_steps [mul_hbm E opt] s = Some (e, s')"
  then have "mul_hbm E opt s = Some (e, s')"
    by (auto split: option.splits)
  then obtain u where u: "run_steps (mul_hbm_setup E opt @ concat (map (mul_round E opt) [0..<read_rounds])) s = Some (e, u)"
    "s' = mul_hbm_end E u"
    by (rule mul_hbm_cases)
  have "calls_in shared_read ?fd ?G (mul_hbm_setup E opt @ concat (map (mul_round E opt) [0..<read_rounds]))"
    using calls_append [OF calls_none [OF quiet_local(4)] local_words(2,1) [OF mul_local(5)], of ?fd ?G] mul_rounds_reads [OF law, of opt]
    by simp
  with u(1) obtain ev where ev: "trace_of u = trace_of s @ ev" "calls_at shared_read ?fd ?G ev"
    unfolding calls_in_def by blast
  obtain ev' where ev': "trace_of s' = trace_of u @ ev'" "list_all calm (map fst ev')"
    using mul_hbm_end_calm [of u E] unfolding grows_def u(2) by blast
  have "calls_at shared_read ?fd ?G (ev @ ev')"
    by (intro calls_at_append ev(2) calls_at_none calm_trace(4) [OF ev'(2)])
  with ev(1) ev'(1) show "\<exists>ev. trace_of s' = trace_of s @ ev \<and> calls_at shared_read ?fd ?G ev"
    by (intro exI [of _ "ev @ ev'"]) simp
qed

text \<open>The statements before the rounds, up to the second barrier.\<close>

definition mul_prelude :: "'w env \<Rightarrow> machine \<Rightarrow> multi_options \<Rightarrow> 'w multi prog_step list" where
  "mul_prelude E M opt =
     mul_open E M opt @ mul_allocate E M opt @ mul_export E opt @
     concat (map (mul_map_slice E opt) [0..<mo_count opt]) @ barrier E (mo_fd opt) @ mul_host_test E opt @ barrier E (mo_fd opt)"

lemma mul_body_prelude:
  "mul_body E M opt = mul_prelude E M opt @ [mul_hbm E opt] @
     barrier E (mo_fd opt) @ mul_unmaps E opt @ barrier E (mo_fd opt)"
  by (simp add: mul_body_def mul_prelude_def mul_unmaps_def)

lemma mul_prelude_words:
  assumes law: "bounded_transfers E"
  shows "sends_at_most (mo_fd opt) 24 (mul_prelude E M opt)"
    "receives_at_least (mo_fd opt) (8 * (mo_count opt + 2)) (mul_prelude E M opt)"
    "\<forall>f \<in> set (mul_prelude E M opt). appends (\<lambda>c. \<not> shared_read c) f"
proof -
  let ?fd = "mo_fd opt" and ?maps = "concat (map (mul_map_slice E opt) [0..<mo_count opt])"
  note b = barrier_words(1,2) [OF law, where fd = ?fd] and x = mul_export_words(1,2) [OF law, where opt = opt]
  note l1 = local_words(1,2) [OF mul_local(1) [where E = E and M = M and opt = opt], where fd = ?fd]
    and l2 = local_words(1,2) [OF mul_local(2) [where E = E and M = M and opt = opt], where fd = ?fd]
    and l3 = local_words(1,2) [OF mul_local(3) [where E = E and opt = opt], where fd = ?fd]
  note m = mul_map_slice_words [OF law, where opt = opt]
  note ms = sends_concat [of "[0..<mo_count opt]", OF m(1)] receives_concat [of "[0..<mo_count opt]", OF m(2)]
  have "sends_at_most ?fd (0 + (0 + (8 + (0 * length [0..<mo_count opt] + (8 + (0 + 8)))))) (mul_prelude E M opt)"
    unfolding mul_prelude_def by (rule sends_at_most_append b x l1 l2 l3 ms)+
  then show "sends_at_most ?fd 24 (mul_prelude E M opt)"
    by simp
  have "receives_at_least ?fd (0 + (0 + (0 + (8 * length [0..<mo_count opt] + (8 + (0 + 8)))))) (mul_prelude E M opt)"
    unfolding mul_prelude_def by (rule receives_append b x l1 l2 l3 ms)+
  then show "receives_at_least ?fd (8 * (mo_count opt + 2)) (mul_prelude E M opt)"
    by (simp add: algebra_simps)
  show "\<forall>f \<in> set (mul_prelude E M opt). appends (\<lambda>c. \<not> shared_read c) f"
    unfolding mul_prelude_def by (auto intro: quiet_local [THEN bspec] quiet_words [OF law, THEN bspec])
qed

lemma in_rounds_shift: "in_rounds a b (a + r) (b + s) = in_rounds 0 0 r s"
  by (simp add: in_rounds_def add.assoc)

lemma mul_body_reads:
  assumes law: "bounded_transfers E"
  shows "calls_in shared_read (mo_fd opt) (in_rounds (8 * (mo_count opt + 2)) 24) (mul_body E M opt)"
proof -
  let ?fd = "mo_fd opt" and ?G = "in_rounds (8 * (mo_count opt + 2)) 24"
  let ?after = "barrier E ?fd @ mul_unmaps E opt @ barrier E ?fd"
  note p = mul_prelude_words [OF law, where M = M and opt = opt] and h = mul_hbm_words [OF law, where opt = opt]
  have "\<forall>f \<in> set ?after. appends (\<lambda>c. \<not> shared_read c) f"
    by (auto intro: quiet_local [THEN bspec] quiet_words [OF law, THEN bspec])
  from calls_append [OF mul_hbm_reads [OF law] h(2,1) calls_none [OF this]]
  have "calls_in shared_read ?fd (in_rounds 0 0) ([mul_hbm E opt] @ ?after)" by simp
  with calls_append [OF calls_none [OF p(3)] p(2,1), of ?G "[mul_hbm E opt] @ ?after"] show ?thesis
    unfolding mul_body_prelude in_rounds_shift by simp
qed

text \<open>When a worker copies from another one's memory.\<close>

lemma mul_worker_reads:
  assumes law: "bounded_transfers E" and w: "mul_worker E M opt s = Some (code, s')"
    and start: "sends_on (mo_fd opt) (trace_of s) = 0" "list_all (\<lambda>c. \<not> shared_read c) (map fst (trace_of s))"
  shows "calls_at shared_read (mo_fd opt) (in_rounds (8 * (mo_count opt + 2)) 24) (trace_of s')"
proof -
  let ?fd = "mo_fd opt" and ?G = "in_rounds (8 * (mo_count opt + 2)) 24"
  obtain e s1 where run: "run_steps (mul_body E M opt) (mul_init (mo_count opt) s) = Some (e, s1)"
    and s': "s' = probe.truncate (mul_finish E opt s1)"
    by (rule mul_worker_cases [OF w])
  obtain ev where ev: "trace_of s1 = trace_of s @ ev" "calls_at shared_read ?fd ?G ev"
    using mul_body_reads [OF law, of opt M] run unfolding calls_in_def by fastforce
  obtain ev' where ev': "trace_of s' = trace_of s1 @ ev'" "list_all calm (map fst ev')"
    using mul_finish_calm [of s1 E opt] by (auto simp: s' grows_def)
  have "calls_at shared_read ?fd (\<lambda>r s'. ?G (receives_on ?fd (trace_of s) + r) (sends_on ?fd (trace_of s) + s')) ev"
    by (rule calls_at_mono [OF ev(2)]) (auto simp: start(1) in_rounds_def)
  with calls_at_none [OF start(2)] have "calls_at shared_read ?fd ?G (trace_of s @ ev)"
    by (rule calls_at_append)
  then show ?thesis
    unfolding ev'(1) ev(1) by (rule calls_at_append [OF _ calls_at_none [OF calm_trace(4) [OF ev'(2)]]])
qed

subsection \<open>What a worker has stored\<close>

definition pattern_stores :: "u64 \<Rightarrow> u64 \<Rightarrow> u64 \<Rightarrow> native list" where
  "pattern_stores p bytes seed = map (\<lambda>i. Cpu (cpu_store 8 (p + of_nat (8 * i)) (pattern_word i seed))) [0..<unat (bytes div 8)]"

text \<open>
  \<open>wrote_slice bytes q seed t\<close>: the last stores of \<open>t\<close> are the whole pattern of \<open>seed\<close>, from the first word of
  slice \<open>q\<close> of a range reserved in \<open>t\<close>.
\<close>

definition wrote_slice :: "u64 \<Rightarrow> nat \<Rightarrow> u64 \<Rightarrow> event list \<Rightarrow> bool" where
  "wrote_slice bytes q seed t \<longleftrightarrow> (\<exists>base p len earlier.
     (halMemAddressReserve p len 0 nullptr 0, 0, base) \<in> set t \<and>
     stores_of t = earlier @ pattern_stores (slice_va base bytes q) bytes seed)"

lemma wrote_slice_append: "wrote_slice bytes q seed t \<Longrightarrow> stores_of u = [] \<Longrightarrow> wrote_slice bytes q seed (t @ u)"
  unfolding wrote_slice_def by auto

lemma fill_stores:
  obtains ev where "trace_of (fill E p bytes seed s) = trace_of s @ ev" "stores_of ev = pattern_stores p bytes seed"
proof -
  have "\<exists>ev. trace_of (fold (\<lambda>i. store_word E p i (pattern_word i seed)) is s) = trace_of s @ ev \<and>
      map fst ev = map (\<lambda>i. Cpu (cpu_store 8 (p + of_nat (8 * i)) (pattern_word i seed))) is" for "is"
  proof (induction "is" arbitrary: s)
    case (Cons i "is")
    obtain r out s1 where c: "probe_call E (Cpu (cpu_store 8 (p + of_nat (8 * i)) (pattern_word i seed))) s = (r, out, s1)"
      by (rule prod_cases3)
    then have s1: "store_word E p i (pattern_word i seed) s = s1"
      by (simp add: store_word_def plain_call_def)
    from Cons [of s1] probe_call_trace [OF c] show ?case
      by (auto simp: s1)
  qed simp
  then obtain ev where ev: "trace_of (fill E p bytes seed s) = trace_of s @ ev" "map fst ev = pattern_stores p bytes seed"
    unfolding fill_def pattern_stores_def by blast
  have "stores_of ev = pattern_stores p bytes seed"
    unfolding stores_of_def ev(2) by (simp add: pattern_stores_def is_store_def filter_id_conv)
  with ev(1) show thesis by (rule that)
qed

lemma mul_base_fill [simp]: "mul_base (fill E p bytes seed s) = mul_base s"
  by (subst moves_same [OF fill_moves]) simp

lemma round_fill_writes:
  "triple base_reserved (round_fill E opt i)
     (\<lambda>s. wrote_slice (mo_bytes opt) (rank_of opt) (round_seed opt i (rank_of opt)) (trace_of s)) (\<lambda>_. True)"
proof (rule tripleI)
  fix s e s'
  assume s: "base_reserved s" and run: "round_fill E opt i s = Some (e, s')"
  let ?p = "own_host opt s" and ?seed = "round_seed opt i (rank_of opt)"
  have s': "s' = fill E ?p (mo_bytes opt) ?seed s"
    using run by (simp add: round_fill_def assign_def)
  obtain ev where ev: "trace_of s' = trace_of s @ ev" "stores_of ev = pattern_stores ?p (mo_bytes opt) ?seed"
    unfolding s' by (rule fill_stores)
  from s ev show "if e = None then wrote_slice (mo_bytes opt) (rank_of opt) ?seed (trace_of s') else True"
    unfolding wrote_slice_def base_reserved_def by auto
qed

text \<open>Statements that store nothing.\<close>

lemma storeless_call:
  "is_send fd c \<Longrightarrow> \<not> is_store c" "is_recv fd c \<Longrightarrow> \<not> is_store c" "is_load c \<Longrightarrow> \<not> is_store c"
  by (auto simp: is_store_def is_send_def is_recv_def is_load_def split: native.splits io_call.splits cpu_call.splits)

lemma storeless_simps [simp]:
  "\<not> is_store (Acl a)" "\<not> is_store (Cpu (c_memset p v n))" "\<not> is_store (halMemUnmap q)"
  by (simp_all add: is_store_def)

lemma storeless_words:
  assumes law: "bounded_transfers E"
  shows "\<forall>f \<in> set (barrier E fd). appends (\<lambda>c. \<not> is_store c) f"
  using appends_mono [OF send_const_effects(3) [OF law] storeless_call(1)]
    appends_mono [OF check_receive_effects(1) [OF law] storeless_call(2)]
  by (auto simp: barrier_def)

lemma storeless_check: "appends (\<lambda>c. \<not> is_store c) (round_check E opt i phase)"
  unfolding round_check_def by (rule appends_mono [OF calls_effects(5) storeless_call(3)])

lemma storeless_local:
  "\<forall>f \<in> set (mul_read E opt i owner). appends (\<lambda>c. \<not> is_store c) f"
  "\<forall>f \<in> set (mul_unmaps E opt). appends (\<lambda>c. \<not> is_store c) f"
proof -
  have v: "appends (\<lambda>c. \<not> is_store c) (\<lambda>s. verify E (p s) bytes seed phase s)" for p bytes seed phase
    by (rule appends_mono [OF calls_effects(5) storeless_call(3)])
  show "\<forall>f \<in> set (mul_read E opt i owner). appends (\<lambda>c. \<not> is_store c) f"
    by (auto simp: mul_read_def mul_copy_def intro!: appends_check calls_effects(1) v)
  show "\<forall>f \<in> set (mul_unmaps E opt). appends (\<lambda>c. \<not> is_store c) f"
    by (auto simp: mul_unmaps_def mul_unmap_slice_def intro!: appends_check)
qed

lemma storeless_rest:
  assumes law: "bounded_transfers E"
  shows "\<forall>f \<in> set (round_rest E opt i). appends (\<lambda>c. \<not> is_store c) f"
  by (auto simp: round_rest_def round_reads_def intro: storeless_words [OF law, THEN bspec] storeless_local [THEN bspec] storeless_check)

subsection \<open>What holds between two barriers\<close>

text \<open>
  \<open>between fd a b W t\<close>: \<open>W\<close> holds of \<open>t\<close> whenever more than \<open>a\<close> bytes are sent and fewer than \<open>b\<close> received.
\<close>

definition between :: "int \<Rightarrow> nat \<Rightarrow> nat \<Rightarrow> (event list \<Rightarrow> bool) \<Rightarrow> event list \<Rightarrow> bool" where
  "between fd a b W t \<longleftrightarrow> (\<forall>u v. t = u @ v \<longrightarrow> a < sends_on fd u \<longrightarrow> receives_on fd u < b \<longrightarrow> W u)"

definition survives :: "(event list \<Rightarrow> bool) \<Rightarrow> bool" where
  "survives W \<longleftrightarrow> (\<forall>t u. W t \<longrightarrow> stores_of u = [] \<longrightarrow> W (t @ u))"

lemma between_after:
  assumes t1: "sends_on fd t1 \<le> a" "W t1" and W: "survives W"
    and t2: "stores_of t2 = []" "t3 = [] \<or> b \<le> receives_on fd (t1 @ t2)"
  shows "between fd a b W (t1 @ t2 @ t3)"
  unfolding between_def
proof (intro allI impI)
  fix u v
  assume t: "t1 @ t2 @ t3 = u @ v" and u: "a < sends_on fd u" "receives_on fd u < b"
  from t consider us where "u @ us = t1" | us where "u = t1 @ us" "t2 @ t3 = us @ v"
    by (auto simp: append_eq_append_conv2)
  then show "W u"
  proof cases
    case 1
    then have "sends_on fd u \<le> sends_on fd t1"
      by (metis sends_on_mono)
    with t1(1) u(1) show ?thesis by simp
  next
    case 2
    from 2(2) consider ws where "us @ ws = t2" | ws where "us = t2 @ ws" "t3 = ws @ v"
      by (auto simp: append_eq_append_conv2)
    then show ?thesis
    proof cases
      case 1
      then have "stores_of us = []"
        using t2(1) by (metis Nil_is_append_conv stores_of_simps(2))
      with W t1(2) 2(1) show ?thesis
        unfolding survives_def by blast
    next
      case ws: 2
      show ?thesis
      proof (cases "t3 = []")
        case True
        with ws t2(1) have "stores_of us = []" by simp
        with W t1(2) 2(1) show ?thesis
          unfolding survives_def by blast
      next
        case False
        then have "b \<le> receives_on fd u"
          using t2(2) by (simp add: 2(1) ws(1))
        with u(2) show ?thesis by simp
      qed
    qed
  qed
qed

lemma between_run:
  fixes s :: "('w, 'z) probe_scheme"
  assumes run: "run_steps (A @ Z @ R) s = Some (e, s')"
    and A: "sends_at_most fd a A" "triple (\<lambda>_. True) (run_steps A) (\<lambda>s. W (trace_of s)) (\<lambda>_. True)"
    and Z: "\<forall>f \<in> set Z. appends (\<lambda>c. \<not> is_store c) f" and AZ: "receives_at_least fd b (A @ Z)"
    and R: "\<forall>f \<in> set R. appends (\<lambda>_. True) f" and W: "survives W"
    and s: "sends_on fd (trace_of s) = 0" and tail: "stores_of later = []" "e \<noteq> None \<Longrightarrow> sends_on fd later = 0"
  shows "between fd a b W (trace_of s' @ later)"
proof -
  obtain e1 s1 where r1: "run_steps A s = Some (e1, s1)"
    using run by (cases "run_steps A s") (auto simp: run_steps_append)
  obtain t1 where t1: "trace_of s1 = trace_of s @ t1" "sends_on fd t1 \<le> a"
    using A(1) r1 unfolding sends_at_most_def by blast
  show ?thesis
  proof (cases e1)
    case (Some x)
    with run r1 have "s' = s1" "e \<noteq> None"
      by (auto simp: run_steps_append)
    then have few: "sends_on fd (trace_of s' @ later) \<le> a"
      using t1 s tail(2) by simp
    show ?thesis
      unfolding between_def
    proof (intro allI impI)
      fix u v
      assume "trace_of s' @ later = u @ v" and u: "a < sends_on fd u"
      then have "sends_on fd u \<le> a"
        using few by simp
      with u show "W u" by simp
    qed
  next
    case None
    have W1: "W (trace_of s1)" and few: "sends_on fd (trace_of s1) \<le> a"
      using tripleD [OF A(2) TrueI r1] None t1 s by simp_all
    obtain e2 s2 where r2: "run_steps Z s1 = Some (e2, s2)"
      using run r1 None by (cases "run_steps Z s1") (auto simp: run_steps_append)
    obtain t2 where t2: "trace_of s2 = trace_of s1 @ t2" "stores_of t2 = []"
      using appendsD [OF appends_run [OF Z] r2] no_stores by metis
    show ?thesis
    proof (cases e2)
      case (Some x)
      with run r1 None r2 have "s' = s2"
        by (simp add: run_steps_append)
      with t2 tail(1) between_after [OF few W1 W, of "t2 @ later" "[]"] show ?thesis by simp
    next
      case None2: None
      have "run_steps (A @ Z) s = Some (None, s2)"
        using r1 None r2 None2 by (simp add: run_steps_append)
      then have many: "b \<le> receives_on fd (trace_of s1 @ t2)"
        using AZ t2(1) t1(1) unfolding receives_at_least_def by fastforce
      have "run_steps R s2 = Some (e, s')"
        using run r1 None r2 None2 by (simp add: run_steps_append)
      then obtain t3 where "trace_of s' = trace_of s2 @ t3"
        using appendsD [OF appends_run [OF R]] by metis
      with between_after [OF few W1 W t2(2), of "t3 @ later"] many t2(1) show ?thesis by simp
    qed
  qed
qed

subsection \<open>The rounds of a worker\<close>

text \<open>A worker as the statements up to the end of the rounds, and what follows, in which it stores nothing.\<close>

definition mul_flat :: "'w env \<Rightarrow> machine \<Rightarrow> multi_options \<Rightarrow> 'w multi prog_step list" where
  "mul_flat E M opt = mul_prelude E M opt @ mul_hbm_setup E opt @ concat (map (mul_round E opt) [0..<read_rounds])"

lemma mul_worker_flat:
  assumes law: "bounded_transfers E" and w: "mul_worker E M opt s = Some (code, s')"
  obtains e u later where "run_steps (mul_flat E M opt) (mul_init (mo_count opt) s) = Some (e, u)"
    "trace_of s' = trace_of u @ later" "stores_of later = []" "e \<noteq> None \<longrightarrow> sends_on (mo_fd opt) later = 0"
proof -
  let ?fd = "mo_fd opt" and ?s = "mul_init (mo_count opt) s"
  let ?after = "barrier E ?fd @ mul_unmaps E opt @ barrier E ?fd" and ?hbm = "mul_hbm_setup E opt @ concat (map (mul_round E opt) [0..<read_rounds])"
  obtain e s1 where run: "run_steps (mul_body E M opt) ?s = Some (e, s1)" and s': "s' = probe.truncate (mul_finish E opt s1)"
    by (rule mul_worker_cases [OF w])
  obtain evf where evf: "trace_of s' = trace_of s1 @ evf" "list_all calm (map fst evf)"
    using mul_finish_calm [of s1 E opt] by (auto simp: s' grows_def)
  note f = calm_trace(1,2) [OF evf(2)]
  obtain e1 s2 where r1: "run_steps (mul_prelude E M opt) ?s = Some (e1, s2)"
    using run unfolding mul_body_prelude by (cases "run_steps (mul_prelude E M opt) ?s") (auto simp: run_steps_append)
  show thesis
  proof (cases e1)
    case (Some x)
    with run r1 have "s1 = s2"
      by (simp add: mul_body_prelude run_steps_append)
    with Some r1 evf(1) f show thesis
      by (intro that [of e1 s2 evf]) (simp_all add: mul_flat_def run_steps_append)
  next
    case None
    obtain e2 s3 where r2: "mul_hbm E opt s2 = Some (e2, s3)"
      using run r1 None by (cases "mul_hbm E opt s2") (auto simp: mul_body_prelude run_steps_append)
    then obtain u where u: "run_steps ?hbm s2 = Some (e2, u)" "s3 = mul_hbm_end E u"
      by (rule mul_hbm_cases)
    obtain evh where evh: "trace_of s3 = trace_of u @ evh" "list_all calm (map fst evh)"
      using mul_hbm_end_calm [of u E] unfolding grows_def u(2) by blast
    note h = calm_trace(1,2) [OF evh(2)]
    have flat: "run_steps (mul_flat E M opt) ?s = Some (e2, u)"
      using r1 None u(1) by (simp add: mul_flat_def run_steps_append)
    show thesis
    proof (cases e2)
      case (Some x)
      with run r1 None r2 have "s1 = s3"
        by (simp add: mul_body_prelude run_steps_append)
      with evf(1) evh(1) f h flat show thesis
        by (intro that [of e2 u "evh @ evf"]) simp_all
    next
      case None2: None
      have "run_steps ?after s3 = Some (e, s1)"
        using run r1 None r2 None2 by (simp add: mul_body_prelude run_steps_append)
      moreover have q: "\<forall>f \<in> set ?after. appends (\<lambda>c. \<not> is_store c) f"
        by (auto intro: storeless_words [OF law, THEN bspec] storeless_local(2) [THEN bspec])
      ultimately obtain eve where eve: "trace_of s1 = trace_of s3 @ eve" "stores_of eve = []"
        using appendsD [OF appends_run [OF q]] no_stores by metis
      with evf(1) evh(1) f h flat None2 show thesis
        by (intro that [of e2 u "evh @ eve @ evf"]) simp_all
    qed
  qed
qed

lemma keeps_base_round:
  assumes law: "bounded_transfers E"
  shows "keeps_base (mul_round E opt i)"
  unfolding mul_round_def
  by (auto simp: keeps_base_word [OF law] keeps_base_local intro!: leaves_memory any_call memory_appends_mul)

lemma keeps_base_maps:
  assumes law: "bounded_transfers E"
  shows "keeps_base (mul_map_slice E opt k)"
  using keeps_base_word(3) [OF law, of "mo_fd opt"]
  by (auto simp: mul_map_slice_def intro!: leaves_when appends_when leaves_check appends_check)

definition upto_fill :: "'w env \<Rightarrow> machine \<Rightarrow> multi_options \<Rightarrow> nat \<Rightarrow> 'w multi prog_step list" where
  "upto_fill E M opt i =
     mul_prelude E M opt @ mul_hbm_setup E opt @ concat (map (mul_round E opt) [0..<i]) @ [round_fill E opt i]"

lemma upto_fill_writes:
  assumes law: "bounded_transfers E"
  shows "triple (\<lambda>_. True) (run_steps (upto_fill E M opt i))
    (\<lambda>s. wrote_slice (mo_bytes opt) (rank_of opt) (round_seed opt i (rank_of opt)) (trace_of s)) (\<lambda>_. True)"
proof -
  let ?mid = "mul_export E opt @ concat (map (mul_map_slice E opt) [0..<mo_count opt]) @ barrier E (mo_fd opt) @
    mul_host_test E opt @ barrier E (mo_fd opt) @ mul_hbm_setup E opt @ concat (map (mul_round E opt) [0..<i])"
  have e: "upto_fill E M opt i = mul_open E M opt @ mul_allocate E M opt @ ?mid @ [round_fill E opt i]"
    by (simp add: upto_fill_def mul_prelude_def)
  have k: "keeps_base ?mid"
    by (simp add: keeps_base_word [OF law] keeps_base_local keeps_base_maps [OF law] keeps_base_round [OF law])
  have start: "triple (\<lambda>_. True) (run_steps (mul_open E M opt)) (\<lambda>_. True) (\<lambda>_. True)"
    by (simp add: triple_def)
  show ?thesis
    unfolding e by (rule triple_append [OF start triple_append [OF mul_reserve_base
          triple_append [OF lasting_run [OF lasting_slices(1) k] triple_Cons [OF round_fill_writes triple_Nil]]]])
qed

lemma upto_fill_words:
  assumes law: "bounded_transfers E"
  shows "sends_at_most (mo_fd opt) (8 * (3 + 2 * i)) (upto_fill E M opt i)"
    "receives_at_least (mo_fd opt) (8 * (mo_count opt + 4 + 2 * i)) (upto_fill E M opt i @ round_rest E opt i)"
proof -
  let ?fd = "mo_fd opt" and ?n = "mo_count opt"
  note p = mul_prelude_words(1,2) [OF law, where M = M and opt = opt] and w = mul_round_words [OF law, where opt = opt]
    and h = local_words(1,2) [OF mul_local(5) [where E = E and opt = opt], where fd = ?fd]
  have "\<forall>f \<in> set [round_fill E opt i]. appends mul_call f"
    by (simp add: round_parts)
  note f = local_words(1) [OF this, where fd = ?fd]
  have "sends_at_most ?fd (24 + (0 + (16 * length [0..<i] + 0))) (upto_fill E M opt i)"
    unfolding upto_fill_def by (rule sends_at_most_append p h f sends_concat w)+
  then show "sends_at_most ?fd (8 * (3 + 2 * i)) (upto_fill E M opt i)"
    by (simp add: algebra_simps)
  have "upto_fill E M opt i @ round_rest E opt i =
      mul_prelude E M opt @ mul_hbm_setup E opt @ concat (map (mul_round E opt) [0..<i]) @ mul_round E opt i"
    by (simp add: upto_fill_def mul_round_split)
  moreover have "receives_at_least ?fd (8 * (?n + 2) + (0 + (16 * length [0..<i] + 16)))
      (mul_prelude E M opt @ mul_hbm_setup E opt @ concat (map (mul_round E opt) [0..<i]) @ mul_round E opt i)"
    by (rule receives_append p h receives_concat w)+
  ultimately show "receives_at_least ?fd (8 * (?n + 4 + 2 * i)) (upto_fill E M opt i @ round_rest E opt i)"
    by (simp add: algebra_simps)
qed

text \<open>Between the two barriers of a round, the round's pattern is the last that a worker has stored.\<close>

lemma mul_worker_between:
  assumes law: "bounded_transfers E" and w: "mul_worker E M opt s = Some (code, s')" and i: "i < read_rounds"
    and start: "sends_on (mo_fd opt) (trace_of s) = 0"
  shows "between (mo_fd opt) (8 * (3 + 2 * i)) (8 * (mo_count opt + 4 + 2 * i))
    (wrote_slice (mo_bytes opt) (rank_of opt) (round_seed opt i (rank_of opt))) (trace_of s')"
proof -
  obtain e u later where run: "run_steps (mul_flat E M opt) (mul_init (mo_count opt) s) = Some (e, u)"
    and later: "trace_of s' = trace_of u @ later" "stores_of later = []" "e \<noteq> None \<longrightarrow> sends_on (mo_fd opt) later = 0"
    by (rule mul_worker_flat [OF law w])
  let ?R = "concat (map (mul_round E opt) [Suc i..<read_rounds])"
  have "[0..<read_rounds] = [0..<i] @ i # [Suc i..<read_rounds]"
    using i upt_add_eq_append [of 0 i "read_rounds - i"] by (simp add: upt_conv_Cons)
  then have flat: "mul_flat E M opt = upto_fill E M opt i @ round_rest E opt i @ ?R"
    by (simp add: mul_flat_def upto_fill_def mul_round_split)
  have R: "\<forall>f \<in> set ?R. appends (\<lambda>_. True) f"
    using keeps_base_round [OF law, of opt] by (auto simp: keeps_base_def)
  have W: "survives (wrote_slice (mo_bytes opt) (rank_of opt) (round_seed opt i (rank_of opt)))"
    unfolding survives_def using wrote_slice_append by blast
  show ?thesis
    unfolding later(1)
    by (rule between_run [OF run [unfolded flat] upto_fill_words(1) [OF law] upto_fill_writes [OF law] storeless_rest [OF law]
          upto_fill_words(2) [OF law] R W _ later(2) later(3) [rule_format]]) (simp_all add: start)
qed

subsection \<open>All processes together\<close>

text \<open>A worker that has copied from another one's memory and has sent nothing since.\<close>

definition copying :: "int \<Rightarrow> event list \<Rightarrow> bool" where
  "copying fd t \<longleftrightarrow> (\<exists>u e v. t = u @ e # v \<and> shared_read (fst e) \<and> sends_on fd v = 0)"

lemma copying_in_rounds:
  assumes reads: "calls_at shared_read fd (in_rounds a b) (t @ later)" and c: "copying fd t"
  shows "in_rounds a b (receives_on fd t) (sends_on fd t)"
proof -
  obtain u e v where t: "t = u @ e # v" "shared_read (fst e)" "sends_on fd v = 0"
    using c unfolding copying_def by blast
  have "sends_on fd [e] = 0"
    by (rule no_send_sends) (use t(2) in \<open>auto simp: shared_read_def no_send_def split: native.splits\<close>)
  then have "sends_on fd t = sends_on fd u" "receives_on fd u \<le> receives_on fd t"
    using t(3) sends_on_append [of fd u "e # v"] sends_on_append [of fd "[e]" v] by (simp_all add: t(1))
  moreover have "in_rounds a b (receives_on fd u) (sends_on fd u)"
    using reads [unfolded calls_at_def, rule_format, of u e "v @ later"] t(2) by (simp add: t(1))
  ultimately show ?thesis
    using window_in_rounds [of a b] unfolding window_def by (metis le_refl)
qed

lemma round_chain:
  assumes reads: "calls_at shared_read (high_fd (pairs ! r)) (in_rounds (8 * (n + 2)) 24) (events_of (Some r) t)"
    and cor: "\<And>p q j. p < n \<Longrightarrow> q < n \<Longrightarrow> j < 8 \<Longrightarrow> relays n j (low_fd (pairs ! p)) (low_fd (pairs ! q)) (events_of None t)"
    and W: "\<And>q i. q < n \<Longrightarrow> i < read_rounds \<Longrightarrow>
      between (high_fd (pairs ! q)) (8 * (3 + 2 * i)) (8 * (n + 4 + 2 * i)) (W i q) (events_of (Some q) t)"
    and caus: "causal_all pairs t" and k: "k \<le> length t" and n: "length pairs = n" "r < n"
    and c: "copying (high_fd (pairs ! r)) (events_of (Some r) (take k t))"
  shows "\<exists>i < read_rounds. \<forall>q < n. W i q (events_of (Some q) (take k t))"
proof -
  let ?at = "\<lambda>q. events_of (Some q) (take k t)" and ?fd = "\<lambda>q. high_fd (pairs ! q)"
  obtain vr where vr: "events_of (Some r) t = ?at r @ vr" by (rule events_of_take)
  obtain i where i: "i < 2" "8 * (n + 2) + 16 * i + 8 \<le> receives_on (?fd r) (?at r)" "sends_on (?fd r) (?at r) \<le> 24 + 16 * i + 8"
    using copying_in_rounds [OF reads [unfolded vr] c] unfolding in_rounds_def by blast
  have "W i q (?at q)" if q: "q < n" for q
  proof -
    have "8 * (n + (2 + 2 * i)) < receives_on (?fd r) (?at r)"
      using i(2) by simp
    with i(1) n q have "8 * ((2 + 2 * i) + 2) \<le> sends_on (?fd q) (?at q)"
      by (intro barrier_passed [OF cor caus k]) simp_all
    moreover have "receives_on (?fd q) (?at q) \<le> 8 * (n + (3 + 2 * i))"
    proof (rule ccontr)
      assume "\<not> ?thesis"
      with i(1) n q have "8 * ((3 + 2 * i) + 2) \<le> sends_on (?fd r) (?at r)"
        by (intro barrier_passed [where r = q and q = r, OF cor caus k]) simp_all
      with i(3) show False by simp
    qed
    moreover obtain vq where "events_of (Some q) t = ?at q @ vq" by (rule events_of_take)
    ultimately show ?thesis
      using W [OF q] i(1) unfolding between_def read_rounds_def by simp
  qed
  with i(1) show ?thesis
    by (auto simp: read_rounds_def)
qed

end
