(* ===== verification/Multi_Examples.thy ===== *)
theory Multi_Examples
  imports Probe_Examples Multi_Rounds
begin

text \<open>
  A run of src/multi_share.cpp with two devices on the small machine: the coordinator and both workers
  pass, with blocks of one word. What the other worker has written into its slice comes with the word
  of the barrier after which it is read.
\<close>

definition demo_machine :: machine where
  "demo_machine = \<lparr>node_cpulist = (\<lambda>_. Some ''0-1''), numa_side_value = 0\<rparr>"

definition demo_options :: "nat \<Rightarrow> multi_options" where
  "demo_options r = \<lparr>mo_devices = [0, 1], mo_nodes = [0, 1], mo_bytes = 8, mo_io_dir = ''.'',
     mo_rank = int r, mo_fd = (if r = 0 then 6 else 8)\<rparr>"

definition demo_inbox :: "nat \<Rightarrow> (u64 \<times> (u64 \<times> u64) list) list" where
  "demo_inbox r = (let q = 1 - r in
     [(77, []), (88, []), (0, []), (0, []), (0, [(2 ^ 30 + of_nat q * 8, 300 + of_nat q)]), (0, []),
      (0, [(2 ^ 30 + of_nat q * 8, 302 + of_nat q)]), (0, []), (0, []), (0, [])])"

definition demo_worker :: "nat \<Rightarrow> (int \<times> toy probe) option" where
  "demo_worker r = mul_worker toy_env demo_machine (demo_options r) (toy_start (demo_inbox r))"

definition demo_coordinator :: "(ended \<times> toy probe) option" where
  "demo_coordinator = run_coordinator toy_env [] 2 (toy_start ((77, []) # (88, []) # replicate 16 (0, [])))"

text \<open>
  The order in which the three processes take their turns: at the end of \<open>demo_reading\<close>, worker 0 has
  started to copy the slice of worker 1; at the end of \<open>demo_begin\<close>, worker 0 is done, the others still
  clean up.
\<close>

definition demo_reading :: "(nat option \<times> nat) list" where
  "demo_reading =
     [(None, 16), (Some 0, 14), (Some 1, 14), (None, 6), (Some 0, 6), (Some 1, 6), (None, 4),
      (Some 0, 74), (Some 1, 74), (None, 4), (Some 0, 8), (Some 1, 8), (None, 4), (Some 0, 10)]"

definition demo_begin :: "(nat option \<times> nat) list" where
  "demo_begin = demo_reading @
     [(Some 0, 7), (Some 1, 17), (None, 4), (Some 0, 4), (Some 1, 4), (None, 4), (Some 0, 17), (Some 1, 17), (None, 4), (Some 0, 6), (Some 1, 6), (None, 4),
      (Some 0, 4), (Some 1, 4), (None, 4), (Some 0, 7)]"

definition demo_order :: "(nat option \<times> nat) list" where
  "demo_order = demo_begin @ [(Some 1, 7), (None, 4)]"

definition demo_traces :: "'e list \<Rightarrow> 'e list \<Rightarrow> 'e list \<Rightarrow> nat option \<Rightarrow> 'e list" where
  "demo_traces tc t0 t1 p = (case p of None \<Rightarrow> tc | Some r \<Rightarrow> if r = 0 then t0 else t1)"

text \<open>Where in its trace a process receives and sends its words.\<close>

definition word_profile :: "nat \<Rightarrow> nat list \<Rightarrow> nat list \<Rightarrow> (nat \<times> nat) list" where
  "word_profile n rs ss = map (\<lambda>i. (if i \<in> set rs then 8 else 0, if i \<in> set ss then 8 else 0)) [0..<n]"

definition worker_profile :: "nat \<Rightarrow> (nat \<times> nat) list" where
  "worker_profile second = word_profile 157 [14, second, 20, 94, 102, 119, 123, 140, 146, 150]
     [13, 19, 93, 101, 118, 122, 139, 145, 149]"

definition coordinator_profile :: "nat \<Rightarrow> (nat \<times> nat) list" where
  "coordinator_profile i = word_profile 58 ((16 + i) # map (\<lambda>k. 22 + 4 * k + i) [0..<8])
     ((18 + 2 * i) # (19 + 2 * i) # map (\<lambda>k. 24 + 4 * k + i) [0..<8])"

subsection \<open>The statements as lists\<close>

lemma demo_fields:
  "mo_devices (demo_options r) = [0, 1]" "mo_nodes (demo_options r) = [0, 1]" "mo_bytes (demo_options r) = 8"
  "mo_io_dir (demo_options r) = ''.''" "mo_rank (demo_options r) = int r" "mo_fd (demo_options 0) = 6"
  "mo_fd (demo_options (Suc 0)) = 8"
  by (simp_all add: demo_options_def)

lemma demo_loops: "[0..<mo_count (demo_options r)] = [0, 1]" "[0..<read_rounds] = [0, 1 :: nat]"
  by (simp_all add: demo_fields read_rounds_def upt_rec)

lemmas multi_lists = mul_body_def mul_open_def mul_allocate_def mul_export_def mul_map_slice_def barrier_def
  mul_host_test_def list.map concat.simps append.simps demo_loops

lemmas demo_hbm = mul_hbm_def [of toy_env "demo_options r" for r, unfolded mul_hbm_setup_def mul_round_def mul_read_def
  mul_copy_def list.map concat.simps append.simps demo_loops barrier_def]

lemmas multi_steps = mul_init_def multi.defs mul_finish_def mul_drop_slice_def mul_hbm_end_def mul_aio_def buffered_aio_def
  bai_file_def bai_io_def [unfolded bai_body_def] demo_hbm aio_step_def iot_init_def io_vars.defs query_properties_def
  bind_cpu_def demo_machine_def clear_control_def mul_unmap_slice_def select_parts.simps select_cpus.simps bind_selected_def
  slice_va_def total_bytes_def reserve_bytes_def round_seed_def va_alignment_def

lemma two_processors:
  "getline_parts ''0-1'' = [''0-1'']" "read_token ''0-1'' = Some (''0-1'', [])" "cpu_range ''0-1'' = Inr (0, 1)"
  "[0..1] = [0, 1 :: int]"
  by (simp_all add: getline_parts.simps read_token_def cpu_range_def stoi_def scan_unsigned_def skip_ws_def is_space_def
      digits_value_def digit_val_def is_digit_def CPU_SETSIZE_def upto_rec1)

lemma eight: "replicate 8 x = [x, x, x, x, x, x, x, x]"
  by (simp add: eval_nat_numeral)

lemma sixteen: "replicate 16 x = replicate 8 x @ replicate 8 x"
  by (simp add: replicate_add [symmetric])

lemma coordinate_two:
  assumes "cor_sockets s = [5, 7]"
  shows "coordinate E s = run_steps
    ([receive_into E 5 (\<lambda>v s. s\<lparr>cor_tokens := cor_tokens s @ [v]\<rparr>), receive_into E 7 (\<lambda>v s. s\<lparr>cor_tokens := cor_tokens s @ [v]\<rparr>),
      send_tokens E [5, 7]] @
     concat (replicate 8 [check_receive E 5 (\<lambda>v. v = 0) ''worker barrier arrived'',
       check_receive E 7 (\<lambda>v. v = 0) ''worker barrier arrived'', send_word E 5 0, send_word E 7 0])) s"
  using assms by (simp add: coordinate_def collect_tokens_def barriers_def read_rounds_def barrier_phase_def)

lemma send_two_tokens:
  "cor_tokens s = [v, w] \<Longrightarrow>
   send_tokens E [5, 7] s = run_steps [send_word E 5 v, send_word E 5 w, send_word E 7 v, send_word E 7 w] s"
  by (simp add: send_tokens_def)

lemmas coordinator_steps = run_coordinator_def start_workers.simps start_worker_def cor_init_def coordinator.defs
  set_timeouts_def low_fd_def high_fd_def supervise_def wait_children.simps close_all_def exited_well_def
  coordinate_two [unfolded eight concat.simps append.simps] send_two_tokens

lemma demo_pairs: "low_fd 0x600000005 = 5" "high_fd 0x600000005 = 6" "low_fd 0x800000007 = 7" "high_fd 0x800000007 = 8"
  by (simp_all add: low_fd_def high_fd_def)

subsection \<open>The run\<close>

lemmas demo_eval = toy_calls toy_steps multi_steps two_processors demo_fields Let_def

lemma demo_worker_0:
  "\<exists>s. demo_worker 0 = Some (0, s) \<and> map (counts 6) (trace_of s) = worker_profile 16 \<and>
     list_ex (\<lambda>e. is_handle_release (fst e)) (trace_of s) \<and> shared_read (fst (trace_of s ! 111))"
  unfolding demo_worker_def mul_worker_def multi_lists
  apply (simp add: demo_inbox_def demo_eval cong: run_cong kept_cong)
  apply (simp add: kept_def on_event is_handle_release_def worker_profile_def)
  apply code_simp
  done

lemma demo_worker_1:
  "\<exists>s. demo_worker 1 = Some (0, s) \<and> map (counts 8) (trace_of s) = worker_profile 17 \<and>
     \<not> list_ex (\<lambda>e. is_handle_release (fst e)) (take 150 (trace_of s))"
  unfolding demo_worker_def mul_worker_def multi_lists
  apply (simp add: demo_inbox_def demo_eval cong: run_cong kept_cong)
  apply (simp add: kept_def on_event is_handle_release_def worker_profile_def)
  apply code_simp
  done

lemma demo_coordinator_run:
  "\<exists>s. demo_coordinator = Some (Exit 0, s) \<and> pair_words (trace_of s) = [0x600000005, 0x800000007] \<and>
    map (counts 5) (trace_of s) = coordinator_profile 0 \<and> map (counts 7) (trace_of s) = coordinator_profile 1"
  apply (simp add: demo_coordinator_def sixteen eight coordinator_steps toy_calls toy_steps Let_def cong: run_cong kept_cong)
  apply (simp add: kept_def pair_words_def on_event coordinator_profile_def del: upt_Suc)
  apply code_simp
  done

lemma demo_paced_0:
  "paced None (Some 0) 0 0 0 0
     (merge_runs demo_order (demo_traces (coordinator_profile 0) (worker_profile 16) (replicate 157 (0, 0))))"
  by code_simp

lemma demo_paced_1:
  "paced None (Some 1) 0 0 0 0
     (merge_runs demo_order (demo_traces (coordinator_profile 1) (replicate 157 (0, 0)) (worker_profile 17)))"
  by code_simp

end
