(* ===== verification/Multi_Props.thy ===== *)
theory Multi_Props
  imports Multi_Examples
begin

unbundle bit_operations_syntax

text \<open>
  The properties of src/multi_share.cpp, each with a run to which it applies where it has hypotheses.
\<close>

subsection \<open>No release before all slices are unmapped\<close>

text \<open>
  So far a process has at most looked at its environment.
\<close>

definition just_begun :: "event list \<Rightarrow> bool" where
  "just_begun t \<longleftrightarrow> (\<forall>e \<in> set t. \<exists>name. fst e = Proc (sys_getenv name))"

lemma just_begun_quiet:
  assumes "just_begun t"
  shows "sends_on fd t = 0" "pair_words t = []" "forked t = []" "list_all (\<lambda>c. \<not> is_handle_release c) (map fst t)"
    "list_all (\<lambda>c. \<not> shared_read c) (map fst t)"
proof -
  have g: "list_all (\<lambda>c. \<exists>name. c = Proc (sys_getenv name)) (map fst t)"
    using assms by (simp add: just_begun_def list_all_iff)
  show "sends_on fd t = 0"
    by (rule no_send_sends) (use g in \<open>auto simp: list_all_iff no_send_def\<close>)
  show "pair_words t = []" "forked t = []"
    by (rule starts_nothing_trace, use g in \<open>auto simp: list_all_iff starts_nothing_def\<close>)+
  show "list_all (\<lambda>c. \<not> is_handle_release c) (map fst t)"
    using g by (auto simp: list_all_iff is_handle_release_def)
  show "list_all (\<lambda>c. \<not> shared_read c) (map fst t)"
    using g by (auto simp: list_all_iff)
qed

text \<open>C2. Whatever coordinator and workers of multi_share do and in whatever order they are scheduled: when
  a worker that will exit with code 0 has released any memory handle, every worker has already unmapped
  every slice of its own address range, its own memory's and that of all others. The
  processes talk only over their socket pairs, on which nothing is received before it was sent, and each
  exchange of words may be cut into pieces or interrupted in any way.\<close>

theorem workers_unmap_before_release:
  assumes laws: "bounded_transfers E" "\<forall>r < n. bounded_transfers (Ew r)"
    and cor: "run_coordinator E args n s = Some (x, s')" "just_begun (trace_of s)"
    and pairs: "length (pair_words (trace_of s')) = n" "distinct (map low_fd (pair_words (trace_of s')))"
    and opts: "\<forall>r < n. mo_count (opt r) = n \<and> mo_bytes (opt r) = bytes \<and> mo_fd (opt r) = high_fd (pair_words (trace_of s') ! r)"
    and workers: "\<forall>r < n. mul_worker (Ew r) (M r) (opt r) (sw r) = Some (codes r, sw' r) \<and> just_begun (trace_of (sw r))"
    and t: "woven_all (trace_of s') (map (\<lambda>r. trace_of (sw' r)) [0..<n]) t" "causal_all (pair_words (trace_of s')) t"
    and k: "k \<le> length t" and r: "r < n" "codes r = 0" and rel: "released_by r (take k t)"
  shows "\<forall>q < n. all_unmapped bytes n (events_of (Some q) (take k t))"
proof (intro allI impI)
  fix q
  assume q: "q < n"
  let ?pairs = "pair_words (trace_of s')"
  have ev: "events_of None t = trace_of s'" "events_of (Some r) t = trace_of (sw' r)" "events_of (Some q) t = trace_of (sw' q)"
    using t(1) r(1) q by (simp_all add: woven_all_def)
  have opt_r: "mo_count (opt r) = n" "mo_fd (opt r) = high_fd (?pairs ! r)"
    and opt_q: "mo_count (opt q) = n" "mo_bytes (opt q) = bytes" "mo_fd (opt q) = high_fd (?pairs ! q)"
    using opts r(1) q by simp_all
  have wr: "mul_worker (Ew r) (M r) (opt r) (sw r) = Some (0, sw' r)" "just_begun (trace_of (sw r))"
    and wq: "mul_worker (Ew q) (M q) (opt q) (sw q) = Some (codes q, sw' q)" "just_begun (trace_of (sw q))"
    using workers r q by simp_all
  show "all_unmapped bytes n (events_of (Some q) (take k t))"
  proof (rule barrier_chain [OF _ _ _ t(2) k])
    show "released_after (high_fd (?pairs ! r)) (8 * (n + 8)) (events_of (Some r) t)"
      using mul_worker_released [OF _ just_begun_quiet(4) [OF wr(2)] wr(1)] laws(2) r(1)
      unfolding ev opt_r [symmetric] by simp
    show "relays n 7 (low_fd (?pairs ! r)) (low_fd (?pairs ! q)) (events_of None t)"
      unfolding ev by (rule coordinator_relays [OF laws(1) cor(1) _ _ pairs r(1) q]) (simp_all add: just_begun_quiet [OF cor(2)])
    show "reached (sends_on (high_fd (?pairs ! q))) 64 (all_unmapped bytes n) (events_of (Some q) t)"
      using mul_worker_reached [OF _ just_begun_quiet(1) [OF wq(2)] wq(1)] laws(2) q
      unfolding ev by (simp add: opt_q)
  qed (use pairs r q rel in simp_all)
qed

lemma toy_bounded: "bounded_transfers toy_env"
  by (auto simp: bounded_transfers_def toy_fns split: list.splits)

lemma toy_just_begun: "just_begun (trace_of (toy_start inbox))"
  by (simp add: just_begun_def toy_world_def trace_of_def)

lemma less_two: "(\<forall>r < 2. P r) \<longleftrightarrow> P 0 \<and> P (1 :: nat)"
  by (auto simp: less_2_cases_iff)

lemma merge_runs_cong: "(\<And>p. p \<in> fst ` set rs \<Longrightarrow> f p = g p) \<Longrightarrow> merge_runs rs f = merge_runs rs g"
proof (induction rs arbitrary: f g)
  case Nil
  then show ?case by simp
next
  case (Cons x rs)
  obtain q n where x: "x = (q, n)" by (cases x)
  have "merge_runs rs (f(q := drop n (f q))) = merge_runs rs (g(q := drop n (g q)))"
    by (rule Cons.IH) (use Cons.prems in \<open>auto simp: x\<close>)
  with Cons.prems show ?case by (simp add: x)
qed

lemmas demo_orders = demo_order_def demo_begin_def demo_reading_def

lemma demo_causal:
  assumes c: "map (counts 5) tc = coordinator_profile 0" "map (counts 7) tc = coordinator_profile 1"
    and w: "map (counts 6) t0 = worker_profile 16" "map (counts 8) t1 = worker_profile 17"
  shows "causal_all [0x600000005, 0x800000007] (merge_runs demo_order (demo_traces tc t0 t1))"
proof (rule merged_causal_all)
  fix r
  let ?pairs = "[0x600000005, 0x800000007 :: u64]"
  let ?f = "\<lambda>p. if p = None then map (counts (low_fd (?pairs ! r))) (demo_traces tc t0 t1 p)
       else if p = Some r then map (counts (high_fd (?pairs ! r))) (demo_traces tc t0 t1 p)
       else replicate (length (demo_traces tc t0 t1 p)) (0, 0)"
  have len: "length t0 = 157" "length t1 = 157"
    using arg_cong [OF w(1), of length] arg_cong [OF w(2), of length] by (simp_all add: worker_profile_def word_profile_def)
  have same: "merge_runs demo_order f = merge_runs demo_order g" if "\<And>p. p \<in> {None, Some 0, Some 1} \<Longrightarrow> f p = g p"
    for f g :: "nat option \<Rightarrow> (nat \<times> nat) list"
    by (rule merge_runs_cong) (use that in \<open>auto simp: demo_orders\<close>)
  assume "r < length ?pairs"
  then consider "r = 0" | "r = 1" by fastforce
  then show "paced None (Some r) 0 0 0 0 (merge_runs demo_order ?f)"
  proof cases
    case 1
    have "merge_runs demo_order ?f =
        merge_runs demo_order (demo_traces (coordinator_profile 0) (worker_profile 16) (replicate 157 (0, 0)))"
      by (rule same) (auto simp: 1 demo_traces_def demo_pairs c w len)
    with demo_paced_0 show ?thesis by (simp only: 1)
  next
    case 2
    have "merge_runs demo_order ?f =
        merge_runs demo_order (demo_traces (coordinator_profile 1) (replicate 157 (0, 0)) (worker_profile 17))"
      by (rule same) (auto simp: 2 demo_traces_def demo_pairs c w len)
    with demo_paced_1 show ?thesis by (simp only: 2)
  qed
qed

text \<open>The demonstration run: all three processes, in the order \<open>demo_order\<close>.\<close>

lemma demo_execution:
  obtains c s0 s1 where
    "run_coordinator toy_env [] 2 (toy_start ((77, []) # (88, []) # replicate 16 (0, []))) = Some (Exit 0, c)"
    "pair_words (trace_of c) = [0x600000005, 0x800000007]"
    "\<forall>r < 2. mul_worker toy_env demo_machine (demo_options r) (toy_start (demo_inbox r)) = Some (0, if r = 0 then s0 else s1) \<and>
       just_begun (trace_of (toy_start (demo_inbox r)))"
    "length (trace_of c) = 58" "length (trace_of s0) = 157" "length (trace_of s1) = 157"
    "list_ex (\<lambda>e. is_handle_release (fst e)) (trace_of s0)" "shared_read (fst (trace_of s0 ! 111))"
    "\<not> list_ex (\<lambda>e. is_handle_release (fst e)) (take 150 (trace_of s1))"
    "woven_all (trace_of c) (map (\<lambda>r. trace_of (if r = 0 then s0 else s1)) [0..<2])
       (merge_runs demo_order (demo_traces (trace_of c) (trace_of s0) (trace_of s1)))"
    "causal_all [0x600000005, 0x800000007] (merge_runs demo_order (demo_traces (trace_of c) (trace_of s0) (trace_of s1)))"
proof -
  obtain c where c: "demo_coordinator = Some (Exit 0, c)" "pair_words (trace_of c) = [0x600000005, 0x800000007]"
    "map (counts 5) (trace_of c) = coordinator_profile 0" "map (counts 7) (trace_of c) = coordinator_profile 1"
    using demo_coordinator_run by blast
  obtain s0 where s0: "demo_worker 0 = Some (0, s0)" "map (counts 6) (trace_of s0) = worker_profile 16"
    "list_ex (\<lambda>e. is_handle_release (fst e)) (trace_of s0)" "shared_read (fst (trace_of s0 ! 111))"
    using demo_worker_0 by blast
  obtain s1 where s1: "demo_worker 1 = Some (0, s1)" "map (counts 8) (trace_of s1) = worker_profile 17"
    "\<not> list_ex (\<lambda>e. is_handle_release (fst e)) (take 150 (trace_of s1))"
    using demo_worker_1 by blast
  let ?f = "demo_traces (trace_of c) (trace_of s0) (trace_of s1)"
  have len: "length (trace_of c) = 58" "length (trace_of s0) = 157" "length (trace_of s1) = 157"
    using arg_cong [OF c(3), of length] arg_cong [OF s0(2), of length] arg_cong [OF s1(2), of length]
    by (simp_all add: worker_profile_def coordinator_profile_def word_profile_def)
  have runs: "runs_of None demo_order = 58" "runs_of (Some 0) demo_order = 157" "runs_of (Some 1) demo_order = 157"
    by (simp_all add: demo_orders)
  have ev: "events_of p (merge_runs rs ?f) = take (runs_of p rs) (?f p)" for p rs
    unfolding events_of_def by (rule merge_runs_events)
  show thesis
  proof (rule that [of c s0 s1])
    show "woven_all (trace_of c) (map (\<lambda>r. trace_of (if r = 0 then s0 else s1)) [0..<2]) (merge_runs demo_order ?f)"
      by (simp add: woven_all_def ev runs runs [simplified] demo_traces_def len less_two)
    show "causal_all [0x600000005, 0x800000007] (merge_runs demo_order ?f)"
      by (rule demo_causal [OF c(3,4) s0(2) s1(2)])
  qed (use c(1,2) s0(1,3,4) s1(1,3) in \<open>simp_all add: len less_two demo_coordinator_def demo_worker_def toy_just_begun\<close>)
qed

lemma demo_opts:
  "\<forall>r < 2. mo_count (demo_options r) = 2 \<and> mo_bytes (demo_options r) = 8 \<and> mo_fd (demo_options r) = high_fd ([0x600000005, 0x800000007] ! r)"
  by (simp add: less_two demo_pairs demo_options_def)

text \<open>A part of the run that is not the whole of it.\<close>

lemma demo_part:
  assumes "demo_order = rs @ rs'" and "merge_runs rs f \<noteq> merge_runs demo_order f"
  shows "take (length (merge_runs rs f)) (merge_runs demo_order f) = merge_runs rs f"
    "length (merge_runs rs f) < length (merge_runs demo_order f)"
proof -
  obtain u where u: "merge_runs demo_order f = merge_runs rs f @ u"
    using merge_runs_append [of rs rs' f] assms(1) by auto
  with assms(2) have "u \<noteq> []" by auto
  with u show "take (length (merge_runs rs f)) (merge_runs demo_order f) = merge_runs rs f"
    "length (merge_runs rs f) < length (merge_runs demo_order f)"
    by simp_all
qed

theorem workers_unmap_before_release_witness:
  "\<exists>t k. k < length t \<and> released_by 0 (take k t) \<and> \<not> released_by 1 (take k t) \<and>
     all_unmapped 8 2 (events_of (Some 1) (take k t))"
proof -
  obtain c s0 s1 where run: "run_coordinator toy_env [] 2 (toy_start ((77, []) # (88, []) # replicate 16 (0, []))) = Some (Exit 0, c)"
      "pair_words (trace_of c) = [0x600000005, 0x800000007]"
      "\<forall>r < 2. mul_worker toy_env demo_machine (demo_options r) (toy_start (demo_inbox r)) = Some (0, if r = 0 then s0 else s1) \<and>
         just_begun (trace_of (toy_start (demo_inbox r)))"
    and len: "length (trace_of s0) = 157" "length (trace_of s1) = 157"
    and rel: "list_ex (\<lambda>e. is_handle_release (fst e)) (trace_of s0)" "\<not> list_ex (\<lambda>e. is_handle_release (fst e)) (take 150 (trace_of s1))"
    and t: "woven_all (trace_of c) (map (\<lambda>r. trace_of (if r = 0 then s0 else s1)) [0..<2])
        (merge_runs demo_order (demo_traces (trace_of c) (trace_of s0) (trace_of s1)))"
      "causal_all [0x600000005, 0x800000007] (merge_runs demo_order (demo_traces (trace_of c) (trace_of s0) (trace_of s1)))"
    by (rule demo_execution)
  let ?f = "demo_traces (trace_of c) (trace_of s0) (trace_of s1)"
  let ?t = "merge_runs demo_order ?f" and ?k = "length (merge_runs demo_begin ?f)"
  have runs: "runs_of (Some 1) demo_order = 157" "runs_of (Some 0) demo_begin = 157" "runs_of (Some 1) demo_begin = 150"
    by (simp_all add: demo_orders)
  have ev: "events_of p (merge_runs rs ?f) = take (runs_of p rs) (?f p)" for p rs
    unfolding events_of_def by (rule merge_runs_events)
  have "length (events_of (Some 1) ?t) \<noteq> length (events_of (Some 1) (merge_runs demo_begin ?f))"
    unfolding ev runs by (simp add: demo_traces_def len)
  then have "merge_runs demo_begin ?f \<noteq> ?t" by fastforce
  note part = demo_part [OF demo_order_def this]
  have rel: "released_by 0 (take ?k ?t)" "\<not> released_by 1 (take ?k ?t)"
    using rel unfolding part(1) released_by_def ev runs by (simp_all add: demo_traces_def len list_ex_iff)
  have "\<forall>q < 2. all_unmapped 8 2 (events_of (Some q) (take ?k ?t))"
    by (rule workers_unmap_before_release [OF _ _ run(1) _ _ _ _ run(3) t(1), where r = 0])
      (use part(2) t(2) demo_opts in \<open>simp_all add: toy_bounded toy_just_begun run(2) demo_pairs rel\<close>)
  then have "all_unmapped 8 2 (events_of (Some 1) (take ?k ?t))"
    by simp
  with part(2) rel show ?thesis by blast
qed

subsection \<open>What a worker reads\<close>

text \<open>C3. In every execution of multi_share, whatever the order in which coordinator and workers are
  scheduled: from the moment a worker copies from another worker's memory until it sends its next
  word, every worker's last stores are the whole pattern of one and the same round, in its own slice. No worker has begun to write
  the next round's pattern, none is still writing this one's; what is copied is never half written.\<close>

theorem shared_reads_see_one_round:
  assumes laws: "bounded_transfers E" "\<forall>r < n. bounded_transfers (Ew r)"
    and cor: "run_coordinator E args n s = Some (x, s')" "just_begun (trace_of s)"
    and pairs: "length (pair_words (trace_of s')) = n" "distinct (map low_fd (pair_words (trace_of s')))"
    and opts: "\<forall>r < n. mo_count (opt r) = n \<and> mo_bytes (opt r) = bytes \<and> rank_of (opt r) = r \<and>
      mo_fd (opt r) = high_fd (pair_words (trace_of s') ! r)"
    and workers: "\<forall>r < n. mul_worker (Ew r) (M r) (opt r) (sw r) = Some (codes r, sw' r) \<and> just_begun (trace_of (sw r))"
    and t: "woven_all (trace_of s') (map (\<lambda>r. trace_of (sw' r)) [0..<n]) t" "causal_all (pair_words (trace_of s')) t"
    and k: "k \<le> length t" and r: "r < n" "copying (mo_fd (opt r)) (events_of (Some r) (take k t))"
  shows "\<exists>i < read_rounds. \<forall>q < n. wrote_slice bytes q (round_seed (opt q) i q) (events_of (Some q) (take k t))"
proof (rule round_chain [OF _ _ _ t(2) k pairs(1) r(1)])
  let ?pairs = "pair_words (trace_of s')"
  have ev: "events_of None t = trace_of s'" "\<And>q. q < n \<Longrightarrow> events_of (Some q) t = trace_of (sw' q)"
    using t(1) by (simp_all add: woven_all_def)
  have w: "mul_worker (Ew q) (M q) (opt q) (sw q) = Some (codes q, sw' q)" "just_begun (trace_of (sw q))"
    "bounded_transfers (Ew q)" "mo_count (opt q) = n" "mo_bytes (opt q) = bytes" "rank_of (opt q) = q" "mo_fd (opt q) = high_fd (?pairs ! q)"
    if "q < n" for q
    using workers laws(2) opts that by simp_all
  show "copying (high_fd (?pairs ! r)) (events_of (Some r) (take k t))"
    using r(2) w(7) [OF r(1)] by simp
  show "calls_at shared_read (high_fd (?pairs ! r)) (in_rounds (8 * (n + 2)) 24) (events_of (Some r) t)"
    using mul_worker_reads [OF w(3,1) [OF r(1)]] just_begun_quiet(1,5) [OF w(2) [OF r(1)]] by (simp add: ev(2) [OF r(1)] w(4,7) [OF r(1)])
  show "relays n j (low_fd (?pairs ! p)) (low_fd (?pairs ! q)) (events_of None t)" if "p < n" "q < n" "j < 8" for p q j
    unfolding ev(1) by (rule coordinator_relays [OF laws(1) cor(1) _ _ pairs that]) (simp_all add: just_begun_quiet [OF cor(2)])
  show "between (high_fd (?pairs ! q)) (8 * (3 + 2 * i)) (8 * (n + 4 + 2 * i)) (wrote_slice bytes q (round_seed (opt q) i q)) (events_of (Some q) t)"
    if q: "q < n" and i: "i < read_rounds" for q i
    using mul_worker_between [OF w(3,1) [OF q] i] just_begun_quiet(1) [OF w(2) [OF q]] by (simp add: ev(2) [OF q] w(4-7) [OF q])
qed

theorem shared_reads_see_one_round_witness:
  "\<exists>t k. k < length t \<and> copying 6 (events_of (Some 0) (take k t)) \<and>
     (\<exists>i < read_rounds. \<forall>q < 2. wrote_slice 8 q (round_seed (demo_options q) i q) (events_of (Some q) (take k t)))"
proof -
  obtain c s0 s1 where run: "run_coordinator toy_env [] 2 (toy_start ((77, []) # (88, []) # replicate 16 (0, []))) = Some (Exit 0, c)"
      "pair_words (trace_of c) = [0x600000005, 0x800000007]"
      "\<forall>r < 2. mul_worker toy_env demo_machine (demo_options r) (toy_start (demo_inbox r)) = Some (0, if r = 0 then s0 else s1) \<and>
         just_begun (trace_of (toy_start (demo_inbox r)))"
    and len: "length (trace_of s0) = 157" "length (trace_of s1) = 157" and rd: "shared_read (fst (trace_of s0 ! 111))"
    and t: "woven_all (trace_of c) (map (\<lambda>r. trace_of (if r = 0 then s0 else s1)) [0..<2])
        (merge_runs demo_order (demo_traces (trace_of c) (trace_of s0) (trace_of s1)))"
      "causal_all [0x600000005, 0x800000007] (merge_runs demo_order (demo_traces (trace_of c) (trace_of s0) (trace_of s1)))"
    by (rule demo_execution)
  let ?f = "demo_traces (trace_of c) (trace_of s0) (trace_of s1)"
  let ?t = "merge_runs demo_order ?f" and ?k = "length (merge_runs demo_reading ?f)"
  have runs: "runs_of (Some 1) demo_order = 157" "runs_of (Some 0) demo_reading = 112" "runs_of (Some 1) demo_reading = 102"
    by (simp_all add: demo_orders)
  have ev: "events_of p (merge_runs rs ?f) = take (runs_of p rs) (?f p)" for p rs
    unfolding events_of_def by (rule merge_runs_events)
  have "length (events_of (Some 1) ?t) \<noteq> length (events_of (Some 1) (merge_runs demo_reading ?f))"
    unfolding ev runs by (simp add: demo_traces_def len)
  then have "merge_runs demo_reading ?f \<noteq> ?t" by fastforce
  note part = demo_part [OF demo_order_def [unfolded demo_begin_def append_assoc] this]
  have "take 112 (trace_of s0) = take 111 (trace_of s0) @ trace_of s0 ! 111 # []"
    using take_Suc_conv_app_nth [of 111 "trace_of s0"] len(1) by simp
  moreover have "sends_on 6 [] = 0"
    by (simp add: sends_on_def)
  ultimately have "copying 6 (take 112 (trace_of s0))"
    using rd unfolding copying_def by metis
  then have c: "copying 6 (events_of (Some 0) (take ?k ?t))"
    unfolding part(1) ev runs by (simp add: demo_traces_def)
  have "\<exists>i < read_rounds. \<forall>q < 2. wrote_slice 8 q (round_seed (demo_options q) i q) (events_of (Some q) (take ?k ?t))"
    by (rule shared_reads_see_one_round [OF _ _ run(1) _ _ _ _ run(3) t(1), where r = 0])
      (use part(2) t(2) demo_opts c in \<open>simp_all add: toy_bounded toy_just_begun run(2) demo_pairs demo_fields\<close>)
  with part(2) c show ?thesis by blast
qed

subsection \<open>The coordinator and its workers\<close>

text \<open>C8. The coordinator of multi_share never leaves a process behind: when it exits, whether everything went
  well or a start, a word or a barrier failed, it has waited for every process it has forked. It exits with
  code 0 only when it has forked one worker for each device and every one of them has exited with status 0,
  and with code 2 only when no process was forked.\<close>

theorem coordinator_waits_for_workers:
  assumes "bounded_transfers E"
    and "multi_scan args multi_defaults = Multi_Ok opt" "mo_rank opt < 0" "mo_fd opt < 0"
    and "multi_main E M args s = Some (Exit code, s')" "trace_of s = []" "code \<notin> {125, 127}"
  shows "waited_for (forked (trace_of s')) (trace_of s') \<and>
    (code = 0 \<longrightarrow> ended_well (forked (trace_of s')) (trace_of s') \<and> length (forked (trace_of s')) = mo_count opt) \<and>
    (code = 2 \<longrightarrow> forked (trace_of s') = []) \<and> code \<in> {0, 1, 2}"
proof -
  obtain r p s1 where c: "probe_call E (Proc (sys_getenv ''ASCEND_RT_VISIBLE_DEVICES'')) s = (r, p, s1)"
    by (rule prod_cases3)
  have f1: "forked (trace_of s1) = []"
    using probe_call_trace [OF c] assms(6) by (simp add: forked_def)
  have "multi_main E M args s = (if multi_bad opt then Some (Exit 2, s)
      else if p \<noteq> nullptr then Some (Exit 2, s1) else run_coordinator E args (mo_count opt) s1)"
    using assms(3,4) by (simp add: multi_main_def assms(2) c)
  with assms(5) consider "code = 2" "s' = s" | "code = 2" "s' = s1"
    | "run_coordinator E args (mo_count opt) s1 = Some (Exit code, s')"
    by (metis Pair_inject ended.inject(1) option.inject)
  then show ?thesis
  proof cases
    case 3
    from coordinator_waits [OF assms(1) 3 f1 assms(7)] show ?thesis by blast
  qed (use assms(6) f1 in \<open>simp_all add: waited_for_def forked_def\<close>)
qed

definition demo_args :: "string list" where
  "demo_args = [''--devices'', ''0,1'', ''--numa-nodes'', ''0,1'']"

definition demo_opt :: multi_options where
  "demo_opt = multi_defaults\<lparr>mo_devices := [0, 1], mo_nodes := [0, 1]\<rparr>"

lemma demo_scan: "multi_scan demo_args multi_defaults = Multi_Ok demo_opt"
proof -
  have "number_list ''0,1'' = Inr [0, 1]"
    by (simp add: number_list_def getline_parts.simps number_def only_digits_def is_digit_def stoull_def scan_unsigned_def
        skip_ws_def is_space_def signed_u64_def digits_value_def digit_val_def INT_MAX_def word_less_nat_alt)
  then show ?thesis
    by (simp add: demo_args_def demo_opt_def multi_set_def)
qed

lemma demo_opt_simps:
  "mo_devices demo_opt = [0, 1]" "mo_nodes demo_opt = [0, 1]" "mo_bytes demo_opt = 2097152" "mo_rank demo_opt = - 1" "mo_fd demo_opt = - 1"
  by (simp_all add: demo_opt_def multi_defaults_def)

lemma demo_accepted: "\<not> multi_bad demo_opt"
  by (simp add: multi_bad_def demo_opt_simps total_bytes_def SIZE_MAX_def va_alignment_def word_less_nat_alt)

theorem coordinator_waits_for_workers_witness:
  "\<exists>s'. multi_main toy_env demo_machine demo_args (toy_start ((77, []) # (88, []) # replicate 16 (0, []))) = Some (Exit 0, s') \<and>
     ended_well (forked (trace_of s')) (trace_of s') \<and> length (forked (trace_of s')) = 2"
proof -
  let ?s = "toy_start ((77, []) # (88, []) # replicate 16 (0, []))"
  have "\<exists>s'. multi_main toy_env demo_machine demo_args ?s = Some (Exit 0, s')"
    unfolding multi_main_def demo_scan
    by (simp add: demo_accepted demo_opt_simps sixteen eight coordinator_steps toy_calls toy_steps Let_def cong: run_cong kept_cong)
  then obtain s' where run: "multi_main toy_env demo_machine demo_args ?s = Some (Exit 0, s')"
    by blast
  have "trace_of ?s = []" "mo_rank demo_opt < 0" "mo_fd demo_opt < 0"
    by (simp_all add: toy_world_def trace_of_def demo_opt_simps)
  from coordinator_waits_for_workers [OF toy_bounded demo_scan this(2,3) run this(1)] run show ?thesis
    by (simp add: demo_opt_simps)
qed

text \<open>C27. The process that the coordinator turns a child into reads from its arguments the coordinator's own
  options, its rank and its end of the socket pair made last: its main runs the worker with exactly these.\<close>

theorem worker_gets_options:
  assumes run: "multi_main E M args s = Some (Replaced args', s')" and law: "bounded_transfers E" and s: "trace_of s = []"
    and fd: "0 \<le> high_fd (last (pair_words (trace_of s')))"
    and env: "probe_call E2 (Proc (sys_getenv ''ASCEND_RT_VISIBLE_DEVICES'')) t = (r, nullptr, t1)"
  shows "\<exists>opt rank. multi_scan args multi_defaults = Multi_Ok opt \<and> rank < mo_count opt \<and>
    length (pair_words (trace_of s')) = Suc rank \<and>
    multi_main E2 M2 args' t = map_option (\<lambda>(code, u). (Exit code, u))
      (mul_worker E2 M2 (opt\<lparr>mo_rank := int rank, mo_fd := high_fd (last (pair_words (trace_of s')))\<rparr>) t1)"
proof -
  obtain opt rank where o: "multi_scan args multi_defaults = Multi_Ok opt" "\<not> multi_bad opt" "mo_rank opt < 0" "mo_fd opt < 0"
    "rank < mo_count opt" "length (pair_words (trace_of s')) = Suc rank"
    "args' = worker_args args rank (pair_words (trace_of s') ! rank)"
    by (rule multi_replaced [OF run law s])
  have l: "last (pair_words (trace_of s')) = pair_words (trace_of s') ! rank"
    using o(6) by (cases "pair_words (trace_of s')" rule: rev_cases) auto
  from multi_main_worker [OF o(1,2,5), of "pair_words (trace_of s') ! rank" E2 M2 t] fd env
  show ?thesis
    by (intro exI [of _ opt] exI [of _ rank]) (simp add: o l worker_options_def)
qed

theorem worker_gets_options_witness:
  "\<exists>args' s' opt rank. multi_main toy_env demo_machine demo_args toy_child = Some (Replaced args', s') \<and>
     multi_scan demo_args multi_defaults = Multi_Ok opt \<and> length (pair_words (trace_of s')) = Suc rank \<and>
     multi_main toy_env demo_machine args' (toy_start []) = map_option (\<lambda>(code, u). (Exit code, u))
       (mul_worker toy_env demo_machine (opt\<lparr>mo_rank := int rank, mo_fd := high_fd (last (pair_words (trace_of s')))\<rparr>)
         (plain_call toy_env (Proc (sys_getenv ''ASCEND_RT_VISIBLE_DEVICES'')) (toy_start [])))"
proof -
  have "\<exists>args' s'. multi_main toy_env demo_machine demo_args toy_child = Some (Replaced args', s') \<and>
      pair_words (trace_of s') = [0x600000005]"
    unfolding multi_main_def demo_scan
    apply (simp add: demo_accepted demo_opt_simps coordinator_steps worker_image_def toy_calls Let_def upt_rec cong: kept_cong)
    apply (simp add: kept_def pair_words_def)
    done
  then obtain args' s' where run: "multi_main toy_env demo_machine demo_args toy_child = Some (Replaced args', s')"
    and p: "pair_words (trace_of s') = [0x600000005]"
    by blast
  let ?c = "Proc (sys_getenv ''ASCEND_RT_VISIBLE_DEVICES'')"
  have "probe_call toy_env ?c (toy_start []) = (0, nullptr, plain_call toy_env ?c (toy_start []))"
    by (simp add: plain_call_def probe_call_def call_def toy_fns)
  moreover have "trace_of toy_child = []"
    by (simp add: toy_world_def trace_of_def)
  moreover have "0 \<le> high_fd (last (pair_words (trace_of s')))"
    by (simp add: p demo_pairs)
  ultimately show ?thesis
    using worker_gets_options [OF run toy_bounded] run by blast
qed

subsection \<open>The address range\<close>

lemma reserve_is_multiple:
  assumes "unat bytes + (2 ^ 30 - 1) < 2 ^ 64"
  shows "unat (reserve_bytes bytes) = (unat bytes + (2 ^ 30 - 1)) div 2 ^ 30 * 2 ^ 30"
proof -
  have "unat (bytes + (2 ^ 30 - 1)) = unat bytes + (2 ^ 30 - 1)"
    using assms by (subst unat_add_no_wrap) simp_all
  then show ?thesis
    using unat_and_not_mask [of "bytes + (2 ^ 30 - 1)" 30]
    by (simp add: reserve_bytes_def va_alignment_def add_diff_eq add.commute mask_eq_exp_minus_1)
qed

lemma mib_bytes:
  assumes "mib \<noteq> 0" "even mib" "mib \<le> SIZE_MAX div (1024 * 1024)"
  shows "0 < unat (mib * 1024 * 1024) \<and> 2 ^ 21 dvd unat (mib * 1024 * 1024)"
proof -
  have small: "unat mib \<le> (2 ^ 64 - 1) div 2 ^ 20"
    using assms(3) by (simp add: word_le_nat_alt SIZE_MAX_def unat_div)
  have "mib mod 2 = 0"
    using assms(2) by (simp add: even_iff_mod_2_eq_zero)
  from arg_cong [OF this, of unat] have "unat mib mod 2 = 0"
    by (simp add: unat_mod)
  then obtain k where k: "unat mib = 2 * k" by blast
  have "unat (mib * 1024 * 1024) = unat mib * 2 ^ 20"
    using small by (simp add: unat_mult_no_wrap mult.assoc)
  then have "unat (mib * 1024 * 1024) = k * 2 ^ 21"
    by (simp add: k)
  moreover have "0 < k"
    using k assms(1) by (simp add: unat_eq_0 [symmetric])
  ultimately show ?thesis by simp
qed

definition whole_mib :: "multi_options \<Rightarrow> bool" where
  "whole_mib opt \<longleftrightarrow> 0 < unat (mo_bytes opt) \<and> 2 ^ 21 dvd unat (mo_bytes opt)"

lemma multi_set_bytes:
  assumes "multi_set key v opt = Inr opt'" and "whole_mib opt"
  shows "whole_mib opt'"
proof (cases "key = ''--size-mib''")
  case True
  with assms(1) obtain mib where "mib \<noteq> 0 \<and> even mib \<and> mib \<le> SIZE_MAX div (1024 * 1024) \<and>
      opt' = opt\<lparr>mo_bytes := mib * 1024 * 1024\<rparr>"
    by (cases "number v") (auto simp: multi_set_def not_less split: if_splits)
  with mib_bytes show ?thesis by (simp add: whole_mib_def)
next
  case False
  with assms(1) have "mo_bytes opt' = mo_bytes opt"
    by (cases "number_list v") (auto simp: multi_set_def split: if_splits sum.splits)
  with assms(2) show ?thesis by (simp add: whole_mib_def)
qed

lemma multi_scan_bytes: "multi_scan args opt = Multi_Ok opt' \<Longrightarrow> whole_mib opt \<Longrightarrow> whole_mib opt'"
  by (induction args opt rule: multi_scan.induct) (auto dest: multi_set_bytes split: if_splits sum.splits)

text \<open>C28. The options that multi_share accepts name 1 to 64 different devices and a size per device that is a
  positive multiple of 2 MiB, and nothing overflows: the total is the exact product, the reserved size is the least
  multiple of 1 GiB that holds it, and in any range of that size the slices follow each other without
  gap or overlap.\<close>

theorem accepted_slices:
  assumes "multi_scan args multi_defaults = Multi_Ok opt" "\<not> multi_bad opt"
    and "unat base + unat (reserve_bytes (total_bytes opt)) \<le> 2 ^ 64" "i < mo_count opt"
  shows "mo_count opt \<le> 64 \<and> distinct (mo_devices opt) \<and> 0 < unat (mo_bytes opt) \<and> 2 ^ 21 dvd unat (mo_bytes opt) \<and>
    unat (total_bytes opt) = mo_count opt * unat (mo_bytes opt) \<and>
    2 ^ 30 dvd unat (reserve_bytes (total_bytes opt)) \<and> unat (total_bytes opt) \<le> unat (reserve_bytes (total_bytes opt)) \<and>
    unat (reserve_bytes (total_bytes opt)) < unat (total_bytes opt) + 2 ^ 30 \<and>
    unat (slice_va base (mo_bytes opt) i) = unat base + i * unat (mo_bytes opt) \<and>
    unat (slice_va base (mo_bytes opt) i) + unat (mo_bytes opt) \<le> unat base + unat (reserve_bytes (total_bytes opt))"
proof -
  let ?n = "mo_count opt" and ?b = "unat (mo_bytes opt)" and ?t = "total_bytes opt"
  have bad: "0 < ?n" "?n \<le> 64" "distinct (mo_devices opt)" "mo_bytes opt \<le> SIZE_MAX div of_nat ?n" "?t \<le> SIZE_MAX - (va_alignment - 1)"
    using assms(2) by (auto simp: multi_bad_def not_less)
  have n: "unat (of_nat ?n :: u64) = ?n"
    using bad(2) by (intro unat_of_nat_u64) simp
  have "?b \<le> (2 ^ 64 - 1) div ?n"
    using bad(4) by (simp add: word_le_nat_alt unat_div n SIZE_MAX_def unsigned_minus_1_eq_mask mask_eq_exp_minus_1)
  then have prod: "?n * ?b \<le> 2 ^ 64 - 1"
    using bad(1) by (metis div_times_less_eq_dividend le_trans mult.commute mult_le_mono1)
  then have total: "unat ?t = ?n * ?b"
    by (simp add: total_bytes_def unat_mult_no_wrap n mult.commute)
  have "unat (SIZE_MAX - (va_alignment - 1)) = 2 ^ 64 - 1 - (2 ^ 30 - 1)"
    by (simp add: SIZE_MAX_def va_alignment_def)
  then have "unat ?t + (2 ^ 30 - 1) < 2 ^ 64"
    using bad(5) by (simp add: word_le_nat_alt)
  note r = reserve_is_multiple [OF this]
  define q where "q = (unat ?t + (2 ^ 30 - 1)) div 2 ^ 30"
  have q: "unat ?t \<le> q * 2 ^ 30" "q * 2 ^ 30 < unat ?t + 2 ^ 30" "unat (reserve_bytes ?t) = q * 2 ^ 30"
    using r div_mult_mod_eq [of "unat ?t + (2 ^ 30 - 1)" "2 ^ 30"] mod_less_divisor [of "2 ^ 30" "unat ?t + (2 ^ 30 - 1)"]
    unfolding q_def by simp_all
  have i: "i * ?b + ?b \<le> ?n * ?b"
    using assms(4) by (metis Suc_leI mult_Suc mult_le_mono1 add.commute)
  have "unat (of_nat i * mo_bytes opt) = i * ?b"
  proof -
    have "unat (of_nat i :: u64) = i"
      using assms(4) bad(2) by (intro unat_of_nat_u64) simp
    then show ?thesis
      using i prod by (simp add: unat_mult_no_wrap)
  qed
  moreover have "0 < ?b \<and> 2 ^ 21 dvd ?b"
    using multi_scan_bytes [OF assms(1)] by (simp add: whole_mib_def multi_defaults_def)
  moreover have "unat base + i * ?b < 2 ^ 64"
    using calculation assms(3) q total i by linarith
  ultimately show ?thesis
    using bad q total i by (simp add: slice_va_def unat_add_no_wrap)
qed

theorem accepted_slices_witness:
  "unat (slice_va 0x40000000 (mo_bytes demo_opt) 1) = unat (0x40000000 :: u64) + 1 * unat (mo_bytes demo_opt) \<and>
   2 ^ 30 dvd unat (reserve_bytes (total_bytes demo_opt))"
proof -
  have "unat (0x40000000 :: u64) + unat (reserve_bytes (total_bytes demo_opt)) \<le> 2 ^ 64" "1 < mo_count demo_opt"
    by (simp_all add: total_bytes_def demo_opt_simps reserve_bytes_def va_alignment_def)
  from accepted_slices [OF demo_scan demo_accepted this] show ?thesis by blast
qed

end
