(* ===== verification/Probe_Runs.thy ===== *)
theory Probe_Runs
  imports Multi_Examples
begin

text \<open>
  Runs of the other sharing probes on the small machine, with blocks of two words: both processes of
  hal_map_probe, of device_share and of host_share.
\<close>

subsection \<open>src/hal_map_probe.cpp\<close>

lemmas hmp_list = hmp_body_def hmp_open_def hmp_create_def hmp_share_def hmp_import_def hmp_use_def

lemmas hmp_eval = hmp_init_def hal_map.defs hmp_cleanup_def hmp_expect_zero_def hmp_receive_def

lemmas launch_eval = launch_pair_def parent_waits_def set_timeouts_def low_fd_def high_fd_def

definition hmp_parent :: "(ended \<times> toy probe) option" where
  "hmp_parent = launch_pair toy_env (\<lambda>fd. [fd]) (\<lambda>importer fd. hmp_worker toy_env importer True 0 16 fd) []
     (toy_start [(0, [(2 ^ 30, 202), (2 ^ 30 + 8, 203)]), (0, [])])"

definition hmp_child :: "(int \<times> toy probe) option" where
  "hmp_child = hmp_worker toy_env True True 0 16 6 (toy_start [(77, [(2 ^ 30, 101), (2 ^ 30 + 8, 100)]), (0, [])])"

lemma hmp_parent_run:
  "\<exists>s. hmp_parent = Some (Exit 0, s) \<and> own_pair (trace_of s) = Some 0x600000005 \<and>
     map (counts 5) (trace_of s) = word_profile 28 [17, 21] [16, 20] \<and>
     list_ex (\<lambda>e. touches (fst e)) (trace_of s)"
  unfolding hmp_parent_def hmp_worker_def hmp_list list_eval
  apply (simp add: launch_eval toy_calls toy_steps hmp_eval Let_def cong: run_cong kept_cong)
  apply (simp add: kept_def on_event touches_def own_pair_def)
  apply code_simp
  done

lemma hmp_child_run:
  "\<exists>s. hmp_child = Some (0, s) \<and> map (counts 6) (trace_of s) = word_profile 19 [2, 12] [11, 16] \<and>
     list_ex (\<lambda>e. touches (fst e)) (trace_of s)"
  unfolding hmp_child_def hmp_worker_def hmp_list list_eval
  apply (simp add: toy_calls toy_steps hmp_eval Let_def cong: run_cong kept_cong)
  apply (simp add: kept_def on_event touches_def)
  apply code_simp
  done

text \<open>An order of both traces in which the creator goes first, and everything is received after it was sent.\<close>

definition pair_order :: "nat \<Rightarrow> nat \<Rightarrow> nat \<Rightarrow> nat \<Rightarrow> (bool \<times> nat) list" where
  "pair_order nc ni lc li = [(False, nc), (True, ni), (False, 4), (True, li - ni), (False, lc - (nc + 4))]"

definition both :: "'e list \<Rightarrow> 'e list \<Rightarrow> bool \<Rightarrow> 'e list" where
  "both tc ti p = (if p then ti else tc)"

lemma both_woven:
  assumes "runs_of False rs = length tc" and "runs_of True rs = length ti"
  shows "woven tc ti (merge_runs rs (both tc ti))"
  unfolding woven_def of_proc_is of_proc_def
  by (simp only: merge_runs_events assms) (simp add: both_def)

lemma both_causal:
  assumes "map (counts fdc) tc = pc" and "map (counts fdi) ti = pi"
    and "paced False True 0 0 0 0 (merge_runs rs (both pc pi))"
  shows "causal fdc fdi (merge_runs rs (both tc ti))"
proof (rule merged_causal)
  have "(\<lambda>p. map (counts (if p then fdi else fdc)) (both tc ti p)) = both pc pi"
    using assms(1,2) by (auto simp: both_def fun_eq_iff)
  with assms(3) show "paced False True 0 0 0 0 (merge_runs rs (\<lambda>p. map (counts (if p then fdi else fdc)) (both tc ti p)))"
    by simp
qed

lemma both_exchanged:
  assumes "map (counts fdc) tc = pc" and "map (counts fdi) ti = pi"
    and "paced False True 0 0 0 0 (merge_runs rs (both pc pi))"
  shows "exchanged fdc fdi (merge_runs rs (both tc ti))"
  unfolding exchanged_def
proof (intro allI impI)
  fix k p
  assume k: "k \<le> length (merge_runs rs (both tc ti))"
  have "(\<lambda>p. map (counts (if p then fdi else fdc)) (both tc ti p)) = both pc pi"
    using assms(1,2) by (auto simp: both_def fun_eq_iff)
  with assms(3) have "paced False True 0 0 0 0 (map (\<lambda>(p, e). (p, counts (if p then fdi else fdc) e)) (merge_runs rs (both tc ti)))"
    by (simp add: merge_runs_map)
  from paced_prefix [OF this _ k]
  show "receives_on (own_end fdc fdi p) (of_process p (take k (merge_runs rs (both tc ti))))
      \<le> sends_on (own_end fdc fdi (\<not> p)) (of_process (\<not> p) (take k (merge_runs rs (both tc ti))))"
    by (cases p) (simp_all add: own_end_def of_proc_is)
qed

lemma hmp_paced:
  "paced False True 0 0 0 0 (merge_runs (pair_order 17 12 28 19)
     (both (word_profile 28 [17, 21] [16, 20]) (word_profile 19 [2, 12] [11, 16])))"
  by code_simp

subsection \<open>src/device_share.cpp\<close>

lemmas dvs_list = dvs_body_def dvs_open_def dvs_make_host_def dvs_creator_def dvs_importer_def dvs_import_def
  dvs_exchange_def dvs_give_back_def allocate_hbm_def

lemmas dvs_eval = dvs_init_def device_share.defs dvs_scope_end_def dvs_close_def hal_copy_def clear_words_def

definition dvs_parent :: "(ended \<times> toy probe) option" where
  "dvs_parent = launch_pair toy_env (\<lambda>fd. [''--worker-fd'', fd]) (\<lambda>importer fd. dvs_worker toy_env importer fd 16) []
     (toy_start [(0, [(2 * 2 ^ 30, 202), (2 * 2 ^ 30 + 8, pattern_word 1 202)]), (0, [])])"

definition dvs_child :: "(int \<times> toy probe) option" where
  "dvs_child = dvs_worker toy_env True 6 16 (toy_start [(77, [(2 * 2 ^ 30, 101), (2 * 2 ^ 30 + 8, pattern_word 1 101)]), (0, [])])"

lemma dvs_parent_run:
  "\<exists>s. dvs_parent = Some (Exit 0, s) \<and> own_pair (trace_of s) = Some 0x600000005 \<and>
     map (counts 5) (trace_of s) = word_profile 46 [29, 33] [28, 32] \<and>
     list_ex (\<lambda>e. touches (fst e)) (trace_of s)"
  unfolding dvs_parent_def dvs_worker_def dvs_list list_eval
  apply (simp add: launch_eval toy_calls toy_steps dvs_eval Let_def cong: run_cong kept_cong)
  apply (simp add: kept_def on_event touches_def own_pair_def)
  apply code_simp
  done

lemma dvs_child_run:
  "\<exists>s. dvs_child = Some (0, s) \<and> map (counts 6) (trace_of s) = word_profile 41 [7, 28] [27, 32] \<and>
     list_ex (\<lambda>e. touches (fst e)) (trace_of s)"
  unfolding dvs_child_def dvs_worker_def dvs_list list_eval
  apply (simp add: toy_calls toy_steps dvs_eval Let_def cong: run_cong kept_cong)
  apply (simp add: kept_def on_event touches_def)
  apply code_simp
  done

lemma dvs_paced:
  "paced False True 0 0 0 0 (merge_runs (pair_order 29 28 46 41)
     (both (word_profile 46 [29, 33] [28, 32]) (word_profile 41 [7, 28] [27, 32])))"
  by code_simp

subsection \<open>src/host_share.cpp\<close>

text \<open>
  With a block of one word. First a run in which the second process dies before it has answered, so the
  first one gives up and exits with code 1; then, without the file tests, both processes of a run that passes.
\<close>

definition hsh_parent :: "(ended \<times> toy probe) option" where
  "hsh_parent = launch_pair toy_env (\<lambda>fd. [''--worker-fd'', fd])
     (\<lambda>importer fd. hsh_worker toy_env cli_defaults importer fd 8) [] (toy_start [])"

definition hsh_options :: cli_options where
  "hsh_options = cli_defaults\<lparr>cli_aio := ''none''\<rparr>"

definition hsh_passing :: "(ended \<times> toy probe) option" where
  "hsh_passing = launch_pair toy_env (\<lambda>fd. [''--worker-fd'', fd])
     (\<lambda>importer fd. hsh_worker toy_env hsh_options importer fd 8) []
     (toy_start [(0, [(2 ^ 30, 202)]), (0, [(2 ^ 30, 404)]), (0, [])])"

definition hsh_child :: "(int \<times> toy probe) option" where
  "hsh_child = hsh_worker toy_env hsh_options True 6 8 (toy_start [(77, [(2 ^ 30, 101)]), (303, [(2 ^ 30, 303)]), (0, [])])"

lemmas hsh_list = hsh_body_def hsh_open_def hsh_creator_def hsh_importer_def hsh_map_def

lemmas hsh_eval = hsh_init_def host_share.defs hsh_finish_def inspect_mapping_def cli_defaults_def

lemma hsh_parent_run:
  "\<exists>s. hsh_parent = Some (Exit 1, s) \<and> own_pair (trace_of s) = Some 0x600000005 \<and> \<not> cleanup_failed s"
  unfolding hsh_parent_def hsh_worker_def hsh_list list_eval
  apply (simp add: launch_eval toy_calls toy_steps hsh_eval Let_def cong: run_cong kept_cong)
  apply (simp add: kept_def own_pair_def)
  done

lemma thirty_two: "replicate 32 x = replicate 16 x @ replicate 16 x"
  by (simp add: replicate_add [symmetric])

lemma io_tests_none:
  "cli_aio opt = ''none'' \<Longrightarrow> io_tests E opt p bytes seed s =
     (case run_steps [acl_tests E p bytes seed, assign (\<lambda>s. fill E p bytes seed s)] (iot_init s) of None \<Rightarrow> None
      | Some (e, s1) \<Rightarrow>
          let s2 = AclResources_destroy E (iot_acl s1) s1
          in Some (case e of Some what \<Rightarrow> Inl what | None \<Rightarrow> Inr (iot_failures s1), probe.truncate s2))"
  by (auto simp: io_tests_def io_body_def when_step_def split: option.splits)

lemmas hsh_io = hsh_io_tests_def io_tests_none iot_init_def io_vars.defs hsh_options_def copy_to_device_def copy_to_host_def
  sync_stream_def acl_tests_def [unfolded acl_setup_def acl_round_trip_def acl_backlog_def thirty_two sixteen eight append.simps if_True if_False]

lemma hsh_passing_run:
  "\<exists>s. hsh_passing = Some (Exit 0, s) \<and> own_pair (trace_of s) = Some 0x600000005 \<and>
     map (counts 5) (trace_of s) = word_profile 119 [19, 108, 111] [18, 107, 110] \<and> list_ex (\<lambda>e. touches (fst e)) (trace_of s)"
  unfolding hsh_passing_def hsh_worker_def hsh_list list_eval
  apply (simp add: launch_eval toy_calls toy_steps hsh_io hsh_eval Let_def cong: run_cong kept_cong)
  apply (simp add: kept_def on_event own_pair_def touches_def)
  apply code_simp
  done

lemma hsh_child_run:
  "\<exists>s. hsh_child = Some (0, s) \<and> map (counts 6) (trace_of s) = word_profile 109 [3, 12, 101] [11, 100, 105] \<and>
     list_ex (\<lambda>e. touches (fst e)) (trace_of s)"
  unfolding hsh_child_def hsh_worker_def hsh_list list_eval
  apply (simp add: toy_calls toy_steps hsh_io hsh_eval Let_def cong: run_cong kept_cong)
  apply (simp add: kept_def on_event touches_def)
  apply code_simp
  done

text \<open>Both take turns.\<close>

definition hsh_order :: "(bool \<times> nat) list" where
  "hsh_order = [(False, 19), (True, 12), (False, 89), (True, 89), (False, 3), (True, 8), (False, 8)]"

lemma hsh_paced:
  "paced False True 0 0 0 0 (merge_runs hsh_order
     (both (word_profile 119 [19, 108, 111] [18, 107, 110]) (word_profile 109 [3, 12, 101] [11, 100, 105])))"
  by code_simp

end
