(* ===== verification/Hal_Map_Facts.thy ===== *)
theory Hal_Map_Facts
  imports Hal_Map_Probe Probe_Launch
begin

unbundle bit_operations_syntax

text \<open>
  The facts about \<open>Hal_Map_Probe\<close>: what its words do on the socket, the two sides of the hand-over,
  and that the worker keeps its books.
\<close>

subsection \<open>Words\<close>

lemma hm_send_word_result:
  assumes "hm_send_word E fd v s = Some x"
  shows "bounded_transfers E \<longrightarrow> snd x = s\<lparr>sys_of := sys_of (snd x)\<rparr> \<and>
    (\<exists>ev. trace_of (snd x) = trace_of s @ ev \<and> list_all (is_send fd) (map fst ev) \<and> sends_on fd ev \<le> 8 \<and>
      (fst x = None \<longrightarrow> sent_bytes fd ev = map (byte_at v) [0..<8]))"
proof (rule hm_send_word.raw_induct [OF _ assms])
  fix loop :: "'a env \<Rightarrow> int \<Rightarrow> u64 \<Rightarrow> ('a, 'b) probe_scheme \<Rightarrow> (string option \<times> ('a, 'b) probe_scheme) option"
    and E fd v s x
  let ?P = "\<lambda>E fd v s x. bounded_transfers E \<longrightarrow> snd x = s\<lparr>sys_of := sys_of (snd x)\<rparr> \<and>
    (\<exists>ev. trace_of (snd x) = trace_of s @ ev \<and> list_all (is_send fd) (map fst ev) \<and> sends_on fd ev \<le> 8 \<and>
      (fst x = None \<longrightarrow> sent_bytes fd ev = map (byte_at v) [0..<8]))"
  assume IH: "\<And>E fd v s x. loop E fd v s = Some x \<Longrightarrow> ?P E fd v s x"
    and body: "(case probe_call E (Io (sys_send fd v 8)) s of
        (n, _, s1) \<Rightarrow> if n = - EINTR then loop E fd v s1
                     else Some (if n \<noteq> 8 then Some ''IPC send'' else None, s1)) = Some x"
  show "?P E fd v s x"
  proof (intro impI)
    assume law: "bounded_transfers E"
    obtain n out s1 where c: "probe_call E (Io (sys_send fd v 8)) s = (n, out, s1)"
      by (rule prod_cases3)
    have n8: "n \<le> 8"
      using law c unfolding bounded_transfers_def
      by (metis (no_types, lifting) fst_conv probe_call_cases of_nat_numeral)
    have s1: "s1 = s\<lparr>sys_of := sys_of s1\<rparr>"
      using moves_same [OF moves_call [of "\<lambda>_. True", OF _ c]] by simp
    note t = probe_call_trace [OF c]
    show "snd x = s\<lparr>sys_of := sys_of (snd x)\<rparr> \<and>
      (\<exists>ev. trace_of (snd x) = trace_of s @ ev \<and> list_all (is_send fd) (map fst ev) \<and> sends_on fd ev \<le> 8 \<and>
        (fst x = None \<longrightarrow> sent_bytes fd ev = map (byte_at v) [0..<8]))"
    proof (cases "n = - EINTR")
      case True
      with body c have "loop E fd v s1 = Some x" by simp
      with IH law obtain ev where x: "snd x = s1\<lparr>sys_of := sys_of (snd x)\<rparr>"
        and ev: "trace_of (snd x) = trace_of s1 @ ev" "list_all (is_send fd) (map fst ev)"
          "sends_on fd ev \<le> 8" "fst x = None \<longrightarrow> sent_bytes fd ev = map (byte_at v) [0..<8]"
        by blast
      have "snd x = s\<lparr>sys_of := sys_of (snd x)\<rparr>"
        by (subst x, subst s1) simp
      moreover have "sent_bytes fd [(Io (sys_send fd v 8), n, out)] = []"
        using True by (simp add: socket_event EINTR_def)
      then have "sent_bytes fd ([(Io (sys_send fd v 8), n, out)] @ ev) = sent_bytes fd ev"
        by (simp only: socket_bytes_simps append_Nil)
      ultimately show ?thesis
        using ev t by (intro conjI exI [of _ "[(Io (sys_send fd v 8), n, out)] @ ev"]) (auto simp: sends_on_def)
    next
      case False
      with body c have x: "x = (if n \<noteq> 8 then Some ''IPC send'' else None, s1)" by simp
      have b: "sent_bytes fd [(Io (sys_send fd v 8), n, out)] = (if 0 < n then map (byte_at v) [0..<nat n] else [])"
        by (simp add: socket_event)
      have "snd x = s\<lparr>sys_of := sys_of (snd x)\<rparr>"
        using s1 x by simp
      moreover have "fst x = None \<longrightarrow> sent_bytes fd [(Io (sys_send fd v 8), n, out)] = map (byte_at v) [0..<8]"
        using x b by (simp split: if_splits)
      moreover have "sends_on fd [(Io (sys_send fd v 8), n, out)] \<le> 8"
        using n8 b by (simp add: sends_on_def nat_le_iff)
      ultimately show ?thesis
        using x t by (intro conjI exI [of _ "[(Io (sys_send fd v 8), n, out)]"]) simp_all
    qed
  qed
qed

lemma hm_receive_word_result:
  assumes "hm_receive_word E fd s = Some x"
  shows "snd x = s\<lparr>sys_of := sys_of (snd x)\<rparr> \<and>
    (\<exists>ev. trace_of (snd x) = trace_of s @ ev \<and> list_all (is_recv fd) (map fst ev) \<and>
      (\<forall>w. fst x = Inr w \<longrightarrow> received_bytes fd ev = map (byte_at w) [0..<8]))"
proof (rule hm_receive_word.raw_induct [OF _ assms])
  fix loop :: "'a env \<Rightarrow> int \<Rightarrow> ('a, 'b) probe_scheme \<Rightarrow> ((string + u64) \<times> ('a, 'b) probe_scheme) option"
    and E fd s x
  let ?P = "\<lambda>fd s x. snd x = s\<lparr>sys_of := sys_of (snd x)\<rparr> \<and>
    (\<exists>ev. trace_of (snd x) = trace_of s @ ev \<and> list_all (is_recv fd) (map fst ev) \<and>
      (\<forall>w. fst x = Inr w \<longrightarrow> received_bytes fd ev = map (byte_at w) [0..<8]))"
  assume IH: "\<And>E fd s x. loop E fd s = Some x \<Longrightarrow> ?P fd s x"
    and body: "(case probe_call E (Io (sys_recv fd 8)) s of
        (n, v, s1) \<Rightarrow> if n = - EINTR then loop E fd s1
                     else Some (if n \<noteq> 8 then Inl ''IPC receive / peer closed'' else Inr v, s1)) = Some x"
  obtain n v s1 where c: "probe_call E (Io (sys_recv fd 8)) s = (n, v, s1)"
    by (rule prod_cases3)
  have s1: "s1 = s\<lparr>sys_of := sys_of s1\<rparr>"
    using moves_same [OF moves_call [of "\<lambda>_. True", OF _ c]] by simp
  note t = probe_call_trace [OF c]
  show "?P fd s x"
  proof (cases "n = - EINTR")
    case True
    with body c have "loop E fd s1 = Some x" by simp
    with IH obtain ev where x: "snd x = s1\<lparr>sys_of := sys_of (snd x)\<rparr>"
      and ev: "trace_of (snd x) = trace_of s1 @ ev" "list_all (is_recv fd) (map fst ev)"
        "\<And>w. fst x = Inr w \<Longrightarrow> received_bytes fd ev = map (byte_at w) [0..<8]"
      by blast
    have "snd x = s\<lparr>sys_of := sys_of (snd x)\<rparr>"
      by (subst x, subst s1) simp
    moreover have "received_bytes fd [(Io (sys_recv fd 8), n, v)] = []"
      using True by (simp add: socket_event EINTR_def)
    then have "received_bytes fd ([(Io (sys_recv fd 8), n, v)] @ ev) = received_bytes fd ev"
      by (simp only: socket_bytes_simps append_Nil)
    ultimately show ?thesis
      using ev t by (intro conjI exI [of _ "[(Io (sys_recv fd 8), n, v)] @ ev"]) auto
  next
    case False
    with body c have x: "x = (if n \<noteq> 8 then Inl ''IPC receive / peer closed'' else Inr v, s1)" by simp
    have "\<forall>w. fst x = Inr w \<longrightarrow> received_bytes fd [(Io (sys_recv fd 8), n, v)] = map (byte_at w) [0..<8]"
      using x by (auto simp: socket_event split: if_splits)
    then show ?thesis
      using x t s1 by (intro conjI exI [of _ "[(Io (sys_recv fd 8), n, v)]"]) simp_all
  qed
qed

lemma hm_verify_words_moves: "hm_verify_words E p seed is s = (e, s') \<Longrightarrow> moves is_load s s'"
proof (induction "is" arbitrary: s)
  case Nil
  then show ?case by simp
next
  case (Cons i js)
  obtain r v s1 where c: "probe_call E (Cpu (cpu_load 8 (p + of_nat (8 * i)))) s = (r, v, s1)"
    by (rule prod_cases3)
  then have "moves is_load s s1"
    by (rule moves_call [rotated]) (simp add: is_load_def)
  with Cons c show ?case
    by (auto split: if_splits intro: moves_trans)
qed

subsection \<open>Effects of the statements\<close>

lemma hm_send_effects:
  assumes "hm_send_word E fd v s = Some (e, s')"
  shows "bounded_transfers E \<Longrightarrow> \<exists>ev. trace_of s' = trace_of s @ ev \<and> sends_on fd ev \<le> 8 \<and> list_all (is_send fd) (map fst ev)"
    and "bounded_transfers E \<Longrightarrow> s' = s\<lparr>sys_of := sys_of s'\<rparr>"
  using hm_send_word_result [OF assms] by auto

lemma hm_receive_effects:
  assumes "hm_receive_word E fd s = Some (r, s')"
  obtains ev where "trace_of s' = trace_of s @ ev" "list_all (is_recv fd) (map fst ev)"
    "\<And>w. r = Inr w \<Longrightarrow> receives_on fd ev = 8" "s' = s\<lparr>sys_of := sys_of s'\<rparr>"
proof -
  obtain ev where ev: "trace_of s' = trace_of s @ ev" "list_all (is_recv fd) (map fst ev)"
    "\<And>w. r = Inr w \<Longrightarrow> received_bytes fd ev = map (byte_at w) [0..<8]" and s': "s' = s\<lparr>sys_of := sys_of s'\<rparr>"
    using hm_receive_word_result [OF assms] by auto
  have "receives_on fd ev = 8" if "r = Inr w" for w
    using ev(3) [OF that] by (simp add: receives_on_def)
  with ev(1,2) s' show thesis
    by (intro that)
qed

lemma hmp_send_steps:
  assumes "bounded_transfers E"
  shows "sends_word fd (\<lambda>s. hm_send_word E fd (v s) s)"
    "(\<And>s t. get (s\<lparr>sys_of := t\<rparr>) = get s) \<Longrightarrow> leaves get (\<lambda>s. hm_send_word E fd (v s) s)"
    "appends (is_send fd) (\<lambda>s. hm_send_word E fd (v s) s)"
proof -
  show "sends_word fd (\<lambda>s. hm_send_word E fd (v s) s)"
    unfolding sends_word_def using hm_send_effects(1) [OF _ assms] by blast
  show "leaves get (\<lambda>s. hm_send_word E fd (v s) s)" if "\<And>s t. get (s\<lparr>sys_of := t\<rparr>) = get s"
    by (rule leaves_moves [where C = "is_send fd"]) (use hm_send_effects [OF _ assms] moves_def in blast, rule that)
  show "appends (is_send fd) (\<lambda>s. hm_send_word E fd (v s) s)"
    by (rule appendsI) (use hm_send_effects(1) [OF _ assms] in blast)
qed

lemma hmp_send_const:
  assumes "bounded_transfers E"
  shows "sends_word fd (hm_send_word E fd v)"
    "(\<And>s t. get (s\<lparr>sys_of := t\<rparr>) = get s) \<Longrightarrow> leaves get (hm_send_word E fd v)"
    "appends (is_send fd) (hm_send_word E fd v)"
  by (rule hmp_send_steps [OF assms, where v = "\<lambda>_. v"], assumption?)+

lemma hmp_receive_result:
  assumes f: "hmp_receive E fd s = Some (e, s')"
  obtains u ev where "trace_of u = trace_of s @ ev" "list_all (is_recv fd) (map fst ev)"
    "u = s\<lparr>sys_of := sys_of u\<rparr>" "s' = u \<or> (\<exists>v. s' = u\<lparr>hmp_token := v\<rparr>)"
proof -
  obtain r s1 where w: "hm_receive_word E fd s = Some (r, s1)"
    using f by (cases "hm_receive_word E fd s") (auto simp: hmp_receive_def)
  have s': "s' = s1 \<or> (\<exists>v. s' = s1\<lparr>hmp_token := v\<rparr>)"
    using f w by (auto simp: hmp_receive_def split: sum.splits)
  obtain ev where "trace_of s1 = trace_of s @ ev" "list_all (is_recv fd) (map fst ev)"
    "\<And>w. r = Inr w \<Longrightarrow> receives_on fd ev = 8" "s1 = s\<lparr>sys_of := sys_of s1\<rparr>"
    by (rule hm_receive_effects [OF w], rule that)
  then show thesis
    by (intro that [of s1 ev] s')
qed

lemma hmp_expect_zero_result:
  assumes f: "hmp_expect_zero E fd what s = Some (e, s')"
  obtains ev where "trace_of s' = trace_of s @ ev" "list_all (is_recv fd) (map fst ev)"
    "s' = s\<lparr>sys_of := sys_of s'\<rparr>" "e = None \<longrightarrow> receives_on fd ev = 8"
proof -
  obtain r s1 where w: "hm_receive_word E fd s = Some (r, s1)"
    using f by (cases "hm_receive_word E fd s") (auto simp: hmp_expect_zero_def)
  have s': "s' = s1" "e = None \<Longrightarrow> \<exists>w. r = Inr w"
    using f w by (auto simp: hmp_expect_zero_def split: sum.splits if_splits)
  obtain ev where ev: "trace_of s1 = trace_of s @ ev" "list_all (is_recv fd) (map fst ev)"
    "\<And>w. r = Inr w \<Longrightarrow> receives_on fd ev = 8" "s1 = s\<lparr>sys_of := sys_of s1\<rparr>"
    by (rule hm_receive_effects [OF w], rule that)
  then have "e = None \<longrightarrow> receives_on fd ev = 8"
    using s'(2) by blast
  with ev(1,2,4) show thesis
    unfolding s'(1) [symmetric] by (intro that)
qed

lemma hmp_receive_steps:
  "appends (is_recv fd) (hmp_receive E fd)"
  "(\<And>s t. get (s\<lparr>sys_of := t\<rparr>) = get s) \<Longrightarrow> (\<And>s v. get (s\<lparr>hmp_token := v\<rparr>) = get s) \<Longrightarrow> leaves get (hmp_receive E fd)"
  "appends (is_recv fd) (hmp_expect_zero E fd what)"
  "(\<And>s t. get (s\<lparr>sys_of := t\<rparr>) = get s) \<Longrightarrow> leaves get (hmp_expect_zero E fd what)"
  "receives_word fd (hmp_expect_zero E fd what)"
proof -
  show "appends (is_recv fd) (hmp_receive E fd)"
  proof (rule appendsI)
    fix s e s'
    assume "hmp_receive E fd s = Some (e, s')"
    then obtain u ev where "trace_of u = trace_of s @ ev" "list_all (is_recv fd) (map fst ev)"
      "s' = u \<or> (\<exists>v. s' = u\<lparr>hmp_token := v\<rparr>)"
      by (rule hmp_receive_result) blast
    then show "\<exists>ev. trace_of s' = trace_of s @ ev \<and> list_all (is_recv fd) (map fst ev)"
      by (auto simp: trace_of_def)
  qed
  show "leaves get (hmp_receive E fd)"
    if "\<And>s t. get (s\<lparr>sys_of := t\<rparr>) = get s" "\<And>s v. get (s\<lparr>hmp_token := v\<rparr>) = get s"
    by (rule leavesI, erule hmp_receive_result) (metis that)
  show "appends (is_recv fd) (hmp_expect_zero E fd what)"
    by (rule appendsI, erule hmp_expect_zero_result) blast
  show "leaves get (hmp_expect_zero E fd what)" if "\<And>s t. get (s\<lparr>sys_of := t\<rparr>) = get s"
    by (rule leavesI, erule hmp_expect_zero_result) (metis that)
  show "receives_word fd (hmp_expect_zero E fd what)"
    unfolding receives_word_def by (blast elim: hmp_expect_zero_result intro: eq_refl [OF sym])
qed

lemma hmp_memory_steps:
  "appends is_store (assign (\<lambda>s. write_pattern E (p s) bytes seed s))"
  "(\<And>s t. get (s\<lparr>sys_of := t\<rparr>) = get s) \<Longrightarrow> leaves get (assign (\<lambda>s. write_pattern E (p s) bytes seed s))"
  "appends is_load (\<lambda>s. hm_verify E (q s) bytes seed s)"
  "(\<And>s t. get (s\<lparr>sys_of := t\<rparr>) = get s) \<Longrightarrow> leaves get (\<lambda>s. hm_verify E (q s) bytes seed s)"
proof -
  have w: "moves is_store s s'" if "assign (\<lambda>s. write_pattern E (p s) bytes seed s) s = Some (e, s')" for s e s'
    using that by (auto simp: assign_def write_pattern_def store_pattern_moves)
  have v: "moves is_load s s'" if "hm_verify E (q s) bytes seed s = Some (e, s')" for s e s'
    using that by (auto simp: hm_verify_def intro: hm_verify_words_moves)
  show "appends is_store (assign (\<lambda>s. write_pattern E (p s) bytes seed s))"
    by (rule appends_moves) (rule w, assumption)
  show "leaves get (assign (\<lambda>s. write_pattern E (p s) bytes seed s))" if "\<And>s t. get (s\<lparr>sys_of := t\<rparr>) = get s"
    by (rule leaves_moves [where C = is_store]) (rule w, assumption, rule that)
  show "appends is_load (\<lambda>s. hm_verify E (q s) bytes seed s)"
    by (rule appends_moves) (rule v, assumption)
  show "leaves get (\<lambda>s. hm_verify E (q s) bytes seed s)" if "\<And>s t. get (s\<lparr>sys_of := t\<rparr>) = get s"
    by (rule leaves_moves [where C = is_load]) (rule v, assumption, rule that)
qed

subsection \<open>The two sides\<close>

definition hmp_rest :: "u32 \<Rightarrow> 'w hal_map \<Rightarrow> resource multiset" where
  "hmp_rest device s = one_if (hmp_opened s) (R_hal_device device)"

interpretation hmp: alloc_slot hmp_alloc hmp_alloc_update "hmp_rest device" for device :: u32
  by unfold_locales (simp_all add: hmp_rest_def)

lemmas append_facts =
  hmp_receive_steps(1,3) [THEN appends_mono] hmp_memory_steps(1,3) [THEN appends_mono]

lemma hmp_importer_body:
  assumes "bounded_transfers E"
  shows "triple (\<lambda>s. sends_on fd (trace_of s) = 0) (run_steps (hmp_body E True host device bytes fd))
    (\<lambda>s. importer_side 1 fd (trace_of s)) (\<lambda>s. importer_side 1 fd (trace_of s))"
proof -
  let ?pre = "hmp_open E device @ [hmp_receive E fd,
      reserve_step E ''halMemAddressReserve'' hmp_alloc hmp_alloc_update bytes,
      when_step host [check_step E ''halGetHostID'' (\<lambda>s. Hal (halGetHostID (hmp_target s)))
        (\<lambda>out s. s\<lparr>hmp_target := ucast out\<rparr>) id]]"
  let ?mid = "[when_step host [\<lambda>s. hm_verify E (hmp_va s) bytes 101 s,
      assign (\<lambda>s. write_pattern E (hmp_va s) bytes 202 s)]]"
  let ?mid2 = "[hmp_expect_zero E fd ''creator acknowledged'']"
  have body: "hmp_body E True host device bytes fd = ?pre @
      [import_step E ''halMemImportFromShareableHandle'' hmp_alloc hmp_alloc_update hmp_token hmp_target,
       map_step E ''halMemMap'' hmp_alloc hmp_alloc_update bytes] @ ?mid @ [hm_send_word E fd 0] @ ?mid2 @
      [unmap_step E ''importer unmap'' hmp_alloc hmp_alloc_update,
       release_step E ''importer release'' hmp_alloc hmp_alloc_update,
       free_step E ''importer free VA'' hmp_alloc hmp_alloc_update] @ [hm_send_word E fd 0]"
    by (simp add: hmp_body_def hmp_import_def hmp_use_def)
  have quiet: "\<forall>f \<in> set ?mid. appends no_send f" "\<forall>f \<in> set ?mid2. appends no_send f"
    by (auto intro!: step_effects append_facts)
  have words: "sends_at_most fd (0 + (8 + 0)) (?mid @ [hm_send_word E fd 0] @ ?mid2)"
    by (intro sends_at_most_append sends_one sends_none quiet hmp_send_const(1) [OF assms])
  have "triple (\<lambda>s. sends_on fd (trace_of s) = 0) (run_steps (hmp_body E True host device bytes fd))
    (\<lambda>s. importer_side 1 fd (trace_of s)) (\<lambda>s. importer_side 1 fd (trace_of s))"
    unfolding body append.assoc [of ?mid, symmetric] append.assoc [of "?mid @ _", symmetric]
  proof (rule hmp.importer_body)
    show "\<forall>f \<in> set ?pre. appends no_send f"
      by (auto simp: hmp_open_def reserve_step_def intro!: step_effects append_facts)
    show "sends_at_most fd (8 * 1) ((?mid @ [hm_send_word E fd 0]) @ ?mid2)"
      using words by simp
    show "\<forall>f \<in> set ((?mid @ [hm_send_word E fd 0]) @ ?mid2). leaves hmp_alloc f"
      by (auto intro!: step_effects hmp_memory_steps hmp_receive_steps hmp_send_const(2) [OF assms])
    show "\<forall>f \<in> set [hm_send_word E fd 0]. appends (\<lambda>_. True) f"
      using hmp_send_const(3) [OF assms] by (auto intro: appends_mono)
  qed
  then show ?thesis .
qed

lemma hmp_creator_body:
  assumes law: "bounded_transfers E"
    and run: "run_steps (hmp_body E False host device bytes fd) s = Some (None, s')"
    and t: "list_all (\<lambda>c. \<not> is_let_go c) (map fst (trace_of s))"
  shows "creator_side 1 fd (trace_of s' @ ev)"
proof -
  let ?xs = "hmp_open E device @ hmp_create E bytes @ take 4 (hmp_share E host bytes fd)"
  let ?r1 = "hmp_expect_zero E fd ''importer mapped''"
  let ?ys = "[when_step host [\<lambda>s. hm_verify E (hmp_va s) bytes 202 s], hm_send_word E fd 0]"
  let ?r2 = "hmp_expect_zero E fd ''importer released mapping''"
  have body: "hmp_body E False host device bytes fd = ?xs @ [?r1] @ ?ys @ [?r2] @ []"
    by (simp add: hmp_body_def hmp_share_def)
  have sends: "appends (\<lambda>c. \<not> is_let_go c) (\<lambda>s. hm_send_word E fd (hmp_token s) s)"
    "appends (\<lambda>c. \<not> is_let_go c) (hm_send_word E fd 0)"
    by (rule appends_mono [OF hmp_send_steps(3) [OF law]], erule sockets_keep)
      (rule appends_mono [OF hmp_send_const(3) [OF law]], erule sockets_keep)
  have all: "\<forall>f \<in> set (hmp_body E False host device bytes fd). appends (\<lambda>c. \<not> is_let_go c) f"
    by (auto simp: hmp_body_def hmp_open_def hmp_create_def hmp_share_def alloc_steps sends sockets_keep
        intro!: step_effects append_facts)
  then have "\<forall>f \<in> set ?xs \<union> set ?ys. appends (\<lambda>c. \<not> is_let_go c) f"
    unfolding body set_append by blast
  then have parts: "\<forall>f \<in> set ?xs. appends (\<lambda>c. \<not> is_let_go c) f" "\<forall>f \<in> set ?ys. appends (\<lambda>c. \<not> is_let_go c) f"
    by (blast, blast)
  have "receives_at_least fd (0 + (8 + (0 + 8))) (hmp_body E False host device bytes fd)"
    unfolding body append_Nil2
    by (intro receives_append receives_one hmp_receive_steps(5)) (rule receives_none [OF parts(1)] receives_none [OF parts(2)])+
  then have "receives_at_least fd (8 * (1 + 1)) (hmp_body E False host device bytes fd)"
    by simp
  then show ?thesis
    by (intro creator_body [OF all _ run t]) simp
qed

subsection \<open>The books\<close>

text \<open>What the statements of the worker other than those on the allocation leave alone.\<close>

definition hmp_view :: "u32 \<Rightarrow> 'w hal_map \<Rightarrow> allocation \<times> resource multiset \<times> bool \<times> bool" where
  "hmp_view device s = (hmp_alloc s, hmp_rest device s, hmp_opened s, cleanup_failed s)"

lemma hmp_view_simps [simp]:
  "hmp_view device (s\<lparr>sys_of := t\<rparr>) = hmp_view device s"
  "hmp_view device (s\<lparr>hmp_token := v\<rparr>) = hmp_view device s"
  "hmp_view device (s\<lparr>hmp_target := x\<rparr>) = hmp_view device s"
  by (simp_all add: hmp_view_def hmp_rest_def)

abbreviation hmp_at ::
  "u32 \<Rightarrow> resource multiset \<Rightarrow> bool \<Rightarrow> bool \<Rightarrow> bool \<Rightarrow> 'w hal_map \<Rightarrow> bool" where
  "hmp_at device r0 \<equiv> slot_at hmp_alloc (hmp_rest device) hmp_opened r0"

abbreviation hmp_books :: "u32 \<Rightarrow> resource multiset \<Rightarrow> 'w hal_map \<Rightarrow> bool" where
  "hmp_books device r0 \<equiv> slot_books hmp_alloc (hmp_rest device) r0"

lemma hmp_quiet:
  assumes "appends C f" and "\<And>c r. C c \<Longrightarrow> neutral (c, r)" and "leaves (hmp_view device) f"
  shows "triple (hmp_at device r0 a h m) f (hmp_at device r0 a h m) (hmp_books device r0)"
  by (rule triple_quiet_at [OF assms(1,2)]) (use assms(3) in \<open>simp_all add: hmp_view_def [abs_def]\<close>)

lemma hmp_quiet_check:
  assumes "\<And>s r. neutral (c s, r)"
    and "\<And>out s. sys_of (wr out s) = sys_of s" "\<And>out s. hmp_view device (wr out s) = hmp_view device s"
  shows "triple (hmp_at device r0 a h m) (check_step E what c wr id) (hmp_at device r0 a h m) (hmp_books device r0)"
proof (rule hmp_quiet)
  show "appends (\<lambda>c. \<forall>r. neutral (c, r)) (check_step E what c wr id)"
    by (rule appends_check) (use assms in simp_all)
  show "leaves (hmp_view device) (check_step E what c wr id)"
    by (rule leaves_check) (use assms in simp_all)
qed blast

lemma neutral_calls [simp]:
  "neutral (halMemExportToShareableHandle a b c, r)" "neutral (halMemShareHandleSetAttribute a, r)"
  "neutral (Hal (halGetHostID x), r)" "neutral (Hal halSetRuntimeApiVer, r)"
  by (cases r; simp add: neutral_def ledger_simps)+

lemma hmp_opens:
  "triple (\<lambda>s. in_books r0 s {#} \<and> \<not> hmp_opened s \<and> hmp_alloc s = Allocation_new) (run_steps (hmp_open E device))
     (hmp_at device r0 False False False) (hmp_books device r0)"
  unfolding hmp_open_def
proof (rule triple_Cons [OF _ triple_Cons [OF _ triple_Nil]])
  let ?P = "\<lambda>s. in_books r0 s {#} \<and> \<not> hmp_opened s \<and> hmp_alloc s = Allocation_new"
  show "triple ?P (assign (plain_call E (Hal halSetRuntimeApiVer))) ?P (hmp_books device r0)"
  proof (rule triple_assign)
    fix s :: "'a hal_map"
    assume P: "?P s"
    have m: "moves (\<lambda>c. c = Hal halSetRuntimeApiVer) s (plain_call E (Hal halSetRuntimeApiVer) s)"
      by (rule moves_plain) simp
    have "in_books r0 (plain_call E (Hal halSetRuntimeApiVer) s) {#}"
      by (rule in_books_moves [OF _ m]) (use P in auto)
    then show "?P (plain_call E (Hal halSetRuntimeApiVer) s)"
      using P by (subst (2 3) moves_same [OF m]) simp
  qed
  show "triple ?P (check_step E ''halDeviceOpen'' (\<lambda>_. Hal (halDeviceOpen device)) no_out (\<lambda>s. s\<lparr>hmp_opened := True\<rparr>))
      (hmp_at device r0 False False False) (hmp_books device r0)"
    by (rule triple_check)
      (auto simp: slot_at_def slot_books_def hmp_rest_def Allocation_new_def alloc_held_def ledger_simps
        trace_of_def intro: in_books_event)
qed

lemma hmp_slot_steps:
  "triple (hmp_at device r0 False h False) (reserve_step E what hmp_alloc hmp_alloc_update bytes)
     (hmp_at device r0 True h False) (hmp_books device r0)"
  "triple (hmp_at device r0 a False m) (create_step E what hmp_alloc hmp_alloc_update bytes prop)
     (hmp_at device r0 a True m) (hmp_books device r0)"
  "triple (hmp_at device r0 a False m) (import_step E what hmp_alloc hmp_alloc_update tok dev)
     (hmp_at device r0 a True m) (hmp_books device r0)"
  "triple (hmp_at device r0 a h False) (map_step E what hmp_alloc hmp_alloc_update bytes)
     (hmp_at device r0 a h True) (hmp_books device r0)"
  "triple (hmp_at device r0 a h True) (unmap_step E what hmp_alloc hmp_alloc_update)
     (hmp_at device r0 a h False) (hmp_books device r0)"
  "triple (hmp_at device r0 a h m) (release_step E what hmp_alloc hmp_alloc_update)
     (hmp_at device r0 a False m) (hmp_books device r0)"
  "triple (hmp_at device r0 a h False) (free_step E what hmp_alloc hmp_alloc_update)
     (hmp_at device r0 False h False) (hmp_books device r0)"
  by (rule hmp.slot_at_steps; simp)+

lemma hmp_quiet_steps:
  assumes law: "bounded_transfers E"
  shows
    "triple (hmp_at device r0 a h m) (hm_send_word E fd v) (hmp_at device r0 a h m) (hmp_books device r0)"
    "triple (hmp_at device r0 a h m) (\<lambda>s. hm_send_word E fd (hmp_token s) s) (hmp_at device r0 a h m) (hmp_books device r0)"
    "triple (hmp_at device r0 a h m) (hmp_receive E fd) (hmp_at device r0 a h m) (hmp_books device r0)"
    "triple (hmp_at device r0 a h m) (hmp_expect_zero E fd what) (hmp_at device r0 a h m) (hmp_books device r0)"
    "triple (hmp_at device r0 a h m) (assign (\<lambda>s. write_pattern E (hmp_va s) bytes seed s)) (hmp_at device r0 a h m) (hmp_books device r0)"
    "triple (hmp_at device r0 a h m) (\<lambda>s. hm_verify E (hmp_va s) bytes seed s) (hmp_at device r0 a h m) (hmp_books device r0)"
proof -
  show "triple (hmp_at device r0 a h m) (hm_send_word E fd v) (hmp_at device r0 a h m) (hmp_books device r0)"
    by (rule hmp_quiet [OF hmp_send_const(3) [OF law]]) (simp_all add: neutral_kinds hmp_send_const [OF law])
  show "triple (hmp_at device r0 a h m) (\<lambda>s. hm_send_word E fd (hmp_token s) s) (hmp_at device r0 a h m) (hmp_books device r0)"
    by (rule hmp_quiet [OF hmp_send_steps(3) [OF law]]) (simp_all add: neutral_kinds hmp_send_steps [OF law])
  show "triple (hmp_at device r0 a h m) (hmp_receive E fd) (hmp_at device r0 a h m) (hmp_books device r0)"
    by (rule hmp_quiet [OF hmp_receive_steps(1)]) (simp_all add: neutral_kinds hmp_receive_steps)
  show "triple (hmp_at device r0 a h m) (hmp_expect_zero E fd what) (hmp_at device r0 a h m) (hmp_books device r0)"
    by (rule hmp_quiet [OF hmp_receive_steps(3)]) (simp_all add: neutral_kinds hmp_receive_steps)
  show "triple (hmp_at device r0 a h m) (assign (\<lambda>s. write_pattern E (hmp_va s) bytes seed s)) (hmp_at device r0 a h m) (hmp_books device r0)"
    by (rule hmp_quiet [OF hmp_memory_steps(1)]) (simp_all add: neutral_kinds hmp_memory_steps)
  show "triple (hmp_at device r0 a h m) (\<lambda>s. hm_verify E (hmp_va s) bytes seed s) (hmp_at device r0 a h m) (hmp_books device r0)"
    by (rule hmp_quiet [OF hmp_memory_steps(3)]) (simp_all add: neutral_kinds hmp_memory_steps)
qed

lemma hmp_body_books:
  assumes law: "bounded_transfers E"
  shows "triple (\<lambda>s. in_books r0 s {#} \<and> \<not> hmp_opened s \<and> hmp_alloc s = Allocation_new)
    (run_steps (hmp_body E importer host device bytes fd)) (hmp_books device r0) (hmp_books device r0)"
proof -
  note steps = triple_Cons triple_Nil hmp_slot_steps hmp_quiet_steps [OF law]
  have target: "triple (hmp_at device r0 a h m)
      (when_step host [check_step E ''halGetHostID'' (\<lambda>s. Hal (halGetHostID (hmp_target s)))
        (\<lambda>out s. s\<lparr>hmp_target := ucast out\<rparr>) id]) (hmp_at device r0 a h m) (hmp_books device r0)" for a h m
    by (rule triple_at_when, rule triple_Cons [OF hmp_quiet_check triple_Nil]) simp_all
  have importing: "triple (hmp_at device r0 False False False)
      (run_steps (hmp_receive E fd # hmp_import E host bytes @ hmp_use E host bytes fd))
      (hmp_at device r0 False False False) (hmp_books device r0)"
    unfolding hmp_import_def hmp_use_def append.simps
    by (rule steps target triple_at_when)+
  have exporting: "triple (hmp_at device r0 False False False)
      (run_steps (hmp_create E bytes @ hmp_share E host bytes fd)) (hmp_at device r0 True True True) (hmp_books device r0)"
    unfolding hmp_create_def hmp_share_def append.simps
    by (rule steps triple_at_when hmp_quiet_check | simp)+
  have books: "slot_at hmp_alloc (hmp_rest device) hmp_opened r0 a h m s \<Longrightarrow> hmp_books device r0 s" for a h m s
    by (simp add: slot_at_def)
  have "triple (hmp_at device r0 False False False)
      (run_steps (if importer then hmp_receive E fd # hmp_import E host bytes @ hmp_use E host bytes fd
        else hmp_create E bytes @ hmp_share E host bytes fd)) (hmp_books device r0) (hmp_books device r0)"
    by (cases importer; simp; rule triple_weaken, (rule importing exporting)) (assumption | erule books)+
  then show ?thesis
    unfolding hmp_body_def by (rule triple_append [OF hmp_opens])
qed

subsection \<open>The worker\<close>

lemma hmp_init_simps [simp]:
  "sys_of (hmp_init device s) = sys_of s" "cleanup_failed (hmp_init device s) = cleanup_failed s"
  "hmp_alloc (hmp_init device s) = Allocation_new" "\<not> hmp_opened (hmp_init device s)"
  by (simp_all add: hmp_init_def probe.defs hal_map.defs)

lemma hmp_cleanup_books:
  assumes "in_books r0 s (hmp_rest device s + alloc_held (hmp_alloc s))"
  shows "in_books (add_mset (R_fd fd) r0) (hmp_cleanup E device fd s) {#}"
proof -
  let ?s1 = "plain_call E (Io (sys_close fd)) s"
  let ?s2 = "Allocation_destroy E (hmp_alloc ?s1) ?s1"
  have same: "hmp_alloc ?s1 = hmp_alloc s" "hmp_rest device ?s1 = hmp_rest device s"
    by (subst plain_call_same, simp add: hmp_rest_def)+
  have "in_books (add_mset (R_fd fd) r0) s (add_mset (R_fd fd) (hmp_rest device s + alloc_held (hmp_alloc s)))"
    using in_books_add [OF assms, of "{#R_fd fd#}"] by simp
  then have "in_books (add_mset (R_fd fd) r0) ?s1 (hmp_rest device ?s1 + alloc_held (hmp_alloc ?s1))"
    unfolding same by (rule close_books)
  then have "in_books (add_mset (R_fd fd) r0) ?s2 (hmp_rest device ?s1)"
    by (rule Allocation_destroy_books)
  moreover have "probe.more ?s2 = probe.more ?s1"
    by simp
  then have "hmp_opened ?s2 = hmp_opened ?s1"
    by (cases ?s2; cases ?s1) simp
  ultimately have "in_books (add_mset (R_fd fd) r0) ?s2 ({#} + one_if (hmp_opened ?s2) (R_hal_device device))"
    by (simp add: hmp_rest_def)
  then show ?thesis
    unfolding hmp_cleanup_def Let_def by (rule in_books_cleanup_if) (simp add: ledger_simps)
qed

lemma hmp_worker_cases:
  assumes "hmp_worker E importer host device bytes fd s = Some (n, s')"
  obtains e s1 where "run_steps (hmp_body E importer host device bytes fd) (hmp_init device s) = Some (e, s1)"
    "n = (if e \<noteq> None \<or> cleanup_failed s' then 1 else 0)"
    "s' = probe.truncate (hmp_cleanup E device fd s1)"
  using assms by (auto simp: hmp_worker_def Let_def split: option.splits)

lemma hmp_worker_clean: "hmp_worker E importer host device bytes fd s = Some (0, s') \<Longrightarrow> \<not> cleanup_failed s'"
  by (erule hmp_worker_cases) (simp split: if_splits)

lemma hmp_worker_books:
  assumes law: "bounded_transfers E" and "in_books r0 s {#}"
    and w: "hmp_worker E importer host device bytes fd s = Some (n, s')"
  shows "in_books (add_mset (R_fd fd) r0) s' {#}"
proof -
  obtain e s1 where run: "run_steps (hmp_body E importer host device bytes fd) (hmp_init device s) = Some (e, s1)"
    and n: "n = (if e \<noteq> None \<or> cleanup_failed s' then 1 else 0)"
    and s': "s' = probe.truncate (hmp_cleanup E device fd s1)"
    by (rule hmp_worker_cases [OF w])
  have "in_books r0 (hmp_init device s) {#}"
    using assms(2) by (simp add: in_books_def trace_of_def)
  then have "hmp_books device r0 s1"
    using tripleD [OF hmp_body_books [OF law] _ run] by (simp split: if_splits)
  then have "in_books (add_mset (R_fd fd) r0) (hmp_cleanup E device fd s1) {#}"
    unfolding slot_books_def by (rule hmp_cleanup_books)
  then show "in_books (add_mset (R_fd fd) r0) s' {#}"
    by (simp add: s' in_books_def)
qed

text \<open>The sides of whole processes.\<close>

lemma hmp_cleanup_grows: "grows no_send s (hmp_cleanup E device fd s)"
proof -
  let ?s1 = "plain_call E (Io (sys_close fd)) s"
  let ?s2 = "Allocation_destroy E (hmp_alloc ?s1) ?s1"
  have "grows no_send s ?s2"
    by (rule grows_trans [OF grows_plain Allocation_destroy_grows]) (simp_all add: no_send_def)
  moreover have "grows no_send ?s2 (hmp_cleanup E device fd s)"
    unfolding hmp_cleanup_def Let_def by (rule grows_cleanup_if) simp
  ultimately show ?thesis
    by (rule grows_trans)
qed

lemma hmp_worker_importer:
  assumes law: "bounded_transfers E" and t: "sends_on fd (trace_of s) = 0"
    and w: "hmp_worker E True host device bytes fd s = Some (n, s')"
  shows "importer_side 1 fd (trace_of s')"
proof -
  obtain e s1 where run: "run_steps (hmp_body E True host device bytes fd) (hmp_init device s) = Some (e, s1)"
    and s': "s' = probe.truncate (hmp_cleanup E device fd s1)"
    by (rule hmp_worker_cases [OF w])
  obtain ev where ev: "trace_of s' = trace_of s1 @ ev" "list_all no_send (map fst ev)"
    using hmp_cleanup_grows [of s1 E device fd] by (auto simp: s' grows_def)
  have "importer_side 1 fd (trace_of s1)"
    using tripleD [OF hmp_importer_body [OF law] _ run] t by (simp add: trace_of_def split: if_splits)
  then show ?thesis
    unfolding ev(1) by (rule importer_side_off [OF _ ev(2)])
qed

lemma hmp_worker_creator:
  assumes law: "bounded_transfers E" and t: "list_all (\<lambda>c. \<not> is_let_go c) (map fst (trace_of s))"
    and w: "hmp_worker E False host device bytes fd s = Some (0, s')"
  shows "creator_side 1 fd (trace_of s')"
proof -
  obtain e s1 where "run_steps (hmp_body E False host device bytes fd) (hmp_init device s) = Some (e, s1)"
    and "0 = (if e \<noteq> None \<or> cleanup_failed s' then 1 else 0 :: int)"
    and s': "s' = probe.truncate (hmp_cleanup E device fd s1)"
    by (rule hmp_worker_cases [OF w])
  then have run: "run_steps (hmp_body E False host device bytes fd) (hmp_init device s) = Some (None, s1)"
    by (simp split: if_splits)
  obtain ev where "trace_of s' = trace_of s1 @ ev"
    using hmp_cleanup_grows [of s1 E device fd] by (auto simp: s' grows_def)
  with hmp_creator_body [OF law run] t show ?thesis
    by (simp add: trace_of_def)
qed

lemma hmp_body_appends:
  assumes law: "bounded_transfers E"
  shows "\<forall>f \<in> set (hmp_body E importer host device bytes fd). appends (\<lambda>_. True) f"
proof -
  have sends: "appends (\<lambda>_. True) (\<lambda>s. hm_send_word E fd (hmp_token s) s)" "appends (\<lambda>_. True) (hm_send_word E fd 0)"
    by (rule appends_mono [OF hmp_send_steps(3) [OF law]], simp) (rule appends_mono [OF hmp_send_const(3) [OF law]], simp)
  show ?thesis
    by (auto simp: hmp_body_def hmp_open_def hmp_create_def hmp_share_def hmp_import_def hmp_use_def alloc_steps sends
        intro!: step_effects append_facts)
qed

lemma hmp_worker_extends:
  assumes law: "bounded_transfers E" and w: "hmp_worker E importer host device bytes fd s = Some (n, s')"
  shows "\<exists>ev. trace_of s' = trace_of s @ ev"
proof -
  obtain e s1 where run: "run_steps (hmp_body E importer host device bytes fd) (hmp_init device s) = Some (e, s1)"
    and s': "s' = probe.truncate (hmp_cleanup E device fd s1)"
    by (rule hmp_worker_cases [OF w])
  obtain ev where "trace_of s1 = trace_of s @ ev"
    using appendsD [OF appends_run [OF hmp_body_appends [OF law]] run] by (auto simp: trace_of_def)
  with hmp_cleanup_grows [of s1 E device fd] show ?thesis
    by (auto simp: s' grows_def)
qed

interpretation hmp_pair: pair_worker E "\<lambda>importer fd. hmp_worker E importer host device bytes fd" 1
  for E :: "'w env" and host device bytes
  by unfold_locales
    (rule hmp_worker_books hmp_worker_extends hmp_worker_importer hmp_worker_creator | erule hmp_worker_clean | assumption)+

end
