(* ===== verification/Device_Share_Facts.thy ===== *)
theory Device_Share_Facts
  imports Device_Share Probe_Launch
begin

text \<open>
  The facts about \<open>Device_Share\<close>: the two sides of the hand-over, and that the worker keeps its
  books over the shared allocation, its own device memory, the verification buffer and the three
  things it opens.
\<close>

definition dvs_base :: "'w device_share \<Rightarrow> resource multiset" where
  "dvs_base s = one_if (dvs_library s \<noteq> nullptr) (R_library (dvs_library s))
     + one_if (dvs_tsd_open s) (R_tsd device_id) + one_if (dvs_device_open s) (R_hal_device device_id)
     + one_if (dvs_has_host s) (R_vector (dvs_host s))"

definition dvs_rest :: "'w device_share \<Rightarrow> resource multiset" where
  "dvs_rest s = dvs_base s + alloc_held (dvs_hbm s)"

definition dvs_rest_hbm :: "'w device_share \<Rightarrow> resource multiset" where
  "dvs_rest_hbm s = dvs_base s + alloc_held (dvs_mapping s)"

lemma dvs_base_simps [simp]:
  "dvs_base (s\<lparr>sys_of := t\<rparr>) = dvs_base s" "dvs_base (dvs_mapping_update f s) = dvs_base s"
  "dvs_base (dvs_hbm_update f s) = dvs_base s" "dvs_base (s\<lparr>dvs_token := v\<rparr>) = dvs_base s"
  by (simp_all add: dvs_base_def)

interpretation shared: alloc_slot dvs_mapping dvs_mapping_update dvs_rest
  by unfold_locales (simp_all add: dvs_rest_def)

interpretation own: alloc_slot dvs_hbm dvs_hbm_update dvs_rest_hbm
  by unfold_locales (simp_all add: dvs_rest_hbm_def)

subsection \<open>The two sides\<close>

lemma output_effects [step_effects]:
  "(\<And>s. C (c s)) \<Longrightarrow> (\<And>out s. sys_of (wr out s) = sys_of s) \<Longrightarrow> appends C (output_call E c wr)"
  "(\<And>out s. get (wr out s) = get s) \<Longrightarrow> (\<And>s t. get (s\<lparr>sys_of := t\<rparr>) = get s) \<Longrightarrow> leaves get (output_call E c wr)"
proof -
  show "appends C (output_call E c wr)" if "\<And>s. C (c s)" "\<And>out s. sys_of (wr out s) = sys_of s"
  proof (rule appendsI)
    fix s e s'
    assume f: "output_call E c wr s = Some (e, s')"
    obtain ret out u where c: "probe_call E (c s) s = (ret, out, u)"
      by (rule prod_cases3)
    with f that(2) have "trace_of s' = trace_of u"
      by (auto simp: output_call_def trace_of_def)
    with probe_call_trace [OF c] that(1) show "\<exists>ev. trace_of s' = trace_of s @ ev \<and> list_all C (map fst ev)"
      by auto
  qed
  show "leaves get (output_call E c wr)" if "\<And>out s. get (wr out s) = get s" "\<And>s t. get (s\<lparr>sys_of := t\<rparr>) = get s"
    by (rule leavesI) (use that in \<open>auto simp: output_call_def probe_call_def split: prod.splits\<close>)
qed

lemma clear_effects:
  "appends is_store (assign (\<lambda>s. clear_words E (p s) bytes s))"
  "(\<And>s t. get (s\<lparr>sys_of := t\<rparr>) = get s) \<Longrightarrow> leaves get (assign (\<lambda>s. clear_words E (p s) bytes s))"
proof -
  have m: "moves is_store s s'" if "assign (\<lambda>s. clear_words E (p s) bytes s) s = Some (e, s')" for s e s'
    using that by (auto simp: assign_def clear_words_def store_pattern_moves)
  show "appends is_store (assign (\<lambda>s. clear_words E (p s) bytes s))"
    by (rule appends_moves) (rule m, assumption)
  show "leaves get (assign (\<lambda>s. clear_words E (p s) bytes s))" if "\<And>s t. get (s\<lparr>sys_of := t\<rparr>) = get s"
    by (rule leaves_moves [where C = is_store]) (rule m, assumption, rule that)
qed

lemmas memory_appends = calls_effects(3,5) [THEN appends_mono] clear_effects(1) [THEN appends_mono]

lemmas memory_leaves = calls_effects(2,4,6) clear_effects(2)

lemma dvs_importer_body:
  assumes law: "bounded_transfers E"
  shows "triple (\<lambda>s. sends_on fd (trace_of s) = 0) (run_steps (dvs_body E True fd bytes))
    (\<lambda>s. importer_side 1 fd (trace_of s)) (\<lambda>s. importer_side 1 fd (trace_of s))"
proof -
  let ?recv = "receive_into E fd (\<lambda>v s. s\<lparr>dvs_token := v\<rparr>)"
  let ?ack = "check_receive E fd (\<lambda>v. v = 0) ''creator acknowledged verification''"
  let ?pre = "dvs_open E @ dvs_make_host E bytes @
      [?recv, reserve_step E ''reserve importer VA'' dvs_mapping dvs_mapping_update bytes]"
  have body: "dvs_body E True fd bytes = ?pre @
      [import_step E ''import shared handle to DEVICE 0'' dvs_mapping dvs_mapping_update dvs_token (\<lambda>_. device_id),
       map_step E ''map imported DEVICE'' dvs_mapping dvs_mapping_update bytes] @ dvs_exchange E bytes @
      [send_word E fd 0] @ [?ack] @
      [unmap_step E ''unmap importer DEVICE'' dvs_mapping dvs_mapping_update,
       release_step E ''release importer handle'' dvs_mapping dvs_mapping_update,
       free_step E ''free importer VA'' dvs_mapping dvs_mapping_update] @ [send_word E fd 0]"
    by (simp add: dvs_body_def dvs_importer_def dvs_import_def dvs_give_back_def)
  have recv: "appends no_send ?recv" "appends no_send ?ack" "leaves dvs_mapping ?ack"
    by (rule appends_mono [OF receive_into_effects(1) [OF law]]; simp)
      (rule appends_mono [OF check_receive_effects(1) [OF law]], simp,
       rule check_receive_effects(2) [OF law], simp)
  let ?mid = "dvs_exchange E bytes @ [send_word E fd 0] @ [?ack]"
  have quiet: "\<forall>f \<in> set (dvs_exchange E bytes). appends no_send f" "\<forall>f \<in> set [?ack]. appends no_send f"
    by (auto simp: dvs_exchange_def allocate_hbm_def hal_copy_def alloc_steps recv intro!: step_effects memory_appends)
  have words: "sends_at_most fd (0 + (8 + 0)) ?mid"
    by (intro sends_at_most_append sends_one sends_none quiet send_const_effects(1) [OF law])
  have "triple (\<lambda>s. sends_on fd (trace_of s) = 0) (run_steps (?pre @
      [import_step E ''import shared handle to DEVICE 0'' dvs_mapping dvs_mapping_update dvs_token (\<lambda>_. device_id),
       map_step E ''map imported DEVICE'' dvs_mapping dvs_mapping_update bytes] @ ?mid @
      [unmap_step E ''unmap importer DEVICE'' dvs_mapping dvs_mapping_update,
       release_step E ''release importer handle'' dvs_mapping dvs_mapping_update,
       free_step E ''free importer VA'' dvs_mapping dvs_mapping_update] @ [send_word E fd 0]))
    (\<lambda>s. importer_side 1 fd (trace_of s)) (\<lambda>s. importer_side 1 fd (trace_of s))"
  proof (rule shared.importer_body)
    show "\<forall>f \<in> set ?pre. appends no_send f"
      by (auto simp: dvs_open_def dvs_make_host_def reserve_step_def recv intro!: step_effects)
    show "sends_at_most fd (8 * 1) ?mid"
      using words by simp
    show "\<forall>f \<in> set ?mid. leaves dvs_mapping f"
      by (auto simp: dvs_exchange_def allocate_hbm_def hal_copy_def alloc_steps recv
          intro!: step_effects memory_leaves send_const_effects(2) [OF law])
    show "\<forall>f \<in> set [send_word E fd 0]. appends (\<lambda>_. True) f"
      using send_const_effects(3) [OF law] by (auto intro: appends_mono)
  qed
  then show ?thesis
    by (simp add: body)
qed

lemma dvs_creator_body:
  assumes law: "bounded_transfers E"
    and run: "run_steps (dvs_body E False fd bytes) s = Some (None, s')" and t: "list_all (\<lambda>c. \<not> is_let_go c) (map fst (trace_of s))"
  shows "creator_side 1 fd (trace_of s' @ ev)"
proof -
  let ?r1 = "check_receive E fd (\<lambda>v. v = 0) ''importer verified D2D and wrote shared mapping''"
  let ?r2 = "check_receive E fd (\<lambda>v. v = 0) ''importer resources released''"
  let ?ys = "[\<lambda>s. verify E (dvs_shared s) bytes 202 ''CREATOR_SEES_IMPORTER_WRITE'' s, send_word E fd 0]"
  let ?xs = "dvs_open E @ dvs_make_host E bytes @ take 13 (dvs_creator E fd bytes)"
  have body: "dvs_body E False fd bytes = ?xs @ [?r1] @ ?ys @ [?r2] @ []"
    by (simp add: dvs_body_def dvs_creator_def allocate_hbm_def)
  let ?C = "\<lambda>c. \<not> is_let_go c"
  have words: "appends ?C (\<lambda>s. send_word E fd (dvs_token s) s)" "appends ?C (send_word E fd 0)" "appends ?C ?r1" "appends ?C ?r2"
    by (rule appends_mono [OF send_word_effects(3) [OF law]], erule sockets_keep)
      (rule appends_mono [OF send_const_effects(3) [OF law]] appends_mono [OF check_receive_effects(1) [OF law]],
        erule sockets_keep)+
  have all: "\<forall>f \<in> set (dvs_body E False fd bytes). appends ?C f"
    unfolding body
    by (auto simp: dvs_open_def dvs_make_host_def dvs_creator_def allocate_hbm_def hal_copy_def alloc_steps words sockets_keep
        intro!: step_effects memory_appends)
  then have "\<forall>f \<in> set ?xs \<union> set ?ys. appends ?C f"
    unfolding body set_append by blast
  then have parts: "\<forall>f \<in> set ?xs. appends ?C f" "\<forall>f \<in> set ?ys. appends ?C f"
    by (blast, blast)
  have "receives_at_least fd (0 + (8 + (0 + 8))) (dvs_body E False fd bytes)"
    unfolding body append_Nil2
    by (intro receives_append receives_one check_receive_effects(3) [OF law])
      (rule receives_none [OF parts(1)] receives_none [OF parts(2)])+
  then have "receives_at_least fd (8 * (1 + 1)) (dvs_body E False fd bytes)"
    by simp
  then show ?thesis
    by (intro creator_body [OF all _ run t]) simp
qed

subsection \<open>The books\<close>

definition dvs_books :: "resource multiset \<Rightarrow> 'w device_share \<Rightarrow> bool" where
  "dvs_books r0 s \<longleftrightarrow> in_books r0 s (dvs_base s + alloc_held (dvs_hbm s) + alloc_held (dvs_mapping s))"

lemma dvs_books_slots:
  "slot_books dvs_mapping dvs_rest r0 s \<longleftrightarrow> dvs_books r0 s"
  "slot_books dvs_hbm dvs_rest_hbm r0 s \<longleftrightarrow> dvs_books r0 s"
  by (simp_all add: dvs_books_def slot_books_def dvs_rest_def dvs_rest_hbm_def ac_simps)

lemma dvs_books_slots_fun:
  "slot_books dvs_mapping dvs_rest r0 = dvs_books r0" "slot_books dvs_hbm dvs_rest_hbm r0 = dvs_books r0"
  by (rule ext, rule dvs_books_slots)+

text \<open>How far an allocation has got.\<close>

definition got :: "bool \<Rightarrow> bool \<Rightarrow> bool \<Rightarrow> allocation \<Rightarrow> bool" where
  "got a h m x \<longleftrightarrow> (a \<or> alloc_va x = nullptr) \<and> (h \<or> alloc_handle x = nullptr) \<and> alloc_mapped x = m"

definition dvs_at ::
  "resource multiset \<Rightarrow> bool \<times> bool \<times> bool \<Rightarrow> bool \<times> bool \<times> bool \<Rightarrow> 'w device_share \<Rightarrow> bool" where
  "dvs_at r0 x y s \<longleftrightarrow> dvs_books r0 s \<and> (case x of (a, h, m) \<Rightarrow> got a h m (dvs_mapping s))
     \<and> (case y of (a, h, m) \<Rightarrow> got a h m (dvs_hbm s))"

lemma dvs_at_shared:
  "dvs_at r0 (a, h, m) y = slot_at dvs_mapping dvs_rest (\<lambda>s. case y of (a, h, m) \<Rightarrow> got a h m (dvs_hbm s)) r0 a h m"
  by (rule ext) (auto simp: dvs_at_def slot_at_def dvs_books_slots got_def)

lemma dvs_at_own:
  "dvs_at r0 x (a, h, m) = slot_at dvs_hbm dvs_rest_hbm (\<lambda>s. case x of (a, h, m) \<Rightarrow> got a h m (dvs_mapping s)) r0 a h m"
  by (rule ext) (auto simp: dvs_at_def slot_at_def dvs_books_slots got_def)

lemma dvs_slot_steps:
  "triple (dvs_at r0 (False, h, False) y) (reserve_step E what dvs_mapping dvs_mapping_update bytes)
     (dvs_at r0 (True, h, False) y) (dvs_books r0)"
  "triple (dvs_at r0 (a, False, m) y) (create_step E what dvs_mapping dvs_mapping_update bytes prop)
     (dvs_at r0 (a, True, m) y) (dvs_books r0)"
  "triple (dvs_at r0 (a, False, m) y) (import_step E what dvs_mapping dvs_mapping_update tok dev)
     (dvs_at r0 (a, True, m) y) (dvs_books r0)"
  "triple (dvs_at r0 (a, h, False) y) (map_step E what dvs_mapping dvs_mapping_update bytes)
     (dvs_at r0 (a, h, True) y) (dvs_books r0)"
  "triple (dvs_at r0 (a, h, True) y) (unmap_step E what dvs_mapping dvs_mapping_update)
     (dvs_at r0 (a, h, False) y) (dvs_books r0)"
  "triple (dvs_at r0 (a, h, m) y) (release_step E what dvs_mapping dvs_mapping_update)
     (dvs_at r0 (a, False, m) y) (dvs_books r0)"
  "triple (dvs_at r0 (a, h, False) y) (free_step E what dvs_mapping dvs_mapping_update)
     (dvs_at r0 (False, h, False) y) (dvs_books r0)"
  unfolding dvs_at_shared dvs_books_slots_fun(1) [symmetric] by (rule shared.slot_at_steps; simp)+

lemma dvs_own_steps:
  "triple (dvs_at r0 x (False, h, False)) (reserve_step E what dvs_hbm dvs_hbm_update bytes)
     (dvs_at r0 x (True, h, False)) (dvs_books r0)"
  "triple (dvs_at r0 x (a, False, m)) (create_step E what dvs_hbm dvs_hbm_update bytes prop)
     (dvs_at r0 x (a, True, m)) (dvs_books r0)"
  "triple (dvs_at r0 x (a, h, False)) (map_step E what dvs_hbm dvs_hbm_update bytes)
     (dvs_at r0 x (a, h, True)) (dvs_books r0)"
  unfolding dvs_at_own dvs_books_slots_fun(2) [symmetric] by (rule own.slot_at_steps; simp)+

definition dvs_view :: "'w device_share \<Rightarrow> allocation \<times> allocation \<times> resource multiset \<times> bool" where
  "dvs_view s = (dvs_mapping s, dvs_hbm s, dvs_base s, cleanup_failed s)"

lemma dvs_view_simps [simp]:
  "dvs_view (s\<lparr>sys_of := t\<rparr>) = dvs_view s" "dvs_view (s\<lparr>dvs_token := v\<rparr>) = dvs_view s"
  by (simp_all add: dvs_view_def)

lemma dvs_quiet:
  assumes "appends C f" and "\<And>c r. C c \<Longrightarrow> neutral (c, r)" and "leaves dvs_view f"
  shows "triple (dvs_at r0 x y) f (dvs_at r0 x y) (dvs_books r0)"
proof -
  obtain a h m where x: "x = (a, h, m)" by (rule prod_cases3)
  show ?thesis
    unfolding x dvs_at_shared dvs_books_slots_fun(1) [symmetric]
  proof (rule triple_quiet_at [OF assms(1,2)])
    show "leaves (\<lambda>s. (dvs_mapping s, dvs_rest s, case y of (a, h, m) \<Rightarrow> got a h m (dvs_hbm s), cleanup_failed s)) f"
    proof (rule leavesI)
      fix s e s'
      assume "f s = Some (e, s')"
      from leavesD [OF assms(3) this] show "(dvs_mapping s', dvs_rest s', case y of (a, h, m) \<Rightarrow> got a h m (dvs_hbm s'), cleanup_failed s') =
          (dvs_mapping s, dvs_rest s, case y of (a, h, m) \<Rightarrow> got a h m (dvs_hbm s), cleanup_failed s)"
        by (simp add: dvs_view_def dvs_rest_def)
    qed
  qed
qed

lemma dvs_quiet_check:
  assumes "\<And>s r. neutral (c s, r)"
    and "\<And>out s. sys_of (wr out s) = sys_of s" "\<And>out s. dvs_view (wr out s) = dvs_view s"
  shows "triple (dvs_at r0 x y) (check_step E what c wr id) (dvs_at r0 x y) (dvs_books r0)"
proof (rule dvs_quiet)
  show "appends (\<lambda>c. \<forall>r. neutral (c, r)) (check_step E what c wr id)"
    by (rule appends_check) (use assms in simp_all)
  show "leaves dvs_view (check_step E what c wr id)"
    by (rule leaves_check) (use assms in simp_all)
qed blast

lemma neutral_copy [simp]: "neutral (Hal (halMemcpy a b c d k i), r)"
  "neutral (halMemExportToShareableHandle p q w, r)" "neutral (halMemShareHandleSetAttribute p, r)"
  by (cases r; simp add: neutral_def ledger_simps)+

lemma dvs_quiet_steps:
  assumes law: "bounded_transfers E"
  shows
    "triple (dvs_at r0 x y) (send_word E fd v) (dvs_at r0 x y) (dvs_books r0)"
    "triple (dvs_at r0 x y) (\<lambda>s. send_word E fd (dvs_token s) s) (dvs_at r0 x y) (dvs_books r0)"
    "triple (dvs_at r0 x y) (receive_into E fd (\<lambda>v s. s\<lparr>dvs_token := v\<rparr>)) (dvs_at r0 x y) (dvs_books r0)"
    "triple (dvs_at r0 x y) (check_receive E fd ok what) (dvs_at r0 x y) (dvs_books r0)"
    "triple (dvs_at r0 x y) (assign (\<lambda>s. fill E (p s) bytes seed s)) (dvs_at r0 x y) (dvs_books r0)"
    "triple (dvs_at r0 x y) (assign (\<lambda>s. clear_words E (p s) bytes s)) (dvs_at r0 x y) (dvs_books r0)"
    "triple (dvs_at r0 x y) (\<lambda>s. verify E (p s) bytes seed phase s) (dvs_at r0 x y) (dvs_books r0)"
    "triple (dvs_at r0 x y) (hal_copy E what dst src bytes dir) (dvs_at r0 x y) (dvs_books r0)"
proof -
  show "triple (dvs_at r0 x y) (send_word E fd v) (dvs_at r0 x y) (dvs_books r0)"
    by (rule dvs_quiet [OF send_const_effects(3) [OF law]]) (simp_all add: neutral_kinds send_const_effects [OF law])
  show "triple (dvs_at r0 x y) (\<lambda>s. send_word E fd (dvs_token s) s) (dvs_at r0 x y) (dvs_books r0)"
    by (rule dvs_quiet [OF send_word_effects(3) [OF law]]) (simp_all add: neutral_kinds send_word_effects [OF law])
  show "triple (dvs_at r0 x y) (receive_into E fd (\<lambda>v s. s\<lparr>dvs_token := v\<rparr>)) (dvs_at r0 x y) (dvs_books r0)"
    by (rule dvs_quiet [OF receive_into_effects(1) [OF law]]) (simp_all add: neutral_kinds receive_into_effects [OF law])
  show "triple (dvs_at r0 x y) (check_receive E fd ok what) (dvs_at r0 x y) (dvs_books r0)"
    by (rule dvs_quiet [OF check_receive_effects(1) [OF law]]) (simp_all add: neutral_kinds check_receive_effects [OF law])
  show "triple (dvs_at r0 x y) (assign (\<lambda>s. fill E (p s) bytes seed s)) (dvs_at r0 x y) (dvs_books r0)"
    by (rule dvs_quiet [OF calls_effects(3)]) (simp_all add: neutral_kinds calls_effects)
  show "triple (dvs_at r0 x y) (assign (\<lambda>s. clear_words E (p s) bytes s)) (dvs_at r0 x y) (dvs_books r0)"
    by (rule dvs_quiet [OF clear_effects(1)]) (simp_all add: neutral_kinds clear_effects)
  show "triple (dvs_at r0 x y) (\<lambda>s. verify E (p s) bytes seed phase s) (dvs_at r0 x y) (dvs_books r0)"
    by (rule dvs_quiet [OF calls_effects(5)]) (simp_all add: neutral_kinds calls_effects)
  show "triple (dvs_at r0 x y) (hal_copy E what dst src bytes dir) (dvs_at r0 x y) (dvs_books r0)"
    unfolding hal_copy_def by (rule dvs_quiet_check) simp_all
qed

text \<open>The set-up: what is opened so far.\<close>

definition dvs_opening :: "resource multiset \<Rightarrow> bool \<Rightarrow> bool \<Rightarrow> bool \<Rightarrow> bool \<Rightarrow> 'w device_share \<Rightarrow> bool" where
  "dvs_opening r0 l t d v s \<longleftrightarrow> in_books r0 s (dvs_base s) \<and> (l \<or> dvs_library s = nullptr) \<and>
     (t \<or> \<not> dvs_tsd_open s) \<and> (d \<or> \<not> dvs_device_open s) \<and> (v \<or> \<not> dvs_has_host s) \<and>
     dvs_mapping s = Allocation_new \<and> dvs_hbm s = Allocation_new"

lemma dvs_opening_books: "dvs_opening r0 l t d v s \<Longrightarrow> dvs_books r0 s"
  by (simp add: dvs_opening_def dvs_books_def)

lemma dvs_opening_at: "dvs_opening r0 l t d v s \<Longrightarrow> dvs_at r0 (False, False, False) (False, False, False) s"
  by (simp add: dvs_opening_def dvs_at_def dvs_books_def got_def Allocation_new_def alloc_held_def)

lemma triple_output:
  assumes "\<And>s ret out t. P s \<Longrightarrow> trace t = trace_of s @ [(c s, ret, out)] \<Longrightarrow> Q (wr out (s\<lparr>sys_of := t\<rparr>))"
  shows "triple P (output_call E c wr) Q X"
proof (rule tripleI)
  fix s e s'
  assume P: "P s" and f: "output_call E c wr s = Some (e, s')"
  show "if e = None then Q s' else X s'"
    by (rule probe_call_cases [of E "c s" s]) (use f P in \<open>auto simp: output_call_def trace_of_def intro!: assms\<close>)
qed

lemma dvs_opens:
  "triple (dvs_opening r0 False False False False) (run_steps (dvs_open E @ dvs_make_host E bytes))
     (dvs_at r0 (False, False, False) (False, False, False)) (dvs_books r0)"
proof -
  have open1: "triple (dvs_opening r0 False t d v) (output_call E (\<lambda>_. Hal (sys_dlopen n)) (\<lambda>out s. s\<lparr>dvs_library := out\<rparr>))
      (dvs_opening r0 True t d v) (dvs_books r0)" for t d v n
    by (rule triple_output) (auto simp: dvs_opening_def dvs_base_def ledger_simps elim!: books_event)
  have sym: "triple (dvs_opening r0 l t d v) (output_call E (\<lambda>s. Hal (sys_dlsym (dvs_library s) n)) wr)
      (dvs_opening r0 l t d v) (dvs_books r0)"
    if "wr = (\<lambda>out s. s\<lparr>dvs_open_tsd := out\<rparr>) \<or> wr = (\<lambda>out s. s\<lparr>dvs_close_tsd := out\<rparr>)" for l t d v n wr
    by (rule triple_output) (use that in \<open>auto simp: dvs_opening_def dvs_base_def ledger_simps elim!: books_event\<close>)
  have unless: "triple (dvs_opening r0 l t d v) (throw_unless ok what) (dvs_opening r0 l t d v) (dvs_books r0)" for l t d v ok what
    by (rule triple_throw_unless) (rule dvs_opening_books)
  have tsd: "triple (dvs_opening r0 l False d v)
      (check_step E what (\<lambda>_. Hal (TsdOpen device_id)) no_out (\<lambda>s. s\<lparr>dvs_tsd_open := True\<rparr>))
      (dvs_opening r0 l True d v) (dvs_books r0)" for l d v what
    by (rule triple_check)
      (auto simp: dvs_opening_def dvs_base_def dvs_books_def ledger_simps elim!: books_event)
  have dev: "triple (dvs_opening r0 l t False v)
      (check_step E what (\<lambda>_. Hal (halDeviceOpen device_id)) no_out (\<lambda>s. s\<lparr>dvs_device_open := True\<rparr>))
      (dvs_opening r0 l t True v) (dvs_books r0)" for l t v what
    by (rule triple_check)
      (auto simp: dvs_opening_def dvs_base_def dvs_books_def ledger_simps elim!: books_event)
  have version: "triple (dvs_opening r0 l t d v) (assign (plain_call E (Hal halSetRuntimeApiVer)))
      (dvs_opening r0 l t d v) (dvs_books r0)" for l t d v
  proof (rule triple_assign)
    fix s :: "'a device_share"
    assume "dvs_opening r0 l t d v s"
    then show "dvs_opening r0 l t d v (plain_call E (Hal halSetRuntimeApiVer) s)"
      by (rule_tac probe_call_cases [of E "Hal halSetRuntimeApiVer" s])
        (auto simp: dvs_opening_def dvs_base_def plain_call_def trace_of_def ledger_simps elim!: books_event)
  qed
  have vector: "triple (dvs_opening r0 l t d False)
      (check_step E what (\<lambda>_. Cpu (vector_new n)) (\<lambda>out s. s\<lparr>dvs_host := out\<rparr>) (\<lambda>s. s\<lparr>dvs_has_host := True\<rparr>))
      (dvs_opening r0 l t d True) (dvs_books r0)" for l t d n what
    by (rule triple_check)
      (auto simp: dvs_opening_def dvs_base_def dvs_books_def ledger_simps elim!: books_event)
  have "triple (dvs_opening r0 False False False False) (run_steps (dvs_open E @ dvs_make_host E bytes))
     (dvs_opening r0 True True True True) (dvs_books r0)"
    unfolding dvs_open_def dvs_make_host_def append.simps
    by (rule triple_Cons triple_Nil open1 sym unless tsd dev version vector | simp)+
  then show ?thesis
    by (rule triple_weaken) (assumption | erule dvs_opening_at)+
qed

lemma dvs_body_books:
  assumes law: "bounded_transfers E"
  shows "triple (dvs_opening r0 False False False False) (run_steps (dvs_body E importer fd bytes))
    (dvs_books r0) (dvs_books r0)"
proof -
  note steps = triple_Cons triple_Nil dvs_slot_steps dvs_own_steps dvs_quiet_steps [OF law]
  have books: "dvs_at r0 x y s \<Longrightarrow> dvs_books r0 s" for x y s
    by (simp add: dvs_at_def)
  have importing: "triple (dvs_at r0 (False, False, False) (False, False, False)) (run_steps (dvs_importer E fd bytes))
      (dvs_at r0 (False, False, False) (True, True, True)) (dvs_books r0)"
    unfolding dvs_importer_def dvs_import_def dvs_exchange_def allocate_hbm_def dvs_give_back_def append.simps
    by (rule steps)+
  have creating: "triple (dvs_at r0 (False, False, False) (False, False, False)) (run_steps (dvs_creator E fd bytes))
      (dvs_at r0 (True, True, True) (True, True, True)) (dvs_books r0)"
    unfolding dvs_creator_def allocate_hbm_def append.simps
    by (rule steps dvs_quiet_check | simp)+
  have "triple (dvs_at r0 (False, False, False) (False, False, False))
      (run_steps (if importer then dvs_importer E fd bytes else dvs_creator E fd bytes)) (dvs_books r0) (dvs_books r0)"
    by (cases importer; simp; rule triple_weaken, (rule importing creating)) (assumption | erule books)+
  then show ?thesis
    unfolding dvs_body_def append.assoc [symmetric] by (rule triple_append [OF dvs_opens])
qed

subsection \<open>The worker\<close>

lemma dvs_init_simps [simp]:
  "sys_of (dvs_init s) = sys_of s" "cleanup_failed (dvs_init s) = cleanup_failed s"
  "dvs_base (dvs_init s) = {#}" "dvs_mapping (dvs_init s) = Allocation_new" "dvs_hbm (dvs_init s) = Allocation_new"
  "dvs_library (dvs_init s) = nullptr" "\<not> dvs_tsd_open (dvs_init s)" "\<not> dvs_device_open (dvs_init s)"
  "\<not> dvs_has_host (dvs_init s)"
  by (simp_all add: dvs_init_def dvs_base_def probe.defs device_share.defs)

lemma dvs_more:
  assumes "probe.more s' = probe.more (s :: 'w device_share)"
  shows "dvs_library s' = dvs_library s" "dvs_tsd_open s' = dvs_tsd_open s" "dvs_device_open s' = dvs_device_open s"
  using assms by (cases s; cases s'; simp)+

lemma dvs_scope_end_books:
  assumes "dvs_books r0 s"
  shows "in_books r0 (dvs_scope_end E s) (one_if (dvs_library s \<noteq> nullptr) (R_library (dvs_library s))
     + one_if (dvs_tsd_open s) (R_tsd device_id) + one_if (dvs_device_open s) (R_hal_device device_id))"
proof -
  let ?base = "one_if (dvs_library s \<noteq> nullptr) (R_library (dvs_library s))
     + one_if (dvs_tsd_open s) (R_tsd device_id) + one_if (dvs_device_open s) (R_hal_device device_id)"
  let ?s1 = "if dvs_has_host s then plain_call E (Cpu (vector_delete (dvs_host s))) s else s"
  let ?s2 = "Allocation_destroy E (dvs_hbm s) ?s1"
  have b: "in_books r0 s (?base + alloc_held (dvs_mapping s) + alloc_held (dvs_hbm s) + one_if (dvs_has_host s) (R_vector (dvs_host s)))"
    using assms by (simp add: dvs_books_def dvs_base_def ac_simps)
  have "in_books r0 ?s1 (?base + alloc_held (dvs_mapping s) + alloc_held (dvs_hbm s))"
    using b by (rule vector_delete_books)
  then have "in_books r0 ?s2 (?base + alloc_held (dvs_mapping s))"
    by (rule Allocation_destroy_books)
  then show ?thesis
    unfolding dvs_scope_end_def Let_def by (rule Allocation_destroy_books)
qed

lemma dvs_scope_end_more: "probe.more (dvs_scope_end E s) = probe.more s"
proof -
  have "probe.more (plain_call E c s) = probe.more s" for c
    by (subst plain_call_same) simp
  then show ?thesis
    by (simp add: dvs_scope_end_def Let_def)
qed

lemma dvs_close_books:
  assumes "in_books r0 s (one_if (dvs_library s \<noteq> nullptr) (R_library (dvs_library s))
     + one_if (dvs_tsd_open s) (R_tsd device_id) + one_if (dvs_device_open s) (R_hal_device device_id))"
  shows "in_books (add_mset (R_fd fd) r0) (dvs_close E fd s) {#}"
proof -
  let ?l = "one_if (dvs_library s \<noteq> nullptr) (R_library (dvs_library s))"
  let ?t = "one_if (dvs_tsd_open s) (R_tsd device_id)"
  let ?s1 = "plain_call E (Io (sys_close fd)) s"
  let ?s2 = "if dvs_device_open s then cleanup E (Hal (halDeviceClose device_id)) ?s1 else ?s1"
  let ?s3 = "if dvs_tsd_open s then cleanup E (Hal (TsdClose device_id)) ?s2 else ?s2"
  have "in_books (add_mset (R_fd fd) r0) ?s1 (?l + ?t + one_if (dvs_device_open s) (R_hal_device device_id))"
    by (rule close_books) (use in_books_add [OF assms, of "{#R_fd fd#}"] in simp)
  then have "in_books (add_mset (R_fd fd) r0) ?s2 (?l + ?t)"
    by (rule in_books_cleanup_if) (simp add: ledger_simps)
  then have "in_books (add_mset (R_fd fd) r0) ?s3 ({#} + ?l)"
    unfolding add_0_left by (rule in_books_cleanup_if) (simp add: ledger_simps)
  then show ?thesis
    unfolding dvs_close_def Let_def by (rule in_books_cleanup_if) (simp add: ledger_simps)
qed

lemma dvs_ends_grow: "grows no_send s (dvs_close E fd (dvs_scope_end E s))"
proof -
  let ?s1 = "if dvs_has_host s then plain_call E (Cpu (vector_delete (dvs_host s))) s else s"
  let ?s2 = "Allocation_destroy E (dvs_hbm s) ?s1"
  have "grows no_send s ?s1"
    by (simp add: grows_plain)
  moreover have "grows no_send ?s1 ?s2" "grows no_send ?s2 (dvs_scope_end E s)"
    unfolding dvs_scope_end_def Let_def by (rule Allocation_destroy_grows; simp)+
  moreover have "grows no_send t (dvs_close E fd t)" for t
  proof -
    let ?t1 = "plain_call E (Io (sys_close fd)) t"
    let ?t2 = "if dvs_device_open t then cleanup E (Hal (halDeviceClose device_id)) ?t1 else ?t1"
    let ?t3 = "if dvs_tsd_open t then cleanup E (Hal (TsdClose device_id)) ?t2 else ?t2"
    have "grows no_send t ?t1"
      by (rule grows_plain) (simp add: no_send_def)
    moreover have "grows no_send ?t1 ?t2" "grows no_send ?t2 ?t3"
      by (rule grows_cleanup_if, simp)+
    moreover have "grows no_send ?t3 (dvs_close E fd t)"
      unfolding dvs_close_def Let_def by (rule grows_cleanup_if) simp
    ultimately show ?thesis
      by (blast intro: grows_trans)
  qed
  ultimately show ?thesis
    by (blast intro: grows_trans)
qed

lemma dvs_worker_cases:
  assumes "dvs_worker E importer fd bytes s = Some (n, s')"
  obtains e s1 where "run_steps (dvs_body E importer fd bytes) (dvs_init s) = Some (e, s1)"
    "n = (if e \<noteq> None \<or> cleanup_failed s' then 1 else 0)"
    "s' = probe.truncate (dvs_close E fd (dvs_scope_end E s1))"
  using assms by (auto simp: dvs_worker_def Let_def split: option.splits)

lemma dvs_worker_clean: "dvs_worker E importer fd bytes s = Some (0, s') \<Longrightarrow> \<not> cleanup_failed s'"
  by (erule dvs_worker_cases) (simp split: if_splits)

lemma dvs_worker_books:
  assumes law: "bounded_transfers E" and "in_books r0 s {#}" and "dvs_worker E importer fd bytes s = Some (n, s')"
  shows "in_books (add_mset (R_fd fd) r0) s' {#}"
proof -
  obtain e s1 where run: "run_steps (dvs_body E importer fd bytes) (dvs_init s) = Some (e, s1)"
    and n: "n = (if e \<noteq> None \<or> cleanup_failed s' then 1 else 0)"
    and s': "s' = probe.truncate (dvs_close E fd (dvs_scope_end E s1))"
    by (rule dvs_worker_cases [OF assms(3)])
  have "dvs_opening r0 False False False False (dvs_init s)"
    using assms(2) by (simp add: dvs_opening_def in_books_def trace_of_def)
  then have "dvs_books r0 s1"
    using tripleD [OF dvs_body_books [OF law] _ run] by (simp split: if_splits)
  note b = dvs_scope_end_books [OF this, of E]
  note m = dvs_more [OF dvs_scope_end_more [of E s1]]
  have "in_books (add_mset (R_fd fd) r0) (dvs_close E fd (dvs_scope_end E s1)) {#}"
    by (rule dvs_close_books) (simp add: m b)
  then show "in_books (add_mset (R_fd fd) r0) s' {#}"
    by (simp add: s' in_books_def)
qed

lemma dvs_worker_importer:
  assumes law: "bounded_transfers E" and t: "sends_on fd (trace_of s) = 0"
    and w: "dvs_worker E True fd bytes s = Some (n, s')"
  shows "importer_side 1 fd (trace_of s')"
proof -
  obtain e s1 where run: "run_steps (dvs_body E True fd bytes) (dvs_init s) = Some (e, s1)"
    and s': "s' = probe.truncate (dvs_close E fd (dvs_scope_end E s1))"
    by (rule dvs_worker_cases [OF w])
  obtain ev where ev: "trace_of s' = trace_of s1 @ ev" "list_all no_send (map fst ev)"
    using dvs_ends_grow [of s1 E fd] by (auto simp: s' grows_def)
  have "importer_side 1 fd (trace_of s1)"
    using tripleD [OF dvs_importer_body [OF law] _ run] t by (simp add: trace_of_def split: if_splits)
  then show ?thesis
    unfolding ev(1) by (rule importer_side_off [OF _ ev(2)])
qed

lemma dvs_worker_creator:
  assumes law: "bounded_transfers E" and t: "list_all (\<lambda>c. \<not> is_let_go c) (map fst (trace_of s))"
    and w: "dvs_worker E False fd bytes s = Some (0, s')"
  shows "creator_side 1 fd (trace_of s')"
proof -
  obtain e s1 where "run_steps (dvs_body E False fd bytes) (dvs_init s) = Some (e, s1)"
    and "0 = (if e \<noteq> None \<or> cleanup_failed s' then 1 else 0 :: int)"
    and s': "s' = probe.truncate (dvs_close E fd (dvs_scope_end E s1))"
    by (rule dvs_worker_cases [OF w])
  then have run: "run_steps (dvs_body E False fd bytes) (dvs_init s) = Some (None, s1)"
    by (simp split: if_splits)
  obtain ev where "trace_of s' = trace_of s1 @ ev"
    using dvs_ends_grow [of s1 E fd] by (auto simp: s' grows_def)
  with dvs_creator_body [OF law run] t show ?thesis
    by (simp add: trace_of_def)
qed

lemma dvs_body_appends:
  assumes law: "bounded_transfers E"
  shows "\<forall>f \<in> set (dvs_body E importer fd bytes). appends (\<lambda>_. True) f"
proof -
  have words: "appends (\<lambda>_. True) (\<lambda>s. send_word E fd (dvs_token s) s)" "appends (\<lambda>_. True) (send_word E fd 0)"
    "appends (\<lambda>_. True) (check_receive E fd ok what)"
    "appends (\<lambda>_. True) (receive_into E fd (\<lambda>v s. s\<lparr>dvs_token := v\<rparr>))" for ok what
    by (rule appends_mono [OF send_word_effects(3) [OF law]], simp)
      (rule appends_mono [OF send_const_effects(3) [OF law]] appends_mono [OF check_receive_effects(1) [OF law]]
        appends_mono [OF receive_into_effects(1) [OF law]]; simp)+
  show ?thesis
    by (auto simp: dvs_body_def dvs_open_def dvs_make_host_def dvs_creator_def dvs_importer_def dvs_import_def
        dvs_exchange_def dvs_give_back_def allocate_hbm_def hal_copy_def alloc_steps words
        intro!: step_effects memory_appends)
qed

lemma dvs_worker_extends:
  assumes law: "bounded_transfers E" and w: "dvs_worker E importer fd bytes s = Some (n, s')"
  shows "\<exists>ev. trace_of s' = trace_of s @ ev"
proof -
  obtain e s1 where run: "run_steps (dvs_body E importer fd bytes) (dvs_init s) = Some (e, s1)"
    and s': "s' = probe.truncate (dvs_close E fd (dvs_scope_end E s1))"
    by (rule dvs_worker_cases [OF w])
  obtain ev where "trace_of s1 = trace_of s @ ev"
    using appendsD [OF appends_run [OF dvs_body_appends [OF law]] run] by (auto simp: trace_of_def)
  with dvs_ends_grow [of s1 E fd] show ?thesis
    by (auto simp: s' grows_def)
qed

interpretation dvs_pair: pair_worker E "\<lambda>importer fd. dvs_worker E importer fd bytes" 1
  for E :: "'w env" and bytes
  by unfold_locales
    (rule dvs_worker_books dvs_worker_extends dvs_worker_importer dvs_worker_creator | erule dvs_worker_clean | assumption)+

end
