(* ===== verification/Probe_Props.thy ===== *)
theory Probe_Props
  imports Probe_Runs Multi_Props Hal_Map_Facts Device_Share_Facts
begin

unbundle bit_operations_syntax

text \<open>
  The properties of the sharing probes, each with a run to which it applies where it has hypotheses.
\<close>

subsection \<open>Hand-over\<close>

text \<open>C7. hal_map_probe gives its memory back in the right order, whatever the driver answers and however the two
  processes are scheduled: if the first process exits with code 0, then at every moment at which it has
  unmapped, released or freed anything, the second process had imported and mapped the memory and had
  unmapped, released and freed all of it again. Words may be received in pieces, but not before they
  were sent.\<close>

theorem hal_map_hand_over:
  assumes laws: "bounded_transfers E" "bounded_transfers E'"
    and parent: "launch_pair E fd_args (\<lambda>importer fd. hmp_worker E importer host device bytes fd) args s = Some (Exit 0, s')"
      "trace_of s = []"
    and pair: "own_pair (trace_of s') = Some pair"
    and child: "hmp_worker E' True host device bytes (high_fd pair) u = Some (code, u')" "trace_of u = []"
    and order: "woven (trace_of s') (trace_of u') t" "causal (low_fd pair) (high_fd pair) t"
  shows "handed_over t"
proof -
  obtain out where "own_pair (trace_of s') = Some out" "creator_side 1 (low_fd out) (trace_of s')"
    using hmp_pair.launched_creator [OF laws(1) parent(2,1)] by blast
  with pair have "creator_side 1 (low_fd pair) (trace_of s')"
    by simp
  moreover have "importer_side 1 (high_fd pair) (trace_of u')"
    by (rule hmp_pair.importing [OF laws(2) _ child(1)]) (simp add: child(2))
  ultimately show ?thesis
    using order by (rule hand_over)
qed

lemma toy_start_trace [simp]: "trace_of (toy_world child inbox) = []"
  by (simp add: toy_world_def trace_of_def)

lemma example_pair: "low_fd 0x600000005 = 5" "high_fd 0x600000005 = 6"
  by (simp_all add: low_fd_def high_fd_def)

lemma word_profile_length: "map f t = word_profile n rs ss \<Longrightarrow> length t = n"
  by (drule arg_cong [of _ _ length]) (simp add: word_profile_def)

theorem hal_map_hand_over_witness:
  "\<exists>tc ti t. woven tc ti t \<and> length t = 47 \<and> causal 5 6 t \<and> handed_over t"
proof -
  obtain s' where s': "hmp_parent = Some (Exit 0, s')" "own_pair (trace_of s') = Some 0x600000005"
    "map (counts 5) (trace_of s') = word_profile 28 [17, 21] [16, 20]"
    using hmp_parent_run by blast
  obtain u' where u': "hmp_child = Some (0, u')" "map (counts 6) (trace_of u') = word_profile 19 [2, 12] [11, 16]"
    using hmp_child_run by blast
  let ?rs = "pair_order 17 12 28 19"
  let ?t = "merge_runs ?rs (both (trace_of s') (trace_of u'))"
  have w: "woven (trace_of s') (trace_of u') ?t"
    by (rule both_woven) (simp_all add: pair_order_def word_profile_length [OF s'(3)] word_profile_length [OF u'(2)])
  have c: "causal 5 6 ?t"
    by (rule both_causal [OF s'(3) u'(2) hmp_paced])
  have "handed_over ?t"
    by (rule hal_map_hand_over [where E = toy_env and E' = toy_env, OF toy_bounded toy_bounded s'(1) [unfolded hmp_parent_def] _ s'(2)
          u'(1) [unfolded hmp_child_def, folded example_pair(2)] _ w])
      (simp_all add: example_pair c)
  moreover have "length ?t = 47"
    by (simp add: pair_order_def both_def word_profile_length [OF s'(3)] word_profile_length [OF u'(2)])
  ultimately show ?thesis
    using w c by blast
qed

text \<open>C14. The same hand-over in device_share, where both processes hold device memory of their own as well.\<close>

theorem device_share_hand_over:
  assumes laws: "bounded_transfers E" "bounded_transfers E'"
    and parent: "launch_pair E fd_args (\<lambda>importer fd. dvs_worker E importer fd bytes) args s = Some (Exit 0, s')"
      "trace_of s = []"
    and pair: "own_pair (trace_of s') = Some pair"
    and child: "dvs_worker E' True (high_fd pair) bytes u = Some (code, u')" "trace_of u = []"
    and order: "woven (trace_of s') (trace_of u') t" "causal (low_fd pair) (high_fd pair) t"
  shows "handed_over t"
proof -
  obtain out where "own_pair (trace_of s') = Some out" "creator_side 1 (low_fd out) (trace_of s')"
    using dvs_pair.launched_creator [OF laws(1) parent(2,1)] by blast
  with pair have "creator_side 1 (low_fd pair) (trace_of s')"
    by simp
  moreover have "importer_side 1 (high_fd pair) (trace_of u')"
    by (rule dvs_pair.importing [OF laws(2) _ child(1)]) (simp add: child(2))
  ultimately show ?thesis
    using order by (rule hand_over)
qed

theorem device_share_hand_over_witness:
  "\<exists>tc ti t. woven tc ti t \<and> length t = 87 \<and> causal 5 6 t \<and> handed_over t"
proof -
  obtain s' where s': "dvs_parent = Some (Exit 0, s')" "own_pair (trace_of s') = Some 0x600000005"
    "map (counts 5) (trace_of s') = word_profile 46 [29, 33] [28, 32]"
    using dvs_parent_run by blast
  obtain u' where u': "dvs_child = Some (0, u')" "map (counts 6) (trace_of u') = word_profile 41 [7, 28] [27, 32]"
    using dvs_child_run by blast
  let ?rs = "pair_order 29 28 46 41"
  let ?t = "merge_runs ?rs (both (trace_of s') (trace_of u'))"
  have w: "woven (trace_of s') (trace_of u') ?t"
    by (rule both_woven) (simp_all add: pair_order_def word_profile_length [OF s'(3)] word_profile_length [OF u'(2)])
  have c: "causal 5 6 ?t"
    by (rule both_causal [OF s'(3) u'(2) dvs_paced])
  have "handed_over ?t"
    by (rule device_share_hand_over [where E = toy_env and E' = toy_env, OF toy_bounded toy_bounded s'(1) [unfolded dvs_parent_def] _ s'(2)
          u'(1) [unfolded dvs_child_def, folded example_pair(2)] _ w])
      (simp_all add: example_pair c)
  moreover have "length ?t = 87"
    by (simp add: pair_order_def both_def word_profile_length [OF s'(3)] word_profile_length [OF u'(2)])
  ultimately show ?thesis
    using w c by blast
qed

subsection \<open>Everything is given back\<close>

text \<open>C15. The first process of host_share gives back whatever it was given, however it ends: when no clean-up
  call has failed, and in particular when it exits with code 0, the address ranges, handles, mappings, device
  memory, streams, events, files, I/O contexts and buffers that its calls obtained, with the two ends of its
  socket pair, are exactly those that its calls gave back.\<close>

theorem host_share_gives_back:
  assumes "bounded_transfers E" and "trace_of s = []"
    and "launch_pair E fd_args (\<lambda>importer fd. hsh_worker E opt importer fd bytes) args s = Some (Exit c, s')"
    and "c \<noteq> 127" and "own_pair (trace_of s') = Some pair" and "c = 0 \<or> \<not> cleanup_failed s'"
  shows "tally gets (trace_of s') + {#R_fd (low_fd pair), R_fd (high_fd pair)#} = tally gives (trace_of s')"
proof -
  have "in_books {#} s {#}"
    by (simp add: in_books_def assms(2))
  from hsh_tidy.launched_books [OF assms(1) this assms(3,4)] obtain r out ev where
    t: "trace_of s' = (Proc sys_socketpair, r, out) # ev"
    and b: "in_books ({#} + (if r = 0 then {#R_fd (low_fd out), R_fd (high_fd out)#} else {#})) s' {#}"
    and c: "c = 0 \<longrightarrow> \<not> cleanup_failed s'"
    by (auto simp: assms(2))
  have "r = 0" "out = pair"
    using assms(5) by (simp_all add: t own_pair_first split: if_splits)
  with b c assms(6) show ?thesis
    by (auto simp: in_books_def add.commute)
qed

theorem host_share_gives_back_witness:
  "\<exists>s'. hsh_parent = Some (Exit 1, s') \<and> tally gets (trace_of s') + {#R_fd 5, R_fd 6#} = tally gives (trace_of s')"
proof -
  obtain s' where s': "hsh_parent = Some (Exit 1, s')" "own_pair (trace_of s') = Some 0x600000005" "\<not> cleanup_failed s'"
    using hsh_parent_run by blast
  have "tally gets (trace_of s') + {#R_fd (low_fd 0x600000005), R_fd (high_fd 0x600000005)#} = tally gives (trace_of s')"
    by (rule host_share_gives_back [OF toy_bounded toy_start_trace s'(1) [unfolded hsh_parent_def] _ s'(2)]) (simp_all add: s'(3))
  with s'(1) show ?thesis
    unfolding example_pair by blast
qed

end
