(* ===== verification/Probe_Specs.thy ===== *)
theory Probe_Specs
  imports Probe_Cli_Facts
begin

unbundle bit_operations_syntax

text \<open>
  What the shared parts of the probes promise: words get through a socket whose interruptions come to an
  end, the four completions of a transfer are all different although only a bit mask is kept of them,
  and parsed options are values of their C types.
\<close>

subsection \<open>Words get through\<close>

text \<open>
  \<open>patient E m\<close>: the peer is there, and calls are not interrupted for ever; \<open>m\<close> counts the
  interruptions to come.
\<close>

definition patient :: "'w env \<Rightarrow> ('w \<Rightarrow> nat) \<Rightarrow> bool" where
  "patient E m \<longleftrightarrow> (\<forall>w fd v n c. 0 < n \<longrightarrow> c = sys_send fd v n \<or> c = sys_recv fd n \<longrightarrow>
     (case native_fn E (Io c) w of (ret, _, w') \<Rightarrow> 0 < ret \<or> ret = - EINTR \<and> m w' < m w))"

lemma patient_call:
  assumes "patient E m" and "0 < n" and "c = sys_send fd v n \<or> c = sys_recv fd n"
    and "probe_call E (Io c) s = (ret, out, s')"
  shows "0 < ret \<or> ret = - EINTR \<and> m (drv (sys_of s')) < m (drv (sys_of s))"
  using assms(1) [unfolded patient_def, rule_format, OF assms(2,3), of "drv (sys_of s)"] assms(4)
  by (auto simp: probe_call_def call_def split: prod.splits)

lemma send_from_returns:
  assumes p: "patient E m"
  shows "\<exists>s'. send_from E fd v sent s = Some (None, s')"
proof (induction "8 - sent" arbitrary: sent s rule: less_induct)
  case outer: less
  show ?case
  proof (cases "sent < 8")
    case False
    then show ?thesis
      by (subst send_from.simps) simp
  next
    case True
    show ?thesis
    proof (induction "m (drv (sys_of s))" arbitrary: s rule: less_induct)
      case inner: less
      obtain n out s1 where c: "probe_call E (Io (sys_send fd (drop_bit (8 * sent) v) (8 - sent))) s = (n, out, s1)"
        by (rule prod_cases3)
      from patient_call [OF p _ disjI1 [OF refl] c] True
      consider "0 < n" | "n = - EINTR" "m (drv (sys_of s1)) < m (drv (sys_of s))"
        by auto
      then show ?case
      proof cases
        case 1
        with True have "8 - (sent + nat n) < 8 - sent" by linarith
        from outer [OF this, of s1] show ?thesis
          using 1 True c by (subst send_from.simps) (simp add: EINTR_def)
      next
        case 2
        from inner [OF 2(2)] show ?thesis
          using 2(1) True c by (subst send_from.simps) simp
      qed
    qed
  qed
qed

lemma receive_from_returns:
  assumes p: "patient E m"
  shows "\<exists>w s'. receive_from E fd v received s = Some (Inr w, s')"
proof (induction "8 - received" arbitrary: v received s rule: less_induct)
  case outer: less
  show ?case
  proof (cases "received < 8")
    case False
    then show ?thesis
      by (subst receive_from.simps) simp
  next
    case True
    show ?thesis
    proof (induction "m (drv (sys_of s))" arbitrary: s rule: less_induct)
      case inner: less
      obtain n bytes s1 where c: "probe_call E (Io (sys_recv fd (8 - received))) s = (n, bytes, s1)"
        by (rule prod_cases3)
      from patient_call [OF p _ disjI2 [OF refl] c] True
      consider "0 < n" | "n = - EINTR" "m (drv (sys_of s1)) < m (drv (sys_of s))"
        by auto
      then show ?case
      proof cases
        case 1
        with True have "8 - (received + nat n) < 8 - received" by linarith
        from outer [OF this] 1 True c show ?thesis
          by (subst receive_from.simps) (simp add: EINTR_def)
      next
        case 2
        from inner [OF 2(2)] show ?thesis
          using 2(1) True c by (subst receive_from.simps) simp
      qed
    qed
  qed
qed

subsection \<open>Four completions\<close>

text \<open>
  The events as the kernel delivered them, and what a complete transfer is: each of the four requests
  occurs, with the whole chunk transferred.
\<close>

fun read_events :: "'w env \<Rightarrow> nat list \<Rightarrow> ('w, 'z) probe_scheme \<Rightarrow> (u64 \<times> int \<times> int) list \<times> ('w, 'z) probe_scheme" where
  "read_events E [] s = ([], s)"
| "read_events E (i # is) s =
     (case probe_call E (Io (io_event_data i)) s of (_, data, s1) \<Rightarrow>
      case probe_call E (Io (io_event_res i)) s1 of (res, _, s2) \<Rightarrow>
      case probe_call E (Io (io_event_res2 i)) s2 of (res2, _, s3) \<Rightarrow>
      case read_events E is s3 of (evs, s4) \<Rightarrow> ((data, res, res2) # evs, s4))"

definition whole_chunk :: "u64 \<Rightarrow> u64 \<times> int \<times> int \<Rightarrow> bool" where
  "whole_chunk chunk ev \<longleftrightarrow> snd ev = (sint chunk, 0)"

definition four_complete :: "u64 \<Rightarrow> (u64 \<times> int \<times> int) list \<Rightarrow> bool" where
  "four_complete chunk evs \<longleftrightarrow> fst ` set evs = {0, 1, 2, 3} \<and> list_all (whole_chunk chunk) evs"

definition aio_spec ::
  "'w env \<Rightarrow> u64 \<Rightarrow> int \<Rightarrow> u64 \<Rightarrow> u64 \<Rightarrow> bool \<Rightarrow> ('w, 'z) probe_scheme \<Rightarrow> string option \<times> u64 \<times> ('w, 'z) probe_scheme" where
  "aio_spec E ctx fd p bytes write s =
     (let (submitted, _, s1) = probe_call E (Io (sys_io_submit ctx (aio_blocks fd p (bytes div 4) write))) s
      in if submitted \<noteq> 4 then (Some ''io_submit'', 0, cleanup E (Io (sys_io_destroy ctx)) s1)
         else let (completed, _, s2) = probe_call E (Io (sys_io_getevents ctx 4)) s1
              in if completed \<noteq> 4 then (Some ''io_getevents'', 0, cleanup E (Io (sys_io_destroy ctx)) s2)
                 else let (evs, s3) = read_events E [0..<4] s2
                      in (if four_complete (bytes div 4) evs then None else Some ''aio completion'', ctx, s3))"

definition fresh_events :: "u64 \<Rightarrow> u32 \<Rightarrow> (u64 \<times> int \<times> int) list \<Rightarrow> bool" where
  "fresh_events chunk seen evs \<longleftrightarrow> distinct (map fst evs) \<and>
     list_all (\<lambda>ev. fst ev < 4 \<and> \<not> bit seen (unat (fst ev)) \<and> whole_chunk chunk ev) evs"

lemma unat_inj4: "unat x = unat y \<longleftrightarrow> x = (y :: u64)"
  by (simp add: word_unat_eq_iff)

lemma fresh_events_Cons:
  "fresh_events chunk seen ((data, res, res2) # evs) \<longleftrightarrow>
   \<not> event_bad chunk seen data res res2 \<and> fresh_events chunk (mark_seen seen data) evs"
proof (cases "event_bad chunk seen data res res2")
  case True
  then show ?thesis
    by (auto simp: fresh_events_def event_bad_def whole_chunk_def)
next
  case False
  then have d: "data < 4" "\<not> bit seen (unat data)" "whole_chunk chunk (data, res, res2)"
    by (auto simp: event_bad_def whole_chunk_def)
  have small: "unat x < 4" if "x < (4 :: u64)" for x
    using that by (simp add: word_less_nat_alt)
  have "x < 4 \<and> \<not> bit (mark_seen seen data) (unat x) \<longleftrightarrow> x < 4 \<and> \<not> bit seen (unat x) \<and> x \<noteq> data" for x
    using mark_seen_bit [OF d(1), of "unat x" seen] small [of x] by (auto simp: unat_inj4)
  then have "fresh_events chunk (mark_seen seen data) evs \<longleftrightarrow> distinct (map fst evs) \<and>
      (\<forall>ev \<in> set evs. fst ev < 4 \<and> \<not> bit seen (unat (fst ev)) \<and> whole_chunk chunk ev \<and> fst ev \<noteq> data)"
    unfolding fresh_events_def list_all_iff by metis
  with False d show ?thesis
    by (auto simp: fresh_events_def list_all_iff)
qed

lemma aio_events_spec:
  "aio_events E chunk is seen failed s =
     (case read_events E is s of (evs, s') \<Rightarrow> (failed \<or> \<not> fresh_events chunk seen evs, s'))"
proof (induction "is" arbitrary: seen failed s)
  case Nil
  then show ?case by (simp add: fresh_events_def)
next
  case (Cons i js)
  then show ?case
    by (auto simp: fresh_events_Cons split: prod.splits)
qed

lemma read_events_length: "length (fst (read_events E is s)) = length is"
  by (induction "is" arbitrary: s) (simp_all split: prod.split, metis fst_conv)

lemma words_below_4: "x < (4 :: u64) \<longleftrightarrow> x \<in> {0, 1, 2, 3}"
proof
  assume "x < 4"
  then have "unat x < 4" by (simp add: word_less_nat_alt)
  then have "unat x = unat (0 :: u64) \<or> unat x = unat (1 :: u64) \<or> unat x = unat (2 :: u64) \<or> unat x = unat (3 :: u64)"
    by auto
  then show "x \<in> {0, 1, 2, 3}"
    by (simp only: unat_inj4) simp
qed auto

lemma four_complete_fresh:
  assumes "length evs = 4"
  shows "four_complete chunk evs \<longleftrightarrow> fresh_events chunk 0 evs"
proof -
  have card: "card {0, 1, 2, 3 :: u64} = 4" by simp
  have "fst ` set evs = {0, 1, 2, 3} \<longleftrightarrow> distinct (map fst evs) \<and> fst ` set evs \<subseteq> {0, 1, 2, 3}"
  proof
    assume eq: "fst ` set evs = {0, 1, 2, 3}"
    then have "card (set (map fst evs)) = length (map fst evs)"
      using assms card by simp
    then show "distinct (map fst evs) \<and> fst ` set evs \<subseteq> {0, 1, 2, 3}"
      using eq by (simp only: card_distinct) simp
  next
    assume r: "distinct (map fst evs) \<and> fst ` set evs \<subseteq> {0, 1, 2, 3}"
    then have "card (set (map fst evs)) = 4"
      using distinct_card [of "map fst evs"] assms by simp
    with r card show "fst ` set evs = {0, 1, 2, 3}"
      by (intro card_subset_eq) simp_all
  qed
  moreover have "fst ` set evs \<subseteq> {0, 1, 2, 3} \<longleftrightarrow> list_all (\<lambda>ev. fst ev < 4) evs"
    unfolding list_all_iff words_below_4 by auto
  ultimately show ?thesis
    by (auto simp: four_complete_def fresh_events_def list_all_iff)
qed

lemma aio_operation_spec: "aio_operation E ctx fd p bytes write s = aio_spec E ctx fd p bytes write s"
proof -
  have "aio_events E chunk [0..<4] 0 False t =
      (case read_events E [0..<4] t of (evs, t') \<Rightarrow> (\<not> four_complete chunk evs, t'))" for chunk and t :: "('a, 'b) probe_scheme"
  proof -
    obtain evs t' where r: "read_events E [0..<4] t = (evs, t')"
      by (cases "read_events E [0..<4] t")
    have "length evs = 4"
      using read_events_length [of E "[0..<4]" t] unfolding r by simp
    then show ?thesis
      unfolding aio_events_spec r by (simp add: four_complete_fresh)
  qed
  then show ?thesis
    by (simp add: aio_operation_def aio_spec_def Let_def split: prod.split del: upt_rec_numeral upt_conv_Cons)
qed

subsection \<open>Options are values of their types\<close>

text \<open>
  \<open>device\<close> and \<open>worker_fd\<close> are values of an \<open>int\<close>, \<open>bytes\<close> is a whole number of steps of
  \<open>alignment_mib\<close> MiB in a \<open>size_t\<close>, and \<open>aio\<close> is one of the four modes.
\<close>

definition cli_typed :: "nat \<Rightarrow> cli_options \<Rightarrow> bool" where
  "cli_typed al opt \<longleftrightarrow> 0 \<le> cli_device opt \<and> cli_device opt < 2 ^ 31 \<and>
     - 1 \<le> cli_worker_fd opt \<and> cli_worker_fd opt < 2 ^ 31 \<and>
     (\<exists>k. 0 < k \<and> unat (cli_bytes opt) = k * al * 2 ^ 20) \<and>
     cli_aio opt \<in> {''both'', ''buffered'', ''direct'', ''none''}"

lemma whole_mib_bytes:
  assumes "n \<noteq> 0" and "n mod al = 0" and "\<not> n > SIZE_MAX div (1024 * 1024)"
  shows "\<exists>k. 0 < k \<and> unat (n * 1024 * 1024) = k * unat al * 2 ^ 20"
proof -
  have "unat SIZE_MAX = 2 ^ 64 - 1"
    unfolding SIZE_MAX_def by (simp add: unsigned_minus_1_eq_mask mask_eq_exp_minus_1)
  then have "unat (SIZE_MAX div (1024 * 1024)) = 2 ^ 44 - 1"
    by (simp add: unat_div)
  with assms(3) have "unat n * 2 ^ 20 < 2 ^ 64"
    by (simp add: word_less_nat_alt not_less)
  then have "unat (n * (2 ^ 20)) = unat n * 2 ^ 20"
    by (subst unat_mult_no_wrap) simp_all
  then have u: "unat (n * 1024 * 1024) = unat n * 2 ^ 20"
    by (simp add: mult.assoc)
  have "unat n mod unat al = 0"
    using arg_cong [OF assms(2), of unat] by (simp add: unat_mod)
  then obtain k where k: "unat n = k * unat al"
    by (auto simp: mod_eq_0_iff_dvd dvd_def mult.commute)
  moreover have "0 < k"
    using k assms(1) by (cases k) (auto simp: unat_eq_zero)
  ultimately show ?thesis
    using u by auto
qed

lemma int_max: "\<not> n > INT_MAX \<Longrightarrow> uint n < 2 ^ 31"
  by (simp add: INT_MAX_def word_less_def not_less)

lemma cli_set_typed:
  assumes "cli_set al key v opt = Inr opt'" and "cli_typed (unat al) opt"
  shows "cli_typed (unat al) opt'"
proof -
  have ok: "cli_typed (unat al) (opt\<lparr>cli_device := uint n\<rparr>)" "cli_typed (unat al) (opt\<lparr>cli_worker_fd := uint n\<rparr>)"
    if "\<not> n > INT_MAX" for n
  proof -
    have "0 \<le> uint n" "- 1 \<le> uint n"
      using uint_ge_0 [of n] by linarith+
    with int_max [OF that] assms(2) show "cli_typed (unat al) (opt\<lparr>cli_device := uint n\<rparr>)"
      "cli_typed (unat al) (opt\<lparr>cli_worker_fd := uint n\<rparr>)"
      unfolding cli_typed_def by simp_all
  qed
  have bytes: "cli_typed (unat al) (opt\<lparr>cli_bytes := 1048576 * n\<rparr>)"
    if "n \<noteq> 0" "n mod al = 0" "\<not> n > SIZE_MAX div 1048576" for n
    using whole_mib_bytes [of n al] that assms(2) unfolding cli_typed_def by (simp add: mult.commute)
  have mode: "cli_typed (unat al) (opt\<lparr>cli_io_dir := d\<rparr>)"
    "cli_typed (unat al) (opt\<lparr>cli_aio := ''both''\<rparr>)" "cli_typed (unat al) (opt\<lparr>cli_aio := ''buffered''\<rparr>)"
    "cli_typed (unat al) (opt\<lparr>cli_aio := ''direct''\<rparr>)" "cli_typed (unat al) (opt\<lparr>cli_aio := ''none''\<rparr>)" for d
    using assms(2) unfolding cli_typed_def by simp_all
  from assms(1) show ?thesis
    unfolding cli_set_def by (cases "number v") (auto simp: ok bytes mode split: if_splits del: mod_0_imp_dvd)
qed

lemma cli_scan_typed:
  "cli_scan al args opt = Cli_Ok opt' \<Longrightarrow> cli_typed (unat al) opt \<Longrightarrow> cli_typed (unat al) opt'"
  by (induction al args opt rule: cli_scan.induct) (auto split: if_splits sum.splits dest: cli_set_typed)

lemma cli_defaults_typed: "al = 1 \<or> al = 2 \<Longrightarrow> cli_typed al cli_defaults"
  by (auto simp: cli_typed_def cli_defaults_def intro: exI [of _ "Suc 0"] exI [of _ 2])

end
