(* ===== verification/Probe_Data.thy ===== *)
theory Probe_Data
  imports Probe_Specs Multi_Props Hal_Host_Io_Facts
begin

unbundle bit_operations_syntax

text \<open>
  The properties of what the probes send, store and transfer, each with a run to which it applies where
  it has hypotheses.
\<close>

subsection \<open>Words over a socket\<close>

text \<open>
  A kernel that interrupts every other call, takes at most 3 bytes and delivers at most 5; its world is
  the number of interruptions to come and the bytes still to be delivered.
\<close>

definition chop_fn :: "native \<Rightarrow> nat \<times> u64 \<Rightarrow> int \<times> u64 \<times> nat \<times> u64" where
  "chop_fn c w = (case w of (k, rest) \<Rightarrow>
     if 0 < k then (- EINTR, 0, k - 1, rest)
     else case c of
        Io (sys_send fd v n) \<Rightarrow> (int (min n 3), 0, 1, rest)
      | Io (sys_recv fd n) \<Rightarrow> (int (min n 5), rest, 1, drop_bit (8 * min n 5) rest)
      | _ \<Rightarrow> (0, 0, k, rest))"

definition chop_env :: "(nat \<times> u64) env" where
  "chop_env = \<lparr>native_fn = chop_fn, clock_step = (\<lambda>n. 1), can_alloc = (\<lambda>n. True), ACL_ERROR_REPEAT_INITIALIZE = 100002\<rparr>"

lemma chop_env_fn [simp]: "native_fn chop_env = chop_fn"
  by (simp add: chop_env_def)

lemma chop_bounded: "bounded_transfers chop_env"
  by (auto simp: bounded_transfers_def chop_fn_def EINTR_def)

lemma chop_patient: "patient chop_env fst"
  by (auto simp: patient_def chop_fn_def)

definition chop_start :: "u64 \<Rightarrow> (nat \<times> u64) probe" where
  "chop_start rest = \<lparr>sys_of = \<lparr>drv = (1, rest), trace = [], stdin_lines = [], stdout_lines = [], clk = 0, ticks = 0\<rparr>,
     cleanup_failed = False\<rparr>"

text \<open>C22. A word crosses the socket unchanged, however the kernel cuts it up and interrupts: when
  \<open>send_word\<close> and \<open>receive_word\<close> both succeed and the bytes received are the bytes sent, the word
  received is the word sent.\<close>

theorem word_round_trip:
  assumes "bounded_transfers E" and "bounded_transfers E'"
    and "send_word E fd v s = Some (None, s')" and "receive_word E' fd' u = Some (Inr w, u')"
    and "received_bytes fd' (drop (length (trace_of u)) (trace_of u')) = sent_bytes fd (drop (length (trace_of s)) (trace_of s'))"
  shows "w = v"
proof -
  have "sent_bytes fd (drop (length (trace_of s)) (trace_of s')) = map (byte_at v) [0..<8]"
    using send_word_spec [OF assms(1,3)] by (auto simp: sends_rest_def)
  moreover have "received_bytes fd' (drop (length (trace_of u)) (trace_of u')) = map (byte_at w) [0..<8]"
    using receive_word_spec [OF assms(2,4)] by (auto simp: receives_rest_def)
  ultimately have "map (byte_at w) [0..<8] = map (byte_at v) [0..<8]"
    using assms(5) by (simp only:)
  then have "\<forall>i \<in> set [0..<8]. byte_at w i = byte_at v i"
    by (simp only: map_eq_conv)
  then show ?thesis
    by (intro word_eq_bytes) auto
qed

lemma chop_received:
  "\<exists>w u'. receive_word chop_env 6 (chop_start 0x1122334455667788) = Some (Inr w, u') \<and>
     received_bytes 6 (drop (length (trace_of (chop_start 0x1122334455667788))) (trace_of u')) =
       map (byte_at 0x1122334455667788) [0..<8]"
proof -
  have "\<exists>u'. receive_word chop_env 6 (chop_start 0x1122334455667788) = Some (Inr 0x1122334455667788, u')"
    unfolding receive_word_def
    by (subst receive_from.simps, simp add: chop_start_def probe_call_def call_def chop_fn_def,
        subst receive_from.simps, simp add: probe_call_def call_def chop_fn_def EINTR_def,
        subst receive_from.simps, simp add: probe_call_def call_def chop_fn_def EINTR_def,
        subst receive_from.simps, simp add: probe_call_def call_def chop_fn_def EINTR_def,
        subst receive_from.simps, simp)
  then obtain u' where u': "receive_word chop_env 6 (chop_start 0x1122334455667788) = Some (Inr 0x1122334455667788, u')"
    by blast
  with receive_word_spec [OF chop_bounded u'] show ?thesis
    by (auto simp: receives_rest_def)
qed

theorem word_round_trip_witness:
  "\<exists>w s' u'. send_word chop_env 5 0x1122334455667788 (chop_start 0) = Some (None, s') \<and>
     receive_word chop_env 6 (chop_start 0x1122334455667788) = Some (Inr w, u') \<and> w = 0x1122334455667788"
proof -
  let ?v = "0x1122334455667788 :: u64"
  obtain s' where s': "send_word chop_env 5 ?v (chop_start 0) = Some (None, s')"
    using send_from_returns [OF chop_patient] unfolding send_word_def by blast
  obtain w u' where u': "receive_word chop_env 6 (chop_start ?v) = Some (Inr w, u')"
    and r: "received_bytes 6 (drop (length (trace_of (chop_start ?v))) (trace_of u')) = map (byte_at ?v) [0..<8]"
    using chop_received by blast
  have "sent_bytes 5 (drop (length (trace_of (chop_start 0))) (trace_of s')) = map (byte_at ?v) [0..<8]"
    using send_word_spec [OF chop_bounded s'] by (auto simp: sends_rest_def)
  then have "w = ?v"
    using r by (intro word_round_trip [OF chop_bounded chop_bounded s' u']) (simp only:)
  with s' u' show ?thesis by blast
qed

text \<open>C23. Words get through: with a peer that stays and a kernel that does not interrupt for ever,
  \<open>send_word\<close> returns without an exception and has sent all eight bytes in order, and
  \<open>receive_word\<close> returns a word.\<close>

theorem words_get_through:
  assumes "bounded_transfers E" and "patient E m"
  shows "(\<exists>s'. send_word E fd v s = Some (None, s') \<and>
      sent_bytes fd (drop (length (trace_of s)) (trace_of s')) = map (byte_at v) [0..<8]) \<and>
    (\<exists>w s'. receive_word E fd s = Some (Inr w, s') \<and>
      received_bytes fd (drop (length (trace_of s)) (trace_of s')) = map (byte_at w) [0..<8])"
proof -
  obtain s1 where s1: "send_word E fd v s = Some (None, s1)"
    using send_from_returns [OF assms(2)] unfolding send_word_def by blast
  obtain w s2 where s2: "receive_word E fd s = Some (Inr w, s2)"
    using receive_from_returns [OF assms(2)] unfolding receive_word_def by blast
  show ?thesis
    using send_word_spec [OF assms(1) s1] receive_word_spec [OF assms(1) s2] s1 s2
    by (auto simp: sends_rest_def receives_rest_def)
qed

theorem words_get_through_witness:
  "\<exists>s'. send_word chop_env 5 77 (chop_start 0) = Some (None, s') \<and>
     sent_bytes 5 (trace_of s') = map (byte_at 77) [0..<8]"
  using words_get_through [OF chop_bounded chop_patient, of 5 77 "chop_start 0"]
  by (simp add: chop_start_def trace_of_def del: upt_rec_numeral upt_conv_Cons)

subsection \<open>Patterns in memory\<close>

text \<open>C30. In memory that nobody else writes, a buffer that \<open>fill\<close> has filled passes \<open>verify\<close> exactly when the
  seeds agree, for every size of the buffer but less than one word: data of another phase of the protocol is
  never taken for the expected one.\<close>

theorem fill_then_verify:
  assumes "keeps_words E word (words_at p (unat (bytes div 8)))"
  shows "\<exists>e s'. verify E p bytes seed' phase (fill E p bytes seed s) = Some (e, s') \<and>
    (e = None \<longleftrightarrow> seed = seed' \<or> unat bytes < 8)"
proof -
  let ?n = "unat (bytes div 8)"
  obtain e s' where v: "verify_words E p seed' phase [0..<?n] (fill E p bytes seed s) = (e, s')"
    by (cases "verify_words E p seed' phase [0..<?n] (fill E p bytes seed s)")
  have "?n \<le> 2 ^ 61"
    using words_bound [of bytes] by simp
  have w: "word (drv (sys_of (fill E p bytes seed s))) (p + of_nat (8 * i)) = pattern_word i seed" if "i < ?n" for i
    using fill_words [OF assms \<open>?n \<le> 2 ^ 61\<close> that order_refl, of seed s] that by (simp add: fill_def)
  have "\<forall>i \<in> set [0..<?n]. p + of_nat (8 * i) \<in> words_at p ?n"
    by (auto simp: words_at_def)
  from verify_words_iff [OF assms this v]
  have "e = None \<longleftrightarrow> (\<forall>i \<in> set [0..<?n]. word (drv (sys_of (fill E p bytes seed s))) (p + of_nat (8 * i)) = pattern_word i seed')"
    by (simp only: option.distinct split: if_split) simp
  also have "\<dots> \<longleftrightarrow> (\<forall>i \<in> set [0..<?n]. pattern_word i seed = pattern_word i seed')"
    by (rule ball_cong [OF refl]) (simp only: w set_upt atLeastLessThan_iff)
  also have "\<dots> \<longleftrightarrow> (\<forall>i < ?n. pattern_word i seed = pattern_word i seed')"
    by auto
  also have "\<dots> \<longleftrightarrow> seed = seed' \<or> ?n = 0"
    unfolding pattern_word_seed by auto
  also have "?n = 0 \<longleftrightarrow> unat bytes < 8"
    by (simp add: unat_div div_eq_0_iff)
  finally show ?thesis
    using v by (simp add: verify_def)
qed

lemma toy_keeps_words: "keeps_words toy_env (\<lambda>w. toy_load (toy_mem w)) A"
  by (auto simp: keeps_words_def toy_fns toy_load_def)

theorem fill_then_verify_witness:
  "\<exists>e s'. verify toy_env (2 ^ 30) 16 202 ''phase'' (fill toy_env (2 ^ 30) 16 101 (toy_start [])) = Some (e, s') \<and> e \<noteq> None"
  using fill_then_verify [OF toy_keeps_words, of "2 ^ 30" 16 202 "''phase''" 101 "toy_start []"] by auto

text \<open>C31. What the writer of host_uva_share stores is what its reader accepts, and the reader rejects it as soon
  as any one word of it is changed.\<close>

theorem test_data_checked:
  assumes k: "keeps_halves E word (halves_at va (unat (word_count sz)))" and c: "2 \<le> unat (word_count sz)"
  shows "fst (VerifyTestData E va sz (WriteTestData E va sz s)) \<and>
    (\<forall>i v. i < unat (word_count sz) \<longrightarrow> v \<noteq> words_of word va (WriteTestData E va sz s) i \<longrightarrow>
       \<not> fst (VerifyTestData E va sz (put_word E va i v (WriteTestData E va sz s))))"
proof (intro conjI allI impI)
  let ?s = "WriteTestData E va sz s" and ?n = "unat (word_count sz)"
  note written = write_data [OF k c, of s]
  then show "fst (VerifyTestData E va sz ?s)"
    by (simp add: verify_data [OF k c])
  fix i v
  assume i: "i < ?n" and v: "v \<noteq> words_of word va ?s i"
  let ?f = "(words_of word va ?s)(i := v)"
  have w: "words_of word va (put_word E va i v ?s) j = ?f j" if "j < ?n" for j
    by (simp add: put_word_keeps [OF k count_bound i that])
  have "\<not> accepted (?n - 1) ?f"
    by (rule one_word_detected [OF written _ _ v]) (use i c in simp_all)
  moreover have "accepted (?n - 1) (words_of word va (put_word E va i v ?s)) \<longleftrightarrow> accepted (?n - 1) ?f"
  proof -
    have "(\<Sum>j < ?n - 1. words_of word va (put_word E va i v ?s) j) = (\<Sum>j < ?n - 1. ?f j)"
      by (rule sum.cong) (use w in auto)
    moreover have "words_of word va (put_word E va i v ?s) 0 = ?f 0"
      "words_of word va (put_word E va i v ?s) (?n - 1) = ?f (?n - 1)"
      by (rule w, use c in simp)+
    ultimately show ?thesis
      by (simp only: accepted_def)
  qed
  ultimately show "\<not> fst (VerifyTestData E va sz (put_word E va i v ?s))"
    by (simp add: verify_data [OF k c])
qed

lemma toy_keeps_halves: "keeps_halves toy_env (\<lambda>w a. ucast (toy_load (toy_mem w) a)) A"
  by (auto simp: keeps_halves_def toy_fns toy_load_def)

theorem test_data_checked_witness:
  "fst (VerifyTestData toy_env 4096 16 (WriteTestData toy_env 4096 16 (toy_start [])))"
  using test_data_checked [OF toy_keeps_halves, of 16 4096 "toy_start []"] by (simp add: word_count_def)

subsection \<open>Asynchronous transfer\<close>

text \<open>C12. \<open>aio_operation\<close>, which remembers in a bit mask which of its four requests have completed, implements the
  operation that keeps all events and passes exactly when every one of the four requests occurs among them
  and each has transferred its whole chunk.\<close>

theorem aio_operation_refines:
  "aio_operation E ctx fd p bytes write s = aio_spec E ctx fd p bytes write s"
  by (rule aio_operation_spec)

subsection \<open>Direct I/O\<close>

text \<open>C29. When hal_host_io exits with code 0, the whole buffer went to the file and came back: in this
  order the file was opened, the whole buffer filled with the byte \<open>A\<close> (65), written to the file,
  the whole buffer set to zero, read back from the file, every byte of it read and found to be 65,
  and the file closed and removed, both without an error. Apart from interrupted calls, the writes and
  the reads are each the calls of at most 1 GiB that follow each other without a gap, at the same
  positions in the buffer and in the file, and each transferred all it was asked for.\<close>

theorem direct_io_passes:
  assumes "hio_run E sz directory s = Some (0, s')"
  shows "\<exists>pid fd buffer e1 o1 x y w x' y' r c o2 o3 e2.
    trace_of s' = trace_of s @ e1 @ (Io (sys_open (hio_path directory pid) hio_flags), fd, o1) #
      ((Cpu (c_memset buffer 65 sz), x, y) # w @ (Cpu (c_memset buffer 0 sz), x', y') # r @ c) @
      [(Io (sys_close fd), 0, o2), (Io (sys_unlink (hio_path directory pid)), 0, o3)] @ e2 \<and> 0 \<le> fd \<and>
    whole_transfer True fd buffer sz w \<and> whole_transfer False fd buffer sz r \<and> reads_pattern buffer sz c \<and>
    concat (map (\<lambda>(k, n). [k..<k + n]) (pieces (unat sz) 0)) = [0..<unat sz]"
proof -
  obtain buffer e1 ev e2 where ev: "trace_of s' = trace_of s @ e1 @ ev @ e2" "file_test directory buffer sz ev"
    using hio_run_passed [OF assms] by blast
  then obtain pid fd o1 x y w x' y' r c o2 o3 where
    "trace_of s' = trace_of s @ e1 @ (Io (sys_open (hio_path directory pid) hio_flags), fd, o1) #
      ((Cpu (c_memset buffer 65 sz), x, y) # w @ (Cpu (c_memset buffer 0 sz), x', y') # r @ c) @
      [(Io (sys_close fd), 0, o2), (Io (sys_unlink (hio_path directory pid)), 0, o3)] @ e2" "0 \<le> fd"
    "whole_transfer True fd buffer sz w" "whole_transfer False fd buffer sz r" "reads_pattern buffer sz c"
    unfolding file_test_def round_trip_def by auto
  then show ?thesis
    using pieces_tile [of "unat sz" 0] by (intro exI conjI) (assumption | simp)+
qed

text \<open>A machine whose file always returns the pattern.\<close>

definition same_fn :: "native \<Rightarrow> unit \<Rightarrow> int \<times> u64 \<times> unit" where
  "same_fn c w = (case c of
     Io (sys_pwrite fd a n o') \<Rightarrow> (uint n, 0, w)
   | Io (sys_pread fd a n o') \<Rightarrow> (uint n, 0, w)
   | Io (sys_open q fl) \<Rightarrow> (9, 0, w)
   | Cpu (cpu_load n a) \<Rightarrow> (0, 65, w)
   | _ \<Rightarrow> (0, 4096, w))"

definition same_env :: "unit env" where
  "same_env = \<lparr>native_fn = same_fn, clock_step = (\<lambda>n. 1), can_alloc = (\<lambda>n. True), ACL_ERROR_REPEAT_INITIALIZE = 100002\<rparr>"

definition same_start :: "unit probe" where
  "same_start = \<lparr>sys_of = \<lparr>drv = (), trace = [], stdin_lines = [], stdout_lines = [], clk = 0, ticks = 0\<rparr>,
     cleanup_failed = False\<rparr>"

lemma same_env_fn [simp]: "native_fn same_env = same_fn"
  by (simp add: same_env_def)

lemma same_retry:
  "hio_retry same_env c s = (case probe_call same_env c s of (n, _, s1) \<Rightarrow> Some (n, s1))"
proof -
  obtain n out s1 where c: "probe_call same_env c s = (n, out, s1)"
    by (rule prod_cases3)
  have "uint x \<noteq> - 4" for x :: u64
    using uint_ge_0 [of x] by linarith
  then have "n \<noteq> - EINTR"
    using c by (auto simp: probe_call_def call_def same_fn_def EINTR_def
      split: native.splits io_call.splits cpu_call.splits)
  with c show ?thesis
    by (subst hio_retry.simps) simp
qed

lemma same_transfer:
  "hio_transfer same_env fd p 2 write 0 s = Some (True, plain_call same_env (hio_call write fd p 2 0) s)"
proof -
  have "probe_call same_env (hio_call write fd p 2 0) s = (2, 0, plain_call same_env (hio_call write fd p 2 0) s)"
    by (simp add: plain_call_def probe_call_def call_def same_fn_def hio_call_def)
  moreover have "hio_chunk 2 0 = 2"
    by (simp add: hio_chunk_def)
  ultimately show ?thesis
    by (subst hio_transfer.simps, simp add: same_retry, subst hio_transfer.simps, simp)
qed

lemma same_run: "\<exists>s'. hio_run same_env 2 ''.'' same_start = Some (0, s')"
  unfolding hio_run_def hio_body_def
  by (simp add: run_steps.simps hio_init_def host_io.defs probe.defs same_start_def check_step_def reserve_step_def create_step_def
      map_step_def mem_prop_def hio_test_def test_io_def hio_write_read_def same_transfer upto_words hio_finish_def
      Allocation_destroy_def Allocation_new_def cleanup_def plain_call_def probe_call_def call_def same_fn_def
      hio_call_def Let_def)

theorem direct_io_passes_witness:
  "\<exists>s' fd buffer w. hio_run same_env 2 ''.'' same_start = Some (0, s') \<and> whole_transfer True fd buffer 2 w"
proof -
  obtain s' where s': "hio_run same_env 2 ''.'' same_start = Some (0, s')"
    using same_run by blast
  with direct_io_passes [OF s'] show ?thesis by blast
qed

subsection \<open>Options\<close>

text \<open>C32. What the shared command line accepts are values of their C types: a device and a descriptor that fit an
  \<open>int\<close>, a size that is a positive multiple of the alignment in MiB and fits a \<open>size_t\<close> without
  overflow, and one of the four modes of asynchronous I/O.\<close>

theorem options_typed:
  assumes "cli_scan al args cli_defaults = Cli_Ok opt" and "al = 1 \<or> al = 2"
  shows "cli_typed (unat al) opt"
  by (rule cli_scan_typed [OF assms(1) cli_defaults_typed]) (use assms(2) in auto)

theorem options_typed_witness:
  "\<exists>opt. cli_scan 2 [''--device'', ''3'', ''--size-mib'', ''4'', ''--aio'', ''none''] cli_defaults = Cli_Ok opt \<and>
     cli_typed 2 opt"
proof -
  let ?args = "[''--device'', ''3'', ''--size-mib'', ''4'', ''--aio'', ''none'']"
  let ?opt = "cli_defaults\<lparr>cli_device := 3, cli_bytes := 4 * 1024 * 1024, cli_aio := ''none''\<rparr>"
  have n: "number (to_string_int 3) = Inr 3" "number (to_string_int 4) = Inr 4"
    using number_to_string_int [of 3] number_to_string_int [of 4] by simp_all
  have "to_string_int 3 = ''3''" "to_string_int 4 = ''4''"
    by (code_simp)+
  then have "cli_scan 2 ?args cli_defaults = Cli_Ok ?opt"
    using n by (simp add: cli_set_def INT_MAX_def SIZE_MAX_def)
  with options_typed [OF this] show ?thesis by simp
qed

end
