(* ===== verification/Worker_Turns.thy ===== *)
theory Worker_Turns
  imports Probe_Turns Hal_Map_Facts Device_Share_Facts Host_Share_Facts
begin

text \<open>
  The workers of hal_map_probe, device_share and host_share take turns: the interface \<open>turn_worker\<close> on
  each of them.
\<close>

subsection \<open>Words and quiet statements\<close>

lemma words_say:
  assumes "bounded_transfers E"
  shows "says fd (\<lambda>s. send_word E fd (v s) s)" "says fd (send_word E fd w)" "hears fd (check_receive E fd ok what)"
    "(\<And>v s. sys_of (wr v s) = sys_of s) \<Longrightarrow> hears fd (receive_into E fd wr)"
  unfolding says_def hears_def
  by (auto intro: send_word_effects [OF assms] send_const_effects [OF assms] check_receive_effects [OF assms] receive_into_effects [OF assms])

lemma hm_words_say:
  assumes "bounded_transfers E"
  shows "says fd (\<lambda>s. hm_send_word E fd (v s) s)" "says fd (hm_send_word E fd w)"
    "hears fd (hmp_expect_zero E fd what)" "hears fd (hmp_receive E fd)"
proof -
  show "says fd (\<lambda>s. hm_send_word E fd (v s) s)" "says fd (hm_send_word E fd w)" "hears fd (hmp_expect_zero E fd what)"
    unfolding says_def hears_def by (auto intro: hmp_send_steps [OF assms] hmp_send_const [OF assms] hmp_receive_steps)
  have "receives_word fd (hmp_receive E fd)"
    unfolding receives_word_def
  proof (intro allI impI)
    fix s s'
    assume f: "hmp_receive E fd s = Some (None, s')"
    then obtain r s1 where w: "hm_receive_word E fd s = Some (r, s1)"
      by (cases "hm_receive_word E fd s") (auto simp: hmp_receive_def)
    with f obtain v where v: "r = Inr v" "s' = s1\<lparr>hmp_token := v\<rparr>"
      by (auto simp: hmp_receive_def split: sum.splits)
    obtain ev where "trace_of s1 = trace_of s @ ev" "\<And>w. r = Inr w \<Longrightarrow> receives_on fd ev = 8"
      by (rule hm_receive_effects [OF w], rule that)
    with v show "\<exists>ev. trace_of s' = trace_of s @ ev \<and> 8 \<le> receives_on fd ev"
      by (auto simp: trace_of_def)
  qed
  then show "hears fd (hmp_receive E fd)"
    by (simp add: hears_def hmp_receive_steps(1))
qed

lemma untouched [simp]:
  "\<not> touches (Hal (sys_dlopen n))" "\<not> touches (Hal (sys_dlsym p n))" "\<not> touches (Hal (sys_dlclose p))" "\<not> touches (Hal (TsdOpen i))"
  "\<not> touches (Hal (TsdClose i))" "\<not> touches (Hal halSetRuntimeApiVer)" "\<not> touches (Hal (halDeviceOpen i))"
  "\<not> touches (Hal (halDeviceClose i))" "\<not> touches (Hal (halGetHostID i))" "\<not> touches (Cpu (vector_new m))"
  "\<not> touches (Cpu (vector_delete q))" "\<not> touches aclInit" "\<not> touches (aclrtSetDevice d)" "\<not> touches (aclrtResetDevice d)"
  "\<not> touches aclFinalize" "\<not> touches (halMemUnmap q)" "\<not> touches (halMemRelease q)" "\<not> touches (halMemAddressFree q)"
  "\<not> touches (Io (sys_close fd))"
  by (simp_all add: touches_def)

lemma grows_untouched:
  "grows (\<lambda>c. \<not> touches c) s (Allocation_destroy E m s)" "\<not> touches c \<Longrightarrow> grows (\<lambda>c. \<not> touches c) s (plain_call E c s)"
  "\<not> touches c \<Longrightarrow> grows (\<lambda>c. \<not> touches c) s (if b then cleanup E c s else s)"
  by (rule Allocation_destroy_grows; simp) (rule grows_plain, simp, rule grows_cleanup_if, simp)

subsection \<open>host_share\<close>

lemma hsh_turns:
  assumes law: "bounded_transfers E"
  shows "takes_turns fd (if importer then 8 else 0) (hsh_body E opt importer fd bytes)"
proof -
  have mem: "appends no_send (\<lambda>s. verify E (hsh_va s) bytes n what s)" "appends no_send (assign (\<lambda>s. fill E (hsh_va s) bytes n s))" for n what
    by (rule appends_mono [OF calls_effects(5)], simp) (rule appends_mono [OF calls_effects(3)], simp)
  have io: "appends no_send (hsh_io_tests E opt bytes n)" for n
    by (rule appends_mono [OF hsh_io_tests_effects(1) is_io_quiet(1)])
  have inspect: "appends no_send (inspect_mapping E)"
    unfolding inspect_mapping_def by (auto intro: calls_effects)
  note say = words_say [OF law] and quiet = mem io inspect
  have "takes_turns fd 0 (hsh_body E opt False fd bytes)"
  proof -
    let ?verify = "\<lambda>n what (s :: 'a host_share). verify E (hsh_va s) bytes n what s"
    let ?start = "hsh_open E opt @ take 8 (hsh_creator E opt fd bytes)"
    have body: "hsh_body E opt False fd bytes = ?start @
        [(\<lambda>s. send_word E fd (hsh_token s) s), check_receive E fd (\<lambda>v. v = 0) ''importer mapped and verified creator data''] @
        [?verify 202 ''CREATOR_SEES_IMPORTER_WRITE'', hsh_io_tests E opt bytes 303] @
        [send_word E fd 303, receive_into E fd (\<lambda>v s. s\<lparr>hsh_failures := hsh_failures s + ucast v\<rparr>)] @
        [?verify 404 ''CREATOR_SEES_IMPORTER_AFTER_IO''] @
        [send_word E fd 0, check_receive E fd (\<lambda>v. v = 0) ''importer unmapped''] @ []"
      by (simp add: hsh_body_def hsh_creator_def hsh_map_def)
    have start: "\<forall>f \<in> set ?start. appends no_send f"
      by (auto simp: hsh_open_def hsh_creator_def hsh_map_def alloc_steps quiet intro!: appends_check)
    show ?thesis
      unfolding body by (intro turn_exchange turn_end start say) (simp_all add: quiet)
  qed
  moreover have "takes_turns fd 8 (hsh_body E opt True fd bytes)"
  proof -
    let ?verify = "\<lambda>n what (s :: 'a host_share). verify E (hsh_va s) bytes n what s"
    let ?use = "[reserve_step E ''reserve importer VA'' hsh_host hsh_host_update bytes,
        import_step E ''halMemImportFromShareableHandle HOST'' hsh_host hsh_host_update hsh_token hsh_host_id,
        map_step E ''halMemMap HOST'' hsh_host hsh_host_update bytes, inspect_mapping E,
        ?verify 101 ''IMPORTER_SEES_CREATOR_WRITE'', assign (\<lambda>s. fill E (hsh_va s) bytes 202 s), ?verify 202 ''IMPORTER_CPU_RW'']"
    let ?gives = "[unmap_step E ''importer unmap'' hsh_host hsh_host_update,
        release_step E ''importer release'' hsh_host hsh_host_update, free_step E ''importer free VA'' hsh_host hsh_host_update]"
    have body: "hsh_body E opt True fd bytes = hsh_open E opt @ [receive_into E fd (\<lambda>v s. s\<lparr>hsh_token := v\<rparr>)] @ ?use @
        [send_word E fd 0, check_receive E fd (\<lambda>v. v = 303) ''creator IO completed''] @
        [?verify 303 ''IMPORTER_SEES_CREATOR_AFTER_IO'', hsh_io_tests E opt bytes 404] @
        [(\<lambda>s. send_word E fd (scast (hsh_failures s)) s), check_receive E fd (\<lambda>v. v = 0) ''creator verified final data''] @
        ?gives @ [send_word E fd 0]"
      by (simp add: hsh_body_def hsh_importer_def hsh_map_def)
    have opens: "\<forall>f \<in> set (hsh_open E opt). appends (\<lambda>c. no_send c \<and> \<not> touches c) f"
      by (auto simp: hsh_open_def intro!: appends_check)
    have use: "\<forall>f \<in> set ?use. appends no_send f" "\<forall>f \<in> set ?gives. appends no_send f"
      by (auto simp: alloc_steps quiet intro!: appends_check)
    show ?thesis
      unfolding body by (intro turn_begin turn_exchange turn_last opens use say) (simp_all add: quiet)
  qed
  ultimately show ?thesis by simp
qed

lemma hsh_finish_untouched: "grows (\<lambda>c. \<not> touches c) s (hsh_finish E opt fd s)"
  unfolding hsh_finish_def Let_def by (rule grows_trans [OF grows_trans [OF grows_trans [OF grows_untouched(1,2)] grows_untouched(3)] grows_untouched(3)]; simp)

lemma hsh_worker_turns:
  assumes law: "bounded_transfers E" and t: "sends_on fd (trace_of s) = 0" "list_all (\<lambda>c. \<not> touches c) (map fst (trace_of s))"
    and w: "hsh_worker E opt importer fd bytes s = Some (k, s')"
  shows "calls_at touches fd (turn (if importer then 8 else 0)) (trace_of s')"
proof -
  obtain e s1 where run: "run_steps (hsh_body E opt importer fd bytes) (hsh_init s) = Some (e, s1)"
    and s': "s' = probe.truncate (hsh_finish E opt fd s1)"
    by (rule hsh_worker_cases [OF w])
  show ?thesis
    using body_turns [OF hsh_turns [OF law] run hsh_finish_untouched] t by (simp add: s' trace_of_def)
qed

interpretation hsh_turn: turn_worker E "\<lambda>importer fd. hsh_worker E opt importer fd bytes"
  for E :: "'w env" and opt bytes
  by unfold_locales (rule hsh_worker_turns)

subsection \<open>device_share\<close>

lemma dvs_turns:
  assumes law: "bounded_transfers E"
  shows "takes_turns fd (if importer then 8 else 0) (dvs_body E importer fd bytes)"
proof -
  note say = words_say [OF law]
  have open_quiet: "\<forall>f \<in> set (dvs_open E @ dvs_make_host E bytes). appends (\<lambda>c. no_send c \<and> \<not> touches c) f"
    by (auto simp: dvs_open_def dvs_make_host_def intro!: step_effects)
  have "takes_turns fd 0 (dvs_body E False fd bytes)"
  proof -
    let ?start = "dvs_open E @ dvs_make_host E bytes @ take 12 (dvs_creator E fd bytes)"
    have body: "dvs_body E False fd bytes = ?start @
        [(\<lambda>s. send_word E fd (dvs_token s) s), check_receive E fd (\<lambda>v. v = 0) ''importer verified D2D and wrote shared mapping''] @
        [\<lambda>s. verify E (dvs_shared s) bytes 202 ''CREATOR_SEES_IMPORTER_WRITE'' s] @
        [send_word E fd 0, check_receive E fd (\<lambda>v. v = 0) ''importer resources released''] @ []"
      by (simp add: dvs_body_def dvs_creator_def allocate_hbm_def)
    have start: "\<forall>f \<in> set ?start. appends no_send f"
      by (auto simp: dvs_open_def dvs_make_host_def dvs_creator_def allocate_hbm_def hal_copy_def alloc_steps intro!: step_effects memory_appends)
    show ?thesis
      unfolding body by (intro turn_exchange turn_end start say) (auto intro: memory_appends)
  qed
  moreover have "takes_turns fd 8 (dvs_body E True fd bytes)"
  proof -
    let ?use = "tl (dvs_import E fd bytes) @ dvs_exchange E bytes"
    have body: "dvs_body E True fd bytes =
        (dvs_open E @ dvs_make_host E bytes) @ [receive_into E fd (\<lambda>v s. s\<lparr>dvs_token := v\<rparr>)] @ ?use @
        [send_word E fd 0, check_receive E fd (\<lambda>v. v = 0) ''creator acknowledged verification''] @ dvs_give_back E @ [send_word E fd 0]"
      by (simp add: dvs_body_def dvs_importer_def dvs_import_def)
    have use: "\<forall>f \<in> set ?use. appends no_send f" "\<forall>f \<in> set (dvs_give_back E). appends no_send f"
      by (auto simp: dvs_import_def dvs_exchange_def dvs_give_back_def allocate_hbm_def hal_copy_def alloc_steps intro!: step_effects memory_appends)
    show ?thesis
      unfolding body by (intro turn_begin turn_exchange turn_last open_quiet use say) simp_all
  qed
  ultimately show ?thesis by simp
qed

lemma dvs_ends_untouched: "grows (\<lambda>c. \<not> touches c) s (dvs_close E fd (dvs_scope_end E s))"
proof -
  have "grows (\<lambda>c. \<not> touches c) s (dvs_scope_end E s)"
    unfolding dvs_scope_end_def Let_def
    by (rule grows_trans [OF grows_trans [OF _ grows_untouched(1)] grows_untouched(1)]) (simp add: grows_untouched(2))
  moreover have "grows (\<lambda>c. \<not> touches c) t (dvs_close E fd t)" for t :: "'a device_share"
    unfolding dvs_close_def Let_def
    by (rule grows_trans [OF grows_trans [OF grows_trans [OF grows_untouched(2) grows_untouched(3)] grows_untouched(3)] grows_untouched(3)]; simp)
  ultimately show ?thesis
    by (blast intro: grows_trans)
qed

lemma dvs_worker_turns:
  assumes law: "bounded_transfers E" and t: "sends_on fd (trace_of s) = 0" "list_all (\<lambda>c. \<not> touches c) (map fst (trace_of s))"
    and w: "dvs_worker E importer fd bytes s = Some (k, s')"
  shows "calls_at touches fd (turn (if importer then 8 else 0)) (trace_of s')"
proof -
  obtain e s1 where run: "run_steps (dvs_body E importer fd bytes) (dvs_init s) = Some (e, s1)"
    and s': "s' = probe.truncate (dvs_close E fd (dvs_scope_end E s1))"
    by (rule dvs_worker_cases [OF w])
  show ?thesis
    using body_turns [OF dvs_turns [OF law] run dvs_ends_untouched] t by (simp add: s' trace_of_def)
qed

interpretation dvs_turn: turn_worker E "\<lambda>importer fd. dvs_worker E importer fd bytes"
  for E :: "'w env" and bytes
  by unfold_locales (rule dvs_worker_turns)

subsection \<open>hal_map_probe\<close>

lemma hmp_turns:
  assumes law: "bounded_transfers E"
  shows "takes_turns fd (if importer then 8 else 0) (hmp_body E importer host device bytes fd)"
proof -
  note say = hm_words_say [OF law] and mem = hmp_memory_steps(1,3) [THEN appends_mono]
  have opens: "\<forall>f \<in> set (hmp_open E device). appends (\<lambda>c. no_send c \<and> \<not> touches c) f"
    by (auto simp: hmp_open_def intro!: step_effects)
  have "takes_turns fd 0 (hmp_body E False host device bytes fd)"
  proof -
    let ?start = "hmp_open E device @ hmp_create E bytes @ take 3 (hmp_share E host bytes fd)"
    have body: "hmp_body E False host device bytes fd = ?start @
        [(\<lambda>s. hm_send_word E fd (hmp_token s) s), hmp_expect_zero E fd ''importer mapped''] @
        [when_step host [\<lambda>s. hm_verify E (hmp_va s) bytes 202 s]] @
        [hm_send_word E fd 0, hmp_expect_zero E fd ''importer released mapping''] @ []"
      by (simp add: hmp_body_def hmp_share_def)
    have start: "\<forall>f \<in> set ?start. appends no_send f"
      by (auto simp: hmp_open_def hmp_create_def hmp_share_def alloc_steps intro!: step_effects mem)
    show ?thesis
      unfolding body by (intro turn_exchange turn_end start say) (auto intro!: appends_when mem)
  qed
  moreover have "takes_turns fd 8 (hmp_body E True host device bytes fd)"
  proof -
    let ?use = "hmp_import E host bytes @ take 1 (hmp_use E host bytes fd)"
    let ?gives = "[unmap_step E ''importer unmap'' hmp_alloc hmp_alloc_update,
        release_step E ''importer release'' hmp_alloc hmp_alloc_update, free_step E ''importer free VA'' hmp_alloc hmp_alloc_update]"
    have body: "hmp_body E True host device bytes fd = hmp_open E device @ [hmp_receive E fd] @ ?use @
        [hm_send_word E fd 0, hmp_expect_zero E fd ''creator acknowledged''] @ ?gives @ [hm_send_word E fd 0]"
      by (simp add: hmp_body_def hmp_use_def)
    have use: "\<forall>f \<in> set ?use. appends no_send f" "\<forall>f \<in> set ?gives. appends no_send f"
      by (auto simp: hmp_import_def hmp_use_def alloc_steps intro!: step_effects mem)
    show ?thesis
      unfolding body by (intro turn_begin turn_exchange turn_last opens use say)
  qed
  ultimately show ?thesis by simp
qed

lemma hmp_cleanup_untouched: "grows (\<lambda>c. \<not> touches c) s (hmp_cleanup E device fd s)"
  unfolding hmp_cleanup_def Let_def
  by (rule grows_trans [OF grows_trans [OF grows_untouched(2,1)] grows_untouched(3)]; simp)

lemma hmp_worker_turns:
  assumes law: "bounded_transfers E" and t: "sends_on fd (trace_of s) = 0" "list_all (\<lambda>c. \<not> touches c) (map fst (trace_of s))"
    and w: "hmp_worker E importer host device bytes fd s = Some (k, s')"
  shows "calls_at touches fd (turn (if importer then 8 else 0)) (trace_of s')"
proof -
  obtain e s1 where run: "run_steps (hmp_body E importer host device bytes fd) (hmp_init device s) = Some (e, s1)"
    and s': "s' = probe.truncate (hmp_cleanup E device fd s1)"
    by (rule hmp_worker_cases [OF w])
  show ?thesis
    using body_turns [OF hmp_turns [OF law] run hmp_cleanup_untouched] t by (simp add: s' trace_of_def)
qed

interpretation hmp_turn: turn_worker E "\<lambda>importer fd. hmp_worker E importer host device bytes fd"
  for E :: "'w env" and host device bytes
  by unfold_locales (rule hmp_worker_turns)

end
