(* ===== verification/Probe_Races.thy ===== *)
theory Probe_Races
  imports Probe_Props Worker_Turns
begin

text \<open>
  The two processes of a sharing probe never race: the properties, each with a run to which it applies.
\<close>

lemma touched_events:
  assumes "woven tc ti t" and "list_ex (\<lambda>e. touches (fst e)) tc" and "list_ex (\<lambda>e. touches (fst e)) ti"
  shows "\<exists>e. (False, e) \<in> set t \<and> touches (fst e)" "\<exists>e. (True, e) \<in> set t \<and> touches (fst e)"
  using assms by (auto simp: woven_def of_process_def list_ex_iff; force)+

text \<open>C4. In host_share the two processes never race for memory, however they are scheduled, whatever driver and kernel
  answer, and whether the run passes or fails: between any access to memory by one process and a later
  access by the other, loads and stores of the processor, copies by the device and asynchronous transfers alike, the
  first process has sent a word, or a part of one, that the second has received. Words may be cut into pieces.\<close>

theorem host_share_never_races:
  assumes laws: "bounded_transfers E" "bounded_transfers E'"
    and parent: "launch_pair E fd_args (\<lambda>importer fd. hsh_worker E opt importer fd bytes) args s = Some (Exit c, s')"
      "trace_of s = []" "c \<noteq> 127"
    and pair: "own_pair (trace_of s') = Some pair"
    and child: "hsh_worker E' opt' True (high_fd pair) bytes' u = Some (code, u')" "trace_of u = []"
    and order: "woven (trace_of s') (trace_of u') t" "exchanged (low_fd pair) (high_fd pair) t"
  shows "separated (low_fd pair) (high_fd pair) t"
proof (rule turns_separate [OF _ _ order(2)])
  show "calls_at touches (low_fd pair) (turn 0) (of_process False t)"
    using hsh_turn.launched_turns [OF laws(1) parent(2) pair parent(1,3)] order(1) by (simp add: woven_def)
  show "calls_at touches (high_fd pair) (turn 8) (of_process True t)"
    using hsh_worker_turns [OF laws(2) _ _ child(1)] child(2) order(1) by (simp add: woven_def)
qed

theorem host_share_never_races_witness:
  "\<exists>t. length t = 228 \<and> separated 5 6 t \<and>
     (\<exists>e. (False, e) \<in> set t \<and> touches (fst e)) \<and> (\<exists>e. (True, e) \<in> set t \<and> touches (fst e))"
proof -
  obtain s' where s': "hsh_passing = Some (Exit 0, s')" "own_pair (trace_of s') = Some 0x600000005"
    "map (counts 5) (trace_of s') = word_profile 119 [19, 108, 111] [18, 107, 110]" "list_ex (\<lambda>e. touches (fst e)) (trace_of s')"
    using hsh_passing_run by blast
  obtain u' where u': "hsh_child = Some (0, u')" "map (counts 6) (trace_of u') = word_profile 109 [3, 12, 101] [11, 100, 105]"
    "list_ex (\<lambda>e. touches (fst e)) (trace_of u')"
    using hsh_child_run by blast
  let ?t = "merge_runs hsh_order (both (trace_of s') (trace_of u'))"
  have w: "woven (trace_of s') (trace_of u') ?t"
    by (rule both_woven) (simp_all add: hsh_order_def word_profile_length [OF s'(3)] word_profile_length [OF u'(2)])
  have x: "exchanged 5 6 ?t"
    by (rule both_exchanged [OF s'(3) u'(2) hsh_paced])
  have "separated (low_fd 0x600000005) (high_fd 0x600000005) ?t"
    by (rule host_share_never_races [where E = toy_env and E' = toy_env, OF toy_bounded toy_bounded s'(1) [unfolded hsh_passing_def]
          _ _ s'(2) u'(1) [unfolded hsh_child_def, folded example_pair(2)] _ w]) (simp_all add: example_pair x)
  moreover have "length ?t = 228"
    by (simp add: hsh_order_def both_def word_profile_length [OF s'(3)] word_profile_length [OF u'(2)])
  ultimately show ?thesis
    using touched_events [OF w s'(4) u'(3)] unfolding example_pair by blast
qed

text \<open>C13. Nor do the two processes of device_share, where the second process and the device work on the memory by copies.\<close>

theorem device_share_never_races:
  assumes laws: "bounded_transfers E" "bounded_transfers E'"
    and parent: "launch_pair E fd_args (\<lambda>importer fd. dvs_worker E importer fd bytes) args s = Some (Exit c, s')"
      "trace_of s = []" "c \<noteq> 127"
    and pair: "own_pair (trace_of s') = Some pair"
    and child: "dvs_worker E' True (high_fd pair) bytes' u = Some (code, u')" "trace_of u = []"
    and order: "woven (trace_of s') (trace_of u') t" "exchanged (low_fd pair) (high_fd pair) t"
  shows "separated (low_fd pair) (high_fd pair) t"
proof (rule turns_separate [OF _ _ order(2)])
  show "calls_at touches (low_fd pair) (turn 0) (of_process False t)"
    using dvs_turn.launched_turns [OF laws(1) parent(2) pair parent(1,3)] order(1) by (simp add: woven_def)
  show "calls_at touches (high_fd pair) (turn 8) (of_process True t)"
    using dvs_worker_turns [OF laws(2) _ _ child(1)] child(2) order(1) by (simp add: woven_def)
qed

theorem device_share_never_races_witness:
  "\<exists>t. length t = 87 \<and> separated 5 6 t \<and>
     (\<exists>e. (False, e) \<in> set t \<and> touches (fst e)) \<and> (\<exists>e. (True, e) \<in> set t \<and> touches (fst e))"
proof -
  obtain s' where s': "dvs_parent = Some (Exit 0, s')" "own_pair (trace_of s') = Some 0x600000005"
    "map (counts 5) (trace_of s') = word_profile 46 [29, 33] [28, 32]" "list_ex (\<lambda>e. touches (fst e)) (trace_of s')"
    using dvs_parent_run by blast
  obtain u' where u': "dvs_child = Some (0, u')" "map (counts 6) (trace_of u') = word_profile 41 [7, 28] [27, 32]"
    "list_ex (\<lambda>e. touches (fst e)) (trace_of u')"
    using dvs_child_run by blast
  let ?t = "merge_runs (pair_order 29 28 46 41) (both (trace_of s') (trace_of u'))"
  have w: "woven (trace_of s') (trace_of u') ?t"
    by (rule both_woven) (simp_all add: pair_order_def word_profile_length [OF s'(3)] word_profile_length [OF u'(2)])
  have x: "exchanged 5 6 ?t"
    by (rule both_exchanged [OF s'(3) u'(2) dvs_paced])
  have "separated (low_fd 0x600000005) (high_fd 0x600000005) ?t"
    by (rule device_share_never_races [where E = toy_env and E' = toy_env, OF toy_bounded toy_bounded s'(1) [unfolded dvs_parent_def]
          _ _ s'(2) u'(1) [unfolded dvs_child_def, folded example_pair(2)] _ w]) (simp_all add: example_pair x)
  moreover have "length ?t = 87"
    by (simp add: pair_order_def both_def word_profile_length [OF s'(3)] word_profile_length [OF u'(2)])
  ultimately show ?thesis
    using touched_events [OF w s'(4) u'(3)] unfolding example_pair by blast
qed

text \<open>C21. Nor do the two processes of hal_map_probe, with its own words over the socket.\<close>

theorem hal_map_never_races:
  assumes laws: "bounded_transfers E" "bounded_transfers E'"
    and parent: "launch_pair E fd_args (\<lambda>importer fd. hmp_worker E importer host device bytes fd) args s = Some (Exit c, s')"
      "trace_of s = []" "c \<noteq> 127"
    and pair: "own_pair (trace_of s') = Some pair"
    and child: "hmp_worker E' True host' device' bytes' (high_fd pair) u = Some (code, u')" "trace_of u = []"
    and order: "woven (trace_of s') (trace_of u') t" "exchanged (low_fd pair) (high_fd pair) t"
  shows "separated (low_fd pair) (high_fd pair) t"
proof (rule turns_separate [OF _ _ order(2)])
  show "calls_at touches (low_fd pair) (turn 0) (of_process False t)"
    using hmp_turn.launched_turns [OF laws(1) parent(2) pair parent(1,3)] order(1) by (simp add: woven_def)
  show "calls_at touches (high_fd pair) (turn 8) (of_process True t)"
    using hmp_worker_turns [OF laws(2) _ _ child(1)] child(2) order(1) by (simp add: woven_def)
qed

theorem hal_map_never_races_witness:
  "\<exists>t. length t = 47 \<and> separated 5 6 t \<and>
     (\<exists>e. (False, e) \<in> set t \<and> touches (fst e)) \<and> (\<exists>e. (True, e) \<in> set t \<and> touches (fst e))"
proof -
  obtain s' where s': "hmp_parent = Some (Exit 0, s')" "own_pair (trace_of s') = Some 0x600000005"
    "map (counts 5) (trace_of s') = word_profile 28 [17, 21] [16, 20]" "list_ex (\<lambda>e. touches (fst e)) (trace_of s')"
    using hmp_parent_run by blast
  obtain u' where u': "hmp_child = Some (0, u')" "map (counts 6) (trace_of u') = word_profile 19 [2, 12] [11, 16]"
    "list_ex (\<lambda>e. touches (fst e)) (trace_of u')"
    using hmp_child_run by blast
  let ?t = "merge_runs (pair_order 17 12 28 19) (both (trace_of s') (trace_of u'))"
  have w: "woven (trace_of s') (trace_of u') ?t"
    by (rule both_woven) (simp_all add: pair_order_def word_profile_length [OF s'(3)] word_profile_length [OF u'(2)])
  have x: "exchanged 5 6 ?t"
    by (rule both_exchanged [OF s'(3) u'(2) hmp_paced])
  have "separated (low_fd 0x600000005) (high_fd 0x600000005) ?t"
    by (rule hal_map_never_races [where E = toy_env and E' = toy_env, OF toy_bounded toy_bounded s'(1) [unfolded hmp_parent_def]
          _ _ s'(2) u'(1) [unfolded hmp_child_def, folded example_pair(2)] _ w]) (simp_all add: example_pair x)
  moreover have "length ?t = 47"
    by (simp add: pair_order_def both_def word_profile_length [OF s'(3)] word_profile_length [OF u'(2)])
  ultimately show ?thesis
    using touched_events [OF w s'(4) u'(3)] unfolding example_pair by blast
qed

end
